(* ===== verification/GoBase.thy ===== *)
theory GoBase
  imports Main "HOL-Library.Word"
begin

text \<open>
  Prelude of the development: the parts of the Go language and of its standard library
  the modelled packages use, and the list lemmas the components share.

  A Go \<open>string\<close> or \<open>[]byte\<close> is a byte sequence, here a \<^typ>\<open>string\<close> (a list of
  \<^typ>\<open>char\<close>, each one byte); \<open>len\<close> is \<^const>\<open>length\<close>. Non-ASCII text is its UTF-8
  bytes. \<open>TrimSpace\<close> and \<open>Fields\<close> follow \<open>unicode.IsSpace\<close> on UTF-8 exactly (the multi-byte
  white space is listed by its byte sequences); \<open>ToLower\<close>, \<open>ToUpper\<close> and \<open>EqualFold\<close> fold
  the ASCII letters and leave every other byte alone, which is what they do on ASCII text.
  A Go slice expression or index that could be out of range is written with
  \<open>go_slice\<close>, whose result \<^const>\<open>None\<close> is the run-time panic.
\<close>

named_theorems go_str \<open>facts about the Go string functions\<close>
named_theorems go_def \<open>definitions of the Go string functions, for evaluation\<close>

type_synonym bytes = string

section \<open>Slices and indices\<close>

definition go_slice :: "'a list \<Rightarrow> int \<Rightarrow> int \<Rightarrow> 'a list option" where
  "go_slice xs lo hi =
     (if 0 \<le> lo \<and> lo \<le> hi \<and> hi \<le> int (length xs)
      then Some (take (nat (hi - lo)) (drop (nat lo) xs)) else None)"

lemma go_slice_Some [simp]:
  "0 \<le> lo \<Longrightarrow> lo \<le> hi \<Longrightarrow> hi \<le> int (length xs) \<Longrightarrow>
   go_slice xs lo hi = Some (take (nat (hi - lo)) (drop (nat lo) xs))"
  by (simp add: go_slice_def)

lemma go_slice_SomeD:
  "go_slice xs lo hi = Some ys \<Longrightarrow>
   0 \<le> lo \<and> lo \<le> hi \<and> hi \<le> int (length xs) \<and> ys = take (nat (hi - lo)) (drop (nat lo) xs)"
  by (auto simp: go_slice_def split: if_splits)

lemma go_slice_infix: "go_slice xs lo hi = Some ys \<Longrightarrow> \<exists>u v. xs = u @ ys @ v"
  by (auto dest!: go_slice_SomeD)
     (metis append_take_drop_id)

section \<open>Bytes\<close>

abbreviation (input) LF :: char where "LF \<equiv> CHR 0x0A"
abbreviation (input) CR :: char where "CR \<equiv> CHR 0x0D"
abbreviation (input) TAB :: char where "TAB \<equiv> CHR 0x09"
abbreviation (input) BSL :: char where "BSL \<equiv> CHR 0x5C"
abbreviation (input) DQ :: char where "DQ \<equiv> CHR 0x22"
abbreviation (input) SQ :: char where "SQ \<equiv> CHR 0x27"
abbreviation (input) BQ :: char where "BQ \<equiv> CHR 0x60"

definition byte :: "char \<Rightarrow> nat" where
  "byte c = of_char c"

definition lower_byte :: "char \<Rightarrow> char" where
  "lower_byte c = (if 65 \<le> byte c \<and> byte c \<le> 90 then char_of (byte c + 32) else c)"

definition upper_byte :: "char \<Rightarrow> char" where
  "upper_byte c = (if 97 \<le> byte c \<and> byte c \<le> 122 then char_of (byte c - 32) else c)"

definition ToLower :: "bytes \<Rightarrow> bytes" where
  "ToLower s = map lower_byte s"

definition ToUpper :: "bytes \<Rightarrow> bytes" where
  "ToUpper s = map upper_byte s"

definition EqualFold :: "bytes \<Rightarrow> bytes \<Rightarrow> bool" where
  "EqualFold s t \<longleftrightarrow> ToLower s = ToLower t"

lemma length_ToLower [simp]: "length (ToLower s) = length s"
  by (simp add: ToLower_def)

lemma lower_byte_idem [simp]: "lower_byte (lower_byte c) = lower_byte c"
proof (cases "65 \<le> byte c \<and> byte c \<le> 90")
  case True
  then have "byte (char_of (byte c + 32)) = byte c + 32"
    by (simp add: byte_def)
  with True have "\<not> byte (lower_byte c) \<le> 90"
    by (simp add: lower_byte_def)
  then show ?thesis by (simp add: lower_byte_def [of "lower_byte c"])
next
  case False
  then have "lower_byte c = c" by (auto simp: lower_byte_def)
  then show ?thesis by simp
qed

lemma ToLower_idem [simp]: "ToLower (ToLower s) = ToLower s"
  by (simp add: ToLower_def)

section \<open>Prefixes, suffixes, search\<close>

definition HasPrefix :: "bytes \<Rightarrow> bytes \<Rightarrow> bool" where
  "HasPrefix s p \<longleftrightarrow> take (length p) s = p"

definition HasSuffix :: "bytes \<Rightarrow> bytes \<Rightarrow> bool" where
  "HasSuffix s p \<longleftrightarrow> length p \<le> length s \<and> drop (length s - length p) s = p"

fun Contains :: "bytes \<Rightarrow> bytes \<Rightarrow> bool" where
  "Contains [] t = (t = [])"
| "Contains (c # s) t = (HasPrefix (c # s) t \<or> Contains s t)"

definition TrimPrefix :: "bytes \<Rightarrow> bytes \<Rightarrow> bytes" where
  "TrimPrefix s p = (if HasPrefix s p then drop (length p) s else s)"

definition TrimSuffix :: "bytes \<Rightarrow> bytes \<Rightarrow> bytes" where
  "TrimSuffix s p = (if HasSuffix s p then take (length s - length p) s else s)"

text \<open>\<open>IndexByte\<close>: the position of the first occurrence (Go: -1 when absent, here \<^const>\<open>None\<close>).\<close>

fun IndexByte :: "bytes \<Rightarrow> char \<Rightarrow> nat option" where
  "IndexByte [] c = None"
| "IndexByte (d # s) c = (if d = c then Some 0 else map_option Suc (IndexByte s c))"

definition LastIndexByte :: "bytes \<Rightarrow> char \<Rightarrow> nat option" where
  "LastIndexByte s c = map_option (\<lambda>i. length s - 1 - i) (IndexByte (rev s) c)"

fun CutAt :: "bytes \<Rightarrow> bytes \<Rightarrow> (bytes \<times> bytes) option" where
  "CutAt sep [] = (if sep = [] then Some ([], []) else None)"
| "CutAt sep (c # s) =
     (if HasPrefix (c # s) sep then Some ([], drop (length sep) (c # s))
      else map_option (\<lambda>(b, a). (c # b, a)) (CutAt sep s))"

text \<open>\<open>strings.Cut\<close>: before, after, found.\<close>

definition Cut :: "bytes \<Rightarrow> bytes \<Rightarrow> bytes \<times> bytes \<times> bool" where
  "Cut s sep = (case CutAt sep s of Some (b, a) \<Rightarrow> (b, a, True) | None \<Rightarrow> (s, [], False))"

definition count_byte :: "bytes \<Rightarrow> char \<Rightarrow> nat" where
  "count_byte s c = length (filter (\<lambda>d. d = c) s)"

lemma HasPrefix_append [simp]: "HasPrefix (p @ s) p"
  by (simp add: HasPrefix_def)

lemma HasPrefixE: "HasPrefix s p \<Longrightarrow> \<exists>r. s = p @ r"
  by (metis HasPrefix_def append_take_drop_id)

lemma HasPrefix_iff: "HasPrefix s p \<longleftrightarrow> (\<exists>r. s = p @ r)"
  using HasPrefixE by auto

lemma HasPrefix_Nil [simp]: "HasPrefix s []"
  by (simp add: HasPrefix_def)

lemma HasPrefix_length: "HasPrefix s p \<Longrightarrow> length p \<le> length s"
  by (auto simp: HasPrefix_iff)

lemma HasSuffix_append [simp]: "HasSuffix (s @ p) p"
  by (simp add: HasSuffix_def)

lemma HasSuffix_iff: "HasSuffix s p \<longleftrightarrow> (\<exists>r. s = r @ p)"
  by (metis HasSuffix_append HasSuffix_def append_take_drop_id)

lemma IndexByte_Some: "IndexByte s c = Some i \<Longrightarrow> i < length s \<and> s ! i = c"
  by (induction s arbitrary: i) (auto split: if_splits)

lemma IndexByte_None: "IndexByte s c = None \<longleftrightarrow> c \<notin> set s"
  by (induction s) auto

lemma IndexByte_first: "IndexByte s c = Some i \<Longrightarrow> c \<notin> set (take i s)"
  by (induction s arbitrary: i) (auto split: if_splits)

lemma count_byte_Nil [simp]: "count_byte [] c = 0"
  by (simp add: count_byte_def)

lemma count_byte_Cons [simp]:
  "count_byte (d # s) c = (if d = c then Suc (count_byte s c) else count_byte s c)"
  by (simp add: count_byte_def)

lemma count_byte_append [simp]: "count_byte (s @ t) c = count_byte s c + count_byte t c"
  by (simp add: count_byte_def)

lemma count_byte_take_Suc:
  "i < length s \<Longrightarrow>
   count_byte (take (Suc i) s) c = count_byte (take i s) c + (if s ! i = c then 1 else 0)"
  by (simp add: take_Suc_conv_app_nth)

lemma count_byte_take_mono: "i \<le> j \<Longrightarrow> count_byte (take i s) c \<le> count_byte (take j s) c"
  by (metis count_byte_append le_add1 min.absorb1 take_add le_add_diff_inverse)

lemma count_byte_take_le: "count_byte (take i s) c \<le> count_byte s c"
  by (metis append_take_drop_id count_byte_append le_add1)

section \<open>White space\<close>

text \<open>The UTF-8 encodings of the characters \<open>unicode.IsSpace\<close> accepts.\<close>

definition space_seqs :: "bytes list" where
  "space_seqs =
     [[CHR 0x20], [CHR 0x09], [CHR 0x0A], [CHR 0x0B], [CHR 0x0C], [CHR 0x0D],
      [CHR 0xC2, CHR 0x85], [CHR 0xC2, CHR 0xA0],
      [CHR 0xE1, CHR 0x9A, CHR 0x80],
      [CHR 0xE2, CHR 0x80, CHR 0x80], [CHR 0xE2, CHR 0x80, CHR 0x81], [CHR 0xE2, CHR 0x80, CHR 0x82],
      [CHR 0xE2, CHR 0x80, CHR 0x83], [CHR 0xE2, CHR 0x80, CHR 0x84], [CHR 0xE2, CHR 0x80, CHR 0x85],
      [CHR 0xE2, CHR 0x80, CHR 0x86], [CHR 0xE2, CHR 0x80, CHR 0x87], [CHR 0xE2, CHR 0x80, CHR 0x88],
      [CHR 0xE2, CHR 0x80, CHR 0x89], [CHR 0xE2, CHR 0x80, CHR 0x8A],
      [CHR 0xE2, CHR 0x80, CHR 0xA8], [CHR 0xE2, CHR 0x80, CHR 0xA9],
      [CHR 0xE2, CHR 0x80, CHR 0xAF], [CHR 0xE2, CHR 0x81, CHR 0x9F],
      [CHR 0xE3, CHR 0x80, CHR 0x80]]"

text \<open>The number of bytes of the white space at the start (0 when there is none).\<close>

definition lead_space :: "bytes \<Rightarrow> nat" where
  "lead_space s = (case find (\<lambda>q. HasPrefix s q) space_seqs of None \<Rightarrow> 0 | Some q \<Rightarrow> length q)"

definition trail_space :: "bytes \<Rightarrow> nat" where
  "trail_space s = (case find (\<lambda>q. HasSuffix s q) space_seqs of None \<Rightarrow> 0 | Some q \<Rightarrow> length q)"

lemma find_in_list: "find P xs = Some x \<Longrightarrow> x \<in> set xs \<and> P x"
  by (metis find_Some_iff nth_mem)

lemma space_seqs_nonempty: "q \<in> set space_seqs \<Longrightarrow> q \<noteq> []"
  by (auto simp: space_seqs_def)

lemma lead_space_le: "lead_space s \<le> length s"
  by (auto simp: lead_space_def dest!: find_in_list HasPrefix_length split: option.splits)

lemma trail_space_le: "trail_space s \<le> length s"
  by (auto simp: trail_space_def HasSuffix_def dest!: find_in_list split: option.splits)

lemma lead_space_shorter:
  "lead_space s \<noteq> 0 \<Longrightarrow> length (drop (lead_space s) s) < length s"
  using lead_space_le [of s] by simp

lemma trail_space_shorter:
  "trail_space s \<noteq> 0 \<Longrightarrow> length (take (length s - trail_space s) s) < length s"
  using trail_space_le [of s] by simp

lemma lead_space_Nil [simp]: "lead_space [] = 0"
  using lead_space_le [of "[]"] by simp

lemma trail_space_Nil [simp]: "trail_space [] = 0"
  using trail_space_le [of "[]"] by simp

function trim_left :: "bytes \<Rightarrow> bytes" where
  "trim_left s = (if lead_space s = 0 then s else trim_left (drop (lead_space s) s))"
  by pat_completeness auto
termination
  by (relation "measure length") (simp_all only: wf_measure in_measure lead_space_shorter not_False_eq_True simp_thms)

function trim_right :: "bytes \<Rightarrow> bytes" where
  "trim_right s = (if trail_space s = 0 then s else trim_right (take (length s - trail_space s) s))"
  by pat_completeness auto
termination
  by (relation "measure length") (simp_all only: wf_measure in_measure trail_space_shorter not_False_eq_True simp_thms)

declare trim_left.simps [simp del] trim_right.simps [simp del]

definition TrimSpace :: "bytes \<Rightarrow> bytes" where
  "TrimSpace s = trim_right (trim_left s)"

lemma trim_left_suffix: "\<exists>p. s = p @ trim_left s"
proof (induction s rule: trim_left.induct)
  case (1 s)
  show ?case
  proof (cases "lead_space s = 0")
    case True
    then show ?thesis by (simp add: trim_left.simps [of s])
  next
    case False
    with 1 obtain p where "drop (lead_space s) s = p @ trim_left s"
      by (auto simp: trim_left.simps [of s])
    then have "s = (take (lead_space s) s @ p) @ trim_left s"
      by (metis append.assoc append_take_drop_id)
    then show ?thesis by blast
  qed
qed

lemma trim_right_prefix: "\<exists>q. s = trim_right s @ q"
proof (induction s rule: trim_right.induct)
  case (1 s)
  show ?case
  proof (cases "trail_space s = 0")
    case True
    then show ?thesis by (simp add: trim_right.simps [of s])
  next
    case False
    with 1 obtain q where "take (length s - trail_space s) s = trim_right s @ q"
      by (auto simp: trim_right.simps [of s])
    then have "s = trim_right s @ (q @ drop (length s - trail_space s) s)"
      by (metis append.assoc append_take_drop_id)
    then show ?thesis by blast
  qed
qed

lemma TrimSpace_infix: "\<exists>p q. s = p @ TrimSpace s @ q"
  by (metis TrimSpace_def trim_left_suffix trim_right_prefix)

lemma length_TrimSpace_le: "length (TrimSpace s) \<le> length s"
  by (metis TrimSpace_infix le_add1 le_add2 le_trans length_append)

lemma TrimSpace_Nil [simp]: "TrimSpace [] = []"
  by (simp add: TrimSpace_def trim_left.simps [of "[]"] trim_right.simps [of "[]"])

text \<open>\<open>strings.Fields\<close>: the maximal runs without white space.\<close>

function fields_go :: "bytes \<Rightarrow> bytes \<Rightarrow> bytes list" where
  "fields_go acc s =
     (if s = [] then (if acc = [] then [] else [rev acc])
      else if lead_space s = 0 then fields_go (hd s # acc) (tl s)
      else (if acc = [] then [] else [rev acc]) @ fields_go [] (drop (lead_space s) s))"
  by pat_completeness auto
termination
  by (relation "measure (\<lambda>(acc, s). length s)") (use lead_space_shorter in auto)

declare fields_go.simps [simp del]

definition Fields :: "bytes \<Rightarrow> bytes list" where
  "Fields s = fields_go [] s"

section \<open>Splitting and joining\<close>

fun split_byte :: "char \<Rightarrow> bytes \<Rightarrow> bytes list" where
  "split_byte sep [] = [[]]"
| "split_byte sep (c # s) =
     (if c = sep then [] # split_byte sep s
      else (case split_byte sep s of [] \<Rightarrow> [[c]] | w # ws \<Rightarrow> (c # w) # ws))"

fun Join :: "bytes list \<Rightarrow> bytes \<Rightarrow> bytes" where
  "Join [] sep = []"
| "Join [x] sep = x"
| "Join (x # y # ys) sep = x @ sep @ Join (y # ys) sep"

lemma split_byte_nonempty [simp]: "split_byte sep s \<noteq> []"
  by (induction s) (auto split: list.splits)

lemma length_split_byte: "length (split_byte sep s) = Suc (count_byte s sep)"
proof (induction s)
  case Nil
  then show ?case by simp
next
  case (Cons c s)
  then show ?case
    by (cases "split_byte sep s") auto
qed

lemma Join_Cons_nonempty: "xs \<noteq> [] \<Longrightarrow> Join (x # xs) sep = x @ sep @ Join xs sep"
  by (cases xs) auto

lemma Join_split_byte: "Join (split_byte sep s) [sep] = s"
proof (induction s)
  case Nil
  then show ?case by simp
next
  case (Cons c s)
  obtain w ws where "split_byte sep s = w # ws"
    by (meson neq_Nil_conv split_byte_nonempty)
  with Cons show ?case
    by (cases ws) (auto simp: Join_Cons_nonempty)
qed

lemma split_byte_no_sep: "w \<in> set (split_byte sep s) \<Longrightarrow> sep \<notin> set w"
proof (induction s arbitrary: w)
  case Nil
  then show ?case by simp
next
  case (Cons c s)
  obtain v vs where v: "split_byte sep s = v # vs"
    by (meson neq_Nil_conv split_byte_nonempty)
  with Cons show ?case
    by (auto split: if_splits)
qed

lemma length_Join:
  "length (Join xs [sep]) + (if xs = [] then 0 else 1) = sum_list (map (\<lambda>x. length x + 1) xs)"
  by (induction xs "[sep]" rule: Join.induct) auto

section \<open>Decimal numbers\<close>

fun show_nat :: "nat \<Rightarrow> bytes" where
  "show_nat n = (if n < 10 then [char_of (48 + n)]
     else show_nat (n div 10) @ [char_of (48 + n mod 10)])"

declare show_nat.simps [simp del]

definition show_int :: "int \<Rightarrow> bytes" where
  "show_int i = (if i < 0 then CHR ''-'' # show_nat (nat (- i)) else show_nat (nat i))"

section \<open>Small helpers\<close>

fun firstNonEmpty :: "bytes list \<Rightarrow> bytes" where
  "firstNonEmpty [] = []"
| "firstNonEmpty (v # vs) = (if v \<noteq> [] then v else firstNonEmpty vs)"

lemma firstNonEmpty_mem: "firstNonEmpty vs \<noteq> [] \<Longrightarrow> firstNonEmpty vs \<in> set vs"
  by (induction vs) (auto split: if_splits)

lemmas [go_def] = HasPrefix_def HasSuffix_def TrimPrefix_def TrimSuffix_def Cut_def
  ToLower_def ToUpper_def

lemmas [go_str] = HasPrefix_iff HasSuffix_iff

end
