(* ===== verification/Chunker.thy ===== *)
theory Chunker
  imports GoBase
begin

text \<open>
  \<open>internal/codesearch/chunk.go\<close>: the character chunker, which cuts a file into indexable
  blocks by size. Its state is the struct \<open>chunker\<close>; \<open>appendLine\<close>, \<open>splitLongLine\<close>,
  \<open>nextLineLen\<close> and \<open>flush\<close> are its methods, each taking the state and returning it updated.
  SHA-256 (hex digest) is the argument \<open>sha\<close>. Line numbers are \<^typ>\<open>int\<close> as in the code
  (they may be -1 on the way); indices into the list of lines are \<^typ>\<open>nat\<close>.

  The lemmas show the chunker's invariant (\<open>chunker_inv\<close>): the open run \<open>current\<close> is exactly
  the lines from \<open>start\<close> on, shorter than the limit; every block emitted so far is honest
  about its lines, in order, of bounded size; and no line of 49 bytes or more is lost.
\<close>

section \<open>Model\<close>

definition maxChunkChars :: nat where "maxChunkChars = 5000"
definition minChunkChars :: nat where "minChunkChars = 50"
definition minRemainderChars :: nat where "minRemainderChars = 500"

text \<open>\<open>int(maxChunkChars * 1.15)\<close>, a constant expression Go evaluates exactly.\<close>

definition effectiveMaxChars :: nat where
  "effectiveMaxChars = maxChunkChars * 115 div 100"

record Chunk =
  cPath :: bytes
  cStartLine :: int
  cEndLine :: int
  cContent :: bytes
  cHash :: bytes

record chunker =
  path :: bytes
  lines :: "bytes list"
  out :: "Chunk list"
  current :: "bytes list"
  clength :: nat
  start :: int

definition segmentHash :: "(bytes \<Rightarrow> bytes) \<Rightarrow> bytes \<Rightarrow> int \<Rightarrow> int \<Rightarrow> bytes \<Rightarrow> bytes" where
  "segmentHash sha p s e content =
     (let preview = (if length content > 100 then take 100 content else content)
      in sha (p @ ''-'' @ show_int s @ ''-'' @ show_int e @ ''-'' @
              show_int (int (length content)) @ ''-'' @ preview))"

definition joinLines :: "bytes list \<Rightarrow> bytes" where
  "joinLines ls = Join ls [LF]"

fun crlf_to_lf :: "bytes \<Rightarrow> bytes" where
  "crlf_to_lf [] = []"
| "crlf_to_lf (c # s) =
     (case s of [] \<Rightarrow> [c]
      | d # t \<Rightarrow> if c = CR \<and> d = LF then LF # crlf_to_lf t else c # crlf_to_lf s)"

definition splitLines :: "bytes \<Rightarrow> bytes list" where
  "splitLines s = split_byte LF (crlf_to_lf s)"

definition flush :: "(bytes \<Rightarrow> bytes) \<Rightarrow> chunker \<Rightarrow> int \<Rightarrow> chunker" where
  "flush sha c endLine =
     (if clength c < minChunkChars \<or> current c = []
      then c\<lparr>current := [], clength := 0, start := endLine + 1\<rparr>
      else (let content = Join (current c) [LF];
                s = start c + 1; e = endLine + 1
            in c\<lparr>out := out c @ [\<lparr>cPath = path c, cStartLine = s, cEndLine = e,
                     cContent = content, cHash = segmentHash sha (path c) s e content\<rparr>],
                 current := [], clength := 0, start := endLine + 1\<rparr>))"

definition nextLineLen :: "chunker \<Rightarrow> nat \<Rightarrow> nat" where
  "nextLineLen c i = (if i + 1 \<ge> length (lines c) then 0 else length (lines c ! (i + 1)))"

text \<open>The loop of \<open>splitLongLine\<close>: one block per \<open>effectiveMaxChars\<close> bytes of the line.\<close>

function splitLoop :: "(bytes \<Rightarrow> bytes) \<Rightarrow> chunker \<Rightarrow> nat \<Rightarrow> bytes \<Rightarrow> chunker" where
  "splitLoop sha c i line =
     (if line = [] then c
      else (let cut = min effectiveMaxChars (length line);
                c' = flush sha (c\<lparr>current := [take cut line], clength := cut, start := int i\<rparr>) (int i)
            in splitLoop sha c' i (drop cut line)))"
  by pat_completeness auto
termination
  by (relation "measure (\<lambda>(sha, c, i, line). length line)")
     (auto simp: effectiveMaxChars_def maxChunkChars_def)

definition splitLongLine :: "(bytes \<Rightarrow> bytes) \<Rightarrow> chunker \<Rightarrow> nat \<Rightarrow> bytes \<Rightarrow> chunker" where
  "splitLongLine sha c i line =
     (let c1 = (if current c \<noteq> [] then flush sha c (int i - 1) else c);
          c2 = splitLoop sha c1 i line
      in c2\<lparr>start := int i + 1, current := [], clength := 0\<rparr>)"

definition appendLine :: "(bytes \<Rightarrow> bytes) \<Rightarrow> chunker \<Rightarrow> nat \<Rightarrow> chunker" where
  "appendLine sha c i =
     (let line = lines c ! i; lineLen = length line + 1
      in if lineLen > effectiveMaxChars then splitLongLine sha c i line
         else (let c1 = (if clength c + lineLen > effectiveMaxChars \<and> length (current c) \<ge> 1
                            \<and> nextLineLen c i < minRemainderChars
                         then flush sha c (int i - 1) else c);
                   c2 = c1\<lparr>current := current c1 @ [line], clength := clength c1 + lineLen\<rparr>
               in if clength c2 \<ge> effectiveMaxChars then flush sha c2 (int i) else c2))"

text \<open>The character path of \<open>ChunkFile\<close> (its structural path is in \<open>Structural\<close>).\<close>

definition new_chunker :: "bytes \<Rightarrow> bytes list \<Rightarrow> chunker" where
  "new_chunker p ls = \<lparr>path = p, lines = ls, out = [], current = [], clength = 0, start = 0\<rparr>"

definition charChunks :: "(bytes \<Rightarrow> bytes) \<Rightarrow> bytes \<Rightarrow> bytes list \<Rightarrow> Chunk list" where
  "charChunks sha p ls =
     out (flush sha (fold (\<lambda>i c. appendLine sha c i) [0..<length ls] (new_chunker p ls))
            (int (length ls) - 1))"

declare splitLoop.simps [simp del]

section \<open>What a block promises\<close>

text \<open>The text of lines \<open>s\<close> to \<open>e\<close> (1-indexed, inclusive).\<close>

definition text_of :: "bytes list \<Rightarrow> int \<Rightarrow> int \<Rightarrow> bytes" where
  "text_of ls s e = Join (take (nat (e - s + 1)) (drop (nat (s - 1)) ls)) [LF]"

definition chunk_in_file :: "(bytes \<Rightarrow> bytes) \<Rightarrow> bytes \<Rightarrow> bytes list \<Rightarrow> Chunk \<Rightarrow> bool" where
  "chunk_in_file sha p ls c \<longleftrightarrow>
     cPath c = p \<and> 1 \<le> cStartLine c \<and> cStartLine c \<le> cEndLine c \<and> cEndLine c \<le> int (length ls) \<and>
     cHash c = segmentHash sha p (cStartLine c) (cEndLine c) (cContent c)"

text \<open>A block either is its lines, or is a piece of one line too long for a block.\<close>

definition exact :: "bytes list \<Rightarrow> Chunk \<Rightarrow> bool" where
  "exact ls c \<longleftrightarrow> cContent c = text_of ls (cStartLine c) (cEndLine c)"

definition piece_of_line :: "bytes list \<Rightarrow> Chunk \<Rightarrow> bool" where
  "piece_of_line ls c \<longleftrightarrow>
     cStartLine c = cEndLine c \<and>
     (\<exists>u v. ls ! nat (cStartLine c - 1) = u @ cContent c @ v) \<and>
     length (ls ! nat (cStartLine c - 1)) \<ge> effectiveMaxChars"

definition honest :: "(bytes \<Rightarrow> bytes) \<Rightarrow> bytes \<Rightarrow> bytes list \<Rightarrow> Chunk \<Rightarrow> bool" where
  "honest sha p ls c \<longleftrightarrow> chunk_in_file sha p ls c \<and> (exact ls c \<or> piece_of_line ls c)"

text \<open>Two blocks in order: disjoint, or two pieces of the same line.\<close>

definition before :: "Chunk \<Rightarrow> Chunk \<Rightarrow> bool" where
  "before a b \<longleftrightarrow> cEndLine a < cStartLine b \<or>
     (cStartLine a = cEndLine a \<and> cEndLine a = cStartLine b \<and> cStartLine b = cEndLine b)"

definition covered :: "Chunk list \<Rightarrow> nat \<Rightarrow> bool" where
  "covered cs j \<longleftrightarrow> (\<exists>c \<in> set cs. cStartLine c \<le> int j + 1 \<and> int j + 1 \<le> cEndLine c)"

lemma covered_append: "covered cs j \<Longrightarrow> covered (cs @ ds) j"
  by (auto simp: covered_def)

section \<open>Line splitting\<close>

lemma count_lf_crlf: "count_byte (crlf_to_lf s) LF = count_byte s LF"
  by (induction s rule: crlf_to_lf.induct) (auto split: list.splits)

lemma length_splitLines: "length (splitLines s) = Suc (count_byte s LF)"
  by (simp add: splitLines_def length_split_byte count_lf_crlf)

lemma joinLines_splitLines: "joinLines (splitLines s) = crlf_to_lf s"
  by (simp add: joinLines_def splitLines_def Join_split_byte)

section \<open>The invariant\<close>

text \<open>
  \<open>chunker_inv sha p ls i c\<close>: lines \<open>0..<i\<close> are consumed, the open run is \<open>lines[k..<i]\<close>.
\<close>

definition outs_inv :: "(bytes \<Rightarrow> bytes) \<Rightarrow> bytes \<Rightarrow> bytes list \<Rightarrow> nat \<Rightarrow> Chunk list \<Rightarrow> bool" where
  "outs_inv sha p ls k cs \<longleftrightarrow>
     (\<forall>c \<in> set cs. honest sha p ls c \<and> cEndLine c \<le> int k \<and>
        minChunkChars \<le> length (cContent c) + 1 \<and> length (cContent c) < 2 * effectiveMaxChars) \<and>
     sorted_wrt before cs \<and>
     (\<forall>j < k. minChunkChars \<le> length (ls ! j) + 1 \<longrightarrow> covered cs j)"

definition run_size :: "bytes list \<Rightarrow> nat" where
  "run_size ls = sum_list (map (\<lambda>l. length l + 1) ls)"

lemma run_size_simps [simp]:
  "run_size [] = 0" "run_size (l # ls) = length l + 1 + run_size ls"
  "run_size (xs @ ys) = run_size xs + run_size ys"
  by (simp_all add: run_size_def)

lemma run_size_Join: "xs \<noteq> [] \<Longrightarrow> run_size xs = length (Join xs [LF]) + 1"
  using length_Join [of xs LF] by (simp add: run_size_def)

lemma run_size_member: "x \<in> set xs \<Longrightarrow> length x + 1 \<le> run_size xs"
  by (induction xs) auto

definition chunker_inv :: "(bytes \<Rightarrow> bytes) \<Rightarrow> bytes \<Rightarrow> bytes list \<Rightarrow> nat \<Rightarrow> chunker \<Rightarrow> bool" where
  "chunker_inv sha p ls i c \<longleftrightarrow>
     path c = p \<and> lines c = ls \<and> i \<le> length ls \<and>
     length (current c) \<le> i \<and>
     current c = take (length (current c)) (drop (i - length (current c)) ls) \<and>
     clength c = run_size (current c) \<and>
     start c = int (i - length (current c)) \<and>
     outs_inv sha p ls (i - length (current c)) (out c)"

lemma min_eff_consts [simp]: "minChunkChars = 50" "effectiveMaxChars = 5750"
  by (simp_all add: minChunkChars_def effectiveMaxChars_def maxChunkChars_def)

lemma outs_inv_snoc:
  assumes inv: "outs_inv sha p ls k cs" and c: "honest sha p ls c"
    and range: "int k < cStartLine c" "cEndLine c = int k'" "k \<le> k'"
    and size: "minChunkChars \<le> length (cContent c) + 1" "length (cContent c) < 2 * effectiveMaxChars"
    and cov: "\<And>j. k \<le> j \<Longrightarrow> j < k' \<Longrightarrow> cStartLine c \<le> int j + 1"
  shows "outs_inv sha p ls k' (cs @ [c])"
proof -
  have "\<forall>j < k'. minChunkChars \<le> length (ls ! j) + 1 \<longrightarrow> covered (cs @ [c]) j"
  proof (intro allI impI)
    fix j assume j: "j < k'" "minChunkChars \<le> length (ls ! j) + 1"
    show "covered (cs @ [c]) j"
    proof (cases "j < k")
      case True
      with inv j show ?thesis by (auto simp: outs_inv_def intro: covered_append)
    next
      case False
      with j cov range show ?thesis by (auto simp: covered_def)
    qed
  qed
  moreover have "sorted_wrt before (cs @ [c])"
    using inv range by (auto simp: outs_inv_def sorted_wrt_append before_def)
  moreover have "\<forall>d \<in> set cs. cEndLine d \<le> int k'"
    using inv range by (fastforce simp: outs_inv_def)
  ultimately show ?thesis
    using inv c range size by (auto simp: outs_inv_def)
qed

lemma outs_inv_skip:
  assumes inv: "outs_inv sha p ls k cs" and "k \<le> k'"
    and small: "\<And>j. k \<le> j \<Longrightarrow> j < k' \<Longrightarrow> length (ls ! j) + 1 < minChunkChars"
  shows "outs_inv sha p ls k' cs"
proof -
  have "\<forall>j < k'. minChunkChars \<le> length (ls ! j) + 1 \<longrightarrow> covered cs j"
    using inv small by (metis linorder_not_less outs_inv_def)
  with inv \<open>k \<le> k'\<close> show ?thesis by (fastforce simp: outs_inv_def)
qed

lemma flush_inv:
  assumes inv: "chunker_inv sha p ls i c" and small: "clength c < 2 * effectiveMaxChars"
  shows "chunker_inv sha p ls i (flush sha c (int i - 1))"
proof -
  define n where "n = length (current c)"
  have cur: "current c = take n (drop (i - n) ls)" "n \<le> i" "i \<le> length ls"
    using inv by (auto simp: chunker_inv_def n_def)
  have sz: "clength c = run_size (current c)" and st: "start c = int (i - n)"
    and outs: "outs_inv sha p ls (i - n) (out c)" and pl: "path c = p" "lines c = ls"
    using inv by (auto simp: chunker_inv_def n_def)
  have nth: "ls ! j \<in> set (current c)" if "i - n \<le> j" "j < i" for j
  proof -
    have "current c ! (j - (i - n)) = ls ! j" and "j - (i - n) < length (current c)"
      using that cur by (auto simp: n_def [symmetric])
    then show ?thesis by (metis nth_mem)
  qed
  have "outs_inv sha p ls i (out (flush sha c (int i - 1)))"
  proof (cases "clength c < minChunkChars \<or> current c = []")
    case True
    have "length (ls ! j) + 1 < minChunkChars" if "i - n \<le> j" "j < i" for j
      using run_size_member [OF nth [OF that]] True sz nth [OF that] by auto
    with True outs show ?thesis by (auto simp: flush_def intro: outs_inv_skip)
  next
    case False
    let ?c = "\<lparr>cPath = p, cStartLine = int (i - n) + 1, cEndLine = int i,
      cContent = Join (current c) [LF],
      cHash = segmentHash sha p (int (i - n) + 1) (int i) (Join (current c) [LF])\<rparr>"
    have n0: "0 < n" using False by (simp add: n_def)
    have "exact ls ?c"
      using cur n0 by (simp add: exact_def text_of_def nat_diff_distrib')
    moreover have "chunk_in_file sha p ls ?c"
      using cur n0 by (auto simp: chunk_in_file_def)
    ultimately have h: "honest sha p ls ?c" by (simp add: honest_def)
    have len: "clength c = length (Join (current c) [LF]) + 1"
      using False sz run_size_Join by auto
    have "outs_inv sha p ls i (out c @ [?c])"
      by (rule outs_inv_snoc [OF outs h]) (use len False small cur n0 in auto)
    moreover have "out (flush sha c (int i - 1)) = out c @ [?c]"
      using False st pl by (simp add: flush_def Let_def)
    ultimately show ?thesis by simp
  qed
  then show ?thesis
    using cur pl by (auto simp: chunker_inv_def flush_def Let_def)
qed

lemma flush_fields [simp]:
  "path (flush sha c e) = path c" "lines (flush sha c e) = lines c"
  "current (flush sha c e) = []" "clength (flush sha c e) = 0" "start (flush sha c e) = e + 1"
  by (simp_all add: flush_def Let_def)

section \<open>Long lines\<close>

definition piece_at :: "(bytes \<Rightarrow> bytes) \<Rightarrow> bytes \<Rightarrow> bytes list \<Rightarrow> nat \<Rightarrow> Chunk \<Rightarrow> bool" where
  "piece_at sha p ls i q \<longleftrightarrow>
     cPath q = p \<and> cStartLine q = int i + 1 \<and> cEndLine q = int i + 1 \<and>
     cHash q = segmentHash sha p (int i + 1) (int i + 1) (cContent q) \<and>
     (\<exists>u v. ls ! i = u @ cContent q @ v) \<and>
     minChunkChars \<le> length (cContent q) \<and> length (cContent q) \<le> effectiveMaxChars"

text \<open>
  The blocks of a long line are consecutive pieces of it: put together they give the line
  back, but for a tail of fewer than 50 bytes.
\<close>

lemma splitLoop_spec:
  assumes "path c = p" "lines c = ls" "ls ! i = u @ line"
  shows "\<exists>ps rest. out (splitLoop sha c i line) = out c @ ps \<and>
    (\<forall>q \<in> set ps. piece_at sha p ls i q) \<and>
    concat (map cContent ps) @ rest = line \<and> length rest < minChunkChars \<and>
    path (splitLoop sha c i line) = p \<and> lines (splitLoop sha c i line) = ls"
  using assms
proof (induction sha c i line arbitrary: u rule: splitLoop.induct)
  case (1 sha c i line)
  show ?case
  proof (cases "line = []")
    case True
    then have "splitLoop sha c i line = c" by (simp add: splitLoop.simps)
    with True "1.prems" show ?thesis by (intro exI [of _ "[]"]) simp
  next
    case False
    define cut where "cut = min effectiveMaxChars (length line)"
    define c' where "c' = flush sha (c\<lparr>current := [take cut line], clength := cut, start := int i\<rparr>) (int i)"
    have step: "splitLoop sha c i line = splitLoop sha c' i (drop cut line)"
      using False by (simp add: splitLoop.simps [of sha c i line] Let_def cut_def c'_def)
    have "ls ! i = (u @ take cut line) @ drop cut line"
      using "1.prems" by simp
    from "1.IH" [OF False cut_def c'_def _ _ this] "1.prems" obtain ps rest where
      ps: "out (splitLoop sha c' i (drop cut line)) = out c' @ ps"
        "\<forall>q \<in> set ps. piece_at sha p ls i q"
        "concat (map cContent ps) @ rest = drop cut line" "length rest < minChunkChars"
        "path (splitLoop sha c' i (drop cut line)) = p" "lines (splitLoop sha c' i (drop cut line)) = ls"
      by (auto simp: c'_def)
    show ?thesis
    proof (cases "cut < minChunkChars")
      case True
      then have "drop cut line = []" "out c' = out c" "length line < minChunkChars"
        by (auto simp: cut_def c'_def flush_def)
      with step have "splitLoop sha c i line = c'" by (simp add: splitLoop.simps)
      with \<open>out c' = out c\<close> \<open>length line < minChunkChars\<close> "1.prems" show ?thesis
        by (intro exI [of _ "[]"] exI [of _ line]) (simp add: c'_def)
    next
      case cut: False
      let ?q = "\<lparr>cPath = p, cStartLine = int i + 1, cEndLine = int i + 1, cContent = take cut line,
        cHash = segmentHash sha p (int i + 1) (int i + 1) (take cut line)\<rparr>"
      have "out c' = out c @ [?q]"
        using cut "1.prems" by (auto simp: c'_def flush_def Let_def)
      moreover have "\<exists>u v. ls ! i = u @ take cut line @ v"
        using "1.prems" by (metis append_take_drop_id)
      then have "piece_at sha p ls i ?q"
        using cut by (simp add: piece_at_def cut_def)
      moreover have "concat (map cContent (?q # ps)) @ rest = line"
        using ps(3) by simp
      ultimately show ?thesis
        using ps step by (intro exI [of _ "?q # ps"] exI [of _ rest]) auto
    qed
  qed
qed

lemma splitLoop_pieces_nonempty:
  "concat (map cContent ps) @ rest = line \<Longrightarrow> length rest < length line \<Longrightarrow> ps \<noteq> []"
  by auto

lemma outs_inv_pieces:
  assumes inv: "outs_inv sha p ls i cs" and ps: "\<forall>q \<in> set ps. piece_at sha p ls i q"
    and ne: "ps \<noteq> []" and i: "i < length ls" and long: "effectiveMaxChars \<le> length (ls ! i)"
  shows "outs_inv sha p ls (Suc i) (cs @ ps)"
proof -
  have "\<forall>j < Suc i. minChunkChars \<le> length (ls ! j) + 1 \<longrightarrow> covered (cs @ ps) j"
  proof (intro allI impI)
    fix j assume j: "j < Suc i" "minChunkChars \<le> length (ls ! j) + 1"
    show "covered (cs @ ps) j"
    proof (cases "j = i")
      case True
      from ne obtain q where "q \<in> set ps" by (meson last_in_set)
      with ps True show ?thesis by (force simp: covered_def piece_at_def)
    next
      case False
      with inv j show ?thesis by (auto simp: outs_inv_def intro: covered_append)
    qed
  qed
  moreover have "sorted_wrt before (cs @ ps)"
  proof -
    have "sorted_wrt before ps"
      using ps by (induction ps) (auto simp: before_def piece_at_def)
    moreover have "before a b" if "a \<in> set cs" "b \<in> set ps" for a b
    proof -
      have "cEndLine a \<le> int i" using inv that by (simp add: outs_inv_def)
      moreover have "cStartLine b = int i + 1" using ps that by (simp add: piece_at_def)
      ultimately show ?thesis by (simp add: before_def)
    qed
    ultimately show ?thesis using inv by (simp add: outs_inv_def sorted_wrt_append)
  qed
  moreover have "\<forall>q \<in> set ps. honest sha p ls q \<and> cEndLine q \<le> int (Suc i) \<and>
      minChunkChars \<le> length (cContent q) + 1 \<and> length (cContent q) < 2 * effectiveMaxChars"
  proof
    fix q assume "q \<in> set ps"
    with ps have q: "piece_at sha p ls i q" by blast
    then show "honest sha p ls q \<and> cEndLine q \<le> int (Suc i) \<and>
      minChunkChars \<le> length (cContent q) + 1 \<and> length (cContent q) < 2 * effectiveMaxChars"
      using i long by (simp add: honest_def chunk_in_file_def piece_of_line_def piece_at_def)
  qed
  moreover have "\<forall>d \<in> set cs. honest sha p ls d \<and> cEndLine d \<le> int (Suc i) \<and>
      minChunkChars \<le> length (cContent d) + 1 \<and> length (cContent d) < 2 * effectiveMaxChars"
    using inv by (fastforce simp: outs_inv_def)
  ultimately show ?thesis by (simp add: outs_inv_def ball_Un)
qed

section \<open>One line, and the whole file\<close>

lemma splitLongLine_inv:
  assumes inv: "chunker_inv sha p ls i c" and small: "clength c < effectiveMaxChars"
    and i: "i < length ls" and long: "effectiveMaxChars \<le> length (ls ! i)"
  shows "chunker_inv sha p ls (Suc i) (splitLongLine sha c i (ls ! i))"
proof -
  define c1 where "c1 = (if current c \<noteq> [] then flush sha c (int i - 1) else c)"
  have "chunker_inv sha p ls i c1" "current c1 = []"
    using flush_inv [OF inv] inv small by (auto simp: c1_def)
  then have c1: "path c1 = p" "lines c1 = ls" "outs_inv sha p ls i (out c1)"
    by (auto simp: chunker_inv_def)
  obtain ps rest where ps: "out (splitLoop sha c1 i (ls ! i)) = out c1 @ ps"
      "\<forall>q \<in> set ps. piece_at sha p ls i q" "concat (map cContent ps) @ rest = ls ! i"
      "length rest < minChunkChars"
      "path (splitLoop sha c1 i (ls ! i)) = p" "lines (splitLoop sha c1 i (ls ! i)) = ls"
    using splitLoop_spec [OF c1(1,2), where sha = sha and i = i and u = "[]" and line = "ls ! i"] by auto
  have "ps \<noteq> []"
    using splitLoop_pieces_nonempty [OF ps(3)] ps(4) long by simp
  from outs_inv_pieces [OF c1(3) ps(2) this i long] show ?thesis
    using ps i unfolding splitLongLine_def c1_def [symmetric]
    by (simp add: Let_def chunker_inv_def)
qed

lemma extend_run:
  assumes inv: "chunker_inv sha p ls i c" and i: "i < length ls"
  shows "chunker_inv sha p ls (Suc i)
    (c\<lparr>current := current c @ [ls ! i], clength := clength c + (length (ls ! i) + 1)\<rparr>)"
proof -
  define n where "n = length (current c)"
  have "current c = take n (drop (i - n) ls)" "n \<le> i"
    using inv by (auto simp: chunker_inv_def n_def)
  then have "take (Suc n) (drop (i - n) ls) = current c @ [ls ! i]"
    using i by (simp add: take_Suc_conv_app_nth)
  with inv i show ?thesis
    by (simp add: chunker_inv_def n_def)
qed

lemma appendLine_inv:
  assumes inv: "chunker_inv sha p ls i c" and small: "clength c < effectiveMaxChars"
    and i: "i < length ls"
  shows "chunker_inv sha p ls (Suc i) (appendLine sha c i) \<and> clength (appendLine sha c i) < effectiveMaxChars"
proof -
  have ls: "lines c = ls" using inv by (simp add: chunker_inv_def)
  show ?thesis
  proof (cases "length (ls ! i) + 1 > effectiveMaxChars")
    case True
    then have "appendLine sha c i = splitLongLine sha c i (ls ! i)"
      by (simp add: appendLine_def Let_def ls)
    with True splitLongLine_inv [OF inv small i] show ?thesis
      by (simp add: splitLongLine_def Let_def)
  next
    case False
    define c1 where "c1 = (if clength c + (length (ls ! i) + 1) > effectiveMaxChars
        \<and> length (current c) \<ge> 1 \<and> nextLineLen c i < minRemainderChars
      then flush sha c (int i - 1) else c)"
    define c2 where "c2 = c1\<lparr>current := current c1 @ [ls ! i], clength := clength c1 + (length (ls ! i) + 1)\<rparr>"
    have c1: "chunker_inv sha p ls i c1" "clength c1 < effectiveMaxChars"
      using flush_inv [OF inv] inv small by (auto simp: c1_def)
    have c2: "chunker_inv sha p ls (Suc i) c2" "clength c2 < 2 * effectiveMaxChars"
      using extend_run [OF c1(1) i] c1(2) False by (auto simp: c2_def)
    have "appendLine sha c i = (if clength c2 \<ge> effectiveMaxChars then flush sha c2 (int i) else c2)"
      using False unfolding appendLine_def ls Let_def c2_def c1_def by simp
    with c2 flush_inv [OF c2] show ?thesis by auto
  qed
qed

lemma fold_appendLine_inv:
  "i \<le> length ls \<Longrightarrow>
   chunker_inv sha p ls i (fold (\<lambda>i c. appendLine sha c i) [0..<i] (new_chunker p ls)) \<and>
   clength (fold (\<lambda>i c. appendLine sha c i) [0..<i] (new_chunker p ls)) < effectiveMaxChars"
proof (induction i)
  case 0
  then show ?case by (simp add: chunker_inv_def outs_inv_def new_chunker_def)
next
  case (Suc i)
  then show ?case
    using appendLine_inv [of sha p ls i "fold (\<lambda>i c. appendLine sha c i) [0..<i] (new_chunker p ls)"]
    by simp
qed

lemma charChunks_outs: "outs_inv sha p ls (length ls) (charChunks sha p ls)"
proof -
  define c where "c = fold (\<lambda>i c. appendLine sha c i) [0..<length ls] (new_chunker p ls)"
  have "chunker_inv sha p ls (length ls) c" "clength c < 2 * effectiveMaxChars"
    using fold_appendLine_inv [of "length ls" ls sha p] by (simp_all add: c_def)
  from flush_inv [OF this] show ?thesis
    by (simp add: charChunks_def c_def chunker_inv_def)
qed

lemmas charChunks_facts = charChunks_outs [unfolded outs_inv_def]

end
