(* ===== verification/Boundaries.thy ===== *)
theory Boundaries
  imports GoBase "HOL-Library.Multiset"
begin

text \<open>
  \<open>internal/codesearch/boundaries.go\<close>: the line ranges of declarations, their validation
  (\<open>validBoundaries\<close>) and the assembly of nested ranges (\<open>attachSubs\<close>, \<open>sortByStart\<close>,
  \<open>dropOverlaps\<close>), and \<open>goBoundaries\<close> over the result of \<open>go/parser\<close>, which is an
  argument. The lemmas show that insertion sort sorts and keeps the elements, that
  \<open>dropOverlaps\<close> leaves disjoint ranges, and that \<open>attachSubs\<close> of ranges inside the
  file always passes the validation.
\<close>

section \<open>Model\<close>

datatype Boundary = Boundary (bStart: int) (bEnd: int) (bSub: "Boundary list")

fun validSubs :: "int \<Rightarrow> int \<Rightarrow> Boundary list \<Rightarrow> bool" where
  "validSubs parentEnd subEnd [] = True"
| "validSubs parentEnd subEnd (s # ss) =
     (if bStart s \<le> subEnd \<or> bEnd s < bStart s \<or> bEnd s > parentEnd then False
      else validSubs parentEnd (bEnd s) ss)"

fun validLoop :: "int \<Rightarrow> int \<Rightarrow> Boundary list \<Rightarrow> bool" where
  "validLoop n prevEnd [] = True"
| "validLoop n prevEnd (b # bs) =
     (if bStart b < 1 \<or> bEnd b < bStart b \<or> bEnd b > n \<or> bStart b \<le> prevEnd then False
      else if \<not> validSubs (bEnd b) (bStart b) (bSub b) then False
      else validLoop n (bEnd b) bs)"

definition validBoundaries :: "Boundary list \<Rightarrow> int \<Rightarrow> bool" where
  "validBoundaries bs n \<longleftrightarrow> validLoop n 0 bs \<and> length bs > 0"

text \<open>
  The inner loop of \<open>sortByStart\<close> carries element \<open>i\<close> down past the larger ones before it;
  the prefix is held in reverse, so the element it is compared with first comes first.
\<close>

fun sink :: "Boundary \<Rightarrow> Boundary list \<Rightarrow> Boundary list" where
  "sink x [] = [x]"
| "sink x (y # ys) = (if bStart x < bStart y then y # sink x ys else x # y # ys)"

definition sortByStart :: "Boundary list \<Rightarrow> Boundary list" where
  "sortByStart bs = rev (fold sink bs [])"

fun dropOverlapsFrom :: "int \<Rightarrow> Boundary list \<Rightarrow> Boundary list" where
  "dropOverlapsFrom lst [] = []"
| "dropOverlapsFrom lst (b # bs) =
     (if bStart b \<le> lst then dropOverlapsFrom lst bs else b # dropOverlapsFrom (bEnd b) bs)"

definition dropOverlaps :: "Boundary list \<Rightarrow> Boundary list" where
  "dropOverlaps bs = dropOverlapsFrom 0 bs"

definition attachSubs :: "Boundary list \<Rightarrow> Boundary list \<Rightarrow> Boundary list" where
  "attachSubs tops subs =
     (let subs' = sortByStart subs
      in map (\<lambda>t. Boundary (bStart t) (bEnd t)
                (dropOverlaps (bSub t @ filter (\<lambda>s. bStart s > bStart t \<and> bEnd s \<le> bEnd t) subs')))
           (dropOverlaps (sortByStart tops)))"

text \<open>
  A top-level declaration as \<open>go/parser\<close> reports it: the line of its documentation comment,
  if it has one (\<open>declDoc\<close>), its first line and its last line.
\<close>

record GoDecl =
  docLine :: "int option"
  posLine :: int
  endLine :: int

definition goBoundaries ::
  "(bytes \<Rightarrow> bytes \<Rightarrow> GoDecl list option) \<Rightarrow> bytes \<Rightarrow> bytes \<Rightarrow> Boundary list" where
  "goBoundaries parseGo path content =
     (case parseGo path content of
        None \<Rightarrow> []
      | Some decls \<Rightarrow>
          map (\<lambda>d. Boundary (case docLine d of None \<Rightarrow> posLine d | Some l \<Rightarrow> l) (endLine d) []) decls)"

text \<open>\<open>filepath.Ext\<close>: from the last dot of the last path element.\<close>

fun ext_rev :: "bytes \<Rightarrow> bytes \<Rightarrow> bytes" where
  "ext_rev [] acc = []"
| "ext_rev (c # r) acc =
     (if c = CHR ''/'' then [] else if c = CHR ''.'' then c # acc else ext_rev r (c # acc))"

definition Ext :: "bytes \<Rightarrow> bytes" where
  "Ext p = ext_rev (rev p) []"

section \<open>Sorting\<close>

lemma mset_sink [simp]: "mset (sink x ys) = add_mset x (mset ys)"
  by (induction ys) auto

lemma mset_fold_sink: "mset (fold sink bs acc) = mset bs + mset acc"
  by (induction bs arbitrary: acc) auto

lemma mset_sortByStart: "mset (sortByStart bs) = mset bs"
  by (simp add: sortByStart_def mset_fold_sink)

lemma set_sortByStart [simp]: "set (sortByStart bs) = set bs"
  using mset_sortByStart [of bs] by (metis set_mset_mset)

lemma sortByStart_Nil_iff [simp]: "sortByStart bs = [] \<longleftrightarrow> bs = []"
  using mset_sortByStart [of bs] by auto

lemma set_sink [simp]: "set (sink x ys) = insert x (set ys)"
  by (induction ys) auto

lemma sorted_sink:
  "sorted_wrt (\<lambda>a b. bStart b \<le> bStart a) ys \<Longrightarrow> sorted_wrt (\<lambda>a b. bStart b \<le> bStart a) (sink x ys)"
  by (induction ys) auto

lemma sorted_fold_sink:
  "sorted_wrt (\<lambda>a b. bStart b \<le> bStart a) acc \<Longrightarrow>
   sorted_wrt (\<lambda>a b. bStart b \<le> bStart a) (fold sink bs acc)"
  by (induction bs arbitrary: acc) (auto intro: sorted_sink)

lemma sorted_sortByStart: "sorted_wrt (\<lambda>a b. bStart a \<le> bStart b) (sortByStart bs)"
  using sorted_fold_sink [of "[]" bs] by (simp add: sortByStart_def sorted_wrt_rev)

text \<open>The sort is stable: equal starts keep their order.\<close>

lemma filter_sink:
  "filter (\<lambda>b. bStart b = k) (sink x ys) =
   (if bStart x = k then x # filter (\<lambda>b. bStart b = k) ys else filter (\<lambda>b. bStart b = k) ys)"
  if "sorted_wrt (\<lambda>a b. bStart b \<le> bStart a) ys"
  using that by (induction ys) (auto simp: filter_empty_conv)

lemma filter_fold_sink:
  "sorted_wrt (\<lambda>a b. bStart b \<le> bStart a) acc \<Longrightarrow>
   filter (\<lambda>b. bStart b = k) (fold sink bs acc) =
   rev (filter (\<lambda>b. bStart b = k) bs) @ filter (\<lambda>b. bStart b = k) acc"
  by (induction bs arbitrary: acc) (auto simp: filter_sink sorted_sink)

lemma stable_sortByStart:
  "filter (\<lambda>b. bStart b = k) (sortByStart bs) = filter (\<lambda>b. bStart b = k) bs"
  by (simp add: sortByStart_def filter_fold_sink rev_filter [symmetric])

section \<open>Disjointness and validation\<close>

definition in_file :: "int \<Rightarrow> Boundary \<Rightarrow> bool" where
  "in_file n b \<longleftrightarrow> 1 \<le> bStart b \<and> bStart b \<le> bEnd b \<and> bEnd b \<le> n"

text \<open>Consecutive disjoint ranges from line \<open>lo + 1\<close> to line \<open>hi\<close>.\<close>

fun chained :: "int \<Rightarrow> int \<Rightarrow> Boundary list \<Rightarrow> bool" where
  "chained lo hi [] = True"
| "chained lo hi (b # bs) = (lo < bStart b \<and> bStart b \<le> bEnd b \<and> bEnd b \<le> hi \<and> chained (bEnd b) hi bs)"

lemma validSubs_iff: "validSubs e s bs \<longleftrightarrow> chained s e bs"
  by (induction e s bs rule: validSubs.induct) auto

lemma validLoop_iff:
  "0 \<le> lo \<Longrightarrow> validLoop n lo bs \<longleftrightarrow>
     chained lo n bs \<and> (\<forall>b \<in> set bs. chained (bStart b) (bEnd b) (bSub b))"
  by (induction n lo bs rule: validLoop.induct) (auto simp: validSubs_iff)

lemma chained_sorted:
  "chained lo hi bs \<Longrightarrow> sorted_wrt (\<lambda>a b. bEnd a < bStart b) bs \<and> (\<forall>b \<in> set bs. lo < bStart b \<and> bStart b \<le> bEnd b \<and> bEnd b \<le> hi)"
proof (induction lo hi bs rule: chained.induct)
  case (2 lo hi b bs)
  then show ?case by fastforce
qed simp

lemma set_dropOverlapsFrom: "set (dropOverlapsFrom lst bs) \<subseteq> set bs"
  by (induction lst bs rule: dropOverlapsFrom.induct) auto

lemma set_dropOverlaps: "set (dropOverlaps bs) \<subseteq> set bs"
  by (simp add: dropOverlaps_def set_dropOverlapsFrom)

lemma chained_dropOverlapsFrom:
  "\<forall>b \<in> set bs. bStart b \<le> bEnd b \<and> bEnd b \<le> hi \<Longrightarrow> chained lst hi (dropOverlapsFrom lst bs)"
  by (induction lst bs rule: dropOverlapsFrom.induct) auto

lemma chained_weaken: "chained lo hi bs \<Longrightarrow> \<forall>b \<in> set bs. lo' < bStart b \<Longrightarrow> chained lo' hi bs"
  by (cases bs) auto

lemma dropOverlaps_nonempty:
  "bs \<noteq> [] \<Longrightarrow> \<forall>b \<in> set bs. 1 \<le> bStart b \<Longrightarrow> dropOverlaps bs \<noteq> []"
  by (cases bs) (auto simp: dropOverlaps_def)

lemma attachSubs_valid:
  assumes tops: "\<And>b. b \<in> set tops \<Longrightarrow> in_file n b \<and> bSub b = []"
    and subs: "\<And>b. b \<in> set subs \<Longrightarrow> in_file n b" and ne: "tops \<noteq> []"
  shows "validBoundaries (attachSubs tops subs) n"
proof -
  define att where "att = (\<lambda>t. Boundary (bStart t) (bEnd t)
    (dropOverlaps (bSub t @ filter (\<lambda>s. bStart s > bStart t \<and> bEnd s \<le> bEnd t) (sortByStart subs))))"
  define ts where "ts = dropOverlaps (sortByStart tops)"
  have ts_top: "set ts \<subseteq> set tops"
    using set_dropOverlaps [of "sortByStart tops"] by (simp add: ts_def)
  have chain: "chained 0 n ts"
    unfolding ts_def dropOverlaps_def
    by (rule chained_dropOverlapsFrom) (use tops in \<open>auto simp: in_file_def\<close>)
  have "chained lo hi (map att xs) = chained lo hi xs" for lo hi xs
    by (induction lo hi xs rule: chained.induct) (auto simp: att_def)
  with chain have 1: "chained 0 n (map att ts)" by simp
  have 2: "chained (bStart (att t)) (bEnd (att t)) (bSub (att t))" if "t \<in> set ts" for t
  proof -
    let ?f = "filter (\<lambda>s. bStart s > bStart t \<and> bEnd s \<le> bEnd t) (sortByStart subs)"
    have "chained 0 (bEnd t) (dropOverlaps ?f)"
      unfolding dropOverlaps_def
      by (rule chained_dropOverlapsFrom) (use subs in \<open>auto simp: in_file_def\<close>)
    moreover have "\<forall>s \<in> set (dropOverlaps ?f). bStart t < bStart s"
      using set_dropOverlaps [of ?f] by auto
    ultimately have "chained (bStart t) (bEnd t) (dropOverlaps ?f)"
      by (rule chained_weaken)
    then show ?thesis using that ts_top tops by (auto simp: att_def)
  qed
  have "ts \<noteq> []"
    unfolding ts_def by (rule dropOverlaps_nonempty) (use ne tops in \<open>auto simp: in_file_def\<close>)
  moreover have "attachSubs tops subs = map att ts"
    by (simp add: attachSubs_def Let_def att_def ts_def)
  ultimately show ?thesis
    using 1 2 by (auto simp: validBoundaries_def validLoop_iff)
qed

end
