(* ===== verification/PyBounds.thy ===== *)
theory PyBounds
  imports Chunker Boundaries
begin

text \<open>
  \<open>internal/codesearch/boundaries_python.go\<close>: declarations of a Python file by indentation.
  \<open>pythonStrip\<close> blanks strings and comments byte by byte, carrying an open triple quote from
  line to line; \<open>pythonCollect\<close> walks the stripped lines with the state \<open>(out, open, depth)\<close>.
  The lemmas: stripping keeps every line's length (so line numbers and columns stay true), and
  every detection in a file passes \<open>validBoundaries\<close>, so \<open>boundaries\<close> never has to discard one.
\<close>

section \<open>Stripping strings and comments\<close>

function blank :: "bytes \<Rightarrow> nat \<Rightarrow> nat \<Rightarrow> bytes" where
  "blank b i to = (if i < to \<and> i < length b then blank (b[i := CHR '' '']) (i + 1) to else b)"
  by pat_completeness auto
termination
  by (relation "measure (\<lambda>(b, i, to). to - i)") auto

declare blank.simps [simp del]

lemma length_blank [simp]: "length (blank b i to) = length b"
proof (induction b i to rule: blank.induct)
  case (1 b i to)
  then show ?case by (simp add: blank.simps [of b i to])
qed

lemma nth_blank:
  "k < length b \<Longrightarrow> blank b i to ! k = (if i \<le> k \<and> k < to then CHR '' '' else b ! k)"
proof (induction b i to rule: blank.induct)
  case (1 b i to)
  then show ?case by (auto simp: blank.simps [of b i to] nth_list_update)
qed

text \<open>The loop of \<open>blankQuoted\<close>, after the opening quote.\<close>

function quotedLoop :: "bytes \<Rightarrow> nat \<Rightarrow> char \<Rightarrow> bytes \<times> nat" where
  "quotedLoop b j quote =
     (if j < length b then
        (if b ! j = BSL then quotedLoop (blank b j (min (j + 2) (length b))) (j + 2) quote
         else if b ! j = quote then (b[j := CHR '' ''], j + 1)
         else quotedLoop (b[j := CHR '' '']) (j + 1) quote)
      else (b, j))"
  by pat_completeness auto
termination
  by (relation "measure (\<lambda>(b, j, q). length b - j)") auto

declare quotedLoop.simps [simp del]

definition blankQuoted :: "bytes \<Rightarrow> nat \<Rightarrow> bytes \<times> nat" where
  "blankQuoted b j = quotedLoop (b[j := CHR '' '']) (j + 1) (b ! j)"

definition triple_at :: "bytes \<Rightarrow> nat \<Rightarrow> bytes" where
  "triple_at b j = take 3 (drop j b)"

text \<open>\<open>stripAt\<close>: the new line, the next position, and the pending triple quote (\<open>[]\<close> for none).\<close>

definition stripAt :: "bytes \<Rightarrow> nat \<Rightarrow> bytes \<Rightarrow> bytes \<times> nat \<times> bytes" where
  "stripAt b j triple =
     (if triple \<noteq> [] then
        (if j + 2 < length b \<and> triple_at b j = triple then (blank b j (j + 3), j + 3, [])
         else (b[j := CHR '' ''], j + 1, triple))
      else if b ! j = CHR ''#'' then (blank b j (length b), length b, triple)
      else if j + 2 < length b \<and> (triple_at b j = [DQ, DQ, DQ] \<or> triple_at b j = [SQ, SQ, SQ])
        then (blank b j (j + 3), j + 3, triple_at b j)
      else if b ! j = DQ \<or> b ! j = SQ then
        (case blankQuoted b j of (b', j') \<Rightarrow> (b', j', triple))
      else (b, j + 1, triple))"

lemma quotedLoop_bounds:
  "length (fst (quotedLoop b j q)) = length b \<and> j \<le> snd (quotedLoop b j q)"
proof (induction b j q rule: quotedLoop.induct)
  case (1 b j q)
  then show ?case by (auto simp: quotedLoop.simps [of b j q])
qed

lemma stripAt_progress:
  assumes "j < length b"
  shows "length (fst (stripAt b j t)) = length b \<and> j < fst (snd (stripAt b j t))"
  using assms quotedLoop_bounds [of "b[j := CHR '' '']" "j + 1" "b ! j"]
  by (auto simp: stripAt_def blankQuoted_def split: prod.splits)

function stripLine :: "bytes \<Rightarrow> nat \<Rightarrow> bytes \<Rightarrow> bytes \<times> bytes" where
  "stripLine b j triple =
     (if j < length b then
        (case stripAt b j triple of (b', j', t') \<Rightarrow> stripLine b' j' t')
      else (b, triple))"
  by pat_completeness auto
termination
proof (relation "measure (\<lambda>(b, j, t). length b - j)", goal_cases)
  case (2 b j t)
  then show ?case using stripAt_progress [of j b t] by (auto split: prod.splits)
qed simp

declare stripLine.simps [simp del]

fun stripLines :: "bytes list \<Rightarrow> bytes \<Rightarrow> bytes list" where
  "stripLines [] triple = []"
| "stripLines (l # ls) triple =
     (case stripLine l 0 triple of (b, t) \<Rightarrow> b # stripLines ls t)"

definition pythonStrip :: "bytes \<Rightarrow> bytes list" where
  "pythonStrip content = stripLines (splitLines content) []"

lemma length_stripLine: "length (fst (stripLine b j t)) = length b"
proof (induction b j t rule: stripLine.induct)
  case (1 b j t)
  show ?case
  proof (cases "j < length b")
    case True
    obtain b' j' t' where s: "stripAt b j t = (b', j', t')" by (metis prod.collapse)
    with "1.IH" [OF True s [symmetric] refl] stripAt_progress [OF True, of t] True show ?thesis
      by (simp add: stripLine.simps [of b j t])
  qed (simp add: stripLine.simps)
qed

lemma map_length_stripLines: "map length (stripLines ls t) = map length ls"
  using length_stripLine by (induction ls arbitrary: t) (auto split: prod.splits, metis fst_conv)

lemma length_pythonStrip: "length (pythonStrip content) = length (splitLines content)"
  unfolding pythonStrip_def using map_length_stripLines by (metis length_map)

section \<open>Collecting declarations\<close>

definition is_blank :: "bytes \<Rightarrow> bool" where
  "is_blank l \<longleftrightarrow> TrimSpace l = []"

definition nextParenDepth :: "int \<Rightarrow> bytes \<Rightarrow> int" where
  "nextParenDepth depth line =
     (let d1 = depth + (int (count_byte line CHR ''('') - int (count_byte line CHR '')''));
          d2 = d1 + (int (count_byte line CHR ''['') - int (count_byte line CHR '']''))
      in if d2 < 0 then 0 else d2)"

definition startsDeclaration :: "bytes \<Rightarrow> bool" where
  "startsDeclaration line =
     (let t = TrimSpace line
      in list_ex (\<lambda>p. HasPrefix t p) [''def '', ''async def '', ''class '', ''@''])"

text \<open>\<open>onlyDecorators\<close>, its loop over the lines from \<open>open\<close> up to \<open>cur\<close>.\<close>

fun decoratorsLoop :: "bytes list \<Rightarrow> bool \<Rightarrow> bool" where
  "decoratorsLoop [] seen = seen"
| "decoratorsLoop (l # ls) seen =
     (let t = TrimSpace l
      in if t = [] then decoratorsLoop ls seen
         else if \<not> HasPrefix t ''@'' then False else decoratorsLoop ls True)"

definition onlyDecorators :: "bytes list \<Rightarrow> nat \<Rightarrow> nat \<Rightarrow> bool" where
  "onlyDecorators ls op cur = decoratorsLoop (take (cur - op) (drop op ls)) False"

fun pythonIndent :: "bytes \<Rightarrow> nat" where
  "pythonIndent [] = 0"
| "pythonIndent (c # cs) =
     (if c = CHR '' '' then 1 + pythonIndent cs
      else if c = TAB then 4 + pythonIndent cs else 0)"

fun lastNonBlank :: "bytes list \<Rightarrow> nat \<Rightarrow> nat \<Rightarrow> nat" where
  "lastNonBlank ls frm 0 = 0"
| "lastNonBlank ls frm (Suc e) =
     (if Suc e > frm \<and> is_blank (ls ! e) then lastNonBlank ls frm e else Suc e)"

record pyState =
  pyOut :: "Boundary list"
  pyOpen :: "nat option"
  pyDepth :: int

definition pyStep :: "bytes list \<Rightarrow> nat \<Rightarrow> nat \<Rightarrow> pyState \<Rightarrow> pyState" where
  "pyStep ls level i s =
     (let l = ls ! i; pending = pyDepth s;
          s = s\<lparr>pyDepth := nextParenDepth (pyDepth s) l\<rparr>
      in if is_blank l then s
         else if (case pyOpen s of None \<Rightarrow> False | Some op \<Rightarrow> onlyDecorators ls op i) then s
         else (let s = (case pyOpen s of
                          None \<Rightarrow> s
                        | Some op \<Rightarrow>
                            if i \<noteq> op \<and> pending = 0 \<and> pythonIndent l \<le> level
                            then s\<lparr>pyOut := pyOut s @ [Boundary (int op + 1) (int (lastNonBlank ls op i)) []],
                                   pyOpen := None\<rparr>
                            else s)
               in if pyOpen s = None \<and> pythonIndent l = level \<and> startsDeclaration l
                  then s\<lparr>pyOpen := Some i\<rparr> else s))"

definition pythonCollect :: "bytes list \<Rightarrow> nat \<Rightarrow> Boundary list" where
  "pythonCollect ls level =
     (let s = fold (pyStep ls level) [0..<length ls] \<lparr>pyOut = [], pyOpen = None, pyDepth = 0\<rparr>
      in case pyOpen s of
           None \<Rightarrow> pyOut s
         | Some op \<Rightarrow> pyOut s @ [Boundary (int op + 1) (int (length ls)) []])"

definition pythonTopLevel :: nat where "pythonTopLevel = 0"
definition pythonNested :: nat where "pythonNested = 4"

definition pythonBoundaries :: "bytes \<Rightarrow> Boundary list" where
  "pythonBoundaries content =
     (let ls = pythonStrip content
      in attachSubs (pythonCollect ls pythonTopLevel) (pythonCollect ls pythonNested))"

section \<open>Detections stay inside the file\<close>

lemma lastNonBlank_le: "lastNonBlank ls frm e \<le> e"
  by (induction e) auto

lemma lastNonBlank_ge:
  "op < e \<Longrightarrow> \<not> is_blank (ls ! op) \<Longrightarrow> op < lastNonBlank ls op e"
proof (induction e)
  case (Suc e)
  then show ?case by (cases "e = op") auto
qed simp

text \<open>Everything collected before line \<open>i\<close>: ranges in lines \<open>1..i\<close>, an open one started on a non-blank line.\<close>

definition py_inv :: "bytes list \<Rightarrow> nat \<Rightarrow> pyState \<Rightarrow> bool" where
  "py_inv ls i s \<longleftrightarrow>
     (\<forall>b \<in> set (pyOut s). in_file (int i) b \<and> bSub b = []) \<and>
     (\<forall>op. pyOpen s = Some op \<longrightarrow> op < i \<and> \<not> is_blank (ls ! op))"

lemma pyStep_inv:
  assumes "py_inv ls i s"
  shows "py_inv ls (Suc i) (pyStep ls level i s)"
proof -
  have mono: "in_file (int (Suc i)) b" if "in_file (int i) b" for b
    using that by (simp add: in_file_def)
  have close: "in_file (int (Suc i)) (Boundary (int op + 1) (int (lastNonBlank ls op i)) [])"
    if "op < i" "\<not> is_blank (ls ! op)" for op
    using lastNonBlank_ge [OF that] lastNonBlank_le [of ls op i] by (simp add: in_file_def)
  show ?thesis
    using assms mono close
    by (auto simp: pyStep_def py_inv_def Let_def less_Suc_eq split: option.splits)
qed

lemma py_fold_inv:
  "py_inv ls n (fold (pyStep ls level) [0..<n] \<lparr>pyOut = [], pyOpen = None, pyDepth = 0\<rparr>)"
proof (induction n)
  case 0
  show ?case by (simp add: py_inv_def)
next
  case (Suc n)
  then show ?case by (simp add: pyStep_inv)
qed

lemma pythonCollect_in_file:
  "b \<in> set (pythonCollect ls level) \<Longrightarrow> in_file (int (length ls)) b \<and> bSub b = []"
  using py_fold_inv [of ls "length ls" level]
  by (auto simp: pythonCollect_def Let_def py_inv_def in_file_def split: option.splits)

lemma pythonBoundaries_valid:
  assumes "pythonBoundaries content \<noteq> []"
  shows "validBoundaries (pythonBoundaries content) (int (length (splitLines content)))"
proof -
  let ?ls = "pythonStrip content"
  have "pythonCollect ?ls pythonTopLevel \<noteq> []"
    using assms by (auto simp: pythonBoundaries_def Let_def attachSubs_def dropOverlaps_def sortByStart_def)
  moreover have "in_file (int (length (splitLines content))) b \<and> bSub b = []"
    if "b \<in> set (pythonCollect ?ls k)" for b k
    using pythonCollect_in_file [OF that] by (simp add: length_pythonStrip)
  ultimately show ?thesis
    unfolding pythonBoundaries_def Let_def by (intro attachSubs_valid) auto
qed

end
