(* ===== verification/BraceBounds.thy ===== *)
theory BraceBounds
  imports Chunker Boundaries
begin

text \<open>
  \<open>internal/codesearch/boundaries_brace.go\<close>: declarations of the C family by balanced
  braces. \<open>braceScanner\<close> is the scanner's state; \<open>inSpan\<close>, \<open>inCode\<close>, \<open>slash\<close>, \<open>close\<close> and
  \<open>track\<close> are its methods and \<open>braceRun\<close> its loop over the bytes (an index, moved forward by
  the helpers that skip regular expressions and here-documents). The stack holds its top first.
  The lemmas: the helpers never move the index back (which is why the loop ends), the
  line counter never passes the true line, and so every detection is inside the file.
\<close>

section \<open>Model\<close>

datatype braceState =
  braceCode | braceLineComment | braceBlockComment | braceSingle | braceDouble | braceTemplate

record braceOpen =
  openLine :: nat
  openDepth :: nat

record braceScanner =
  sLine :: nat
  sDepth :: nat
  sState :: braceState
  sStack :: "braceOpen list"
  sTop :: "Boundary list"
  sSubs :: "Boundary list"
  lastSig :: char
  lastWord :: bytes
  sWord :: bytes

definition isWordByte :: "char \<Rightarrow> bool" where
  "isWordByte c \<longleftrightarrow> c = CHR ''_'' \<or> (97 \<le> byte c \<and> byte c \<le> 122) \<or> (65 \<le> byte c \<and> byte c \<le> 90)"

definition isDigitByte :: "char \<Rightarrow> bool" where
  "isDigitByte c \<longleftrightarrow> 48 \<le> byte c \<and> byte c \<le> 57"

definition regexAllowed :: "char \<Rightarrow> bytes \<Rightarrow> bool" where
  "regexAllowed prev prevWord \<longleftrightarrow>
     prev = CHR 0x00 \<or> prev \<in> set ''(,=:[!&|?{};+-*~^<>%'' \<or>
     prevWord \<in> set [''return'', ''typeof'', ''instanceof'', ''in'', ''of'', ''new'', ''delete'',
       ''void'', ''throw'', ''case'', ''do'', ''else'', ''yield'', ''await'']"

text \<open>\<open>skipRegex\<close>: the closing slash, or \<open>i\<close> when the line ends first.\<close>

function regexLoop :: "bytes \<Rightarrow> nat \<Rightarrow> nat \<Rightarrow> bool \<Rightarrow> nat" where
  "regexLoop src i j inClass =
     (if j < length src then
        (if src ! j = BSL then regexLoop src i (j + 2) inClass
         else if src ! j = LF then i
         else if src ! j = CHR ''['' then regexLoop src i (j + 1) True
         else if src ! j = CHR '']'' then regexLoop src i (j + 1) False
         else if src ! j = CHR ''/'' \<and> \<not> inClass then j
         else regexLoop src i (j + 1) inClass)
      else i)"
  by pat_completeness auto
termination
  by (relation "measure (\<lambda>(src, i, j, c). length src - j)") auto

definition skipRegex :: "bytes \<Rightarrow> nat \<Rightarrow> nat" where
  "skipRegex src i = regexLoop src i (i + 1) False"

definition closesHeredoc :: "bytes \<Rightarrow> bytes \<Rightarrow> bool" where
  "closesHeredoc line tag \<longleftrightarrow>
     HasPrefix line tag \<and>
     (case drop (length tag) line of [] \<Rightarrow> True
      | a # _ \<Rightarrow> a = CHR '';'' \<or> a = CHR '','' \<or> a = CHR '')'' \<or> a = LF)"

text \<open>\<open>strings.TrimLeft(rest, " \t")\<close>.\<close>

definition trim_blanks :: "bytes \<Rightarrow> bytes" where
  "trim_blanks s = dropWhile (\<lambda>c. c = CHR '' '' \<or> c = TAB) s"

function heredocLoop :: "bytes \<Rightarrow> bytes \<Rightarrow> nat \<Rightarrow> nat \<Rightarrow> nat \<times> nat" where
  "heredocLoop src tag j line =
     (case IndexByte (drop j src) LF of
        None \<Rightarrow> (length src - 1, line)
      | Some nl \<Rightarrow>
          (let j = j + nl + 1; line = line + 1; rest = drop j src; trimmed = trim_blanks rest
           in if closesHeredoc trimmed tag
              then (j + length rest - length trimmed + length tag - 1, line)
              else heredocLoop src tag j line))"
  by pat_completeness auto
termination
  by (relation "measure (\<lambda>(src, tag, j, line). length src - j)")
     (auto dest!: IndexByte_Some)

definition skipHeredoc :: "bytes \<Rightarrow> nat \<Rightarrow> nat \<Rightarrow> (nat \<times> nat) option" where
  "skipHeredoc src i line =
     (let rest = dropWhile (\<lambda>c. c = CHR '' '' \<or> c = SQ \<or> c = DQ) (drop (i + 3) src);
          tag = takeWhile (\<lambda>c. isWordByte c \<or> isDigitByte c) rest;
          j = length src - length rest + length tag
      in if tag = [] then None else Some (heredocLoop src tag j line))"

declare regexLoop.simps [simp del] heredocLoop.simps [simp del]

definition isAttachedComment :: "bytes \<Rightarrow> bool" where
  "isAttachedComment line \<longleftrightarrow> list_ex (\<lambda>p. HasPrefix line p) [''//'', ''*'', ''/*'', ''#'', ''@'']"

text \<open>The two loops of \<open>declStart\<close>; \<open>start\<close> is 1-indexed, the line before it is \<open>lines[start-2]\<close>.\<close>

fun declUp :: "bytes list \<Rightarrow> nat \<Rightarrow> nat" where
  "declUp ls st =
     (if st > 1 then
        (let prev = TrimSpace (ls ! (st - 2))
         in if prev = [] \<or> HasSuffix prev ''}'' \<or> HasSuffix prev '';'' \<or> HasSuffix prev ''{''
            then st else declUp ls (st - 1))
      else st)"

fun commentUp :: "bytes list \<Rightarrow> nat \<Rightarrow> nat" where
  "commentUp ls st =
     (if st > 1 \<and> isAttachedComment (TrimSpace (ls ! (st - 2))) then commentUp ls (st - 1) else st)"

declare declUp.simps [simp del] commentUp.simps [simp del]

definition declStart :: "bytes list \<Rightarrow> nat \<Rightarrow> nat" where
  "declStart ls braceLine = commentUp ls (declUp ls braceLine)"

definition inSpan :: "bytes \<Rightarrow> nat \<Rightarrow> char \<Rightarrow> braceScanner \<Rightarrow> nat \<times> braceScanner" where
  "inSpan src i c s =
     (case sState s of
        braceLineComment \<Rightarrow> (i, s)
      | braceBlockComment \<Rightarrow>
          if c = CHR ''*'' \<and> i + 1 < length src \<and> src ! (i + 1) = CHR ''/''
          then (i + 1, s\<lparr>sState := braceCode\<rparr>) else (i, s)
      | braceCode \<Rightarrow> (i, s)
      | st \<Rightarrow>
          if c = BSL then (i + 1, s)
          else if (st = braceSingle \<and> c = SQ) \<or> (st = braceDouble \<and> c = DQ) \<or>
                  (st = braceTemplate \<and> c = BQ)
          then (i, s\<lparr>sState := braceCode\<rparr>) else (i, s))"

definition slash :: "bytes \<Rightarrow> nat \<Rightarrow> braceScanner \<Rightarrow> nat \<times> braceScanner" where
  "slash src i s =
     (if i + 1 < length src \<and> src ! (i + 1) = CHR ''/'' then (i + 1, s\<lparr>sState := braceLineComment\<rparr>)
      else if i + 1 < length src \<and> src ! (i + 1) = CHR ''*'' then (i + 1, s\<lparr>sState := braceBlockComment\<rparr>)
      else if regexAllowed (lastSig s) (lastWord s) then (skipRegex src i, s)
      else (i, s))"

definition close_brace :: "bytes list \<Rightarrow> braceScanner \<Rightarrow> braceScanner" where
  "close_brace ls s =
     (if sDepth s = 0 then s
      else (case sStack s of
         [] \<Rightarrow> s
       | op # stack \<Rightarrow>
           (let s = s\<lparr>sDepth := sDepth s - 1, sStack := stack\<rparr>
            in if sLine s \<le> openLine op then s
               else (let b = Boundary (int (declStart ls (openLine op))) (int (sLine s)) []
                     in if openDepth op = 0 then s\<lparr>sTop := sTop s @ [b]\<rparr>
                        else if openDepth op = 1 then s\<lparr>sSubs := sSubs s @ [b]\<rparr>
                        else s))))"

definition inCode :: "bytes \<Rightarrow> bytes list \<Rightarrow> nat \<Rightarrow> char \<Rightarrow> braceScanner \<Rightarrow> nat \<times> braceScanner" where
  "inCode src ls i c s =
     (if c = CHR ''/'' then slash src i s
      else if c = CHR ''<'' then
        (if HasPrefix (drop i src) ''<<<'' then
           (case skipHeredoc src i (sLine s) of
              None \<Rightarrow> (i, s) | Some (ni, nl) \<Rightarrow> (ni, s\<lparr>sLine := nl\<rparr>))
         else (i, s))
      else if c = CHR ''#'' then (i, s\<lparr>sState := braceLineComment\<rparr>)
      else if c = SQ then (i, s\<lparr>sState := braceSingle\<rparr>)
      else if c = DQ then (i, s\<lparr>sState := braceDouble\<rparr>)
      else if c = BQ then (i, s\<lparr>sState := braceTemplate\<rparr>)
      else if c = CHR ''{'' then
        (i, s\<lparr>sStack := \<lparr>openLine = sLine s, openDepth = sDepth s\<rparr> # sStack s, sDepth := sDepth s + 1\<rparr>)
      else if c = CHR ''}'' then (i, close_brace ls s)
      else (i, s))"

definition track :: "char \<Rightarrow> braceScanner \<Rightarrow> braceScanner" where
  "track c s =
     (let s = (if byte c > 32 then s\<lparr>lastSig := c\<rparr> else s)
      in if isWordByte c then s\<lparr>sWord := sWord s @ [c]\<rparr>
         else if sWord s \<noteq> [] then s\<lparr>lastWord := sWord s, sWord := []\<rparr> else s)"

section \<open>The index moves forward\<close>

lemma regexLoop_ge: "i \<le> j \<Longrightarrow> i \<le> regexLoop src i j c"
proof (induction src i j c rule: regexLoop.induct)
  case (1 src i j c)
  then show ?case by (auto simp: regexLoop.simps [of src i j c])
qed

lemma inSpan_ge: "i \<le> fst (inSpan src i c s)"
  by (auto simp: inSpan_def split: braceState.splits)

lemma length_trim_blanks: "length (trim_blanks s) \<le> length s"
  by (simp add: trim_blanks_def length_dropWhile_le)

text \<open>The number of line feeds among the first \<open>k\<close> bytes.\<close>

definition lf_upto :: "bytes \<Rightarrow> nat \<Rightarrow> nat" where
  "lf_upto src k = count_byte (take k src) LF"

lemma lf_upto_mono: "i \<le> j \<Longrightarrow> lf_upto src i \<le> lf_upto src j"
  by (simp add: lf_upto_def count_byte_take_mono)

lemma lf_upto_Suc: "i < length src \<Longrightarrow> src ! i = LF \<Longrightarrow> lf_upto src (Suc i) = Suc (lf_upto src i)"
  by (simp add: lf_upto_def count_byte_take_Suc)

lemma lf_upto_le: "lf_upto src k \<le> count_byte src LF"
  by (simp add: lf_upto_def count_byte_take_le)

lemma heredocLoop_spec:
  assumes "heredocLoop src tag j line = (ni, nl)" "j \<le> length src" "tag \<noteq> []"
    "line \<le> Suc (lf_upto src j)" "1 \<le> line" "i < j"
  shows "i \<le> ni \<and> line \<le> nl \<and> nl \<le> Suc (lf_upto src (Suc ni))"
  using assms
proof (induction src tag j line rule: heredocLoop.induct)
  case (1 src tag j line)
  show ?case
  proof (cases "IndexByte (drop j src) LF")
    case None
    then have "ni = length src - 1" "nl = line"
      using "1.prems" by (auto simp: heredocLoop.simps [of src tag j line])
    moreover have "Suc (length src - 1) = length src" using "1.prems" by auto
    ultimately show ?thesis
      using "1.prems" lf_upto_mono [of j "length src" src] by auto
  next
    case (Some n)
    from IndexByte_Some [OF Some] have n: "j + n < length src" "src ! (j + n) = LF"
      by auto
    define j' where "j' = j + n + 1"
    have j': "j \<le> j'" "j' \<le> length src" using n by (auto simp: j'_def)
    have "Suc line \<le> Suc (lf_upto src j')"
      using "1.prems" lf_upto_Suc [OF n] lf_upto_mono [of j "j + n" src] by (simp add: j'_def)
    note line' = this
    show ?thesis
    proof (cases "closesHeredoc (trim_blanks (drop j' src)) tag")
      case True
      then have nlni: "nl = Suc line"
        "ni = j' + length (drop j' src) - length (trim_blanks (drop j' src)) + length tag - 1"
        using "1.prems"(1) Some by (auto simp: heredocLoop.simps [of src tag j line] Let_def j'_def)
      then have "j' \<le> Suc ni"
        using length_trim_blanks [of "drop j' src"] by linarith
      moreover have "i \<le> ni" using nlni "1.prems" length_trim_blanks [of "drop j' src"] j'
        by (cases tag) (auto simp: j'_def)
      ultimately show ?thesis
        using nlni line' lf_upto_mono [of j' "Suc ni" src] by auto
    next
      case False
      then have "heredocLoop src tag j' (Suc line) = (ni, nl)"
        using "1.prems"(1) Some by (simp add: heredocLoop.simps [of src tag j line] Let_def j'_def)
      then have "i \<le> ni \<and> Suc line \<le> nl \<and> nl \<le> Suc (lf_upto src (Suc ni))"
        using "1.IH" [OF Some refl refl refl refl] False "1.prems" line' j'
        by (auto simp: j'_def)
      then show ?thesis by auto
    qed
  qed
qed

lemma skipHeredoc_spec:
  assumes "skipHeredoc src i line = Some (ni, nl)" "i < length src"
    "line \<le> Suc (lf_upto src i)" "1 \<le> line"
  shows "i \<le> ni \<and> line \<le> nl \<and> nl \<le> Suc (lf_upto src (Suc ni))"
proof -
  define rest where "rest = dropWhile (\<lambda>c. c = CHR '' '' \<or> c = SQ \<or> c = DQ) (drop (i + 3) src)"
  define tag where "tag = takeWhile (\<lambda>c. isWordByte c \<or> isDigitByte c) rest"
  define j where "j = length src - length rest + length tag"
  have "length rest \<le> length src - (i + 3)"
    unfolding rest_def using length_dropWhile_le [of _ "drop (i + 3) src"] by simp
  moreover have "length tag \<le> length rest"
    by (simp add: tag_def length_takeWhile_le)
  moreover have tag: "tag \<noteq> []" and h: "heredocLoop src tag j line = (ni, nl)"
    using assms(1) by (auto simp: skipHeredoc_def Let_def rest_def tag_def j_def split: if_splits)
  ultimately have "i < j" "j \<le> length src" using assms(2) by (auto simp: j_def)
  moreover have "line \<le> Suc (lf_upto src j)"
    using assms(3) lf_upto_mono [of i j src] \<open>i < j\<close> by auto
  ultimately show ?thesis using heredocLoop_spec [OF h _ tag] assms(4) by blast
qed

lemma inCode_fst:
  assumes "i < length src" "sLine s \<le> Suc (lf_upto src i)" "1 \<le> sLine s"
  shows "i \<le> fst (inCode src ls i c s)"
  using assms regexLoop_ge [of i "i + 1" src False] skipHeredoc_spec [of src i "sLine s"]
  by (auto simp: inCode_def slash_def skipRegex_def split: option.splits)

text \<open>
  The loop's own progress does not depend on the line counter, so that it can be defined first.
\<close>

lemma heredocLoop_ge: "i < j \<Longrightarrow> j \<le> length src \<Longrightarrow> tag \<noteq> [] \<Longrightarrow> i \<le> fst (heredocLoop src tag j line)"
proof (induction src tag j line rule: heredocLoop.induct)
  case (1 src tag j line)
  show ?case
  proof (cases "IndexByte (drop j src) LF")
    case None
    with "1.prems" show ?thesis by (simp add: heredocLoop.simps [of src tag j line])
  next
    case (Some n)
    define j' where "j' = j + n + 1"
    have j': "i < j'" "j' \<le> length src"
      using IndexByte_Some [OF Some] "1.prems" by (auto simp: j'_def)
    show ?thesis
    proof (cases "closesHeredoc (trim_blanks (drop j' src)) tag")
      case True
      moreover have "i \<le> j' + length (drop j' src) - length (trim_blanks (drop j' src)) + length tag - 1"
        using "1.prems" j' length_trim_blanks [of "drop j' src"] by (cases tag) auto
      ultimately show ?thesis
        using Some by (simp add: heredocLoop.simps [of src tag j line] Let_def j'_def)
    next
      case False
      then show ?thesis
        using "1.IH" [OF Some refl refl refl refl] Some "1.prems" j'
        by (simp add: heredocLoop.simps [of src tag j line] Let_def j'_def)
    qed
  qed
qed

lemma skipHeredoc_ge:
  assumes "skipHeredoc src i line = Some (ni, nl)" "i < length src"
  shows "i \<le> ni"
proof -
  define rest where "rest = dropWhile (\<lambda>c. c = CHR '' '' \<or> c = SQ \<or> c = DQ) (drop (i + 3) src)"
  define tag where "tag = takeWhile (\<lambda>c. isWordByte c \<or> isDigitByte c) rest"
  define j where "j = length src - length rest + length tag"
  have "length rest \<le> length src - (i + 3)"
    unfolding rest_def using length_dropWhile_le [of _ "drop (i + 3) src"] by simp
  moreover have "length tag \<le> length rest"
    by (simp add: tag_def length_takeWhile_le)
  moreover have "tag \<noteq> []" "heredocLoop src tag j line = (ni, nl)"
    using assms(1) by (auto simp: skipHeredoc_def Let_def rest_def tag_def j_def split: if_splits)
  ultimately show ?thesis
    using heredocLoop_ge [of i j src tag line] assms(2) by (auto simp: j_def)
qed

lemma inCode_ge: "i < length src \<Longrightarrow> i \<le> fst (inCode src ls i c s)"
  using regexLoop_ge [of i "i + 1" src False] skipHeredoc_ge [of src i "sLine s"]
  by (auto simp: inCode_def slash_def skipRegex_def split: option.splits)

lemma inSpan_ge': "(i', s') = inSpan src i c s \<Longrightarrow> i \<le> i'"
  by (metis inSpan_ge fst_conv)

lemma inCode_ge': "(i', s') = inCode src ls i c s \<Longrightarrow> i < length src \<Longrightarrow> i \<le> i'"
  by (metis inCode_ge fst_conv)

function braceRun :: "bytes \<Rightarrow> bytes list \<Rightarrow> nat \<Rightarrow> braceScanner \<Rightarrow> braceScanner" where
  "braceRun src ls i s =
     (if i < length src then
        (let c = src ! i
         in if c = LF then
              braceRun src ls (i + 1)
                (if sState s = braceLineComment then s\<lparr>sLine := sLine s + 1, sState := braceCode\<rparr>
                 else s\<lparr>sLine := sLine s + 1\<rparr>)
            else if sState s \<noteq> braceCode then
              (case inSpan src i c s of (i', s') \<Rightarrow> braceRun src ls (i' + 1) s')
            else
              (case inCode src ls i c s of (i', s') \<Rightarrow> braceRun src ls (i' + 1) (track c s')))
      else s)"
  by pat_completeness auto
termination
proof (relation "measure (\<lambda>(src, ls, i, s). length src - i)", goal_cases)
  case (3 src ls i s c)
  then show ?case by (auto split: prod.splits dest!: inSpan_ge')
next
  case (4 src ls i s c)
  then show ?case by (auto split: prod.splits dest!: inCode_ge')
qed auto

declare braceRun.simps [simp del]

definition new_scanner :: braceScanner where
  "new_scanner = \<lparr>sLine = 1, sDepth = 0, sState = braceCode, sStack = [], sTop = [], sSubs = [],
     lastSig = CHR 0x00, lastWord = [], sWord = []\<rparr>"

definition braceBoundaries :: "bytes \<Rightarrow> Boundary list" where
  "braceBoundaries content =
     (let s = braceRun content (splitLines content) 0 new_scanner in attachSubs (sTop s) (sSubs s))"

section \<open>Detections stay inside the file\<close>

definition scan_inv :: "bytes \<Rightarrow> nat \<Rightarrow> braceScanner \<Rightarrow> bool" where
  "scan_inv src i s \<longleftrightarrow>
     1 \<le> sLine s \<and> sLine s \<le> Suc (lf_upto src i) \<and>
     (\<forall>op \<in> set (sStack s). 1 \<le> openLine op \<and> openLine op \<le> sLine s) \<and>
     (\<forall>b \<in> set (sTop s) \<union> set (sSubs s). in_file (int (sLine s)) b \<and> bSub b = [])"

lemma declUp_le: "declUp ls st \<le> st"
proof (induction ls st rule: declUp.induct)
  case (1 ls st)
  then show ?case by (auto simp: declUp.simps [of ls st] Let_def)
qed

lemma commentUp_le: "commentUp ls st \<le> st"
proof (induction ls st rule: commentUp.induct)
  case (1 ls st)
  then show ?case by (auto simp: commentUp.simps [of ls st])
qed

lemma declUp_pos: "1 \<le> st \<Longrightarrow> 1 \<le> declUp ls st"
proof (induction ls st rule: declUp.induct)
  case (1 ls st)
  then show ?case by (auto simp: declUp.simps [of ls st] Let_def)
qed

lemma commentUp_pos: "1 \<le> st \<Longrightarrow> 1 \<le> commentUp ls st"
proof (induction ls st rule: commentUp.induct)
  case (1 ls st)
  then show ?case by (auto simp: commentUp.simps [of ls st])
qed

lemma declStart_range: "1 \<le> l \<Longrightarrow> 1 \<le> declStart ls l \<and> declStart ls l \<le> l"
  using declUp_pos [of l ls] declUp_le [of ls l] commentUp_pos [of "declUp ls l" ls]
    commentUp_le [of ls "declUp ls l"] by (simp add: declStart_def)

lemma scan_inv_mono: "scan_inv src i s \<Longrightarrow> i \<le> j \<Longrightarrow> scan_inv src j s"
  using lf_upto_mono [of i j src] by (auto simp: scan_inv_def)

lemma scan_inv_line:
  assumes "scan_inv src i s" "sLine s \<le> nl" "nl \<le> Suc (lf_upto src j)"
  shows "scan_inv src j (s\<lparr>sLine := nl\<rparr>)"
proof -
  have "openLine op \<le> nl" if "op \<in> set (sStack s)" for op
    using assms(1,2) that by (auto simp: scan_inv_def)
  moreover have "in_file (int nl) b" if "b \<in> set (sTop s) \<union> set (sSubs s)" for b
  proof -
    have "in_file (int (sLine s)) b" using assms(1) that by (auto simp: scan_inv_def)
    with assms(2) show ?thesis by (auto simp: in_file_def)
  qed
  ultimately show ?thesis
    using assms by (auto simp: scan_inv_def)
qed

lemma scan_inv_state [simp]:
  "scan_inv src i (s\<lparr>sState := st\<rparr>) = scan_inv src i s"
  "scan_inv src i (track c s) = scan_inv src i s"
  by (simp_all add: scan_inv_def track_def Let_def)

lemma close_brace_inv:
  assumes "scan_inv src i s"
  shows "scan_inv src i (close_brace ls s)"
proof (cases "sStack s")
  case (Cons op stack)
  then have "1 \<le> declStart ls (openLine op) \<and> declStart ls (openLine op) \<le> openLine op"
    using assms by (intro declStart_range) (auto simp: scan_inv_def)
  with Cons assms show ?thesis
    by (auto simp: close_brace_def scan_inv_def Let_def in_file_def)
qed (use assms in \<open>auto simp: close_brace_def\<close>)

lemma inSpan_inv: "scan_inv src i s \<Longrightarrow> scan_inv src (Suc (fst (inSpan src i c s))) (snd (inSpan src i c s))"
  using scan_inv_mono [of src i s "Suc i"] scan_inv_mono [of src i s "Suc (Suc i)"]
  by (auto simp: inSpan_def split: braceState.splits)

lemma slash_inv: "scan_inv src i s \<Longrightarrow> scan_inv src (Suc (fst (slash src i s))) (snd (slash src i s))"
  using scan_inv_mono [of src i s "Suc i"] scan_inv_mono [of src i s "Suc (Suc i)"]
    scan_inv_mono [of src i s "Suc (skipRegex src i)"] regexLoop_ge [of i "i + 1" src False]
  by (auto simp: slash_def skipRegex_def)

lemma inCode_inv:
  assumes inv: "scan_inv src i s" and i: "i < length src"
  shows "scan_inv src (Suc (fst (inCode src ls i c s))) (snd (inCode src ls i c s))"
proof -
  have step: "scan_inv src (Suc i) s" by (rule scan_inv_mono [OF inv]) simp
  have push: "scan_inv src (Suc i)
      (s\<lparr>sStack := \<lparr>openLine = sLine s, openDepth = sDepth s\<rparr> # sStack s, sDepth := sDepth s + 1\<rparr>)"
    using step by (auto simp: scan_inv_def)
  have heredoc: "scan_inv src (Suc ni) (s\<lparr>sLine := nl\<rparr>)"
    if "skipHeredoc src i (sLine s) = Some (ni, nl)" for ni nl
    using skipHeredoc_spec [OF that i] inv by (intro scan_inv_line [OF inv]) (auto simp: scan_inv_def)
  show ?thesis
    using slash_inv [OF inv] step push heredoc close_brace_inv [OF step, of ls]
    by (auto simp: inCode_def split: option.splits)
qed

lemma braceRun_inv:
  "scan_inv src i s \<Longrightarrow> \<exists>j. scan_inv src j (braceRun src ls i s)"
proof (induction src ls i s rule: braceRun.induct)
  case (1 src ls i s)
  show ?case
  proof (cases "i < length src")
    case False
    with "1.prems" show ?thesis by (auto simp: braceRun.simps [of src ls i s])
  next
    case i: True
    consider "src ! i = LF" | "src ! i \<noteq> LF" "sState s \<noteq> braceCode" | "src ! i \<noteq> LF" "sState s = braceCode"
      by blast
    then show ?thesis
    proof cases
      case 1
      have "scan_inv src (i + 1) (s\<lparr>sLine := sLine s + 1\<rparr>)"
        using "1.prems" lf_upto_Suc [OF i \<open>src ! i = LF\<close>]
        by (intro scan_inv_line [OF "1.prems"]) (auto simp: scan_inv_def)
      moreover from this have "scan_inv src (i + 1) (s\<lparr>sLine := sLine s + 1, sState := braceCode\<rparr>)"
        by (simp add: scan_inv_def)
      ultimately show ?thesis
        using "1.IH"(1) [OF i refl \<open>src ! i = LF\<close>] i \<open>src ! i = LF\<close>
        by (simp add: braceRun.simps [of src ls i s])
    next
      case 2
      obtain i' s' where st: "inSpan src i (src ! i) s = (i', s')" by fastforce
      then have "scan_inv src (i' + 1) s'"
        using inSpan_inv [OF "1.prems", of "src ! i"] by simp
      with "1.IH"(2) [OF i refl 2 st [symmetric]] i 2 st show ?thesis
        by (simp add: braceRun.simps [of src ls i s])
    next
      case 3
      obtain i' s' where st: "inCode src ls i (src ! i) s = (i', s')" by fastforce
      then have "scan_inv src (i' + 1) (track (src ! i) s')"
        using inCode_inv [OF "1.prems" i, of ls "src ! i"] by simp
      with "1.IH"(3) [OF i refl _ _ st [symmetric]] i 3 st show ?thesis
        by (simp add: braceRun.simps [of src ls i s])
    qed
  qed
qed

lemma braceBoundaries_valid:
  assumes "braceBoundaries content \<noteq> []"
  shows "validBoundaries (braceBoundaries content) (int (length (splitLines content)))"
proof -
  define s where "s = braceRun content (splitLines content) 0 new_scanner"
  have "scan_inv content 0 new_scanner"
    by (simp add: scan_inv_def new_scanner_def)
  then obtain j where j: "scan_inv content j s"
    using braceRun_inv unfolding s_def by blast
  have "sLine s \<le> length (splitLines content)"
    using j lf_upto_le [of content j] by (simp add: scan_inv_def length_splitLines)
  then have "in_file (int (length (splitLines content))) b \<and> bSub b = []"
    if "b \<in> set (sTop s) \<union> set (sSubs s)" for b
  proof -
    have "in_file (int (sLine s)) b" "bSub b = []" using j that by (auto simp: scan_inv_def)
    with \<open>sLine s \<le> length (splitLines content)\<close> show ?thesis by (auto simp: in_file_def)
  qed
  moreover have "sTop s \<noteq> []"
    using assms by (auto simp: braceBoundaries_def s_def attachSubs_def Let_def dropOverlaps_def sortByStart_def)
  ultimately show ?thesis
    unfolding braceBoundaries_def Let_def s_def [symmetric] by (intro attachSubs_valid) auto
qed

end
