(* ===== verification/Structural.thy ===== *)
theory Structural
  imports PyBounds BraceBounds
begin

text \<open>
  \<open>internal/codesearch/chunk_structural.go\<close> and \<open>ChunkFile\<close>: the packer, which closes a
  block at declaration boundaries, and the choice between it and the character chunker.
  The packer's slices can be out of range (a run-time panic), so its operations return an
  \<^typ>\<open>'a option\<close>; the lemmas show that after \<open>validBoundaries\<close> they never are, that the
  blocks tile the file from their first line to its last, and that the lines before the first
  block weigh less than \<open>minChunkChars\<close>.
\<close>

section \<open>Model\<close>

definition maxStructuralChars :: nat where "maxStructuralChars = 2000"

record packer =
  pPath :: bytes
  pLines :: "bytes list"
  pOut :: "Chunk list"
  pStart :: int
  pEnd :: int
  pLength :: nat

definition pText :: "packer \<Rightarrow> int \<Rightarrow> int \<Rightarrow> bytes option" where
  "pText p s e = map_option joinLines (go_slice (pLines p) (s - 1) e)"

text \<open>\<open>size\<close>: the loop \<open>for i := start-1; i < end && i < len(lines)\<close>; a negative index panics.\<close>

definition pSize :: "packer \<Rightarrow> int \<Rightarrow> int \<Rightarrow> nat option" where
  "pSize p s e =
     (let hi = min e (int (length (pLines p)))
      in if s - 1 < 0 \<and> s - 1 < hi then None
         else Some (run_size (take (nat (hi - (s - 1))) (drop (nat (s - 1)) (pLines p)))))"

definition pFlush :: "(bytes \<Rightarrow> bytes) \<Rightarrow> packer \<Rightarrow> packer option" where
  "pFlush sha p =
     (if pLength p = 0 then Some p
      else if pLength p < minChunkChars \<and> length (pOut p) > 0 then
        (let prev = last (pOut p)
         in map_option (\<lambda>content.
              p\<lparr>pOut := butlast (pOut p) @
                  [prev\<lparr>cEndLine := pEnd p, cContent := content,
                        cHash := segmentHash sha (pPath p) (cStartLine prev) (pEnd p) content\<rparr>],
                pStart := 0, pEnd := 0, pLength := 0\<rparr>)
              (pText p (cStartLine prev) (pEnd p)))
      else if pLength p < minChunkChars then Some (p\<lparr>pStart := 0, pEnd := 0, pLength := 0\<rparr>)
      else map_option (\<lambda>content.
             p\<lparr>pOut := pOut p @
                 [\<lparr>cPath = pPath p, cStartLine = pStart p, cEndLine = pEnd p, cContent = content,
                   cHash = segmentHash sha (pPath p) (pStart p) (pEnd p) content\<rparr>],
               pStart := 0, pEnd := 0, pLength := 0\<rparr>)
             (pText p (pStart p) (pEnd p)))"

definition pAdd :: "(bytes \<Rightarrow> bytes) \<Rightarrow> packer \<Rightarrow> int \<Rightarrow> int \<Rightarrow> packer option" where
  "pAdd sha p s e =
     (case pSize p s e of
        None \<Rightarrow> None
      | Some n \<Rightarrow>
          (case (if pLength p > 0 \<and> pLength p + n > maxStructuralChars then pFlush sha p else Some p) of
             None \<Rightarrow> None
           | Some p \<Rightarrow>
               (let p = (if pLength p = 0 then p\<lparr>pStart := s\<rparr> else p)
                in Some (p\<lparr>pEnd := e, pLength := pLength p + n\<rparr>))))"

function splitByLines :: "(bytes \<Rightarrow> bytes) \<Rightarrow> packer \<Rightarrow> int \<Rightarrow> int \<Rightarrow> packer option" where
  "splitByLines sha p i e =
     (if i \<le> e \<and> i \<le> int (length (pLines p)) then
        (case pAdd sha p i i of
           None \<Rightarrow> None
         | Some p1 \<Rightarrow>
             (case (if pLength p1 \<ge> maxStructuralChars then pFlush sha p1 else Some p1) of
                None \<Rightarrow> None
              | Some p2 \<Rightarrow> splitByLines sha p2 (i + 1) e))
      else Some p)"
  by pat_completeness auto
termination
  by (relation "measure (\<lambda>(sha, p, i, e). nat (e - i + 1))") auto

declare splitByLines.simps [simp del]

text \<open>The loop of \<open>addDeclaration\<close> over the nested declarations; the result carries \<open>last\<close>.\<close>

fun addSubs :: "(bytes \<Rightarrow> bytes) \<Rightarrow> packer \<Rightarrow> int \<Rightarrow> Boundary list \<Rightarrow> (packer \<times> int) option" where
  "addSubs sha p lst [] = Some (p, lst)"
| "addSubs sha p lst (s # ss) =
     (case (if bStart s > lst + 1 then pAdd sha p (lst + 1) (bStart s - 1) else Some p) of
        None \<Rightarrow> None
      | Some p1 \<Rightarrow>
          (case pSize p1 (bStart s) (bEnd s) of
             None \<Rightarrow> None
           | Some n \<Rightarrow>
               (case (if n \<le> maxStructuralChars then pAdd sha p1 (bStart s) (bEnd s)
                      else splitByLines sha p1 (bStart s) (bEnd s)) of
                  None \<Rightarrow> None
                | Some p2 \<Rightarrow> addSubs sha p2 (bEnd s) ss)))"

definition addDeclaration :: "(bytes \<Rightarrow> bytes) \<Rightarrow> packer \<Rightarrow> Boundary \<Rightarrow> packer option" where
  "addDeclaration sha p b =
     (case pSize p (bStart b) (bEnd b) of
        None \<Rightarrow> None
      | Some n \<Rightarrow>
          if n \<le> maxStructuralChars then pAdd sha p (bStart b) (bEnd b)
          else if length (bSub b) = 0 then splitByLines sha p (bStart b) (bEnd b)
          else (case addSubs sha p (bStart b - 1) (bSub b) of
                  None \<Rightarrow> None
                | Some (p1, lst) \<Rightarrow>
                    if bEnd b > lst then pAdd sha p1 (lst + 1) (bEnd b) else Some p1))"

fun addDeclarations :: "(bytes \<Rightarrow> bytes) \<Rightarrow> packer \<Rightarrow> int \<Rightarrow> Boundary list \<Rightarrow> (packer \<times> int) option" where
  "addDeclarations sha p prevEnd [] = Some (p, prevEnd)"
| "addDeclarations sha p prevEnd (b # bs) =
     (case (if bStart b > prevEnd + 1 then pAdd sha p (prevEnd + 1) (bStart b - 1) else Some p) of
        None \<Rightarrow> None
      | Some p1 \<Rightarrow>
          (case addDeclaration sha p1 b of
             None \<Rightarrow> None
           | Some p2 \<Rightarrow> addDeclarations sha p2 (bEnd b) bs))"

definition new_packer :: "bytes \<Rightarrow> bytes list \<Rightarrow> packer" where
  "new_packer pa ls = \<lparr>pPath = pa, pLines = ls, pOut = [], pStart = 0, pEnd = 0, pLength = 0\<rparr>"

definition structuralChunks ::
  "(bytes \<Rightarrow> bytes) \<Rightarrow> bytes \<Rightarrow> bytes list \<Rightarrow> Boundary list \<Rightarrow> Chunk list option" where
  "structuralChunks sha pa ls bs =
     (case addDeclarations sha (new_packer pa ls) 0 bs of
        None \<Rightarrow> None
      | Some (p, prevEnd) \<Rightarrow>
          (case (if prevEnd < int (length ls) then pAdd sha p (prevEnd + 1) (int (length ls)) else Some p) of
             None \<Rightarrow> None
           | Some p1 \<Rightarrow> map_option pOut (pFlush sha p1)))"

definition brace_exts :: "bytes list" where
  "brace_exts = [''.php'', ''.ts'', ''.tsx'', ''.js'', ''.jsx'', ''.mjs'', ''.cjs'',
     ''.java'', ''.c'', ''.h'', ''.cc'', ''.cpp'', ''.hpp'', ''.cs'', ''.rs'', ''.swift'', ''.kt'', ''.scala'']"

text \<open>\<open>boundaries\<close>: \<^const>\<open>None\<close> is Go's \<open>nil\<close>.\<close>

definition boundaries ::
  "(bytes \<Rightarrow> bytes \<Rightarrow> GoDecl list option) \<Rightarrow> bytes \<Rightarrow> bytes \<Rightarrow> Boundary list option" where
  "boundaries parseGo pa content =
     (let ext = ToLower (Ext pa);
          bs = (if ext = ''.go'' then Some (goBoundaries parseGo pa content)
                else if ext \<in> set brace_exts then Some (braceBoundaries content)
                else if ext = ''.py'' then Some (pythonBoundaries content)
                else None)
      in case bs of
           None \<Rightarrow> None
         | Some bs \<Rightarrow>
             if \<not> validBoundaries bs (int (count_byte content LF) + 1) then None else Some bs)"

definition ChunkFile ::
  "(bytes \<Rightarrow> bytes) \<Rightarrow> (bytes \<Rightarrow> bytes \<Rightarrow> GoDecl list option) \<Rightarrow> bytes \<Rightarrow> bytes \<Rightarrow> Chunk list option" where
  "ChunkFile sha parseGo pa content =
     (let ls = splitLines content
      in case boundaries parseGo pa content of
           Some bs \<Rightarrow> structuralChunks sha pa ls bs
         | None \<Rightarrow> Some (charChunks sha pa ls))"

section \<open>Weights, texts and tilings\<close>

text \<open>The size of lines \<open>a + 1\<close> to \<open>b\<close>, line ends included.\<close>

definition wt :: "bytes list \<Rightarrow> int \<Rightarrow> int \<Rightarrow> nat" where
  "wt ls a b = run_size (take (nat (b - a)) (drop (nat a) ls))"

lemma wt_self [simp]: "wt ls a a = 0"
  by (simp add: wt_def)

lemma wt_add:
  assumes "0 \<le> a" "a \<le> b" "b \<le> c"
  shows "wt ls a c = wt ls a b + wt ls b c"
proof -
  have "nat (c - a) = nat (b - a) + nat (c - b)" "nat b = nat (b - a) + nat a"
    using assms by auto
  then have "take (nat (c - a)) (drop (nat a) ls) =
      take (nat (b - a)) (drop (nat a) ls) @ take (nat (c - b)) (drop (nat b) ls)"
    by (simp add: take_add)
  then show ?thesis by (simp add: wt_def)
qed

lemma run_size_ge_length: "length xs \<le> run_size xs"
  by (induction xs) auto

lemma wt_pos: "0 \<le> a \<Longrightarrow> a < b \<Longrightarrow> b \<le> int (length ls) \<Longrightarrow> 0 < wt ls a b"
  using run_size_ge_length [of "take (nat (b - a)) (drop (nat a) ls)"] by (simp add: wt_def)

lemma pSize_wt:
  "0 \<le> a \<Longrightarrow> b \<le> int (length (pLines p)) \<Longrightarrow> pSize p (a + 1) b = Some (wt (pLines p) a b)"
  by (simp add: pSize_def wt_def)

lemma pText_text:
  "1 \<le> s \<Longrightarrow> s \<le> e \<Longrightarrow> e \<le> int (length (pLines p)) \<Longrightarrow> pText p s e = Some (text_of (pLines p) s e)"
  by (simp add: pText_def text_of_def joinLines_def algebra_simps)

text \<open>Consecutive exact blocks that cover lines \<open>lo + 1\<close> to \<open>hi\<close>, none missing and none twice.\<close>

fun tiles :: "(bytes \<Rightarrow> bytes) \<Rightarrow> bytes \<Rightarrow> bytes list \<Rightarrow> int \<Rightarrow> int \<Rightarrow> Chunk list \<Rightarrow> bool" where
  "tiles sha pa ls lo hi [] = (lo = hi)"
| "tiles sha pa ls lo hi (c # cs) =
     (cStartLine c = lo + 1 \<and> chunk_in_file sha pa ls c \<and> exact ls c \<and> tiles sha pa ls (cEndLine c) hi cs)"

lemma tiles_append:
  "tiles sha pa ls lo hi (xs @ ys) \<longleftrightarrow> (\<exists>m. tiles sha pa ls lo m xs \<and> tiles sha pa ls m hi ys)"
  by (induction xs arbitrary: lo) auto

lemma tiles_le: "tiles sha pa ls lo hi cs \<Longrightarrow> lo \<le> hi"
  by (induction cs arbitrary: lo) (fastforce simp: chunk_in_file_def)+

lemma tiles_snoc:
  assumes "tiles sha pa ls lo m cs" "cStartLine c = m + 1" "cEndLine c = hi"
    "chunk_in_file sha pa ls c" "exact ls c"
  shows "tiles sha pa ls lo hi (cs @ [c])"
  using assms by (auto simp: tiles_append)

lemma tiles_covered:
  "tiles sha pa ls lo hi cs \<Longrightarrow> lo \<le> int j \<Longrightarrow> int j < hi \<Longrightarrow> covered cs j"
proof (induction cs arbitrary: lo)
  case (Cons c cs)
  show ?case
  proof (cases "int j < cEndLine c")
    case True
    with Cons.prems show ?thesis by (auto simp: covered_def)
  next
    case False
    with Cons have "covered cs j" by auto
    then show ?thesis by (auto simp: covered_def)
  qed
qed simp

lemma tiles_sorted:
  "tiles sha pa ls lo hi cs \<Longrightarrow>
   sorted_wrt (\<lambda>a b. cEndLine a < cStartLine b) cs \<and> (\<forall>c \<in> set cs. lo < cStartLine c)"
proof (induction cs arbitrary: lo)
  case (Cons c cs)
  then have "sorted_wrt (\<lambda>a b. cEndLine a < cStartLine b) cs" "\<forall>d \<in> set cs. cEndLine c < cStartLine d"
    "cStartLine c \<le> cEndLine c"
    by (auto simp: chunk_in_file_def)
  with Cons.prems show ?case by auto
qed simp

lemma tiles_honest:
  "tiles sha pa ls lo hi cs \<Longrightarrow> c \<in> set cs \<Longrightarrow> chunk_in_file sha pa ls c \<and> exact ls c"
  by (induction cs arbitrary: lo) auto

section \<open>The packer's invariant\<close>

text \<open>
  After lines \<open>1..k\<close>: nothing open (\<open>flushed\<close>), or an open run \<open>pStart..k\<close>. The blocks tile
  the lines from \<open>g + 1\<close> on, where lines \<open>1..g\<close> weigh less than \<open>minChunkChars\<close>. While no
  block is out, the open run starts the file or already outweighs the minimum: this is what keeps
  a second run from being dropped.
\<close>

definition tiled :: "(bytes \<Rightarrow> bytes) \<Rightarrow> bytes \<Rightarrow> bytes list \<Rightarrow> int \<Rightarrow> Chunk list \<Rightarrow> bool" where
  "tiled sha pa ls k cs \<longleftrightarrow> (\<exists>g. 0 \<le> g \<and> wt ls 0 g < minChunkChars \<and> tiles sha pa ls g k cs)"

definition flushed :: "(bytes \<Rightarrow> bytes) \<Rightarrow> bytes \<Rightarrow> bytes list \<Rightarrow> int \<Rightarrow> packer \<Rightarrow> bool" where
  "flushed sha pa ls k p \<longleftrightarrow>
     pPath p = pa \<and> pLines p = ls \<and> pLength p = 0 \<and> 0 \<le> k \<and> k \<le> int (length ls) \<and>
     tiled sha pa ls k (pOut p)"

definition packed :: "(bytes \<Rightarrow> bytes) \<Rightarrow> bytes \<Rightarrow> bytes list \<Rightarrow> int \<Rightarrow> packer \<Rightarrow> bool" where
  "packed sha pa ls k p \<longleftrightarrow>
     (if pLength p = 0 then flushed sha pa ls k p \<and> (pOut p = [] \<longrightarrow> k = 0)
      else pPath p = pa \<and> pLines p = ls \<and> k \<le> int (length ls) \<and>
        1 \<le> pStart p \<and> pStart p \<le> k \<and> pEnd p = k \<and> pLength p = wt ls (pStart p - 1) k \<and>
        tiled sha pa ls (pStart p - 1) (pOut p) \<and>
        (pOut p = [] \<longrightarrow> pStart p = 1 \<or> minChunkChars \<le> pLength p))"

lemma tiled_snoc:
  assumes "tiled sha pa ls (s - 1) cs" "1 \<le> s" "s \<le> k" "k \<le> int (length ls)"
  shows "tiled sha pa ls k (cs @ [\<lparr>cPath = pa, cStartLine = s, cEndLine = k,
    cContent = text_of ls s k, cHash = segmentHash sha pa s k (text_of ls s k)\<rparr>])"
  using assms by (fastforce simp: tiled_def chunk_in_file_def exact_def intro: tiles_snoc)

lemma tiled_merge:
  assumes "tiled sha pa ls m cs" "cs \<noteq> []" "m \<le> k" "k \<le> int (length ls)"
  shows "1 \<le> cStartLine (last cs) \<and> cStartLine (last cs) \<le> k \<and>
    tiled sha pa ls k (butlast cs @ [(last cs)\<lparr>cEndLine := k, cContent := text_of ls (cStartLine (last cs)) k,
      cHash := segmentHash sha pa (cStartLine (last cs)) k (text_of ls (cStartLine (last cs)) k)\<rparr>])"
proof -
  obtain g where g: "0 \<le> g" "wt ls 0 g < minChunkChars" "tiles sha pa ls g m (butlast cs @ [last cs])"
    using assms by (auto simp: tiled_def)
  then obtain l where l: "tiles sha pa ls g l (butlast cs)" "cStartLine (last cs) = l + 1"
      "chunk_in_file sha pa ls (last cs)" "cEndLine (last cs) = m"
    by (auto simp: tiles_append)
  then have r: "1 \<le> cStartLine (last cs)" "cStartLine (last cs) \<le> k"
    using assms by (auto simp: chunk_in_file_def)
  have "tiles sha pa ls g k (butlast cs @ [(last cs)\<lparr>cEndLine := k, cContent := text_of ls (cStartLine (last cs)) k,
      cHash := segmentHash sha pa (cStartLine (last cs)) k (text_of ls (cStartLine (last cs)) k)\<rparr>])"
    by (rule tiles_snoc [OF l(1)]) (use l r assms in \<open>auto simp: chunk_in_file_def exact_def\<close>)
  with g r show ?thesis by (auto simp: tiled_def)
qed

lemma pFlush_spec:
  assumes "packed sha pa ls k p"
  shows "\<exists>p'. pFlush sha p = Some p' \<and> flushed sha pa ls k p' \<and>
    (pOut p' = [] \<longrightarrow> k = 0 \<or> pLength p < minChunkChars)"
proof (cases "pLength p = 0")
  case True
  with assms show ?thesis by (auto simp: pFlush_def packed_def)
next
  case False
  with assms have p: "pPath p = pa" "pLines p = ls" "k \<le> int (length ls)" "1 \<le> pStart p"
    "pStart p \<le> k" "pEnd p = k" "pLength p = wt ls (pStart p - 1) k"
    "tiled sha pa ls (pStart p - 1) (pOut p)"
    "pOut p = [] \<longrightarrow> pStart p = 1 \<or> minChunkChars \<le> pLength p"
    by (auto simp: packed_def)
  consider (merge) "pLength p < minChunkChars" "pOut p \<noteq> []" | (drop) "pLength p < minChunkChars" "pOut p = []"
    | (emit) "minChunkChars \<le> pLength p" by linarith
  then show ?thesis
  proof cases
    case merge
    have "pStart p - 1 \<le> k" using p by simp
    from tiled_merge [OF p(8) merge(2) this p(3)] show ?thesis
      using merge False p by (auto simp: pFlush_def Let_def pText_text flushed_def)
  next
    case drop
    then have "wt ls 0 k < minChunkChars" using p by auto
    then have "tiled sha pa ls k []" using p by (auto simp: tiled_def)
    with drop False p show ?thesis by (auto simp: pFlush_def flushed_def)
  next
    case emit
    with tiled_snoc [OF p(8,4,5,3)] False p show ?thesis
      by (auto simp: pFlush_def pText_text flushed_def)
  qed
qed

lemma pAdd_spec:
  assumes inv: "packed sha pa ls k p" and ke: "k < e" "e \<le> int (length ls)"
  shows "\<exists>p'. pAdd sha p (k + 1) e = Some p' \<and> packed sha pa ls e p' \<and> 0 < pLength p'"
proof -
  have k: "0 \<le> k" and pl: "pPath p = pa" "pLines p = ls"
    using inv by (auto simp: packed_def flushed_def split: if_splits)
  define n where "n = wt ls k e"
  have n: "pSize p (k + 1) e = Some n" "0 < n"
    using pSize_wt [of k e p] wt_pos [OF k ke] k ke pl by (auto simp: n_def)
  show ?thesis
  proof (cases "pLength p > 0 \<and> pLength p + n > maxStructuralChars")
    case True
    obtain p' where p': "pFlush sha p = Some p'" "flushed sha pa ls k p'"
        "pOut p' = [] \<longrightarrow> k = 0 \<or> pLength p < minChunkChars"
      using pFlush_spec [OF inv] by blast
    have "packed sha pa ls e (p'\<lparr>pStart := k + 1, pEnd := e, pLength := n\<rparr>)"
      using p' n k ke True by (auto simp: packed_def flushed_def n_def maxStructuralChars_def)
    then show ?thesis
      using p' n True by (auto simp: pAdd_def flushed_def Let_def)
  next
    case noflush: False
    show ?thesis
    proof (cases "pLength p = 0")
      case True
      with inv n k ke have "packed sha pa ls e (p\<lparr>pStart := k + 1, pEnd := e, pLength := n\<rparr>)"
        by (auto simp: packed_def flushed_def n_def)
      then show ?thesis using n True by (auto simp: pAdd_def Let_def)
    next
      case False
      with inv have "wt ls (pStart p - 1) e = pLength p + n"
        using wt_add [of "pStart p - 1" k e ls] ke by (auto simp: packed_def n_def)
      with inv False n ke have "packed sha pa ls e (p\<lparr>pEnd := e, pLength := pLength p + n\<rparr>)"
        by (auto simp: packed_def)
      moreover have "pAdd sha p (k + 1) e = Some (p\<lparr>pEnd := e, pLength := pLength p + n\<rparr>)"
        using False noflush n by (auto simp: pAdd_def Let_def)
      ultimately show ?thesis using n by auto
    qed
  qed
qed

section \<open>Declarations and the whole file\<close>

lemma splitByLines_spec:
  assumes "packed sha pa ls (i - 1) p" "i \<le> e + 1" "e \<le> int (length ls)"
  shows "\<exists>p'. splitByLines sha p i e = Some p' \<and> packed sha pa ls e p'"
  using assms
proof (induction sha p i e rule: splitByLines.induct)
  case (1 sha p i e)
  have ls: "pLines p = ls" using "1.prems" by (auto simp: packed_def flushed_def split: if_splits)
  show ?case
  proof (cases "i \<le> e")
    case False
    with "1.prems" have "i - 1 = e" by simp
    with False "1.prems" show ?thesis by (simp add: splitByLines.simps [of sha p i e])
  next
    case True
    with "1.prems" ls have cond: "i \<le> e \<and> i \<le> int (length (pLines p))" by simp
    have "i \<le> int (length ls)" using cond ls by simp
    then obtain p1 where p1: "pAdd sha p i i = Some p1" "packed sha pa ls i p1" "0 < pLength p1"
      using pAdd_spec [OF "1.prems"(1), of i] by auto
    have "\<exists>p2. (if pLength p1 \<ge> maxStructuralChars then pFlush sha p1 else Some p1) = Some p2 \<and>
        packed sha pa ls i p2"
    proof (cases "pLength p1 \<ge> maxStructuralChars")
      case big: True
      obtain p2 where p2: "pFlush sha p1 = Some p2" "flushed sha pa ls i p2"
          "pOut p2 = [] \<longrightarrow> i = 0 \<or> pLength p1 < minChunkChars"
        using pFlush_spec [OF p1(2)] by blast
      with big p1 show ?thesis
        by (auto simp: packed_def flushed_def maxStructuralChars_def split: if_splits)
    qed (use p1 in auto)
    then obtain p2 where p2: "(if pLength p1 \<ge> maxStructuralChars then pFlush sha p1 else Some p1) = Some p2"
        "packed sha pa ls i p2" by blast
    with "1.IH" [OF cond p1(1) p2(1)] "1.prems" True obtain p' where
      "splitByLines sha p2 (i + 1) e = Some p'" "packed sha pa ls e p'" by auto
    then show ?thesis
      using cond p1(1) p2(1) by (simp add: splitByLines.simps [of sha p i e])
  qed
qed

lemma packed_fields: "packed sha pa ls k p \<Longrightarrow> pPath p = pa \<and> pLines p = ls \<and> 0 \<le> k \<and> k \<le> int (length ls)"
  by (auto simp: packed_def flushed_def split: if_splits)

lemma gap_spec:
  assumes "packed sha pa ls k p" "k < s" "s \<le> int (length ls)"
  shows "\<exists>p1. (if s > k + 1 then pAdd sha p (k + 1) (s - 1) else Some p) = Some p1 \<and> packed sha pa ls (s - 1) p1"
proof (cases "s > k + 1")
  case True
  then show ?thesis using pAdd_spec [OF assms(1), of "s - 1"] assms by auto
next
  case False
  then have "s - 1 = k" using assms by simp
  with False assms show ?thesis by simp
qed

lemma part_spec:
  assumes "packed sha pa ls (s - 1) p" "s \<le> e" "e \<le> int (length ls)"
  shows "\<exists>p'. (if n \<le> maxStructuralChars then pAdd sha p s e else splitByLines sha p s e) = Some p' \<and>
    packed sha pa ls e p'"
  using pAdd_spec [OF assms(1), of e] splitByLines_spec [OF assms(1), of e] assms by auto

lemma addSubs_spec:
  assumes "packed sha pa ls lst p" "chained lst E ss" "lst \<le> E" "E \<le> int (length ls)"
  shows "\<exists>p' l'. addSubs sha p lst ss = Some (p', l') \<and> packed sha pa ls l' p' \<and> l' \<le> E"
  using assms
proof (induction ss arbitrary: p lst)
  case Nil
  then show ?case by auto
next
  case (Cons s ss)
  have c: "lst < bStart s" "bStart s \<le> bEnd s" "bEnd s \<le> E" "chained (bEnd s) E ss"
    using Cons.prems by auto
  obtain p1 where p1: "(if bStart s > lst + 1 then pAdd sha p (lst + 1) (bStart s - 1) else Some p) = Some p1"
      "packed sha pa ls (bStart s - 1) p1"
    using gap_spec [OF Cons.prems(1) c(1)] c Cons.prems by auto
  have sz: "pSize p1 (bStart s) (bEnd s) = Some (wt ls (bStart s - 1) (bEnd s))"
    using pSize_wt [of "bStart s - 1" "bEnd s" p1] packed_fields [OF p1(2)] c Cons.prems by auto
  obtain p2 where p2: "(if wt ls (bStart s - 1) (bEnd s) \<le> maxStructuralChars
      then pAdd sha p1 (bStart s) (bEnd s) else splitByLines sha p1 (bStart s) (bEnd s)) = Some p2"
      "packed sha pa ls (bEnd s) p2"
    using part_spec [OF p1(2) c(2)] c Cons.prems by (meson order_trans)
  from Cons.IH [OF p2(2) c(4) c(3) Cons.prems(4)] show ?case
    using p1(1) sz p2(1) by auto
qed

lemma addDeclaration_spec:
  assumes "packed sha pa ls (bStart b - 1) p" "bStart b \<le> bEnd b" "bEnd b \<le> int (length ls)"
    "chained (bStart b) (bEnd b) (bSub b)"
  shows "\<exists>p'. addDeclaration sha p b = Some p' \<and> packed sha pa ls (bEnd b) p'"
proof -
  define n where "n = wt ls (bStart b - 1) (bEnd b)"
  have sz: "pSize p (bStart b) (bEnd b) = Some n"
    using pSize_wt [of "bStart b - 1" "bEnd b" p] packed_fields [OF assms(1)] assms by (auto simp: n_def)
  show ?thesis
  proof (cases "n \<le> maxStructuralChars \<or> bSub b = []")
    case True
    then have "addDeclaration sha p b =
        (if n \<le> maxStructuralChars then pAdd sha p (bStart b) (bEnd b) else splitByLines sha p (bStart b) (bEnd b))"
      using sz by (auto simp: addDeclaration_def)
    with part_spec [OF assms(1-3), of n] show ?thesis by simp
  next
    case False
    have "chained (bStart b - 1) (bEnd b) (bSub b)"
      using assms(4) chained_sorted [OF assms(4)] by (intro chained_weaken [OF assms(4)]) auto
    then obtain p1 l where p1: "addSubs sha p (bStart b - 1) (bSub b) = Some (p1, l)"
        "packed sha pa ls l p1" "l \<le> bEnd b"
      using addSubs_spec [OF assms(1)] assms by fastforce
    then show ?thesis
      using sz False pAdd_spec [OF p1(2), of "bEnd b"] assms by (auto simp: addDeclaration_def)
  qed
qed

lemma addDeclarations_spec:
  assumes "packed sha pa ls lo p" "chained lo (int (length ls)) bs"
    "\<forall>b \<in> set bs. chained (bStart b) (bEnd b) (bSub b)"
  shows "\<exists>p' l'. addDeclarations sha p lo bs = Some (p', l') \<and> packed sha pa ls l' p'"
  using assms
proof (induction bs arbitrary: p lo)
  case Nil
  then show ?case by auto
next
  case (Cons b bs)
  have c: "lo < bStart b" "bStart b \<le> bEnd b" "bEnd b \<le> int (length ls)"
      "chained (bEnd b) (int (length ls)) bs"
    using Cons.prems by auto
  obtain p1 where p1: "(if bStart b > lo + 1 then pAdd sha p (lo + 1) (bStart b - 1) else Some p) = Some p1"
      "packed sha pa ls (bStart b - 1) p1"
    using gap_spec [OF Cons.prems(1) c(1)] c by auto
  obtain p2 where p2: "addDeclaration sha p1 b = Some p2" "packed sha pa ls (bEnd b) p2"
    using addDeclaration_spec [OF p1(2) c(2,3)] Cons.prems by auto
  from Cons.IH [OF p2(2) c(4)] Cons.prems(3) show ?case
    using p1(1) p2(1) by auto
qed

lemma packed_new: "packed sha pa ls 0 (new_packer pa ls)"
  by (auto simp: packed_def flushed_def new_packer_def tiled_def intro!: exI [of _ 0])

lemma structuralChunks_tiled:
  assumes "validBoundaries bs (int (length ls))"
  shows "\<exists>cs. structuralChunks sha pa ls bs = Some cs \<and> tiled sha pa ls (int (length ls)) cs"
proof -
  have "chained 0 (int (length ls)) bs" "\<forall>b \<in> set bs. chained (bStart b) (bEnd b) (bSub b)"
    using assms by (auto simp: validBoundaries_def validLoop_iff)
  then obtain p l where p: "addDeclarations sha (new_packer pa ls) 0 bs = Some (p, l)" "packed sha pa ls l p"
    using addDeclarations_spec [OF packed_new] by blast
  have "\<exists>p1. (if l < int (length ls) then pAdd sha p (l + 1) (int (length ls)) else Some p) = Some p1 \<and>
      packed sha pa ls (int (length ls)) p1"
  proof (cases "l < int (length ls)")
    case True
    then show ?thesis using pAdd_spec [OF p(2), of "int (length ls)"] by auto
  next
    case False
    then have "l = int (length ls)" using packed_fields [OF p(2)] by simp
    with p(2) show ?thesis by simp
  qed
  then obtain p1 where p1: "(if l < int (length ls) then pAdd sha p (l + 1) (int (length ls)) else Some p) = Some p1"
      "packed sha pa ls (int (length ls)) p1" by blast
  obtain p2 where "pFlush sha p1 = Some p2" "flushed sha pa ls (int (length ls)) p2"
    using pFlush_spec [OF p1(2)] by blast
  with p p1 show ?thesis
    by (auto simp: structuralChunks_def flushed_def)
qed

lemma boundaries_valid:
  "boundaries parseGo pa content = Some bs \<Longrightarrow> validBoundaries bs (int (length (splitLines content)))"
  by (auto simp: boundaries_def Let_def length_splitLines algebra_simps split: option.splits if_splits)

lemma tiled_honest: "tiled sha pa ls k cs \<Longrightarrow> c \<in> set cs \<Longrightarrow> honest sha pa ls c"
  by (auto simp: tiled_def honest_def dest: tiles_honest)

lemma tiled_before: "tiled sha pa ls k cs \<Longrightarrow> sorted_wrt before cs"
proof -
  assume "tiled sha pa ls k cs"
  then have "sorted_wrt (\<lambda>a b. cEndLine a < cStartLine b) cs"
    by (auto simp: tiled_def dest: tiles_sorted)
  then show ?thesis
    by (rule sorted_wrt_mono_rel [rotated]) (simp add: before_def)
qed

lemma ChunkFile_cases:
  obtains (structural) bs cs where "boundaries parseGo pa content = Some bs"
      "ChunkFile sha parseGo pa content = Some cs"
      "tiled sha pa (splitLines content) (int (length (splitLines content))) cs"
    | (plain) "boundaries parseGo pa content = None"
      "ChunkFile sha parseGo pa content = Some (charChunks sha pa (splitLines content))"
proof (cases "boundaries parseGo pa content")
  case None
  then show ?thesis using plain by (simp add: ChunkFile_def)
next
  case (Some bs)
  then show ?thesis
    using structural structuralChunks_tiled [OF boundaries_valid [OF Some], of sha pa]
    by (auto simp: ChunkFile_def)
qed

section \<open>Properties\<close>

text \<open>C32. \<open>ChunkFile\<close> never lies: on every path, content, hash function and parser
  result it returns blocks, each within the file, with the hash of its position and content,
  whose text is exactly the lines it names (or, only for a line too long for a block,
  a piece of that one line). That it returns says that no slice the packer takes is out of range; the
  index operations of the two scanners that find the declarations are total functions of the model, and
  nothing is claimed of them here.\<close>

theorem ChunkFile_honest:
  "\<exists>cs. ChunkFile sha parseGo pa content = Some cs \<and> (\<forall>c \<in> set cs. honest sha pa (splitLines content) c)"
proof (cases rule: ChunkFile_cases [of parseGo pa content sha])
  case (structural bs cs)
  then show ?thesis using tiled_honest by blast
next
  case plain
  then show ?thesis using charChunks_facts by auto
qed

text \<open>The blocks of a file come in order and do not overlap: an earlier block ends before the
  next one starts, unless both are pieces of the same overlong line.\<close>

theorem ChunkFile_ordered:
  assumes "ChunkFile sha parseGo pa content = Some cs"
  shows "sorted_wrt before cs"
proof (cases rule: ChunkFile_cases [of parseGo pa content sha])
  case (structural bs ds)
  then show ?thesis using tiled_before assms by simp
next
  case plain
  then show ?thesis using charChunks_facts assms by auto
qed

text \<open>Cutting at declarations loses nothing after the first block: when \<open>boundaries\<close> finds
  declarations, the blocks tile the file, each starting on the line after the previous one ends
  and the last ending on the last line; the lines before the first block (all lines, if there is
  no block) weigh less than \<open>minChunkChars\<close>.\<close>

theorem structural_tiles_file:
  assumes "boundaries parseGo pa content = Some bs"
  shows "\<exists>cs g. ChunkFile sha parseGo pa content = Some cs \<and>
    tiles sha pa (splitLines content) g (int (length (splitLines content))) cs \<and>
    0 \<le> g \<and> wt (splitLines content) 0 g < minChunkChars"
  using assms
proof (cases rule: ChunkFile_cases [of parseGo pa content sha])
  case (structural bs cs)
  then show ?thesis by (auto simp: tiled_def)
qed simp

text \<open>Whatever the language, every line of 49 bytes or more is inside some block: only runs lighter
  than \<open>minChunkChars\<close> are ever left out.\<close>

theorem ChunkFile_covers_long_lines:
  assumes "ChunkFile sha parseGo pa content = Some cs"
    and "j < length (splitLines content)" and "minChunkChars \<le> length (splitLines content ! j) + 1"
  shows "covered cs j"
proof (cases rule: ChunkFile_cases [of parseGo pa content sha])
  case (structural bs ds)
  let ?ls = "splitLines content"
  obtain g where g: "0 \<le> g" "wt ?ls 0 g < minChunkChars" "tiles sha pa ?ls g (int (length ?ls)) cs"
    using structural assms(1) by (auto simp: tiled_def)
  have "g \<le> int j"
  proof (rule ccontr)
    assume "\<not> g \<le> int j"
    then have "?ls ! j \<in> set (take (nat g) ?ls)"
      using assms(2) by (auto simp: in_set_conv_nth intro!: exI [of _ j])
    then have "length (?ls ! j) + 1 \<le> wt ?ls 0 g"
      by (auto simp: wt_def dest: run_size_member)
    with g(2) assms(3) show False by simp
  qed
  with g assms(2) show ?thesis by (auto intro: tiles_covered)
next
  case plain
  then show ?thesis using charChunks_facts [of sha pa "splitLines content"] assms by auto
qed

text \<open>The blocks of the character chunker are bounded: at least 49 bytes and less than twice
  \<open>effectiveMaxChars\<close> (11500 bytes).\<close>

theorem charChunks_bounded:
  assumes "c \<in> set (charChunks sha pa ls)"
  shows "49 \<le> length (cContent c) \<and> length (cContent c) < 11500"
  using charChunks_facts [of sha pa ls] assms by force

text \<open>An overlong line is cut without loss: its pieces, in order, are the line itself but for a
  tail shorter than \<open>minChunkChars\<close>.\<close>

theorem splitLongLine_reassembles:
  assumes "path c = pa" "lines c = ls" "current c = []"
  shows "\<exists>ps rest. out (splitLongLine sha c i (ls ! i)) = out c @ ps \<and>
    concat (map cContent ps) @ rest = ls ! i \<and> length rest < minChunkChars \<and>
    (\<forall>q \<in> set ps. piece_at sha pa ls i q)"
  using splitLoop_spec [OF assms(1,2), where sha = sha and i = i and u = "[]" and line = "ls ! i"] assms(3)
  by (auto simp: splitLongLine_def Let_def)

text \<open>The validation never discards a detection of the two scanners: whatever the bytes, what the
  indentation scanner or the brace scanner finds lies in the file, in order and without
  overlap, at both levels; so \<open>boundaries\<close> falls back to the character chunker only when nothing
  was found.\<close>

theorem scanners_never_rejected:
  "(pythonBoundaries content \<noteq> [] \<longrightarrow>
      validBoundaries (pythonBoundaries content) (int (count_byte content LF) + 1)) \<and>
   (braceBoundaries content \<noteq> [] \<longrightarrow>
      validBoundaries (braceBoundaries content) (int (count_byte content LF) + 1))"
  using pythonBoundaries_valid braceBoundaries_valid by (auto simp: length_splitLines algebra_simps)

text \<open>Blanking strings and comments of a Python file keeps the geometry: as many lines, each as
  long as before.\<close>

theorem pythonStrip_keeps_geometry:
  "map length (pythonStrip content) = map length (splitLines content)"
  by (simp add: pythonStrip_def map_length_stripLines)

text \<open>A short first line in front of a declaration that fills a block is left out of the index:
  the packer's \<open>flush\<close> drops a first run lighter than \<open>minChunkChars\<close> (it can only be joined to
  a block before it, and there is none), so the file's first block starts at line 2.\<close>

theorem structural_drops_header:
  assumes "length hdr + 1 < minChunkChars" "length body + 1 \<le> maxStructuralChars"
    "length hdr + length body + 2 > maxStructuralChars"
  shows "\<exists>c. structuralChunks sha pa [hdr, body] [Boundary 2 2 []] = Some [c] \<and>
    cStartLine c = 2 \<and> cEndLine c = 2 \<and> cContent c = body"
proof -
  let ?p = "new_packer pa [hdr, body]"
  let ?p1 = "?p\<lparr>pStart := 1, pEnd := 1, pLength := length hdr + 1\<rparr>"
  let ?p2 = "?p\<lparr>pStart := 2, pEnd := 2, pLength := length body + 1\<rparr>"
  have 1: "pAdd sha ?p 1 1 = Some ?p1"
    by (simp add: pAdd_def pSize_def new_packer_def Let_def)
  have "pAdd sha ?p1 2 2 = Some ?p2"
    using assms by (simp add: pAdd_def pSize_def new_packer_def Let_def pFlush_def)
  then have 2: "addDeclaration sha ?p1 (Boundary 2 2 []) = Some ?p2"
    using assms by (simp add: addDeclaration_def pSize_def new_packer_def Let_def)
  have "pFlush sha ?p2 = Some (?p\<lparr>pOut := [\<lparr>cPath = pa, cStartLine = 2, cEndLine = 2, cContent = body,
      cHash = segmentHash sha pa 2 2 body\<rparr>]\<rparr>)"
    using assms by (simp add: pFlush_def new_packer_def pText_def joinLines_def maxStructuralChars_def)
  with 1 2 show ?thesis
    by (simp add: structuralChunks_def)
qed

text \<open>The ceiling \<open>maxStructuralChars\<close> does not bind the lines between declarations: whatever
  their number and weight, the lines before a file's only declaration go out as one block.\<close>

theorem structural_gap_unbounded:
  assumes "gap \<noteq> []" "run_size gap > maxStructuralChars" "length body + 1 \<le> maxStructuralChars"
    "minChunkChars \<le> length body + 1"
  shows "\<exists>c cs. structuralChunks sha pa (gap @ [body])
      [Boundary (int (length gap) + 1) (int (length gap) + 1) []] = Some (c # cs) \<and>
    cStartLine c = 1 \<and> cEndLine c = int (length gap) \<and> cContent c = Join gap [LF]"
proof -
  let ?n = "int (length gap)"
  let ?ls = "gap @ [body]"
  let ?p = "new_packer pa ?ls"
  let ?p1 = "?p\<lparr>pStart := 1, pEnd := ?n, pLength := run_size gap\<rparr>"
  let ?c = "\<lparr>cPath = pa, cStartLine = 1, cEndLine = ?n, cContent = Join gap [LF],
      cHash = segmentHash sha pa 1 ?n (Join gap [LF])\<rparr>"
  let ?p2 = "?p\<lparr>pOut := [?c], pStart := ?n + 1, pEnd := ?n + 1, pLength := length body + 1\<rparr>"
  have n: "1 \<le> ?n" using assms(1) by (cases gap) auto
  have 1: "pAdd sha ?p 1 ?n = Some ?p1"
    by (simp add: pAdd_def pSize_def new_packer_def Let_def)
  have sz: "pSize ?p1 (?n + 1) (?n + 1) = Some (length body + 1)"
    by (simp add: pSize_def new_packer_def Let_def nat_add_distrib)
  have "pFlush sha ?p1 = Some (?p\<lparr>pOut := [?c]\<rparr>)"
    using assms n by (simp add: pFlush_def new_packer_def pText_def joinLines_def maxStructuralChars_def)
  then have "pAdd sha ?p1 (?n + 1) (?n + 1) = Some ?p2"
    using assms sz by (simp add: pAdd_def Let_def) (simp add: new_packer_def)
  then have 2: "addDeclaration sha ?p1 (Boundary (?n + 1) (?n + 1) []) = Some ?p2"
    using assms sz by (simp add: addDeclaration_def)
  have "pFlush sha ?p2 = Some (?p\<lparr>pOut := [?c, \<lparr>cPath = pa, cStartLine = ?n + 1, cEndLine = ?n + 1,
      cContent = body, cHash = segmentHash sha pa (?n + 1) (?n + 1) body\<rparr>]\<rparr>)"
    using assms by (simp add: pFlush_def new_packer_def pText_def joinLines_def nat_add_distrib)
  with 1 2 n assms(1) show ?thesis
    by (simp add: structuralChunks_def)
qed

definition escaped_newline_source :: bytes where
  "escaped_newline_source = ''f(){'' @ [LF] @ [DQ, BSL] @ [LF] @ [DQ] @ [LF] @ ''}''"

text \<open>The brace scanner loses a line at an escaped line end: a backslash inside a string skips the
  byte after it without counting it when that is a line feed. Here the function's closing brace
  is on line 4 and its boundary ends on line 3.\<close>

theorem brace_line_drift:
  "braceBoundaries escaped_newline_source = [Boundary 1 3 []] \<and>
   splitLines escaped_newline_source ! 3 = ''}''"
  by code_simp

section \<open>Witnesses\<close>

definition sample_py :: bytes where
  "sample_py = ''class Counter:'' @ [LF] @ ''    def increment(self, amount):'' @ [LF] @
     ''        self.total = self.total + amount'' @ [LF] @ ''total = Counter()''"

lemma sample_py_eval:
  "map_option (map (\<lambda>c. (cStartLine c, cEndLine c))) (ChunkFile (\<lambda>x. x) (\<lambda>_ _. None) ''a.py'' sample_py) = Some [(1, 4)]"
  "boundaries (\<lambda>_ _. None) ''a.py'' sample_py = Some [Boundary 1 3 [Boundary 2 3 []]]"
  by code_simp+

lemma sample_py_chunk:
  "\<exists>c. ChunkFile (\<lambda>x. x) (\<lambda>_ _. None) ''a.py'' sample_py = Some [c] \<and> cStartLine c = 1 \<and> cEndLine c = 4"
  using sample_py_eval(1) by auto

theorem ChunkFile_honest_witness:
  "\<exists>c. ChunkFile (\<lambda>x. x) (\<lambda>_ _. None) ''a.py'' sample_py = Some [c] \<and>
     honest (\<lambda>x. x) ''a.py'' (splitLines sample_py) c"
  using ChunkFile_honest [of "\<lambda>x. x" "\<lambda>_ _. None" "''a.py''" sample_py] sample_py_chunk by auto

theorem ChunkFile_ordered_witness:
  "\<exists>c. ChunkFile (\<lambda>x. x) (\<lambda>_ _. None) ''a.py'' sample_py = Some [c] \<and> sorted_wrt before [c]"
  using sample_py_chunk ChunkFile_ordered [of "\<lambda>x. x" "\<lambda>_ _. None" "''a.py''" sample_py] by blast

theorem structural_tiles_file_witness:
  "\<exists>cs g. ChunkFile (\<lambda>x. x) (\<lambda>_ _. None) ''a.py'' sample_py = Some cs \<and>
     tiles (\<lambda>x. x) ''a.py'' (splitLines sample_py) g (int (length (splitLines sample_py))) cs \<and>
     0 \<le> g \<and> wt (splitLines sample_py) 0 g < minChunkChars"
  by (rule structural_tiles_file [OF sample_py_eval(2)])

definition sample_txt :: bytes where
  "sample_txt = ''short'' @ [LF] @ ''This line is long enough to be worth a block of its own.''"


lemma sample_txt_lines:
  "splitLines sample_txt = [''short'', ''This line is long enough to be worth a block of its own.'']"
  by code_simp

lemma sample_txt_chars:
  "\<exists>h. charChunks (\<lambda>x. x) pa (splitLines sample_txt) =
     [\<lparr>cPath = pa, cStartLine = 1, cEndLine = 2,
       cContent = ''short'' @ [LF] @ ''This line is long enough to be worth a block of its own.'', cHash = h\<rparr>]"
  by (simp add: sample_txt_lines charChunks_def new_chunker_def appendLine_def flush_def Let_def
      effectiveMaxChars_def maxChunkChars_def minChunkChars_def upt_rec)

lemma sample_txt_eval:
  "\<exists>c. ChunkFile (\<lambda>x. x) (\<lambda>_ _. None) ''a.txt'' sample_txt = Some [c]"
  "1 < length (splitLines sample_txt)" "minChunkChars \<le> length (splitLines sample_txt ! 1) + 1"
proof -
  have "boundaries (\<lambda>_ _. None) ''a.txt'' sample_txt = None" by code_simp
  then show "\<exists>c. ChunkFile (\<lambda>x. x) (\<lambda>_ _. None) ''a.txt'' sample_txt = Some [c]"
    using sample_txt_chars [of "''a.txt''"] by (auto simp: ChunkFile_def)
qed (simp_all add: sample_txt_lines minChunkChars_def)

theorem ChunkFile_covers_long_lines_witness:
  "\<exists>cs. ChunkFile (\<lambda>x. x) (\<lambda>_ _. None) ''a.txt'' sample_txt = Some cs \<and> covered cs 1"
  using ChunkFile_covers_long_lines [OF _ sample_txt_eval(2,3)] sample_txt_eval(1) by blast

theorem charChunks_bounded_witness:
  "\<exists>c \<in> set (charChunks (\<lambda>x. x) ''a'' (splitLines sample_txt)).
     49 \<le> length (cContent c) \<and> length (cContent c) < 11500"
proof -
  obtain c where c: "c \<in> set (charChunks (\<lambda>x. x) ''a'' (splitLines sample_txt))"
    using sample_txt_chars [of "''a''"] by auto
  with charChunks_bounded [OF c] show ?thesis by blast
qed

definition sample_chunker :: chunker where
  "sample_chunker = new_chunker ''a'' [replicate 60 CHR ''x'']"

theorem splitLongLine_reassembles_witness:
  "\<exists>ps rest. out (splitLongLine (\<lambda>x. x) sample_chunker 0 (replicate 60 CHR ''x'')) = ps \<and>
     concat (map cContent ps) @ rest = replicate 60 CHR ''x'' \<and> length rest < minChunkChars"
  using splitLongLine_reassembles [of sample_chunker "''a''" "[replicate 60 CHR ''x'']" "\<lambda>x. x" 0]
  by (auto simp: sample_chunker_def new_chunker_def)

theorem scanners_never_rejected_witness:
  "validBoundaries (pythonBoundaries sample_py) (int (count_byte sample_py LF) + 1) \<and>
   validBoundaries (braceBoundaries escaped_newline_source) (int (count_byte escaped_newline_source LF) + 1)"
proof -
  have "pythonBoundaries sample_py \<noteq> []" "braceBoundaries escaped_newline_source \<noteq> []" by code_simp+
  then show ?thesis
    using scanners_never_rejected [of sample_py] scanners_never_rejected [of escaped_newline_source] by blast
qed

theorem structural_drops_header_witness:
  "\<exists>c. structuralChunks (\<lambda>x. x) ''a.go'' [''package x'', replicate 1995 CHR ''y''] [Boundary 2 2 []] = Some [c] \<and>
     cStartLine c = 2 \<and> cEndLine c = 2 \<and> cContent c = replicate 1995 CHR ''y''"
  by (rule structural_drops_header) (simp_all add: maxStructuralChars_def)

theorem structural_gap_unbounded_witness:
  "\<exists>c cs. structuralChunks (\<lambda>x. x) ''a.py'' ([replicate 1000 CHR ''x'', replicate 9000 CHR ''x''] @ [replicate 60 CHR ''y''])
      [Boundary (int (length [replicate 1000 CHR ''x'', replicate 9000 CHR ''x'']) + 1)
         (int (length [replicate 1000 CHR ''x'', replicate 9000 CHR ''x'']) + 1) []] = Some (c # cs) \<and>
    cStartLine c = 1 \<and> cEndLine c = int (length [replicate 1000 CHR ''x'', replicate 9000 CHR ''x'']) \<and>
    cContent c = Join [replicate 1000 CHR ''x'', replicate 9000 CHR ''x''] [LF]"
  by (rule structural_gap_unbounded) (simp_all add: maxStructuralChars_def)

end
