(* ===== verification/ShellAst.thy ===== *)
theory ShellAst
  imports GoBase
begin

text \<open>
  The data \<open>internal/shellparse\<close> and \<open>internal/shellsafe\<close> read: the syntax tree of the package
  \<open>mvdan.cc/sh/v3/syntax\<close>, as far as the code tells its nodes apart (its fields, and the node
  kinds of its type switches; every other kind is \<open>OtherPart\<close> or \<open>OtherCmd\<close>). A pointer the code
  compares with \<open>nil\<close> is an option.

  The parser itself is not part of the repository: the record \<open>shell\<close> collects the three
  functions the code calls, and every definition that uses one takes it as an argument.
  \<open>shParse\<close> is \<open>ParseBash\<close> (\<open>Inl\<close> the error text), \<open>shWalk\<close> the nodes \<open>syntax.Walk\<close> visits when
  the visitor never stops it, \<open>shSplitBraces\<close> what \<open>syntax.SplitBraces\<close> leaves in the word it updates.
\<close>

datatype RedirOp = DplOut | DplIn | RdrOut | AppOut | RdrClob | AppClob | RdrAll | AppAll
  | RdrAllClob | AppAllClob | RdrInOut | OtherRedirOp

datatype BinOp = AndStmt | OrStmt | Pipe | PipeAll

datatype WordPart =
    Lit bytes
  | SglQuoted bytes
  | DblQuoted "WordPart list"
  | CmdSubst (tempFile: bool) (replyVar: bool) (substStmts: "Stmt option list")
  | ProcSubst
  | ParamExp
  | ArithmExp
  | ExtGlob
  | OtherPart
and Word = Word (wParts: "WordPart list") (wPos: "nat option") (wEnd: "nat option")
and Redirect = Redirect (rOp: RedirOp) (rN: "(bytes \<times> nat option) option") (rWord: "Word option")
    (rHdoc: bool) (rOpPos: nat) (rEnd: nat)
and Assign = Assign (aAppend: bool) (aNaked: bool) (aName: "bytes option") (aIndex: bool)
    (aArray: bool) (aValue: "Word option")
and Cmd =
    CallExpr "Assign option list" "Word option list"
  | BinaryCmd BinOp "Stmt option" "Stmt option"
  | OtherCmd
and Stmt = Stmt (sCmd: Cmd) (sNegated: bool) (sBackground: bool) (sCoprocess: bool) (sDisown: bool)
    (sRedirs: "Redirect option list") (sPos: nat) (sEnd: nat) (sSemicolon: "nat option")

record ShFile =
  Stmts :: "Stmt option list"

datatype Node = NPart WordPart | NAssign Assign | NRedirect Redirect | NWord Word | NOther

record shell =
  shParse :: "bytes \<Rightarrow> bytes + ShFile"
  shWalk :: "ShFile \<Rightarrow> Node list"
  shSplitBraces :: "Word \<Rightarrow> Word"

end
