(* ===== verification/ShellParse.thy ===== *)
theory ShellParse
  imports ShellAst
begin

text \<open>
  \<open>internal/shellparse/bash.go\<close>: what the host may conclude about a Bash command without running
  it. \<open>ParseStaticCommand\<close> reduces a command to an argument vector or names the reason it cannot;
  \<open>AnalyzeApprovalFeatures\<close> collects the features that decide whether an approval can be reused;
  \<open>SplitTopLevel\<close> cuts a compound command into its simple commands; \<open>CanMaskEarlierFailure\<close> tells
  whether the exit status of a command is evidence for all of its parts.

  The lemmas characterise each of them on the syntax tree: what is accepted is exactly one plain
  call with static words; what cannot mask a failure is exactly a chain of plain calls joined by
  \<open>&&\<close>; the segments of a command are the source texts of its leaves, from left to right.
\<close>

section \<open>Model\<close>

record StaticCommandPolicy =
  AllowEnvAssignments :: bool
  AllowStderrToStdout :: bool

record StaticCommand =
  Argv :: "bytes list"
  Env :: "bytes list"
  MergeStderr :: bool

datatype StaticRejectReason = StaticRejectParse | StaticRejectHereDoc | StaticRejectControl
  | StaticRejectRedirection | StaticRejectAssignment | StaticRejectExpansion

fun reason_text :: "StaticRejectReason \<Rightarrow> bytes" where
  "reason_text StaticRejectParse = ''parse error''"
| "reason_text StaticRejectHereDoc = ''here document''"
| "reason_text StaticRejectControl = ''shell control syntax''"
| "reason_text StaticRejectRedirection = ''shell redirection''"
| "reason_text StaticRejectAssignment = ''shell assignment''"
| "reason_text StaticRejectExpansion = ''shell expansion''"

record StaticRejectError =
  eReason :: StaticRejectReason
  eDetail :: bytes

definition Error :: "StaticRejectError \<Rightarrow> bytes" where
  "Error e = (if eDetail e \<noteq> [] then eDetail e else reason_text (eReason e))"

definition staticReject :: "StaticRejectReason \<Rightarrow> bytes \<Rightarrow> StaticRejectError" where
  "staticReject r d = \<lparr>eReason = r, eDetail = d\<rparr>"

subsection \<open>Static words\<close>

fun unescapeFrom :: "bytes \<Rightarrow> bool \<Rightarrow> bytes" where
  "unescapeFrom [] dq = []"
| "unescapeFrom [c] dq = [c]"
| "unescapeFrom (c # n # s) dq =
     (if c \<noteq> BSL then c # unescapeFrom (n # s) dq
      else if n = LF then unescapeFrom s dq
      else if \<not> dq \<or> n = CHR ''$'' \<or> n = BQ \<or> n = DQ \<or> n = BSL then n # unescapeFrom s dq
      else c # unescapeFrom (n # s) dq)"

definition unescapeLit :: "bytes \<Rightarrow> bool \<Rightarrow> bytes" where
  "unescapeLit s dq = (if BSL \<notin> set s then s else unescapeFrom s dq)"

fun staticWordPart :: "WordPart \<Rightarrow> bool \<Rightarrow> bytes option"
  and staticWordParts :: "WordPart list \<Rightarrow> bool \<Rightarrow> bytes option" where
  "staticWordPart (Lit v) dq = Some (unescapeLit v dq)"
| "staticWordPart (SglQuoted v) dq = Some v"
| "staticWordPart (DblQuoted ps) dq = staticWordParts ps True"
| "staticWordPart _ dq = None"
| "staticWordParts [] dq = Some []"
| "staticWordParts (p # ps) dq =
     (case staticWordPart p dq of None \<Rightarrow> None
      | Some v \<Rightarrow> (case staticWordParts ps dq of None \<Rightarrow> None | Some r \<Rightarrow> Some (v @ r)))"

definition StaticWord :: "Word option \<Rightarrow> bytes option" where
  "StaticWord w = (case w of None \<Rightarrow> None | Some w \<Rightarrow> staticWordParts (wParts w) False)"

subsection \<open>One static command\<close>

fun staticAssignLoop :: "Assign option list \<Rightarrow> StaticRejectError + bytes list" where
  "staticAssignLoop [] = Inr []"
| "staticAssignLoop (a # as) =
     (case a of None \<Rightarrow> Inl (staticReject StaticRejectAssignment [])
      | Some a \<Rightarrow>
          (case aName a of None \<Rightarrow> Inl (staticReject StaticRejectAssignment [])
           | Some name \<Rightarrow>
               if aAppend a \<or> aNaked a \<or> aIndex a \<or> aArray a
               then Inl (staticReject StaticRejectAssignment [])
               else (case (case aValue a of None \<Rightarrow> Some [] | Some w \<Rightarrow> StaticWord (Some w)) of
                       None \<Rightarrow> Inl (staticReject StaticRejectExpansion [])
                     | Some v \<Rightarrow>
                         (case staticAssignLoop as of Inl e \<Rightarrow> Inl e
                          | Inr env \<Rightarrow> Inr ((name @ ''='' @ v) # env)))))"

definition staticAssignments :: "Assign option list \<Rightarrow> StaticCommandPolicy \<Rightarrow> StaticRejectError + bytes list" where
  "staticAssignments as pol =
     (if \<not> AllowEnvAssignments pol then Inl (staticReject StaticRejectAssignment [])
      else staticAssignLoop as)"

definition isStderrToStdout :: "Redirect option \<Rightarrow> bool" where
  "isStderrToStdout r =
     (case r of None \<Rightarrow> False
      | Some r \<Rightarrow>
          (case rN r of None \<Rightarrow> False
           | Some n \<Rightarrow> rOp r = DplOut \<and> fst n = ''2'' \<and> StaticWord (rWord r) = Some ''1''))"

fun staticRedirLoop :: "Redirect option list \<Rightarrow> StaticCommandPolicy \<Rightarrow> bool \<Rightarrow> StaticRejectError + bool" where
  "staticRedirLoop [] pol m = Inr m"
| "staticRedirLoop (r # rs) pol m =
     (if \<not> AllowStderrToStdout pol \<or> \<not> isStderrToStdout r \<or> m
      then Inl (staticReject StaticRejectRedirection [])
      else staticRedirLoop rs pol True)"

definition staticRedirections :: "Redirect option list \<Rightarrow> StaticCommandPolicy \<Rightarrow> StaticRejectError + bool" where
  "staticRedirections rs pol = staticRedirLoop rs pol False"

fun staticArgs :: "Word option list \<Rightarrow> bytes list option" where
  "staticArgs [] = Some []"
| "staticArgs (w # ws) =
     (case StaticWord w of None \<Rightarrow> None
      | Some f \<Rightarrow> (case staticArgs ws of None \<Rightarrow> None | Some fs \<Rightarrow> Some (f # fs)))"

definition HasHereDoc :: "shell \<Rightarrow> ShFile \<Rightarrow> bool" where
  "HasHereDoc sh file = list_ex (\<lambda>n. case n of NRedirect r \<Rightarrow> rHdoc r | _ \<Rightarrow> False) (shWalk sh file)"

definition staticCall ::
  "Assign option list \<Rightarrow> Word option list \<Rightarrow> Redirect option list \<Rightarrow> StaticCommandPolicy \<Rightarrow> StaticRejectError + StaticCommand" where
  "staticCall assigns args redirs pol =
     (case (if redirs \<noteq> [] then staticRedirections redirs pol else Inr False) of
        Inl e \<Rightarrow> Inl e
      | Inr merge \<Rightarrow>
          (case (if assigns \<noteq> [] then staticAssignments assigns pol else Inr []) of
             Inl e \<Rightarrow> Inl e
           | Inr env \<Rightarrow>
               (case staticArgs args of
                  None \<Rightarrow> Inl (staticReject StaticRejectExpansion [])
                | Some argv \<Rightarrow>
                    if argv = [] \<and> env \<noteq> []
                    then Inl (staticReject StaticRejectAssignment ''shell assignment without command'')
                    else Inr \<lparr>Argv = argv, Env = env, MergeStderr = merge\<rparr>)))"

definition ParseStaticCommand ::
  "shell \<Rightarrow> bytes \<Rightarrow> StaticCommandPolicy \<Rightarrow> StaticRejectError + StaticCommand" where
  "ParseStaticCommand sh command pol =
     (if TrimSpace command = [] then Inr \<lparr>Argv = [], Env = [], MergeStderr = False\<rparr>
      else case shParse sh command of
             Inl err \<Rightarrow> Inl (staticReject StaticRejectParse err)
           | Inr file \<Rightarrow>
               if HasHereDoc sh file then Inl (staticReject StaticRejectHereDoc [])
               else (case Stmts file of
                       [Some stmt] \<Rightarrow>
                         if sNegated stmt \<or> sBackground stmt \<or> sCoprocess stmt \<or> sDisown stmt
                         then Inl (staticReject StaticRejectControl [])
                         else (case sCmd stmt of
                                 CallExpr assigns args \<Rightarrow> staticCall assigns args (sRedirs stmt) pol
                               | _ \<Rightarrow> Inl (staticReject StaticRejectControl []))
                     | _ \<Rightarrow> Inl (staticReject StaticRejectControl [])))"

definition staticFieldsMessage :: "StaticRejectError \<Rightarrow> bytes" where
  "staticFieldsMessage e =
     (case eReason e of
        StaticRejectParse \<Rightarrow> Error e
      | StaticRejectHereDoc \<Rightarrow> ''here document''
      | StaticRejectExpansion \<Rightarrow> ''shell expansion''
      | _ \<Rightarrow> ''shell control syntax'')"

text \<open>The fields, and the message when there are none to trust (empty when there are).\<close>

definition StaticFields :: "shell \<Rightarrow> bytes \<Rightarrow> bytes list \<times> bytes" where
  "StaticFields sh command =
     (case ParseStaticCommand sh command \<lparr>AllowEnvAssignments = False, AllowStderrToStdout = False\<rparr> of
        Inl e \<Rightarrow> ([], staticFieldsMessage e)
      | Inr cmd \<Rightarrow> (Argv cmd, []))"

definition ContainsShellSyntax :: "shell \<Rightarrow> bytes \<Rightarrow> bool" where
  "ContainsShellSyntax sh command =
     (if TrimSpace command = [] then False else snd (StaticFields sh command) \<noteq> [])"

subsection \<open>Features that bear on approvals\<close>

record ApprovalFeatures =
  CommandPrefix :: "bytes list"
  DynamicCommandName :: bool
  NestedExecution :: bool
  Expansion :: bool
  Assignment :: bool
  Redirection :: bool

fun unescapedMeta :: "bytes \<Rightarrow> bytes \<Rightarrow> bool \<Rightarrow> bool" where
  "unescapedMeta [] mt escaped = False"
| "unescapedMeta (c # s) mt escaped =
     (if escaped then unescapedMeta s mt False
      else if c = BSL then unescapedMeta s mt True
      else if c \<in> set mt then True
      else unescapedMeta s mt False)"

definition hasUnescapedMeta :: "bytes \<Rightarrow> bytes \<Rightarrow> bool" where
  "hasUnescapedMeta v mt = unescapedMeta v mt False"

definition hasUnescapedGlobMeta :: "bytes \<Rightarrow> bool" where
  "hasUnescapedGlobMeta v = hasUnescapedMeta v ''*?[''"

definition wordHasUnescapedBrace :: "Word option \<Rightarrow> bool" where
  "wordHasUnescapedBrace w =
     (case w of None \<Rightarrow> False
      | Some w \<Rightarrow> list_ex (\<lambda>p. case p of Lit v \<Rightarrow> hasUnescapedMeta v ''{'' | _ \<Rightarrow> False) (wParts w))"

definition featureStep :: "Node \<Rightarrow> ApprovalFeatures \<Rightarrow> ApprovalFeatures" where
  "featureStep n f =
     (case n of
        NPart (CmdSubst _ _ _) \<Rightarrow> f\<lparr>NestedExecution := True\<rparr>
      | NPart ProcSubst \<Rightarrow> f\<lparr>NestedExecution := True\<rparr>
      | NPart ParamExp \<Rightarrow> f\<lparr>Expansion := True\<rparr>
      | NPart ArithmExp \<Rightarrow> f\<lparr>Expansion := True\<rparr>
      | NPart ExtGlob \<Rightarrow> f\<lparr>Expansion := True\<rparr>
      | NAssign _ \<Rightarrow> f\<lparr>Assignment := True\<rparr>
      | NRedirect _ \<Rightarrow> f\<lparr>Redirection := True\<rparr>
      | _ \<Rightarrow> f)"

fun prefixLoop :: "nat \<Rightarrow> Word option list \<Rightarrow> ApprovalFeatures \<Rightarrow> ApprovalFeatures" where
  "prefixLoop i [] f = f"
| "prefixLoop i (w # ws) f =
     (case StaticWord w of
        None \<Rightarrow> (if i = 0 then f\<lparr>Expansion := True, DynamicCommandName := True\<rparr> else f\<lparr>Expansion := True\<rparr>)
      | Some field \<Rightarrow> prefixLoop (i + 1) ws (f\<lparr>CommandPrefix := CommandPrefix f @ [field]\<rparr>))"

definition no_features :: ApprovalFeatures where
  "no_features = \<lparr>CommandPrefix = [], DynamicCommandName = False, NestedExecution = False,
     Expansion = False, Assignment = False, Redirection = False\<rparr>"

text \<open>\<open>None\<close> is the result \<open>ok = false\<close>.\<close>

definition AnalyzeApprovalFeatures :: "shell \<Rightarrow> bytes \<Rightarrow> ApprovalFeatures option" where
  "AnalyzeApprovalFeatures sh command =
     (case shParse sh command of
        Inl _ \<Rightarrow> None
      | Inr file \<Rightarrow>
          (case Stmts file of
             [Some stmt] \<Rightarrow>
               if sNegated stmt \<or> sBackground stmt \<or> sCoprocess stmt \<or> sDisown stmt then None
               else (case sCmd stmt of
                       CallExpr assigns args \<Rightarrow>
                         Some (prefixLoop 0
                           (map (\<lambda>w. if wordHasUnescapedBrace w then map_option (shSplitBraces sh) w else w) args)
                           (fold featureStep (shWalk sh file) no_features))
                     | _ \<Rightarrow> None)
           | _ \<Rightarrow> None))"

definition ContainsUnquotedGlob :: "shell \<Rightarrow> bytes \<Rightarrow> bool" where
  "ContainsUnquotedGlob sh command =
     (case shParse sh command of
        Inl _ \<Rightarrow> True
      | Inr file \<Rightarrow>
          list_ex (\<lambda>n. case n of
              NWord w \<Rightarrow> list_ex (\<lambda>p. case p of Lit v \<Rightarrow> hasUnescapedGlobMeta v | _ \<Rightarrow> False) (wParts w)
            | _ \<Rightarrow> False) (shWalk sh file))"

subsection \<open>Masked failures and segments\<close>

text \<open>The pair \<open>(canMask, ok)\<close>.\<close>

fun stmtCanMask :: "Stmt \<Rightarrow> bool \<times> bool" and cmdCanMask :: "Cmd \<Rightarrow> bool \<times> bool" where
  "stmtCanMask (Stmt cmd neg bg cop dis rs p e semi) =
     (if neg \<or> cop \<or> dis then (False, False)
      else if bg then (True, True)
      else cmdCanMask cmd)"
| "cmdCanMask (BinaryCmd op x y) =
     (if op \<noteq> AndStmt then (True, True)
      else case (case x of None \<Rightarrow> (False, False) | Some s \<Rightarrow> stmtCanMask s) of
             (xMasks, xOK) \<Rightarrow>
               if \<not> xOK then (False, False)
               else (case (case y of None \<Rightarrow> (False, False) | Some s \<Rightarrow> stmtCanMask s) of
                       (yMasks, yOK) \<Rightarrow>
                         if \<not> yOK then (False, False) else (xMasks \<or> yMasks, True)))"
| "cmdCanMask (CallExpr _ _) = (False, True)"
| "cmdCanMask OtherCmd = (False, False)"

definition stmtCanMaskEarlierFailure :: "Stmt option \<Rightarrow> bool \<times> bool" where
  "stmtCanMaskEarlierFailure s = (case s of None \<Rightarrow> (False, False) | Some s \<Rightarrow> stmtCanMask s)"

fun maskLoop :: "Stmt option list \<Rightarrow> bool \<times> bool" where
  "maskLoop [] = (False, True)"
| "maskLoop (s # ss) =
     (case stmtCanMaskEarlierFailure s of (masks, ok) \<Rightarrow>
        if \<not> ok then (False, False) else if masks then (True, True) else maskLoop ss)"

definition CanMaskEarlierFailure :: "shell \<Rightarrow> bytes \<Rightarrow> bool \<times> bool" where
  "CanMaskEarlierFailure sh command =
     (if TrimSpace command = [] then (False, True)
      else case shParse sh command of
             Inl _ \<Rightarrow> (False, False)
           | Inr file \<Rightarrow>
               if HasHereDoc sh file then (False, False)
               else if length (Stmts file) > 1 then (True, True)
               else maskLoop (Stmts file))"

definition sourceForStmt :: "bytes \<Rightarrow> Stmt \<Rightarrow> bytes" where
  "sourceForStmt source stmt =
     (let start = sPos stmt;
          stop = (case sSemicolon stmt of
                    Some semi \<Rightarrow> if start \<le> semi \<and> semi \<le> sEnd stmt then semi else sEnd stmt
                  | None \<Rightarrow> sEnd stmt)
      in case go_slice source (int start) (int stop) of
           None \<Rightarrow> [] | Some s \<Rightarrow> TrimSpace s)"

text \<open>The accumulated \<open>(segments, split)\<close>, or \<open>None\<close> when the statement cannot be decomposed.\<close>

fun appendSegs :: "bytes \<Rightarrow> Stmt \<Rightarrow> bytes list \<times> bool \<Rightarrow> (bytes list \<times> bool) option" where
  "appendSegs source (Stmt cmd neg bg cop dis rs p e semi) acc =
     (if neg \<or> cop \<or> dis then None
      else case cmd of
             BinaryCmd op x y \<Rightarrow>
               if bg \<or> rs \<noteq> [] then None
               else (case x of None \<Rightarrow> None
                     | Some sx \<Rightarrow>
                         (case appendSegs source sx (fst acc, True) of None \<Rightarrow> None
                          | Some acc' \<Rightarrow>
                              (case y of None \<Rightarrow> None | Some sy \<Rightarrow> appendSegs source sy acc')))
           | CallExpr assigns args \<Rightarrow>
               (let segment = sourceForStmt source (Stmt cmd neg bg cop dis rs p e semi)
                in Some (if segment \<noteq> [] then fst acc @ [segment] else fst acc, snd acc \<or> bg))
           | OtherCmd \<Rightarrow> None)"

definition appendTopLevelSegments ::
  "bytes \<Rightarrow> Stmt option \<Rightarrow> bytes list \<times> bool \<Rightarrow> (bytes list \<times> bool) option" where
  "appendTopLevelSegments source s acc = (case s of None \<Rightarrow> None | Some s \<Rightarrow> appendSegs source s acc)"

fun segmentLoop :: "bytes \<Rightarrow> bool \<Rightarrow> Stmt option list \<Rightarrow> bytes list \<times> bool \<Rightarrow> (bytes list \<times> bool) option" where
  "segmentLoop source many [] acc = Some acc"
| "segmentLoop source many (s # ss) acc =
     (case appendTopLevelSegments source s (fst acc, snd acc \<or> many) of
        None \<Rightarrow> None
      | Some acc' \<Rightarrow> segmentLoop source many ss acc')"

definition compactSegments :: "bytes list \<Rightarrow> bytes list" where
  "compactSegments ss = filter (\<lambda>s. \<not> (s = [] \<or> HasPrefix s ''#'')) (map TrimSpace ss)"

text \<open>\<open>(segments, split)\<close>, or \<open>None\<close> for \<open>ok = false\<close>.\<close>

definition SplitTopLevel :: "shell \<Rightarrow> bytes \<Rightarrow> (bytes list \<times> bool) option" where
  "SplitTopLevel sh command =
     (if TrimSpace command = [] then Some ([], False)
      else case shParse sh command of
             Inl _ \<Rightarrow> None
           | Inr file \<Rightarrow>
               if HasHereDoc sh file then None
               else (case segmentLoop command (length (Stmts file) > 1) (Stmts file) ([], False) of
                       None \<Rightarrow> None
                     | Some (segs, split) \<Rightarrow> Some (compactSegments segs, split)))"

subsection \<open>Words\<close>

definition isNameByte :: "bool \<Rightarrow> char \<Rightarrow> bool" where
  "isNameByte first c =
     (c = CHR ''_'' \<or> (65 \<le> byte c \<and> byte c \<le> 90) \<or> (97 \<le> byte c \<and> byte c \<le> 122) \<or>
      (\<not> first \<and> 48 \<le> byte c \<and> byte c \<le> 57))"

definition IsAssignment :: "bytes \<Rightarrow> bool" where
  "IsAssignment w =
     (case Cut w ''='' of (name, _, ok) \<Rightarrow>
        if \<not> ok \<or> name = [] then False
        else isNameByte True (hd name) \<and> list_all (isNameByte False) (tl name))"

definition WordBase :: "bytes \<Rightarrow> bytes" where
  "WordBase w = (case LastIndexByte w CHR ''/'' of Some i \<Rightarrow> drop (i + 1) w | None \<Rightarrow> w)"


section \<open>Escapes\<close>

definition escape_all :: "bytes \<Rightarrow> bytes" where
  "escape_all s = concat (map (\<lambda>c. [BSL, c]) s)"

lemma unescapeFrom_escape_all: "LF \<notin> set s \<Longrightarrow> unescapeFrom (escape_all s) False = s"
  by (induction s) (auto simp: escape_all_def)

lemma length_unescapeFrom: "length (unescapeFrom s dq) \<le> length s"
  by (induction s dq rule: unescapeFrom.induct) auto

lemma unescapeFrom_plain: "BSL \<notin> set s \<Longrightarrow> unescapeFrom s dq = s"
  by (induction s dq rule: unescapeFrom.induct) auto

lemma unescapeLit_eq: "unescapeLit s dq = unescapeFrom s dq"
  by (simp add: unescapeLit_def unescapeFrom_plain)

section \<open>Static commands\<close>

lemma staticArgs_map: "staticArgs ws = Some fs \<longleftrightarrow> map StaticWord ws = map Some fs"
proof (induction ws arbitrary: fs)
  case (Cons w ws)
  show ?case
  proof (cases "StaticWord w")
    case (Some f)
    then show ?thesis
      using Cons.IH by (cases fs; cases "staticArgs ws") (fastforce simp: Cons_eq_map_conv)+
  qed (auto simp: Cons_eq_map_conv)
qed auto

lemma staticFieldsMessage_nonempty [simp]: "staticFieldsMessage e \<noteq> []"
  by (cases "eReason e") (auto simp: staticFieldsMessage_def Error_def)

definition fields_policy :: StaticCommandPolicy where
  "fields_policy = \<lparr>AllowEnvAssignments = False, AllowStderrToStdout = False\<rparr>"

lemma staticCall_fields:
  "staticCall as ws rs fields_policy = Inr c \<longleftrightarrow>
     as = [] \<and> rs = [] \<and> Env c = [] \<and> \<not> MergeStderr c \<and> staticArgs ws = Some (Argv c)"
proof -
  have r: "r # rs' = rs \<Longrightarrow> staticRedirections rs fields_policy = Inl (staticReject StaticRejectRedirection [])" for r rs'
    by (auto simp: staticRedirections_def fields_policy_def)
  show ?thesis
    by (cases rs; cases as; cases c)
       (auto simp: staticCall_def staticRedirections_def staticAssignments_def fields_policy_def
          split: option.splits)
qed

text \<open>One plain call: nothing negated, in the background, redirected or assigned.\<close>

definition plain_call :: "Stmt \<Rightarrow> Word option list \<Rightarrow> bool" where
  "plain_call st ws \<longleftrightarrow>
     sCmd st = CallExpr [] ws \<and> sRedirs st = [] \<and>
     \<not> sNegated st \<and> \<not> sBackground st \<and> \<not> sCoprocess st \<and> \<not> sDisown st"

lemma ParseStaticCommand_plain:
  assumes "TrimSpace command \<noteq> []"
  shows "ParseStaticCommand sh command fields_policy = Inr c \<longleftrightarrow>
    Env c = [] \<and> \<not> MergeStderr c \<and>
    (\<exists>file st ws. shParse sh command = Inr file \<and> \<not> HasHereDoc sh file \<and> Stmts file = [Some st] \<and>
       plain_call st ws \<and> staticArgs ws = Some (Argv c))"
  using assms
  by (auto simp: ParseStaticCommand_def plain_call_def staticCall_fields
      split: sum.splits list.splits option.splits Cmd.splits if_splits)

lemma StaticFields_fields_policy:
  "StaticFields sh command =
     (case ParseStaticCommand sh command fields_policy of
        Inl e \<Rightarrow> ([], staticFieldsMessage e) | Inr cmd \<Rightarrow> (Argv cmd, []))"
  by (simp add: StaticFields_def fields_policy_def)

lemma StaticFields_plain:
  assumes "TrimSpace command \<noteq> []"
  shows "StaticFields sh command = (argv, []) \<longleftrightarrow>
    (\<exists>file st ws. shParse sh command = Inr file \<and> \<not> HasHereDoc sh file \<and> Stmts file = [Some st] \<and>
       plain_call st ws \<and> map StaticWord ws = map Some argv)"
proof -
  have "StaticFields sh command = (argv, []) \<longleftrightarrow>
      ParseStaticCommand sh command fields_policy = Inr \<lparr>Argv = argv, Env = [], MergeStderr = False\<rparr>"
  proof (cases "ParseStaticCommand sh command fields_policy")
    case (Inl e)
    then show ?thesis by (simp add: StaticFields_fields_policy)
  next
    case (Inr c)
    with ParseStaticCommand_plain [OF assms, of sh c] have "Env c = []" "\<not> MergeStderr c" by auto
    with Inr show ?thesis by (cases c) (auto simp: StaticFields_fields_policy)
  qed
  then show ?thesis
    by (simp add: ParseStaticCommand_plain [OF assms] staticArgs_map)
qed

section \<open>The simple commands of a statement\<close>

text \<open>The leaves of a statement, from left to right.\<close>

fun leaves :: "Stmt \<Rightarrow> Stmt list" where
  "leaves (Stmt cmd neg bg cop dis rs p e semi) =
     (case cmd of
        BinaryCmd op x y \<Rightarrow>
          (case x of None \<Rightarrow> [] | Some s \<Rightarrow> leaves s) @ (case y of None \<Rightarrow> [] | Some s \<Rightarrow> leaves s)
      | _ \<Rightarrow> [Stmt cmd neg bg cop dis rs p e semi])"

definition file_leaves :: "ShFile \<Rightarrow> Stmt list" where
  "file_leaves f = concat (map (case_option [] leaves) (Stmts f))"

lemma appendSegs_leaves:
  "appendSegs source s acc = Some (segs, split) \<Longrightarrow>
     segs = fst acc @ filter (\<lambda>t. t \<noteq> []) (map (sourceForStmt source) (leaves s))"
  by (induction source s acc arbitrary: segs split rule: appendSegs.induct)
     (fastforce simp: Let_def split: if_splits Cmd.splits option.splits)

lemma segmentLoop_leaves:
  "segmentLoop source many ss acc = Some (segs, split) \<Longrightarrow>
     segs = fst acc @ filter (\<lambda>t. t \<noteq> []) (map (sourceForStmt source) (concat (map (case_option [] leaves) ss)))"
proof (induction ss arbitrary: acc)
  case (Cons s ss)
  then obtain s' acc' where s: "s = Some s'" "appendSegs source s' (fst acc, snd acc \<or> many) = Some acc'"
      "segmentLoop source many ss acc' = Some (segs, split)"
    by (auto simp: appendTopLevelSegments_def split: option.splits)
  with appendSegs_leaves [of source s' _ "fst acc'" "snd acc'"] Cons.IH [OF s(3)] show ?case by simp
qed simp

lemma sourceForStmt_infix: "\<exists>u v. source = u @ sourceForStmt source st @ v"
proof -
  define stop where "stop = (case sSemicolon st of
      Some semi \<Rightarrow> if sPos st \<le> semi \<and> semi \<le> sEnd st then semi else sEnd st | None \<Rightarrow> sEnd st)"
  show ?thesis
  proof (cases "go_slice source (int (sPos st)) (int stop)")
    case (Some t)
    then obtain a b where ab: "source = a @ t @ b" using go_slice_infix by blast
    obtain u v where "t = u @ TrimSpace t @ v" using TrimSpace_infix by blast
    with ab have "source = (a @ u) @ TrimSpace t @ (v @ b)" by simp
    moreover have "sourceForStmt source st = TrimSpace t"
      using Some by (simp add: sourceForStmt_def stop_def [symmetric] Let_def)
    ultimately show ?thesis by metis
  qed (auto simp: sourceForStmt_def stop_def [symmetric] Let_def intro: exI [of _ source])
qed

lemma in_compactSegments:
  "t \<in> set (compactSegments ss) \<Longrightarrow> t \<noteq> [] \<and> \<not> HasPrefix t ''#'' \<and> (\<exists>s \<in> set ss. t = TrimSpace s)"
  by (auto simp: compactSegments_def)

section \<open>Exit status\<close>

text \<open>
  The exit status Bash reports, given which simple commands succeed (\<open>ok\<close>): \<open>&&\<close> needs both
  sides, \<open>||\<close> either, a pipe reports its last stage, a background job reports success, and of
  several statements the last one counts.
\<close>

fun stmt_succeeds :: "(Stmt \<Rightarrow> bool) \<Rightarrow> Stmt \<Rightarrow> bool" where
  "stmt_succeeds ok (Stmt cmd neg bg cop dis rs p e semi) =
     (if bg then True
      else (neg \<noteq>
        (case cmd of
           BinaryCmd op x y \<Rightarrow>
             (let a = (case x of None \<Rightarrow> True | Some s \<Rightarrow> stmt_succeeds ok s);
                  b = (case y of None \<Rightarrow> True | Some s \<Rightarrow> stmt_succeeds ok s)
              in (case op of AndStmt \<Rightarrow> a \<and> b | OrStmt \<Rightarrow> a \<or> b | _ \<Rightarrow> b))
         | _ \<Rightarrow> ok (Stmt cmd neg bg cop dis rs p e semi))))"

definition file_succeeds :: "(Stmt \<Rightarrow> bool) \<Rightarrow> ShFile \<Rightarrow> bool" where
  "file_succeeds ok f = (Stmts f = [] \<or> (case last (Stmts f) of None \<Rightarrow> True | Some s \<Rightarrow> stmt_succeeds ok s))"

text \<open>A statement the analysis covers: calls joined by operators, nothing negated.\<close>

fun simple_stmt :: "Stmt \<Rightarrow> bool" where
  "simple_stmt (Stmt cmd neg bg cop dis rs p e semi) =
     (\<not> neg \<and> \<not> cop \<and> \<not> dis \<and>
      (case cmd of
         BinaryCmd op x y \<Rightarrow>
           (case x of None \<Rightarrow> False | Some s \<Rightarrow> simple_stmt s) \<and> (case y of None \<Rightarrow> False | Some s \<Rightarrow> simple_stmt s)
       | CallExpr _ _ \<Rightarrow> True
       | OtherCmd \<Rightarrow> False))"

lemma stmtCanMask_sound:
  "stmtCanMask s = (False, True) \<Longrightarrow> stmt_succeeds ok s \<Longrightarrow> l \<in> set (leaves s) \<Longrightarrow> ok l"
  by (induction ok s arbitrary: l rule: stmt_succeeds.induct)
     (auto split: if_splits Cmd.splits option.splits prod.splits BinOp.splits simp: Let_def)

lemma stmt_succeeds_cong:
  "(\<And>l. l \<in> set (leaves s) \<Longrightarrow> ok l = ok' l) \<Longrightarrow> stmt_succeeds ok s = stmt_succeeds ok' s"
proof (induction s rule: leaves.induct)
  case (1 cmd neg bg cop dis rs p e semi)
  show ?case
  proof (cases cmd)
    case (BinaryCmd op x y)
    have "case_option True (stmt_succeeds ok) x = case_option True (stmt_succeeds ok') x"
      using "1.IH"(1) [OF BinaryCmd] "1.prems" BinaryCmd by (cases x) auto
    moreover have "case_option True (stmt_succeeds ok) y = case_option True (stmt_succeeds ok') y"
      using "1.IH"(2) [OF BinaryCmd] "1.prems" BinaryCmd by (cases y) auto
    ultimately show ?thesis using BinaryCmd by simp
  qed (use 1 in auto)
qed

lemma simple_succeeds: "simple_stmt s \<Longrightarrow> (\<And>l. l \<in> set (leaves s) \<Longrightarrow> ok l) \<Longrightarrow> stmt_succeeds ok s"
proof (induction s rule: leaves.induct)
  case (1 cmd neg bg cop dis rs p e semi)
  show ?case
  proof (cases cmd)
    case (BinaryCmd op x y)
    then obtain sx sy where "x = Some sx" "y = Some sy"
      using "1.prems"(1) by (auto split: option.splits)
    with 1 BinaryCmd show ?thesis by (cases op) (auto simp: Let_def)
  qed (use 1 in auto)
qed

lemma simple_leaves: "simple_stmt s \<Longrightarrow> leaves s \<noteq> []"
  by (induction s rule: simple_stmt.induct) (auto split: Cmd.splits option.splits)

lemma some_leaf: assumes "simple_stmt s" obtains l where "l \<in> set (leaves s)"
  using simple_leaves [OF assms] that by (cases "leaves s") auto

lemma simple_analysed: "simple_stmt s \<Longrightarrow> snd (stmtCanMask s)"
  by (induction s rule: simple_stmt.induct)
     (auto split: Cmd.splits option.splits prod.splits)

text \<open>A side that may fail unnoticed, joined to leaves that all succeed.\<close>

lemma hide_failure:
  assumes "set ls \<inter> set (leaves s) = {}" "simple_stmt s"
  obtains ok' where "\<And>l. l \<in> set ls \<Longrightarrow> ok' l = ok l" "stmt_succeeds ok' s"
proof -
  let ?ok = "\<lambda>l. if l \<in> set ls then ok l else True"
  have "stmt_succeeds ?ok s" using assms by (intro simple_succeeds) auto
  then show ?thesis using that [of ?ok] by simp
qed

lemma stmtCanMask_complete:
  "simple_stmt s \<Longrightarrow> distinct (leaves s) \<Longrightarrow> fst (stmtCanMask s) \<Longrightarrow>
     \<exists>ok. stmt_succeeds ok s \<and> (\<exists>l \<in> set (leaves s). \<not> ok l)"
proof (induction s rule: simple_stmt.induct)
  case (1 cmd neg bg cop dis rs p e semi)
  let ?s = "Stmt cmd neg bg cop dis rs p e semi"
  show ?case
  proof (cases bg)
    case True
    obtain l where "l \<in> set (leaves ?s)" using some_leaf [OF "1.prems"(1)] .
    with True show ?thesis by (intro exI [of _ "\<lambda>_. False"]) auto
  next
    case bg: False
    with "1.prems" obtain op x y where cmd: "cmd = BinaryCmd op (Some x) (Some y)"
      by (cases cmd) (auto split: option.splits)
    have sx: "simple_stmt x" "distinct (leaves x)" and sy: "simple_stmt y" "distinct (leaves y)"
      and d: "set (leaves x) \<inter> set (leaves y) = {}" and flags: "\<not> neg" "\<not> cop" "\<not> dis"
      using "1.prems" cmd by auto
    have lv: "set (leaves ?s) = set (leaves x) \<union> set (leaves y)" by (simp add: cmd)
    note succ = bg flags cmd
    show ?thesis
    proof (cases "op = AndStmt")
      case False
      obtain ok where ok: "\<And>l. l \<in> set (leaves x) \<Longrightarrow> ok l = False" "stmt_succeeds ok y"
        using hide_failure [OF d sy(1), of "\<lambda>_. False"] by auto
      moreover obtain l where "l \<in> set (leaves x)"
        using some_leaf [OF sx(1)] .
      moreover have "stmt_succeeds ok ?s" using False ok succ by (cases op) (auto simp: Let_def)
      ultimately show ?thesis using lv by blast
    next
      case True
      with "1.prems"(3) succ simple_analysed [OF sx(1)] simple_analysed [OF sy(1)]
      consider "fst (stmtCanMask x)" | "fst (stmtCanMask y)"
        by (auto split: prod.splits)
      then show ?thesis
      proof cases
        case 1
        then obtain ok l where l: "stmt_succeeds ok x" "l \<in> set (leaves x)" "\<not> ok l"
          using "1.IH"(1) [OF cmd] sx by auto
        obtain ok' where ok': "\<And>l. l \<in> set (leaves x) \<Longrightarrow> ok' l = ok l" "stmt_succeeds ok' y"
          using hide_failure [OF d sy(1), of ok] by auto
        with l stmt_succeeds_cong [of x ok' ok] have "stmt_succeeds ok' x" "\<not> ok' l" by auto
        with ok'(2) succ True l(2) lv show ?thesis by (intro exI [of _ ok']) auto
      next
        case 2
        then obtain ok l where l: "stmt_succeeds ok y" "l \<in> set (leaves y)" "\<not> ok l"
          using "1.IH"(2) [OF cmd] sy by auto
        have d': "set (leaves y) \<inter> set (leaves x) = {}" using d by auto
        obtain ok' where ok': "\<And>l. l \<in> set (leaves y) \<Longrightarrow> ok' l = ok l" "stmt_succeeds ok' x"
          using hide_failure [OF d' sx(1), of ok] by auto
        with l stmt_succeeds_cong [of y ok' ok] have "stmt_succeeds ok' y" "\<not> ok' l" by auto
        with ok'(2) succ True l(2) lv show ?thesis by (intro exI [of _ ok']) auto
      qed
    qed
  qed
qed


section \<open>Properties\<close>

text \<open>The exit status of a command the analysis clears is evidence for every step: when
  \<open>CanMaskEarlierFailure\<close> answers that nothing can be masked and Bash reports success, every
  simple command of the line has succeeded.\<close>

theorem unmasked_status_is_evidence:
  assumes "CanMaskEarlierFailure sh command = (False, True)" "TrimSpace command \<noteq> []"
    and "shParse sh command = Inr tree" "file_succeeds ok tree" "l \<in> set (file_leaves tree)"
  shows "ok l"
proof -
  from assms(1-3) have short: "\<not> length (Stmts tree) > 1" and loop: "maskLoop (Stmts tree) = (False, True)"
    by (auto simp: CanMaskEarlierFailure_def split: if_splits)
  from assms(5) short obtain s where s: "Stmts tree = [Some s]" "l \<in> set (leaves s)"
    by (cases "Stmts tree") (auto simp: file_leaves_def split: option.splits)
  with loop have "stmtCanMask s = (False, True)"
    by (auto simp: stmtCanMaskEarlierFailure_def split: prod.splits if_splits)
  moreover have "stmt_succeeds ok s" using assms(4) s by (simp add: file_succeeds_def)
  ultimately show ?thesis using s(2) stmtCanMask_sound by blast
qed

text \<open>On commands made of calls and operators the analysis is exact: it answers that a failure
  can be masked just when some outcome of the simple commands is reported as a success although
  one of them failed.\<close>

theorem CanMaskEarlierFailure_exact:
  assumes "TrimSpace command \<noteq> []" "shParse sh command = Inr tree" "\<not> HasHereDoc sh tree"
    and "Stmts tree = map Some ss" "\<forall>s \<in> set ss. simple_stmt s" "distinct (file_leaves tree)"
  shows "CanMaskEarlierFailure sh command =
    ((\<exists>ok. file_succeeds ok tree \<and> (\<exists>l \<in> set (file_leaves tree). \<not> ok l)), True)"
proof -
  have lv: "file_leaves tree = concat (map leaves ss)"
    using assms(4) by (simp add: file_leaves_def comp_def)
  consider "ss = []" | s where "ss = [s]" | s ms t where "ss = s # ms @ [t]"
    by (metis list.exhaust rev_exhaust append_Cons append_Nil)
  then show ?thesis
  proof cases
    case 1
    with assms lv show ?thesis by (simp add: CanMaskEarlierFailure_def)
  next
    case 2
    with assms lv have s: "simple_stmt s" "distinct (leaves s)" "snd (stmtCanMask s)"
      using simple_analysed by auto
    have "CanMaskEarlierFailure sh command = (fst (stmtCanMask s), True)"
      using 2 assms s(3)
      by (auto simp: CanMaskEarlierFailure_def stmtCanMaskEarlierFailure_def split: prod.splits)
    moreover have "stmtCanMask s = (False, True)" if "\<not> fst (stmtCanMask s)"
      using that s(3) by (cases "stmtCanMask s") auto
    ultimately show ?thesis
      using stmtCanMask_complete [OF s(1,2)] stmtCanMask_sound [of s] 2 assms(4) lv
      by (cases "fst (stmtCanMask s)") (auto simp: file_succeeds_def)
  next
    case 3
    let ?ok = "\<lambda>l. l \<in> set (leaves t)"
    have "CanMaskEarlierFailure sh command = (True, True)"
      using 3 assms by (simp add: CanMaskEarlierFailure_def)
    moreover have "file_succeeds ?ok tree"
      using 3 assms simple_succeeds [of t ?ok] by (simp add: file_succeeds_def)
    moreover obtain l where "l \<in> set (leaves s)" using some_leaf [of s] 3 assms(5) by auto
    moreover from this have "l \<notin> set (leaves t)" "l \<in> set (file_leaves tree)"
      using 3 assms(6) lv by auto
    ultimately show ?thesis by auto
  qed
qed

text \<open>\<open>SplitTopLevel\<close> loses and invents nothing: the segments it returns are the source texts of the
  command's simple commands, from left to right, without the blank and comment ones, and each
  is a part of the command as written.\<close>

theorem SplitTopLevel_segments:
  assumes "SplitTopLevel sh command = Some (segs, split)" "TrimSpace command \<noteq> []"
    and "shParse sh command = Inr tree"
  shows "segs = compactSegments (filter (\<lambda>t. t \<noteq> []) (map (sourceForStmt command) (file_leaves tree))) \<and>
    (\<forall>t \<in> set segs. t \<noteq> [] \<and> (\<exists>u v. command = u @ t @ v))"
proof -
  from assms obtain raw where raw: "segs = compactSegments raw"
      "segmentLoop command (length (Stmts tree) > 1) (Stmts tree) ([], False) = Some (raw, split)"
    by (auto simp: SplitTopLevel_def split: if_splits option.splits)
  have eq: "raw = filter (\<lambda>t. t \<noteq> []) (map (sourceForStmt command) (file_leaves tree))"
    using segmentLoop_leaves [OF raw(2)] by (simp add: file_leaves_def)
  have "t \<noteq> [] \<and> (\<exists>u v. command = u @ t @ v)" if t: "t \<in> set segs" for t
  proof -
    obtain x where x: "x \<in> set raw" "t = TrimSpace x" "t \<noteq> []"
      using in_compactSegments t raw(1) by blast
    then obtain st where "x = sourceForStmt command st" using eq by auto
    then obtain u v where "command = u @ x @ v" using sourceForStmt_infix by blast
    moreover obtain a b where "x = a @ TrimSpace x @ b" using TrimSpace_infix by blast
    ultimately have "command = (u @ a) @ t @ (b @ v)" using x(2) by simp
    with x(3) show ?thesis by blast
  qed
  with raw(1) eq show ?thesis by blast
qed

text \<open>\<open>StaticFields\<close> accepts exactly the commands that are one plain call of static words: nothing
  negated, redirected, assigned, in the background or expanded at run time.\<close>

theorem StaticFields_exact:
  assumes "TrimSpace command \<noteq> []"
  shows "StaticFields sh command = (argv, []) \<longleftrightarrow>
    (\<exists>tree st ws. shParse sh command = Inr tree \<and> \<not> HasHereDoc sh tree \<and> Stmts tree = [Some st] \<and>
       plain_call st ws \<and> map StaticWord ws = map Some argv)"
  by (rule StaticFields_plain [OF assms])

text \<open>Quoting by backslashes is undone exactly: a text without line feeds whose every byte is
  escaped denotes that text, in a bare word.\<close>

theorem unescapeLit_roundtrip:
  assumes "LF \<notin> set s"
  shows "staticWordPart (Lit (escape_all s)) False = Some s"
  using unescapeFrom_escape_all [OF assms] by (simp add: unescapeLit_eq)

section \<open>Witnesses\<close>

text \<open>A parser that knows three commands.\<close>

definition lit_word :: "bytes \<Rightarrow> Word option" where
  "lit_word s = Some (Word [Lit s] None None)"

definition call_at :: "nat \<Rightarrow> nat \<Rightarrow> bytes list \<Rightarrow> Stmt" where
  "call_at a b ws = Stmt (CallExpr [] (map lit_word ws)) False False False False [] a b None"

definition binary_of :: "BinOp \<Rightarrow> Stmt \<Rightarrow> Stmt \<Rightarrow> Stmt" where
  "binary_of op x y = Stmt (BinaryCmd op (Some x) (Some y)) False False False False [] (sPos x) (sEnd y) None"

definition sample_parse :: "bytes \<Rightarrow> bytes + ShFile" where
  "sample_parse c =
     (if c = ''make && make test''
      then Inr \<lparr>Stmts = [Some (binary_of AndStmt (call_at 0 4 [''make'']) (call_at 8 17 [''make'', ''test'']))]\<rparr>
      else if c = ''make ; make test''
      then Inr \<lparr>Stmts = [Some (call_at 0 4 [''make'']), Some (call_at 7 16 [''make'', ''test''])]\<rparr>
      else if c = ''make test'' then Inr \<lparr>Stmts = [Some (call_at 0 9 [''make'', ''test''])]\<rparr>
      else Inl ''syntax error'')"

definition sample_shell :: shell where
  "sample_shell = \<lparr>shParse = sample_parse, shWalk = (\<lambda>_. []), shSplitBraces = (\<lambda>w. w)\<rparr>"

lemmas sample_defs = sample_shell_def sample_parse_def call_at_def binary_of_def lit_word_def

lemma sample_blank: "TrimSpace ''make && make test'' \<noteq> []" "TrimSpace ''make ; make test'' \<noteq> []"
  "TrimSpace ''make test'' \<noteq> []"
  by code_simp+

theorem unmasked_status_is_evidence_witness:
  "CanMaskEarlierFailure sample_shell ''make && make test'' = (False, True) \<and>
   (\<lambda>s. sPos s < 20) (call_at 8 17 [''make'', ''test''])"
proof -
  have 1: "CanMaskEarlierFailure sample_shell ''make && make test'' = (False, True)" by code_simp
  have "(\<lambda>s. sPos s < 20) (call_at 8 17 [''make'', ''test''])"
    by (rule unmasked_status_is_evidence [OF 1 sample_blank(1), where tree =
          "\<lparr>Stmts = [Some (binary_of AndStmt (call_at 0 4 [''make'']) (call_at 8 17 [''make'', ''test'']))]\<rparr>"])
       (simp_all add: sample_defs file_succeeds_def file_leaves_def)
  with 1 show ?thesis by blast
qed

theorem CanMaskEarlierFailure_exact_witness:
  "\<exists>tree. shParse sample_shell ''make ; make test'' = Inr tree \<and>
    CanMaskEarlierFailure sample_shell ''make ; make test'' =
      ((\<exists>ok. file_succeeds ok tree \<and> (\<exists>l \<in> set (file_leaves tree). \<not> ok l)), True)"
  using CanMaskEarlierFailure_exact [OF sample_blank(2), of sample_shell _
      "[call_at 0 4 [''make''], call_at 7 16 [''make'', ''test'']]"]
  by (auto simp: sample_defs HasHereDoc_def file_leaves_def)

theorem SplitTopLevel_segments_witness:
  "SplitTopLevel sample_shell ''make && make test'' = Some ([''make'', ''make test''], True) \<and>
   (\<exists>u v. ''make && make test'' = u @ ''make test'' @ v)"
proof -
  have 1: "SplitTopLevel sample_shell ''make && make test'' = Some ([''make'', ''make test''], True)"
    by code_simp
  obtain tree where "shParse sample_shell ''make && make test'' = Inr tree" by (simp add: sample_defs)
  from SplitTopLevel_segments [OF 1 sample_blank(1) this] 1 show ?thesis by (meson list.set_intros)
qed

theorem StaticFields_exact_witness:
  "StaticFields sample_shell ''make test'' = ([''make'', ''test''], []) \<and>
   (\<exists>tree st ws. shParse sample_shell ''make test'' = Inr tree \<and> Stmts tree = [Some st] \<and> plain_call st ws)"
proof -
  have 1: "StaticFields sample_shell ''make test'' = ([''make'', ''test''], [])" by code_simp
  with StaticFields_exact [OF sample_blank(3), of sample_shell "[''make'', ''test'']"] show ?thesis by blast
qed

theorem unescapeLit_roundtrip_witness:
  "staticWordPart (Lit (escape_all ''a b'')) False = Some ''a b''"
  by (rule unescapeLit_roundtrip) simp

end
