(* ===== verification/ShellSafe.thy ===== *)
theory ShellSafe
  imports ShellParse
begin

text \<open>
  \<open>internal/shellsafe\<close>: which shell commands only read. \<open>shellsafe.go\<close> holds the tables of
  read-only commands and the one dynamic shape it accepts, a double-quoted command substitution
  of a read-only command; \<open>bash_redirect.go\<close> removes the redirections that cannot write to a file
  before such a command is matched.

  The lemmas show that a command classified as read-only is one plain call (no redirection,
  assignment, negation or background job), that every substitution in it is again such a call of
  a command in the table, and that a redirection to a file is never removed.
\<close>

section \<open>Tables\<close>

definition ReadOnlyCommands :: "bytes list" where
  "ReadOnlyCommands =
     [''cat'', ''head'', ''tail'', ''less'', ''more'',
      ''ls'', ''find'', ''locate'', ''which'', ''whereis'', ''type'',
      ''grep'', ''egrep'', ''fgrep'', ''rg'',
      ''echo'', ''printf'',
      ''pwd'', ''cd'', ''whoami'', ''id'', ''uname'', ''hostname'',
      ''date'', ''printenv'',
      ''wc'', ''sort'', ''uniq'', ''cut'', ''tr'',
      ''stat'', ''file'', ''du'', ''df'',
      ''ps'', ''top'', ''htop'',
      ''diff'', ''cmp'', ''comm'',
      ''man'', ''info'', ''help'',
      ''true'', ''false'', ''test'', ''['',
      ''basename'', ''dirname'', ''realpath'', ''readlink'',
      ''get-childitem'', ''get-content'', ''get-item'',
      ''get-location'', ''get-process'', ''get-command'',
      ''get-nettcpconnection'',
      ''resolve-path'', ''select-string'', ''measure-object'',
      ''compare-object'']"

definition workspaceNonMutatingCommands :: "bytes list" where
  "workspaceNonMutatingCommands = [''test-netconnection'']"

definition ReadOnlyPrefixes :: "(bytes \<times> bytes list) list" where
  "ReadOnlyPrefixes =
     [(''git'', [''log'', ''status'', ''diff'', ''show'', ''tag'', ''blame'', ''grep'', ''ls-files'',
        ''ls-tree'', ''rev-parse'', ''rev-list'', ''describe'', ''reflog'', ''shortlog'',
        ''whatchanged'', ''cherry'', ''cat-file'', ''for-each-ref'', ''name-rev'']),
      (''go'', [''vet'', ''doc'', ''list'', ''version'', ''env'']),
      (''npm'', [''ls'', ''list'', ''view'', ''info'', ''outdated'', ''audit'']),
      (''cargo'', [''check'', ''doc'', ''search'']),
      (''docker'', [''ps'', ''images'', ''inspect'', ''logs'', ''stats'', ''info'', ''version'']),
      (''kubectl'', [''get'', ''describe'', ''logs'', ''explain'', ''api-resources'', ''api-versions'']),
      (''node'', [''-v'', ''--version'']),
      (''python'', [''--version'', ''-v'', ''-V'']),
      (''python3'', [''--version'', ''-v'', ''-V''])]"

definition substitutionSafeCommands :: "bytes list" where
  "substitutionSafeCommands =
     [''cat'', ''head'', ''tail'', ''ls'',
      ''grep'', ''egrep'', ''fgrep'', ''rg'',
      ''echo'', ''printf'', ''pwd'', ''whoami'',
      ''id'', ''uname'', ''hostname'', ''wc'',
      ''stat'', ''file'', ''du'', ''df'',
      ''cmp'', ''comm'', ''true'', ''false'',
      ''test'', ''['', ''basename'', ''dirname'',
      ''realpath'', ''readlink'']"

definition prefixSub :: "bytes \<Rightarrow> bytes \<Rightarrow> bool" where
  "prefixSub base sub = (case map_of ReadOnlyPrefixes base of None \<Rightarrow> False | Some subs \<Rightarrow> sub \<in> set subs)"

definition resolvedSubstitutionPlaceholder :: bytes where
  "resolvedSubstitutionPlaceholder = ''__reasonix_read_only_substitution__''"

section \<open>Classification\<close>

definition hasResolvedSubstitution :: "bytes list \<Rightarrow> bool" where
  "hasResolvedSubstitution flds = list_ex (\<lambda>f. Contains f resolvedSubstitutionPlaceholder) flds"

text \<open>\<open>(base, sub)\<close>, or \<open>None\<close> for \<open>ok = false\<close>.\<close>

definition readOnlyFields :: "bytes list \<Rightarrow> (bytes \<times> bytes) option" where
  "readOnlyFields flds =
     (case flds of [] \<Rightarrow> None
      | f # fs \<Rightarrow>
          (let base = ToLower f
           in if base \<in> set ReadOnlyCommands then Some (base, [])
              else (case fs of [] \<Rightarrow> None
                    | g # _ \<Rightarrow> if prefixSub base (ToLower g) then Some (base, ToLower g) else None)))"

definition nestedArgUnsafe :: "bytes \<Rightarrow> bytes \<Rightarrow> bytes \<Rightarrow> bool" where
  "nestedArgUnsafe base sub arg =
     (if base = ''find'' \<and> arg \<in> {''-exec'', ''-execdir'', ''-delete'', ''-ok'', ''-okdir'', ''-fls'',
           ''-fprint'', ''-fprint0'', ''-fprintf''} then True
      else if base = ''sed'' \<and> (HasPrefix arg ''-i'' \<or> HasPrefix arg ''--in-place'') then True
      else if base = ''sort'' \<and> (HasPrefix arg ''-o'' \<or> arg = ''--output'' \<or> HasPrefix arg ''--output='') then True
      else if base = ''git'' \<and> (sub = ''diff'' \<or> sub = ''show'' \<or> sub = ''log'') \<and>
           (arg = ''--output'' \<or> HasPrefix arg ''--output='') then True
      else base = ''go'' \<and> sub = ''env'' \<and> (arg = ''-w'' \<or> arg = ''-u''))"

definition nestedReadOnlyArgsSafe :: "bytes \<Rightarrow> bytes \<Rightarrow> bytes list \<Rightarrow> bool" where
  "nestedReadOnlyArgsSafe base sub flds =
     (let args0 = tl flds; args = (if sub \<noteq> [] \<and> args0 \<noteq> [] then tl args0 else args0)
      in if list_ex (nestedArgUnsafe base sub) args then False
         else base \<noteq> ''git'' \<or> sub \<noteq> ''tag'' \<or> args = [] \<or> hd args = ''-l'' \<or> hd args = ''--list'')"

text \<open>A statement, its words and their parts: the fields and whether one of them is dynamic.\<close>

fun resolvedReadOnlyStmt :: "Stmt \<Rightarrow> bool \<Rightarrow> (bytes list \<times> bool) option"
  and resolvedWords :: "Word option list \<Rightarrow> (bytes list \<times> bool) option"
  and resolvedParts :: "WordPart list \<Rightarrow> bool \<Rightarrow> (bytes \<times> bool) option"
  and resolvedReadOnlyWordPart :: "WordPart \<Rightarrow> bool \<Rightarrow> (bytes \<times> bool) option" where
  "resolvedReadOnlyStmt (Stmt cmd neg bg cop dis rs p e semi) nested =
     (if neg \<or> bg \<or> cop \<or> dis \<or> rs \<noteq> [] then None
      else case cmd of
             CallExpr assigns args \<Rightarrow>
               if assigns \<noteq> [] \<or> args = [] then None
               else (case resolvedWords args of
                       None \<Rightarrow> None
                     | Some (flds, dynamic) \<Rightarrow>
                         (case readOnlyFields flds of
                            None \<Rightarrow> None
                          | Some (base, sub) \<Rightarrow>
                              if nested \<and> (base \<notin> set substitutionSafeCommands \<or>
                                   \<not> nestedReadOnlyArgsSafe base sub flds)
                              then None else Some (flds, dynamic)))
           | _ \<Rightarrow> None)"
| "resolvedWords [] = Some ([], False)"
| "resolvedWords (None # ws) = None"
| "resolvedWords (Some w # ws) =
     (case (case staticWordParts (wParts w) False of
              Some s \<Rightarrow> Some (s, False)
            | None \<Rightarrow> (case w of Word ps _ _ \<Rightarrow> resolvedParts ps False)) of
        None \<Rightarrow> None
      | Some (f, d) \<Rightarrow>
          (case resolvedWords ws of None \<Rightarrow> None | Some (fs, ds) \<Rightarrow> Some (f # fs, d \<or> ds)))"
| "resolvedParts [] dq = Some ([], False)"
| "resolvedParts (part # ps) dq =
     (case resolvedReadOnlyWordPart part dq of None \<Rightarrow> None
      | Some (v, d) \<Rightarrow>
          (case resolvedParts ps dq of None \<Rightarrow> None | Some (vs, ds) \<Rightarrow> Some (v @ vs, d \<or> ds)))"
| "resolvedReadOnlyWordPart (Lit v) dq = Some (v, False)"
| "resolvedReadOnlyWordPart (SglQuoted v) dq = Some (v, False)"
| "resolvedReadOnlyWordPart (DblQuoted ps) dq = resolvedParts ps True"
| "resolvedReadOnlyWordPart (CmdSubst tmp rv [Some s]) dq =
     (if \<not> dq \<or> tmp \<or> rv then None
      else case resolvedReadOnlyStmt s True of
             None \<Rightarrow> None | Some _ \<Rightarrow> Some (resolvedSubstitutionPlaceholder, True))"
| "resolvedReadOnlyWordPart _ dq = None"

definition resolvedReadOnlyWord :: "Word option \<Rightarrow> (bytes \<times> bool) option" where
  "resolvedReadOnlyWord w =
     (case StaticWord w of
        Some s \<Rightarrow> Some (s, False)
      | None \<Rightarrow> (case w of None \<Rightarrow> None | Some w \<Rightarrow> resolvedParts (wParts w) False))"

lemma resolvedWords_Cons:
  "resolvedWords (w # ws) =
     (case resolvedReadOnlyWord w of None \<Rightarrow> None
      | Some (f, d) \<Rightarrow> (case resolvedWords ws of None \<Rightarrow> None | Some (fs, ds) \<Rightarrow> Some (f # fs, d \<or> ds)))"
  by (cases w) (auto simp: resolvedReadOnlyWord_def StaticWord_def split: option.splits Word.splits)

definition resolvedReadOnlyFields :: "shell \<Rightarrow> bytes \<Rightarrow> bool \<Rightarrow> (bytes list \<times> bool) option" where
  "resolvedReadOnlyFields sh command nested =
     (case shParse sh command of
        Inl _ \<Rightarrow> None
      | Inr file \<Rightarrow> (case Stmts file of [Some s] \<Rightarrow> resolvedReadOnlyStmt s nested | _ \<Rightarrow> None))"

text \<open>\<open>(base, sub, fields)\<close>, or \<open>None\<close> for \<open>ok = false\<close>.\<close>

definition classifyFields :: "bytes list \<Rightarrow> (bytes \<times> bytes \<times> bytes list) option" where
  "classifyFields flds =
     (case flds of [] \<Rightarrow> None
      | f # fs \<Rightarrow>
          (let base = ToLower f
           in if base \<in> set ReadOnlyCommands
              then (if hasResolvedSubstitution flds \<and> base \<notin> set substitutionSafeCommands
                    then None else Some (base, [], flds))
              else (case fs of [] \<Rightarrow> None
                    | g # _ \<Rightarrow> if prefixSub base (ToLower g) then Some (base, ToLower g, flds) else None)))"

definition ClassifyReadOnlyCommand :: "shell \<Rightarrow> bytes \<Rightarrow> (bytes \<times> bytes \<times> bytes list) option" where
  "ClassifyReadOnlyCommand sh command =
     (case StaticFields sh command of
        (flds, malformed) \<Rightarrow>
          if malformed \<noteq> []
          then (case resolvedReadOnlyFields sh command False of
                  Some (flds, True) \<Rightarrow> classifyFields flds
                | _ \<Rightarrow> None)
          else classifyFields flds)"

definition CommandIsReadOnly :: "shell \<Rightarrow> bytes \<Rightarrow> (bytes \<times> bytes) option" where
  "CommandIsReadOnly sh command =
     map_option (\<lambda>(base, sub, flds). (base, sub)) (ClassifyReadOnlyCommand sh command)"

definition ClassifyWorkspaceNonMutatingCommand :: "shell \<Rightarrow> bytes \<Rightarrow> (bytes \<times> bytes \<times> bytes list) option" where
  "ClassifyWorkspaceNonMutatingCommand sh command =
     (case ClassifyReadOnlyCommand sh command of
        Some r \<Rightarrow> Some r
      | None \<Rightarrow>
          (case StaticFields sh command of
             (flds, malformed) \<Rightarrow>
               if malformed \<noteq> [] \<or> flds = [] then None
               else if ToLower (hd flds) \<in> set workspaceNonMutatingCommands
                    then Some (ToLower (hd flds), [], flds) else None))"

definition CommandIsWorkspaceNonMutating :: "shell \<Rightarrow> bytes \<Rightarrow> (bytes \<times> bytes) option" where
  "CommandIsWorkspaceNonMutating sh command =
     map_option (\<lambda>(base, sub, flds). (base, sub)) (ClassifyWorkspaceNonMutatingCommand sh command)"

section \<open>Redirections that cannot write\<close>

record redirectSpan =
  rsStart :: nat
  rsEnd :: nat

definition redirectWordSource :: "bytes \<Rightarrow> Word option \<Rightarrow> bytes" where
  "redirectWordSource source w =
     (case w of None \<Rightarrow> []
      | Some w \<Rightarrow>
          (case (wPos w, wEnd w) of
             (Some s, Some e) \<Rightarrow> (case go_slice source (int s) (int e) of None \<Rightarrow> [] | Some t \<Rightarrow> TrimSpace t)
           | _ \<Rightarrow> []))"

definition isSafeFDDupWord :: "bytes \<Rightarrow> Word option \<Rightarrow> bool" where
  "isSafeFDDupWord source w =
     (let value = redirectWordSource source w
      in if value = ''-'' then True
         else if value = [] then False
         else list_all (\<lambda>c. 48 \<le> byte c \<and> byte c \<le> 57) value)"

definition isNullRedirectWord :: "bytes \<Rightarrow> Word option \<Rightarrow> bool" where
  "isNullRedirectWord source w =
     (let value = redirectWordSource source w
      in if value = ''/dev/null'' then True else EqualFold value ''$null'' \<or> EqualFold value ''nul'')"

definition safeRedirectOp :: "bytes \<Rightarrow> Redirect \<Rightarrow> bool" where
  "safeRedirectOp source r =
     (if rOp r \<in> {DplOut, DplIn} then isSafeFDDupWord source (rWord r)
      else if rOp r \<in> {RdrOut, AppOut, RdrClob, AppClob, RdrAll, AppAll, RdrAllClob, AppAllClob}
           then isNullRedirectWord source (rWord r)
      else False)"

definition safeRedirectSpan :: "bytes \<Rightarrow> Redirect option \<Rightarrow> redirectSpan option" where
  "safeRedirectSpan source r =
     (case r of None \<Rightarrow> None
      | Some r \<Rightarrow>
          if \<not> safeRedirectOp source r then None
          else (let start = (case rN r of Some (_, Some p) \<Rightarrow> p | _ \<Rightarrow> rOpPos r); stop = rEnd r
                in if stop < start \<or> stop > length source then None
                   else Some \<lparr>rsStart = start, rsEnd = stop\<rparr>))"

fun redirSpans :: "bytes \<Rightarrow> Redirect option list \<Rightarrow> redirectSpan list option" where
  "redirSpans source [] = Some []"
| "redirSpans source (r # rs) =
     (case safeRedirectSpan source r of None \<Rightarrow> None
      | Some s \<Rightarrow> (case redirSpans source rs of None \<Rightarrow> None | Some ss \<Rightarrow> Some (s # ss)))"

fun stmtSpans :: "bytes \<Rightarrow> Stmt \<Rightarrow> redirectSpan list option" where
  "stmtSpans source (Stmt cmd neg bg cop dis rs p e semi) =
     (case redirSpans source rs of None \<Rightarrow> None
      | Some ss \<Rightarrow>
          (case cmd of
             BinaryCmd op x y \<Rightarrow>
               (case (case x of None \<Rightarrow> Some [] | Some sx \<Rightarrow> stmtSpans source sx) of None \<Rightarrow> None
                | Some xs \<Rightarrow>
                    (case (case y of None \<Rightarrow> Some [] | Some sy \<Rightarrow> stmtSpans source sy) of None \<Rightarrow> None
                     | Some ys \<Rightarrow> Some (ss @ xs @ ys)))
           | _ \<Rightarrow> Some ss))"

definition appendSafeRedirectSpans :: "bytes \<Rightarrow> Stmt option \<Rightarrow> redirectSpan list option" where
  "appendSafeRedirectSpans source s = (case s of None \<Rightarrow> Some [] | Some s \<Rightarrow> stmtSpans source s)"

fun safeRedirectSpans :: "bytes \<Rightarrow> Stmt option list \<Rightarrow> redirectSpan list option" where
  "safeRedirectSpans source [] = Some []"
| "safeRedirectSpans source (s # ss) =
     (case appendSafeRedirectSpans source s of None \<Rightarrow> None
      | Some xs \<Rightarrow> (case safeRedirectSpans source ss of None \<Rightarrow> None | Some ys \<Rightarrow> Some (xs @ ys)))"

text \<open>The writing loop: from offset \<open>pos\<close> (the variable \<open>last\<close> of the code) on, the text outside the spans.\<close>

fun writeOutside :: "bytes \<Rightarrow> nat \<Rightarrow> redirectSpan list \<Rightarrow> bytes option" where
  "writeOutside subject pos [] = Some (drop pos subject)"
| "writeOutside subject pos (s # ss) =
     (if rsStart s < pos \<or> rsEnd s > length subject then None
      else (case writeOutside subject (rsEnd s) ss of None \<Rightarrow> None
            | Some r \<Rightarrow> Some (take (rsStart s - pos) (drop pos subject) @ r)))"

text \<open>\<open>sort.Slice\<close> is modelled by a stable sort; spans of different redirections never start at
  the same offset, so its order of equal keys does not matter.\<close>

definition NormalizeBashSafeRedirectsForMatch :: "shell \<Rightarrow> bytes \<Rightarrow> bytes option" where
  "NormalizeBashSafeRedirectsForMatch sh subject =
     (case shParse sh subject of
        Inl _ \<Rightarrow> None
      | Inr file \<Rightarrow>
          if HasHereDoc sh file then None
          else (case safeRedirectSpans subject (Stmts file) of
                  None \<Rightarrow> None
                | Some spans \<Rightarrow>
                    if spans = [] then Some subject
                    else map_option TrimSpace (writeOutside subject 0 (sort_key rsStart spans))))"

section \<open>Read-only commands\<close>

text \<open>Every statement inside a command substitution of a statement's words, at any depth.\<close>

fun nested_stmts :: "Stmt \<Rightarrow> Stmt list"
  and nested_words :: "Word option list \<Rightarrow> Stmt list"
  and nested_parts :: "WordPart list \<Rightarrow> Stmt list"
  and nested_part :: "WordPart \<Rightarrow> Stmt list"
  and nested_opts :: "Stmt option list \<Rightarrow> Stmt list" where
  "nested_stmts (Stmt cmd neg bg cop dis rs p e semi) =
     (case cmd of CallExpr as ws \<Rightarrow> nested_words ws | _ \<Rightarrow> [])"
| "nested_words [] = []"
| "nested_words (None # ws) = nested_words ws"
| "nested_words (Some w # ws) = (case w of Word ps _ _ \<Rightarrow> nested_parts ps) @ nested_words ws"
| "nested_parts [] = []"
| "nested_parts (part # ps) = nested_part part @ nested_parts ps"
| "nested_part (DblQuoted ps) = nested_parts ps"
| "nested_part (CmdSubst tmp rv ss) = nested_opts ss"
| "nested_part _ = []"
| "nested_opts [] = []"
| "nested_opts (None # ss) = nested_opts ss"
| "nested_opts (Some s # ss) = s # nested_stmts s @ nested_opts ss"

lemma static_not_nested:
  "staticWordPart part dq = Some v \<Longrightarrow> nested_part part = []"
  "staticWordParts ps dq = Some v \<Longrightarrow> nested_parts ps = []"
  by (induction part dq and ps dq arbitrary: v and v rule: staticWordPart_staticWordParts.induct)
     (auto split: option.splits)

definition substitution_ok :: "Stmt \<Rightarrow> bool" where
  "substitution_ok s \<longleftrightarrow> resolvedReadOnlyStmt s True \<noteq> None"

lemma resolved_nested:
  "resolvedReadOnlyStmt s nested = Some r1 \<Longrightarrow> \<forall>t \<in> set (nested_stmts s). substitution_ok t"
  "resolvedWords ws = Some r2 \<Longrightarrow> \<forall>t \<in> set (nested_words ws). substitution_ok t"
  "resolvedParts ps dq = Some r3 \<Longrightarrow> \<forall>t \<in> set (nested_parts ps). substitution_ok t"
  "resolvedReadOnlyWordPart part dq' = Some r4 \<Longrightarrow> \<forall>t \<in> set (nested_part part). substitution_ok t"
proof (induction s nested and ws and ps dq and part dq'
    arbitrary: r1 and r2 and r3 and r4
    rule: resolvedReadOnlyStmt_resolvedWords_resolvedParts_resolvedReadOnlyWordPart.induct)
  case (1 cmd neg bg cop dis rs p e semi nested)
  then show ?case
    by (cases cmd) (auto split: if_splits option.splits prod.splits)
next
  case (4 w ws)
  obtain ps a b where w: "w = Word ps a b" by (cases w)
  show ?case
  proof (cases "staticWordParts ps False")
    case None
    with 4 w show ?thesis by (auto split: option.splits)
  next
    case (Some v)
    with "4.prems" w obtain fs ds where ws: "resolvedWords ws = Some (fs, ds)"
      by (auto split: option.splits)
    from "4.IH"(2) [of "(v, False)" v False] Some ws w
    have "\<forall>t \<in> set (nested_words ws). substitution_ok t" by auto
    with static_not_nested(2) [OF Some] w show ?thesis by simp
  qed
qed (auto simp: substitution_ok_def split: option.splits prod.splits if_splits)

lemma resolved_plain:
  assumes "resolvedReadOnlyStmt s nested = Some (flds, d)"
  obtains ws base sub where "plain_call s ws" "readOnlyFields flds = Some (base, sub)"
    "nested \<Longrightarrow> base \<in> set substitutionSafeCommands \<and> nestedReadOnlyArgsSafe base sub flds"
  using assms that
  by (cases s) (auto simp: plain_call_def split: if_splits Cmd.splits option.splits prod.splits)

lemma substitution_ok_plain:
  assumes "substitution_ok s"
  shows "\<exists>ws flds base sub. plain_call s ws \<and> readOnlyFields flds = Some (base, sub) \<and>
    base \<in> set substitutionSafeCommands \<and> nestedReadOnlyArgsSafe base sub flds"
proof -
  from assms obtain flds d where "resolvedReadOnlyStmt s True = Some (flds, d)"
    by (auto simp: substitution_ok_def)
  then show ?thesis by (rule resolved_plain) blast
qed

lemma plain_static_not_nested:
  "map StaticWord ws = map Some vs \<Longrightarrow> nested_words ws = []"
proof (induction ws arbitrary: vs)
  case (Cons w ws)
  then obtain v vs' where vs: "vs = v # vs'" "StaticWord w = Some v" "map StaticWord ws = map Some vs'"
    by (cases vs) auto
  from vs(2) obtain w' where "w = Some w'" "staticWordParts (wParts w') False = Some v"
    by (auto simp: StaticWord_def split: option.splits)
  with static_not_nested(2) [of "wParts w'"] Cons.IH [OF vs(3)] show ?case by (cases w') simp
qed simp

lemma classifyFields_Some:
  "classifyFields flds = Some (base, sub, fs) \<Longrightarrow>
     fs = flds \<and> flds \<noteq> [] \<and> base = ToLower (hd flds) \<and>
     (base \<in> set ReadOnlyCommands \<and> sub = [] \<or> prefixSub base sub \<and> tl flds \<noteq> [] \<and> sub = ToLower (hd (tl flds)))"
  by (auto simp: classifyFields_def Let_def split: list.splits if_splits)

section \<open>Redirections\<close>

fun stmt_redirs :: "Stmt \<Rightarrow> Redirect option list" where
  "stmt_redirs (Stmt cmd neg bg cop dis rs p e semi) =
     rs @ (case cmd of
             BinaryCmd op x y \<Rightarrow>
               (case x of None \<Rightarrow> [] | Some s \<Rightarrow> stmt_redirs s) @ (case y of None \<Rightarrow> [] | Some s \<Rightarrow> stmt_redirs s)
           | _ \<Rightarrow> [])"

definition tree_redirs :: "ShFile \<Rightarrow> Redirect option list" where
  "tree_redirs f = concat (map (case_option [] stmt_redirs) (Stmts f))"

lemma redirSpans_map: "redirSpans src rs = Some ss \<longleftrightarrow> map (safeRedirectSpan src) rs = map Some ss"
proof (induction rs arbitrary: ss)
  case (Cons r rs)
  then show ?case
    by (cases ss; cases "safeRedirectSpan src r"; cases "redirSpans src rs") fastforce+
qed auto

lemma stmtSpans_map: "stmtSpans src s = Some ss \<Longrightarrow> map (safeRedirectSpan src) (stmt_redirs s) = map Some ss"
proof (induction src s arbitrary: ss rule: stmtSpans.induct)
  case (1 src cmd neg bg cop dis rs p e semi)
  show ?case
  proof (cases cmd)
    case (BinaryCmd op x y)
    then obtain a b c where abc: "redirSpans src rs = Some a" "ss = a @ b @ c"
        "case_option (Some []) (stmtSpans src) x = Some b" "case_option (Some []) (stmtSpans src) y = Some c"
      using "1.prems" by (auto split: option.splits)
    have "map (safeRedirectSpan src) (case_option [] stmt_redirs x) = map Some b"
      using "1.IH"(1) [OF abc(1) BinaryCmd] abc(3) by (cases x) auto
    moreover have "map (safeRedirectSpan src) (case_option [] stmt_redirs y) = map Some c"
      using "1.IH"(2) [OF abc(1) BinaryCmd abc(3)] abc(4) by (cases y) auto
    ultimately show ?thesis using abc(1,2) BinaryCmd by (simp add: redirSpans_map)
  qed (use 1 in \<open>auto simp: redirSpans_map split: option.splits\<close>)
qed

lemma safeRedirectSpans_map:
  "safeRedirectSpans src ss = Some spans \<Longrightarrow>
     map (safeRedirectSpan src) (concat (map (case_option [] stmt_redirs) ss)) = map Some spans"
proof (induction ss arbitrary: spans)
  case (Cons s ss)
  then obtain xs ys where "appendSafeRedirectSpans src s = Some xs" "safeRedirectSpans src ss = Some ys" "spans = xs @ ys"
    by (auto split: option.splits)
  with Cons.IH [of ys] stmtSpans_map [of src _ xs] show ?case
    by (auto simp: appendSafeRedirectSpans_def split: option.splits)
qed simp

definition outside :: "redirectSpan list \<Rightarrow> nat \<Rightarrow> bool" where
  "outside spans i \<longleftrightarrow> (\<forall>s \<in> set spans. i < rsStart s \<or> rsEnd s \<le> i)"

definition keep :: "(nat \<Rightarrow> bool) \<Rightarrow> bytes \<Rightarrow> nat \<Rightarrow> nat \<Rightarrow> bytes" where
  "keep P s a b = map ((!) s) (filter P [a..<b])"

lemma keep_append: "a \<le> b \<Longrightarrow> b \<le> c \<Longrightarrow> keep P s a c = keep P s a b @ keep P s b c"
  by (metis keep_def filter_append le_Suc_ex map_append upt_add_eq_append)

lemma keep_all: "(\<And>i. a \<le> i \<Longrightarrow> i < b \<Longrightarrow> P i) \<Longrightarrow> b \<le> length s \<Longrightarrow> keep P s a b = take (b - a) (drop a s)"
  by (auto simp: keep_def intro!: nth_equalityI)

lemma keep_none: "(\<And>i. a \<le> i \<Longrightarrow> i < b \<Longrightarrow> \<not> P i) \<Longrightarrow> keep P s a b = []"
  by (auto simp: keep_def filter_empty_conv)

lemma keep_cong: "(\<And>i. a \<le> i \<Longrightarrow> i < b \<Longrightarrow> P i = Q i) \<Longrightarrow> keep P s a b = keep Q s a b"
  by (auto simp: keep_def intro!: arg_cong [of _ _ "map ((!) s)"] filter_cong)

lemma writeOutside_starts:
  "writeOutside s pos spans = Some r \<Longrightarrow> \<forall>x \<in> set spans. rsStart x \<le> rsEnd x \<Longrightarrow>
     \<forall>x \<in> set spans. pos \<le> rsStart x"
  by (induction spans arbitrary: pos r) (fastforce split: if_splits option.splits)+

lemma writeOutside_keep:
  "writeOutside s pos spans = Some r \<Longrightarrow> \<forall>x \<in> set spans. rsStart x \<le> rsEnd x \<Longrightarrow> pos \<le> length s \<Longrightarrow>
     r = keep (outside spans) s pos (length s)"
proof (induction spans arbitrary: pos r)
  case Nil
  then have "keep (outside []) s pos (length s) = take (length s - pos) (drop pos s)"
    by (intro keep_all) (simp_all add: outside_def)
  with Nil show ?case by (auto simp del: take_drop)
next
  case (Cons x spans)
  then obtain r' where r': "pos \<le> rsStart x" "rsEnd x \<le> length s" "writeOutside s (rsEnd x) spans = Some r'"
      "r = take (rsStart x - pos) (drop pos s) @ r'"
    by (auto split: if_splits option.splits)
  have x: "rsStart x \<le> rsEnd x" and later: "\<forall>y \<in> set spans. rsEnd x \<le> rsStart y"
    using Cons.prems(2) writeOutside_starts [OF r'(3)] by auto
  let ?P = "outside (x # spans)"
  have early: "?P i" if "i < rsStart x" for i
    unfolding outside_def
  proof
    fix y assume "y \<in> set (x # spans)"
    then consider "y = x" | "rsEnd x \<le> rsStart y" using later by auto
    then show "i < rsStart y \<or> rsEnd y \<le> i" using that x by cases auto
  qed
  have "keep ?P s pos (length s) =
      keep ?P s pos (rsStart x) @ keep ?P s (rsStart x) (rsEnd x) @ keep ?P s (rsEnd x) (length s)"
    using r'(1,2) x keep_append [of pos "rsStart x" "length s"] keep_append [of "rsStart x" "rsEnd x" "length s"]
    by simp
  also have "keep ?P s pos (rsStart x) = take (rsStart x - pos) (drop pos s)"
    using r'(2) x early by (intro keep_all) simp_all
  also have "keep ?P s (rsStart x) (rsEnd x) = []"
    by (rule keep_none) (auto simp: outside_def)
  also have "keep ?P s (rsEnd x) (length s) = keep (outside spans) s (rsEnd x) (length s)"
    by (rule keep_cong) (auto simp: outside_def)
  also have "\<dots> = r'" using Cons.IH [OF r'(3)] Cons.prems(2) r'(2) by simp
  finally show ?case using r'(4) by simp
qed

lemma safeRedirectSpan_ordered:
  "safeRedirectSpan src r = Some x \<Longrightarrow> rsStart x \<le> rsEnd x \<and> (\<exists>r'. r = Some r' \<and> safeRedirectOp src r')"
  by (auto simp: safeRedirectSpan_def Let_def split: option.splits if_splits)

section \<open>Properties\<close>

text \<open>A command is called read-only only if it is one plain call of a command of the tables:
  nothing negated, redirected, assigned or in the background, and every command substitution in
  its words, at any depth, is again a plain call of a substitution-safe command whose arguments
  do not write.\<close>

theorem ClassifyReadOnlyCommand_sound:
  assumes "ClassifyReadOnlyCommand sh command = Some (base, sub, flds)" "TrimSpace command \<noteq> []"
  shows "(base \<in> set ReadOnlyCommands \<and> sub = [] \<or> prefixSub base sub) \<and> base = ToLower (hd flds) \<and>
    (\<exists>tree st ws. shParse sh command = Inr tree \<and> Stmts tree = [Some st] \<and> plain_call st ws \<and>
       (\<forall>t \<in> set (nested_stmts st). \<exists>ws' flds' base' sub'. plain_call t ws' \<and>
          readOnlyFields flds' = Some (base', sub') \<and> base' \<in> set substitutionSafeCommands \<and>
          nestedReadOnlyArgsSafe base' sub' flds'))"
proof (cases "snd (StaticFields sh command) = []")
  case True
  then obtain fs where fs: "StaticFields sh command = (fs, [])" by (metis prod.collapse)
  with assms(1) have c: "classifyFields fs = Some (base, sub, flds)" by (simp add: ClassifyReadOnlyCommand_def)
  from fs StaticFields_plain [OF assms(2), of sh fs] obtain tree st ws
    where t: "shParse sh command = Inr tree" "Stmts tree = [Some st]" "plain_call st ws"
      "map StaticWord ws = map Some fs" by blast
  have "nested_stmts st = []"
    using t(3) plain_static_not_nested [OF t(4)] by (cases st) (auto simp: plain_call_def)
  with t classifyFields_Some [OF c] show ?thesis by auto
next
  case False
  with assms(1) obtain fs where fs: "resolvedReadOnlyFields sh command False = Some (fs, True)"
      "classifyFields fs = Some (base, sub, flds)"
    by (auto simp: ClassifyReadOnlyCommand_def split: prod.splits option.splits bool.splits)
  then obtain tree st where t: "shParse sh command = Inr tree" "Stmts tree = [Some st]"
      "resolvedReadOnlyStmt st False = Some (fs, True)"
    by (auto simp: resolvedReadOnlyFields_def split: sum.splits list.splits option.splits)
  obtain ws where "plain_call st ws" using resolved_plain [OF t(3)] by blast
  with t resolved_nested(1) [OF t(3)] substitution_ok_plain classifyFields_Some [OF fs(2)] show ?thesis by meson
qed

text \<open>Normalising a command for matching removes redirections and nothing else, and only harmless
  ones: a result exists only if every redirection of the command is a duplication or closing of
  a file descriptor or goes to a null sink, and the result is the command without exactly the
  bytes of those redirections.\<close>

theorem NormalizeBashSafeRedirects_exact:
  assumes "NormalizeBashSafeRedirectsForMatch sh subject = Some res"
  shows "\<exists>tree spans. shParse sh subject = Inr tree \<and>
    map (safeRedirectSpan subject) (tree_redirs tree) = map Some spans \<and>
    (\<forall>r \<in> set (tree_redirs tree). \<exists>r'. r = Some r' \<and> safeRedirectOp subject r') \<and>
    res = (if spans = [] then subject
           else TrimSpace (keep (outside spans) subject 0 (length subject)))"
proof -
  from assms obtain tree spans where t: "shParse sh subject = Inr tree"
      "safeRedirectSpans subject (Stmts tree) = Some spans"
      "(if spans = [] then Some subject
        else map_option TrimSpace (writeOutside subject 0 (sort_key rsStart spans))) = Some res"
    by (auto simp: NormalizeBashSafeRedirectsForMatch_def split: sum.splits if_splits option.splits)
  have m: "map (safeRedirectSpan subject) (tree_redirs tree) = map Some spans"
    using safeRedirectSpans_map [OF t(2)] by (simp add: tree_redirs_def)
  have safe: "\<exists>r'. r = Some r' \<and> safeRedirectOp subject r'" if "r \<in> set (tree_redirs tree)" for r
  proof -
    from that m have "safeRedirectSpan subject r \<in> set (map Some spans)" by (metis image_eqI list.set_map)
    then show ?thesis using safeRedirectSpan_ordered by auto
  qed
  have ord: "\<forall>x \<in> set (sort_key rsStart spans). rsStart x \<le> rsEnd x"
  proof
    fix x assume "x \<in> set (sort_key rsStart spans)"
    then have "Some x \<in> safeRedirectSpan subject ` set (tree_redirs tree)" using m
      by (metis image_eqI list.set_map set_sort)
    then show "rsStart x \<le> rsEnd x" using safeRedirectSpan_ordered by (metis imageE)
  qed
  have "res = TrimSpace (keep (outside spans) subject 0 (length subject))" if ne: "spans \<noteq> []"
  proof -
    from t(3) ne obtain r where r: "writeOutside subject 0 (sort_key rsStart spans) = Some r" "res = TrimSpace r"
      by auto
    have "outside (sort_key rsStart spans) = outside spans" by (simp add: outside_def fun_eq_iff)
    with writeOutside_keep [OF r(1) ord] r(2) show ?thesis by simp
  qed
  with t m safe show ?thesis by (intro exI [of _ tree] exI [of _ spans]) (auto split: if_splits)
qed

section \<open>Witnesses\<close>

definition echo_pwd :: bytes where
  "echo_pwd = ''echo '' @ [DQ] @ ''$(pwd)'' @ [DQ]"

definition echo_pwd_stmt :: Stmt where
  "echo_pwd_stmt = Stmt (CallExpr [] [lit_word ''echo'',
       Some (Word [DblQuoted [CmdSubst False False [Some (call_at 8 11 [''pwd''])]]] None None)])
     False False False False [] 0 13 None"

definition null_redirect :: Redirect where
  "null_redirect = Redirect RdrOut (Some (''2'', Some 3)) (Some (Word [Lit ''/dev/null''] (Some 5) (Some 14))) False 4 14"

definition safe_parse :: "bytes \<Rightarrow> bytes + ShFile" where
  "safe_parse c =
     (if c = echo_pwd then Inr \<lparr>Stmts = [Some echo_pwd_stmt]\<rparr>
      else if c = ''ls 2>/dev/null''
      then Inr \<lparr>Stmts = [Some (Stmt (CallExpr [] [lit_word ''ls'']) False False False False
             [Some null_redirect] 0 14 None)]\<rparr>
      else Inl ''syntax error'')"

definition safe_shell :: shell where
  "safe_shell = \<lparr>shParse = safe_parse, shWalk = (\<lambda>_. []), shSplitBraces = (\<lambda>w. w)\<rparr>"

theorem ClassifyReadOnlyCommand_sound_witness:
  "ClassifyReadOnlyCommand safe_shell echo_pwd =
     Some (''echo'', [], [''echo'', resolvedSubstitutionPlaceholder]) \<and>
   (\<exists>tree st ws. shParse safe_shell echo_pwd = Inr tree \<and> Stmts tree = [Some st] \<and> plain_call st ws)"
proof -
  have 1: "ClassifyReadOnlyCommand safe_shell echo_pwd =
      Some (''echo'', [], [''echo'', resolvedSubstitutionPlaceholder])" by code_simp
  have "TrimSpace echo_pwd \<noteq> []" by code_simp
  from ClassifyReadOnlyCommand_sound [OF 1 this] 1 show ?thesis by blast
qed

theorem NormalizeBashSafeRedirects_exact_witness:
  "NormalizeBashSafeRedirectsForMatch safe_shell ''ls 2>/dev/null'' = Some ''ls'' \<and>
   (\<exists>tree. shParse safe_shell ''ls 2>/dev/null'' = Inr tree \<and>
      (\<forall>r \<in> set (tree_redirs tree). \<exists>r'. r = Some r' \<and> safeRedirectOp ''ls 2>/dev/null'' r'))"
proof -
  have 1: "NormalizeBashSafeRedirectsForMatch safe_shell ''ls 2>/dev/null'' = Some ''ls''" by code_simp
  from NormalizeBashSafeRedirects_exact [OF 1] 1 show ?thesis by blast
qed

end
