(* ===== verification/Glob.thy ===== *)
theory Glob
  imports GoBase
begin

text \<open>
  \<open>matchGlob\<close> of \<open>internal/permission/permission.go\<close>: the wildcard matcher of permission rules.
  The code keeps two positions and the last star it passed, and backtracks to that star only;
  \<open>globLoop\<close> is its loop with the four variables as arguments. The reference \<open>glob\<close> is the usual
  recursive meaning of a pattern (\<open>*\<close> any run of bytes, \<open>?\<close> one byte), and the lemmas show that
  the loop terminates and computes it: backtracking to the last star is enough.
\<close>

section \<open>Model\<close>

abbreviation (input) STAR :: char where "STAR \<equiv> CHR ''*''"

function globLoop :: "bytes \<Rightarrow> bytes \<Rightarrow> nat \<Rightarrow> nat \<Rightarrow> nat option \<Rightarrow> nat \<Rightarrow> bool" where
  "globLoop pat name px nx star starNx =
     (if nx < length name then
        (if px < length pat \<and> pat ! px = STAR then globLoop pat name (px + 1) nx (Some px) nx
         else if px < length pat \<and> (pat ! px = CHR ''?'' \<or> pat ! px = name ! nx)
         then globLoop pat name (px + 1) (nx + 1) star starNx
         else (case star of
                 Some sp \<Rightarrow> globLoop pat name (sp + 1) (starNx + 1) star (starNx + 1)
               | None \<Rightarrow> False))
      else dropWhile (\<lambda>c. c = STAR) (drop px pat) = [])"
  by pat_completeness auto
termination
  by (relation "measures [\<lambda>(pat, name, px, nx, star, starNx). if nx < starNx then 1 else 0,
        \<lambda>(pat, name, px, nx, star, starNx). length name - starNx,
        \<lambda>(pat, name, px, nx, star, starNx). length pat - px]") auto

declare globLoop.simps [simp del]

definition matchGlob :: "bytes \<Rightarrow> bytes \<Rightarrow> bool" where
  "matchGlob pat name = globLoop pat name 0 0 None 0"

section \<open>The meaning of a pattern\<close>

fun glob :: "bytes \<Rightarrow> bytes \<Rightarrow> bool" where
  "glob [] s = (s = [])"
| "glob (p # ps) s =
     (if p = STAR then glob ps s \<or> (case s of [] \<Rightarrow> False | _ # t \<Rightarrow> glob (p # ps) t)
      else (case s of [] \<Rightarrow> False | c # t \<Rightarrow> (p = CHR ''?'' \<or> p = c) \<and> glob ps t))"

declare glob.simps(2) [simp del]

lemma glob_star_iff: "glob (STAR # ps) s \<longleftrightarrow> (\<exists>k \<le> length s. glob ps (drop k s))"
proof (induction s)
  case (Cons c s)
  have "glob (STAR # ps) (c # s) \<longleftrightarrow> glob ps (c # s) \<or> (\<exists>k \<le> length s. glob ps (drop k s))"
    using Cons by (simp add: glob.simps)
  also have "\<dots> \<longleftrightarrow> (\<exists>k \<le> length (c # s). glob ps (drop k (c # s)))"
    by (metis (no_types, opaque_lifting) Suc_le_mono drop0 drop_Suc_Cons le0 length_Cons nat.exhaust)
  finally show ?case .
qed (simp add: glob.simps)

lemma glob_step: "p \<noteq> STAR \<Longrightarrow> glob (p # ps) (c # s) \<longleftrightarrow> (p = CHR ''?'' \<or> p = c) \<and> glob ps s"
  by (simp add: glob.simps)

lemma glob_Nil_iff: "glob ps [] \<longleftrightarrow> dropWhile (\<lambda>c. c = STAR) ps = []"
  by (induction ps) (auto simp: glob.simps)

text \<open>A run of pattern bytes without a star that matches at a position.\<close>

definition seg_at :: "bytes \<Rightarrow> bytes \<Rightarrow> nat \<Rightarrow> bool" where
  "seg_at seg s k \<longleftrightarrow> k + length seg \<le> length s \<and>
     (\<forall>j < length seg. seg ! j = CHR ''?'' \<or> seg ! j = s ! (k + j))"

lemma glob_seg:
  "STAR \<notin> set seg \<Longrightarrow> glob (seg @ ps) (drop k s) \<longleftrightarrow>
     (k \<le> length s \<and> seg_at seg s k \<or> length s < k \<and> seg = []) \<and> glob ps (drop (k + length seg) s)"
proof (induction seg arbitrary: k)
  case Nil
  then show ?case by (auto simp: seg_at_def)
next
  case (Cons p seg)
  then have p: "p \<noteq> STAR" "STAR \<notin> set seg" by auto
  show ?case
  proof (cases "k < length s")
    case True
    then have d: "drop k s = s ! k # drop (Suc k) s" by (simp add: Cons_nth_drop_Suc)
    have "seg_at (p # seg) s k \<longleftrightarrow> (p = CHR ''?'' \<or> p = s ! k) \<and> seg_at seg s (Suc k)"
      using True by (auto simp: seg_at_def nth_Cons split: nat.splits)
    with True show ?thesis
      by (simp add: d glob_step [OF p(1)] Cons.IH [OF p(2)])
  next
    case False
    then show ?thesis using p(1) by (auto simp: glob.simps seg_at_def)
  qed
qed

section \<open>The loop computes it\<close>

text \<open>What the loop still has to decide, and what it knows of the attempt under way.\<close>

definition pending_match :: "bytes \<Rightarrow> bytes \<Rightarrow> nat \<Rightarrow> nat \<Rightarrow> nat option \<Rightarrow> nat \<Rightarrow> bool" where
  "pending_match pat name px nx star starNx \<longleftrightarrow>
     (case star of
        None \<Rightarrow> glob (drop px pat) (drop nx name)
      | Some sp \<Rightarrow> \<exists>k. starNx \<le> k \<and> k \<le> length name \<and> glob (drop (sp + 1) pat) (drop k name))"

definition attempt :: "bytes \<Rightarrow> bytes \<Rightarrow> nat \<Rightarrow> nat \<Rightarrow> nat option \<Rightarrow> nat \<Rightarrow> bool" where
  "attempt pat name px nx star starNx \<longleftrightarrow> nx \<le> length name \<and> px \<le> length pat \<and>
     (case star of None \<Rightarrow> True
      | Some sp \<Rightarrow> sp < length pat \<and>
          (\<exists>seg. drop (sp + 1) pat = seg @ drop px pat \<and> STAR \<notin> set seg \<and>
             seg_at seg name starNx \<and> nx = starNx + length seg))"

lemma pending_star:
  assumes "drop px pat = STAR # drop (px + 1) pat" "nx \<le> length name"
  shows "pending_match pat name (px + 1) nx (Some px) nx = glob (drop px pat) (drop nx name)"
proof -
  let ?g = "\<lambda>k. glob (drop (px + 1) pat) (drop k name)"
  have "(\<exists>k. nx \<le> k \<and> k \<le> length name \<and> ?g k) \<longleftrightarrow> (\<exists>k \<le> length name - nx. ?g (k + nx))"
  proof
    assume "\<exists>k. nx \<le> k \<and> k \<le> length name \<and> ?g k"
    then obtain k where k: "nx \<le> k" "k \<le> length name" "?g k" by blast
    then have "k - nx + nx = k" "k - nx \<le> length name - nx" by auto
    with k(3) show "\<exists>k \<le> length name - nx. ?g (k + nx)" by metis
  next
    assume "\<exists>k \<le> length name - nx. ?g (k + nx)"
    then obtain k where "k \<le> length name - nx" "?g (k + nx)" by blast
    with assms(2) show "\<exists>k. nx \<le> k \<and> k \<le> length name \<and> ?g k" by (intro exI [of _ "k + nx"]) auto
  qed
  then show ?thesis
    unfolding pending_match_def option.case by (subst assms(1)) (simp add: glob_star_iff)
qed

lemma attempt_star:
  assumes "attempt pat name px nx star starNx" "drop px pat = STAR # drop (px + 1) pat"
  shows "glob (drop px pat) (drop nx name) = pending_match pat name px nx star starNx"
proof (cases star)
  case (Some sp)
  then obtain seg where seg: "drop (sp + 1) pat = seg @ drop px pat" "STAR \<notin> set seg"
      "seg_at seg name starNx" "nx = starNx + length seg"
    using assms(1) by (auto simp: attempt_def)
  have "glob (drop px pat) (drop nx name)"
    if k: "starNx \<le> k" "k \<le> length name" "glob (seg @ drop px pat) (drop k name)" for k
  proof -
    from k(3) have "glob (drop px pat) (drop (k + length seg) name)" by (simp add: glob_seg [OF seg(2)])
    then obtain j where j: "j \<le> length name - (k + length seg)"
        "glob (drop (px + 1) pat) (drop (j + (k + length seg)) name)"
      unfolding assms(2) glob_star_iff drop_drop length_drop by blast
    have e: "j + (k + length seg) = (j + k - starNx) + nx" using k(1) seg(4) by linarith
    have "nx \<le> length name" using assms(1) by (simp add: attempt_def)
    show ?thesis
    proof (cases "k + length seg \<le> length name")
      case True
      with j(1) e have "j + k - starNx \<le> length name - nx" by linarith
      with j(2) have "glob (STAR # drop (px + 1) pat) (drop nx name)"
        unfolding glob_star_iff drop_drop length_drop e by blast
      then show ?thesis using assms(2) by simp
    next
      case False
      with j have "glob (drop (px + 1) pat) []" by simp
      then have "glob (drop (px + 1) pat) (drop ((length name - nx) + nx) name)" by simp
      then have "glob (STAR # drop (px + 1) pat) (drop nx name)"
        unfolding glob_star_iff drop_drop length_drop by blast
      then show ?thesis using assms(2) by simp
    qed
  qed
  moreover have "starNx \<le> length name" using seg(3) by (simp add: seg_at_def)
  ultimately show ?thesis
    using Some seg by (auto simp: pending_match_def glob_seg [OF seg(2)] intro!: exI [of _ starNx])
qed (simp add: pending_match_def)

lemma attempt_step:
  assumes "attempt pat name px nx star starNx" "drop px pat = pat ! px # drop (px + 1) pat"
    "nx < length name" "pat ! px \<noteq> STAR" "pat ! px = CHR ''?'' \<or> pat ! px = name ! nx"
  shows "attempt pat name (px + 1) (nx + 1) star starNx"
proof -
  have px: "px < length pat" using assms(2) by (metis drop_all list.distinct(1) not_le)
  show ?thesis
  proof (cases star)
    case (Some sp)
    then obtain seg where seg: "drop (sp + 1) pat = seg @ drop px pat" "STAR \<notin> set seg"
        "seg_at seg name starNx" "nx = starNx + length seg"
      using assms(1) by (auto simp: attempt_def)
    have "seg_at (seg @ [pat ! px]) name starNx"
      using seg(3,4) assms(3,5) by (auto simp: seg_at_def nth_append less_Suc_eq)
    with seg assms Some px show ?thesis
      by (auto simp: attempt_def intro!: exI [of _ "seg @ [pat ! px]"])
  qed (use assms px in \<open>auto simp: attempt_def\<close>)
qed

lemma attempt_retry:
  assumes "attempt pat name px nx (Some sp) starNx" "\<not> glob (drop px pat) (drop nx name)"
  shows "pending_match pat name (sp + 1) (starNx + 1) (Some sp) (starNx + 1) =
    pending_match pat name px nx (Some sp) starNx"
proof -
  obtain seg where seg: "drop (sp + 1) pat = seg @ drop px pat" "STAR \<notin> set seg"
      "seg_at seg name starNx" "nx = starNx + length seg"
    using assms(1) by (auto simp: attempt_def)
  have "k \<noteq> starNx" if "glob (seg @ drop px pat) (drop k name)" for k
    using that assms(2) seg(4) by (auto simp: glob_seg [OF seg(2)])
  then show ?thesis
    unfolding pending_match_def seg(1) option.case by (metis Suc_eq_plus1 Suc_leD Suc_leI le_neq_implies_less)
qed

lemma globLoop_pending:
  "attempt pat name px nx star starNx \<Longrightarrow>
     globLoop pat name px nx star starNx = pending_match pat name px nx star starNx"
proof (induction pat name px nx star starNx rule: globLoop.induct)
  case (1 pat name px nx star starNx)
  note att = "1.prems"
  show ?case
  proof (cases "nx < length name")
    case False
    then have nx: "nx = length name" using att by (simp add: attempt_def)
    show ?thesis
    proof (cases star)
      case None
      then show ?thesis using nx by (simp add: globLoop.simps pending_match_def glob_Nil_iff)
    next
      case (Some sp)
      then obtain seg where seg: "drop (sp + 1) pat = seg @ drop px pat" "STAR \<notin> set seg"
          "seg_at seg name starNx" "nx = starNx + length seg"
        using att by (auto simp: attempt_def)
      have "(\<exists>k. starNx \<le> k \<and> k \<le> length name \<and> glob (seg @ drop px pat) (drop k name)) \<longleftrightarrow>
          glob (drop px pat) []"
      proof
        assume "\<exists>k. starNx \<le> k \<and> k \<le> length name \<and> glob (seg @ drop px pat) (drop k name)"
        then obtain k where k: "starNx \<le> k" "k \<le> length name" "seg_at seg name k"
            "glob (drop px pat) (drop (k + length seg) name)"
          by (auto simp: glob_seg [OF seg(2)])
        then show "glob (drop px pat) []" using seg(4) nx by simp
      next
        assume g: "glob (drop px pat) []"
        show "\<exists>k. starNx \<le> k \<and> k \<le> length name \<and> glob (seg @ drop px pat) (drop k name)"
          using g seg(3,4) nx by (intro exI [of _ starNx]) (simp add: glob_seg [OF seg(2)])
      qed
      with Some seg(1) nx show ?thesis
        by (simp add: globLoop.simps pending_match_def glob_Nil_iff)
    qed
  next
    case nx: True
    consider (star) "px < length pat" "pat ! px = STAR"
      | (step) "px < length pat" "pat ! px \<noteq> STAR" "pat ! px = CHR ''?'' \<or> pat ! px = name ! nx"
      | (retry) "px \<ge> length pat \<or> pat ! px \<noteq> STAR \<and> pat ! px \<noteq> CHR ''?'' \<and> pat ! px \<noteq> name ! nx"
      by force
    then show ?thesis
    proof cases
      case star
      have p: "drop px pat = STAR # drop (px + 1) pat" using star by (metis Cons_nth_drop_Suc Suc_eq_plus1)
      have "attempt pat name (px + 1) nx (Some px) nx"
        using star nx by (auto simp: attempt_def seg_at_def intro!: exI [of _ "[]"])
      then have "globLoop pat name px nx star starNx = pending_match pat name (px + 1) nx (Some px) nx"
        using "1.IH"(1) nx star by (simp add: globLoop.simps [of pat name px])
      also have "\<dots> = glob (drop px pat) (drop nx name)"
        by (rule pending_star [OF p]) (use nx in simp)
      also have "\<dots> = pending_match pat name px nx star starNx"
        by (rule attempt_star [OF att p])
      finally show ?thesis .
    next
      case step
      have p: "drop px pat = pat ! px # drop (px + 1) pat" using step by (metis Cons_nth_drop_Suc Suc_eq_plus1)
      have n: "drop nx name = name ! nx # drop (nx + 1) name" using nx by (metis Cons_nth_drop_Suc Suc_eq_plus1)
      have "attempt pat name (px + 1) (nx + 1) star starNx"
        by (rule attempt_step [OF att p nx step(2,3)])
      then have "globLoop pat name px nx star starNx = pending_match pat name (px + 1) (nx + 1) star starNx"
        using "1.IH"(2) nx step by (simp add: globLoop.simps [of pat name px])
      also have "\<dots> = pending_match pat name px nx star starNx"
        using step by (cases star) (auto simp: pending_match_def p n glob_step)
      finally show ?thesis .
    next
      case retry
      have fail: "\<not> glob (drop px pat) (drop nx name)"
      proof (cases "px < length pat")
        case True
        have p: "drop px pat = pat ! px # drop (px + 1) pat" using True by (metis Cons_nth_drop_Suc Suc_eq_plus1)
        have n: "drop nx name = name ! nx # drop (nx + 1) name" using nx by (metis Cons_nth_drop_Suc Suc_eq_plus1)
        show ?thesis using True retry by (simp add: p n glob_step)
      qed (use nx in simp)
      show ?thesis
      proof (cases star)
        case None
        with retry nx fail show ?thesis by (auto simp: globLoop.simps [of pat name px] pending_match_def)
      next
        case (Some sp)
        have a: "attempt pat name (sp + 1) (starNx + 1) star (starNx + 1)"
          using att Some nx by (auto simp: attempt_def seg_at_def intro!: exI [of _ "[]"])
        have "globLoop pat name px nx star starNx = pending_match pat name (sp + 1) (starNx + 1) star (starNx + 1)"
          using retry nx Some "1.IH"(3) [OF nx] a by (auto simp: globLoop.simps [of pat name px])
        also have "\<dots> = pending_match pat name px nx star starNx"
          using Some attempt_retry [OF att [unfolded Some] fail] by simp
        finally show ?thesis .
      qed
    qed
  qed
qed

lemma matchGlob_glob: "matchGlob pat name = glob pat name"
  using globLoop_pending [of pat name 0 0 None 0]
  by (simp add: matchGlob_def attempt_def pending_match_def)

lemma glob_literal: "STAR \<notin> set pat \<Longrightarrow> CHR ''?'' \<notin> set pat \<Longrightarrow> glob pat name \<longleftrightarrow> pat = name"
proof (induction pat arbitrary: name)
  case (Cons p ps)
  then show ?case by (cases name) (auto simp: glob.simps)
qed auto

lemma glob_prefix_star:
  assumes "STAR \<notin> set pre" "HasPrefix name pre"
  shows "glob (pre @ [STAR]) name"
proof -
  from assms(2) obtain r where "name = pre @ r" by (auto simp: HasPrefix_iff)
  then show "glob (pre @ [STAR]) name"
    using glob_seg [OF assms(1), of "[STAR]" 0 name] glob_star_iff [of "[]" r]
    by (auto simp: seg_at_def nth_append)
qed

section \<open>Properties\<close>

text \<open>The matcher of permission rules always returns, and it accepts exactly the texts the pattern
  means, star taken as any run of bytes (path separators included) and question mark as any one
  byte: keeping only the last star to backtrack to loses no match.\<close>

theorem matchGlob_correct: "matchGlob pat name = glob pat name"
  by (rule matchGlob_glob)

end
