(* ===== verification/BashApproval.thy ===== *)
theory BashApproval
  imports ShellSafe Glob
begin

text \<open>
  The Bash side of \<open>internal/permission\<close>: \<open>bash_approval.go\<close> (which commands may be approved once
  for all, only as an exact text, or only by a human), \<open>bash_decompose.go\<close> (a compound command as
  its segments) and \<open>bash_readonly.go\<close> (which commands run without a question, and the warning
  labels). JSON decoding of a tool call's arguments is a parameter.

  The classes are linearly ordered, as in the code, and the class of a compound command is shown
  to be the highest class of its segments.
\<close>

section \<open>Approval classes\<close>

datatype bashApprovalClass = bashApprovalReusable | bashApprovalExactOnly | bashApprovalRequireHuman

fun class_rank :: "bashApprovalClass \<Rightarrow> nat" where
  "class_rank bashApprovalReusable = 0"
| "class_rank bashApprovalExactOnly = 1"
| "class_rank bashApprovalRequireHuman = 2"

instantiation bashApprovalClass :: linorder
begin

definition less_eq_bashApprovalClass :: "bashApprovalClass \<Rightarrow> bashApprovalClass \<Rightarrow> bool" where
  "less_eq_bashApprovalClass a b \<longleftrightarrow> class_rank a \<le> class_rank b"

definition less_bashApprovalClass :: "bashApprovalClass \<Rightarrow> bashApprovalClass \<Rightarrow> bool" where
  "less_bashApprovalClass a b \<longleftrightarrow> class_rank a < class_rank b"

instance
proof
  fix a b :: bashApprovalClass
  show "a \<le> b \<Longrightarrow> b \<le> a \<Longrightarrow> a = b"
    by (cases a; cases b) (auto simp: less_eq_bashApprovalClass_def)
qed (auto simp: less_eq_bashApprovalClass_def less_bashApprovalClass_def)

end

definition hasAnyFolded :: "bytes \<Rightarrow> bytes \<Rightarrow> bool" where
  "hasAnyFolded arg cand0 =
     (let lower = ToLower arg; cand = ToLower cand0
      in lower = cand \<or>
         (HasPrefix cand ''--'' \<and> (HasPrefix lower (cand @ ''='') \<or> HasPrefix lower (cand @ '':''))) \<or>
         (HasPrefix cand ''-'' \<and> \<not> HasPrefix cand ''--'' \<and> length cand = 2 \<and>
            HasPrefix lower cand \<and> \<not> HasPrefix lower ''--'') \<or>
         (HasPrefix cand ''/'' \<and> length cand = 2 \<and> HasPrefix lower cand) \<or>
         (length cand > 2 \<and> HasPrefix cand ''-'' \<and> HasPrefix lower (cand @ '':'')))"

definition hasAnyFoldedArg :: "bytes list \<Rightarrow> bytes list \<Rightarrow> bool" where
  "hasAnyFoldedArg args cands = list_ex (\<lambda>arg. list_ex (hasAnyFolded arg) cands) args"

definition isEnvironmentAssignment :: "bytes \<Rightarrow> bool" where
  "isEnvironmentAssignment arg =
     (case Cut arg ''='' of (name, _, ok) \<Rightarrow>
        if \<not> ok \<or> name = [] then False
        else isNameByte True (hd name) \<and> list_all (isNameByte False) (tl name))"

definition executableBase :: "bytes \<Rightarrow> bytes" where
  "executableBase command =
     (let tail = rev (takeWhile (\<lambda>c. c \<noteq> CHR ''/'' \<and> c \<noteq> BSL) (rev command))
      in TrimSuffix (ToLower tail) ''.exe'')"

fun hasShellCommandFlag :: "bytes list \<Rightarrow> bool" where
  "hasShellCommandFlag [] = False"
| "hasShellCommandFlag (arg # args) =
     (let lower = ToLower arg
      in if lower = ''--'' then False
         else if lower = ''--command'' then True
         else if HasPrefix lower ''-'' \<and> \<not> HasPrefix lower ''--'' \<and> CHR ''c'' \<in> set (drop 1 lower) then True
         else hasShellCommandFlag args)"

function isIndirectExecution :: "bytes list \<Rightarrow> bool" where
  "isIndirectExecution flds =
     (case flds of [] \<Rightarrow> True
      | f # args \<Rightarrow>
          (let base = executableBase f
           in if base \<in> {''eval'', ''source'', ''.'', ''xargs''} then True
              else if base = ''env'' then
                (let args' = dropWhile isEnvironmentAssignment args
                 in if args' = [] \<or> HasPrefix (hd args') ''-'' then True else isIndirectExecution args')
              else if base \<in> {''builtin'', ''command'', ''exec'', ''nohup'', ''sudo''} then
                (if args = [] \<or> HasPrefix (hd args) ''-'' then True else isIndirectExecution args)
              else if base \<in> {''bash'', ''dash'', ''fish'', ''ksh'', ''sh'', ''zsh''} then hasShellCommandFlag args
              else if base \<in> {''powershell'', ''pwsh''}
                then hasAnyFoldedArg args [''-c'', ''-command'', ''-e'', ''-enc'', ''-encodedcommand'']
              else if base = ''cmd'' then hasAnyFoldedArg args [''/c'', ''/k'']
              else if base \<in> {''node'', ''bun''} then hasAnyFoldedArg args [''-e'', ''--eval'', ''-p'', ''--print'']
              else if base = ''deno'' then hasAnyFoldedArg args [''eval'']
              else if base \<in> {''python'', ''python3'', ''py'', ''pypy'', ''pypy3''} then hasAnyFoldedArg args [''-c'']
              else if base \<in> {''perl'', ''ruby'', ''lua'', ''luajit'', ''r'', ''rscript'', ''osascript''}
                then hasAnyFoldedArg args [''-e'']
              else if base = ''php'' then hasAnyFoldedArg args [''-r'']
              else if base = ''find'' then hasAnyFoldedArg args [''-exec'', ''-execdir'', ''-ok'', ''-okdir'']
              else False))"
  by pat_completeness auto
termination
  by (relation "measure length") (auto simp: less_Suc_eq_le length_dropWhile_le)

declare isIndirectExecution.simps [simp del]

fun envWrapperLoop :: "bytes list \<Rightarrow> bool" where
  "envWrapperLoop [] = False"
| "envWrapperLoop (arg # args) =
     (if isEnvironmentAssignment arg then True
      else if \<not> HasPrefix arg ''-'' then False
      else envWrapperLoop args)"

definition hasEnvWrapperAssignment :: "bytes list \<Rightarrow> bool" where
  "hasEnvWrapperAssignment flds =
     (if length flds < 2 \<or> executableBase (hd flds) \<noteq> ''env'' then False else envWrapperLoop (tl flds))"

definition normalizeBashSafeRedirectsForMatch :: "shell \<Rightarrow> bytes \<Rightarrow> bytes option" where
  "normalizeBashSafeRedirectsForMatch sh subject = NormalizeBashSafeRedirectsForMatch sh subject"

definition normalized :: "shell \<Rightarrow> bytes \<Rightarrow> bytes" where
  "normalized sh subject =
     (case normalizeBashSafeRedirectsForMatch sh subject of Some s \<Rightarrow> s | None \<Rightarrow> subject)"

definition classifyBashSegmentApproval :: "shell \<Rightarrow> bytes \<Rightarrow> bashApprovalClass" where
  "classifyBashSegmentApproval sh subject0 =
     (let subject = normalized sh subject0
      in case AnalyzeApprovalFeatures sh subject of
           None \<Rightarrow> bashApprovalRequireHuman
         | Some f \<Rightarrow>
             if NestedExecution f \<or> DynamicCommandName f then bashApprovalRequireHuman
             else if CommandPrefix f \<noteq> [] \<and> isIndirectExecution (CommandPrefix f) then bashApprovalRequireHuman
             else if Expansion f \<or> Assignment f \<or> Redirection f \<or> ContainsUnquotedGlob sh subject \<or>
                  hasEnvWrapperAssignment (CommandPrefix f) then bashApprovalExactOnly
             else bashApprovalReusable)"

fun classLoop :: "shell \<Rightarrow> bytes list \<Rightarrow> bashApprovalClass \<Rightarrow> bashApprovalClass" where
  "classLoop sh [] c = c"
| "classLoop sh (s # ss) c =
     (let sc = classifyBashSegmentApproval sh s; c' = (if sc > c then sc else c)
      in if c' = bashApprovalRequireHuman then c' else classLoop sh ss c')"

definition classifyBashApproval :: "shell \<Rightarrow> bytes \<Rightarrow> bashApprovalClass" where
  "classifyBashApproval sh subject =
     (if TrimSpace subject = [] then bashApprovalReusable
      else case SplitTopLevel sh subject of
             None \<Rightarrow> classifyBashSegmentApproval sh subject
           | Some (segments, _) \<Rightarrow>
               if segments = [] then bashApprovalRequireHuman
               else classLoop sh segments bashApprovalReusable)"

definition BashSubjectRequiresExplicitApproval :: "shell \<Rightarrow> bytes \<Rightarrow> bool" where
  "BashSubjectRequiresExplicitApproval sh subject = (classifyBashApproval sh subject = bashApprovalRequireHuman)"

definition bashSubjectRequiresExactRule :: "shell \<Rightarrow> bytes \<Rightarrow> bool" where
  "bashSubjectRequiresExactRule sh subject = (classifyBashApproval sh subject \<noteq> bashApprovalReusable)"

text \<open>\<open>None\<close> is the nil slice: fall back to matching the whole text.\<close>

definition DecomposeBashCommand :: "shell \<Rightarrow> bytes \<Rightarrow> bytes list option" where
  "DecomposeBashCommand sh cmd =
     (case SplitTopLevel sh cmd of
        None \<Rightarrow> None
      | Some (segs, split) \<Rightarrow> if \<not> split \<or> length segs < 2 then None else Some segs)"

section \<open>Read-only commands\<close>

definition hasArgWithPrefix :: "bytes list \<Rightarrow> bytes \<Rightarrow> bool" where
  "hasArgWithPrefix args prefix = list_ex (\<lambda>a. HasPrefix a prefix) args"

definition hasAnyArg :: "bytes list \<Rightarrow> bytes list \<Rightarrow> bool" where
  "hasAnyArg args unsafe = list_ex (\<lambda>a. a \<in> set unsafe) args"

definition hasUnsafeReadOnlyArgs :: "bytes \<Rightarrow> bytes list \<Rightarrow> bool" where
  "hasUnsafeReadOnlyArgs base args =
     (if base = ''find'' then hasAnyArg args [''-exec'', ''-execdir'', ''-delete'', ''-ok'', ''-okdir'',
           ''-fls'', ''-fprint'', ''-fprint0'', ''-fprintf'']
      else if base = ''sed'' then list_ex (\<lambda>a. HasPrefix a ''-i'' \<or> HasPrefix a ''--in-place'') args
      else if base = ''sort'' then hasArgWithPrefix args ''-o'' \<or> hasAnyArg args [''--output''] \<or>
           hasArgWithPrefix args ''--output=''
      else False)"

text \<open>The loop of \<open>gitTagIsListing\<close>: \<open>listing\<close> seen so far, and the operands.\<close>

fun gitTagLoop :: "bytes list \<Rightarrow> bool \<Rightarrow> bytes list \<Rightarrow> bool" where
  "gitTagLoop [] listing operands = (if listing then True else operands = [])"
| "gitTagLoop (arg # args) listing operands =
     (if arg = ''-l'' \<or> arg = ''--list'' then gitTagLoop args True operands
      else if arg \<in> {''-d'', ''--delete'', ''-a'', ''-s'', ''-f'', ''--force'', ''-m'', ''-F''} then False
      else if HasPrefix arg ''-'' then gitTagLoop args listing operands
      else gitTagLoop args listing (operands @ [arg]))"

definition gitTagIsListing :: "bytes list \<Rightarrow> bool" where
  "gitTagIsListing args = gitTagLoop args False []"

definition hasUnsafePrefixArgs :: "bytes \<Rightarrow> bytes \<Rightarrow> bytes list \<Rightarrow> bool" where
  "hasUnsafePrefixArgs base subcmd args =
     (if base = ''git'' then
        (if subcmd \<in> {''diff'', ''show'', ''log''}
         then hasAnyArg args [''--output''] \<or> hasArgWithPrefix args ''--output=''
         else if subcmd = ''tag'' then \<not> gitTagIsListing args else False)
      else if base = ''go'' then (if subcmd = ''env'' then hasAnyArg args [''-w'', ''-u''] else False)
      else False)"

definition isReadOnlyBashSubject :: "shell \<Rightarrow> bytes \<Rightarrow> bool" where
  "isReadOnlyBashSubject sh subject0 =
     (case ClassifyReadOnlyCommand sh (normalized sh subject0) of
        None \<Rightarrow> False
      | Some (base, sub, flds) \<Rightarrow>
          if sub = [] then \<not> hasUnsafeReadOnlyArgs base (drop 1 flds)
          else \<not> hasUnsafePrefixArgs base sub (drop 2 flds))"

record BashArgs =
  bCommand :: bytes
  bRunInBackground :: bool
  bPreserveBackgroundProcesses :: bool

definition BashCommandIsReadOnly :: "shell \<Rightarrow> (bytes \<Rightarrow> BashArgs option) \<Rightarrow> bytes \<Rightarrow> bool" where
  "BashCommandIsReadOnly sh decode args =
     (case decode args of
        None \<Rightarrow> False
      | Some p \<Rightarrow>
          if TrimSpace (bCommand p) = [] then False
          else if bRunInBackground p \<or> bPreserveBackgroundProcesses p then False
          else isReadOnlyBashSubject sh (bCommand p))"

definition containsShellSyntax :: "shell \<Rightarrow> bytes \<Rightarrow> bool" where
  "containsShellSyntax sh cmd = ContainsShellSyntax sh cmd"

section \<open>Warnings\<close>

definition dangerousBashPatterns :: "(bytes \<times> bytes) list" where
  "dangerousBashPatterns =
     [(''rm -rf*'', ''recursive delete''),
      (''rm -r *'', ''recursive delete''),
      (''rm -fr*'', ''recursive delete''),
      (''git push*--force*'', ''force push''),
      (''git push*-f*'', ''force push''),
      (''git reset --hard*'', ''hard reset''),
      (''git clean -f*'', ''force clean''),
      (''git restore*'', ''discards uncommitted changes''),
      (''git checkout -- *'', ''discards uncommitted changes''),
      (''git checkout .*'', ''discards uncommitted changes''),
      (''git stash drop*'', ''drops stashed changes''),
      (''git stash clear*'', ''drops stashed changes''),
      (''chmod 777*'', ''world-writable''),
      (''chmod -R 777*'', ''world-writable recursive''),
      (''chown *'', ''ownership change''),
      (''sudo *'', ''superuser''),
      (''mkfs*'', ''filesystem format''),
      (''dd if=*'', ''raw device write''),
      (''fdisk*'', ''partition table''),
      (''> /dev/*'', ''device overwrite'')]"

definition BashDangerWarning :: "bytes \<Rightarrow> bytes" where
  "BashDangerWarning subject =
     (case find (\<lambda>(pat, label). matchGlob pat (TrimSpace subject)) dangerousBashPatterns of
        Some (_, label) \<Rightarrow> label | None \<Rightarrow> [])"

end
