(* ===== verification/Permission.thy ===== *)
theory Permission
  imports BashApproval
begin

text \<open>
  \<open>internal/permission/permission.go\<close>: whether a tool call is allowed, denied or needs a human.
  \<open>Policy\<close> is the pure rule table, \<open>DecideSubject\<close> its decision for one subject, \<open>DecideSubjects\<close>
  for all subjects of a call; \<open>Check\<close> is what the agent consults, with an optional approver.

  A compound Bash command is decided segment by segment, and a segment is decided like a command,
  so the code recurses on the text the parser returns. \<open>decideF\<close> takes the number of nested calls
  it may make; \<open>DecideSubject\<close> gives it the length of the subject, which is enough for every parser
  whose segments are shorter than the command they come from (\<open>splits_shrink\<close>). \<^const>\<open>None\<close> is
  the call that does not return. JSON decoding is a parameter: the string values of an object.
\<close>

section \<open>Decisions\<close>

datatype Decision = Allow | Ask | Deny

fun decision_rank :: "Decision \<Rightarrow> nat" where
  "decision_rank Allow = 0" | "decision_rank Ask = 1" | "decision_rank Deny = 2"

instantiation Decision :: linorder
begin

definition less_eq_Decision :: "Decision \<Rightarrow> Decision \<Rightarrow> bool" where
  "less_eq_Decision a b \<longleftrightarrow> decision_rank a \<le> decision_rank b"

definition less_Decision :: "Decision \<Rightarrow> Decision \<Rightarrow> bool" where
  "less_Decision a b \<longleftrightarrow> decision_rank a < decision_rank b"

instance
proof
  fix a b :: Decision
  show "a \<le> b \<Longrightarrow> b \<le> a \<Longrightarrow> a = b"
    by (cases a; cases b) (auto simp: less_eq_Decision_def)
qed (auto simp: less_eq_Decision_def less_Decision_def)

end

fun decision_String :: "Decision \<Rightarrow> bytes" where
  "decision_String Allow = ''allow''" | "decision_String Ask = ''ask''" | "decision_String Deny = ''deny''"

definition ParseDecision :: "bytes \<Rightarrow> Decision" where
  "ParseDecision s =
     (let t = ToLower (TrimSpace s)
      in if t = ''allow'' then Allow else if t = ''deny'' then Deny else Ask)"

section \<open>Rules\<close>

record Rule =
  rTool :: bytes
  rSubject :: bytes
  rLiteral :: bool

abbreviation (input) LPAREN :: char where "LPAREN \<equiv> CHR ''(''"
abbreviation (input) EQUALS :: char where "EQUALS \<equiv> CHR ''=''"

definition parenRule :: "bytes \<Rightarrow> Rule option" where
  "parenRule s =
     (case IndexByte s LPAREN of
        Some i \<Rightarrow>
          if HasSuffix s '')''
          then (let tool = TrimSpace (take i s)
                in if tool = [] then None
                   else Some \<lparr>rTool = tool, rSubject = take (length s - 1 - (i + 1)) (drop (i + 1) s), rLiteral = False\<rparr>)
          else Some \<lparr>rTool = s, rSubject = [], rLiteral = False\<rparr>
      | None \<Rightarrow> Some \<lparr>rTool = s, rSubject = [], rLiteral = False\<rparr>)"

definition ParseRule :: "bytes \<Rightarrow> Rule option" where
  "ParseRule s0 =
     (let s = TrimSpace s0
      in if s = [] then None
         else (case IndexByte s EQUALS of
                 Some eq \<Rightarrow>
                   if 0 < eq \<and> (case IndexByte s LPAREN of None \<Rightarrow> True | Some paren \<Rightarrow> eq < paren)
                   then (let tool = TrimSpace (take eq s)
                         in if tool = [] then None
                            else Some \<lparr>rTool = tool, rSubject = drop (eq + 1) s, rLiteral = True\<rparr>)
                   else parenRule s
               | None \<Rightarrow> parenRule s))"

definition legacyBarePowerShellDenyCmdlet :: "bytes \<Rightarrow> bytes option" where
  "legacyBarePowerShellDenyCmdlet s =
     (let t = ToLower (TrimSpace s)
      in if t = ''set-content'' then Some ''Set-Content''
         else if t = ''add-content'' then Some ''Add-Content''
         else if t = ''out-file'' then Some ''Out-File''
         else None)"

definition parseRules :: "bytes list \<Rightarrow> Rule list" where
  "parseRules ss = List.map_filter ParseRule ss"

definition parseDenyRules :: "bytes list \<Rightarrow> Rule list" where
  "parseDenyRules ss =
     concat (map (\<lambda>s. case ParseRule s of
         None \<Rightarrow> []
       | Some r \<Rightarrow>
           r # (if rSubject r = []
                then (case legacyBarePowerShellDenyCmdlet (rTool r) of
                        Some cmdlet \<Rightarrow> [\<lparr>rTool = ''Bash'', rSubject = cmdlet @ '':*'', rLiteral = False\<rparr>]
                      | None \<Rightarrow> [])
                else [])) ss)"

definition ruleConfigString :: "Rule \<Rightarrow> bytes" where
  "ruleConfigString r =
     (if rSubject r = [] then rTool r
      else if rLiteral r then rTool r @ ''='' @ rSubject r
      else rTool r @ ''('' @ rSubject r @ '')'')"

definition hasGlobMeta :: "bytes \<Rightarrow> bool" where
  "hasGlobMeta s = (CHR ''*'' \<in> set s \<or> CHR ''?'' \<in> set s)"

definition IsFileMutationTool :: "bytes \<Rightarrow> bool" where
  "IsFileMutationTool t = (t \<in> {''write_file'', ''edit_file'', ''multi_edit'', ''move_file'', ''notebook_edit'',
     ''delete_range'', ''delete_symbol''})"

definition canonicalRuleTool :: "bytes \<Rightarrow> bytes" where
  "canonicalRuleTool t =
     (let s = TrimSpace t
      in if s \<in> {''Bash'', ''bash''} then ''bash''
         else if s \<in> {''Edit'', ''edit'', ''file_mutation''} then ''file_mutation''
         else t)"

definition ruleToolMatches :: "bytes \<Rightarrow> bytes \<Rightarrow> bool" where
  "ruleToolMatches ruleTool toolName =
     (let r = canonicalRuleTool ruleTool
      in r = toolName \<or> (r = ''file_mutation'' \<and> IsFileMutationTool toolName))"

definition ruleToolCompatible :: "bytes \<Rightarrow> bytes \<Rightarrow> bool" where
  "ruleToolCompatible existingTool candidateTool =
     (let e = canonicalRuleTool existingTool; c = canonicalRuleTool candidateTool
      in e = c \<or> (e = ''file_mutation'' \<and> (c = ''file_mutation'' \<or> IsFileMutationTool c)))"

definition bashColonPrefixBase :: "bytes \<Rightarrow> bytes option" where
  "bashColonPrefixBase pat =
     (if \<not> HasSuffix pat '':*'' then None
      else (let base = TrimSuffix pat '':*'' in if base \<noteq> [] then Some base else None))"

definition legacyBashSpaceStarPrefixBase :: "bytes \<Rightarrow> bytes option" where
  "legacyBashSpaceStarPrefixBase pat =
     (if \<not> HasSuffix pat '' *'' then None
      else (let base = TrimSuffix pat '' *'' in if base \<noteq> [] then Some base else None))"

definition bashPrefixBase :: "bytes \<Rightarrow> bytes option" where
  "bashPrefixBase pat =
     (case bashColonPrefixBase pat of Some b \<Rightarrow> Some b | None \<Rightarrow> legacyBashSpaceStarPrefixBase pat)"

definition bashPrefixMatches :: "shell \<Rightarrow> bytes \<Rightarrow> bytes \<Rightarrow> bool" where
  "bashPrefixMatches sh base subject0 =
     (case StaticFields sh (normalized sh subject0) of
        (flds, malformed) \<Rightarrow>
          if malformed \<noteq> [] then False
          else (case StaticFields sh base of
                  (baseFields, malformed') \<Rightarrow>
                    if malformed' \<noteq> [] \<or> baseFields = [] \<or> length flds < length baseFields then False
                    else list_all (\<lambda>(want, got). got = want) (zip baseFields flds)))"

definition ruleSubjectMatches :: "shell \<Rightarrow> Rule \<Rightarrow> bytes \<Rightarrow> bool" where
  "ruleSubjectMatches sh rule subject =
     (if rSubject rule = [] then True
      else if subject = [] then False
      else if rLiteral rule then rSubject rule = subject
      else if canonicalRuleTool (rTool rule) = ''bash'' then
        (case bashColonPrefixBase (rSubject rule) of
           Some base \<Rightarrow> bashPrefixMatches sh base subject
         | None \<Rightarrow>
             (case legacyBashSpaceStarPrefixBase (rSubject rule) of
                Some base \<Rightarrow> bashPrefixMatches sh base subject
              | None \<Rightarrow> matchGlob (rSubject rule) subject))
      else matchGlob (rSubject rule) subject)"

definition isCaseInsensitivePowerShellCmdlet :: "bytes \<Rightarrow> bool" where
  "isCaseInsensitivePowerShellCmdlet s = (legacyBarePowerShellDenyCmdlet s \<noteq> None)"

definition rawFieldsMatch :: "bytes list \<Rightarrow> bytes list \<Rightarrow> bool" where
  "rawFieldsMatch baseFields prefix =
     list_all (\<lambda>(i, want, got). got = want \<or>
        (i = 0 \<and> isCaseInsensitivePowerShellCmdlet want \<and> EqualFold got want))
       (zip [0..<length baseFields] (zip baseFields prefix))"

definition rawTextMatches :: "bytes \<Rightarrow> bytes \<Rightarrow> bool" where
  "rawTextMatches base0 subject0 =
     (let base = TrimSpace base0; subject = TrimSpace subject0; ci = isCaseInsensitivePowerShellCmdlet base
      in if subject = base \<or> (ci \<and> EqualFold subject base) then True
         else if length subject \<le> length base then False
         else (let prefixMatches = (if ci then EqualFold (take (length base) subject) base
                                    else HasPrefix subject base)
               in prefixMatches \<and> subject ! length base \<in> {CHR '' '', TAB, CR, LF}))"

definition rawBashPrefixMatches :: "shell \<Rightarrow> bytes \<Rightarrow> bytes \<Rightarrow> bool" where
  "rawBashPrefixMatches sh base subject =
     ((case StaticFields sh base of
         (baseFields, malformed) \<Rightarrow>
           malformed = [] \<and> baseFields \<noteq> [] \<and>
           (case AnalyzeApprovalFeatures sh subject of
              None \<Rightarrow> False
            | Some f \<Rightarrow> length (CommandPrefix f) \<ge> length baseFields \<and>
                rawFieldsMatch baseFields (CommandPrefix f))) \<or>
      rawTextMatches base subject)"

definition rawRuleSubjectMatches :: "shell \<Rightarrow> Rule \<Rightarrow> bytes \<Rightarrow> bool" where
  "rawRuleSubjectMatches sh rule subject =
     (if rLiteral rule then rSubject rule = subject
      else if canonicalRuleTool (rTool rule) = ''bash'' then
        (case bashPrefixBase (rSubject rule) of
           Some base \<Rightarrow> rawBashPrefixMatches sh base subject
         | None \<Rightarrow> matchGlob (rSubject rule) subject)
      else matchGlob (rSubject rule) subject)"

definition ruleHits :: "(Rule \<Rightarrow> bytes \<Rightarrow> bool) \<Rightarrow> Rule \<Rightarrow> bytes \<Rightarrow> bytes \<Rightarrow> bool" where
  "ruleHits m r toolName subject =
     (ruleToolMatches (rTool r) toolName \<and> (rSubject r = [] \<or> subject \<noteq> [] \<and> m r subject))"

definition matchAny :: "shell \<Rightarrow> Rule list \<Rightarrow> bytes \<Rightarrow> bytes \<Rightarrow> bool" where
  "matchAny sh rules toolName subject = list_ex (\<lambda>r. ruleHits (ruleSubjectMatches sh) r toolName subject) rules"

definition matchAnyRaw :: "shell \<Rightarrow> Rule list \<Rightarrow> bytes \<Rightarrow> bytes \<Rightarrow> bool" where
  "matchAnyRaw sh rules toolName subject = list_ex (\<lambda>r. ruleHits (rawRuleSubjectMatches sh) r toolName subject) rules"

definition firstMatchingRule :: "shell \<Rightarrow> Rule list \<Rightarrow> bytes \<Rightarrow> bytes \<Rightarrow> bool \<Rightarrow> Rule option" where
  "firstMatchingRule sh rules toolName subject raw =
     find (\<lambda>r. ruleHits (if raw then rawRuleSubjectMatches sh else ruleSubjectMatches sh) r toolName subject) rules"

definition matchAnyExact :: "Rule list \<Rightarrow> bytes \<Rightarrow> bytes \<Rightarrow> bool" where
  "matchAnyExact rules toolName subject =
     (if subject = [] then False
      else list_ex (\<lambda>r. ruleToolMatches (rTool r) toolName \<and> rSubject r \<noteq> [] \<and>
             rSubject r = subject \<and> (rLiteral r \<or> \<not> hasGlobMeta (rSubject r))) rules)"

definition matchAnyAllow :: "shell \<Rightarrow> Rule list \<Rightarrow> bytes \<Rightarrow> bytes \<Rightarrow> bool" where
  "matchAnyAllow sh rules toolName subject =
     (if matchAnyExact rules toolName subject then True
      else if canonicalRuleTool toolName = ''bash'' \<and> bashSubjectRequiresExactRule sh subject then False
      else matchAny sh rules toolName subject)"

definition RuleMatchesString :: "shell \<Rightarrow> bytes \<Rightarrow> bytes \<Rightarrow> bytes \<Rightarrow> bool" where
  "RuleMatchesString sh rule toolName subject =
     (case ParseRule rule of None \<Rightarrow> False | Some r \<Rightarrow> matchAnyAllow sh [r] toolName subject)"

definition bashRulePrefixBaseMatches :: "Rule \<Rightarrow> Rule \<Rightarrow> bool" where
  "bashRulePrefixBaseMatches existing candidate =
     (if canonicalRuleTool (rTool existing) \<noteq> ''bash'' \<or> canonicalRuleTool (rTool candidate) \<noteq> ''bash'' then False
      else (case bashPrefixBase (rSubject existing) of
              None \<Rightarrow> False
            | Some e \<Rightarrow> bashPrefixBase (rSubject candidate) = Some e))"

definition RuleCoversString :: "shell \<Rightarrow> bytes \<Rightarrow> bytes \<Rightarrow> bool" where
  "RuleCoversString sh existing candidate =
     (case (ParseRule existing, ParseRule candidate) of
        (Some a, Some b) \<Rightarrow>
          if \<not> ruleToolCompatible (rTool a) (rTool b) then False
          else if rSubject b = [] then rSubject a = []
          else if canonicalRuleTool (rTool b) = ''bash'' \<and> (rLiteral b \<or> \<not> hasGlobMeta (rSubject b)) \<and>
                  bashSubjectRequiresExactRule sh (rSubject b)
               then matchAnyExact [a] (canonicalRuleTool (rTool b)) (rSubject b)
          else if rSubject a = [] then True
          else if bashRulePrefixBaseMatches a b then True
          else if rLiteral b \<or> \<not> hasGlobMeta (rSubject b) then ruleSubjectMatches sh a (rSubject b)
          else \<not> rLiteral a \<and> rSubject a = rSubject b
      | _ \<Rightarrow> False)"

section \<open>Policy\<close>

record Policy =
  Mode :: Decision
  pAllow :: "Rule list"
  pAsk :: "Rule list"
  pDeny :: "Rule list"
  SessionAllow :: "Rule list"
  AllowDynamicBash :: bool

definition WithSessionAllow :: "Policy \<Rightarrow> bytes list \<Rightarrow> Policy" where
  "WithSessionAllow p rules = p\<lparr>SessionAllow := SessionAllow p @ parseRules rules\<rparr>"

definition WithAllowDynamicBashFallback :: "Policy \<Rightarrow> bool \<Rightarrow> Policy" where
  "WithAllowDynamicBashFallback p enabled = p\<lparr>AllowDynamicBash := enabled\<rparr>"

definition New :: "bytes \<Rightarrow> bytes list \<Rightarrow> bytes list \<Rightarrow> bytes list \<Rightarrow> Policy" where
  "New mode allow ask deny =
     \<lparr>Mode = ParseDecision mode, pAllow = parseRules allow, pAsk = parseRules ask,
      pDeny = parseDenyRules deny, SessionAllow = [], AllowDynamicBash = False\<rparr>"

text \<open>The loop over segments or subjects: Deny at once, Ask remembered.\<close>

fun worstOf :: "('a \<Rightarrow> Decision option) \<Rightarrow> 'a list \<Rightarrow> Decision \<Rightarrow> Decision option" where
  "worstOf f [] acc = Some acc"
| "worstOf f (x # xs) acc =
     (case f x of
        None \<Rightarrow> None
      | Some Deny \<Rightarrow> Some Deny
      | Some Ask \<Rightarrow> worstOf f xs Ask
      | Some Allow \<Rightarrow> worstOf f xs acc)"

definition decideBashSegments ::
  "shell \<Rightarrow> (bytes \<Rightarrow> bool \<Rightarrow> bytes \<Rightarrow> Decision option) \<Rightarrow> bool \<Rightarrow> bytes list \<Rightarrow> Decision option" where
  "decideBashSegments sh decide readOnly parts =
     worstOf (\<lambda>sub. decide ''bash'' (readOnly \<or> isReadOnlyBashSubject sh sub) sub) parts Allow"

definition decidePlain :: "shell \<Rightarrow> Policy \<Rightarrow> bytes \<Rightarrow> bool \<Rightarrow> bytes \<Rightarrow> Decision" where
  "decidePlain sh p toolName readOnly subject =
     (if matchAny sh (pDeny p) toolName subject then Deny
      else if matchAny sh (SessionAllow p) toolName subject then Allow
      else if matchAny sh (pAsk p) toolName subject then Ask
      else if matchAny sh (pAllow p) toolName subject then Allow
      else if readOnly then Allow
      else Mode p)"

definition decideBash ::
  "shell \<Rightarrow> Policy \<Rightarrow> (bytes \<Rightarrow> bool \<Rightarrow> bytes \<Rightarrow> Decision option) \<Rightarrow> bytes \<Rightarrow> bool \<Rightarrow> bytes \<Rightarrow> Decision option" where
  "decideBash sh p decide toolName readOnly subject =
     (let approvalClass = classifyBashApproval sh subject;
          requiresExact = (approvalClass \<noteq> bashApprovalReusable);
          requiresHuman = (approvalClass = bashApprovalRequireHuman);
          parts = DecomposeBashCommand sh subject
      in if matchAnyRaw sh (pDeny p) toolName subject then Some Deny
         else if matchAnyExact (SessionAllow p) toolName subject then Some Allow
         else if \<not> requiresExact \<and> parts = None \<and> matchAnyAllow sh (SessionAllow p) toolName subject then Some Allow
         else if matchAnyRaw sh (pAsk p) toolName subject then Some Ask
         else if matchAnyExact (pAllow p) toolName subject then Some Allow
         else (case parts of
                 Some ps \<Rightarrow> decideBashSegments sh decide readOnly ps
               | None \<Rightarrow>
                   if requiresHuman \<and> Mode p = Deny then Some Deny
                   else if requiresHuman \<and> AllowDynamicBash p \<and> Mode p = Allow then Some Allow
                   else if requiresHuman then Some Ask
                   else if requiresExact \<and> readOnly then Some Allow
                   else if requiresExact then Some (Mode p)
                   else if matchAnyAllow sh (pAllow p) toolName subject then Some Allow
                   else if readOnly then Some Allow
                   else Some (Mode p)))"

fun decideF :: "nat \<Rightarrow> shell \<Rightarrow> Policy \<Rightarrow> bytes \<Rightarrow> bool \<Rightarrow> bytes \<Rightarrow> Decision option" where
  "decideF 0 sh p toolName readOnly subject = None"
| "decideF (Suc n) sh p toolName readOnly subject =
     (if canonicalRuleTool toolName = ''bash''
      then decideBash sh p (decideF n sh p) toolName readOnly subject
      else Some (decidePlain sh p toolName readOnly subject))"

definition DecideSubject :: "shell \<Rightarrow> Policy \<Rightarrow> bytes \<Rightarrow> bool \<Rightarrow> bytes \<Rightarrow> Decision option" where
  "DecideSubject sh p toolName readOnly subject = decideF (Suc (length subject)) sh p toolName readOnly subject"

definition DecideSubjects :: "shell \<Rightarrow> Policy \<Rightarrow> bytes \<Rightarrow> bool \<Rightarrow> bytes list \<Rightarrow> Decision option" where
  "DecideSubjects sh p toolName readOnly subjects =
     (if subjects = [] then DecideSubject sh p toolName readOnly []
      else worstOf (DecideSubject sh p toolName readOnly) subjects Allow)"

subsection \<open>Subjects of a call\<close>

definition subjectKeys :: "bytes list" where
  "subjectKeys = [''command'', ''file_path'', ''path'', ''source_path'', ''destination_path'', ''pattern'']"

type_synonym json_strings = "bytes \<Rightarrow> (bytes \<Rightarrow> bytes option) option"

definition stringArg :: "(bytes \<Rightarrow> bytes option) \<Rightarrow> bytes \<Rightarrow> bytes" where
  "stringArg m key = (case m key of Some s \<Rightarrow> s | None \<Rightarrow> [])"

definition Subjects :: "json_strings \<Rightarrow> bytes \<Rightarrow> bytes list" where
  "Subjects js args =
     (if args = [] then []
      else case js args of
             None \<Rightarrow> []
           | Some m \<Rightarrow>
               (let src = stringArg m ''source_path''; dst = stringArg m ''destination_path''
                in if src \<noteq> [] \<and> dst \<noteq> [] then (if dst \<noteq> src then [src, dst] else [src])
                   else (case find (\<lambda>k. stringArg m k \<noteq> []) subjectKeys of
                           Some k \<Rightarrow> [stringArg m k] | None \<Rightarrow> [])))"

definition Subject :: "json_strings \<Rightarrow> bytes \<Rightarrow> bytes" where
  "Subject js args = (case Subjects js args of s # _ \<Rightarrow> s | [] \<Rightarrow> [])"

definition Decide :: "shell \<Rightarrow> json_strings \<Rightarrow> Policy \<Rightarrow> bytes \<Rightarrow> bool \<Rightarrow> bytes \<Rightarrow> Decision option" where
  "Decide sh js p toolName readOnly args = DecideSubjects sh p toolName readOnly (Subjects js args)"

definition orBlank :: "bytes list \<Rightarrow> bytes list" where
  "orBlank subjects = (if subjects = [] then [[]] else subjects)"

definition ExplicitlyDenies :: "shell \<Rightarrow> json_strings \<Rightarrow> Policy \<Rightarrow> bytes \<Rightarrow> bytes \<Rightarrow> bool" where
  "ExplicitlyDenies sh js p toolName args =
     list_ex (matchAnyRaw sh (pDeny p) toolName) (orBlank (Subjects js args))"

fun matchedLoop ::
  "shell \<Rightarrow> Policy \<Rightarrow> Rule list \<Rightarrow> bool \<Rightarrow> bytes \<Rightarrow> Decision \<Rightarrow> bytes list \<Rightarrow> bytes option" where
  "matchedLoop sh p rules raw toolName d [] = None"
| "matchedLoop sh p rules raw toolName d (c # cs) =
     (if DecideSubject sh p toolName False c \<noteq> Some d then matchedLoop sh p rules raw toolName d cs
      else (case firstMatchingRule sh rules toolName c raw of
              Some rule \<Rightarrow> Some (ruleConfigString rule)
            | None \<Rightarrow> matchedLoop sh p rules raw toolName d cs))"

definition MatchedRule :: "shell \<Rightarrow> json_strings \<Rightarrow> Policy \<Rightarrow> bytes \<Rightarrow> Decision \<Rightarrow> bytes \<Rightarrow> bytes option" where
  "MatchedRule sh js p toolName d args =
     (if d = Allow then None
      else (let rules = (if d = Ask then pAsk p else pDeny p);
                raw = (canonicalRuleTool toolName = ''bash'');
                candidates = (\<lambda>s. s # (if raw then (case DecomposeBashCommand sh s of Some ps \<Rightarrow> ps | None \<Rightarrow> []) else []))
            in matchedLoop sh p rules raw toolName d (concat (map candidates (orBlank (Subjects js args))))))"

subsection \<open>Remembered rules\<close>

definition isPackageManagerRun :: "bytes \<Rightarrow> bool" where
  "isPackageManagerRun base = (base \<in> {''npm'', ''pnpm'', ''yarn'', ''bun''})"

definition BashCommandPrefix :: "shell \<Rightarrow> bytes \<Rightarrow> bytes" where
  "BashCommandPrefix sh subject =
     (let cmd = TrimSpace subject
      in if cmd = [] \<or> containsShellSyntax sh cmd \<or> bashSubjectRequiresExactRule sh cmd then []
         else if BashDangerWarning cmd \<noteq> [] then []
         else (case StaticFields sh cmd of
                 (flds, malformed) \<Rightarrow>
                   if malformed \<noteq> [] then []
                   else (case flds of
                           a # b # rest \<Rightarrow>
                             if isPackageManagerRun (ToLower a) \<and> rest \<noteq> [] \<and> ToLower b = ''run''
                             then a @ '' '' @ b @ '' '' @ hd rest @ '':*''
                             else a @ '' '' @ b @ '':*''
                         | _ \<Rightarrow> [])))"

definition RememberRuleForScope :: "shell \<Rightarrow> bytes \<Rightarrow> bytes \<Rightarrow> bytes" where
  "RememberRuleForScope sh toolName subject0 =
     (let subject = TrimSpace subject0
      in if subject \<noteq> [] \<and> toolName = ''bash''
         then (let pat = BashCommandPrefix sh subject
               in if pat \<noteq> [] then ''Bash('' @ pat @ '')'' else ''Bash='' @ subject)
         else if IsFileMutationTool toolName then ''Edit''
         else toolName)"

definition rememberRule :: "shell \<Rightarrow> bytes \<Rightarrow> bytes \<Rightarrow> bytes" where
  "rememberRule sh toolName subject = RememberRuleForScope sh toolName subject"

definition SessionGrantRuleForScope :: "shell \<Rightarrow> bytes \<Rightarrow> bytes \<Rightarrow> bytes" where
  "SessionGrantRuleForScope sh toolName subject0 =
     (let subject = TrimSpace subject0
      in if toolName = ''bash'' \<and> subject \<noteq> []
         then (let pat = BashCommandPrefix sh subject
               in if pat \<noteq> [] then ''Bash('' @ pat @ '')'' else ''Bash='' @ subject)
         else if IsFileMutationTool toolName then ''Edit''
         else toolName)"

definition SessionGrantKey :: "shell \<Rightarrow> bytes \<Rightarrow> bytes \<Rightarrow> bytes" where
  "SessionGrantKey sh toolName subject = SessionGrantRuleForScope sh toolName subject"

section \<open>The gate\<close>

text \<open>
  An approver answers \<open>(allow, remember, reason, error)\<close>; the three interfaces of the code differ
  in what they are told and what they return. \<open>remembered\<close> records the calls of \<open>OnRemember\<close>,
  if the callback is set.
\<close>

datatype Approver =
    PolicyReasonedApprover "bytes \<Rightarrow> bytes \<Rightarrow> bytes \<Rightarrow> bytes \<Rightarrow> bool \<times> bool \<times> bytes \<times> bytes option"
  | ReasonedApprover "bytes \<Rightarrow> bytes \<Rightarrow> bytes \<Rightarrow> bool \<times> bool \<times> bytes \<times> bytes option"
  | PlainApprover "bytes \<Rightarrow> bytes \<Rightarrow> bytes \<Rightarrow> bool \<times> bool \<times> bytes option"

record PermGate =
  gPolicy :: Policy
  gApprover :: "Approver option"
  gOnRemember :: bool
  remembered :: "bytes list"

definition approve ::
  "Approver \<Rightarrow> bytes \<Rightarrow> bytes \<Rightarrow> bytes \<Rightarrow> bytes \<Rightarrow> bool \<times> bool \<times> bytes \<times> bytes option" where
  "approve a toolName subject args reason =
     (case a of
        PolicyReasonedApprover f \<Rightarrow> f toolName subject args reason
      | ReasonedApprover f \<Rightarrow> f toolName subject args
      | PlainApprover f \<Rightarrow> (case f toolName subject args of (allow, rem, err) \<Rightarrow> (allow, rem, [], err)))"

definition rememberTool :: "PermGate \<Rightarrow> bytes \<Rightarrow> PermGate" where
  "rememberTool g toolName =
     (let g1 = g\<lparr>remembered := remembered g @ [toolName]\<rparr>
      in case ParseRule toolName of
           Some rule \<Rightarrow> g1\<lparr>gPolicy := (gPolicy g1)\<lparr>pAllow := pAllow (gPolicy g1) @ [rule]\<rparr>\<rparr>
         | None \<Rightarrow> g1)"

definition denyReason :: bytes where
  "denyReason = ''denied by permission policy '' @ map char_of [226, 128, 148::nat] @
     '' this tool/command is on the deny list. Do not retry it; choose another approach or stop and explain.''"

definition declineReason :: bytes where
  "declineReason = ''the user declined this tool call '' @ map char_of [226, 128, 148::nat] @
     '' do not retry it; ask how they would like to proceed or choose another approach.''"

text \<open>The result \<open>(allow, reason, error)\<close> and the gate after the call.\<close>

definition Check ::
  "shell \<Rightarrow> (bytes \<Rightarrow> BashArgs option) \<Rightarrow> json_strings \<Rightarrow> PermGate \<Rightarrow> bytes \<Rightarrow> bytes \<Rightarrow> bool \<Rightarrow>
     ((bool \<times> bytes \<times> bytes option) \<times> PermGate) option" where
  "Check sh decode js g toolName args readOnly0 =
     (let readOnly = (if toolName = ''bash'' \<and> \<not> readOnly0 then BashCommandIsReadOnly sh decode args else readOnly0)
      in case Decide sh js (gPolicy g) toolName readOnly args of
           None \<Rightarrow> None
         | Some d \<Rightarrow>
             (let ruleReason = (case MatchedRule sh js (gPolicy g) toolName d args of
                    Some rule \<Rightarrow> ''Matched permission rule: '' @ decision_String d @ '' '' @ rule
                  | None \<Rightarrow> [])
              in case d of
                   Deny \<Rightarrow> Some ((False, if ruleReason \<noteq> [] then ruleReason @ [LF] @ denyReason else denyReason, None), g)
                 | Allow \<Rightarrow> Some ((True, [], None), g)
                 | Ask \<Rightarrow>
                     (case gApprover g of
                        None \<Rightarrow> Some ((True, [], None), g)
                      | Some a \<Rightarrow>
                          (case approve a toolName (Subject js args) args ruleReason of
                             (allow, rem, reason, err) \<Rightarrow>
                               if err \<noteq> None then Some ((False, ''approval aborted'', err), g)
                               else if \<not> allow
                               then Some ((False, if reason \<noteq> [] then reason else declineReason, None), g)
                               else Some ((True, [], None),
                                      if rem \<and> gOnRemember g then rememberTool g toolName else g)))))"

definition gateExplicitlyDenies :: "shell \<Rightarrow> json_strings \<Rightarrow> PermGate \<Rightarrow> bytes \<Rightarrow> bytes \<Rightarrow> bool" where
  "gateExplicitlyDenies sh js g toolName args = ExplicitlyDenies sh js (gPolicy g) toolName args"

definition NewGate :: "Policy \<Rightarrow> Approver option \<Rightarrow> PermGate" where
  "NewGate p a = \<lparr>gPolicy = p, gApprover = a, gOnRemember = False, remembered = []\<rparr>"

section \<open>Loops and fuel\<close>

lemma Decision_cases: "d \<noteq> Deny \<Longrightarrow> d \<noteq> Ask \<Longrightarrow> d = Allow"
  by (cases d) auto

lemma Decision_order [simp]: "Allow \<le> d" "d \<le> Deny" "Ask \<le> d \<longleftrightarrow> d \<noteq> Allow" "d \<le> Allow \<longleftrightarrow> d = Allow"
  by (cases d; simp add: less_eq_Decision_def)+

lemma max_Decision [simp]: "max Allow d = d" "max d Allow = d" "max Deny d = Deny" "max d Deny = Deny"
  by (cases d; simp add: max_def less_eq_Decision_def)+

lemma fold_max_Deny: "fold max ds Deny = (Deny :: Decision)"
  by (induction ds) auto

lemma worstOf_fold:
  "acc \<noteq> Deny \<Longrightarrow> \<forall>x \<in> set xs. f x = Some (d x) \<Longrightarrow> worstOf f xs acc = Some (fold max (map d xs) acc)"
proof (induction xs arbitrary: acc)
  case (Cons x xs)
  then have x: "f x = Some (d x)" by simp
  show ?case
  proof (cases "d x")
    case Deny
    with x show ?thesis by (simp add: fold_max_Deny)
  next
    case Ask
    have "max Ask acc = Ask" using Cons.prems(1) by (cases acc) (simp_all add: max_def less_eq_Decision_def)
    with Ask x Cons show ?thesis by simp
  next
    case Allow
    with x Cons show ?thesis by simp
  qed
qed simp

lemma worstOf_Max:
  assumes "xs \<noteq> []" "\<forall>x \<in> set xs. f x = Some (d x)"
  shows "worstOf f xs Allow = Some (Max (d ` set xs))"
proof -
  have "Max (d ` set xs) = fold max (map d xs) Allow"
  proof -
    have "fold max (map d xs) Allow = Max (set (Allow # map d xs))"
      by (metis Max.set_eq_fold)
    also have "\<dots> = max Allow (Max (d ` set xs))"
      using assms(1) by (simp add: Max_insert)
    finally show ?thesis by simp
  qed
  with worstOf_fold [OF _ assms(2), of Allow] show ?thesis by simp
qed

lemma worstOf_Allow:
  "worstOf f xs acc = Some Allow \<longleftrightarrow> acc = Allow \<and> (\<forall>x \<in> set xs. f x = Some Allow)"
  by (induction xs arbitrary: acc) (auto split: option.splits Decision.splits)

lemma worstOf_Deny:
  "\<forall>x \<in> set xs. f x \<noteq> None \<Longrightarrow> y \<in> set xs \<Longrightarrow> f y = Some Deny \<Longrightarrow> worstOf f xs acc = Some Deny"
  by (induction xs arbitrary: acc) (auto split: option.splits Decision.splits)

lemma worstOf_cong: "(\<And>x. x \<in> set xs \<Longrightarrow> f x = g x) \<Longrightarrow> worstOf f xs acc = worstOf g xs acc"
  by (induction xs arbitrary: acc) (auto split: option.splits Decision.splits)

lemma worstOf_total: "\<forall>x \<in> set xs. f x \<noteq> None \<Longrightarrow> worstOf f xs acc \<noteq> None"
  by (induction xs arbitrary: acc) (auto split: option.splits Decision.splits)

text \<open>Segments are shorter than the command they come from: a separator takes at least a byte.\<close>

definition splits_shrink :: "shell \<Rightarrow> bool" where
  "splits_shrink sh \<longleftrightarrow>
     (\<forall>c ps. DecomposeBashCommand sh c = Some ps \<longrightarrow> (\<forall>s \<in> set ps. length s < length c))"

lemma decideBash_cong:
  "(\<And>ps ro s. DecomposeBashCommand sh subject = Some ps \<Longrightarrow> s \<in> set ps \<Longrightarrow> f ''bash'' ro s = g ''bash'' ro s) \<Longrightarrow>
     decideBash sh p f toolName readOnly subject = decideBash sh p g toolName readOnly subject"
  by (auto simp: decideBash_def decideBashSegments_def Let_def intro!: worstOf_cong split: option.splits)

lemma decideBash_total:
  "(\<And>ps ro s. DecomposeBashCommand sh subject = Some ps \<Longrightarrow> s \<in> set ps \<Longrightarrow> f ''bash'' ro s \<noteq> None) \<Longrightarrow>
     decideBash sh p f toolName readOnly subject \<noteq> None"
proof (cases "DecomposeBashCommand sh subject")
  case (Some ps)
  assume f: "\<And>ps ro s. DecomposeBashCommand sh subject = Some ps \<Longrightarrow> s \<in> set ps \<Longrightarrow> f ''bash'' ro s \<noteq> None"
  have "decideBashSegments sh f readOnly ps \<noteq> None"
    unfolding decideBashSegments_def using f Some by (intro worstOf_total) blast
  with Some show ?thesis by (simp add: decideBash_def Let_def)
qed (simp add: decideBash_def Let_def)

lemma decideF_enough:
  assumes "splits_shrink sh" "length subject < n"
  shows "decideF n sh p toolName readOnly subject \<noteq> None \<and>
    decideF n sh p toolName readOnly subject = decideF (Suc (length subject)) sh p toolName readOnly subject"
  using assms(2)
proof (induction "length subject" arbitrary: n subject toolName readOnly rule: less_induct)
  case less
  then obtain m where n: "n = Suc m" by (cases n) auto
  have seg: "length s < length subject" if "DecomposeBashCommand sh subject = Some ps" "s \<in> set ps" for ps s
    using assms(1) that by (auto simp: splits_shrink_def)
  have sub: "decideF k sh p ''bash'' ro s \<noteq> None \<and> decideF k sh p ''bash'' ro s = decideF (length subject) sh p ''bash'' ro s"
    if "length subject \<le> k" "DecomposeBashCommand sh subject = Some ps" "s \<in> set ps" for ps s ro k
  proof -
    have l: "length s < length subject" by (rule seg [OF that(2,3)])
    with that(1) have "length s < k" by simp
    from less.hyps [OF l this, of "''bash''" ro] less.hyps [OF l l, of "''bash''" ro]
    show ?thesis by (metis (no_types))
  qed
  have m: "length subject \<le> m" using less.prems n by simp
  show ?case
  proof (cases "canonicalRuleTool toolName = ''bash''")
    case True
    have "decideBash sh p (decideF m sh p) toolName readOnly subject =
        decideBash sh p (decideF (length subject) sh p) toolName readOnly subject"
      by (rule decideBash_cong) (use sub [OF m] in blast)
    moreover have "decideBash sh p (decideF m sh p) toolName readOnly subject \<noteq> None"
      by (rule decideBash_total) (use sub [OF m] in blast)
    ultimately show ?thesis using True n by simp
  qed (simp add: n)
qed

lemma DecideSubject_total: "splits_shrink sh \<Longrightarrow> \<exists>d. DecideSubject sh p t ro s = Some d"
  using decideF_enough [of sh s "Suc (length s)" p t ro] by (auto simp: DecideSubject_def)

lemma DecideSubject_bash:
  assumes "splits_shrink sh" "canonicalRuleTool t = ''bash''"
  shows "DecideSubject sh p t ro s = decideBash sh p (DecideSubject sh p) t ro s"
proof -
  have "decideBash sh p (decideF (length s) sh p) t ro s = decideBash sh p (DecideSubject sh p) t ro s"
  proof (rule decideBash_cong)
    fix ps r q assume "DecomposeBashCommand sh s = Some ps" "q \<in> set ps"
    then have "length q < length s" using assms(1) by (auto simp: splits_shrink_def)
    then show "decideF (length s) sh p ''bash'' r q = DecideSubject sh p ''bash'' r q"
      using decideF_enough [OF assms(1), of q "length s"] by (simp add: DecideSubject_def)
  qed
  then show ?thesis using assms(2) by (simp add: DecideSubject_def)
qed

lemma DecideSubject_plain:
  "canonicalRuleTool t \<noteq> ''bash'' \<Longrightarrow> DecideSubject sh p t ro s = Some (decidePlain sh p t ro s)"
  by (simp add: DecideSubject_def)

section \<open>Deny rules\<close>

lemma canonical_idem: "canonicalRuleTool (canonicalRuleTool t) = canonicalRuleTool t"
proof -
  have "TrimSpace ''bash'' = ''bash''" "TrimSpace ''file_mutation'' = ''file_mutation''" by code_simp+
  then show ?thesis by (simp add: canonicalRuleTool_def Let_def)
qed

lemma raw_plain:
  assumes "canonicalRuleTool t \<noteq> ''bash''"
  shows "matchAnyRaw sh rules t s = matchAny sh rules t s"
proof -
  have "ruleHits (rawRuleSubjectMatches sh) r t s = ruleHits (ruleSubjectMatches sh) r t s" for r
  proof -
    have "canonicalRuleTool (rTool r) = ''bash'' \<Longrightarrow> \<not> ruleToolMatches (rTool r) t"
      using assms canonical_idem [of "rTool r"] by (auto simp: ruleToolMatches_def Let_def)
    then show ?thesis
      by (auto simp: ruleHits_def rawRuleSubjectMatches_def ruleSubjectMatches_def)
  qed
  then show ?thesis by (simp add: matchAnyRaw_def matchAny_def)
qed

lemma deny_subject:
  "matchAnyRaw sh (pDeny p) t s \<Longrightarrow> DecideSubject sh p t ro s = Some Deny"
  using raw_plain [of t sh "pDeny p" s]
  by (cases "canonicalRuleTool t = ''bash''")
     (auto simp: DecideSubject_def decideBash_def decidePlain_def Let_def)

lemma DecideSubjects_orBlank:
  assumes "splits_shrink sh"
  shows "DecideSubjects sh p t ro ss = worstOf (DecideSubject sh p t ro) (orBlank ss) Allow"
proof (cases "ss = []")
  case True
  obtain d where "DecideSubject sh p t ro [] = Some d" using DecideSubject_total [OF assms] by blast
  with True show ?thesis by (cases d) (simp_all add: DecideSubjects_def orBlank_def)
qed (simp add: DecideSubjects_def orBlank_def)

section \<open>Parsing rules\<close>

lemma IndexByte_append:
  "c \<notin> set a \<Longrightarrow> IndexByte (a @ b) c = map_option ((+) (length a)) (IndexByte b c)"
  by (induction a; cases "IndexByte b c") auto

lemma ParseRule_literal:
  assumes "t \<noteq> []" "TrimSpace t = t" "EQUALS \<notin> set t" "LPAREN \<notin> set t"
    and "TrimSpace (t @ ''='' @ u) = t @ ''='' @ u"
  shows "ParseRule (t @ ''='' @ u) = Some \<lparr>rTool = t, rSubject = u, rLiteral = True\<rparr>"
proof -
  have e: "IndexByte (t @ ''='' @ u) EQUALS = Some (length t)"
    using IndexByte_append [OF assms(3), of "''='' @ u"] by simp
  have p: "case IndexByte (t @ ''='' @ u) LPAREN of None \<Rightarrow> True | Some paren \<Rightarrow> length t < paren"
    using IndexByte_append [OF assms(4), of "''='' @ u"] by (auto split: option.splits)
  show ?thesis
    unfolding ParseRule_def Let_def assms(5) e option.case using assms(1,2) p by simp
qed

lemma ParseRule_glob:
  assumes "t \<noteq> []" "TrimSpace t = t" "EQUALS \<notin> set t" "LPAREN \<notin> set t"
    and "TrimSpace (t @ ''('' @ u @ '')'') = t @ ''('' @ u @ '')''"
  shows "ParseRule (t @ ''('' @ u @ '')'') = Some \<lparr>rTool = t, rSubject = u, rLiteral = False\<rparr>"
proof -
  let ?s = "t @ ''('' @ u @ '')''"
  have p: "IndexByte ?s LPAREN = Some (length t)"
    using IndexByte_append [OF assms(4), of "''('' @ u @ '')''"] by simp
  have e: "case IndexByte ?s EQUALS of None \<Rightarrow> True | Some eq \<Rightarrow> length t < eq"
    using IndexByte_append [OF assms(3), of "''('' @ u @ '')''"] by (auto split: option.splits)
  have suffix: "HasSuffix ?s '')''" using HasSuffix_append [of "t @ ''('' @ u" "'')''"] by simp
  have "parenRule ?s = Some \<lparr>rTool = t, rSubject = u, rLiteral = False\<rparr>"
    unfolding parenRule_def p option.case Let_def using suffix assms(1,2) by simp
  then show ?thesis
    unfolding ParseRule_def Let_def assms(5) using e p assms(1) by (auto split: option.splits)
qed

lemma ParseRule_bare:
  assumes "t \<noteq> []" "TrimSpace t = t" "EQUALS \<notin> set t" "LPAREN \<notin> set t"
  shows "ParseRule t = Some \<lparr>rTool = t, rSubject = [], rLiteral = False\<rparr>"
proof -
  have "IndexByte t EQUALS = None" "IndexByte t LPAREN = None" using assms(3,4) by (simp_all add: IndexByte_None)
  with assms(1,2) show ?thesis by (simp add: ParseRule_def parenRule_def)
qed

section \<open>Properties\<close>

text \<open>C29. A deny rule always wins: when a deny rule matches one of the subjects of a call, \<open>Check\<close>
  refuses the call and leaves the gate as it is, whatever the other rules, the session grants,
  the read-only classification and the approver say.\<close>

theorem deny_rule_refuses:
  assumes "splits_shrink sh" "ExplicitlyDenies sh js (gPolicy g) toolName args"
  shows "\<exists>reason. Check sh decode js g toolName args readOnly = Some ((False, reason, None), g)"
proof -
  let ?ro = "if toolName = ''bash'' \<and> \<not> readOnly then BashCommandIsReadOnly sh decode args else readOnly"
  obtain s where "s \<in> set (orBlank (Subjects js args))" "matchAnyRaw sh (pDeny (gPolicy g)) toolName s"
    using assms(2) by (auto simp: ExplicitlyDenies_def list_ex_iff)
  then have "worstOf (DecideSubject sh (gPolicy g) toolName ?ro) (orBlank (Subjects js args)) Allow = Some Deny"
    using DecideSubject_total [OF assms(1)] deny_subject by (intro worstOf_Deny) auto
  then have "Decide sh js (gPolicy g) toolName ?ro args = Some Deny"
    by (simp add: Decide_def DecideSubjects_orBlank [OF assms(1)])
  then show ?thesis unfolding Check_def Let_def by simp
qed

text \<open>C30. The decision for a call is the strictest decision among its subjects, in whatever order they
  come: a move is denied if either endpoint is, and allowed only if both are.\<close>

theorem DecideSubjects_strictest:
  assumes "splits_shrink sh" "subjects \<noteq> []"
  shows "\<exists>d. (\<forall>s \<in> set subjects. DecideSubject sh p t ro s = Some (d s)) \<and>
    DecideSubjects sh p t ro subjects = Some (Max (d ` set subjects))"
proof -
  have d: "\<forall>s \<in> set subjects. DecideSubject sh p t ro s = Some (the (DecideSubject sh p t ro s))"
    using DecideSubject_total [OF assms(1)] by force
  then have "DecideSubjects sh p t ro subjects = Some (Max ((\<lambda>s. the (DecideSubject sh p t ro s)) ` set subjects))"
    using assms(2) worstOf_Max [OF assms(2) d] by (simp add: DecideSubjects_def)
  with d show ?thesis by (intro exI [of _ "\<lambda>s. the (DecideSubject sh p t ro s)"] conjI)
qed

text \<open>Deciding a command always ends: with a parser whose segments are shorter than the command,
  the length of the subject bounds the nested calls, and allowing more of them changes nothing.\<close>

theorem DecideSubject_terminates:
  assumes "splits_shrink sh"
  shows "\<exists>d. DecideSubject sh p t ro s = Some d \<and> (\<forall>n > length s. decideF n sh p t ro s = Some d)"
proof -
  obtain d where d: "DecideSubject sh p t ro s = Some d" using DecideSubject_total [OF assms] by blast
  have "decideF n sh p t ro s = Some d" if "length s < n" for n
    using decideF_enough [OF assms that, of p t ro] d unfolding DecideSubject_def by metis
  with d show ?thesis by blast
qed

text \<open>A compound command that no rule covers as a whole is decided as strictly as its strictest
  segment, each segment that only reads needing no rule.\<close>

theorem compound_command_decided_by_segments:
  assumes "splits_shrink sh" "DecomposeBashCommand sh s = Some ps"
    and "\<not> matchAnyRaw sh (pDeny p) ''bash'' s" "\<not> matchAnyRaw sh (pAsk p) ''bash'' s"
    and "\<not> matchAnyExact (SessionAllow p) ''bash'' s" "\<not> matchAnyExact (pAllow p) ''bash'' s"
  shows "\<exists>d. (\<forall>q \<in> set ps. DecideSubject sh p ''bash'' (ro \<or> isReadOnlyBashSubject sh q) q = Some (d q)) \<and>
    DecideSubject sh p ''bash'' ro s = Some (Max (d ` set ps))"
proof -
  let ?f = "\<lambda>q. DecideSubject sh p ''bash'' (ro \<or> isReadOnlyBashSubject sh q) q"
  have ne: "ps \<noteq> []" using assms(2) by (auto simp: DecomposeBashCommand_def split: option.splits if_splits)
  have d: "\<forall>q \<in> set ps. ?f q = Some (the (?f q))"
    using DecideSubject_total [OF assms(1)] by force
  have "canonicalRuleTool ''bash'' = ''bash''" by code_simp
  then have "DecideSubject sh p ''bash'' ro s = worstOf ?f ps Allow"
    using assms(2-6) DecideSubject_bash [OF assms(1), of "''bash''" p ro s]
    by (simp add: decideBash_def decideBashSegments_def Let_def)
  with worstOf_Max [OF ne d] d show ?thesis by (intro exI [of _ "\<lambda>q. the (?f q)"]) auto
qed

text \<open>
  What may stand behind an approval of a command: an exact rule for its whole text, or that it is a single command
  that needs no human, or, for a compound command, such an approval of every segment.
\<close>

inductive properly_approved :: "shell \<Rightarrow> Policy \<Rightarrow> bytes \<Rightarrow> bool" for sh p where
  exact: "matchAnyExact (SessionAllow p) ''bash'' s \<or> matchAnyExact (pAllow p) ''bash'' s \<Longrightarrow> properly_approved sh p s"
| single: "DecomposeBashCommand sh s = None \<Longrightarrow> classifyBashApproval sh s \<noteq> bashApprovalRequireHuman \<Longrightarrow> properly_approved sh p s"
| compound: "DecomposeBashCommand sh s = Some ps \<Longrightarrow> \<forall>q \<in> set ps. properly_approved sh p q \<Longrightarrow> properly_approved sh p s"

lemma canonical_bash: "canonicalRuleTool ''bash'' = ''bash''"
  by code_simp

lemma decideF_Allow:
  "decideF n sh p ''bash'' ro s = Some Allow \<Longrightarrow> \<not> (AllowDynamicBash p \<and> Mode p = Allow) \<Longrightarrow> properly_approved sh p s"
proof (induction n arbitrary: ro s)
  case (Suc n)
  have d: "decideBash sh p (decideF n sh p) ''bash'' ro s = Some Allow" using Suc.prems(1) by (simp add: canonical_bash)
  show ?case
  proof (cases "matchAnyExact (SessionAllow p) ''bash'' s \<or> matchAnyExact (pAllow p) ''bash'' s")
    case True
    then show ?thesis by (rule exact)
  next
    case no_rule: False
    show ?thesis
    proof (cases "DecomposeBashCommand sh s")
      case None
      then have "classifyBashApproval sh s \<noteq> bashApprovalRequireHuman"
        using d no_rule Suc.prems(2) by (auto simp: decideBash_def Let_def split: if_splits)
      with None show ?thesis by (rule single)
    next
      case (Some ps)
      then have "decideBashSegments sh (decideF n sh p) ro ps = Some Allow"
        using d no_rule by (auto simp: decideBash_def Let_def split: if_splits)
      then have "\<forall>q \<in> set ps. \<exists>r. decideF n sh p ''bash'' r q = Some Allow"
        unfolding decideBashSegments_def worstOf_Allow by blast
      then show ?thesis using Suc.IH Suc.prems(2) by (intro compound [OF Some]) blast
    qed
  qed
qed simp

text \<open>C31. A command that runs another command (a substitution, an interpreter with code, a wrapper) is
  never let through by a broad rule. Whenever a Bash command is allowed, without the dynamic override, there is
  an exact rule for its whole text, or it is a single command that needs no human, or it is a compound
  command each of whose segments is approved in this way. So a command that needs a human, alone or inside a
  compound command, only runs unasked under an exact rule for it or for a compound command around it.\<close>

theorem nested_execution_needs_human:
  assumes "DecideSubject sh p ''bash'' ro s = Some Allow" and "\<not> (AllowDynamicBash p \<and> Mode p = Allow)"
  shows "properly_approved sh p s"
  using assms unfolding DecideSubject_def by (rule decideF_Allow)

text \<open>Rules survive being written to the configuration: a rule whose tool name is trimmed and holds
  neither parenthesis nor equals sign, and whose text has no outer white space, is read back from
  the string the code writes.\<close>

theorem ParseRule_ruleConfigString:
  assumes "rTool r \<noteq> []" "TrimSpace (rTool r) = rTool r" "EQUALS \<notin> set (rTool r)" "LPAREN \<notin> set (rTool r)"
    and "TrimSpace (ruleConfigString r) = ruleConfigString r" "rLiteral r \<longrightarrow> rSubject r \<noteq> []"
  shows "ParseRule (ruleConfigString r) = Some r"
  using assms ParseRule_literal [of "rTool r" "rSubject r"] ParseRule_glob [of "rTool r" "rSubject r"]
    ParseRule_bare [of "rTool r"]
  by (cases r) (auto simp: ruleConfigString_def)

text \<open>Remembering an exact command covers it: when no safe prefix exists, the rule stored for a Bash
  command matches that command again.\<close>

theorem remembered_exact_rule_matches:
  assumes "TrimSpace s = s" "s \<noteq> []" "BashCommandPrefix sh s = []" "TrimSpace (''Bash='' @ s) = ''Bash='' @ s"
  shows "RuleMatchesString sh (RememberRuleForScope sh ''bash'' s) ''bash'' s"
proof -
  have "RememberRuleForScope sh ''bash'' s = ''Bash'' @ ''='' @ s"
    using assms by (simp add: RememberRuleForScope_def Let_def)
  moreover have "ParseRule (''Bash'' @ ''='' @ s) = Some \<lparr>rTool = ''Bash'', rSubject = s, rLiteral = True\<rparr>"
  proof (rule ParseRule_literal)
    show "TrimSpace ''Bash'' = ''Bash''" by code_simp
  qed (use assms(4) in auto)
  moreover have "ruleToolMatches ''Bash'' ''bash''" by code_simp
  ultimately show ?thesis
    using assms(2) by (simp add: RuleMatchesString_def matchAnyAllow_def matchAnyExact_def)
qed

text \<open>A remembered prefix can miss the very command it was made from: the prefix is built from the
  unquoted words, so when the second word holds a space, reading the prefix back gives more
  words than the command has there and the stored rule does not match.\<close>

theorem remembered_prefix_can_miss:
  assumes "bashPrefixBase (base @ '':*'') = Some base" "bashColonPrefixBase (base @ '':*'') = Some base"
    and "StaticFields sh (normalized sh s) = ([c, w @ '' '' @ v], [])" "StaticFields sh base = ([c, w, v], [])"
    and "s \<noteq> base @ '':*''"
  shows "\<not> matchAnyAllow sh [\<lparr>rTool = ''Bash'', rSubject = base @ '':*'', rLiteral = False\<rparr>] ''bash'' s"
proof -
  have "canonicalRuleTool ''Bash'' = ''bash''" by code_simp
  moreover have "\<not> bashPrefixMatches sh base s" by (simp add: bashPrefixMatches_def assms(3,4))
  ultimately show ?thesis
    using assms(2,5)
    by (auto simp: matchAnyAllow_def matchAnyExact_def matchAny_def ruleHits_def ruleSubjectMatches_def)
qed

text \<open>Approving one Bash command with "always allow" at the gate approves them all: what \<open>Check\<close>
  remembers is the tool name, so afterwards every reusable simple command that no deny or ask
  rule matches is allowed.\<close>

theorem always_allow_is_tool_wide:
  assumes "classifyBashApproval sh s = bashApprovalReusable" "DecomposeBashCommand sh s = None" "s \<noteq> []"
    and "\<not> matchAnyRaw sh (pDeny (gPolicy g)) ''bash'' s" "\<not> matchAnyRaw sh (pAsk (gPolicy g)) ''bash'' s"
  shows "DecideSubject sh (gPolicy (rememberTool g ''bash'')) ''bash'' ro s = Some Allow"
proof -
  have c: "canonicalRuleTool ''bash'' = ''bash''" "ruleToolMatches ''bash'' ''bash''" by code_simp+
  have "ParseRule ''bash'' = Some \<lparr>rTool = ''bash'', rSubject = [], rLiteral = False\<rparr>" by code_simp
  then have p: "gPolicy (rememberTool g ''bash'') =
      (gPolicy g)\<lparr>pAllow := pAllow (gPolicy g) @ [\<lparr>rTool = ''bash'', rSubject = [], rLiteral = False\<rparr>]\<rparr>"
    by (simp add: rememberTool_def Let_def)
  have "matchAnyAllow sh (pAllow (gPolicy (rememberTool g ''bash''))) ''bash'' s"
    using assms(1) c by (simp add: p matchAnyAllow_def bashSubjectRequiresExactRule_def matchAny_def ruleHits_def)
  with assms c(1) show ?thesis
    by (auto simp: p DecideSubject_def decideBash_def Let_def)
qed

text \<open>The read-only tables let writers through: \<open>npm audit fix\<close>, \<open>git reflog expire\<close> and
  \<open>sort\<close> with the output flag folded into other flags count as read-only commands, because only
  the subcommand is looked up and only the listed spellings of the flags are refused.\<close>

theorem readonly_tables_admit_writers:
  assumes "StaticFields sh (normalized sh s) = (flds, [])"
    and "flds \<in> {[''npm'', ''audit'', ''fix''], [''git'', ''reflog'', ''expire'', ''--all''], [''sort'', ''-uo'', ''out.txt'', ''in.txt'']}"
  shows "isReadOnlyBashSubject sh s"
proof -
  define ok where "ok = (\<lambda>flds. case classifyFields flds of None \<Rightarrow> False
     | Some (base, sub, fs) \<Rightarrow>
         if sub = [] then \<not> hasUnsafeReadOnlyArgs base (drop 1 fs) else \<not> hasUnsafePrefixArgs base sub (drop 2 fs))"
  have "isReadOnlyBashSubject sh s = ok flds"
    by (simp add: isReadOnlyBashSubject_def ClassifyReadOnlyCommand_def assms(1) ok_def)
  moreover have "ok [''npm'', ''audit'', ''fix'']" "ok [''git'', ''reflog'', ''expire'', ''--all'']"
    "ok [''sort'', ''-uo'', ''out.txt'', ''in.txt'']" unfolding ok_def by code_simp+
  ultimately show ?thesis using assms(2) by auto
qed

section \<open>Witnesses\<close>

definition more_parse :: "bytes \<Rightarrow> bytes + ShFile" where
  "more_parse c =
     (if c = ''git '' @ [DQ] @ ''a b'' @ [DQ]
      then Inr \<lparr>Stmts = [Some (Stmt (CallExpr [] [lit_word ''git'', Some (Word [DblQuoted [Lit ''a b'']] None None)])
             False False False False [] 0 9 None)]\<rparr>
      else if c = ''git a b'' then Inr \<lparr>Stmts = [Some (call_at 0 7 [''git'', ''a'', ''b''])]\<rparr>
      else if c = ''npm audit fix'' then Inr \<lparr>Stmts = [Some (call_at 0 13 [''npm'', ''audit'', ''fix''])]\<rparr>
      else Inl ''syntax error'')"

definition more_shell :: shell where
  "more_shell = \<lparr>shParse = more_parse, shWalk = (\<lambda>_. []), shSplitBraces = (\<lambda>w. w)\<rparr>"

definition make_args :: json_strings where
  "make_args = (\<lambda>_. Some (\<lambda>k. if k = ''command'' then Some ''make test'' else None))"

definition deny_gate :: PermGate where
  "deny_gate = NewGate (New ''allow'' [''Bash''] [] [''Bash(make test:*)'']) None"

lemma sample_shrinks: "splits_shrink sample_shell"
proof -
  have "length s < length c" if "DecomposeBashCommand sample_shell c = Some ps" "s \<in> set ps" for c ps s
  proof -
    have "c = ''make && make test'' \<or> c = ''make ; make test'' \<or> c = ''make test'' \<or>
        DecomposeBashCommand sample_shell c = None"
      by (simp add: DecomposeBashCommand_def SplitTopLevel_def sample_shell_def sample_parse_def)
    moreover have "DecomposeBashCommand sample_shell ''make && make test'' = Some [''make'', ''make test'']"
      "DecomposeBashCommand sample_shell ''make ; make test'' = Some [''make'', ''make test'']"
      "DecomposeBashCommand sample_shell ''make test'' = None" by code_simp+
    ultimately show ?thesis using that by auto
  qed
  then show ?thesis by (auto simp: splits_shrink_def)
qed

theorem deny_rule_refuses_witness:
  "\<exists>reason. Check sample_shell (\<lambda>_. None) make_args deny_gate ''bash'' ''{}'' True = Some ((False, reason, None), deny_gate)"
proof (rule deny_rule_refuses [OF sample_shrinks])
  show "ExplicitlyDenies sample_shell make_args (gPolicy deny_gate) ''bash'' ''{}''" by code_simp
qed

theorem DecideSubjects_strictest_witness:
  "\<exists>d. DecideSubjects sample_shell (New ''ask'' [] [] [''move_file(/etc/*)'']) ''move_file'' False [''a'', ''/etc/b''] =
     Some (Max (d ` {''a'', ''/etc/b''}))"
  using DecideSubjects_strictest [OF sample_shrinks, of "[''a'', ''/etc/b'']"] by fastforce

theorem DecideSubject_terminates_witness:
  "\<exists>d. DecideSubject sample_shell (New ''ask'' [] [] []) ''bash'' False ''make && make test'' = Some d"
  using DecideSubject_terminates [OF sample_shrinks] by blast

theorem compound_command_decided_by_segments_witness:
  "\<exists>d. DecideSubject sample_shell (New ''ask'' [''Bash(make:*)''] [] []) ''bash'' False ''make && make test'' =
     Some (Max (d ` {''make'', ''make test''}))"
proof -
  let ?p = "New ''ask'' [''Bash(make:*)''] [] []"
  have "DecomposeBashCommand sample_shell ''make && make test'' = Some [''make'', ''make test'']"
    "\<not> matchAnyRaw sample_shell (pDeny ?p) ''bash'' ''make && make test''"
    "\<not> matchAnyRaw sample_shell (pAsk ?p) ''bash'' ''make && make test''"
    "\<not> matchAnyExact (SessionAllow ?p) ''bash'' ''make && make test''"
    "\<not> matchAnyExact (pAllow ?p) ''bash'' ''make && make test''" by code_simp+
  from compound_command_decided_by_segments [OF sample_shrinks this] show ?thesis by fastforce
qed

theorem nested_execution_needs_human_witness:
  "properly_approved sample_shell (New ''ask'' [''Bash=$(rm x)''] [] []) ''$(rm x)'' \<and>
   classifyBashApproval sample_shell ''$(rm x)'' = bashApprovalRequireHuman \<and>
   properly_approved sample_shell (New ''ask'' [''Bash=make'', ''Bash=make test''] [] []) ''make && make test'' \<and>
   DecideSubject sample_shell (New ''ask'' [''Bash''] [] []) ''bash'' True ''$(rm x)'' = Some Ask"
proof (intro conjI)
  show "properly_approved sample_shell (New ''ask'' [''Bash=$(rm x)''] [] []) ''$(rm x)''"
  proof (rule nested_execution_needs_human)
    show "DecideSubject sample_shell (New ''ask'' [''Bash=$(rm x)''] [] []) ''bash'' False ''$(rm x)'' = Some Allow" by code_simp
    show "\<not> (AllowDynamicBash (New ''ask'' [''Bash=$(rm x)''] [] []) \<and> Mode (New ''ask'' [''Bash=$(rm x)''] [] []) = Allow)" by code_simp
  qed
  show "properly_approved sample_shell (New ''ask'' [''Bash=make'', ''Bash=make test''] [] []) ''make && make test''"
  proof (rule nested_execution_needs_human)
    show "DecideSubject sample_shell (New ''ask'' [''Bash=make'', ''Bash=make test''] [] []) ''bash'' False ''make && make test'' = Some Allow" by code_simp
    show "\<not> (AllowDynamicBash (New ''ask'' [''Bash=make'', ''Bash=make test''] [] []) \<and> Mode (New ''ask'' [''Bash=make'', ''Bash=make test''] [] []) = Allow)" by code_simp
  qed
qed code_simp+

theorem ParseRule_ruleConfigString_witness:
  "ParseRule (ruleConfigString \<lparr>rTool = ''Bash'', rSubject = ''git push:*'', rLiteral = False\<rparr>) =
     Some \<lparr>rTool = ''Bash'', rSubject = ''git push:*'', rLiteral = False\<rparr>"
proof (rule ParseRule_ruleConfigString)
  let ?r = "\<lparr>rTool = ''Bash'', rSubject = ''git push:*'', rLiteral = False\<rparr>"
  show "TrimSpace (rTool ?r) = rTool ?r" by code_simp
  show "TrimSpace (ruleConfigString ?r) = ruleConfigString ?r" by code_simp
qed auto

theorem remembered_exact_rule_matches_witness:
  "RuleMatchesString sample_shell (RememberRuleForScope sample_shell ''bash'' ''ls $HOME'') ''bash'' ''ls $HOME''"
proof (rule remembered_exact_rule_matches)
  show "TrimSpace ''ls $HOME'' = ''ls $HOME''" by code_simp
  show "BashCommandPrefix sample_shell ''ls $HOME'' = []" by code_simp
  show "TrimSpace (''Bash='' @ ''ls $HOME'') = ''Bash='' @ ''ls $HOME''" by code_simp
qed simp

theorem remembered_prefix_can_miss_witness:
  "RememberRuleForScope more_shell ''bash'' (''git '' @ [DQ] @ ''a b'' @ [DQ]) = ''Bash(git a b:*)'' \<and>
   \<not> matchAnyAllow more_shell [\<lparr>rTool = ''Bash'', rSubject = ''git a b'' @ '':*'', rLiteral = False\<rparr>] ''bash''
       (''git '' @ [DQ] @ ''a b'' @ [DQ])"
proof
  show "RememberRuleForScope more_shell ''bash'' (''git '' @ [DQ] @ ''a b'' @ [DQ]) = ''Bash(git a b:*)''"
    by code_simp
  have "bashPrefixBase (''git a b'' @ '':*'') = Some ''git a b''"
    "bashColonPrefixBase (''git a b'' @ '':*'') = Some ''git a b''"
    "StaticFields more_shell (normalized more_shell (''git '' @ [DQ] @ ''a b'' @ [DQ])) = ([''git'', ''a'' @ '' '' @ ''b''], [])"
    "StaticFields more_shell ''git a b'' = ([''git'', ''a'', ''b''], [])"
    "''git '' @ [DQ] @ ''a b'' @ [DQ] \<noteq> ''git a b'' @ '':*''" by code_simp+
  then show "\<not> matchAnyAllow more_shell [\<lparr>rTool = ''Bash'', rSubject = ''git a b'' @ '':*'', rLiteral = False\<rparr>] ''bash''
       (''git '' @ [DQ] @ ''a b'' @ [DQ])"
    by (rule remembered_prefix_can_miss)
qed

theorem always_allow_is_tool_wide_witness:
  "DecideSubject sample_shell (gPolicy (rememberTool (NewGate (New ''ask'' [] [] []) None) ''bash'')) ''bash'' False ''make test'' =
     Some Allow"
proof (rule always_allow_is_tool_wide)
  show "classifyBashApproval sample_shell ''make test'' = bashApprovalReusable" by code_simp
  show "DecomposeBashCommand sample_shell ''make test'' = None" by code_simp
  show "\<not> matchAnyRaw sample_shell (pDeny (gPolicy (NewGate (New ''ask'' [] [] []) None))) ''bash'' ''make test''" by code_simp
  show "\<not> matchAnyRaw sample_shell (pAsk (gPolicy (NewGate (New ''ask'' [] [] []) None))) ''bash'' ''make test''" by code_simp
qed simp

theorem readonly_tables_admit_writers_witness: "isReadOnlyBashSubject more_shell ''npm audit fix''"
proof (rule readonly_tables_admit_writers)
  show "StaticFields more_shell (normalized more_shell ''npm audit fix'') = ([''npm'', ''audit'', ''fix''], [])" by code_simp
qed simp

end
