(* ===== verification/RecTypes.thy ===== *)
theory RecTypes
  imports GoBase
begin

text \<open>
  The data of the recovery guard: \<open>internal/recovery/types.go\<close> (failure evidence, proposals
  waiting for a human, snapshots, counters), \<open>budget.go\<close> (the fixed limits),
  \<open>fingerprint.go\<close> (the identity of an operation) and the observation, proposal and decision
  records of \<open>internal/agent/recovery_gate.go\<close>.

  The record \<open>codec\<close> collects the code that is not in the repository: SHA-256, the JSON decoder
  and encoder (the canonical form of a document, the string values of an object, the paths of an
  edit list) and the clock's current time is passed where it is read. Counters that only feed
  telemetry are \<^typ>\<open>int\<close>.
\<close>

section \<open>Enumerations\<close>

datatype Phase = PhaseIdle | PhaseDiagnosing | PhaseAwaitingDecision

text \<open>A change kind is a string in the code; a reviewer may send any.\<close>

abbreviation (input) ChangeSameStrategy :: bytes where "ChangeSameStrategy \<equiv> ''same_strategy''"
abbreviation (input) ChangeStrategy :: bytes where "ChangeStrategy \<equiv> ''strategy''"
abbreviation (input) ChangeScope :: bytes where "ChangeScope \<equiv> ''scope''"
abbreviation (input) ChangeRisk :: bytes where "ChangeRisk \<equiv> ''risk''"
abbreviation (input) ChangeUncertain :: bytes where "ChangeUncertain \<equiv> ''uncertain''"

abbreviation (input) ReviewContinue :: bytes where "ReviewContinue \<equiv> ''continue''"
abbreviation (input) ReviewConfirm :: bytes where "ReviewConfirm \<equiv> ''confirm''"

datatype FailureClass = FailureClassNone | FailureClassExecution | FailureClassMutation | FailureClassTransient
  | FailureClassVerification

datatype StopReason = StopReasonNone | StopReasonEpisodeFailures | StopReasonReviewRejects
  | StopReasonStoppedOpRetries | StopReasonOperationFailures

fun stop_text :: "StopReason \<Rightarrow> bytes" where
  "stop_text StopReasonNone = []"
| "stop_text StopReasonEpisodeFailures = ''episode_failures''"
| "stop_text StopReasonReviewRejects = ''review_rejects''"
| "stop_text StopReasonStoppedOpRetries = ''stopped_op_retries''"
| "stop_text StopReasonOperationFailures = ''operation_failures''"

definition MaxOperationFailures :: "8 word" where "MaxOperationFailures = 3"
definition MaxEpisodeFailures :: "8 word" where "MaxEpisodeFailures = 6"
definition MaxReviewRejects :: int where "MaxReviewRejects = 3"
definition MaxStoppedOperationRetries :: "8 word" where "MaxStoppedOperationRetries = 3"

section \<open>Records\<close>

record ReviewVerdict =
  vOutcome :: bytes
  vChangeKind :: bytes
  vRationale :: bytes
  vFailureSummary :: bytes
  vDiagnosis :: bytes
  vProposedAction :: bytes

record FailureEvent =
  fClass :: FailureClass
  fTool :: bytes
  fArgsSummary :: bytes
  fSubject :: bytes
  fErrSummary :: bytes
  fOutputExcerpt :: bytes
  fSourceAgent :: bytes
  fTaskID :: bytes
  fTaskScopeID :: bytes
  fReadOnly :: bool
  fVerification :: bool
  fMutates :: bool
  fRepeatCount :: int
  fCreatedAt :: int
  fArgs :: bytes
  fFingerprint :: bytes
  fSafeRetryLeft :: int
  fDiagnosisNotes :: "bytes list"

record PendingProposal =
  ppTool :: bytes
  ppSubject :: bytes
  ppPreview :: bytes
  ppArgs :: bytes
  ppFingerprint :: bytes
  ppSourceAgent :: bytes
  ppChangeKind :: bytes
  ppRationale :: bytes
  ppDiagnosis :: bytes
  ppFailure :: bytes
  ppProposed :: bytes
  ppPlanBefore :: bytes
  ppPlanAfter :: bytes
  ppTaskGrantKey :: bytes
  ppTaskGrantTaskScope :: bytes
  ppTaskGrantDisplay :: bytes

record TaskState =
  tsPhase :: Phase
  tsFailure :: "FailureEvent option"
  tsLastFailure :: "FailureEvent option"
  tsPending :: "PendingProposal option"
  tsApprovalID :: bytes
  tsConsecutiveFails :: int
  tsReviewBlocks :: int
  tsTailInjected :: bool
  tsEpisodeID :: bytes
  tsEpisodeStopped :: bool
  tsStopReason :: bytes

definition blank_TaskState :: TaskState where
  "blank_TaskState = \<lparr>tsPhase = PhaseIdle, tsFailure = None, tsLastFailure = None, tsPending = None,
     tsApprovalID = [], tsConsecutiveFails = 0, tsReviewBlocks = 0, tsTailInjected = False,
     tsEpisodeID = [], tsEpisodeStopped = False, tsStopReason = []\<rparr>"

text \<open>A snapshot: the tasks, by id.\<close>

type_synonym Snapshot = "(bytes \<times> TaskState) list"

record Metrics =
  FailureEvents :: int
  RuleContinues :: int
  ReviewContinues :: int
  HumanPrompts :: int
  HumanContinues :: int
  TaskGrantContinues :: int
  TaskGrantUses :: int
  HumanRevises :: int
  ReviewErrors :: int
  ReviewLatencyMsSum :: int
  ReviewLatencyCount :: int
  RepeatPrompts :: int
  OperationStops :: int
  EpisodeFailureStops :: int
  ReviewStops :: int
  StoppedOpRetryStops :: int
  ModeResets :: int
  EpisodeRotations :: int
  StaleObservationsIgnored :: int

definition no_metrics :: Metrics where
  "no_metrics = \<lparr>FailureEvents = 0, RuleContinues = 0, ReviewContinues = 0, HumanPrompts = 0,
     HumanContinues = 0, TaskGrantContinues = 0, TaskGrantUses = 0, HumanRevises = 0, ReviewErrors = 0,
     ReviewLatencyMsSum = 0, ReviewLatencyCount = 0, RepeatPrompts = 0, OperationStops = 0,
     EpisodeFailureStops = 0, ReviewStops = 0, StoppedOpRetryStops = 0, ModeResets = 0,
     EpisodeRotations = 0, StaleObservationsIgnored = 0\<rparr>"

record Observation =
  oAgentID :: bytes
  oTaskID :: bytes
  oTaskScopeID :: bytes
  oGeneration :: "64 word"
  oTool :: bytes
  oArgs :: bytes
  oSubject :: bytes
  oReadOnly :: bool
  oMutates :: bool
  oVerification :: bool
  oSuccess :: bool
  oBlocked :: bool
  oUserRejected :: bool
  oProviderError :: bool
  oCancelled :: bool
  oEmptySearch :: bool
  oErrSummary :: bytes
  oOutput :: bytes

record Proposal =
  qAgentID :: bytes
  qTaskID :: bytes
  qTaskScopeID :: bytes
  qTaskSummary :: bytes
  qTool :: bytes
  qArgs :: bytes
  qSubject :: bytes
  qPreview :: bytes
  qReadOnly :: bool
  qMutates :: bool
  qVerification :: bool
  qPlanTransition :: bool
  qPlanBefore :: bytes
  qPlanAfter :: bytes
  qHighRisk :: bool
  qExpandedScope :: bool
  qStrategyChanged :: bool

record RecDecision =
  dAllow :: bool
  dAuthorizePlanReplacement :: bool
  dBlocked :: bool
  dMessage :: bytes
  dGeneration :: "64 word"
  dStopTurn :: bool
  dStopReason :: bytes

definition no_decision :: RecDecision where
  "no_decision = \<lparr>dAllow = False, dAuthorizePlanReplacement = False, dBlocked = False, dMessage = [],
     dGeneration = 0, dStopTurn = False, dStopReason = []\<rparr>"

datatype RecAction = ActionContinue | ActionContinueTask | ActionRevise | ActionOther bytes

record resolvePayload =
  rpAction :: RecAction
  rpFeedback :: bytes

definition DefaultReviseFeedback :: bytes where
  "DefaultReviseFeedback = ''The pending mutation was rejected. Do not retry the same action. Summarize the failure cause, narrow the scope, and propose a safer alternative before attempting another mutation.''"

section \<open>Identity of an operation\<close>

record codec =
  cSha :: "bytes \<Rightarrow> bytes"
  cNorm :: "bytes \<Rightarrow> bytes option"
  cStrings :: "bytes \<Rightarrow> (bytes \<Rightarrow> bytes option) option"
  cEdits :: "bytes \<Rightarrow> bytes list option"

definition normalizeArgs :: "codec \<Rightarrow> bytes \<Rightarrow> bytes" where
  "normalizeArgs cx args =
     (if args = [] then [] else case cNorm cx args of None \<Rightarrow> args | Some n \<Rightarrow> n)"

definition CallFingerprint :: "codec \<Rightarrow> bytes \<Rightarrow> bytes \<Rightarrow> bytes \<Rightarrow> bytes \<Rightarrow> bytes" where
  "CallFingerprint cx tool subject preview args =
     cSha cx (''tool='' @ TrimSpace tool @ [LF] @ ''subject='' @ TrimSpace subject @ [LF] @
       ''preview='' @ TrimSpace preview @ [LF] @ ''args='' @ normalizeArgs cx args @ [LF])"

definition ellipsis :: bytes where "ellipsis = map char_of [226, 128, 166::nat]"

definition ArgsSummary :: "codec \<Rightarrow> bytes \<Rightarrow> int \<Rightarrow> bytes" where
  "ArgsSummary cx args max0 =
     (let mx = (if max0 \<le> 0 then 200 else max0);
          s0 = TrimSpace args
      in if s0 = [] then []
         else (let s1 = (case cStrings cx args of
                  None \<Rightarrow> s0
                | Some m \<Rightarrow>
                    (let get = (\<lambda>k. case m k of None \<Rightarrow> [] | Some v \<Rightarrow> TrimSpace v)
                     in if get ''command'' \<noteq> [] then get ''command''
                        else if get ''path'' \<noteq> [] then get ''path''
                        else if get ''file_path'' \<noteq> [] then get ''file_path'' else s0));
                s = Join (Fields s1) '' ''
            in if int (length s) > mx then take (nat mx) s @ ellipsis else s))"

end
