(* ===== verification/RecState.thy ===== *)
theory RecState
  imports RecTypes "HOL-Library.AList"
begin

text \<open>
  \<open>internal/recovery/state.go\<close>: what the guard remembers. \<open>episodeBudget\<close> is shared by every task
  of an episode; \<open>taskRuntime\<close> is one task's evidence and per-operation counters; \<open>toTaskState\<close>,
  \<open>toPersistenceState\<close> and \<open>taskRuntimeFromState\<close> project it to and from snapshots. A Go map is
  an association list read with \<^const>\<open>map_of\<close> (nil and empty are the same to its readers), a set
  of keys is a set; methods on a nil receiver are handled where they are called.

  The lemmas bound the diagnosis notes and show what survives a restart.
\<close>

section \<open>Model\<close>

record episodeBudget =
  totalFailures :: "8 word"
  reviewRejects :: "8 word"
  stoppedOpRetries :: "8 word"
  stopped :: bool
  stopReason :: StopReason
  finalizationOffered :: bool
  finalizationConsumed :: bool

definition clear_episode :: episodeBudget where
  "clear_episode = \<lparr>totalFailures = 0, reviewRejects = 0, stoppedOpRetries = 0, stopped = False,
     stopReason = StopReasonNone, finalizationOffered = False, finalizationConsumed = False\<rparr>"

record activeFailure =
  evidence :: FailureEvent
  safeRetryUsed :: bool
  diagnosis :: "bytes list"

record taskRuntime =
  tEpisodeID :: bytes
  operationFailures :: "(bytes \<times> 8 word) list"
  stoppedOps :: "bytes set"
  lastFailure :: "activeFailure option"
  guidanceSent :: bool
  taskGrants :: "bytes set"
  taskGrantScope :: bytes

definition new_task :: "bytes \<Rightarrow> taskRuntime" where
  "new_task ep = \<lparr>tEpisodeID = ep, operationFailures = [], stoppedOps = {}, lastFailure = None,
     guidanceSent = False, taskGrants = {}, taskGrantScope = []\<rparr>"

definition maxDiagnosisNotes :: nat where "maxDiagnosisNotes = 4"
definition maxDiagnosisNoteBytes :: int where "maxDiagnosisNoteBytes = 400"
definition maxDiagnosisTotalBytes :: int where "maxDiagnosisTotalBytes = 1600"

definition task_empty :: "taskRuntime \<Rightarrow> bool" where
  "task_empty st =
     (if lastFailure st \<noteq> None \<or> guidanceSent st then False
      else if operationFailures st \<noteq> [] \<or> stoppedOps st \<noteq> {} then False
      else True)"

definition hasTaskGrant :: "taskRuntime \<Rightarrow> bytes \<Rightarrow> bool" where
  "hasTaskGrant st key = (key \<noteq> [] \<and> key \<in> taskGrants st)"

definition addTaskGrant :: "taskRuntime \<Rightarrow> bytes \<Rightarrow> taskRuntime" where
  "addTaskGrant st key = (if key = [] then st else st\<lparr>taskGrants := insert key (taskGrants st)\<rparr>)"

definition useTaskGrantScope :: "taskRuntime \<Rightarrow> bytes \<Rightarrow> taskRuntime" where
  "useTaskGrantScope st scope =
     (if scope = [] then st
      else (if taskGrantScope st \<noteq> [] \<and> taskGrantScope st \<noteq> scope then st\<lparr>taskGrants := {}\<rparr> else st)
             \<lparr>taskGrantScope := scope\<rparr>)"

definition hasTaskGrants :: "taskRuntime \<Rightarrow> bool" where
  "hasTaskGrants st = (taskGrants st \<noteq> {})"

definition clearTaskRecoveryState :: "taskRuntime \<Rightarrow> taskRuntime" where
  "clearTaskRecoveryState st =
     st\<lparr>operationFailures := [], stoppedOps := {}, lastFailure := None, guidanceSent := False\<rparr>"

definition operationFailureCount :: "taskRuntime \<Rightarrow> bytes \<Rightarrow> 8 word" where
  "operationFailureCount st fp =
     (if fp = [] then 0 else case map_of (operationFailures st) fp of None \<Rightarrow> 0 | Some n \<Rightarrow> n)"

definition isOperationStopped :: "taskRuntime \<Rightarrow> bytes \<Rightarrow> bool" where
  "isOperationStopped st fp =
     (if fp = [] then False
      else if fp \<in> stoppedOps st then True
      else operationFailureCount st fp \<ge> MaxOperationFailures)"

definition markOperationStopped :: "taskRuntime \<Rightarrow> bytes \<Rightarrow> taskRuntime" where
  "markOperationStopped st fp = (if fp = [] then st else st\<lparr>stoppedOps := insert fp (stoppedOps st)\<rparr>)"

definition failureCount :: "taskRuntime \<Rightarrow> 8 word" where
  "failureCount st =
     (case lastFailure st of
        None \<Rightarrow> 0
      | Some af \<Rightarrow>
          (let fp = TrimSpace (fFingerprint (evidence af))
           in if fp \<noteq> [] \<and> operationFailureCount st fp > 0 then operationFailureCount st fp else 0))"

definition safeRetryAvailable :: "taskRuntime \<Rightarrow> bool" where
  "safeRetryAvailable st = (case lastFailure st of None \<Rightarrow> False | Some af \<Rightarrow> \<not> safeRetryUsed af)"

definition diagnosisNotes :: "taskRuntime \<Rightarrow> bytes list" where
  "diagnosisNotes st = (case lastFailure st of None \<Rightarrow> [] | Some af \<Rightarrow> diagnosis af)"

definition cloneFailureEvent :: "FailureEvent \<Rightarrow> activeFailure \<Rightarrow> taskRuntime \<Rightarrow> FailureEvent" where
  "cloneFailureEvent ev af st =
     (let fp = TrimSpace (fFingerprint ev);
          cp = (if fp \<noteq> [] then ev\<lparr>fRepeatCount := uint (operationFailureCount st fp)\<rparr> else ev)
      in cp\<lparr>fSafeRetryLeft := (if safeRetryUsed af then 0 else 1), fDiagnosisNotes := diagnosis af\<rparr>)"

definition evidenceCopy :: "taskRuntime \<Rightarrow> FailureEvent option" where
  "evidenceCopy st = map_option (\<lambda>af. cloneFailureEvent (evidence af) af st) (lastFailure st)"

definition toTaskState :: "taskRuntime \<Rightarrow> Phase \<Rightarrow> TaskState option" where
  "toTaskState st phase =
     (if task_empty st then None
      else (let st0 = blank_TaskState\<lparr>tsPhase := phase, tsTailInjected := guidanceSent st, tsEpisodeID := tEpisodeID st\<rparr>
            in Some (case lastFailure st of
                 None \<Rightarrow> st0
               | Some af \<Rightarrow>
                   st0\<lparr>tsFailure := Some (cloneFailureEvent (evidence af) af st),
                       tsLastFailure := Some (cloneFailureEvent (evidence af) af st),
                       tsConsecutiveFails := uint (failureCount st),
                       tsPhase := (if phase = PhaseIdle then PhaseDiagnosing else phase)\<rparr>)))"

definition toPersistenceState :: "taskRuntime \<Rightarrow> TaskState option" where
  "toPersistenceState st =
     (case lastFailure st of
        None \<Rightarrow> None
      | Some af \<Rightarrow> Some (blank_TaskState\<lparr>tsLastFailure := Some (cloneFailureEvent (evidence af) af st)\<rparr>))"

definition isRuneStart :: "char \<Rightarrow> bool" where
  "isRuneStart c = (byte c < 128 \<or> 192 \<le> byte c)"

fun cutAtRune :: "bytes \<Rightarrow> nat \<Rightarrow> nat" where
  "cutAtRune s 0 = 0"
| "cutAtRune s (Suc n) = (if isRuneStart (s ! Suc n) then Suc n else cutAtRune s n)"

definition clipBytes :: "bytes \<Rightarrow> int \<Rightarrow> bytes" where
  "clipBytes s0 n =
     (let s = TrimSpace s0
      in if n \<le> 0 \<or> int (length s) \<le> n then s
         else (let cut = n - 3
               in if cut \<le> 0 then ellipsis else take (cutAtRune s (nat cut)) s @ ellipsis))"

definition clip :: "bytes \<Rightarrow> int \<Rightarrow> bytes" where
  "clip s0 n = (let s = TrimSpace s0 in if n \<le> 0 \<or> int (length s) \<le> n then s else clipBytes s n)"

definition clipDiagnosisNote :: "bytes \<Rightarrow> bytes" where
  "clipDiagnosisNote note = clipBytes (TrimSpace note) maxDiagnosisNoteBytes"

text \<open>The loop over the notes from the newest back; \<open>tot\<close> (\<open>total\<close> in the code) is the size kept so far.\<close>

fun keepNotes :: "bytes list \<Rightarrow> int \<Rightarrow> bool \<Rightarrow> bytes list" where
  "keepNotes [] tot any = []"
| "keepNotes (v # vs) tot any =
     (let n = clipDiagnosisNote v
      in if n = [] then keepNotes vs tot any
         else if tot + int (length n) > maxDiagnosisTotalBytes
         then (if \<not> any then (let m = clipBytes n maxDiagnosisTotalBytes in if m \<noteq> [] then [m] else []) else [])
         else n # keepNotes vs (tot + int (length n)) True)"

definition lastN :: "nat \<Rightarrow> 'a list \<Rightarrow> 'a list" where
  "lastN n xs = drop (length xs - n) xs"

definition trimDiagnosis :: "activeFailure \<Rightarrow> activeFailure" where
  "trimDiagnosis af =
     (let kept = rev (keepNotes (rev (lastN maxDiagnosisNotes (diagnosis af))) 0 False)
      in af\<lparr>diagnosis := kept, evidence := (evidence af)\<lparr>fDiagnosisNotes := kept\<rparr>\<rparr>)"

text \<open>\<open>None\<close> is the result false: nothing changed.\<close>

definition appendDiagnosisNote :: "activeFailure \<Rightarrow> bytes \<Rightarrow> activeFailure option" where
  "appendDiagnosisNote af note0 =
     (let note = clipDiagnosisNote note0
      in if note = [] then None
         else if note \<in> set (diagnosis af) then None
         else Some (trimDiagnosis (af\<lparr>diagnosis := diagnosis af @ [note]\<rparr>)))"

definition taskRuntimeFromState :: "TaskState \<Rightarrow> taskRuntime option" where
  "taskRuntimeFromState ts =
     (case (case tsLastFailure ts of Some f \<Rightarrow> Some f | None \<Rightarrow> tsFailure ts) of
        None \<Rightarrow> None
      | Some src \<Rightarrow>
          (let ev = src\<lparr>fClass := FailureClassNone, fRepeatCount := 0, fSafeRetryLeft := 0, fDiagnosisNotes := []\<rparr>;
               af = trimDiagnosis \<lparr>evidence = ev, safeRetryUsed = True, diagnosis = fDiagnosisNotes src\<rparr>
           in Some ((new_task [])\<lparr>lastFailure := Some af\<rparr>)))"

definition normalizeTaskID :: "bytes \<Rightarrow> bytes" where
  "normalizeTaskID i = (let t = TrimSpace i in if t = [] then ''root'' else t)"

section \<open>Bounded notes\<close>

lemma length_ellipsis [simp]: "length ellipsis = 3"
  by (simp add: ellipsis_def)

lemma cutAtRune_le: "cutAtRune s n \<le> n"
  by (induction n) auto

lemma clipBytes_length: "3 \<le> n \<Longrightarrow> int (length (clipBytes s n)) \<le> n"
  using cutAtRune_le [of "TrimSpace s" "nat (n - 3)"]
  by (auto simp: clipBytes_def Let_def)

lemma clipDiagnosisNote_length: "length (clipDiagnosisNote v) \<le> 400"
  using clipBytes_length [of maxDiagnosisNoteBytes "TrimSpace v"]
  by (simp add: clipDiagnosisNote_def maxDiagnosisNoteBytes_def)

definition notes_size :: "bytes list \<Rightarrow> int" where
  "notes_size ns = int (sum_list (map length ns))"

lemma keepNotes_bounds:
  "0 \<le> tot \<Longrightarrow> tot \<le> 1600 \<Longrightarrow> (\<not> any \<longrightarrow> tot = 0) \<Longrightarrow>
     length (keepNotes vs tot any) \<le> length vs \<and>
     tot + notes_size (keepNotes vs tot any) \<le> 1600 \<and>
     (\<forall>n \<in> set (keepNotes vs tot any). n \<noteq> [] \<and> length n \<le> 400)"
proof (induction vs arbitrary: tot any)
  case (Cons v vs)
  let ?n = "clipDiagnosisNote v"
  have n: "length ?n \<le> 400" by (rule clipDiagnosisNote_length)
  consider "?n = []" | "?n \<noteq> []" "tot + int (length ?n) > 1600" | "?n \<noteq> []" "tot + int (length ?n) \<le> 1600"
    by linarith
  then show ?case
  proof cases
    case 1
    with Cons.IH [of tot any] Cons.prems show ?thesis by simp
  next
    case 2
    then have "any" using Cons.prems(3) n by auto
    with 2 Cons.prems show ?thesis by (simp add: Let_def maxDiagnosisTotalBytes_def notes_size_def)
  next
    case 3
    with Cons.IH [of "tot + int (length ?n)" True] Cons.prems n show ?thesis
      by (auto simp: Let_def maxDiagnosisTotalBytes_def notes_size_def)
  qed
qed (simp add: notes_size_def)

lemma length_lastN [simp]: "length (lastN n xs) = min n (length xs)"
  by (simp add: lastN_def)

lemma trimDiagnosis_bounds:
  "length (diagnosis (trimDiagnosis af)) \<le> 4 \<and> notes_size (diagnosis (trimDiagnosis af)) \<le> 1600 \<and>
   (\<forall>n \<in> set (diagnosis (trimDiagnosis af)). n \<noteq> [] \<and> length n \<le> 400)"
  using keepNotes_bounds [of 0 False "rev (lastN maxDiagnosisNotes (diagnosis af))"]
  by (simp add: trimDiagnosis_def Let_def notes_size_def maxDiagnosisNotes_def rev_map [symmetric])

section \<open>Task states\<close>

lemma task_empty_new [simp]: "task_empty (new_task ep)"
  by (simp add: task_empty_def new_task_def)

lemma task_empty_clear [simp]: "task_empty (clearTaskRecoveryState st)"
  by (simp add: task_empty_def clearTaskRecoveryState_def)

text \<open>What a proposal can meet after a restart: no counter, no stopped operation, no grant, no retry.\<close>

definition harmless :: "taskRuntime \<Rightarrow> bool" where
  "harmless st \<longleftrightarrow> operationFailures st = [] \<and> stoppedOps st = {} \<and> taskGrants st = {} \<and>
     (\<forall>af. lastFailure st = Some af \<longrightarrow> safeRetryUsed af)"

lemma taskRuntimeFromState_harmless: "taskRuntimeFromState ts = Some st \<Longrightarrow> harmless st"
  by (auto simp: taskRuntimeFromState_def harmless_def new_task_def trimDiagnosis_def Let_def split: option.splits)

lemma harmless_counts:
  "harmless st \<Longrightarrow> operationFailureCount st fp = 0 \<and> \<not> isOperationStopped st fp \<and> \<not> safeRetryAvailable st"
  by (auto simp: harmless_def operationFailureCount_def isOperationStopped_def safeRetryAvailable_def
      MaxOperationFailures_def split: option.splits)

end
