(* ===== verification/RecDecision.thy ===== *)
theory RecDecision
  imports RecTypes
begin

text \<open>
  \<open>internal/recovery/decision.go\<close>: \<open>Decide\<close>, the pure routing of one proposed action from the
  facts the gate collected. Counters are 8-bit words as in the code. The lemmas give the routing
  as a table over the facts (\<open>Decide_route\<close>) and the cases in which a route is chosen.
\<close>

datatype Route = RouteBypass | RouteAllow | RouteReview | RouteStop | RouteStopTurn

fun route_String :: "Route \<Rightarrow> bytes" where
  "route_String RouteBypass = ''bypass''"
| "route_String RouteAllow = ''allow''"
| "route_String RouteReview = ''review''"
| "route_String RouteStop = ''stop''"
| "route_String RouteStopTurn = ''stop_turn''"

fun route_rank :: "Route \<Rightarrow> nat" where
  "route_rank RouteBypass = 0" | "route_rank RouteAllow = 1" | "route_rank RouteReview = 2"
| "route_rank RouteStop = 3" | "route_rank RouteStopTurn = 4"

text \<open>The constants are numbered in this order, from the most to the least permissive.\<close>

instantiation Route :: linorder
begin

definition less_eq_Route :: "Route \<Rightarrow> Route \<Rightarrow> bool" where
  "less_eq_Route a b \<longleftrightarrow> route_rank a \<le> route_rank b"

definition less_Route :: "Route \<Rightarrow> Route \<Rightarrow> bool" where
  "less_Route a b \<longleftrightarrow> route_rank a < route_rank b"

instance
proof
  fix a b :: Route
  show "a \<le> b \<Longrightarrow> b \<le> a \<Longrightarrow> a = b"
    by (cases a; cases b) (auto simp: less_eq_Route_def)
qed (auto simp: less_eq_Route_def less_Route_def)

end

record Facts =
  AutoMode :: bool
  kReadOnly :: bool
  kMutates :: bool
  kVerification :: bool
  HighRisk :: bool
  PlanTransition :: bool
  HasActiveFailure :: bool
  SameFailedOperation :: bool
  ExpandedScope :: bool
  kStrategyChanged :: bool
  SafeRetryAvailable :: bool
  FailureCount :: "8 word"
  EpisodeFailureCount :: "8 word"
  kReviewRejects :: "8 word"
  OperationAlreadyStopped :: bool
  kEpisodeStopped :: bool
  kStopReason :: StopReason

record DecisionResult =
  drRoute :: Route
  drConsumeSafeRetry :: bool
  drStopReason :: StopReason

definition routed :: "Route \<Rightarrow> DecisionResult" where
  "routed r = \<lparr>drRoute = r, drConsumeSafeRetry = False, drStopReason = StopReasonNone\<rparr>"

definition Decide :: "Facts \<Rightarrow> DecisionResult" where
  "Decide f =
     (if \<not> AutoMode f then routed RouteBypass
      else if kEpisodeStopped f then
        (if kReadOnly f \<and> \<not> kMutates f \<and> \<not> kVerification f \<and> \<not> PlanTransition f then routed RouteAllow
         else (let reason = (if kStopReason f = StopReasonNone then StopReasonEpisodeFailures else kStopReason f)
               in (routed RouteStopTurn)\<lparr>drStopReason := reason\<rparr>))
      else if PlanTransition f then routed RouteReview
      else if kReadOnly f \<and> \<not> kMutates f then routed RouteAllow
      else if \<not> kMutates f \<and> \<not> kVerification f then routed RouteAllow
      else if \<not> HasActiveFailure f then routed RouteAllow
      else if SafeRetryAvailable f then (routed RouteAllow)\<lparr>drConsumeSafeRetry := True\<rparr>
      else if \<not> SameFailedOperation f then routed RouteAllow
      else if OperationAlreadyStopped f \<and> SameFailedOperation f
        then (routed RouteStop)\<lparr>drStopReason := StopReasonOperationFailures\<rparr>
      else if FailureCount f \<ge> MaxOperationFailures \<and> SameFailedOperation f
        then (routed RouteStop)\<lparr>drStopReason := StopReasonOperationFailures\<rparr>
      else routed RouteReview)"

section \<open>Routing\<close>

text \<open>A proposal that executes: it mutates, or it verifies and is not read-only.\<close>

definition executes :: "Facts \<Rightarrow> bool" where
  "executes f \<longleftrightarrow> kMutates f \<or> (kVerification f \<and> \<not> kReadOnly f)"

text \<open>A proposal that only looks.\<close>

definition diagnosis_only :: "Facts \<Rightarrow> bool" where
  "diagnosis_only f \<longleftrightarrow> kReadOnly f \<and> \<not> kMutates f \<and> \<not> kVerification f \<and> \<not> PlanTransition f"

text \<open>The operation that failed, proposed again, with no free retry left.\<close>

definition repeats_failure :: "Facts \<Rightarrow> bool" where
  "repeats_failure f \<longleftrightarrow> executes f \<and> HasActiveFailure f \<and> SameFailedOperation f \<and> \<not> SafeRetryAvailable f"

lemma Decide_route:
  "drRoute (Decide f) =
     (if \<not> AutoMode f then RouteBypass
      else if kEpisodeStopped f then (if diagnosis_only f then RouteAllow else RouteStopTurn)
      else if PlanTransition f then RouteReview
      else if \<not> repeats_failure f then RouteAllow
      else if OperationAlreadyStopped f \<or> MaxOperationFailures \<le> FailureCount f then RouteStop
      else RouteReview)"
  by (auto simp: Decide_def routed_def diagnosis_only_def repeats_failure_def executes_def Let_def)

lemma Decide_reason:
  "drStopReason (Decide f) \<noteq> StopReasonNone \<longleftrightarrow> drRoute (Decide f) \<in> {RouteStop, RouteStopTurn}"
  by (auto simp: Decide_def routed_def Let_def)

lemma Decide_consumes:
  "drConsumeSafeRetry (Decide f) \<Longrightarrow>
     AutoMode f \<and> SafeRetryAvailable f \<and> HasActiveFailure f \<and> executes f \<and> drRoute (Decide f) = RouteAllow"
  by (auto simp: Decide_def routed_def executes_def Let_def split: if_splits)

text \<open>The four facts that make a stop can only make the route stricter.\<close>

definition calmer :: "Facts \<Rightarrow> Facts \<Rightarrow> bool" where
  "calmer f g \<longleftrightarrow>
     AutoMode f = AutoMode g \<and> kReadOnly f = kReadOnly g \<and> kMutates f = kMutates g \<and>
     kVerification f = kVerification g \<and> PlanTransition f = PlanTransition g \<and>
     HasActiveFailure f = HasActiveFailure g \<and> SameFailedOperation f = SameFailedOperation g \<and>
     (SafeRetryAvailable g \<longrightarrow> SafeRetryAvailable f) \<and> FailureCount f \<le> FailureCount g \<and>
     (OperationAlreadyStopped f \<longrightarrow> OperationAlreadyStopped g) \<and> (kEpisodeStopped f \<longrightarrow> kEpisodeStopped g)"

lemma Route_order [simp]: "RouteBypass \<le> r" "RouteAllow \<le> r \<longleftrightarrow> r \<noteq> RouteBypass" "r \<le> RouteStopTurn"
  "RouteReview \<le> RouteStop" "RouteStop \<le> RouteReview \<longleftrightarrow> False"
  by (cases r; simp add: less_eq_Route_def)+

section \<open>Properties\<close>

text \<open>More trouble never makes the guard more permissive: with the same proposal, more failures, a
  stopped operation, a spent retry or a stopped episode give the same route or a stricter one.\<close>

theorem Decide_monotone:
  assumes "calmer f g"
  shows "drRoute (Decide f) \<le> drRoute (Decide g)"
proof -
  have eq: "AutoMode f = AutoMode g" "diagnosis_only f = diagnosis_only g" "PlanTransition f = PlanTransition g"
    "executes f = executes g" and imp: "repeats_failure f \<Longrightarrow> repeats_failure g" "kEpisodeStopped f \<Longrightarrow> kEpisodeStopped g"
    "OperationAlreadyStopped f \<or> MaxOperationFailures \<le> FailureCount f \<Longrightarrow>
       OperationAlreadyStopped g \<or> MaxOperationFailures \<le> FailureCount g"
    using assms by (auto simp: calmer_def diagnosis_only_def executes_def repeats_failure_def)
  have "diagnosis_only g \<Longrightarrow> \<not> PlanTransition g \<and> \<not> repeats_failure f"
    using eq by (auto simp: diagnosis_only_def repeats_failure_def executes_def)
  with imp show ?thesis unfolding Decide_route eq by auto
qed

section \<open>Witnesses\<close>

definition first_failure :: Facts where
  "first_failure = \<lparr>AutoMode = True, kReadOnly = False, kMutates = True, kVerification = False, HighRisk = False,
     PlanTransition = False, HasActiveFailure = True, SameFailedOperation = True, ExpandedScope = False,
     kStrategyChanged = False, SafeRetryAvailable = False, FailureCount = 1, EpisodeFailureCount = 1,
     kReviewRejects = 0, OperationAlreadyStopped = False, kEpisodeStopped = False, kStopReason = StopReasonNone\<rparr>"

theorem Decide_monotone_witness:
  "drRoute (Decide first_failure) \<le> drRoute (Decide (first_failure\<lparr>FailureCount := 3\<rparr>))"
  by (rule Decide_monotone) (simp add: calmer_def first_failure_def word_le_nat_alt)

end
