(* ===== verification/GoPath.thy ===== *)
theory GoPath
  imports GoBase
begin

text \<open>
  The lexical functions of \<open>path/filepath\<close> on slash-separated paths: \<open>Base\<close>, \<open>Clean\<close>, \<open>Dir\<close>.
\<close>

definition trim_slashes :: "bytes \<Rightarrow> bytes" where
  "trim_slashes s = rev (dropWhile (\<lambda>c. c = CHR ''/'') (rev s))"

definition path_Base :: "bytes \<Rightarrow> bytes" where
  "path_Base p =
     (if p = [] then ''.''
      else (let t = trim_slashes p
            in if t = [] then ''/''
               else rev (takeWhile (\<lambda>c. c \<noteq> CHR ''/'') (rev t))))"

text \<open>\<open>filepath.Clean\<close>: elements are processed from the left; \<open>rooted\<close> paths drop a leading \<open>..\<close>.\<close>

fun clean_elems :: "bool \<Rightarrow> bytes list \<Rightarrow> bytes list \<Rightarrow> bytes list" where
  "clean_elems rooted [] acc = rev acc"
| "clean_elems rooted (e # es) acc =
     (if e = [] \<or> e = ''.'' then clean_elems rooted es acc
      else if e = ''..'' then
        (case acc of
           [] \<Rightarrow> if rooted then clean_elems rooted es [] else clean_elems rooted es [''..'']
         | a # acc' \<Rightarrow> if a = ''..'' then clean_elems rooted es (''..'' # acc) else clean_elems rooted es acc')
      else clean_elems rooted es (e # acc))"

definition path_Clean :: "bytes \<Rightarrow> bytes" where
  "path_Clean p =
     (if p = [] then ''.''
      else (let rooted = (hd p = CHR ''/''); es = clean_elems rooted (split_byte CHR ''/'' p) []
            in if rooted then ''/'' @ Join es ''/''
               else if es = [] then ''.'' else Join es ''/''))"

definition path_Dir :: "bytes \<Rightarrow> bytes" where
  "path_Dir p =
     path_Clean (case LastIndexByte p CHR ''/'' of Some i \<Rightarrow> take (i + 1) p | None \<Rightarrow> [])"

end
