(* ===== verification/RecRules.thy ===== *)
theory RecRules
  imports RecTypes ShellSafe GoPath
begin

text \<open>
  \<open>internal/recovery/rules.go\<close>: the host's classifiers. \<open>QualifyingFailure\<close> decides which
  results count as failures, \<open>riskBoundaryForProposal\<close> which commands are high risk and which
  of them a task grant may cover, \<open>ScopeExpanded\<close> whether a proposal writes outside the paths of
  the failure.
\<close>

section \<open>Failures\<close>

definition QualifyingFailure :: "Observation \<Rightarrow> bool" where
  "QualifyingFailure obs =
     (if oSuccess obs \<or> oBlocked obs \<or> oUserRejected obs \<or> oProviderError obs \<or> oCancelled obs \<or> oEmptySearch obs
      then False
      else if oMutates obs then True
      else if oVerification obs then True
      else \<not> oReadOnly obs \<and> TrimSpace (oTool obs) \<noteq> [])"

definition transientFailureText :: "bytes \<Rightarrow> bool" where
  "transientFailureText text0 =
     (let text = ToLower (TrimSpace text0)
      in if text = [] then False
         else list_ex (Contains text) [''command timed out'', ''timed out after'', ''timed out (>'',
                ''context deadline exceeded'', ''deadline exceeded'', ''execution timeout''])"

definition ClassifyFailure :: "Observation \<Rightarrow> FailureClass" where
  "ClassifyFailure obs =
     (if transientFailureText (oErrSummary obs) \<or> transientFailureText (oOutput obs) then FailureClassTransient
      else if oVerification obs then FailureClassVerification
      else if oMutates obs then FailureClassMutation
      else FailureClassExecution)"

definition normalizeCommand :: "bytes \<Rightarrow> bytes" where
  "normalizeCommand s = Join (Fields (TrimSpace s)) '' ''"

definition IsSafeVerificationRetry :: "codec \<Rightarrow> FailureEvent option \<Rightarrow> Proposal \<Rightarrow> bool" where
  "IsSafeVerificationRetry cx failure q =
     (case failure of
        None \<Rightarrow> False
      | Some f \<Rightarrow>
          if \<not> fVerification f then False
          else if fSafeRetryLeft f \<le> 0 then False
          else if \<not> qVerification q \<or> qHighRisk q \<or> qExpandedScope q \<or> qStrategyChanged q then False
          else if TrimSpace (qTool q) \<noteq> TrimSpace (fTool f) then False
          else if normalizeCommand (qSubject q) \<noteq> [] \<and> normalizeCommand (fSubject f) \<noteq> []
               then normalizeCommand (qSubject q) = normalizeCommand (fSubject f)
          else CallFingerprint cx (qTool q) (qSubject q) [] (qArgs q) =
               CallFingerprint cx (fTool f) (fSubject f) [] (fArgs f))"

definition ClassifyEmptySearch :: "bytes \<Rightarrow> bool \<Rightarrow> bool \<Rightarrow> bytes \<Rightarrow> bool" where
  "ClassifyEmptySearch tool success readOnly output =
     (if \<not> success \<or> \<not> readOnly then False
      else if TrimSpace tool \<notin> {''grep'', ''glob'', ''ls'', ''code_index'', ''codeindex''} then False
      else (let res = TrimSpace output
            in if res = [] then True
               else list_ex (Contains (ToLower res)) [''no matches'', ''no files found'', ''0 matches'',
                      ''not found'', ''no results'']))"

definition commandFromArgs :: "codec \<Rightarrow> bytes \<Rightarrow> bytes" where
  "commandFromArgs cx args =
     (if args = [] then []
      else case cStrings cx args of
             None \<Rightarrow> []
           | Some m \<Rightarrow> (case m ''command'' of None \<Rightarrow> [] | Some c \<Rightarrow> TrimSpace c))"

definition IsDiagnosticSuccess :: "shell \<Rightarrow> codec \<Rightarrow> Observation \<Rightarrow> bool" where
  "IsDiagnosticSuccess sh cx obs =
     (if \<not> oSuccess obs \<or> oMutates obs \<or> oVerification obs then False
      else (let tool = TrimSpace (oTool obs)
            in if tool = ''bash'' then CommandIsReadOnly sh (commandFromArgs cx (oArgs obs)) \<noteq> None
               else if tool \<in> {''read_file'', ''grep'', ''glob'', ''ls'', ''code_index'', ''codeindex''}
                    then oReadOnly obs
               else False))"

fun uniqueFrom :: "bytes set \<Rightarrow> bytes list \<Rightarrow> bytes list" where
  "uniqueFrom seen [] = []"
| "uniqueFrom seen (s # ss) =
     (let t = TrimSpace s
      in if t = [] then uniqueFrom seen ss
         else if t \<in> seen then uniqueFrom seen ss
         else t # uniqueFrom (insert t seen) ss)"

definition uniqueStrings :: "bytes list \<Rightarrow> bytes list" where
  "uniqueStrings ss = uniqueFrom {} ss"

definition pathsFromArgs :: "codec \<Rightarrow> bytes \<Rightarrow> bytes list" where
  "pathsFromArgs cx args =
     (if args = [] then []
      else case cStrings cx args of
             None \<Rightarrow> []
           | Some m \<Rightarrow>
               uniqueStrings (List.map_filter
                 (\<lambda>k. case m k of None \<Rightarrow> None
                      | Some v \<Rightarrow> if TrimSpace v \<noteq> [] then Some (TrimSpace v) else None)
                 [''path'', ''file_path'', ''file'', ''target'', ''destination'',
                  ''source_path'', ''destination_path'', ''old_path'', ''new_path'']))"

section \<open>Commands\<close>

definition containsAny :: "bytes list \<Rightarrow> bytes list \<Rightarrow> bool" where
  "containsAny flds values = list_ex (\<lambda>f. f \<in> set values) flds"

definition lowerFields :: "bytes list \<Rightarrow> bytes list" where
  "lowerFields flds = map (\<lambda>f. ToLower (TrimSpace f)) flds"

definition hasGlobalFlag :: "bytes list \<Rightarrow> bool" where
  "hasGlobalFlag flds = containsAny flds [''-g'', ''--global'', ''--system'', ''--user'']"

fun trimLeadingOptions :: "bytes list \<Rightarrow> bytes list" where
  "trimLeadingOptions [] = []"
| "trimLeadingOptions (a # as) = (if HasPrefix a ''-'' then trimLeadingOptions as else a # as)"

text \<open>\<open>None\<close> is \<open>ok = false\<close>.\<close>

definition envSwitch :: "bytes \<Rightarrow> bool" where
  "envSwitch lower = (lower \<in> {''-i'', ''--ignore-environment'', ''-0'', ''--null''})"

definition envOption :: "bytes \<Rightarrow> bool" where
  "envOption lower = (lower \<in> {''-u'', ''--unset'', ''-c'', ''--chdir''})"

fun unwrapEnvCommand :: "bytes list \<Rightarrow> bytes list option" where
  "unwrapEnvCommand [] = None"
| "unwrapEnvCommand (arg # args) =
     (let lower = ToLower arg
      in if envSwitch lower then unwrapEnvCommand args
         else if envOption lower
              then (case args of [] \<Rightarrow> None | _ # args' \<Rightarrow> unwrapEnvCommand args')
         else if HasPrefix lower ''--unset='' \<or> HasPrefix lower ''--chdir='' then unwrapEnvCommand args
         else if HasPrefix arg ''-'' then None
         else if Contains arg ''='' then unwrapEnvCommand args
         else Some (arg # args))"

fun unwrapCommandBuiltin :: "bytes list \<Rightarrow> bytes list option" where
  "unwrapCommandBuiltin [] = None"
| "unwrapCommandBuiltin (a # args) =
     (if ToLower a = ''-p'' then unwrapCommandBuiltin args
      else if ToLower a = ''-v'' then Some []
      else if HasPrefix a ''-'' then None
      else Some (a # args))"

lemma unwrapEnvCommand_length: "unwrapEnvCommand args = Some w \<Longrightarrow> length w \<le> length args"
proof (induction args rule: unwrapEnvCommand.induct)
  case (2 arg args)
  then show ?case
    by (cases args) (fastforce simp: Let_def split: if_splits)+
qed simp

lemma unwrapCommandBuiltin_length: "unwrapCommandBuiltin args = Some w \<Longrightarrow> length w \<le> length args"
  by (induction args) (auto split: if_splits)

lemma trimLeadingOptions_length: "length (trimLeadingOptions args) \<le> length args"
  by (induction args) auto

definition readMethod :: "bytes \<Rightarrow> bool" where
  "readMethod m = (m \<in> {''GET'', ''HEAD'', ''OPTIONS''})"

definition gitCommandHighRisk :: "bytes list \<Rightarrow> bool" where
  "gitCommandHighRisk args =
     (if containsAny args [''push'', ''clean'', ''prune'', ''filter-branch'', ''filter-repo''] then True
      else if containsAny args [''gc''] then True
      else if containsAny args [''reset''] \<and> containsAny args [''--hard'', ''--merge'', ''--keep''] then True
      else if containsAny args [''checkout''] then True
      else if containsAny args [''switch''] \<and> containsAny args [''--discard-changes''] then True
      else if containsAny args [''restore''] \<and> (\<not> containsAny args [''--staged''] \<or> containsAny args [''--worktree'']) then True
      else if containsAny args [''branch''] \<and> containsAny args [''-d'', ''--delete'', ''-f'', ''--force''] then True
      else if containsAny args [''tag''] \<and> containsAny args [''-d'', ''--delete'', ''-f'', ''--force''] then True
      else if containsAny args [''stash''] \<and> containsAny args [''clear'', ''drop''] then True
      else if containsAny args [''reflog''] \<and> containsAny args [''expire'', ''delete''] then True
      else if containsAny args [''worktree''] \<and> containsAny args [''remove'', ''prune''] then True
      else if containsAny args [''update-ref''] \<and> containsAny args [''-d'', ''--delete'', ''--stdin''] then True
      else if containsAny args [''remote''] \<and> containsAny args [''add'', ''remove'', ''rm'', ''rename'', ''set-url'',
              ''set-head'', ''set-branches'', ''prune'', ''update''] then True
      else if containsAny args [''config''] then
        (if containsAny args [''--unset'', ''--unset-all'', ''--add'', ''--replace-all'', ''--rename-section'',
              ''--remove-section'', ''--edit'', ''-e''] then True
         else \<not> containsAny args [''--get'', ''--get-all'', ''--get-regexp'', ''--get-urlmatch'', ''--list'', ''-l'', ''--name-only''])
      else False)"

definition curlBodyFlag :: "bytes \<Rightarrow> bool" where
  "curlBodyFlag arg =
     (let lower = ToLower arg
      in arg = ''-d'' \<or> lower \<in> {''--data'', ''--data-ascii'', ''--data-binary'', ''--data-raw'', ''--data-urlencode'', ''--json''} \<or>
         arg = ''-F'' \<or> lower \<in> {''--form'', ''--form-string''} \<or> arg = ''-T'' \<or> lower = ''--upload-file'')"

definition curlBodyPrefix :: "bytes \<Rightarrow> bool" where
  "curlBodyPrefix arg =
     (let lower = ToLower arg
      in (list_ex (HasPrefix arg) [''-d'', ''-F'', ''-T''] \<and> length arg > 2) \<or>
         list_ex (HasPrefix lower) [''--data='', ''--data-ascii='', ''--data-binary='', ''--data-raw='',
           ''--data-urlencode='', ''--json='', ''--form='', ''--form-string='', ''--upload-file=''])"

definition curlMethodFlag :: "bytes \<Rightarrow> bool" where
  "curlMethodFlag arg = (arg = ''-X'' \<or> ToLower arg = ''--request'')"

text \<open>The loop over the arguments with the method found so far; \<open>args\<close> still holds what follows.\<close>

fun curlLoop :: "bytes list \<Rightarrow> bytes \<Rightarrow> bool" where
  "curlLoop [] m = (m \<noteq> [] \<and> \<not> readMethod m)"
| "curlLoop (arg # args) m =
     (let lower = ToLower arg
      in if curlMethodFlag arg then (case args of [] \<Rightarrow> True | a # _ \<Rightarrow> curlLoop args (ToUpper a))
         else if HasPrefix arg ''-X'' \<and> length arg > 2 then curlLoop args (ToUpper (drop 2 arg))
         else if HasPrefix lower ''--request='' then curlLoop args (ToUpper (drop (length ''--request='') arg))
         else if curlBodyFlag arg then True
         else if curlBodyPrefix arg then True
         else curlLoop args m)"

definition curlCommandHighRisk :: "bytes list \<Rightarrow> bool" where
  "curlCommandHighRisk args = curlLoop args []"

fun wgetCommandHighRisk :: "bytes list \<Rightarrow> bool" where
  "wgetCommandHighRisk [] = False"
| "wgetCommandHighRisk (arg # args) =
     (if arg \<in> {''--post-data'', ''--post-file''} \<or> HasPrefix arg ''--post-data='' \<or> HasPrefix arg ''--post-file='' then True
      else if arg = ''--method'' then (case args of [] \<Rightarrow> True | a # _ \<Rightarrow> \<not> readMethod (ToUpper a))
      else if HasPrefix arg ''--method='' then \<not> readMethod (ToUpper (TrimPrefix arg ''--method=''))
      else wgetCommandHighRisk args)"

definition ghGroups :: "bytes list" where
  "ghGroups = [''api'', ''pr'', ''issue'', ''repo'', ''release'', ''workflow'', ''run'',
           ''secret'', ''variable'', ''label'', ''gist'', ''ssh-key'', ''gpg-key'',
           ''cache'', ''auth'', ''alias'', ''config'', ''extension'', ''project'', ''codespace'']"

fun ghCommandGroup :: "bytes list \<Rightarrow> bytes \<times> bytes list" where
  "ghCommandGroup [] = ([], [])"
| "ghCommandGroup (arg # args) =
     (if arg \<in> set ghGroups
      then (arg, args) else ghCommandGroup args)"

definition ghFieldFlag :: "bytes \<Rightarrow> bool" where
  "ghFieldFlag arg = (arg \<in> {''-f'', ''--raw-field'', ''--field'', ''--input''})"

fun ghAPILoop :: "bytes list \<Rightarrow> bytes \<Rightarrow> bool \<Rightarrow> bool" where
  "ghAPILoop [] m hasBody = (if m = [] then hasBody else \<not> readMethod m)"
| "ghAPILoop (arg # args) m hasBody =
     (if arg = ''-x'' \<or> arg = ''--method'' then (case args of [] \<Rightarrow> True | a # _ \<Rightarrow> ghAPILoop args (ToUpper a) hasBody)
      else if HasPrefix arg ''-x'' \<and> length arg > 2 then ghAPILoop args (ToUpper (drop 2 arg)) hasBody
      else if HasPrefix arg ''--method='' then ghAPILoop args (ToUpper (TrimPrefix arg ''--method='')) hasBody
      else if ghFieldFlag arg then ghAPILoop args m True
      else if HasPrefix arg ''-f'' \<and> length arg > 2 then ghAPILoop args m True
      else if HasPrefix arg ''--raw-field='' \<or> HasPrefix arg ''--field='' \<or> HasPrefix arg ''--input='' then ghAPILoop args m True
      else ghAPILoop args m hasBody)"

definition ghAPICommandHighRisk :: "bytes list \<Rightarrow> bool" where
  "ghAPICommandHighRisk args = ghAPILoop args [] False"

definition ghCommandHighRisk :: "bytes list \<Rightarrow> bool" where
  "ghCommandHighRisk args =
     (case ghCommandGroup args of (grp, rest) \<Rightarrow>
        if grp = ''api'' then ghAPICommandHighRisk rest
        else if grp = ''pr'' then containsAny rest [''create'', ''close'', ''comment'', ''edit'', ''merge'', ''ready'', ''reopen'', ''review'']
        else if grp = ''issue'' then containsAny rest [''create'', ''close'', ''comment'', ''delete'', ''edit'', ''reopen'',
               ''transfer'', ''pin'', ''unpin'', ''lock'', ''unlock'']
        else if grp = ''repo'' then containsAny rest [''create'', ''delete'', ''archive'', ''edit'', ''fork'', ''rename'', ''sync'']
        else if grp = ''release'' then containsAny rest [''create'', ''delete'', ''edit'', ''upload'']
        else if grp = ''workflow'' then containsAny rest [''run'', ''enable'', ''disable'']
        else if grp = ''run'' then containsAny rest [''cancel'', ''delete'', ''rerun'']
        else if grp \<in> {''secret'', ''variable''} then containsAny rest [''set'', ''delete'']
        else if grp = ''label'' then containsAny rest [''create'', ''delete'', ''edit'', ''clone'']
        else if grp = ''gist'' then containsAny rest [''create'', ''delete'', ''edit'']
        else if grp \<in> {''ssh-key'', ''gpg-key''} then containsAny rest [''add'', ''delete'']
        else if grp = ''cache'' then containsAny rest [''delete'']
        else if grp = ''auth'' then containsAny rest [''login'', ''logout'', ''refresh'', ''setup-git'', ''switch'']
        else if grp = ''alias'' then containsAny rest [''set'', ''delete'']
        else if grp = ''config'' then containsAny rest [''set'', ''clear'']
        else if grp = ''extension'' then containsAny rest [''install'', ''remove'', ''upgrade'', ''create'']
        else if grp \<in> {''project'', ''codespace''} then \<not> containsAny rest [''list'', ''view'', ''status'', ''logs'']
        else False)"

definition httpMethod :: "bytes \<Rightarrow> bool" where
  "httpMethod m = (m \<in> {''POST'', ''PUT'', ''PATCH'', ''DELETE'', ''CONNECT'', ''PURGE'', ''LOCK'', ''UNLOCK''})"

fun httpCommandHighRisk :: "bytes list \<Rightarrow> bool" where
  "httpCommandHighRisk [] = False"
| "httpCommandHighRisk (arg # args) =
     (if httpMethod (ToUpper arg) then True
      else if ToLower arg \<in> {''--raw'', ''--form''} \<or> HasPrefix (ToLower arg) ''--raw='' then True
      else if HasPrefix arg ''-'' \<or> Contains arg ''://'' then httpCommandHighRisk args
      else if Contains arg ''=='' \<and> \<not> Contains arg '':='' \<and> \<not> Contains arg ''@'' then httpCommandHighRisk args
      else if Contains arg ''='' \<or> Contains arg ''@'' then True
      else httpCommandHighRisk args)"

section \<open>High-risk commands\<close>

definition baseOf :: "bytes \<Rightarrow> bytes" where
  "baseOf word = ToLower (path_Base word)"

definition alwaysHighRisk :: "bytes list" where
  "alwaysHighRisk =
     [''rm'', ''rmdir'', ''unlink'', ''shred'', ''dd'', ''mkfs'', ''chmod'', ''chown'',
      ''docker'', ''kubectl'', ''terraform'',
      ''remove-item'', ''clear-content'', ''set-content'', ''add-content'', ''move-item'', ''copy-item'',
      ''new-item'', ''rename-item'', ''invoke-restmethod'', ''invoke-webrequest'', ''start-process'',
      ''stop-process'', ''restart-computer'', ''stop-computer'', ''format-volume'', ''clear-disk'',
      ''initialize-disk'', ''powershell'', ''powershell.exe'', ''pwsh'', ''pwsh.exe'', ''cmd'', ''cmd.exe'',
      ''del'', ''erase'', ''rd'', ''format'', ''diskpart'',
      ''aws'', ''gcloud'', ''az'', ''oci'', ''doctl'', ''heroku'', ''vercel'', ''netlify'',
      ''flyctl'', ''railway'', ''firebase'', ''wrangler'', ''cloudflared'', ''ssh'', ''scp'',
      ''sftp'', ''rsync'', ''psql'', ''mysql'', ''redis-cli'', ''mongosh'']"

text \<open>The branches of the switch that do not unwrap another command.\<close>

definition toolHighRisk :: "bytes \<Rightarrow> bytes list \<Rightarrow> bytes list \<Rightarrow> bool" where
  "toolHighRisk base rawArgs args =
     (if base \<in> set [''sudo'', ''doas'', ''pkexec'', ''xargs''] then True
      else if base \<in> set alwaysHighRisk then True
      else if base = ''find'' then containsAny args [''-delete'', ''-exec'', ''-execdir'', ''-ok'', ''-okdir'']
      else if base = ''git'' then gitCommandHighRisk args
      else if base = ''curl'' then curlCommandHighRisk rawArgs
      else if base = ''wget'' then wgetCommandHighRisk args
      else if base = ''gh'' then ghCommandHighRisk args
      else if base \<in> set [''http'', ''https'', ''xh''] then httpCommandHighRisk args
      else if base = ''npm'' then containsAny args [''publish'', ''unpublish'', ''link'', ''unlink'', ''config''] \<or> hasGlobalFlag args
      else if base = ''pnpm'' then containsAny args [''publish'', ''deploy'', ''link'', ''unlink'', ''setup''] \<or> hasGlobalFlag args \<or>
             (containsAny args [''env''] \<and> containsAny args [''use'', ''remove''] \<and> containsAny args [''--global''])
      else if base = ''yarn'' then containsAny args [''publish'', ''link'', ''unlink''] \<or> hasGlobalFlag args \<or>
             (containsAny args [''global''] \<and> containsAny args [''add'', ''remove'', ''upgrade''])
      else if base \<in> set [''pip'', ''pip3'', ''pipx''] then containsAny args [''install'', ''uninstall'', ''inject'', ''upgrade'']
      else if base \<in> set [''brew'', ''apt'', ''apt-get'', ''dnf'', ''yum'', ''apk'', ''pacman'']
        then containsAny args [''install'', ''add'', ''remove'', ''uninstall'', ''upgrade'', ''update'']
      else if base = ''go'' then
        (if containsAny args [''install'', ''clean''] then True
         else containsAny args [''env''] \<and> containsAny args [''-w'', ''-u''])
      else if base = ''cargo'' then containsAny args [''install'', ''uninstall'', ''publish'', ''yank'', ''login'', ''logout'']
      else if base = ''composer'' then (containsAny args [''config''] \<and> hasGlobalFlag args) \<or>
             (containsAny args [''global''] \<and> containsAny args [''require'', ''remove'', ''update'', ''install'', ''config'', ''exec''])
      else if base = ''poetry'' then containsAny args [''publish'', ''config'', ''self'']
      else if base = ''uv'' then containsAny args [''publish'', ''tool'']
      else if base = ''dotnet'' then containsAny args [''push'', ''delete''] \<or> hasGlobalFlag args
      else if base \<in> set [''gem'', ''bundle'', ''bundler''] then containsAny args [''install'', ''uninstall'', ''update'',
             ''add'', ''remove'', ''push'', ''yank'', ''publish'']
      else False)"

function commandFieldsHighRisk :: "bytes list \<Rightarrow> bool" where
  "commandFieldsHighRisk flds =
     (case flds of [] \<Rightarrow> True
      | word # rawArgs \<Rightarrow>
          (let base = baseOf word
           in if base = ''env'' then
                (case unwrapEnvCommand rawArgs of None \<Rightarrow> True | Some wrapped \<Rightarrow> commandFieldsHighRisk wrapped)
              else if base = ''command'' then
                (case unwrapCommandBuiltin rawArgs of None \<Rightarrow> True
                 | Some wrapped \<Rightarrow> wrapped \<noteq> [] \<and> commandFieldsHighRisk wrapped)
              else if base = ''nohup'' then commandFieldsHighRisk (trimLeadingOptions rawArgs)
              else toolHighRisk base rawArgs (lowerFields rawArgs)))"
  by pat_completeness auto
termination
  by (relation "measure length")
     (auto simp: less_Suc_eq_le trimLeadingOptions_length
        dest: unwrapEnvCommand_length unwrapCommandBuiltin_length)

declare commandFieldsHighRisk.simps [simp del]

section \<open>Known safe mutations\<close>

text \<open>Options of git that take a value are skipped with it.\<close>

definition gitValueOption :: "bytes \<Rightarrow> bool" where
  "gitValueOption arg = (arg \<in> {''-c'', ''--git-dir'', ''--work-tree'', ''--namespace''})"

fun gitSubcommand :: "bytes list \<Rightarrow> bytes" where
  "gitSubcommand [] = []"
| "gitSubcommand (arg # args) =
     (if gitValueOption arg then (case args of [] \<Rightarrow> [] | _ # args' \<Rightarrow> gitSubcommand args')
      else if HasPrefix arg ''-'' then gitSubcommand args
      else ToLower arg)"

definition gitSafeSubcommands :: "bytes list" where
  "gitSafeSubcommands =
     [''add'', ''commit'', ''status'', ''diff'', ''log'', ''show'', ''rev-parse'', ''rev-list'', ''describe'',
      ''blame'', ''grep'', ''ls-files'', ''ls-tree'', ''cat-file'', ''for-each-ref'', ''name-rev'', ''shortlog'',
      ''whatchanged'', ''cherry'', ''fetch'', ''pull'', ''clone'', ''init'', ''merge'', ''rebase'', ''cherry-pick'',
      ''revert'', ''apply'', ''am'', ''switch'', ''reset'', ''branch'', ''tag'', ''stash'', ''restore'', ''worktree'',
      ''remote'', ''config'', ''reflog'']"

definition gitCommandKnownSafe :: "bytes list \<Rightarrow> bool" where
  "gitCommandKnownSafe args = (gitSubcommand args \<in> set gitSafeSubcommands)"

text \<open>The branches of \<open>commandFieldsKnownSafeMutation\<close> that decide by themselves; \<open>None\<close> falls
  through to the read-only tables.\<close>

definition toolKnownSafe :: "bytes \<Rightarrow> bytes list \<Rightarrow> bytes list \<Rightarrow> bool option" where
  "toolKnownSafe base rawArgs args =
     (if base = ''git'' then Some (gitCommandKnownSafe args)
      else if base = ''curl'' then Some (\<not> curlCommandHighRisk rawArgs)
      else if base = ''wget'' then Some (\<not> wgetCommandHighRisk args)
      else if base = ''gh'' then Some (\<not> ghCommandHighRisk args)
      else if base \<in> set [''http'', ''https'', ''xh''] then Some (\<not> httpCommandHighRisk args)
      else if base \<in> set [''sed'', ''gofmt'', ''goimports'', ''rustfmt'', ''prettier'', ''biome'', ''eslint'', ''black'', ''ruff'',
             ''cp'', ''mv'', ''mkdir'', ''touch'', ''ln''] then Some True
      else if base = ''npm'' then Some (containsAny args [''install'', ''add'', ''remove'', ''uninstall'', ''update'', ''dedupe''] \<and> \<not> hasGlobalFlag args)
      else if base = ''pnpm'' then Some (containsAny args [''install'', ''add'', ''remove'', ''update'', ''dedupe'', ''import''] \<and> \<not> hasGlobalFlag args)
      else if base = ''yarn'' then Some (containsAny args [''install'', ''add'', ''remove'', ''up'', ''upgrade'', ''dedupe''] \<and>
             \<not> hasGlobalFlag args \<and> \<not> containsAny args [''global''])
      else if base = ''go'' then Some (containsAny args [''get'', ''mod'', ''work'', ''fmt'', ''build'', ''test''] \<and>
             \<not> containsAny args [''install'', ''clean''])
      else if base = ''cargo'' then Some (containsAny args [''add'', ''remove'', ''update'', ''build'', ''check'', ''test'', ''fmt'', ''fix'', ''clippy''])
      else if base = ''composer'' then Some (containsAny args [''require'', ''remove'', ''update'', ''install'', ''dump-autoload''] \<and>
             \<not> hasGlobalFlag args \<and> \<not> containsAny args [''global''])
      else if base = ''poetry'' then Some (containsAny args [''add'', ''remove'', ''install'', ''update'', ''lock'', ''sync''])
      else if base = ''uv'' then Some (containsAny args [''add'', ''remove'', ''sync'', ''lock''])
      else if base = ''dotnet'' then Some (containsAny args [''add'', ''remove'', ''restore'', ''build'', ''test'', ''format''] \<and> \<not> hasGlobalFlag args)
      else None)"

function commandFieldsKnownSafeMutation :: "shell \<Rightarrow> bytes list \<Rightarrow> bool" where
  "commandFieldsKnownSafeMutation sh flds =
     (if flds = [] \<or> commandFieldsHighRisk flds then False
      else (let base = baseOf (hd flds); rawArgs = tl flds
            in if base = ''env'' then
                 (case unwrapEnvCommand rawArgs of None \<Rightarrow> False
                  | Some wrapped \<Rightarrow> commandFieldsKnownSafeMutation sh wrapped)
               else if base = ''command'' then
                 (case unwrapCommandBuiltin rawArgs of None \<Rightarrow> False
                  | Some wrapped \<Rightarrow> wrapped = [] \<or> commandFieldsKnownSafeMutation sh wrapped)
               else if base = ''nohup'' then
                 (let wrapped = trimLeadingOptions rawArgs
                  in wrapped \<noteq> [] \<and> commandFieldsKnownSafeMutation sh wrapped)
               else (case toolKnownSafe base rawArgs (lowerFields rawArgs) of
                       Some b \<Rightarrow> b
                     | None \<Rightarrow> CommandIsReadOnly sh (Join flds '' '') \<noteq> None)))"
  by pat_completeness auto
termination
proof (relation "measure (\<lambda>(sh, flds). length flds)")
  have tl: "length w \<le> length (tl flds) \<Longrightarrow> flds \<noteq> [] \<Longrightarrow> length w < length flds" for w flds :: "bytes list"
    by (cases flds) auto
qed (auto simp: neq_Nil_conv less_Suc_eq_le trimLeadingOptions_length
       dest: unwrapEnvCommand_length unwrapCommandBuiltin_length)

declare commandFieldsKnownSafeMutation.simps [simp del]

section \<open>Task grants\<close>

record taskGrantBoundary =
  tgKey :: bytes
  tgDisplay :: bytes

definition noGrant :: taskGrantBoundary where "noGrant = \<lparr>tgKey = [], tgDisplay = []\<rparr>"

text \<open>The positional arguments after \<open>push\<close>; \<open>None\<close> for an option that changes the behaviour.\<close>

definition pushQuietOption :: "bytes \<Rightarrow> bool" where
  "pushQuietOption arg = (arg \<in> {''-u'', ''--set-upstream'', ''-q'', ''--quiet'', ''-v'', ''--verbose'', ''--progress'', ''--no-progress''})"

fun pushPositionals :: "(bytes \<times> bytes) list \<Rightarrow> bytes list option" where
  "pushPositionals [] = Some []"
| "pushPositionals ((arg, raw) # rest) =
     (if pushQuietOption arg then pushPositionals rest
      else if HasPrefix arg ''-'' then None
      else map_option ((#) (TrimSpace raw)) (pushPositionals rest))"

definition pushGrant :: "codec \<Rightarrow> bytes \<Rightarrow> bytes \<Rightarrow> taskGrantBoundary" where
  "pushGrant cx remote refspec =
     (if remote = [] \<or> refspec = [] \<or> Contains refspec ''*'' then noGrant
      else (case Cut refspec '':'' of (bef, aft, found) \<Rightarrow>
        if found \<and> (TrimSpace bef = [] \<or> TrimSpace aft = []) then noGrant
        else (let target = (if found then TrimSpace aft else refspec)
              in if target = ''HEAD'' \<or> target = ''@'' then noGrant
                 else \<lparr>tgKey = ''bash:git.push:'' @ CallFingerprint cx ''git.push'' remote target [],
                       tgDisplay = ''git push '' @ remote @ '' '' @ map char_of [226, 134, 146::nat] @ '' '' @ target\<rparr>)))"

definition gitPushTaskGrantBoundary :: "codec \<Rightarrow> bytes list \<Rightarrow> taskGrantBoundary" where
  "gitPushTaskGrantBoundary cx args =
     (let lower = lowerFields args
      in if gitSubcommand lower \<noteq> ''push'' \<or>
            containsAny lower [''-f'', ''--force'', ''--mirror'', ''--delete'', ''--prune'', ''--all'', ''--tags'', ''--follow-tags'']
         then noGrant
         else if list_ex (\<lambda>a. HasPrefix a ''--force'' \<or> HasPrefix a '':'' \<or> HasPrefix a ''+'') lower then noGrant
         else if lower = [] \<or> hd lower \<noteq> ''push'' then noGrant
         else (case pushPositionals (zip (tl lower) (tl args)) of
                 Some [remote, refspec] \<Rightarrow> pushGrant cx remote refspec
               | _ \<Rightarrow> noGrant))"

text \<open>The repository named on the command line: the last option wins.\<close>

fun ghRepo :: "bytes list \<Rightarrow> bytes list \<Rightarrow> bytes \<Rightarrow> bytes" where
  "ghRepo [] raws repo = repo"
| "ghRepo (arg # lower) raws repo =
     ghRepo lower (drop 1 raws)
       (if (arg = ''--repo'' \<or> arg = ''-r'') \<and> length raws > 1 then raws ! 1
        else if HasPrefix arg ''--repo='' then TrimSpace (drop (length ''--repo='') (hd raws))
        else if HasPrefix arg ''-r'' \<and> length arg > 2 then TrimSpace (drop 2 (hd raws))
        else repo)"

definition ghTaskGrantBoundary :: "codec \<Rightarrow> bytes list \<Rightarrow> taskGrantBoundary" where
  "ghTaskGrantBoundary cx args =
     (let lower = lowerFields args
      in case ghCommandGroup lower of (grp, rest) \<Rightarrow>
        if rest = [] then noGrant
        else if (grp \<noteq> ''pr'' \<and> grp \<noteq> ''issue'') \<or> hd rest \<noteq> ''comment'' then noGrant
        else if containsAny lower [''--edit-last'', ''--delete-last''] then noGrant
        else (let repo = ghRepo lower args ''current''
              in case tl rest of
                   [] \<Rightarrow> noGrant
                 | target0 # _ \<Rightarrow>
                     if HasPrefix target0 ''-'' then noGrant
                     else if target0 = ''current'' then noGrant
                     else (let r = TrimSpace repo; target = TrimSpace target0;
                               display = ''gh '' @ grp @ '' comment '' @ target @
                                 (if r \<noteq> ''current'' then '' --repo '' @ r else [])
                           in \<lparr>tgKey = ''bash:gh.'' @ grp @ ''.comment:'' @
                                  CallFingerprint cx (''gh.'' @ grp @ ''.comment'') r target [],
                               tgDisplay = display\<rparr>)))"

function commandFieldsTaskGrantBoundary :: "codec \<Rightarrow> bytes list \<Rightarrow> taskGrantBoundary" where
  "commandFieldsTaskGrantBoundary cx flds =
     (case flds of [] \<Rightarrow> noGrant
      | word # rawArgs \<Rightarrow>
          (let base = baseOf word
           in if base = ''env'' then
                (case unwrapEnvCommand rawArgs of None \<Rightarrow> noGrant | Some w \<Rightarrow> commandFieldsTaskGrantBoundary cx w)
              else if base = ''command'' then
                (case unwrapCommandBuiltin rawArgs of None \<Rightarrow> noGrant | Some w \<Rightarrow> commandFieldsTaskGrantBoundary cx w)
              else if base = ''git'' then gitPushTaskGrantBoundary cx rawArgs
              else if base = ''gh'' then ghTaskGrantBoundary cx rawArgs
              else noGrant))"
  by pat_completeness auto
termination
  by (relation "measure (\<lambda>(cx, flds). length flds)")
     (auto simp: less_Suc_eq_le dest: unwrapEnvCommand_length unwrapCommandBuiltin_length)

declare commandFieldsTaskGrantBoundary.simps [simp del]

section \<open>Risk of a proposal\<close>

record riskBoundary =
  rbHighRisk :: bool
  rbTaskGrantKey :: bytes
  rbTaskGrantDisplay :: bytes

definition noRisk :: riskBoundary where "noRisk = \<lparr>rbHighRisk = False, rbTaskGrantKey = [], rbTaskGrantDisplay = []\<rparr>"
definition highRiskOnly :: riskBoundary where "highRiskOnly = noRisk\<lparr>rbHighRisk := True\<rparr>"

definition riskMarkers :: "bytes list" where
  "riskMarkers = [''rm -'', ''rmdir'', ''unlink '', ''shred '', ''git reset --hard'', ''git clean'',
     ''chmod '', ''chown '', ''mkfs'', ''dd if='', ''> /'', ''>> /'']"

fun riskSegments :: "shell \<Rightarrow> codec \<Rightarrow> bool \<Rightarrow> bool \<Rightarrow> bytes list \<Rightarrow> riskBoundary" where
  "riskSegments sh cx single enforce [] = noRisk"
| "riskSegments sh cx single enforce (segment # segs) =
     (case StaticFields sh segment of
        (flds, malformed) \<Rightarrow>
          if malformed \<noteq> [] \<or> flds = [] then highRiskOnly
          else if commandFieldsHighRisk flds then
            (let grant = (if single then commandFieldsTaskGrantBoundary cx flds else noGrant)
             in \<lparr>rbHighRisk = True, rbTaskGrantKey = tgKey grant, rbTaskGrantDisplay = tgDisplay grant\<rparr>)
          else if enforce \<and> \<not> commandFieldsKnownSafeMutation sh flds then highRiskOnly
          else riskSegments sh cx single enforce segs)"

definition bashRiskBoundary :: "shell \<Rightarrow> codec \<Rightarrow> bytes \<Rightarrow> bool \<Rightarrow> riskBoundary" where
  "bashRiskBoundary sh cx command0 enforce =
     (let command = TrimSpace command0
      in if command = [] then highRiskOnly
         else if list_ex (Contains (ToLower command)) riskMarkers then highRiskOnly
         else (case SplitTopLevel sh command of
                 None \<Rightarrow> highRiskOnly
               | Some (segments, _) \<Rightarrow> riskSegments sh cx (length segments = 1) enforce segments))"

definition riskBoundaryForProposal :: "shell \<Rightarrow> codec \<Rightarrow> Proposal \<Rightarrow> riskBoundary" where
  "riskBoundaryForProposal sh cx q =
     (if qHighRisk q then highRiskOnly
      else (let tool = TrimSpace (qTool q)
            in if HasPrefix tool ''mcp__'' \<or> Contains tool ''mcp'' then noRisk
               else if tool = ''bash''
               then bashRiskBoundary sh cx (commandFromArgs cx (qArgs q)) (qMutates q \<and> \<not> qVerification q)
               else noRisk))"

definition IsHighRiskMutation :: "shell \<Rightarrow> codec \<Rightarrow> Proposal \<Rightarrow> bool" where
  "IsHighRiskMutation sh cx q = rbHighRisk (riskBoundaryForProposal sh cx q)"

definition TaskGrantKey :: "shell \<Rightarrow> codec \<Rightarrow> Proposal \<Rightarrow> bytes" where
  "TaskGrantKey sh cx q = rbTaskGrantKey (riskBoundaryForProposal sh cx q)"

section \<open>Scope\<close>

definition WriteScopePaths :: "codec \<Rightarrow> bytes \<Rightarrow> bytes \<Rightarrow> bytes list" where
  "WriteScopePaths cx tool0 args =
     (let tool = TrimSpace tool0;
          paths0 = map path_Clean (pathsFromArgs cx args);
          paths = (if tool = ''multi_edit'' \<or> tool = ''multi-edit''
                   then (case cEdits cx args of None \<Rightarrow> paths0
                         | Some ps \<Rightarrow> paths0 @ map path_Clean (filter (\<lambda>p. TrimSpace p \<noteq> []) ps))
                   else paths0)
      in if tool = ''bash'' then paths else uniqueStrings paths)"

definition ScopeExpanded :: "codec \<Rightarrow> FailureEvent option \<Rightarrow> Proposal \<Rightarrow> bool" where
  "ScopeExpanded cx failure q =
     (if qExpandedScope q then True
      else case failure of
             None \<Rightarrow> False
           | Some f \<Rightarrow>
               (let failedPaths = WriteScopePaths cx (fTool f) (fArgs f);
                    nextPaths = WriteScopePaths cx (qTool q) (qArgs q);
                    allowed = concat (map (\<lambda>p. [path_Clean p, path_Clean (path_Dir p)]) failedPaths)
                in if failedPaths = [] \<or> nextPaths = [] then False
                   else list_ex (\<lambda>p0. let p = path_Clean p0
                          in p \<notin> set allowed \<and> path_Clean (path_Dir p) \<notin> set allowed) nextPaths))"

definition StrategyChanged :: "FailureEvent option \<Rightarrow> Proposal \<Rightarrow> bool" where
  "StrategyChanged failure q = qStrategyChanged q"

end
