(* ===== verification/RecGate.thy ===== *)
theory RecGate
  imports RecState RecDecision RecRules
begin

text \<open>
  \<open>internal/recovery/gate.go\<close> and \<open>gate_restore.go\<close>: the guard of automatic execution. \<open>Gate\<close> is
  the mutable state behind the mutex. The code takes the mutex for one critical section at a
  time, so each section is one definition here (\<open>classify\<close>, \<open>noteStoppedOpRetry_section\<close>, ...), and
  the exported operations compose them in the code's order: \<open>ObserveResult\<close>, \<open>BeforeMutation\<close>
  (which ends with a decision or with a parked question to a human), \<open>Resolve\<close>, \<open>BeginEpisode\<close>,
  \<open>OnModeChange\<close>, \<open>Restore\<close>.

  Go maps are association lists (their iteration order is one of those the code allows), a set
  of keys is a set, and a reply channel is a number: \<open>chans\<close> holds what its one-place buffer
  holds. Calls of the persistence callback are recorded in \<open>persisted\<close>. The approval mode, the
  clock, the reviewer and the prompt are arguments.
\<close>

section \<open>State\<close>

record GateOpts =
  optMaxReviewBlocks :: int
  optHeadless :: bool
  optHasPrompt :: bool
  optPersist :: bool

record Gate =
  tasks :: "(bytes \<times> taskRuntime) list"
  metrics :: Metrics
  waiters :: "(bytes \<times> nat) list"
  taskOf :: "(bytes \<times> bytes) list"
  pending :: "(bytes \<times> PendingProposal) list"
  awaiting :: "bytes set"
  episodeSeq :: "64 word"
  episodeID :: bytes
  generation :: "64 word"
  episode :: episodeBudget
  lastMode :: bytes
  haveMode :: bool
  chans :: "nat \<Rightarrow> resolvePayload option"
  nextChan :: nat
  persisted :: "Snapshot list"

definition NewGate :: Gate where
  "NewGate = \<lparr>tasks = [], metrics = no_metrics, waiters = [], taskOf = [], pending = [], awaiting = {},
     episodeSeq = 1, episodeID = ''ep:1'', generation = 1, episode = clear_episode, lastMode = [],
     haveMode = False, chans = (\<lambda>_. None), nextChan = 0, persisted = []\<rparr>"

definition normalizeOpts :: "GateOpts \<Rightarrow> GateOpts" where
  "normalizeOpts opts = (if optMaxReviewBlocks opts \<le> 0 then opts\<lparr>optMaxReviewBlocks := MaxReviewRejects\<rparr> else opts)"

definition activeMode :: "bytes \<Rightarrow> bool" where
  "activeMode mode = (ToLower (TrimSpace mode) = ''auto'')"

definition putTask :: "bytes \<Rightarrow> taskRuntime \<Rightarrow> Gate \<Rightarrow> Gate" where
  "putTask i st g = g\<lparr>tasks := AList.update i st (tasks g)\<rparr>"

definition delTask :: "bytes \<Rightarrow> Gate \<Rightarrow> Gate" where
  "delTask i g = g\<lparr>tasks := AList.delete i (tasks g)\<rparr>"

section \<open>Snapshots\<close>

definition approvalOfTask :: "Gate \<Rightarrow> bytes \<Rightarrow> bytes" where
  "approvalOfTask g i =
     fold (\<lambda>(aid, t) cur. if HasPrefix aid ''pending:'' then cur else if t = i then aid else cur) (taskOf g) []"

definition liveTaskState :: "Gate \<Rightarrow> bytes \<Rightarrow> taskRuntime \<Rightarrow> TaskState option" where
  "liveTaskState g i st =
     map_option (\<lambda>cp0.
         let aid = approvalOfTask g i;
             cp1 = (if aid \<noteq> [] then cp0\<lparr>tsApprovalID := aid, tsPhase := PhaseAwaitingDecision\<rparr> else cp0);
             cp2 = cp1\<lparr>tsReviewBlocks := uint (reviewRejects (episode g)),
                       tsEpisodeStopped := stopped (episode g),
                       tsStopReason := stop_text (stopReason (episode g))\<rparr>
         in if tsEpisodeID cp2 = [] then cp2\<lparr>tsEpisodeID := episodeID g\<rparr> else cp2)
       (toTaskState st (if i \<in> awaiting g then PhaseAwaitingDecision else PhaseDiagnosing))"

definition snapshotLocked :: "Gate \<Rightarrow> bool \<Rightarrow> Snapshot" where
  "snapshotLocked g persistence =
     List.map_filter
       (\<lambda>(i, st). map_option (Pair i) (if persistence then toPersistenceState st else liveTaskState g i st))
       (tasks g)"

definition PersistenceSnapshot :: "Gate \<Rightarrow> Snapshot" where
  "PersistenceSnapshot g = snapshotLocked g True"

definition persist :: "GateOpts \<Rightarrow> Gate \<Rightarrow> Gate" where
  "persist opts g =
     (if optPersist opts then g\<lparr>persisted := persisted g @ [PersistenceSnapshot g]\<rparr> else g)"

section \<open>Episodes\<close>

definition nextSeq :: "64 word \<Rightarrow> 64 word" where
  "nextSeq n = (if n + 1 = 0 then 1 else n + 1)"

definition episodeName :: "64 word \<Rightarrow> bytes" where
  "episodeName n = ''ep:'' @ show_nat (unat n)"

record dismissedWaiter =
  dwId :: bytes
  dwTaskID :: bytes
  dwReply :: nat
  dwPayload :: resolvePayload

definition lookupStr :: "(bytes \<times> bytes) list \<Rightarrow> bytes \<Rightarrow> bytes" where
  "lookupStr m k = (case map_of m k of None \<Rightarrow> [] | Some v \<Rightarrow> v)"

definition dropWaiter :: "bytes \<Rightarrow> bytes \<Rightarrow> Gate \<Rightarrow> Gate" where
  "dropWaiter i taskID g =
     g\<lparr>waiters := AList.delete i (waiters g), taskOf := AList.delete i (taskOf g),
       pending := AList.delete i (pending g), awaiting := awaiting g - {taskID}\<rparr>"

fun collectLoop :: "resolvePayload \<Rightarrow> (bytes \<times> nat) list \<Rightarrow> Gate \<Rightarrow> dismissedWaiter list \<times> Gate" where
  "collectLoop payload [] g = ([], g)"
| "collectLoop payload ((i, ch) # ws) g =
     (let taskID = lookupStr (taskOf g) i;
          r = collectLoop payload ws (dropWaiter i taskID g)
      in (\<lparr>dwId = i, dwTaskID = taskID, dwReply = ch, dwPayload = payload\<rparr> # fst r, snd r))"

definition collectWaitersLocked :: "resolvePayload \<Rightarrow> Gate \<Rightarrow> dismissedWaiter list \<times> Gate" where
  "collectWaitersLocked payload g = collectLoop payload (waiters g) g"

definition sendReply :: "nat \<Rightarrow> resolvePayload \<Rightarrow> Gate \<Rightarrow> Gate" where
  "sendReply ch payload g =
     (case chans g ch of None \<Rightarrow> g\<lparr>chans := (chans g)(ch := Some payload)\<rparr> | Some _ \<Rightarrow> g)"

definition finishDismissed :: "dismissedWaiter list \<Rightarrow> Gate \<Rightarrow> Gate" where
  "finishDismissed ds g = fold (\<lambda>d. sendReply (dwReply d) (dwPayload d)) ds g"

definition rotatePayload :: resolvePayload where
  "rotatePayload = \<lparr>rpAction = ActionRevise, rpFeedback = ''Tool approval mode or recovery episode changed. Re-evaluate under the new mode; the previous proposal was not approved.''\<rparr>"

definition rotateTask :: "bytes \<Rightarrow> bytes \<times> taskRuntime \<Rightarrow> (bytes \<times> taskRuntime) option" where
  "rotateTask ep it =
     (case it of (i, st) \<Rightarrow>
        let st1 = (clearTaskRecoveryState st)\<lparr>tEpisodeID := ep\<rparr>
        in if \<not> hasTaskGrants st1 \<and> task_empty st1 then None else Some (i, st1))"

definition rotateEpisode :: "Gate \<Rightarrow> Gate" where
  "rotateEpisode g =
     (let sq = nextSeq (episodeSeq g); ep = episodeName sq
      in g\<lparr>episodeSeq := sq, episodeID := ep, generation := nextSeq (generation g),
           metrics := (metrics g)\<lparr>EpisodeRotations := EpisodeRotations (metrics g) + 1\<rparr>,
           episode := clear_episode,
           tasks := List.map_filter (rotateTask ep) (tasks g)\<rparr>)"

definition beginEpisodeLockedCollect :: "Gate \<Rightarrow> dismissedWaiter list \<times> Gate" where
  "beginEpisodeLockedCollect g = collectWaitersLocked rotatePayload (rotateEpisode g)"

definition BeginEpisode :: "GateOpts \<Rightarrow> Gate \<Rightarrow> Gate" where
  "BeginEpisode opts g =
     (case beginEpisodeLockedCollect g of (ds, g1) \<Rightarrow> persist opts (finishDismissed ds g1))"

text \<open>The dismissed approval ids, and the gate.\<close>

definition OnModeChange :: "GateOpts \<Rightarrow> bytes \<Rightarrow> Gate \<Rightarrow> bytes list \<times> Gate" where
  "OnModeChange opts mode0 g =
     (let mode = ToLower (TrimSpace mode0)
      in if mode = [] then ([], g)
         else if haveMode g \<and> lastMode g = mode then ([], g)
         else if \<not> haveMode g then ([], g\<lparr>lastMode := mode, haveMode := True\<rparr>)
         else (let g1 = g\<lparr>lastMode := mode, metrics := (metrics g)\<lparr>ModeResets := ModeResets (metrics g) + 1\<rparr>\<rparr>
               in case beginEpisodeLockedCollect g1 of (ds, g2) \<Rightarrow>
                    (let g3 = (if generation g2 = 0 then g2\<lparr>generation := 1\<rparr> else g2)
                     in (map dwId ds, persist opts (finishDismissed ds g3)))))"

definition Restore :: "Snapshot \<Rightarrow> Gate \<Rightarrow> Gate" where
  "Restore snap g =
     (let sq = nextSeq (episodeSeq g); ep = episodeName sq
      in g\<lparr>tasks := List.map_filter (\<lambda>(i, ts).
               map_option (\<lambda>rt. (i, rt\<lparr>tEpisodeID := ep\<rparr>)) (taskRuntimeFromState ts)) snap,
           waiters := [], taskOf := [], pending := [], awaiting := {},
           episodeSeq := sq, episodeID := ep, generation := nextSeq (generation g),
           episode := clear_episode,
           metrics := (metrics g)\<lparr>EpisodeRotations := EpisodeRotations (metrics g) + 1\<rparr>\<rparr>)"

section \<open>Approvals\<close>

definition provisional :: "bytes \<Rightarrow> bytes" where
  "provisional taskID = ''pending:'' @ taskID"

definition HasApproval :: "bytes \<Rightarrow> Gate \<Rightarrow> bool" where
  "HasApproval i0 g =
     (let i = TrimSpace i0
      in if i = [] \<or> HasPrefix i ''pending:'' then False
         else map_of (waiters g) i \<noteq> None \<or> map_of (taskOf g) i \<noteq> None)"

definition BindApprovalID :: "bytes \<Rightarrow> bytes \<Rightarrow> Gate \<Rightarrow> Gate" where
  "BindApprovalID taskID0 approvalID0 g =
     (let taskID = normalizeTaskID taskID0; approvalID = TrimSpace approvalID0; prov = provisional taskID
      in if approvalID = [] then g
         else (let g1 = (case map_of (waiters g) prov of
                      None \<Rightarrow> g
                    | Some ch \<Rightarrow> g\<lparr>waiters := AList.update approvalID ch (AList.delete prov (waiters g)),
                                   taskOf := AList.delete prov (taskOf g)\<rparr>);
                   g2 = (case map_of (pending g1) prov of
                      None \<Rightarrow> g1
                    | Some p \<Rightarrow> g1\<lparr>pending := AList.update approvalID p (AList.delete prov (pending g1))\<rparr>)
               in g2\<lparr>taskOf := AList.update approvalID taskID (taskOf g2), awaiting := insert taskID (awaiting g2)\<rparr>))"

datatype ResolveError = UnknownApproval | CannotGrant | UnknownAction

text \<open>The critical section of \<open>Resolve\<close>: the reply channel, the payload and whether to rotate.\<close>

definition resolveDone :: "bytes \<Rightarrow> bytes \<Rightarrow> Gate \<Rightarrow> Gate" where
  "resolveDone i taskID g =
     (let g1 = dropWaiter i taskID g
      in case map_of (tasks g1) taskID of
           None \<Rightarrow> g1
         | Some st \<Rightarrow> if task_empty st \<and> \<not> hasTaskGrants st then delTask taskID g1 else g1)"

definition resolve_section ::
  "bytes \<Rightarrow> RecAction \<Rightarrow> bytes \<Rightarrow> Gate \<Rightarrow> (ResolveError + nat option \<times> resolvePayload \<times> bool) \<times> Gate" where
  "resolve_section i action feedback g =
     (let ch = map_of (waiters g) i; taskID = lookupStr (taskOf g) i; pend = map_of (pending g) i
      in if taskID = [] then (Inl UnknownApproval, g)
         else (case action of
            ActionContinue \<Rightarrow>
              (Inr (ch, \<lparr>rpAction = action, rpFeedback = feedback\<rparr>, False),
               resolveDone i taskID (g\<lparr>metrics := (metrics g)\<lparr>HumanContinues := HumanContinues (metrics g) + 1\<rparr>\<rparr>))
          | ActionContinueTask \<Rightarrow>
              (case (case pend of None \<Rightarrow> ([], []) | Some p \<Rightarrow> (ppTaskGrantKey p, ppTaskGrantTaskScope p)) of
                 (key, scope) \<Rightarrow>
                   if key = [] then (Inl CannotGrant, g)
                   else (let st = (case map_of (tasks g) taskID of None \<Rightarrow> new_task (episodeID g) | Some st \<Rightarrow> st);
                             st' = addTaskGrant (useTaskGrantScope st scope) key;
                             g1 = (putTask taskID st' g)\<lparr>metrics := (metrics g)
                               \<lparr>TaskGrantContinues := TaskGrantContinues (metrics g) + 1,
                                HumanContinues := HumanContinues (metrics g) + 1\<rparr>\<rparr>
                         in (Inr (ch, \<lparr>rpAction = action, rpFeedback = feedback\<rparr>, False), resolveDone i taskID g1)))
          | ActionRevise \<Rightarrow>
              (Inr (ch, \<lparr>rpAction = action,
                  rpFeedback = (if TrimSpace feedback = [] then DefaultReviseFeedback else feedback)\<rparr>, True),
               dropWaiter i taskID (g\<lparr>metrics := (metrics g)\<lparr>HumanRevises := HumanRevises (metrics g) + 1\<rparr>\<rparr>))
          | ActionOther _ \<Rightarrow> (Inl UnknownAction, g)))"

definition Resolve ::
  "GateOpts \<Rightarrow> bytes \<Rightarrow> RecAction \<Rightarrow> bytes \<Rightarrow> Gate \<Rightarrow> ResolveError option \<times> Gate" where
  "Resolve opts i0 action feedback g =
     (case resolve_section (TrimSpace i0) action feedback g of
        (Inl e, g1) \<Rightarrow> (Some e, g1)
      | (Inr (ch, payload, rot), g1) \<Rightarrow>
          (let g2 = (case ch of None \<Rightarrow> g1 | Some c \<Rightarrow> sendReply c payload g1)
           in (None, if rot then BeginEpisode opts g2 else persist opts g2)))"

section \<open>Observations\<close>

definition ensureTaskLocked :: "bytes \<Rightarrow> Gate \<Rightarrow> taskRuntime \<times> Gate" where
  "ensureTaskLocked taskID g =
     (let st0 = (case map_of (tasks g) taskID of None \<Rightarrow> new_task (episodeID g) | Some st \<Rightarrow> st);
          st = (if tEpisodeID st0 = [] then st0\<lparr>tEpisodeID := episodeID g\<rparr> else st0)
      in (st, putTask taskID st g))"

definition clearNoProgressLocked :: "bytes \<Rightarrow> taskRuntime \<Rightarrow> Gate \<Rightarrow> Gate" where
  "clearNoProgressLocked taskID st g =
     (let st' = (clearTaskRecoveryState st)\<lparr>tEpisodeID := episodeID g\<rparr>;
          g1 = putTask taskID st' (g\<lparr>episode := clear_episode\<rparr>)
      in if \<not> hasTaskGrants st' then delTask taskID g1 else g1)"

definition observationFingerprint :: "codec \<Rightarrow> Observation \<Rightarrow> bytes" where
  "observationFingerprint cx obs = CallFingerprint cx (oTool obs) (oSubject obs) [] (oArgs obs)"

definition persistentRecoveryScope :: "bytes \<Rightarrow> bytes" where
  "persistentRecoveryScope scope = (let s = TrimSpace scope in if HasPrefix s ''goal:'' then s else [])"

definition diagnosticObservationNote :: "codec \<Rightarrow> Observation \<Rightarrow> bytes" where
  "diagnosticObservationNote cx obs =
     (let tool0 = clip (TrimSpace (oTool obs)) 120; tool = (if tool0 = [] then ''diagnostic'' else tool0);
          subject = clip (firstNonEmpty [oSubject obs, ArgsSummary cx (oArgs obs) 160]) 160;
          header = (if subject \<noteq> [] \<and> subject \<noteq> tool then tool @ '' ('' @ subject @ '')'' else tool);
          output = TrimSpace (oOutput obs)
      in if output = [] then clipDiagnosisNote (header @ '': completed successfully'')
         else clipDiagnosisNote (header @ '': '' @ output))"

definition transientGuidance :: bytes where
  "transientGuidance = ''The tool timed out or hit a transient execution limit. Inspect its current state and output before retrying so partial effects are not duplicated. Read-only diagnosis and unrelated work remain available without asking the user; retry the exact operation only after ruling out partial effects.''"

definition failureGuidance :: bytes where
  "failureGuidance = ''A tool failed. Use read-only diagnosis as needed, continue unrelated work automatically, and do not ask the user unless a genuine product or plan choice is required. Repeated retries of the exact failed operation remain bounded.''"

definition recoveryGuidance :: "taskRuntime \<Rightarrow> bytes \<times> taskRuntime" where
  "recoveryGuidance st =
     (if guidanceSent st then ([], st)
      else ((case lastFailure st of
               Some af \<Rightarrow> if fClass (evidence af) = FailureClassTransient then transientGuidance else failureGuidance
             | None \<Rightarrow> failureGuidance),
            st\<lparr>guidanceSent := True\<rparr>))"

text \<open>The counters of one more failure, saturating at 255.\<close>

definition bump :: "8 word \<Rightarrow> 8 word" where
  "bump n = (if n < 255 then n + 1 else n)"

definition countFailure :: "bytes \<Rightarrow> bytes \<Rightarrow> taskRuntime \<Rightarrow> taskRuntime" where
  "countFailure ep fp st =
     st\<lparr>tEpisodeID := ep,
        operationFailures := AList.update fp
          (bump (case map_of (operationFailures st) fp of None \<Rightarrow> 0 | Some n \<Rightarrow> n)) (operationFailures st)\<rparr>"

definition failureEvidence :: "codec \<Rightarrow> int \<Rightarrow> bytes \<Rightarrow> Observation \<Rightarrow> FailureEvent" where
  "failureEvidence cx now taskID obs =
     \<lparr>fClass = ClassifyFailure obs, fTool = oTool obs, fArgsSummary = ArgsSummary cx (oArgs obs) 200,
      fSubject = oSubject obs, fErrSummary = oErrSummary obs, fOutputExcerpt = clip (oOutput obs) 1500,
      fSourceAgent = oAgentID obs, fTaskID = taskID, fTaskScopeID = persistentRecoveryScope (oTaskScopeID obs),
      fReadOnly = oReadOnly obs, fVerification = oVerification obs, fMutates = oMutates obs, fRepeatCount = 0,
      fCreatedAt = now, fArgs = oArgs obs, fFingerprint = observationFingerprint cx obs,
      fSafeRetryLeft = 0, fDiagnosisNotes = []\<rparr>"

definition recordFailure :: "codec \<Rightarrow> int \<Rightarrow> bytes \<Rightarrow> Observation \<Rightarrow> taskRuntime \<Rightarrow> Gate \<Rightarrow> bytes \<times> Gate" where
  "recordFailure cx now taskID obs st0 g =
     (let fp = observationFingerprint cx obs;
          st1 = countFailure (episodeID g) fp st0;
          ep1 = (episode g)\<lparr>totalFailures := bump (totalFailures (episode g))\<rparr>;
          opStop = (the (map_of (operationFailures st1) fp) \<ge> MaxOperationFailures);
          st2 = (if opStop then markOperationStopped st1 fp else st1);
          epStop = (totalFailures ep1 \<ge> MaxEpisodeFailures);
          ep2 = (if epStop then ep1\<lparr>stopped := True, stopReason := StopReasonEpisodeFailures\<rparr> else ep1);
          m = metrics g;
          m1 = (if opStop then m\<lparr>OperationStops := OperationStops m + 1\<rparr> else m);
          m2 = (if epStop then m1\<lparr>EpisodeFailureStops := EpisodeFailureStops m1 + 1\<rparr> else m1);
          m3 = m2\<lparr>FailureEvents := FailureEvents m2 + 1\<rparr>;
          st3 = st2\<lparr>lastFailure := Some \<lparr>evidence = failureEvidence cx now taskID obs, safeRetryUsed = False, diagnosis = []\<rparr>\<rparr>
      in case recoveryGuidance st3 of (guidance, st4) \<Rightarrow>
           (guidance, putTask taskID st4 (g\<lparr>episode := ep2, metrics := m3\<rparr>)))"

text \<open>The guidance text and the gate.\<close>

definition ObserveResult ::
  "GateOpts \<Rightarrow> shell \<Rightarrow> codec \<Rightarrow> bytes \<Rightarrow> int \<Rightarrow> Observation \<Rightarrow> Gate \<Rightarrow> bytes \<times> Gate" where
  "ObserveResult opts sh cx mode now obs g =
     (if \<not> activeMode mode then ([], g)
      else if oGeneration obs \<noteq> 0 \<and> oGeneration obs \<noteq> generation g
      then ([], g\<lparr>metrics := (metrics g)\<lparr>StaleObservationsIgnored := StaleObservationsIgnored (metrics g) + 1\<rparr>\<rparr>)
      else (let taskID = normalizeTaskID (oTaskID obs)
            in case ensureTaskLocked taskID g of (st, g1) \<Rightarrow>
              if oSuccess obs \<and> oVerification obs then ([], persist opts (clearNoProgressLocked taskID st g1))
              else if oSuccess obs \<and> oMutates obs then ([], persist opts (clearNoProgressLocked taskID st g1))
              else if oSuccess obs then
                (case lastFailure st of
                   None \<Rightarrow> ([], g1)
                 | Some af \<Rightarrow>
                     if IsDiagnosticSuccess sh cx obs
                     then (case appendDiagnosisNote af (diagnosticObservationNote cx obs) of
                             None \<Rightarrow> ([], g1)
                           | Some af' \<Rightarrow> ([], persist opts (putTask taskID (st\<lparr>lastFailure := Some af'\<rparr>) g1)))
                     else ([], g1))
              else if \<not> QualifyingFailure obs then ([], g1)
              else (case recordFailure cx now taskID obs st g1 of (guidance, g2) \<Rightarrow> (guidance, persist opts g2))))"

definition RecordDiagnosis :: "GateOpts \<Rightarrow> bytes \<Rightarrow> bytes \<Rightarrow> Gate \<Rightarrow> Gate" where
  "RecordDiagnosis opts taskID0 note g =
     (if TrimSpace note = [] then g
      else (let taskID = normalizeTaskID taskID0
            in case map_of (tasks g) taskID of
                 None \<Rightarrow> g
               | Some st \<Rightarrow>
                   (case lastFailure st of
                      None \<Rightarrow> g
                    | Some af \<Rightarrow>
                        (case appendDiagnosisNote af note of
                           None \<Rightarrow> g
                         | Some af' \<Rightarrow> persist opts (putTask taskID (st\<lparr>lastFailure := Some af'\<rparr>) g)))))"

end
