(* ===== verification/RecGuard.thy ===== *)
theory RecGuard
  imports RecGate
begin

text \<open>
  The decision half of \<open>internal/recovery/gate.go\<close>: \<open>classify\<close> turns a proposal into the facts of
  \<open>Decide\<close>, \<open>BeforeMutation\<close> routes it, \<open>reviewOrEscalate\<close> asks the reviewer and \<open>askHuman\<close> parks a
  question. The code releases the mutex while the reviewer or the human thinks, so \<open>askHuman\<close> is
  its critical sections in order: \<open>ask_park\<close>, then \<open>EmitPrompt\<close> (code of the caller: whatever it
  does to the gate it does through \<open>BindApprovalID\<close> and \<open>Resolve\<close>), then \<open>ask_failed\<close> or
  \<open>ask_bound\<close>, then \<open>ask_wake\<close> or \<open>ask_cancelled\<close>. The reviewer is a function that may fail.
\<close>

type_synonym reviewer = "FailureEvent option \<Rightarrow> bytes list \<Rightarrow> Proposal \<Rightarrow> bytes \<Rightarrow> ReviewVerdict option"

record GuardEnv =
  envShell :: shell
  envCodec :: codec
  envMode :: bytes
  envReviewer :: "reviewer option"
  envSummary :: bytes
  envLatency :: int

section \<open>Facts\<close>

definition taskGrantScopeKey :: "codec \<Rightarrow> Proposal \<Rightarrow> bytes" where
  "taskGrantScopeKey cx q =
     (let s0 = TrimSpace (qTaskScopeID q); s = (if s0 = [] then TrimSpace (qTaskSummary q) else s0)
      in CallFingerprint cx ''task-grant'' (normalizeTaskID (qTaskID q)) s [])"

definition taskGrantRuntimeKey :: "bytes \<Rightarrow> bytes \<Rightarrow> bytes" where
  "taskGrantRuntimeKey semanticKey taskScope =
     (if semanticKey = [] \<or> taskScope = [] then [] else semanticKey @ ''#'' @ taskScope)"

definition sameFailedOperation :: "codec \<Rightarrow> FailureEvent option \<Rightarrow> Proposal \<Rightarrow> bool" where
  "sameFailedOperation cx failure q =
     (case failure of
        None \<Rightarrow> False
      | Some f \<Rightarrow>
          (let w0 = TrimSpace (fFingerprint f);
               w = (if w0 = [] then CallFingerprint cx (fTool f) (fSubject f) [] (fArgs f) else w0)
           in w = CallFingerprint cx (qTool q) (qSubject q) [] (qArgs q)))"

text \<open>Outside Auto the armed state of the task is cleared; the flag is \<open>stateChanged\<close>.\<close>

definition classify_mode :: "bool \<Rightarrow> bytes \<Rightarrow> Gate \<Rightarrow> taskRuntime option \<times> bool \<times> Gate" where
  "classify_mode auto taskID g =
     (case map_of (tasks g) taskID of
        None \<Rightarrow> (None, False, g)
      | Some st \<Rightarrow>
          if auto then (Some st, False, g)
          else (let ep = episode g;
                    dirty = (\<not> task_empty st \<or> totalFailures ep > 0 \<or> reviewRejects ep > 0 \<or> stopped ep);
                    st1 = (if dirty then clearTaskRecoveryState st else st);
                    g1 = (if dirty then putTask taskID st1 (g\<lparr>episode := clear_episode\<rparr>) else g)
                in if \<not> hasTaskGrants st1 \<and> task_empty st1 then (None, dirty, delTask taskID g1)
                   else (Some st1, dirty, g1)))"

definition classify_align :: "bytes \<Rightarrow> taskRuntime \<Rightarrow> taskRuntime \<times> bool" where
  "classify_align ep st =
     (if tEpisodeID st \<noteq> [] \<and> tEpisodeID st \<noteq> ep then ((clearTaskRecoveryState st)\<lparr>tEpisodeID := ep\<rparr>, True)
      else if tEpisodeID st = [] then (st\<lparr>tEpisodeID := ep\<rparr>, False)
      else (st, False))"

text \<open>The facts that do not depend on the task's own state.\<close>

definition baseFacts :: "bool \<Rightarrow> bool \<Rightarrow> Proposal \<Rightarrow> Gate \<Rightarrow> Facts" where
  "baseFacts auto risk q g =
     \<lparr>AutoMode = auto, kReadOnly = qReadOnly q, kMutates = qMutates q, kVerification = qVerification q,
      HighRisk = risk, PlanTransition = qPlanTransition q, HasActiveFailure = False,
      SameFailedOperation = False, ExpandedScope = False, kStrategyChanged = False,
      SafeRetryAvailable = False, FailureCount = 0, EpisodeFailureCount = totalFailures (episode g),
      kReviewRejects = reviewRejects (episode g), OperationAlreadyStopped = False,
      kEpisodeStopped = stopped (episode g), kStopReason = stopReason (episode g)\<rparr>"

definition taskFacts :: "codec \<Rightarrow> Proposal \<Rightarrow> taskRuntime \<Rightarrow> Facts \<Rightarrow> Facts" where
  "taskFacts cx q st f0 =
     (let fp = CallFingerprint cx (qTool q) (qSubject q) [] (qArgs q);
          f1 = f0\<lparr>OperationAlreadyStopped := isOperationStopped st fp, FailureCount := operationFailureCount st fp\<rparr>
      in case evidenceCopy st of
           None \<Rightarrow> f1
         | Some ev \<Rightarrow>
             (let same = sameFailedOperation cx (Some ev) q
              in f1\<lparr>HasActiveFailure := True, SameFailedOperation := same,
                    FailureCount := (if same \<and> FailureCount f1 = 0 then 1 else FailureCount f1),
                    SafeRetryAvailable := (IsSafeVerificationRetry cx (Some ev) q \<and> safeRetryAvailable st)\<rparr>))"

record Classified =
  clFacts :: Facts
  clFailure :: "FailureEvent option"
  clNotes :: "bytes list"
  clTaskID :: bytes
  clFP :: bytes
  clGen :: "64 word"

text \<open>The critical section of \<open>classify\<close> on a task that exists: facts, evidence, notes, gate.\<close>

definition classify_task ::
  "codec \<Rightarrow> bytes \<Rightarrow> Proposal \<Rightarrow> bytes \<Rightarrow> Facts \<Rightarrow> taskRuntime \<Rightarrow> Gate \<Rightarrow>
     (Facts \<times> FailureEvent option \<times> bytes list) \<times> Gate" where
  "classify_task cx grantKey q taskID f0 st g =
     (let f1 = taskFacts cx q st f0;
          taskScope = taskGrantScopeKey cx q;
          st1 = useTaskGrantScope st taskScope;
          ev = evidenceCopy st; notes = diagnosisNotes st
      in if task_empty st1 \<and> \<not> hasTaskGrants st1 then ((f1, ev, notes), delTask taskID g)
         else (let key = taskGrantRuntimeKey grantKey taskScope; g1 = putTask taskID st1 g
               in if HighRisk f1 \<and> key \<noteq> [] \<and> hasTaskGrant st1 key
                  then ((f1\<lparr>HighRisk := False\<rparr>, ev, notes),
                        g1\<lparr>metrics := (metrics g1)\<lparr>TaskGrantUses := TaskGrantUses (metrics g1) + 1\<rparr>\<rparr>)
                  else ((f1, ev, notes), g1)))"

definition classify_section ::
  "GuardEnv \<Rightarrow> Proposal \<Rightarrow> Gate \<Rightarrow> (Facts \<times> FailureEvent option \<times> bytes list \<times> bool) \<times> Gate" where
  "classify_section e q0 g =
     (let auto = activeMode (envMode e);
          b = riskBoundaryForProposal (envShell e) (envCodec e) q0;
          q = q0\<lparr>qHighRisk := rbHighRisk b\<rparr>;
          taskID = normalizeTaskID (qTaskID q);
          f0 = baseFacts auto (rbHighRisk b) q g
      in case classify_mode auto taskID g of
           (None, changed, g1) \<Rightarrow> ((f0, None, [], changed), g1)
         | (Some st, changed, g1) \<Rightarrow>
             (case classify_align (episodeID g1) st of (st1, moved) \<Rightarrow>
                (case classify_task (envCodec e) (rbTaskGrantKey b) q taskID f0 st1 g1 of
                   ((f, ev, notes), g2) \<Rightarrow> ((f, ev, notes, changed \<or> moved), g2))))"

text \<open>The facts that compare the proposal with the failure, after the mutex is released.\<close>

definition widenFacts :: "codec \<Rightarrow> FailureEvent option \<Rightarrow> Proposal \<Rightarrow> Facts \<Rightarrow> Facts" where
  "widenFacts cx failure q f =
     (case failure of
        None \<Rightarrow> f
      | Some ev \<Rightarrow>
          (let wide = (qExpandedScope q \<or> ScopeExpanded cx failure q);
               other = (qStrategyChanged q \<or> StrategyChanged failure q)
           in f\<lparr>ExpandedScope := wide, kStrategyChanged := other,
                SafeRetryAvailable := (SafeRetryAvailable f \<and> \<not> (wide \<or> other \<or> HighRisk f))\<rparr>))"

definition classify :: "GateOpts \<Rightarrow> GuardEnv \<Rightarrow> Proposal \<Rightarrow> Gate \<Rightarrow> Classified \<times> Gate" where
  "classify opts e q0 g =
     (case classify_section e q0 g of ((f, ev, notes, changed), g1) \<Rightarrow>
        (let cx = envCodec e;
             q = q0\<lparr>qHighRisk := rbHighRisk (riskBoundaryForProposal (envShell e) cx q0)\<rparr>
         in (\<lparr>clFacts = widenFacts cx ev q f, clFailure = ev, clNotes = notes,
              clTaskID = normalizeTaskID (qTaskID q0),
              clFP = CallFingerprint cx (qTool q0) (qSubject q0) (qPreview q0) (qArgs q0),
              clGen = generation g\<rparr>,
             if changed then persist opts g1 else g1)))"

section \<open>Messages\<close>

definition userFacingReason :: "bytes \<Rightarrow> bytes" where
  "userFacingReason kind =
     (if kind = ChangeRisk then ''This proposal is a technical execution-risk blocker, not a user-owned plan choice.''
      else if kind = ChangeScope then ''This step would expand the change scope.''
      else if kind = ChangeStrategy then ''Auto is about to try a different approach.''
      else ''Auto cannot establish how this proposal relates to the active task and plan.'')"

definition headlessBlockerMessage :: "PendingProposal \<Rightarrow> FailureEvent option \<Rightarrow> bytes" where
  "headlessBlockerMessage p failure =
     ''blocked: Auto Guard requires human confirmation, but this environment has no decision channel.'' @ [LF]
     @ (case failure of None \<Rightarrow> [] | Some f \<Rightarrow> ''Failure: '' @ firstNonEmpty [fErrSummary f, fTool f] @ [LF])
     @ (if ppDiagnosis p \<noteq> [] then ''Diagnosis: '' @ ppDiagnosis p @ [LF] else [])
     @ ''Proposed: '' @ firstNonEmpty [ppProposed p, ppSubject p, ppTool p] @ [LF]
     @ (if ppRationale p \<noteq> [] then ''Why confirm: '' @ ppRationale p else [])"

definition reviewerBlockerMessage :: "ReviewVerdict \<Rightarrow> int \<Rightarrow> int \<Rightarrow> bytes" where
  "reviewerBlockerMessage v attempt limit =
     ''blocked: Auto plan reviewer could not accept this transition (attempt '' @ show_int attempt @ ''/'' @ show_int limit
     @ ''): '' @ firstNonEmpty [vRationale v, ''the proposal could not be classified as a bounded plan continuation'']
     @ ''. Continue the current plan, propose a task-aligned plan, or ask the user about a genuine product choice.''"

definition operationName :: "Proposal \<Rightarrow> bytes" where
  "operationName q = clip (firstNonEmpty [qSubject q, qTool q]) 240"

definition repeatedFailureStopMessage :: "int \<Rightarrow> Proposal \<Rightarrow> bytes" where
  "repeatedFailureStopMessage failures q =
     ''blocked: Auto stopped repeating this operation after '' @ show_int failures @ '' consecutive failures: ''
     @ operationName q @ ''. Do not retry the same operation in this turn. Diagnose it with read-only tools, then use a different task-aligned edit or verification approach; other operations remain available. Ask the user only for a genuine product or plan choice.''"

definition episodeStopMessage :: "StopReason \<Rightarrow> Proposal \<Rightarrow> bytes" where
  "episodeStopMessage reason q =
     (if reason = StopReasonReviewRejects
      then ''blocked: Auto recovery paused this turn after '' @ show_int MaxReviewRejects @ '' reviewer rejections (last proposal: ''
           @ operationName q @ ''). Do not call more tools; summarize what was tried and what remains. The user can continue in the next message.''
      else if reason = StopReasonStoppedOpRetries
      then ''blocked: Auto recovery paused this turn after repeated attempts of already-stopped operations (last: ''
           @ operationName q @ ''). Do not call more tools; summarize completed work and blockers. The user can continue in the next message.''
      else ''blocked: Auto recovery paused this turn after '' @ show_int (uint MaxEpisodeFailures) @ '' execution failures without progress (last: ''
           @ operationName q @ ''). Do not call more tools; summarize completed work and blockers. The user can continue in the next message.'')"

section \<open>Stops\<close>

text \<open>\<open>g.episode.stopped = true\<close>, keeping the first reason.\<close>

definition stopEpisode :: "StopReason \<Rightarrow> episodeBudget \<Rightarrow> episodeBudget" where
  "stopEpisode reason ep =
     ep\<lparr>stopped := True, stopReason := (if stopReason ep = StopReasonNone then reason else stopReason ep)\<rparr>"

definition stopTurnDecision ::
  "GateOpts \<Rightarrow> bytes \<Rightarrow> 64 word \<Rightarrow> StopReason \<Rightarrow> Proposal \<Rightarrow> Gate \<Rightarrow> RecDecision \<times> Gate" where
  "stopTurnDecision opts taskID gen reason q g =
     (let g1 = snd (ensureTaskLocked taskID g);
          g2 = g1\<lparr>episode := stopEpisode reason (episode g1)\<rparr>;
          r = stopReason (episode g2)
      in (no_decision\<lparr>dBlocked := True, dMessage := episodeStopMessage r q, dGeneration := gen,
            dStopTurn := True, dStopReason := stop_text r\<rparr>,
          persist opts g2))"

text \<open>The decision is there when the turn is stopped (\<open>escalated\<close>).\<close>

definition noteStoppedOpRetry ::
  "GateOpts \<Rightarrow> bytes \<Rightarrow> 64 word \<Rightarrow> Proposal \<Rightarrow> Gate \<Rightarrow> RecDecision option \<times> Gate" where
  "noteStoppedOpRetry opts taskID gen q g =
     (let g1 = snd (ensureTaskLocked taskID g);
          ep = (episode g1)\<lparr>stoppedOpRetries := bump (stoppedOpRetries (episode g1))\<rparr>
      in if stoppedOpRetries ep \<ge> MaxStoppedOperationRetries
         then (let g2 = g1\<lparr>episode := stopEpisode StopReasonStoppedOpRetries ep,
                     metrics := (metrics g1)\<lparr>StoppedOpRetryStops := StoppedOpRetryStops (metrics g1) + 1\<rparr>\<rparr>;
                   r = stopTurnDecision opts taskID gen StopReasonStoppedOpRetries q (persist opts g2)
               in (Some (fst r), snd r))
         else (None, persist opts (g1\<lparr>episode := ep\<rparr>)))"

section \<open>The reviewer\<close>

definition reviewerContinueKind :: "bytes \<Rightarrow> bool" where
  "reviewerContinueKind kind = (kind \<in> {ChangeSameStrategy, ChangeStrategy, ChangeScope})"

definition reviewerPlanDecision :: "ReviewVerdict \<Rightarrow> bool" where
  "reviewerPlanDecision v = (vOutcome v = ReviewConfirm \<and> vChangeKind v \<in> {ChangeStrategy, ChangeScope})"

definition knownKind :: "bytes \<Rightarrow> bool" where
  "knownKind k = (k \<in> {ChangeSameStrategy, ChangeStrategy, ChangeScope, ChangeRisk, ChangeUncertain})"

definition normalizeOutcome :: "ReviewVerdict \<Rightarrow> ReviewVerdict" where
  "normalizeOutcome v =
     (let o1 = ToLower (TrimSpace (vOutcome v))
      in if o1 = ''continue'' then v\<lparr>vOutcome := ReviewContinue\<rparr>
         else if o1 = ''confirm'' then v\<lparr>vOutcome := ReviewConfirm\<rparr>
         else v\<lparr>vOutcome := ReviewConfirm,
                vChangeKind := (if vChangeKind v = [] then ChangeUncertain else vChangeKind v)\<rparr>)"

definition normalizeKind :: "ReviewVerdict \<Rightarrow> ReviewVerdict" where
  "normalizeKind v =
     (let k = ToLower (TrimSpace (vChangeKind v))
      in if knownKind k then v\<lparr>vChangeKind := k\<rparr>
         else v\<lparr>vOutcome := (if vOutcome v = ReviewContinue then ReviewConfirm else vOutcome v),
                vChangeKind := ChangeUncertain\<rparr>)"

definition normalizeVerdict ::
  "ReviewVerdict \<Rightarrow> FailureEvent option \<Rightarrow> Proposal \<Rightarrow> bytes list \<Rightarrow> ReviewVerdict" where
  "normalizeVerdict v0 failure q notes =
     (let v1 = normalizeKind (normalizeOutcome v0);
          v2 = (if vOutcome v1 = ReviewContinue \<and> \<not> reviewerContinueKind (vChangeKind v1)
                then v1\<lparr>vOutcome := ReviewConfirm\<rparr> else v1);
          v3 = (case failure of
                  Some f \<Rightarrow> if TrimSpace (vFailureSummary v2) = [] then v2\<lparr>vFailureSummary := fErrSummary f\<rparr> else v2
                | None \<Rightarrow> v2);
          v4 = (if TrimSpace (vDiagnosis v3) = [] then v3\<lparr>vDiagnosis := Join notes [LF]\<rparr> else v3);
          v5 = (if TrimSpace (vProposedAction v4) = []
                then v4\<lparr>vProposedAction := firstNonEmpty [qSubject q, qPreview q, qTool q]\<rparr> else v4)
      in if TrimSpace (vRationale v5) = [] then v5\<lparr>vRationale := userFacingReason (vChangeKind v5)\<rparr>
         else v5\<lparr>vRationale := clip (vRationale v5) 500\<rparr>)"

definition recordReviewBlock :: "GateOpts \<Rightarrow> bytes \<Rightarrow> ReviewVerdict \<Rightarrow> Gate \<Rightarrow> int \<times> Gate" where
  "recordReviewBlock opts taskID v g =
     (case ensureTaskLocked taskID g of (st, g1) \<Rightarrow>
        (let ep = (episode g1)\<lparr>reviewRejects := bump (reviewRejects (episode g1))\<rparr>;
             note = ''Auto Guard reviewer blocked the proposal: '' @ firstNonEmpty [vRationale v, vChangeKind v];
             g2 = g1\<lparr>episode := ep\<rparr>;
             g3 = (case lastFailure st of
                     None \<Rightarrow> g2
                   | Some af \<Rightarrow> (case appendDiagnosisNote af note of
                        None \<Rightarrow> g2
                      | Some af' \<Rightarrow> putTask taskID (st\<lparr>lastFailure := Some af'\<rparr>) g2))
         in (uint (reviewRejects ep), persist opts g3)))"

text \<open>The critical section that stops the episode on review rejections, and the decision.\<close>

definition stopOnReviews ::
  "GateOpts \<Rightarrow> bytes \<Rightarrow> 64 word \<Rightarrow> Proposal \<Rightarrow> Gate \<Rightarrow> RecDecision \<times> Gate" where
  "stopOnReviews opts taskID gen q g =
     stopTurnDecision opts taskID gen StopReasonReviewRejects q
       (g\<lparr>episode := stopEpisode StopReasonReviewRejects (episode g),
          metrics := (metrics g)\<lparr>ReviewStops := ReviewStops (metrics g) + 1\<rparr>\<rparr>)"

section \<open>Asking a human\<close>

definition allow_decision :: "64 word \<Rightarrow> RecDecision" where
  "allow_decision gen = no_decision\<lparr>dAllow := True, dGeneration := gen\<rparr>"

definition block_decision :: "64 word \<Rightarrow> bytes \<Rightarrow> RecDecision" where
  "block_decision gen msg = no_decision\<lparr>dBlocked := True, dMessage := msg, dGeneration := gen\<rparr>"

definition pendingFor ::
  "bytes \<Rightarrow> Proposal \<Rightarrow> FailureEvent option \<Rightarrow> bytes list \<Rightarrow> bytes \<Rightarrow> bytes \<Rightarrow> PendingProposal" where
  "pendingFor fp q failure notes kind rationale =
     \<lparr>ppTool = qTool q, ppSubject = qSubject q, ppPreview = qPreview q, ppArgs = qArgs q, ppFingerprint = fp,
      ppSourceAgent = firstNonEmpty [qAgentID q, (case failure of None \<Rightarrow> [] | Some f \<Rightarrow> fSourceAgent f)],
      ppChangeKind = kind, ppRationale = firstNonEmpty [rationale, userFacingReason kind],
      ppDiagnosis = Join notes [LF], ppFailure = (case failure of None \<Rightarrow> [] | Some f \<Rightarrow> fErrSummary f),
      ppProposed = firstNonEmpty [qSubject q, qPreview q, qTool q],
      ppPlanBefore = qPlanBefore q, ppPlanAfter = qPlanAfter q,
      ppTaskGrantKey = [], ppTaskGrantTaskScope = [], ppTaskGrantDisplay = []\<rparr>"

text \<open>What \<open>BeforeMutation\<close> ends with: a decision, or a card and the reply channel it waits on.\<close>

datatype Outcome = Decided RecDecision | Parked nat PendingProposal

definition ask_park_section :: "bytes \<Rightarrow> PendingProposal \<Rightarrow> Gate \<Rightarrow> nat \<times> Gate" where
  "ask_park_section taskID p g =
     (let ch = nextChan g; prov = provisional taskID; m = metrics g;
          again = (case map_of (tasks g) taskID of None \<Rightarrow> False | Some st \<Rightarrow> failureCount st > 1)
      in (ch, g\<lparr>metrics := m\<lparr>HumanPrompts := HumanPrompts m + 1,
                  RepeatPrompts := (if again then RepeatPrompts m + 1 else RepeatPrompts m)\<rparr>,
                nextChan := nextChan g + 1, chans := (chans g)(ch := None),
                waiters := AList.update prov ch (waiters g),
                taskOf := AList.update prov taskID (taskOf g),
                pending := AList.update prov p (pending g),
                awaiting := insert taskID (awaiting g)\<rparr>))"

definition ask_park ::
  "GateOpts \<Rightarrow> bytes \<Rightarrow> 64 word \<Rightarrow> PendingProposal \<Rightarrow> FailureEvent option \<Rightarrow> Gate \<Rightarrow> Outcome \<times> Gate" where
  "ask_park opts taskID gen p failure g =
     (if optHeadless opts \<or> \<not> optHasPrompt opts
      then (Decided (block_decision gen (headlessBlockerMessage p failure)), g)
      else (case ask_park_section taskID p g of (ch, g1) \<Rightarrow> (Parked ch p, g1)))"

text \<open>\<open>EmitPrompt\<close> failed (with this error text) or returned an empty id.\<close>

definition ask_failed :: "64 word \<Rightarrow> bytes \<Rightarrow> bytes option \<Rightarrow> Gate \<Rightarrow> RecDecision \<times> Gate" where
  "ask_failed gen taskID err g =
     (block_decision gen (case err of
          Some msg \<Rightarrow> ''blocked: Auto Guard prompt failed: '' @ msg
        | None \<Rightarrow> ''blocked: Auto Guard prompt returned empty id''),
      dropWaiter (provisional taskID) taskID g)"

text \<open>\<open>EmitPrompt\<close> returned this id: the waiter that is still provisional is filed under it.\<close>

definition ask_bound_section :: "bytes \<Rightarrow> bytes \<Rightarrow> nat \<Rightarrow> Gate \<Rightarrow> nat \<times> Gate" where
  "ask_bound_section taskID approvalID reply g =
     (let prov = provisional taskID
      in case map_of (waiters g) prov of
           Some preply \<Rightarrow>
             (let g1 = g\<lparr>waiters := AList.delete prov (waiters g), taskOf := AList.delete prov (taskOf g)\<rparr>;
                  g2 = (case map_of (pending g1) prov of
                          None \<Rightarrow> g1
                        | Some p \<Rightarrow> g1\<lparr>pending := AList.update approvalID p (AList.delete prov (pending g1))\<rparr>)
              in case map_of (waiters g2) approvalID of
                   Some existing \<Rightarrow> (existing, g2)
                 | None \<Rightarrow> (preply, g2\<lparr>waiters := AList.update approvalID preply (waiters g2),
                                     taskOf := AList.update approvalID taskID (taskOf g2)\<rparr>))
         | None \<Rightarrow> ((case map_of (waiters g) approvalID of Some existing \<Rightarrow> existing | None \<Rightarrow> reply), g))"

definition ask_bound :: "GateOpts \<Rightarrow> bytes \<Rightarrow> bytes \<Rightarrow> nat \<Rightarrow> Gate \<Rightarrow> nat \<times> Gate" where
  "ask_bound opts taskID approvalID reply g =
     (case ask_bound_section taskID approvalID reply g of (ch, g1) \<Rightarrow>
        (ch, persist opts (g1\<lparr>awaiting := insert taskID (awaiting g1)\<rparr>)))"

definition decisionFromResolve :: "resolvePayload \<Rightarrow> RecDecision" where
  "decisionFromResolve p =
     (case rpAction p of
        ActionContinue \<Rightarrow> no_decision\<lparr>dAllow := True\<rparr>
      | ActionContinueTask \<Rightarrow> no_decision\<lparr>dAllow := True\<rparr>
      | ActionRevise \<Rightarrow>
          (let fb0 = TrimSpace (rpFeedback p); fb = (if fb0 = [] then DefaultReviseFeedback else fb0)
           in no_decision\<lparr>dBlocked := True,
                dMessage := ''blocked: user requested a revised Auto Guard action'' @ '': '' @ fb\<rparr>)
      | ActionOther _ \<Rightarrow> no_decision\<lparr>dBlocked := True, dMessage := ''blocked: unknown Auto Guard action''\<rparr>)"

text \<open>The receive: \<open>None\<close> while the channel is empty.\<close>

definition ask_wake :: "64 word \<Rightarrow> Proposal \<Rightarrow> nat \<Rightarrow> Gate \<Rightarrow> (RecDecision \<times> Gate) option" where
  "ask_wake gen q ch g =
     (case chans g ch of
        None \<Rightarrow> None
      | Some payload \<Rightarrow>
          (let d = decisionFromResolve payload;
               d1 = (if dAllow d \<and> qPlanTransition q then d\<lparr>dAuthorizePlanReplacement := True\<rparr> else d)
           in Some (d1\<lparr>dGeneration := gen\<rparr>, g\<lparr>chans := (chans g)(ch := None)\<rparr>)))"

definition ask_cancelled :: "GateOpts \<Rightarrow> 64 word \<Rightarrow> bytes \<Rightarrow> bytes \<Rightarrow> Gate \<Rightarrow> RecDecision \<times> Gate" where
  "ask_cancelled opts gen taskID approvalID g =
     (block_decision gen ''blocked: Auto Guard confirmation cancelled'',
      persist opts (dropWaiter approvalID taskID g))"

section \<open>Review and routing\<close>

definition ruleContinue :: "64 word \<Rightarrow> Gate \<Rightarrow> Outcome \<times> Gate" where
  "ruleContinue gen g =
     (Decided (allow_decision gen), g\<lparr>metrics := (metrics g)\<lparr>RuleContinues := RuleContinues (metrics g) + 1\<rparr>\<rparr>)"

definition noteReview :: "int \<Rightarrow> bool \<Rightarrow> Gate \<Rightarrow> Gate" where
  "noteReview latency failed g =
     (let m = metrics g
      in g\<lparr>metrics := m\<lparr>ReviewLatencyMsSum := ReviewLatencyMsSum m + latency,
             ReviewLatencyCount := ReviewLatencyCount m + 1,
             ReviewErrors := (if failed then ReviewErrors m + 1 else ReviewErrors m)\<rparr>\<rparr>)"

definition blockOrStop ::
  "GateOpts \<Rightarrow> bytes \<Rightarrow> 64 word \<Rightarrow> Proposal \<Rightarrow> ReviewVerdict \<Rightarrow> Gate \<Rightarrow> Outcome \<times> Gate" where
  "blockOrStop opts taskID gen q v g =
     (case recordReviewBlock opts taskID v g of (blocks, g1) \<Rightarrow>
        if blocks < optMaxReviewBlocks opts
        then (Decided (block_decision gen (reviewerBlockerMessage v blocks (optMaxReviewBlocks opts))), g1)
        else (case stopOnReviews opts taskID gen q g1 of (d, g2) \<Rightarrow> (Decided d, g2)))"

text \<open>After the reviewer returned this verdict (the answer of \<open>Review\<close>, not yet normalised).\<close>

definition afterVerdict ::
  "GateOpts \<Rightarrow> Classified \<Rightarrow> Proposal \<Rightarrow> ReviewVerdict \<Rightarrow> Gate \<Rightarrow> Outcome \<times> Gate" where
  "afterVerdict opts c q v0 g =
     (let v = normalizeVerdict v0 (clFailure c) q (clNotes c)
      in if vOutcome v = ReviewContinue \<and> reviewerContinueKind (vChangeKind v)
         then (Decided ((allow_decision (clGen c))\<lparr>dAuthorizePlanReplacement := qPlanTransition q\<rparr>),
               g\<lparr>metrics := (metrics g)\<lparr>ReviewContinues := ReviewContinues (metrics g) + 1\<rparr>\<rparr>)
         else if qPlanTransition q \<and> reviewerPlanDecision v
         then ask_park opts (clTaskID c) (clGen c)
                (pendingFor (clFP c) q (clFailure c) (clNotes c) (vChangeKind v) (vRationale v)) (clFailure c) g
         else blockOrStop opts (clTaskID c) (clGen c) q v g)"

definition askAboutPlan :: "GateOpts \<Rightarrow> Classified \<Rightarrow> Proposal \<Rightarrow> bytes \<Rightarrow> Gate \<Rightarrow> Outcome \<times> Gate" where
  "askAboutPlan opts c q why g =
     ask_park opts (clTaskID c) (clGen c)
       (pendingFor (clFP c) q (clFailure c) (clNotes c) ChangeScope why) (clFailure c) g"

definition reviewOrEscalate ::
  "GateOpts \<Rightarrow> GuardEnv \<Rightarrow> Classified \<Rightarrow> Proposal \<Rightarrow> Gate \<Rightarrow> Outcome \<times> Gate" where
  "reviewOrEscalate opts e c q g =
     (if reviewRejects (episode g) \<ge> word_of_int (optMaxReviewBlocks opts)
      then (case stopOnReviews opts (clTaskID c) (clGen c) q g of (d, g1) \<Rightarrow> (Decided d, g1))
      else case envReviewer e of
        None \<Rightarrow>
          if qPlanTransition q
          then askAboutPlan opts c q ''The active execution plan changed and needs your choice because no independent plan reviewer is configured.'' g
          else ruleContinue (clGen c) g
      | Some ask \<Rightarrow>
          (let summary = (if TrimSpace (qTaskSummary q) = [] then envSummary e else TrimSpace (qTaskSummary q))
           in case ask (clFailure c) (clNotes c) q summary of
                None \<Rightarrow>
                  (let g1 = noteReview (envLatency e) True g
                   in if qPlanTransition q
                      then askAboutPlan opts c q ''The active execution plan changed, but the independent plan reviewer is unavailable.'' g1
                      else ruleContinue (clGen c) g1)
              | Some v \<Rightarrow> afterVerdict opts c q v (noteReview (envLatency e) False g)))"

definition consumeSafeRetry :: "bytes \<Rightarrow> Gate \<Rightarrow> Gate" where
  "consumeSafeRetry taskID g =
     (case map_of (tasks g) taskID of
        None \<Rightarrow> g
      | Some st \<Rightarrow> (case lastFailure st of
          None \<Rightarrow> g
        | Some af \<Rightarrow>
            if safeRetryUsed af then g
            else (putTask taskID (st\<lparr>lastFailure := Some (af\<lparr>safeRetryUsed := True\<rparr>)\<rparr>) g)
                   \<lparr>metrics := (metrics g)\<lparr>RuleContinues := RuleContinues (metrics g) + 1\<rparr>\<rparr>))"

text \<open>The last part of \<open>BeforeMutation\<close>: the switch on the route.\<close>

definition followRoute ::
  "GateOpts \<Rightarrow> GuardEnv \<Rightarrow> Classified \<Rightarrow> Proposal \<Rightarrow> DecisionResult \<Rightarrow> Gate \<Rightarrow> Outcome \<times> Gate" where
  "followRoute opts e c q r g =
     (let allow = (Decided (allow_decision (clGen c)),
                   if drConsumeSafeRetry r then persist opts (consumeSafeRetry (clTaskID c) g) else g)
      in case drRoute r of
           RouteBypass \<Rightarrow> allow
         | RouteAllow \<Rightarrow> allow
         | RouteReview \<Rightarrow> reviewOrEscalate opts e c q g
         | RouteStop \<Rightarrow>
             (Decided ((block_decision (clGen c)
                 (repeatedFailureStopMessage (uint (FailureCount (clFacts c))) q))
                 \<lparr>dStopReason := stop_text StopReasonOperationFailures\<rparr>), g)
         | RouteStopTurn \<Rightarrow>
             (case stopTurnDecision opts (clTaskID c) (clGen c) (drStopReason r) q g of (d, g1) \<Rightarrow> (Decided d, g1)))"

definition BeforeMutation ::
  "GateOpts \<Rightarrow> GuardEnv \<Rightarrow> Proposal \<Rightarrow> Gate \<Rightarrow> Outcome \<times> Gate" where
  "BeforeMutation opts e q g =
     (case classify opts e q g of (c, g1) \<Rightarrow>
        (let f = clFacts c;
             retry = (AutoMode f \<and> OperationAlreadyStopped f \<and> SameFailedOperation f);
             noted = (if retry then noteStoppedOpRetry opts (clTaskID c) (clGen c) q g1 else (None, g1));
             g2 = snd noted
         in case fst noted of
              Some d \<Rightarrow> (Decided d, g2)
            | None \<Rightarrow>
                (let r = (if retry then (routed RouteStop)\<lparr>drStopReason := StopReasonOperationFailures\<rparr> else Decide f)
                 in if AutoMode f \<and> EpisodeFailureCount f \<ge> MaxEpisodeFailures \<and> (kMutates f \<or> kVerification f)
                    then (case stopTurnDecision opts (clTaskID c) (clGen c) StopReasonEpisodeFailures q g2 of
                            (d, g3) \<Rightarrow> (Decided d, g3))
                    else followRoute opts e c q r g2)))"

section \<open>Finalization and counters\<close>

definition MarkFinalizationOffered :: "Gate \<Rightarrow> Gate" where
  "MarkFinalizationOffered g =
     (if stopped (episode g) then g\<lparr>episode := (episode g)\<lparr>finalizationOffered := True\<rparr>\<rparr> else g)"

definition ConsumeFinalization :: "Gate \<Rightarrow> (bool \<times> bool) \<times> Gate" where
  "ConsumeFinalization g =
     (let ep = episode g
      in if \<not> stopped ep then ((False, False), g)
         else ((finalizationOffered ep, finalizationConsumed ep),
               if finalizationOffered ep \<and> \<not> finalizationConsumed ep
               then g\<lparr>episode := ep\<lparr>finalizationConsumed := True\<rparr>\<rparr> else g))"

definition EpisodeStopped :: "Gate \<Rightarrow> bool" where
  "EpisodeStopped g = stopped (episode g)"

definition DrainMetrics :: "Gate \<Rightarrow> Metrics \<times> Gate" where
  "DrainMetrics g = (metrics g, g\<lparr>metrics := no_metrics\<rparr>)"

end
