(* ===== verification/RecInvariant.thy ===== *)
theory RecInvariant
  imports RecGuard
begin

text \<open>
  The states the guard can reach. \<open>gate_step\<close> has one rule per critical section of \<open>gate.go\<close>, so a
  path interleaves concurrent calls the way the mutex allows; \<open>reaches\<close> is its closure. The
  invariant \<open>gate_ok\<close> is one predicate per part of the state (the episode's names, its budget, the
  tasks, the tables of waiters), and every section keeps it.
\<close>

section \<open>Invariants\<close>

definition names_ok :: "64 word \<Rightarrow> 64 word \<Rightarrow> bytes \<Rightarrow> bool" where
  "names_ok gen sq ep \<longleftrightarrow> gen \<noteq> 0 \<and> sq \<noteq> 0 \<and> ep = episodeName sq"

definition budget_ok :: "episodeBudget \<Rightarrow> bool" where
  "budget_ok ep \<longleftrightarrow>
     (stopped ep \<longleftrightarrow> stopReason ep \<noteq> StopReasonNone) \<and>
     (MaxEpisodeFailures \<le> totalFailures ep \<longrightarrow> stopped ep) \<and>
     (MaxStoppedOperationRetries \<le> stoppedOpRetries ep \<longrightarrow> stopped ep) \<and>
     (finalizationOffered ep \<longrightarrow> stopped ep) \<and> (finalizationConsumed ep \<longrightarrow> finalizationOffered ep)"

definition notes_ok :: "bytes list \<Rightarrow> bool" where
  "notes_ok ns \<longleftrightarrow> length ns \<le> 4 \<and> notes_size ns \<le> 1600"

definition failure_ok :: "activeFailure option \<Rightarrow> bool" where
  "failure_ok lf \<longleftrightarrow> (case lf of None \<Rightarrow> True | Some af \<Rightarrow> notes_ok (diagnosis af))"

definition counts_ok :: "(bytes \<times> 8 word) list \<Rightarrow> bytes set \<Rightarrow> bool" where
  "counts_ok m s \<longleftrightarrow> (\<forall>fp n. map_of m fp = Some n \<and> MaxOperationFailures \<le> n \<and> fp \<noteq> [] \<longrightarrow> fp \<in> s)"

definition task_ok :: "taskRuntime \<Rightarrow> bool" where
  "task_ok st \<longleftrightarrow> counts_ok (operationFailures st) (stoppedOps st) \<and> taskGrants st = {} \<and> failure_ok (lastFailure st)"

definition tasks_ok :: "(bytes \<times> taskRuntime) list \<Rightarrow> bool" where
  "tasks_ok ts \<longleftrightarrow> (\<forall>p \<in> set ts. task_ok (snd p))"

definition waiters_ok :: "(bytes \<times> nat) list \<Rightarrow> (bytes \<times> bytes) list \<Rightarrow> nat \<Rightarrow> bool" where
  "waiters_ok w t n \<longleftrightarrow> (\<forall>i c. map_of w i = Some c \<longrightarrow> c < n \<and> map_of t i \<noteq> None)"

definition owners_ok :: "(bytes \<times> bytes) list \<Rightarrow> bool" where
  "owners_ok t \<longleftrightarrow> (\<forall>i k. map_of t i = Some k \<longrightarrow> k \<noteq> [])"

definition pending_ok :: "(bytes \<times> PendingProposal) list \<Rightarrow> bool" where
  "pending_ok p \<longleftrightarrow> (\<forall>i q. map_of p i = Some q \<longrightarrow> ppTaskGrantKey q = [])"

definition gate_ok :: "Gate \<Rightarrow> bool" where
  "gate_ok g \<longleftrightarrow> names_ok (generation g) (episodeSeq g) (episodeID g) \<and> budget_ok (episode g) \<and> tasks_ok (tasks g) \<and>
     waiters_ok (waiters g) (taskOf g) (nextChan g) \<and> owners_ok (taskOf g) \<and> pending_ok (pending g)"

section \<open>Primitive updates\<close>

lemma budget_ok_clear [simp]: "budget_ok clear_episode"
  by (simp add: budget_ok_def clear_episode_def MaxEpisodeFailures_def MaxStoppedOperationRetries_def word_le_nat_alt)

lemma stopEpisode_stopped [simp]: "stopped (stopEpisode r ep)"
  by (simp add: stopEpisode_def)

lemma budget_ok_stop [simp]:
  assumes "r \<noteq> StopReasonNone" "finalizationConsumed ep \<longrightarrow> finalizationOffered ep"
  shows "budget_ok (stopEpisode r ep)"
  using assms by (simp add: budget_ok_def stopEpisode_def)

lemma budget_ok_final: "budget_ok ep \<Longrightarrow> finalizationConsumed ep \<Longrightarrow> finalizationOffered ep"
  by (simp add: budget_ok_def)

lemma counts_ok_Nil [simp]: "counts_ok [] s"
  by (simp add: counts_ok_def)

lemma counts_ok_update:
  "counts_ok m s \<Longrightarrow> (MaxOperationFailures \<le> n \<Longrightarrow> fp \<noteq> [] \<Longrightarrow> fp \<in> s) \<Longrightarrow> counts_ok (AList.update fp n m) s"
  by (auto simp: counts_ok_def update_conv' split: if_splits)

lemma counts_ok_stop: "counts_ok m s \<Longrightarrow> counts_ok (AList.update fp n m) (insert fp s)"
  by (auto simp: counts_ok_def update_conv' split: if_splits)

lemma task_ok_new [simp]: "task_ok (new_task ep)"
  by (simp add: task_ok_def new_task_def failure_ok_def)

lemma task_ok_episode [simp]: "task_ok (st\<lparr>tEpisodeID := e\<rparr>) = task_ok st"
  by (simp add: task_ok_def)

lemma task_ok_clear [simp]: "task_ok st \<Longrightarrow> task_ok (clearTaskRecoveryState st)"
  by (simp add: task_ok_def clearTaskRecoveryState_def failure_ok_def)

lemma task_ok_scope [simp]: "task_ok st \<Longrightarrow> task_ok (useTaskGrantScope st s)"
  by (simp add: task_ok_def useTaskGrantScope_def)

lemma notes_ok_trim [simp]: "notes_ok (diagnosis (trimDiagnosis af))"
  using trimDiagnosis_bounds [of af] by (simp add: notes_ok_def)

lemma notes_ok_append: "appendDiagnosisNote af note = Some af' \<Longrightarrow> notes_ok (diagnosis af')"
  by (auto simp: appendDiagnosisNote_def Let_def split: if_splits)

lemma task_ok_note:
  "task_ok st \<Longrightarrow> appendDiagnosisNote af note = Some af' \<Longrightarrow> task_ok (st\<lparr>lastFailure := Some af'\<rparr>)"
  by (simp add: task_ok_def failure_ok_def notes_ok_append)

lemma task_ok_restored: "taskRuntimeFromState ts = Some st \<Longrightarrow> task_ok st"
  by (auto simp: taskRuntimeFromState_def task_ok_def failure_ok_def new_task_def Let_def split: option.splits)

lemma tasks_ok_map_of: "tasks_ok ts \<Longrightarrow> map_of ts i = Some st \<Longrightarrow> task_ok st"
  using map_of_SomeD [of ts i st] by (auto simp: tasks_ok_def)

lemma set_update_subset: "set (AList.update k v al) \<subseteq> insert (k, v) (set al)"
  by (induction al) auto

lemma tasks_ok_update: "tasks_ok ts \<Longrightarrow> task_ok st \<Longrightarrow> tasks_ok (AList.update i st ts)"
  using set_update_subset [of i st ts] by (fastforce simp: tasks_ok_def)

lemma tasks_ok_delete: "tasks_ok ts \<Longrightarrow> tasks_ok (AList.delete i ts)"
  by (auto simp: tasks_ok_def AList.delete_eq)

lemma tasks_ok_filter:
  "(\<And>i x y. (i, x) \<in> set xs \<Longrightarrow> f (i, x) = Some y \<Longrightarrow> task_ok (snd y)) \<Longrightarrow> tasks_ok (List.map_filter f xs)"
  by (auto simp: tasks_ok_def List.map_filter_def)

lemma waiters_ok_drop:
  "waiters_ok w t n \<Longrightarrow> waiters_ok (AList.delete i w) (AList.delete i t) n"
  by (auto simp: waiters_ok_def delete_conv' split: if_splits)

lemma waiters_ok_own: "waiters_ok w t n \<Longrightarrow> waiters_ok w (AList.update i k t) n"
  by (auto simp: waiters_ok_def update_conv')

lemma owners_ok_update: "owners_ok t \<Longrightarrow> k \<noteq> [] \<Longrightarrow> owners_ok (AList.update i k t)"
  by (auto simp: owners_ok_def update_conv')

lemma owners_ok_delete: "owners_ok t \<Longrightarrow> owners_ok (AList.delete i t)"
  by (auto simp: owners_ok_def delete_conv' split: if_splits)

lemma pending_ok_update: "pending_ok p \<Longrightarrow> ppTaskGrantKey q = [] \<Longrightarrow> pending_ok (AList.update i q p)"
  by (auto simp: pending_ok_def update_conv')

lemma pending_ok_delete: "pending_ok p \<Longrightarrow> pending_ok (AList.delete i p)"
  by (auto simp: pending_ok_def delete_conv' split: if_splits)

lemma pending_ok_map_of: "pending_ok p \<Longrightarrow> map_of p i = Some q \<Longrightarrow> ppTaskGrantKey q = []"
  by (simp add: pending_ok_def)

lemma normalizeTaskID_ne [simp]: "normalizeTaskID i \<noteq> []"
  by (simp add: normalizeTaskID_def Let_def)

section \<open>Gates\<close>

lemma gate_ok_metrics [simp]: "gate_ok (g\<lparr>metrics := m\<rparr>) = gate_ok g" "gate_ok (g\<lparr>awaiting := a\<rparr>) = gate_ok g"
  "gate_ok (g\<lparr>chans := c\<rparr>) = gate_ok g" "gate_ok (g\<lparr>persisted := ps\<rparr>) = gate_ok g"
  "gate_ok (g\<lparr>lastMode := lm\<rparr>) = gate_ok g" "gate_ok (g\<lparr>haveMode := hm\<rparr>) = gate_ok g"
  by (simp_all add: gate_ok_def)

lemma gate_ok_episode: "gate_ok g \<Longrightarrow> budget_ok ep \<Longrightarrow> gate_ok (g\<lparr>episode := ep\<rparr>)"
  by (simp add: gate_ok_def)

lemma gate_ok_stop: "gate_ok g \<Longrightarrow> r \<noteq> StopReasonNone \<Longrightarrow> gate_ok (g\<lparr>episode := stopEpisode r (episode g)\<rparr>)"
  by (simp add: gate_ok_def budget_ok_final)

lemma gate_ok_put: "gate_ok g \<Longrightarrow> task_ok st \<Longrightarrow> gate_ok (putTask i st g)"
  by (simp add: gate_ok_def putTask_def tasks_ok_update)

lemma gate_ok_del: "gate_ok g \<Longrightarrow> gate_ok (delTask i g)"
  by (simp add: gate_ok_def delTask_def tasks_ok_delete)

lemma gate_ok_persist [simp]: "gate_ok (persist opts g) = gate_ok g"
  by (simp add: persist_def)

lemma gate_ok_drop: "gate_ok g \<Longrightarrow> gate_ok (dropWaiter i t g)"
  by (simp add: gate_ok_def dropWaiter_def waiters_ok_drop owners_ok_delete pending_ok_delete)

lemma gate_ok_send [simp]: "gate_ok (sendReply ch p g) = gate_ok g"
  by (simp add: sendReply_def split: option.splits)

lemma gate_ok_finish [simp]: "gate_ok (finishDismissed ds g) = gate_ok g"
  by (induction ds arbitrary: g) (simp_all add: finishDismissed_def)

lemma gate_ok_task: "gate_ok g \<Longrightarrow> map_of (tasks g) i = Some st \<Longrightarrow> task_ok st"
  by (auto simp: gate_ok_def dest: tasks_ok_map_of)

lemma gate_ok_ensure:
  assumes "gate_ok g"
  shows "gate_ok (snd (ensureTaskLocked i g))" "task_ok (fst (ensureTaskLocked i g))"
  using assms by (auto simp: ensureTaskLocked_def Let_def intro!: gate_ok_put dest: gate_ok_task split: option.splits)

lemmas gate_ok_intros = gate_ok_episode gate_ok_stop gate_ok_put gate_ok_del gate_ok_drop gate_ok_ensure

section \<open>Every section keeps the invariant\<close>

lemma episodeName_1: "episodeName 1 = ''ep:1''"
  by code_simp

lemma gate_ok_new: "gate_ok NewGate"
  by (simp add: gate_ok_def NewGate_def names_ok_def episodeName_1 tasks_ok_def waiters_ok_def owners_ok_def
      pending_ok_def)

lemma nextSeq_ne [simp]: "nextSeq n \<noteq> 0"
  by (simp add: nextSeq_def)

lemma rotateTask_ok: "task_ok st \<Longrightarrow> rotateTask ep (i, st) = Some y \<Longrightarrow> task_ok (snd y)"
  by (auto simp: rotateTask_def Let_def split: if_splits)

lemma gate_ok_rotate: "gate_ok g \<Longrightarrow> gate_ok (rotateEpisode g)"
  by (auto simp: gate_ok_def rotateEpisode_def Let_def names_ok_def tasks_ok_def
      intro!: tasks_ok_filter [unfolded tasks_ok_def] rotateTask_ok)

lemma gate_ok_collect: "gate_ok g \<Longrightarrow> gate_ok (snd (collectLoop p ws g))"
  by (induction p ws g rule: collectLoop.induct) (simp_all add: Let_def gate_ok_drop)

lemma gate_ok_beginCollect: "gate_ok g \<Longrightarrow> gate_ok (snd (beginEpisodeLockedCollect g))"
  by (simp add: beginEpisodeLockedCollect_def collectWaitersLocked_def gate_ok_collect gate_ok_rotate)

lemma gate_ok_BeginEpisode: "gate_ok g \<Longrightarrow> gate_ok (BeginEpisode opts g)"
  using gate_ok_beginCollect [of g] by (simp add: BeginEpisode_def case_prod_unfold)

lemma gate_ok_gen: "gate_ok g \<Longrightarrow> generation g \<noteq> 0"
  by (simp add: gate_ok_def names_ok_def)

lemma gate_ok_OnModeChange: "gate_ok g \<Longrightarrow> gate_ok (snd (OnModeChange opts m g))"
  using gate_ok_beginCollect [of "g\<lparr>lastMode := ToLower (TrimSpace m), metrics := (metrics g)\<lparr>ModeResets := ModeResets (metrics g) + 1\<rparr>\<rparr>"]
  by (auto simp: OnModeChange_def Let_def gate_ok_gen split: prod.split)

lemma gate_ok_Restore: "gate_ok g \<Longrightarrow> gate_ok (Restore snap g)"
  by (auto simp: gate_ok_def Restore_def Let_def names_ok_def waiters_ok_def owners_ok_def pending_ok_def
      intro!: tasks_ok_filter dest: task_ok_restored)

lemma gate_ok_BindApprovalID: "gate_ok g \<Longrightarrow> gate_ok (BindApprovalID i a g)"
  by (auto simp: gate_ok_def BindApprovalID_def Let_def waiters_ok_def owners_ok_def pending_ok_def
      update_conv' delete_conv' split: option.splits if_splits)

lemma gate_ok_resolveDone: "gate_ok g \<Longrightarrow> gate_ok (resolveDone i t g)"
  by (auto simp: resolveDone_def Let_def intro: gate_ok_intros split: option.splits)

lemma gate_ok_pending: "gate_ok g \<Longrightarrow> map_of (pending g) i = Some q \<Longrightarrow> ppTaskGrantKey q = []"
  by (auto simp: gate_ok_def dest: pending_ok_map_of)

lemma resolve_section_cases:
  assumes "gate_ok g"
  shows "resolve_section i a fb g =
    (let k = lookupStr (taskOf g) i
     in if k = [] then (Inl UnknownApproval, g)
        else case a of
          ActionContinue \<Rightarrow> (Inr (map_of (waiters g) i, \<lparr>rpAction = a, rpFeedback = fb\<rparr>, False),
             resolveDone i k (g\<lparr>metrics := (metrics g)\<lparr>HumanContinues := HumanContinues (metrics g) + 1\<rparr>\<rparr>))
        | ActionContinueTask \<Rightarrow> (Inl CannotGrant, g)
        | ActionRevise \<Rightarrow> (Inr (map_of (waiters g) i, \<lparr>rpAction = a,
                 rpFeedback = (if TrimSpace fb = [] then DefaultReviseFeedback else fb)\<rparr>, True),
             dropWaiter i k (g\<lparr>metrics := (metrics g)\<lparr>HumanRevises := HumanRevises (metrics g) + 1\<rparr>\<rparr>))
        | ActionOther x \<Rightarrow> (Inl UnknownAction, g))"
  using assms by (auto simp: resolve_section_def Let_def dest: gate_ok_pending split: RecAction.split option.split)

lemma gate_ok_resolve_section: "gate_ok g \<Longrightarrow> gate_ok (snd (resolve_section i a fb g))"
  by (simp add: resolve_section_cases Let_def gate_ok_resolveDone gate_ok_drop split: RecAction.split)

lemma gate_ok_Resolve: "gate_ok g \<Longrightarrow> gate_ok (snd (Resolve opts i a fb g))"
  using gate_ok_resolve_section [of g "TrimSpace i" a fb]
  by (auto simp: Resolve_def Let_def split: prod.split sum.split option.split intro!: gate_ok_BeginEpisode)

lemma gate_ok_clearNoProgress: "gate_ok g \<Longrightarrow> task_ok st \<Longrightarrow> gate_ok (clearNoProgressLocked i st g)"
  by (auto simp: clearNoProgressLocked_def Let_def intro!: gate_ok_intros)

lemma task_ok_countFailure:
  assumes "task_ok st"
  shows "task_ok (let st1 = countFailure ep fp st
                  in if the (map_of (operationFailures st1) fp) \<ge> MaxOperationFailures
                     then markOperationStopped st1 fp else st1)"
  using assms by (auto simp: countFailure_def markOperationStopped_def task_ok_def Let_def update_conv'
      intro: counts_ok_update counts_ok_stop split: if_splits)

lemma recoveryGuidance_ok: "task_ok st \<Longrightarrow> task_ok (snd (recoveryGuidance st))"
  by (simp add: recoveryGuidance_def task_ok_def)

lemma task_ok_lastFailure:
  "task_ok st \<Longrightarrow> notes_ok (diagnosis af) \<Longrightarrow> task_ok (st\<lparr>lastFailure := Some af\<rparr>)"
  by (simp add: task_ok_def failure_ok_def)

lemma notes_ok_Nil [simp]: "notes_ok []"
  by (simp add: notes_ok_def notes_size_def)

lemma budget_ok_failure:
  assumes "budget_ok ep"
  shows "budget_ok (let ep1 = ep\<lparr>totalFailures := n\<rparr>
     in if totalFailures ep1 \<ge> MaxEpisodeFailures then ep1\<lparr>stopped := True, stopReason := StopReasonEpisodeFailures\<rparr> else ep1)"
  using assms by (auto simp: budget_ok_def Let_def)

lemma gate_ok_recordFailure:
  assumes "gate_ok g" "task_ok st"
  shows "gate_ok (snd (recordFailure cx now i obs st g))"
  using task_ok_countFailure [OF assms(2), of "episodeID g" "observationFingerprint cx obs"]
    budget_ok_failure [of "episode g" "bump (totalFailures (episode g))"] assms(1)
  by (auto simp: recordFailure_def Let_def gate_ok_def putTask_def split: prod.split if_splits
      intro!: tasks_ok_update recoveryGuidance_ok task_ok_lastFailure
      dest!: arg_cong [where f = snd])

lemma gate_ok_ObserveResult: "gate_ok g \<Longrightarrow> gate_ok (snd (ObserveResult opts sh cx mode now obs g))"
  using gate_ok_ensure [of g "normalizeTaskID (oTaskID obs)"]
  by (auto simp: ObserveResult_def Let_def case_prod_unfold
      intro!: gate_ok_clearNoProgress gate_ok_put gate_ok_recordFailure task_ok_note split: option.split)

lemma gate_ok_RecordDiagnosis: "gate_ok g \<Longrightarrow> gate_ok (RecordDiagnosis opts i note g)"
  by (auto simp: RecordDiagnosis_def Let_def intro!: gate_ok_put dest: gate_ok_task intro: task_ok_note split: option.split)

lemma classify_mode_ok:
  assumes "gate_ok g"
  shows "gate_ok (snd (snd (classify_mode auto i g)))" "fst (classify_mode auto i g) = Some st \<Longrightarrow> task_ok st"
  using assms by (auto simp: classify_mode_def Let_def intro!: gate_ok_intros dest: gate_ok_task
      split: option.splits if_splits)

lemma classify_align_ok: "task_ok st \<Longrightarrow> task_ok (fst (classify_align ep st))"
  by (simp add: classify_align_def)

lemma gate_ok_classify_task:
  "gate_ok g \<Longrightarrow> task_ok st \<Longrightarrow> gate_ok (snd (classify_task cx k q i f st g))"
  by (simp add: classify_task_def Let_def gate_ok_put gate_ok_del)

lemma gate_ok_classify_section: "gate_ok g \<Longrightarrow> gate_ok (snd (classify_section e q g))"
  by (auto simp: classify_section_def Let_def case_prod_unfold classify_mode_ok
      intro!: gate_ok_classify_task classify_align_ok split: option.split dest: classify_mode_ok(2) [rotated])

lemma gate_ok_classify: "gate_ok g \<Longrightarrow> gate_ok (snd (classify opts e q g))"
  using gate_ok_classify_section [of g e q] by (simp add: classify_def Let_def case_prod_unfold)

lemma gate_ok_stopTurnDecision:
  "gate_ok g \<Longrightarrow> r \<noteq> StopReasonNone \<Longrightarrow> gate_ok (snd (stopTurnDecision opts i gen r q g))"
  by (simp add: stopTurnDecision_def Let_def gate_ok_stop gate_ok_ensure)

lemma gate_ok_retries: "gate_ok g \<Longrightarrow> budget_ok (if n \<ge> MaxStoppedOperationRetries
     then stopEpisode StopReasonStoppedOpRetries ((episode g)\<lparr>stoppedOpRetries := n\<rparr>)
     else (episode g)\<lparr>stoppedOpRetries := n\<rparr>)"
  by (auto simp: gate_ok_def budget_ok_def stopEpisode_def)

lemma gate_ok_noteStoppedOpRetry: "gate_ok g \<Longrightarrow> gate_ok (snd (noteStoppedOpRetry opts i gen q g))"
proof -
  assume g: "gate_ok g"
  let ?g1 = "snd (ensureTaskLocked i g)"
  let ?n = "bump (stoppedOpRetries (episode ?g1))"
  have 1: "gate_ok ?g1" using g by (rule gate_ok_ensure)
  show ?thesis
    using gate_ok_retries [OF 1, of ?n] gate_ok_episode [OF 1]
    by (auto simp: noteStoppedOpRetry_def Let_def intro!: gate_ok_stopTurnDecision)
qed

lemma gate_ok_rejects: "gate_ok g \<Longrightarrow> gate_ok (g\<lparr>episode := (episode g)\<lparr>reviewRejects := n\<rparr>\<rparr>)"
  by (auto simp: gate_ok_def budget_ok_def)

lemma gate_ok_recordReviewBlock: "gate_ok g \<Longrightarrow> gate_ok (snd (recordReviewBlock opts i v g))"
  using gate_ok_ensure [of g i]
  by (auto simp: recordReviewBlock_def Let_def case_prod_unfold
      intro!: gate_ok_put gate_ok_rejects task_ok_note split: option.split)

lemma gate_ok_stopOnReviews: "gate_ok g \<Longrightarrow> gate_ok (snd (stopOnReviews opts i gen q g))"
  by (simp add: stopOnReviews_def gate_ok_stopTurnDecision gate_ok_stop)

lemma gate_ok_park: "gate_ok g \<Longrightarrow> ppTaskGrantKey p = [] \<Longrightarrow> gate_ok (snd (ask_park_section (normalizeTaskID i) p g))"
  by (auto simp: gate_ok_def ask_park_section_def Let_def waiters_ok_def update_conv' less_SucI
      intro!: owners_ok_update pending_ok_update split: if_splits)

lemma gate_ok_ask_failed: "gate_ok g \<Longrightarrow> gate_ok (snd (ask_failed gen i err g))"
  by (simp add: ask_failed_def gate_ok_drop)

lemma gate_ok_takePending:
  "gate_ok g \<Longrightarrow> gate_ok (g\<lparr>pending := AList.update a p (AList.delete b (pending g))\<rparr>) \<longleftrightarrow>
     pending_ok (AList.update a p (AList.delete b (pending g)))"
  by (simp add: gate_ok_def)

lemma gate_ok_unprov: "gate_ok g \<Longrightarrow> gate_ok (g\<lparr>waiters := AList.delete b (waiters g), taskOf := AList.delete b (taskOf g)\<rparr>)"
  by (simp add: gate_ok_def waiters_ok_drop owners_ok_delete)

lemma gate_ok_movePending:
  "gate_ok g \<Longrightarrow> gate_ok (case map_of (pending g) b of None \<Rightarrow> g
     | Some p \<Rightarrow> g\<lparr>pending := AList.update a p (AList.delete b (pending g))\<rparr>)"
  by (auto simp: gate_ok_takePending intro!: pending_ok_update pending_ok_delete dest: gate_ok_pending
      split: option.split) (simp add: gate_ok_def)

lemma gate_ok_file:
  "gate_ok g \<Longrightarrow> c < nextChan g \<Longrightarrow> k \<noteq> [] \<Longrightarrow>
     gate_ok (g\<lparr>waiters := AList.update a c (waiters g), taskOf := AList.update a k (taskOf g)\<rparr>)"
  by (auto simp: gate_ok_def waiters_ok_def update_conv' intro!: owners_ok_update split: if_splits)

lemma gate_ok_ask_bound_section: "gate_ok g \<Longrightarrow> gate_ok (snd (ask_bound_section (normalizeTaskID i) a ch g))"
proof -
  assume g: "gate_ok g"
  let ?b = "provisional (normalizeTaskID i)"
  let ?g1 = "g\<lparr>waiters := AList.delete ?b (waiters g), taskOf := AList.delete ?b (taskOf g)\<rparr>"
  let ?g2 = "case map_of (pending ?g1) ?b of None \<Rightarrow> ?g1
     | Some p \<Rightarrow> ?g1\<lparr>pending := AList.update a p (AList.delete ?b (pending ?g1))\<rparr>"
  have g2: "gate_ok ?g2" using g by (intro gate_ok_movePending gate_ok_unprov)
  have n: "nextChan ?g2 = nextChan g" by (simp split: option.split)
  show ?thesis
  proof (cases "map_of (waiters g) ?b")
    case None
    then show ?thesis using g by (simp add: ask_bound_section_def Let_def)
  next
    case (Some c)
    then have "c < nextChan ?g2" using g unfolding n by (auto simp: gate_ok_def waiters_ok_def)
    then have f: "gate_ok (?g2\<lparr>waiters := AList.update a c (waiters ?g2),
        taskOf := AList.update a (normalizeTaskID i) (taskOf ?g2)\<rparr>)"
      by (intro gate_ok_file g2) simp_all
    have "snd (ask_bound_section (normalizeTaskID i) a ch g) =
        (case map_of (waiters ?g2) a of Some existing \<Rightarrow> ?g2
         | None \<Rightarrow> ?g2\<lparr>waiters := AList.update a c (waiters ?g2),
             taskOf := AList.update a (normalizeTaskID i) (taskOf ?g2)\<rparr>)"
      unfolding ask_bound_section_def Let_def Some option.case
      by (cases "map_of (waiters ?g2) a") (simp_all only: option.case snd_conv)
    then show ?thesis using f g2 by (simp only:) (cases "map_of (waiters ?g2) a"; simp only: option.case)
  qed
qed

lemma gate_ok_ask_bound: "gate_ok g \<Longrightarrow> gate_ok (snd (ask_bound opts (normalizeTaskID i) a ch g))"
  using gate_ok_ask_bound_section [of g i a ch] by (simp add: ask_bound_def case_prod_unfold)

lemma gate_ok_ask_wake: "gate_ok g \<Longrightarrow> ask_wake gen q ch g = Some (d, g') \<Longrightarrow> gate_ok g'"
  by (auto simp: ask_wake_def Let_def split: option.splits)

lemma gate_ok_ask_cancelled: "gate_ok g \<Longrightarrow> gate_ok (snd (ask_cancelled opts gen i a g))"
  by (simp add: ask_cancelled_def gate_ok_drop)

lemma gate_ok_consumeSafeRetry: "gate_ok g \<Longrightarrow> gate_ok (consumeSafeRetry i g)"
  by (auto simp: consumeSafeRetry_def task_ok_def failure_ok_def intro!: gate_ok_put dest: gate_ok_task split: option.split)

lemma gate_ok_noteReview [simp]: "gate_ok (noteReview l b g) = gate_ok g"
  by (simp add: noteReview_def Let_def)

lemma gate_ok_MarkFinalizationOffered: "gate_ok g \<Longrightarrow> gate_ok (MarkFinalizationOffered g)"
  by (auto simp: MarkFinalizationOffered_def gate_ok_def budget_ok_def)

lemma gate_ok_ConsumeFinalization: "gate_ok g \<Longrightarrow> gate_ok (snd (ConsumeFinalization g))"
  by (auto simp: ConsumeFinalization_def Let_def gate_ok_def budget_ok_def)

section \<open>Steps\<close>

text \<open>One rule per critical section. \<open>count\<close> stands for the sections that only touch the counters
  (\<open>RuleContinues\<close>, \<open>ReviewContinues\<close>, the review latency, \<open>DrainMetrics\<close>).\<close>

inductive gate_step :: "GateOpts \<Rightarrow> Gate \<Rightarrow> Gate \<Rightarrow> bool" for opts where
  observe: "gate_step opts g (snd (ObserveResult opts sh cx mode now obs g))"
| diagnose: "gate_step opts g (RecordDiagnosis opts i note g)"
| classified: "gate_step opts g (snd (classify opts e q g))"
| retried: "gate_step opts g (snd (noteStoppedOpRetry opts i gen q g))"
| stop_turn: "r \<noteq> StopReasonNone \<Longrightarrow> gate_step opts g (snd (stopTurnDecision opts i gen r q g))"
| spend: "gate_step opts g (persist opts (consumeSafeRetry i g))"
| review_stop: "gate_step opts g (snd (stopOnReviews opts i gen q g))"
| review_block: "gate_step opts g (snd (recordReviewBlock opts i v g))"
| count: "gate_step opts g (g\<lparr>metrics := m\<rparr>)"
| park: "gate_step opts g (snd (ask_park_section (normalizeTaskID i) (pendingFor fp q failure notes kind why) g))"
| prompt_failed: "gate_step opts g (snd (ask_failed gen i err g))"
| prompt_bound: "gate_step opts g (snd (ask_bound opts (normalizeTaskID i) a ch g))"
| wake: "ask_wake gen q ch g = Some (d, g') \<Longrightarrow> gate_step opts g g'"
| cancel: "gate_step opts g (snd (ask_cancelled opts gen i a g))"
| bind_id: "gate_step opts g (BindApprovalID i a g)"
| resolve: "gate_step opts g (snd (Resolve opts i act fb g))"
| begin_episode: "gate_step opts g (BeginEpisode opts g)"
| mode_change: "gate_step opts g (snd (OnModeChange opts m g))"
| restore: "gate_step opts g (Restore snap g)"
| offered: "gate_step opts g (MarkFinalizationOffered g)"
| consumed: "gate_step opts g (snd (ConsumeFinalization g))"

definition reaches :: "GateOpts \<Rightarrow> Gate \<Rightarrow> bool" where
  "reaches opts g \<longleftrightarrow> (gate_step opts)\<^sup>*\<^sup>* NewGate g"

lemma pendingFor_no_grant [simp]: "ppTaskGrantKey (pendingFor fp q failure notes kind why) = []"
  by (simp add: pendingFor_def)

lemmas section_oks = gate_ok_ObserveResult gate_ok_RecordDiagnosis gate_ok_classify gate_ok_noteStoppedOpRetry
  gate_ok_stopTurnDecision gate_ok_consumeSafeRetry gate_ok_stopOnReviews gate_ok_recordReviewBlock gate_ok_park
  gate_ok_ask_failed gate_ok_ask_bound gate_ok_ask_wake gate_ok_ask_cancelled gate_ok_BindApprovalID
  gate_ok_Resolve gate_ok_BeginEpisode gate_ok_OnModeChange gate_ok_Restore gate_ok_MarkFinalizationOffered
  gate_ok_ConsumeFinalization

lemma gate_ok_step: "gate_step opts g g' \<Longrightarrow> gate_ok g \<Longrightarrow> gate_ok g'"
  by (induction rule: gate_step.induct) (simp_all add: section_oks)

lemma gate_ok_reaches: "reaches opts g \<Longrightarrow> gate_ok g"
  unfolding reaches_def by (induction rule: rtranclp_induct) (simp_all add: gate_ok_new gate_ok_step)

section \<open>\<open>BeforeMutation\<close> is a path of sections\<close>

abbreviation (input) steps where "steps opts \<equiv> (gate_step opts)\<^sup>*\<^sup>*"

lemmas one_step = r_into_rtranclp [where r = "gate_step opts" for opts]

lemma steps_count: "steps opts g (g\<lparr>metrics := m\<rparr>)"
  by (rule one_step) (rule gate_step.count)

lemma steps_noteReview: "steps opts g (noteReview l b g)"
  by (simp add: noteReview_def Let_def steps_count)

lemma steps_ask_park:
  "steps opts g (snd (ask_park opts (normalizeTaskID i) gen (pendingFor fp q failure notes kind why) failure g))"
  by (auto simp: ask_park_def case_prod_unfold intro: one_step gate_step.park)

lemma steps_blockOrStop: "steps opts g (snd (blockOrStop opts i gen q v g))"
proof -
  let ?g1 = "snd (recordReviewBlock opts i v g)"
  have "steps opts g ?g1" by (rule one_step) (rule gate_step.review_block)
  moreover have "steps opts ?g1 (snd (stopOnReviews opts i gen q ?g1))" by (rule one_step) (rule gate_step.review_stop)
  ultimately show ?thesis by (auto simp: blockOrStop_def case_prod_unfold intro: rtranclp_trans)
qed

lemma steps_afterVerdict:
  "clTaskID c = normalizeTaskID i \<Longrightarrow> steps opts g (snd (afterVerdict opts c q v g))"
  by (simp add: afterVerdict_def Let_def steps_count steps_ask_park steps_blockOrStop)

lemma steps_askAboutPlan: "clTaskID c = normalizeTaskID i \<Longrightarrow> steps opts g (snd (askAboutPlan opts c q why g))"
  by (simp add: askAboutPlan_def steps_ask_park)

lemma steps_ruleContinue: "steps opts g (snd (ruleContinue gen g))"
  by (simp add: ruleContinue_def steps_count)

lemma steps_reviewOrEscalate:
  assumes "clTaskID c = normalizeTaskID i"
  shows "steps opts g (snd (reviewOrEscalate opts e c q g))"
proof -
  have stop: "steps opts g (snd (stopOnReviews opts k gen q g))" for k gen by (rule one_step) (rule gate_step.review_stop)
  have via: "steps opts (noteReview l b g) g' \<Longrightarrow> steps opts g g'" for l b g'
    by (rule rtranclp_trans [OF steps_noteReview])
  show ?thesis
    using assms stop
    by (auto simp: reviewOrEscalate_def Let_def case_prod_unfold steps_askAboutPlan steps_ruleContinue
        intro: via steps_askAboutPlan steps_ruleContinue steps_afterVerdict split: option.split)
qed

lemma Decide_stop_reason: "drRoute (Decide f) = RouteStopTurn \<Longrightarrow> drStopReason (Decide f) \<noteq> StopReasonNone"
  using Decide_reason [of f] by simp

lemma steps_followRoute:
  assumes "clTaskID c = normalizeTaskID i" "drRoute r = RouteStopTurn \<longrightarrow> drStopReason r \<noteq> StopReasonNone"
  shows "steps opts g (snd (followRoute opts e c q r g))"
  using assms
  by (auto simp: followRoute_def Let_def case_prod_unfold steps_reviewOrEscalate
      intro: one_step gate_step.spend gate_step.stop_turn steps_reviewOrEscalate split: Route.split)

lemma classify_taskID [simp]: "clTaskID (fst (classify opts e q g)) = normalizeTaskID (qTaskID q)"
  by (simp add: classify_def case_prod_unfold Let_def)

lemma BeforeMutation_steps: "steps opts g (snd (BeforeMutation opts e q g))"
proof -
  obtain c g1 where c: "classify opts e q g = (c, g1)" by (rule prod.exhaust)
  define noted where "noted = (if AutoMode (clFacts c) \<and> OperationAlreadyStopped (clFacts c) \<and> SameFailedOperation (clFacts c)
      then noteStoppedOpRetry opts (clTaskID c) (clGen c) q g1 else (None, g1))"
  have i: "clTaskID c = normalizeTaskID (qTaskID q)" using classify_taskID [of opts e q g] c by simp
  have "steps opts g g1" using gate_step.classified [of opts g e q] c by (simp add: one_step)
  moreover have "steps opts g1 (snd noted)" by (auto simp: noted_def intro: one_step gate_step.retried)
  ultimately have g2: "steps opts g (snd noted)" by (rule rtranclp_trans)
  have stop: "steps opts h (snd (stopTurnDecision opts k gen StopReasonEpisodeFailures q h))" for h k gen
    by (rule one_step) (simp add: gate_step.stop_turn)
  have halted: "steps opts h (snd (followRoute opts e c q ((routed RouteStop)\<lparr>drStopReason := s\<rparr>) h))" for h s
    by (rule steps_followRoute [OF i]) (simp add: routed_def)
  have decided: "steps opts h (snd (followRoute opts e c q (Decide f) h))" for h f
    by (rule steps_followRoute [OF i]) (simp add: Decide_stop_reason)
  show ?thesis
    unfolding BeforeMutation_def c prod.case Let_def noted_def [symmetric]
    using g2 by (auto simp: case_prod_unfold split: option.split intro: rtranclp_trans [OF g2] stop halted decided)
qed

end
