(* ===== verification/RecGuarantees.thy ===== *)
theory RecGuarantees
  imports RecInvariant
begin

text \<open>
  What the guard of automatic execution promises about whole operations: \<open>BeforeMutation\<close>,
  \<open>ObserveResult\<close>, \<open>Resolve\<close>, \<open>BeginEpisode\<close>, \<open>Restore\<close>.
\<close>

section \<open>Facts of a proposal\<close>

lemma taskFacts_simps [simp]:
  "AutoMode (taskFacts cx q st f) = AutoMode f" "kReadOnly (taskFacts cx q st f) = kReadOnly f"
  "kMutates (taskFacts cx q st f) = kMutates f" "kVerification (taskFacts cx q st f) = kVerification f"
  "PlanTransition (taskFacts cx q st f) = PlanTransition f" "kEpisodeStopped (taskFacts cx q st f) = kEpisodeStopped f"
  "EpisodeFailureCount (taskFacts cx q st f) = EpisodeFailureCount f" "kStopReason (taskFacts cx q st f) = kStopReason f"
  by (simp_all add: taskFacts_def Let_def split: option.split)

lemma widenFacts_simps [simp]:
  "AutoMode (widenFacts cx ev q f) = AutoMode f" "kReadOnly (widenFacts cx ev q f) = kReadOnly f"
  "kMutates (widenFacts cx ev q f) = kMutates f" "kVerification (widenFacts cx ev q f) = kVerification f"
  "PlanTransition (widenFacts cx ev q f) = PlanTransition f" "kEpisodeStopped (widenFacts cx ev q f) = kEpisodeStopped f"
  "EpisodeFailureCount (widenFacts cx ev q f) = EpisodeFailureCount f" "kStopReason (widenFacts cx ev q f) = kStopReason f"
  "FailureCount (widenFacts cx ev q f) = FailureCount f" "HasActiveFailure (widenFacts cx ev q f) = HasActiveFailure f"
  "SameFailedOperation (widenFacts cx ev q f) = SameFailedOperation f"
  "OperationAlreadyStopped (widenFacts cx ev q f) = OperationAlreadyStopped f"
  by (simp_all add: widenFacts_def Let_def split: option.split)

text \<open>The facts that come from the proposal and from the shared episode.\<close>

definition shared_facts :: "bool \<Rightarrow> Proposal \<Rightarrow> Gate \<Rightarrow> Facts \<Rightarrow> bool" where
  "shared_facts auto q g f \<longleftrightarrow>
     AutoMode f = auto \<and> kReadOnly f = qReadOnly q \<and> kMutates f = qMutates q \<and> kVerification f = qVerification q \<and>
     PlanTransition f = qPlanTransition q \<and> kEpisodeStopped f = stopped (episode g) \<and>
     EpisodeFailureCount f = totalFailures (episode g) \<and> kStopReason f = stopReason (episode g)"

lemma classify_task_facts:
  "fst (classify_task cx k q i f st g) =
     (if HighRisk (taskFacts cx q st f) \<and>
         (task_empty (useTaskGrantScope st (taskGrantScopeKey cx q)) \<longrightarrow> hasTaskGrants (useTaskGrantScope st (taskGrantScopeKey cx q))) \<and>
         taskGrantRuntimeKey k (taskGrantScopeKey cx q) \<noteq> [] \<and>
         hasTaskGrant (useTaskGrantScope st (taskGrantScopeKey cx q)) (taskGrantRuntimeKey k (taskGrantScopeKey cx q))
      then (taskFacts cx q st f)\<lparr>HighRisk := False\<rparr> else taskFacts cx q st f, evidenceCopy st, diagnosisNotes st)"
  by (auto simp: classify_task_def Let_def)

lemma classify_shared: "shared_facts (activeMode (envMode e)) q g (clFacts (fst (classify opts e q g)))"
  by (auto simp: classify_def classify_section_def Let_def case_prod_unfold shared_facts_def baseFacts_def
      classify_task_facts split: option.split)

lemma classify_gen [simp]: "clGen (fst (classify opts e q g)) = generation g"
  by (simp add: classify_def case_prod_unfold Let_def)

lemma persist_simps [simp]:
  "episode (persist opts g) = episode g" "tasks (persist opts g) = tasks g" "generation (persist opts g) = generation g"
  "waiters (persist opts g) = waiters g" "taskOf (persist opts g) = taskOf g" "chans (persist opts g) = chans g"
  "awaiting (persist opts g) = awaiting g" "pending (persist opts g) = pending g" "nextChan (persist opts g) = nextChan g"
  "episodeID (persist opts g) = episodeID g"
  by (simp_all add: persist_def)

lemma stopTurnDecision_refuses:
  "dBlocked (fst (stopTurnDecision opts i gen r q g)) \<and> \<not> dAllow (fst (stopTurnDecision opts i gen r q g)) \<and>
   dStopTurn (fst (stopTurnDecision opts i gen r q g)) \<and> dGeneration (fst (stopTurnDecision opts i gen r q g)) = gen \<and>
   \<not> dAuthorizePlanReplacement (fst (stopTurnDecision opts i gen r q g))"
  by (simp add: stopTurnDecision_def Let_def no_decision_def)

lemma noteStoppedOpRetry_refuses:
  "fst (noteStoppedOpRetry opts i gen q g) = Some d \<Longrightarrow>
     dBlocked d \<and> \<not> dAllow d \<and> dStopTurn d \<and> dGeneration d = gen \<and> \<not> dAuthorizePlanReplacement d"
  by (auto simp: noteStoppedOpRetry_def Let_def stopTurnDecision_refuses split: if_splits)

text \<open>What a call that is refused without asking anybody looks like.\<close>

definition refused :: "64 word \<Rightarrow> Outcome \<Rightarrow> bool" where
  "refused gen r \<longleftrightarrow> (case r of Decided d \<Rightarrow> dBlocked d \<and> \<not> dAllow d \<and> dGeneration d = gen \<and> \<not> dAuthorizePlanReplacement d
     | Parked ch p \<Rightarrow> False)"

definition allowed :: "Outcome \<Rightarrow> bool" where
  "allowed r \<longleftrightarrow> (case r of Decided d \<Rightarrow> dAllow d \<and> \<not> dBlocked d | Parked ch p \<Rightarrow> False)"

lemma refused_not_allowed: "refused gen r \<Longrightarrow> \<not> allowed r"
  by (auto simp: refused_def allowed_def split: Outcome.splits)

lemma allowed_decision [simp]: "allowed (Decided (allow_decision gen))"
  by (simp add: allowed_def allow_decision_def no_decision_def)

lemma refused_stopTurn [simp]: "refused gen (Decided (fst (stopTurnDecision opts i gen r q g)))"
  using stopTurnDecision_refuses [of opts i gen r q g] by (simp add: refused_def)

lemma followRoute_stop:
  "drRoute r \<in> {RouteStop, RouteStopTurn} \<Longrightarrow> refused (clGen c) (fst (followRoute opts e c q r g))"
  by (auto simp: followRoute_def Let_def case_prod_unfold stopTurnDecision_refuses refused_def
      block_decision_def no_decision_def)

lemma followRoute_allow:
  "drRoute r \<in> {RouteBypass, RouteAllow} \<Longrightarrow> allowed (fst (followRoute opts e c q r g))"
  by (auto simp: followRoute_def Let_def allowed_def allow_decision_def no_decision_def)

text \<open>The decision of \<open>BeforeMutation\<close>, over the facts.\<close>

definition already_stopped :: "Facts \<Rightarrow> bool" where
  "already_stopped f \<longleftrightarrow> AutoMode f \<and> OperationAlreadyStopped f \<and> SameFailedOperation f"

definition out_of_budget :: "Facts \<Rightarrow> bool" where
  "out_of_budget f \<longleftrightarrow> AutoMode f \<and> MaxEpisodeFailures \<le> EpisodeFailureCount f \<and> (kMutates f \<or> kVerification f)"

lemma BeforeMutation_refuses:
  assumes "already_stopped (clFacts (fst (classify opts e q g))) \<or> out_of_budget (clFacts (fst (classify opts e q g))) \<or>
     drRoute (Decide (clFacts (fst (classify opts e q g)))) \<in> {RouteStop, RouteStopTurn}"
  shows "refused (generation g) (fst (BeforeMutation opts e q g))"
proof -
  obtain c g1 where c: "classify opts e q g = (c, g1)" by (rule prod.exhaust)
  have gen: "clGen c = generation g" using classify_gen [of opts e q g] c by simp
  note 1 = followRoute_stop [of _ c opts e q, unfolded gen]
  show ?thesis
    using assms noteStoppedOpRetry_refuses [of opts "clTaskID c" "clGen c" q g1]
    by (auto simp: BeforeMutation_def c gen Let_def already_stopped_def out_of_budget_def case_prod_unfold routed_def
        intro!: 1 split: option.split) (auto simp: refused_def)
qed

lemma BeforeMutation_routes:
  assumes "\<not> already_stopped (clFacts (fst (classify opts e q g)))" "\<not> out_of_budget (clFacts (fst (classify opts e q g)))"
  shows "BeforeMutation opts e q g =
     followRoute opts e (fst (classify opts e q g)) q (Decide (clFacts (fst (classify opts e q g)))) (snd (classify opts e q g))"
proof -
  obtain c g1 where c: "classify opts e q g = (c, g1)" by (rule prod.exhaust)
  show ?thesis
    using assms by (auto simp: BeforeMutation_def c Let_def already_stopped_def out_of_budget_def)
qed

section \<open>Auxiliary facts\<close>

lemma classify_facts_stopped:
  assumes "activeMode (envMode e)" "stopped (episode g)" "qMutates q \<or> qVerification q \<or> qPlanTransition q \<or> \<not> qReadOnly q"
  shows "drRoute (Decide (clFacts (fst (classify opts e q g)))) = RouteStopTurn"
  using assms classify_shared [of e q g opts] by (auto simp: shared_facts_def Decide_route diagnosis_only_def)

lemma bump_ge: "n \<le> bump n"
  by (auto simp: bump_def word_le_nat_alt word_less_nat_alt unat_word_ariths)

lemma uint_bump: "uint (bump n) = min 255 (uint n + 1)"
proof -
  have "uint n < 256" using uint_bounded [of n] by simp
  then show ?thesis
    by (auto simp: bump_def word_less_def uint_word_ariths mod_pos_pos_trivial min_def)
qed

lemma saturated_ge: "l \<le> int k \<Longrightarrow> l \<le> 255 \<Longrightarrow> l \<le> min 255 (uint (m :: 8 word) + int k)"
  using uint_ge_0 [of m] by linarith

lemma below_six: "n < 5 \<Longrightarrow> \<not> MaxEpisodeFailures \<le> bump n"
  by (simp add: word_le_def word_less_def MaxEpisodeFailures_def uint_bump)

lemma ensureTask_simps [simp]:
  "episode (snd (ensureTaskLocked i g)) = episode g" "generation (snd (ensureTaskLocked i g)) = generation g"
  "episodeID (snd (ensureTaskLocked i g)) = episodeID g"
  by (simp_all add: ensureTaskLocked_def Let_def putTask_def)

lemma recordFailure_episode:
  "totalFailures (episode (snd (recordFailure cx now i obs st g))) = bump (totalFailures (episode g))"
  "generation (snd (recordFailure cx now i obs st g)) = generation g"
  by (simp_all add: recordFailure_def Let_def case_prod_unfold putTask_def)

lemma recordFailure_stopped:
  "stopped (episode (snd (recordFailure cx now i obs st g))) \<longleftrightarrow>
     stopped (episode g) \<or> MaxEpisodeFailures \<le> bump (totalFailures (episode g))"
  by (simp add: recordFailure_def Let_def case_prod_unfold putTask_def)

text \<open>An observation that the guard counts: Auto, of this generation, a qualifying failure.\<close>

definition counts_as_failure :: "bytes \<Rightarrow> Observation \<Rightarrow> 64 word \<Rightarrow> bool" where
  "counts_as_failure mode obs gen \<longleftrightarrow>
     activeMode mode \<and> (oGeneration obs = 0 \<or> oGeneration obs = gen) \<and> QualifyingFailure obs"

lemma ObserveResult_failure:
  assumes "counts_as_failure mode obs (generation g)"
  shows "snd (ObserveResult opts sh cx mode now obs g) =
     persist opts (snd (recordFailure cx now (normalizeTaskID (oTaskID obs)) obs
       (fst (ensureTaskLocked (normalizeTaskID (oTaskID obs)) g))
       (snd (ensureTaskLocked (normalizeTaskID (oTaskID obs)) g))))"
proof -
  have "\<not> oSuccess obs" using assms by (auto simp: counts_as_failure_def QualifyingFailure_def)
  with assms show ?thesis
    by (auto simp: ObserveResult_def counts_as_failure_def Let_def case_prod_unfold)
qed

text \<open>Several finished calls, in order.\<close>

definition observe_all :: "GateOpts \<Rightarrow> shell \<Rightarrow> codec \<Rightarrow> bytes \<Rightarrow> int \<Rightarrow> Observation list \<Rightarrow> Gate \<Rightarrow> Gate" where
  "observe_all opts sh cx mode now os g = fold (\<lambda>obs h. snd (ObserveResult opts sh cx mode now obs h)) os g"

lemma observe_all_failures:
  assumes "\<forall>obs \<in> set os. counts_as_failure mode obs (generation g)"
  shows "uint (totalFailures (episode (observe_all opts sh cx mode now os g))) =
           min 255 (uint (totalFailures (episode g)) + int (length os)) \<and>
         generation (observe_all opts sh cx mode now os g) = generation g"
  using assms
proof (induction os arbitrary: g)
  case Nil
  show ?case using uint_bounded [of "totalFailures (episode g)"] by (simp add: observe_all_def)
next
  case (Cons obs os)
  let ?h = "snd (ObserveResult opts sh cx mode now obs g)"
  have h: "totalFailures (episode ?h) = bump (totalFailures (episode g))" "generation ?h = generation g"
    using Cons.prems by (simp_all add: ObserveResult_failure recordFailure_episode)
  have "observe_all opts sh cx mode now (obs # os) g = observe_all opts sh cx mode now os ?h"
    by (simp add: observe_all_def)
  with Cons.IH [of ?h] Cons.prems h show ?case by (auto simp: uint_bump min_def)
qed

lemma observe_all_reaches: "reaches opts g \<Longrightarrow> reaches opts (observe_all opts sh cx mode now os g)"
proof (induction os arbitrary: g)
  case (Cons obs os)
  then have "reaches opts (snd (ObserveResult opts sh cx mode now obs g))"
    unfolding reaches_def using rtranclp.rtrancl_into_rtrancl [of "gate_step opts", OF _ gate_step.observe] by blast
  then show ?case using Cons.IH by (simp add: observe_all_def)
qed (simp add: observe_all_def)

lemma reaches_new: "reaches opts NewGate"
  by (simp add: reaches_def)

section \<open>One task\<close>

text \<open>SHA-256 in hexadecimal: never empty, no white space.\<close>

definition hex_digest :: "codec \<Rightarrow> bool" where
  "hex_digest cx \<longleftrightarrow> (\<forall>x. cSha cx x \<noteq> [] \<and> TrimSpace (cSha cx x) = cSha cx x)"

abbreviation op_fingerprint :: "codec \<Rightarrow> Proposal \<Rightarrow> bytes" where
  "op_fingerprint cx q \<equiv> CallFingerprint cx (qTool q) (qSubject q) [] (qArgs q)"

lemma hex_digest_call: "hex_digest cx \<Longrightarrow> CallFingerprint cx a b c d \<noteq> [] \<and> TrimSpace (CallFingerprint cx a b c d) = CallFingerprint cx a b c d"
  by (simp add: hex_digest_def CallFingerprint_def)

lemma fFingerprint_copy [simp]: "fFingerprint (cloneFailureEvent ev af st) = fFingerprint ev"
  by (simp add: cloneFailureEvent_def Let_def)

lemma classify_align_same: "tEpisodeID st = ep \<Longrightarrow> classify_align ep st = (st, False)"
  by (cases st) (simp add: classify_align_def)

lemma classify_task_fields:
  "OperationAlreadyStopped (fst (fst (classify_task cx k q i f st g))) = OperationAlreadyStopped (taskFacts cx q st f)"
  "SameFailedOperation (fst (fst (classify_task cx k q i f st g))) = SameFailedOperation (taskFacts cx q st f)"
  "HasActiveFailure (fst (fst (classify_task cx k q i f st g))) = HasActiveFailure (taskFacts cx q st f)"
  by (simp_all add: classify_task_facts)

lemma taskFacts_fields:
  "OperationAlreadyStopped (taskFacts cx q st f) = isOperationStopped st (op_fingerprint cx q)"
  "SameFailedOperation (taskFacts cx q st (baseFacts a b q' g)) = sameFailedOperation cx (evidenceCopy st) q"
  "HasActiveFailure (taskFacts cx q st (baseFacts a b q' g)) = (lastFailure st \<noteq> None)"
  by (auto simp: taskFacts_def Let_def baseFacts_def sameFailedOperation_def evidenceCopy_def split: option.split)

lemma sameFailedOperation_risk [simp]: "sameFailedOperation cx ev (q\<lparr>qHighRisk := b\<rparr>) = sameFailedOperation cx ev q"
  by (cases ev) (simp_all add: sameFailedOperation_def Let_def)

lemma classify_known_task:
  assumes "activeMode (envMode e)" "map_of (tasks g) (normalizeTaskID (qTaskID q)) = Some st" "tEpisodeID st = episodeID g"
  shows "OperationAlreadyStopped (clFacts (fst (classify opts e q g))) = isOperationStopped st (op_fingerprint (envCodec e) q)"
    and "SameFailedOperation (clFacts (fst (classify opts e q g))) = sameFailedOperation (envCodec e) (evidenceCopy st) q"
    and "HasActiveFailure (clFacts (fst (classify opts e q g))) = (lastFailure st \<noteq> None)"
  using classify_task_fields(1-3) [of "envCodec e" _ _ _ _ st g] assms
  by (simp_all add: classify_def classify_section_def classify_mode_def classify_align_same Let_def case_prod_unfold
      taskFacts_fields cong: if_cong)

lemma classify_unknown_task:
  assumes "map_of (tasks g) (normalizeTaskID (qTaskID q)) = None"
  shows "\<not> HasActiveFailure (clFacts (fst (classify opts e q g)))" "\<not> SameFailedOperation (clFacts (fst (classify opts e q g)))"
  using assms
  by (simp_all add: classify_def classify_section_def classify_mode_def Let_def case_prod_unfold widenFacts_def baseFacts_def)

text \<open>The evidence the task holds is of this operation.\<close>

definition last_failed :: "bytes \<Rightarrow> taskRuntime \<Rightarrow> bool" where
  "last_failed fp st \<longleftrightarrow> (\<exists>af. lastFailure st = Some af \<and> fFingerprint (evidence af) = fp)"

lemma last_failed_same:
  assumes "hex_digest cx" "last_failed (CallFingerprint cx a b c d) st"
  shows "sameFailedOperation cx (evidenceCopy st) q \<longleftrightarrow> CallFingerprint cx a b c d = op_fingerprint cx q"
  using assms hex_digest_call [OF assms(1), of a b c d]
  by (auto simp: sameFailedOperation_def evidenceCopy_def last_failed_def)

text \<open>What one counted failure leaves behind in its task.\<close>

lemma guidance_keeps:
  "operationFailures (snd (recoveryGuidance st)) = operationFailures st" "stoppedOps (snd (recoveryGuidance st)) = stoppedOps st"
  "lastFailure (snd (recoveryGuidance st)) = lastFailure st" "tEpisodeID (snd (recoveryGuidance st)) = tEpisodeID st"
  by (simp_all add: recoveryGuidance_def)

definition prior_count :: "Gate \<Rightarrow> bytes \<Rightarrow> bytes \<Rightarrow> 8 word" where
  "prior_count g i fp = (case map_of (tasks g) i of None \<Rightarrow> 0
     | Some st \<Rightarrow> (case map_of (operationFailures st) fp of None \<Rightarrow> 0 | Some n \<Rightarrow> n))"

lemma mark_keeps [simp]:
  "operationFailures (markOperationStopped st fp) = operationFailures st" "tEpisodeID (markOperationStopped st fp) = tEpisodeID st"
  by (simp_all add: markOperationStopped_def)

lemma recordFailure_task:
  fixes cx now i obs st g
  defines "h \<equiv> snd (recordFailure cx now i obs st g)"
  shows "\<exists>st'. map_of (tasks h) i = Some st' \<and> tEpisodeID st' = episodeID g \<and>
      last_failed (observationFingerprint cx obs) st' \<and>
      (\<forall>fp. map_of (operationFailures st') fp =
         (if fp = observationFingerprint cx obs
          then Some (bump (case map_of (operationFailures st) fp of None \<Rightarrow> 0 | Some n \<Rightarrow> n))
          else map_of (operationFailures st) fp))" and "episodeID h = episodeID g"
  by (auto simp: h_def recordFailure_def Let_def case_prod_unfold putTask_def update_conv' guidance_keeps
      last_failed_def countFailure_def failureEvidence_def)

lemma ensure_prior:
  "(case map_of (operationFailures (fst (ensureTaskLocked i g))) fp of None \<Rightarrow> 0 | Some n \<Rightarrow> n) = prior_count g i fp"
  by (auto simp: ensureTaskLocked_def Let_def prior_count_def new_task_def split: option.split)

lemma counted_failure_task:
  fixes opts sh cx now
  assumes "counts_as_failure mode obs (generation g)"
  defines "h \<equiv> snd (ObserveResult opts sh cx mode now obs g)" and "i \<equiv> normalizeTaskID (oTaskID obs)"
  shows "\<exists>st. map_of (tasks h) i = Some st \<and> tEpisodeID st = episodeID h \<and> last_failed (observationFingerprint cx obs) st"
    and "prior_count h i fp = (if fp = observationFingerprint cx obs then bump (prior_count g i fp) else prior_count g i fp)"
    and "generation h = generation g" "episodeID h = episodeID g"
proof -
  let ?s = "fst (ensureTaskLocked i g)" and ?g1 = "snd (ensureTaskLocked i g)"
  have h: "h = persist opts (snd (recordFailure cx now i obs ?s ?g1))"
    unfolding h_def i_def using assms(1) by (rule ObserveResult_failure)
  note r = recordFailure_task [of cx now i obs ?s ?g1]
  show "\<exists>st. map_of (tasks h) i = Some st \<and> tEpisodeID st = episodeID h \<and> last_failed (observationFingerprint cx obs) st"
    using r by (auto simp: h)
  show "prior_count h i fp = (if fp = observationFingerprint cx obs then bump (prior_count g i fp) else prior_count g i fp)"
    using r(1) ensure_prior [of i g fp] unfolding prior_count_def [of h] by (auto simp: h)
  show "generation h = generation g" "episodeID h = episodeID g"
    using r(2) by (simp_all add: h recordFailure_episode)
qed

lemma counted_failures_op:
  assumes "\<forall>obs \<in> set os. counts_as_failure mode obs (generation g) \<and> normalizeTaskID (oTaskID obs) = i \<and>
      observationFingerprint cx obs = fp"
  shows "uint (prior_count (observe_all opts sh cx mode now os g) i fp) = min 255 (uint (prior_count g i fp) + int (length os)) \<and>
    (os \<noteq> [] \<longrightarrow> (\<exists>st. map_of (tasks (observe_all opts sh cx mode now os g)) i = Some st \<and>
      tEpisodeID st = episodeID (observe_all opts sh cx mode now os g) \<and> last_failed fp st))"
  using assms
proof (induction os arbitrary: g)
  case Nil
  then show ?case using uint_bounded [of "prior_count g i fp"] by (simp add: observe_all_def)
next
  case (Cons obs os)
  let ?h = "snd (ObserveResult opts sh cx mode now obs g)"
  have step: "observe_all opts sh cx mode now (obs # os) g = observe_all opts sh cx mode now os ?h"
    by (simp add: observe_all_def)
  note c = counted_failure_task [of mode obs g opts sh cx now]
  have *: "\<forall>o1 \<in> set os. counts_as_failure mode o1 (generation ?h) \<and> normalizeTaskID (oTaskID o1) = i \<and>
      observationFingerprint cx o1 = fp"
    using Cons.prems c(3) by auto
  have "prior_count ?h i fp = bump (prior_count g i fp)" using c(2) [of fp] Cons.prems by simp
  moreover have "\<exists>st. map_of (tasks ?h) i = Some st \<and> tEpisodeID st = episodeID ?h \<and> last_failed fp st"
    using c(1) Cons.prems by auto
  ultimately show ?case using Cons.IH [OF *] by (cases "os = []") (auto simp: step uint_bump observe_all_def)
qed

lemma already_stoppedI:
  assumes "hex_digest (envCodec e)" "activeMode (envMode e)" "map_of (tasks g) (normalizeTaskID (qTaskID q)) = Some st"
    and "tEpisodeID st = episodeID g" "last_failed (op_fingerprint (envCodec e) q) st"
    and "MaxOperationFailures \<le> prior_count g (normalizeTaskID (qTaskID q)) (op_fingerprint (envCodec e) q)"
  shows "already_stopped (clFacts (fst (classify opts e q g)))"
proof -
  let ?fp = "op_fingerprint (envCodec e) q"
  have "?fp \<noteq> []" using hex_digest_call [OF assms(1)] by blast
  then have "isOperationStopped st ?fp"
    using assms(3,6) by (simp add: isOperationStopped_def operationFailureCount_def prior_count_def)
  moreover have "sameFailedOperation (envCodec e) (evidenceCopy st) q"
    using last_failed_same [OF assms(1,5)] by simp
  ultimately show ?thesis
    using classify_known_task [OF assms(2-4), of opts] classify_shared [of e q g opts] assms(2)
    by (simp add: already_stopped_def shared_facts_def)
qed

text \<open>The task's evidence is about the proposed operation.\<close>

definition proposes_failed_op :: "codec \<Rightarrow> Proposal \<Rightarrow> Gate \<Rightarrow> bool" where
  "proposes_failed_op cx q g \<longleftrightarrow>
     (case map_of (tasks g) (normalizeTaskID (qTaskID q)) of None \<Rightarrow> False
      | Some st \<Rightarrow> sameFailedOperation cx (evidenceCopy st) q)"

lemma evidenceCopy_clear [simp]: "evidenceCopy (clearTaskRecoveryState st) = None"
  by (simp add: evidenceCopy_def clearTaskRecoveryState_def)

lemma operationFailureCount_episode [simp]: "operationFailureCount (st\<lparr>tEpisodeID := ep\<rparr>) fp = operationFailureCount st fp"
  by (simp add: operationFailureCount_def)

lemma evidenceCopy_episode [simp]: "evidenceCopy (st\<lparr>tEpisodeID := ep\<rparr>) = evidenceCopy st"
  by (cases "lastFailure st") (simp_all add: evidenceCopy_def cloneFailureEvent_def Let_def)

lemma sameFailedOperation_None [simp]: "\<not> sameFailedOperation cx None q"
  by (simp add: sameFailedOperation_def)

lemma evidence_align: "evidenceCopy (fst (classify_align ep st)) \<in> {None, evidenceCopy st}"
  by (simp add: classify_align_def)

lemma classify_unrelated:
  assumes "activeMode (envMode e)" "\<not> proposes_failed_op (envCodec e) q g"
  shows "\<not> SameFailedOperation (clFacts (fst (classify opts e q g)))"
proof (cases "map_of (tasks g) (normalizeTaskID (qTaskID q))")
  case None
  then show ?thesis by (rule classify_unknown_task)
next
  case (Some st)
  then have "\<not> sameFailedOperation (envCodec e) (evidenceCopy (fst (classify_align (episodeID g) st))) q"
    using assms(2) evidence_align [of "episodeID g" st] by (auto simp: proposes_failed_op_def)
  with Some assms(1) show ?thesis
    by (simp add: classify_def classify_section_def classify_mode_def Let_def case_prod_unfold classify_task_fields
        taskFacts_fields)
qed

section \<open>Properties\<close>

text \<open>C1. In every state the guard can reach, whatever the interleaving of its critical sections, the
  generation and the episode number are not zero and the episode's name is the one of its number;
  the budget is consistent (a stopped episode has its reason and only a stopped episode has one,
  six failures or three retries of stopped operations have stopped it, the final round is only
  offered in a stopped episode and only consumed when offered); every operation with three
  failures is marked as stopped; no task holds more than four diagnosis notes or 1600 bytes of
  them, or any grant; and every parked question has an owner it can be resolved under.\<close>

theorem gate_invariant:
  assumes "reaches opts g"
  shows "gate_ok g"
  using assms by (rule gate_ok_reaches)

text \<open>C2. Six counted failures end the turn for everybody: after any six or more qualifying failures in
  a row, of whichever tasks and operations, every call that mutates or verifies, of any task, is
  refused, and no reviewer or human is asked.\<close>

theorem six_failures_stop_everything:
  assumes "\<forall>obs \<in> set os. counts_as_failure (envMode e) obs (generation g)" "6 \<le> length os"
    and "qMutates q \<or> qVerification q"
  shows "refused (generation g) (fst (BeforeMutation opts e q (observe_all opts sh cx (envMode e) now os g)))"
proof -
  let ?h = "observe_all opts sh cx (envMode e) now os g"
  have h: "uint (totalFailures (episode ?h)) = min 255 (uint (totalFailures (episode g)) + int (length os))"
    "generation ?h = generation g"
    using observe_all_failures [OF assms(1), of opts sh cx now] by simp_all
  have "(6::8 word) \<le> totalFailures (episode ?h)"
    using saturated_ge [of 6 "length os" "totalFailures (episode g)"] assms(2) h(1) by (simp add: word_le_def)
  moreover have "activeMode (envMode e)" using assms(1,2) by (cases os) (auto simp: counts_as_failure_def)
  ultimately have "out_of_budget (clFacts (fst (classify opts e q ?h)))"
    using classify_shared [of e q ?h opts] assms(3)
    by (auto simp: out_of_budget_def shared_facts_def MaxEpisodeFailures_def)
  then show ?thesis using BeforeMutation_refuses [of opts e q ?h] h(2) by simp
qed

text \<open>A stopped episode stays stopped for work: in Auto, once an episode is stopped for any reason,
  every proposal that mutates, verifies, rewrites the plan or is not read-only is refused without
  a reviewer or a human, in every task.\<close>

theorem stopped_episode_refuses_work:
  assumes "activeMode (envMode e)" "stopped (episode g)"
    and "qMutates q \<or> qVerification q \<or> qPlanTransition q \<or> \<not> qReadOnly q"
  shows "refused (generation g) (fst (BeforeMutation opts e q g))"
  using BeforeMutation_refuses [of opts e q g] classify_facts_stopped [OF assms, of opts] by simp


text \<open>C3. Three failures stop the operation: after three or more counted failures in a row of one
  operation in one task, every further proposal of exactly that operation in that task is refused
  without a reviewer or a human, whatever else it claims to be.\<close>

theorem three_failures_stop_operation:
  assumes "hex_digest (envCodec e)" "3 \<le> length os"
    and "\<forall>obs \<in> set os. counts_as_failure (envMode e) obs (generation g) \<and>
      normalizeTaskID (oTaskID obs) = normalizeTaskID (qTaskID q) \<and>
      observationFingerprint (envCodec e) obs = op_fingerprint (envCodec e) q"
  shows "refused (generation g) (fst (BeforeMutation opts e q (observe_all opts sh (envCodec e) (envMode e) now os g)))"
proof -
  let ?h = "observe_all opts sh (envCodec e) (envMode e) now os g"
  let ?i = "normalizeTaskID (qTaskID q)" and ?fp = "op_fingerprint (envCodec e) q"
  have os: "os \<noteq> []" using assms(2) by auto
  note c = counted_failures_op [OF assms(3), of opts sh now]
  have "MaxOperationFailures \<le> prior_count ?h ?i ?fp"
    using saturated_ge [of 3 "length os" "prior_count g ?i ?fp"] assms(2) c
    by (simp add: word_le_def MaxOperationFailures_def)
  moreover have "activeMode (envMode e)" using assms(3) os by (cases os) (auto simp: counts_as_failure_def)
  ultimately have "already_stopped (clFacts (fst (classify opts e q ?h)))"
    using c os by (auto intro!: already_stoppedI [OF assms(1)])
  moreover have "generation ?h = generation g"
    using observe_all_failures [of os "envMode e" g] assms(3) by blast
  ultimately show ?thesis using BeforeMutation_refuses [of opts e q ?h] by simp
qed

text \<open>What is not the failed operation runs: in Auto, a proposal that is not the operation of the
  task's last failure is refused exactly when the episode is stopped and it is more than a look;
  read-only diagnosis always runs, and in a running episode so does everything except a rewrite
  of the plan, which is for the reviewer.\<close>

theorem unrelated_calls_run:
  assumes "reaches opts g" "activeMode (envMode e)" "\<not> proposes_failed_op (envCodec e) q g"
  shows "if qReadOnly q \<and> \<not> qMutates q \<and> \<not> qVerification q \<and> \<not> qPlanTransition q
         then allowed (fst (BeforeMutation opts e q g))
         else if stopped (episode g) then refused (generation g) (fst (BeforeMutation opts e q g))
         else if qPlanTransition q
         then BeforeMutation opts e q g =
           reviewOrEscalate opts e (fst (classify opts e q g)) q (snd (classify opts e q g))
         else allowed (fst (BeforeMutation opts e q g))"
proof -
  let ?f = "clFacts (fst (classify opts e q g))"
  have same: "\<not> SameFailedOperation ?f" using assms(2,3) by (rule classify_unrelated)
  have f: "shared_facts True q g ?f" using classify_shared [of e q g opts] assms(2) by simp
  have b: "MaxEpisodeFailures \<le> totalFailures (episode g) \<longrightarrow> stopped (episode g)"
    using gate_ok_reaches [OF assms(1)] by (auto simp: gate_ok_def budget_ok_def)
  have 1: "\<not> already_stopped ?f" using same by (simp add: already_stopped_def)
  have 2: "\<not> out_of_budget ?f" if "\<not> stopped (episode g) \<or> (\<not> qMutates q \<and> \<not> qVerification q)"
    using that b f by (auto simp: out_of_budget_def shared_facts_def)
  have r: "drRoute (Decide ?f) = (if stopped (episode g) then (if diagnosis_only ?f then RouteAllow else RouteStopTurn)
      else if qPlanTransition q then RouteReview else RouteAllow)"
    using f same by (simp add: Decide_route shared_facts_def repeats_failure_def)
  have d: "diagnosis_only ?f = (qReadOnly q \<and> \<not> qMutates q \<and> \<not> qVerification q \<and> \<not> qPlanTransition q)"
    using f by (auto simp: diagnosis_only_def shared_facts_def)
  show ?thesis
    using BeforeMutation_routes [OF 1 2] BeforeMutation_refuses [of opts e q g]
    by (auto simp: r d followRoute_def)
qed

text \<open>Outside Auto the guard steps aside: the call is allowed, nobody is asked, and when the task has
  state of its own the whole budget of the episode is cleared.\<close>

theorem other_modes_bypass:
  assumes "\<not> activeMode (envMode e)"
  shows "allowed (fst (BeforeMutation opts e q g)) \<and>
    (map_of (tasks g) (normalizeTaskID (qTaskID q)) \<noteq> None \<longrightarrow>
       \<not> stopped (episode (snd (BeforeMutation opts e q g))) \<and>
       totalFailures (episode (snd (BeforeMutation opts e q g))) = 0 \<and>
       reviewRejects (episode (snd (BeforeMutation opts e q g))) = 0)"
proof -
  let ?f = "clFacts (fst (classify opts e q g))"
  have f: "\<not> AutoMode ?f" using classify_shared [of e q g opts] assms by (simp add: shared_facts_def)
  then have r: "Decide ?f = routed RouteBypass" by (simp add: Decide_def)
  have b: "BeforeMutation opts e q g = followRoute opts e (fst (classify opts e q g)) q (Decide ?f) (snd (classify opts e q g))"
    using f by (intro BeforeMutation_routes) (simp_all add: already_stopped_def out_of_budget_def)
  have ep: "map_of (tasks g) (normalizeTaskID (qTaskID q)) \<noteq> None \<longrightarrow>
      (let x = episode (snd (classify opts e q g)) in \<not> stopped x \<and> totalFailures x = 0 \<and> reviewRejects x = 0)"
    using assms by (auto simp: classify_def classify_section_def classify_mode_def classify_task_def Let_def
        case_prod_unfold putTask_def delTask_def clear_episode_def word_gt_0 split: option.split)
  have "allowed (fst (BeforeMutation opts e q g))"
    unfolding b by (rule followRoute_allow) (simp add: r routed_def)
  moreover have "snd (BeforeMutation opts e q g) = snd (classify opts e q g)"
    by (simp add: b r routed_def followRoute_def)
  ultimately show ?thesis using ep by (simp add: Let_def)
qed

text \<open>A stopped operation is only remembered while it is also the last failure: when another
  operation of the same task fails after it, the stopped operation is allowed again although it is
  still marked as stopped, as long as the episode runs.\<close>

theorem stopped_operation_forgotten:
  assumes "hex_digest (envCodec e)" "counts_as_failure (envMode e) obs (generation g)"
    and "normalizeTaskID (oTaskID obs) = normalizeTaskID (qTaskID q)"
    and "observationFingerprint (envCodec e) obs \<noteq> op_fingerprint (envCodec e) q"
    and "\<not> stopped (episode g)" "totalFailures (episode g) < 5" "\<not> qPlanTransition q"
    and "3 \<le> prior_count g (normalizeTaskID (qTaskID q)) (op_fingerprint (envCodec e) q)"
  shows "let h = snd (ObserveResult opts sh (envCodec e) (envMode e) now obs g)
         in 3 \<le> prior_count h (normalizeTaskID (qTaskID q)) (op_fingerprint (envCodec e) q) \<and>
            allowed (fst (BeforeMutation opts e q h))"
proof -
  let ?h = "snd (ObserveResult opts sh (envCodec e) (envMode e) now obs g)"
  let ?i = "normalizeTaskID (qTaskID q)" and ?fp = "op_fingerprint (envCodec e) q"
  note c = counted_failure_task [OF assms(2), of opts sh "envCodec e" now, unfolded assms(3)]
  obtain st where st: "map_of (tasks ?h) ?i = Some st" "last_failed (observationFingerprint (envCodec e) obs) st"
    using c(1) by blast
  have "\<not> sameFailedOperation (envCodec e) (evidenceCopy st) q"
    using last_failed_same [OF assms(1) st(2) [unfolded observationFingerprint_def]] assms(4)
    by (simp add: observationFingerprint_def)
  then have n: "\<not> proposes_failed_op (envCodec e) q ?h" using st(1) by (simp add: proposes_failed_op_def)
  have auto: "activeMode (envMode e)" using assms(2) by (simp add: counts_as_failure_def)
  let ?f = "clFacts (fst (classify opts e q ?h))"
  have ep: "\<not> stopped (episode ?h)" "\<not> MaxEpisodeFailures \<le> totalFailures (episode ?h)"
    using assms(5) below_six [OF assms(6)]
    by (simp_all add: ObserveResult_failure [OF assms(2)] recordFailure_episode recordFailure_stopped)
  have f: "shared_facts True q ?h ?f" using classify_shared [of e q ?h opts] auto by simp
  have same: "\<not> SameFailedOperation ?f" using auto n by (rule classify_unrelated)
  have 1: "\<not> already_stopped ?f" using same by (simp add: already_stopped_def)
  have 2: "\<not> out_of_budget ?f" using ep f by (simp add: out_of_budget_def shared_facts_def)
  have "drRoute (Decide ?f) = RouteAllow"
    using f same ep assms(7) by (simp add: Decide_route shared_facts_def repeats_failure_def)
  then have "allowed (fst (BeforeMutation opts e q ?h))"
    unfolding BeforeMutation_routes [OF 1 2] by (intro followRoute_allow) simp
  moreover have "3 \<le> prior_count ?h ?i ?fp" using c(2) [of ?fp] assms(4,8) by simp
  ultimately show ?thesis by (simp add: Let_def)
qed

section \<open>Witnesses\<close>

definition demo_digest :: "bytes \<Rightarrow> bytes" where
  "demo_digest x = (if length x < 40 then ''a1'' else ''b2'')"

definition demo_codec :: codec where
  "demo_codec = \<lparr>cSha = demo_digest, cNorm = (\<lambda>_. None), cStrings = (\<lambda>_. None), cEdits = (\<lambda>_. None)\<rparr>"

definition demo_shell :: shell where
  "demo_shell = \<lparr>shParse = (\<lambda>_. Inl ''none''), shWalk = (\<lambda>_. []), shSplitBraces = (\<lambda>w. w)\<rparr>"

definition demo_env :: "bytes \<Rightarrow> GuardEnv" where
  "demo_env mode = \<lparr>envShell = demo_shell, envCodec = demo_codec, envMode = mode, envReviewer = None, envSummary = [], envLatency = 0\<rparr>"

definition demo_opts :: GateOpts where
  "demo_opts = \<lparr>optMaxReviewBlocks = 3, optHeadless = False, optHasPrompt = True, optPersist = False\<rparr>"

definition demo_obs :: "bytes \<Rightarrow> Observation" where
  "demo_obs tool = \<lparr>oAgentID = [], oTaskID = ''t'', oTaskScopeID = [], oGeneration = 1, oTool = tool, oArgs = [],
     oSubject = [], oReadOnly = False, oMutates = True, oVerification = False, oSuccess = False, oBlocked = False,
     oUserRejected = False, oProviderError = False, oCancelled = False, oEmptySearch = False, oErrSummary = [], oOutput = []\<rparr>"

definition demo_call :: "bytes \<Rightarrow> Proposal" where
  "demo_call tool = \<lparr>qAgentID = [], qTaskID = ''t'', qTaskScopeID = [], qTaskSummary = [], qTool = tool, qArgs = [],
     qSubject = [], qPreview = [], qReadOnly = False, qMutates = True, qVerification = False, qPlanTransition = False,
     qPlanBefore = [], qPlanAfter = [], qHighRisk = False, qExpandedScope = False, qStrategyChanged = False\<rparr>"

lemmas demo_defs = demo_env_def demo_codec_def demo_obs_def demo_call_def

lemma demo_hex: "hex_digest demo_codec"
proof -
  have "TrimSpace ''a1'' = ''a1''" "TrimSpace ''b2'' = ''b2''" by code_simp+
  then show ?thesis by (simp add: hex_digest_def demo_codec_def demo_digest_def)
qed

lemma demo_auto: "activeMode ''auto''" "\<not> activeMode ''ask''"
  by code_simp+

lemma demo_counts: "counts_as_failure ''auto'' (demo_obs tool) 1"
  by (simp add: counts_as_failure_def demo_auto demo_obs_def QualifyingFailure_def)

lemma demo_new [simp]: "generation NewGate = 1" "episode NewGate = clear_episode"
  by (simp_all add: NewGate_def)

lemma demo_op: "observationFingerprint demo_codec (demo_obs tool) = op_fingerprint demo_codec (demo_call tool)"
  by (simp add: observationFingerprint_def demo_obs_def demo_call_def)

theorem gate_invariant_witness: "gate_ok (observe_all demo_opts demo_shell demo_codec ''auto'' 0 [demo_obs ''edit''] NewGate)"
  using gate_invariant [OF observe_all_reaches [OF reaches_new]] by blast

theorem six_failures_stop_everything_witness:
  "refused 1 (fst (BeforeMutation demo_opts (demo_env ''auto'') (demo_call ''write'')
     (observe_all demo_opts demo_shell demo_codec ''auto'' 0 (replicate 6 (demo_obs ''edit'')) NewGate)))"
  using six_failures_stop_everything [of "replicate 6 (demo_obs ''edit'')" "demo_env ''auto''" NewGate "demo_call ''write''"
      demo_opts demo_shell demo_codec 0] demo_counts [of "''edit''"]
  by (simp add: demo_env_def demo_call_def)

theorem stopped_episode_refuses_work_witness:
  "refused 1 (fst (BeforeMutation demo_opts (demo_env ''auto'') (demo_call ''write'')
     (NewGate\<lparr>episode := stopEpisode StopReasonReviewRejects clear_episode\<rparr>)))"
  using stopped_episode_refuses_work [of "demo_env ''auto''" "NewGate\<lparr>episode := stopEpisode StopReasonReviewRejects clear_episode\<rparr>"
      "demo_call ''write''" demo_opts] demo_auto
  by (simp add: demo_env_def demo_call_def)

theorem three_failures_stop_operation_witness:
  "refused 1 (fst (BeforeMutation demo_opts (demo_env ''auto'') (demo_call ''edit'')
     (observe_all demo_opts demo_shell demo_codec ''auto'' 0 (replicate 3 (demo_obs ''edit'')) NewGate)))"
  using three_failures_stop_operation [of "demo_env ''auto''" "replicate 3 (demo_obs ''edit'')" NewGate "demo_call ''edit''"
      demo_opts demo_shell 0] demo_counts [of "''edit''"] demo_hex demo_op [of "''edit''"]
  by (simp add: demo_env_def) (simp add: demo_call_def demo_obs_def)

theorem unrelated_calls_run_witness:
  "allowed (fst (BeforeMutation demo_opts (demo_env ''auto'') (demo_call ''write'') NewGate))"
proof -
  have "\<not> proposes_failed_op demo_codec (demo_call ''write'') NewGate"
    by (simp add: proposes_failed_op_def NewGate_def)
  with unrelated_calls_run [of demo_opts NewGate "demo_env ''auto''" "demo_call ''write''"] reaches_new demo_auto
  show ?thesis by (simp add: demo_env_def demo_call_def clear_episode_def)
qed

theorem other_modes_bypass_witness:
  "allowed (fst (BeforeMutation demo_opts (demo_env ''ask'') (demo_call ''edit'') NewGate))"
  using other_modes_bypass [of "demo_env ''ask''" demo_opts "demo_call ''edit''" NewGate] demo_auto
  by (simp add: demo_env_def)

definition thrice :: Gate where
  "thrice = observe_all demo_opts demo_shell demo_codec ''auto'' 0 (replicate 3 (demo_obs ''edit'')) NewGate"

definition other_tool :: bytes where
  "other_tool = ''a tool with a name that is longer than this''"

lemma thrice_values:
  "generation thrice = 1" "totalFailures (episode thrice) = 3" "\<not> stopped (episode thrice)"
  "prior_count thrice ''t'' (op_fingerprint demo_codec (demo_call ''edit'')) = 3"
  "op_fingerprint demo_codec (demo_call other_tool) \<noteq> op_fingerprint demo_codec (demo_call ''edit'')"
  "normalizeTaskID ''t'' = ''t''"
  by code_simp+

theorem stopped_operation_forgotten_witness:
  "allowed (fst (BeforeMutation demo_opts (demo_env ''auto'') (demo_call ''edit'')
     (snd (ObserveResult demo_opts demo_shell demo_codec ''auto'' 0 (demo_obs other_tool) thrice))))"
proof -
  have call: "qTaskID (demo_call t) = ''t''" "oTaskID (demo_obs t) = ''t''" "\<not> qPlanTransition (demo_call t)" for t
    by (simp_all add: demo_call_def demo_obs_def)
  have env: "envCodec (demo_env m) = demo_codec" "envMode (demo_env m) = m" for m
    by (simp_all add: demo_env_def)
  show ?thesis
    using stopped_operation_forgotten [of "demo_env ''auto''" "demo_obs other_tool" thrice "demo_call ''edit''"
        demo_opts demo_shell 0, unfolded env call Let_def] demo_hex demo_counts [of other_tool] demo_op [of other_tool]
      thrice_values call(3) by (simp add: word_less_nat_alt)
qed

end
