(* ===== verification/RecWaiters.thy ===== *)
theory RecWaiters
  imports RecGuarantees
begin

text \<open>
  The waiting side of the guard (\<open>gate.go\<close>, \<open>gate_restore.go\<close>): parked questions, their resolution,
  the rotation of episodes, and what a restart keeps. A call that waits holds the number of its
  channel; a channel with a payload wakes it.
\<close>

section \<open>Rotation\<close>

lemma dropWaiter_simps [simp]:
  "waiters (dropWaiter i t g) = AList.delete i (waiters g)" "taskOf (dropWaiter i t g) = AList.delete i (taskOf g)"
  "chans (dropWaiter i t g) = chans g" "tasks (dropWaiter i t g) = tasks g" "episode (dropWaiter i t g) = episode g"
  "generation (dropWaiter i t g) = generation g" "nextChan (dropWaiter i t g) = nextChan g"
  "awaiting (dropWaiter i t g) = awaiting g - {t}"
  by (simp_all add: dropWaiter_def)

lemma collectLoop_frame [simp]:
  "chans (snd (collectLoop p ws g)) = chans g" "tasks (snd (collectLoop p ws g)) = tasks g"
  "episode (snd (collectLoop p ws g)) = episode g" "generation (snd (collectLoop p ws g)) = generation g"
  "nextChan (snd (collectLoop p ws g)) = nextChan g"
  by (induction p ws g rule: collectLoop.induct) (simp_all add: Let_def)

lemma collectLoop_waiters: "waiters (snd (collectLoop p ws g)) = fold AList.delete (map fst ws) (waiters g)"
  by (induction p ws g rule: collectLoop.induct) (simp_all add: Let_def)

lemma collectLoop_taskOf: "map_of (taskOf g) i = None \<Longrightarrow> map_of (taskOf (snd (collectLoop p ws g))) i = None"
  by (induction p ws g rule: collectLoop.induct) (simp_all add: Let_def delete_conv')

lemma collectLoop_dismissed: "map (\<lambda>d. (dwId d, dwReply d)) (fst (collectLoop p ws g)) = ws"
  "\<forall>d \<in> set (fst (collectLoop p ws g)). dwPayload d = p"
  by (induction p ws g rule: collectLoop.induct) (simp_all add: Let_def)

lemma fold_delete: "fold AList.delete ks al = filter (\<lambda>p. fst p \<notin> set ks) al"
  by (induction ks arbitrary: al) (auto simp: AList.delete_eq intro!: filter_cong)

lemma collectLoop_empties: "waiters (snd (collectLoop p (waiters g) h)) = fold AList.delete (map fst (waiters g)) (waiters h)"
  by (rule collectLoop_waiters)

lemma rotateEpisode_simps [simp]:
  "waiters (rotateEpisode g) = waiters g" "chans (rotateEpisode g) = chans g" "episode (rotateEpisode g) = clear_episode"
  "generation (rotateEpisode g) = nextSeq (generation g)" "taskOf (rotateEpisode g) = taskOf g"
  "nextChan (rotateEpisode g) = nextChan g"
  "tasks (rotateEpisode g) = List.map_filter (rotateTask (episodeName (nextSeq (episodeSeq g)))) (tasks g)"
  by (simp_all add: rotateEpisode_def Let_def)

lemma sendReply_simps [simp]:
  "waiters (sendReply c p g) = waiters g" "taskOf (sendReply c p g) = taskOf g" "tasks (sendReply c p g) = tasks g"
  "episode (sendReply c p g) = episode g" "generation (sendReply c p g) = generation g"
  "nextChan (sendReply c p g) = nextChan g" "awaiting (sendReply c p g) = awaiting g"
  by (simp_all add: sendReply_def split: option.split)

lemma sendReply_chans: "chans (sendReply c p g) = (chans g)(c := Some (case chans g c of None \<Rightarrow> p | Some r \<Rightarrow> r))"
  by (auto simp: sendReply_def split: option.split)

lemma finishDismissed_simps [simp]:
  "waiters (finishDismissed ds g) = waiters g" "taskOf (finishDismissed ds g) = taskOf g" "tasks (finishDismissed ds g) = tasks g"
  "episode (finishDismissed ds g) = episode g" "generation (finishDismissed ds g) = generation g"
  "nextChan (finishDismissed ds g) = nextChan g" "awaiting (finishDismissed ds g) = awaiting g"
  by (induction ds arbitrary: g) (simp_all add: finishDismissed_def)

lemma finishDismissed_chans:
  assumes "\<forall>d \<in> set ds. dwPayload d = p"
  shows "chans (finishDismissed ds g) c =
     (if c \<in> dwReply ` set ds then Some (case chans g c of None \<Rightarrow> p | Some r \<Rightarrow> r) else chans g c)"
  using assms
proof (induction ds arbitrary: g)
  case (Cons d ds)
  have "finishDismissed (d # ds) g = finishDismissed ds (sendReply (dwReply d) p g)"
    using Cons.prems by (simp add: finishDismissed_def)
  with Cons show ?case by (auto simp: sendReply_chans split: option.split)
qed (simp add: finishDismissed_def)

lemma BeginEpisode_simps:
  "waiters (BeginEpisode opts g) = []" "episode (BeginEpisode opts g) = clear_episode"
  "generation (BeginEpisode opts g) = nextSeq (generation g)"
  "tasks (BeginEpisode opts g) = List.map_filter (rotateTask (episodeName (nextSeq (episodeSeq g)))) (tasks g)"
  "nextChan (BeginEpisode opts g) = nextChan g"
  by (simp_all add: BeginEpisode_def beginEpisodeLockedCollect_def collectWaitersLocked_def case_prod_unfold
      collectLoop_waiters fold_delete)

lemma BeginEpisode_chans:
  "chans (BeginEpisode opts g) c =
     (if c \<in> snd ` set (waiters g) then Some (case chans g c of None \<Rightarrow> rotatePayload | Some r \<Rightarrow> r) else chans g c)"
proof -
  let ?r = "collectLoop rotatePayload (waiters g) (rotateEpisode g)"
  have "dwReply ` set (fst ?r) = snd ` set (waiters g)"
    using arg_cong [OF collectLoop_dismissed(1) [of rotatePayload "waiters g" "rotateEpisode g"], of "\<lambda>xs. snd ` set xs"]
    by (simp add: image_image)
  then show ?thesis
    by (simp add: BeginEpisode_def beginEpisodeLockedCollect_def collectWaitersLocked_def case_prod_unfold
        finishDismissed_chans [OF collectLoop_dismissed(2)])
qed

lemma BeginEpisode_taskOf: "map_of (taskOf g) i = None \<Longrightarrow> map_of (taskOf (BeginEpisode opts g)) i = None"
  by (simp add: BeginEpisode_def beginEpisodeLockedCollect_def collectWaitersLocked_def case_prod_unfold collectLoop_taskOf)

lemma nextSeq_new: "nextSeq n \<noteq> n"
proof
  assume "nextSeq n = n"
  then have "n + 1 = 0 \<and> n = 1" by (auto simp: nextSeq_def split: if_splits)
  then show False by (elim conjE) simp
qed

lemma rotateTask_cases:
  "rotateTask ep (i, st) =
     (if taskGrants st = {} then None else Some (i, (clearTaskRecoveryState st)\<lparr>tEpisodeID := ep\<rparr>))"
  by (auto simp: rotateTask_def Let_def hasTaskGrants_def clearTaskRecoveryState_def task_empty_def)

section \<open>Channels nobody holds\<close>

text \<open>An empty channel that no table entry leads to.\<close>

definition stranded :: "nat \<Rightarrow> Gate \<Rightarrow> bool" where
  "stranded c g \<longleftrightarrow> c < nextChan g \<and> c \<notin> snd ` set (waiters g) \<and> chans g c = None"

definition same_table :: "Gate \<Rightarrow> Gate \<Rightarrow> bool" where
  "same_table g h \<longleftrightarrow> waiters h = waiters g \<and> chans h = chans g \<and> nextChan h = nextChan g"

lemma same_table_stranded: "same_table g h \<Longrightarrow> stranded c g \<Longrightarrow> stranded c h"
  by (simp add: same_table_def stranded_def)

lemma same_table_refl [simp]: "same_table g g"
  by (simp add: same_table_def)

lemma same_table_put [simp]: "same_table g (putTask i st h) = same_table g h" "same_table g (delTask i h) = same_table g h"
  "same_table g (persist opts h) = same_table g h" "same_table g (h\<lparr>metrics := m\<rparr>) = same_table g h"
  "same_table g (h\<lparr>episode := ep\<rparr>) = same_table g h" "same_table g (h\<lparr>awaiting := a\<rparr>) = same_table g h"
  by (simp_all add: same_table_def putTask_def delTask_def persist_def)

lemma same_table_ensure [simp]: "same_table g (snd (ensureTaskLocked i h)) = same_table g h"
  by (simp add: ensureTaskLocked_def Let_def)

lemma same_table_clear [simp]: "same_table g (clearNoProgressLocked i st h) = same_table g h"
  by (simp add: clearNoProgressLocked_def Let_def)

lemma same_table_record [simp]: "same_table g (snd (recordFailure cx now i obs st h)) = same_table g h"
  by (simp add: recordFailure_def Let_def case_prod_unfold)

lemma same_table_observe: "same_table g (snd (ObserveResult opts sh cx mode now obs g))"
  by (simp add: ObserveResult_def Let_def case_prod_unfold split: option.split)

lemma same_table_diagnose: "same_table g (RecordDiagnosis opts i note g)"
  by (simp add: RecordDiagnosis_def Let_def split: option.split)

lemma same_table_classify_mode: "same_table g (snd (snd (classify_mode auto i g)))"
  by (simp add: classify_mode_def Let_def split: option.split)

lemma same_table_classify_task [simp]: "same_table g (snd (classify_task cx k q i f st h)) = same_table g h"
  by (simp add: classify_task_def Let_def)

lemma same_table_classify: "same_table g (snd (classify opts e q g))"
  using same_table_classify_mode [of g "activeMode (envMode e)" "normalizeTaskID (qTaskID q)"]
  by (simp add: classify_def classify_section_def Let_def case_prod_unfold split: option.split)

lemma same_table_stop [simp]: "same_table g (snd (stopTurnDecision opts i gen r q h)) = same_table g h"
  by (simp add: stopTurnDecision_def Let_def)

lemma same_table_retry: "same_table g (snd (noteStoppedOpRetry opts i gen q g))"
  by (simp add: noteStoppedOpRetry_def Let_def)

lemma same_table_reviews: "same_table g (snd (stopOnReviews opts i gen q g))"
  by (simp add: stopOnReviews_def)

lemma same_table_block: "same_table g (snd (recordReviewBlock opts i v g))"
  by (simp add: recordReviewBlock_def Let_def case_prod_unfold split: option.split)

lemma same_table_spend: "same_table g (consumeSafeRetry i g)"
  by (simp add: consumeSafeRetry_def split: option.split)

lemma same_table_offer: "same_table g (MarkFinalizationOffered g)" "same_table g (snd (ConsumeFinalization g))"
  by (simp_all add: MarkFinalizationOffered_def ConsumeFinalization_def Let_def)

lemmas same_tables = same_table_observe same_table_diagnose same_table_classify same_table_retry same_table_reviews
  same_table_block same_table_spend same_table_offer

lemma stranded_drop: "stranded c g \<Longrightarrow> stranded c (dropWaiter i t g)"
  by (auto simp: stranded_def AList.delete_eq)

lemma stranded_persist [simp]: "stranded c (persist opts g) = stranded c g"
  by (simp add: stranded_def)

lemma stranded_awaiting [simp]: "stranded c (g\<lparr>awaiting := a\<rparr>) = stranded c g" "stranded c (g\<lparr>metrics := m\<rparr>) = stranded c g"
  "stranded c (delTask i g) = stranded c g" "stranded c (g\<lparr>generation := n\<rparr>) = stranded c g"
  "stranded c (g\<lparr>lastMode := lm\<rparr>) = stranded c g" "stranded c (g\<lparr>haveMode := b\<rparr>) = stranded c g"
  "stranded c (g\<lparr>taskOf := x\<rparr>) = stranded c g" "stranded c (g\<lparr>pending := y\<rparr>) = stranded c g"
  "stranded c (g\<lparr>pending := y, waiters := w\<rparr>) = stranded c (g\<lparr>waiters := w\<rparr>)"
  "stranded c (g\<lparr>taskOf := x, waiters := w\<rparr>) = stranded c (g\<lparr>waiters := w\<rparr>)"
  by (simp_all add: stranded_def delTask_def)

lemma map_of_stranded: "stranded c g \<Longrightarrow> map_of (waiters g) i \<noteq> Some c"
  using map_of_SomeD [of "waiters g" i c] by (force simp: stranded_def)

lemma set_update_snd: "snd ` set (AList.update k v al) \<subseteq> insert v (snd ` set al)"
  using set_update_subset [of k v al] by force

lemma stranded_update:
  "stranded c g \<Longrightarrow> n \<noteq> c \<Longrightarrow> stranded c (g\<lparr>waiters := AList.update k n (waiters g)\<rparr>)"
  using set_update_snd [of k n "waiters g"] by (auto simp: stranded_def)

lemma stranded_delete: "stranded c g \<Longrightarrow> stranded c (g\<lparr>waiters := AList.delete k (waiters g)\<rparr>)"
  by (auto simp: stranded_def AList.delete_eq)

lemma stranded_send: "stranded c g \<Longrightarrow> n \<noteq> c \<Longrightarrow> stranded c (sendReply n p g)"
  by (simp add: stranded_def sendReply_chans)

lemma stranded_BeginEpisode: "stranded c g \<Longrightarrow> stranded c (BeginEpisode opts g)"
  by (simp add: stranded_def BeginEpisode_simps BeginEpisode_chans)

lemma stranded_section:
  "stranded c g \<Longrightarrow> stranded c (snd (resolve_section i a fb g)) \<and>
     (\<forall>ch pl rot. fst (resolve_section i a fb g) = Inr (Some ch, pl, rot) \<longrightarrow> ch \<noteq> c)"
proof -
  assume g: "stranded c g"
  have done1: "stranded c (resolveDone i k h)" if "stranded c h" for k h
    using stranded_drop [OF that] by (simp add: resolveDone_def Let_def split: option.split)
  have put: "stranded c (putTask k st g)" for k st using g by (simp add: stranded_def putTask_def)
  show ?thesis
    using map_of_stranded [OF g, of i] g
    by (auto simp: resolve_section_def Let_def stranded_drop done1 put split: RecAction.split option.split)
qed

lemma stranded_Resolve: "stranded c g \<Longrightarrow> stranded c (snd (Resolve opts i a fb g))"
  using stranded_section [of c g "TrimSpace i" a fb]
  by (auto simp: Resolve_def Let_def case_prod_unfold intro!: stranded_BeginEpisode stranded_send
      split: sum.split option.split)

lemma OnModeChange_rotates:
  "snd (OnModeChange opts m g) = g \<or> (\<exists>lm. snd (OnModeChange opts m g) = g\<lparr>lastMode := lm, haveMode := True\<rparr>) \<or>
   (\<exists>lm mt. snd (OnModeChange opts m g) = BeginEpisode opts (g\<lparr>lastMode := lm, metrics := mt\<rparr>))"
proof -
  let ?g1 = "g\<lparr>lastMode := ToLower (TrimSpace m), metrics := (metrics g)\<lparr>ModeResets := ModeResets (metrics g) + 1\<rparr>\<rparr>"
  have "generation (snd (beginEpisodeLockedCollect ?g1)) \<noteq> 0"
    by (simp add: beginEpisodeLockedCollect_def collectWaitersLocked_def)
  then show ?thesis by (auto simp: OnModeChange_def Let_def BeginEpisode_def case_prod_unfold)
qed

lemma stranded_OnModeChange: "stranded c g \<Longrightarrow> stranded c (snd (OnModeChange opts m g))"
  using OnModeChange_rotates [of opts m g] stranded_BeginEpisode [of c _ opts] by fastforce

lemma stranded_park: "stranded c g \<Longrightarrow> stranded c (snd (ask_park_section i p g))"
  using set_update_snd [of "provisional i" "nextChan g" "waiters g"]
  by (auto simp: stranded_def ask_park_section_def Let_def)

lemma stranded_bind: "stranded c g \<Longrightarrow> stranded c (BindApprovalID i a g)"
proof -
  assume g: "stranded c g"
  have 1: "stranded c (g\<lparr>waiters := AList.update k n (AList.delete b (waiters g)), taskOf := t\<rparr>)" if "map_of (waiters g) b = Some n" for k n b t
  proof -
    have "n \<noteq> c" using map_of_stranded [OF g] that by auto
    from stranded_update [OF stranded_delete [OF g] this, of k b] show ?thesis by (simp add: stranded_def)
  qed
  have 2: "stranded c (case map_of (pending h) b of None \<Rightarrow> h | Some p \<Rightarrow> h\<lparr>pending := AList.update k p (AList.delete b (pending h))\<rparr>)"
    if "stranded c h" for h b k
    using that by (simp split: option.split)
  show ?thesis
    using g 1 2 by (auto simp: BindApprovalID_def Let_def split: option.split)
qed

lemma stranded_bound: "stranded c g \<Longrightarrow> stranded c (snd (ask_bound opts i a ch g))"
proof -
  assume g: "stranded c g"
  have 1: "stranded c (g\<lparr>waiters := AList.delete b (waiters g), taskOf := t, pending := p\<rparr>)" for b t p
    using stranded_delete [OF g, of b] by simp
  have 2: "stranded c (g\<lparr>waiters := AList.update k n (AList.delete b (waiters g)), taskOf := t, pending := p\<rparr>)"
    if "map_of (waiters g) b = Some n" for k n b t p
  proof -
    have "n \<noteq> c" using map_of_stranded [OF g] that by auto
    from stranded_update [OF stranded_delete [OF g] this, of k b] show ?thesis by (simp add: stranded_def)
  qed
  have id: "g\<lparr>waiters := w, taskOf := t\<rparr> = g\<lparr>waiters := w, taskOf := t, pending := pending g\<rparr>" for w t by simp
  show ?thesis
    using g 1 2 1 [where p = "pending g"] 2 [where p = "pending g"]
    by (auto simp: ask_bound_def ask_bound_section_def Let_def case_prod_unfold split: option.split)
qed

lemma stranded_wake: "stranded c g \<Longrightarrow> ask_wake gen q ch g = Some (d, g') \<Longrightarrow> stranded c g'"
  by (auto simp: ask_wake_def Let_def stranded_def split: option.splits)

lemma stranded_Restore: "c < nextChan g \<Longrightarrow> chans g c = None \<Longrightarrow> stranded c (Restore snap g)"
  by (simp add: Restore_def Let_def stranded_def)

lemma stranded_step: "gate_step opts g h \<Longrightarrow> stranded c g \<Longrightarrow> stranded c h"
proof (induction rule: gate_step.induct)
  case (restore g snap)
  then show ?case by (intro stranded_Restore) (simp_all add: stranded_def)
next
  case (stop_turn r g i gen q)
  then show ?case by (auto intro: same_table_stranded [of g])
qed (auto intro: same_table_stranded [OF same_table_observe] same_table_stranded [OF same_table_diagnose]
    same_table_stranded [OF same_table_classify] same_table_stranded [OF same_table_retry]
    same_table_stranded [OF same_table_reviews] same_table_stranded [OF same_table_block]
    same_table_stranded [OF same_table_spend] same_table_stranded [OF same_table_offer(1)]
    same_table_stranded [OF same_table_offer(2)] stranded_park stranded_bound stranded_wake stranded_bind
    stranded_Resolve stranded_BeginEpisode stranded_OnModeChange stranded_drop
    simp: ask_failed_def ask_cancelled_def)

lemma stranded_steps: "(gate_step opts)\<^sup>*\<^sup>* g h \<Longrightarrow> stranded c g \<Longrightarrow> stranded c h"
  by (induction rule: rtranclp_induct) (simp_all add: stranded_step)

section \<open>Resolution\<close>

lemma resolveDone_simps [simp]:
  "waiters (resolveDone i k g) = AList.delete i (waiters g)" "taskOf (resolveDone i k g) = AList.delete i (taskOf g)"
  "chans (resolveDone i k g) = chans g"
  by (simp_all add: resolveDone_def Let_def delTask_def split: option.split)

lemma resolve_unknown: "map_of (taskOf g) (TrimSpace i) = None \<Longrightarrow> Resolve opts i a fb g = (Some UnknownApproval, g)"
  by (simp add: Resolve_def resolve_section_def lookupStr_def Let_def)

text \<open>The payload of an answer.\<close>

definition answer :: "RecAction \<Rightarrow> bytes \<Rightarrow> resolvePayload" where
  "answer a fb = \<lparr>rpAction = a, rpFeedback = (if a = ActionRevise \<and> TrimSpace fb = [] then DefaultReviseFeedback else fb)\<rparr>"

lemma Resolve_parked:
  assumes "gate_ok g" "TrimSpace i = i" "map_of (waiters g) i = Some c" "chans g c = None" "a \<in> {ActionContinue, ActionRevise}"
  shows "fst (Resolve opts i a fb g) = None"
    and "chans (snd (Resolve opts i a fb g)) c = Some (answer a fb)"
    and "map_of (taskOf (snd (Resolve opts i a fb g))) i = None"
proof -
  obtain k where k: "map_of (taskOf g) i = Some k" "k \<noteq> []"
    using assms(1,3) unfolding gate_ok_def waiters_ok_def owners_ok_def by (metis not_None_eq)
  note [simp] = resolve_section_cases [OF assms(1)]
  show "fst (Resolve opts i a fb g) = None"
    using assms k by (auto simp: Resolve_def lookupStr_def Let_def)
  show "chans (snd (Resolve opts i a fb g)) c = Some (answer a fb)"
    using assms k by (auto simp: Resolve_def lookupStr_def Let_def answer_def sendReply_chans BeginEpisode_chans)
  show "map_of (taskOf (snd (Resolve opts i a fb g))) i = None"
    using assms k by (auto simp: Resolve_def lookupStr_def Let_def delete_conv' persist_def intro!: BeginEpisode_taskOf)
qed

lemma decision_of_answer:
  "a \<in> {ActionContinue, ActionRevise} \<Longrightarrow>
     dAllow (decisionFromResolve (answer a fb)) = (a = ActionContinue) \<and>
     dBlocked (decisionFromResolve (answer a fb)) = (a = ActionRevise)"
  by (auto simp: decisionFromResolve_def answer_def no_decision_def Let_def)

section \<open>Plans\<close>

lemma stopOnReviews_refuses [simp]: "\<not> dAuthorizePlanReplacement (fst (stopOnReviews opts i gen q g))"
  "\<not> dAllow (fst (stopOnReviews opts i gen q g))"
  using stopTurnDecision_refuses by (auto simp: stopOnReviews_def)

text \<open>The reviewer let this transition pass.\<close>

definition reviewer_continues :: "GuardEnv \<Rightarrow> Classified \<Rightarrow> Proposal \<Rightarrow> bool" where
  "reviewer_continues e c q \<longleftrightarrow>
     (case envReviewer e of None \<Rightarrow> False | Some ask \<Rightarrow>
        (case ask (clFailure c) (clNotes c) q (if TrimSpace (qTaskSummary q) = [] then envSummary e else TrimSpace (qTaskSummary q)) of
           None \<Rightarrow> False
         | Some v0 \<Rightarrow> (let v = normalizeVerdict v0 (clFailure c) q (clNotes c)
                      in vOutcome v = ReviewContinue \<and> vChangeKind v \<in> {ChangeSameStrategy, ChangeStrategy, ChangeScope})))"

lemma plain_decisions [simp]:
  "\<not> dAuthorizePlanReplacement (allow_decision gen)" "\<not> dAuthorizePlanReplacement (block_decision gen m)"
  by (simp_all add: allow_decision_def block_decision_def no_decision_def)

lemma ask_park_plain: "fst (ask_park opts i gen p fl g) = Decided d \<Longrightarrow> \<not> dAuthorizePlanReplacement d"
  by (auto simp: ask_park_def case_prod_unfold split: if_splits)

lemma blockOrStop_plain: "fst (blockOrStop opts i gen q v g) = Decided d \<Longrightarrow> \<not> dAuthorizePlanReplacement d"
  by (auto simp: blockOrStop_def case_prod_unfold split: if_splits)

lemma afterVerdict_plan:
  assumes "fst (afterVerdict opts c q v0 g) = Decided d" "dAuthorizePlanReplacement d"
  shows "qPlanTransition q \<and> vOutcome (normalizeVerdict v0 (clFailure c) q (clNotes c)) = ReviewContinue \<and>
    reviewerContinueKind (vChangeKind (normalizeVerdict v0 (clFailure c) q (clNotes c)))"
  using assms by (auto simp: afterVerdict_def Let_def dest: ask_park_plain blockOrStop_plain split: if_splits)

lemma reviewOrEscalate_plan:
  assumes "fst (reviewOrEscalate opts e c q g) = Decided d" "dAuthorizePlanReplacement d"
  shows "qPlanTransition q \<and> reviewer_continues e c q"
  using assms
  by (auto simp: reviewOrEscalate_def Let_def case_prod_unfold askAboutPlan_def ruleContinue_def reviewer_continues_def
      reviewerContinueKind_def dest: ask_park_plain afterVerdict_plan split: if_splits option.splits)

lemma followRoute_plan:
  assumes "fst (followRoute opts e c q r g) = Decided d" "dAuthorizePlanReplacement d"
  shows "drRoute r = RouteReview \<and> qPlanTransition q \<and> reviewer_continues e c q"
  using assms stopTurnDecision_refuses
  by (auto simp: followRoute_def Let_def case_prod_unfold dest: reviewOrEscalate_plan split: Route.splits)

text \<open>A card is only shown for a plan transition that was routed to review.\<close>

definition plan_card :: "Proposal \<Rightarrow> nat \<Rightarrow> PendingProposal \<Rightarrow> Gate \<Rightarrow> bool" where
  "plan_card q ch p g \<longleftrightarrow> qPlanTransition q \<and> ppTool p = qTool q \<and> ppArgs p = qArgs q \<and>
     ppPlanBefore p = qPlanBefore q \<and> ppPlanAfter p = qPlanAfter q \<and> chans g ch = None \<and>
     (\<exists>b. map_of (waiters g) b = Some ch \<and> map_of (pending g) b = Some p)"

lemma ask_park_card:
  assumes "ask_park opts i gen (pendingFor fp q f ns k why) fl g = (Parked ch p, h)" "qPlanTransition q"
  shows "plan_card q ch p h"
  using assms
  by (auto simp: ask_park_def ask_park_section_def Let_def plan_card_def pendingFor_def update_conv' split: if_splits)

lemma blockOrStop_card: "blockOrStop opts i gen q v g \<noteq> (Parked ch p, h)"
  by (simp add: blockOrStop_def case_prod_unfold)

lemma afterVerdict_card: "afterVerdict opts c q v g = (Parked ch p, h) \<Longrightarrow> plan_card q ch p h"
  by (simp add: afterVerdict_def Let_def blockOrStop_card ask_park_card split: if_splits)

lemma reviewOrEscalate_card: "reviewOrEscalate opts e c q g = (Parked ch p, h) \<Longrightarrow> plan_card q ch p h"
  by (simp add: reviewOrEscalate_def askAboutPlan_def ruleContinue_def Let_def case_prod_unfold afterVerdict_card
      blockOrStop_card ask_park_card split: if_splits option.splits)

lemma followRoute_card: "followRoute opts e c q r g = (Parked ch p, h) \<Longrightarrow> drRoute r = RouteReview \<and> plan_card q ch p h"
  using reviewOrEscalate_card
  by (auto simp: followRoute_def Let_def case_prod_unfold split: Route.splits)

lemma BeforeMutation_card:
  assumes "BeforeMutation opts e q g = (Parked ch p, h)"
  shows "drRoute (Decide (clFacts (fst (classify opts e q g)))) = RouteReview \<and> plan_card q ch p h"
proof -
  let ?f = "clFacts (fst (classify opts e q g))"
  have "\<not> refused (generation g) (Parked ch p)" by (simp add: refused_def)
  then have 1: "\<not> already_stopped ?f" "\<not> out_of_budget ?f" using BeforeMutation_refuses [of opts e q g] assms by auto
  from followRoute_card [OF assms [unfolded BeforeMutation_routes [OF 1]]] show ?thesis .
qed

lemma BeforeMutation_authorised:
  assumes "BeforeMutation opts e q g = (Decided d, h)" "dAuthorizePlanReplacement d"
  shows "qPlanTransition q \<and> drRoute (Decide (clFacts (fst (classify opts e q g)))) = RouteReview \<and>
    reviewer_continues e (fst (classify opts e q g)) q"
proof -
  let ?f = "clFacts (fst (classify opts e q g))"
  have "\<not> refused (generation g) (Decided d)" using assms(2) by (simp add: refused_def)
  then have 1: "\<not> already_stopped ?f" "\<not> out_of_budget ?f" using BeforeMutation_refuses [of opts e q g] assms by auto
  have "fst (BeforeMutation opts e q g) = Decided d" using assms(1) by simp
  from followRoute_plan [OF this [unfolded BeforeMutation_routes [OF 1]] assms(2)] show ?thesis by blast
qed

text \<open>Only the answer of a human puts a continue into a channel.\<close>

definition continues :: "nat \<Rightarrow> Gate \<Rightarrow> bool" where
  "continues ch g \<longleftrightarrow> (\<exists>p. chans g ch = Some p \<and> rpAction p \<in> {ActionContinue, ActionContinueTask})"

definition continued_by :: "GateOpts \<Rightarrow> nat \<Rightarrow> Gate \<Rightarrow> Gate \<Rightarrow> bool" where
  "continued_by opts ch g h \<longleftrightarrow> (\<exists>i fb. map_of (waiters g) (TrimSpace i) = Some ch \<and> chans g ch = None \<and>
     fst (Resolve opts i ActionContinue fb g) = None \<and> h = snd (Resolve opts i ActionContinue fb g))"

lemma same_table_continues: "same_table g h \<Longrightarrow> continues ch h \<Longrightarrow> continues ch g"
  by (simp add: same_table_def continues_def)

lemma chans_frame:
  "chans (snd (ask_bound opts i a c g)) = chans g" "chans (BindApprovalID i a g) = chans g" "chans (Restore snap g) = chans g"
  "chans (snd (ask_failed gen i err g)) = chans g" "chans (snd (ask_cancelled opts gen i a g)) = chans g"
  by (simp_all add: ask_bound_def ask_bound_section_def BindApprovalID_def Restore_def ask_failed_def ask_cancelled_def Let_def
      case_prod_unfold split: option.split)

lemma continues_frame:
  "continues ch (g\<lparr>metrics := m\<rparr>) = continues ch g" "continues ch (snd (ask_bound opts i a c g)) = continues ch g"
  "continues ch (BindApprovalID i a g) = continues ch g" "continues ch (Restore snap g) = continues ch g"
  "continues ch (snd (ask_failed gen i err g)) = continues ch g" "continues ch (snd (ask_cancelled opts gen i a g)) = continues ch g"
  by (simp_all add: continues_def chans_frame)

lemmas table_continues = same_tables [THEN same_table_continues]

lemma BeginEpisode_continues: "continues ch (BeginEpisode opts g) \<Longrightarrow> continues ch g"
  by (auto simp: continues_def BeginEpisode_chans rotatePayload_def split: if_splits option.splits)

lemma Resolve_continues:
  assumes "gate_ok g" "continues ch (snd (Resolve opts i a fb g))" "\<not> continues ch g"
  shows "continued_by opts ch g (snd (Resolve opts i a fb g))"
proof -
  note [simp] = resolve_section_cases [OF assms(1)]
  have a: "a = ActionContinue"
  proof (rule ccontr)
    assume n: "a \<noteq> ActionContinue"
    have send: "continues ch (sendReply c \<lparr>rpAction = ActionRevise, rpFeedback = r\<rparr> h) \<Longrightarrow> continues ch h" for c r h
      by (auto simp: continues_def sendReply_chans split: if_splits option.splits)
    have drop: "continues ch (dropWaiter j k h) = continues ch h" "continues ch (h\<lparr>metrics := m\<rparr>) = continues ch h" for j k h m
      by (simp_all add: continues_def)
    show False
      using assms(2,3) n
      by (auto simp: Resolve_def Let_def drop split: RecAction.splits option.splits if_splits dest!: BeginEpisode_continues send)
  qed
  have r: "map_of (waiters g) (TrimSpace i) = Some ch \<and> chans g ch = None \<and> fst (Resolve opts i a fb g) = None"
    using assms(2,3) a
    by (auto simp: Resolve_def Let_def continues_def sendReply_chans split: option.splits if_splits)
  then show ?thesis unfolding continued_by_def using a by blast
qed

lemma continue_step:
  assumes "gate_step opts g h" "gate_ok g" "continues ch h" "\<not> continues ch g"
  shows "continued_by opts ch g h"
  using assms
proof (induction rule: gate_step.induct)
  case (resolve g i act fb)
  then show ?case by (intro Resolve_continues)
next
  case (begin_episode g)
  then show ?case using BeginEpisode_continues by blast
next
  case (mode_change g m)
  have frame: "continues ch (g\<lparr>lastMode := lm, metrics := mt\<rparr>) = continues ch g"
    "continues ch (g\<lparr>lastMode := lm, haveMode := True\<rparr>) = continues ch g" for lm mt by (simp_all add: continues_def)
  have "continues ch (snd (OnModeChange opts m g)) \<Longrightarrow> continues ch g"
    using OnModeChange_rotates [of opts m g]
    by (elim disjE exE) (simp_all only: frame, auto dest!: BeginEpisode_continues simp: frame)
  then show ?case using mode_change by blast
next
  case (wake gen q c g d g')
  then have "continues ch g" by (auto simp: ask_wake_def continues_def Let_def split: option.splits if_splits)
  then show ?case using wake by blast
next
  case (park g i fp q failure ns kind why)
  then have "continues ch g" by (auto simp: ask_park_section_def continues_def Let_def split: if_splits)
  then show ?case using park by blast
next
  case (stop_turn r g i gen q)
  then have "continues ch g" using same_table_continues [of g] by (metis same_table_refl same_table_stop)
  then show ?case using stop_turn by blast
next
  case (spend g i)
  then have "continues ch g" using same_table_continues [OF same_table_spend] by (simp add: continues_def)
  then show ?case using spend by blast
qed (auto simp: continues_frame dest: table_continues)

lemma continue_origin:
  assumes "(gate_step opts)\<^sup>*\<^sup>* g h" "gate_ok g" "\<not> continues ch g" "continues ch h"
  shows "\<exists>k l. (gate_step opts)\<^sup>*\<^sup>* g k \<and> continued_by opts ch k l \<and> (gate_step opts)\<^sup>*\<^sup>* l h"
  using assms
proof (induction rule: rtranclp_induct)
  case base
  then show ?case by simp
next
  case (step k h)
  have k: "gate_ok k" using step.hyps(1) step.prems(1) by (induction rule: rtranclp_induct) (simp_all add: gate_ok_step)
  show ?case
  proof (cases "continues ch k")
    case True
    from step.IH [OF step.prems(1,2) this] obtain m l where
      "(gate_step opts)\<^sup>*\<^sup>* g m" "continued_by opts ch m l" "(gate_step opts)\<^sup>*\<^sup>* l k" by blast
    then show ?thesis using rtranclp.rtrancl_into_rtrancl [of "gate_step opts" l k h] step.hyps(2) by blast
  next
    case False
    from continue_step [OF step.hyps(2) k step.prems(3) this] step.hyps(1) show ?thesis
      by (intro exI [of _ k] exI [of _ h]) simp
  qed
qed

lemma resolve_plain:
  "\<not> dAuthorizePlanReplacement (decisionFromResolve p)"
  "dAllow (decisionFromResolve p) = (rpAction p \<in> {ActionContinue, ActionContinueTask})"
  by (simp_all add: decisionFromResolve_def no_decision_def Let_def split: RecAction.split)

lemma wake_authorised:
  assumes "ask_wake gen q ch h = Some (d, h')" "dAuthorizePlanReplacement d"
  shows "continues ch h"
proof (cases "chans h ch")
  case (Some p)
  then have "d = (if dAllow (decisionFromResolve p) \<and> qPlanTransition q
      then (decisionFromResolve p)\<lparr>dAuthorizePlanReplacement := True\<rparr> else decisionFromResolve p)\<lparr>dGeneration := gen\<rparr>"
    using assms(1) by (simp add: ask_wake_def Let_def)
  then have "dAllow (decisionFromResolve p)" using assms(2) resolve_plain(1) [of p] by (simp split: if_splits)
  then show ?thesis using Some resolve_plain(2) [of p] by (simp add: continues_def)
qed (use assms in \<open>simp add: ask_wake_def\<close>)

section \<open>What a restart keeps\<close>

lemma map_of_map_filter:
  assumes "distinct (map fst xs)" "\<And>i x y. f (i, x) = Some y \<Longrightarrow> fst y = i"
  shows "map_of (List.map_filter f xs) k = (case map_of xs k of None \<Rightarrow> None | Some x \<Rightarrow> map_option snd (f (k, x)))"
  using assms(1)
proof (induction xs)
  case (Cons p xs)
  obtain i x where p: "p = (i, x)" by (cases p)
  have "map_of xs i = None" using Cons.prems by (simp add: p map_of_eq_None_iff)
  with Cons assms(2) [of i x] show ?case
    by (cases "f (i, x)") (auto simp: p List.map_filter_simps split: option.split)
qed (simp add: List.map_filter_simps)

text \<open>The evidence as a restart leaves it.\<close>

definition restored_evidence :: "activeFailure \<Rightarrow> activeFailure" where
  "restored_evidence af =
     trimDiagnosis \<lparr>evidence = (evidence af)\<lparr>fClass := FailureClassNone, fRepeatCount := 0, fSafeRetryLeft := 0, fDiagnosisNotes := []\<rparr>,
       safeRetryUsed = True, diagnosis = diagnosis af\<rparr>"

lemma persisted_from_state:
  "toPersistenceState st = Some ts \<Longrightarrow> lastFailure st = Some af \<Longrightarrow>
     taskRuntimeFromState ts = Some ((new_task [])\<lparr>lastFailure := Some (restored_evidence af)\<rparr>)"
  by (auto simp: toPersistenceState_def taskRuntimeFromState_def blank_TaskState_def restored_evidence_def
      cloneFailureEvent_def Let_def)

lemma map_filter_distinct:
  "distinct (map fst xs) \<Longrightarrow> (\<And>i x y. f (i, x) = Some y \<Longrightarrow> fst y = i) \<Longrightarrow> distinct (map fst (List.map_filter f xs))"
proof (induction xs)
  case (Cons p xs)
  have "fst ` set (List.map_filter f xs) \<subseteq> fst ` set xs"
    using Cons.prems(2) by (force simp: List.map_filter_def)
  with Cons show ?case by (cases p; cases "f p") (auto simp: List.map_filter_simps dest!: Cons.prems(2))
qed (simp add: List.map_filter_simps)

lemma Restore_snapshot:
  assumes "distinct (map fst (tasks g))"
  shows "map_of (tasks (Restore (PersistenceSnapshot g) h)) i =
    (case map_of (tasks g) i of None \<Rightarrow> None | Some st \<Rightarrow>
       map_option (\<lambda>af. (new_task (episodeName (nextSeq (episodeSeq h))))\<lparr>lastFailure := Some (restored_evidence af)\<rparr>) (lastFailure st))"
proof -
  let ?f = "\<lambda>(i, st). map_option (Pair i) (toPersistenceState st)"
  have keys: "\<And>i x y. ?f (i, x) = Some y \<Longrightarrow> fst y = i" by auto
  have snap: "map_of (PersistenceSnapshot g) i = (case map_of (tasks g) i of None \<Rightarrow> None | Some st \<Rightarrow> toPersistenceState st)"
    using map_of_map_filter [OF assms, of ?f i] by (auto simp: PersistenceSnapshot_def snapshotLocked_def option.map_comp comp_def option.map_ident split: option.split)
  have d: "distinct (map fst (PersistenceSnapshot g))"
    using map_filter_distinct [OF assms, of ?f] by (simp add: PersistenceSnapshot_def snapshotLocked_def keys)
  let ?F = "\<lambda>(i, ts). map_option (\<lambda>rt. (i, rt\<lparr>tEpisodeID := episodeName (nextSeq (episodeSeq h))\<rparr>)) (taskRuntimeFromState ts)"
  have "tasks (Restore (PersistenceSnapshot g) h) = List.map_filter ?F (PersistenceSnapshot g)"
    by (simp add: Restore_def Let_def)
  moreover have "map_of (List.map_filter ?F (PersistenceSnapshot g)) i =
      (case map_of (PersistenceSnapshot g) i of None \<Rightarrow> None | Some x \<Rightarrow> map_option snd (?F (i, x)))"
    by (rule map_of_map_filter [OF d]) auto
  ultimately have "map_of (tasks (Restore (PersistenceSnapshot g) h)) i = (case map_of (PersistenceSnapshot g) i of None \<Rightarrow> None
      | Some ts \<Rightarrow> map_option (\<lambda>rt. rt\<lparr>tEpisodeID := episodeName (nextSeq (episodeSeq h))\<rparr>) (taskRuntimeFromState ts))"
    by (simp add: option.map_comp comp_def split: option.split)
  then show ?thesis
    by (auto simp: snap persisted_from_state toPersistenceState_def taskRuntimeFromState_def blank_TaskState_def
        restored_evidence_def cloneFailureEvent_def new_task_def Let_def split: option.split)
qed

section \<open>Properties\<close>

text \<open>A new episode starts clean and forgets nobody: the budget is empty, the generation is another
  one, no question stays parked, every question that was parked has an answer in its channel (a
  request to revise where none had arrived before), exactly the tasks that hold a grant remain,
  with their grants and nothing else, and a result that was produced under the old generation
  only increments a counter.\<close>

theorem BeginEpisode_fresh:
  assumes "generation g \<noteq> 0" "activeMode mode" "oGeneration obs = generation g"
  shows "let h = BeginEpisode opts g in
    episode h = clear_episode \<and> generation h \<noteq> generation g \<and> waiters h = [] \<and>
    (\<forall>c \<in> snd ` set (waiters g). chans h c = Some (case chans g c of None \<Rightarrow> rotatePayload | Some r \<Rightarrow> r)) \<and>
    tasks h = List.map_filter (\<lambda>(i, st). if taskGrants st = {} then None
       else Some (i, (clearTaskRecoveryState st)\<lparr>tEpisodeID := episodeName (nextSeq (episodeSeq g))\<rparr>)) (tasks g) \<and>
    ObserveResult opts sh cx mode now obs h =
      ([], h\<lparr>metrics := (metrics h)\<lparr>StaleObservationsIgnored := StaleObservationsIgnored (metrics h) + 1\<rparr>\<rparr>)"
proof -
  let ?h = "BeginEpisode opts g"
  have gen: "generation ?h \<noteq> generation g" by (simp add: BeginEpisode_simps nextSeq_new)
  have rot: "rotateTask ep = (\<lambda>(i, st). if taskGrants st = {} then None else Some (i, (clearTaskRecoveryState st)\<lparr>tEpisodeID := ep\<rparr>))" for ep
    by (rule ext) (auto simp: rotateTask_cases)
  have "ObserveResult opts sh cx mode now obs ?h =
      ([], ?h\<lparr>metrics := (metrics ?h)\<lparr>StaleObservationsIgnored := StaleObservationsIgnored (metrics ?h) + 1\<rparr>\<rparr>)"
    using assms(1-3) gen by (simp add: ObserveResult_def)
  then show ?thesis
    using gen by (simp add: Let_def BeginEpisode_simps BeginEpisode_chans rot)
qed

text \<open>A parked question that is answered wakes up, once: for every waiter of a reachable gate that has
  no answer yet, answering continue or revise succeeds, the waiting call is then enabled and
  receives exactly that decision, and any second answer under the same id is refused.\<close>

theorem answered_question_wakes:
  assumes "reaches opts g" "TrimSpace i = i" "map_of (waiters g) i = Some c" "chans g c = None"
    and "a \<in> {ActionContinue, ActionRevise}"
  shows "fst (Resolve opts i a fb g) = None \<and>
    (\<exists>d h. ask_wake gen q c (snd (Resolve opts i a fb g)) = Some (d, h) \<and>
       dAllow d = (a = ActionContinue) \<and> dBlocked d = (a = ActionRevise) \<and> dGeneration d = gen) \<and>
    fst (Resolve opts i a' fb' (snd (Resolve opts i a fb g))) = Some UnknownApproval"
proof -
  note r = Resolve_parked [OF gate_ok_reaches [OF assms(1)] assms(2-5), of opts fb]
  have "fst (Resolve opts i a' fb' (snd (Resolve opts i a fb g))) = Some UnknownApproval"
    using resolve_unknown [of "snd (Resolve opts i a fb g)" i opts a' fb'] r(3) assms(2) by simp
  with r decision_of_answer [OF assms(5), of fb] show ?thesis
    by (auto simp: ask_wake_def Let_def)
qed

text \<open>Nobody can approve a whole task: in no reachable state does answering a card with continue-task
  succeed or change anything, because the guard never offers a grant with a card.\<close>

theorem continue_task_refused:
  assumes "reaches opts g"
  shows "\<exists>e \<in> {UnknownApproval, CannotGrant}. Resolve opts i ActionContinueTask fb g = (Some e, g)"
  using resolve_section_cases [OF gate_ok_reaches [OF assms], of "TrimSpace i" ActionContinueTask fb]
  by (simp add: Resolve_def Let_def)

text \<open>C4. A plan is only replaced with a review or a human behind it. Take any call in a reachable state.
  When the guard itself authorises the replacement, the call is a plan transition, it was routed to review,
  and the independent reviewer answered continue with one of the three bounded kinds. When the guard parks
  the call instead, the call is a plan transition too, it was routed to review too, and a card with its
  tool, its arguments and its two plans is waiting on a channel without an answer; and if this call ever
  wakes from there with an authorisation, after whatever the guard did meanwhile, then in between somebody
  resolved a card leading to that very channel with continue.\<close>

theorem plan_replacement_reviewed:
  assumes "reaches opts g" "BeforeMutation opts e q g = (outcome, g1)"
  shows "case outcome of
      Decided d \<Rightarrow> dAuthorizePlanReplacement d \<longrightarrow>
        qPlanTransition q \<and> drRoute (Decide (clFacts (fst (classify opts e q g)))) = RouteReview \<and>
        reviewer_continues e (fst (classify opts e q g)) q
    | Parked ch p \<Rightarrow>
        drRoute (Decide (clFacts (fst (classify opts e q g)))) = RouteReview \<and> plan_card q ch p g1 \<and>
        (\<forall>gen h d h'. (gate_step opts)\<^sup>*\<^sup>* g1 h \<and> ask_wake gen q ch h = Some (d, h') \<and> dAuthorizePlanReplacement d \<longrightarrow>
           (\<exists>k i fb. (gate_step opts)\<^sup>*\<^sup>* g1 k \<and> map_of (waiters k) (TrimSpace i) = Some ch \<and> chans k ch = None \<and>
              fst (Resolve opts i ActionContinue fb k) = None \<and>
              (gate_step opts)\<^sup>*\<^sup>* (snd (Resolve opts i ActionContinue fb k)) h))"
proof (cases outcome)
  case (Decided d)
  then show ?thesis using BeforeMutation_authorised [of opts e q g d g1] assms(2) by auto
next
  case (Parked ch p)
  have 1: "drRoute (Decide (clFacts (fst (classify opts e q g)))) = RouteReview" "plan_card q ch p g1"
    using BeforeMutation_card [of opts e q g ch p g1] assms(2) Parked by simp_all
  have "reaches opts g1"
    using BeforeMutation_steps [of opts g e q] assms unfolding reaches_def by (metis rtranclp_trans snd_conv)
  then have g1: "gate_ok g1" "\<not> continues ch g1" using 1(2) gate_ok_reaches by (simp_all add: plan_card_def continues_def)
  have "\<exists>k i fb. (gate_step opts)\<^sup>*\<^sup>* g1 k \<and> map_of (waiters k) (TrimSpace i) = Some ch \<and> chans k ch = None \<and>
      fst (Resolve opts i ActionContinue fb k) = None \<and> (gate_step opts)\<^sup>*\<^sup>* (snd (Resolve opts i ActionContinue fb k)) h"
    if "(gate_step opts)\<^sup>*\<^sup>* g1 h" "ask_wake gen q ch h = Some (d, h')" "dAuthorizePlanReplacement d" for gen h d h'
    using continue_origin [OF that(1) g1 wake_authorised [OF that(2,3)]] unfolding continued_by_def by blast
  then show ?thesis unfolding Parked Outcome.case using 1 by blast
qed

text \<open>A restart keeps the evidence and nothing that could block or allow a call: after restoring the
  persisted snapshot into any gate, the budget is empty, nothing is parked, and a task is there
  exactly when it had a failure; it then has that failure's tool, subject, arguments, error and
  fingerprint, no counter, no stopped operation, no grant and no free retry. The class of the
  failure is lost.\<close>

theorem Restore_keeps_evidence:
  assumes "distinct (map fst (tasks g))"
  shows "let h' = Restore (PersistenceSnapshot g) h in
    episode h' = clear_episode \<and> waiters h' = [] \<and> awaiting h' = {} \<and> generation h' \<noteq> generation h \<and>
    (case map_of (tasks h') i of
       None \<Rightarrow> (\<forall>st. map_of (tasks g) i = Some st \<longrightarrow> lastFailure st = None)
     | Some rt \<Rightarrow> harmless rt \<and>
         (\<exists>st af af'. map_of (tasks g) i = Some st \<and> lastFailure st = Some af \<and> lastFailure rt = Some af' \<and>
            fTool (evidence af') = fTool (evidence af) \<and> fSubject (evidence af') = fSubject (evidence af) \<and>
            fArgs (evidence af') = fArgs (evidence af) \<and> fErrSummary (evidence af') = fErrSummary (evidence af) \<and>
            fFingerprint (evidence af') = fFingerprint (evidence af) \<and> fClass (evidence af') = FailureClassNone))"
proof -
  let ?h = "Restore (PersistenceSnapshot g) h"
  have "episode ?h = clear_episode \<and> waiters ?h = [] \<and> awaiting ?h = {} \<and> generation ?h \<noteq> generation h"
    by (simp add: Restore_def Let_def nextSeq_new)
  then show ?thesis
    using Restore_snapshot [OF assms(1), of h i]
    by (auto simp: restored_evidence_def trimDiagnosis_def new_task_def harmless_def Let_def split: option.splits)
qed

text \<open>Restoring strands the calls that wait: unlike a new episode, \<open>Restore\<close> drops the parked
  questions without an answer, and from then on nothing the guard ever does can put one into the
  channel of such a call; only the end of its own context can release it.\<close>

theorem Restore_strands_waiters:
  assumes "reaches opts g" "map_of (waiters g) i = Some c" "chans g c = None"
    and "(gate_step opts)\<^sup>*\<^sup>* (Restore snap g) h"
  shows "chans h c = None \<and> ask_wake gen q c h = None"
proof -
  have "c < nextChan g" using gate_ok_reaches [OF assms(1)] assms(2) by (auto simp: gate_ok_def waiters_ok_def)
  then have "stranded c h" using stranded_steps [OF assms(4)] stranded_Restore assms(3) by blast
  then show ?thesis by (simp add: stranded_def ask_wake_def)
qed

text \<open>An answer that arrives before the prompt returns leaves a mark: when the card is bound and
  resolved inside \<open>EmitPrompt\<close>, the question of the task is gone but the task is still listed as
  awaiting a decision after the call has been woken.\<close>

theorem early_answer_leaves_awaiting:
  assumes "gate_ok g" "waiters g = []" "taskOf g = []" "normalizeTaskID i = i" "TrimSpace a = a" "a \<noteq> []" "provisional i \<noteq> a"
  shows "let (ch, g1) = ask_park_section i (pendingFor fp q failure notes kind why) g;
             g2 = snd (Resolve opts a ActionContinue fb (BindApprovalID i a g1));
             (ch', g3) = ask_bound opts i a ch g2
         in ch' = ch \<and> chans g3 ch = Some (answer ActionContinue fb) \<and> waiters g3 = [] \<and> i \<in> awaiting g3"
proof -
  let ?p = "pendingFor fp q failure notes kind why" and ?b = "provisional i" and ?ch = "nextChan g"
  let ?g1 = "snd (ask_park_section i ?p g)"
  let ?k = "BindApprovalID i a ?g1"
  let ?g2 = "snd (Resolve opts a ActionContinue fb ?k)"
  have i: "i \<noteq> []" using normalizeTaskID_ne [of i] assms(4) by simp
  have 1: "waiters ?g1 = [(?b, ?ch)]" "taskOf ?g1 = [(?b, i)]" "chans ?g1 ?ch = None" "fst (ask_park_section i ?p g) = ?ch"
    using assms(2,3) by (simp_all add: ask_park_section_def Let_def)
  have "map_of (waiters ?k) a = Some ?ch \<and> waiters ?k = [(a, ?ch)] \<and> taskOf ?k = [(a, i)] \<and> chans ?k ?ch = None"
    using 1 assms(4-7) by (auto simp: BindApprovalID_def Let_def split: option.split)
  then have k: "waiters ?k = [(a, ?ch)]" "taskOf ?k = [(a, i)]" "chans ?k ?ch = None" by simp_all
  have 2: "waiters ?g2 = []" "chans ?g2 ?ch = Some (answer ActionContinue fb)"
    using k i assms(5) by (simp_all add: Resolve_def resolve_section_def lookupStr_def Let_def sendReply_chans answer_def)
  then show ?thesis
    using 1(4) by (simp add: case_prod_unfold Let_def ask_bound_def ask_bound_section_def)
qed

section \<open>Witnesses\<close>

definition plan_call :: Proposal where
  "plan_call = (demo_call ''todo_write'')\<lparr>qPlanTransition := True\<rparr>"

definition demo_card :: PendingProposal where
  "demo_card = pendingFor ''fp'' plan_call None [] ChangeScope []"

definition parked :: Gate where
  "parked = BindApprovalID ''t'' ''7'' (snd (ask_park_section (normalizeTaskID ''t'') demo_card NewGate))"

lemma reaches_step: "reaches opts g \<Longrightarrow> gate_step opts g h \<Longrightarrow> reaches opts h"
  unfolding reaches_def by (rule rtranclp.rtrancl_into_rtrancl [of "gate_step opts"])

lemma parked_reaches: "reaches demo_opts parked"
  unfolding parked_def demo_card_def
  by (rule reaches_step [OF reaches_step [OF reaches_new gate_step.park] gate_step.bind_id])

lemma parked_values:
  "waiters parked = [(''7'', 0)]" "chans parked 0 = None" "generation parked = 1" "TrimSpace ''7'' = ''7''"
  "normalizeTaskID ''t'' = ''t''" "provisional ''t'' \<noteq> ''7''"
  by code_simp+

theorem BeginEpisode_fresh_witness:
  "waiters (BeginEpisode demo_opts parked) = [] \<and> chans (BeginEpisode demo_opts parked) 0 = Some rotatePayload"
  using BeginEpisode_fresh [of parked "''auto''" "demo_obs ''edit''" demo_opts demo_shell demo_codec 0]
    demo_auto parked_values by (simp add: Let_def demo_obs_def)

theorem answered_question_wakes_witness:
  "fst (Resolve demo_opts ''7'' ActionRevise [] parked) = None \<and>
   fst (Resolve demo_opts ''7'' ActionContinue [] (snd (Resolve demo_opts ''7'' ActionRevise [] parked))) = Some UnknownApproval"
  using answered_question_wakes [of demo_opts parked "''7''" 0 ActionRevise "[]" 1 plan_call ActionContinue "[]"]
    parked_reaches parked_values by simp

theorem continue_task_refused_witness:
  "snd (Resolve demo_opts ''7'' ActionContinueTask [] parked) = parked"
  using continue_task_refused [OF parked_reaches, of "''7''" "[]"] by auto

text \<open>The demonstration call: a plan transition without a reviewer, asked and answered.\<close>

definition asked :: "Outcome \<times> Gate" where
  "asked = BeforeMutation demo_opts (demo_env ''auto'') plan_call NewGate"

definition asked_card :: "bytes \<Rightarrow> bytes" where "asked_card i = provisional (normalizeTaskID i)"

definition answered :: Gate where
  "answered = snd (Resolve demo_opts (asked_card (qTaskID plan_call)) ActionContinue [] (snd asked))"

theorem plan_replacement_reviewed_witness:
  "drRoute (Decide (clFacts (fst (classify demo_opts (demo_env ''auto'') plan_call NewGate)))) = RouteReview \<and>
   (\<exists>d h'. ask_wake 1 plan_call 0 answered = Some (d, h') \<and> dAuthorizePlanReplacement d) \<and>
   (\<exists>k i fb. (gate_step demo_opts)\<^sup>*\<^sup>* (snd asked) k \<and> map_of (waiters k) (TrimSpace i) = Some 0 \<and>
      (gate_step demo_opts)\<^sup>*\<^sup>* (snd (Resolve demo_opts i ActionContinue fb k)) answered)"
proof -
  have "case fst asked of Parked ch p \<Rightarrow> ch = 0 | _ \<Rightarrow> False" by code_simp
  then obtain p where c: "BeforeMutation demo_opts (demo_env ''auto'') plan_call NewGate = (Parked 0 p, snd asked)"
    unfolding asked_def by (cases "BeforeMutation demo_opts (demo_env ''auto'') plan_call NewGate") (auto split: Outcome.splits)
  have "case ask_wake 1 plan_call 0 answered of None \<Rightarrow> False | Some (d, h) \<Rightarrow> dAuthorizePlanReplacement d" by code_simp
  then obtain d h' where w: "ask_wake 1 plan_call 0 answered = Some (d, h')" "dAuthorizePlanReplacement d"
    by (auto split: option.splits)
  have "(gate_step demo_opts)\<^sup>*\<^sup>* (snd asked) answered" unfolding answered_def by (rule r_into_rtranclp) (rule gate_step.resolve)
  then have s: "(gate_step demo_opts)\<^sup>*\<^sup>* (snd asked) answered \<and> ask_wake 1 plan_call 0 answered = Some (d, h') \<and>
      dAuthorizePlanReplacement d" using w by blast
  note r = plan_replacement_reviewed [OF reaches_new c, unfolded Outcome.case]
  from r s have "\<exists>k i fb. (gate_step demo_opts)\<^sup>*\<^sup>* (snd asked) k \<and> map_of (waiters k) (TrimSpace i) = Some 0 \<and>
      (gate_step demo_opts)\<^sup>*\<^sup>* (snd (Resolve demo_opts i ActionContinue fb k)) answered" by blast
  with conjunct1 [OF r] w show ?thesis by blast
qed

theorem Restore_keeps_evidence_witness:
  "case map_of (tasks (Restore (PersistenceSnapshot thrice) NewGate)) ''t'' of None \<Rightarrow> False | Some rt \<Rightarrow> harmless rt"
proof -
  have d: "distinct (map fst (tasks thrice))" by code_simp
  have f: "\<exists>st af. map_of (tasks thrice) ''t'' = Some st \<and> lastFailure st = Some af"
  proof -
    have "(case map_of (tasks thrice) ''t'' of None \<Rightarrow> False | Some st \<Rightarrow> lastFailure st \<noteq> None)" by code_simp
    then show ?thesis by (auto split: option.splits)
  qed
  show ?thesis using Restore_keeps_evidence [OF d, of NewGate "''t''"] f by (auto simp: Let_def split: option.splits)
qed

theorem Restore_strands_waiters_witness: "ask_wake 1 plan_call 0 (Restore [] parked) = None"
  using Restore_strands_waiters [OF parked_reaches, of "''7''" 0 "[]" "Restore [] parked" 1 plan_call] parked_values by simp

theorem early_answer_leaves_awaiting_witness:
  "let (ch, g1) = ask_park_section ''t'' (pendingFor ''fp'' plan_call None [] ChangeScope []) NewGate;
       g2 = snd (Resolve demo_opts ''7'' ActionContinue [] (BindApprovalID ''t'' ''7'' g1));
       (ch', g3) = ask_bound demo_opts ''t'' ''7'' ch g2
   in ch' = ch \<and> chans g3 ch = Some (answer ActionContinue []) \<and> waiters g3 = [] \<and> ''t'' \<in> awaiting g3"
  by (rule early_answer_leaves_awaiting) (simp_all add: gate_ok_new parked_values, simp_all add: NewGate_def)

end
