(* ===== verification/RecIdentity.thy ===== *)
theory RecIdentity
  imports RecTypes
begin

text \<open>
  What the fingerprint of \<open>fingerprint.go\<close> identifies. The hashed text is four labelled lines; the
  labels are not escaped, so the text determines the call only while every field is one line.
\<close>

definition fingerprint_text :: "codec \<Rightarrow> bytes \<Rightarrow> bytes \<Rightarrow> bytes \<Rightarrow> bytes \<Rightarrow> bytes" where
  "fingerprint_text cx tool subject preview args =
     ''tool='' @ TrimSpace tool @ [LF] @ ''subject='' @ TrimSpace subject @ [LF] @
     ''preview='' @ TrimSpace preview @ [LF] @ ''args='' @ normalizeArgs cx args @ [LF]"

lemma CallFingerprint_text: "CallFingerprint cx t s p a = cSha cx (fingerprint_text cx t s p a)"
  by (simp add: CallFingerprint_def fingerprint_text_def)

lemma line_split:
  "LF \<notin> set xs \<Longrightarrow> LF \<notin> set ys \<Longrightarrow> xs @ LF # r = ys @ LF # r' \<longleftrightarrow> xs = ys \<and> r = r'"
proof (induction xs arbitrary: ys)
  case Nil
  then show ?case by (cases ys) auto
next
  case (Cons x xs)
  then show ?case by (cases ys) auto
qed

definition one_line :: "bytes \<Rightarrow> bool" where
  "one_line s \<longleftrightarrow> LF \<notin> set (TrimSpace s)"

lemma fingerprint_text_eq:
  assumes "one_line t" "one_line t'" "one_line s" "one_line s'" "one_line p" "one_line p'"
  shows "fingerprint_text cx t s p a = fingerprint_text cx t' s' p' a' \<longleftrightarrow>
    TrimSpace t = TrimSpace t' \<and> TrimSpace s = TrimSpace s' \<and> TrimSpace p = TrimSpace p' \<and>
    normalizeArgs cx a = normalizeArgs cx a'"
  using assms by (simp add: fingerprint_text_def one_line_def line_split)

section \<open>Properties\<close>

text \<open>Equal fingerprints mean equal operations: for calls whose tool, subject and preview are single
  lines, and a digest that does not collide on the two texts, the fingerprints are equal exactly
  when tool, subject and preview agree up to surrounding blanks and the arguments have the same
  normal form.\<close>

theorem CallFingerprint_identifies:
  assumes "one_line t" "one_line t'" "one_line s" "one_line s'" "one_line p" "one_line p'"
    and "inj_on (cSha cx) {fingerprint_text cx t s p a, fingerprint_text cx t' s' p' a'}"
  shows "CallFingerprint cx t s p a = CallFingerprint cx t' s' p' a' \<longleftrightarrow>
    TrimSpace t = TrimSpace t' \<and> TrimSpace s = TrimSpace s' \<and> TrimSpace p = TrimSpace p' \<and>
    normalizeArgs cx a = normalizeArgs cx a'"
  using assms(7) fingerprint_text_eq [OF assms(1-6), of cx a a']
  by (auto simp: CallFingerprint_text dest: inj_onD)

text \<open>The fields are not delimited: a subject of two lines and a preview of one have the fingerprint of
  a subject of one line and a preview of two, whatever the digest, so two different calls share one
  authorisation.\<close>

theorem fingerprint_ambiguous:
  "CallFingerprint cx ''bash'' (''rm a'' @ [LF] @ ''preview=b'') ''c'' args =
     CallFingerprint cx ''bash'' ''rm a'' (''b'' @ [LF] @ ''preview=c'') args \<and>
   TrimSpace (''rm a'' @ [LF] @ ''preview=b'') \<noteq> TrimSpace ''rm a''"
proof -
  have t: "TrimSpace (''rm a'' @ [LF] @ ''preview=b'') = ''rm a'' @ [LF] @ ''preview=b''" "TrimSpace ''c'' = ''c''"
    "TrimSpace ''rm a'' = ''rm a''" "TrimSpace (''b'' @ [LF] @ ''preview=c'') = ''b'' @ [LF] @ ''preview=c''"
    by code_simp+
  show ?thesis unfolding CallFingerprint_def t by simp
qed

section \<open>Witness\<close>

definition plain_codec :: codec where
  "plain_codec = \<lparr>cSha = (\<lambda>x. x), cNorm = (\<lambda>_. None), cStrings = (\<lambda>_. None), cEdits = (\<lambda>_. None)\<rparr>"

theorem CallFingerprint_identifies_witness:
  "CallFingerprint plain_codec ''edit'' ''a.go'' [] [] \<noteq> CallFingerprint plain_codec ''edit'' ''b.go'' [] []"
proof -
  have l: "one_line ''edit''" "one_line ''a.go''" "one_line ''b.go''" "one_line []" by code_simp+
  have t: "TrimSpace ''a.go'' \<noteq> TrimSpace ''b.go''" by code_simp
  show ?thesis
    using CallFingerprint_identifies [OF l(1) l(1) l(2) l(3) l(4) l(4), of plain_codec "[]" "[]"] t
    by (simp add: plain_codec_def)
qed

end
