(* ===== verification/IndexStore.thy ===== *)
theory IndexStore
  imports Chunker "HOL-Library.AList" "HOL-Library.Word" "HOL-Library.List_Lexorder" "HOL-Library.Char_ord"
begin

text \<open>
  \<open>internal/codesearch/vectorstore.go\<close>, \<open>store.go\<close> and \<open>recipe.go\<close>: where the vectors of the code
  index live. The Go interface \<open>VectorStore\<close> is the record of its methods, and \<open>LocalStore\<close> the
  implementation on files, a map from paths to chunks and vectors. An \<open>int8\<close> is an 8-bit word, an
  \<open>int32\<close> a 32-bit word with its wrap-around. Floating point is a parameter: \<open>norm\<close> returns the
  sum of squares instead of its square root (zero exactly when the norm is), and \<open>cosine\<close>, an
  argument, turns the dot product and the two sums into a score of a linearly ordered type.
  \<open>encoding/json\<close> and the file system are parameters too: \<open>Save\<close> returns what it writes.

  The locale \<open>vector_store\<close> states the contract of the interface over an abstract map; the
  interpretation shows that \<open>LocalStore\<close> keeps it.
\<close>

section \<open>The interface\<close>

record 'r Match =
  mChunk :: Chunk
  mScore :: 'r

text \<open>\<open>Replace\<close> is \<open>None\<close> on an error.\<close>

record ('s, 'r) VectorStore =
  vsReplace :: "bytes \<Rightarrow> bytes \<Rightarrow> Chunk list \<Rightarrow> 8 word list \<Rightarrow> 's \<Rightarrow> 's option"
  vsFileHash :: "bytes \<Rightarrow> 's \<Rightarrow> bytes option"
  vsDelete :: "bytes \<Rightarrow> 's \<Rightarrow> 's"
  vsHas :: "bytes \<Rightarrow> 's \<Rightarrow> bool"
  vsPaths :: "'s \<Rightarrow> bytes list"
  vsSearch :: "8 word list \<Rightarrow> int \<Rightarrow> 's \<Rightarrow> 'r Match list"
  vsStats :: "'s \<Rightarrow> nat \<times> nat"
  vsDims :: "'s \<Rightarrow> nat"

section \<open>The local store\<close>

record fileVectors =
  fvHash :: bytes
  fvChunks :: "Chunk list"
  fvVecs :: "8 word list"
  fvNorms :: "32 word list"

record LocalStore =
  lsDims :: nat
  lsModel :: bytes
  lsFiles :: "(bytes \<times> fileVectors) list"

definition dot :: "8 word list \<Rightarrow> 8 word list \<Rightarrow> 32 word" where
  "dot a b = fold (\<lambda>(x, y) s. s + scast x * scast y) (zip a b) 0"

definition vnorm :: "8 word list \<Rightarrow> 32 word" where
  "vnorm v = fold (\<lambda>x s. s + scast x * scast x) v 0"

text \<open>\<open>vecs[i*dims : (i+1)*dims]\<close>\<close>

definition vec_at :: "nat \<Rightarrow> 8 word list \<Rightarrow> nat \<Rightarrow> 8 word list" where
  "vec_at dims vecs i = take dims (drop (i * dims) vecs)"

definition recomputeNorms :: "nat \<Rightarrow> fileVectors \<Rightarrow> fileVectors" where
  "recomputeNorms dims fv =
     fv\<lparr>fvNorms := map (\<lambda>i. vnorm (vec_at dims (fvVecs fv) i)) [0..<length (fvChunks fv)]\<rparr>"

definition localReplace ::
  "bytes \<Rightarrow> bytes \<Rightarrow> Chunk list \<Rightarrow> 8 word list \<Rightarrow> LocalStore \<Rightarrow> LocalStore option" where
  "localReplace pa fileHash chunks vecs s =
     (if length chunks * lsDims s \<noteq> length vecs then None
      else if chunks = [] then Some (s\<lparr>lsFiles := AList.delete pa (lsFiles s)\<rparr>)
      else Some (s\<lparr>lsFiles := AList.update pa
             (recomputeNorms (lsDims s) \<lparr>fvHash = fileHash, fvChunks = chunks, fvVecs = vecs, fvNorms = []\<rparr>) (lsFiles s)\<rparr>))"

definition localFileHash :: "bytes \<Rightarrow> LocalStore \<Rightarrow> bytes option" where
  "localFileHash pa s =
     (case map_of (lsFiles s) pa of
        None \<Rightarrow> None
      | Some fv \<Rightarrow> if fvHash fv = [] then None else Some (fvHash fv))"

definition localDelete :: "bytes \<Rightarrow> LocalStore \<Rightarrow> LocalStore" where
  "localDelete pa s = s\<lparr>lsFiles := AList.delete pa (lsFiles s)\<rparr>"

definition localHas :: "bytes \<Rightarrow> LocalStore \<Rightarrow> bool" where
  "localHas pa s = (map_of (lsFiles s) pa \<noteq> None)"

definition localPaths :: "LocalStore \<Rightarrow> bytes list" where
  "localPaths s = sort (map fst (lsFiles s))"

definition localStats :: "LocalStore \<Rightarrow> nat \<times> nat" where
  "localStats s = (length (lsFiles s), sum_list (map (\<lambda>(p, fv). length (fvChunks fv)) (lsFiles s)))"

text \<open>The matches of one file, in the order of its chunks.\<close>

definition fileMatches ::
  "(32 word \<Rightarrow> 32 word \<Rightarrow> 32 word \<Rightarrow> 'r) \<Rightarrow> nat \<Rightarrow> 8 word list \<Rightarrow> fileVectors \<Rightarrow> 'r Match list" where
  "fileMatches cosine dims query fv =
     List.map_filter (\<lambda>i. if fvNorms fv ! i = 0 then None
       else Some \<lparr>mChunk = fvChunks fv ! i,
                  mScore = cosine (dot query (vec_at dims (fvVecs fv) i)) (vnorm query) (fvNorms fv ! i)\<rparr>)
       [0..<length (fvChunks fv)]"

text \<open>\<open>sort.SliceStable\<close> with the comparison \<open>>\<close>: descending, equal scores in their order.\<close>

definition sort_desc :: "('a \<Rightarrow> 'r :: linorder) \<Rightarrow> 'a list \<Rightarrow> 'a list" where
  "sort_desc f xs = rev (sort_key f (rev xs))"

definition localSearch ::
  "(32 word \<Rightarrow> 32 word \<Rightarrow> 32 word \<Rightarrow> 'r :: linorder) \<Rightarrow> 8 word list \<Rightarrow> int \<Rightarrow> LocalStore \<Rightarrow> 'r Match list" where
  "localSearch cosine query limit s =
     (if length query \<noteq> lsDims s \<or> limit \<le> 0 then []
      else if vnorm query = 0 then []
      else (let found = concat (map (\<lambda>p. case map_of (lsFiles s) p of None \<Rightarrow> []
                  | Some fv \<Rightarrow> fileMatches cosine (lsDims s) query fv) (localPaths s))
            in take (nat limit) (sort_desc mScore found)))"

definition local_store :: "(32 word \<Rightarrow> 32 word \<Rightarrow> 32 word \<Rightarrow> 'r :: linorder) \<Rightarrow> (LocalStore, 'r) VectorStore" where
  "local_store cosine =
     \<lparr>vsReplace = localReplace, vsFileHash = localFileHash, vsDelete = localDelete, vsHas = localHas,
      vsPaths = localPaths, vsSearch = localSearch cosine, vsStats = localStats, vsDims = lsDims\<rparr>"

section \<open>Files on disk\<close>

record indexManifest =
  imDims :: nat
  imModel :: bytes
  imFiles :: "(bytes \<times> Chunk list) list"
  imHashes :: "(bytes \<times> bytes) list"
  imOrder :: "bytes list"

definition int8ToBytes :: "8 word list \<Rightarrow> bytes" where
  "int8ToBytes v = map (\<lambda>x. char_of (unat x)) v"

definition bytesToInt8 :: "bytes \<Rightarrow> 8 word list" where
  "bytesToInt8 b = map (\<lambda>c. word_of_nat (of_char c)) b"

text \<open>What \<open>Save\<close> writes: first the blob of vectors, then the manifest.\<close>

definition saveBlob :: "LocalStore \<Rightarrow> bytes" where
  "saveBlob s = concat (map (\<lambda>p. case map_of (lsFiles s) p of None \<Rightarrow> [] | Some fv \<Rightarrow> int8ToBytes (fvVecs fv)) (localPaths s))"

definition saveManifest :: "LocalStore \<Rightarrow> indexManifest" where
  "saveManifest s =
     \<lparr>imDims = lsDims s, imModel = lsModel s,
      imFiles = map (\<lambda>p. (p, case map_of (lsFiles s) p of None \<Rightarrow> [] | Some fv \<Rightarrow> fvChunks fv)) (localPaths s),
      imHashes = map (\<lambda>p. (p, case map_of (lsFiles s) p of None \<Rightarrow> [] | Some fv \<Rightarrow> fvHash fv)) (localPaths s),
      imOrder = localPaths s\<rparr>"

record Disk =
  dkVectors :: "bytes option"
  dkIndex :: "bytes option"

text \<open>The states of the directory during \<open>Save\<close>: every write is atomic, a crash may come between.\<close>

definition save_states :: "(indexManifest \<Rightarrow> bytes) \<Rightarrow> LocalStore \<Rightarrow> Disk \<Rightarrow> Disk list" where
  "save_states jEnc s d =
     [d, d\<lparr>dkVectors := Some (saveBlob s)\<rparr>,
      d\<lparr>dkVectors := Some (saveBlob s), dkIndex := Some (jEnc (saveManifest s))\<rparr>]"

definition Save :: "(indexManifest \<Rightarrow> bytes) \<Rightarrow> LocalStore \<Rightarrow> Disk \<Rightarrow> Disk" where
  "Save jEnc s d = last (save_states jEnc s d)"

text \<open>\<open>lookup\<close> of a missing key is the zero value.\<close>

definition zeroed :: "('k \<times> 'v list) list \<Rightarrow> 'k \<Rightarrow> 'v list" where
  "zeroed m k = (case map_of m k of None \<Rightarrow> [] | Some v \<Rightarrow> v)"

fun loadLoop :: "indexManifest \<Rightarrow> bytes list \<Rightarrow> bytes \<Rightarrow> nat \<Rightarrow> LocalStore \<Rightarrow> LocalStore option" where
  "loadLoop man [] raw offset s = Some s"
| "loadLoop man (pa # ps) raw offset s =
     (let chunks = zeroed (imFiles man) pa; width = length chunks * lsDims s
      in if offset + width > length raw then None
         else loadLoop man ps raw (offset + width)
           (s\<lparr>lsFiles := AList.update pa (recomputeNorms (lsDims s)
               \<lparr>fvHash = zeroed (imHashes man) pa, fvChunks = chunks,
                fvVecs = bytesToInt8 (take width (drop offset raw)), fvNorms = []\<rparr>) (lsFiles s)\<rparr>))"

definition load :: "indexManifest \<Rightarrow> bytes \<Rightarrow> LocalStore \<Rightarrow> LocalStore option" where
  "load man raw s = loadLoop man (imOrder man) raw 0 s"

definition OpenLocalStore :: "(bytes \<Rightarrow> indexManifest option) \<Rightarrow> bytes \<Rightarrow> nat \<Rightarrow> Disk \<Rightarrow> LocalStore" where
  "OpenLocalStore jDec model dims d =
     (let empty = \<lparr>lsDims = dims, lsModel = model, lsFiles = []\<rparr>
      in case dkIndex d of
           None \<Rightarrow> empty
         | Some data \<Rightarrow>
             (case jDec data of
                None \<Rightarrow> empty
              | Some man \<Rightarrow>
                  if imDims man \<noteq> dims \<or> imModel man \<noteq> model then empty
                  else (case dkVectors d of
                          None \<Rightarrow> empty
                        | Some raw \<Rightarrow> (case load man raw empty of None \<Rightarrow> empty | Some s \<Rightarrow> s))))"

section \<open>The contract of the interface\<close>

locale vector_store =
  fixes vs :: "('s, 'r) VectorStore"
    and entry :: "'s \<Rightarrow> bytes \<Rightarrow> (bytes \<times> Chunk list \<times> 8 word list) option"
    and inv :: "'s \<Rightarrow> bool"
  assumes replace: "inv s \<Longrightarrow> length cs * vsDims vs s = length ws \<Longrightarrow> cs \<noteq> [] \<Longrightarrow>
      \<exists>t. vsReplace vs p h cs ws s = Some t \<and> inv t \<and> entry t = (entry s)(p \<mapsto> (h, cs, ws)) \<and> vsDims vs t = vsDims vs s"
    and replace_bad: "length cs * vsDims vs s \<noteq> length ws \<Longrightarrow> vsReplace vs p h cs ws s = None"
    and delete: "inv s \<Longrightarrow> inv (vsDelete vs p s) \<and> entry (vsDelete vs p s) = (entry s)(p := None) \<and>
      vsDims vs (vsDelete vs p s) = vsDims vs s"
    and fileHash: "inv s \<Longrightarrow> vsFileHash vs p s =
      (case entry s p of None \<Rightarrow> None | Some (h, cs, ws) \<Rightarrow> if h = [] then None else Some h)"
    and paths_dom: "inv s \<Longrightarrow> distinct (vsPaths vs s) \<and> set (vsPaths vs s) = dom (entry s)"
begin

lemma delete_entry: "inv s \<Longrightarrow> entry (vsDelete vs p s) = (entry s)(p := None)"
  using delete by blast

lemma delete_inv: "inv s \<Longrightarrow> inv (vsDelete vs p s)"
  using delete by blast

text \<open>Deleting several paths.\<close>

lemma delete_all:
  "inv s \<Longrightarrow> inv (fold (vsDelete vs) ps s) \<and> entry (fold (vsDelete vs) ps s) = (\<lambda>p. if p \<in> set ps then None else entry s p) \<and>
     vsDims vs (fold (vsDelete vs) ps s) = vsDims vs s"
proof (induction ps arbitrary: s)
  case (Cons p ps)
  have "inv (vsDelete vs p s)" "entry (vsDelete vs p s) = (entry s)(p := None)" "vsDims vs (vsDelete vs p s) = vsDims vs s"
    using delete [OF Cons.prems, of p] by blast+
  with Cons.IH [of "vsDelete vs p s"] show ?case by (auto simp: fun_eq_iff)
qed simp

end

section \<open>Scores\<close>

lemma sint_byte: "- 128 \<le> sint (x :: 8 word)" "sint (x :: 8 word) \<le> 127"
  using sint_greater_eq [of x] sint_less [of x] by simp_all

lemma sint_prod_bound: "\<bar>sint (x :: 8 word) * sint (y :: 8 word)\<bar> \<le> 16384"
proof -
  have "\<bar>sint x\<bar> \<le> 128" "\<bar>sint y\<bar> \<le> 128" using sint_byte [of x] sint_byte [of y] by linarith+
  then have "\<bar>sint x\<bar> * \<bar>sint y\<bar> \<le> 128 * 128" by (intro mult_mono) simp_all
  then show ?thesis by (simp add: abs_mult)
qed

text \<open>The sum over the integers.\<close>

definition int_dot :: "8 word list \<Rightarrow> 8 word list \<Rightarrow> int" where
  "int_dot a b = sum_list (map (\<lambda>(x, y). sint x * sint y) (zip a b))"

lemma int_dot_bound: "\<bar>sum_list (map (\<lambda>(x, y). sint (x :: 8 word) * sint (y :: 8 word)) ps)\<bar> \<le> 16384 * int (length ps)"
proof (induction ps)
  case (Cons p ps)
  then show ?case using sint_prod_bound [of "fst p" "snd p"] by (cases p) simp
qed simp

lemma dot_fold:
  "fold (\<lambda>(x, y) s. s + scast x * scast y) ps (word_of_int k :: 32 word) =
     word_of_int (k + sum_list (map (\<lambda>(x, y). sint (x :: 8 word) * sint (y :: 8 word)) ps))"
proof (induction ps arbitrary: k)
  case (Cons p ps)
  obtain x y where p: "p = (x, y)" by (cases p)
  have "(word_of_int k :: 32 word) + scast x * scast y = word_of_int (k + sint x * sint y)"
    by (simp only: scast_eq wi_hom_mult wi_hom_add)
  then show ?case using Cons.IH [of "k + sint x * sint y"]
    by (simp only: p fold_simps prod.case list.map sum_list.Cons add.assoc)
qed simp

lemma dot_word: "dot a b = word_of_int (int_dot a b)"
  using dot_fold [of "zip a b" 0] by (simp add: dot_def int_dot_def)

lemma vnorm_word: "vnorm v = word_of_int (int_dot v v)"
proof -
  have z: "fold (\<lambda>x s. s + scast x * scast x) v (k :: 32 word) = fold (\<lambda>(x, y) s. s + scast x * scast y) (zip v v) k" for k
    by (induction v arbitrary: k) auto
  show ?thesis using dot_fold [of "zip v v" 0] by (simp add: vnorm_def z int_dot_def)
qed

lemma sint_small: "\<bar>k\<bar> < 2147483648 \<Longrightarrow> sint (word_of_int k :: 32 word) = k"
  by (simp add: sint_sbintrunc' signed_take_bit_int_eq_self abs_less_iff)

lemma vec_at_length: "length vecs = n * d \<Longrightarrow> i < n \<Longrightarrow> length (vec_at d vecs i) = d"
proof -
  assume a: "length vecs = n * d" "i < n"
  have "i * d + d \<le> n * d" using a(2) by (metis Suc_leI add.commute mult_Suc mult_le_mono1)
  then show ?thesis using a(1) by (simp add: vec_at_def)
qed

section \<open>The local store keeps the contract\<close>

definition local_entry :: "LocalStore \<Rightarrow> bytes \<Rightarrow> (bytes \<times> Chunk list \<times> 8 word list) option" where
  "local_entry s p = map_option (\<lambda>fv. (fvHash fv, fvChunks fv, fvVecs fv)) (map_of (lsFiles s) p)"

text \<open>The norms a file must have: for each chunk the sum of the squares of its slice of the vectors, as an \<open>int32\<close>.\<close>

definition square_norms :: "nat \<Rightarrow> 8 word list \<Rightarrow> nat \<Rightarrow> 32 word list" where
  "square_norms d v n = map (\<lambda>i. word_of_int (\<Sum>x\<leftarrow>take d (drop (i * d) v). (sint x)\<^sup>2)) [0..<n]"

definition vectors_ok :: "nat \<Rightarrow> fileVectors \<Rightarrow> bool" where
  "vectors_ok dims fv \<longleftrightarrow> fvChunks fv \<noteq> [] \<and> length (fvVecs fv) = length (fvChunks fv) * dims \<and>
     fvNorms fv = square_norms dims (fvVecs fv) (length (fvChunks fv))"

definition local_inv :: "LocalStore \<Rightarrow> bool" where
  "local_inv s \<longleftrightarrow> distinct (map fst (lsFiles s)) \<and> (\<forall>(p, fv) \<in> set (lsFiles s). vectors_ok (lsDims s) fv)"

lemma recomputeNorms_simps [simp]:
  "fvHash (recomputeNorms d fv) = fvHash fv" "fvChunks (recomputeNorms d fv) = fvChunks fv" "fvVecs (recomputeNorms d fv) = fvVecs fv"
  "recomputeNorms d (recomputeNorms d fv) = recomputeNorms d fv"
  by (simp_all add: recomputeNorms_def)

lemma int_dot_self: "int_dot v v = (\<Sum>x\<leftarrow>v. (sint x)\<^sup>2)"
  by (induction v) (simp_all add: int_dot_def power2_eq_square)

lemma recomputed_norms: "fvNorms (recomputeNorms d fv) = square_norms d (fvVecs fv) (length (fvChunks fv))"
  by (simp add: recomputeNorms_def square_norms_def vnorm_word int_dot_self vec_at_def)

lemma recompute_same: "vectors_ok d fv \<Longrightarrow> recomputeNorms d fv = fv"
  using recomputed_norms [of d fv] by (cases fv) (simp add: vectors_ok_def recomputeNorms_def)

lemma local_inv_map_of: "local_inv s \<Longrightarrow> map_of (lsFiles s) p = Some fv \<Longrightarrow> vectors_ok (lsDims s) fv"
  unfolding local_inv_def by (drule map_of_SomeD) blast

lemma update_subset: "set (AList.update k v al) \<subseteq> insert (k, v) (set al)"
  by (induction al) auto

lemma local_inv_update:
  "local_inv s \<Longrightarrow> vectors_ok (lsDims s) fv \<Longrightarrow> local_inv (s\<lparr>lsFiles := AList.update p fv (lsFiles s)\<rparr>)"
proof -
  assume s: "local_inv s" and fv: "vectors_ok (lsDims s) fv"
  have "case x of (q, v) \<Rightarrow> vectors_ok (lsDims s) v" if "x \<in> set (AList.update p fv (lsFiles s))" for x
  proof -
    have "x = (p, fv) \<or> x \<in> set (lsFiles s)" using update_subset [of p fv "lsFiles s"] that by blast
    then show ?thesis using s fv unfolding local_inv_def by blast
  qed
  then show ?thesis using s by (simp add: local_inv_def distinct_update)
qed

lemma local_inv_delete: "local_inv s \<Longrightarrow> local_inv (s\<lparr>lsFiles := AList.delete p (lsFiles s)\<rparr>)"
proof -
  assume s: "local_inv s"
  then have "distinct (map fst (AList.delete p (lsFiles s)))" by (simp add: local_inv_def distinct_delete)
  then show ?thesis using s by (auto simp: local_inv_def AList.delete_eq)
qed

lemma localReplace_entry:
  assumes "local_inv s" "length cs * lsDims s = length ws" "cs \<noteq> []"
  shows "\<exists>t. localReplace p h cs ws s = Some t \<and> local_inv t \<and> local_entry t = (local_entry s)(p \<mapsto> (h, cs, ws)) \<and> lsDims t = lsDims s"
  using assms
  by (auto simp: localReplace_def local_entry_def fun_eq_iff update_conv' vectors_ok_def recomputed_norms intro!: local_inv_update)

lemma localDelete_entry:
  "local_inv s \<Longrightarrow> local_inv (localDelete p s) \<and> local_entry (localDelete p s) = (local_entry s)(p := None) \<and> lsDims (localDelete p s) = lsDims s"
  by (auto simp: localDelete_def local_entry_def fun_eq_iff delete_conv' local_inv_delete)

lemma localPaths_set: "set (localPaths s) = dom (local_entry s)"
  by (auto simp: localPaths_def local_entry_def dom_def map_of_eq_None_iff)

interpretation localstore: vector_store "local_store cosine" local_entry local_inv
proof
  fix s :: LocalStore and cs :: "Chunk list" and ws :: "8 word list" and p h
  show "local_inv s \<Longrightarrow> length cs * vsDims (local_store cosine) s = length ws \<Longrightarrow> cs \<noteq> [] \<Longrightarrow>
      \<exists>t. vsReplace (local_store cosine) p h cs ws s = Some t \<and> local_inv t \<and>
        local_entry t = (local_entry s)(p \<mapsto> (h, cs, ws)) \<and> vsDims (local_store cosine) t = vsDims (local_store cosine) s"
    using localReplace_entry by (simp add: local_store_def)
  show "length cs * vsDims (local_store cosine) s \<noteq> length ws \<Longrightarrow> vsReplace (local_store cosine) p h cs ws s = None"
    by (simp add: local_store_def localReplace_def)
  show "local_inv s \<Longrightarrow> local_inv (vsDelete (local_store cosine) p s) \<and>
      local_entry (vsDelete (local_store cosine) p s) = (local_entry s)(p := None) \<and>
      vsDims (local_store cosine) (vsDelete (local_store cosine) p s) = vsDims (local_store cosine) s"
    using localDelete_entry by (simp add: local_store_def)
  show "local_inv s \<Longrightarrow> vsFileHash (local_store cosine) p s =
      (case local_entry s p of None \<Rightarrow> None | Some (h, cs, ws) \<Rightarrow> if h = [] then None else Some h)"
    by (simp add: local_store_def localFileHash_def local_entry_def split: option.split)
  show "local_inv s \<Longrightarrow> distinct (vsPaths (local_store cosine) s) \<and> set (vsPaths (local_store cosine) s) = dom (local_entry s)"
    by (simp add: local_store_def localPaths_set [symmetric]) (simp add: localPaths_def local_inv_def)
qed

section \<open>Search\<close>

lemma set_sort_desc [simp]: "set (sort_desc f xs) = set xs"
  by (simp add: sort_desc_def)

lemma length_sort_desc [simp]: "length (sort_desc f xs) = length xs"
  by (simp add: sort_desc_def)

lemma sorted_sort_desc: "sorted_wrt (\<lambda>a b. f b \<le> f a) (sort_desc f xs)"
proof -
  have "sorted_wrt (\<lambda>a b. f a \<le> f b) (sort_key f (rev xs))"
    using sorted_sort_key [of f "rev xs"] by (simp add: sorted_map)
  then show ?thesis by (simp add: sort_desc_def sorted_wrt_rev)
qed

lemma top_dominates:
  assumes "sorted_wrt (\<lambda>a b. f b \<le> f a) xs" "x \<in> set (take n xs)" "y \<in> set xs" "y \<notin> set (take n xs)"
  shows "f y \<le> f x"
proof -
  have "y \<in> set (drop n xs)" using assms(3,4) by (metis Un_iff append_take_drop_id set_append)
  then show ?thesis using assms(1,2) by (metis append_take_drop_id sorted_wrt_append)
qed

text \<open>The chunks that can be found, with their scores: every chunk whose vector is not zero.\<close>

definition scored :: "(32 word \<Rightarrow> 32 word \<Rightarrow> 32 word \<Rightarrow> 'r) \<Rightarrow> 8 word list \<Rightarrow> LocalStore \<Rightarrow> 'r Match set" where
  "scored cosine query s =
     {\<lparr>mChunk = cs ! i, mScore = cosine (dot query (vec_at (lsDims s) ws i)) (vnorm query) (vnorm (vec_at (lsDims s) ws i))\<rparr> | p h cs ws i.
        local_entry s p = Some (h, cs, ws) \<and> i < length cs \<and> vnorm (vec_at (lsDims s) ws i) \<noteq> 0}"

lemma fileMatches_set:
  assumes "vectors_ok d fv"
  shows "set (fileMatches cosine d query fv) =
    {\<lparr>mChunk = fvChunks fv ! i, mScore = cosine (dot query (vec_at d (fvVecs fv) i)) (vnorm query) (vnorm (vec_at d (fvVecs fv) i))\<rparr> | i.
       i < length (fvChunks fv) \<and> vnorm (vec_at d (fvVecs fv) i) \<noteq> 0}"
proof -
  have "fvNorms fv = fvNorms (recomputeNorms d fv)" by (simp only: recompute_same [OF assms])
  also have "\<dots> = map (\<lambda>i. vnorm (vec_at d (fvVecs fv) i)) [0..<length (fvChunks fv)]"
    by (simp add: recomputeNorms_def)
  finally have n: "fvNorms fv ! i = vnorm (vec_at d (fvVecs fv) i)" if "i < length (fvChunks fv)" for i
    using that by simp
  have "set (fileMatches cosine d query fv) =
      {the (if fvNorms fv ! i = 0 then None else Some \<lparr>mChunk = fvChunks fv ! i,
         mScore = cosine (dot query (vec_at d (fvVecs fv) i)) (vnorm query) (fvNorms fv ! i)\<rparr>) | i.
       i < length (fvChunks fv) \<and> fvNorms fv ! i \<noteq> 0}"
    unfolding fileMatches_def List.map_filter_def by (auto simp: image_iff)
  also have "\<dots> = {\<lparr>mChunk = fvChunks fv ! i, mScore = cosine (dot query (vec_at d (fvVecs fv) i)) (vnorm query) (vnorm (vec_at d (fvVecs fv) i))\<rparr> | i.
       i < length (fvChunks fv) \<and> vnorm (vec_at d (fvVecs fv) i) \<noteq> 0}"
    by (rule Collect_cong, rule iff_exI) (auto simp: n)
  finally show ?thesis .
qed

definition all_matches :: "(32 word \<Rightarrow> 32 word \<Rightarrow> 32 word \<Rightarrow> 'r) \<Rightarrow> 8 word list \<Rightarrow> LocalStore \<Rightarrow> 'r Match list" where
  "all_matches cosine query s = concat (map (\<lambda>p. case map_of (lsFiles s) p of None \<Rightarrow> []
     | Some fv \<Rightarrow> fileMatches cosine (lsDims s) query fv) (localPaths s))"

lemma all_matches_set:
  assumes "local_inv s"
  shows "set (all_matches cosine query s) = scored cosine query s"
proof -
  have "m \<in> set (all_matches cosine query s) \<longleftrightarrow>
      (\<exists>p fv. map_of (lsFiles s) p = Some fv \<and> m \<in> set (fileMatches cosine (lsDims s) query fv))" for m
  proof -
    have "p \<in> set (localPaths s) \<longleftrightarrow> map_of (lsFiles s) p \<noteq> None" for p
      by (simp add: localPaths_set local_entry_def dom_def)
    then have "m \<in> set (all_matches cosine query s) \<longleftrightarrow> (\<exists>p. map_of (lsFiles s) p \<noteq> None \<and>
        m \<in> set (case map_of (lsFiles s) p of None \<Rightarrow> [] | Some fv \<Rightarrow> fileMatches cosine (lsDims s) query fv))"
      unfolding all_matches_def by auto
    also have "\<dots> \<longleftrightarrow> (\<exists>p fv. map_of (lsFiles s) p = Some fv \<and> m \<in> set (fileMatches cosine (lsDims s) query fv))"
      by (rule iff_exI) (auto split: option.splits)
    finally show ?thesis .
  qed
  moreover have "m \<in> scored cosine query s \<longleftrightarrow>
      (\<exists>p fv. map_of (lsFiles s) p = Some fv \<and> m \<in> set (fileMatches cosine (lsDims s) query fv))" for m
  proof
    assume "m \<in> scored cosine query s"
    then obtain p fv i where f: "map_of (lsFiles s) p = Some fv" and i: "i < length (fvChunks fv)"
      "vnorm (vec_at (lsDims s) (fvVecs fv) i) \<noteq> 0"
      "m = \<lparr>mChunk = fvChunks fv ! i, mScore = cosine (dot query (vec_at (lsDims s) (fvVecs fv) i)) (vnorm query)
         (vnorm (vec_at (lsDims s) (fvVecs fv) i))\<rparr>"
      unfolding scored_def local_entry_def by auto
    then show "\<exists>p fv. map_of (lsFiles s) p = Some fv \<and> m \<in> set (fileMatches cosine (lsDims s) query fv)"
      using fileMatches_set [OF local_inv_map_of [OF assms f], of cosine query] by blast
  next
    assume "\<exists>p fv. map_of (lsFiles s) p = Some fv \<and> m \<in> set (fileMatches cosine (lsDims s) query fv)"
    then obtain p fv where f: "map_of (lsFiles s) p = Some fv" and m: "m \<in> set (fileMatches cosine (lsDims s) query fv)" by blast
    have e: "local_entry s p = Some (fvHash fv, fvChunks fv, fvVecs fv)" using f by (simp add: local_entry_def)
    show "m \<in> scored cosine query s"
      using m unfolding fileMatches_set [OF local_inv_map_of [OF assms f]] scored_def using e by blast
  qed
  ultimately show ?thesis by blast
qed

lemma localSearch_eq:
  "length query = lsDims s \<Longrightarrow> 0 < limit \<Longrightarrow> vnorm query \<noteq> 0 \<Longrightarrow>
     localSearch cosine query limit s = take (nat limit) (sort_desc mScore (all_matches cosine query s))"
  by (simp add: localSearch_def all_matches_def)

section \<open>What the operations promise\<close>

text \<open>\<open>Stats\<close> counts the entries and, over all of them, the chunks.\<close>

lemma localStats_counts:
  assumes "local_inv s"
  shows "localStats s = (card (dom (local_entry s)), \<Sum>p \<in> dom (local_entry s). length (fst (snd (the (local_entry s p)))))"
proof -
  have d: "distinct (map fst (lsFiles s))" using assms by (simp add: local_inv_def)
  have dom: "dom (local_entry s) = fst ` set (lsFiles s)"
    using localPaths_set [of s] by (simp add: localPaths_def)
  have "sum_list (map (\<lambda>(p, fv). length (fvChunks fv)) (lsFiles s)) = (\<Sum>(p, fv)\<in>set (lsFiles s). length (fvChunks fv))"
    using d by (intro sum_list_distinct_conv_sum_set) (simp add: distinct_map)
  also have "\<dots> = (\<Sum>x\<in>set (lsFiles s). length (fst (snd (the (local_entry s (fst x))))))"
  proof (rule sum.cong)
    fix x assume "x \<in> set (lsFiles s)"
    then have "map_of (lsFiles s) (fst x) = Some (snd x)" by (intro map_of_is_SomeI [OF d]) simp
    then show "(case x of (p, fv) \<Rightarrow> length (fvChunks fv)) = length (fst (snd (the (local_entry s (fst x)))))"
      by (cases x) (simp add: local_entry_def)
  qed simp
  also have "\<dots> = (\<Sum>p\<in>fst ` set (lsFiles s). length (fst (snd (the (local_entry s p)))))"
    using d by (subst sum.reindex) (auto simp: distinct_map)
  finally have chunks: "snd (localStats s) = (\<Sum>p \<in> dom (local_entry s). length (fst (snd (the (local_entry s p)))))"
    by (simp add: localStats_def dom)
  have "card (dom (local_entry s)) = length (localPaths s)"
    using assms localPaths_set [of s] distinct_card [of "localPaths s"] by (simp add: localPaths_def local_inv_def)
  then show ?thesis using chunks by (simp add: prod_eq_iff localStats_def localPaths_def)
qed

text \<open>C28. \<open>LocalStore\<close> is a map from paths to the hash, the chunks and the vectors of a file. \<open>Replace\<close> refuses
vectors that do not fit the chunks and otherwise puts the entry (or removes it, for no chunks),
\<open>Delete\<close> removes it, \<open>FileHash\<close>, \<open>Has\<close>, \<open>Paths\<close> and \<open>Stats\<close> read the map: \<open>Paths\<close> its domain in order,
\<open>Stats\<close> the number of entries and the sum of their chunks. Every operation keeps the invariant, and with it
every file has vectors that fit its chunks and, as norms, the sums of the squares of their slices.\<close>

theorem local_store_refines_map:
  assumes "local_inv s"
  shows "(case localReplace pa h cs ws s of
            None \<Rightarrow> length cs * lsDims s \<noteq> length ws
          | Some t \<Rightarrow> length cs * lsDims s = length ws \<and> local_inv t \<and>
              local_entry t = (local_entry s)(pa := (if cs = [] then None else Some (h, cs, ws)))) \<and>
     local_inv (localDelete pa s) \<and> local_entry (localDelete pa s) = (local_entry s)(pa := None) \<and>
     localFileHash pa s = (case local_entry s pa of None \<Rightarrow> None | Some (h', _, _) \<Rightarrow> if h' = [] then None else Some h') \<and>
     localHas pa s = (local_entry s pa \<noteq> None) \<and>
     sorted (localPaths s) \<and> distinct (localPaths s) \<and> set (localPaths s) = dom (local_entry s) \<and>
     localStats s = (card (dom (local_entry s)), \<Sum>p \<in> dom (local_entry s). length (fst (snd (the (local_entry s p))))) \<and>
     (\<forall>fv \<in> snd ` set (lsFiles s). length (fvVecs fv) = length (fvChunks fv) * lsDims s \<and>
        fvNorms fv = map (\<lambda>i. word_of_int (\<Sum>x\<leftarrow>take (lsDims s) (drop (i * lsDims s) (fvVecs fv)). (sint x)\<^sup>2)) [0..<length (fvChunks fv)])"
proof -
  have "case localReplace pa h cs ws s of None \<Rightarrow> length cs * lsDims s \<noteq> length ws
          | Some t \<Rightarrow> length cs * lsDims s = length ws \<and> local_inv t \<and>
              local_entry t = (local_entry s)(pa := (if cs = [] then None else Some (h, cs, ws)))"
  proof (cases "length cs * lsDims s = length ws \<and> cs \<noteq> []")
    case True
    then show ?thesis using localReplace_entry [OF assms, of cs ws pa h] by auto
  next
    case False
    then show ?thesis using localDelete_entry [OF assms, of pa]
      by (auto simp: localReplace_def localDelete_def)
  qed
  moreover have "\<forall>fv \<in> snd ` set (lsFiles s). length (fvVecs fv) = length (fvChunks fv) * lsDims s \<and>
      fvNorms fv = map (\<lambda>i. word_of_int (\<Sum>x\<leftarrow>take (lsDims s) (drop (i * lsDims s) (fvVecs fv)). (sint x)\<^sup>2)) [0..<length (fvChunks fv)]"
    using assms by (auto simp: local_inv_def vectors_ok_def square_norms_def)
  moreover have "localFileHash pa s = (case local_entry s pa of None \<Rightarrow> None | Some (h', _, _) \<Rightarrow> if h' = [] then None else Some h')"
    by (simp add: localFileHash_def local_entry_def split: option.split)
  moreover have "localHas pa s = (local_entry s pa \<noteq> None)" by (simp add: localHas_def local_entry_def)
  moreover have "sorted (localPaths s)" "distinct (localPaths s)" using assms by (simp_all add: localPaths_def local_inv_def)
  ultimately show ?thesis using localDelete_entry [OF assms, of pa] localPaths_set [of s] localStats_counts [OF assms] by blast
qed

definition demo_file :: "8 word list \<Rightarrow> fileVectors" where
  "demo_file v = recomputeNorms 2 \<lparr>fvHash = ''h'', fvChunks = map (\<lambda>i. \<lparr>cPath = ''a'', cStartLine = int i, cEndLine = int i, cContent = ''x'', cHash = ''s''\<rparr>) [0..<length v div 2],
     fvVecs = v, fvNorms = []\<rparr>"

definition demo_index :: LocalStore where
  "demo_index = \<lparr>lsDims = 2, lsModel = ''m'', lsFiles = [(''b'', demo_file [3, 4]), (''a'', demo_file [1, 0, 0, 1])]\<rparr>"


lemma int_dot_Cons: "int_dot (x # a) (y # b) = sint x * sint y + int_dot a b"
  by (simp add: int_dot_def)

lemma int_dot_Nil [simp]: "int_dot [] b = 0" "int_dot a [] = 0"
  by (simp_all add: int_dot_def)

lemma int_dot_nonneg: "0 \<le> int_dot a a"
  by (induction a) (simp_all add: int_dot_Cons)

lemma cauchy_step:
  fixes d x y A B :: int
  assumes "d ^ 2 \<le> A * B" "0 \<le> A" "0 \<le> B"
  shows "(x * y + d) ^ 2 \<le> (x * x + A) * (y * y + B)"
proof -
  have "(2 * (x * y * d)) ^ 2 = 4 * (x * y) ^ 2 * d ^ 2" by (simp add: power2_eq_square algebra_simps)
  also have "\<dots> \<le> 4 * (x * y) ^ 2 * (A * B)" using assms(1) by (intro mult_left_mono) simp_all
  also have "\<dots> \<le> (x * x * B + y * y * A) ^ 2"
  proof -
    have "0 \<le> (x * x * B - y * y * A) ^ 2" by simp
    then show ?thesis by (simp add: power2_eq_square algebra_simps)
  qed
  finally have "2 * (x * y * d) \<le> x * x * B + y * y * A"
    by (rule power2_le_imp_le) (simp add: assms(2,3))
  then show ?thesis using assms(1) by (simp add: power2_eq_square algebra_simps)
qed

lemma int_dot_cauchy: "length a = length b \<Longrightarrow> (int_dot a b) ^ 2 \<le> int_dot a a * int_dot b b"
proof (induction a b rule: list_induct2)
  case (Cons x a y b)
  then show ?case
    unfolding int_dot_Cons by (intro cauchy_step) (simp_all add: int_dot_nonneg)
qed simp

lemma int_dot_limit: "length a \<le> 131071 \<Longrightarrow> \<bar>int_dot a b\<bar> < 2147483648"
  using int_dot_bound [of "zip a b"] by (simp add: int_dot_def)

text \<open>The sums of a search do not overflow: for vectors of at most 131071 dimensions the dot product and the sums
of squares, computed in \<open>int32\<close>, are the exact ones, the sums of squares are not negative, and the
square of the dot product is at most their product, so a cosine lies between -1 and 1. The
bound on the dimensions is exact: with one dimension more the sum of squares can wrap around.\<close>

theorem scores_exact:
  assumes "length a \<le> 131071" "length b = length a"
  shows "sint (dot a b) = int_dot a b \<and> sint (vnorm a) = int_dot a a \<and> 0 \<le> int_dot a a \<and>
    (sint (dot a b)) ^ 2 \<le> sint (vnorm a) * sint (vnorm b) \<and>
    (\<exists>v. length v = 131072 \<and> sint (vnorm v) = - 2147483648)"
proof -
  have "sint (dot a b) = int_dot a b" "sint (vnorm a) = int_dot a a" "sint (vnorm b) = int_dot b b"
    using assms int_dot_limit [of a b] int_dot_limit [of a a] int_dot_limit [of b b]
    by (simp_all add: dot_word vnorm_word sint_small)
  moreover have "\<exists>v. length v = n \<and> int_dot v v = int n * 16384" for n
  proof (intro exI conjI)
    show "int_dot (replicate n (- 128)) (replicate n (- 128)) = int n * 16384"
      by (induction n) (simp_all add: int_dot_Cons algebra_simps)
  qed simp
  then have "\<exists>v. length v = 131072 \<and> int_dot v v = int 131072 * 16384" by blast
  then obtain v where "length v = 131072" "int_dot v v = 2147483648" by auto
  then have "\<exists>v. length v = 131072 \<and> sint (vnorm v) = - 2147483648" by (intro exI [of _ v]) (simp add: vnorm_word)
  ultimately show ?thesis using int_dot_cauchy [of a b] int_dot_nonneg [of a] assms(2) by simp
qed

theorem scores_exact_witness: "sint (dot [3, - 4] [1, - 2]) = 11 \<and> sint (vnorm [3, - 4]) = 25"
  using scores_exact [of "[3, - 4]" "[1, - 2]"] by (simp add: int_dot_def)


lemma length_all_matches:
  assumes "local_inv s"
  shows "length (all_matches cosine query s) =
     length (filter (\<lambda>v. vnorm v \<noteq> 0) (concat (map (\<lambda>p. case local_entry s p of None \<Rightarrow> []
       | Some (h, cs, ws) \<Rightarrow> map (vec_at (lsDims s) ws) [0..<length cs]) (localPaths s))))"
proof -
  have one: "length (fileMatches cosine d query fv) = length (filter (\<lambda>v. vnorm v \<noteq> 0) (map (vec_at d (fvVecs fv)) [0..<length (fvChunks fv)]))"
    if "vectors_ok d fv" for d fv
  proof -
    have "fvNorms fv ! i = vnorm (vec_at d (fvVecs fv) i)" if "i \<in> set [0..<length (fvChunks fv)]" for i
    proof -
      have "fvNorms fv = fvNorms (recomputeNorms d fv)" by (simp only: recompute_same [OF \<open>vectors_ok d fv\<close>])
      then show ?thesis using that by (simp add: recomputeNorms_def)
    qed
    then have "length (List.map_filter (\<lambda>i. if fvNorms fv ! i = 0 then None else Some (g i)) xs) = length (filter (\<lambda>i. vnorm (vec_at d (fvVecs fv) i) \<noteq> 0) xs)"
      if "set xs \<subseteq> set [0..<length (fvChunks fv)]" for xs and g :: "nat \<Rightarrow> 'a Match"
      using that by (induction xs) (auto simp: map_filter_simps)
    then show ?thesis by (simp add: fileMatches_def filter_map o_def)
  qed
  have "length (concat (map (\<lambda>p. case map_of (lsFiles s) p of None \<Rightarrow> [] | Some fv \<Rightarrow> fileMatches cosine (lsDims s) query fv) ps)) =
      length (filter (\<lambda>v. vnorm v \<noteq> 0) (concat (map (\<lambda>p. case local_entry s p of None \<Rightarrow> []
       | Some (h, cs, ws) \<Rightarrow> map (vec_at (lsDims s) ws) [0..<length cs]) ps)))" for ps
    by (induction ps) (auto simp: local_entry_def one local_inv_map_of [OF assms] split: option.split)
  then show ?thesis by (simp add: all_matches_def)
qed

text \<open>Search returns exactly the best matches: at most \<open>limit\<close> of them, sorted by falling score, each the score of a stored
chunk whose vector is not zero; as many as the limit allows; and no stored chunk left out scores
higher than one that was returned. A query of the wrong dimension, a zero query or a limit that is
not positive finds nothing.\<close>

theorem localSearch_top_k:
  assumes "local_inv s"
  shows "let r = localSearch cosine query limit s in
     sorted_wrt (\<lambda>a b. mScore b \<le> mScore a) r \<and> set r \<subseteq> scored cosine query s \<and>
     (if length query = lsDims s \<and> 0 < limit \<and> vnorm query \<noteq> 0
      then length r = min (nat limit) (length (filter (\<lambda>v. vnorm v \<noteq> 0) (concat (map (\<lambda>p. case local_entry s p of None \<Rightarrow> []
             | Some (h, cs, ws) \<Rightarrow> map (vec_at (lsDims s) ws) [0..<length cs]) (localPaths s))))) \<and>
           (\<forall>m \<in> scored cosine query s. m \<in> set r \<or> (\<forall>a \<in> set r. mScore m \<le> mScore a))
      else r = [])"
proof (cases "length query = lsDims s \<and> 0 < limit \<and> vnorm query \<noteq> 0")
  case True
  have e: "localSearch cosine query limit s = take (nat limit) (sort_desc mScore (all_matches cosine query s))"
    using True by (simp add: localSearch_eq)
  have d: "sorted_wrt (\<lambda>a b. mScore b \<le> mScore a) (sort_desc mScore (all_matches cosine query s))" by (rule sorted_sort_desc)
  have a: "set (sort_desc mScore (all_matches cosine query s)) = scored cosine query s"
    by (simp add: all_matches_set [OF assms])
  have "set (take (nat limit) (sort_desc mScore (all_matches cosine query s))) \<subseteq> scored cosine query s"
    using a set_take_subset by metis
  then show ?thesis
    using True d a top_dominates [OF d] by (auto simp: e Let_def sorted_wrt_take length_all_matches [OF assms] min.commute)
next
  case False
  then show ?thesis by (auto simp: localSearch_def)
qed

theorem localSearch_top_k_witness:
  "map (\<lambda>m. cStartLine (mChunk m)) (localSearch (\<lambda>d _ _. sint d) [1, 2] 1 demo_index) = [0] \<and>
   length (localSearch (\<lambda>d _ _. sint d) [1, 2] 2 demo_index) = 2"
proof -
  have "local_inv demo_index" by code_simp
  from localSearch_top_k [OF this, of "\<lambda>d _ _. sint d" "[1, 2]" 2]
  have "length (localSearch (\<lambda>d _ _. sint d) [1, 2] 2 demo_index) \<le> 2" by (auto simp: Let_def split: if_splits)
  then show ?thesis by code_simp
qed

theorem local_store_refines_map_witness:
  "local_entry (localDelete ''a'' demo_index) ''a'' = None \<and> localPaths demo_index = [''a'', ''b''] \<and>
   localStats demo_index = (2, 3) \<and> fvNorms (demo_file [3, 4]) = [25]"
proof -
  have i: "local_inv demo_index" by code_simp
  from local_store_refines_map [OF i, where pa = "''a''"]
  have r: "local_entry (localDelete ''a'' demo_index) = (local_entry demo_index)(''a'' := None)"
    "fvNorms (demo_file [3, 4]) = map (\<lambda>j. word_of_int (\<Sum>x\<leftarrow>take (lsDims demo_index) (drop (j * lsDims demo_index) (fvVecs (demo_file [3, 4]))).
       (sint x)\<^sup>2)) [0..<length (fvChunks (demo_file [3, 4]))]"
    by (blast, simp add: demo_index_def)
  have "map (\<lambda>j. word_of_int (\<Sum>x\<leftarrow>take (lsDims demo_index) (drop (j * lsDims demo_index) (fvVecs (demo_file [3, 4]))).
       (sint x)\<^sup>2)) [0..<length (fvChunks (demo_file [3, 4]))] = [25 :: 32 word]" by code_simp
  moreover have "localPaths demo_index = [''a'', ''b'']" "localStats demo_index = (2, 3)" by code_simp+
  ultimately show ?thesis using r by simp
qed

section \<open>Saving and opening\<close>

lemma unat_byte [simp]: "unat (x :: 8 word) mod 256 = unat x"
proof -
  have "unat x < 2 ^ LENGTH(8)" by (rule unsigned_less)
  then show ?thesis by simp
qed

lemma bytesToInt8_int8ToBytes [simp]: "bytesToInt8 (int8ToBytes v) = v"
  by (simp add: bytesToInt8_def int8ToBytes_def o_def)

lemma int8ToBytes_bytesToInt8 [simp]: "int8ToBytes (bytesToInt8 b) = b"
  by (simp add: bytesToInt8_def int8ToBytes_def o_def unat_of_nat)

lemma length_int8ToBytes [simp]: "length (int8ToBytes v) = length v" "length (bytesToInt8 b) = length b"
  by (simp_all add: int8ToBytes_def bytesToInt8_def)

lemma update_fresh: "k \<notin> fst ` set al \<Longrightarrow> AList.update k v al = al @ [(k, v)]"
  by (induction al) auto

text \<open>What \<open>load\<close> cuts out of the blob.\<close>

definition width :: "indexManifest \<Rightarrow> nat \<Rightarrow> bytes \<Rightarrow> nat" where
  "width man d p = length (zeroed (imFiles man) p) * d"

fun carve :: "indexManifest \<Rightarrow> nat \<Rightarrow> bytes list \<Rightarrow> bytes \<Rightarrow> (bytes \<times> fileVectors) list" where
  "carve man d [] raw = []"
| "carve man d (p # ps) raw =
     (p, recomputeNorms d \<lparr>fvHash = zeroed (imHashes man) p, fvChunks = zeroed (imFiles man) p,
         fvVecs = bytesToInt8 (take (width man d p) raw), fvNorms = []\<rparr>) # carve man d ps (drop (width man d p) raw)"

lemma fst_carve [simp]: "map fst (carve man d ps raw) = ps"
  by (induction ps arbitrary: raw) auto

lemma loadLoop_carve:
  assumes "distinct ps" "set ps \<inter> fst ` set (lsFiles s) = {}" "off + sum_list (map (width man (lsDims s)) ps) \<le> length raw"
  shows "loadLoop man ps raw off s = Some (s\<lparr>lsFiles := lsFiles s @ carve man (lsDims s) ps (drop off raw)\<rparr>)"
  using assms
proof (induction ps arbitrary: off s)
  case (Cons p ps)
  have f: "p \<notin> fst ` set (lsFiles s)" using Cons.prems(2) by auto
  show ?case
    using Cons.prems Cons.IH [of "s\<lparr>lsFiles := lsFiles s @ [(p, recomputeNorms (lsDims s) \<lparr>fvHash = zeroed (imHashes man) p,
        fvChunks = zeroed (imFiles man) p, fvVecs = bytesToInt8 (take (width man (lsDims s) p) (drop off raw)), fvNorms = []\<rparr>)]\<rparr>"
        "off + width man (lsDims s) p"]
    by (auto simp: Let_def width_def [symmetric] update_fresh [OF f] add.assoc add.commute)
qed simp

lemma loadLoop_short:
  "length raw < off + sum_list (map (width man (lsDims s)) ps) \<Longrightarrow> off \<le> length raw \<Longrightarrow> loadLoop man ps raw off s = None"
proof (induction ps arbitrary: off s)
  case (Cons p ps)
  then show ?case by (auto simp: Let_def width_def [symmetric] add.assoc)
qed simp

lemma zeroed_map: "zeroed (map (\<lambda>p. (p, f p)) ps) p = (if p \<in> set ps then f p else [])"
  by (simp add: zeroed_def map_of_map_restrict restrict_map_def)

lemma width_saved:
  assumes "local_inv s" "p \<in> set (localPaths s)"
  shows "width (saveManifest s) (lsDims s) p = length (case map_of (lsFiles s) p of None \<Rightarrow> [] | Some fv \<Rightarrow> int8ToBytes (fvVecs fv))"
  using assms local_inv_map_of [OF assms(1), of p]
  by (auto simp: width_def saveManifest_def zeroed_map vectors_ok_def split: option.split)

lemma total_width:
  assumes "local_inv s"
  shows "sum_list (map (width (saveManifest s) (lsDims s)) (localPaths s)) = length (saveBlob s)"
  by (simp add: saveBlob_def length_concat o_def width_saved [OF assms] cong: map_cong)

text \<open>Opening a directory with the manifest of one store and any vectors.\<close>

lemma open_saved:
  assumes "local_inv s" "jDec j = Some (saveManifest s)" "dkVectors d = Some raw" "dkIndex d = Some j"
  shows "OpenLocalStore jDec (lsModel s) (lsDims s) d =
    (if length (saveBlob s) \<le> length raw
     then s\<lparr>lsFiles := carve (saveManifest s) (lsDims s) (localPaths s) raw\<rparr>
     else s\<lparr>lsFiles := []\<rparr>)"
proof -
  let ?e = "s\<lparr>lsFiles := []\<rparr>"
  have e: "\<lparr>lsDims = lsDims s, lsModel = lsModel s, lsFiles = []\<rparr> = ?e" by simp
  have "distinct (localPaths s)" using assms(1) by (simp add: localPaths_def local_inv_def)
  moreover have o: "imOrder (saveManifest s) = localPaths s" "imDims (saveManifest s) = lsDims s" "imModel (saveManifest s) = lsModel s"
    by (simp_all add: saveManifest_def)
  ultimately have "load (saveManifest s) raw ?e = (if length (saveBlob s) \<le> length raw
     then Some (?e\<lparr>lsFiles := carve (saveManifest s) (lsDims s) (localPaths s) raw\<rparr>) else None)"
    using loadLoop_carve [of "localPaths s" ?e 0 "saveManifest s" raw] loadLoop_short [of raw 0 "saveManifest s" ?e "localPaths s"]
    by (simp add: load_def total_width [OF assms(1)])
  then show ?thesis unfolding OpenLocalStore_def Let_def e by (simp add: assms(2-4) o)
qed

lemma concat_carve:
  "sum_list (map (width man d) ps) \<le> length raw \<Longrightarrow>
     concat (map (\<lambda>(p, fv). int8ToBytes (fvVecs fv)) (carve man d ps raw)) = take (sum_list (map (width man d) ps)) raw"
proof (induction ps arbitrary: raw)
  case (Cons p ps)
  have "take (width man d p) raw @ take (sum_list (map (width man d) ps)) (drop (width man d p) raw) =
      take (width man d p + sum_list (map (width man d) ps)) raw"
    by (simp add: take_add)
  with Cons show ?case by simp
qed simp

lemma map_of_carve:
  "distinct ps \<Longrightarrow> map_option (\<lambda>fv. (fvHash fv, fvChunks fv)) (map_of (carve man d ps raw) p) =
     (if p \<in> set ps then Some (zeroed (imHashes man) p, zeroed (imFiles man) p) else None)"
  by (induction ps arbitrary: raw) auto

lemma carve_own:
  assumes "local_inv s" "set ps \<subseteq> set (localPaths s)"
  shows "carve (saveManifest s) (lsDims s) ps
      (concat (map (\<lambda>p. case map_of (lsFiles s) p of None \<Rightarrow> [] | Some fv \<Rightarrow> int8ToBytes (fvVecs fv)) ps)) =
    map (\<lambda>p. (p, the (map_of (lsFiles s) p))) ps"
  using assms(2)
proof (induction ps)
  case (Cons p ps)
  then have p: "p \<in> set (localPaths s)" by simp
  then obtain fv where fv: "map_of (lsFiles s) p = Some fv" by (auto simp: localPaths_set local_entry_def dom_def)
  have v: "vectors_ok (lsDims s) fv" by (rule local_inv_map_of [OF assms(1) fv])
  have w: "width (saveManifest s) (lsDims s) p = length (fvVecs fv)" using width_saved [OF assms(1) p] by (simp add: fv)
  have "recomputeNorms (lsDims s) \<lparr>fvHash = fvHash fv, fvChunks = fvChunks fv, fvVecs = fvVecs fv, fvNorms = []\<rparr> = recomputeNorms (lsDims s) fv"
    by (simp add: recomputeNorms_def)
  then have "recomputeNorms (lsDims s) \<lparr>fvHash = fvHash fv, fvChunks = fvChunks fv, fvVecs = fvVecs fv, fvNorms = []\<rparr> = fv"
    using recompute_same [OF v] by simp
  then show ?case using Cons p by (simp add: w fv) (simp add: saveManifest_def zeroed_map fv)
qed simp

lemma map_of_own: "map_of (map (\<lambda>p. (p, the (map_of (lsFiles s) p))) (localPaths s)) = map_of (lsFiles s)"
proof (rule ext)
  fix p
  have "p \<in> set (localPaths s) \<longleftrightarrow> map_of (lsFiles s) p \<noteq> None" by (simp add: localPaths_set local_entry_def dom_def)
  then show "map_of (map (\<lambda>p. (p, the (map_of (lsFiles s) p))) (localPaths s)) p = map_of (lsFiles s) p"
    by (auto simp: map_of_map_restrict restrict_map_def)
qed

lemma lookup_each:
  "distinct (map fst al) \<Longrightarrow> map (\<lambda>p. case map_of al p of None \<Rightarrow> [] | Some fv \<Rightarrow> g fv) (map fst al) = map (\<lambda>(p, fv). g fv) al"
  by (auto intro!: map_cong split: prod.split simp: map_of_is_SomeI)

text \<open>Saving and opening with the same model and dimensions gives the same store, when the manifest reads back as it was.\<close>

lemma save_open_same:
  assumes "local_inv s" "jDec (jEnc (saveManifest s)) = Some (saveManifest s)"
  shows "let t = OpenLocalStore jDec (lsModel s) (lsDims s) (Save jEnc s d)
    in local_inv t \<and> local_entry t = local_entry s \<and> localPaths t = localPaths s \<and>
       localSearch cosine query limit t = localSearch cosine query limit s"
proof -
  let ?t = "s\<lparr>lsFiles := map (\<lambda>p. (p, the (map_of (lsFiles s) p))) (localPaths s)\<rparr>"
  have "OpenLocalStore jDec (lsModel s) (lsDims s) (Save jEnc s d) = ?t"
    using open_saved [OF assms(1), where jDec = jDec and j = "jEnc (saveManifest s)", OF assms(2), of "Save jEnc s d" "saveBlob s"] carve_own [OF assms(1) order_refl]
    by (simp add: Save_def save_states_def saveBlob_def)
  moreover have p: "localPaths ?t = localPaths s" by (simp add: localPaths_def o_def sorted_sort_id)
  moreover have e: "local_entry ?t = local_entry s" by (simp add: local_entry_def fun_eq_iff map_of_own)
  moreover have "local_inv ?t"
  proof -
    have "vectors_ok (lsDims s) (the (map_of (lsFiles s) p))" if "p \<in> set (localPaths s)" for p
      using that local_inv_map_of [OF assms(1), of p] by (auto simp: localPaths_set local_entry_def dom_def)
    moreover have "distinct (localPaths s)" using assms(1) by (simp add: localPaths_def local_inv_def)
    ultimately show ?thesis by (auto simp: local_inv_def o_def)
  qed
  moreover have "localSearch cosine query limit ?t = localSearch cosine query limit s"
  proof -
    have d: "lsDims ?t = lsDims s" by simp
    have m: "map_of (lsFiles ?t) = map_of (lsFiles s)" by (simp add: map_of_own)
    show ?thesis unfolding localSearch_def p d m by (rule refl)
  qed
  ultimately show ?thesis by (simp add: Let_def)
qed

text \<open>A crash between the two writes of \<open>Save\<close> leaves the new vectors under the old manifest. \<open>OpenLocalStore\<close> notices
it only when the new blob is shorter. Otherwise it serves the paths, hashes and chunks of the old
store with the bytes of the new one as their vectors, and as the hashes say the files are
indexed, nothing embeds them again.\<close>

theorem torn_save_detected_only_when_shorter:
  assumes "local_inv s" "lsDims s' = lsDims s" "jDec (jEnc (saveManifest s)) = Some (saveManifest s)"
  shows "let torn = save_states jEnc s' (Save jEnc s d) ! 1; t = OpenLocalStore jDec (lsModel s) (lsDims s) torn
    in if length (saveBlob s') < length (saveBlob s) then lsFiles t = []
       else localPaths t = localPaths s \<and>
            (\<forall>p. map_option (\<lambda>(h, cs, ws). (h, cs)) (local_entry t p) = map_option (\<lambda>(h, cs, ws). (h, cs)) (local_entry s p)) \<and>
            (\<forall>p. localFileHash p t = localFileHash p s) \<and>
            saveBlob t = take (length (saveBlob s)) (saveBlob s')"
proof -
  let ?raw = "saveBlob s'" and ?man = "saveManifest s"
  let ?t = "OpenLocalStore jDec (lsModel s) (lsDims s) (save_states jEnc s' (Save jEnc s d) ! 1)"
  have o: "?t = (if length (saveBlob s) \<le> length ?raw
     then s\<lparr>lsFiles := carve ?man (lsDims s) (localPaths s) ?raw\<rparr> else s\<lparr>lsFiles := []\<rparr>)"
    using open_saved [OF assms(1), where jDec = jDec and j = "jEnc ?man", OF assms(3), of "save_states jEnc s' (Save jEnc s d) ! 1" ?raw] by (simp add: Save_def save_states_def)
  show ?thesis
  proof (cases "length (saveBlob s) \<le> length ?raw")
    case True
    have t: "lsFiles ?t = carve ?man (lsDims s) (localPaths s) ?raw" using o True by simp
    have d: "distinct (localPaths s)" using assms(1) by (simp add: localPaths_def local_inv_def)
    have m: "map_option (\<lambda>fv. (fvHash fv, fvChunks fv)) (map_of (lsFiles ?t) p) = map_option (\<lambda>fv. (fvHash fv, fvChunks fv)) (map_of (lsFiles s) p)" for p
    proof -
      have "p \<in> set (localPaths s) \<longleftrightarrow> map_of (lsFiles s) p \<noteq> None" by (simp add: localPaths_set local_entry_def dom_def)
      then show ?thesis unfolding t map_of_carve [OF d] by (auto simp: saveManifest_def zeroed_map)
    qed
    have pp: "localPaths ?t = localPaths s"
      unfolding localPaths_def [of ?t] t fst_carve by (simp add: localPaths_def sorted_sort_id)
    have e: "map_option (\<lambda>(h, cs, ws). (h, cs)) (local_entry ?t p) = map_option (\<lambda>(h, cs, ws). (h, cs)) (local_entry s p)" for p
      using m [of p] by (auto simp: local_entry_def option.map_comp o_def)
    have h: "localFileHash p ?t = localFileHash p s" for p
      using m [of p] unfolding localFileHash_def
      by (cases "map_of (lsFiles s) p"; cases "map_of (lsFiles ?t) p") simp_all
    have b: "saveBlob ?t = take (length (saveBlob s)) ?raw"
    proof -
      have "saveBlob ?t = concat (map (\<lambda>(p, fv). int8ToBytes (fvVecs fv)) (carve ?man (lsDims s) (localPaths s) ?raw))"
        using lookup_each [of "carve ?man (lsDims s) (localPaths s) ?raw" "\<lambda>fv. int8ToBytes (fvVecs fv)"] d
        unfolding saveBlob_def [of ?t] pp t fst_carve by simp
      then show ?thesis using True concat_carve [of ?man "lsDims s" "localPaths s" ?raw] by (simp add: total_width [OF assms(1)])
    qed
    show ?thesis using True pp e h b by (auto simp: Let_def)
  next
    case False
    then show ?thesis using o by (simp add: Let_def)
  qed
qed

definition demo_edited :: LocalStore where
  "demo_edited = \<lparr>lsDims = 2, lsModel = ''m'', lsFiles = [(''c'', demo_file [9, 9, 9, 9, 9, 9])]\<rparr>"

theorem torn_save_detected_only_when_shorter_witness:
  "let torn = save_states (\<lambda>_. []) demo_edited (Save (\<lambda>_. []) demo_index \<lparr>dkVectors = None, dkIndex = None\<rparr>) ! 1;
       t = OpenLocalStore (\<lambda>_. Some (saveManifest demo_index)) ''m'' 2 torn
   in localPaths t = [''a'', ''b''] \<and> localFileHash ''a'' t = Some ''h'' \<and> saveBlob t = replicate 6 (CHR 0x09)"
proof -
  have i: "local_inv demo_index" by code_simp
  have e: "lsModel demo_index = ''m''" "lsDims demo_index = 2" "lsDims demo_edited = 2" "localPaths demo_index = [''a'', ''b'']"
    "localFileHash ''a'' demo_index = Some ''h''" "saveBlob demo_edited = replicate 6 (CHR 0x09)" "length (saveBlob demo_index) = 6"
    by code_simp+
  show ?thesis
    using torn_save_detected_only_when_shorter [OF i, where s' = demo_edited and jDec = "\<lambda>_. Some (saveManifest demo_index)" and jEnc = "\<lambda>_. []" and d = "\<lparr>dkVectors = None, dkIndex = None\<rparr>"]
    by (simp add: e Let_def)
qed

end
