(* ===== verification/IndexSync.thy ===== *)
theory IndexSync
  imports IndexStore Structural
begin

text \<open>
  \<open>internal/codesearch/sources.go\<close>, \<open>state.go\<close>, \<open>status.go\<close>, \<open>recipe.go\<close> and \<open>index.go\<close>: the
  incremental index of a workspace. \<open>collect\<close> lists the files worth indexing, \<open>processFiles\<close> lets
  eight workers run \<open>syncFile\<close> on them, and \<open>Sync\<close> puts it together and removes what is gone.

  The vector store is any record of the interface \<open>VectorStore\<close>. What the code gets from
  outside is the record \<open>SyncEnv\<close>: the directory tree, the contents of files, the answers of
  the embedder, the outcome of saving, SHA-256, the Go parser and the matcher compiled from
  \<open>.gitignore\<close>. The order in which the workers finish, and which results still reach the
  collector after a cancellation, is an argument of \<open>processFiles\<close> (\<open>runs\<close>); the calls of
  \<open>onProgress\<close> are recorded in \<open>ixReported\<close>.

  Inside the locale \<open>vector_store\<close> the lemmas show that \<open>syncFile\<close> changes the entry of its own
  file only, as \<open>newEntry\<close> says; so the result of a scan does not depend on the order of the
  workers. The properties instantiate them with \<open>LocalStore\<close>.
\<close>

section \<open>Which files are indexed\<close>

definition maxIndexableFileSize :: int where "maxIndexableFileSize = 1048576"

definition indexableExtensions :: "bytes list" where
  "indexableExtensions =
     [''.c'', ''.cpp'', ''.cs'', ''.css'', ''.ejs'', ''.el'', ''.elm'', ''.erb'', ''.ex'', ''.exs'',
      ''.go'', ''.h'', ''.hpp'', ''.htm'', ''.html'', ''.java'', ''.js'', ''.json'', ''.jsx'', ''.kt'',
      ''.kts'', ''.lua'', ''.markdown'', ''.md'', ''.ml'', ''.mli'', ''.php'', ''.py'', ''.rb'', ''.rdl'',
      ''.rs'', ''.scala'', ''.sol'', ''.swift'', ''.tla'', ''.toml'', ''.ts'', ''.tsx'', ''.vb'', ''.vue'',
      ''.zig'']"

definition skipDirs :: "bytes list" where
  "skipDirs =
     [''Pods'', ''__pycache__'', ''build'', ''bundle'', ''deps'', ''dist'', ''env'', ''node_modules'',
      ''out'', ''pkg'', ''target'', ''temp'', ''tmp'', ''vendor'', ''venv'']"

definition generatedSuffixes :: "bytes list" where
  "generatedSuffixes =
     [''.min.js'', ''.min.css'', ''.map'', ''-lock.json'', ''.lock'',
      ''.generated.ts'', ''.generated.js'', ''.generated.go'', ''_generated.go'', ''.gen.go'', ''.pb.go'']"

definition generatedNames :: "bytes list" where
  "generatedNames =
     [''package-lock.json'', ''yarn.lock'', ''pnpm-lock.yaml'', ''composer.lock'', ''go.sum'', ''cargo.lock'', ''poetry.lock'']"

text \<open>\<open>filepath.Base\<close> of a relative path in slash form that does not end in a slash.\<close>

definition Base_name :: "bytes \<Rightarrow> bytes" where
  "Base_name p = last (split_byte (CHR ''/'') p)"

definition isGenerated :: "bytes \<Rightarrow> bool" where
  "isGenerated p =
     (let name = ToLower (Base_name p)
      in name \<in> set generatedNames \<or> list_ex (\<lambda>suffix. HasSuffix name suffix) generatedSuffixes)"

definition Indexable :: "bytes \<Rightarrow> int \<Rightarrow> bool" where
  "Indexable p sz =
     (if sz \<le> 0 \<or> sz > maxIndexableFileSize then False
      else if ToLower (Ext p) \<notin> set indexableExtensions then False
      else \<not> isGenerated p)"

definition generatedLineAverage :: nat where "generatedLineAverage = 400"

definition IndexableContent :: "bytes \<Rightarrow> bool" where
  "IndexableContent content =
     (let n = count_byte content LF + 1
      in if length content div n > generatedLineAverage then False
         else list_all (\<lambda>line. length line \<le> maxChunkChars) (split_byte LF content))"

text \<open>\<open>matcher\<close>: the compiled \<open>.gitignore\<close> of the root, if there is one.\<close>

type_synonym matcher = "(bytes \<Rightarrow> bool) option"

definition newMatcher :: "(bytes list \<Rightarrow> bytes \<Rightarrow> bool) \<Rightarrow> (bytes \<Rightarrow> bytes option) \<Rightarrow> matcher" where
  "newMatcher compile read =
     (case read ''.gitignore'' of None \<Rightarrow> None | Some data \<Rightarrow> Some (compile (split_byte LF data)))"

definition hidden :: "bytes \<Rightarrow> bool" where
  "hidden name = (length name > 1 \<and> hd name = CHR ''.'')"

definition skipDir :: "matcher \<Rightarrow> bytes \<Rightarrow> bytes \<Rightarrow> bool" where
  "skipDir m rel name =
     (hidden name \<or> name \<in> set skipDirs \<or> (case m of None \<Rightarrow> False | Some gi \<Rightarrow> gi (rel @ ''/'')))"

definition skipFile :: "matcher \<Rightarrow> bytes \<Rightarrow> bytes \<Rightarrow> bool" where
  "skipFile m rel name = (hidden name \<or> (case m of None \<Rightarrow> False | Some gi \<Rightarrow> gi rel))"

section \<open>The state file\<close>

text \<open>\<open>State.files\<close>, a map from paths to hashes.\<close>

type_synonym State = "(bytes \<times> bytes) list"

definition stateHash :: "State \<Rightarrow> bytes \<Rightarrow> bytes option" where
  "stateHash st p = map_of st p"

definition Unchanged :: "State \<Rightarrow> bytes \<Rightarrow> bytes \<Rightarrow> bool" where
  "Unchanged st p hash = (map_of st p = Some hash)"

definition stateSet :: "bytes \<Rightarrow> bytes \<Rightarrow> State \<Rightarrow> State" where
  "stateSet p hash st = AList.update p hash st"

definition stateDelete :: "bytes \<Rightarrow> State \<Rightarrow> State" where
  "stateDelete p st = AList.delete p st"

definition statePaths :: "State \<Rightarrow> bytes list" where
  "statePaths st = sort (map fst st)"

definition stateLen :: "State \<Rightarrow> nat" where
  "stateLen st = length st"

definition stateClear :: "State \<Rightarrow> State" where
  "stateClear st = []"

text \<open>An absent or unreadable file, or one that is not JSON, is an empty state.\<close>

definition LoadState :: "(bytes \<Rightarrow> State option) \<Rightarrow> bytes option \<Rightarrow> State" where
  "LoadState jDec data = (case data of None \<Rightarrow> [] | Some b \<Rightarrow> (case jDec b of None \<Rightarrow> [] | Some st \<Rightarrow> st))"

section \<open>Recipe and status\<close>

definition chunkerVersion :: int where "chunkerVersion = 2"

definition IndexRecipe :: "bytes \<Rightarrow> int \<Rightarrow> bytes" where
  "IndexRecipe model dims = ''chunker='' @ show_int chunkerVersion @ ''/model='' @ model @ ''/dims='' @ show_int dims"

definition FileHash :: "(bytes \<Rightarrow> bytes) \<Rightarrow> bytes \<Rightarrow> bytes \<Rightarrow> bytes" where
  "FileHash sha recipe content = sha (recipe @ [CHR 0x00] @ content)"

text \<open>\<open>PhaseZero\<close> is the empty string of the zero value.\<close>

datatype IndexPhase = PhaseZero | PhaseIdle | PhaseScanning | PhaseIndexing | PhaseReady | PhaseFailed | PhaseQuota

datatype SyncErr = ErrQuotaExhausted | ErrCanceled | ErrOther

record Status =
  stPhase :: IndexPhase
  stDone :: nat
  stTotal :: nat
  stChunks :: nat
  stEmbedded :: nat
  stFirst :: bool
  stErr :: "SyncErr option"

definition snapshot :: "Status \<Rightarrow> Status" where
  "snapshot st = (if stPhase st = PhaseZero then st\<lparr>stPhase := PhaseIdle\<rparr> else st)"

section \<open>The index\<close>

record Progress =
  pgFile :: bytes
  pgDone :: nat
  pgTotal :: nat
  pgEmbedded :: nat
  pgUnchanged :: nat

record Stats =
  sScanned :: nat
  sEmbedded :: nat
  sUnchanged :: nat
  sRemoved :: nat
  sChunks :: nat

definition no_stats :: Stats where
  "no_stats = \<lparr>sScanned = 0, sEmbedded = 0, sUnchanged = 0, sRemoved = 0, sChunks = 0\<rparr>"

text \<open>A directory entry: a directory with what it holds, or a file with the size \<open>Info\<close> reports.\<close>

datatype TreeNode = Dir bytes "TreeNode list" | File bytes "int option"

record SyncEnv =
  seTree :: "TreeNode list"
  seRead :: "bytes \<Rightarrow> bytes option"
  seCompileIgnore :: "bytes list \<Rightarrow> bytes \<Rightarrow> bool"
  seSha :: "bytes \<Rightarrow> bytes"
  seParseGo :: "bytes \<Rightarrow> bytes \<Rightarrow> GoDecl list option"
  seEmbed :: "bytes \<Rightarrow> bytes list \<Rightarrow> SyncErr + 8 word list list"
  seStoreSave :: "SyncErr option"
  seStateSave :: "SyncErr option"
  seWalkErr :: "SyncErr option"
  seCtxErr :: "SyncErr option"

record 's Index =
  ixStore :: 's
  ixState :: State
  ixStatus :: Status
  ixRecipe :: bytes
  ixReported :: "Progress list"

definition NewIndex :: "'s \<Rightarrow> State \<Rightarrow> bytes \<Rightarrow> int \<Rightarrow> 's Index" where
  "NewIndex store state model dims =
     \<lparr>ixStore = store, ixState = state,
      ixStatus = \<lparr>stPhase = PhaseZero, stDone = 0, stTotal = 0, stChunks = 0, stEmbedded = 0, stFirst = False, stErr = None\<rparr>,
      ixRecipe = IndexRecipe model dims, ixReported = []\<rparr>"

fun walkNode :: "matcher \<Rightarrow> bytes \<Rightarrow> TreeNode \<Rightarrow> bytes list" where
  "walkNode m dir (File name sz) =
     (let rel = dir @ name
      in if skipFile m rel name then []
         else (case sz of None \<Rightarrow> [] | Some n \<Rightarrow> if Indexable rel n then [rel] else []))"
| "walkNode m dir (Dir name nodes) =
     (let rel = dir @ name
      in if skipDir m rel name then [] else concat (map (walkNode m (rel @ ''/'')) nodes))"

definition collect :: "SyncEnv \<Rightarrow> SyncErr + bytes list" where
  "collect env =
     (case seWalkErr env of
        Some e \<Rightarrow> Inl e
      | None \<Rightarrow> Inr (concat (map (walkNode (newMatcher (seCompileIgnore env) (seRead env)) []) (seTree env))))"

text \<open>\<open>ChunkFile\<close> never panics, so its result is always there.\<close>

definition chunksOf :: "SyncEnv \<Rightarrow> bytes \<Rightarrow> bytes \<Rightarrow> Chunk list" where
  "chunksOf env rel content = (case ChunkFile (seSha env) (seParseGo env) rel content of None \<Rightarrow> [] | Some cs \<Rightarrow> cs)"

definition syncFile :: "SyncEnv \<Rightarrow> ('s, 'r) VectorStore \<Rightarrow> bytes \<Rightarrow> 's Index \<Rightarrow> (SyncErr + bool) \<times> 's Index" where
  "syncFile env vs rel ix =
     (case seRead env rel of
        None \<Rightarrow> (Inl ErrOther, ix)
      | Some content \<Rightarrow>
          (let hash = FileHash (seSha env) (ixRecipe ix) content;
               setState = (\<lambda>ix. ix\<lparr>ixState := stateSet rel hash (ixState ix)\<rparr>);
               deleteStore = (\<lambda>ix. ix\<lparr>ixStore := vsDelete vs rel (ixStore ix)\<rparr>)
           in if \<not> IndexableContent content then (Inr False, setState (deleteStore ix))
              else if vsFileHash vs rel (ixStore ix) = Some hash then (Inr False, setState ix)
              else (let chunks = chunksOf env rel content
                in if chunks = [] then (Inr False, setState (deleteStore ix))
                   else (case seEmbed env rel (map cContent chunks) of
                           Inl err \<Rightarrow> (Inl err, ix)
                         | Inr vecs \<Rightarrow>
                             (case vsReplace vs rel hash chunks (concat vecs) (ixStore ix) of
                                None \<Rightarrow> (Inl ErrOther, ix)
                              | Some st \<Rightarrow> (Inr True, setState (ix\<lparr>ixStore := st\<rparr>)))))))"

definition setStatus :: "(Status \<Rightarrow> Status) \<Rightarrow> 's Index \<Rightarrow> 's Index" where
  "setStatus f ix = ix\<lparr>ixStatus := f (ixStatus ix)\<rparr>"

definition fail :: "SyncErr \<Rightarrow> 's Index \<Rightarrow> 's Index" where
  "fail err ix =
     setStatus (\<lambda>s. s\<lparr>stPhase := (if err = ErrQuotaExhausted then PhaseQuota else PhaseFailed), stErr := Some err\<rparr>) ix"

text \<open>What the collecting goroutine does with one result.\<close>

definition received :: "nat \<Rightarrow> bytes \<Rightarrow> SyncErr + bool \<Rightarrow> Stats \<times> SyncErr option \<times> 's Index \<Rightarrow> Stats \<times> SyncErr option \<times> 's Index" where
  "received total_files rel outcome r =
     (case r of (st, fatal, ix) \<Rightarrow>
       (let st1 = st\<lparr>sScanned := sScanned st + 1\<rparr>;
            (st2, fatal2) =
              (case outcome of
                 Inl e \<Rightarrow> (st1, if e = ErrQuotaExhausted \<and> fatal = None then Some e else fatal)
               | Inr changed \<Rightarrow> (if changed then st1\<lparr>sEmbedded := sEmbedded st1 + 1\<rparr>
                                 else st1\<lparr>sUnchanged := sUnchanged st1 + 1\<rparr>, fatal));
            ix1 = setStatus (\<lambda>s. s\<lparr>stDone := sScanned st2, stEmbedded := sEmbedded st2,
                     stPhase := (if sEmbedded st2 > 0 then PhaseIndexing else stPhase s)\<rparr>) ix
        in (st2, fatal2, ix1\<lparr>ixReported := ixReported ix1 @
              [\<lparr>pgFile = rel, pgDone = sScanned st2, pgTotal = total_files, pgEmbedded = sEmbedded st2, pgUnchanged = sUnchanged st2\<rparr>]\<rparr>)))"

text \<open>\<open>runs\<close>: the files in the order their workers finish, and whether the result is received.\<close>

fun processRuns :: "SyncEnv \<Rightarrow> ('s, 'r) VectorStore \<Rightarrow> nat \<Rightarrow> (bytes \<times> bool) list \<Rightarrow>
    Stats \<times> SyncErr option \<times> 's Index \<Rightarrow> Stats \<times> SyncErr option \<times> 's Index" where
  "processRuns env vs total_files [] (st, fatal, ix) = (st, fatal, ix)"
| "processRuns env vs total_files ((rel, delivered) # runs) (st, fatal, ix) =
     (let (outcome, ix1) = syncFile env vs rel ix
      in processRuns env vs total_files runs (if delivered then received total_files rel outcome (st, fatal, ix1) else (st, fatal, ix1)))"

definition processFiles :: "SyncEnv \<Rightarrow> ('s, 'r) VectorStore \<Rightarrow> bytes list \<Rightarrow> (bytes \<times> bool) list \<Rightarrow> 's Index \<Rightarrow>
    Stats \<times> SyncErr option \<times> 's Index" where
  "processFiles env vs files runs ix =
     (case processRuns env vs (length files) runs (no_stats, None, ix) of
        (st, Some e, ix') \<Rightarrow> (st, Some e, ix')
      | (st, None, ix') \<Rightarrow> (st, seCtxErr env, ix'))"

text \<open>The runs the workers can make: without a cancellation every file is processed once and
  every result is received; a cancellation may leave files out and results behind.\<close>

definition schedule :: "bool \<Rightarrow> bytes list \<Rightarrow> (bytes \<times> bool) list \<Rightarrow> bool" where
  "schedule stopped files runs =
     (if stopped then mset (map fst runs) \<subseteq># mset files
      else mset (map fst runs) = mset files \<and> (\<forall>r \<in> set runs. snd r))"

definition sweep :: "('s, 'r) VectorStore \<Rightarrow> bytes list \<Rightarrow> Stats \<times> 's Index \<Rightarrow> Stats \<times> 's Index" where
  "sweep vs files r =
     fold (\<lambda>p (st, ix). if p \<in> set files then (st, ix)
         else (st\<lparr>sRemoved := sRemoved st + 1\<rparr>,
               ix\<lparr>ixStore := vsDelete vs p (ixStore ix), ixState := stateDelete p (ixState ix)\<rparr>))
       (statePaths (ixState (snd r))) r"

definition Sync :: "SyncEnv \<Rightarrow> ('s, 'r) VectorStore \<Rightarrow> (bytes list \<Rightarrow> (bytes \<times> bool) list) \<Rightarrow> 's Index \<Rightarrow>
    Stats \<times> SyncErr option \<times> 's Index" where
  "Sync env vs sched ix =
     (let ix0 = setStatus (\<lambda>s. \<lparr>stPhase = PhaseScanning, stDone = 0, stTotal = 0, stChunks = 0, stEmbedded = 0,
                  stFirst = (stateLen (ixState ix) = 0), stErr = None\<rparr>) ix
      in case collect env of
           Inl e \<Rightarrow> (no_stats, Some e, fail e ix0)
         | Inr files \<Rightarrow>
             (let ix1 = setStatus (\<lambda>s. s\<lparr>stTotal := length files\<rparr>) ix0
              in case processFiles env vs files (sched files) ix1 of
                   (st, Some e, ix2) \<Rightarrow> (st, Some e, fail e ix2)
                 | (st, None, ix2) \<Rightarrow>
                     (let (st3, ix3) = sweep vs files (st, ix2);
                          st4 = st3\<lparr>sChunks := snd (vsStats vs (ixStore ix3))\<rparr>
                      in case seStoreSave env of
                           Some e \<Rightarrow> (st4, Some e, fail e ix3)
                         | None \<Rightarrow>
                             (case seStateSave env of
                                Some e \<Rightarrow> (st4, Some e, fail e ix3)
                              | None \<Rightarrow> (st4, None, setStatus (\<lambda>s. s\<lparr>stPhase := PhaseReady, stChunks := sChunks st4, stErr := None\<rparr>) ix3)))))"

definition Ready :: "('s, 'r) VectorStore \<Rightarrow> 's Index \<Rightarrow> nat \<times> bool" where
  "Ready vs ix = (let chunks = snd (vsStats vs (ixStore ix)) in (chunks, chunks > 0))"

section \<open>What a scan does to one file\<close>

text \<open>
  The specification of \<open>syncFile\<close>: the outcome and the new entry of the file, from its old entry
  alone.
\<close>

type_synonym entry = "(bytes \<times> Chunk list \<times> 8 word list) option"

definition hit :: "entry \<Rightarrow> bytes \<Rightarrow> bool" where
  "hit old h = (case old of None \<Rightarrow> False | Some (h', _, _) \<Rightarrow> h' = h \<and> h \<noteq> [])"

definition plan :: "SyncEnv \<Rightarrow> nat \<Rightarrow> bytes \<Rightarrow> bytes \<Rightarrow> entry \<Rightarrow> (SyncErr + bool) \<times> entry" where
  "plan env dims recipe p old =
     (case seRead env p of
        None \<Rightarrow> (Inl ErrOther, old)
      | Some content \<Rightarrow>
          (let h = FileHash (seSha env) recipe content; cs = chunksOf env p content
           in if \<not> IndexableContent content then (Inr False, None)
              else if hit old h then (Inr False, old)
              else if cs = [] then (Inr False, None)
              else (case seEmbed env p (map cContent cs) of
                      Inl e \<Rightarrow> (Inl e, old)
                    | Inr vecs \<Rightarrow> if length cs * dims = length (concat vecs)
                                then (Inr True, Some (h, cs, concat vecs)) else (Inl ErrOther, old))))"

definition newHash :: "SyncEnv \<Rightarrow> bytes \<Rightarrow> bytes \<Rightarrow> SyncErr + bool \<Rightarrow> bytes option \<Rightarrow> bytes option" where
  "newHash env recipe p o' old =
     (case (o', seRead env p) of (Inr _, Some content) \<Rightarrow> Some (FileHash (seSha env) recipe content) | _ \<Rightarrow> old)"

definition outcome_of :: "SyncEnv \<Rightarrow> nat \<Rightarrow> bytes \<Rightarrow> bytes \<Rightarrow> entry \<Rightarrow> SyncErr + bool" where
  "outcome_of env dims recipe p old = fst (plan env dims recipe p old)"

definition entry_of :: "SyncEnv \<Rightarrow> nat \<Rightarrow> bytes \<Rightarrow> bytes \<Rightarrow> entry \<Rightarrow> entry" where
  "entry_of env dims recipe p old = snd (plan env dims recipe p old)"

lemma map_of_stateSet [simp]: "map_of (stateSet p h st) = (map_of st)(p \<mapsto> h)"
  by (simp add: stateSet_def update_conv')

lemma map_of_stateDelete [simp]: "map_of (stateDelete p st) = (map_of st)(p := None)"
  by (simp add: stateDelete_def delete_conv')

lemma distinct_stateSet [simp]: "distinct (map fst st) \<Longrightarrow> distinct (map fst (stateSet p h st))"
  by (simp add: stateSet_def distinct_update)

lemma distinct_stateDelete [simp]: "distinct (map fst st) \<Longrightarrow> distinct (map fst (stateDelete p st))"
  by (simp add: stateDelete_def distinct_delete)

lemma set_statePaths: "set (statePaths st) = dom (map_of st)"
  by (simp add: statePaths_def dom_map_of_conv_image_fst)

lemma distinct_statePaths: "distinct (map fst st) \<Longrightarrow> distinct (statePaths st)"
  by (simp add: statePaths_def)

lemma setStatus_simps [simp]:
  "ixStore (setStatus f ix) = ixStore ix" "ixState (setStatus f ix) = ixState ix" "ixRecipe (setStatus f ix) = ixRecipe ix"
  "ixStatus (setStatus f ix) = f (ixStatus ix)"
  by (simp_all add: setStatus_def)

lemma fail_simps [simp]:
  "ixStore (fail e ix) = ixStore ix" "ixState (fail e ix) = ixState ix" "ixRecipe (fail e ix) = ixRecipe ix"
  by (simp_all add: fail_def)

lemma received_simps:
  "received n p o' (st, fatal, ix) = (st', fatal', ix') \<Longrightarrow>
     ixStore ix' = ixStore ix \<and> ixState ix' = ixState ix \<and> ixRecipe ix' = ixRecipe ix \<and>
     sScanned st' = sScanned st + 1 \<and> sEmbedded st' = sEmbedded st + (if o' = Inr True then 1 else 0) \<and>
     sUnchanged st' = sUnchanged st + (if o' = Inr False then 1 else 0) \<and> sRemoved st' = sRemoved st \<and>
     fatal' = (if o' = Inl ErrQuotaExhausted \<and> fatal = None then Some ErrQuotaExhausted else fatal)"
  by (cases o') (auto simp: received_def Let_def split: if_splits)

text \<open>The part of an index a scan works on: the entries and the recorded hashes.\<close>

context vector_store
begin

definition ix_ok :: "'s Index \<Rightarrow> bool" where
  "ix_ok ix \<longleftrightarrow> inv (ixStore ix) \<and> distinct (map fst (ixState ix))"

definition agrees :: "'s Index \<Rightarrow> 's Index \<Rightarrow> bool" where
  "agrees ix ix' \<longleftrightarrow> ix_ok ix' \<and> vsDims vs (ixStore ix') = vsDims vs (ixStore ix) \<and> ixRecipe ix' = ixRecipe ix"

lemma hit_fileHash: "inv s \<Longrightarrow> vsFileHash vs p s = Some h \<longleftrightarrow> hit (entry s p) h"
  by (auto simp: fileHash hit_def split: option.split)

lemma syncFile_plan:
  assumes ok: "ix_ok ix" and r: "syncFile env vs p ix = (o', ix')"
  shows "agrees ix ix' \<and> o' = outcome_of env (vsDims vs (ixStore ix)) (ixRecipe ix) p (entry (ixStore ix) p) \<and>
    entry (ixStore ix') = (entry (ixStore ix))(p := entry_of env (vsDims vs (ixStore ix)) (ixRecipe ix) p (entry (ixStore ix) p)) \<and>
    map_of (ixState ix') = (map_of (ixState ix))(p := newHash env (ixRecipe ix) p o' (map_of (ixState ix) p))"
proof -
  let ?s = "ixStore ix" and ?d = "vsDims vs (ixStore ix)"
  have i: "inv ?s" "distinct (map fst (ixState ix))" using ok by (simp_all add: ix_ok_def)
  have del: "inv (vsDelete vs p ?s)" "entry (vsDelete vs p ?s) = (entry ?s)(p := None)" "vsDims vs (vsDelete vs p ?s) = ?d"
    using delete [OF i(1), of p] by auto
  note d = agrees_def ix_ok_def outcome_of_def entry_of_def plan_def newHash_def
  show ?thesis
  proof (cases "seRead env p")
    case None
    then show ?thesis using r ok by (auto simp: syncFile_def d)
  next
    case (Some content)
    let ?h = "FileHash (seSha env) (ixRecipe ix) content" and ?cs = "chunksOf env p content"
    consider "\<not> IndexableContent content" | "IndexableContent content" "hit (entry ?s p) ?h"
      | "IndexableContent content" "\<not> hit (entry ?s p) ?h" "?cs = []"
      | e where "IndexableContent content" "\<not> hit (entry ?s p) ?h" "?cs \<noteq> []" "seEmbed env p (map cContent ?cs) = Inl e"
      | vecs where "IndexableContent content" "\<not> hit (entry ?s p) ?h" "?cs \<noteq> []" "seEmbed env p (map cContent ?cs) = Inr vecs"
      by (cases "seEmbed env p (map cContent ?cs)") auto
    then show ?thesis
    proof cases
      case 1
      then show ?thesis using r del i by (auto simp: syncFile_def d Some Let_def)
    next
      case 2
      then show ?thesis using r i by (auto simp: syncFile_def d Some Let_def hit_fileHash)
    next
      case 3
      then show ?thesis using r del i by (auto simp: syncFile_def d Some Let_def hit_fileHash)
    next
      case 4
      then show ?thesis using r i by (auto simp: syncFile_def d Some Let_def hit_fileHash)
    next
      case 5
      show ?thesis
      proof (cases "length ?cs * ?d = length (concat vecs)")
        case True
        then obtain t where t: "vsReplace vs p ?h ?cs (concat vecs) ?s = Some t" "inv t"
          "entry t = (entry ?s)(p \<mapsto> (?h, ?cs, concat vecs))" "vsDims vs t = ?d"
          using replace [OF i(1), of ?cs "concat vecs" p ?h] 5(3) by auto
        then show ?thesis using 5 r i True by (auto simp: syncFile_def d Some Let_def hit_fileHash)
      next
        case False
        then show ?thesis using 5 r i replace_bad [OF False, of p ?h] by (auto simp: syncFile_def d Some Let_def hit_fileHash)
      qed
    qed
  qed
qed

end

definition count_outcome :: "(bytes \<Rightarrow> SyncErr + bool) \<Rightarrow> bool \<Rightarrow> (bytes \<times> bool) list \<Rightarrow> nat" where
  "count_outcome f b runs = length (filter (\<lambda>(p, delivered). delivered \<and> f p = Inr b) runs)"

lemma count_outcome_simps [simp]:
  "count_outcome f b [] = 0"
  "count_outcome f b ((p, delivered) # runs) = (if delivered \<and> f p = Inr b then 1 else 0) + count_outcome f b runs"
  by (simp_all add: count_outcome_def)

lemma count_outcome_cong:
  "(\<And>p. p \<in> fst ` set runs \<Longrightarrow> f p = g p) \<Longrightarrow> count_outcome f b runs = count_outcome g b runs"
  unfolding count_outcome_def by (rule arg_cong [where f = length], rule filter_cong) (force+)

context vector_store
begin

lemma agrees_refl: "ix_ok ix \<Longrightarrow> agrees ix ix"
  by (simp add: agrees_def)

lemma agrees_trans: "agrees a b \<Longrightarrow> agrees b c \<Longrightarrow> agrees a c"
  by (simp add: agrees_def)

text \<open>Each file of the runs gets its planned entry; every other entry and hash is left alone.\<close>

lemma processRuns_plan:
  assumes "ix_ok ix" "distinct (map fst runs)" "processRuns env vs n runs (st, fatal, ix) = (st', fatal', ix')"
  defines "d \<equiv> vsDims vs (ixStore ix)"
  defines "oc \<equiv> \<lambda>p. outcome_of env d (ixRecipe ix) p (entry (ixStore ix) p)"
  shows "agrees ix ix' \<and>
    (\<forall>p. entry (ixStore ix') p = (if p \<in> fst ` set runs then entry_of env d (ixRecipe ix) p (entry (ixStore ix) p) else entry (ixStore ix) p)) \<and>
    (\<forall>p. map_of (ixState ix') p = (if p \<in> fst ` set runs then newHash env (ixRecipe ix) p (oc p) (map_of (ixState ix) p) else map_of (ixState ix) p)) \<and>
    sScanned st' = sScanned st + length (filter snd runs) \<and>
    sEmbedded st' = sEmbedded st + count_outcome oc True runs \<and> sUnchanged st' = sUnchanged st + count_outcome oc False runs \<and>
    sRemoved st' = sRemoved st \<and>
    (fatal' = None \<longleftrightarrow> fatal = None \<and> (\<forall>(p, delivered) \<in> set runs. delivered \<longrightarrow> oc p \<noteq> Inl ErrQuotaExhausted))"
  using assms(1-3) unfolding oc_def d_def
proof (induction runs arbitrary: st fatal ix)
  case Nil
  then show ?case by (simp add: agrees_refl)
next
  case (Cons r runs)
  obtain p delivered where r: "r = (p, delivered)" by (cases r)
  obtain o' ix1 where s: "syncFile env vs p ix = (o', ix1)" by (cases "syncFile env vs p ix")
  note pl = syncFile_plan [OF Cons.prems(1) s]
  obtain st2 fatal2 ix2 where q: "(if delivered then received n p o' (st, fatal, ix1) else (st, fatal, ix1)) = (st2, fatal2, ix2)"
    by (metis prod_cases3)
  have e: "ixStore ix2 = ixStore ix1" "ixState ix2 = ixState ix1" "ixRecipe ix2 = ixRecipe ix1"
    and c: "sScanned st2 = sScanned st + (if delivered then 1 else 0)"
      "sEmbedded st2 = sEmbedded st + (if delivered \<and> o' = Inr True then 1 else 0)"
      "sUnchanged st2 = sUnchanged st + (if delivered \<and> o' = Inr False then 1 else 0)" "sRemoved st2 = sRemoved st"
      "fatal2 = (if delivered \<and> o' = Inl ErrQuotaExhausted \<and> fatal = None then Some ErrQuotaExhausted else fatal)"
    using q received_simps [of n p o' st fatal ix1 st2 fatal2 ix2] by (auto split: if_splits)
  have ok2: "ix_ok ix2" and a2: "agrees ix ix2" using pl e by (simp_all add: agrees_def ix_ok_def)
  have rest: "processRuns env vs n runs (st2, fatal2, ix2) = (st', fatal', ix')"
    using Cons.prems(3) by (simp add: r s q)
  have dr: "distinct (map fst runs)" "p \<notin> fst ` set runs" using Cons.prems(2) by (auto simp: r)
  note IH = Cons.IH [OF ok2 dr(1) rest]
  have dims: "vsDims vs (ixStore ix2) = vsDims vs (ixStore ix)" "ixRecipe ix2 = ixRecipe ix" using a2 by (simp_all add: agrees_def)
  have same: "outcome_of env (vsDims vs (ixStore ix2)) (ixRecipe ix2) q (entry (ixStore ix2) q) =
      outcome_of env (vsDims vs (ixStore ix)) (ixRecipe ix) q (entry (ixStore ix) q)" if "q \<in> fst ` set runs" for q
    using that dr(2) pl by (auto simp: dims(2) e(1) agrees_def)
  have cnt: "count_outcome (\<lambda>q. outcome_of env (vsDims vs (ixStore ix2)) (ixRecipe ix2) q (entry (ixStore ix2) q)) b runs =
      count_outcome (\<lambda>q. outcome_of env (vsDims vs (ixStore ix)) (ixRecipe ix) q (entry (ixStore ix) q)) b runs" for b
    by (rule count_outcome_cong) (rule same)
  have en: "entry (ixStore ix2) q = (if q = p then entry_of env (vsDims vs (ixStore ix)) (ixRecipe ix) p (entry (ixStore ix) p) else entry (ixStore ix) q)"
    and hs: "map_of (ixState ix2) q = (if q = p then newHash env (ixRecipe ix) p o' (map_of (ixState ix) p) else map_of (ixState ix) q)" for q
    using pl by (auto simp: e)
  have fatal: "fatal' = None \<longleftrightarrow> fatal2 = None \<and> (\<forall>(q, delivered) \<in> set runs. delivered \<longrightarrow>
       outcome_of env (vsDims vs (ixStore ix)) (ixRecipe ix) q (entry (ixStore ix) q) \<noteq> Inl ErrQuotaExhausted)"
  proof -
    have "(\<forall>(q, delivered) \<in> set runs. delivered \<longrightarrow> outcome_of env (vsDims vs (ixStore ix2)) (ixRecipe ix2) q (entry (ixStore ix2) q) \<noteq> Inl ErrQuotaExhausted) \<longleftrightarrow>
        (\<forall>(q, delivered) \<in> set runs. delivered \<longrightarrow> outcome_of env (vsDims vs (ixStore ix)) (ixRecipe ix) q (entry (ixStore ix) q) \<noteq> Inl ErrQuotaExhausted)"
      proof (rule ball_cong [OF refl])
      fix x assume "x \<in> set runs"
      then have "fst x \<in> fst ` set runs" by simp
      from same [OF this] show "(case x of (q, delivered) \<Rightarrow> delivered \<longrightarrow> outcome_of env (vsDims vs (ixStore ix2)) (ixRecipe ix2) q (entry (ixStore ix2) q) \<noteq> Inl ErrQuotaExhausted) =
          (case x of (q, delivered) \<Rightarrow> delivered \<longrightarrow> outcome_of env (vsDims vs (ixStore ix)) (ixRecipe ix) q (entry (ixStore ix) q) \<noteq> Inl ErrQuotaExhausted)"
        by (cases x) simp
    qed
    then show ?thesis using IH by blast
  qed
  have o': "o' = outcome_of env (vsDims vs (ixStore ix)) (ixRecipe ix) p (entry (ixStore ix) p)" using pl by blast
  show ?case
  proof (intro conjI)
    show "agrees ix ix'" using agrees_trans [OF a2] IH by blast
    show "\<forall>q. entry (ixStore ix') q = (if q \<in> fst ` set (r # runs) then entry_of env (vsDims vs (ixStore ix)) (ixRecipe ix) q (entry (ixStore ix) q) else entry (ixStore ix) q)"
      using IH dr(2) en by (auto simp: r dims)
    show "\<forall>q. map_of (ixState ix') q = (if q \<in> fst ` set (r # runs) then newHash env (ixRecipe ix) q
        (outcome_of env (vsDims vs (ixStore ix)) (ixRecipe ix) q (entry (ixStore ix) q)) (map_of (ixState ix) q) else map_of (ixState ix) q)"
      using IH dr(2) hs same o' by (auto simp: r dims)
    show "sScanned st' = sScanned st + length (filter snd (r # runs))" using IH c by (simp add: r)
    show "sEmbedded st' = sEmbedded st + count_outcome (\<lambda>p. outcome_of env (vsDims vs (ixStore ix)) (ixRecipe ix) p (entry (ixStore ix) p)) True (r # runs)"
      using IH c cnt o' by (simp add: r)
    show "sUnchanged st' = sUnchanged st + count_outcome (\<lambda>p. outcome_of env (vsDims vs (ixStore ix)) (ixRecipe ix) p (entry (ixStore ix) p)) False (r # runs)"
      using IH c cnt o' by (simp add: r)
    show "sRemoved st' = sRemoved st" using IH c by simp
    show "(fatal' = None) = (fatal = None \<and> (\<forall>(p, delivered) \<in> set (r # runs). delivered \<longrightarrow>
        outcome_of env (vsDims vs (ixStore ix)) (ixRecipe ix) p (entry (ixStore ix) p) \<noteq> Inl ErrQuotaExhausted))"
      using fatal c(5) o' by (auto simp: r split: if_splits)
  qed
qed

lemma sweep_fold:
  "ix_ok ix \<Longrightarrow> distinct ps \<Longrightarrow>
   fold (\<lambda>p (st, ix). if p \<in> set files then (st, ix)
         else (st\<lparr>sRemoved := sRemoved st + 1\<rparr>, ix\<lparr>ixStore := vsDelete vs p (ixStore ix), ixState := stateDelete p (ixState ix)\<rparr>)) ps (st, ix) = (st', ix') \<Longrightarrow>
   agrees ix ix' \<and>
   (\<forall>p. entry (ixStore ix') p = (if p \<in> set ps \<and> p \<notin> set files then None else entry (ixStore ix) p)) \<and>
   (\<forall>p. map_of (ixState ix') p = (if p \<in> set ps \<and> p \<notin> set files then None else map_of (ixState ix) p)) \<and>
   st' = st\<lparr>sRemoved := sRemoved st + length (filter (\<lambda>p. p \<notin> set files) ps)\<rparr>"
proof (induction ps arbitrary: st ix)
  case Nil
  then show ?case by (simp add: agrees_refl)
next
  case (Cons p ps)
  show ?case
  proof (cases "p \<in> set files")
    case True
    then show ?thesis using Cons.IH [of ix st] Cons.prems by (auto split: if_splits)
  next
    case False
    let ?ix = "ix\<lparr>ixStore := vsDelete vs p (ixStore ix), ixState := stateDelete p (ixState ix)\<rparr>"
    have i: "inv (ixStore ix)" using Cons.prems by (simp add: ix_ok_def)
    have a: "agrees ix ?ix" using Cons.prems delete [OF i, of p] by (simp add: agrees_def ix_ok_def)
    have "ix_ok ?ix" using a by (simp add: agrees_def)
    note IH = Cons.IH [OF this, of "st\<lparr>sRemoved := sRemoved st + 1\<rparr>"]
    have f: "agrees ?ix ix'" "\<forall>q. entry (ixStore ix') q = (if q \<in> set ps \<and> q \<notin> set files then None else entry (ixStore ?ix) q)"
      "\<forall>q. map_of (ixState ix') q = (if q \<in> set ps \<and> q \<notin> set files then None else map_of (ixState ?ix) q)"
      "st' = st\<lparr>sRemoved := sRemoved st + 1\<rparr>\<lparr>sRemoved := sRemoved (st\<lparr>sRemoved := sRemoved st + 1\<rparr>) + length (filter (\<lambda>p. p \<notin> set files) ps)\<rparr>"
      using IH Cons.prems False by auto
    show ?thesis using agrees_trans [OF a f(1)] f(2,3,4) False delete [OF i, of p] by auto
  qed
qed

end

section \<open>The files of a tree\<close>

text \<open>A directory tree: the names in one directory differ, and no name contains a slash.\<close>

fun node_name :: "TreeNode \<Rightarrow> bytes" where
  "node_name (File n _) = n"
| "node_name (Dir n _) = n"

fun node_ok :: "TreeNode \<Rightarrow> bool" where
  "node_ok (File n _) \<longleftrightarrow> CHR ''/'' \<notin> set n"
| "node_ok (Dir n ns) \<longleftrightarrow> CHR ''/'' \<notin> set n \<and> distinct (map node_name ns) \<and> list_all node_ok ns"

definition tree_ok :: "SyncEnv \<Rightarrow> bool" where
  "tree_ok env \<longleftrightarrow> distinct (map node_name (seTree env)) \<and> list_all node_ok (seTree env)"

lemma node_ok_name: "node_ok nd \<Longrightarrow> CHR ''/'' \<notin> set (node_name nd)"
  by (cases nd) auto

lemma walkNode_prefix:
  "p \<in> set (walkNode m dir nd) \<Longrightarrow> \<exists>r. p = dir @ node_name nd @ r \<and> (r = [] \<or> hd r = CHR ''/'')"
proof (induction m dir nd rule: walkNode.induct)
  case (1 m dir name sz)
  then show ?case by (auto simp: Let_def split: if_splits option.splits)
next
  case (2 m dir name nodes)
  then obtain nd r where "nd \<in> set nodes" "p = (dir @ name @ ''/'') @ node_name nd @ r" "\<not> skipDir m (dir @ name) name"
    by (fastforce simp: Let_def split: if_splits)
  then have "p = dir @ name @ (''/'' @ node_name nd @ r)" by simp
  then show ?case by (intro exI [of _ "''/'' @ node_name nd @ r"]) simp
qed

lemma same_name:
  assumes "CHR ''/'' \<notin> set n" "CHR ''/'' \<notin> set n'" "r = [] \<or> hd r = CHR ''/''" "r' = [] \<or> hd r' = CHR ''/''" "n @ r = n' @ r'"
  shows "n = n'"
proof -
  have "takeWhile (\<lambda>c. c \<noteq> CHR ''/'') (n @ r) = n" if "CHR ''/'' \<notin> set n" "r = [] \<or> hd r = CHR ''/''" for n r
    using that by (cases r) (auto simp: takeWhile_append)
  then show ?thesis using assms by metis
qed

lemma distinct_walks:
  assumes "distinct (map node_name ns)" "list_all node_ok ns" "\<And>nd. nd \<in> set ns \<Longrightarrow> distinct (walkNode m dir nd)"
  shows "distinct (concat (map (walkNode m dir) ns))"
  using assms
proof (induction ns)
  case (Cons nd ns)
  have "set (walkNode m dir nd) \<inter> set (walkNode m dir nd') = {}" if "nd' \<in> set ns" for nd'
  proof (rule ccontr)
    assume "set (walkNode m dir nd) \<inter> set (walkNode m dir nd') \<noteq> {}"
    then obtain p where "p \<in> set (walkNode m dir nd)" "p \<in> set (walkNode m dir nd')" by blast
    then obtain r r' where r: "p = dir @ node_name nd @ r" "r = [] \<or> hd r = CHR ''/''"
      "p = dir @ node_name nd' @ r'" "r' = [] \<or> hd r' = CHR ''/''"
      using walkNode_prefix by meson
    have "node_ok nd" "node_ok nd'" using Cons.prems(2) that by (auto simp: list_all_iff)
    then have "node_name nd = node_name nd'" using r same_name node_ok_name by (metis same_append_eq)
    then show False using Cons.prems(1) that by (metis distinct.simps(2) imageI list.simps(9) set_map)
  qed
  with Cons show ?case by auto
qed simp

lemma distinct_walkNode: "node_ok nd \<Longrightarrow> distinct (walkNode m dir nd)"
proof (induction m dir nd rule: walkNode.induct)
  case (1 m dir name sz)
  then show ?case by (auto simp: Let_def split: option.split)
next
  case (2 m dir name nodes)
  have "distinct (concat (map (walkNode m ((dir @ name) @ ''/'')) nodes))" if "\<not> skipDir m (dir @ name) name"
    using 2 that by (intro distinct_walks) (auto simp: list_all_iff)
  then show ?case by (simp add: Let_def)
qed

lemma collect_distinct: "tree_ok env \<Longrightarrow> collect env = Inr files \<Longrightarrow> distinct files"
  by (auto simp: collect_def tree_ok_def list_all_iff intro!: distinct_walks distinct_walkNode split: option.splits)

section \<open>What a scan does to the index\<close>

lemma schedule_counts:
  assumes "schedule False files runs"
  shows "fst ` set runs = set files" "length (filter snd runs) = length files"
    "count_outcome f b runs = length (filter (\<lambda>p. f p = Inr b) files)"
proof -
  have m: "mset (map fst runs) = mset files" and d: "\<forall>r \<in> set runs. snd r" using assms by (simp_all add: schedule_def)
  show "fst ` set runs = set files" using mset_eq_setD [OF m] by simp
  show "length (filter snd runs) = length files" using d mset_eq_length [OF m] by simp
  have "count_outcome f b runs = length (filter (\<lambda>p. f p = Inr b) (map fst runs))"
    using d unfolding count_outcome_def by (induction runs) auto
  also have "\<dots> = length (filter (\<lambda>p. f p = Inr b) files)"
    using m by (metis mset_filter size_mset)
  finally show "count_outcome f b runs = length (filter (\<lambda>p. f p = Inr b) files)" .
qed

context vector_store
begin

lemma ix_ok_setStatus [simp]: "ix_ok (setStatus f ix) = ix_ok ix"
  by (simp add: ix_ok_def)

lemma Sync_spec:
  assumes ok: "ix_ok ix" and files: "collect env = Inr files" "distinct files" and sched: "schedule False files (sched files)"
    and r: "Sync env vs sched ix = (st, None, ix')"
  defines "oc \<equiv> \<lambda>p. outcome_of env (vsDims vs (ixStore ix)) (ixRecipe ix) p (entry (ixStore ix) p)"
  shows "agrees ix ix' \<and>
    (\<forall>p. entry (ixStore ix') p = (if p \<in> set files then entry_of env (vsDims vs (ixStore ix)) (ixRecipe ix) p (entry (ixStore ix) p)
       else if map_of (ixState ix) p \<noteq> None then None else entry (ixStore ix) p)) \<and>
    (\<forall>p. map_of (ixState ix') p = (if p \<in> set files then newHash env (ixRecipe ix) p (oc p) (map_of (ixState ix) p) else None)) \<and>
    sScanned st = length files \<and> sEmbedded st = length (filter (\<lambda>p. oc p = Inr True) files) \<and>
    sUnchanged st = length (filter (\<lambda>p. oc p = Inr False) files) \<and>
    stPhase (ixStatus ix') = PhaseReady \<and> (\<forall>p \<in> set files. oc p \<noteq> Inl ErrQuotaExhausted)"
proof -
  let ?ix1 = "setStatus (\<lambda>s. s\<lparr>stTotal := length files\<rparr>) (setStatus (\<lambda>s. \<lparr>stPhase = PhaseScanning, stDone = 0, stTotal = 0, stChunks = 0,
      stEmbedded = 0, stFirst = (stateLen (ixState ix) = 0), stErr = None\<rparr>) ix)"
  obtain st2 fatal ix2 where p: "processRuns env vs (length files) (sched files) (no_stats, None, ?ix1) = (st2, fatal, ix2)"
    by (metis prod_cases3)
  obtain st3 ix3 where w: "sweep vs files (st2, ix2) = (st3, ix3)" by fastforce
  have fatal: "fatal = None" and ctx: "seCtxErr env = None" and saved: "seStoreSave env = None" "seStateSave env = None"
    and fin: "st = st3\<lparr>sChunks := snd (vsStats vs (ixStore ix3))\<rparr>"
      "ix' = setStatus (\<lambda>s. s\<lparr>stPhase := PhaseReady, stChunks := sChunks st, stErr := None\<rparr>) ix3"
    using r by (auto simp: Sync_def processFiles_def files(1) p w Let_def split: option.splits)
  have ok1: "ix_ok ?ix1" using ok by simp
  have "distinct (map fst (sched files))" using sched files(2) by (metis mset_eq_imp_distinct_iff schedule_def)
  note P = processRuns_plan [OF ok1 this p]
  have ok2: "ix_ok ix2" using P by (simp add: agrees_def)
  have "distinct (statePaths (ixState ix2))" using ok2 by (simp add: ix_ok_def distinct_statePaths)
  from sweep_fold [OF ok2 this, of files st2 st3 ix3]
  have W: "agrees ix2 ix3 \<and>
     (\<forall>p. entry (ixStore ix3) p = (if p \<in> dom (map_of (ixState ix2)) \<and> p \<notin> set files then None else entry (ixStore ix2) p)) \<and>
     (\<forall>p. map_of (ixState ix3) p = (if p \<in> dom (map_of (ixState ix2)) \<and> p \<notin> set files then None else map_of (ixState ix2) p)) \<and>
     st3 = st2\<lparr>sRemoved := sRemoved st2 + length (filter (\<lambda>p. p \<notin> set files) (statePaths (ixState ix2)))\<rparr>"
    using w by (simp add: sweep_def set_statePaths)
  have dom2: "p \<in> dom (map_of (ixState ix2)) \<longleftrightarrow> map_of (ixState ix) p \<noteq> None" if "p \<notin> set files" for p
    using P that schedule_counts(1) [OF sched] by (simp add: dom_def)
  have a: "agrees ix ix3" using P W ok by (simp add: agrees_def)
  show ?thesis unfolding oc_def
  proof (intro conjI)
    show "agrees ix ix'" using a by (simp add: fin(2) agrees_def)
    show "\<forall>p. entry (ixStore ix') p = (if p \<in> set files then entry_of env (vsDims vs (ixStore ix)) (ixRecipe ix) p (entry (ixStore ix) p)
       else if map_of (ixState ix) p \<noteq> None then None else entry (ixStore ix) p)"
      using P W dom2 schedule_counts(1) [OF sched] by (simp add: fin(2))
    show "\<forall>p. map_of (ixState ix') p = (if p \<in> set files then newHash env (ixRecipe ix) p
        (outcome_of env (vsDims vs (ixStore ix)) (ixRecipe ix) p (entry (ixStore ix) p)) (map_of (ixState ix) p) else None)"
      using P W dom2 schedule_counts(1) [OF sched] by (auto simp: fin(2) dom_def)
    show "sScanned st = length files" using P W schedule_counts(2) [OF sched] by (simp add: fin(1) no_stats_def)
    show "sEmbedded st = length (filter (\<lambda>p. outcome_of env (vsDims vs (ixStore ix)) (ixRecipe ix) p (entry (ixStore ix) p) = Inr True) files)"
      using P W schedule_counts(3) [OF sched] by (simp add: fin(1) no_stats_def)
    show "sUnchanged st = length (filter (\<lambda>p. outcome_of env (vsDims vs (ixStore ix)) (ixRecipe ix) p (entry (ixStore ix) p) = Inr False) files)"
      using P W schedule_counts(3) [OF sched] by (simp add: fin(1) no_stats_def)
    show "stPhase (ixStatus ix') = PhaseReady" by (simp add: fin(2))
    show "\<forall>p \<in> set files. outcome_of env (vsDims vs (ixStore ix)) (ixRecipe ix) p (entry (ixStore ix) p) \<noteq> Inl ErrQuotaExhausted"
    proof
      fix p assume "p \<in> set files"
      then obtain dl where "(p, dl) \<in> set (sched files)" using schedule_counts(1) [OF sched] by (metis imageE prod.collapse)
      moreover have "dl" using sched calculation by (auto simp: schedule_def)
      ultimately show "outcome_of env (vsDims vs (ixStore ix)) (ixRecipe ix) p (entry (ixStore ix) p) \<noteq> Inl ErrQuotaExhausted"
        using P fatal by auto
    qed
  qed
qed

end

section \<open>Whole lines\<close>

lemma crlf_lines_shorter:
  "list_all2 (\<lambda>a b. length a \<le> length b) (split_byte LF (crlf_to_lf s)) (split_byte LF s)"
proof (induction s rule: crlf_to_lf.induct)
  case (2 c s)
  show ?case
  proof (cases s)
    case (Cons d t)
    show ?thesis
    proof (cases "c = CR \<and> d = LF")
      case True
      then show ?thesis using 2 Cons by simp
    next
      case False
      then have "list_all2 (\<lambda>a b. length a \<le> length b) (split_byte LF (crlf_to_lf s)) (split_byte LF s)" using 2 Cons by simp
      moreover obtain w ws v vs where "split_byte LF (crlf_to_lf s) = w # ws" "split_byte LF s = v # vs"
        by (meson neq_Nil_conv split_byte_nonempty)
      moreover have "crlf_to_lf (c # s) = c # crlf_to_lf s" using False Cons by auto
      ultimately show ?thesis by (simp del: crlf_to_lf.simps)
    qed
  qed simp
qed simp

lemma indexable_lines_short:
  assumes "IndexableContent content" "l \<in> set (splitLines content)"
  shows "length l \<le> maxChunkChars"
proof -
  have "\<forall>b \<in> set (split_byte LF content). length b \<le> maxChunkChars"
    using assms(1) by (auto simp: IndexableContent_def Let_def list_all_iff split: if_splits)
  moreover obtain b where "b \<in> set (split_byte LF content)" "length l \<le> length b"
    using crlf_lines_shorter [of content] assms(2) unfolding splitLines_def
    by (metis in_set_conv_nth list_all2_conv_all_nth)
  ultimately show ?thesis by force
qed

lemma chunksOf_exact:
  assumes "IndexableContent content" "c \<in> set (chunksOf env p content)"
  shows "exact (splitLines content) c"
proof -
  obtain cs where cs: "ChunkFile (seSha env) (seParseGo env) p content = Some cs" "\<forall>c \<in> set cs. honest (seSha env) p (splitLines content) c"
    using ChunkFile_cases [of "seParseGo env" p content "seSha env"] tiled_honest charChunks_facts by metis
  then have h: "honest (seSha env) p (splitLines content) c" using assms(2) by (simp add: chunksOf_def)
  moreover have "\<not> piece_of_line (splitLines content) c"
  proof
    assume pc: "piece_of_line (splitLines content) c"
    have "nat (cStartLine c - 1) < length (splitLines content)" using h by (auto simp: honest_def chunk_in_file_def)
    then have "length (splitLines content ! nat (cStartLine c - 1)) \<le> maxChunkChars"
      using indexable_lines_short [OF assms(1)] nth_mem by blast
    then show False using pc by (simp add: piece_of_line_def effectiveMaxChars_def maxChunkChars_def)
  qed
  ultimately show ?thesis by (simp add: honest_def)
qed

section \<open>Errors and interruptions\<close>

context vector_store
begin

text \<open>However the workers were interrupted, a scan that fails before the sweep has changed each entry
  to its planned one or not at all.\<close>

lemma Sync_interrupted:
  assumes ok: "ix_ok ix" and files: "collect env = Inr files" "distinct files" and sched: "schedule stopped files (sched files)"
    and saved: "seStoreSave env = None" "seStateSave env = None"
    and r: "Sync env vs sched ix = (st, Some e, ix')"
  shows "agrees ix ix' \<and>
    (\<forall>p. entry (ixStore ix') p = entry (ixStore ix) p \<or>
       p \<in> set files \<and> entry (ixStore ix') p = entry_of env (vsDims vs (ixStore ix)) (ixRecipe ix) p (entry (ixStore ix) p)) \<and>
    sRemoved st = 0 \<and> stPhase (ixStatus ix') = (if e = ErrQuotaExhausted then PhaseQuota else PhaseFailed) \<and> stErr (ixStatus ix') = Some e"
proof -
  let ?ix1 = "setStatus (\<lambda>s. s\<lparr>stTotal := length files\<rparr>) (setStatus (\<lambda>s. \<lparr>stPhase = PhaseScanning, stDone = 0, stTotal = 0, stChunks = 0,
      stEmbedded = 0, stFirst = (stateLen (ixState ix) = 0), stErr = None\<rparr>) ix)"
  obtain st2 fatal ix2 where p: "processRuns env vs (length files) (sched files) (no_stats, None, ?ix1) = (st2, fatal, ix2)"
    by (metis prod_cases3)
  have fin: "ix' = fail e ix2" "st = st2"
    using r saved by (auto simp: Sync_def processFiles_def files(1) p Let_def split: option.splits prod.splits)
  have sub: "mset (map fst (sched files)) \<subseteq># mset files" using sched by (auto simp: schedule_def split: if_splits)
  then obtain zs where "mset files = mset (map fst (sched files) @ zs)"
    by (metis ex_mset mset_append mset_subset_eq_exists_conv)
  then have "distinct (map fst (sched files))"
    using files(2) mset_eq_imp_distinct_iff distinct_append by blast
  moreover have "ix_ok ?ix1" using ok by simp
  ultimately have P: "agrees ?ix1 ix2" "\<forall>p. entry (ixStore ix2) p = (if p \<in> fst ` set (sched files)
      then entry_of env (vsDims vs (ixStore ix)) (ixRecipe ix) p (entry (ixStore ix) p) else entry (ixStore ix) p)" "sRemoved st2 = 0"
    using processRuns_plan [of ?ix1, OF _ _ p] by (simp_all add: no_stats_def)
  have "fst ` set (sched files) \<subseteq> set files" using set_mset_mono [OF sub] by simp
  then show ?thesis using P by (auto simp: fin fail_def agrees_def setStatus_def ix_ok_def)
qed

lemma Sync_succeeds:
  assumes ok: "ix_ok ix" and files: "collect env = Inr files" "distinct files" and sched: "schedule False files (sched files)"
    and env: "seCtxErr env = None" "seStoreSave env = None" "seStateSave env = None"
    and q: "\<forall>p \<in> set files. outcome_of env (vsDims vs (ixStore ix)) (ixRecipe ix) p (entry (ixStore ix) p) \<noteq> Inl ErrQuotaExhausted"
  shows "fst (snd (Sync env vs sched ix)) = None"
proof -
  let ?ix1 = "setStatus (\<lambda>s. s\<lparr>stTotal := length files\<rparr>) (setStatus (\<lambda>s. \<lparr>stPhase = PhaseScanning, stDone = 0, stTotal = 0, stChunks = 0,
      stEmbedded = 0, stFirst = (stateLen (ixState ix) = 0), stErr = None\<rparr>) ix)"
  obtain st2 fatal ix2 where p: "processRuns env vs (length files) (sched files) (no_stats, None, ?ix1) = (st2, fatal, ix2)"
    by (metis prod_cases3)
  have "distinct (map fst (sched files))" using sched files(2) by (metis mset_eq_imp_distinct_iff schedule_def)
  moreover have "ix_ok ?ix1" using ok by simp
  ultimately have f: "fatal = None \<longleftrightarrow> (\<forall>(p, delivered) \<in> set (sched files). delivered \<longrightarrow>
      outcome_of env (vsDims vs (ixStore ix)) (ixRecipe ix) p (entry (ixStore ix) p) \<noteq> Inl ErrQuotaExhausted)"
    using processRuns_plan [of ?ix1, OF _ _ p] by simp
  have "fatal = None" unfolding f
  proof (intro ballI)
    fix x assume "x \<in> set (sched files)"
    then have "fst x \<in> set files" using schedule_counts(1) [OF sched] by blast
    then show "case x of (p, delivered) \<Rightarrow> delivered \<longrightarrow>
        outcome_of env (vsDims vs (ixStore ix)) (ixRecipe ix) p (entry (ixStore ix) p) \<noteq> Inl ErrQuotaExhausted"
      using q by (cases x) simp
  qed
  then show ?thesis using env by (simp add: Sync_def processFiles_def files(1) p Let_def split: prod.split)
qed

end

section \<open>Properties of a scan\<close>

text \<open>C15. A scan that reports no error leaves the index reflecting the disk: a file whose text is worth indexing and
could be embedded has an entry with the hash of its content and exactly the blocks \<open>ChunkFile\<close>
makes of it, and each of these blocks is the text of the whole lines it names; a file that is
not worth indexing has none, nor has a file the state file records that is no longer listed. (The hypothesis
on the old entries says that a stored hash stands for the content it was computed from.)\<close>

theorem Sync_reflects_disk:
  assumes "local_inv (ixStore ix)" "distinct (map fst (ixState ix))" "tree_ok env" "collect env = Inr files"
    and "schedule False files (sched files)" and "Sync env (local_store cosine) sched ix = (st, None, ix')"
    and no_collision: "\<forall>p h cs ws content. local_entry (ixStore ix) p = Some (h, cs, ws) \<and> seRead env p = Some content \<and>
      h = FileHash (seSha env) (ixRecipe ix) content \<longrightarrow> cs = chunksOf env p content"
  shows "local_inv (ixStore ix') \<and>
    (\<forall>p \<in> set files. \<forall>content. seRead env p = Some content \<longrightarrow>
       (\<not> IndexableContent content \<longrightarrow> local_entry (ixStore ix') p = None) \<and>
       (\<forall>vecs. IndexableContent content \<and> chunksOf env p content \<noteq> [] \<and> seEmbed env p (map cContent (chunksOf env p content)) = Inr vecs \<and>
          length (chunksOf env p content) * lsDims (ixStore ix) = length (concat vecs) \<longrightarrow>
          (\<exists>ws. local_entry (ixStore ix') p = Some (FileHash (seSha env) (ixRecipe ix) content, chunksOf env p content, ws)) \<and>
          (\<forall>c \<in> set (chunksOf env p content). exact (splitLines content) c))) \<and>
    (\<forall>p. p \<notin> set files \<and> map_of (ixState ix) p \<noteq> None \<longrightarrow> local_entry (ixStore ix') p = None) \<and>
    sScanned st = length files"
proof -
  have ok: "localstore.ix_ok ix" using assms(1,2) by (simp add: localstore.ix_ok_def)
  have d: "vsDims (local_store cosine) (ixStore ix) = lsDims (ixStore ix)" by (simp add: local_store_def)
  note S = localstore.Sync_spec [OF ok assms(4) collect_distinct [OF assms(3,4)] assms(5,6), unfolded d]
  have e: "local_entry (ixStore ix') p = entry_of env (lsDims (ixStore ix)) (ixRecipe ix) p (local_entry (ixStore ix) p)" if "p \<in> set files" for p
    using S that by simp
  have known: "h = FileHash (seSha env) (ixRecipe ix) content \<Longrightarrow> cs = chunksOf env p content"
    if "local_entry (ixStore ix) p = Some (h, cs, ws)" "seRead env p = Some content" for p h cs ws content
    using no_collision that by blast
  show ?thesis
  proof (intro conjI ballI allI impI)
    show "local_inv (ixStore ix')" using S by (simp add: localstore.agrees_def localstore.ix_ok_def)
    show "sScanned st = length files" using S by simp
  next
    fix p assume "p \<notin> set files \<and> map_of (ixState ix) p \<noteq> None"
    then show "local_entry (ixStore ix') p = None" using S by auto
  next
    fix p content assume "p \<in> set files" "seRead env p = Some content" "\<not> IndexableContent content"
    then show "local_entry (ixStore ix') p = None" by (simp add: e entry_of_def plan_def Let_def)
  next
    fix p content vecs c
    assume "IndexableContent content \<and> chunksOf env p content \<noteq> [] \<and> seEmbed env p (map cContent (chunksOf env p content)) = Inr vecs \<and>
        length (chunksOf env p content) * lsDims (ixStore ix) = length (concat vecs)" "c \<in> set (chunksOf env p content)"
    then show "exact (splitLines content) c" using chunksOf_exact by blast
  next
    fix p content vecs
    assume a: "p \<in> set files" "seRead env p = Some content"
      "IndexableContent content \<and> chunksOf env p content \<noteq> [] \<and> seEmbed env p (map cContent (chunksOf env p content)) = Inr vecs \<and>
        length (chunksOf env p content) * lsDims (ixStore ix) = length (concat vecs)"
    show "\<exists>ws. local_entry (ixStore ix') p = Some (FileHash (seSha env) (ixRecipe ix) content, chunksOf env p content, ws)"
    proof (cases "hit (local_entry (ixStore ix) p) (FileHash (seSha env) (ixRecipe ix) content)")
      case True
      then obtain cs ws where o': "local_entry (ixStore ix) p = Some (FileHash (seSha env) (ixRecipe ix) content, cs, ws)"
        by (auto simp: hit_def split: option.splits)
      then show ?thesis using a True known [OF o' a(2)] by (simp add: e entry_of_def plan_def Let_def)
    next
      case False
      then show ?thesis using a by (simp add: e entry_of_def plan_def Let_def)
    qed
  qed
qed

text \<open>The result of a scan does not depend on the workers: under any two orders of completion the scan ends in the
same way, with the same entries, the same recorded hashes and the same counts.\<close>

theorem Sync_independent_of_workers:
  assumes "local_inv (ixStore ix)" "distinct (map fst (ixState ix))" "tree_ok env" "collect env = Inr files"
    and "schedule False files (sched files)" "schedule False files (sched' files)"
    and "Sync env (local_store cosine) sched ix = (st, None, ix')"
  shows "\<exists>st' ix''. Sync env (local_store cosine) sched' ix = (st', None, ix'') \<and>
    local_entry (ixStore ix'') = local_entry (ixStore ix') \<and> map_of (ixState ix'') = map_of (ixState ix') \<and>
    sScanned st' = sScanned st \<and> sEmbedded st' = sEmbedded st \<and> sUnchanged st' = sUnchanged st"
proof -
  have ok: "localstore.ix_ok ix" using assms(1,2) by (simp add: localstore.ix_ok_def)
  have d: "distinct files" by (rule collect_distinct [OF assms(3,4)])
  note S = localstore.Sync_spec [OF ok assms(4) d assms(5,7)]
  have env: "seCtxErr env = None" "seStoreSave env = None" "seStateSave env = None"
    using assms(7) by (auto simp: Sync_def processFiles_def assms(4) Let_def split: option.splits prod.splits)
  have "fst (snd (Sync env (local_store cosine) sched' ix)) = None"
    using S by (intro localstore.Sync_succeeds [OF ok assms(4) d _ env]) (use assms(6) in blast)+
  then obtain st' ix'' where s: "Sync env (local_store cosine) sched' ix = (st', None, ix'')" by (metis prod.collapse)
  note S' = localstore.Sync_spec [OF ok assms(4) d assms(6) s]
  show ?thesis using s S S' by (auto simp: fun_eq_iff)
qed

lemma chunksOf_embed [simp]: "chunksOf (env\<lparr>seEmbed := f\<rparr>) p content = chunksOf env p content"
  by (simp add: chunksOf_def)

lemma collect_embed [simp]: "collect (env\<lparr>seEmbed := f\<rparr>) = collect env"
  by (cases "seWalkErr env") (simp_all add: collect_def)

lemma plan_again:
  assumes "fst (plan env d r p old) = Inr b" "\<forall>x. seSha env x \<noteq> []"
  shows "plan (env\<lparr>seEmbed := f\<rparr>) d r p (snd (plan env d r p old)) = (Inr False, snd (plan env d r p old))"
proof (cases "seRead env p")
  case None
  then show ?thesis using assms(1) by (simp add: plan_def)
next
  case (Some content)
  then show ?thesis using assms
    by (auto simp: plan_def Let_def hit_def FileHash_def split: if_splits sum.splits option.splits)
qed

lemma filters_cover:
  "length (filter P xs) + length (filter Q xs) = length xs \<Longrightarrow> (\<And>x. \<not> (P x \<and> Q x)) \<Longrightarrow> \<forall>x \<in> set xs. P x \<or> Q x"
proof (induction xs)
  case (Cons x xs)
  have "length (filter P xs) + length (filter Q xs) \<le> length xs"
    using Cons.prems(2) by (induction xs) (auto simp: Suc_le_eq le_Suc_eq)
  with Cons show ?case by (auto split: if_splits)
qed simp

text \<open>The scan is incremental: after a scan that dealt with every file, a second one over the same disk embeds
nothing, whatever the embedder, whatever the order of the workers, and leaves every entry as it is.\<close>

theorem second_Sync_embeds_nothing:
  assumes "local_inv (ixStore ix)" "distinct (map fst (ixState ix))" "tree_ok env" "collect env = Inr files"
    and "schedule False files (sched files)" "schedule False files (sched' files)" and "\<forall>x. seSha env x \<noteq> []"
    and "Sync env (local_store cosine) sched ix = (st, None, ix')" and "sEmbedded st + sUnchanged st = sScanned st"
  shows "\<exists>st' ix''. Sync (env\<lparr>seEmbed := embed'\<rparr>) (local_store cosine) sched' ix' = (st', None, ix'') \<and>
    sEmbedded st' = 0 \<and> sUnchanged st' = length files \<and> local_entry (ixStore ix'') = local_entry (ixStore ix')"
proof -
  let ?env = "env\<lparr>seEmbed := embed'\<rparr>" and ?vs = "local_store cosine"
  have ok: "localstore.ix_ok ix" using assms(1,2) by (simp add: localstore.ix_ok_def)
  have d: "distinct files" by (rule collect_distinct [OF assms(3,4)])
  note S = localstore.Sync_spec [OF ok assms(4) d assms(5,8)]
  have ok': "localstore.ix_ok ix'" and same: "vsDims ?vs (ixStore ix') = vsDims ?vs (ixStore ix)" "ixRecipe ix' = ixRecipe ix"
    using S by (simp_all add: localstore.agrees_def)
  let ?oc = "\<lambda>p. outcome_of env (vsDims ?vs (ixStore ix)) (ixRecipe ix) p (local_entry (ixStore ix) p)"
  have dealt: "\<forall>p \<in> set files. ?oc p = Inr True \<or> ?oc p = Inr False"
    by (rule filters_cover) (use S assms(9) in auto)
  have again: "plan ?env (vsDims ?vs (ixStore ix')) (ixRecipe ix') p (local_entry (ixStore ix') p) = (Inr False, local_entry (ixStore ix') p)"
    if "p \<in> set files" for p
  proof -
    have e: "local_entry (ixStore ix') p = entry_of env (vsDims ?vs (ixStore ix)) (ixRecipe ix) p (local_entry (ixStore ix) p)" using S that by simp
    obtain b where "?oc p = Inr b" using dealt \<open>p \<in> set files\<close> by blast
    then show ?thesis using plan_again [OF _ assms(7)] unfolding same e outcome_of_def entry_of_def by blast
  qed
  have env: "seCtxErr ?env = None" "seStoreSave ?env = None" "seStateSave ?env = None"
    using assms(8) by (auto simp: Sync_def processFiles_def assms(4) Let_def split: option.splits prod.splits)
  have files': "collect ?env = Inr files" using assms(4) by simp
  have sched': "schedule False files (sched' files)" by (rule assms(6))
  have q: "\<forall>p \<in> set files. outcome_of ?env (vsDims ?vs (ixStore ix')) (ixRecipe ix') p (local_entry (ixStore ix') p) \<noteq> Inl ErrQuotaExhausted"
    using again by (simp add: outcome_of_def)
  have "fst (snd (Sync ?env ?vs sched' ix')) = None"
    using localstore.Sync_succeeds [OF ok' files' d _ env q] sched' by blast
  then obtain st' ix'' where s: "Sync ?env ?vs sched' ix' = (st', None, ix'')" by (metis prod.collapse)
  note S' = localstore.Sync_spec [OF ok' files' d sched' s]
  have "filter (\<lambda>p. outcome_of ?env (vsDims ?vs (ixStore ix')) (ixRecipe ix') p (local_entry (ixStore ix') p) = Inr True) files = []"
    using again by (auto simp: filter_empty_conv outcome_of_def)
  moreover have "filter (\<lambda>p. outcome_of ?env (vsDims ?vs (ixStore ix')) (ixRecipe ix') p (local_entry (ixStore ix') p) = Inr False) files = files"
    using again by (auto simp: filter_id_conv outcome_of_def)
  moreover have "local_entry (ixStore ix'') p = local_entry (ixStore ix') p" for p
    using S S' again [of p] by (auto simp: entry_of_def)
  ultimately show ?thesis using s S' by (auto simp: fun_eq_iff)
qed

text \<open>A scan that is interrupted loses nothing: whatever results a cancellation or an exhausted quota left behind, every
entry is either still the old one or already the one a complete scan gives the file, nothing is
removed, and the status names the error.\<close>

theorem interrupted_Sync_loses_nothing:
  assumes "local_inv (ixStore ix)" "distinct (map fst (ixState ix))" "tree_ok env" "collect env = Inr files"
    and "schedule stopped files (sched files)" and "seStoreSave env = None" "seStateSave env = None"
    and "Sync env (local_store cosine) sched ix = (st, Some e, ix')"
  shows "local_inv (ixStore ix') \<and> sRemoved st = 0 \<and> stErr (ixStatus ix') = Some e \<and>
    stPhase (ixStatus ix') = (if e = ErrQuotaExhausted then PhaseQuota else PhaseFailed) \<and>
    (\<forall>p. local_entry (ixStore ix') p = local_entry (ixStore ix) p \<or>
       p \<in> set files \<and> local_entry (ixStore ix') p = entry_of env (lsDims (ixStore ix)) (ixRecipe ix) p (local_entry (ixStore ix) p))"
proof -
  have ok: "localstore.ix_ok ix" using assms(1,2) by (simp add: localstore.ix_ok_def)
  have d: "vsDims (local_store cosine) (ixStore ix) = lsDims (ixStore ix)" by (simp add: local_store_def)
  note S = localstore.Sync_interrupted [OF ok assms(4) collect_distinct [OF assms(3,4)] assms(5-8), unfolded d]
  then show ?thesis unfolding localstore.agrees_def localstore.ix_ok_def by blast
qed

text \<open>The sweep goes through the state file only. An entry of a file that is neither on disk nor in the state file
(a lost or corrupt \<open>files.json\<close> loads as an empty state) survives every scan, still without a
record, so no later scan removes it.\<close>

theorem Sync_keeps_unrecorded_entries:
  assumes "local_inv (ixStore ix)" "distinct (map fst (ixState ix))" "tree_ok env" "collect env = Inr files"
    and "schedule False files (sched files)" and "Sync env (local_store cosine) sched ix = (st, None, ix')"
    and "p \<notin> set files" "map_of (ixState ix) p = None"
  shows "local_entry (ixStore ix') p = local_entry (ixStore ix) p \<and> map_of (ixState ix') p = None \<and>
    p \<notin> set (statePaths (LoadState jDec None))"
proof -
  have ok: "localstore.ix_ok ix" using assms(1,2) by (simp add: localstore.ix_ok_def)
  from localstore.Sync_spec [OF ok assms(4) collect_distinct [OF assms(3,4)] assms(5,6)] show ?thesis
    using assms(7,8) by (simp add: LoadState_def statePaths_def)
qed

section \<open>Witnesses\<close>

definition demo_disk :: SyncEnv where
  "demo_disk = \<lparr>seTree = [File ''a.py'' (Some 120), File ''b.py'' (Some 120), Dir ''tmp'' [File ''c.py'' (Some 9)]],
     seRead = (\<lambda>p. if p = ''a.py'' \<or> p = ''b.py'' then Some sample_py else None), seCompileIgnore = (\<lambda>_ _. False),
     seSha = (\<lambda>x. CHR ''h'' # x), seParseGo = (\<lambda>_ _. None), seEmbed = (\<lambda>_ texts. Inr (map (\<lambda>_. [1, 2]) texts)),
     seStoreSave = None, seStateSave = None, seWalkErr = None, seCtxErr = None\<rparr>"

definition demo_ix :: "LocalStore Index" where
  "demo_ix = NewIndex \<lparr>lsDims = 2, lsModel = ''m'', lsFiles = [(''old.py'', demo_file [3, 4])]\<rparr> [] ''m'' 2"

definition demo_sched :: "bytes list \<Rightarrow> (bytes \<times> bool) list" where
  "demo_sched files = map (\<lambda>f. (f, True)) files"

definition demo_cosine :: "32 word \<Rightarrow> 32 word \<Rightarrow> 32 word \<Rightarrow> int" where
  "demo_cosine d q n = sint d"

lemma demo_facts:
  "local_inv (ixStore demo_ix)" "distinct (map fst (ixState demo_ix))" "tree_ok demo_disk" "collect demo_disk = Inr [''a.py'', ''b.py'']"
  "IndexableContent sample_py" "map_of (ixState demo_ix) ''old.py'' = None" "lsDims (ixStore demo_ix) = 2"
  "local_entry (ixStore demo_ix) ''a.py'' = None" "local_entry (ixStore demo_ix) ''b.py'' = None" "local_entry (ixStore demo_ix) ''old.py'' \<noteq> None" "length (chunksOf demo_disk ''a.py'' sample_py) = 1"
  by code_simp+

lemma demo_read: "seRead demo_disk p = Some content \<longleftrightarrow> (p = ''a.py'' \<or> p = ''b.py'') \<and> content = sample_py" "seSha demo_disk x \<noteq> []"
  by (auto simp: demo_disk_def)

lemma demo_schedule: "schedule b files (demo_sched files)"
  by (auto simp: schedule_def demo_sched_def o_def)

lemma demo_run: "(\<lambda>(st, e, ix). (e, sEmbedded st + sUnchanged st = sScanned st)) (Sync demo_disk (local_store demo_cosine) demo_sched demo_ix) = (None, True)"
  by code_simp

lemma demo_Sync:
  obtains st ix' where "Sync demo_disk (local_store demo_cosine) demo_sched demo_ix = (st, None, ix')" "sEmbedded st + sUnchanged st = sScanned st"
  using demo_run by (cases "Sync demo_disk (local_store demo_cosine) demo_sched demo_ix") auto

lemma demo_no_collision:
  "\<forall>p h cs ws content. local_entry (ixStore demo_ix) p = Some (h, cs, ws) \<and> seRead demo_disk p = Some content \<and>
      h = FileHash (seSha demo_disk) (ixRecipe demo_ix) content \<longrightarrow> cs = chunksOf demo_disk p content"
  using demo_facts(8,9) by (auto simp: demo_read)

theorem Sync_reflects_disk_witness:
  "\<exists>st ix' ws. Sync demo_disk (local_store demo_cosine) demo_sched demo_ix = (st, None, ix') \<and>
     local_entry (ixStore ix') ''a.py'' = Some (FileHash (seSha demo_disk) (ixRecipe demo_ix) sample_py, chunksOf demo_disk ''a.py'' sample_py, ws)"
proof -
  obtain st ix' where s: "Sync demo_disk (local_store demo_cosine) demo_sched demo_ix = (st, None, ix')" using demo_Sync by blast
  obtain c where c: "chunksOf demo_disk ''a.py'' sample_py = [c]" using demo_facts(11) by (auto simp: length_Suc_conv)
  have "seRead demo_disk ''a.py'' = Some sample_py" "seEmbed demo_disk ''a.py'' (map cContent [c]) = Inr [[1, 2]]" by (simp_all add: demo_disk_def)
  then show ?thesis
    using Sync_reflects_disk [OF demo_facts(1,2,3,4) demo_schedule s demo_no_collision] s demo_facts(5,7) c by auto
qed

theorem Sync_independent_of_workers_witness:
  "\<exists>st ix' st' ix''. Sync demo_disk (local_store demo_cosine) demo_sched demo_ix = (st, None, ix') \<and>
     Sync demo_disk (local_store demo_cosine) (\<lambda>fs. demo_sched (rev fs)) demo_ix = (st', None, ix'') \<and>
     local_entry (ixStore ix'') = local_entry (ixStore ix') \<and> sEmbedded st' = sEmbedded st"
proof -
  obtain st ix' where s: "Sync demo_disk (local_store demo_cosine) demo_sched demo_ix = (st, None, ix')" using demo_Sync by blast
  have "schedule False [''a.py'', ''b.py''] (demo_sched (rev [''a.py'', ''b.py'']))" by (simp add: schedule_def demo_sched_def)
  then show ?thesis
    using Sync_independent_of_workers [where sched = demo_sched and sched' = "\<lambda>fs. demo_sched (rev fs)", OF demo_facts(1,2,3,4) demo_schedule _ s] s by blast
qed

theorem second_Sync_embeds_nothing_witness:
  "\<exists>st ix' st' ix''. Sync demo_disk (local_store demo_cosine) demo_sched demo_ix = (st, None, ix') \<and>
     Sync (demo_disk\<lparr>seEmbed := \<lambda>_ _. Inl ErrQuotaExhausted\<rparr>) (local_store demo_cosine) demo_sched ix' = (st', None, ix'') \<and> sEmbedded st' = 0"
proof -
  obtain st ix' where s: "Sync demo_disk (local_store demo_cosine) demo_sched demo_ix = (st, None, ix')" "sEmbedded st + sUnchanged st = sScanned st"
    using demo_Sync by blast
  from second_Sync_embeds_nothing [where sched = demo_sched and sched' = demo_sched, OF demo_facts(1,2,3,4) demo_schedule demo_schedule _ s,
      of "\<lambda>_ _. Inl ErrQuotaExhausted"]
  show ?thesis using s demo_read(2) by blast
qed

definition demo_dry :: SyncEnv where
  "demo_dry = demo_disk\<lparr>seEmbed := \<lambda>_ _. Inl ErrQuotaExhausted\<rparr>"

theorem interrupted_Sync_loses_nothing_witness:
  "\<exists>st ix'. Sync demo_dry (local_store demo_cosine) demo_sched demo_ix = (st, Some ErrQuotaExhausted, ix') \<and>
     stPhase (ixStatus ix') = PhaseQuota \<and> sRemoved st = 0"
proof -
  have "fst (snd (Sync demo_dry (local_store demo_cosine) demo_sched demo_ix)) = Some ErrQuotaExhausted" by code_simp
  then obtain st ix' where s: "Sync demo_dry (local_store demo_cosine) demo_sched demo_ix = (st, Some ErrQuotaExhausted, ix')"
    by (metis prod.collapse)
  have t: "tree_ok demo_dry" "collect demo_dry = Inr [''a.py'', ''b.py'']" "seStoreSave demo_dry = None" "seStateSave demo_dry = None" by code_simp+
  show ?thesis using interrupted_Sync_loses_nothing [OF demo_facts(1,2) t(1,2) demo_schedule t(3,4) s] s by auto
qed

theorem Sync_keeps_unrecorded_entries_witness:
  "\<exists>st ix'. Sync demo_disk (local_store demo_cosine) demo_sched demo_ix = (st, None, ix') \<and> local_entry (ixStore ix') ''old.py'' \<noteq> None"
proof -
  obtain st ix' where s: "Sync demo_disk (local_store demo_cosine) demo_sched demo_ix = (st, None, ix')" using demo_Sync by blast
  from Sync_keeps_unrecorded_entries [OF demo_facts(1,2,3,4) demo_schedule s, of "''old.py''"] show ?thesis
    using s demo_facts(6,10) by auto
qed

end
