(* ===== verification/IndexSearch.thy ===== *)
theory IndexSearch
  imports IndexSync
begin

text \<open>
  \<open>internal/codesearch/search.go\<close>, \<open>commits.go\<close> and \<open>commitindex.go\<close>: the two searches, over code
  and over the history, and the scan that keeps the history indexed. The embedder and the
  reranker are arguments, as is \<open>git\<close>, the output of a git command (\<open>None\<close> when it fails); the
  vector store is any record of the interface. A result \<open>None\<close> is the panic of an index out of
  range. \<open>fmt\<close> texts of errors are left out.

  The lemmas show what a search may return, and that a scan of the history makes the store hold
  exactly the commits git listed.
\<close>

section \<open>Searching code\<close>

definition defaultSearchLimit :: int where "defaultSearchLimit = 10"
definition defaultCandidateFactor :: int where "defaultCandidateFactor = 6"
definition maxCandidates :: int where "maxCandidates = 200"

record SearchOptions =
  soLimit :: int
  soCandidates :: int
  soPathPrefix :: bytes

record 'r Result =
  rsChunk :: Chunk
  rsScore :: 'r
  rsReranked :: bool

datatype InputKind = KindQuery | KindDocument

record 'r Ranked =
  rkIndex :: int
  rkScore :: 'r

type_synonym 'r Reranker = "bytes \<Rightarrow> bytes list \<Rightarrow> int \<Rightarrow> SyncErr + 'r Ranked list"

datatype SearchErr = EmptyQuery | EmbedFailed SyncErr | WrongVectors nat

definition normalizedOptions :: "SearchOptions \<Rightarrow> SearchOptions" where
  "normalizedOptions o0 =
     (let o1 = (if soLimit o0 \<le> 0 then o0\<lparr>soLimit := defaultSearchLimit\<rparr> else o0);
          o2 = (if soCandidates o1 \<le> 0 then o1\<lparr>soCandidates := soLimit o1 * defaultCandidateFactor\<rparr> else o1);
          o3 = (if soCandidates o2 > maxCandidates then o2\<lparr>soCandidates := maxCandidates\<rparr> else o2);
          o4 = (if soCandidates o3 < soLimit o3 then o3\<lparr>soCandidates := soLimit o3\<rparr> else o3)
      in o4\<lparr>soPathPrefix := TrimPrefix (soPathPrefix o4) ''./''\<rparr>)"

definition filterByPrefix :: "'r Match list \<Rightarrow> bytes \<Rightarrow> 'r Match list" where
  "filterByPrefix matches prefix =
     (if prefix = [] then matches else filter (\<lambda>m. HasPrefix (cPath (mChunk m)) prefix) matches)"

definition asResults :: "'r Match list \<Rightarrow> bool \<Rightarrow> 'r Result list" where
  "asResults matches reranked = map (\<lambda>m. \<lparr>rsChunk = mChunk m, rsScore = mScore m, rsReranked = reranked\<rparr>) matches"

definition trim :: "'a list \<Rightarrow> int \<Rightarrow> 'a list" where
  "trim rs limit = (if int (length rs) > limit then take (nat limit) rs else rs)"

fun pick :: "'r Match list \<Rightarrow> 'r Ranked list \<Rightarrow> 'r Result list option" where
  "pick matches [] = Some []"
| "pick matches (r # rs) =
     (if 0 \<le> rkIndex r \<and> rkIndex r < int (length matches)
      then map_option (\<lambda>res. \<lparr>rsChunk = mChunk (matches ! nat (rkIndex r)), rsScore = rkScore r, rsReranked = True\<rparr> # res) (pick matches rs)
      else None)"

definition Search ::
  "(bytes list \<Rightarrow> InputKind \<Rightarrow> SyncErr + 8 word list list) \<Rightarrow> 'r Reranker option \<Rightarrow> ('s, 'r) VectorStore \<Rightarrow> 's \<Rightarrow>
   bytes \<Rightarrow> SearchOptions \<Rightarrow> (SearchErr + 'r Result list) option" where
  "Search emb reranker vs s query0 opts0 =
     (let query = TrimSpace query0
      in if query = [] then Some (Inl EmptyQuery)
         else (let opts = normalizedOptions opts0
           in case emb [query] KindQuery of
                Inl e \<Rightarrow> Some (Inl (EmbedFailed e))
              | Inr vecs \<Rightarrow>
                  if length vecs \<noteq> 1 then Some (Inl (WrongVectors (length vecs)))
                  else (let matches = filterByPrefix (vsSearch vs (hd vecs) (soCandidates opts) s) (soPathPrefix opts)
                    in if matches = [] then Some (Inr [])
                       else (case reranker of
                               None \<Rightarrow> Some (Inr (trim (asResults matches False) (soLimit opts)))
                             | Some rerank \<Rightarrow>
                                 (case rerank query (map (\<lambda>m. cContent (mChunk m)) matches) (soLimit opts) of
                                    Inl e \<Rightarrow> Some (Inr (trim (asResults matches False) (soLimit opts)))
                                  | Inr ranked \<Rightarrow> map_option (\<lambda>out. Inr (trim out (soLimit opts))) (pick matches ranked))))))"

section \<open>Commits\<close>

definition commitDiffLimit :: nat where "commitDiffLimit = 4000"

record Commit =
  cmHash :: bytes
  cmDate :: bytes
  cmAuthor :: bytes
  cmSubject :: bytes
  cmBody :: bytes
  cmFiles :: "bytes list"
  cmDiff :: bytes

definition Document :: "Commit \<Rightarrow> bytes" where
  "Document c =
     cmSubject c @ [LF] @
     (if cmBody c \<noteq> [] then [LF] @ cmBody c @ [LF] else []) @
     [LF] @ cmDate c @ '' '' @ [CHR 0xC2, CHR 0xB7] @ '' '' @ cmAuthor c @ [LF] @
     (if length (cmFiles c) > 0 then ''Archivos: '' @ Join (cmFiles c) '', '' @ [LF] else []) @
     (if cmDiff c \<noteq> [] then [LF] @ cmDiff c else [])"

definition shortHash :: "bytes \<Rightarrow> bytes" where
  "shortHash hash = (if length hash > 8 then take 8 hash else hash)"

definition Summary :: "Commit \<Rightarrow> bytes" where
  "Summary c = shortHash (cmHash c) @ '' '' @ cmDate c @ ''  '' @ cmSubject c"

type_synonym Git = "bytes list \<Rightarrow> bytes option"

definition gitAvailable :: "Git \<Rightarrow> bool" where
  "gitAvailable git =
     (case git [''rev-parse'', ''--is-inside-work-tree''] of None \<Rightarrow> False | Some text \<Rightarrow> TrimSpace text = ''true'')"

definition nonempty_lines :: "bytes \<Rightarrow> bytes list" where
  "nonempty_lines text = filter (\<lambda>l. l \<noteq> []) (split_byte LF (TrimSpace text))"

definition commitHashes :: "Git \<Rightarrow> int \<Rightarrow> bytes list option" where
  "commitHashes git n = map_option nonempty_lines (git [''log'', ''-'' @ show_int n, ''--format=%H''])"

definition commitFieldSep :: char where "commitFieldSep = CHR 0x1F"

text \<open>\<open>strings.SplitN\<close> with a one-byte separator: at most \<open>n\<close> parts, the last one the rest.\<close>

fun SplitN :: "bytes \<Rightarrow> char \<Rightarrow> nat \<Rightarrow> bytes list" where
  "SplitN s sep 0 = []"
| "SplitN s sep (Suc 0) = [s]"
| "SplitN s sep (Suc (Suc n)) =
     (case IndexByte s sep of None \<Rightarrow> [s] | Some i \<Rightarrow> take i s # SplitN (drop (i + 1) s) sep (Suc n))"

definition trimRightLF :: "bytes \<Rightarrow> bytes" where
  "trimRightLF s = rev (dropWhile (\<lambda>c. c = LF) (rev s))"

definition commitFiles :: "Git \<Rightarrow> bytes \<Rightarrow> bytes list" where
  "commitFiles git hash =
     (case git [''show'', ''--name-only'', ''--format='', hash] of None \<Rightarrow> [] | Some text \<Rightarrow> nonempty_lines text)"

definition commitDiff :: "Git \<Rightarrow> bytes \<Rightarrow> bytes" where
  "commitDiff git hash =
     (case git [''show'', ''--format='', ''--unified=1'', hash] of
        None \<Rightarrow> []
      | Some text \<Rightarrow> if length text > commitDiffLimit then take commitDiffLimit text else text)"

definition describeCommit :: "Git \<Rightarrow> bytes \<Rightarrow> Commit option" where
  "describeCommit git hash =
     (case git [''show'', ''--no-patch'', ''--date=short'',
                ''--format='' @ Join [''%H'', ''%ad'', ''%an'', ''%s'', ''%b''] [commitFieldSep], hash] of
        None \<Rightarrow> None
      | Some text \<Rightarrow>
          (let parts = SplitN (trimRightLF text) commitFieldSep 5
           in if length parts < 5 then None
              else Some \<lparr>cmHash = parts ! 0, cmDate = parts ! 1, cmAuthor = parts ! 2,
                         cmSubject = TrimSpace (parts ! 3), cmBody = TrimSpace (parts ! 4),
                         cmFiles = commitFiles git hash, cmDiff = commitDiff git hash\<rparr>))"

text \<open>\<open>ExtractCommits\<close>: without a repository no commits, without an error; \<open>None\<close> is the error of
  \<open>git log\<close>. A commit that cannot be described is left out.\<close>

definition ExtractCommits :: "Git \<Rightarrow> int \<Rightarrow> Commit list option" where
  "ExtractCommits git n =
     (if \<not> gitAvailable git then Some []
      else map_option (List.map_filter (describeCommit git)) (commitHashes git n))"

section \<open>The index of the history\<close>

definition DefaultCommitLimit :: int where "DefaultCommitLimit = 1000"
definition commitEmbedBatch :: nat where "commitEmbedBatch = 32"

record CommitIndex =
  ciGit :: Git
  ciSha :: "bytes \<Rightarrow> bytes"
  ciEmbed :: "bytes list \<Rightarrow> InputKind \<Rightarrow> SyncErr + 8 word list list"
  ciCtxErr :: "nat \<Rightarrow> SyncErr option"
  ciSave :: "SyncErr option"
  ciLimit :: int
  ciRecipe :: bytes

definition NewCommitIndex ::
  "Git \<Rightarrow> (bytes \<Rightarrow> bytes) \<Rightarrow> (bytes list \<Rightarrow> InputKind \<Rightarrow> SyncErr + 8 word list list) \<Rightarrow> (nat \<Rightarrow> SyncErr option) \<Rightarrow> SyncErr option \<Rightarrow>
   bytes \<Rightarrow> int \<Rightarrow> int \<Rightarrow> CommitIndex" where
  "NewCommitIndex git sha emb ctxErr save model dims limit =
     \<lparr>ciGit = git, ciSha = sha, ciEmbed = emb, ciCtxErr = ctxErr, ciSave = save,
      ciLimit = (if limit \<le> 0 then DefaultCommitLimit else limit), ciRecipe = IndexRecipe model dims\<rparr>"

record CommitStats =
  csScanned :: nat
  csEmbedded :: nat
  csUnchanged :: nat
  csRemoved :: nat

definition hashOf :: "CommitIndex \<Rightarrow> Commit \<Rightarrow> bytes" where
  "hashOf ix c = FileHash (ciSha ix) (ciRecipe ix) (Document c)"

fun storeCommits :: "CommitIndex \<Rightarrow> ('s, 'r) VectorStore \<Rightarrow> (Commit \<times> 8 word list) list \<Rightarrow> 's \<Rightarrow> SyncErr option \<times> 's" where
  "storeCommits ix vs [] s = (None, s)"
| "storeCommits ix vs ((c, v) # rest) s =
     (let chunk = \<lparr>cPath = cmHash c, cStartLine = 0, cEndLine = 0, cContent = Document c, cHash = hashOf ix c\<rparr>
      in case vsReplace vs (cmHash c) (hashOf ix c) [chunk] v s of
           None \<Rightarrow> (Some ErrOther, s)
         | Some s' \<Rightarrow> storeCommits ix vs rest s')"

definition embedBatch :: "CommitIndex \<Rightarrow> ('s, 'r) VectorStore \<Rightarrow> Commit list \<Rightarrow> 's \<Rightarrow> SyncErr option \<times> 's" where
  "embedBatch ix vs commits s =
     (case ciEmbed ix (map Document commits) KindDocument of
        Inl e \<Rightarrow> (Some e, s)
      | Inr vecs \<Rightarrow> if length vecs \<noteq> length commits then (Some ErrOther, s)
                  else storeCommits ix vs (zip commits vecs) s)"

text \<open>The loop over the pending commits; \<open>at\<close> is the loop variable \<open>start\<close>.\<close>

function embedLoop :: "CommitIndex \<Rightarrow> ('s, 'r) VectorStore \<Rightarrow> nat \<Rightarrow> Commit list \<Rightarrow> CommitStats \<Rightarrow> 's \<Rightarrow>
    CommitStats \<times> SyncErr option \<times> 's" where
  "embedLoop ix vs at pending stats s =
     (if pending = [] then (stats, None, s)
      else case ciCtxErr ix at of
             Some e \<Rightarrow> (stats, Some e, s)
           | None \<Rightarrow>
               (let batch = take commitEmbedBatch pending
                in case embedBatch ix vs batch s of
                     (Some e, s') \<Rightarrow> (stats, Some e, s')
                   | (None, s') \<Rightarrow> embedLoop ix vs (at + commitEmbedBatch) (drop commitEmbedBatch pending)
                                   (stats\<lparr>csEmbedded := csEmbedded stats + length batch\<rparr>) s'))"
  by pat_completeness auto
termination
  by (relation "measure (\<lambda>(ix, vs, at, pending, stats, s). length pending)") (auto simp: commitEmbedBatch_def)

declare embedLoop.simps [simp del]

definition pendingCommits :: "CommitIndex \<Rightarrow> ('s, 'r) VectorStore \<Rightarrow> 's \<Rightarrow> Commit list \<Rightarrow> Commit list" where
  "pendingCommits ix vs s commits = filter (\<lambda>c. vsFileHash vs (cmHash c) s \<noteq> Some (hashOf ix c)) commits"

definition commitSync :: "CommitIndex \<Rightarrow> ('s, 'r) VectorStore \<Rightarrow> 's \<Rightarrow> CommitStats \<times> SyncErr option \<times> 's" where
  "commitSync ix vs s =
     (let stats = \<lparr>csScanned = 0, csEmbedded = 0, csUnchanged = 0, csRemoved = 0\<rparr>
      in case ExtractCommits (ciGit ix) (ciLimit ix) of
           None \<Rightarrow> (stats, Some ErrOther, s)
         | Some commits \<Rightarrow>
             (let pending = pendingCommits ix vs s commits;
                  stats1 = stats\<lparr>csScanned := length commits, csUnchanged := length commits - length pending\<rparr>
              in case embedLoop ix vs 0 pending stats1 s of
                   (stats2, Some e, s1) \<Rightarrow> (stats2, Some e, s1)
                 | (stats2, None, s1) \<Rightarrow>
                     (let gone = filter (\<lambda>p. p \<notin> cmHash ` set commits) (vsPaths vs s1);
                          s2 = fold (vsDelete vs) gone s1;
                          stats3 = stats2\<lparr>csRemoved := csRemoved stats2 + length gone\<rparr>
                      in case ciSave ix of Some e \<Rightarrow> (stats3, Some e, s2) | None \<Rightarrow> (stats3, None, s2))))"

record 'r CommitResult =
  crHash :: bytes
  crScore :: 'r
  crContent :: bytes

definition commitSubject :: "'r CommitResult \<Rightarrow> bytes" where
  "commitSubject r = fst (Cut (crContent r) [LF])"

definition Message :: "'r CommitResult \<Rightarrow> bytes" where
  "Message r =
     (case CutAt ([LF] @ ''diff --git '') (crContent r) of
        Some (before_diff, _) \<Rightarrow> if length before_diff > 0 then TrimSpace before_diff else TrimSpace (crContent r)
      | None \<Rightarrow> TrimSpace (crContent r))"

definition commitResults :: "'r Match list \<Rightarrow> int \<Rightarrow> 'r CommitResult list" where
  "commitResults matches limit =
     map (\<lambda>m. \<lparr>crHash = cPath (mChunk m), crScore = mScore m, crContent = cContent (mChunk m)\<rparr>)
       (if int (length matches) > limit then take (nat limit) matches else matches)"

fun pickCommits :: "'r Match list \<Rightarrow> 'r Ranked list \<Rightarrow> 'r CommitResult list option" where
  "pickCommits matches [] = Some []"
| "pickCommits matches (r # rs) =
     (if 0 \<le> rkIndex r \<and> rkIndex r < int (length matches)
      then (let m = matches ! nat (rkIndex r)
            in map_option (\<lambda>res. \<lparr>crHash = cPath (mChunk m), crScore = rkScore r, crContent = cContent (mChunk m)\<rparr> # res) (pickCommits matches rs))
      else None)"

definition commitSearch ::
  "(bytes list \<Rightarrow> InputKind \<Rightarrow> SyncErr + 8 word list list) \<Rightarrow> 'r Reranker option \<Rightarrow> ('s, 'r) VectorStore \<Rightarrow> 's \<Rightarrow>
   bytes \<Rightarrow> int \<Rightarrow> (SearchErr + 'r CommitResult list) option" where
  "commitSearch emb reranker vs s query0 limit0 =
     (let query = TrimSpace query0
      in if query = [] then Some (Inl EmptyQuery)
         else (let limit = (if limit0 \<le> 0 then defaultSearchLimit else limit0)
           in case emb [query] KindQuery of
                Inl e \<Rightarrow> Some (Inl (EmbedFailed e))
              | Inr vecs \<Rightarrow>
                  if length vecs \<noteq> 1 then Some (Inl (WrongVectors (length vecs)))
                  else (let matches = vsSearch vs (hd vecs) (limit * defaultCandidateFactor) s
                    in if matches = [] then Some (Inr [])
                       else (case reranker of
                               None \<Rightarrow> Some (Inr (commitResults matches limit))
                             | Some rerank \<Rightarrow>
                                 (case rerank query (map (\<lambda>m. cContent (mChunk m)) matches) limit of
                                    Inl e \<Rightarrow> Some (Inr (commitResults matches limit))
                                  | Inr ranked \<Rightarrow> map_option Inr (pickCommits matches ranked))))))"

section \<open>What a scan of the history does\<close>

definition stored :: "CommitIndex \<Rightarrow> Commit \<Rightarrow> entry \<Rightarrow> bool" where
  "stored ix c e \<longleftrightarrow> (\<exists>v. e = Some (hashOf ix c, [\<lparr>cPath = cmHash c, cStartLine = 0, cEndLine = 0, cContent = Document c, cHash = hashOf ix c\<rparr>], v))"

context vector_store
begin

definition keeps :: "'s \<Rightarrow> 's \<Rightarrow> bytes set \<Rightarrow> bool" where
  "keeps s t P \<longleftrightarrow> inv t \<and> vsDims vs t = vsDims vs s \<and> (\<forall>p. p \<notin> P \<longrightarrow> entry t p = entry s p)"

lemma keeps_trans: "keeps s t P \<Longrightarrow> keeps t u Q \<Longrightarrow> keeps s u (P \<union> Q)"
  by (auto simp: keeps_def)

lemma keeps_mono: "keeps s t P \<Longrightarrow> P \<subseteq> Q \<Longrightarrow> keeps s t Q"
  by (auto simp: keeps_def)

lemma keeps_refl: "inv s \<Longrightarrow> keeps s s P"
  by (simp add: keeps_def)

lemma storeCommits_spec:
  "inv s \<Longrightarrow> distinct (map (cmHash \<circ> fst) cvs) \<Longrightarrow> storeCommits ix vs cvs s = (e, t) \<Longrightarrow>
     keeps s t (cmHash ` fst ` set cvs) \<and> (e = None \<longrightarrow> (\<forall>(c, v) \<in> set cvs. stored ix c (entry t (cmHash c))))"
proof (induction cvs arbitrary: s)
  case Nil
  then show ?case by (simp add: keeps_refl)
next
  case (Cons cv cvs)
  obtain c v where cv: "cv = (c, v)" by (cases cv)
  let ?ch = "\<lparr>cPath = cmHash c, cStartLine = 0, cEndLine = 0, cContent = Document c, cHash = hashOf ix c\<rparr>"
  show ?case
  proof (cases "vsReplace vs (cmHash c) (hashOf ix c) [?ch] v s")
    case None
    then show ?thesis using Cons.prems by (auto simp: cv keeps_refl)
  next
    case (Some s1)
    have "length [?ch] * vsDims vs s = length v"
      using Some replace_bad [of "[?ch]" s v "cmHash c" "hashOf ix c"] by (metis option.simps(3))
    then have s1: "inv s1" "entry s1 = (entry s)(cmHash c \<mapsto> (hashOf ix c, [?ch], v))" "vsDims vs s1 = vsDims vs s"
      using replace [OF Cons.prems(1), of "[?ch]" v "cmHash c" "hashOf ix c"] Some by auto
    have d: "distinct (map (cmHash \<circ> fst) cvs)" "cmHash c \<notin> cmHash ` fst ` set cvs" using Cons.prems(2) by (auto simp: cv image_comp o_def)
    have st: "storeCommits ix vs cvs s1 = (e, t)" using Cons.prems(3) Some by (simp add: cv)
    note IH = Cons.IH [OF s1(1) d(1) st]
    have k: "keeps s s1 {cmHash c}" using s1 by (simp add: keeps_def)
    have "entry t (cmHash c) = entry s1 (cmHash c)" using IH d(2) by (simp add: keeps_def)
    then have "stored ix c (entry t (cmHash c))" by (simp add: s1(2) stored_def)
    moreover have "keeps s t (cmHash ` fst ` set (cv # cvs))" using keeps_trans [OF k] IH by (auto simp: cv)
    ultimately show ?thesis using IH by (auto simp: cv)
  qed
qed

lemma embedBatch_spec:
  assumes "inv s" "distinct (map cmHash cs)" "embedBatch ix vs cs s = (e, t)"
  shows "keeps s t (cmHash ` set cs) \<and> (e = None \<longrightarrow> (\<forall>c \<in> set cs. stored ix c (entry t (cmHash c))))"
proof (cases "ciEmbed ix (map Document cs) KindDocument")
  case (Inl x)
  then show ?thesis using assms by (auto simp: embedBatch_def keeps_refl)
next
  case (Inr vecs)
  show ?thesis
  proof (cases "length vecs = length cs")
    case True
    then have m: "map fst (zip cs vecs) = cs" by simp
    then have d: "distinct (map (cmHash \<circ> fst) (zip cs vecs))" using assms(2) by (metis list.map_comp)
    have f: "fst ` set (zip cs vecs) = set cs" using m by (metis list.set_map)
    have "storeCommits ix vs (zip cs vecs) s = (e, t)" using assms(3) Inr True by (simp add: embedBatch_def)
    from storeCommits_spec [OF assms(1) d this] have k: "keeps s t (cmHash ` set cs)"
      and a: "e = None \<longrightarrow> (\<forall>x \<in> set (zip cs vecs). stored ix (fst x) (entry t (cmHash (fst x))))"
      unfolding f by auto
    have "stored ix c (entry t (cmHash c))" if "e = None" "c \<in> set cs" for c
    proof -
      obtain x where "x \<in> set (zip cs vecs)" "fst x = c" using \<open>c \<in> set cs\<close> unfolding f [symmetric] by blast
      then show ?thesis using a that(1) by blast
    qed
    then show ?thesis using k by blast
  next
    case False
    then show ?thesis using assms Inr by (auto simp: embedBatch_def keeps_refl)
  qed
qed

lemma embedLoop_spec:
  "inv s \<Longrightarrow> distinct (map cmHash pending) \<Longrightarrow> embedLoop ix vs at pending stats s = (stats', e, t) \<Longrightarrow>
     keeps s t (cmHash ` set pending) \<and>
     (e = None \<longrightarrow> (\<forall>c \<in> set pending. stored ix c (entry t (cmHash c))) \<and> stats' = stats\<lparr>csEmbedded := csEmbedded stats + length pending\<rparr>)"
proof (induction pending arbitrary: at stats s rule: length_induct)
  case (1 pending)
  show ?case
  proof (cases "pending = []")
    case True
    then show ?thesis using "1.prems" by (simp add: embedLoop.simps [of _ _ _ "[]"] keeps_refl)
  next
    case False
    let ?b = "take commitEmbedBatch pending" and ?r = "drop commitEmbedBatch pending"
    have sp: "set pending = set ?b \<union> set ?r" "distinct (map cmHash ?b)" "distinct (map cmHash ?r)"
      "cmHash ` set ?b \<inter> cmHash ` set ?r = {}" "length ?b + length ?r = length pending"
    proof -
      have "map cmHash pending = map cmHash ?b @ map cmHash ?r" by (metis append_take_drop_id map_append)
      then have "distinct (map cmHash ?b @ map cmHash ?r)" using "1.prems"(2) by simp
      then show "distinct (map cmHash ?b)" "distinct (map cmHash ?r)" "cmHash ` set ?b \<inter> cmHash ` set ?r = {}"
        unfolding distinct_append by (auto simp del: take_map drop_map)
      show "set pending = set ?b \<union> set ?r" by (metis append_take_drop_id set_append)
      show "length ?b + length ?r = length pending" by (metis append_take_drop_id length_append)
    qed
    have shorter: "length ?r < length pending" using False by (simp add: commitEmbedBatch_def)
    show ?thesis
    proof (cases "ciCtxErr ix at")
      case (Some x)
      then show ?thesis using "1.prems" False by (auto simp: embedLoop.simps [of _ _ _ pending] keeps_refl)
    next
      case None
      obtain e1 s1 where b: "embedBatch ix vs ?b s = (e1, s1)" by fastforce
      note B = embedBatch_spec [OF "1.prems"(1) sp(2) b]
      show ?thesis
      proof (cases e1)
        case (Some x)
        then have "e = Some x" "t = s1" using "1.prems"(3) False None b by (simp_all add: embedLoop.simps [of _ _ _ pending])
        then show ?thesis using B keeps_mono [of s s1 "cmHash ` set ?b" "cmHash ` set pending"] sp(1) by auto
      next
        case None': None
        have i1: "inv s1" using B by (simp add: keeps_def)
        have run: "embedLoop ix vs (at + commitEmbedBatch) ?r (stats\<lparr>csEmbedded := csEmbedded stats + length ?b\<rparr>) s1 = (stats', e, t)"
          using "1.prems"(3) False None None' b by (simp add: embedLoop.simps [of _ _ _ pending] Let_def)
        have IH: "keeps s1 t (cmHash ` set ?r)"
          "e = None \<Longrightarrow> (\<forall>c \<in> set ?r. stored ix c (entry t (cmHash c))) \<and>
             stats' = stats\<lparr>csEmbedded := csEmbedded stats + length ?b + length ?r\<rparr>"
          using "1.IH" [rule_format, OF shorter i1 sp(3) run] by auto
        have "keeps s t (cmHash ` set ?b \<union> cmHash ` set ?r)" using keeps_trans [of s s1 "cmHash ` set ?b"] B IH(1) by blast
        moreover have "cmHash ` set ?b \<union> cmHash ` set ?r = cmHash ` set pending" using sp(1) by blast
        moreover have "entry t (cmHash c) = entry s1 (cmHash c)" if "c \<in> set ?b" for c
        proof -
          have "cmHash c \<notin> cmHash ` set ?r" using sp(4) that by blast
          then show ?thesis using IH(1) unfolding keeps_def by blast
        qed
        ultimately show ?thesis using B None' IH(2) sp(1,5) by (auto simp: add.assoc)
      qed
    qed
  qed
qed

lemma commitSync_spec:
  assumes "inv s" "ExtractCommits (ciGit ix) (ciLimit ix) = Some commits" "distinct (map cmHash commits)"
    and "commitSync ix vs s = (stats, None, t)"
  shows "inv t \<and> dom (entry t) = cmHash ` set commits \<and>
    (\<forall>c \<in> set commits. if hit (entry s (cmHash c)) (hashOf ix c) then entry t (cmHash c) = entry s (cmHash c)
       else stored ix c (entry t (cmHash c))) \<and>
    csEmbedded stats = length (filter (\<lambda>c. \<not> hit (entry s (cmHash c)) (hashOf ix c)) commits) \<and>
    csScanned stats = csEmbedded stats + csUnchanged stats"
proof -
  let ?p = "pendingCommits ix vs s commits"
  let ?st = "\<lparr>csScanned = length commits, csEmbedded = 0, csUnchanged = length commits - length ?p, csRemoved = 0\<rparr>"
  have hits: "vsFileHash vs (cmHash c) s = Some (hashOf ix c) \<longleftrightarrow> hit (entry s (cmHash c)) (hashOf ix c)" for c
    using assms(1) by (auto simp: fileHash hit_def split: option.split)
  have p: "?p = filter (\<lambda>c. \<not> hit (entry s (cmHash c)) (hashOf ix c)) commits" by (simp add: pendingCommits_def hits)
  have ps: "set ?p \<subseteq> set commits" "length ?p \<le> length commits" by (auto simp: p)
  have d: "distinct (map cmHash ?p)" using assms(3) by (simp add: p distinct_map_filter)
  obtain stats2 e s1 where l: "embedLoop ix vs 0 ?p ?st s = (stats2, e, s1)" by (metis prod_cases3)
  have e: "e = None" using assms(4) l by (auto simp: commitSync_def assms(2) Let_def split: option.splits)
  let ?gone = "filter (\<lambda>p. p \<notin> cmHash ` set commits) (vsPaths vs s1)"
  have t: "t = fold (vsDelete vs) ?gone s1" "stats = stats2\<lparr>csRemoved := csRemoved stats2 + length ?gone\<rparr>"
    using assms(4) l e by (auto simp: commitSync_def assms(2) Let_def split: option.splits)
  have L: "keeps s s1 (cmHash ` set ?p)" "\<forall>c \<in> set ?p. stored ix c (entry s1 (cmHash c))"
    "stats2 = ?st\<lparr>csEmbedded := length ?p\<rparr>"
    using embedLoop_spec [OF assms(1) d l] e by auto
  have i1: "inv s1" using L(1) by (simp add: keeps_def)
  have D: "inv t" "entry t = (\<lambda>p. if p \<in> set ?gone then None else entry s1 p)"
    using delete_all [OF i1, of ?gone] unfolding t(1) by blast+
  have gone: "p \<in> set ?gone \<longleftrightarrow> p \<notin> cmHash ` set commits \<and> entry s1 p \<noteq> None" for p
    using paths_dom [OF i1] by (auto simp: dom_def)
  have each: "if hit (entry s (cmHash c)) (hashOf ix c) then entry t (cmHash c) = entry s (cmHash c) else stored ix c (entry t (cmHash c))"
    if "c \<in> set commits" for c
  proof (cases "hit (entry s (cmHash c)) (hashOf ix c)")
    case True
    have "cmHash c \<notin> cmHash ` set ?p"
    proof
      assume "cmHash c \<in> cmHash ` set ?p"
      then obtain c' where c': "c' \<in> set ?p" "cmHash c' = cmHash c" by auto
      then have "c' = c" using assms(3) that ps(1) by (metis distinct_map inj_onD subsetD)
      then show False using c'(1) True by (simp add: p)
    qed
    then show ?thesis using True that L(1) by (auto simp: D(2) gone keeps_def)
  next
    case False
    then have "c \<in> set ?p" using that by (simp add: p)
    then show ?thesis using False that L(2) by (auto simp: D(2) gone)
  qed
  have "entry t q \<noteq> None" if "c \<in> set commits" "q = cmHash c" for c q
    using each [OF that(1)] that(2) by (auto simp: hit_def stored_def split: if_splits option.splits)
  moreover have "entry t q = None" if "q \<notin> cmHash ` set commits" for q
    
  proof (cases "entry s1 q")
    case (Some x)
    then have "q \<in> set ?gone" using that gone by blast
    then show ?thesis by (simp add: D(2))
  qed (simp add: D(2))
  ultimately have "dom (entry t) = cmHash ` set commits"
    by (intro set_eqI) (metis domIff imageE)
  then show ?thesis using D(1) each ps(2) by (simp add: t(2) L(3) p)
qed

end

section \<open>Properties of the searches\<close>

text \<open>The limits of a search: after normalisation there is at least one result to return, at least as many
candidates as results, and never more than \<open>maxCandidates\<close> candidates unless more results were asked for;
values within the bounds are kept.\<close>

theorem normalizedOptions_bounds:
  "let n = normalizedOptions opts
   in 0 < soLimit n \<and> soLimit n \<le> soCandidates n \<and> soCandidates n \<le> max maxCandidates (soLimit n) \<and>
      (0 < soLimit opts \<longrightarrow> soLimit n = soLimit opts) \<and>
      (0 < soLimit opts \<and> soLimit opts \<le> soCandidates opts \<and> soCandidates opts \<le> maxCandidates \<longrightarrow> soCandidates n = soCandidates opts)"
  by (simp add: normalizedOptions_def Let_def defaultSearchLimit_def defaultCandidateFactor_def maxCandidates_def)

theorem normalizedOptions_bounds_witness:
  "soCandidates (normalizedOptions \<lparr>soLimit = 50, soCandidates = 120, soPathPrefix = ''./src''\<rparr>) = 120 \<and>
   soLimit (normalizedOptions \<lparr>soLimit = 50, soCandidates = 120, soPathPrefix = ''./src''\<rparr>) = 50"
  using normalizedOptions_bounds [of "\<lparr>soLimit = 50, soCandidates = 120, soPathPrefix = ''./src''\<rparr>"]
  by (simp add: Let_def maxCandidates_def)

lemma length_trim: "0 \<le> limit \<Longrightarrow> int (length (trim rs limit)) \<le> limit"
  by (simp add: trim_def)

lemma set_trim: "set (trim rs limit) \<subseteq> set rs"
  by (auto simp: trim_def dest: in_set_takeD)

lemma pick_Some: "pick ms rk = Some rs \<Longrightarrow> r \<in> set rs \<Longrightarrow> \<exists>m \<in> set ms. rsChunk r = mChunk m"
proof (induction rk arbitrary: rs)
  case (Cons a rk)
  then obtain z where z: "0 \<le> rkIndex a" "rkIndex a < int (length ms)" "pick ms rk = Some z"
    "rs = \<lparr>rsChunk = mChunk (ms ! nat (rkIndex a)), rsScore = rkScore a, rsReranked = True\<rparr> # z"
    by (auto split: if_splits)
  have "ms ! nat (rkIndex a) \<in> set ms" using z(1,2) by simp
  then show ?case using Cons.IH [OF z(3)] Cons.prems(2) z(4) by auto
qed simp

lemma pick_total: "\<forall>r \<in> set rk. 0 \<le> rkIndex r \<and> rkIndex r < int (length ms) \<Longrightarrow> \<exists>rs. pick ms rk = Some rs"
  by (induction rk) auto

lemma asResults_Some: "r \<in> set (asResults ms b) \<Longrightarrow> \<exists>m \<in> set ms. rsChunk r = mChunk m"
  by (auto simp: asResults_def)

lemma filterByPrefix_set: "m \<in> set (filterByPrefix ms pre) \<longleftrightarrow> m \<in> set ms \<and> HasPrefix (cPath (mChunk m)) pre"
  by (auto simp: filterByPrefix_def)

lemma localSearch_stored:
  assumes "local_inv s" "m \<in> set (localSearch cosine query limit s)"
  shows "\<exists>p h cs ws. local_entry s p = Some (h, cs, ws) \<and> mChunk m \<in> set cs"
proof -
  have "m \<in> scored cosine query s"
  proof (cases "length query = lsDims s \<and> 0 < limit \<and> vnorm query \<noteq> 0")
    case True
    then have "m \<in> set (sort_desc mScore (all_matches cosine query s))"
      using assms(2) by (auto simp: localSearch_eq dest: in_set_takeD)
    then show ?thesis by (simp add: all_matches_set [OF assms(1)])
  next
    case False
    then have "localSearch cosine query limit s = []" by (auto simp: localSearch_def)
    then show ?thesis using assms(2) by simp
  qed
  then show ?thesis by (force simp: scored_def)
qed

lemma Search_answers:
  assumes "local_inv s"
    and "\<forall>rerank q docs k ranked r. reranker = Some rerank \<and> rerank q docs k = Inr ranked \<and> r \<in> set ranked \<longrightarrow>
      0 \<le> rkIndex r \<and> rkIndex r < int (length docs)"
  shows "(case Search emb reranker (local_store cosine) s query opts of
            None \<Rightarrow> False
          | Some (Inl e) \<Rightarrow> True
          | Some (Inr rs) \<Rightarrow> int (length rs) \<le> soLimit (normalizedOptions opts) \<and>
              (\<forall>r \<in> set rs. HasPrefix (cPath (rsChunk r)) (soPathPrefix (normalizedOptions opts)) \<and>
                 (\<exists>p h cs ws. local_entry s p = Some (h, cs, ws) \<and> rsChunk r \<in> set cs))) \<and>
     Search emb (Some (\<lambda>_ _ _. Inl err)) (local_store cosine) s query opts = Search emb None (local_store cosine) s query opts"
proof -
  let ?n = "normalizedOptions opts" and ?S = "Search emb reranker (local_store cosine) s query opts"
  have lim: "0 \<le> soLimit ?n" using normalizedOptions_bounds [of opts] by (simp add: Let_def)
  have good: "\<forall>r \<in> set (trim rs (soLimit ?n)). HasPrefix (cPath (rsChunk r)) (soPathPrefix ?n) \<and>
      (\<exists>p h cs ws. local_entry s p = Some (h, cs, ws) \<and> rsChunk r \<in> set cs)"
    if "\<And>r. r \<in> set rs \<Longrightarrow> \<exists>m \<in> set (filterByPrefix (localSearch cosine v (soCandidates ?n) s) (soPathPrefix ?n)). rsChunk r = mChunk m" for rs v
  proof
    fix r assume "r \<in> set (trim rs (soLimit ?n))"
    then have "r \<in> set rs" using set_trim [of rs "soLimit ?n"] by blast
    from that [OF this] obtain m where m: "m \<in> set (filterByPrefix (localSearch cosine v (soCandidates ?n) s) (soPathPrefix ?n))" "rsChunk r = mChunk m"
      by blast
    then have "m \<in> set (localSearch cosine v (soCandidates ?n) s)" "HasPrefix (cPath (mChunk m)) (soPathPrefix ?n)"
      unfolding filterByPrefix_set by blast+
    then show "HasPrefix (cPath (rsChunk r)) (soPathPrefix ?n) \<and> (\<exists>p h cs ws. local_entry s p = Some (h, cs, ws) \<and> rsChunk r \<in> set cs)"
      using localSearch_stored [OF assms(1)] m(2) by metis
  qed
  have "case ?S of None \<Rightarrow> False | Some (Inl e) \<Rightarrow> True
      | Some (Inr rs) \<Rightarrow> int (length rs) \<le> soLimit ?n \<and> (\<forall>r \<in> set rs. HasPrefix (cPath (rsChunk r)) (soPathPrefix ?n) \<and>
           (\<exists>p h cs ws. local_entry s p = Some (h, cs, ws) \<and> rsChunk r \<in> set cs))"
  proof (cases "TrimSpace query = []")
    case True
    then show ?thesis by (simp add: Search_def Let_def)
  next
    case q: False
    show ?thesis
    proof (cases "emb [TrimSpace query] KindQuery")
      case (Inl e)
      then show ?thesis using q by (simp add: Search_def Let_def)
    next
      case (Inr vecs)
      let ?ms = "filterByPrefix (localSearch cosine (hd vecs) (soCandidates ?n) s) (soPathPrefix ?n)"
      have plain: "\<forall>r \<in> set (trim (asResults ?ms False) (soLimit ?n)). HasPrefix (cPath (rsChunk r)) (soPathPrefix ?n) \<and>
          (\<exists>p h cs ws. local_entry s p = Some (h, cs, ws) \<and> rsChunk r \<in> set cs)"
        by (rule good) (rule asResults_Some)
      show ?thesis
      proof (cases "length vecs = 1 \<and> ?ms \<noteq> []")
        case False
        then show ?thesis using q Inr lim by (auto simp: Search_def Let_def local_store_def)
      next
        case True
        show ?thesis
        proof (cases reranker)
          case None
          then show ?thesis using q Inr True plain length_trim [OF lim] by (simp add: Search_def Let_def local_store_def)
        next
          case (Some rerank)
          show ?thesis
          proof (cases "rerank (TrimSpace query) (map (\<lambda>m. cContent (mChunk m)) ?ms) (soLimit ?n)")
            case (Inl e)
            then show ?thesis using q Inr True Some plain length_trim [OF lim] by (simp add: Search_def Let_def local_store_def)
          next
            case (Inr ranked)
            have "\<forall>r \<in> set ranked. 0 \<le> rkIndex r \<and> rkIndex r < int (length ?ms)"
              using assms(2) Some Inr by fastforce
            then obtain rs where rs: "pick ?ms ranked = Some rs" using pick_total by blast
            have "\<forall>r \<in> set (trim rs (soLimit ?n)). HasPrefix (cPath (rsChunk r)) (soPathPrefix ?n) \<and>
                (\<exists>p h cs ws. local_entry s p = Some (h, cs, ws) \<and> rsChunk r \<in> set cs)"
              by (rule good) (rule pick_Some [OF rs])
            then show ?thesis using q \<open>emb [TrimSpace query] KindQuery = Inr vecs\<close> Inr True Some rs length_trim [OF lim]
              by (simp add: Search_def Let_def local_store_def)
          qed
        qed
      qed
    qed
  qed
  moreover have "Search emb (Some (\<lambda>_ _ _. Inl err)) (local_store cosine) s query opts = Search emb None (local_store cosine) s query opts"
    unfolding Search_def option.case sum.case by (rule refl)
  ultimately show ?thesis by blast
qed

text \<open>A search answers with stored blocks only: at most as many as the limit, all of them under the path prefix, each one a
block of some file in the store; a reranker that fails leaves the order of the vectors; and if the
indices of the reranker point into what it was given, the search does not panic.\<close>

theorem Search_sound:
  assumes "local_inv s"
    and "\<forall>rerank q docs k ranked r. reranker = Some rerank \<and> rerank q docs k = Inr ranked \<and> r \<in> set ranked \<longrightarrow>
      0 \<le> rkIndex r \<and> rkIndex r < int (length docs)"
  shows "(case Search emb reranker (local_store cosine) s query opts of
            None \<Rightarrow> False
          | Some (Inl e) \<Rightarrow> True
          | Some (Inr rs) \<Rightarrow> int (length rs) \<le> soLimit (normalizedOptions opts) \<and>
              (\<forall>r \<in> set rs. HasPrefix (cPath (rsChunk r)) (soPathPrefix (normalizedOptions opts)) \<and>
                 (\<exists>p h cs ws. local_entry s p = Some (h, cs, ws) \<and> rsChunk r \<in> set cs))) \<and>
     Search emb (Some (\<lambda>_ _ _. Inl err)) (local_store cosine) s query opts = Search emb None (local_store cosine) s query opts"
  by (rule Search_answers [OF assms])

definition demo_reranker :: "int Reranker" where
  "demo_reranker q docs k = Inr (map (\<lambda>i. \<lparr>rkIndex = int (length docs) - 1 - int i, rkScore = int i\<rparr>) [0..<length docs])"

definition demo_query :: "bytes list \<Rightarrow> InputKind \<Rightarrow> SyncErr + 8 word list list" where
  "demo_query texts kind = Inr (map (\<lambda>_. [1, 2]) texts)"

definition demo_limits :: SearchOptions where
  "demo_limits = \<lparr>soLimit = 2, soCandidates = 0, soPathPrefix = []\<rparr>"

theorem Search_sound_witness:
  "\<exists>rs. Search demo_query (Some demo_reranker) (local_store demo_cosine) demo_index '' q '' demo_limits = Some (Inr rs) \<and> length rs = 2 \<and>
     (\<forall>r \<in> set rs. \<exists>p h cs ws. local_entry demo_index p = Some (h, cs, ws) \<and> rsChunk r \<in> set cs)"
proof -
  have i: "local_inv demo_index" by code_simp
  have e: "map_option (\<lambda>r. case r of Inl _ \<Rightarrow> 0 | Inr rs \<Rightarrow> length rs) (Search demo_query (Some demo_reranker) (local_store demo_cosine) demo_index '' q '' demo_limits) = Some 2"
    by code_simp
  then obtain rs where r: "Search demo_query (Some demo_reranker) (local_store demo_cosine) demo_index '' q '' demo_limits = Some (Inr rs)" "length rs = 2"
    by (cases "Search demo_query (Some demo_reranker) (local_store demo_cosine) demo_index '' q '' demo_limits")
      (auto split: sum.splits)
  have "\<forall>rerank q docs k ranked r. Some demo_reranker = Some rerank \<and> rerank q docs k = Inr ranked \<and> r \<in> set ranked \<longrightarrow>
      0 \<le> rkIndex r \<and> rkIndex r < int (length docs)"
    by (auto simp: demo_reranker_def)
  note S = Search_sound [OF i this, where emb = demo_query and cosine = demo_cosine and query = "'' q ''" and opts = demo_limits]
  have "soLimit (normalizedOptions demo_limits) = 2" by code_simp
  then show ?thesis using S r by simp
qed


definition demo_prefix_store :: LocalStore where
  "demo_prefix_store = \<lparr>lsDims = 2, lsModel = ''m'', lsFiles =
     [(''lib/b.py'', recomputeNorms 2 \<lparr>fvHash = ''h'', fvChunks = [\<lparr>cPath = ''lib/b.py'', cStartLine = 1, cEndLine = 2, cContent = ''x'', cHash = ''s''\<rparr>],
        fvVecs = [1, 1], fvNorms = []\<rparr>),
      (''src/a.py'', recomputeNorms 2 \<lparr>fvHash = ''h'', fvChunks = [\<lparr>cPath = ''src/a.py'', cStartLine = 1, cEndLine = 2, cContent = ''y'', cHash = ''t''\<rparr>],
        fvVecs = [5, 5], fvNorms = []\<rparr>)]\<rparr>"

text \<open>The prefix is applied after the candidates are cut: a search below a subtree can come back empty although the
store holds a block of that subtree that matches the query, because better matches elsewhere used up
the candidates.\<close>

theorem prefix_filter_after_cut:
  "Search demo_query None (local_store demo_cosine) demo_prefix_store ''q'' \<lparr>soLimit = 1, soCandidates = 1, soPathPrefix = ''lib/''\<rparr> = Some (Inr []) \<and>
   (\<exists>m \<in> scored demo_cosine [1, 2] demo_prefix_store. HasPrefix (cPath (mChunk m)) ''lib/'' \<and> mScore m = 3)"
proof
  show "Search demo_query None (local_store demo_cosine) demo_prefix_store ''q'' \<lparr>soLimit = 1, soCandidates = 1, soPathPrefix = ''lib/''\<rparr> = Some (Inr [])"
    by code_simp
  have i: "local_inv demo_prefix_store" by code_simp
  have "list_ex (\<lambda>m. HasPrefix (cPath (mChunk m)) ''lib/'' \<and> mScore m = 3) (all_matches demo_cosine [1, 2] demo_prefix_store)"
    by code_simp
  then show "\<exists>m \<in> scored demo_cosine [1, 2] demo_prefix_store. HasPrefix (cPath (mChunk m)) ''lib/'' \<and> mScore m = 3"
    by (simp add: all_matches_set [OF i, symmetric] list_ex_iff)
qed

section \<open>Properties of the history\<close>


definition demo_git :: Git where
  "demo_git args =
     (if args = [''rev-parse'', ''--is-inside-work-tree''] then Some ''true''
      else if hd args = ''log'' then Some (''c1'' @ [LF] @ ''c2'')
      else if args ! 1 = ''--no-patch'' then Some (Join [last args, ''2024-01-02'', ''ann'', ''fix it'', ''because''] [commitFieldSep])
      else None)"

definition demo_commits :: CommitIndex where
  "demo_commits = NewCommitIndex demo_git (\<lambda>x. CHR ''h'' # x) (\<lambda>texts kind. Inr (map (\<lambda>_. [1, 2]) texts)) (\<lambda>_. None) None ''m'' 2 0"


text \<open>When git does not answer (it timed out, is not installed, or refuses the directory) the scan takes that for an
empty history: it reports no error and removes every stored commit. A commit that git fails to
describe is removed as well.\<close>

theorem commitSync_without_git_erases:
  assumes "local_inv s" "ciGit ix [''rev-parse'', ''--is-inside-work-tree''] = None" "ciSave ix = None"
  shows "\<exists>stats t. commitSync ix (local_store cosine) s = (stats, None, t) \<and> local_entry t = Map.empty \<and>
    csRemoved stats = card (dom (local_entry s))"
proof -
  have x: "ExtractCommits (ciGit ix) (ciLimit ix) = Some []" using assms(2) by (simp add: ExtractCommits_def gitAvailable_def)
  let ?vs = "local_store cosine"
  have p: "vsPaths ?vs s = localPaths s" by (simp add: local_store_def)
  have r: "commitSync ix ?vs s = (\<lparr>csScanned = 0, csEmbedded = 0, csUnchanged = 0, csRemoved = length (localPaths s)\<rparr>, None,
      fold (vsDelete ?vs) (localPaths s) s)"
    using assms(3) by (simp add: commitSync_def x pendingCommits_def embedLoop.simps [of _ _ _ "[]"] p Let_def)
  have "local_entry (fold (vsDelete ?vs) (localPaths s) s) = Map.empty"
    using localstore.delete_all [OF assms(1), of cosine "localPaths s"] localPaths_set [of s] by (simp add: fun_eq_iff) (metis domIff)
  moreover have "length (localPaths s) = card (dom (local_entry s))"
    using assms(1) localPaths_set [of s] distinct_card [of "localPaths s"] by (simp add: localPaths_def local_inv_def)
  ultimately show ?thesis using r by simp
qed

theorem commitSync_without_git_erases_witness:
  "\<exists>stats t. commitSync (demo_commits\<lparr>ciGit := \<lambda>_. None\<rparr>) (local_store demo_cosine) demo_index = (stats, None, t) \<and> local_entry t = Map.empty"
proof -
  have "local_inv demo_index" by code_simp
  moreover have "ciSave (demo_commits\<lparr>ciGit := \<lambda>_. None\<rparr>) = None" by code_simp
  ultimately show ?thesis
    using commitSync_without_git_erases [of demo_index "demo_commits\<lparr>ciGit := \<lambda>_. None\<rparr>" demo_cosine] by auto
qed

end
