(* ===== verification/Voyage.thy ===== *)
theory Voyage
  imports IndexSearch
begin

text \<open>
  \<open>internal/codesearch/keyring.go\<close>, \<open>quota.go\<close> and \<open>voyage.go\<close>: the client of the embedding service and
  its ring of credentials. HTTP and JSON are arguments: \<open>send key tick\<close> is the outcome of
  the request number \<open>tick\<close>, \<open>sleepErr tick\<close> the outcome of waiting before it, and a decoder reads
  the payload. The other goroutines that share the ring are the argument \<open>others tick\<close>: the
  slots they retire while this one waits for its answer. The calls of \<open>onRetire\<close> are recorded in
  \<open>kNotes\<close>.

  The lemmas show the invariant of the ring (the slot in use is the first one that is not
  retired), that \<open>post\<close> always returns however the service answers and whatever the others
  retire, and that batches and vectors are what the rest of the index relies on.
\<close>

section \<open>The ring of credentials\<close>

record Keyring =
  kKeys :: "bytes list"
  kRetired :: "bool list"
  kActive :: nat
  kNotes :: "(int \<times> nat \<times> nat) list"

fun addKeys :: "bytes list \<Rightarrow> bytes list \<Rightarrow> bytes list" where
  "addKeys ks [] = ks"
| "addKeys ks (raw # rest) =
     (let key = TrimSpace raw in if key = [] \<or> key \<in> set ks then addKeys ks rest else addKeys (ks @ [key]) rest)"

definition NewKeyring :: "bytes list \<Rightarrow> Keyring" where
  "NewKeyring keys =
     (let ks = addKeys [] keys in \<lparr>kKeys = ks, kRetired = replicate (length ks) False, kActive = 0, kNotes = []\<rparr>)"

definition Current :: "Keyring \<Rightarrow> (bytes \<times> nat) option" where
  "Current k = (if kActive k \<ge> length (kKeys k) then None else Some (kKeys k ! kActive k, kActive k))"

definition aliveLocked :: "Keyring \<Rightarrow> nat" where
  "aliveLocked k = length (filter (\<lambda>i. \<not> kRetired k ! i) [0..<length (kKeys k)])"

text \<open>The loop that moves the active slot on; \<open>n\<close> is the number of keys.\<close>

function advance :: "bool list \<Rightarrow> nat \<Rightarrow> nat \<Rightarrow> nat" where
  "advance retired n i = (if i < n \<and> retired ! i then advance retired n (i + 1) else i)"
  by pat_completeness auto
termination by (relation "measure (\<lambda>(r, n, i). n - i)") auto

declare advance.simps [simp del]

definition Retire :: "int \<Rightarrow> Keyring \<Rightarrow> bool \<times> Keyring" where
  "Retire index k =
     (if index < 0 \<or> index \<ge> int (length (kKeys k)) \<or> kRetired k ! nat index then (kActive k < length (kKeys k), k)
      else (let k1 = k\<lparr>kRetired := (kRetired k)[nat index := True]\<rparr>;
                k2 = k1\<lparr>kActive := advance (kRetired k1) (length (kKeys k)) (kActive k)\<rparr>;
                alive = aliveLocked k2
            in (alive > 0, k2\<lparr>kNotes := kNotes k2 @ [(index + 1, alive, length (kKeys k))]\<rparr>)))"

definition keyLen :: "Keyring \<Rightarrow> nat" where
  "keyLen k = length (kKeys k)"

definition Alive :: "Keyring \<Rightarrow> nat" where
  "Alive k = aliveLocked k"

fun FieldsFunc :: "(char \<Rightarrow> bool) \<Rightarrow> bytes \<Rightarrow> bytes \<Rightarrow> bytes list" where
  "FieldsFunc f acc [] = (if acc = [] then [] else [rev acc])"
| "FieldsFunc f acc (c # s) =
     (if f c then (if acc = [] then [] else [rev acc]) @ FieldsFunc f [] s else FieldsFunc f (c # acc) s)"

definition SplitKeys :: "bytes \<Rightarrow> bytes list" where
  "SplitKeys raw =
     filter (\<lambda>f. f \<noteq> []) (map TrimSpace (FieldsFunc (\<lambda>c. c = CHR '','' \<or> c = CHR '';'' \<or> c = CHR '' '' \<or> c = TAB \<or> c = LF) [] raw))"

section \<open>Statuses\<close>

definition quotaSigns :: "bytes list" where
  "quotaSigns = [''insufficient'', ''exhausted'', ''exceeded your'', ''out of credit'', ''no remaining'', ''quota exceeded'']"

definition keyUnusable :: "nat \<Rightarrow> bytes \<Rightarrow> bool" where
  "keyUnusable status detail =
     (if status = 402 \<or> status = 401 then True
      else list_ex (\<lambda>sign. Contains (ToLower detail) sign) quotaSigns)"

definition retryableStatus :: "nat \<Rightarrow> bool" where
  "retryableStatus code = (code = 429 \<or> code \<ge> 500)"

section \<open>Requests\<close>

definition voyageMaxBatchTexts :: nat where "voyageMaxBatchTexts = 1000"
definition voyageMaxBatchTokens :: nat where "voyageMaxBatchTokens = 120000"
definition voyageMaxRerankDocs :: nat where "voyageMaxRerankDocs = 1000"
definition voyageMaxAttempts :: nat where "voyageMaxAttempts = 4"

datatype VErr = VQuota | VCanceled | VTransport | VStatus nat bytes | VDecode | VShape

datatype Response = NoResponse | Response nat bytes

record 'a Wire =
  wSend :: "bytes \<Rightarrow> nat \<Rightarrow> Response"
  wSleepErr :: "nat \<Rightarrow> bool"
  wDetail :: "bytes \<Rightarrow> bytes option"
  wDecode :: "bytes \<Rightarrow> 'a option"
  wOthers :: "nat \<Rightarrow> int list"

definition detailOf :: "'a Wire \<Rightarrow> bytes \<Rightarrow> bytes" where
  "detailOf w payload =
     (case wDetail w payload of Some d \<Rightarrow> if d \<noteq> [] then d else TrimSpace payload | None \<Rightarrow> TrimSpace payload)"

text \<open>The retries with one credential, over the numbers of the attempts: the result, whether another
  credential should be tried, and the number of requests sent so far.\<close>

fun attemptLoop :: "'a Wire \<Rightarrow> bytes \<Rightarrow> nat list \<Rightarrow> VErr \<Rightarrow> nat \<Rightarrow> nat \<Rightarrow> (VErr + 'a) \<times> bool \<times> nat" where
  "attemptLoop w key [] lastErr lastStatus tick = (Inl lastErr, lastStatus = 429, tick)"
| "attemptLoop w key (attempt # rest) lastErr lastStatus tick =
     (if attempt > 0 \<and> wSleepErr w tick then (Inl VCanceled, False, tick)
      else (case wSend w key tick of
              NoResponse \<Rightarrow> attemptLoop w key rest VTransport lastStatus (tick + 1)
            | Response status payload \<Rightarrow>
                if status = 200
                then (case wDecode w payload of None \<Rightarrow> (Inl VDecode, False, tick + 1) | Some a \<Rightarrow> (Inr a, False, tick + 1))
                else (let detail = detailOf w payload
                  in if keyUnusable status detail then (Inl (VStatus status detail), True, tick + 1)
                     else if \<not> retryableStatus status then (Inl (VStatus status detail), False, tick + 1)
                     else attemptLoop w key rest (VStatus status detail) status (tick + 1))))"

definition attemptWithKey :: "'a Wire \<Rightarrow> bytes \<Rightarrow> nat \<Rightarrow> (VErr + 'a) \<times> bool \<times> nat" where
  "attemptWithKey w key tick = attemptLoop w key [0..<voyageMaxAttempts] VTransport 0 tick"

definition retireAll :: "int list \<Rightarrow> Keyring \<Rightarrow> Keyring" where
  "retireAll slots k = fold (\<lambda>i k. snd (Retire i k)) slots k"

partial_function (option) post :: "'a Wire \<Rightarrow> Keyring \<Rightarrow> nat \<Rightarrow> ((VErr + 'a) \<times> Keyring \<times> nat) option" where
  "post w k tick =
     (case Current k of
        None \<Rightarrow> Some (Inl VQuota, k, tick)
      | Some (key, slot) \<Rightarrow>
          (case attemptWithKey w key tick of
             (r, unusable, tick1) \<Rightarrow>
               (let k1 = retireAll (wOthers w tick) k
                in if \<not> unusable then Some (r, k1, tick1)
                   else (case Retire (int slot) k1 of
                           (usable, k2) \<Rightarrow> if \<not> usable then Some (Inl VQuota, k2, tick1) else post w k2 tick1))))"

section \<open>Embeddings\<close>

definition estimateTokens :: "bytes \<Rightarrow> nat" where
  "estimateTokens s = length s div 4 + 1"

fun batchLoop :: "bytes list list \<Rightarrow> bytes list \<Rightarrow> nat \<Rightarrow> bytes list \<Rightarrow> bytes list list" where
  "batchLoop acc cur tokens [] = (if length cur > 0 then acc @ [cur] else acc)"
| "batchLoop acc cur tokens (t # ts) =
     (let est = estimateTokens t
      in if length cur > 0 \<and> (length cur \<ge> voyageMaxBatchTexts \<or> tokens + est > voyageMaxBatchTokens)
         then batchLoop (acc @ [cur]) [t] est ts
         else batchLoop acc (cur @ [t]) (tokens + est) ts)"

definition batchTexts :: "bytes list \<Rightarrow> bytes list list" where
  "batchTexts texts = batchLoop [] [] 0 texts"

definition toInt8 :: "int list \<Rightarrow> 8 word list" where
  "toInt8 v = map (\<lambda>x. word_of_int (max (- 128) (min 127 x))) v"

text \<open>The decoded response: each vector with its \<open>index\<close>, and the tokens charged.\<close>

record EmbedResponse =
  erData :: "(int \<times> int list) list"
  erTokens :: nat

text \<open>One vector put where its index says; \<open>None\<close> is the error.\<close>

fun placeAll :: "nat \<Rightarrow> nat \<Rightarrow> (int \<times> int list) list \<Rightarrow> 8 word list list \<Rightarrow> 8 word list list option" where
  "placeAll n dims [] ordered = Some ordered"
| "placeAll n dims ((i, v) # rest) ordered =
     (if i < 0 \<or> i \<ge> int n then None
      else if length v \<noteq> dims then None
      else placeAll n dims rest (ordered[nat i := toInt8 v]))"

record VoyageState =
  vyKeys :: Keyring
  vyTokens :: nat
  vyTick :: nat

text \<open>The loop of \<open>Embed\<close> over the batches; \<open>wire batch\<close> is the connection with the request for this batch.\<close>

fun embedBatches :: "(bytes list \<Rightarrow> EmbedResponse Wire) \<Rightarrow> nat \<Rightarrow> bytes list list \<Rightarrow> 8 word list list \<Rightarrow> VoyageState \<Rightarrow>
    ((VErr + 8 word list list) \<times> VoyageState) option" where
  "embedBatches wire dims [] acc v = Some (Inr acc, v)"
| "embedBatches wire dims (batch # rest) acc v =
     (case post (wire batch) (vyKeys v) (vyTick v) of
        None \<Rightarrow> None
      | Some (r, k, tick) \<Rightarrow>
          (let v1 = v\<lparr>vyKeys := k, vyTick := tick\<rparr>
           in case r of
                Inl e \<Rightarrow> Some (Inl e, v1)
              | Inr resp \<Rightarrow>
                  (let v2 = v1\<lparr>vyTokens := vyTokens v1 + erTokens resp\<rparr>
                   in if length (erData resp) \<noteq> length batch then Some (Inl VShape, v2)
                      else (case placeAll (length batch) dims (erData resp) (replicate (length batch) []) of
                              None \<Rightarrow> Some (Inl VShape, v2)
                            | Some ordered \<Rightarrow> embedBatches wire dims rest (acc @ ordered) v2))))"

definition Embed :: "(bytes list \<Rightarrow> EmbedResponse Wire) \<Rightarrow> nat \<Rightarrow> bytes list \<Rightarrow> VoyageState \<Rightarrow>
    ((VErr + 8 word list list) \<times> VoyageState) option" where
  "Embed wire dims texts v = embedBatches wire dims (batchTexts texts) [] v"

text \<open>\<open>Rerank\<close>: the decoded response is a list of indices with their relevance.\<close>

definition Rerank :: "(bytes list \<Rightarrow> (int \<times> 'r) list Wire) \<Rightarrow> bytes list \<Rightarrow> VoyageState \<Rightarrow>
    ((VErr + 'r Ranked list) \<times> VoyageState) option" where
  "Rerank wire docs0 v =
     (if length docs0 = 0 then Some (Inr [], v)
      else (let docs = (if length docs0 > voyageMaxRerankDocs then take voyageMaxRerankDocs docs0 else docs0)
        in case post (wire docs) (vyKeys v) (vyTick v) of
             None \<Rightarrow> None
           | Some (r, k, tick) \<Rightarrow>
               (let v1 = v\<lparr>vyKeys := k, vyTick := tick\<rparr>
                in case r of
                     Inl e \<Rightarrow> Some (Inl e, v1)
                   | Inr data \<Rightarrow>
                       Some (Inr (map (\<lambda>(i, x). \<lparr>rkIndex = i, rkScore = x\<rparr>) (filter (\<lambda>(i, x). \<not> (i < 0 \<or> i \<ge> int (length docs))) data)), v1))))"

section \<open>The invariant of the ring\<close>

definition ring_ok :: "Keyring \<Rightarrow> bool" where
  "ring_ok k \<longleftrightarrow>
     length (kRetired k) = length (kKeys k) \<and> kActive k \<le> length (kKeys k) \<and> (\<forall>i < kActive k. kRetired k ! i) \<and>
     (kActive k < length (kKeys k) \<longrightarrow> \<not> kRetired k ! kActive k) \<and>
     distinct (kKeys k) \<and> [] \<notin> set (kKeys k)"

lemma advance_spec:
  "i \<le> n \<Longrightarrow> \<forall>j < i. r ! j \<Longrightarrow>
     i \<le> advance r n i \<and> advance r n i \<le> n \<and> (\<forall>j < advance r n i. r ! j) \<and> (advance r n i < n \<longrightarrow> \<not> r ! advance r n i)"
proof (induction r n i rule: advance.induct)
  case (1 r n i)
  show ?case
  proof (cases "i < n \<and> r ! i")
    case True
    have "\<forall>j < i + 1. r ! j" using "1.prems"(2) True by (simp add: less_Suc_eq)
    then have IH: "i + 1 \<le> advance r n (i + 1) \<and> advance r n (i + 1) \<le> n \<and> (\<forall>j < advance r n (i + 1). r ! j) \<and>
        (advance r n (i + 1) < n \<longrightarrow> \<not> r ! advance r n (i + 1))"
      using "1.IH" [OF True] True by simp
    have "advance r n i = advance r n (i + 1)" using True by (subst advance.simps) simp
    then show ?thesis using IH by simp
  next
    case False
    then have "advance r n i = i" by (subst advance.simps) auto
    then show ?thesis using "1.prems" False by auto
  qed
qed

lemma addKeys_ok: "distinct ks \<Longrightarrow> [] \<notin> set ks \<Longrightarrow> distinct (addKeys ks raw) \<and> [] \<notin> set (addKeys ks raw)"
  by (induction ks raw rule: addKeys.induct) (auto simp: Let_def)

lemma NewKeyring_ok: "ring_ok (NewKeyring keys)"
  using addKeys_ok [of "[]" keys] by (simp add: ring_ok_def NewKeyring_def Let_def)

lemma Retire_ok: "ring_ok k \<Longrightarrow> ring_ok (snd (Retire i k))"
proof -
  assume ok: "ring_ok k"
  show ?thesis
  proof (cases "i < 0 \<or> i \<ge> int (length (kKeys k)) \<or> kRetired k ! nat i")
    case True
    then show ?thesis using ok by (simp add: Retire_def)
  next
    case False
    let ?r = "(kRetired k)[nat i := True]" and ?n = "length (kKeys k)"
    have "?r ! j" if "j < kActive k" for j
      using ok that by (cases "nat i = j") (auto simp: ring_ok_def)
    then have "\<forall>j < kActive k. ?r ! j" by blast
    moreover have "kActive k \<le> ?n" using ok by (simp add: ring_ok_def)
    ultimately show ?thesis using advance_spec [of "kActive k" ?n ?r] ok False
      by (simp add: Retire_def Let_def ring_ok_def)
  qed
qed

lemma retireAll_ok: "ring_ok k \<Longrightarrow> ring_ok (retireAll slots k)"
  by (induction slots arbitrary: k) (auto simp: retireAll_def Retire_ok)

lemma aliveLocked_simps [simp]:
  "aliveLocked (k\<lparr>kNotes := x\<rparr>) = aliveLocked k" "aliveLocked (k\<lparr>kActive := a\<rparr>) = aliveLocked k"
  by (simp_all add: aliveLocked_def)

lemma Alive_0_iff: "ring_ok k \<Longrightarrow> Alive k = 0 \<longleftrightarrow> Current k = None"
proof -
  assume ok: "ring_ok k"
  have "Alive k = 0 \<longleftrightarrow> (\<forall>i < length (kKeys k). kRetired k ! i)"
    by (auto simp: Alive_def aliveLocked_def filter_empty_conv)
  also have "\<dots> \<longleftrightarrow> kActive k \<ge> length (kKeys k)"
    using ok unfolding ring_ok_def by (meson le_less_linear less_le_trans)
  finally show ?thesis by (simp add: Current_def)
qed

lemma filter_update_less:
  assumes "i < n" "\<not> r ! i" "n \<le> length r"
  shows "Suc (length (filter (\<lambda>j. \<not> r[i := True] ! j) [0..<n])) = length (filter (\<lambda>j. \<not> r ! j) [0..<n])"
proof -
  have "distinct (filter P [0..<n])" for P :: "nat \<Rightarrow> bool" by simp
  then have c: "length (filter P [0..<n]) = card {j. j < n \<and> P j}" for P :: "nat \<Rightarrow> bool"
    by (metis (no_types, lifting) Collect_cong atLeast_upt distinct_card lessThan_iff set_filter)
  have "{j. j < n \<and> \<not> r ! j} = insert i {j. j < n \<and> \<not> r[i := True] ! j}" using assms by (auto simp: nth_list_update)
  moreover have "i \<notin> {j. j < n \<and> \<not> r[i := True] ! j}" using assms by auto
  ultimately show ?thesis by (simp add: c)
qed

lemma Retire_Alive:
  assumes "ring_ok k"
  shows "Alive (snd (Retire i k)) \<le> Alive k"
    "0 \<le> i \<Longrightarrow> i < int (length (kKeys k)) \<Longrightarrow> \<not> kRetired k ! nat i \<Longrightarrow> Suc (Alive (snd (Retire i k))) = Alive k"
    "fst (Retire i k) \<longleftrightarrow> 0 < Alive (snd (Retire i k))"
    "kKeys (snd (Retire i k)) = kKeys k"
    "kRetired k ! j \<Longrightarrow> j < length (kKeys k) \<Longrightarrow> kRetired (snd (Retire i k)) ! j"
    "0 \<le> i \<Longrightarrow> i < int (length (kKeys k)) \<Longrightarrow> kRetired (snd (Retire i k)) ! nat i"
proof -
  have len: "length (kRetired k) = length (kKeys k)" using assms by (simp add: ring_ok_def)
  have act: "Current k = None \<longleftrightarrow> \<not> kActive k < length (kKeys k)" by (simp add: Current_def not_less)
  show s: "Suc (Alive (snd (Retire i k))) = Alive k" if "0 \<le> i" "i < int (length (kKeys k))" "\<not> kRetired k ! nat i"
    using that filter_update_less [of "nat i" "length (kKeys k)" "kRetired k"] len
    by (simp add: Retire_def Let_def Alive_def aliveLocked_def)
  show "Alive (snd (Retire i k)) \<le> Alive k"
  proof (cases "i < 0 \<or> i \<ge> int (length (kKeys k)) \<or> kRetired k ! nat i")
    case True
    then show ?thesis by (simp add: Retire_def)
  next
    case False
    then show ?thesis using s by simp
  qed
  show "fst (Retire i k) \<longleftrightarrow> 0 < Alive (snd (Retire i k))"
    using Alive_0_iff [OF assms] act by (auto simp: Retire_def Let_def Alive_def)
  show "kKeys (snd (Retire i k)) = kKeys k" by (simp add: Retire_def Let_def)
  show "kRetired (snd (Retire i k)) ! j" if "kRetired k ! j" "j < length (kKeys k)"
    using that len by (auto simp: Retire_def Let_def nth_list_update)
  show "kRetired (snd (Retire i k)) ! nat i" if "0 \<le> i" "i < int (length (kKeys k))"
    using that len by (auto simp: Retire_def Let_def)
qed

lemma retireAll_Alive:
  assumes "ring_ok k"
  shows "Alive (retireAll slots k) \<le> Alive k \<and> kKeys (retireAll slots k) = kKeys k \<and>
    (\<forall>j < length (kKeys k). kRetired k ! j \<longrightarrow> kRetired (retireAll slots k) ! j)"
  using assms
proof (induction slots arbitrary: k)
  case Nil
  then show ?case by (simp add: retireAll_def)
next
  case (Cons i slots)
  have r: "retireAll (i # slots) k = retireAll slots (snd (Retire i k))" by (simp add: retireAll_def)
  show ?case unfolding r
    using Cons.IH [OF Retire_ok [OF Cons.prems]] Retire_Alive [OF Cons.prems] by (metis order_trans)
qed

lemma retired_fewer:
  assumes "ring_ok k" "slot < length (kKeys k)" "\<not> kRetired k ! slot" "kRetired (retireAll slots k) ! slot"
  shows "Alive (retireAll slots k) < Alive k"
  using assms
proof (induction slots arbitrary: k)
  case Nil
  then show ?case by (simp add: retireAll_def)
next
  case (Cons i slots)
  let ?k = "snd (Retire i k)"
  have r: "retireAll (i # slots) k = retireAll slots ?k" by (simp add: retireAll_def)
  have ok: "ring_ok ?k" by (rule Retire_ok [OF Cons.prems(1)])
  show ?case
  proof (cases "kRetired ?k ! slot")
    case True
    have "i = int slot"
    proof (rule ccontr)
      assume "i \<noteq> int slot"
      then have "kRetired ?k ! slot = kRetired k ! slot"
        using Cons.prems(1,2) by (auto simp: Retire_def Let_def ring_ok_def nth_list_update)
      then show False using True Cons.prems(3) by simp
    qed
    then have "Suc (Alive ?k) = Alive k" using Retire_Alive(2) [OF Cons.prems(1)] Cons.prems(2,3) by simp
    then show ?thesis using retireAll_Alive [OF ok, of slots] unfolding r by simp
  next
    case False
    have "Alive (retireAll slots ?k) < Alive ?k"
      using Cons.IH [OF ok _ False] Cons.prems(2,4) Retire_Alive(4) [OF Cons.prems(1)] unfolding r by simp
    then show ?thesis using Retire_Alive(1) [OF Cons.prems(1), of i] unfolding r by simp
  qed
qed

lemma attemptLoop_ticks:
  "attemptLoop w key as e s tick = (r, u, tick') \<Longrightarrow> tick' \<le> tick + length as \<and> (r = Inl VQuota \<longrightarrow> e = VQuota)"
proof (induction as arbitrary: e s tick)
  case (Cons a as)
  show ?case
  proof (cases "a > 0 \<and> wSleepErr w tick")
    case True
    then show ?thesis using Cons.prems by auto
  next
    case False
    show ?thesis
    proof (cases "wSend w key tick")
      case NoResponse
      then show ?thesis using Cons.prems False Cons.IH [of VTransport s "tick + 1"] by auto
    next
      case (Response status payload)
      show ?thesis
      proof (cases "status \<noteq> 200 \<and> \<not> keyUnusable status (detailOf w payload) \<and> retryableStatus status")
        case True
        then show ?thesis using Cons.prems False Response Cons.IH [of "VStatus status (detailOf w payload)" status "tick + 1"] by (auto simp: Let_def)
      next
        case 2: False
        then show ?thesis using Cons.prems False Response by (auto simp: Let_def split: if_splits option.splits)
      qed
    qed
  qed
qed auto

lemma attempt_bounds:
  "attemptWithKey w key tick = (r, u, tick') \<Longrightarrow> tick' \<le> tick + 4 \<and> r \<noteq> Inl VQuota"
  using attemptLoop_ticks [of w key "[0..<voyageMaxAttempts]" VTransport 0 tick r u tick']
  by (auto simp: attemptWithKey_def voyageMaxAttempts_def)

section \<open>Properties of the client\<close>

text \<open>The ring of credentials keeps its invariant: built from any text it holds distinct, non-empty keys, the slot in
use is always the first one that is not retired, and there is none exactly when no key is alive.
\<open>Retire\<close> keeps all this, never brings a key back, takes exactly one key away when its slot was
still in use and none when it was not, and says whether a key is left; so two requests that fail
with the same credential retire one key.\<close>

theorem ring_invariant:
  "ring_ok (NewKeyring keys) \<and>
   (ring_ok k \<longrightarrow>
      ring_ok (snd (Retire i k)) \<and> (Current k = None \<longleftrightarrow> Alive k = 0) \<and>
      (\<forall>key slot. Current k = Some (key, slot) \<longrightarrow>
         slot < length (kKeys k) \<and> key = kKeys k ! slot \<and> \<not> kRetired k ! slot \<and> (\<forall>j < slot. kRetired k ! j)) \<and>
      kKeys (snd (Retire i k)) = kKeys k \<and> (\<forall>j < length (kKeys k). kRetired k ! j \<longrightarrow> kRetired (snd (Retire i k)) ! j) \<and>
      (fst (Retire i k) \<longleftrightarrow> 0 < Alive (snd (Retire i k))) \<and>
      Alive k = Alive (snd (Retire i k)) + (if 0 \<le> i \<and> i < int (length (kKeys k)) \<and> \<not> kRetired k ! nat i then 1 else 0) \<and>
      snd (Retire i (snd (Retire i k))) = snd (Retire i k))"
proof (intro conjI impI)
  show "ring_ok (NewKeyring keys)" by (rule NewKeyring_ok)
next
  assume ok: "ring_ok k"
  show "ring_ok (snd (Retire i k))" by (rule Retire_ok [OF ok])
  show "Current k = None \<longleftrightarrow> Alive k = 0" using Alive_0_iff [OF ok] by simp
  show "\<forall>key slot. Current k = Some (key, slot) \<longrightarrow>
         slot < length (kKeys k) \<and> key = kKeys k ! slot \<and> \<not> kRetired k ! slot \<and> (\<forall>j < slot. kRetired k ! j)"
    using ok by (auto simp: Current_def ring_ok_def split: if_splits)
  show "kKeys (snd (Retire i k)) = kKeys k" by (rule Retire_Alive(4) [OF ok])
  show "\<forall>j < length (kKeys k). kRetired k ! j \<longrightarrow> kRetired (snd (Retire i k)) ! j" using Retire_Alive(5) [OF ok] by blast
  show "fst (Retire i k) \<longleftrightarrow> 0 < Alive (snd (Retire i k))" by (rule Retire_Alive(3) [OF ok])
  show "Alive k = Alive (snd (Retire i k)) + (if 0 \<le> i \<and> i < int (length (kKeys k)) \<and> \<not> kRetired k ! nat i then 1 else 0)"
  proof (cases "0 \<le> i \<and> i < int (length (kKeys k)) \<and> \<not> kRetired k ! nat i")
    case True
    then show ?thesis using Retire_Alive(2) [OF ok, of i] by simp
  next
    case False
    then have "snd (Retire i k) = k" by (auto simp: Retire_def)
    then show ?thesis using False by auto
  qed
  show "snd (Retire i (snd (Retire i k))) = snd (Retire i k)"
  proof (cases "0 \<le> i \<and> i < int (length (kKeys k))")
    case True
    then have "kRetired (snd (Retire i k)) ! nat i" by (intro Retire_Alive(6) [OF ok]) auto
    then show ?thesis by (simp add: Retire_def [of i "snd (Retire i k)"])
  next
    case False
    then have "snd (Retire i k) = k" by (auto simp: Retire_def)
    then show ?thesis by simp
  qed
qed

definition demo_ring :: Keyring where
  "demo_ring = NewKeyring [''k1'', '' k2 '', ''k1'', '''']"

theorem ring_invariant_witness:
  "kKeys demo_ring = [''k1'', ''k2''] \<and> ring_ok (snd (Retire 0 demo_ring)) \<and> Alive (snd (Retire 0 demo_ring)) = 1"
proof -
  have k: "kKeys demo_ring = [''k1'', ''k2'']" "kRetired demo_ring = [False, False]" "Alive demo_ring = 2" by code_simp+
  have "ring_ok demo_ring" unfolding demo_ring_def using ring_invariant by blast
  moreover have "ring_ok demo_ring \<longrightarrow> ring_ok (snd (Retire 0 demo_ring)) \<and> Alive demo_ring =
      Alive (snd (Retire 0 demo_ring)) + (if 0 \<le> (0::int) \<and> 0 < int (length (kKeys demo_ring)) \<and> \<not> kRetired demo_ring ! nat 0 then 1 else 0)"
    using ring_invariant [of "[]" demo_ring 0] by blast
  ultimately show ?thesis by (simp add: k)
qed

lemma post_total:
  assumes "ring_ok k"
  shows "\<exists>r k' tick'. post w k tick = Some (r, k', tick') \<and> ring_ok k' \<and> kKeys k' = kKeys k \<and>
    tick' \<le> tick + 4 * Alive k \<and> (r = Inl VQuota \<longrightarrow> Alive k' = 0)"
  using assms
proof (induction "Alive k" arbitrary: k tick rule: less_induct)
  case less
  show ?case
  proof (cases "Current k")
    case None
    then show ?thesis using less.prems Alive_0_iff [OF less.prems] by (subst post.simps) simp
  next
    case (Some ks)
    obtain key slot where c: "Current k = Some (key, slot)" using Some by (cases ks) simp
    obtain r u tick1 where a: "attemptWithKey w key tick = (r, u, tick1)" by (metis prod_cases3)
    have b: "tick1 \<le> tick + 4" "r \<noteq> Inl VQuota" using attempt_bounds [OF a] by auto
    let ?k1 = "retireAll (wOthers w tick) k"
    have k1: "ring_ok ?k1" "Alive ?k1 \<le> Alive k" "kKeys ?k1 = kKeys k"
      using retireAll_ok [OF less.prems] retireAll_Alive [OF less.prems] by blast+
    have pos: "0 < Alive k" using Alive_0_iff [OF less.prems] c by simp
    have slot: "slot < length (kKeys k)" "\<not> kRetired k ! slot" using c less.prems by (auto simp: Current_def ring_ok_def split: if_splits)
    obtain usable k2 where r2: "Retire (int slot) ?k1 = (usable, k2)" by fastforce
    have k2: "ring_ok k2" "Alive k2 \<le> Alive ?k1" "usable \<longleftrightarrow> 0 < Alive k2" "kKeys k2 = kKeys k"
      using Retire_ok [OF k1(1), of "int slot"] Retire_Alive [OF k1(1), where i = "int slot"] r2 k1(3) by auto
    have less2: "Alive k2 < Alive k"
    proof (cases "kRetired ?k1 ! slot")
      case True
      have "Alive ?k1 \<noteq> Alive k \<or> Alive k2 < Alive k" using retired_fewer [OF less.prems slot True] by simp
      then show ?thesis using k2(2) k1(2) by linarith
    next
      case False
      then have "Suc (Alive k2) = Alive ?k1" using Retire_Alive(2) [OF k1(1), where i = "int slot"] r2 slot k1(3) by simp
      then show ?thesis using k1(2) by simp
    qed
    show ?thesis
    proof (cases "u \<and> usable")
      case False
      then show ?thesis using c a r2 b k1 k2 pos by (subst post.simps) (auto simp: Let_def)
    next
      case True
      obtain r' k' tick' where p: "post w k2 tick1 = Some (r', k', tick')" "ring_ok k'" "kKeys k' = kKeys k2"
        "tick' \<le> tick1 + 4 * Alive k2" "r' = Inl VQuota \<longrightarrow> Alive k' = 0"
        using less.hyps [OF less2 k2(1)] by blast
      then show ?thesis using True c a r2 b(1) less2 k2(4) by (subst post.simps) (auto simp: Let_def)
    qed
  qed
qed

text \<open>C33. \<open>post\<close> always returns: whatever the service answers and whatever keys the other goroutines retire
meanwhile, it ends after at most four requests per key alive, leaves the ring in order, and says the
quota is exhausted only when no key is left.\<close>

theorem post_returns:
  assumes "ring_ok k"
  shows "\<exists>r k' tick'. post w k tick = Some (r, k', tick') \<and> ring_ok k' \<and> kKeys k' = kKeys k \<and>
    tick' \<le> tick + 4 * Alive k \<and> (r = Inl VQuota \<longrightarrow> Alive k' = 0)"
  by (rule post_total [OF assms])

definition demo_wire :: "nat Wire" where
  "demo_wire = \<lparr>wSend = (\<lambda>key tick. if key = ''k1'' then Response 402 ''pay'' else Response 200 ''ok''),
     wSleepErr = (\<lambda>_. False), wDetail = (\<lambda>_. None), wDecode = (\<lambda>p. Some (length p)), wOthers = (\<lambda>_. [])\<rparr>"

theorem post_returns_witness:
  "\<exists>k' tick'. post demo_wire demo_ring 0 = Some (Inr 2, k', tick') \<and> ring_ok k' \<and> tick' \<le> 8 \<and> Current k' = Some (''k2'', 1)"
proof -
  have ok: "ring_ok demo_ring" unfolding demo_ring_def using NewKeyring_ok by blast
  let ?r = "snd (Retire 0 demo_ring)"
  have s: "Current demo_ring = Some (''k1'', 0)" "attemptWithKey demo_wire ''k1'' 0 = (Inl (VStatus 402 ''pay''), True, 1)"
    "fst (Retire 0 demo_ring)" "Current ?r = Some (''k2'', 1)" "attemptWithKey demo_wire ''k2'' 1 = (Inr 2, False, 2)"
    by code_simp+
  then have s1: "attemptWithKey demo_wire ''k2'' (Suc 0) = (Inr 2, False, 2)" by simp
  have o': "retireAll (wOthers demo_wire t) k = k" for t k by (simp add: demo_wire_def retireAll_def)
  have "post demo_wire ?r 1 = Some (Inr 2, ?r, 2)" by (subst post.simps) (simp add: s s1 o')
  moreover have "post demo_wire demo_ring 0 = post demo_wire ?r 1"
  proof -
    obtain ring where r: "Retire 0 demo_ring = (True, ring)" using s(3) by (cases "Retire 0 demo_ring") simp
    then show ?thesis by (subst post.simps) (simp add: s(1,2) o')
  qed
  ultimately have e: "map_option (\<lambda>(r, k, t). (r, Current k)) (post demo_wire demo_ring 0) = Some (Inr 2, Some (''k2'', 1))"
    by (simp add: s)
  have "Alive demo_ring = 2" by code_simp
  then obtain r k' tick' where p: "post demo_wire demo_ring 0 = Some (r, k', tick')" "ring_ok k'" "tick' \<le> 8"
    using post_returns [OF ok, of demo_wire 0] by auto
  then show ?thesis using e by auto
qed

text \<open>A credential is retired although the service refused it for its rate only once: a 429 followed by requests that got
no answer at all ends the attempts as if the 429 had outlived them, since the loop keeps the last
status across failures of the network.\<close>

theorem network_failures_retire_key:
  assumes "wSend w key tick = Response 429 payload" "\<not> keyUnusable 429 (detailOf w payload)"
    and "\<forall>t. tick < t \<and> t \<le> tick + 3 \<longrightarrow> wSend w key t = NoResponse" "\<forall>t. \<not> wSleepErr w t"
  shows "attemptWithKey w key tick = (Inl VTransport, True, tick + 4)"
proof -
  have l: "[0..<voyageMaxAttempts] = [0, 1, 2, 3]" by (simp add: voyageMaxAttempts_def upt_rec)
  have s: "wSend w key (tick + 1) = NoResponse" "wSend w key (tick + 1 + 1) = NoResponse" "wSend w key (tick + 1 + 1 + 1) = NoResponse"
    using assms(3) by simp_all
  show ?thesis unfolding attemptWithKey_def l
    by (simp add: assms(1,2,4) retryableStatus_def s Let_def) (use s assms(4) in simp)
qed

definition demo_flaky :: "nat Wire" where
  "demo_flaky = demo_wire\<lparr>wSend := (\<lambda>key tick. if tick = 0 then Response 429 ''slow down'' else NoResponse)\<rparr>"

theorem network_failures_retire_key_witness:
  "attemptWithKey demo_flaky ''k1'' 0 = (Inl VTransport, True, 4)"
proof -
  have "\<not> keyUnusable 429 (detailOf demo_flaky ''slow down'')" by code_simp
  moreover have "wSend demo_flaky ''k1'' 0 = Response 429 ''slow down''"
    "\<forall>t. 0 < t \<and> t \<le> 0 + 3 \<longrightarrow> wSend demo_flaky ''k1'' t = NoResponse" "\<forall>t. \<not> wSleepErr demo_flaky t"
    by (simp_all add: demo_flaky_def demo_wire_def)
  ultimately show ?thesis using network_failures_retire_key [of demo_flaky "''k1''" 0 "''slow down''"] by simp
qed


definition batch_ok :: "bytes list \<Rightarrow> bool" where
  "batch_ok b \<longleftrightarrow> b \<noteq> [] \<and> length b \<le> voyageMaxBatchTexts \<and>
     (sum_list (map estimateTokens b) \<le> voyageMaxBatchTokens \<or> length b = 1)"

lemma batchLoop_spec:
  "\<forall>b \<in> set acc. batch_ok b \<Longrightarrow> tokens = sum_list (map estimateTokens cur) \<Longrightarrow> cur = [] \<or> batch_ok cur \<Longrightarrow>
     concat (batchLoop acc cur tokens ts) = concat acc @ cur @ ts \<and> (\<forall>b \<in> set (batchLoop acc cur tokens ts). batch_ok b)"
proof (induction ts arbitrary: acc cur tokens)
  case Nil
  then show ?case by auto
next
  case (Cons t ts)
  show ?case
  proof (cases "length cur > 0 \<and> (length cur \<ge> voyageMaxBatchTexts \<or> tokens + estimateTokens t > voyageMaxBatchTokens)")
    case True
    have one: "batch_ok [t]" by (simp add: batch_ok_def voyageMaxBatchTexts_def)
    have "\<forall>b \<in> set (acc @ [cur]). batch_ok b" using Cons.prems True by auto
    then have "concat (batchLoop (acc @ [cur]) [t] (estimateTokens t) ts) = concat (acc @ [cur]) @ [t] @ ts \<and>
        (\<forall>b \<in> set (batchLoop (acc @ [cur]) [t] (estimateTokens t) ts). batch_ok b)"
      by (rule Cons.IH) (use one in simp_all)
    then show ?thesis using True by (simp add: Let_def)
  next
    case False
    have "batch_ok (cur @ [t])" using False Cons.prems by (auto simp: batch_ok_def voyageMaxBatchTexts_def)
    moreover have "concat (batchLoop acc (cur @ [t]) (tokens + estimateTokens t) ts) = concat acc @ (cur @ [t]) @ ts \<and>
        (\<forall>b \<in> set (batchLoop acc (cur @ [t]) (tokens + estimateTokens t) ts). batch_ok b)"
      by (rule Cons.IH) (use Cons.prems calculation in simp_all)
    ultimately show ?thesis using False by (auto simp: Let_def)
  qed
qed

text \<open>The batches are the texts, in order and complete; no batch is empty or larger than the service allows, in
texts or in estimated tokens, unless it is a single text that alone is too large.\<close>

theorem batchTexts_bounded:
  "concat (batchTexts texts) = texts \<and>
   (\<forall>b \<in> set (batchTexts texts). b \<noteq> [] \<and> length b \<le> voyageMaxBatchTexts \<and>
      (sum_list (map estimateTokens b) \<le> voyageMaxBatchTokens \<or> length b = 1))"
  using batchLoop_spec [of "[]" 0 "[]" texts] by (simp add: batchTexts_def batch_ok_def)

theorem batchTexts_bounded_witness:
  "concat (batchTexts [''a'', ''b'']) = [''a'', ''b''] \<and> (\<forall>b \<in> set (batchTexts [''a'', ''b'']). length b \<le> 1000)"
  using batchTexts_bounded [of "[''a'', ''b'']"] by (auto simp: voyageMaxBatchTexts_def)

lemma placeAll_spec:
  "placeAll n dims rs ordered = Some ordered' \<Longrightarrow> length ordered = n \<Longrightarrow>
     length ordered' = n \<and> (\<forall>i < n. if \<exists>v. (int i, v) \<in> set rs then \<exists>v. (int i, v) \<in> set rs \<and> length v = dims \<and> ordered' ! i = toInt8 v else ordered' ! i = ordered ! i)"
proof (induction rs arbitrary: ordered)
  case (Cons r rs)
  obtain j v where r: "r = (j, v)" by (cases r)
  have j: "0 \<le> j" "j < int n" "length v = dims" and p: "placeAll n dims rs (ordered[nat j := toInt8 v]) = Some ordered'"
    using Cons.prems(1) by (auto simp: r split: if_splits)
  have IH: "length ordered' = n" "\<forall>i < n. if \<exists>v. (int i, v) \<in> set rs then \<exists>v. (int i, v) \<in> set rs \<and> length v = dims \<and> ordered' ! i = toInt8 v
      else ordered' ! i = (ordered[nat j := toInt8 v]) ! i"
    using Cons.IH [OF p] Cons.prems(2) by auto
  have "if \<exists>v. (int i, v) \<in> set (r # rs) then \<exists>v. (int i, v) \<in> set (r # rs) \<and> length v = dims \<and> ordered' ! i = toInt8 v
      else ordered' ! i = ordered ! i" if i: "i < n" for i
  proof (cases "\<exists>v. (int i, v) \<in> set rs")
    case True
    then obtain v where "(int i, v) \<in> set rs" "length v = dims" "ordered' ! i = toInt8 v" using IH(2) i by metis
    then show ?thesis by auto
  next
    case False
    then have e: "ordered' ! i = (ordered[nat j := toInt8 v]) ! i" using IH(2) i by auto
    show ?thesis
    proof (cases "int i = j")
      case True
      then have "ordered' ! i = toInt8 v" using e i Cons.prems(2) by auto
      then show ?thesis using True j(3) by (auto simp: r)
    next
      case ne: False
      then have "nat j \<noteq> i" using j(1) by auto
      then show ?thesis using e ne False by (auto simp: r)
    qed
  qed
  then show ?case using IH(1) by blast
qed simp

lemma length_toInt8 [simp]: "length (toInt8 v) = length v"
  by (simp add: toInt8_def)

lemma toInt8_clamps: "i < length v \<Longrightarrow> sint (toInt8 v ! i) = max (- 128) (min 127 (v ! i))"
  by (simp add: toInt8_def sint_sbintrunc' signed_take_bit_int_eq_self)

lemma attemptLoop_decoded:
  "attemptLoop w key as e st tick = (Inr a, u, tick') \<Longrightarrow> \<exists>payload. wDecode w payload = Some a"
proof (induction as arbitrary: e st tick)
  case (Cons n as)
  then show ?case by (auto simp: Let_def split: if_splits Response.splits option.splits)
qed simp

lemma post_decoded:
  assumes "post w k tick = Some (Inr a, k', tick')"
  shows "\<exists>payload. wDecode w payload = Some a"
proof -
  have "\<forall>a. fst y = Inr a \<longrightarrow> (\<exists>payload. wDecode w payload = Some a)" if "post w k tick = Some y" for y
  proof (rule post.raw_induct [where P = "\<lambda>w k tick y. \<forall>a. fst y = Inr a \<longrightarrow> (\<exists>payload. wDecode w payload = Some a)", OF _ that])
    fix f :: "'a Wire \<Rightarrow> Keyring \<Rightarrow> nat \<Rightarrow> ((VErr + 'a) \<times> Keyring \<times> nat) option" and w k tick y
    assume IH: "\<And>w k tick y. f w k tick = Some y \<Longrightarrow> \<forall>a. fst y = Inr a \<longrightarrow> (\<exists>payload. wDecode w payload = Some a)"
      and body: "(case Current k of None \<Rightarrow> Some (Inl VQuota, k, tick)
        | Some (key, slot) \<Rightarrow> (case attemptWithKey w key tick of (r, unusable, tick1) \<Rightarrow>
             (let k1 = retireAll (wOthers w tick) k
              in if \<not> unusable then Some (r, k1, tick1)
                 else (case Retire (int slot) k1 of (usable, k2) \<Rightarrow> if \<not> usable then Some (Inl VQuota, k2, tick1) else f w k2 tick1)))) = Some y"
    show "\<forall>a. fst y = Inr a \<longrightarrow> (\<exists>payload. wDecode w payload = Some a)"
    proof (cases "Current k")
      case None
      then show ?thesis using body by auto
    next
      case (Some ks)
      obtain key slot where c: "ks = (key, slot)" by (cases ks)
      obtain r u tick1 where a: "attemptWithKey w key tick = (r, u, tick1)" by (metis prod_cases3)
      have dec: "\<forall>a. r = Inr a \<longrightarrow> (\<exists>payload. wDecode w payload = Some a)"
        using a attemptLoop_decoded by (auto simp: attemptWithKey_def)
      obtain usable k2 where r: "Retire (int slot) (retireAll (wOthers w tick) k) = (usable, k2)" by fastforce
      show ?thesis
      proof (cases "u \<and> usable")
        case True
        then have "f w k2 tick1 = Some y" using body Some c a r by (simp add: Let_def)
        then show ?thesis by (rule IH)
      next
        case False
        then show ?thesis using body Some c a r dec by (auto simp: Let_def split: if_splits)
      qed
    qed
  qed
  then show ?thesis using assms by auto
qed

lemma placeAll_range: "placeAll n dims rs ordered = Some ordered' \<Longrightarrow> fst ` set rs \<subseteq> int ` {..<n}"
proof (induction rs arbitrary: ordered)
  case (Cons r rs)
  obtain j v where r: "r = (j, v)" by (cases r)
  have "0 \<le> j" "j < int n" using Cons.prems by (auto simp: r split: if_splits)
  then have "j \<in> int ` {..<n}" by (intro image_eqI [of _ _ "nat j"]) auto
  then show ?case using Cons by (auto simp: r split: if_splits)
qed simp

lemma embedBatches_spec:
  "embedBatches wire dims bs acc v = Some (Inr out', v') \<Longrightarrow>
     \<exists>new. out' = acc @ new \<and> length new = length (concat bs) \<and> (\<forall>x \<in> set new. x = [] \<or> length x = dims) \<and>
       ((\<forall>b payload resp. wDecode (wire b) payload = Some resp \<longrightarrow> distinct (map fst (erData resp))) \<longrightarrow> (\<forall>x \<in> set new. length x = dims))"
proof (induction bs arbitrary: acc v)
  case Nil
  then show ?case by simp
next
  case (Cons b bs)
  obtain r k tick where p: "post (wire b) (vyKeys v) (vyTick v) = Some (r, k, tick)"
    using Cons.prems by (auto split: option.splits)
  obtain resp where r: "r = Inr resp" using Cons.prems by (auto simp: p Let_def split: sum.splits)
  let ?v = "v\<lparr>vyKeys := k, vyTick := tick, vyTokens := vyTokens v + erTokens resp\<rparr>"
  obtain ordered where o': "placeAll (length b) dims (erData resp) (replicate (length b) []) = Some ordered"
    and n: "length (erData resp) = length b"
    and rest: "\<exists>v2. embedBatches wire dims bs (acc @ ordered) v2 = Some (Inr out', v')"
    using Cons.prems by (auto simp: p r Let_def split: if_splits option.splits)
  obtain new where new: "out' = (acc @ ordered) @ new" "length new = length (concat bs)" "\<forall>x \<in> set new. x = [] \<or> length x = dims"
    "(\<forall>b payload resp. wDecode (wire b) payload = Some resp \<longrightarrow> distinct (map fst (erData resp))) \<longrightarrow> (\<forall>x \<in> set new. length x = dims)"
    using rest Cons.IH by blast
  have P: "length ordered = length b"
    "\<forall>i < length b. if \<exists>v. (int i, v) \<in> set (erData resp) then \<exists>v. (int i, v) \<in> set (erData resp) \<and> length v = dims \<and> ordered ! i = toInt8 v
       else ordered ! i = replicate (length b) [] ! i"
    using placeAll_spec [OF o'] by auto
  have each: "ordered ! i = [] \<or> length (ordered ! i) = dims" if "i < length b" for i
    using P(2) [rule_format, OF that] that by (auto split: if_splits)
  have "\<exists>payload. wDecode (wire b) payload = Some resp" using post_decoded [OF p [unfolded r]] .
  moreover have full: "length (ordered ! i) = dims" if d: "distinct (map fst (erData resp))" and i: "i < length b" for i
  proof -
    have "fst ` set (erData resp) = int ` {..<length b}"
    proof (rule card_subset_eq)
      show "finite (int ` {..<length b})" by simp
      show "fst ` set (erData resp) \<subseteq> int ` {..<length b}" by (rule placeAll_range [OF o'])
      have "card (fst ` set (erData resp)) = length b" using distinct_card [OF d] n by (simp only: set_map length_map)
      then show "card (fst ` set (erData resp)) = card (int ` {..<length b})" by (simp add: card_image)
    qed
    then have "\<exists>v. (int i, v) \<in> set (erData resp)" using i by (metis image_eqI imageE lessThan_iff prod.collapse)
    then show ?thesis using P(2) [rule_format, OF i] by auto
  qed
  ultimately have "(\<forall>b payload resp. wDecode (wire b) payload = Some resp \<longrightarrow> distinct (map fst (erData resp))) \<longrightarrow> (\<forall>x \<in> set ordered. length x = dims)"
    using P(1) by (metis in_set_conv_nth)
  moreover have "\<forall>x \<in> set ordered. x = [] \<or> length x = dims" using each P(1) by (metis in_set_conv_nth)
  ultimately show ?case using new P(1) by (intro exI [of _ "ordered @ new"]) auto
qed

lemma Embed_returns:
  "ring_ok (vyKeys v) \<Longrightarrow> \<exists>r v'. embedBatches wire dims bs acc v = Some (r, v') \<and> ring_ok (vyKeys v')"
proof (induction bs arbitrary: acc v)
  case Nil
  then show ?case by simp
next
  case (Cons b bs)
  obtain r k tick where p: "post (wire b) (vyKeys v) (vyTick v) = Some (r, k, tick)" "ring_ok k"
    using post_total [OF Cons.prems] by blast
  show ?case
  proof (cases r)
    case (Inl e)
    then show ?thesis using p by simp
  next
    case (Inr resp)
    then show ?thesis using p Cons.IH by (auto simp: Let_def split: option.split)
  qed
qed

text \<open>Every text gets its vector, at its place: an answered \<open>Embed\<close> returns as many vectors as there are texts, and each is empty
or has the configured dimensions; if the service names every index of a batch once, none is empty and together they have the length the store asks for.\<close>

theorem Embed_one_vector_per_text:
  assumes "ring_ok (vyKeys v)"
  shows "\<exists>r v'. Embed wire dims texts v = Some (r, v') \<and> ring_ok (vyKeys v') \<and>
    (\<forall>vecs. r = Inr vecs \<longrightarrow> length vecs = length texts \<and> (\<forall>x \<in> set vecs. x = [] \<or> length x = dims) \<and>
       ((\<forall>b payload resp. wDecode (wire b) payload = Some resp \<longrightarrow> distinct (map fst (erData resp))) \<longrightarrow>
          length (concat vecs) = length texts * dims))"
proof -
  obtain r v' where e: "Embed wire dims texts v = Some (r, v')" "ring_ok (vyKeys v')"
    using Embed_returns [OF assms] unfolding Embed_def by blast
  have "length vecs = length texts \<and> (\<forall>x \<in> set vecs. x = [] \<or> length x = dims) \<and>
      ((\<forall>b payload resp. wDecode (wire b) payload = Some resp \<longrightarrow> distinct (map fst (erData resp))) \<longrightarrow> length (concat vecs) = length texts * dims)"
    if "r = Inr vecs" for vecs
  proof -
    have "concat (batchTexts texts) = texts" using batchLoop_spec [of "[]" 0 "[]" texts] by (simp add: batchTexts_def)
    then have n: "length vecs = length texts" "\<forall>x \<in> set vecs. x = [] \<or> length x = dims"
      "(\<forall>b payload resp. wDecode (wire b) payload = Some resp \<longrightarrow> distinct (map fst (erData resp))) \<longrightarrow> (\<forall>x \<in> set vecs. length x = dims)"
      using e(1) embedBatches_spec [of wire dims "batchTexts texts" "[]" v vecs v'] that by (auto simp: Embed_def)
    have "length (concat vecs) = length vecs * dims" if "\<forall>x \<in> set vecs. length x = dims"
      using that by (induction vecs) auto
    then show ?thesis using n by auto
  qed
  then show ?thesis using e by blast
qed

definition demo_embed_wire :: "bytes list \<Rightarrow> EmbedResponse Wire" where
  "demo_embed_wire batch = \<lparr>wSend = (\<lambda>key tick. Response 200 ''ok''), wSleepErr = (\<lambda>_. False), wDetail = (\<lambda>_. None),
     wDecode = (\<lambda>p. Some \<lparr>erData = map (\<lambda>i. (int (length batch) - 1 - int i, [int i, 300])) [0..<length batch], erTokens = 7\<rparr>),
     wOthers = (\<lambda>_. [])\<rparr>"

theorem Embed_one_vector_per_text_witness:
  "\<exists>r v'. Embed demo_embed_wire 2 [''a'', ''b''] \<lparr>vyKeys = demo_ring, vyTokens = 0, vyTick = 0\<rparr> = Some (r, v') \<and>
     (\<forall>vecs. r = Inr vecs \<longrightarrow> length vecs = 2)"
proof -
  have "ring_ok demo_ring" unfolding demo_ring_def using NewKeyring_ok by blast
  then have "ring_ok (vyKeys \<lparr>vyKeys = demo_ring, vyTokens = 0, vyTick = 0\<rparr>)" by simp
  from Embed_one_vector_per_text [OF this, of demo_embed_wire 2 "[''a'', ''b'']"] show ?thesis by fastforce
qed


definition voyage_reranker :: "(bytes \<Rightarrow> int \<Rightarrow> bytes list \<Rightarrow> (int \<times> 'r) list Wire) \<Rightarrow> VoyageState \<Rightarrow> 'r Reranker" where
  "voyage_reranker wire v query docs topK =
     (case Rerank (wire query topK) docs v of Some (Inr ranked, v') \<Rightarrow> Inr ranked | _ \<Rightarrow> Inl ErrOther)"

lemma Rerank_indices:
  "Rerank wire docs v = Some (Inr ranked, v') \<Longrightarrow> r \<in> set ranked \<Longrightarrow> 0 \<le> rkIndex r \<and> rkIndex r < int (length docs)"
  by (auto simp: Rerank_def Let_def voyageMaxRerankDocs_def split: if_splits option.splits sum.splits)

text \<open>The reranker built on the service gives \<open>Search\<close> only indices of the documents it was given, cut to a thousand or not, so a
search over it never panics.\<close>

theorem Search_over_Voyage_answers:
  assumes "local_inv s"
  shows "case Search emb (Some (voyage_reranker wire v)) (local_store cosine) s query opts of
      None \<Rightarrow> False | Some (Inl e) \<Rightarrow> True | Some (Inr rs) \<Rightarrow> int (length rs) \<le> soLimit (normalizedOptions opts)"
proof -
  have "\<forall>rerank q docs k ranked r. Some (voyage_reranker wire v) = Some rerank \<and> rerank q docs k = Inr ranked \<and> r \<in> set ranked \<longrightarrow>
      0 \<le> rkIndex r \<and> rkIndex r < int (length docs)"
    by (auto simp: voyage_reranker_def split: option.splits sum.splits dest!: Rerank_indices)
  from Search_answers [OF assms this, where emb = emb and cosine = cosine and query = query and opts = opts, THEN conjunct1]
  show ?thesis by (auto split: option.splits sum.splits)
qed

definition demo_rerank_wire :: "bytes \<Rightarrow> int \<Rightarrow> bytes list \<Rightarrow> (int \<times> int) list Wire" where
  "demo_rerank_wire query topK docs = \<lparr>wSend = (\<lambda>key tick. Response 200 ''ok''), wSleepErr = (\<lambda>_. False), wDetail = (\<lambda>_. None),
     wDecode = (\<lambda>p. Some [(7, 9), (1, 8), (0, 5)]), wOthers = (\<lambda>_. [])\<rparr>"

theorem Search_over_Voyage_answers_witness:
  "case Search demo_query (Some (voyage_reranker demo_rerank_wire \<lparr>vyKeys = demo_ring, vyTokens = 0, vyTick = 0\<rparr>))
      (local_store demo_cosine) demo_index ''q'' demo_limits of
     None \<Rightarrow> False | Some (Inl e) \<Rightarrow> True | Some (Inr rs) \<Rightarrow> int (length rs) \<le> 2"
proof -
  have "local_inv demo_index" "soLimit (normalizedOptions demo_limits) = 2" by code_simp+
  then show ?thesis
    using Search_over_Voyage_answers [of demo_index, where emb = demo_query and wire = demo_rerank_wire and
        v = "\<lparr>vyKeys = demo_ring, vyTokens = 0, vyTick = 0\<rparr>" and cosine = demo_cosine and query = "''q''" and opts = demo_limits]
    by (auto split: option.splits sum.splits)
qed

end
