(* ===== verification/GoJson.thy ===== *)
theory GoJson
  imports GoBase
begin

text \<open>
  What \<open>encoding/json\<close> makes of a decoded document. A document is a tree; reading text into a tree is
  left to the parameter \<open>jParse\<close> of the definitions that decode arguments (\<open>None\<close> for a syntax error).
  The rules for filling Go values are written out: into a \<open>map[string]json.RawMessage\<close> the last of several
  equal keys wins, into a struct keys match case-insensitively, \<open>null\<close> leaves a value as it is, and a value of
  another type is an error.
\<close>

datatype json =
    JNull
  | JBool bool
  | JInt int      \<comment> \<open>a number written as an integer\<close>
  | JNum bytes    \<comment> \<open>any other number\<close>
  | JStr bytes
  | JArr "json list"
  | JObj "(bytes \<times> json) list"

type_synonym fields = "(bytes \<times> json) list"

definition decodeFields :: "json option \<Rightarrow> fields option" where
  "decodeFields j = (case j of Some (JObj fs) \<Rightarrow> Some fs | Some JNull \<Rightarrow> Some [] | _ \<Rightarrow> None)"

definition rawField :: "fields \<Rightarrow> bytes \<Rightarrow> json option" where
  "rawField fs key = map_of (rev fs) key"

definition in_int64 :: "int \<Rightarrow> bool" where
  "in_int64 n \<longleftrightarrow> - (2 ^ 63) \<le> n \<and> n < 2 ^ 63"

text \<open>Decoding one value into a \<open>string\<close>, an \<open>int\<close> or a \<open>bool\<close> that holds \<open>v\<close>.\<close>

definition intoString :: "bytes \<Rightarrow> json \<Rightarrow> bytes option" where
  "intoString v j = (case j of JStr s \<Rightarrow> Some s | JNull \<Rightarrow> Some v | _ \<Rightarrow> None)"

definition intoInt :: "int \<Rightarrow> json \<Rightarrow> int option" where
  "intoInt v j = (case j of JInt n \<Rightarrow> if in_int64 n then Some n else None | JNull \<Rightarrow> Some v | _ \<Rightarrow> None)"

definition intoBool :: "bool \<Rightarrow> json \<Rightarrow> bool option" where
  "intoBool v j = (case j of JBool b \<Rightarrow> Some b | JNull \<Rightarrow> Some v | _ \<Rightarrow> None)"

text \<open>A field of a struct: the assignments of every entry whose key matches, in document order.\<close>

fun structField :: "('a \<Rightarrow> json \<Rightarrow> 'a option) \<Rightarrow> bytes \<Rightarrow> fields \<Rightarrow> 'a \<Rightarrow> 'a option" where
  "structField dec key [] v = Some v"
| "structField dec key ((k, j) # fs) v =
     (if EqualFold k key then (case dec v j of None \<Rightarrow> None | Some v' \<Rightarrow> structField dec key fs v')
      else structField dec key fs v)"

text \<open>Decoding into a slice of \<open>'a\<close>; \<open>null\<close> gives the nil slice.\<close>

fun decodeElems :: "(json \<Rightarrow> 'a option) \<Rightarrow> json list \<Rightarrow> 'a list option" where
  "decodeElems dec [] = Some []"
| "decodeElems dec (j # js) =
     (case dec j of None \<Rightarrow> None
      | Some x \<Rightarrow> (case decodeElems dec js of None \<Rightarrow> None | Some xs \<Rightarrow> Some (x # xs)))"

definition decodeSlice :: "(json \<Rightarrow> 'a option) \<Rightarrow> json \<Rightarrow> 'a list option" where
  "decodeSlice dec j = (case j of JArr js \<Rightarrow> decodeElems dec js | JNull \<Rightarrow> Some [] | _ \<Rightarrow> None)"

text \<open>Decoding an object (or \<open>null\<close>) into a struct.\<close>

definition decodeStruct :: "(fields \<Rightarrow> 'a option) \<Rightarrow> json \<Rightarrow> 'a option" where
  "decodeStruct dec j = (case j of JObj fs \<Rightarrow> dec fs | JNull \<Rightarrow> dec [] | _ \<Rightarrow> None)"

section \<open>The field helpers of the evidence package\<close>

definition stringField :: "fields \<Rightarrow> bytes \<Rightarrow> bytes" where
  "stringField fs key =
     (case rawField fs key of None \<Rightarrow> [] | Some j \<Rightarrow> (case intoString [] j of None \<Rightarrow> [] | Some s \<Rightarrow> TrimSpace s))"

definition intField :: "fields \<Rightarrow> bytes \<Rightarrow> int option" where
  "intField fs key = (case rawField fs key of None \<Rightarrow> None | Some j \<Rightarrow> intoInt 0 j)"

definition stringSliceField :: "fields \<Rightarrow> bytes \<Rightarrow> bytes list" where
  "stringSliceField fs key =
     (case rawField fs key of None \<Rightarrow> []
      | Some j \<Rightarrow> (case decodeSlice (intoString []) j of None \<Rightarrow> [] | Some xs \<Rightarrow> xs))"

end
