(* ===== verification/EvCommand.thy ===== *)
theory EvCommand
  imports ShellSafe GoPath GoJson
begin

text \<open>
  What the host concludes from a Bash command for the delivery contract: whether it is a verification,
  whether it may change the workspace, whether its exit status can hide a failure, and whether a cited
  command is one that ran (\<open>internal/evidence/evidence.go\<close> and \<open>commandmatch.go\<close>). The shell parser is
  the parameter \<open>shell\<close> of \<open>ShellAst\<close>.
\<close>

section \<open>Flags and arguments\<close>

definition TrimDashes :: "bytes \<Rightarrow> bytes" where
  "TrimDashes s = dropWhile (\<lambda>c. c = CHR ''-'') s"

text \<open>\<open>name[:i]\<close> for the first \<open>=\<close>.\<close>

definition beforeEq :: "bytes \<Rightarrow> bytes" where
  "beforeEq s = takeWhile (\<lambda>c. c \<noteq> CHR ''='') s"

definition hasCommandArg :: "bytes list \<Rightarrow> bytes list \<Rightarrow> bool" where
  "hasCommandArg args cands = list_ex (\<lambda>arg. list_ex (EqualFold arg) cands) args"

definition writeOutputFlags :: "bytes list" where
  "writeOutputFlags =
     [''snapshot-update'', ''updatesnapshot'', ''junitxml'', ''junit-xml'', ''junitfile'', ''jsonfile'', ''coverprofile'',
      ''cpuprofile'', ''memprofile'', ''blockprofile'', ''mutexprofile'', ''testlogfile'', ''gocoverdir'', ''outputfile'',
      ''report-log'', ''xunit-output'', ''scratch-path'', ''build-path'', ''cache-path'', ''event-stream-output-path'',
      ''experimental-event-stream-output'', ''attachments-path'', ''experimental-attachments-path'']"

definition argWritesOutput :: "bytes \<Rightarrow> bool" where
  "argWritesOutput arg =
     (let name0 = TrimDashes arg in
      if length name0 = length arg \<or> name0 = [] then False
      else let name = TrimPrefix (ToLower (beforeEq name0)) ''test.'' in
        if name \<in> set writeOutputFlags then True
        else (case IndexByte name CHR ''.'' of
                Some i \<Rightarrow> i > 0 \<and> take i name \<in> set writeOutputFlags
              | None \<Rightarrow> False))"

definition hasWriteOutputFlag :: "bytes list \<Rightarrow> bool" where
  "hasWriteOutputFlag args = list_ex argWritesOutput args"

definition mypyFlagWritesReport :: "bytes \<Rightarrow> bool" where
  "mypyFlagWritesReport arg =
     (let name = beforeEq (ToLower arg) in HasPrefix name ''--'' \<and> HasSuffix name ''-report'')"

definition goTestFlagWritesFile :: "bytes \<Rightarrow> bool" where
  "goTestFlagWritesFile arg =
     (let name = beforeEq (ToLower arg); trimmed = TrimDashes name in
      if length trimmed = length name \<or> trimmed = [] then False
      else TrimPrefix trimmed ''test.'' \<in>
        {''c'', ''o'', ''trace'', ''artifacts'', ''testlogfile'', ''gocoverdir'', ''coverprofile'', ''cpuprofile'',
         ''memprofile'', ''blockprofile'', ''mutexprofile''})"

definition nodeTestFlagWritesFile :: "bytes \<Rightarrow> bool" where
  "nodeTestFlagWritesFile arg =
     (beforeEq (ToLower arg) \<in>
        {''--cpu-prof'', ''--heap-prof'', ''--heapsnapshot-near-heap-limit'', ''--heapsnapshot-signal'',
         ''--localstorage-file'', ''--perf-basic-prof'', ''--perf-basic-prof-only-functions'', ''--perf-prof'',
         ''--prof'', ''--redirect-warnings'', ''--report-on-fatalerror'', ''--report-on-signal'',
         ''--report-uncaught-exception'', ''--test-reporter-destination'', ''--test-rerun-failures'',
         ''--test-update-snapshots'', ''--tls-keylog'', ''--trace-events-enabled''})"

definition nodeSegmentIsVerification :: "bytes list \<Rightarrow> bool" where
  "nodeSegmentIsVerification args =
     (case args of
        [] \<Rightarrow> False
      | a # rest \<Rightarrow>
          if a = ''--check'' \<or> a = ''-c'' then list_all (\<lambda>arg. \<not> (arg \<noteq> ''-'' \<and> HasPrefix arg ''-'')) rest
          else if a = ''--test'' then \<not> list_ex nodeTestFlagWritesFile rest
          else False)"

definition tscFlagDisqualifiesVerification :: "bytes \<Rightarrow> bool" where
  "tscFlagDisqualifiesVerification arg =
     (beforeEq (ToLower arg) \<in>
        {''--tsbuildinfofile'', ''--generatetrace'', ''--generatecpuprofile'', ''--init'', ''--help'', ''-h'', ''-?'',
         ''--all'', ''--version'', ''-v'', ''--showconfig'', ''--listfilesonly'', ''--nocheck'', ''--watch'', ''-w'',
         ''--build'', ''-b'', ''--clean''})"

fun tscLoop :: "bytes list \<Rightarrow> bool \<Rightarrow> bool" where
  "tscLoop [] noEmit = noEmit"
| "tscLoop (arg # rest) noEmit =
     (if tscFlagDisqualifiesVerification arg then False
      else if ToLower arg = ''--noemit'' then
        (case rest of
           next # _ \<Rightarrow> if EqualFold next ''false'' then False else tscLoop rest True
         | [] \<Rightarrow> tscLoop rest True)
      else if ToLower arg = ''--noemit=true'' then tscLoop rest True
      else if ToLower arg = ''--noemit=false'' then False
      else tscLoop rest noEmit)"

definition tscSegmentIsVerification :: "bytes list \<Rightarrow> bool" where
  "tscSegmentIsVerification args = tscLoop args False"

definition plainNpxVersion :: "bytes \<Rightarrow> bool" where
  "plainNpxVersion version =
     (version \<noteq> [] \<and>
      list_all (\<lambda>c. (97 \<le> byte c \<and> byte c \<le> 122) \<or> (48 \<le> byte c \<and> byte c \<le> 57) \<or> c \<in> set ''.-+_~^*'') version)"

definition npxRunnerName :: "bytes \<Rightarrow> bytes option" where
  "npxRunnerName spec =
     (if spec = [] \<or> CHR ''/'' \<in> set spec \<or> BSL \<in> set spec then None
      else let name = ToLower spec in
        if HasPrefix name ''@'' then None
        else (case LastIndexByte name CHR ''@'' of
                None \<Rightarrow> Some name
              | Some i \<Rightarrow> if i = 0 \<or> \<not> plainNpxVersion (drop (i + 1) name) then None else Some (take i name)))"

definition npxArgForbidden :: "bytes \<Rightarrow> bool" where
  "npxArgForbidden arg =
     (let name = beforeEq (ToLower arg) in
      name \<in> {''--update'', ''-u'', ''--updatesnapshot'', ''--update-snapshots'', ''--output-file'', ''-o'', ''--cache-location''} \<or>
      name = ''--coverage'' \<or> HasPrefix name ''--coverage.'')"

definition npxSegmentIsVerification :: "bytes list \<Rightarrow> bool" where
  "npxSegmentIsVerification args =
     (case args of
        [] \<Rightarrow> False
      | a # runnerArgs \<Rightarrow>
          if HasPrefix a ''-'' then False
          else (case npxRunnerName a of
                  None \<Rightarrow> False
                | Some runner \<Rightarrow>
                    if runner = ''tsc'' then tscSegmentIsVerification runnerArgs
                    else if runner \<in> {''vitest'', ''jest'', ''mocha'', ''ava'', ''eslint''} \<or>
                            (runner = ''prettier'' \<and> hasCommandArg runnerArgs [''--check'', ''-c'', ''--list-different''])
                    then \<not> list_ex npxArgForbidden runnerArgs
                    else False))"

definition swiftArgListsOnly :: "bytes \<Rightarrow> bool" where
  "swiftArgListsOnly arg =
     (beforeEq (TrimDashes (ToLower arg)) \<in> {''help'', ''h'', ''version'', ''list-tests'', ''l''})"

definition bashSegmentIsVerification :: "bytes list \<Rightarrow> bool" where
  "bashSegmentIsVerification flds =
     (case flds of
        [] \<Rightarrow> False
      | f # args \<Rightarrow>
          let base = ToLower (path_Base f); arg0 = (case args of a # _ \<Rightarrow> a | [] \<Rightarrow> []) in
          if hasCommandArg args [''--fix'', ''--write'', ''-w'', ''--update'', ''-u''] then False
          else if hasWriteOutputFlag args then False
          else if base = ''go'' then
            (args \<noteq> [] \<and> (arg0 = ''vet'' \<or> (arg0 = ''test'' \<and> \<not> list_ex goTestFlagWritesFile (tl args))))
          else if base = ''git'' then length args > 1 \<and> arg0 = ''diff'' \<and> hasCommandArg (tl args) [''--check'']
          else if base \<in> {''pytest'', ''py.test'', ''gotestsum'', ''staticcheck'', ''golangci-lint''} then True
          else if base = ''tsc'' then tscSegmentIsVerification args
          else if base = ''mypy'' then \<not> list_ex mypyFlagWritesReport args
          else if base \<in> {''npm'', ''pnpm'', ''yarn'', ''bun'', ''cargo''} then
            (args \<noteq> [] \<and> hasCommandArg [arg0] [''test'', ''check'', ''lint'', ''clippy'']) \<or>
            (length args > 1 \<and> arg0 = ''run'' \<and> hasCommandArg [args ! 1] [''test'', ''check'', ''lint'', ''typecheck''])
          else if base = ''npx'' then npxSegmentIsVerification args
          else if base = ''node'' then nodeSegmentIsVerification args
          else if base \<in> {''make'', ''just''} then
            args \<noteq> [] \<and> hasCommandArg [arg0] [''test'', ''check'', ''lint'', ''verify'', ''ci'']
          else if base \<in> {''python'', ''python3''} then
            length args > 1 \<and> arg0 = ''-m'' \<and> hasCommandArg [args ! 1] [''pytest'', ''unittest'']
          else if base = ''dotnet'' then args \<noteq> [] \<and> arg0 = ''test''
          else if base = ''swift'' then args \<noteq> [] \<and> arg0 = ''test'' \<and> \<not> list_ex swiftArgListsOnly (tl args)
          else if base \<in> {''mvn'', ''mvnw'', ''gradle'', ''gradlew''} then
            args \<noteq> [] \<and> hasCommandArg args [''test'', ''check'', ''verify'']
          else False)"

definition bashReadOnlyCommandWrites :: "bytes \<Rightarrow> bytes \<Rightarrow> bytes list \<Rightarrow> bool" where
  "bashReadOnlyCommandWrites base sub flds =
     (let args0 = tl flds; args = (if sub \<noteq> [] \<and> args0 \<noteq> [] then tl args0 else args0) in
      if base = ''find'' then
        hasCommandArg args [''-exec'', ''-execdir'', ''-delete'', ''-ok'', ''-okdir'', ''-fls'', ''-fprint'', ''-fprint0'', ''-fprintf'']
      else if base = ''sort'' then
        list_ex (\<lambda>arg. arg = ''-o'' \<or> arg = ''--output'' \<or> HasPrefix arg ''--output='' \<or> HasPrefix arg ''-o'') args
      else if base = ''git'' then
        sub \<in> {''diff'', ''show'', ''log''} \<and> list_ex (\<lambda>arg. arg = ''--output'' \<or> HasPrefix arg ''--output='') args
      else if base = ''go'' then sub = ''env'' \<and> hasCommandArg args [''-w'', ''-u'']
      else False)"

section \<open>Commands\<close>

text \<open>\<open>NormalizeBashSafeRedirectsForMatch\<close> with its boolean ignored: the empty text when it refuses.\<close>

definition normalizedSegment :: "shell \<Rightarrow> bytes \<Rightarrow> bytes" where
  "normalizedSegment sh segment = (case NormalizeBashSafeRedirectsForMatch sh segment of Some n \<Rightarrow> n | None \<Rightarrow> [])"

definition segmentVerifies :: "shell \<Rightarrow> bytes \<Rightarrow> bool" where
  "segmentVerifies sh segment =
     (case StaticFields sh (normalizedSegment sh segment) of
        (flds, malformed) \<Rightarrow> malformed = [] \<and> bashSegmentIsVerification flds)"

definition bashContainsVerificationSegment :: "shell \<Rightarrow> bytes \<Rightarrow> bool" where
  "bashContainsVerificationSegment sh command0 =
     (let command = TrimSpace command0 in
      if command = [] then False
      else (case SplitTopLevel sh command of
              None \<Rightarrow> False
            | Some (segments, _) \<Rightarrow> list_ex (segmentVerifies sh) segments))"

text \<open>One segment of \<open>bashMayMutate\<close>: \<open>True\<close> ends the loop with the answer that it may.\<close>

definition segmentMayMutate :: "shell \<Rightarrow> bytes \<Rightarrow> bool" where
  "segmentMayMutate sh segment =
     (case NormalizeBashSafeRedirectsForMatch sh segment of
        None \<Rightarrow> True
      | Some normalized \<Rightarrow>
          if (case StaticFields sh normalized of
                (staticFields, malformed) \<Rightarrow> malformed = [] \<and> staticFields \<noteq> [] \<and> bashSegmentIsVerification staticFields)
          then False
          else (case ClassifyWorkspaceNonMutatingCommand sh normalized of
                  None \<Rightarrow> True
                | Some (base, sub, flds) \<Rightarrow> bashReadOnlyCommandWrites base sub flds))"

definition bashMayMutate :: "shell \<Rightarrow> bytes \<Rightarrow> bool" where
  "bashMayMutate sh command0 =
     (let command = TrimSpace command0 in
      if command = [] then True
      else (case SplitTopLevel sh command of
              None \<Rightarrow> True
            | Some (segments, _) \<Rightarrow> segments = [] \<or> list_ex (segmentMayMutate sh) segments))"

fun verificationLoop :: "shell \<Rightarrow> bytes list \<Rightarrow> bool \<Rightarrow> bool" where
  "verificationLoop sh [] found = found"
| "verificationLoop sh (segment # rest) found =
     (case NormalizeBashSafeRedirectsForMatch sh segment of
        None \<Rightarrow> False
      | Some normalized \<Rightarrow>
          (case StaticFields sh normalized of
             (flds, malformed) \<Rightarrow>
               if malformed \<noteq> [] \<or> flds = [] then False
               else if bashSegmentIsVerification flds then verificationLoop sh rest True
               else if CommandIsReadOnly sh normalized = None then False
               else verificationLoop sh rest found))"

definition bashCommandIsVerification :: "shell \<Rightarrow> bytes \<Rightarrow> bool" where
  "bashCommandIsVerification sh command0 =
     (let command = TrimSpace command0 in
      if command = [] then False
      else (case SplitTopLevel sh command of
              None \<Rightarrow> False
            | Some (segments, _) \<Rightarrow> segments \<noteq> [] \<and> verificationLoop sh segments False))"

definition IsDeliveryVerificationCommand :: "shell \<Rightarrow> bytes \<Rightarrow> bool" where
  "IsDeliveryVerificationCommand sh command = bashCommandIsVerification sh command"

definition bashSegmentUsesOpaqueInlineInterpreter :: "shell \<Rightarrow> bytes \<Rightarrow> bool" where
  "bashSegmentUsesOpaqueInlineInterpreter sh segment =
     (case StaticFields sh (normalizedSegment sh segment) of
        (argv, malformed) \<Rightarrow>
          if malformed \<noteq> [] then False
          else (case argv of
             [] \<Rightarrow> False
           | a # args \<Rightarrow>
               let base = ToLower (path_Base a) in
               if base \<in> {''node'', ''bun''} then hasCommandArg args [''-e'', ''--eval'', ''-p'', ''--print'']
               else if base \<in> {''python'', ''python3'', ''ruby'', ''perl''} then hasCommandArg args [''-c'', ''-e'']
               else if base = ''php'' then hasCommandArg args [''-r'']
               else if base = ''deno'' then (case args of b # _ \<Rightarrow> EqualFold b ''eval'' | [] \<Rightarrow> False)
               else False))"

definition bashCommandUsesOpaqueInlineInterpreter :: "shell \<Rightarrow> bytes \<Rightarrow> bool" where
  "bashCommandUsesOpaqueInlineInterpreter sh command =
     (case SplitTopLevel sh command of
        None \<Rightarrow> False
      | Some (segments, _) \<Rightarrow> list_ex (bashSegmentUsesOpaqueInlineInterpreter sh) segments)"

section \<open>Cited commands\<close>

lemma CutAt_shorter: "CutAt sep s = Some (a, b) \<Longrightarrow> sep \<noteq> [] \<Longrightarrow> length b < length s"
proof (induction sep s arbitrary: a b rule: CutAt.induct)
  case (2 sep c s)
  then show ?case by (cases sep) (fastforce split: if_splits)+
qed (auto split: if_splits)

text \<open>\<open>strings.Split\<close> for a separator that is not empty.\<close>

function splitOn :: "bytes \<Rightarrow> bytes \<Rightarrow> bytes list" where
  "splitOn sep s = (if sep = [] then [s] else case CutAt sep s of None \<Rightarrow> [s] | Some (a, b) \<Rightarrow> a # splitOn sep b)"
  by auto
termination
  by (relation "measure (\<lambda>(sep, s). length s)") (auto dest: CutAt_shorter)

declare splitOn.simps [simp del]

definition segmentSeparators :: "bytes list" where
  "segmentSeparators = [''&&'', ''||'', '';'', ''|'', [LF]]"

definition commandSegments :: "shell \<Rightarrow> bytes \<Rightarrow> bytes list" where
  "commandSegments sh s =
     (case SplitTopLevel sh s of
        Some (segs, _) \<Rightarrow> segs
      | None \<Rightarrow>
          let parts = foldl (\<lambda>ps sep. concat (map (splitOn sep) ps)) [s] segmentSeparators
          in filter (\<lambda>p. \<not> (p = [] \<or> HasPrefix p ''#'')) (map TrimSpace parts))"

definition segmentTokens :: "shell \<Rightarrow> bytes \<Rightarrow> bytes list" where
  "segmentTokens sh s =
     (case StaticFields sh s of
        (flds, malformed) \<Rightarrow>
          if malformed = [] then flds
          else filter (\<lambda>f. f \<noteq> []) (map (\<lambda>f. filter (\<lambda>c. c \<noteq> DQ \<and> c \<noteq> SQ) f) (Fields s)))"

definition segmentMatches :: "shell \<Rightarrow> bytes \<Rightarrow> bytes \<Rightarrow> bool" where
  "segmentMatches sh cited ranCmd =
     (let ct = segmentTokens sh cited; rt = segmentTokens sh ranCmd in
      if ct = [] \<or> rt = [] then False
      else if Join ct '' '' = Join rt '' '' then True
      else if length ct < 2 \<or> ct ! 0 \<noteq> rt ! 0 then False
      else list_all (\<lambda>t. t \<in> set rt) ct)"

definition segmentCovered :: "shell \<Rightarrow> bytes \<Rightarrow> bytes list \<Rightarrow> bool" where
  "segmentCovered sh cited ranSegs = list_ex (segmentMatches sh cited) ranSegs"

definition CommandMatches :: "shell \<Rightarrow> bytes \<Rightarrow> bytes \<Rightarrow> bool" where
  "CommandMatches sh cited ranCmd =
     (let citedSegs = commandSegments sh cited in
      if citedSegs = [] then False
      else list_all (\<lambda>c. segmentCovered sh c (commandSegments sh ranCmd)) citedSegs)"

section \<open>Reading as evidence\<close>

text \<open>\<open>normalizePath\<close> on a system with slash-separated paths.\<close>

definition normalizePath :: "bytes \<Rightarrow> bytes" where
  "normalizePath p0 =
     (let p = TrimSpace p0 in
      if p = [] then [] else path_Clean (map (\<lambda>c. if c = BSL then CHR ''/'' else c) p))"

definition normalizePaths :: "bytes list \<Rightarrow> bytes list" where
  "normalizePaths ps = filter (\<lambda>p. p \<noteq> []) (map normalizePath ps)"

definition endsInPath :: "bytes \<Rightarrow> bytes \<Rightarrow> bool" where
  "endsInPath tok needle \<longleftrightarrow> tok = needle \<or> HasSuffix tok (CHR ''/'' # needle)"

definition argNamesGitRevisionPath :: "bytes \<Rightarrow> bytes \<Rightarrow> bool" where
  "argNamesGitRevisionPath arg needle =
     (let tok = ToLower (normalizePath arg) in
      if tok = [] \<or> HasPrefix tok ''-'' then False
      else (case IndexByte tok CHR '':'' of
              None \<Rightarrow> False
            | Some i \<Rightarrow> if i = 0 \<or> i = length tok - 1 then False else endsInPath (drop (i + 1) tok) needle))"

definition argNamesPath :: "bytes \<Rightarrow> bytes \<Rightarrow> bool" where
  "argNamesPath arg needle =
     (let tok = ToLower (normalizePath arg) in
      if tok = [] \<or> HasPrefix tok ''-'' then False
      else if endsInPath tok needle then True
      else (case Cut tok '':'' of (_, after, ok) \<Rightarrow> ok \<and> endsInPath after needle))"

definition contentSuppressingFlags :: "bytes list" where
  "contentSuppressingFlags =
     [''-q'', ''--quiet'', ''-s'', ''--silent'', ''--brief'', ''--no-patch'', ''--name-only'', ''--name-status'',
      ''--numstat'', ''--shortstat'', ''--summary'', ''--check'']"

fun contentArgsLoop :: "bytes \<Rightarrow> bool \<Rightarrow> bytes list \<Rightarrow> bool \<Rightarrow> bool" where
  "contentArgsLoop needle gitShow [] named = named"
| "contentArgsLoop needle gitShow (a # rest) named =
     (let lower = ToLower a in
      if lower \<in> set contentSuppressingFlags \<or> HasPrefix lower ''--stat'' \<or> HasPrefix lower ''--dirstat'' then False
      else if gitShow then contentArgsLoop needle gitShow rest (named \<or> argNamesGitRevisionPath a needle)
      else contentArgsLoop needle gitShow rest (named \<or> argNamesPath a needle))"

definition contentArgvShowsPath :: "bytes list \<Rightarrow> bytes \<Rightarrow> bool" where
  "contentArgvShowsPath argv needle =
     (case argv of
        [] \<Rightarrow> False
      | a # rest \<Rightarrow>
          let base = ToLower (path_Base a) in
          if base \<in> {''cat'', ''head'', ''tail'', ''diff'', ''cmp''} then contentArgsLoop needle False rest False
          else if base = ''git'' then
            (case rest of
               [] \<Rightarrow> False
             | s # rest' \<Rightarrow>
                 let sub = ToLower s in
                 if sub \<noteq> ''diff'' \<and> sub \<noteq> ''show'' then False
                 else contentArgsLoop needle (sub = ''show'') rest' False)
          else False)"

fun staticWords :: "Word option list \<Rightarrow> bytes list option" where
  "staticWords [] = Some []"
| "staticWords (w # ws) =
     (case StaticWord w of None \<Rightarrow> None
      | Some f \<Rightarrow> (case staticWords ws of None \<Rightarrow> None | Some fs \<Rightarrow> Some (f # fs)))"

definition contentStatementShowsPath :: "Stmt option \<Rightarrow> bytes \<Rightarrow> bool" where
  "contentStatementShowsPath stmt needle =
     (case stmt of
        None \<Rightarrow> False
      | Some s \<Rightarrow>
          if sNegated s \<or> sBackground s \<or> sCoprocess s then False
          else if sRedirs s \<noteq> [] then False
          else (case sCmd s of
                  CallExpr _ args \<Rightarrow> (case staticWords args of None \<Rightarrow> False | Some argv \<Rightarrow> contentArgvShowsPath argv needle)
                | _ \<Rightarrow> False))"

definition commandShowsContentForPath :: "shell \<Rightarrow> bytes \<Rightarrow> bytes \<Rightarrow> bool" where
  "commandShowsContentForPath sh command needle =
     (case shParse sh command of
        Inl _ \<Rightarrow> False
      | Inr file \<Rightarrow> if HasHereDoc sh file then False
          else (case Stmts file of [s] \<Rightarrow> contentStatementShowsPath s needle | _ \<Rightarrow> False))"

definition commandShowsWholeGitDiff :: "shell \<Rightarrow> bytes \<Rightarrow> bool" where
  "commandShowsWholeGitDiff sh command =
     (case shParse sh command of
        Inl _ \<Rightarrow> False
      | Inr file \<Rightarrow> if HasHereDoc sh file then False
          else (case Stmts file of
             [Some s] \<Rightarrow>
               if sNegated s \<or> sBackground s \<or> sCoprocess s \<or> sRedirs s \<noteq> [] then False
               else (case sCmd s of
                 CallExpr [] [w0, w1] \<Rightarrow>
                   (case (StaticWord w0, StaticWord w1) of
                      (Some b, Some sub) \<Rightarrow> EqualFold (path_Base b) ''git'' \<and> EqualFold sub ''diff''
                    | _ \<Rightarrow> False)
               | _ \<Rightarrow> False)
           | _ \<Rightarrow> False))"

definition segmentReviewsChanges :: "shell \<Rightarrow> bytes \<Rightarrow> bool" where
  "segmentReviewsChanges sh segment =
     (case NormalizeBashSafeRedirectsForMatch sh segment of
        None \<Rightarrow> False
      | Some normalized \<Rightarrow>
          (case StaticFields sh normalized of
             (flds, malformed) \<Rightarrow>
               if malformed \<noteq> [] then False
               else (case flds of
                  [] \<Rightarrow> False
                | f # args \<Rightarrow>
                    let base = ToLower (path_Base f) in
                    base = ''diff'' \<or> base = ''cmp'' \<or>
                    (base = ''git'' \<and> (case args of s # _ \<Rightarrow> ToLower s \<in> {''diff'', ''status'', ''show''} | [] \<Rightarrow> False)))))"

definition commandReviewsChanges :: "shell \<Rightarrow> bytes \<Rightarrow> bool" where
  "commandReviewsChanges sh command =
     (case SplitTopLevel sh command of
        None \<Rightarrow> False
      | Some (segments, _) \<Rightarrow> list_ex (segmentReviewsChanges sh) segments)"

definition commandMentionsPaths :: "bytes \<Rightarrow> bytes list \<Rightarrow> bool" where
  "commandMentionsPaths command wanted =
     (let normalized = ToLower (map (\<lambda>c. if c = BSL then CHR ''/'' else c) command)
      in list_ex (\<lambda>p. Contains normalized (ToLower p)) wanted)"

section \<open>Calls of the bash tool\<close>

text \<open>\<open>jp\<close> reads the text of the arguments into a JSON tree.\<close>

definition bashCommandFromArgs :: "(bytes \<Rightarrow> json option) \<Rightarrow> bytes \<Rightarrow> bytes option" where
  "bashCommandFromArgs jp args =
     (case decodeFields (jp args) of
        None \<Rightarrow> None
      | Some fs \<Rightarrow> let command = TrimSpace (stringField fs ''command'') in if command = [] then None else Some command)"

definition BashToolCallMixesMutationAndVerification :: "(bytes \<Rightarrow> json option) \<Rightarrow> shell \<Rightarrow> bytes \<Rightarrow> bool" where
  "BashToolCallMixesMutationAndVerification jp sh args =
     (case decodeFields (jp args) of
        None \<Rightarrow> False
      | Some fs \<Rightarrow> let command = stringField fs ''command''
          in bashContainsVerificationSegment sh command \<and> bashMayMutate sh command)"

definition BashToolCallMixesMutationAndMaskableVerification :: "(bytes \<Rightarrow> json option) \<Rightarrow> shell \<Rightarrow> bytes \<Rightarrow> bool" where
  "BashToolCallMixesMutationAndMaskableVerification jp sh args =
     (if \<not> BashToolCallMixesMutationAndVerification jp sh args then False
      else (case bashCommandFromArgs jp args of
              None \<Rightarrow> False
            | Some command \<Rightarrow> (case CanMaskEarlierFailure sh command of (canMask, analyzed) \<Rightarrow> analyzed \<and> canMask)))"

fun maskExitLoop :: "shell \<Rightarrow> bytes list \<Rightarrow> bool \<Rightarrow> bool" where
  "maskExitLoop sh [] seen = False"
| "maskExitLoop sh (segment # rest) seen =
     (if segmentVerifies sh segment then maskExitLoop sh rest True
      else if \<not> seen \<or> \<not> Contains segment ''$?'' then maskExitLoop sh rest seen
      else let lower = ToLower (TrimSpace segment) in
        if HasPrefix lower ''echo '' \<or> HasPrefix lower ''printf '' then True else maskExitLoop sh rest seen)"

definition BashToolCallMasksVerificationExit :: "(bytes \<Rightarrow> json option) \<Rightarrow> shell \<Rightarrow> bytes \<Rightarrow> bool" where
  "BashToolCallMasksVerificationExit jp sh args =
     (case decodeFields (jp args) of
        None \<Rightarrow> False
      | Some fs \<Rightarrow>
          let command = TrimSpace (stringField fs ''command'') in
          if command = [] \<or> \<not> bashContainsVerificationSegment sh command then False
          else (case SplitTopLevel sh command of
                  None \<Rightarrow> False
                | Some (segments, _) \<Rightarrow> maskExitLoop sh segments False))"

definition BashToolCallUsesOpaqueInlineInterpreter :: "(bytes \<Rightarrow> json option) \<Rightarrow> shell \<Rightarrow> bytes \<Rightarrow> bool" where
  "BashToolCallUsesOpaqueInlineInterpreter jp sh args =
     (case bashCommandFromArgs jp args of None \<Rightarrow> False | Some command \<Rightarrow> bashCommandUsesOpaqueInlineInterpreter sh command)"

definition BashToolCallUsesNonTerminalInlineInterpreter :: "(bytes \<Rightarrow> json option) \<Rightarrow> shell \<Rightarrow> bytes \<Rightarrow> bool" where
  "BashToolCallUsesNonTerminalInlineInterpreter jp sh args =
     (case bashCommandFromArgs jp args of
        None \<Rightarrow> False
      | Some command \<Rightarrow>
          (case SplitTopLevel sh command of
             None \<Rightarrow> False
           | Some (segments, _) \<Rightarrow>
               if length segments < 2 then False
               else (case CanMaskEarlierFailure sh command of
                  (canMask, analyzed) \<Rightarrow>
                    if \<not> analyzed \<or> \<not> canMask then False
                    else list_ex (\<lambda>i. bashSegmentUsesOpaqueInlineInterpreter sh (segments ! i) \<and> i < length segments - 1)
                           [0 ..< length segments])))"

definition nonMutationMetaTools :: "bytes list" where
  "nonMutationMetaTools =
     [''run_skill'', ''read_skill'', ''read_only_skill'', ''task'', ''read_only_task'', ''parallel_tasks'', ''explore'', ''research'',
      ''review'', ''security_review'', ''use_capability'', ''connect_tool_source'', ''review_report'']"

definition IsNonMutationMetaTool :: "bytes \<Rightarrow> bool" where
  "IsNonMutationMetaTool toolName \<longleftrightarrow> TrimSpace toolName \<in> set nonMutationMetaTools"

definition ToolCallMutates :: "(bytes \<Rightarrow> json option) \<Rightarrow> shell \<Rightarrow> bytes \<Rightarrow> bytes \<Rightarrow> bool \<Rightarrow> bool" where
  "ToolCallMutates jp sh toolName args readOnly =
     (if readOnly then False
      else if IsNonMutationMetaTool toolName then False
      else if toolName \<in> {''ask'', ''todo_write'', ''complete_step'', ''bash_output'', ''wait''} then False
      else if toolName = ''bash'' then
        (case decodeFields (jp args) of None \<Rightarrow> True | Some fs \<Rightarrow> bashMayMutate sh (stringField fs ''command''))
      else True)"

definition ToolCallRequiresDeliveryCriteria :: "(bytes \<Rightarrow> json option) \<Rightarrow> shell \<Rightarrow> bytes \<Rightarrow> bytes \<Rightarrow> bool \<Rightarrow> bool" where
  "ToolCallRequiresDeliveryCriteria jp sh toolName args readOnly =
     (if ToolCallMutates jp sh toolName args readOnly then True
      else if toolName \<noteq> ''bash'' then False
      else (case decodeFields (jp args) of
              None \<Rightarrow> True
            | Some fs \<Rightarrow> bashCommandIsVerification sh (stringField fs ''command'')))"

section \<open>Properties\<close>

lemma segmentMatches_refl: "segmentTokens sh c \<noteq> [] \<Longrightarrow> segmentMatches sh c c"
  by (simp add: segmentMatches_def)

text \<open>
  A citation is proven by every run that contains its segments: by itself, and by the same command after
  a \<open>cd\<close> or before further steps. (A segment without tokens proves nothing.)
\<close>

theorem CommandMatches_covers:
  assumes "commandSegments sh cited \<noteq> []" and "set (commandSegments sh cited) \<subseteq> set (commandSegments sh ranCmd)"
    and "\<forall>c \<in> set (commandSegments sh cited). segmentTokens sh c \<noteq> []"
  shows "CommandMatches sh cited ranCmd"
  using assms segmentMatches_refl [of sh]
  by (auto simp: CommandMatches_def segmentCovered_def list_all_iff list_ex_iff Let_def)

text \<open>
  The word order is not compared. A one-segment citation is proven by any one-segment run with the same
  first word and a superset of its words, so by a command that does something else.
\<close>

lemma CommandMatches_words:
  assumes "commandSegments sh cited = [c]" and "commandSegments sh ranCmd = [r]"
    and "segmentTokens sh c = h # a # ts" and "segmentTokens sh r = h # rs" and "set (a # ts) \<subseteq> set (h # rs)"
  shows "CommandMatches sh cited ranCmd"
  using assms by (auto simp: CommandMatches_def segmentCovered_def segmentMatches_def list_all_iff Let_def)

text \<open>A shell that reads every text as one plain command of its words.\<close>

definition words_parse :: "bytes \<Rightarrow> bytes + ShFile" where
  "words_parse s = Inr \<lparr>Stmts = [Some (call_at 0 (length s) (Fields s))]\<rparr>"

definition words_shell :: shell where
  "words_shell = \<lparr>shParse = words_parse, shWalk = (\<lambda>_. []), shSplitBraces = (\<lambda>w. w)\<rparr>"

theorem CommandMatches_covers_witness:
  "CommandMatches words_shell ''go test ./...'' ''go test ./...''"
proof (rule CommandMatches_covers)
  have s: "commandSegments words_shell ''go test ./...'' = [''go test ./...'']" by code_simp
  then show "commandSegments words_shell ''go test ./...'' \<noteq> []"
    "set (commandSegments words_shell ''go test ./...'') \<subseteq> set (commandSegments words_shell ''go test ./...'')" by simp_all
  have "segmentTokens words_shell ''go test ./...'' \<noteq> []" by code_simp
  with s show "\<forall>c \<in> set (commandSegments words_shell ''go test ./...''). segmentTokens words_shell c \<noteq> []" by simp
qed

text \<open>
  A verification that writes. The classifier of verifications looks for a list of output flags that does
  not contain \<open>output\<close>, and a segment classified as a verification is not asked whether it writes. So
  \<open>git diff --check --output=FILE\<close>, which overwrites \<open>FILE\<close>, counts as a verification and not as a
  mutation, although the same command without \<open>--check\<close> counts as one.
\<close>

theorem verification_can_overwrite:
  assumes "SplitTopLevel sh command = Some ([command], split)" and "TrimSpace command = command" and "command \<noteq> []"
    and "NormalizeBashSafeRedirectsForMatch sh command = Some command"
    and "StaticFields sh command = ([''git'', ''diff'', ''--check'', ''--output=main.go''], [])"
  shows "bashCommandIsVerification sh command \<and> \<not> bashMayMutate sh command \<and>
    bashReadOnlyCommandWrites ''git'' ''diff'' (fst (StaticFields sh command))"
proof -
  have "bashSegmentIsVerification [''git'', ''diff'', ''--check'', ''--output=main.go'']" by code_simp
  moreover have "bashReadOnlyCommandWrites ''git'' ''diff'' [''git'', ''diff'', ''--check'', ''--output=main.go'']" by code_simp
  ultimately show ?thesis
    using assms by (simp add: bashCommandIsVerification_def bashMayMutate_def segmentMayMutate_def)
qed

theorem verification_can_overwrite_witness:
  "\<not> bashMayMutate words_shell ''git diff --check --output=main.go''"
proof -
  have 1: "SplitTopLevel words_shell ''git diff --check --output=main.go'' = Some ([''git diff --check --output=main.go''], False)"
    by code_simp
  have 2: "TrimSpace ''git diff --check --output=main.go'' = ''git diff --check --output=main.go''" by code_simp
  have 3: "NormalizeBashSafeRedirectsForMatch words_shell ''git diff --check --output=main.go'' =
      Some ''git diff --check --output=main.go''" by code_simp
  have 4: "StaticFields words_shell ''git diff --check --output=main.go'' =
      ([''git'', ''diff'', ''--check'', ''--output=main.go''], [])" by code_simp
  from verification_can_overwrite [OF 1 2 _ 3 4] show ?thesis by simp
qed

end
