(* ===== verification/TodoList.thy ===== *)
theory TodoList
  imports GoBase
begin

text \<open>
  The serial task list of \<open>internal/evidence/evidence.go\<close>: its validation (\<open>ValidateSerialTodos\<close>),
  its repair (\<open>NormalizeSerialTodos\<close>) and the step that signs off the current item
  (\<open>AdvanceSerialTodo\<close>). A list has two levels: an item of level 0 followed by items of level 1 is a
  phase that owns them. The code works with index ranges (\<open>todoSegment\<close>); the lemmas relate them to
  the list of groups, and the groups to one sequence, the order in which the items are signed off:
  the sub-steps of a phase first, the phase after them.
\<close>

section \<open>Items\<close>

record TodoItem =
  tContent :: bytes
  tStatus :: bytes
  tActiveForm :: bytes
  tLevel :: int

abbreviation (input) COMPLETED :: bytes where "COMPLETED \<equiv> ''completed''"
abbreviation (input) IN_PROGRESS :: bytes where "IN_PROGRESS \<equiv> ''in_progress''"
abbreviation (input) PENDING :: bytes where "PENDING \<equiv> ''pending''"
abbreviation (input) STALE :: bytes where "STALE \<equiv> ''stale''"

definition todoStatus :: "bytes \<Rightarrow> bytes" where
  "todoStatus status = (let s = TrimSpace status in if s = [] then PENDING else s)"

text \<open>The status of an item, and the item with another status.\<close>

definition st :: "TodoItem \<Rightarrow> bytes" where "st t = todoStatus (tStatus t)"

definition setStatus :: "bytes \<Rightarrow> TodoItem \<Rightarrow> TodoItem" where
  "setStatus s t = t\<lparr>tStatus := s\<rparr>"

text \<open>Every message of the validator is a constructor with the values it prints (1-based).\<close>

datatype todoError =
    SecondCurrent nat bytes
  | InvalidStatus nat bytes bytes
  | OrphanSubStep bytes
  | CompletedAfterUnfinished nat bytes
  | CurrentAfterPending nat bytes
  | PhaseCompletedEarly nat bytes nat bytes
  | PhaseCurrentEarly nat bytes nat bytes
  | NoCurrent

section \<open>Validation\<close>

text \<open>The first loop: legal statuses, at most one current item.\<close>

fun statusLoop :: "nat \<Rightarrow> TodoItem list \<Rightarrow> bool \<Rightarrow> todoError option" where
  "statusLoop i [] ipSeen = None"
| "statusLoop i (t # ts) ipSeen =
     (if st t = COMPLETED \<or> st t = PENDING then statusLoop (i + 1) ts ipSeen
      else if st t = IN_PROGRESS then
        (if ipSeen then Some (SecondCurrent (i + 1) (tContent t)) else statusLoop (i + 1) ts True)
      else Some (InvalidStatus (i + 1) (tContent t) (tStatus t)))"

record todoSegment =
  sHead :: nat
  sEnd :: nat

text \<open>\<open>for end < len(todos) && todos[end].Level == 1\<close>.\<close>

definition isSub :: "TodoItem \<Rightarrow> bool" where "isSub t \<longleftrightarrow> tLevel t = 1"

definition subEnd :: "TodoItem list \<Rightarrow> nat \<Rightarrow> nat" where
  "subEnd ts i = i + length (takeWhile isSub (drop i ts))"

definition segEnd :: "TodoItem list \<Rightarrow> nat \<Rightarrow> nat" where
  "segEnd ts i = (if tLevel (ts ! i) = 0 then subEnd ts (i + 1) else i + 1)"

lemma segEnd_gt: "i < segEnd ts i"
  by (simp add: segEnd_def subEnd_def)

function segmentsFrom :: "TodoItem list \<Rightarrow> nat \<Rightarrow> todoSegment list" where
  "segmentsFrom ts i =
     (if i < length ts then \<lparr>sHead = i, sEnd = segEnd ts i\<rparr> # segmentsFrom ts (segEnd ts i) else [])"
  by auto
termination
  by (relation "measure (\<lambda>(ts, i). length ts - i)") (use segEnd_gt in \<open>auto simp: diff_less_mono2\<close>)

declare segmentsFrom.simps [simp del]

definition serialTodoSegments :: "TodoItem list \<Rightarrow> todoSegment list" where
  "serialTodoSegments ts = segmentsFrom ts 0"

text \<open>The items \<open>todos[seg.head+1:seg.end]\<close> with their positions.\<close>

definition subItems :: "TodoItem list \<Rightarrow> todoSegment \<Rightarrow> (nat \<times> TodoItem) list" where
  "subItems ts seg = map (\<lambda>i. (i, ts ! i)) [sHead seg + 1 ..< sEnd seg]"

fun subLoop :: "(nat \<times> TodoItem) list \<Rightarrow> bool \<Rightarrow> bool \<Rightarrow> nat \<Rightarrow> (nat \<times> TodoItem) option \<Rightarrow>
    todoError + bool \<times> nat \<times> (nat \<times> TodoItem) option" where
  "subLoop [] cur pend n unf = Inr (cur, n, unf)"
| "subLoop ((i, t) # xs) cur pend n unf =
     (if st t = COMPLETED then
        (if cur \<or> pend then Inl (CompletedAfterUnfinished (i + 1) (tContent t))
         else subLoop xs cur pend (n + 1) unf)
      else if st t = IN_PROGRESS then
        (if pend then Inl (CurrentAfterPending (i + 1) (tContent t))
         else subLoop xs True pend n (if unf = None then Some (i, t) else unf))
      else subLoop xs cur True n (if unf = None then Some (i, t) else unf))"

definition validateSerialSegment :: "TodoItem list \<Rightarrow> todoSegment \<Rightarrow> todoError + bytes" where
  "validateSerialSegment ts seg =
     (let h = ts ! sHead seg; headStatus = st h in
      if sEnd seg = sHead seg + 1 then Inr headStatus
      else case subLoop (subItems ts seg) False False 0 None of
        Inl e \<Rightarrow> Inl e
      | Inr (cur, n, unf) \<Rightarrow>
          if headStatus = COMPLETED then
            (case unf of Some (i, t) \<Rightarrow> Inl (PhaseCompletedEarly (sHead seg + 1) (tContent h) (i + 1) (tContent t))
             | None \<Rightarrow> Inr COMPLETED)
          else if headStatus = IN_PROGRESS then
            (case unf of Some (i, t) \<Rightarrow> Inl (PhaseCurrentEarly (sHead seg + 1) (tContent h) (i + 1) (tContent t))
             | None \<Rightarrow> Inr IN_PROGRESS)
          else Inr (if cur then IN_PROGRESS else if n = 0 then PENDING else STALE))"

text \<open>The item an error names: the first of the segment with a status, its head when there is none.\<close>

definition firstWith :: "bytes \<Rightarrow> TodoItem list \<Rightarrow> todoSegment \<Rightarrow> nat" where
  "firstWith s ts seg =
     (case find (\<lambda>i. st (ts ! i) = s) [sHead seg ..< sEnd seg] of Some i \<Rightarrow> i | None \<Rightarrow> sHead seg)"

fun segLoop :: "TodoItem list \<Rightarrow> todoSegment list \<Rightarrow> bool \<Rightarrow> bool \<Rightarrow> todoError + bool \<times> bool" where
  "segLoop ts [] cur pend = Inr (cur, pend)"
| "segLoop ts (seg # segs) cur pend =
     (case validateSerialSegment ts seg of
        Inl e \<Rightarrow> Inl e
      | Inr state \<Rightarrow>
          if state = COMPLETED then
            (if cur \<or> pend then Inl (CompletedAfterUnfinished (sHead seg + 1) (tContent (ts ! sHead seg)))
             else segLoop ts segs cur pend)
          else if state = IN_PROGRESS then
            (if pend then let ip = firstWith IN_PROGRESS ts seg in Inl (CurrentAfterPending (ip + 1) (tContent (ts ! ip)))
             else segLoop ts segs True pend)
          else if state = PENDING then segLoop ts segs cur True
          else if cur then let f = firstWith COMPLETED ts seg in Inl (CompletedAfterUnfinished (f + 1) (tContent (ts ! f)))
          else segLoop ts segs cur True)"

definition ValidateSerialTodos :: "TodoItem list \<Rightarrow> todoError option" where
  "ValidateSerialTodos ts =
     (case statusLoop 0 ts False of
        Some e \<Rightarrow> Some e
      | None \<Rightarrow>
          if ts \<noteq> [] \<and> tLevel (ts ! 0) = 1 then Some (OrphanSubStep (tContent (ts ! 0)))
          else case segLoop ts (serialTodoSegments ts) False False of
            Inl e \<Rightarrow> Some e
          | Inr (cur, pend) \<Rightarrow> if ts \<noteq> [] \<and> pend \<and> \<not> cur then Some NoCurrent else None)"

section \<open>Repair and progress\<close>

definition serialSegmentCompleted :: "TodoItem list \<Rightarrow> todoSegment \<Rightarrow> bool" where
  "serialSegmentCompleted ts seg \<longleftrightarrow> (\<forall>i \<in> set [sHead seg ..< sEnd seg]. st (ts ! i) = COMPLETED)"

definition setAt :: "TodoItem list \<Rightarrow> nat \<Rightarrow> bytes \<Rightarrow> TodoItem list" where
  "setAt ts i s = ts[i := setStatus s (ts ! i)]"

text \<open>The sub-steps of the first unfinished phase: its completed prefix stays, its first unfinished
  item becomes the current one. The flag is \<open>subUnfinished\<close>.\<close>

fun normSubs :: "TodoItem list \<Rightarrow> nat list \<Rightarrow> bool \<Rightarrow> TodoItem list \<times> bool" where
  "normSubs ts [] u = (ts, u)"
| "normSubs ts (i # is) u =
     (if \<not> u \<and> st (ts ! i) = COMPLETED then normSubs ts is u
      else if \<not> u then normSubs (setAt ts i IN_PROGRESS) is True
      else normSubs (setAt ts i PENDING) is u)"

fun normSegs :: "TodoItem list \<Rightarrow> todoSegment list \<Rightarrow> bool \<Rightarrow> TodoItem list" where
  "normSegs out [] u = out"
| "normSegs out (seg # segs) u =
     (if \<not> u \<and> serialSegmentCompleted out seg then normSegs out segs u
      else if u then normSegs (foldl (\<lambda>o' i. setAt o' i PENDING) out [sHead seg ..< sEnd seg]) segs u
      else if sEnd seg = sHead seg + 1 then normSegs (setAt out (sHead seg) IN_PROGRESS) segs True
      else let (o', su) = normSubs out [sHead seg + 1 ..< sEnd seg] False
           in normSegs (setAt o' (sHead seg) (if su then PENDING else IN_PROGRESS)) segs True)"

definition NormalizeSerialTodos :: "TodoItem list \<Rightarrow> TodoItem list" where
  "NormalizeSerialTodos ts = normSegs ts (serialTodoSegments ts) False"

text \<open>\<open>None\<close> when \<open>index\<close> is no phase header, \<open>Some None\<close> when all its sub-steps are completed.\<close>

definition FirstUnfinishedSubStep :: "TodoItem list \<Rightarrow> int \<Rightarrow> nat option option" where
  "FirstUnfinishedSubStep ts index =
     (if index < 0 \<or> index \<ge> int (length ts) \<or> tLevel (ts ! nat index) \<noteq> 0 then None
      else if nat index + 1 \<ge> length ts \<or> tLevel (ts ! (nat index + 1)) \<noteq> 1 then None
      else Some (find (\<lambda>i. st (ts ! i) \<noteq> COMPLETED) [nat index + 1 ..< subEnd ts (nat index + 1)]))"

definition firstAt :: "(TodoItem \<Rightarrow> bool) \<Rightarrow> TodoItem list \<Rightarrow> nat list \<Rightarrow> nat option" where
  "firstAt P ts is = find (\<lambda>i. P (ts ! i)) is"

text \<open>\<open>for head >= 0 && todos[head].Level == 1\<close>, downwards from \<open>index - 1\<close>.\<close>

definition phaseAbove :: "TodoItem list \<Rightarrow> nat \<Rightarrow> nat option" where
  "phaseAbove ts i = firstAt (\<lambda>t. \<not> isSub t) ts (rev [0 ..< i])"

text \<open>The part of \<open>AdvanceSerialTodo\<close> after the phase: if nothing is current, the next pending unit
  is promoted.\<close>

definition promoteNext :: "TodoItem list \<Rightarrow> TodoItem list" where
  "promoteNext ts =
     (if (\<exists>t \<in> set ts. st t = IN_PROGRESS) then ts
      else case firstAt (\<lambda>t. st t = PENDING) ts [0 ..< length ts] of
        None \<Rightarrow> ts
      | Some i \<Rightarrow>
          (case FirstUnfinishedSubStep ts (int i) of
             Some (Some sub) \<Rightarrow> if st (ts ! sub) = PENDING then setAt ts sub IN_PROGRESS else ts
           | _ \<Rightarrow> setAt ts i IN_PROGRESS))"

definition AdvanceSerialTodo :: "TodoItem list \<Rightarrow> int \<Rightarrow> bool \<times> TodoItem list" where
  "AdvanceSerialTodo ts index =
     (if index < 0 \<or> index \<ge> int (length ts) then (False, ts)
      else let i = nat index in
      if st (ts ! i) \<noteq> IN_PROGRESS then (False, ts)
      else if (case FirstUnfinishedSubStep ts index of Some (Some _) \<Rightarrow> True | _ \<Rightarrow> False) then (False, ts)
      else let ts1 = setAt ts i COMPLETED in
      if tLevel (ts1 ! i) = 1 then
        (case firstAt (\<lambda>t. st t = PENDING) ts1 [i + 1 ..< subEnd ts1 (i + 1)] of
           Some j \<Rightarrow> (True, setAt ts1 j IN_PROGRESS)
         | None \<Rightarrow>
             (case phaseAbove ts1 i of
                Some h \<Rightarrow> (True, if st (ts1 ! h) \<noteq> COMPLETED then setAt ts1 h IN_PROGRESS else ts1)
              | None \<Rightarrow> (True, promoteNext ts1)))
      else (True, promoteNext ts1))"

section \<open>The list as groups\<close>

function groups :: "TodoItem list \<Rightarrow> TodoItem list list" where
  "groups [] = []"
| "groups (t # ts) =
     (if tLevel t = 0 then (t # takeWhile isSub ts) # groups (dropWhile isSub ts) else [t] # groups ts)"
  by pat_completeness auto
termination
  by (relation "measure length") (auto simp: le_imp_less_Suc length_dropWhile_le)

text \<open>What a phase and its sub-steps look like: the groups of a list.\<close>

definition is_group :: "TodoItem list \<Rightarrow> bool" where
  "is_group g \<longleftrightarrow> g \<noteq> [] \<and> (tl g \<noteq> [] \<longrightarrow> tLevel (hd g) = 0) \<and> (\<forall>t \<in> set (tl g). tLevel t = 1)"

lemma concat_groups [simp]: "concat (groups ts) = ts"
  by (induction ts rule: groups.induct) auto

lemma groups_is_group: "g \<in> set (groups ts) \<Longrightarrow> is_group g"
proof (induction ts rule: groups.induct)
  case (2 t ts)
  have "\<forall>t \<in> set (takeWhile isSub ts). tLevel t = 1" by (auto dest!: set_takeWhileD simp: isSub_def)
  with 2 show ?case by (cases "tLevel t = 0") (auto simp: is_group_def)
qed simp

lemma groups_eq_Nil [simp]: "groups ts = [] \<longleftrightarrow> ts = []"
  by (cases ts) auto

text \<open>The segment that begins at a position, for a group that begins there.\<close>

definition seg_at :: "nat \<Rightarrow> TodoItem list \<Rightarrow> todoSegment" where
  "seg_at i g = \<lparr>sHead = i, sEnd = i + length g\<rparr>"

fun segs_at :: "nat \<Rightarrow> TodoItem list list \<Rightarrow> todoSegment list" where
  "segs_at i [] = []"
| "segs_at i (g # gs) = seg_at i g # segs_at (i + length g) gs"

lemma segmentsFrom_groups: "segmentsFrom (pre @ ts) (length pre) = segs_at (length pre) (groups ts)"
proof (induction ts arbitrary: pre rule: groups.induct)
  case 1
  then show ?case by (simp add: segmentsFrom.simps)
next
  case (2 t ts)
  show ?case
  proof (cases "tLevel t = 0")
    case True
    have e: "segEnd (pre @ t # ts) (length pre) = length (pre @ t # takeWhile isSub ts)"
      using True by (simp add: segEnd_def subEnd_def)
    have "segmentsFrom (pre @ t # ts) (length (pre @ t # takeWhile isSub ts)) =
        segs_at (length (pre @ t # takeWhile isSub ts)) (groups (dropWhile isSub ts))"
      using 2(1) [OF True, of "pre @ t # takeWhile isSub ts"] by simp
    then show ?thesis
      using True e by (simp add: segmentsFrom.simps [of _ "length pre"] seg_at_def)
  next
    case False
    have "segmentsFrom (pre @ t # ts) (Suc (length pre)) = segs_at (Suc (length pre)) (groups ts)"
      using 2(2) [OF False, of "pre @ [t]"] by simp
    with False show ?thesis
      by (simp add: segmentsFrom.simps [of _ "length pre"] segEnd_def seg_at_def)
  qed
qed

lemma serialTodoSegments_groups: "serialTodoSegments ts = segs_at 0 (groups ts)"
  using segmentsFrom_groups [of "[]" ts] by (simp add: serialTodoSegments_def)

section \<open>The order of signing off\<close>

definition signoff :: "TodoItem list \<Rightarrow> TodoItem list" where
  "signoff ts = concat (map (\<lambda>g. tl g @ [hd g]) (groups ts))"

definition serial :: "bytes list \<Rightarrow> bool" where
  "serial ss \<longleftrightarrow> (\<exists>k. ss = replicate k COMPLETED) \<or>
     (\<exists>k m. ss = replicate k COMPLETED @ IN_PROGRESS # replicate m PENDING)"

text \<open>The same as an automaton: still in the completed prefix, or past the current item.\<close>

fun serial_from :: "bool \<Rightarrow> bytes list \<Rightarrow> bool" where
  "serial_from True ss = list_all (\<lambda>s. s = PENDING) ss"
| "serial_from False [] = True"
| "serial_from False (s # ss) = (if s = COMPLETED then serial_from False ss else s = IN_PROGRESS \<and> serial_from True ss)"

lemma all_eq_replicate: "list_all (\<lambda>s. s = x) ss \<longleftrightarrow> ss = replicate (length ss) x"
  by (induction ss) auto

lemma serial_Nil [simp]: "serial []"
  by (auto simp: serial_def)

lemma serial_Cons: "serial (s # ss) \<longleftrightarrow>
    (if s = COMPLETED then serial ss else s = IN_PROGRESS \<and> list_all (\<lambda>s. s = PENDING) ss)"
proof (cases "s = COMPLETED")
  case True
  show ?thesis
  proof
    assume "serial (s # ss)"
    then consider k where "s # ss = replicate k COMPLETED"
      | k m where "s # ss = replicate k COMPLETED @ IN_PROGRESS # replicate m PENDING"
      by (auto simp: serial_def)
    then show "if s = COMPLETED then serial ss else s = IN_PROGRESS \<and> list_all (\<lambda>s. s = PENDING) ss"
    proof cases
      case 1
      then show ?thesis using True by (cases k) (auto simp: serial_def)
    next
      case 2
      then show ?thesis using True by (cases k) (auto simp: serial_def)
    qed
  next
    assume "if s = COMPLETED then serial ss else s = IN_PROGRESS \<and> list_all (\<lambda>s. s = PENDING) ss"
    with True have "serial ss" by simp
    then consider k where "ss = replicate k COMPLETED"
      | k m where "ss = replicate k COMPLETED @ IN_PROGRESS # replicate m PENDING"
      by (auto simp: serial_def)
    then show "serial (s # ss)"
    proof cases
      case 1
      then have "s # ss = replicate (Suc k) COMPLETED" using True by simp
      then show ?thesis unfolding serial_def by blast
    next
      case 2
      then have "s # ss = replicate (Suc k) COMPLETED @ IN_PROGRESS # replicate m PENDING" using True by simp
      then show ?thesis unfolding serial_def by blast
    qed
  qed
next
  case False
  show ?thesis
  proof
    assume "serial (s # ss)"
    then consider k where "s # ss = replicate k COMPLETED"
      | k m where "s # ss = replicate k COMPLETED @ IN_PROGRESS # replicate m PENDING"
      by (auto simp: serial_def)
    then show "if s = COMPLETED then serial ss else s = IN_PROGRESS \<and> list_all (\<lambda>s. s = PENDING) ss"
    proof cases
      case 1
      then show ?thesis using False by (cases k) auto
    next
      case 2
      then show ?thesis using False by (cases k) (auto simp: list_all_iff)
    qed
  next
    assume "if s = COMPLETED then serial ss else s = IN_PROGRESS \<and> list_all (\<lambda>s. s = PENDING) ss"
    with False have "s = IN_PROGRESS" "ss = replicate (length ss) PENDING" by (simp_all add: all_eq_replicate)
    then have "s # ss = replicate 0 COMPLETED @ IN_PROGRESS # replicate (length ss) PENDING" by simp
    then show "serial (s # ss)" unfolding serial_def by blast
  qed
qed

lemma serial_serial_from: "serial ss \<longleftrightarrow> serial_from False ss"
  by (induction ss) (auto simp: serial_Cons)

section \<open>What the validator accepts\<close>

definition legal :: "bytes \<Rightarrow> bool" where
  "legal s \<longleftrightarrow> s = COMPLETED \<or> s = PENDING \<or> s = IN_PROGRESS"

abbreviation currents :: "bytes list \<Rightarrow> nat" where
  "currents ss \<equiv> count_list ss IN_PROGRESS"

abbreviation all_are :: "bytes \<Rightarrow> bytes list \<Rightarrow> bool" where
  "all_are x ss \<equiv> list_all (\<lambda>s. s = x) ss"

lemma statusLoop_None:
  "statusLoop i ts ip = None \<longleftrightarrow>
     list_all legal (map st ts) \<and> currents (map st ts) + (if ip then 1 else 0) \<le> 1"
  by (induction i ts ip rule: statusLoop.induct) (auto simp: legal_def)

lemma serial_from_append:
  "serial_from False (xs @ ys) \<longleftrightarrow>
     (if all_are COMPLETED xs then serial_from False ys else serial_from False xs \<and> all_are PENDING ys)"
  by (induction xs) auto

lemma serial_no_current: "serial_from False ss \<Longrightarrow> IN_PROGRESS \<notin> set ss \<Longrightarrow> all_are COMPLETED ss"
  by (induction ss) (auto split: if_splits)

lemma current_not_completed: "IN_PROGRESS \<in> set ss \<Longrightarrow> \<not> all_are COMPLETED ss"
  by (induction ss) auto

lemma all_completed_serial: "all_are COMPLETED ss \<Longrightarrow> serial_from False ss"
  by (induction ss) auto

text \<open>The statuses of the items the loop over the sub-steps reads.\<close>

abbreviation sts :: "(nat \<times> TodoItem) list \<Rightarrow> bytes list" where
  "sts xs \<equiv> map (\<lambda>x. st (snd x)) xs"

lemma subLoop_after:
  assumes "cur \<or> pend" and "list_all legal (sts xs)" and "cur \<Longrightarrow> currents (sts xs) = 0"
  shows "(\<exists>u'. subLoop xs cur pend n u = Inr (cur, n, u') \<and> (u' = None \<longleftrightarrow> u = None \<and> xs = []) \<and> all_are PENDING (sts xs)) \<or>
    (\<exists>e. subLoop xs cur pend n u = Inl e) \<and> \<not> all_are PENDING (sts xs)"
  using assms
proof (induction xs cur pend n u rule: subLoop.induct)
  case (2 i t xs cur pend n unf)
  then show ?case by (cases unf) (auto simp: legal_def)
qed auto

lemma subLoop_start:
  assumes "list_all legal (sts xs)" and "currents (sts xs) \<le> 1"
  shows "(\<exists>k c u'. subLoop xs False False n None = Inr (c, n + k, u') \<and> (u' = None \<longleftrightarrow> all_are COMPLETED (sts xs)) \<and>
      (c \<longleftrightarrow> IN_PROGRESS \<in> set (sts xs)) \<and> (k = 0 \<longleftrightarrow> COMPLETED \<notin> set (sts xs)) \<and> (c \<longrightarrow> serial_from False (sts xs))) \<or>
    (\<exists>e. subLoop xs False False n None = Inl e) \<and> \<not> serial_from False (sts xs) \<and> \<not> all_are PENDING (sts xs) \<and>
      \<not> all_are COMPLETED (sts xs)"
  using assms
proof (induction xs arbitrary: n)
  case (Cons x xs)
  obtain i t where x: "x = (i, t)" by (cases x)
  have l: "list_all legal (sts xs)" using Cons.prems by simp
  consider "st t = COMPLETED" | "st t = IN_PROGRESS" | "st t = PENDING"
    using Cons.prems x by (auto simp: legal_def)
  then show ?case
  proof cases
    case 1
    then have c: "currents (sts xs) \<le> 1" using Cons.prems x by simp
    from Cons.IH [OF l c, of "n + 1"] 1 show ?thesis
      by (elim disjE exE conjE) (auto simp: x)
  next
    case 2
    then have c: "currents (sts xs) = 0" using Cons.prems x by simp
    from subLoop_after [of True False xs n "Some (i, t)", OF _ l] c 2 show ?thesis
      by (auto simp: x list_all_iff count_list_0_iff)
  next
    case 3
    from subLoop_after [of False True xs n "Some (i, t)", OF _ l] 3 show ?thesis
      by (auto simp: x list_all_iff)
  qed
qed auto

text \<open>A group of the list, as the validator reads it.\<close>

definition gsts :: "TodoItem list \<Rightarrow> bytes list" where
  "gsts g = map st (tl g @ [hd g])"

lemma nth_of_drop:
  assumes "drop i ts = g @ rest" and "j < length g"
  shows "ts ! (i + j) = g ! j"
proof -
  have "i \<le> length ts" using assms by (cases "i \<le> length ts") auto
  then have "ts ! (i + j) = drop i ts ! j" by simp
  with assms show ?thesis by (simp add: nth_append)
qed

lemma map_drop_nth: "drop i ts = g @ rest \<Longrightarrow> map (\<lambda>j. ts ! j) [i ..< i + length g] = g"
  by (rule nth_equalityI) (auto simp: nth_of_drop)

lemma hd_drop_nth: "drop i ts = g @ rest \<Longrightarrow> g \<noteq> [] \<Longrightarrow> ts ! i = hd g"
  using nth_of_drop [of i ts g rest 0] by (simp add: hd_conv_nth)

lemma legal_pending:
  "list_all legal ss \<Longrightarrow> all_are PENDING ss \<longleftrightarrow> COMPLETED \<notin> set ss \<and> IN_PROGRESS \<notin> set ss"
  by (induction ss) (auto simp: legal_def)

lemma subItems_group:
  assumes "drop i ts = g @ rest" and "g \<noteq> []"
  shows "map snd (subItems ts (seg_at i g)) = tl g"
proof -
  have "map (\<lambda>j. ts ! j) [i ..< i + length g] = g" by (rule map_drop_nth [OF assms(1)])
  moreover have "[i ..< i + length g] = i # [Suc i ..< i + length g]" using assms(2) by (simp add: upt_rec)
  ultimately have "map (\<lambda>j. ts ! j) [Suc i ..< i + length g] = tl g" by (metis list.map(2) list.sel(3))
  then show ?thesis by (simp add: subItems_def seg_at_def comp_def)
qed

lemma sts_subItems:
  assumes "drop i ts = g @ rest" and "g \<noteq> []"
  shows "sts (subItems ts (seg_at i g)) = map st (tl g)"
  using arg_cong [OF subItems_group [OF assms], of "map st"] by (simp add: comp_def)

lemma validateSerialSegment_group:
  assumes d: "drop i ts = g @ rest" and g: "is_group g"
    and l: "list_all legal (gsts g)" and c: "currents (gsts g) \<le> 1"
  shows "case validateSerialSegment ts (seg_at i g) of
      Inl e \<Rightarrow> \<not> serial_from False (gsts g) \<and> \<not> all_are PENDING (gsts g)
    | Inr s \<Rightarrow> (s = COMPLETED \<and> all_are COMPLETED (gsts g)) \<or>
        (s = IN_PROGRESS \<and> IN_PROGRESS \<in> set (gsts g) \<and> serial_from False (gsts g)) \<or>
        (s = PENDING \<and> all_are PENDING (gsts g)) \<or>
        (s = STALE \<and> \<not> serial_from False (gsts g) \<and> \<not> all_are PENDING (gsts g))"
proof -
  have ne: "g \<noteq> []" using g by (simp add: is_group_def)
  have h: "ts ! i = hd g" by (rule hd_drop_nth [OF d ne])
  let ?x = "subItems ts (seg_at i g)"
  have x: "sts ?x = map st (tl g)" by (rule sts_subItems [OF d ne])
  have gs: "gsts g = sts ?x @ [st (hd g)]" by (simp add: gsts_def x)
  have lx: "list_all legal (sts ?x)" and lh: "legal (st (hd g))" using l by (auto simp: gs)
  have cx: "currents (sts ?x) \<le> 1" using c by (auto simp: gs split: if_splits)
  show ?thesis
  proof (cases "tl g = []")
    case True
    then have "g = [hd g]" using ne by (cases g) auto
    then have "length g = 1" by (metis One_nat_def length_Cons list.size(3))
    with True h lh show ?thesis
      by (auto simp: validateSerialSegment_def seg_at_def gsts_def legal_def)
  next
    case False
    then have len: "length g \<noteq> 1" using ne by (cases g) auto
    from subLoop_start [OF lx cx, of 0] show ?thesis
    proof (elim disjE exE conjE)
      fix k b u'
      assume r: "subLoop ?x False False 0 None = Inr (b, 0 + k, u')" and u: "u' = None \<longleftrightarrow> all_are COMPLETED (sts ?x)"
        and b: "b \<longleftrightarrow> IN_PROGRESS \<in> set (sts ?x)" and k: "k = 0 \<longleftrightarrow> COMPLETED \<notin> set (sts ?x)"
        and sf: "b \<longrightarrow> serial_from False (sts ?x)"
      have nonempty: "sts ?x \<noteq> []" using False by (simp add: x)
      have pend: "all_are PENDING (sts ?x) \<longleftrightarrow> COMPLETED \<notin> set (sts ?x) \<and> IN_PROGRESS \<notin> set (sts ?x)"
        by (rule legal_pending [OF lx])
      have nc: "b \<Longrightarrow> st (hd g) \<noteq> IN_PROGRESS"
        using c b by (auto simp: gs count_list_0_iff split: if_splits)
      have allc: "all_are COMPLETED (sts ?x) \<Longrightarrow> \<not> b" using b by (auto simp: list_all_iff)
      have notboth: "all_are COMPLETED (sts ?x) \<Longrightarrow> COMPLETED \<in> set (sts ?x)"
        using nonempty by (cases "sts ?x") auto
      obtain ss where ss: "ss = sts ?x" by simp
      have v: "validateSerialSegment ts (seg_at i g) =
          (if st (hd g) = COMPLETED \<and> u' \<noteq> None \<or> st (hd g) = IN_PROGRESS \<and> u' \<noteq> None
           then validateSerialSegment ts (seg_at i g)
           else Inr (if st (hd g) = COMPLETED then COMPLETED else if st (hd g) = IN_PROGRESS \<or> b then IN_PROGRESS
             else if k = 0 then PENDING else STALE))"
        using r len h by (cases u') (auto simp: validateSerialSegment_def seg_at_def Let_def)
      have w: "st (hd g) = COMPLETED \<and> u' \<noteq> None \<or> st (hd g) = IN_PROGRESS \<and> u' \<noteq> None \<Longrightarrow>
          \<exists>e. validateSerialSegment ts (seg_at i g) = Inl e"
        using r len h by (auto simp: validateSerialSegment_def seg_at_def Let_def)
      note facts = u b k sf pend nc allc notboth lh
      from lh consider "st (hd g) = COMPLETED" | "st (hd g) = IN_PROGRESS" | "st (hd g) = PENDING"
        by (auto simp: legal_def)
      then show ?thesis
      proof cases
        case 1
        show ?thesis
        proof (cases u')
          case None
          then show ?thesis using 1 facts by (subst v) (simp add: gs ss [symmetric])
        next
          case (Some p)
          with w 1 obtain e where "validateSerialSegment ts (seg_at i g) = Inl e" by auto
          then show ?thesis using 1 Some facts by (simp add: gs ss [symmetric] serial_from_append)
        qed
      next
        case 2
        show ?thesis
        proof (cases u')
          case None
          then show ?thesis using 2 facts by (subst v) (simp add: gs ss [symmetric] serial_from_append)
        next
          case (Some p)
          with w 2 obtain e where "validateSerialSegment ts (seg_at i g) = Inl e" by auto
          then show ?thesis using 2 Some facts by (simp add: gs ss [symmetric] serial_from_append)
        qed
      next
        case 3
        then show ?thesis using facts serial_no_current [of ss]
          by (subst v) (auto simp: gs ss [symmetric] serial_from_append)
      qed
    next
      fix e
      assume "subLoop ?x False False 0 None = Inl e" "\<not> serial_from False (sts ?x)" "\<not> all_are PENDING (sts ?x)"
        "\<not> all_are COMPLETED (sts ?x)"
      then show ?thesis using len by (simp add: validateSerialSegment_def seg_at_def gs serial_from_append Let_def)
    qed
  qed
qed

text \<open>The statuses of several groups in the order of signing off, and the outcome of the loop.\<close>

definition flat :: "TodoItem list list \<Rightarrow> bytes list" where
  "flat gs = concat (map gsts gs)"

lemma flat_simps [simp]: "flat [] = []" "flat (g # gs) = gsts g @ flat gs"
  by (simp_all add: flat_def)

lemma flat_append [simp]: "flat (gs @ hs) = flat gs @ flat hs"
  by (simp add: flat_def)

lemma flat_signoff: "flat (groups ts) = map st (signoff ts)"
  by (simp add: flat_def signoff_def map_concat comp_def gsts_def [abs_def])

definition accepted :: "todoError + bool \<times> bool \<Rightarrow> bool" where
  "accepted r \<longleftrightarrow> (case r of Inl _ \<Rightarrow> False | Inr (cur, pend) \<Rightarrow> pend \<longrightarrow> cur)"

lemma gsts_nonempty: "gsts g \<noteq> []"
  by (simp add: gsts_def)

lemma segLoop_groups:
  assumes "drop i ts = concat gs" and "\<forall>g \<in> set gs. is_group g" and "list_all legal (flat gs)"
    and "currents (flat gs) + (if cur then 1 else 0) \<le> 1"
  shows "accepted (segLoop ts (segs_at i gs) cur pend) \<longleftrightarrow>
    (if cur then all_are PENDING (flat gs) else \<not> pend \<and> serial_from False (flat gs))"
  using assms
proof (induction gs arbitrary: i cur pend)
  case Nil
  then show ?case by (simp add: accepted_def)
next
  case (Cons g gs)
  have d: "drop i ts = g @ concat gs" using Cons.prems by simp
  have g: "is_group g" "list_all legal (gsts g)" "currents (gsts g) \<le> 1" using Cons.prems by (auto split: if_splits)
  have d': "drop (i + length g) ts = concat gs"
    using arg_cong [OF d, of "drop (length g)"] by (simp add: add.commute)
  have IH: "accepted (segLoop ts (segs_at (i + length g) gs) c p) \<longleftrightarrow>
      (if c then all_are PENDING (flat gs) else \<not> p \<and> serial_from False (flat gs))"
    if "currents (flat gs) + (if c then 1 else 0) \<le> 1" for c p
    using Cons.IH [OF d' _ _ that] Cons.prems by simp
  have tail: "currents (flat gs) \<le> 1" "cur \<Longrightarrow> currents (flat gs) = 0"
    "IN_PROGRESS \<in> set (gsts g) \<Longrightarrow> currents (flat gs) = 0"
    using Cons.prems count_list_0_iff [of "gsts g" IN_PROGRESS] by (auto split: if_splits)
  note v = validateSerialSegment_group [OF d g]
  have allC: "all_are COMPLETED (gsts g) \<Longrightarrow> serial_from False (gsts g) \<and> \<not> all_are PENDING (gsts g)"
    using gsts_nonempty [of g] all_completed_serial [of "gsts g"] by (cases "gsts g") auto
  have allP: "all_are PENDING (gsts g) \<Longrightarrow> \<not> serial_from False (gsts g) \<and> \<not> all_are COMPLETED (gsts g)"
    using gsts_nonempty [of g] by (cases "gsts g") auto
  have curC: "IN_PROGRESS \<in> set (gsts g) \<Longrightarrow> \<not> cur \<and> \<not> all_are COMPLETED (gsts g)"
    using Cons.prems count_list_0_iff [of "gsts g" IN_PROGRESS] current_not_completed [of "gsts g"]
    by (auto split: if_splits)
  show ?case
  proof (cases "validateSerialSegment ts (seg_at i g)")
    case (Inl e)
    with v allC show ?thesis by (auto simp: accepted_def serial_from_append)
  next
    case (Inr s)
    with v consider (C) "s = COMPLETED" "all_are COMPLETED (gsts g)"
      | (I) "s = IN_PROGRESS" "IN_PROGRESS \<in> set (gsts g)" "serial_from False (gsts g)"
      | (P) "s = PENDING" "all_are PENDING (gsts g)"
      | (S) "s = STALE" "\<not> serial_from False (gsts g)" "\<not> all_are PENDING (gsts g)" by auto
    then show ?thesis
    proof cases
      case C
      show ?thesis
      proof (cases "cur \<or> pend")
        case True
        then show ?thesis using C Inr allC by (auto simp: accepted_def)
      next
        case False
        then show ?thesis using C Inr IH [of False False] tail by (simp add: serial_from_append)
      qed
    next
      case I
      show ?thesis
      proof (cases pend)
        case True
        then show ?thesis using I Inr curC by (simp add: accepted_def Let_def)
      next
        case False
        then show ?thesis using I Inr IH [of True False] tail curC by (simp add: serial_from_append)
      qed
    next
      case P
      then show ?thesis using Inr IH [of cur True] tail allP by (cases cur) (simp_all add: serial_from_append)
    next
      case S
      show ?thesis
      proof (cases cur)
        case True
        then show ?thesis using S Inr by (simp add: accepted_def Let_def)
      next
        case False
        then show ?thesis using S Inr IH [of False True] tail allC by (auto simp: serial_from_append)
      qed
    qed
  qed
qed

lemma set_signoff: "set (signoff ts) = set ts"
proof -
  have "set (tl g @ [hd g]) = set g" if "g \<in> set (groups ts)" for g
    using groups_is_group [OF that] by (cases g) (auto simp: is_group_def)
  then have "set (signoff ts) = (\<Union>g \<in> set (groups ts). set g)" by (simp add: signoff_def)
  also have "\<dots> = set ts" by (metis concat_groups set_concat)
  finally show ?thesis .
qed

lemma count_signoff: "currents (map st (signoff ts)) = currents (map st ts)"
proof -
  have "currents (gsts g) = currents (map st g)" if "is_group g" for g
    using that by (cases g) (auto simp: is_group_def gsts_def)
  then have "\<forall>g \<in> set gs. is_group g \<Longrightarrow> currents (flat gs) = currents (map st (concat gs))" for gs
    by (induction gs) auto
  from this [of "groups ts"] groups_is_group show ?thesis by (simp add: flat_signoff)
qed

lemma serial_legal: "serial ss \<Longrightarrow> list_all legal ss \<and> currents ss \<le> 1"
  by (auto simp: serial_def legal_def list_all_iff)

lemma ValidateSerialTodos_iff:
  "ValidateSerialTodos ts = None \<longleftrightarrow> (ts = [] \<or> tLevel (hd ts) \<noteq> 1) \<and> serial (map st (signoff ts))"
proof (cases "statusLoop 0 ts False")
  case None
  then have l: "list_all legal (map st ts)" and c: "currents (map st ts) \<le> 1"
    by (simp_all add: statusLoop_None)
  have lf: "list_all legal (flat (groups ts))"
    using l set_signoff [of ts] by (auto simp: flat_signoff list_all_iff)
  have cf: "currents (flat (groups ts)) + (if False then 1 else 0) \<le> 1"
    using c by (simp add: flat_signoff count_signoff)
  have "accepted (segLoop ts (serialTodoSegments ts) False False) \<longleftrightarrow> serial (map st (signoff ts))"
    using segLoop_groups [of 0 ts "groups ts", OF _ _ lf cf] groups_is_group
    by (simp add: serialTodoSegments_groups flat_signoff serial_serial_from)
  moreover have "ts = [] \<Longrightarrow> segLoop ts (serialTodoSegments ts) False False = Inr (False, False)"
    by (simp add: serialTodoSegments_groups)
  ultimately show ?thesis using None
    by (cases "segLoop ts (serialTodoSegments ts) False False"; cases "ts = []")
      (auto simp: ValidateSerialTodos_def accepted_def hd_conv_nth)
next
  case (Some e)
  have "\<not> serial (map st (signoff ts))"
  proof
    assume "serial (map st (signoff ts))"
    from serial_legal [OF this] have "list_all legal (map st ts)" "currents (map st ts) \<le> 1"
      by (simp_all add: list_all_iff set_signoff count_signoff)
    then have "statusLoop 0 ts False = None" by (simp add: statusLoop_None)
    with Some show False by simp
  qed
  then show ?thesis using Some by (simp add: ValidateSerialTodos_def)
qed

section \<open>Writing statuses\<close>

lemma st_written [simp]:
  "st (setStatus COMPLETED t) = COMPLETED" "st (setStatus IN_PROGRESS t) = IN_PROGRESS"
  "st (setStatus PENDING t) = PENDING" "tLevel (setStatus s t) = tLevel t" "isSub (setStatus s t) = isSub t"
proof -
  have "TrimSpace COMPLETED = COMPLETED" "TrimSpace IN_PROGRESS = IN_PROGRESS" "TrimSpace PENDING = PENDING"
    by code_simp+
  then show "st (setStatus COMPLETED t) = COMPLETED" "st (setStatus IN_PROGRESS t) = IN_PROGRESS"
    "st (setStatus PENDING t) = PENDING" "tLevel (setStatus s t) = tLevel t" "isSub (setStatus s t) = isSub t"
    by (simp_all add: st_def setStatus_def todoStatus_def isSub_def)
qed

text \<open>The grouping depends on the levels only.\<close>

lemma groups_concat:
  "list_all2 (\<lambda>g' g. map tLevel g' = map tLevel g) gs' (groups ts) \<Longrightarrow> groups (concat gs') = gs'"
proof (induction ts arbitrary: gs' rule: groups.induct)
  case (2 t ts)
  show ?case
  proof (cases "tLevel t = 0")
    case True
    with 2(3) obtain g' rest where gs': "gs' = g' # rest" and g': "map tLevel g' = map tLevel (t # takeWhile isSub ts)"
      and rest: "list_all2 (\<lambda>g' g. map tLevel g' = map tLevel g) rest (groups (dropWhile isSub ts))"
      by (auto simp: list_all2_Cons2)
    from g' obtain t' subs where t': "g' = t' # subs" "tLevel t' = 0" "map tLevel subs = map tLevel (takeWhile isSub ts)"
      using True by auto
    have "\<forall>x \<in> tLevel ` set (takeWhile isSub ts). x = 1" by (auto dest!: set_takeWhileD simp: isSub_def)
    then have subs: "\<forall>x \<in> set subs. isSub x"
      using t'(3) by (metis (mono_tags, lifting) image_eqI isSub_def list.set_map)
    have "concat rest = [] \<or> \<not> isSub (hd (concat rest))"
    proof (cases "dropWhile isSub ts")
      case Nil
      then show ?thesis using rest unfolding Nil by simp
    next
      case (Cons x xs)
      have x: "\<not> isSub x" using Cons by (metis hd_dropWhile list.distinct(1) list.sel(1))
      obtain zs gs0 where e: "groups (x # xs) = (x # zs) # gs0" by (cases "tLevel x = 0") auto
      from rest obtain h hs where h: "rest = h # hs" "map tLevel h = map tLevel (x # zs)"
        unfolding Cons e by (auto simp: list_all2_Cons2)
      then obtain y ys where "h = y # ys" "tLevel y = tLevel x" using h(2) by auto
      then show ?thesis using h x by (simp add: isSub_def)
    qed
    then have "takeWhile isSub (subs @ concat rest) = subs" "dropWhile isSub (subs @ concat rest) = concat rest"
      using subs by (auto simp: takeWhile_append dropWhile_append takeWhile_eq_Nil_iff dropWhile_eq_self_iff)
    then show ?thesis using 2(1) [OF True rest] by (simp add: gs' t')
  next
    case False
    with 2(3) obtain t' rest where gs': "gs' = [t'] # rest" "tLevel t' = tLevel t"
      and rest: "list_all2 (\<lambda>g' g. map tLevel g' = map tLevel g) rest (groups ts)"
      by (auto simp: list_all2_Cons2)
    then show ?thesis using 2(2) [OF False rest] False by simp
  qed
qed simp

lemma foldl_setAt:
  "foldl (\<lambda>o' i. setAt o' i s) (pre @ xs @ post) [length pre ..< length pre + length xs] = pre @ map (setStatus s) xs @ post"
proof (induction xs arbitrary: pre)
  case (Cons x xs)
  have "[length pre ..< length pre + length (x # xs)] = length pre # [length (pre @ [setStatus s x]) ..< length (pre @ [setStatus s x]) + length xs]"
    by (simp add: upt_rec)
  moreover have "setAt (pre @ (x # xs) @ post) (length pre) s = (pre @ [setStatus s x]) @ xs @ post"
    by (simp add: setAt_def)
  ultimately show ?case using Cons.IH [of "pre @ [setStatus s x]"] by simp
qed simp

fun nsubs :: "TodoItem list \<Rightarrow> bool \<Rightarrow> TodoItem list \<times> bool" where
  "nsubs [] u = ([], u)"
| "nsubs (x # xs) u =
     (if \<not> u \<and> st x = COMPLETED then let (ys, v) = nsubs xs u in (x # ys, v)
      else let (ys, v) = nsubs xs True in (setStatus (if u then PENDING else IN_PROGRESS) x # ys, v))"

lemma normSubs_nsubs:
  "normSubs (pre @ xs @ post) [length pre ..< length pre + length xs] u = (pre @ fst (nsubs xs u) @ post, snd (nsubs xs u))"
proof (induction xs arbitrary: pre u)
  case (Cons x xs)
  have s: "setAt (pre @ x # xs @ post) (length pre) s = pre @ setStatus s x # xs @ post" for s
    by (simp add: setAt_def)
  show ?case
    using Cons.IH [of "pre @ [x]" u] Cons.IH [of "pre @ [setStatus PENDING x]" u]
      Cons.IH [of "pre @ [setStatus IN_PROGRESS x]" True]
    by (auto simp: s case_prod_unfold Let_def upt_conv_Cons simp del: upt_Suc)
qed simp

section \<open>The repaired list\<close>

definition ngroup :: "TodoItem list \<Rightarrow> TodoItem list" where
  "ngroup g = (let (ys, v) = nsubs (tl g) False in setStatus (if v then PENDING else IN_PROGRESS) (hd g) # ys)"

fun ngroups :: "TodoItem list list \<Rightarrow> TodoItem list list" where
  "ngroups [] = []"
| "ngroups (g # gs) =
     (if all_are COMPLETED (map st g) then g # ngroups gs else ngroup g # map (map (setStatus PENDING)) gs)"

lemma seg_at_range [simp]: "sHead (seg_at i g) = i" "sEnd (seg_at i g) = i + length g"
  by (simp_all add: seg_at_def)

lemma completed_group:
  "serialSegmentCompleted (pre @ g @ post) (seg_at (length pre) g) \<longleftrightarrow> all_are COMPLETED (map st g)"
proof -
  have "map (\<lambda>i. (pre @ g @ post) ! i) [length pre ..< length pre + length g] = g"
    by (rule map_drop_nth [where rest = post]) simp
  from arg_cong [OF this, of "\<lambda>l. \<forall>t \<in> set l. st t = COMPLETED"] show ?thesis
    by (simp add: serialSegmentCompleted_def seg_at_def list_all_iff)
qed

lemma normSegs_pending:
  "normSegs (pre @ concat gs) (segs_at (length pre) gs) True = pre @ concat (map (map (setStatus PENDING)) gs)"
proof (induction gs arbitrary: pre)
  case (Cons g gs)
  show ?case
    using foldl_setAt [of PENDING pre g "concat gs"] Cons.IH [of "pre @ map (setStatus PENDING) g"]
    by (simp add: seg_at_def)
qed simp

lemma normSegs_groups:
  assumes "\<forall>g \<in> set gs. is_group g"
  shows "normSegs (pre @ concat gs) (segs_at (length pre) gs) False = pre @ concat (ngroups gs)"
  using assms
proof (induction gs arbitrary: pre)
  case (Cons g gs)
  obtain h subs where g: "g = h # subs" using Cons.prems by (cases g) (auto simp: is_group_def)
  show ?case
  proof (cases "all_are COMPLETED (map st g)")
    case True
    then show ?thesis
      using Cons.IH [of "pre @ g"] Cons.prems completed_group [of pre g "concat gs"] by simp
  next
    case False
    have c: "\<not> serialSegmentCompleted (pre @ concat (g # gs)) (seg_at (length pre) g)"
      using False completed_group [of pre g "concat gs"] by simp
    have w: "setAt (pre @ h # xs) (length pre) s = pre @ setStatus s h # xs" for xs s
      by (simp add: setAt_def)
    have n: "normSubs (pre @ h # subs @ concat gs) [Suc (length pre) ..< length pre + length g] False =
        (pre @ h # fst (nsubs subs False) @ concat gs, snd (nsubs subs False))"
      using normSubs_nsubs [of "pre @ [h]" subs "concat gs" False] by (simp add: g)
    have len: "length (fst (nsubs xs u)) = length xs" for xs u
      by (induction xs u rule: nsubs.induct) (auto simp: case_prod_unfold Let_def)
    show ?thesis
    proof (cases subs)
      case Nil
      then show ?thesis
        using False c w normSegs_pending [of "pre @ [setStatus IN_PROGRESS h]" gs]
        by (simp add: g ngroup_def)
    next
      case (Cons x xs)
      then have "subs \<noteq> []" by simp
      then show ?thesis
        using False c w n normSegs_pending [of "pre @ setStatus (if snd (nsubs subs False) then PENDING else IN_PROGRESS) h # fst (nsubs subs False)" gs]
        by (auto simp: g ngroup_def case_prod_unfold Let_def len)
    qed
  qed
qed simp

lemma NormalizeSerialTodos_groups: "NormalizeSerialTodos ts = concat (ngroups (groups ts))"
  using normSegs_groups [of "groups ts" "[]"] groups_is_group
  by (simp add: NormalizeSerialTodos_def serialTodoSegments_groups)

text \<open>What the repair leaves in the order of signing off: the completed items that lead, one current
  item, pending items.\<close>

definition leading :: "bytes list \<Rightarrow> nat" where
  "leading ss = length (takeWhile (\<lambda>s. s = COMPLETED) ss)"

definition repaired :: "bytes list \<Rightarrow> bytes list" where
  "repaired ss = (let k = leading ss in
     if k = length ss then ss else replicate k COMPLETED @ IN_PROGRESS # replicate (length ss - k - 1) PENDING)"

lemma repaired_Cons:
  "repaired (s # ss) = (if s = COMPLETED then COMPLETED # repaired ss else IN_PROGRESS # replicate (length ss) PENDING)"
  by (auto simp: repaired_def leading_def Let_def)

lemma repaired_Nil [simp]: "repaired [] = []"
  by (simp add: repaired_def leading_def)

lemma repaired_append:
  "repaired (xs @ ys) = (if all_are COMPLETED xs then xs @ repaired ys else repaired xs @ replicate (length ys) PENDING)"
  by (induction xs) (auto simp: repaired_Cons replicate_add)

lemma serial_repaired: "serial (repaired ss)"
proof (induction ss)
  case (Cons s ss)
  then show ?case by (auto simp: repaired_Cons serial_Cons list_all_iff)
qed simp

lemma repaired_serial: "serial ss \<Longrightarrow> repaired ss = ss"
  by (induction ss) (auto simp: repaired_Cons serial_Cons all_eq_replicate split: if_splits)

lemma repaired_completed: "all_are COMPLETED ss \<Longrightarrow> repaired ss = ss"
  by (induction ss) (auto simp: repaired_Cons)

lemma nsubs_true: "nsubs xs True = (map (setStatus PENDING) xs, True)"
  by (induction xs) auto

lemma nsubs_spec:
  "map st (fst (nsubs xs False)) = repaired (map st xs) \<and> (snd (nsubs xs False) \<longleftrightarrow> \<not> all_are COMPLETED (map st xs))"
  by (induction xs) (auto simp: repaired_Cons nsubs_true case_prod_unfold Let_def map_replicate_const comp_def)

lemma gsts_ngroup:
  assumes "g \<noteq> []" and "\<not> all_are COMPLETED (map st g)"
  shows "gsts (ngroup g) = repaired (gsts g)"
proof -
  obtain h subs where g: "g = h # subs" using assms by (cases g) auto
  show ?thesis
    using assms(2) nsubs_spec [of subs]
    by (auto simp: g ngroup_def gsts_def case_prod_unfold Let_def repaired_append repaired_Cons repaired_completed
        list.pred_map comp_def)
qed

lemma gsts_completed: "g \<noteq> [] \<Longrightarrow> all_are COMPLETED (gsts g) \<longleftrightarrow> all_are COMPLETED (map st g)"
  by (cases g) (auto simp: gsts_def)

lemma length_gsts: "g \<noteq> [] \<Longrightarrow> length (gsts g) = length g"
  by (cases g) (auto simp: gsts_def)

lemma flat_pending:
  "\<forall>g \<in> set gs. is_group g \<Longrightarrow> flat (map (map (setStatus PENDING)) gs) = replicate (length (flat gs)) PENDING"
proof (induction gs)
  case (Cons g gs)
  have "gsts (map (setStatus PENDING) g) = replicate (length (gsts g)) PENDING" if "g \<noteq> []"
    using that by (cases g) (auto simp: gsts_def map_replicate_const comp_def replicate_append_same)
  with Cons show ?case by (auto simp: is_group_def replicate_add)
qed simp

lemma flat_ngroups: "\<forall>g \<in> set gs. is_group g \<Longrightarrow> flat (ngroups gs) = repaired (flat gs)"
proof (induction gs)
  case (Cons g gs)
  then have ne: "g \<noteq> []" by (simp add: is_group_def)
  show ?case
    using Cons ne by (simp add: repaired_append gsts_completed gsts_ngroup flat_pending)
qed simp

lemma levels_nsubs: "map tLevel (fst (nsubs xs u)) = map tLevel xs"
  by (induction xs u rule: nsubs.induct) (auto simp: case_prod_unfold Let_def)

lemma levels_ngroups:
  "\<forall>g \<in> set gs. is_group g \<Longrightarrow> list_all2 (\<lambda>g' g. map tLevel g' = map tLevel g) (ngroups gs) gs"
proof (induction gs)
  case (Cons g gs)
  have "map tLevel (ngroup g) = map tLevel g"
    using Cons.prems by (cases g) (auto simp: is_group_def ngroup_def case_prod_unfold Let_def levels_nsubs)
  moreover have "list_all2 (\<lambda>g' g. map tLevel g' = map tLevel g) (map (map (setStatus PENDING)) gs) gs"
    by (simp add: list_all2_map1 comp_def list.rel_refl)
  ultimately show ?case using Cons by simp
qed simp

lemma NormalizeSerialTodos_signoff:
  "map st (signoff (NormalizeSerialTodos ts)) = repaired (map st (signoff ts))"
proof -
  have g: "\<forall>g \<in> set (groups ts). is_group g" by (auto dest: groups_is_group)
  have "groups (NormalizeSerialTodos ts) = ngroups (groups ts)"
    unfolding NormalizeSerialTodos_groups by (rule groups_concat) (rule levels_ngroups [OF g])
  then show ?thesis using flat_ngroups [OF g] by (simp add: flat_signoff [symmetric])
qed

lemma NormalizeSerialTodos_levels: "map tLevel (NormalizeSerialTodos ts) = map tLevel ts"
proof -
  have g: "\<forall>g \<in> set (groups ts). is_group g" by (auto dest: groups_is_group)
  have "list_all2 (\<lambda>g' g. map tLevel g' = map tLevel g) xs ys \<Longrightarrow> map tLevel (concat xs) = map tLevel (concat ys)" for xs ys
    by (induction rule: list_all2_induct) auto
  from this [OF levels_ngroups [OF g]] show ?thesis by (simp add: NormalizeSerialTodos_groups)
qed

lemma hd_level: "map tLevel ts' = map tLevel ts \<Longrightarrow> ts' \<noteq> [] \<Longrightarrow> tLevel (hd ts') = tLevel (hd ts)"
  by (cases ts; cases ts') auto

section \<open>Signing off the current item\<close>

text \<open>The order of signing off with \<open>k\<close> of \<open>n\<close> items done.\<close>

definition progress :: "nat \<Rightarrow> nat \<Rightarrow> bytes list" where
  "progress k n = replicate k COMPLETED @ (if k < n then IN_PROGRESS # replicate (n - k - 1) PENDING else [])"

fun adv :: "bytes list \<Rightarrow> bytes list" where
  "adv [] = []"
| "adv (s # ss) = (if s = COMPLETED then s # adv ss else COMPLETED # (case ss of [] \<Rightarrow> [] | _ # r \<Rightarrow> IN_PROGRESS # r))"

lemma adv_append: "all_are COMPLETED xs \<Longrightarrow> adv (xs @ ys) = xs @ adv ys"
  by (induction xs) auto

lemma length_progress [simp]: "k \<le> n \<Longrightarrow> length (progress k n) = n"
  by (auto simp: progress_def)

lemma serial_progress: "serial ss \<longleftrightarrow> (\<exists>k \<le> length ss. ss = progress k (length ss))"
proof
  assume "serial ss"
  then consider k where "ss = replicate k COMPLETED"
    | k m where "ss = replicate k COMPLETED @ IN_PROGRESS # replicate m PENDING"
    by (auto simp: serial_def)
  then show "\<exists>k \<le> length ss. ss = progress k (length ss)"
  proof cases
    case (1 k)
    then show ?thesis by (intro exI [of _ k]) (simp add: progress_def)
  next
    case (2 k m)
    then show ?thesis by (intro exI [of _ k]) (simp add: progress_def)
  qed
next
  assume "\<exists>k \<le> length ss. ss = progress k (length ss)"
  then obtain k where k: "ss = progress k (length ss)" by auto
  show "serial ss"
  proof (cases "k < length ss")
    case True
    with k have "ss = replicate k COMPLETED @ IN_PROGRESS # replicate (length ss - k - 1) PENDING"
      by (simp add: progress_def)
    then show ?thesis unfolding serial_def by blast
  next
    case False
    with k have "ss = replicate k COMPLETED" by (simp add: progress_def)
    then show ?thesis unfolding serial_def by blast
  qed
qed

lemma adv_progress: "k < n \<Longrightarrow> adv (progress k n) = progress (k + 1) n"
proof -
  assume "k < n"
  then obtain m where n: "n = Suc (k + m)" using less_iff_Suc_add by blast
  have c: "all_are COMPLETED (replicate k COMPLETED)" by (simp add: list_all_iff)
  show ?thesis
    by (cases m) (simp_all add: n progress_def adv_append [OF c] replicate_app_Cons_same)
qed

lemma setAt_mid: "setAt (A @ x # B) (length A) s = A @ setStatus s x # B"
  by (simp add: setAt_def)

lemma drop_mid: "drop (Suc (length A)) (A @ x # B) = B"
  by simp

lemma find_cut: "\<forall>j \<in> set xs. \<not> Q j \<Longrightarrow> Q y \<Longrightarrow> find Q (xs @ y # ys) = Some y"
  by (induction xs) auto

text \<open>The position of the first element with a property, in a list that is cut there.\<close>

lemma firstAt_cut:
  assumes "\<forall>t \<in> set B. \<not> P t" and "P x" and "length A + length B < m"
  shows "firstAt P (A @ B @ x # C) [length A ..< m] = Some (length A + length B)"
proof -
  have "[length A ..< m] = [length A ..< length A + length B] @ (length A + length B) # [Suc (length A + length B) ..< m]"
    using assms(3) upt_add_eq_append [of "length A" "length A + length B" "m - (length A + length B)"]
    by (simp add: upt_conv_Cons)
  then show ?thesis
    unfolding firstAt_def by (simp only:) (rule find_cut; use assms in \<open>auto simp: nth_append\<close>)
qed

lemma firstAt_none:
  assumes "\<forall>t \<in> set B. \<not> P t"
  shows "firstAt P (A @ B @ C) [length A ..< length A + length B] = None"
  using assms by (auto simp: firstAt_def find_None_iff nth_append)

lemma phaseAbove_cut:
  assumes "\<forall>t \<in> set B. isSub t" and "\<not> isSub h"
  shows "phaseAbove (A @ h # B @ C) (length A + 1 + length B) = Some (length A)"
proof -
  have "rev [0 ..< length A + 1 + length B] = rev [Suc (length A) ..< length A + 1 + length B] @ length A # rev [0 ..< length A]"
    using upt_add_eq_append [of 0 "Suc (length A)" "length B"] by simp
  then show ?thesis
    unfolding phaseAbove_def firstAt_def
    by (simp only:) (rule find_cut; use assms in \<open>auto simp: nth_append nth_Cons'\<close>)
qed

definition starts_unit :: "TodoItem list \<Rightarrow> bool" where
  "starts_unit Q \<longleftrightarrow> Q = [] \<or> \<not> isSub (hd Q)"

lemma subEnd_cut:
  assumes "\<forall>t \<in> set B. isSub t" and "starts_unit Q"
  shows "subEnd (A @ B @ Q) (length A) = length A + length B"
proof -
  have "takeWhile isSub (B @ Q) = B"
    using assms by (cases Q) (auto simp: starts_unit_def takeWhile_append takeWhile_eq_all_conv)
  then show ?thesis by (simp add: subEnd_def)
qed

lemma AdvanceSerialTodo_sub:
  assumes subs: "\<forall>t \<in> set (cs @ c # ps). tLevel t = 1" and h: "tLevel h \<noteq> 1" "st h \<noteq> COMPLETED"
    and Q: "starts_unit Q" and c: "st c = IN_PROGRESS" and ps: "\<forall>t \<in> set ps. st t = PENDING"
  shows "AdvanceSerialTodo (A @ h # cs @ c # ps @ Q) (int (length A + 1 + length cs)) =
    (True, case ps of [] \<Rightarrow> A @ setStatus IN_PROGRESS h # cs @ setStatus COMPLETED c # Q
           | p # ps' \<Rightarrow> A @ h # cs @ setStatus COMPLETED c # setStatus IN_PROGRESS p # ps' @ Q)"
proof -
  let ?B = "A @ h # cs" and ?c = "setStatus COMPLETED c"
  let ?ts = "?B @ c # ps @ Q" and ?ts1 = "?B @ ?c # ps @ Q" and ?i = "length A + 1 + length cs"
  have i: "?i = length ?B" by simp
  have at: "?ts ! ?i = c" unfolding i by (rule nth_append_length)
  have lc: "tLevel c = 1" using subs by simp
  have f: "FirstUnfinishedSubStep ?ts (int ?i) = None"
    unfolding FirstUnfinishedSubStep_def nat_int at using lc by simp
  have s1: "setAt ?ts ?i COMPLETED = ?ts1" unfolding i by (rule setAt_mid)
  have l1: "tLevel (?ts1 ! ?i) = 1" unfolding i nth_append_length using lc by simp
  have e: "subEnd ?ts1 (?i + 1) = ?i + 1 + length ps"
    using subEnd_cut [of ps Q "?B @ [?c]"] subs Q by (simp add: isSub_def)
  have adv: "AdvanceSerialTodo ?ts (int ?i) =
      (case firstAt (\<lambda>t. st t = PENDING) ?ts1 [?i + 1 ..< subEnd ?ts1 (?i + 1)] of
           Some j \<Rightarrow> (True, setAt ?ts1 j IN_PROGRESS)
         | None \<Rightarrow>
             (case phaseAbove ?ts1 ?i of
                Some h \<Rightarrow> (True, if st (?ts1 ! h) \<noteq> COMPLETED then setAt ?ts1 h IN_PROGRESS else ?ts1)
              | None \<Rightarrow> (True, promoteNext ?ts1)))"
    unfolding AdvanceSerialTodo_def Let_def nat_int f at s1 l1 using c by simp
  show ?thesis
  proof (cases ps)
    case Nil
    have n: "firstAt (\<lambda>t. st t = PENDING) ?ts1 [?i + 1 ..< subEnd ?ts1 (?i + 1)] = None"
      unfolding e by (simp add: Nil firstAt_def)
    have p: "phaseAbove ?ts1 ?i = Some (length A)"
      using phaseAbove_cut [of cs h A "?c # ps @ Q"] subs h by (simp add: isSub_def)
    have "setAt ?ts1 (length A) IN_PROGRESS = A @ setStatus IN_PROGRESS h # cs @ ?c # ps @ Q"
      using setAt_mid [of A h "cs @ ?c # ps @ Q"] by simp
    moreover have "?ts1 ! length A = h" by (simp add: nth_append)
    ultimately show ?thesis using adv h unfolding n p by (simp add: Nil)
  next
    case (Cons p ps')
    have "firstAt (\<lambda>t. st t = PENDING) ((?B @ [?c]) @ [] @ p # ps' @ Q) [length (?B @ [?c]) ..< ?i + 1 + length ps] =
        Some (length (?B @ [?c]) + length ([] :: TodoItem list))"
      by (rule firstAt_cut) (use ps in \<open>auto simp: Cons\<close>)
    then have n: "firstAt (\<lambda>t. st t = PENDING) ?ts1 [?i + 1 ..< subEnd ?ts1 (?i + 1)] = Some (length (?B @ [?c]))"
      unfolding e by (simp add: Cons)
    have "setAt ?ts1 (length (?B @ [?c])) IN_PROGRESS = (?B @ [?c]) @ setStatus IN_PROGRESS p # ps' @ Q"
      using setAt_mid [of "?B @ [?c]" p "ps' @ Q"] by (simp add: Cons)
    then show ?thesis using adv unfolding n by (simp add: Cons)
  qed
qed

fun promoted :: "TodoItem list \<Rightarrow> TodoItem list" where
  "promoted [] = []"
| "promoted [h] = [setStatus IN_PROGRESS h]"
| "promoted (h # q # r) =
     (if tLevel h = 0 \<and> isSub q then h # setStatus IN_PROGRESS q # r else setStatus IN_PROGRESS h # q # r)"

lemma promoteNext_cut:
  assumes dn: "\<forall>t \<in> set A. st t = COMPLETED" and Q: "\<forall>t \<in> set Q. st t = PENDING"
  shows "promoteNext (A @ Q) = A @ promoted Q"
proof (cases Q)
  case Nil
  then have "firstAt (\<lambda>t. st t = PENDING) (A @ Q) [0 ..< length (A @ Q)] = None"
    using firstAt_none [of A "\<lambda>t. st t = PENDING" "[]" "[]"] dn by simp
  then show ?thesis using Nil dn by (auto simp: promoteNext_def)
next
  case (Cons h Q')
  have none: "\<not> (\<exists>t \<in> set (A @ Q). st t = IN_PROGRESS)" using dn Q by auto
  have first: "firstAt (\<lambda>t. st t = PENDING) (A @ Q) [0 ..< length (A @ Q)] = Some (length A)"
    using firstAt_cut [of A "\<lambda>t. st t = PENDING" h "[]" "length (A @ Q)" Q'] dn Q by (simp add: Cons)
  have at: "(A @ Q) ! length A = h" by (simp add: Cons)
  have w: "setAt (A @ Q) (length A) IN_PROGRESS = A @ setStatus IN_PROGRESS h # Q'"
    using setAt_mid [of A h Q'] by (simp add: Cons)
  show ?thesis
  proof (cases "\<exists>q r. Q' = q # r \<and> tLevel h = 0 \<and> isSub q")
    case True
    then obtain q r where q: "Q' = q # r" "tLevel h = 0" "isSub q" by auto
    have at1: "(A @ Q) ! Suc (length A) = q" by (simp add: Cons q nth_append)
    have "Suc (length A) < subEnd (A @ Q) (Suc (length A))"
      by (simp add: subEnd_def Cons q)
    moreover have "st ((A @ Q) ! Suc (length A)) \<noteq> COMPLETED" using Q by (simp only: at1) (simp add: Cons q)
    ultimately have "find (\<lambda>i. st ((A @ Q) ! i) \<noteq> COMPLETED) [Suc (length A) ..< subEnd (A @ Q) (Suc (length A))] = Some (Suc (length A))"
      by (simp only: upt_conv_Cons find.simps if_True not_False_eq_True)
    then have f: "FirstUnfinishedSubStep (A @ Q) (int (length A)) = Some (Some (Suc (length A)))"
      using q by (simp add: FirstUnfinishedSubStep_def at at1) (simp add: Cons isSub_def)
    have "setAt (A @ Q) (Suc (length A)) IN_PROGRESS = A @ h # setStatus IN_PROGRESS q # r"
      using setAt_mid [of "A @ [h]" q r] by (simp add: Cons q)
    moreover have "st ((A @ Q) ! Suc (length A)) = PENDING" using Q by (simp only: at1) (simp add: Cons q)
    ultimately have "promoteNext (A @ Q) = A @ h # setStatus IN_PROGRESS q # r"
      unfolding promoteNext_def first using none f by simp
    then show ?thesis using q by (simp add: Cons)
  next
    case False
    have f: "FirstUnfinishedSubStep (A @ Q) (int (length A)) = None"
      using False by (cases Q') (auto simp: FirstUnfinishedSubStep_def Cons nth_append isSub_def)
    have "promoted Q = setStatus IN_PROGRESS h # Q'" using False by (cases Q') (auto simp: Cons)
    then show ?thesis using none first f w by (simp add: promoteNext_def)
  qed
qed

lemma AdvanceSerialTodo_unit:
  assumes A: "\<forall>t \<in> set A. st t = COMPLETED" and h: "tLevel h \<noteq> 1" "st h = IN_PROGRESS"
    and subs: "\<forall>t \<in> set subs. tLevel t = 1 \<and> st t = COMPLETED" and Q: "\<forall>t \<in> set Q. st t = PENDING"
    and u: "starts_unit Q"
  shows "AdvanceSerialTodo (A @ h # subs @ Q) (int (length A)) = (True, A @ setStatus COMPLETED h # subs @ promoted Q)"
proof -
  let ?ts = "A @ h # subs @ Q"
  have at: "?ts ! length A = h" by (rule nth_append_length)
  have e: "subEnd ?ts (Suc (length A)) = Suc (length A) + length subs"
    using subEnd_cut [of subs Q "A @ [h]"] subs u by (simp add: isSub_def)
  have "find (\<lambda>i. st (?ts ! i) \<noteq> COMPLETED) [Suc (length A) ..< Suc (length A) + length subs] = None"
    using subs by (auto simp: find_None_iff nth_append nth_Cons')
  then have f: "\<not> (case FirstUnfinishedSubStep ?ts (int (length A)) of Some (Some _) \<Rightarrow> True | _ \<Rightarrow> False)"
    by (simp add: FirstUnfinishedSubStep_def e)
  have "promoteNext ((A @ setStatus COMPLETED h # subs) @ Q) = (A @ setStatus COMPLETED h # subs) @ promoted Q"
    by (rule promoteNext_cut) (use A subs Q in auto)
  then show ?thesis
    using f h unfolding AdvanceSerialTodo_def Let_def nat_int at by (simp add: setAt_mid)
qed

definition two_levels :: "TodoItem list \<Rightarrow> bool" where
  "two_levels ts \<longleftrightarrow> (\<forall>t \<in> set ts. tLevel t = 0 \<or> tLevel t = 1)"

text \<open>What the panel shows of a list apart from the statuses.\<close>

definition same_items :: "TodoItem list \<Rightarrow> TodoItem list \<Rightarrow> bool" where
  "same_items ts' ts \<longleftrightarrow> map (setStatus []) ts' = map (setStatus []) ts"

lemma same_items_simps [simp]:
  "same_items [] []" "same_items (x # xs) (y # ys) \<longleftrightarrow> setStatus [] x = setStatus [] y \<and> same_items xs ys"
  "same_items xs xs" "setStatus a (setStatus b t) = setStatus a t"
  by (auto simp: same_items_def setStatus_def)

lemma same_items_append: "same_items a b \<Longrightarrow> same_items c d \<Longrightarrow> same_items (a @ c) (b @ d)"
  by (simp add: same_items_def)

lemma same_items_levels: "same_items ts' ts \<Longrightarrow> map tLevel ts' = map tLevel ts"
proof -
  assume "same_items ts' ts"
  then have "map (tLevel \<circ> setStatus []) ts' = map (tLevel \<circ> setStatus []) ts"
    unfolding same_items_def by (metis list.map_comp)
  then show ?thesis by (simp add: comp_def)
qed

lemma groups_hd_level:
  "two_levels ts \<Longrightarrow> ts = [] \<or> tLevel (hd ts) = 0 \<Longrightarrow> g \<in> set (groups ts) \<Longrightarrow> tLevel (hd g) = 0"
proof (induction ts rule: groups.induct)
  case (2 t ts)
  have "two_levels (dropWhile isSub ts)" using 2(3) by (auto simp: two_levels_def dest: set_dropWhileD)
  moreover have "dropWhile isSub ts = [] \<or> tLevel (hd (dropWhile isSub ts)) = 0"
  proof (cases "dropWhile isSub ts")
    case (Cons x xs)
    then have "\<not> isSub x" by (metis hd_dropWhile list.distinct(1) list.sel(1))
    moreover have "x \<in> set ts" using Cons by (metis list.set_intros(1) set_dropWhileD)
    ultimately show ?thesis using 2(3) Cons by (auto simp: two_levels_def isSub_def)
  qed simp
  ultimately show ?case using 2 by auto
qed simp

text \<open>The group that holds the current item.\<close>

lemma serial_groups:
  assumes "serial_from False (flat gs)" and "IN_PROGRESS \<in> set (flat gs)"
  shows "\<exists>pre g post. gs = pre @ g # post \<and> all_are COMPLETED (flat pre) \<and> IN_PROGRESS \<in> set (gsts g) \<and>
    serial_from False (gsts g) \<and> all_are PENDING (flat post)"
  using assms
proof (induction gs)
  case (Cons g gs)
  show ?case
  proof (cases "all_are COMPLETED (gsts g)")
    case True
    with Cons.prems have "serial_from False (flat gs)" "IN_PROGRESS \<in> set (flat gs)"
      by (auto simp: serial_from_append dest: current_not_completed)
    with Cons.IH obtain pre g' post where "gs = pre @ g' # post" "all_are COMPLETED (flat pre)" "IN_PROGRESS \<in> set (gsts g')"
      "serial_from False (gsts g')" "all_are PENDING (flat post)" by auto
    with True show ?thesis by (intro exI [of _ "g # pre"] exI [of _ g'] exI [of _ post]) simp
  next
    case False
    with Cons.prems have s: "serial_from False (gsts g)" "all_are PENDING (flat gs)" by (auto simp: serial_from_append)
    with Cons.prems have "IN_PROGRESS \<in> set (gsts g)" by (auto simp: list_all_iff)
    with s show ?thesis by (intro exI [of _ "[]"] exI [of _ g] exI [of _ gs]) simp
  qed
qed simp

lemma serial_current_cut:
  "serial_from False ss \<Longrightarrow> IN_PROGRESS \<in> set ss \<Longrightarrow>
    \<exists>cs ps. ss = cs @ IN_PROGRESS # ps \<and> all_are COMPLETED cs \<and> all_are PENDING ps"
proof (induction ss)
  case (Cons s ss)
  show ?case
  proof (cases "s = COMPLETED")
    case True
    with Cons obtain cs ps where "ss = cs @ IN_PROGRESS # ps" "all_are COMPLETED cs" "all_are PENDING ps" by auto
    with True show ?thesis by (intro exI [of _ "s # cs"] exI [of _ ps]) simp
  next
    case False
    with Cons.prems show ?thesis by (intro exI [of _ "[]"] exI [of _ ss]) simp
  qed
qed simp

lemma map_eq_cut: "map f xs = as @ b # cs \<Longrightarrow>
    \<exists>u x v. xs = u @ x # v \<and> map f u = as \<and> f x = b \<and> map f v = cs"
  by (auto simp: map_eq_append_conv map_eq_Cons_conv)

lemma all_are_map: "all_are x (map f xs) \<longleftrightarrow> (\<forall>t \<in> set xs. f t = x)"
  by (auto simp: list_all_iff)

lemma all_flat: "\<forall>g \<in> set gs. g \<noteq> [] \<Longrightarrow> all_are x (flat gs) \<longleftrightarrow> (\<forall>t \<in> set (concat gs). st t = x)"
proof (induction gs)
  case (Cons g gs)
  then show ?case by (cases g) (auto simp: gsts_def list_all_iff)
qed simp

text \<open>The groups of the new list, when one group changes and the next one may change too.\<close>

lemma signoff_changed:
  assumes g: "groups ts = pre @ g # post" and l: "map tLevel g' = map tLevel g"
    and p: "list_all2 (\<lambda>g' g. map tLevel g' = map tLevel g) post' post"
  shows "map st (signoff (concat (pre @ g' # post'))) = flat pre @ gsts g' @ flat post'"
proof -
  have "list_all2 (\<lambda>g' g. map tLevel g' = map tLevel g) (pre @ g' # post') (groups ts)"
    unfolding g using l p by (auto intro!: list_all2_appendI list.rel_refl)
  from groups_concat [OF this] show ?thesis by (simp add: flat_signoff [symmetric] flat_def)
qed

lemma promoted_groups:
  assumes "\<forall>g \<in> set post. is_group g \<and> tLevel (hd g) = 0"
  shows "\<exists>post'. promoted (concat post) = concat post' \<and>
    list_all2 (\<lambda>g' g. map tLevel g' = map tLevel g) post' post \<and> same_items (concat post') (concat post) \<and>
    flat post' = (case flat post of [] \<Rightarrow> [] | _ # r \<Rightarrow> IN_PROGRESS # r)"
proof (cases post)
  case Nil
  then show ?thesis by (intro exI [of _ "[]"]) simp
next
  case (Cons g post2)
  obtain h subs where g: "g = h # subs" using assms Cons by (cases g) (auto simp: is_group_def)
  have refl: "list_all2 (\<lambda>g' g. map tLevel g' = map tLevel g) post2 post2" by (rule list.rel_refl) simp
  show ?thesis
  proof (cases subs)
    case Nil
    have n: "concat post2 = [] \<or> \<not> isSub (hd (concat post2))"
      using assms Cons by (cases post2) (auto simp: is_group_def isSub_def)
    have "promoted (concat post) = setStatus IN_PROGRESS h # concat post2"
    proof (cases "concat post2")
      case Nil
      then have "concat post = [h]" by (simp only: Cons g \<open>subs = []\<close> concat.simps append.simps)
      then show ?thesis using Nil by simp
    next
      case c: (Cons y ys)
      then have "concat post = h # y # ys" by (simp only: Cons g \<open>subs = []\<close> concat.simps append.simps)
      then show ?thesis using n c by simp
    qed
    then show ?thesis using refl
      by (intro exI [of _ "[setStatus IN_PROGRESS h] # post2"]) (simp add: Cons g Nil gsts_def)
  next
    case (Cons q r)
    have "tLevel h = 0" "isSub q" using assms \<open>post = g # post2\<close> by (auto simp: g Cons is_group_def isSub_def)
    then show ?thesis using refl
      by (intro exI [of _ "(h # setStatus IN_PROGRESS q # r) # post2"]) (simp add: \<open>post = g # post2\<close> g Cons gsts_def)
  qed
qed

lemma AdvanceSerialTodo_current:
  assumes v: "ValidateSerialTodos ts = None" and lv: "two_levels ts" and cur: "IN_PROGRESS \<in> set (map st ts)"
  shows "\<exists>i ts'. i < length ts \<and> st (ts ! i) = IN_PROGRESS \<and> AdvanceSerialTodo ts (int i) = (True, ts') \<and>
    same_items ts' ts \<and> map st (signoff ts') = adv (map st (signoff ts))"
proof -
  have hd0: "ts = [] \<or> tLevel (hd ts) = 0"
    using v lv by (cases ts) (auto simp: ValidateSerialTodos_iff two_levels_def)
  have sf: "serial_from False (flat (groups ts))"
    using v by (simp add: ValidateSerialTodos_iff serial_serial_from flat_signoff)
  have inf: "IN_PROGRESS \<in> set (flat (groups ts))" using cur set_signoff [of ts] by (simp add: flat_signoff)
  from serial_groups [OF sf inf] obtain pre g post where gs: "groups ts = pre @ g # post"
    and pre: "all_are COMPLETED (flat pre)" and g: "IN_PROGRESS \<in> set (gsts g)" "serial_from False (gsts g)"
    and post: "all_are PENDING (flat post)" by auto
  have grp: "\<forall>x \<in> set (pre @ g # post). is_group x \<and> tLevel (hd x) = 0"
    using groups_is_group [of _ ts] groups_hd_level [OF lv hd0] unfolding gs by blast
  then have ne: "\<forall>x \<in> set (pre @ g # post). x \<noteq> []" by (auto simp: is_group_def)
  obtain h subs where h: "g = h # subs" using ne by (cases g) auto
  have lvs: "tLevel h = 0" "\<forall>t \<in> set subs. tLevel t = 1" using grp by (auto simp: h is_group_def)
  have ts: "ts = concat pre @ h # subs @ concat post" using concat_groups [of ts] by (simp add: gs h)
  have A: "\<forall>t \<in> set (concat pre). st t = COMPLETED" using pre ne by (simp add: all_flat)
  have Q: "\<forall>t \<in> set (concat post). st t = PENDING" using post ne by (simp add: all_flat)
  have u: "starts_unit (concat post)"
    using grp by (cases post) (auto simp: starts_unit_def is_group_def isSub_def)
  from serial_current_cut [OF g(2) g(1)] obtain cs ps
    where cut: "map st subs @ [st h] = cs @ IN_PROGRESS # ps" "all_are COMPLETED cs" "all_are PENDING ps"
    by (auto simp: h gsts_def)
  have flat: "map st (signoff ts) = flat pre @ gsts g @ flat post" by (simp add: flat_signoff [symmetric] gs)
  show ?thesis
  proof (cases ps rule: rev_cases)
    case Nil
    then have hs: "st h = IN_PROGRESS" "map st subs = cs" using cut(1) by auto
    have subs: "\<forall>t \<in> set subs. tLevel t = 1 \<and> st t = COMPLETED"
      using lvs cut(2) unfolding hs(2) [symmetric] by (simp add: all_are_map)
    from promoted_groups [of post] grp obtain post' where p: "promoted (concat post) = concat post'"
      "list_all2 (\<lambda>g' g. map tLevel g' = map tLevel g) post' post" "same_items (concat post') (concat post)"
      "flat post' = (case flat post of [] \<Rightarrow> [] | _ # r \<Rightarrow> IN_PROGRESS # r)" by auto
    let ?g = "setStatus COMPLETED h # subs"
    have "AdvanceSerialTodo ts (int (length (concat pre))) = (True, concat (pre @ ?g # post'))"
      using AdvanceSerialTodo_unit [OF A _ hs(1) subs Q u] lvs by (simp add: ts p(1))
    moreover have "map st (signoff (concat (pre @ ?g # post'))) = adv (map st (signoff ts))"
    proof -
      have "map st (signoff (concat (pre @ ?g # post'))) = flat pre @ gsts ?g @ flat post'"
        by (rule signoff_changed [OF gs _ p(2)]) (simp add: h)
      moreover have "all_are COMPLETED (flat pre @ map st subs)" using pre subs by (simp add: all_are_map)
      ultimately show ?thesis
        using adv_append [of "flat pre @ map st subs" "IN_PROGRESS # flat post"] p(4)
        by (simp add: flat gsts_def h hs(1))
    qed
    moreover have "same_items (concat (pre @ ?g # post')) ts"
      using p(3) by (auto simp: ts intro!: same_items_append)
    ultimately show ?thesis
      by (intro exI [of _ "length (concat pre)"] exI [of _ "concat (pre @ ?g # post')"]) (simp add: ts hs)
  next
    case (snoc ps0 x)
    then have sub: "map st subs = cs @ IN_PROGRESS # ps0" and x: "x = st h" using cut(1) by auto
    from map_eq_cut [OF sub] obtain us c vs where subs: "subs = us @ c # vs" "map st us = cs" "st c = IN_PROGRESS"
      "map st vs = ps0" by auto
    have us: "\<forall>t \<in> set us. st t = COMPLETED" using cut(2) unfolding subs(2) [symmetric] by (simp add: all_are_map)
    have vs: "\<forall>t \<in> set vs. st t = PENDING" and hp: "st h = PENDING"
      using cut(3) unfolding snoc subs(4) [symmetric] x by (simp_all add: all_are_map)
    let ?g = "case vs of [] \<Rightarrow> setStatus IN_PROGRESS h # us @ [setStatus COMPLETED c]
       | p # vs' \<Rightarrow> h # us @ setStatus COMPLETED c # setStatus IN_PROGRESS p # vs'"
    have "AdvanceSerialTodo ts (int (length (concat pre) + 1 + length us)) = (True, concat (pre @ ?g # post))"
      using AdvanceSerialTodo_sub [of us c vs h "concat post" "concat pre", OF _ _ _ u subs(3) vs] lvs hp
      by (cases vs) (simp_all add: ts subs(1))
    moreover have "map st (signoff (concat (pre @ ?g # post))) = adv (map st (signoff ts))"
    proof -
      have "map st (signoff (concat (pre @ ?g # post))) = flat pre @ gsts ?g @ flat post"
        by (rule signoff_changed [OF gs]) (cases vs; auto simp: h subs intro!: list.rel_refl)+
      moreover have "all_are COMPLETED (flat pre @ map st us)" using pre us by (simp add: all_are_map)
      ultimately show ?thesis
        using adv_append [of "flat pre @ map st us" "IN_PROGRESS # map st vs @ st h # flat post"]
        by (cases vs) (simp_all add: flat gsts_def h subs hp)
    qed
    moreover have "same_items (concat (pre @ ?g # post)) ts"
      by (cases vs) (auto simp: ts subs intro!: same_items_append)
    moreover have "st (ts ! (length (concat pre) + 1 + length us)) = IN_PROGRESS"
      using subs(3) by (simp add: ts subs(1) nth_append)
    ultimately show ?thesis
      by (intro exI [of _ "length (concat pre) + 1 + length us"] exI [of _ "concat (pre @ ?g # post)"])
        (simp add: ts subs(1))
  qed
qed

lemma same_items_length: "same_items ts' ts \<Longrightarrow> length ts' = length ts"
  unfolding same_items_def by (metis length_map)

lemma length_signoff [simp]: "length (signoff ts) = length ts"
proof -
  have "\<forall>g \<in> set gs. is_group g \<Longrightarrow> length (concat (map (\<lambda>g. tl g @ [hd g]) gs)) = length (concat gs)" for gs
    by (induction gs) (auto simp: is_group_def)
  from this [of "groups ts"] groups_is_group show ?thesis by (simp add: signoff_def)
qed

lemma valid_progress:
  "ValidateSerialTodos ts = None \<longleftrightarrow>
     (ts = [] \<or> tLevel (hd ts) \<noteq> 1) \<and> (\<exists>k \<le> length ts. map st (signoff ts) = progress k (length ts))"
  using serial_progress [of "map st (signoff ts)"] by (simp add: ValidateSerialTodos_iff)

lemma same_items_nsubs: "same_items (fst (nsubs xs u)) xs"
  by (induction xs u rule: nsubs.induct) (auto simp: case_prod_unfold Let_def)

lemma same_items_pending: "same_items (map (setStatus s) xs) xs"
  by (induction xs) auto

lemma same_items_ngroups: "\<forall>g \<in> set gs. is_group g \<Longrightarrow> same_items (concat (ngroups gs)) (concat gs)"
proof (induction gs)
  case (Cons g gs)
  have "same_items (ngroup g) g"
    using Cons.prems same_items_nsubs [of "tl g" False]
    by (cases g) (auto simp: is_group_def ngroup_def case_prod_unfold Let_def)
  moreover have "same_items (concat (map (map (setStatus PENDING)) gs)) (concat gs)"
    using same_items_pending [of PENDING "concat gs"] by (simp add: map_concat)
  ultimately show ?case using Cons by (auto intro!: same_items_append)
qed simp

lemma NormalizeSerialTodos_items: "same_items (NormalizeSerialTodos ts) ts"
  using same_items_ngroups [of "groups ts"] groups_is_group by (simp add: NormalizeSerialTodos_groups)

lemma repaired_progress: "repaired ss = progress (leading ss) (length ss)"
proof -
  have r: "replicate (leading ss) COMPLETED = takeWhile (\<lambda>s. s = COMPLETED) ss"
    unfolding leading_def by (induction ss) auto
  have le: "leading ss \<le> length ss" unfolding leading_def by (rule length_takeWhile_le)
  show ?thesis
  proof (cases "leading ss = length ss")
    case True
    have "takeWhile (\<lambda>s. s = COMPLETED) ss = ss"
      using True unfolding leading_def by (induction ss) (auto split: if_splits)
    with r True have "replicate (length ss) COMPLETED = ss" by simp
    with True show ?thesis by (simp add: repaired_def progress_def)
  next
    case False
    with le show ?thesis by (simp add: repaired_def progress_def Let_def)
  qed
qed

lemma AdvanceSerialTodo_step:
  assumes v: "ValidateSerialTodos ts = None" and lv: "two_levels ts" and k: "map st (signoff ts) = progress k (length ts)"
    and i: "i < length ts" "st (ts ! i) = IN_PROGRESS"
  shows "\<exists>ts'. AdvanceSerialTodo ts (int i) = (True, ts') \<and> same_items ts' ts \<and> ValidateSerialTodos ts' = None \<and>
    map st (signoff ts') = progress (k + 1) (length ts)"
proof -
  have cur: "IN_PROGRESS \<in> set (map st ts)" using i by (metis in_set_conv_nth length_map nth_map)
  obtain j ts' where j: "j < length ts" "st (ts ! j) = IN_PROGRESS" and a: "AdvanceSerialTodo ts (int j) = (True, ts')"
    and s: "same_items ts' ts" and f: "map st (signoff ts') = adv (map st (signoff ts))"
    using AdvanceSerialTodo_current [OF v lv cur] by auto
  have "currents (map st ts) \<le> 1"
    using v serial_legal [of "map st (signoff ts)"] by (simp add: ValidateSerialTodos_iff count_signoff)
  then have "j = i"
  proof (rule contrapos_pp)
    assume "j \<noteq> i"
    then have "{i, j} \<subseteq> {x. x < length (map st ts) \<and> map st ts ! x = IN_PROGRESS}" using i j by auto
    from card_mono [OF _ this] \<open>j \<noteq> i\<close> have "2 \<le> card {x. x < length (map st ts) \<and> map st ts ! x = IN_PROGRESS}"
      by (simp add: card_insert_if)
    moreover have "count_list xs x = card {j. j < length xs \<and> xs ! j = x}" for xs :: "bytes list" and x
      using length_filter_conv_card [of "(=) x" xs] by (simp add: count_list_eq_length_filter eq_commute [of x])
    ultimately show "\<not> currents (map st ts) \<le> 1" by simp
  qed
  have kl: "k < length ts"
  proof (rule ccontr)
    assume "\<not> k < length ts"
    then have "set (map st (signoff ts)) \<subseteq> {COMPLETED}" using k by (auto simp: progress_def)
    moreover have "IN_PROGRESS \<in> set (map st (signoff ts))" using cur set_signoff [of ts] by auto
    ultimately show False by auto
  qed
  have f': "map st (signoff ts') = progress (k + 1) (length ts)" using f k adv_progress [OF kl] by simp
  moreover have "ValidateSerialTodos ts' = None"
  proof -
    have l: "length ts' = length ts" using s by (rule same_items_length)
    moreover have "ts' \<noteq> [] \<Longrightarrow> tLevel (hd ts') \<noteq> 1"
      using hd_level [OF same_items_levels [OF s]] v l by (auto simp: valid_progress)
    ultimately show ?thesis using f' kl by (auto simp: valid_progress intro!: exI [of _ "k + 1"])
  qed
  ultimately show ?thesis using a s \<open>j = i\<close> by auto
qed

lemma AdvanceSerialTodo_refused:
  "\<not> (0 \<le> i \<and> i < int (length ts) \<and> st (ts ! nat i) = IN_PROGRESS) \<Longrightarrow> AdvanceSerialTodo ts i = (False, ts)"
  by (auto simp: AdvanceSerialTodo_def Let_def)

text \<open>Signing off the current item again and again.\<close>

definition currentIndex :: "TodoItem list \<Rightarrow> int" where
  "currentIndex ts = (case firstAt (\<lambda>t. st t = IN_PROGRESS) ts [0 ..< length ts] of Some i \<Rightarrow> int i | None \<Rightarrow> -1)"

fun signOffs :: "nat \<Rightarrow> TodoItem list \<Rightarrow> TodoItem list" where
  "signOffs 0 ts = ts"
| "signOffs (Suc m) ts = signOffs m (snd (AdvanceSerialTodo ts (currentIndex ts)))"

lemma two_levels_same: "same_items ts' ts \<Longrightarrow> two_levels ts \<Longrightarrow> two_levels ts'"
proof -
  assume s: "same_items ts' ts" and "two_levels ts"
  then have "\<forall>l \<in> set (map tLevel ts). l = 0 \<or> l = 1" by (auto simp: two_levels_def)
  then show "two_levels ts'" unfolding same_items_levels [OF s, symmetric] by (auto simp: two_levels_def)
qed

lemma same_items_trans: "same_items a b \<Longrightarrow> same_items b c \<Longrightarrow> same_items a c"
  by (simp add: same_items_def)

lemma signOffs_progress:
  assumes "ValidateSerialTodos ts = None" and "two_levels ts" and "map st (signoff ts) = progress k (length ts)"
    and "k + m \<le> length ts"
  shows "same_items (signOffs m ts) ts \<and> map st (signoff (signOffs m ts)) = progress (k + m) (length ts) \<and>
    ValidateSerialTodos (signOffs m ts) = None"
  using assms
proof (induction m arbitrary: ts k)
  case (Suc m)
  then have k: "k < length ts" by simp
  have "IN_PROGRESS \<in> set (map st (signoff ts))" using Suc.prems(3) k by (simp add: progress_def)
  then obtain t where t: "t \<in> set ts" "st t = IN_PROGRESS" using set_signoff [of ts] by auto
  have "firstAt (\<lambda>t. st t = IN_PROGRESS) ts [0 ..< length ts] \<noteq> None"
    using t by (auto simp: firstAt_def find_None_iff in_set_conv_nth)
  then obtain i where i: "firstAt (\<lambda>t. st t = IN_PROGRESS) ts [0 ..< length ts] = Some i" by auto
  then have c: "currentIndex ts = int i" by (simp add: currentIndex_def)
  have "i < length ts" "st (ts ! i) = IN_PROGRESS"
    using i find_in_list [of "\<lambda>i. st (ts ! i) = IN_PROGRESS" "[0 ..< length ts]" i] by (auto simp: firstAt_def)
  from AdvanceSerialTodo_step [OF Suc.prems(1-3) this] obtain ts'
    where a: "AdvanceSerialTodo ts (int i) = (True, ts')" and s: "same_items ts' ts"
      and v: "ValidateSerialTodos ts' = None" and f: "map st (signoff ts') = progress (k + 1) (length ts)" by auto
  have l: "length ts' = length ts" by (rule same_items_length [OF s])
  from Suc.IH [OF v two_levels_same [OF s Suc.prems(2)], of "k + 1"] Suc.prems(4) f l
  show ?case by (auto simp: c a intro: same_items_trans [OF _ s])
qed simp

section \<open>Properties\<close>

text \<open>C16. 
  What a task list may look like. Read in the order of signing off (the sub-steps of a phase, then the
  phase), the statuses of an accepted list are \<open>k\<close> times completed, then in_progress unless all are
  completed, then pending; and conversely every such list is accepted, unless it begins with a
  sub-step that no phase owns.
\<close>

theorem ValidateSerialTodos_exact:
  "ValidateSerialTodos ts = None \<longleftrightarrow>
     (ts = [] \<or> tLevel (hd ts) \<noteq> 1) \<and> (\<exists>k \<le> length ts. map st (signoff ts) = progress k (length ts))"
  by (rule valid_progress)

text \<open>C17. 
  Signing off. On an accepted two-level list with \<open>k\<close> items done, \<open>AdvanceSerialTodo\<close> succeeds exactly on
  the current item; the result is accepted, has \<open>k + 1\<close> items done and the same items apart from their
  statuses. On any other index, negative or beyond the end included, nothing changes.
\<close>

theorem AdvanceSerialTodo_refines:
  assumes "ValidateSerialTodos ts = None" and "two_levels ts" and "map st (signoff ts) = progress k (length ts)"
  shows "case AdvanceSerialTodo ts i of (done, ts') \<Rightarrow>
    (done \<longleftrightarrow> 0 \<le> i \<and> i < int (length ts) \<and> st (ts ! nat i) = IN_PROGRESS) \<and>
    (if done then ValidateSerialTodos ts' = None \<and> same_items ts' ts \<and> map st (signoff ts') = progress (k + 1) (length ts)
     else ts' = ts)"
proof (cases "0 \<le> i \<and> i < int (length ts) \<and> st (ts ! nat i) = IN_PROGRESS")
  case True
  with AdvanceSerialTodo_step [OF assms, of "nat i"] show ?thesis by auto
next
  case False
  then show ?thesis by (auto simp: AdvanceSerialTodo_refused)
qed

text \<open>
  Progress. From an accepted two-level list with \<open>k\<close> of its \<open>n\<close> items done, signing off the current item
  \<open>n - k\<close> times completes every item: the list never loses its current item before the end.
\<close>

theorem signOffs_complete:
  assumes "ValidateSerialTodos ts = None" and "two_levels ts" and "map st (signoff ts) = progress k (length ts)"
    and "k \<le> length ts"
  shows "(\<forall>t \<in> set (signOffs (length ts - k) ts). st t = COMPLETED) \<and> same_items (signOffs (length ts - k) ts) ts"
proof -
  let ?r = "signOffs (length ts - k) ts"
  have "same_items ?r ts" "map st (signoff ?r) = progress (length ts) (length ts)"
    using signOffs_progress [OF assms(1-3), of "length ts - k"] assms(4) by auto
  moreover from this(2) have "st ` set ?r = set (progress (length ts) (length ts))"
    by (metis set_map set_signoff)
  ultimately show ?thesis by (auto simp: progress_def set_replicate_conv_if split: if_splits)
qed

text \<open>
  Repair. Whatever the statuses and levels of a stored list are, \<open>NormalizeSerialTodos\<close> returns the same
  items with the completed items that lead in the order of signing off kept, the next one current and the
  others pending. So the result is accepted unless it begins with a sub-step no phase owns, and an
  accepted list keeps its statuses.
\<close>

theorem NormalizeSerialTodos_repairs:
  "map st (signoff (NormalizeSerialTodos ts)) = progress (leading (map st (signoff ts))) (length ts) \<and>
   same_items (NormalizeSerialTodos ts) ts \<and>
   (ValidateSerialTodos (NormalizeSerialTodos ts) = None \<longleftrightarrow> ts = [] \<or> tLevel (hd ts) \<noteq> 1) \<and>
   (ValidateSerialTodos ts = None \<longrightarrow> map st (signoff (NormalizeSerialTodos ts)) = map st (signoff ts))"
proof (intro conjI)
  let ?n = "NormalizeSerialTodos ts"
  have f: "map st (signoff ?n) = repaired (map st (signoff ts))" by (rule NormalizeSerialTodos_signoff)
  then show "map st (signoff ?n) = progress (leading (map st (signoff ts))) (length ts)" by (simp add: repaired_progress)
  show s: "same_items ?n ts" by (rule NormalizeSerialTodos_items)
  have "?n = [] \<longleftrightarrow> ts = []" using same_items_length [OF s] by auto
  moreover have "?n \<noteq> [] \<Longrightarrow> tLevel (hd ?n) = tLevel (hd ts)" by (rule hd_level [OF same_items_levels [OF s]])
  ultimately show "ValidateSerialTodos ?n = None \<longleftrightarrow> ts = [] \<or> tLevel (hd ts) \<noteq> 1"
    unfolding ValidateSerialTodos_iff f by (auto simp: serial_repaired)
  show "ValidateSerialTodos ts = None \<longrightarrow> map st (signoff ?n) = map st (signoff ts)"
    by (simp add: f ValidateSerialTodos_iff repaired_serial)
qed

definition sample_todos :: "TodoItem list" where
  "sample_todos =
     [\<lparr>tContent = ''Parser'', tStatus = ''pending'', tActiveForm = [], tLevel = 0\<rparr>,
      \<lparr>tContent = ''Read'', tStatus = ''completed'', tActiveForm = [], tLevel = 1\<rparr>,
      \<lparr>tContent = ''Write'', tStatus = ''in_progress'', tActiveForm = [], tLevel = 1\<rparr>,
      \<lparr>tContent = ''Docs'', tStatus = '''', tActiveForm = [], tLevel = 0\<rparr>]"

lemma sample_todos_signoff: "map st (signoff sample_todos) = progress 1 (length sample_todos)"
  by code_simp

lemma sample_todos_valid: "ValidateSerialTodos sample_todos = None"
  unfolding valid_progress sample_todos_signoff by (auto simp: sample_todos_def)

lemma sample_todos_levels: "two_levels sample_todos"
  by (simp add: sample_todos_def two_levels_def)

theorem ValidateSerialTodos_exact_witness: "ValidateSerialTodos sample_todos = None"
  unfolding ValidateSerialTodos_exact using sample_todos_signoff by (auto simp: sample_todos_def intro!: exI [of _ 1])

theorem AdvanceSerialTodo_refines_witness:
  "case AdvanceSerialTodo sample_todos 2 of (done, ts') \<Rightarrow>
    (done \<longleftrightarrow> 0 \<le> (2 :: int) \<and> 2 < int (length sample_todos) \<and> st (sample_todos ! nat 2) = IN_PROGRESS) \<and>
    (if done then ValidateSerialTodos ts' = None \<and> same_items ts' sample_todos \<and>
       map st (signoff ts') = progress (1 + 1) (length sample_todos) else ts' = sample_todos)"
  by (rule AdvanceSerialTodo_refines [OF sample_todos_valid sample_todos_levels sample_todos_signoff])

theorem signOffs_complete_witness:
  "list_all (\<lambda>t. st t = COMPLETED) (signOffs (length sample_todos - 1) sample_todos) \<and>
   same_items (signOffs (length sample_todos - 1) sample_todos) sample_todos"
  unfolding list_all_iff
  by (rule signOffs_complete [OF sample_todos_valid sample_todos_levels sample_todos_signoff]) (simp add: sample_todos_def)

theorem NormalizeSerialTodos_repairs_witness:
  "ValidateSerialTodos (NormalizeSerialTodos sample_todos) = None"
  using NormalizeSerialTodos_repairs [of sample_todos] by (simp add: sample_todos_def)

end
