(* ===== verification/TodoMatch.thy ===== *)
theory TodoMatch
  imports TodoList
begin

text \<open>
  How a cited step finds its task (\<open>evidence.go\<close>, \<open>MatchStep\<close> and the helpers around it). A citation
  is a number, a title, or a title the model has reworded; titles are compared after folding
  fullwidth forms, dropping white space and lowering the case. Go decodes UTF-8 while it ranges over a
  string, so the decoder of \<open>utf8\<close> is part of this theory; the case table of \<open>unicode.ToLower\<close>
  for runes beyond ASCII is the parameter \<open>lr\<close>.
\<close>

section \<open>UTF-8\<close>

definition RuneError :: nat where "RuneError = 0xFFFD"

definition cont :: "char \<Rightarrow> bool" where "cont c \<longleftrightarrow> 0x80 \<le> byte c \<and> byte c \<le> 0xBF"

text \<open>The range of the second byte of a sequence of three or four bytes.\<close>

definition second_ok :: "nat \<Rightarrow> nat \<Rightarrow> bool" where
  "second_ok b0 b1 \<longleftrightarrow>
     (if b0 = 0xE0 then 0xA0 \<le> b1 \<and> b1 \<le> 0xBF
      else if b0 = 0xED then 0x80 \<le> b1 \<and> b1 \<le> 0x9F
      else if b0 = 0xF0 then 0x90 \<le> b1 \<and> b1 \<le> 0xBF
      else if b0 = 0xF4 then 0x80 \<le> b1 \<and> b1 \<le> 0x8F
      else 0x80 \<le> b1 \<and> b1 \<le> 0xBF)"

text \<open>\<open>utf8.DecodeRuneInString\<close>: the rune and its width, \<open>RuneError\<close> of width 1 for an invalid byte.\<close>

definition DecodeRune :: "char \<Rightarrow> bytes \<Rightarrow> nat \<times> nat" where
  "DecodeRune c s =
     (let b0 = byte c in
      if b0 < 0x80 then (b0, 1)
      else if 0xC2 \<le> b0 \<and> b0 \<le> 0xDF then
        (case s of c1 # _ \<Rightarrow> if cont c1 then ((b0 - 0xC0) * 0x40 + (byte c1 - 0x80), 2) else (RuneError, 1)
         | _ \<Rightarrow> (RuneError, 1))
      else if 0xE0 \<le> b0 \<and> b0 \<le> 0xEF then
        (case s of c1 # c2 # _ \<Rightarrow>
           if second_ok b0 (byte c1) \<and> cont c2
           then ((b0 - 0xE0) * 0x1000 + (byte c1 - 0x80) * 0x40 + (byte c2 - 0x80), 3) else (RuneError, 1)
         | _ \<Rightarrow> (RuneError, 1))
      else if 0xF0 \<le> b0 \<and> b0 \<le> 0xF4 then
        (case s of c1 # c2 # c3 # _ \<Rightarrow>
           if second_ok b0 (byte c1) \<and> cont c2 \<and> cont c3
           then ((b0 - 0xF0) * 0x40000 + (byte c1 - 0x80) * 0x1000 + (byte c2 - 0x80) * 0x40 + (byte c3 - 0x80), 4)
           else (RuneError, 1)
         | _ \<Rightarrow> (RuneError, 1))
      else (RuneError, 1))"

lemma DecodeRune_width: "0 < snd (DecodeRune c s)"
  by (auto simp: DecodeRune_def Let_def split: list.splits)

function Runes :: "bytes \<Rightarrow> nat list" where
  "Runes [] = []"
| "Runes (c # s) = fst (DecodeRune c s) # Runes (drop (snd (DecodeRune c s)) (c # s))"
  by pat_completeness auto
termination
  by (relation "measure length") (use DecodeRune_width in \<open>auto simp: not_less_eq_eq Suc_le_eq\<close>)

definition RuneCount :: "bytes \<Rightarrow> nat" where "RuneCount s = length (Runes s)"

text \<open>\<open>strings.Builder.WriteRune\<close>.\<close>

definition EncodeRune :: "nat \<Rightarrow> bytes" where
  "EncodeRune r =
     (if r < 0x80 then [char_of r]
      else if r < 0x800 then [char_of (0xC0 + r div 0x40), char_of (0x80 + r mod 0x40)]
      else if r < 0x10000 \<and> \<not> (0xD800 \<le> r \<and> r \<le> 0xDFFF) then
        [char_of (0xE0 + r div 0x1000), char_of (0x80 + r div 0x40 mod 0x40), char_of (0x80 + r mod 0x40)]
      else if r < 0x110000 \<and> 0x10000 \<le> r then
        [char_of (0xF0 + r div 0x40000), char_of (0x80 + r div 0x1000 mod 0x40),
         char_of (0x80 + r div 0x40 mod 0x40), char_of (0x80 + r mod 0x40)]
      else [char_of (0xEF :: nat), char_of (0xBF :: nat), char_of (0xBD :: nat)])"

text \<open>\<open>strings.ToLower\<close>: byte by byte on ASCII strings, rune by rune on others.\<close>

definition ToLowerRunes :: "(nat \<Rightarrow> nat) \<Rightarrow> bytes \<Rightarrow> bytes" where
  "ToLowerRunes lr s =
     (if list_all (\<lambda>c. byte c < 0x80) s then ToLower s else concat (map (EncodeRune \<circ> lr) (Runes s)))"

text \<open>\<open>strconv.Atoi\<close> on a 64-bit machine.\<close>

definition isDigit :: "char \<Rightarrow> bool" where "isDigit c \<longleftrightarrow> 48 \<le> byte c \<and> byte c \<le> 57"

definition Atoi :: "bytes \<Rightarrow> int option" where
  "Atoi s =
     (let neg = (case s of c # _ \<Rightarrow> c = CHR ''-'' | [] \<Rightarrow> False);
          ds = (case s of c # r \<Rightarrow> if c = CHR ''-'' \<or> c = CHR ''+'' then r else s | [] \<Rightarrow> s);
          n = foldl (\<lambda>a c. 10 * a + int (byte c - 48)) 0 ds;
          v = (if neg then - n else n)
      in if ds = [] \<or> \<not> list_all isDigit ds \<or> v < - (2 ^ 63) \<or> v \<ge> 2 ^ 63 then None else Some v)"

section \<open>Comparing step texts\<close>

definition foldRune :: "nat \<Rightarrow> nat" where
  "foldRune r = (if 0xFF01 \<le> r \<and> r \<le> 0xFF5E then r - 0xFEE0 else r)"

definition normalizeStepText :: "(nat \<Rightarrow> nat) \<Rightarrow> bytes \<Rightarrow> bytes" where
  "normalizeStepText lr s = ToLowerRunes lr (Join (Fields (concat (map (EncodeRune \<circ> foldRune) (Runes s)))) [])"

text \<open>On ASCII text only white space and case are folded.\<close>

definition ascii :: "bytes \<Rightarrow> bool" where "ascii s \<longleftrightarrow> list_all (\<lambda>c. byte c < 128) s"

lemma Runes_ascii: "ascii s \<Longrightarrow> Runes s = map byte s"
  by (induction s) (auto simp: ascii_def DecodeRune_def)

lemma EncodeRune_ascii: "byte c < 128 \<Longrightarrow> EncodeRune (foldRune (byte c)) = [c]"
  by (simp add: EncodeRune_def foldRune_def byte_def)

lemma normalizeStepText_ascii:
  assumes "ascii s" and "ascii (Join (Fields s) [])"
  shows "normalizeStepText lr s = ToLower (Join (Fields s) [])"
proof -
  have "concat (map (EncodeRune \<circ> foldRune) (map byte s)) = s"
    using assms(1) by (induction s) (auto simp: ascii_def EncodeRune_ascii)
  then show ?thesis
    using assms by (simp add: normalizeStepText_def Runes_ascii ToLowerRunes_def ascii_def)
qed

definition sameStepText :: "(nat \<Rightarrow> nat) \<Rightarrow> bytes \<Rightarrow> bytes \<Rightarrow> bool" where
  "sameStepText lr a b \<longleftrightarrow> normalizeStepText lr a \<noteq> [] \<and> normalizeStepText lr a = normalizeStepText lr b"

definition stepTextContains :: "bytes \<Rightarrow> bytes \<Rightarrow> bool" where
  "stepTextContains a b \<longleftrightarrow>
     (if a = [] \<or> b = [] then False
      else let short = (if RuneCount b < RuneCount a then b else a)
           in if RuneCount short < 6 then False else Contains a b \<or> Contains b a)"

definition textOverlaps :: "(nat \<Rightarrow> nat) \<Rightarrow> bytes \<Rightarrow> bytes \<Rightarrow> bool" where
  "textOverlaps lr a b \<longleftrightarrow> stepTextContains (normalizeStepText lr a) (normalizeStepText lr b)"

definition parseStepIndex :: "bytes \<Rightarrow> int option" where
  "parseStepIndex step = Atoi (TrimSpace (TrimSuffix (TrimSpace step) ''.''))"

section \<open>Matching\<close>

record TodoStepMatch =
  mFound :: bool
  mIndex :: int
  mContent :: bytes
  mStatus :: bytes
  mActiveForm :: bytes

definition no_match :: TodoStepMatch where
  "no_match = \<lparr>mFound = False, mIndex = 0, mContent = [], mStatus = [], mActiveForm = []\<rparr>"

definition match_at :: "TodoItem list \<Rightarrow> nat \<Rightarrow> TodoStepMatch" where
  "match_at todos i = (let t = todos ! i in
     \<lparr>mFound = True, mIndex = int i + 1, mContent = tContent t, mStatus = tStatus t, mActiveForm = tActiveForm t\<rparr>)"

text \<open>The last loop of \<open>matchTodoStep\<close> and of \<open>MatchTodoIdentity\<close>: the position of the only related
  item; \<open>Inl\<close> when a second one ends the search, \<open>-1\<close> as \<^const>\<open>None\<close>.\<close>

fun uniqueRelated :: "(TodoItem \<Rightarrow> bool) \<Rightarrow> TodoItem list \<Rightarrow> nat \<Rightarrow> nat option \<Rightarrow> unit + nat option" where
  "uniqueRelated P [] i found = Inr found"
| "uniqueRelated P (t # ts) i found =
     (if P t then (if found \<noteq> None \<and> found \<noteq> Some i then Inl () else uniqueRelated P ts (i + 1) (Some i))
      else uniqueRelated P ts (i + 1) found)"

text \<open>\<open>matchTodoStep\<close> without the numeric form: an equal title, then a related one.\<close>

definition matchStepText :: "(nat \<Rightarrow> nat) \<Rightarrow> bytes \<Rightarrow> TodoItem list \<Rightarrow> TodoStepMatch" where
  "matchStepText lr step todos =
     (case firstAt (\<lambda>t. sameStepText lr step (tContent t) \<or> sameStepText lr step (tActiveForm t)) todos [0 ..< length todos] of
        Some i \<Rightarrow> match_at todos i
      | None \<Rightarrow>
          let norm = normalizeStepText lr step in
          (case uniqueRelated (\<lambda>t. stepTextContains norm (normalizeStepText lr (tContent t)) \<or>
                  stepTextContains norm (normalizeStepText lr (tActiveForm t))) todos 0 None of
             Inr (Some i) \<Rightarrow> match_at todos i
           | _ \<Rightarrow> no_match))"

definition matchTodoStep :: "(nat \<Rightarrow> nat) \<Rightarrow> bytes \<Rightarrow> TodoItem list \<Rightarrow> TodoStepMatch" where
  "matchTodoStep lr step todos =
     (case parseStepIndex (normalizeStepText lr step) of
        Some n \<Rightarrow> if 1 \<le> n \<and> n \<le> int (length todos) then match_at todos (nat n - 1) else matchStepText lr step todos
      | None \<Rightarrow> matchStepText lr step todos)"

definition MatchStep :: "(nat \<Rightarrow> nat) \<Rightarrow> bytes \<Rightarrow> TodoItem list \<Rightarrow> TodoStepMatch \<times> bool" where
  "MatchStep lr step todos = (let m = matchTodoStep lr step todos in (m, mFound m))"

definition sameTodoIdentity :: "(nat \<Rightarrow> nat) \<Rightarrow> TodoItem \<Rightarrow> TodoItem \<Rightarrow> bool" where
  "sameTodoIdentity lr a b \<longleftrightarrow>
     sameStepText lr (tContent a) (tContent b) \<or> sameStepText lr (tActiveForm a) (tActiveForm b)"

definition sameTodoMatch :: "(nat \<Rightarrow> nat) \<Rightarrow> TodoItem \<Rightarrow> TodoStepMatch \<Rightarrow> bool" where
  "sameTodoMatch lr todo m \<longleftrightarrow>
     sameStepText lr (tContent todo) (mContent m) \<or> sameStepText lr (tActiveForm todo) (mActiveForm m)"

definition todoContentRelates :: "(nat \<Rightarrow> nat) \<Rightarrow> TodoItem \<Rightarrow> TodoStepMatch \<Rightarrow> bool" where
  "todoContentRelates lr todo m \<longleftrightarrow>
     textOverlaps lr (tContent todo) (mContent m) \<or> textOverlaps lr (tActiveForm todo) (mActiveForm m)"

definition MatchTodoIdentity :: "(nat \<Rightarrow> nat) \<Rightarrow> TodoItem \<Rightarrow> TodoItem list \<Rightarrow> TodoStepMatch \<times> bool" where
  "MatchTodoIdentity lr todo todos =
     (case firstAt (sameTodoIdentity lr todo) todos [0 ..< length todos] of
        Some i \<Rightarrow> (match_at todos i, True)
      | None \<Rightarrow>
          (case uniqueRelated (\<lambda>c. todoContentRelates lr todo (no_match\<lparr>mContent := tContent c, mActiveForm := tActiveForm c\<rparr>))
              todos 0 None of
             Inr (Some i) \<Rightarrow> (match_at todos i, True)
           | _ \<Rightarrow> (no_match, False)))"

definition PreservesCompletedTodoPositions :: "(nat \<Rightarrow> nat) \<Rightarrow> TodoItem list \<Rightarrow> TodoItem list \<Rightarrow> bool" where
  "PreservesCompletedTodoPositions lr previous next \<longleftrightarrow>
     (\<forall>i \<in> set [0 ..< length previous].
        st (previous ! i) \<noteq> COMPLETED \<or>
        (i < length next \<and> st (next ! i) = COMPLETED \<and>
         (case MatchTodoIdentity lr (previous ! i) next of (m, found) \<Rightarrow> found \<and> mIndex m = int i + 1)))"

text \<open>The items that are not completed, with their trimmed statuses.\<close>

definition IncompleteTodos :: "TodoItem list \<Rightarrow> TodoStepMatch list" where
  "IncompleteTodos todos =
     map (\<lambda>j. (match_at todos j)\<lparr>mStatus := st (todos ! j)\<rparr>) (filter (\<lambda>j. st (todos ! j) \<noteq> COMPLETED) [0 ..< length todos])"

definition normalizeTodos :: "TodoItem list \<Rightarrow> TodoItem list" where
  "normalizeTodos todos =
     map (\<lambda>t. t\<lparr>tContent := TrimSpace (tContent t), tStatus := TrimSpace (tStatus t), tActiveForm := TrimSpace (tActiveForm t)\<rparr>)
       todos"

section \<open>What a match means\<close>

lemma firstAt_Some:
  "firstAt P ts [0 ..< length ts] = Some i \<longleftrightarrow> i < length ts \<and> P (ts ! i) \<and> (\<forall>j < i. \<not> P (ts ! j))"
proof -
  have "find Q [0 ..< n] = Some i \<longleftrightarrow> i < n \<and> Q i \<and> (\<forall>j < i. \<not> Q j)" for Q :: "nat \<Rightarrow> bool" and n
    by (auto simp: find_Some_iff)
  then show ?thesis by (simp add: firstAt_def)
qed

lemma firstAt_None: "firstAt P ts [0 ..< length ts] = None \<longleftrightarrow> (\<forall>t \<in> set ts. \<not> P t)"
  by (auto simp: firstAt_def find_None_iff all_set_conv_all_nth)

lemma uniqueRelated_Some:
  "uniqueRelated P ts i (Some f) = Inr r \<Longrightarrow> f < i \<Longrightarrow> r = Some f \<and> (\<forall>t \<in> set ts. \<not> P t)"
  by (induction ts arbitrary: i) (auto split: if_splits)

lemma uniqueRelated_None:
  "uniqueRelated P ts i None = Inr (Some f) \<longleftrightarrow>
     i \<le> f \<and> f < i + length ts \<and> P (ts ! (f - i)) \<and> (\<forall>j < length ts. P (ts ! j) \<longrightarrow> j = f - i)"
proof (induction ts arbitrary: i)
  case (Cons t ts)
  show ?case
  proof (cases "P t")
    case True
    have "uniqueRelated P ts (Suc i) (Some i) = Inr (Some f) \<longleftrightarrow> f = i \<and> (\<forall>t \<in> set ts. \<not> P t)"
    proof
      assume "uniqueRelated P ts (Suc i) (Some i) = Inr (Some f)"
      from uniqueRelated_Some [OF this] show "f = i \<and> (\<forall>t \<in> set ts. \<not> P t)" by simp
    next
      assume a: "f = i \<and> (\<forall>t \<in> set ts. \<not> P t)"
      have "\<forall>t \<in> set us. \<not> P t \<Longrightarrow> uniqueRelated P us k r = Inr r" for us k r
        by (induction us arbitrary: k) auto
      with a show "uniqueRelated P ts (Suc i) (Some i) = Inr (Some f)" by simp
    qed
    moreover have "(\<forall>j < length (t # ts). P ((t # ts) ! j) \<longrightarrow> j = f - i) \<longleftrightarrow> f - i = 0 \<and> (\<forall>t \<in> set ts. \<not> P t)"
      using True by (auto simp: all_set_conv_all_nth All_less_Suc2)
    ultimately show ?thesis using True by auto
  next
    case False
    then have u: "uniqueRelated P (t # ts) i None = Inr (Some f) \<longleftrightarrow>
        Suc i \<le> f \<and> f < Suc i + length ts \<and> P (ts ! (f - Suc i)) \<and> (\<forall>j < length ts. P (ts ! j) \<longrightarrow> j = f - Suc i)"
      using Cons.IH [of "Suc i"] by simp
    show ?thesis
    proof (cases "Suc i \<le> f")
      case True
      then obtain d where d: "f = Suc i + d" using le_Suc_ex by blast
      have e: "f - i = Suc d" "f - Suc i = d" by (simp_all add: d)
      show ?thesis using False unfolding u e length_Cons All_less_Suc2 by (simp add: d)
    next
      case f: False
      have "\<not> (i \<le> f \<and> P ((t # ts) ! (f - i)))" using f False by (cases "f = i") auto
      with f show ?thesis unfolding u by blast
    qed
  qed
qed simp

lemma firstAt_cong:
  "(\<And>t. t \<in> set ts \<Longrightarrow> P t = Q t) \<Longrightarrow> firstAt P ts [0 ..< length ts] = firstAt Q ts [0 ..< length ts]"
  unfolding firstAt_def by (rule find_cong) auto

lemma matchStepText_sound:
  assumes "mFound (matchStepText lr step todos)"
  shows "\<exists>i < length todos. matchStepText lr step todos = match_at todos i \<and>
    (sameStepText lr step (tContent (todos ! i)) \<or> sameStepText lr step (tActiveForm (todos ! i)) \<or>
     textOverlaps lr step (tContent (todos ! i)) \<or> textOverlaps lr step (tActiveForm (todos ! i)))"
proof (cases "firstAt (\<lambda>t. sameStepText lr step (tContent t) \<or> sameStepText lr step (tActiveForm t)) todos [0 ..< length todos]")
  case (Some i)
  then have "matchStepText lr step todos = match_at todos i" by (simp add: matchStepText_def)
  moreover from Some have "i < length todos"
    "sameStepText lr step (tContent (todos ! i)) \<or> sameStepText lr step (tActiveForm (todos ! i))"
    by (simp_all add: firstAt_Some)
  ultimately show ?thesis by blast
next
  case None
  let ?P = "\<lambda>t. stepTextContains (normalizeStepText lr step) (normalizeStepText lr (tContent t)) \<or>
                  stepTextContains (normalizeStepText lr step) (normalizeStepText lr (tActiveForm t))"
  from assms None obtain i where i: "uniqueRelated ?P todos 0 None = Inr (Some i)"
    by (auto simp: matchStepText_def no_match_def Let_def split: sum.splits option.splits)
  then have "i < length todos" "?P (todos ! i)" by (simp_all add: uniqueRelated_None)
  moreover have "matchStepText lr step todos = match_at todos i" using None i by (simp add: matchStepText_def Let_def)
  ultimately show ?thesis by (auto simp: textOverlaps_def)
qed

lemma matchTodoStep_sound:
  assumes "mFound (matchTodoStep lr step todos)"
  shows "\<exists>i < length todos. matchTodoStep lr step todos = match_at todos i \<and>
    (parseStepIndex (normalizeStepText lr step) = Some (int i + 1) \<or>
     sameStepText lr step (tContent (todos ! i)) \<or> sameStepText lr step (tActiveForm (todos ! i)) \<or>
     textOverlaps lr step (tContent (todos ! i)) \<or> textOverlaps lr step (tActiveForm (todos ! i)))"
proof (cases "\<exists>n. parseStepIndex (normalizeStepText lr step) = Some n \<and> 1 \<le> n \<and> n \<le> int (length todos)")
  case True
  then obtain n where n: "parseStepIndex (normalizeStepText lr step) = Some n" "1 \<le> n" "n \<le> int (length todos)" by auto
  then show ?thesis by (intro exI [of _ "nat n - 1"]) (auto simp: matchTodoStep_def)
next
  case False
  then have "matchTodoStep lr step todos = matchStepText lr step todos"
    by (auto simp: matchTodoStep_def split: option.splits)
  with matchStepText_sound [of lr step todos] assms show ?thesis by auto
qed

lemma matchTodoStep_title:
  assumes "i < length todos" and "normalizeStepText lr (tContent (todos ! i)) \<noteq> []"
    and "parseStepIndex (normalizeStepText lr (tContent (todos ! i))) = None"
    and "\<forall>j < i. \<not> sameStepText lr (tContent (todos ! i)) (tContent (todos ! j)) \<and>
           \<not> sameStepText lr (tContent (todos ! i)) (tActiveForm (todos ! j))"
  shows "matchTodoStep lr (tContent (todos ! i)) todos = match_at todos i"
proof -
  let ?c = "tContent (todos ! i)"
  have "firstAt (\<lambda>t. sameStepText lr ?c (tContent t) \<or> sameStepText lr ?c (tActiveForm t)) todos [0 ..< length todos] = Some i"
    using assms by (auto simp: firstAt_Some sameStepText_def)
  then show ?thesis using assms(3) by (simp add: matchTodoStep_def matchStepText_def)
qed

section \<open>Properties\<close>

text \<open>
  A citation never points outside the list or at an unrelated task: when \<open>MatchStep\<close> finds something,
  it is an item of the list with its own content and status, reached by its number, by an equal title or
  active form, or by a title that contains the cited text or is contained in it.
\<close>

theorem MatchStep_sound:
  assumes "MatchStep lr step todos = (m, True)"
  shows "\<exists>i < length todos. m = match_at todos i \<and>
    (parseStepIndex (normalizeStepText lr step) = Some (int i + 1) \<or>
     sameStepText lr step (tContent (todos ! i)) \<or> sameStepText lr step (tActiveForm (todos ! i)) \<or>
     textOverlaps lr step (tContent (todos ! i)) \<or> textOverlaps lr step (tActiveForm (todos ! i)))"
  using matchTodoStep_sound [of lr step todos] assms by (auto simp: MatchStep_def Let_def)

text \<open>
  Two tasks with one title. After both are completed, a list that repeats them exactly as they are does
  not count as preserving them, because identity is looked up by title and finds the first one. So the
  host refuses every later list of that plan, the unchanged one included, although the validator
  accepts such lists.
\<close>

theorem duplicate_titles_not_preserved:
  assumes "i < j" and "j < length ts" and "st (ts ! j) = COMPLETED"
    and "sameStepText lr (tContent (ts ! j)) (tContent (ts ! i))"
  shows "\<not> PreservesCompletedTodoPositions lr ts ts"
proof
  assume p: "PreservesCompletedTodoPositions lr ts ts"
  have j: "j \<in> set [0 ..< length ts]" using assms by simp
  have same: "sameTodoIdentity lr (ts ! j) (ts ! i)" using assms(4) by (simp add: sameTodoIdentity_def)
  have "firstAt (sameTodoIdentity lr (ts ! j)) ts [0 ..< length ts] \<noteq> None"
    using same assms by (auto simp: firstAt_None)
  then obtain k where k: "firstAt (sameTodoIdentity lr (ts ! j)) ts [0 ..< length ts] = Some k" by auto
  then have "k \<le> i" using same by (auto simp: firstAt_Some intro: leI)
  moreover have "mIndex (match_at ts k) = int j + 1"
    using p j assms(3) k unfolding PreservesCompletedTodoPositions_def MatchTodoIdentity_def by auto
  ultimately show False using assms(1) by (simp add: match_at_def Let_def)
qed

definition twin_todos :: "TodoItem list" where
  "twin_todos =
     [\<lparr>tContent = ''Run the tests'', tStatus = ''completed'', tActiveForm = [], tLevel = 0\<rparr>,
      \<lparr>tContent = ''Fix the bug'', tStatus = ''completed'', tActiveForm = [], tLevel = 0\<rparr>,
      \<lparr>tContent = ''Run the tests'', tStatus = ''completed'', tActiveForm = [], tLevel = 0\<rparr>,
      \<lparr>tContent = ''Docs'', tStatus = ''in_progress'', tActiveForm = [], tLevel = 0\<rparr>]"

theorem MatchStep_sound_witness:
  "\<exists>m. MatchStep id ''2.'' twin_todos = (m, True) \<and> (\<exists>i < length twin_todos. m = match_at twin_todos i)"
proof -
  have n: "normalizeStepText id ''2.'' = ''2.''"
    by (subst normalizeStepText_ascii) code_simp+
  have "parseStepIndex ''2.'' = Some 2" by code_simp
  then have "MatchStep id ''2.'' twin_todos = (match_at twin_todos 1, True)"
    by (simp add: MatchStep_def matchTodoStep_def n twin_todos_def match_at_def)
  from this MatchStep_sound [OF this] show ?thesis by blast
qed

theorem duplicate_titles_not_preserved_witness:
  "ValidateSerialTodos twin_todos = None \<and> \<not> PreservesCompletedTodoPositions id twin_todos twin_todos"
proof
  have "map st (signoff twin_todos) = progress 3 (length twin_todos)" by code_simp
  moreover have "twin_todos \<noteq> []" "tLevel (hd twin_todos) \<noteq> 1" "3 \<le> length twin_todos" by (simp_all add: twin_todos_def)
  ultimately show "ValidateSerialTodos twin_todos = None" unfolding valid_progress by blast
  have n: "normalizeStepText id ''Run the tests'' = ''runthetests''"
    by (subst normalizeStepText_ascii) code_simp+
  have "st (twin_todos ! 2) = COMPLETED" by code_simp
  with n show "\<not> PreservesCompletedTodoPositions id twin_todos twin_todos"
    by (intro duplicate_titles_not_preserved [of 0 2]) (simp_all add: twin_todos_def sameStepText_def)
qed

end
