(* ===== verification/EvLedger.thy ===== *)
theory EvLedger
  imports EvCommand TodoMatch "HOL-Library.List_Lexorder" "HOL-Library.Char_ord"
begin

text \<open>
  The evidence ledger of a turn (\<open>internal/evidence/evidence.go\<close>, \<open>child.go\<close>, \<open>review_report.go\<close>): one
  receipt per tool call, and the questions the delivery gates ask about them. A method of \<open>Ledger\<close>
  holds its mutex for the whole body, so each is one function of the ledger; a nil ledger is not
  modelled. The receipts of a turn are a list in order of recording, the index of a receipt its position.
\<close>

section \<open>Receipts\<close>

text \<open>Code outside the package: the JSON reader and writer, the shell parser, \<open>unicode.ToLower\<close>, SHA-256.\<close>

record evlib =
  eParse :: "bytes \<Rightarrow> json option"
  eMarshal :: "json \<Rightarrow> bytes"
  eShell :: shell
  eLower :: "nat \<Rightarrow> nat"
  eSha :: "bytes \<Rightarrow> bytes"

record Receipt =
  rcTool :: bytes
  rcArgs :: bytes
  rcProfile :: bytes
  rcSuccess :: bool
  rcCommand :: bytes
  rcStep :: bytes
  rcStepProof :: bool
  rcTodoStep :: "TodoStepMatch option"
  rcPaths :: "bytes list"
  rcRead :: bool
  rcWrite :: bool
  rcMutation :: bool
  rcTodos :: "TodoItem list"
  rcOutput :: int

record BackgroundLease =
  blSession :: bytes
  blJob :: bytes

record Ledger =
  receipts :: "Receipt list"
  leases :: "BackgroundLease list"

definition NewLedger :: Ledger where
  "NewLedger = \<lparr>receipts = [], leases = []\<rparr>"

definition Reset :: "Ledger \<Rightarrow> Ledger" where
  "Reset l = l\<lparr>receipts := [], leases := []\<rparr>"

definition ResetBackgroundLeases :: "Ledger \<Rightarrow> Ledger" where
  "ResetBackgroundLeases l = l\<lparr>leases := []\<rparr>"

definition NoteBackgroundLease :: "bytes \<Rightarrow> bytes \<Rightarrow> Ledger \<Rightarrow> bool \<times> Ledger" where
  "NoteBackgroundLease session jobID l =
     (if list_ex (\<lambda>x. blSession x = session \<and> blJob x = jobID) (leases l) then (False, l)
      else (True, l\<lparr>leases := leases l @ [\<lparr>blSession = session, blJob = jobID\<rparr>]\<rparr>))"

definition BackgroundLeases :: "Ledger \<Rightarrow> BackgroundLease list" where
  "BackgroundLeases l = leases l"

definition latestTodoStep :: "evlib \<Rightarrow> bytes \<Rightarrow> Receipt list \<Rightarrow> TodoStepMatch" where
  "latestTodoStep ev step rs =
     (case find (\<lambda>r. rcSuccess r \<and> rcTool r = ''todo_write'') (rev rs) of
        Some r \<Rightarrow> matchTodoStep (eLower ev) step (rcTodos r)
      | None \<Rightarrow> no_match)"

definition Record :: "evlib \<Rightarrow> Receipt \<Rightarrow> Ledger \<Rightarrow> Ledger" where
  "Record ev r0 l =
     (let r1 = r0\<lparr>rcCommand := TrimSpace (rcCommand r0), rcStep := TrimSpace (rcStep r0),
                   rcPaths := normalizePaths (rcPaths r0), rcTodos := normalizeTodos (rcTodos r0)\<rparr>;
          r2 = (if rcTool r1 = ''complete_step'' \<and> rcStep r1 \<noteq> [] \<and> rcTodoStep r1 = None
                then let m = latestTodoStep ev (rcStep r1) (receipts l) in if mFound m then r1\<lparr>rcTodoStep := Some m\<rparr> else r1
                else r1)
      in l\<lparr>receipts := receipts l @ [r2]\<rparr>)"

definition LedgerLen :: "Ledger \<Rightarrow> nat" where
  "LedgerLen l = length (receipts l)"

section \<open>From a tool call to a receipt\<close>

definition isWriterTool :: "bytes \<Rightarrow> bool" where
  "isWriterTool name \<longleftrightarrow>
     name \<in> {''write_file'', ''edit_file'', ''multi_edit'', ''move_file'', ''notebook_edit'', ''delete_range'', ''delete_symbol''}"

definition isReaderTool :: "bytes \<Rightarrow> bool" where
  "isReaderTool name \<longleftrightarrow> name \<in> {''read_file'', ''ls'', ''grep''}"

definition isReadReceipt :: "bytes \<Rightarrow> bool \<Rightarrow> bool" where
  "isReadReceipt name readOnly \<longleftrightarrow>
     (if name \<in> {''todo_write'', ''complete_step''} then False else isReaderTool name \<or> readOnly)"

definition extractPaths :: "fields \<Rightarrow> bytes list" where
  "extractPaths fs =
     filter (\<lambda>s. s \<noteq> []) (map (stringField fs) [''path'', ''file_path'', ''notebook_path'', ''source_path'', ''destination_path'']) @
     concat (map (stringSliceField fs) [''paths'', ''file_paths''])"

definition decodeTodoItem :: "fields \<Rightarrow> TodoItem option" where
  "decodeTodoItem fs =
     (case (structField intoString ''content'' fs [], structField intoString ''status'' fs [],
            structField intoString ''activeForm'' fs [], structField intoInt ''level'' fs 0) of
        (Some c, Some s, Some a, Some n) \<Rightarrow> Some \<lparr>tContent = c, tStatus = s, tActiveForm = a, tLevel = n\<rparr>
      | _ \<Rightarrow> None)"

definition todoItemsField :: "fields \<Rightarrow> bytes \<Rightarrow> TodoItem list" where
  "todoItemsField fs key =
     (case rawField fs key of
        None \<Rightarrow> []
      | Some j \<Rightarrow> (case decodeSlice (decodeStruct decodeTodoItem) j of None \<Rightarrow> [] | Some ts \<Rightarrow> normalizeTodos ts))"

definition completeStepIdentity :: "fields \<Rightarrow> bytes" where
  "completeStepIdentity fs =
     (case intField fs ''step_index'' of
        Some n \<Rightarrow> if n > 0 then show_int n else stringField fs ''step''
      | None \<Rightarrow> stringField fs ''step'')"

record proofItem =
  piKind :: bytes
  piSummary :: bytes
  piCommand :: bytes
  piPaths :: "bytes list"

definition decodeProofItem :: "fields \<Rightarrow> proofItem option" where
  "decodeProofItem fs =
     (case (structField intoString ''kind'' fs [], structField intoString ''summary'' fs [],
            structField intoString ''command'' fs [], structField (\<lambda>_ j. decodeSlice (intoString []) j) ''paths'' fs []) of
        (Some k, Some s, Some c, Some ps) \<Rightarrow> Some \<lparr>piKind = k, piSummary = s, piCommand = c, piPaths = ps\<rparr>
      | _ \<Rightarrow> None)"

definition proofItemComplete :: "proofItem \<Rightarrow> bool" where
  "proofItemComplete item =
     (let kind = TrimSpace (piKind item) in
      if kind = [] \<or> TrimSpace (piSummary item) = [] then False
      else if kind = ''verification'' then TrimSpace (piCommand item) \<noteq> []
      else if kind = ''diff'' \<or> kind = ''files'' then normalizePaths (piPaths item) \<noteq> []
      else kind = ''manual'')"

definition completeStepHasProof :: "fields \<Rightarrow> bool" where
  "completeStepHasProof fs =
     (if TrimSpace (stringField fs ''result'') = [] then False
      else (case rawField fs ''evidence'' of
              None \<Rightarrow> False
            | Some j \<Rightarrow>
                (case decodeSlice (decodeStruct decodeProofItem) j of
                   None \<Rightarrow> False
                 | Some items \<Rightarrow> items \<noteq> [] \<and> list_all proofItemComplete items)))"

definition ReceiptFromToolCall :: "evlib \<Rightarrow> bytes \<Rightarrow> bytes \<Rightarrow> bool \<Rightarrow> bool \<Rightarrow> Receipt" where
  "ReceiptFromToolCall ev toolName args success readOnly =
     (let r0 = \<lparr>rcTool = toolName, rcArgs = args, rcProfile = [], rcSuccess = success, rcCommand = [], rcStep = [],
                 rcStepProof = False, rcTodoStep = None, rcPaths = [], rcRead = False, rcWrite = False,
                 rcMutation = ToolCallMutates (eParse ev) (eShell ev) toolName args readOnly, rcTodos = [], rcOutput = 0\<rparr>;
          r1 = (case decodeFields (eParse ev args) of
                  None \<Rightarrow> r0
                | Some fs \<Rightarrow>
                    r0\<lparr>rcCommand := (if toolName = ''bash'' then stringField fs ''command'' else []),
                       rcProfile := (if toolName = ''task'' then stringField fs ''profile'' else []),
                       rcStep := (if toolName = ''complete_step'' then completeStepIdentity fs else []),
                       rcStepProof := (toolName = ''complete_step'' \<and> completeStepHasProof fs),
                       rcTodos := (if toolName = ''todo_write'' then todoItemsField fs ''todos'' else []),
                       rcPaths := extractPaths fs\<rparr>)
      in if isWriterTool toolName then r1\<lparr>rcWrite := True\<rparr>
         else if isReadReceipt toolName readOnly then r1\<lparr>rcRead := True\<rparr> else r1)"

section \<open>Questions about single receipts\<close>

definition anyReceipt :: "(Receipt \<Rightarrow> bool) \<Rightarrow> Ledger \<Rightarrow> bool" where
  "anyReceipt P l = list_ex P (receipts l)"

text \<open>The receipts from an index on; a negative index counts as 0.\<close>

definition anySince :: "(Receipt \<Rightarrow> bool) \<Rightarrow> int \<Rightarrow> Ledger \<Rightarrow> bool" where
  "anySince P start l = list_ex P (drop (nat start) (receipts l))"

text \<open>The last position with a property: \<open>(latest, latest >= 0)\<close>, \<open>None\<close> for \<open>ok = false\<close>.\<close>

definition latestIndex :: "(Receipt \<Rightarrow> bool) \<Rightarrow> Ledger \<Rightarrow> nat option" where
  "latestIndex P l = find (\<lambda>i. P (receipts l ! i)) (rev [0 ..< length (receipts l)])"

definition HasWriteOrCommandSince :: "int \<Rightarrow> Ledger \<Rightarrow> bool" where
  "HasWriteOrCommandSince index l =
     anySince (\<lambda>r. rcSuccess r \<and> (rcMutation r \<or> rcWrite r \<or> rcCommand r \<noteq> [])) index l"

definition progressReceiptSignature :: "evlib \<Rightarrow> Receipt \<Rightarrow> bytes option" where
  "progressReceiptSignature ev r =
     (if \<not> rcSuccess r then None
      else let kind = (if rcMutation r \<or> rcWrite r then ''mutation''
                       else if rcCommand r \<noteq> [] then ''command''
                       else if rcRead r \<and> rcOutput r > 0 then ''read'' else [])
      in if kind = [] then None
         else let payload = (case eParse ev (rcArgs r) of Some j \<Rightarrow> eMarshal ev j | None \<Rightarrow> TrimSpace (rcArgs r))
              in Some (eSha ev (kind @ [CHR 0x00] @ rcTool r @ [CHR 0x00] @ payload)))"

definition SuccessfulProgressSignaturesSince :: "evlib \<Rightarrow> int \<Rightarrow> Ledger \<Rightarrow> bytes list" where
  "SuccessfulProgressSignaturesSince ev index l =
     concat (map (\<lambda>r. case progressReceiptSignature ev r of Some s \<Rightarrow> [s] | None \<Rightarrow> []) (drop (nat index) (receipts l)))"

definition provesCommand :: "evlib \<Rightarrow> bytes \<Rightarrow> Receipt \<Rightarrow> bool" where
  "provesCommand ev command r \<longleftrightarrow>
     rcSuccess r \<and> rcTool r = ''bash'' \<and> CommandMatches (eShell ev) command (rcCommand r)"

definition HasSuccessfulCommand :: "evlib \<Rightarrow> bytes \<Rightarrow> Ledger \<Rightarrow> bool" where
  "HasSuccessfulCommand ev command0 l =
     (let command = TrimSpace command0 in if command = [] then False else anyReceipt (provesCommand ev command) l)"

definition HasFailedCommand :: "evlib \<Rightarrow> bytes \<Rightarrow> Ledger \<Rightarrow> bool" where
  "HasFailedCommand ev command0 l =
     (let command = TrimSpace command0 in
      if command = [] then False
      else anyReceipt (\<lambda>r. \<not> rcSuccess r \<and> rcTool r = ''bash'' \<and> CommandMatches (eShell ev) command (rcCommand r)) l)"

definition HasSuccessfulCommandAfter :: "evlib \<Rightarrow> bytes \<Rightarrow> int \<Rightarrow> Ledger \<Rightarrow> bool" where
  "HasSuccessfulCommandAfter ev command0 after l =
     (let command = TrimSpace command0 in if command = [] then False else anySince (provesCommand ev command) (after + 1) l)"

definition HasSuccessfulCompleteStepAfter :: "int \<Rightarrow> Ledger \<Rightarrow> bool" where
  "HasSuccessfulCompleteStepAfter after l = anySince (\<lambda>r. rcSuccess r \<and> rcTool r = ''complete_step'') (after + 1) l"

definition HasSuccessfulTodoWrite :: "Ledger \<Rightarrow> bool" where
  "HasSuccessfulTodoWrite l = anyReceipt (\<lambda>r. rcSuccess r \<and> rcTool r = ''todo_write'') l"

definition HasSuccessfulAcceptanceCriteria :: "Ledger \<Rightarrow> bool" where
  "HasSuccessfulAcceptanceCriteria l =
     anyReceipt (\<lambda>r. rcSuccess r \<and> rcTool r = ''todo_write'' \<and> length (rcTodos r) > 0) l"

definition HasSuccessfulTodoProgressReceipt :: "Ledger \<Rightarrow> bool" where
  "HasSuccessfulTodoProgressReceipt l =
     anyReceipt (\<lambda>r. \<not> (\<not> rcSuccess r \<or> rcTool r = ''todo_write'' \<or> rcRead r)) l"

definition HasAnySuccessfulReceipt :: "Ledger \<Rightarrow> bool" where
  "HasAnySuccessfulReceipt l = anyReceipt rcSuccess l"

definition HasSuccessfulToolReceipt :: "bytes \<Rightarrow> Ledger \<Rightarrow> bool" where
  "HasSuccessfulToolReceipt name0 l =
     (let name = TrimSpace name0 in if name = [] then False else anyReceipt (\<lambda>r. rcSuccess r \<and> rcTool r = name) l)"

definition HasSuccessfulMutationOtherThan :: "bytes list \<Rightarrow> Ledger \<Rightarrow> bool" where
  "HasSuccessfulMutationOtherThan allowed l =
     anyReceipt (\<lambda>r. rcSuccess r \<and> rcMutation r \<and> rcTool r \<notin> set (map TrimSpace allowed)) l"

definition HasSuccessfulWorkReceipt :: "Ledger \<Rightarrow> bool" where
  "HasSuccessfulWorkReceipt l =
     anyReceipt (\<lambda>r. rcSuccess r \<and> rcTool r \<notin> {''ask'', ''todo_write'', ''complete_step''}) l"

definition HasSuccessfulVerificationCommand :: "evlib \<Rightarrow> Ledger \<Rightarrow> bool" where
  "HasSuccessfulVerificationCommand ev l =
     anyReceipt (\<lambda>r. rcSuccess r \<and> rcTool r = ''bash'' \<and> bashCommandIsVerification (eShell ev) (rcCommand r)) l"

definition LatestSuccessfulWriterIndex :: "Ledger \<Rightarrow> nat option" where
  "LatestSuccessfulWriterIndex l = latestIndex (\<lambda>r. rcSuccess r \<and> rcWrite r) l"

definition LatestSuccessfulMutationIndex :: "Ledger \<Rightarrow> nat option" where
  "LatestSuccessfulMutationIndex l = latestIndex (\<lambda>r. rcSuccess r \<and> rcMutation r) l"

definition pathSet :: "bytes list \<Rightarrow> bytes list" where
  "pathSet ps = remdups (filter (\<lambda>p. p \<noteq> []) ps)"

definition touches :: "bytes list \<Rightarrow> Receipt \<Rightarrow> bool" where
  "touches wanted r = list_ex (\<lambda>p. p \<in> set wanted) (rcPaths r)"

definition LatestSuccessfulWriteIndex :: "bytes list \<Rightarrow> Ledger \<Rightarrow> nat option" where
  "LatestSuccessfulWriteIndex ps l =
     (let wanted = pathSet (normalizePaths ps) in
      if wanted = [] then None else latestIndex (\<lambda>r. rcSuccess r \<and> rcWrite r \<and> touches wanted r) l)"

definition anchorRefreshRead :: "evlib \<Rightarrow> Receipt \<Rightarrow> bool" where
  "anchorRefreshRead ev r =
     (if rcTool r \<noteq> ''read_file'' \<or> \<not> rcRead r then False
      else (case decodeFields (eParse ev (rcArgs r)) of
              None \<Rightarrow> False
            | Some fs \<Rightarrow>
                \<not> (case intField fs ''limit'' of Some n \<Rightarrow> n > 0 | None \<Rightarrow> False) \<and>
                \<not> (case intField fs ''offset'' of Some n \<Rightarrow> n > 0 | None \<Rightarrow> False)))"

definition HasSuccessfulAnchorRefreshReadAfter :: "evlib \<Rightarrow> bytes list \<Rightarrow> int \<Rightarrow> Ledger \<Rightarrow> bool" where
  "HasSuccessfulAnchorRefreshReadAfter ev ps after l =
     (let wanted = pathSet (normalizePaths ps) in
      if wanted = [] then False
      else anySince (\<lambda>r. rcSuccess r \<and> anchorRefreshRead ev r \<and> touches wanted r) (after + 1) l)"

definition hasSuccessfulPaths :: "bytes list \<Rightarrow> (Receipt \<Rightarrow> bool) \<Rightarrow> Ledger \<Rightarrow> bool" where
  "hasSuccessfulPaths ps accept l =
     (let wanted = pathSet (normalizePaths ps) in
      if wanted = [] then False
      else let found = remdups (concat (map (\<lambda>r. filter (\<lambda>p. p \<in> set wanted) (rcPaths r))
                          (filter (\<lambda>r. rcSuccess r \<and> accept r) (receipts l))))
           in length found = length wanted)"

definition HasSuccessfulWrite :: "bytes list \<Rightarrow> Ledger \<Rightarrow> bool" where
  "HasSuccessfulWrite ps l = hasSuccessfulPaths ps rcWrite l"

definition HasSuccessfulReadOrWrite :: "bytes list \<Rightarrow> Ledger \<Rightarrow> bool" where
  "HasSuccessfulReadOrWrite ps l = hasSuccessfulPaths ps (\<lambda>r. rcRead r \<or> rcWrite r) l"

definition HasSuccessfulBashMentioningPaths :: "bytes list \<Rightarrow> Ledger \<Rightarrow> bool" where
  "HasSuccessfulBashMentioningPaths ps l =
     (let wanted = normalizePaths ps in
      if wanted = [] then False
      else list_all (\<lambda>p. anyReceipt (\<lambda>r. rcSuccess r \<and> rcTool r = ''bash'' \<and>
               Contains (ToLower (map (\<lambda>c. if c = BSL then CHR ''/'' else c) (rcCommand r))) (ToLower p)) l) wanted)"

text \<open>Hints for rejections: the last successful commands and paths, most recent first, at most \<open>limit\<close>.\<close>

definition SuccessfulCommands :: "int \<Rightarrow> Ledger \<Rightarrow> bytes list" where
  "SuccessfulCommands limit l =
     (if limit \<le> 0 then []
      else take (nat limit) (map rcCommand
             (filter (\<lambda>r. rcSuccess r \<and> rcTool r = ''bash'' \<and> rcCommand r \<noteq> []) (rev (receipts l)))))"

definition pathShown :: "bool \<Rightarrow> Receipt \<Rightarrow> bool" where
  "pathShown writtenOnly r \<longleftrightarrow>
     \<not> (\<not> rcSuccess r \<or> (writtenOnly \<and> \<not> rcWrite r) \<or> (\<not> writtenOnly \<and> \<not> rcRead r \<and> \<not> rcWrite r))"

fun addPaths :: "nat \<Rightarrow> bytes list \<Rightarrow> bytes list \<Rightarrow> bytes list" where
  "addPaths limit [] acc = acc"
| "addPaths limit (p # ps) acc =
     addPaths limit ps (if p \<notin> set acc \<and> length acc < limit then acc @ [p] else acc)"

definition TouchedPaths :: "int \<Rightarrow> bool \<Rightarrow> Ledger \<Rightarrow> bytes list" where
  "TouchedPaths limit writtenOnly l =
     (if limit \<le> 0 then []
      else addPaths (nat limit) (concat (map rcPaths (filter (pathShown writtenOnly) (rev (receipts l))))) [])"

section \<open>Reviews\<close>

record ReviewFinding =
  fdSeverity :: bytes
  fdSummary :: bytes
  fdPath :: bytes
  fdLine :: int

record ReviewReport =
  rpKind :: bytes
  rpVerdict :: bytes
  rpReviewedPaths :: "bytes list"
  rpFindings :: "ReviewFinding list"

definition decodeFinding :: "fields \<Rightarrow> ReviewFinding option" where
  "decodeFinding fs =
     (case (structField intoString ''severity'' fs [], structField intoString ''summary'' fs [],
            structField intoString ''path'' fs [], structField intoInt ''line'' fs 0) of
        (Some s, Some m, Some p, Some n) \<Rightarrow> Some \<lparr>fdSeverity = s, fdSummary = m, fdPath = p, fdLine = n\<rparr>
      | _ \<Rightarrow> None)"

definition decodeReport :: "fields \<Rightarrow> ReviewReport option" where
  "decodeReport fs =
     (case (structField intoString ''kind'' fs [], structField intoString ''verdict'' fs [],
            structField (\<lambda>_ j. decodeSlice (intoString []) j) ''reviewed_paths'' fs [],
            structField (\<lambda>_ j. decodeSlice (decodeStruct decodeFinding) j) ''findings'' fs []) of
        (Some k, Some v, Some ps, Some fd) \<Rightarrow>
          Some \<lparr>rpKind = k, rpVerdict = v, rpReviewedPaths = ps, rpFindings = fd\<rparr>
      | _ \<Rightarrow> None)"

definition cleanFinding :: "ReviewFinding \<Rightarrow> ReviewFinding option" where
  "cleanFinding f =
     (let sev = TrimSpace (fdSeverity f); sum = TrimSpace (fdSummary f) in
      if sum = [] then None
      else Some (f\<lparr>fdSeverity := (if sev = [] then ''info'' else sev), fdSummary := sum, fdPath := TrimSpace (fdPath f)\<rparr>))"

fun cleanFindings :: "ReviewFinding list \<Rightarrow> ReviewFinding list option" where
  "cleanFindings [] = Some []"
| "cleanFindings (f # fs) =
     (case cleanFinding f of None \<Rightarrow> None
      | Some g \<Rightarrow> (case cleanFindings fs of None \<Rightarrow> None | Some gs \<Rightarrow> Some (g # gs)))"

definition ParseReviewReport :: "evlib \<Rightarrow> bytes \<Rightarrow> ReviewReport option" where
  "ParseReviewReport ev raw =
     (case eParse ev raw of None \<Rightarrow> None
      | Some j \<Rightarrow>
      (case decodeStruct decodeReport j of
        None \<Rightarrow> None
      | Some r \<Rightarrow>
          let kind = ToLower (TrimSpace (rpKind r)); verdict = ToLower (TrimSpace (rpVerdict r));
              ps = normalizePaths (rpReviewedPaths r) in
          if kind \<notin> {''review'', ''security''} then None
          else if verdict \<notin> {''pass'', ''warn'', ''block''} then None
          else if ps = [] then None
          else (case cleanFindings (rpFindings r) of
                  None \<Rightarrow> None
                | Some fs \<Rightarrow> Some \<lparr>rpKind = kind, rpVerdict = verdict, rpReviewedPaths = ps, rpFindings = fs\<rparr>)))"

definition filepathBase :: "bytes \<Rightarrow> bytes" where
  "filepathBase p0 =
     (let p = map (\<lambda>c. if c = BSL then CHR ''/'' else c) p0 in
      case LastIndexByte p CHR ''/'' of Some i \<Rightarrow> drop (i + 1) p | None \<Rightarrow> p)"

definition CoversPaths :: "bytes list \<Rightarrow> ReviewReport \<Rightarrow> bool" where
  "CoversPaths required r =
     (if required = [] then length (rpReviewedPaths r) > 0
      else let have = pathSet (normalizePaths (rpReviewedPaths r)) in
        list_all (\<lambda>p. p = [] \<or> p \<in> set have \<or> list_ex (\<lambda>h. h = p \<or> filepathBase h = filepathBase p) have)
          (normalizePaths required))"

definition HasBlockingFinding :: "ReviewReport \<Rightarrow> bool" where
  "HasBlockingFinding r \<longleftrightarrow>
     rpVerdict r = ''block'' \<or>
     list_ex (\<lambda>f. ToLower (fdSeverity f) \<in> {''block'', ''blocking'', ''critical'', ''error''}) (rpFindings r)"

definition WarningSummaries :: "ReviewReport \<Rightarrow> bytes list" where
  "WarningSummaries r =
     (if rpVerdict r = ''warn'' then [''review verdict=warn''] else []) @
     map (\<lambda>f. if fdPath f \<noteq> [] then fdPath f @ '': '' @ fdSummary f else fdSummary f)
       (filter (\<lambda>f. ToLower (fdSeverity f) \<in> {''warn'', ''warning'', ''medium''}) (rpFindings r))"

definition structuredReview :: "evlib \<Rightarrow> bytes \<Rightarrow> bytes list \<Rightarrow> Receipt \<Rightarrow> ReviewReport option" where
  "structuredReview ev kind required r =
     (if \<not> rcSuccess r \<or> rcTool r \<noteq> ''review_report'' then None
      else (case ParseReviewReport ev (rcArgs r) of
              None \<Rightarrow> None
            | Some p \<Rightarrow> if rpKind p \<noteq> kind \<or> \<not> CoversPaths required p then None else Some p))"

fun firstReport :: "(Receipt \<Rightarrow> ReviewReport option) \<Rightarrow> Receipt list \<Rightarrow> ReviewReport option" where
  "firstReport f [] = None"
| "firstReport f (r # rs) = (case f r of Some p \<Rightarrow> Some p | None \<Rightarrow> firstReport f rs)"

text \<open>\<open>(ok, blocking, report)\<close>; the first covering report decides.\<close>

definition HasStructuredReviewAfter ::
  "evlib \<Rightarrow> bytes \<Rightarrow> int \<Rightarrow> bytes list \<Rightarrow> Ledger \<Rightarrow> bool \<times> bool \<times> ReviewReport option" where
  "HasStructuredReviewAfter ev kind after required l =
     (case firstReport (structuredReview ev kind required) (drop (nat (after + 1)) (receipts l)) of
        None \<Rightarrow> (False, False, None)
      | Some p \<Rightarrow> (True, HasBlockingFinding p, Some p))"

definition HasSuccessfulStructuredReviewAfter :: "evlib \<Rightarrow> bytes \<Rightarrow> int \<Rightarrow> bytes list \<Rightarrow> Ledger \<Rightarrow> bool" where
  "HasSuccessfulStructuredReviewAfter ev kind after required l =
     (case HasStructuredReviewAfter ev kind after required l of (ok, blocking, _) \<Rightarrow> ok \<and> \<not> blocking)"

definition HasSuccessfulReviewReportOfKind :: "evlib \<Rightarrow> bytes \<Rightarrow> Ledger \<Rightarrow> bool" where
  "HasSuccessfulReviewReportOfKind ev kind l =
     anyReceipt (\<lambda>r. rcSuccess r \<and> rcTool r = ''review_report'' \<and>
        (case ParseReviewReport ev (rcArgs r) of Some p \<Rightarrow> rpKind p = kind | None \<Rightarrow> False)) l"

definition completedStructuredReviewReceipt :: "evlib \<Rightarrow> bytes list \<Rightarrow> Receipt \<Rightarrow> bool" where
  "completedStructuredReviewReceipt ev required r \<longleftrightarrow>
     rcSuccess r \<and> rcTool r = ''review_report'' \<and>
     (case ParseReviewReport ev (rcArgs r) of Some p \<Rightarrow> rpKind p = ''review'' \<and> CoversPaths required p | None \<Rightarrow> False)"

definition successfulForegroundReviewReceipt :: "evlib \<Rightarrow> Receipt \<Rightarrow> bool" where
  "successfulForegroundReviewReceipt ev r =
     (if \<not> rcSuccess r then False
      else if rcTool r = ''review'' then True
      else if rcTool r \<noteq> ''task'' \<or> rcProfile r \<noteq> ''review'' then False
      else (case eParse ev (rcArgs r) of
              None \<Rightarrow> False
            | Some j \<Rightarrow> decodeStruct (\<lambda>fs. structField intoBool ''run_in_background'' fs False) j = Some False))"

definition receiptsReviewChanges :: "evlib \<Rightarrow> Receipt list \<Rightarrow> nat \<Rightarrow> nat \<Rightarrow> int \<Rightarrow> bool" where
  "receiptsReviewChanges ev rs start stop mutationIndex =
     (if mutationIndex \<ge> int (length rs) then False
      else let wanted = (if mutationIndex \<ge> 0 then pathSet (rcPaths (rs ! nat mutationIndex)) else []) in
        list_ex (\<lambda>r. rcSuccess r \<and>
            ((rcTool r = ''bash'' \<and> commandReviewsChanges (eShell ev) (rcCommand r)) \<or>
             (rcTool r = ''bash'' \<and> wanted \<noteq> [] \<and> \<not> bashMayMutate (eShell ev) (rcCommand r) \<and>
                commandMentionsPaths (rcCommand r) wanted) \<or>
             (rcRead r \<and> (wanted = [] \<or> touches wanted r))))
          (drop start (take stop rs)))"

definition HasCompletedReview :: "evlib \<Rightarrow> Ledger \<Rightarrow> bool" where
  "HasCompletedReview ev l =
     (let rs = receipts l; mutation = LatestSuccessfulMutationIndex l;
          start = (case mutation of Some m \<Rightarrow> m + 1 | None \<Rightarrow> 0);
          required = (case mutation of Some m \<Rightarrow> rcPaths (rs ! m) | None \<Rightarrow> []) in
      list_ex (\<lambda>i. let r = rs ! i in
          completedStructuredReviewReceipt ev required r \<or>
          (successfulForegroundReviewReceipt ev r \<and>
            (case mutation of None \<Rightarrow> True | Some m \<Rightarrow> receiptsReviewChanges ev rs start i (int m))))
        [start ..< length rs])"

definition HasSuccessfulReviewAfter :: "evlib \<Rightarrow> int \<Rightarrow> Ledger \<Rightarrow> bool" where
  "HasSuccessfulReviewAfter ev after l =
     (let rs = receipts l in
      if after \<ge> int (length rs) then False
      else receiptsReviewChanges ev rs (nat (after + 1)) (length rs) after)"

definition observedPath :: "bytes \<Rightarrow> Receipt \<Rightarrow> bool" where
  "observedPath needle r = list_ex (\<lambda>p. endsInPath (ToLower (normalizePath p)) needle) (rcPaths r)"

definition showsPath :: "evlib \<Rightarrow> bytes \<Rightarrow> Receipt \<Rightarrow> bool" where
  "showsPath ev needle r \<longleftrightarrow>
     rcSuccess r \<and>
     ((rcRead r \<and> observedPath needle r) \<or>
      (rcTool r = ''bash'' \<and> rcOutput r > 0 \<and> commandShowsContentForPath (eShell ev) (rcCommand r) needle))"

definition HasHostReviewCoverageAfter :: "evlib \<Rightarrow> int \<Rightarrow> bytes list \<Rightarrow> Ledger \<Rightarrow> bool" where
  "HasHostReviewCoverageAfter ev after required l =
     (let rs = receipts l; later = drop (nat (after + 1)) rs in
      if after \<ge> int (length rs) then False
      else if list_ex (\<lambda>r. rcSuccess r \<and> rcTool r = ''bash'' \<and> rcOutput r > 0 \<and>
                 commandShowsWholeGitDiff (eShell ev) (rcCommand r)) later then True
      else let wanted = normalizePaths required in
        if wanted = [] then False
        else list_all (\<lambda>p. list_ex (showsPath ev (ToLower p)) later) wanted)"

definition HasReadEvidenceForPath :: "evlib \<Rightarrow> bytes \<Rightarrow> Ledger \<Rightarrow> bool" where
  "HasReadEvidenceForPath ev path0 l =
     (let p = normalizePath path0 in if p = [] then False else anyReceipt (showsPath ev (ToLower p)) l)"

text \<open>The verification commands a \<open>complete_step\<close> call cites.\<close>

definition decodeCitation :: "fields \<Rightarrow> (bytes \<times> bytes) option" where
  "decodeCitation fs =
     (case (structField intoString ''kind'' fs [], structField intoString ''command'' fs []) of
        (Some k, Some c) \<Rightarrow> Some (k, c) | _ \<Rightarrow> None)"

definition completeStepVerificationCommands :: "evlib \<Rightarrow> bytes \<Rightarrow> bytes list" where
  "completeStepVerificationCommands ev args =
     (case eParse ev args of
        None \<Rightarrow> []
      | Some j \<Rightarrow>
          (case decodeStruct (\<lambda>fs. structField (\<lambda>_ j. decodeSlice (decodeStruct decodeCitation) j) ''evidence'' fs []) j of
             None \<Rightarrow> []
           | Some items \<Rightarrow>
               map (\<lambda>(k, c). TrimSpace c) (filter (\<lambda>(k, c). k = ''verification'' \<and> TrimSpace c \<noteq> []) items)))"

definition HasSuccessfulDeliverySignoffAfter :: "evlib \<Rightarrow> int \<Rightarrow> Ledger \<Rightarrow> bool" where
  "HasSuccessfulDeliverySignoffAfter ev after l =
     (let rs = receipts l; start = nat (after + 1) in
      list_ex (\<lambda>i. let r = rs ! i in
          rcSuccess r \<and> rcTool r = ''complete_step'' \<and>
          \<not> (after \<ge> 0 \<and> \<not> receiptsReviewChanges ev rs start i after) \<and>
          list_ex (\<lambda>command. bashCommandIsVerification (eShell ev) command \<and>
              list_ex (\<lambda>j. provesCommand ev command (rs ! j)) [start ..< i])
            (completeStepVerificationCommands ev (rcArgs r)))
        [start ..< length rs])"

record ReceiptProgressSummary =
  psWrites :: nat
  psCommands :: nat
  psTodos :: nat
  psSignoffs :: nat
  psReviews :: nat

definition countReceipts :: "(Receipt \<Rightarrow> bool) \<Rightarrow> Ledger \<Rightarrow> nat" where
  "countReceipts P l = length (filter (\<lambda>r. rcSuccess r \<and> P r) (receipts l))"

definition receiptProgressSummary :: "evlib \<Rightarrow> Ledger \<Rightarrow> ReceiptProgressSummary" where
  "receiptProgressSummary ev l =
     \<lparr>psWrites = countReceipts (\<lambda>r. rcMutation r \<or> rcWrite r) l,
      psCommands = countReceipts (\<lambda>r. rcCommand r \<noteq> []) l,
      psTodos = countReceipts (\<lambda>r. rcTool r = ''todo_write'') l,
      psSignoffs = countReceipts (\<lambda>r. rcTool r = ''complete_step'' \<and> rcStepProof r) l,
      psReviews = countReceipts (\<lambda>r. successfulForegroundReviewReceipt ev r \<or> completedStructuredReviewReceipt ev [] r) l\<rparr>"

section \<open>Evidence of sub-agents\<close>

definition HasMutation :: "Receipt list \<Rightarrow> bool" where
  "HasMutation summary = list_ex (\<lambda>r. rcSuccess r \<and> rcMutation r) summary"

text \<open>The distinct paths a child changed, sorted.\<close>

definition MutationPaths :: "Receipt list \<Rightarrow> bytes list" where
  "MutationPaths summary =
     sort (remdups (filter (\<lambda>p. p \<noteq> []) (concat (map rcPaths (filter (\<lambda>r. rcSuccess r \<and> rcMutation r) summary)))))"

definition MergeChild :: "evlib \<Rightarrow> Receipt list \<Rightarrow> Ledger \<Rightarrow> Ledger" where
  "MergeChild ev summary l =
     foldl (\<lambda>l r. if rcTool r \<in> {''todo_write'', ''complete_step'', ''ask''} then l else Record ev r l) l summary"

definition MergeChildren :: "evlib \<Rightarrow> Receipt list list \<Rightarrow> Ledger \<Rightarrow> Ledger" where
  "MergeChildren ev summaries l = foldl (\<lambda>l s. MergeChild ev s l) l summaries"

section \<open>Task lists\<close>

definition latestTodoWrite :: "Ledger \<Rightarrow> nat option" where
  "latestTodoWrite l = latestIndex (\<lambda>r. rcSuccess r \<and> rcTool r = ''todo_write'') l"

definition LatestTodos :: "Ledger \<Rightarrow> TodoItem list option" where
  "LatestTodos l = map_option (\<lambda>i. rcTodos (receipts l ! i)) (latestTodoWrite l)"

definition IncompleteLatestTodos :: "Ledger \<Rightarrow> TodoStepMatch list option" where
  "IncompleteLatestTodos l = map_option IncompleteTodos (LatestTodos l)"

definition MatchLatestTodoStep :: "evlib \<Rightarrow> bytes \<Rightarrow> Ledger \<Rightarrow> TodoStepMatch option" where
  "MatchLatestTodoStep ev step0 l =
     (let step = TrimSpace step0 in
      if step = [] then None else map_option (matchTodoStep (eLower ev) step) (LatestTodos l))"

definition previousTodoCompleted :: "evlib \<Rightarrow> nat \<Rightarrow> TodoItem \<Rightarrow> TodoItem list \<Rightarrow> bool" where
  "previousTodoCompleted ev index current previous \<longleftrightarrow>
     (1 \<le> index \<and> index \<le> length previous \<and> st (previous ! (index - 1)) = COMPLETED \<and>
        sameTodoIdentity (eLower ev) current (previous ! (index - 1))) \<or>
     list_ex (\<lambda>p. st p = COMPLETED \<and> sameTodoIdentity (eLower ev) current p) previous"

text \<open>Does a recorded sign-off concern the todo with this 1-based index? (The loop body shared by the two
  searches below: \<open>None\<close> is \<open>continue\<close> before the text is matched.)\<close>

definition signoffConcerns :: "evlib \<Rightarrow> Receipt \<Rightarrow> nat \<Rightarrow> TodoItem list \<Rightarrow> bool" where
  "signoffConcerns ev r index current =
     (let byText = (let m = matchTodoStep (eLower ev) (rcStep r) current in mFound m \<and> mIndex m = int index) in
      case rcTodoStep r of
        Some m \<Rightarrow>
          if mFound m then
            (if index < 1 \<or> index > length current then False
             else if sameTodoMatch (eLower ev) (current ! (index - 1)) m then True
             else if \<not> todoContentRelates (eLower ev) (current ! (index - 1)) m then False
             else byText)
          else byText
      | None \<Rightarrow> byText)"

definition hasSuccessfulCompleteStepForTodo :: "evlib \<Rightarrow> Receipt list \<Rightarrow> nat \<Rightarrow> TodoItem list \<Rightarrow> bool" where
  "hasSuccessfulCompleteStepForTodo ev rs index current =
     list_ex (\<lambda>r. rcSuccess r \<and> rcTool r = ''complete_step'' \<and> TrimSpace (rcStep r) \<noteq> [] \<and>
       signoffConcerns ev r index current) rs"

definition hasSuccessfulProgressBeforeReceipt :: "Receipt list \<Rightarrow> nat \<Rightarrow> nat \<Rightarrow> bool" where
  "hasSuccessfulProgressBeforeReceipt rs baseline before =
     list_ex (\<lambda>r. rcSuccess r \<and> rcTool r \<noteq> ''todo_write'' \<and> rcTool r \<noteq> ''complete_step'' \<and> \<not> rcRead r)
       (drop (baseline + 1) (take before rs))"

definition hasFailedCompleteStepRecoveryForTodo :: "evlib \<Rightarrow> Receipt list \<Rightarrow> nat \<Rightarrow> nat \<Rightarrow> TodoItem list \<Rightarrow> bool" where
  "hasFailedCompleteStepRecoveryForTodo ev rs baseline index current =
     list_ex (\<lambda>i. let r = rs ! i in
         \<not> rcSuccess r \<and> rcTool r = ''complete_step'' \<and> TrimSpace (rcStep r) \<noteq> [] \<and> rcStepProof r \<and>
         hasSuccessfulProgressBeforeReceipt rs baseline i \<and> signoffConcerns ev r index current)
       [baseline + 1 ..< length rs]"

definition UnverifiedCompletedTodos :: "evlib \<Rightarrow> TodoItem list \<Rightarrow> Ledger \<Rightarrow> TodoStepMatch list \<times> bool" where
  "UnverifiedCompletedTodos ev current0 l =
     (let current = normalizeTodos current0; rs = receipts l in
      case latestTodoWrite l of
        None \<Rightarrow> ([], False)
      | Some baseline \<Rightarrow>
          let previous = rcTodos (rs ! baseline);
              missing = filter (\<lambda>i. st (current ! i) = COMPLETED \<and>
                  \<not> previousTodoCompleted ev (i + 1) (current ! i) previous \<and>
                  \<not> hasSuccessfulCompleteStepForTodo ev rs (i + 1) current \<and>
                  \<not> hasFailedCompleteStepRecoveryForTodo ev rs baseline (i + 1) current) [0 ..< length current]
          in (map (\<lambda>i. (match_at current i)\<lparr>mStatus := st (current ! i)\<rparr>) missing, True))"

section \<open>What a new receipt changes\<close>

lemma receipts_Record:
  "\<exists>r'. receipts (Record ev r l) = receipts l @ [r'] \<and> rcSuccess r' = rcSuccess r \<and> rcTool r' = rcTool r \<and>
     rcMutation r' = rcMutation r \<and> rcWrite r' = rcWrite r \<and> rcRead r' = rcRead r"
  by (auto simp: Record_def Let_def)

lemma latestIndex_append:
  assumes "receipts l' = receipts l @ [r]"
  shows "latestIndex P l' = (if P r then Some (length (receipts l)) else latestIndex P l)"
proof -
  have "find (\<lambda>i. P (receipts l' ! i)) (rev [0 ..< length (receipts l)]) = find (\<lambda>i. P (receipts l ! i)) (rev [0 ..< length (receipts l)])"
    by (rule find_cong) (auto simp: assms nth_append)
  then show ?thesis by (simp add: latestIndex_def assms)
qed

lemma anyReceipt_append:
  "receipts l' = receipts l @ [r] \<Longrightarrow> anyReceipt P l' \<longleftrightarrow> anyReceipt P l \<or> P r"
  by (simp add: anyReceipt_def)

lemma anySince_append:
  "receipts l' = receipts l @ [r] \<Longrightarrow> \<not> P r \<Longrightarrow> anySince P i l' \<longleftrightarrow> anySince P i l"
  by (cases "nat i \<le> length (receipts l)") (simp_all add: anySince_def)

lemma list_all_False: "list_all (\<lambda>p. False) xs \<longleftrightarrow> xs = []"
  by (cases xs) auto

lemma latestIndex_less: "latestIndex P l = Some i \<Longrightarrow> i < length (receipts l) \<and> P (receipts l ! i)"
  unfolding latestIndex_def by (drule find_in_list) auto

lemma hasSuccessfulPaths_append:
  "receipts l' = receipts l @ [r] \<Longrightarrow> \<not> rcSuccess r \<Longrightarrow> hasSuccessfulPaths ps accept l' = hasSuccessfulPaths ps accept l"
  by (simp add: hasSuccessfulPaths_def Let_def)

section \<open>Properties\<close>

text \<open>
  A failed call proves nothing. Recording a receipt of a failed call changes no answer to a question about
  commands, verifications, writes, reads, work or mutations, and no latest index of a mutation or of a
  written path.
\<close>

theorem failed_receipts_prove_nothing:
  assumes "\<not> rcSuccess r"
  shows "let l' = Record ev r l in
    HasSuccessfulCommand ev c l' = HasSuccessfulCommand ev c l \<and>
    HasSuccessfulCommandAfter ev c i l' = HasSuccessfulCommandAfter ev c i l \<and>
    HasSuccessfulVerificationCommand ev l' = HasSuccessfulVerificationCommand ev l \<and>
    HasSuccessfulWrite ps l' = HasSuccessfulWrite ps l \<and>
    HasSuccessfulReadOrWrite ps l' = HasSuccessfulReadOrWrite ps l \<and>
    HasSuccessfulBashMentioningPaths ps l' = HasSuccessfulBashMentioningPaths ps l \<and>
    HasSuccessfulWorkReceipt l' = HasSuccessfulWorkReceipt l \<and>
    HasSuccessfulMutationOtherThan names l' = HasSuccessfulMutationOtherThan names l \<and>
    LatestSuccessfulMutationIndex l' = LatestSuccessfulMutationIndex l \<and>
    LatestSuccessfulWriteIndex ps l' = LatestSuccessfulWriteIndex ps l \<and>
    LatestTodos l' = LatestTodos l"
proof -
  obtain r' where r: "receipts (Record ev r l) = receipts l @ [r']" "\<not> rcSuccess r'"
    using receipts_Record [of ev r l] assms by auto
  have t: "latestTodoWrite (Record ev r l) = latestTodoWrite l"
    unfolding latestTodoWrite_def by (simp add: latestIndex_append [OF r(1)] r(2))
  have "LatestTodos (Record ev r l) = LatestTodos l"
  proof (cases "latestTodoWrite l")
    case (Some i)
    then have "i < length (receipts l)" by (simp add: latestTodoWrite_def latestIndex_less)
    then show ?thesis using t Some by (simp add: LatestTodos_def r(1) nth_append)
  qed (use t in \<open>simp add: LatestTodos_def\<close>)
  then show ?thesis
    using r(2)
    by (simp add: Let_def HasSuccessfulCommand_def HasSuccessfulCommandAfter_def HasSuccessfulVerificationCommand_def
        HasSuccessfulWrite_def HasSuccessfulReadOrWrite_def HasSuccessfulBashMentioningPaths_def HasSuccessfulWorkReceipt_def
        HasSuccessfulMutationOtherThan_def LatestSuccessfulMutationIndex_def LatestSuccessfulWriteIndex_def
        anyReceipt_append [OF r(1)] anySince_append [OF r(1)] latestIndex_append [OF r(1)]
        hasSuccessfulPaths_append [OF r(1)] provesCommand_def)
qed

text \<open>C18. 
  A change takes every proof back. Right after a successful mutation is recorded it is the latest one, and
  nothing counts as coming after it: no run of a command, no sign-off, no delivery sign-off, no review of the
  changes, no host review coverage and no structured review.
\<close>

theorem mutation_resets_gates:
  assumes "rcSuccess r" and "rcMutation r"
  shows "let l' = Record ev r l; m = int (length (receipts l)) in
    LatestSuccessfulMutationIndex l' = Some (length (receipts l)) \<and>
    \<not> HasSuccessfulCommandAfter ev c m l' \<and>
    \<not> HasSuccessfulCompleteStepAfter m l' \<and>
    \<not> HasSuccessfulDeliverySignoffAfter ev m l' \<and>
    \<not> HasSuccessfulReviewAfter ev m l' \<and>
    \<not> HasHostReviewCoverageAfter ev m ps l' \<and>
    \<not> HasSuccessfulStructuredReviewAfter ev kind m ps l' \<and>
    \<not> HasCompletedReview ev l'"
proof -
  obtain r' where r: "receipts (Record ev r l) = receipts l @ [r']" "rcSuccess r'" "rcMutation r'"
    using receipts_Record [of ev r l] assms by auto
  have m: "LatestSuccessfulMutationIndex (Record ev r l) = Some (length (receipts l))"
    unfolding LatestSuccessfulMutationIndex_def by (simp add: latestIndex_append [OF r(1)] r)
  let ?l = "Record ev r l"
  have d: "drop (nat (int (length (receipts l)) + 1)) (receipts ?l) = []" and n: "length (receipts ?l) = Suc (length (receipts l))"
    by (simp_all add: r(1))
  show ?thesis
    unfolding Let_def
    by (intro conjI)
      (simp_all add: m d n HasSuccessfulCommandAfter_def HasSuccessfulCompleteStepAfter_def anySince_def
        HasSuccessfulDeliverySignoffAfter_def HasSuccessfulReviewAfter_def receiptsReviewChanges_def
        HasHostReviewCoverageAfter_def HasSuccessfulStructuredReviewAfter_def HasStructuredReviewAfter_def
        HasCompletedReview_def Let_def list_all_False)
qed

text \<open>
  What a delivery sign-off rests on: after the change, in this order, a successful run that the citation
  matches and a successful \<open>complete_step\<close> that cites a recognised verification, with an inspection of the
  change before the sign-off when the change is in the ledger.
\<close>

theorem HasSuccessfulDeliverySignoffAfter_sound:
  assumes "HasSuccessfulDeliverySignoffAfter ev after l"
  shows "\<exists>i j c. after < int j \<and> j < i \<and> i < length (receipts l) \<and>
    rcSuccess (receipts l ! i) \<and> rcTool (receipts l ! i) = ''complete_step'' \<and>
    c \<in> set (completeStepVerificationCommands ev (rcArgs (receipts l ! i))) \<and> IsDeliveryVerificationCommand (eShell ev) c \<and>
    rcSuccess (receipts l ! j) \<and> rcTool (receipts l ! j) = ''bash'' \<and>
    CommandMatches (eShell ev) c (rcCommand (receipts l ! j)) \<and>
    (0 \<le> after \<longrightarrow> receiptsReviewChanges ev (receipts l) (nat (after + 1)) i after)"
proof -
  let ?rs = "receipts l" and ?s = "nat (after + 1)"
  obtain i where i: "?s \<le> i" "i < length ?rs" "rcSuccess (?rs ! i)" "rcTool (?rs ! i) = ''complete_step''"
      "0 \<le> after \<longrightarrow> receiptsReviewChanges ev ?rs ?s i after"
    and "list_ex (\<lambda>command. bashCommandIsVerification (eShell ev) command \<and>
        list_ex (\<lambda>j. provesCommand ev command (?rs ! j)) [?s ..< i])
      (completeStepVerificationCommands ev (rcArgs (?rs ! i)))"
    using assms unfolding HasSuccessfulDeliverySignoffAfter_def Let_def list_ex_iff [of _ "[_ ..< length _]"] by auto
  then obtain c where c: "c \<in> set (completeStepVerificationCommands ev (rcArgs (?rs ! i)))"
      "bashCommandIsVerification (eShell ev) c" "list_ex (\<lambda>j. provesCommand ev c (?rs ! j)) [?s ..< i]"
    unfolding list_ex_iff [of _ "completeStepVerificationCommands _ _"] by blast
  obtain j where j: "?s \<le> j" "j < i" "provesCommand ev c (?rs ! j)" using c(3) by (auto simp: list_ex_iff)
  have "after < int j" using j(1) by linarith
  then show ?thesis
    using i c(1,2) j(2,3) unfolding provesCommand_def IsDeliveryVerificationCommand_def by blast
qed

text \<open>
  No task becomes completed in silence. If the turn has a task list, an item of the new list that is
  completed although no item of equal identity was completed in the latest list, and no \<open>complete_step\<close> call
  was recorded in the turn, is among the items \<open>UnverifiedCompletedTodos\<close> reports.
\<close>

theorem unsigned_completion_reported:
  assumes "latestTodoWrite l = Some b" and "i < length current" and "st (normalizeTodos current ! i) = COMPLETED"
    and "\<forall>p \<in> set (rcTodos (receipts l ! b)). st p = COMPLETED \<longrightarrow> \<not> sameTodoIdentity (eLower ev) (normalizeTodos current ! i) p"
    and "\<forall>r \<in> set (receipts l). rcTool r \<noteq> ''complete_step''"
  shows "\<exists>m \<in> set (fst (UnverifiedCompletedTodos ev current l)). mIndex m = int i + 1 \<and> snd (UnverifiedCompletedTodos ev current l)"
proof -
  let ?c = "normalizeTodos current"
  have len: "length ?c = length current" by (simp add: normalizeTodos_def)
  have "\<not> previousTodoCompleted ev (i + 1) (?c ! i) (rcTodos (receipts l ! b))"
    using assms(4) nth_mem [of "i" "rcTodos (receipts l ! b)"]
    by (auto simp: previousTodoCompleted_def list_ex_iff Suc_le_eq)
  moreover have "\<not> hasSuccessfulCompleteStepForTodo ev (receipts l) (i + 1) ?c"
    using assms(5) by (auto simp: hasSuccessfulCompleteStepForTodo_def list_ex_iff)
  moreover have "\<not> hasFailedCompleteStepRecoveryForTodo ev (receipts l) b (i + 1) ?c"
    using assms(5) by (auto simp: hasFailedCompleteStepRecoveryForTodo_def list_ex_iff)
  ultimately show ?thesis
    using assms(1-3) len
    by (auto simp: UnverifiedCompletedTodos_def Let_def match_at_def intro!: bexI [of _ i])
qed

text \<open>
  The first structured review decides. Once a covering review without a blocking finding is recorded, no
  later receipt changes the answer of the gate: a later review of the same change with a blocking verdict
  is not read.
\<close>

lemma firstReport_append: "firstReport f xs = Some p \<Longrightarrow> firstReport f (xs @ ys) = Some p"
  by (induction xs) (auto split: option.splits)

theorem later_blocking_review_ignored:
  assumes "HasSuccessfulStructuredReviewAfter ev kind after required l"
  shows "HasSuccessfulStructuredReviewAfter ev kind after required (Record ev r l)"
proof -
  obtain p where p: "firstReport (structuredReview ev kind required) (drop (nat (after + 1)) (receipts l)) = Some p"
    and "\<not> HasBlockingFinding p"
    using assms by (auto simp: HasSuccessfulStructuredReviewAfter_def HasStructuredReviewAfter_def split: option.splits)
  moreover obtain r' where "receipts (Record ev r l) = receipts l @ [r']" using receipts_Record by blast
  ultimately show ?thesis
    by (simp add: HasSuccessfulStructuredReviewAfter_def HasStructuredReviewAfter_def firstReport_append [OF p])
qed

text \<open>
  What a parent takes over from a sub-agent: its task list is untouched by whatever the child recorded,
  and a successful mutation of the child is a mutation of the parent, later than all it had.
\<close>

lemma MergeChild_grows: "\<exists>rs. receipts (MergeChild ev s l) = receipts l @ rs"
proof (induction s arbitrary: l)
  case (Cons r s)
  show ?case
  proof (cases "rcTool r \<in> {''todo_write'', ''complete_step'', ''ask''}")
    case True
    then have "MergeChild ev (r # s) l = MergeChild ev s l" by (simp add: MergeChild_def)
    then show ?thesis using Cons by simp
  next
    case False
    then have "MergeChild ev (r # s) l = MergeChild ev s (Record ev r l)" by (simp add: MergeChild_def)
    then show ?thesis using Cons [of "Record ev r l"] receipts_Record [of ev r l] by auto
  qed
qed (simp add: MergeChild_def)

lemma find_rev_upt: "i < n \<Longrightarrow> Q i \<Longrightarrow> \<exists>j. find Q (rev [0 ..< n]) = Some j \<and> i \<le> j"
proof (induction n)
  case (Suc n)
  then show ?case by (cases "Q n") (auto simp: less_Suc_eq)
qed simp

lemma latestIndex_grows:
  assumes "receipts l' = receipts l @ rs" and "latestIndex P l = Some i"
  shows "\<exists>j. latestIndex P l' = Some j \<and> i \<le> j"
proof -
  have "i < length (receipts l)" "P (receipts l ! i)" using latestIndex_less [OF assms(2)] by auto
  then have p: "i < length (receipts l')" "P (receipts l' ! i)" by (simp_all add: assms(1) nth_append)
  show ?thesis using find_rev_upt [of i _ "\<lambda>i. P (receipts l' ! i)", OF p] unfolding latestIndex_def .
qed

lemma MergeChild_mutation:
  assumes "r \<in> set s" "rcSuccess r" "rcMutation r" "rcTool r \<notin> {''todo_write'', ''complete_step'', ''ask''}"
  shows "\<exists>j. LatestSuccessfulMutationIndex (MergeChild ev s l) = Some j \<and> length (receipts l) \<le> j"
  using assms(1)
proof (induction s arbitrary: l)
  case (Cons q s)
  show ?case
  proof (cases "q = r")
    case True
    obtain r' where r': "receipts (Record ev r l) = receipts l @ [r']" "rcSuccess r'" "rcMutation r'"
      using receipts_Record [of ev r l] assms by auto
    have "latestIndex (\<lambda>r. rcSuccess r \<and> rcMutation r) (Record ev r l) = Some (length (receipts l))"
      by (simp add: latestIndex_append [OF r'(1)] r')
    moreover obtain rs where "receipts (MergeChild ev s (Record ev r l)) = receipts (Record ev r l) @ rs"
      using MergeChild_grows by blast
    moreover have "MergeChild ev (q # s) l = MergeChild ev s (Record ev r l)"
      using assms(4) True by (simp add: MergeChild_def)
    ultimately show ?thesis unfolding LatestSuccessfulMutationIndex_def by (metis latestIndex_grows)
  next
    case False
    then have "r \<in> set s" using Cons.prems by simp
    from Cons.IH [OF this] obtain j where
      "LatestSuccessfulMutationIndex (MergeChild ev (q # s) l) = Some j \<and> length (receipts l) \<le> j"
    proof (cases "rcTool q \<in> {''todo_write'', ''complete_step'', ''ask''}")
      case True
      then have "MergeChild ev (q # s) l = MergeChild ev s l" by (simp add: MergeChild_def)
      then show ?thesis using Cons.IH [OF \<open>r \<in> set s\<close>, of l] that by auto
    next
      case False
      then have "MergeChild ev (q # s) l = MergeChild ev s (Record ev q l)" by (simp add: MergeChild_def)
      then show ?thesis
        using Cons.IH [OF \<open>r \<in> set s\<close>, of "Record ev q l"] receipts_Record [of ev q l] that by fastforce
    qed
    then show ?thesis by blast
  qed
qed simp

lemma MergeChild_todos: "LatestTodos (MergeChild ev s l) = LatestTodos l"
proof (induction s arbitrary: l)
  case (Cons r s)
  show ?case
  proof (cases "rcTool r \<in> {''todo_write'', ''complete_step'', ''ask''}")
    case True
    then have "MergeChild ev (r # s) l = MergeChild ev s l" by (simp add: MergeChild_def)
    then show ?thesis using Cons by simp
  next
    case False
    obtain r' where r': "receipts (Record ev r l) = receipts l @ [r']" "rcTool r' = rcTool r"
      using receipts_Record [of ev r l] by auto
    have t: "latestTodoWrite (Record ev r l) = latestTodoWrite l"
      unfolding latestTodoWrite_def using False by (simp add: latestIndex_append [OF r'(1)] r'(2))
    have "LatestTodos (Record ev r l) = LatestTodos l"
    proof (cases "latestTodoWrite l")
      case (Some i)
      then have "i < length (receipts l)" unfolding latestTodoWrite_def using latestIndex_less by blast
      then show ?thesis using t Some by (simp add: LatestTodos_def r'(1) nth_append)
    qed (use t in \<open>simp add: LatestTodos_def\<close>)
    moreover have "MergeChild ev (r # s) l = MergeChild ev s (Record ev r l)" using False by (simp add: MergeChild_def)
    ultimately show ?thesis using Cons by simp
  qed
qed (simp add: MergeChild_def)

theorem MergeChild_accounts:
  "LatestTodos (MergeChild ev s l) = LatestTodos l \<and>
   (\<forall>r \<in> set s. rcSuccess r \<and> rcMutation r \<and> rcTool r \<notin> {''todo_write'', ''complete_step'', ''ask''} \<longrightarrow>
      (\<exists>j. LatestSuccessfulMutationIndex (MergeChild ev s l) = Some j \<and> length (receipts l) \<le> j))"
  using MergeChild_todos MergeChild_mutation by blast

section \<open>A sample session\<close>

text \<open>A sample library: the documents of a short session, single commands as their words, ASCII lower case.\<close>

definition demo_docs :: "(bytes \<times> json) list" where
  "demo_docs =
    [(''{edit}'', JObj [(''path'', JStr ''main.go'')]),
     (''{run}'', JObj [(''command'', JStr ''npm test'')]),
     (''{list}'', JObj [(''command'', JStr ''npm ls test'')]),
     (''{signoff}'', JObj [(''step'', JStr ''fix''), (''result'', JStr ''ok''),
        (''evidence'', JArr [JObj [(''kind'', JStr ''verification''), (''summary'', JStr ''green''), (''command'', JStr ''npm test'')]])]),
     (''{report}'', JObj [(''kind'', JStr ''review''), (''verdict'', JStr ''pass''), (''reviewed_paths'', JArr [JStr ''main.go''])]),
     (''{block}'', JObj [(''kind'', JStr ''review''), (''verdict'', JStr ''block''), (''reviewed_paths'', JArr [JStr ''main.go''])])]"

definition demo_ev :: evlib where
  "demo_ev = \<lparr>eParse = map_of demo_docs, eMarshal = (\<lambda>_. []), eShell = words_shell, eLower = (\<lambda>r. r), eSha = (\<lambda>s. s)\<rparr>"

definition demo_record :: "(bytes \<times> bytes \<times> bool) list \<Rightarrow> Ledger" where
  "demo_record calls =
     fold (\<lambda>(tool, args, ro). Record demo_ev (ReceiptFromToolCall demo_ev tool args True ro)) calls \<lparr>receipts = [], leases = []\<rparr>"

definition demo_list :: Ledger where
  "demo_list = demo_record
     [(''edit_file'', ''{edit}'', False), (''read_file'', ''{edit}'', True), (''bash'', ''{list}'', False),
      (''complete_step'', ''{signoff}'', False)]"

definition demo_run :: Ledger where
  "demo_run = demo_record
     [(''edit_file'', ''{edit}'', False), (''read_file'', ''{edit}'', True), (''bash'', ''{run}'', False),
      (''complete_step'', ''{signoff}'', False)]"

text \<open>An inspection of the change stays one when more is recorded.\<close>

lemma receiptsReviewChanges_longer:
  assumes "receiptsReviewChanges ev rs start (length rs) m" "m < int (length rs)" "start \<le> length rs"
  shows "receiptsReviewChanges ev (rs @ rest) start (length rs + k) m"
proof -
  have w: "(if m \<ge> 0 then pathSet (rcPaths ((rs @ rest) ! nat m)) else []) = (if m \<ge> 0 then pathSet (rcPaths (rs ! nat m)) else [])"
    using assms(2) by (cases "m \<ge> 0") (simp_all add: nth_append nat_less_iff)
  have d: "drop start (take (length rs + k) (rs @ rest)) = drop start rs @ take k rest" using assms(3) by simp
  show ?thesis
    using assms(1,2) unfolding receiptsReviewChanges_def w d Let_def
    by (simp only: list_ex_append take_all order_refl not_le [symmetric] if_False length_append) auto
qed

lemma latestIndex_less_Suc: "latestIndex P l = Some i \<Longrightarrow> Suc i \<le> length (receipts l)"
  using latestIndex_less [of P l i] by simp

text \<open>C35. C36.
  A delivery sign-off without a verification. The sign-off classifies the command that is cited, not the
  command that ran, and a citation is proven by any run of the same program that has its words: after an
  edit whose result was inspected, let the session run any plain command at all that is no verification but
  starts with the cited program and contains the cited words, and then sign off a recognised verification
  command. The gate of the delivery opens, and the ledger has no verification run that it did not have
  before, so with none before there is none at all. (After an edit and a look at the file, listing a
  dependency with \<open>npm ls test\<close> signs off \<open>npm test\<close>.)
\<close>

theorem signoff_without_verification:
  assumes "LatestSuccessfulMutationIndex l = Some m" "HasSuccessfulReviewAfter ev (int m) l"
    and "rcSuccess run" "rcTool run = ''bash''" "\<not> rcMutation run"
    and "\<not> bashCommandIsVerification (eShell ev) (TrimSpace (rcCommand run))"
    and "rcSuccess sign" "rcTool sign = ''complete_step''" "\<not> rcMutation sign"
    and "cited \<in> set (completeStepVerificationCommands ev (rcArgs sign))" "bashCommandIsVerification (eShell ev) cited"
    and "commandSegments (eShell ev) cited = [c]" "commandSegments (eShell ev) (TrimSpace (rcCommand run)) = [r]"
    and "segmentTokens (eShell ev) c = h # a # ts" "segmentTokens (eShell ev) r = h # rs" "set (a # ts) \<subseteq> set (h # rs)"
  shows "let l' = Record ev sign (Record ev run l) in
    LatestSuccessfulMutationIndex l' = Some m \<and> HasSuccessfulDeliverySignoffAfter ev (int m) l' \<and>
    HasSuccessfulVerificationCommand ev l' = HasSuccessfulVerificationCommand ev l"
proof -
  let ?l1 = "Record ev run l" and ?l2 = "Record ev sign (Record ev run l)" and ?n = "length (receipts l)"
  obtain u where u: "receipts ?l1 = receipts l @ [u]" "rcSuccess u" "rcTool u = ''bash''" "\<not> rcMutation u"
    "rcCommand u = TrimSpace (rcCommand run)"
    using assms(3-5) by (auto simp: Record_def Let_def)
  obtain s where s: "receipts ?l2 = receipts ?l1 @ [s]" "rcSuccess s" "rcTool s = ''complete_step''" "\<not> rcMutation s"
    "rcArgs s = rcArgs sign"
    using assms(7-9) by (auto simp: Record_def Let_def)
  have all: "receipts ?l2 = receipts l @ [u, s]" using s(1) u(1) by simp
  have m: "Suc m \<le> ?n" using assms(1) unfolding LatestSuccessfulMutationIndex_def by (rule latestIndex_less_Suc)
  have 1: "LatestSuccessfulMutationIndex ?l2 = Some m"
    using assms(1) u(4) s(4) unfolding LatestSuccessfulMutationIndex_def
    by (simp add: latestIndex_append [OF s(1)] latestIndex_append [OF u(1)])
  have "provesCommand ev cited u"
    using CommandMatches_words [OF assms(12,13,14,15,16)] u(2,3,5) by (simp add: provesCommand_def)
  then have p: "list_ex (\<lambda>j. provesCommand ev cited (receipts ?l2 ! j)) [Suc m ..< Suc ?n]"
    using m by (auto simp: list_ex_iff all nth_append intro: bexI [of _ ?n])
  have "receiptsReviewChanges ev (receipts l) (Suc m) ?n (int m)"
    using assms(2) m by (simp add: HasSuccessfulReviewAfter_def Let_def nat_add_distrib split: if_splits)
  then have i: "receiptsReviewChanges ev (receipts ?l2) (Suc m) (Suc ?n) (int m)"
    using receiptsReviewChanges_longer [of ev "receipts l" "Suc m" "int m" "[u, s]" 1] m by (simp add: all)
  have at: "receipts ?l2 ! Suc ?n = s" "Suc ?n < length (receipts ?l2)" by (simp_all add: all nth_append)
  have 2: "HasSuccessfulDeliverySignoffAfter ev (int m) ?l2"
    unfolding HasSuccessfulDeliverySignoffAfter_def Let_def
  proof (rule iffD2 [OF list_ex_iff], intro bexI [of _ "Suc ?n"] conjI)
    show "list_ex (\<lambda>command. bashCommandIsVerification (eShell ev) command \<and>
        list_ex (\<lambda>j. provesCommand ev command (receipts ?l2 ! j)) [nat (int m + 1) ..< Suc ?n])
      (completeStepVerificationCommands ev (rcArgs (receipts ?l2 ! Suc ?n)))"
      using p assms(10,11) at s(5) unfolding list_ex_iff [of _ "completeStepVerificationCommands _ _"]
      by (intro bexI [of _ cited]) (simp_all add: nat_add_distrib)
  next
    show "\<not> (0 \<le> int m \<and> \<not> receiptsReviewChanges ev (receipts ?l2) (nat (int m + 1)) (Suc ?n) (int m))"
      using i by (simp add: nat_add_distrib)
  qed (use at s m in auto)
  have 3: "HasSuccessfulVerificationCommand ev ?l2 = HasSuccessfulVerificationCommand ev l"
    using s(3) u(5) assms(6)
    by (simp add: HasSuccessfulVerificationCommand_def anyReceipt_append [OF s(1)] anyReceipt_append [OF u(1)])
  show ?thesis using 1 2 3 by (simp add: Let_def)
qed

text \<open>The edit and the look at the file, the listing, the sign-off.\<close>

definition demo_inspected :: Ledger where
  "demo_inspected = demo_record [(''edit_file'', ''{edit}'', False), (''read_file'', ''{edit}'', True)]"

definition demo_listing :: Receipt where
  "demo_listing = ReceiptFromToolCall demo_ev ''bash'' ''{list}'' True False"

definition demo_signoff :: Receipt where
  "demo_signoff = ReceiptFromToolCall demo_ev ''complete_step'' ''{signoff}'' True False"

theorem signoff_without_verification_witness:
  "HasSuccessfulDeliverySignoffAfter demo_ev 0 demo_list \<and> \<not> HasSuccessfulVerificationCommand demo_ev demo_list"
proof -
  have l: "Record demo_ev demo_signoff (Record demo_ev demo_listing demo_inspected) = demo_list"
    by (simp add: demo_list_def demo_inspected_def demo_signoff_def demo_listing_def demo_record_def)
  have 1: "LatestSuccessfulMutationIndex demo_inspected = Some 0" by code_simp
  have 2: "HasSuccessfulReviewAfter demo_ev 0 demo_inspected" by code_simp
  have 3: "rcSuccess demo_listing" "rcTool demo_listing = ''bash''" "\<not> rcMutation demo_listing"
    "\<not> bashCommandIsVerification (eShell demo_ev) (TrimSpace (rcCommand demo_listing))" by code_simp+
  have 4: "rcSuccess demo_signoff" "rcTool demo_signoff = ''complete_step''" "\<not> rcMutation demo_signoff"
    "''npm test'' \<in> set (completeStepVerificationCommands demo_ev (rcArgs demo_signoff))"
    "bashCommandIsVerification (eShell demo_ev) ''npm test''" by code_simp+
  have 5: "commandSegments (eShell demo_ev) ''npm test'' = [''npm test'']"
    "commandSegments (eShell demo_ev) (TrimSpace (rcCommand demo_listing)) = [''npm ls test'']"
    "segmentTokens (eShell demo_ev) ''npm test'' = [''npm'', ''test'']"
    "segmentTokens (eShell demo_ev) ''npm ls test'' = [''npm'', ''ls'', ''test'']" by code_simp+
  have 6: "set [''test''] \<subseteq> set [''npm'', ''ls'', ''test'']" by simp
  have 7: "\<not> HasSuccessfulVerificationCommand demo_ev demo_inspected" by code_simp
  show ?thesis
    using signoff_without_verification [OF 1 _ 3 4 5 6] 2 7 by (simp add: l Let_def)
qed

section \<open>The properties on the sample session\<close>

theorem HasSuccessfulDeliverySignoffAfter_sound_witness:
  "\<exists>i j c. 0 < int j \<and> j < i \<and> i < length (receipts demo_run) \<and> rcTool (receipts demo_run ! i) = ''complete_step'' \<and>
     CommandMatches (eShell demo_ev) c (rcCommand (receipts demo_run ! j))"
proof -
  have "HasSuccessfulDeliverySignoffAfter demo_ev 0 demo_run" by code_simp
  from HasSuccessfulDeliverySignoffAfter_sound [OF this] show ?thesis by blast
qed

definition demo_failed :: Receipt where
  "demo_failed = ReceiptFromToolCall demo_ev ''bash'' ''{run}'' False False"

theorem failed_receipts_prove_nothing_witness:
  "HasSuccessfulVerificationCommand demo_ev (Record demo_ev demo_failed demo_list) = HasSuccessfulVerificationCommand demo_ev demo_list"
proof -
  have "\<not> rcSuccess demo_failed" by code_simp
  from failed_receipts_prove_nothing [OF this, of demo_ev demo_list] show ?thesis unfolding Let_def by blast
qed

definition demo_edit :: Receipt where
  "demo_edit = ReceiptFromToolCall demo_ev ''edit_file'' ''{edit}'' True False"

theorem mutation_resets_gates_witness:
  "HasSuccessfulDeliverySignoffAfter demo_ev 0 demo_run \<and>
   \<not> HasSuccessfulDeliverySignoffAfter demo_ev (int (length (receipts demo_run))) (Record demo_ev demo_edit demo_run)"
proof -
  have 1: "rcSuccess demo_edit" by code_simp
  have 2: "rcMutation demo_edit" by code_simp
  have 3: "HasSuccessfulDeliverySignoffAfter demo_ev 0 demo_run" by code_simp
  from mutation_resets_gates [OF 1 2, of demo_ev demo_run] 3 show ?thesis unfolding Let_def by blast
qed

definition demo_reviewed :: Ledger where
  "demo_reviewed = demo_record [(''edit_file'', ''{edit}'', False), (''review_report'', ''{report}'', False)]"

definition demo_block :: Receipt where
  "demo_block = ReceiptFromToolCall demo_ev ''review_report'' ''{block}'' True False"

theorem later_blocking_review_ignored_witness:
  "HasSuccessfulStructuredReviewAfter demo_ev ''review'' 0 [''main.go''] (Record demo_ev demo_block demo_reviewed) \<and>
   map_option HasBlockingFinding (ParseReviewReport demo_ev (rcArgs demo_block)) = Some True"
proof
  have "HasSuccessfulStructuredReviewAfter demo_ev ''review'' 0 [''main.go''] demo_reviewed" by code_simp
  from later_blocking_review_ignored [OF this]
  show "HasSuccessfulStructuredReviewAfter demo_ev ''review'' 0 [''main.go''] (Record demo_ev demo_block demo_reviewed)" .
  show "map_option HasBlockingFinding (ParseReviewReport demo_ev (rcArgs demo_block)) = Some True" by code_simp
qed

theorem MergeChild_accounts_witness:
  "\<exists>j. LatestSuccessfulMutationIndex (MergeChild demo_ev [demo_edit] demo_run) = Some j \<and> length (receipts demo_run) \<le> j"
proof -
  have 1: "rcSuccess demo_edit" by code_simp
  have 2: "rcMutation demo_edit" by code_simp
  have 3: "rcTool demo_edit \<notin> {''todo_write'', ''complete_step'', ''ask''}" by code_simp
  have 4: "demo_edit \<in> set [demo_edit]" by simp
  from MergeChild_accounts [of demo_ev "[demo_edit]" demo_run] 1 2 3 4 show ?thesis by blast
qed

definition demo_todo :: "bytes \<Rightarrow> TodoItem" where
  "demo_todo s = \<lparr>tContent = ''fix'', tStatus = s, tActiveForm = [], tLevel = 0\<rparr>"

definition demo_planned :: Ledger where
  "demo_planned = \<lparr>receipts = [(ReceiptFromToolCall demo_ev ''todo_write'' ''{plan}'' True False)
      \<lparr>rcTodos := [demo_todo ''in_progress'']\<rparr>], leases = []\<rparr>"

theorem unsigned_completion_reported_witness:
  "\<exists>m \<in> set (fst (UnverifiedCompletedTodos demo_ev [demo_todo ''completed''] demo_planned)). mIndex m = 1"
proof -
  have 1: "latestTodoWrite demo_planned = Some 0" by code_simp
  have 2: "st (normalizeTodos [demo_todo ''completed''] ! 0) = COMPLETED" by code_simp
  have 3: "\<forall>p \<in> set (rcTodos (receipts demo_planned ! 0)). st p \<noteq> COMPLETED" by code_simp
  have 4: "\<forall>r \<in> set (receipts demo_planned). rcTool r \<noteq> ''complete_step''" by code_simp
  from unsigned_completion_reported [of demo_planned 0 0 "[demo_todo ''completed'']" demo_ev] 1 2 3 4
  show ?thesis by force
qed

end
