(* ===== verification/EvOutcome.thy ===== *)
theory EvOutcome
  imports EvLedger
begin

text \<open>
  The observers of the evidence ledger: the novelty score of a tool round (\<open>internal/evidence/progress.go\<close>),
  its outcome decomposition with the verification debt (\<open>outcome.go\<close>) and the risk class of a change
  (\<open>risk.go\<close>). Go maps that only ever hold \<open>true\<close> are sets.
\<close>

section \<open>Novelty: \<open>progress.go\<close>\<close>

record ProgressTracker =
  pgReadPaths :: "bytes set"
  pgCommandRuns :: "bytes set"
  pgCommandFail :: "bytes set"
  pgActionSigs :: "bytes set"

definition NewProgressTracker :: ProgressTracker where
  "NewProgressTracker = \<lparr>pgReadPaths = {}, pgCommandRuns = {}, pgCommandFail = {}, pgActionSigs = {}\<rparr>"

fun scoreReads :: "ProgressTracker \<Rightarrow> bytes list \<Rightarrow> int \<times> ProgressTracker" where
  "scoreReads t [] = (0, t)"
| "scoreReads t (p # ps) =
     (if p = [] \<or> p \<in> pgReadPaths t then scoreReads t ps
      else let (g, t') = scoreReads (t\<lparr>pgReadPaths := insert p (pgReadPaths t)\<rparr>) ps in (1 + g, t'))"

definition progressCommand :: "ProgressTracker \<Rightarrow> bytes \<Rightarrow> bool \<Rightarrow> int \<times> ProgressTracker" where
  "progressCommand t command success =
     (let seen = (command \<in> pgCommandRuns t); failedBefore = (command \<in> pgCommandFail t);
          t1 = t\<lparr>pgCommandRuns := insert command (pgCommandRuns t)\<rparr> in
      if \<not> success then (if failedBefore then -2 else 2, t1\<lparr>pgCommandFail := insert command (pgCommandFail t1)\<rparr>)
      else (if failedBefore then 2 else if seen then 0 else 1, t1\<lparr>pgCommandFail := pgCommandFail t1 - {command}\<rparr>))"

definition isDelegation :: "Receipt \<Rightarrow> bool" where
  "isDelegation r \<longleftrightarrow> rcTool r \<in> {''task'', ''parallel_tasks'', ''fleet''}"

definition isBookkeeping :: "Receipt \<Rightarrow> bool" where
  "isBookkeeping r \<longleftrightarrow> rcStepProof r \<or> rcTodoStep r \<noteq> None \<or> length (rcTodos r) > 0"

definition actionSig :: "Receipt \<Rightarrow> bytes" where
  "actionSig r = rcTool r @ [CHR 0x00] @ rcArgs r"

definition progressReceipt :: "ProgressTracker \<Rightarrow> Receipt \<Rightarrow> int \<times> ProgressTracker" where
  "progressReceipt t r =
     (let command = TrimSpace (rcCommand r) in
      if command \<noteq> [] then progressCommand t command (rcSuccess r)
      else if rcSuccess r \<and> (rcMutation r \<or> rcWrite r) then (3, t)
      else if rcSuccess r \<and> isDelegation r then (2, t)
      else if rcSuccess r \<and> isBookkeeping r then (1, t)
      else if rcSuccess r \<and> rcRead r \<and> rcOutput r > 0 \<and> length (rcPaths r) > 0 then scoreReads t (rcPaths r)
      else if rcSuccess r then
        (if actionSig r \<in> pgActionSigs t then (0, t)
         else (1, t\<lparr>pgActionSigs := insert (actionSig r) (pgActionSigs t)\<rparr>))
      else (0, t))"

fun progressRound :: "ProgressTracker \<Rightarrow> Receipt list \<Rightarrow> int \<times> ProgressTracker" where
  "progressRound t [] = (0, t)"
| "progressRound t (r # rs) =
     (let (g, t1) = progressReceipt t r; (g', t2) = progressRound t1 rs in (g + g', t2))"

definition ReceiptsSince :: "int \<Rightarrow> Ledger \<Rightarrow> Receipt list" where
  "ReceiptsSince index l = drop (nat index) (receipts l)"

section \<open>Outcomes: \<open>outcome.go\<close>\<close>

record OutcomeSample =
  osRound :: nat
  osExploration :: nat
  osVerification :: nat
  osObjective :: nat
  osRegression :: nat
  osChurn :: nat
  osLegacyGain :: int
  osDiscriminating :: nat
  osDebtAge :: nat
  osBlindMutations :: nat
  osEBMEligible :: bool
  osEBMFired :: bool
  osLocalExecSeen :: bool
  osGovernorEligible :: bool
  osGovernorEngaged :: bool

definition zeroSample :: OutcomeSample where
  "zeroSample = \<lparr>osRound = 0, osExploration = 0, osVerification = 0, osObjective = 0, osRegression = 0, osChurn = 0,
     osLegacyGain = 0, osDiscriminating = 0, osDebtAge = 0, osBlindMutations = 0, osEBMEligible = False,
     osEBMFired = False, osLocalExecSeen = False, osGovernorEligible = False, osGovernorEngaged = False\<rparr>"

record OutcomeTracker =
  otLegacy :: ProgressTracker
  otRound :: nat
  otReadPaths :: "bytes set"
  otCommands :: "bytes set"
  otFailures :: "bytes set"
  otActions :: "bytes set"
  otVerifySeen :: "bytes set"
  otVerifyPass :: "bytes set"
  otMutatedBases :: "bytes set"
  otDebt :: bool
  otDebtAge :: nat
  otBlind :: nat
  otLocalExec :: bool

definition NewOutcomeTracker :: OutcomeTracker where
  "NewOutcomeTracker = \<lparr>otLegacy = NewProgressTracker, otRound = 0, otReadPaths = {}, otCommands = {}, otFailures = {},
     otActions = {}, otVerifySeen = {}, otVerifyPass = {}, otMutatedBases = {}, otDebt = False, otDebtAge = 0,
     otBlind = 0, otLocalExec = False\<rparr>"

record OutcomeSeed =
  sdMutatedBases :: "bytes list"
  sdDebtAge :: nat
  sdBlindMutations :: nat
  sdLocalExecSeen :: bool

definition ForkSeed :: "OutcomeTracker \<Rightarrow> OutcomeSeed" where
  "ForkSeed t = \<lparr>sdMutatedBases = sorted_list_of_set (otMutatedBases t), sdDebtAge = otDebtAge t,
     sdBlindMutations = otBlind t, sdLocalExecSeen = otLocalExec t\<rparr>"

definition RestoreOutcomeTracker :: "OutcomeSeed \<Rightarrow> OutcomeTracker" where
  "RestoreOutcomeTracker seed = NewOutcomeTracker
     \<lparr>otMutatedBases := set (sdMutatedBases seed), otDebtAge := sdDebtAge seed, otBlind := sdBlindMutations seed,
      otDebt := (sdDebtAge seed > 0 \<or> sdBlindMutations seed > 0), otLocalExec := sdLocalExecSeen seed\<rparr>"

definition localExecCommand :: "bytes \<Rightarrow> bool" where
  "localExecCommand command \<longleftrightarrow>
     list_ex (Contains command) [''python'', ''node '', ''go run'', ''pytest'', ''py.test'']"

definition slashed :: "bytes \<Rightarrow> bytes" where
  "slashed p = map (\<lambda>c. if c = BSL then CHR ''/'' else c) p"

definition noteMutatedPaths :: "OutcomeTracker \<Rightarrow> bytes list \<Rightarrow> OutcomeTracker" where
  "noteMutatedPaths t ps =
     t\<lparr>otMutatedBases := otMutatedBases t \<union> set (filter (\<lambda>b. length b \<ge> 3) (map (\<lambda>p. path_Base (slashed p)) ps))\<rparr>"

definition commandExercisesMutation :: "shell \<Rightarrow> OutcomeTracker \<Rightarrow> bytes \<Rightarrow> bool" where
  "commandExercisesMutation sh t command =
     (if CommandIsReadOnly sh command \<noteq> None then False else (\<exists>b \<in> otMutatedBases t. Contains command b))"

text \<open>The steps of \<open>scoreCommand\<close> in their order; \<open>verify\<close> is its local variable.\<close>

type_synonym outcome = "OutcomeTracker \<times> OutcomeSample"

fun churnStep :: "Receipt \<Rightarrow> outcome \<Rightarrow> outcome" where
  "churnStep r (t, s) =
     (if rcSuccess r \<and> (rcMutation r \<or> rcWrite r)
      then (noteMutatedPaths t (rcPaths r), s\<lparr>osChurn := osChurn s + 1\<rparr>) else (t, s))"

fun discriminateStep :: "shell \<Rightarrow> bool \<Rightarrow> bytes \<Rightarrow> outcome \<Rightarrow> outcome" where
  "discriminateStep sh verify command (t, s) =
     (if verify \<or> commandExercisesMutation sh t command then (t, s\<lparr>osDiscriminating := osDiscriminating s + 1\<rparr>) else (t, s))"

fun localExecStep :: "bytes \<Rightarrow> outcome \<Rightarrow> outcome" where
  "localExecStep command (t, s) = (if localExecCommand command then t\<lparr>otLocalExec := True\<rparr> else t, s)"

fun verifyStep :: "bool \<Rightarrow> bytes \<Rightarrow> Receipt \<Rightarrow> outcome \<Rightarrow> outcome" where
  "verifyStep verify command r (t, s) =
     (if verify then
        let seen = (command \<in> otVerifySeen t); wasPass = (command \<in> otVerifyPass t) in
        (t\<lparr>otVerifySeen := insert command (otVerifySeen t),
           otVerifyPass := (if rcSuccess r then insert command (otVerifyPass t) else otVerifyPass t - {command})\<rparr>,
         s\<lparr>osVerification := osVerification s + 1,
           osObjective := osObjective s + (if seen \<and> rcSuccess r \<and> \<not> wasPass then 1 else 0),
           osRegression := osRegression s + (if seen \<and> \<not> rcSuccess r \<and> wasPass then 1 else 0)\<rparr>)
      else (t, s))"

fun runStep :: "bool \<Rightarrow> bytes \<Rightarrow> Receipt \<Rightarrow> outcome \<Rightarrow> outcome" where
  "runStep verify command r (t, s) =
     (if rcSuccess r then
        (t\<lparr>otCommands := insert command (otCommands t)\<rparr>,
         if \<not> verify \<and> command \<notin> otCommands t then s\<lparr>osExploration := osExploration s + 1\<rparr> else s)
      else if command \<notin> otFailures t then
        (t\<lparr>otFailures := insert command (otFailures t)\<rparr>, s\<lparr>osExploration := osExploration s + 1\<rparr>)
      else (t, s))"

definition outcomeCommand :: "shell \<Rightarrow> bytes \<Rightarrow> Receipt \<Rightarrow> outcome \<Rightarrow> outcome" where
  "outcomeCommand sh command r ts =
     (let verify = IsDeliveryVerificationCommand sh command in
      runStep verify command r (verifyStep verify command r
        (localExecStep command (discriminateStep sh verify command (churnStep r ts)))))"

fun outcomeReads :: "bytes list \<Rightarrow> outcome \<Rightarrow> outcome" where
  "outcomeReads [] ts = ts"
| "outcomeReads (p # ps) (t, s) =
     (if p = [] \<or> p \<in> otReadPaths t then outcomeReads ps (t, s)
      else outcomeReads ps (t\<lparr>otReadPaths := insert p (otReadPaths t)\<rparr>, s\<lparr>osExploration := osExploration s + 1\<rparr>))"

definition outcomeReceipt :: "shell \<Rightarrow> outcome \<Rightarrow> Receipt \<Rightarrow> outcome" where
  "outcomeReceipt sh ts r =
     (let (t, s) = ts; command = TrimSpace (rcCommand r) in
      if command \<noteq> [] then outcomeCommand sh command r (t, s)
      else if rcSuccess r \<and> (rcMutation r \<or> rcWrite r) then
        (noteMutatedPaths t (rcPaths r), s\<lparr>osChurn := osChurn s + 1\<rparr>)
      else if rcSuccess r \<and> isDelegation r then (t, s\<lparr>osExploration := osExploration s + 1\<rparr>)
      else if rcSuccess r \<and> isBookkeeping r then (t, s)
      else if rcSuccess r \<and> rcRead r \<and> rcOutput r > 0 \<and> length (rcPaths r) > 0 then outcomeReads (rcPaths r) (t, s)
      else if rcSuccess r then
        (if actionSig r \<in> otActions t then (t, s)
         else (t\<lparr>otActions := insert (actionSig r) (otActions t)\<rparr>, s\<lparr>osExploration := osExploration s + 1\<rparr>))
      else (t, s))"

text \<open>The debt: a discriminating observation settles it, otherwise a mutation opens it and every round ages it.\<close>

definition settleDebt :: "OutcomeSample \<Rightarrow> OutcomeTracker \<Rightarrow> OutcomeTracker" where
  "settleDebt s t =
     (if osDiscriminating s > 0 then t\<lparr>otDebt := False, otDebtAge := 0, otBlind := 0\<rparr>
      else let t1 = (if osChurn s > 0 then t\<lparr>otDebt := True, otBlind := otBlind t + osChurn s\<rparr> else t)
           in if otDebt t1 then t1\<lparr>otDebtAge := otDebtAge t1 + 1\<rparr> else t1)"

definition ScoreRound :: "shell \<Rightarrow> OutcomeTracker \<Rightarrow> Receipt list \<Rightarrow> OutcomeTracker \<times> OutcomeSample" where
  "ScoreRound sh t0 rs =
     (let t1 = t0\<lparr>otRound := otRound t0 + 1\<rparr>;
          (t2, s) = foldl (outcomeReceipt sh) (t1, zeroSample\<lparr>osRound := otRound t1\<rparr>) rs;
          (g, legacy) = progressRound (otLegacy t2) rs;
          t3 = settleDebt s (t2\<lparr>otLegacy := legacy\<rparr>)
      in (t3, s\<lparr>osLegacyGain := g, osDebtAge := otDebtAge t3, osBlindMutations := otBlind t3,
                osLocalExecSeen := otLocalExec t3\<rparr>))"

section \<open>Risk: \<open>risk.go\<close>\<close>

datatype RiskLevel = RiskLow | RiskMedium | RiskHigh

definition highRiskPathHints :: "bytes list" where
  "highRiskPathHints =
    [''auth'', ''permission'', ''secret'', ''credential'', ''token'', ''password'', ''oauth'',
     ''crypto'', ''encrypt'', ''decrypt'', ''tls'', ''ssl'', ''keyring'',
     ''network'', ''proxy'', ''http'', ''websocket'', ''provider'',
     ''plugin'', ''mcp'', ''tool'', ''schema'', ''sandbox'',
     ''config'', ''migrate'', ''migration'', ''persist'', ''store'', ''database'', ''db'',
     ''concurrent'', ''mutex'', ''race'', ''lock'', ''atomic'']"

definition highRiskToolHints :: "bytes list" where
  "highRiskToolHints = [''mcp__'', ''install_source'', ''install_skill'', ''plugin'']"

text \<open>On a system whose separator is the slash, \<open>filepath.ToSlash\<close> is the identity.\<close>

definition pathLooksHighRisk :: "bytes \<Rightarrow> bool" where
  "pathLooksHighRisk p \<longleftrightarrow>
     list_ex (\<lambda>hint. Contains (ToLower p) hint \<or> Contains (ToLower (path_Base p)) hint) highRiskPathHints"

definition pathLooksLowRisk :: "bytes \<Rightarrow> bool" where
  "pathLooksLowRisk p =
     (let lower = ToLower p; base = path_Base lower in
      list_ex (HasSuffix lower) [''_test.go'', ''_test.ts'', ''.test.ts'', ''.test.tsx'', ''_spec.ts'', ''.spec.ts''] \<or>
      list_ex (Contains lower) [''/testdata/'', ''/__tests__/'', ''/fixtures/''] \<or>
      list_ex (HasSuffix base) [''.md'', ''.mdx'', ''.txt'', ''.rst''] \<or>
      list_ex (Contains lower) [''/docs/'', ''/locales/'', ''/i18n/''] \<or> HasPrefix base ''readme'' \<or>
      (HasSuffix base ''.css'' \<and> \<not> Contains lower ''sandbox''))"

definition toolLooksHighRisk :: "bytes \<Rightarrow> bool" where
  "toolLooksHighRisk name \<longleftrightarrow> list_ex (Contains (ToLower (TrimSpace name))) highRiskToolHints"

definition addNew :: "bytes list \<Rightarrow> bytes list \<Rightarrow> bytes list" where
  "addNew ps qs = foldl (\<lambda>acc p. if p \<in> set acc then acc else acc @ [p]) ps qs"

text \<open>The loop over the later receipts: \<open>None\<close> is the early return of \<open>RiskHigh\<close>.\<close>

fun riskLoop :: "Receipt list \<Rightarrow> bool \<times> bytes list \<Rightarrow> (bool \<times> bytes list) option" where
  "riskLoop [] a = Some a"
| "riskLoop (r # rs) (opaque, ps) =
     (if \<not> rcSuccess r \<or> \<not> rcMutation r then riskLoop rs (opaque, ps)
      else if toolLooksHighRisk (rcTool r) then None
      else riskLoop rs (opaque \<or> rcPaths r = [], addNew ps (rcPaths r)))"

definition pathsRisk :: "bytes list \<Rightarrow> RiskLevel" where
  "pathsRisk ps =
     (if ps = [] then RiskLow else if length ps \<ge> 10 then RiskHigh
      else if list_ex pathLooksHighRisk ps then RiskHigh
      else if list_all pathLooksLowRisk ps then RiskLow else RiskMedium)"

definition ClassifyMutationRisk :: "Receipt list \<Rightarrow> int \<Rightarrow> RiskLevel" where
  "ClassifyMutationRisk rs after =
     (let own = (if after \<ge> 0 \<and> after < int (length rs) then [rs ! nat after] else []) in
      case riskLoop own (False, []) of
        None \<Rightarrow> RiskHigh
      | Some a \<Rightarrow>
          (case riskLoop (drop (nat (after + 1)) rs) a of
             None \<Rightarrow> RiskHigh
           | Some (opaque, ps) \<Rightarrow> if opaque then RiskHigh else pathsRisk ps))"

definition MutationRiskAfter :: "int \<Rightarrow> Ledger \<Rightarrow> RiskLevel" where
  "MutationRiskAfter after l = ClassifyMutationRisk (receipts l) after"

definition PathsSince :: "int \<Rightarrow> Ledger \<Rightarrow> bytes list" where
  "PathsSince after l =
     addNew [] (filter (\<lambda>p. p \<noteq> [])
       (concat (map rcPaths (filter (\<lambda>r. rcSuccess r \<and> (rcMutation r \<or> rcWrite r)) (drop (nat after) (receipts l))))))"

section \<open>The verification debt\<close>

fun scoreRounds :: "shell \<Rightarrow> OutcomeTracker \<Rightarrow> Receipt list list \<Rightarrow> OutcomeTracker \<times> OutcomeSample list" where
  "scoreRounds sh t [] = (t, [])"
| "scoreRounds sh t (rs # rss) =
     (let (t1, s) = ScoreRound sh t rs; (t2, ss) = scoreRounds sh t1 rss in (t2, s # ss))"

lemma scoreRounds_snoc:
  "scoreRounds sh t (rss @ [rs]) =
     (let (t1, ss) = scoreRounds sh t rss; (t2, s) = ScoreRound sh t1 rs in (t2, ss @ [s]))"
  by (induction rss arbitrary: t) (auto split: prod.splits)

text \<open>What a receipt cannot touch: the debt. What it can only add to: the names of mutated files.\<close>

definition same_debt :: "OutcomeTracker \<Rightarrow> OutcomeTracker \<Rightarrow> bool" where
  "same_debt t t' \<longleftrightarrow> otDebt t' = otDebt t \<and> otDebtAge t' = otDebtAge t \<and> otBlind t' = otBlind t \<and>
     (finite (otMutatedBases t) \<longrightarrow> finite (otMutatedBases t'))"

lemma same_debt_trans: "same_debt t1 t2 \<Longrightarrow> same_debt t2 t3 \<Longrightarrow> same_debt t1 t3"
  by (simp add: same_debt_def)

lemma outcomeReads_debt: "same_debt t (fst (outcomeReads ps (t, s)))"
proof (induction ps arbitrary: t s)
  case (Cons p ps)
  then show ?case
    using Cons [of "t\<lparr>otReadPaths := insert p (otReadPaths t)\<rparr>"] by (auto simp: same_debt_def)
qed (simp add: same_debt_def)

lemma step_debt:
  "same_debt (fst a) (fst (churnStep r a))" "same_debt (fst a) (fst (discriminateStep sh v c a))"
  "same_debt (fst a) (fst (localExecStep c a))" "same_debt (fst a) (fst (verifyStep v c r a))"
  "same_debt (fst a) (fst (runStep v c r a))"
  by (cases a; simp add: same_debt_def noteMutatedPaths_def Let_def)+

lemma outcomeCommand_debt: "same_debt (fst a) (fst (outcomeCommand sh c r a))"
  unfolding outcomeCommand_def Let_def
  by (rule same_debt_trans [OF _ step_debt(5)], rule same_debt_trans [OF _ step_debt(4)],
      rule same_debt_trans [OF _ step_debt(3)], rule same_debt_trans [OF step_debt(1) step_debt(2)])

lemma outcomeReceipt_debt: "same_debt t (fst (outcomeReceipt sh (t, s) r))"
  using outcomeReads_debt [of t "rcPaths r" s] outcomeCommand_debt [of "(t, s)" sh _ r]
  by (auto simp: outcomeReceipt_def noteMutatedPaths_def same_debt_def Let_def)

lemma foldl_debt: "same_debt t (fst (foldl (outcomeReceipt sh) (t, s) rs))"
proof (induction rs arbitrary: t s)
  case (Cons r rs)
  obtain t1 s1 where e: "outcomeReceipt sh (t, s) r = (t1, s1)" by (cases "outcomeReceipt sh (t, s) r")
  show ?case using outcomeReceipt_debt [of t sh s r] Cons [of t1 s1] by (simp add: e) (metis same_debt_trans)
qed (simp add: same_debt_def)

lemma ScoreRound_debt:
  assumes "ScoreRound sh t rs = (t', s)"
  shows "otDebt t' = (osDiscriminating s = 0 \<and> (osChurn s > 0 \<or> otDebt t)) \<and>
    otBlind t' = (if osDiscriminating s > 0 then 0 else otBlind t + osChurn s) \<and>
    otDebtAge t' = (if osDiscriminating s > 0 then 0 else if osChurn s > 0 \<or> otDebt t then otDebtAge t + 1 else otDebtAge t) \<and>
    osDebtAge s = otDebtAge t' \<and> osBlindMutations s = otBlind t' \<and> osLocalExecSeen s = otLocalExec t' \<and>
    (finite (otMutatedBases t) \<longrightarrow> finite (otMutatedBases t'))"
proof -
  let ?t = "t\<lparr>otRound := otRound t + 1\<rparr>"
  obtain t2 s2 where f: "foldl (outcomeReceipt sh) (?t, zeroSample\<lparr>osRound := otRound ?t\<rparr>) rs = (t2, s2)" by fastforce
  have "same_debt ?t t2" using foldl_debt [of ?t sh _ rs] f by (metis fst_conv)
  then have "same_debt t t2" by (simp add: same_debt_def)
  moreover obtain g l where l: "progressRound (otLegacy t2) rs = (g, l)" by fastforce
  have "t' = settleDebt s2 (t2\<lparr>otLegacy := l\<rparr>)" "osDiscriminating s = osDiscriminating s2" "osChurn s = osChurn s2"
    "osDebtAge s = otDebtAge t'" "osBlindMutations s = otBlind t'" "osLocalExecSeen s = otLocalExec t'"
    using assms f by (auto simp: ScoreRound_def Let_def l)
  ultimately show ?thesis by (simp add: settleDebt_def same_debt_def Let_def)
qed

text \<open>The rounds since the last discriminating observation.\<close>

definition openRounds :: "OutcomeSample list \<Rightarrow> OutcomeSample list" where
  "openRounds ss = rev (takeWhile (\<lambda>s. osDiscriminating s = 0) (rev ss))"

lemma openRounds_snoc:
  "openRounds (ss @ [s]) = (if osDiscriminating s = 0 then openRounds ss @ [s] else [])"
  by (simp add: openRounds_def)

lemma dropWhile_snoc: "dropWhile P (xs @ [x]) = (if dropWhile P xs = [] then (if P x then [] else [x]) else dropWhile P xs @ [x])"
  by (induction xs) auto

lemma debt_lemma:
  assumes "scoreRounds sh NewOutcomeTracker rss = (t, ss)"
  shows "otBlind t = sum_list (map osChurn (openRounds ss)) \<and>
    otDebtAge t = length (dropWhile (\<lambda>s. osChurn s = 0) (openRounds ss)) \<and>
    otDebt t = (dropWhile (\<lambda>s. osChurn s = 0) (openRounds ss) \<noteq> []) \<and> finite (otMutatedBases t)"
  using assms
proof (induction rss arbitrary: t ss rule: rev_induct)
  case Nil
  then show ?case by (auto simp: NewOutcomeTracker_def openRounds_def)
next
  case (snoc rs rss)
  obtain t1 ss1 where 1: "scoreRounds sh NewOutcomeTracker rss = (t1, ss1)" by fastforce
  obtain t2 s where 2: "ScoreRound sh t1 rs = (t2, s)" by fastforce
  have e: "t = t2" "ss = ss1 @ [s]" using snoc.prems by (simp_all add: scoreRounds_snoc 1 2)
  show ?case
    using snoc.IH [OF 1] ScoreRound_debt [OF 2]
    by (simp add: e openRounds_snoc dropWhile_snoc) (auto split: if_splits)
qed

text \<open>
  The verification debt is what it says. Whatever rounds a tracker has scored, its count of blind mutations
  is the number of mutations since the last discriminating round, its age the number of rounds since the
  first of them, and the debt is open exactly when there was one.
\<close>

theorem debt_accounting:
  "case scoreRounds sh NewOutcomeTracker rss of (t, ss) \<Rightarrow>
     otBlind t = sum_list (map osChurn (openRounds ss)) \<and>
     otDebtAge t = length (dropWhile (\<lambda>s. osChurn s = 0) (openRounds ss)) \<and>
     otDebt t = (otDebtAge t > 0)"
  using debt_lemma [of sh rss] by (auto split: prod.split)

section \<open>Forks\<close>

text \<open>What a fork inherits, and what of a sample depends on nothing else.\<close>

definition same_seed :: "OutcomeTracker \<Rightarrow> OutcomeTracker \<Rightarrow> bool" where
  "same_seed t t' \<longleftrightarrow> otMutatedBases t = otMutatedBases t' \<and> otDebt t = otDebt t' \<and> otDebtAge t = otDebtAge t' \<and>
     otBlind t = otBlind t' \<and> otLocalExec t = otLocalExec t'"

definition shadow :: "OutcomeSample \<Rightarrow> nat \<times> nat \<times> nat \<times> nat \<times> nat \<times> bool" where
  "shadow s = (osVerification s, osChurn s, osDiscriminating s, osDebtAge s, osBlindMutations s, osLocalExecSeen s)"

definition fork_sim :: "OutcomeTracker \<times> OutcomeSample \<Rightarrow> OutcomeTracker \<times> OutcomeSample \<Rightarrow> bool" where
  "fork_sim a b \<longleftrightarrow> same_seed (fst a) (fst b) \<and> shadow (snd a) = shadow (snd b)"

lemma outcomeReads_seed: "same_seed t (fst (outcomeReads ps (t, s))) \<and> shadow (snd (outcomeReads ps (t, s))) = shadow s"
proof (induction ps arbitrary: t s)
  case (Cons p ps)
  then show ?case
    using Cons [of "t\<lparr>otReadPaths := insert p (otReadPaths t)\<rparr>" "s\<lparr>osExploration := osExploration s + 1\<rparr>"]
    by (auto simp: same_seed_def shadow_def)
qed (simp add: same_seed_def)

lemma step_sim:
  "fork_sim a b \<Longrightarrow> fork_sim (churnStep r a) (churnStep r b)"
  "fork_sim a b \<Longrightarrow> fork_sim (discriminateStep sh v c a) (discriminateStep sh v c b)"
  "fork_sim a b \<Longrightarrow> fork_sim (localExecStep c a) (localExecStep c b)"
  "fork_sim a b \<Longrightarrow> fork_sim (verifyStep v c r a) (verifyStep v c r b)"
  "fork_sim a b \<Longrightarrow> fork_sim (runStep v c r a) (runStep v c r b)"
  by (cases a; cases b;
      simp add: fork_sim_def same_seed_def shadow_def noteMutatedPaths_def commandExercisesMutation_def Let_def)+

lemma outcomeCommand_sim: "fork_sim a b \<Longrightarrow> fork_sim (outcomeCommand sh c r a) (outcomeCommand sh c r b)"
  unfolding outcomeCommand_def Let_def by (intro step_sim)

lemma outcomeReceipt_sim:
  assumes "fork_sim (t, s) (t', s')"
  shows "fork_sim (outcomeReceipt sh (t, s) r) (outcomeReceipt sh (t', s') r)"
proof -
  have "fork_sim (outcomeReads (rcPaths r) (t, s)) (outcomeReads (rcPaths r) (t', s'))"
    using assms outcomeReads_seed [of t "rcPaths r" s] outcomeReads_seed [of t' "rcPaths r" s']
    by (auto simp: fork_sim_def same_seed_def)
  moreover have "fork_sim (noteMutatedPaths t (rcPaths r), s\<lparr>osChurn := osChurn s + 1\<rparr>)
      (noteMutatedPaths t' (rcPaths r), s'\<lparr>osChurn := osChurn s' + 1\<rparr>)"
    using assms by (auto simp: fork_sim_def same_seed_def shadow_def noteMutatedPaths_def)
  moreover have "fork_sim (t\<lparr>otActions := A\<rparr>, s\<lparr>osExploration := e\<rparr>) (t', s')" "fork_sim (t, s) (t'\<lparr>otActions := A'\<rparr>, s'\<lparr>osExploration := e'\<rparr>)"
    "fork_sim (t\<lparr>otActions := A\<rparr>, s\<lparr>osExploration := e\<rparr>) (t'\<lparr>otActions := A'\<rparr>, s'\<lparr>osExploration := e'\<rparr>)"
    "fork_sim (t, s\<lparr>osExploration := e\<rparr>) (t', s'\<lparr>osExploration := e'\<rparr>)" for A A' e e'
    using assms by (auto simp: fork_sim_def same_seed_def shadow_def)
  ultimately show ?thesis
    using assms outcomeCommand_sim [OF assms]
    unfolding outcomeReceipt_def Let_def prod.case by (auto simp del: split_paired_All)
qed

lemma foldl_sim: "fork_sim a b \<Longrightarrow> fork_sim (foldl (outcomeReceipt sh) a rs) (foldl (outcomeReceipt sh) b rs)"
proof (induction rs arbitrary: a b)
  case (Cons r rs)
  then show ?case using outcomeReceipt_sim [of "fst a" "snd a" "fst b" "snd b"] by simp
qed simp

lemma ScoreRound_sim:
  assumes "same_seed t t'"
  shows "fork_sim (ScoreRound sh t rs) (ScoreRound sh t' rs)"
proof -
  have "fork_sim (t\<lparr>otRound := otRound t + 1\<rparr>, zeroSample\<lparr>osRound := otRound t + 1\<rparr>)
      (t'\<lparr>otRound := otRound t' + 1\<rparr>, zeroSample\<lparr>osRound := otRound t' + 1\<rparr>)"
    using assms by (simp add: fork_sim_def same_seed_def shadow_def)
  from foldl_sim [OF this, of sh rs] obtain u p u' p' where
    1: "foldl (outcomeReceipt sh) (t\<lparr>otRound := otRound t + 1\<rparr>, zeroSample\<lparr>osRound := otRound t + 1\<rparr>) rs = (u, p)"
    and 2: "foldl (outcomeReceipt sh) (t'\<lparr>otRound := otRound t' + 1\<rparr>, zeroSample\<lparr>osRound := otRound t' + 1\<rparr>) rs = (u', p')"
    and "fork_sim (u, p) (u', p')" by (metis surj_pair)
  then have "same_seed (settleDebt p (u\<lparr>otLegacy := l\<rparr>)) (settleDebt p' (u'\<lparr>otLegacy := l'\<rparr>))" and "shadow p = shadow p'" for l l'
    by (auto simp: fork_sim_def same_seed_def shadow_def settleDebt_def Let_def)
  then show ?thesis
    by (simp add: ScoreRound_def Let_def 1 [simplified] 2 [simplified] fork_sim_def split: prod.split)
      (auto simp: same_seed_def shadow_def)
qed

lemma scoreRounds_sim:
  "same_seed t t' \<Longrightarrow> map shadow (snd (scoreRounds sh t rss)) = map shadow (snd (scoreRounds sh t' rss))"
proof (induction rss arbitrary: t t')
  case (Cons rs rss)
  obtain u p where 1: "ScoreRound sh t rs = (u, p)" by fastforce
  obtain u' p' where 2: "ScoreRound sh t' rs = (u', p')" by fastforce
  have "same_seed u u'" "shadow p = shadow p'" using ScoreRound_sim [OF Cons.prems, of sh rs] by (simp_all add: 1 2 fork_sim_def)
  then show ?case using Cons.IH [of u u'] by (simp add: 1 2 split: prod.split) (metis snd_conv)
qed simp

lemma Restore_ForkSeed:
  assumes "scoreRounds sh NewOutcomeTracker rss = (t, ss)"
  shows "same_seed (RestoreOutcomeTracker (ForkSeed t)) t"
proof -
  have "sum_list (map osChurn xs) = 0" if "dropWhile (\<lambda>s. osChurn s = 0) xs = []" for xs
    using that by (induction xs) (auto split: if_splits)
  then have "otBlind t > 0 \<Longrightarrow> otDebtAge t > 0" using debt_lemma [OF assms] by (metis length_0_conv not_gr_zero)
  then show ?thesis using debt_lemma [OF assms]
    by (auto simp: same_seed_def RestoreOutcomeTracker_def ForkSeed_def NewOutcomeTracker_def)
qed

text \<open>
  A fork continues the shadow of the original. Whatever rounds a tracker has scored, one restored from its
  seed gives for any further rounds the same verification, churn, discriminating, debt, blind-mutation and
  local-execution values as the original would have given.
\<close>

theorem fork_continues:
  "let t = fst (scoreRounds sh NewOutcomeTracker rss); fork = RestoreOutcomeTracker (ForkSeed t) in
   map shadow (snd (scoreRounds sh fork later)) = map shadow (snd (scoreRounds sh t later))"
proof -
  obtain t ss where e: "scoreRounds sh NewOutcomeTracker rss = (t, ss)" by fastforce
  show ?thesis using scoreRounds_sim [OF Restore_ForkSeed [OF e]] by (simp add: e Let_def)
qed

section \<open>The risk of a change\<close>

instantiation RiskLevel :: linorder
begin

fun risk_rank :: "RiskLevel \<Rightarrow> nat" where
  "risk_rank RiskLow = 0"
| "risk_rank RiskMedium = 1"
| "risk_rank RiskHigh = 2"

definition less_eq_RiskLevel :: "RiskLevel \<Rightarrow> RiskLevel \<Rightarrow> bool" where
  "less_eq_RiskLevel a b \<longleftrightarrow> risk_rank a \<le> risk_rank b"

definition less_RiskLevel :: "RiskLevel \<Rightarrow> RiskLevel \<Rightarrow> bool" where
  "less_RiskLevel a b \<longleftrightarrow> risk_rank a < risk_rank b"

instance
proof
  fix x y z :: RiskLevel
  show "x < y \<longleftrightarrow> x \<le> y \<and> \<not> y \<le> x" by (auto simp: less_eq_RiskLevel_def less_RiskLevel_def)
  show "x \<le> x" by (simp add: less_eq_RiskLevel_def)
  show "x \<le> y \<Longrightarrow> y \<le> z \<Longrightarrow> x \<le> z" by (simp add: less_eq_RiskLevel_def)
  show "x \<le> y \<Longrightarrow> y \<le> x \<Longrightarrow> x = y" by (cases x; cases y) (simp_all add: less_eq_RiskLevel_def)
  show "x \<le> y \<or> y \<le> x" by (auto simp: less_eq_RiskLevel_def)
qed

end

lemma le_RiskHigh [simp]: "r \<le> RiskHigh" by (cases r) (simp_all add: less_eq_RiskLevel_def)
lemma RiskLow_le [simp]: "RiskLow \<le> r" by (cases r) (simp_all add: less_eq_RiskLevel_def)

lemma addNew_set: "set (addNew ps qs) = set ps \<union> set qs"
  by (induction qs arbitrary: ps) (auto simp: addNew_def)

lemma addNew_distinct: "distinct ps \<Longrightarrow> distinct (addNew ps qs)"
  by (induction qs arbitrary: ps) (auto simp: addNew_def)

definition mutations :: "Receipt list \<Rightarrow> Receipt list" where
  "mutations rs = filter (\<lambda>r. rcSuccess r \<and> rcMutation r) rs"

lemma riskLoop_spec:
  "riskLoop rs (opaque, ps) =
     (if \<exists>r \<in> set (mutations rs). toolLooksHighRisk (rcTool r) then None
      else Some (opaque \<or> (\<exists>r \<in> set (mutations rs). rcPaths r = []), addNew ps (concat (map rcPaths (mutations rs)))))"
  by (induction rs "(opaque, ps)" arbitrary: opaque ps rule: riskLoop.induct)
    (auto simp: mutations_def addNew_def)

lemma riskLoop_append:
  "riskLoop (xs @ ys) a = (case riskLoop xs a of None \<Rightarrow> None | Some b \<Rightarrow> riskLoop ys b)"
  by (induction xs a rule: riskLoop.induct) auto

lemma own_drop:
  "(if after \<ge> 0 \<and> after < int (length rs) then [rs ! nat after] else []) @ drop (nat (after + 1)) rs = drop (nat after) rs"
proof (cases "after \<ge> 0 \<and> after < int (length rs)")
  case True
  then have "nat after < length rs" "nat (after + 1) = Suc (nat after)" by auto
  then show ?thesis using True by (simp add: Cons_nth_drop_Suc)
next
  case False
  then show ?thesis by (cases "after < 0") auto
qed

lemma ClassifyMutationRisk_spec:
  "ClassifyMutationRisk rs after =
     (let ms = mutations (drop (nat after) rs) in
      if (\<exists>r \<in> set ms. toolLooksHighRisk (rcTool r)) \<or> (\<exists>r \<in> set ms. rcPaths r = []) then RiskHigh
      else pathsRisk (addNew [] (concat (map rcPaths ms))))"
proof -
  have "ClassifyMutationRisk rs after =
    (case riskLoop (drop (nat after) rs) (False, []) of None \<Rightarrow> RiskHigh
     | Some (opaque, ps) \<Rightarrow> if opaque then RiskHigh else pathsRisk ps)"
    unfolding own_drop [symmetric, of after rs] riskLoop_append
    by (simp add: ClassifyMutationRisk_def Let_def split: option.splits)
  then show ?thesis by (simp add: riskLoop_spec Let_def)
qed

lemma pathsRisk_mono:
  assumes "distinct ps" "distinct qs" "set ps \<subseteq> set qs"
  shows "pathsRisk ps \<le> pathsRisk qs"
proof -
  have "length ps \<le> length qs" using assms by (metis List.finite_set card_mono distinct_card)
  then show ?thesis using assms(3) by (fastforce simp: pathsRisk_def list_ex_iff list_all_iff)
qed

text \<open>
  The risk of a change never falls as the turn goes on: a receipt recorded later can only raise the class
  that decides whether a review is required.
\<close>

theorem risk_never_falls: "ClassifyMutationRisk rs after \<le> ClassifyMutationRisk (rs @ later) after"
proof -
  let ?ms = "\<lambda>rs. mutations (drop (nat after) rs)"
  have sub: "set (?ms rs) \<subseteq> set (?ms (rs @ later))" by (auto simp: mutations_def)
  have "pathsRisk (addNew [] (concat (map rcPaths (?ms rs)))) \<le> pathsRisk (addNew [] (concat (map rcPaths (?ms (rs @ later)))))"
    by (rule pathsRisk_mono) (use sub in \<open>auto simp: addNew_distinct addNew_set\<close>)
  then show ?thesis using sub unfolding ClassifyMutationRisk_spec Let_def by auto
qed

end
