(* ===== verification/TaskContract.thy ===== *)
theory TaskContract
  imports EvOutcome
begin

text \<open>
  The task contract of \<open>internal/taskcontract/taskcontract.go\<close> and its use by \<open>internal/agent/contract_shadow.go\<close>:
  requirements and checks, the receipts that prove them, and the answers the arbiters of termination read
  from it. The epoch is a \<open>uint64\<close>. The classification of a prompt (\<open>internal/taskintent\<close>) is an argument.
\<close>

section \<open>Data\<close>

datatype Risk = CtLow | CtMedium | CtHigh

datatype Status = Pending | Satisfied | Failed | Stale

datatype EvidenceKind = EvidenceRead | EvidenceMutation | EvidenceVerification | EvidenceReview

datatype Intent = Conversation | Advisory | ObservableRead | Mutation | PersistentAction

type_synonym epoch = "64 word"

record EvidenceRef =
  erKind :: EvidenceKind
  erEpoch :: epoch
  erSource :: bytes
  erSuccess :: bool

record Requirement =
  rqID :: bytes
  rqKind :: bytes
  rqText :: bytes
  rqRequired :: bool
  rqStatus :: Status
  rqEvidence :: "EvidenceRef list"
  rqAuto :: bool
  rqAutoKind :: EvidenceKind

datatype CheckKind = CheckCommand | CheckMutation

record CtCheck =
  ckKind :: CheckKind
  ckCommand :: bytes
  ckStatus :: Status
  ckEvidence :: "EvidenceRef list"

record CtScope =
  scAnchored :: bool
  scMultiFile :: bool
  scCrossSurface :: bool
  scPaths :: "bytes list"

record CtSignals =
  sgHighRisk :: bool
  sgMediumRisk :: bool
  sgAnchored :: bool
  sgMultiFile :: bool
  sgCrossSurface :: bool
  sgPaths :: "bytes list"

record Contract =
  ctIntent :: Intent
  ctRisk :: Risk
  ctScope :: CtScope
  ctRequirements :: "Requirement list"
  ctChecks :: "CtCheck list"
  ctEpoch :: epoch

section \<open>Construction\<close>

definition newRequirement :: "bytes \<Rightarrow> bytes \<Rightarrow> bytes \<Rightarrow> bool \<Rightarrow> Requirement" where
  "newRequirement rid kind txt required =
     \<lparr>rqID = rid, rqKind = kind, rqText = txt, rqRequired = required, rqStatus = Pending, rqEvidence = [],
      rqAuto = False, rqAutoKind = EvidenceRead\<rparr>"

definition newCheck :: "CheckKind \<Rightarrow> bytes \<Rightarrow> CtCheck" where
  "newCheck kind command = \<lparr>ckKind = kind, ckCommand = command, ckStatus = Pending, ckEvidence = []\<rparr>"

definition NewContract :: "(bytes \<Rightarrow> Intent) \<Rightarrow> bytes \<Rightarrow> Contract" where
  "NewContract classify input =
     \<lparr>ctIntent = classify input, ctRisk = CtLow,
      ctScope = \<lparr>scAnchored = False, scMultiFile = False, scCrossSurface = False, scPaths = []\<rparr>,
      ctRequirements = [], ctChecks = [], ctEpoch = 0\<rparr>"

definition Atomic :: "(bytes \<Rightarrow> Intent) \<Rightarrow> bytes \<Rightarrow> Contract" where
  "Atomic classify input =
     (let c = NewContract classify input in
      c\<lparr>ctRequirements := ctRequirements c @ [(newRequirement ''r1'' [] input True)\<lparr>rqAuto := True, rqAutoKind := EvidenceMutation\<rparr>],
        ctChecks := ctChecks c @ [newCheck CheckMutation []]\<rparr>)"

text \<open>\<open>AddRequirement\<close>: the first requirement with the id is updated.\<close>

fun updateRequirement :: "bytes \<Rightarrow> (Requirement \<Rightarrow> Requirement) \<Rightarrow> Requirement list \<Rightarrow> Requirement list option" where
  "updateRequirement rid f [] = None"
| "updateRequirement rid f (q # qs) =
     (if rqID q = rid then Some (f q # qs) else map_option ((#) q) (updateRequirement rid f qs))"

definition AddRequirement :: "bytes \<Rightarrow> bytes \<Rightarrow> bool \<Rightarrow> Contract \<Rightarrow> Contract" where
  "AddRequirement rid txt required c =
     (case updateRequirement rid (\<lambda>q. q\<lparr>rqText := txt, rqRequired := required\<rparr>) (ctRequirements c) of
        Some qs \<Rightarrow> c\<lparr>ctRequirements := qs\<rparr>
      | None \<Rightarrow> c\<lparr>ctRequirements := ctRequirements c @ [newRequirement rid [] txt required]\<rparr>)"

definition AddCheck :: "bytes \<Rightarrow> Contract \<Rightarrow> Contract" where
  "AddCheck command c =
     (if list_ex (\<lambda>k. ckCommand k = command) (ctChecks c) then c
      else c\<lparr>ctChecks := ctChecks c @ [newCheck CheckCommand command]\<rparr>)"

definition appendNew :: "bytes list \<Rightarrow> bytes list \<Rightarrow> bytes list" where
  "appendNew dst add = foldl (\<lambda>acc p. if p \<in> set acc then acc else acc @ [p]) dst add"

definition MergeSignals :: "CtSignals \<Rightarrow> Contract \<Rightarrow> Contract" where
  "MergeSignals s c =
     (let sc = ctScope c in
      c\<lparr>ctRisk := (if sgHighRisk s then CtHigh else if sgMediumRisk s \<and> ctRisk c = CtLow then CtMedium else ctRisk c),
        ctScope := \<lparr>scAnchored = scAnchored sc \<or> sgAnchored s, scMultiFile = scMultiFile sc \<or> sgMultiFile s,
                    scCrossSurface = scCrossSurface sc \<or> sgCrossSurface s, scPaths = appendNew (scPaths sc) (sgPaths s)\<rparr>\<rparr>)"

record PlanFacts =
  pfAcceptanceCriteria :: "bytes list"
  pfRegressions :: "bytes list"
  pfVerifications :: "bytes list"
  pfRisky :: bool
  pfTouchpoints :: "bytes list"

fun numbered :: "bytes \<Rightarrow> bytes \<Rightarrow> nat \<Rightarrow> bytes list \<Rightarrow> Requirement list" where
  "numbered pre kind i [] = []"
| "numbered pre kind i (t # ts) =
     newRequirement (pre @ show_nat (i + 1)) kind t True # numbered pre kind (i + 1) ts"

definition FromPlan :: "(bytes \<Rightarrow> Intent) \<Rightarrow> bytes \<Rightarrow> PlanFacts \<Rightarrow> Contract" where
  "FromPlan classify input facts =
     (let c0 = NewContract classify input;
          c1 = c0\<lparr>ctRequirements := ctRequirements c0 @ numbered ''r'' ''behavior'' 0 (pfAcceptanceCriteria facts)
                                    @ numbered ''g'' ''regression'' 0 (pfRegressions facts)\<rparr>;
          c2 = foldl (\<lambda>c command. AddCheck command c) c1 (pfVerifications facts)
      in MergeSignals \<lparr>sgHighRisk = False, sgMediumRisk = pfRisky facts, sgAnchored = length (pfTouchpoints facts) > 0,
            sgMultiFile = length (pfTouchpoints facts) > 1, sgCrossSurface = False, sgPaths = pfTouchpoints facts\<rparr> c2)"

section \<open>Receipts\<close>

definition refKind :: "shell \<Rightarrow> Receipt \<Rightarrow> EvidenceKind" where
  "refKind sh r =
     (if rcTool r = ''review_report'' then EvidenceReview
      else if rcCommand r \<noteq> [] \<and> IsDeliveryVerificationCommand sh (rcCommand r) then EvidenceVerification
      else if rcMutation r \<or> rcWrite r then EvidenceMutation else EvidenceRead)"

definition refFor :: "shell \<Rightarrow> epoch \<Rightarrow> Receipt \<Rightarrow> EvidenceRef" where
  "refFor sh e r = \<lparr>erKind = refKind sh r, erEpoch = e, erSource = rcTool r, erSuccess = rcSuccess r\<rparr>"

definition pathsIntersect :: "bytes list \<Rightarrow> bytes list \<Rightarrow> bool" where
  "pathsIntersect scope got = list_ex (\<lambda>s. s \<in> set got) scope"

definition checkMatches :: "shell \<Rightarrow> CtScope \<Rightarrow> CtCheck \<Rightarrow> Receipt \<Rightarrow> bool" where
  "checkMatches sh sc k r =
     (if ckKind k = CheckMutation then
        (if refKind sh r \<noteq> EvidenceMutation then False
         else if scPaths sc = [] then True else pathsIntersect (scPaths sc) (rcPaths r))
      else if rcCommand r = [] then False
      else if ckCommand k = [] then IsDeliveryVerificationCommand sh (rcCommand r)
      else CommandMatches sh (ckCommand k) (rcCommand r))"

text \<open>The loop of \<open>allProofOutdated\<close>: \<open>None\<close> is the early \<open>return false\<close>.\<close>

fun outdatedLoop :: "EvidenceRef list \<Rightarrow> epoch \<Rightarrow> bool \<Rightarrow> bool option" where
  "outdatedLoop [] e saw = Some saw"
| "outdatedLoop (x # xs) e saw =
     (if \<not> erSuccess x then outdatedLoop xs e saw
      else if erKind x = EvidenceMutation \<or> erEpoch x \<ge> e then None
      else outdatedLoop xs e True)"

definition allProofOutdated :: "EvidenceRef list \<Rightarrow> epoch \<Rightarrow> bool" where
  "allProofOutdated refs e = (outdatedLoop refs e False = Some True)"

definition staleCheck :: "epoch \<Rightarrow> CtCheck \<Rightarrow> CtCheck" where
  "staleCheck e k =
     (if ckStatus k = Satisfied \<and> ckKind k = CheckCommand \<and> allProofOutdated (ckEvidence k) e
      then k\<lparr>ckStatus := Stale\<rparr> else k)"

definition staleRequirement :: "epoch \<Rightarrow> Requirement \<Rightarrow> Requirement" where
  "staleRequirement e q =
     (if rqStatus q = Satisfied \<and> length (rqEvidence q) > 0 \<and> allProofOutdated (rqEvidence q) e
      then q\<lparr>rqStatus := Stale\<rparr> else q)"

definition staleOutdated :: "Contract \<Rightarrow> Contract" where
  "staleOutdated c = c\<lparr>ctChecks := map (staleCheck (ctEpoch c)) (ctChecks c),
     ctRequirements := map (staleRequirement (ctEpoch c)) (ctRequirements c)\<rparr>"

definition observeCheck :: "shell \<Rightarrow> CtScope \<Rightarrow> epoch \<Rightarrow> Receipt \<Rightarrow> CtCheck \<Rightarrow> CtCheck" where
  "observeCheck sh sc e r k =
     (if \<not> checkMatches sh sc k r then k
      else k\<lparr>ckEvidence := ckEvidence k @ [refFor sh e r],
             ckStatus := (if rcSuccess r then Satisfied else if ckStatus k \<noteq> Satisfied then Failed else ckStatus k)\<rparr>)"

definition observeRequirement :: "shell \<Rightarrow> epoch \<Rightarrow> Receipt \<Rightarrow> Requirement \<Rightarrow> Requirement" where
  "observeRequirement sh e r q =
     (if rqAuto q \<and> rqStatus q \<noteq> Satisfied \<and> rcSuccess r \<and> refKind sh r = rqAutoKind q
      then q\<lparr>rqStatus := Satisfied, rqEvidence := rqEvidence q @ [refFor sh e r]\<rparr> else q)"

definition changes :: "Receipt \<Rightarrow> bool" where
  "changes r \<longleftrightarrow> rcMutation r \<or> rcWrite r"

definition Observe :: "shell \<Rightarrow> Contract \<Rightarrow> Receipt \<Rightarrow> Contract" where
  "Observe sh c r =
     (let c1 = (if rcMutation r \<or> rcWrite r then staleOutdated (c\<lparr>ctEpoch := ctEpoch c + 1\<rparr>) else c) in
      c1\<lparr>ctChecks := map (observeCheck sh (ctScope c1) (ctEpoch c1) r) (ctChecks c1),
         ctRequirements := map (observeRequirement sh (ctEpoch c1) r) (ctRequirements c1)\<rparr>)"

definition ResolveRequirement :: "bytes \<Rightarrow> Status \<Rightarrow> EvidenceRef list \<Rightarrow> Contract \<Rightarrow> bool \<times> Contract" where
  "ResolveRequirement rid status refs c =
     (case updateRequirement rid (\<lambda>q. q\<lparr>rqStatus := status, rqEvidence := rqEvidence q @ refs\<rparr>) (ctRequirements c) of
        Some qs \<Rightarrow> (True, c\<lparr>ctRequirements := qs\<rparr>)
      | None \<Rightarrow> (False, c))"

definition Epoch :: "Contract \<Rightarrow> epoch" where
  "Epoch c = ctEpoch c"

section \<open>The arbiters\<close>

definition Trivial :: "Contract \<Rightarrow> bool" where
  "Trivial c \<longleftrightarrow> ctRisk c = CtLow \<and> \<not> scMultiFile (ctScope c) \<and> \<not> scCrossSurface (ctScope c) \<and>
     length (ctRequirements c) \<le> 1 \<and> length (ctChecks c) \<le> 1"

definition CompleteContract :: "Contract \<Rightarrow> bool" where
  "CompleteContract c \<longleftrightarrow>
     list_all (\<lambda>q. \<not> (rqRequired q \<and> rqStatus q \<noteq> Satisfied)) (ctRequirements c) \<and>
     list_all (\<lambda>k. ckStatus k = Satisfied) (ctChecks c)"

definition ReadyToFinalize :: "Contract \<Rightarrow> bool" where
  "ReadyToFinalize c \<longleftrightarrow> (length (ctRequirements c) > 0 \<or> length (ctChecks c) > 0) \<and> CompleteContract c"

definition requiredCount :: "Contract \<Rightarrow> nat" where
  "requiredCount c = length (filter rqRequired (ctRequirements c))"

definition FinalizeSignal :: "Contract \<Rightarrow> bytes" where
  "FinalizeSignal c =
     (if \<not> ReadyToFinalize c then []
      else let n = show_nat (requiredCount c); k = show_nat (length (ctChecks c)) in
        ''All required acceptance evidence is satisfied ('' @ n @ ''/'' @ n @ '' requirements, '' @ k @ ''/'' @ k @
        '' checks, latest mutation verified). Finalize now unless you have concrete evidence of an unresolved requirement.'')"

datatype Verdict = VerdictUncertain | VerdictContinue | VerdictBlocked | VerdictComplete

fun verdictString :: "Verdict \<Rightarrow> bytes" where
  "verdictString VerdictContinue = ''continue''"
| "verdictString VerdictBlocked = ''blocked''"
| "verdictString VerdictComplete = ''complete''"
| "verdictString VerdictUncertain = ''uncertain''"

definition GoalVerdict :: "Contract \<Rightarrow> Verdict" where
  "GoalVerdict c =
     (if ctRequirements c = [] \<and> ctChecks c = [] then VerdictUncertain
      else let blocked = list_ex (\<lambda>q. rqRequired q \<and> rqStatus q = Failed) (ctRequirements c);
               missing = list_ex (\<lambda>q. rqRequired q \<and> rqStatus q \<in> {Pending, Stale}) (ctRequirements c) \<or>
                         list_ex (\<lambda>k. ckStatus k \<noteq> Satisfied) (ctChecks c)
           in if missing then VerdictContinue else if blocked then VerdictBlocked
              else if CompleteContract c then VerdictComplete else VerdictUncertain)"

definition gateChallenge :: bytes where
  "gateChallenge = ''All acceptance evidence is satisfied. Name the unsatisfied requirement ID this mutation addresses, or finalize instead of editing.''"

definition GateMutation :: "bytes \<Rightarrow> Contract \<Rightarrow> bool \<times> bytes" where
  "GateMutation requirementID c =
     (if \<not> ReadyToFinalize c then (True, [])
      else if requirementID \<noteq> [] \<and>
              list_ex (\<lambda>q. rqID q = requirementID \<and> rqStatus q \<noteq> Satisfied) (ctRequirements c) then (True, [])
      else (False, gateChallenge))"

text \<open>The dash of the messages in UTF-8.\<close>

definition emdash :: bytes where "emdash = [CHR 0xE2, CHR 0x80, CHR 0x94]"
definition middot :: bytes where "middot = [CHR 0xC2, CHR 0xB7]"

definition directiveFor :: "Status \<Rightarrow> bytes \<Rightarrow> bytes" where
  "directiveFor status verb =
     (case status of
        Stale \<Rightarrow> ''evidence predates the latest mutation '' @ emdash @ '' re-'' @ verb @ '' it''
      | Failed \<Rightarrow> ''last evidence shows failure '' @ emdash @ '' fix it, then re-'' @ verb
      | _ \<Rightarrow> ''no fresh evidence '' @ emdash @ '' '' @ verb @ '' it'')"

definition FinalRejection :: "Contract \<Rightarrow> bytes" where
  "FinalRejection c =
     (if ctRequirements c = [] \<and> ctChecks c = [] then []
      else if CompleteContract c then []
      else ''Final not accepted: the contract is not fully proven.'' @ [LF] @
        concat (map (\<lambda>q. if \<not> rqRequired q \<or> rqStatus q = Satisfied then []
            else ''- requirement '' @ rqID q @ '' ('' @ rqText q @ ''): '' @ directiveFor (rqStatus q) ''verify'' @ [LF]) (ctRequirements c)) @
        concat (map (\<lambda>k. if ckStatus k = Satisfied then []
            else let label = (if ckCommand k \<noteq> [] then ckCommand k
                              else if ckKind k = CheckMutation then ''the required change'' else ''verification'')
                 in ''- check '' @ label @ '': '' @ directiveFor (ckStatus k) ''run'' @ [LF]) (ctChecks c)))"

definition Summary :: "Contract \<Rightarrow> bytes" where
  "Summary c =
     (let reqDone = length (filter (\<lambda>q. rqRequired q \<and> rqStatus q = Satisfied) (ctRequirements c));
          checkDone = length (filter (\<lambda>k. ckStatus k = Satisfied) (ctChecks c));
          stale = length (filter (\<lambda>k. ckStatus k = Stale) (ctChecks c));
          sep = '' '' @ middot @ '' '';
          s = ''requirements '' @ show_nat reqDone @ ''/'' @ show_nat (requiredCount c) @ sep @
              ''checks '' @ show_nat checkDone @ ''/'' @ show_nat (length (ctChecks c)) @ sep @
              ''epoch '' @ show_nat (unat (ctEpoch c))
      in if stale > 0 then s @ sep @ ''stale '' @ show_nat stale else s)"

definition Outstanding :: "Contract \<Rightarrow> bytes list" where
  "Outstanding c =
     map (\<lambda>q. ''requirement '' @ rqID q @ '': '' @ rqText q)
       (filter (\<lambda>q. rqRequired q \<and> rqStatus q \<noteq> Satisfied) (ctRequirements c)) @
     map (\<lambda>k. ''check: '' @ (if ckCommand k = [] then ''any verification'' else ckCommand k) @
              (if ckStatus k = Stale then '' (stale: re-verify after the latest mutation)'' else []))
       (filter (\<lambda>k. ckStatus k \<noteq> Satisfied) (ctChecks c))"

definition todoOf :: "bytes \<Rightarrow> Status \<Rightarrow> TodoItem" where
  "todoOf content status =
     \<lparr>tContent = content, tStatus = (if status = Satisfied then ''completed'' else ''pending''), tActiveForm = [], tLevel = 0\<rparr>"

definition ExecutionView :: "Contract \<Rightarrow> TodoItem list" where
  "ExecutionView c =
     map (\<lambda>q. todoOf (rqText q) (rqStatus q)) (filter rqRequired (ctRequirements c)) @
     map (\<lambda>k. todoOf (if ckCommand k \<noteq> [] then ''verify: '' @ ckCommand k
                       else if ckKind k = CheckMutation then ''apply the change'' else ''run verification'') (ckStatus k))
       (ctChecks c)"

section \<open>The shadow contract of a turn: \<open>contract_shadow.go\<close>\<close>

fun shadowTodos :: "Receipt list \<Rightarrow> TodoItem list \<Rightarrow> TodoItem list" where
  "shadowTodos [] todos = todos"
| "shadowTodos (r # rs) todos = shadowTodos rs (if length (rcTodos r) > 0 then rcTodos r else todos)"

definition todoID :: "nat \<Rightarrow> bytes" where
  "todoID i = ''t'' @ show_nat (i + 1)"

definition buildShadowContract :: "(bytes \<Rightarrow> Intent) \<Rightarrow> shell \<Rightarrow> bytes \<Rightarrow> Receipt list \<Rightarrow> Contract" where
  "buildShadowContract classify sh input rs =
     (let c0 = (if classify input \<in> {Mutation, PersistentAction} then Atomic classify input else NewContract classify input);
          todos = shadowTodos rs [];
          c1 = foldl (\<lambda>c i. AddRequirement (todoID i) (tContent (todos ! i)) True c) c0 [0 ..< length todos];
          c2 = foldl (Observe sh) c1 rs
      in foldl (\<lambda>c i. if tStatus (todos ! i) = ''completed'' then snd (ResolveRequirement (todoID i) Satisfied [] c) else c)
           c2 [0 ..< length todos])"

fun intentName :: "Intent \<Rightarrow> bytes" where
  "intentName Advisory = ''advisory''"
| "intentName ObservableRead = ''observable_read''"
| "intentName Mutation = ''mutation''"
| "intentName PersistentAction = ''persistent_action''"
| "intentName Conversation = ''conversation''"

record ContractShadowAudit =
  saIntent :: bytes
  saRequirements :: nat
  saRequirementsSatisfied :: nat
  saChecks :: nat
  saChecksSatisfied :: nat
  saEpoch :: epoch
  saVerdict :: bytes
  saComplete :: bool
  saReadyToFinalize :: bool

definition contractShadowAudit :: "Contract \<Rightarrow> ContractShadowAudit" where
  "contractShadowAudit c =
     \<lparr>saIntent = intentName (ctIntent c), saRequirements = length (ctRequirements c),
      saRequirementsSatisfied = length (filter (\<lambda>q. rqStatus q = Satisfied) (ctRequirements c)),
      saChecks = length (ctChecks c),
      saChecksSatisfied = length (filter (\<lambda>k. ckStatus k = Satisfied) (ctChecks c)),
      saEpoch = Epoch c, saVerdict = verdictString (GoalVerdict c), saComplete = CompleteContract c,
      saReadyToFinalize = ReadyToFinalize c\<rparr>"

section \<open>Properties\<close>

lemma list_all_list_ex: "list_all P xs \<longleftrightarrow> \<not> list_ex (\<lambda>x. \<not> P x) xs"
  by (simp add: list_all_iff list_ex_iff)

lemma status_cases: "s \<noteq> Satisfied \<longleftrightarrow> s = Failed \<or> s \<in> {Pending, Stale}"
  by (cases s) auto

lemma CompleteContract_iff:
  "CompleteContract c \<longleftrightarrow>
     (\<forall>q \<in> set (ctRequirements c). rqRequired q \<longrightarrow> rqStatus q = Satisfied) \<and>
     (\<forall>k \<in> set (ctChecks c). ckStatus k = Satisfied)"
  by (auto simp: CompleteContract_def list_all_iff)

lemma Outstanding_empty: "Outstanding c = [] \<longleftrightarrow> CompleteContract c"
  by (auto simp: Outstanding_def CompleteContract_iff filter_empty_conv)

text \<open>C21. 
  The arbiters agree. They read one record and give one answer: the goal is complete exactly when the contract
  is ready to be finalized, exactly then the finalize signal is sent and a mutation that names no requirement
  is challenged; a final answer is rejected exactly when there is content that is not complete; nothing is
  listed as outstanding exactly when the contract is complete; and the model-based evaluator is needed
  exactly when there is nothing to prove.
\<close>

theorem arbiters_agree:
  "(GoalVerdict c = VerdictComplete \<longleftrightarrow> ReadyToFinalize c) \<and>
   (FinalizeSignal c \<noteq> [] \<longleftrightarrow> ReadyToFinalize c) \<and>
   (GateMutation [] c = (False, gateChallenge) \<longleftrightarrow> ReadyToFinalize c) \<and>
   (GoalVerdict c = VerdictUncertain \<longleftrightarrow> ctRequirements c = [] \<and> ctChecks c = []) \<and>
   (FinalRejection c = [] \<longleftrightarrow> GoalVerdict c \<in> {VerdictUncertain, VerdictComplete}) \<and>
   (Outstanding c = [] \<longleftrightarrow> CompleteContract c)"
proof -
  have v: "GoalVerdict c = (if ctRequirements c = [] \<and> ctChecks c = [] then VerdictUncertain
      else if CompleteContract c then VerdictComplete
      else if (\<exists>q \<in> set (ctRequirements c). rqRequired q \<and> rqStatus q \<in> {Pending, Stale}) \<or>
              (\<exists>k \<in> set (ctChecks c). ckStatus k \<noteq> Satisfied) then VerdictContinue else VerdictBlocked)"
    unfolding GoalVerdict_def Let_def CompleteContract_iff list_ex_iff using status_cases
    by (auto split: if_splits)
  have r: "ReadyToFinalize c \<longleftrightarrow> \<not> (ctRequirements c = [] \<and> ctChecks c = []) \<and> CompleteContract c"
    by (auto simp: ReadyToFinalize_def)
  have f: "FinalRejection c = [] \<longleftrightarrow> (ctRequirements c = [] \<and> ctChecks c = []) \<or> CompleteContract c"
    by (auto simp: FinalRejection_def)
  show ?thesis
    by (simp add: v r f Outstanding_empty FinalizeSignal_def GateMutation_def gateChallenge_def Let_def)
qed

section \<open>Freshness\<close>

definition changeCount :: "Receipt list \<Rightarrow> nat" where
  "changeCount rs = length (filter changes rs)"

lemma changeCount_take_mono: "i \<le> j \<Longrightarrow> changeCount (take i rs) \<le> changeCount (take j rs)"
  unfolding changeCount_def
  by (metis add_leE append_take_drop_id filter_append le_add1 length_append min.absorb1 take_take)

lemma outdatedLoop_None:
  "outdatedLoop refs e saw = None \<longleftrightarrow> (\<exists>x \<in> set refs. erSuccess x \<and> (erKind x = EvidenceMutation \<or> erEpoch x \<ge> e))"
  by (induction refs arbitrary: saw) auto

lemma outdatedLoop_False: "outdatedLoop refs e saw = Some False \<Longrightarrow> \<not> saw \<and> (\<forall>x \<in> set refs. \<not> erSuccess x)"
  by (induction refs arbitrary: saw) (auto split: if_splits)

definition live :: "epoch \<Rightarrow> EvidenceRef \<Rightarrow> bool" where
  "live e x \<longleftrightarrow> erSuccess x \<and> (erKind x = EvidenceMutation \<or> erEpoch x \<ge> e)"

lemma staleCheck_live:
  assumes "ckStatus (staleCheck e k) = Satisfied" "ckKind k = CheckCommand" "\<exists>x \<in> set (ckEvidence k). erSuccess x"
  shows "\<exists>x \<in> set (ckEvidence k). live e x"
proof -
  have "\<not> allProofOutdated (ckEvidence k) e" using assms(1,2) by (auto simp: staleCheck_def split: if_splits)
  then have "outdatedLoop (ckEvidence k) e False = None"
    using outdatedLoop_False assms(3) unfolding allProofOutdated_def by (metis (full_types) option.exhaust)
  then show ?thesis by (auto simp: outdatedLoop_None live_def)
qed

lemma staleCheck_simps [simp]:
  "ckKind (staleCheck e k) = ckKind k" "ckCommand (staleCheck e k) = ckCommand k" "ckEvidence (staleCheck e k) = ckEvidence k"
  by (simp_all add: staleCheck_def)

lemma staleCheck_Satisfied: "ckStatus (staleCheck e k) = Satisfied \<Longrightarrow> ckStatus k = Satisfied"
  by (auto simp: staleCheck_def split: if_splits)

lemma checkMatches_cong: "ckKind k = ckKind k' \<Longrightarrow> ckCommand k = ckCommand k' \<Longrightarrow> checkMatches sh sc k r = checkMatches sh sc k' r"
  by (simp add: checkMatches_def)

text \<open>What a reference of a check points at: a receipt of the trace, with the number of changes up to it.\<close>

definition points_at :: "shell \<Rightarrow> CtScope \<Rightarrow> CtCheck \<Rightarrow> Receipt list \<Rightarrow> EvidenceRef \<Rightarrow> bool" where
  "points_at sh sc k rs x \<longleftrightarrow> (\<exists>j < length rs. checkMatches sh sc k (rs ! j) \<and>
     x = refFor sh (of_nat (changeCount (take (j + 1) rs))) (rs ! j))"

lemma points_at_append: "points_at sh sc k rs x \<Longrightarrow> points_at sh sc k (rs @ [r]) x"
proof -
  assume "points_at sh sc k rs x"
  then obtain j where j: "j < length rs" "checkMatches sh sc k (rs ! j)"
    "x = refFor sh (of_nat (changeCount (take (j + 1) rs))) (rs ! j)" by (auto simp: points_at_def)
  then have "(rs @ [r]) ! j = rs ! j" "take (j + 1) (rs @ [r]) = take (j + 1) rs" by (simp_all add: nth_append)
  with j show ?thesis unfolding points_at_def by (intro exI [of _ j]) simp
qed

definition check_ok :: "shell \<Rightarrow> CtScope \<Rightarrow> CtCheck \<Rightarrow> Receipt list \<Rightarrow> CtCheck \<Rightarrow> bool" where
  "check_ok sh sc k0 rs k \<longleftrightarrow> ckKind k = ckKind k0 \<and> ckCommand k = ckCommand k0 \<and>
     (\<forall>x \<in> set (ckEvidence k). points_at sh sc k0 rs x) \<and>
     (ckStatus k = Satisfied \<longrightarrow> ckKind k = CheckCommand \<longrightarrow> (\<exists>x \<in> set (ckEvidence k). live (of_nat (changeCount rs)) x))"

lemma Observe_simps:
  "ctScope (Observe sh c r) = ctScope c" "length (ctChecks (Observe sh c r)) = length (ctChecks c)"
  "ctEpoch (Observe sh c r) = (if changes r then ctEpoch c + 1 else ctEpoch c)"
  by (simp_all add: Observe_def Let_def staleOutdated_def changes_def)

lemma Observe_check:
  assumes "i < length (ctChecks c)"
  shows "ctChecks (Observe sh c r) ! i =
    observeCheck sh (ctScope c) (ctEpoch (Observe sh c r)) r
      (if changes r then staleCheck (ctEpoch (Observe sh c r)) (ctChecks c ! i) else ctChecks c ! i)"
  using assms by (simp add: Observe_def Let_def staleOutdated_def changes_def)

lemma changeCount_snoc: "changeCount (rs @ [r]) = changeCount rs + (if changes r then 1 else 0)"
  by (simp add: changeCount_def)

lemma check_ok_step:
  assumes ok: "check_ok sh sc k0 rs k" and e: "e = of_nat (changeCount (rs @ [r]))"
    and k': "k' = (if changes r then staleCheck e k else k)"
  shows "check_ok sh sc k0 (rs @ [r]) (observeCheck sh sc e r k')"
proof -
  have same: "ckKind k' = ckKind k0" "ckCommand k' = ckCommand k0" "ckEvidence k' = ckEvidence k"
    using ok k' by (simp_all add: check_ok_def)
  have pts: "\<forall>x \<in> set (ckEvidence k'). points_at sh sc k0 (rs @ [r]) x"
    using ok same(3) points_at_append by (auto simp: check_ok_def)
  have liv: "\<exists>x \<in> set (ckEvidence k'). live e x" if s: "ckStatus k' = Satisfied" and c: "ckKind k' = CheckCommand"
  proof (cases "changes r")
    case True
    then have "\<exists>x \<in> set (ckEvidence k). live (of_nat (changeCount rs)) x"
      using ok s c same k' staleCheck_Satisfied by (auto simp: check_ok_def)
    then have "\<exists>x \<in> set (ckEvidence k). erSuccess x" by (auto simp: live_def)
    then show ?thesis using staleCheck_live [of e k] s c True k' by simp
  next
    case False
    then show ?thesis using ok s c k' e by (simp add: check_ok_def changeCount_snoc)
  qed
  have m: "checkMatches sh sc k' r = checkMatches sh sc k0 r" by (rule checkMatches_cong) (simp_all add: same)
  have new: "points_at sh sc k0 (rs @ [r]) (refFor sh e r)" if "checkMatches sh sc k0 r"
    unfolding points_at_def using that e by (intro exI [of _ "length rs"]) simp
  have "live e (refFor sh e r)" if "rcSuccess r" using that by (simp add: live_def refFor_def)
  then show ?thesis
    using same pts liv new m e by (auto simp: check_ok_def observeCheck_def)
qed

lemma Observe_invariant:
  assumes "\<forall>k \<in> set (ctChecks c). ckStatus k = Pending \<and> ckEvidence k = []" and "ctEpoch c = 0"
  shows "ctScope (foldl (Observe sh) c rs) = ctScope c \<and>
    ctEpoch (foldl (Observe sh) c rs) = of_nat (changeCount rs) \<and>
    length (ctChecks (foldl (Observe sh) c rs)) = length (ctChecks c) \<and>
    (\<forall>i < length (ctChecks c). check_ok sh (ctScope c) (ctChecks c ! i) rs (ctChecks (foldl (Observe sh) c rs) ! i))"
proof (induction rs rule: rev_induct)
  case Nil
  then show ?case using assms by (auto simp: check_ok_def changeCount_def dest!: nth_mem)
next
  case (snoc r rs)
  let ?c = "foldl (Observe sh) c rs"
  have e: "ctEpoch (Observe sh ?c r) = of_nat (changeCount (rs @ [r]))"
    using snoc by (simp add: Observe_simps changeCount_snoc)
  have "check_ok sh (ctScope c) (ctChecks c ! i) (rs @ [r]) (ctChecks (Observe sh ?c r) ! i)" if i: "i < length (ctChecks c)" for i
  proof -
    have "i < length (ctChecks ?c)" "ctScope ?c = ctScope c" using snoc i by auto
    moreover have "check_ok sh (ctScope c) (ctChecks c ! i) rs (ctChecks ?c ! i)" using snoc i by blast
    ultimately show ?thesis
      using check_ok_step [OF _ e refl] by (simp add: Observe_check)
  qed
  then show ?case using snoc e by (simp add: Observe_simps)
qed

text \<open>C22. 
  A satisfied check is proven by the current code. When a contract has observed a turn of fewer than
  \<open>2^64\<close> receipts and one of its command checks is satisfied, then a successful receipt of the turn matches
  the check, and either the workspace was not changed after it or it is itself a mutation.
\<close>

theorem satisfied_check_is_fresh:
  assumes "\<forall>k \<in> set (ctChecks c). ckStatus k = Pending \<and> ckEvidence k = []" and "ctEpoch c = 0"
    and "length rs < 2 ^ 64" and "i < length (ctChecks c)" and "ckKind (ctChecks c ! i) = CheckCommand"
    and "ckStatus (ctChecks (foldl (Observe sh) c rs) ! i) = Satisfied"
  shows "\<exists>j < length rs. rcSuccess (rs ! j) \<and> checkMatches sh (ctScope c) (ctChecks c ! i) (rs ! j) \<and>
    (refKind sh (rs ! j) = EvidenceMutation \<or> (\<forall>m < length rs. j < m \<longrightarrow> \<not> changes (rs ! m)))"
proof -
  have "check_ok sh (ctScope c) (ctChecks c ! i) rs (ctChecks (foldl (Observe sh) c rs) ! i)"
    using Observe_invariant [OF assms(1,2), of sh rs] assms(4) by blast
  with assms(5,6) obtain x where "live (of_nat (changeCount rs)) x" "points_at sh (ctScope c) (ctChecks c ! i) rs x"
    by (auto simp: check_ok_def)
  then obtain j where j: "j < length rs" "checkMatches sh (ctScope c) (ctChecks c ! i) (rs ! j)" "rcSuccess (rs ! j)"
    and l: "refKind sh (rs ! j) = EvidenceMutation \<or>
      (of_nat (changeCount rs) :: epoch) \<le> of_nat (changeCount (take (j + 1) rs))"
    by (auto simp: points_at_def live_def refFor_def)
  have "\<not> changes (rs ! m)"
    if m: "m < length rs" "j < m" and le: "(of_nat (changeCount rs) :: epoch) \<le> of_nat (changeCount (take (j + 1) rs))" for m
  proof
    assume ch: "changes (rs ! m)"
    have b: "changeCount (take n rs) < 2 ^ 64" for n
      using assms(3) length_filter_le [of changes "take n rs"] by (simp add: changeCount_def)
    have "changeCount (take (j + 1) rs) \<le> changeCount (take m rs)" using m by (intro changeCount_take_mono) simp
    also have "\<dots> < changeCount (take (m + 1) rs)" using m ch by (simp add: take_Suc_conv_app_nth changeCount_snoc)
    also have "\<dots> \<le> changeCount (take (length rs) rs)" using m by (intro changeCount_take_mono) simp
    finally have "changeCount (take (j + 1) rs) < changeCount rs" by simp
    moreover have "changeCount rs \<le> changeCount (take (j + 1) rs)"
      using le b [of "j + 1"] b [of "length rs"] by (simp add: word_le_nat_alt unsigned_of_nat take_bit_nat_eq_self)
    ultimately show False by simp
  qed
  then show ?thesis using j l by blast
qed

text \<open>
  A demanded verification that is lost. Asking an atomic contract for any verification (\<open>AddCheck ""\<close>) adds
  nothing, since its mutation check already has the empty command, so that one successful edit makes the
  contract ready although no verification ran.
\<close>

theorem atomic_swallows_verification:
  assumes "rcSuccess r" and "rcMutation r" and "rcCommand r = []" and "rcTool r \<noteq> ''review_report''"
  shows "ReadyToFinalize (Observe sh (AddCheck [] (Atomic classify input)) r)"
  using assms
  by (simp add: AddCheck_def Atomic_def NewContract_def newCheck_def newRequirement_def Let_def Observe_def staleOutdated_def
      staleCheck_def staleRequirement_def observeCheck_def observeRequirement_def checkMatches_def refKind_def
      ReadyToFinalize_def CompleteContract_def)

text \<open>
  A red run does not turn a green contract red. Observing a failed receipt that changes nothing leaves the
  contract ready if it was, also when the receipt is a later failing run of the very command of a check.
\<close>

theorem failing_run_keeps_ready:
  assumes "\<not> rcSuccess r" and "\<not> changes r" and "ReadyToFinalize c"
  shows "ReadyToFinalize (Observe sh c r)"
  using assms
  by (auto simp: ReadyToFinalize_def CompleteContract_iff Observe_def changes_def observeCheck_def observeRequirement_def Let_def)

section \<open>The properties on a sample turn\<close>

definition turn_edit :: Receipt where
  "turn_edit = ReceiptFromToolCall demo_ev ''edit_file'' ''{edit}'' True False"

definition turn_test :: "bool \<Rightarrow> Receipt" where
  "turn_test ok = ReceiptFromToolCall demo_ev ''bash'' ''{run}'' ok False"

definition turn_contract :: Contract where
  "turn_contract = AddCheck ''npm test'' (NewContract (\<lambda>_. Mutation) ''fix it'')"

definition turn_green :: Contract where
  "turn_green = foldl (Observe words_shell) turn_contract [turn_edit, turn_test True]"

theorem satisfied_check_is_fresh_witness:
  "\<exists>j < length [turn_edit, turn_test True]. rcSuccess ([turn_edit, turn_test True] ! j) \<and>
     checkMatches words_shell (ctScope turn_contract) (ctChecks turn_contract ! 0) ([turn_edit, turn_test True] ! j)"
proof -
  have 1: "\<forall>k \<in> set (ctChecks turn_contract). ckStatus k = Pending \<and> ckEvidence k = []" by code_simp
  have 2: "ctEpoch turn_contract = 0" by code_simp
  have 3: "length [turn_edit, turn_test True] < 2 ^ 64" by simp
  have 4: "0 < length (ctChecks turn_contract)" by code_simp
  have 5: "ckKind (ctChecks turn_contract ! 0) = CheckCommand" by code_simp
  have 6: "ckStatus (ctChecks (foldl (Observe words_shell) turn_contract [turn_edit, turn_test True]) ! 0) = Satisfied"
    by code_simp
  from satisfied_check_is_fresh [OF 1 2 3 4 5 6] show ?thesis by blast
qed

theorem atomic_swallows_verification_witness:
  "ReadyToFinalize (Observe words_shell (AddCheck [] (Atomic (\<lambda>_. Mutation) ''fix it'')) turn_edit)"
proof -
  have 1: "rcSuccess turn_edit" by code_simp
  have 2: "rcMutation turn_edit" by code_simp
  have 3: "rcCommand turn_edit = []" by code_simp
  have 4: "rcTool turn_edit \<noteq> ''review_report''" by code_simp
  show ?thesis by (rule atomic_swallows_verification [OF 1 2 3 4])
qed

theorem failing_run_keeps_ready_witness:
  "ReadyToFinalize (Observe words_shell turn_green (turn_test False)) \<and>
   checkMatches words_shell (ctScope turn_green) (ctChecks turn_green ! 0) (turn_test False)"
proof
  have 1: "\<not> rcSuccess (turn_test False)" by code_simp
  have 2: "\<not> changes (turn_test False)" by code_simp
  have 3: "ReadyToFinalize turn_green" by code_simp
  show "ReadyToFinalize (Observe words_shell turn_green (turn_test False))" by (rule failing_run_keeps_ready [OF 1 2 3])
  show "checkMatches words_shell (ctScope turn_green) (ctChecks turn_green ! 0) (turn_test False)" by code_simp
qed

end
