(* ===== verification/EventCoalesce.thy ===== *)
theory EventCoalesce
  imports GoBase
begin

text \<open>
  The coalescing event sink of \<open>internal/event/coalesce.go\<close>: bursts of streaming deltas merge, everything
  else passes in order, and one goroutine at a time forwards to the inner sink. The critical sections are
  functions on the mutex-protected state; goroutines interleave between them, so the system is a step
  relation over the state, the phase of every goroutine and what the inner sink has received. An event is
  its kind, its text and the value of all other fields (\<open>None\<close> when they are zero). The clock readings are
  free. The timer fires only while it is armed; its goroutine then still has to get the mutex, so it may come
  after a \<open>Stop\<close> or \<open>Reset\<close> of the timer. A sink that re-enters the coalescer while an event is delivered is an
  emit by the draining goroutine.
\<close>

section \<open>The critical sections\<close>

datatype Kind = KText | KReasoning | KOther nat

record 'r Event =
  evKind :: Kind
  evText :: bytes
  evRest :: "'r option"

definition coalesceMaxBytes :: nat where
  "coalesceMaxBytes = 16 * 1024"

record 'r coalescer =
  cWindow :: int
  cKind :: Kind
  cBuf :: bytes
  cPending :: bool
  cTimer :: bool                     \<comment> \<open>the timer is armed\<close>
  cLastForward :: "int option"       \<comment> \<open>\<open>None\<close> is the zero time\<close>
  cQueue :: "'r Event list"
  cDraining :: bool

definition Coalesce :: "int \<Rightarrow> 'r coalescer" where
  "Coalesce window = \<lparr>cWindow = window, cKind = KOther 0, cBuf = [], cPending = False, cTimer = False,
     cLastForward = None, cQueue = [], cDraining = False\<rparr>"

definition isStreamDelta :: "'r Event \<Rightarrow> bool" where
  "isStreamDelta e \<longleftrightarrow> (evKind e = KText \<or> evKind e = KReasoning) \<and> evText e \<noteq> [] \<and> evRest e = None"

definition deltaEvent :: "Kind \<Rightarrow> bytes \<Rightarrow> 'r Event" where
  "deltaEvent k t = \<lparr>evKind = k, evText = t, evRest = None\<rparr>"

definition enqueueFlushLocked :: "int \<Rightarrow> 'r coalescer \<Rightarrow> 'r coalescer" where
  "enqueueFlushLocked now c =
     (if \<not> cPending c then c
      else c\<lparr>cTimer := False, cQueue := cQueue c @ [deltaEvent (cKind c) (cBuf c)], cBuf := [], cPending := False,
             cLastForward := Some now\<rparr>)"

definition windowPassed :: "int \<Rightarrow> 'r coalescer \<Rightarrow> bool" where
  "windowPassed now c = (case cLastForward c of None \<Rightarrow> True | Some t \<Rightarrow> now - t \<ge> cWindow c)"

text \<open>\<open>Emit\<close> up to \<open>drainAndUnlock\<close>.\<close>

definition Emit :: "int \<Rightarrow> 'r Event \<Rightarrow> 'r coalescer \<Rightarrow> 'r coalescer" where
  "Emit now e c =
     (if \<not> isStreamDelta e then let c1 = enqueueFlushLocked now c in c1\<lparr>cQueue := cQueue c1 @ [e]\<rparr>
      else let c1 = (if cPending c \<and> cKind c \<noteq> evKind e then enqueueFlushLocked now c else c) in
      if \<not> cPending c1 \<and> windowPassed now c1 then c1\<lparr>cLastForward := Some now, cQueue := cQueue c1 @ [e]\<rparr>
      else let c2 = (if \<not> cPending c1 then c1\<lparr>cPending := True, cKind := evKind e, cTimer := True\<rparr> else c1);
               c3 = c2\<lparr>cBuf := cBuf c2 @ evText e\<rparr>
           in if length (cBuf c3) \<ge> coalesceMaxBytes then enqueueFlushLocked now c3 else c3)"

text \<open>The start of \<open>drainAndUnlock\<close> (\<open>Some\<close> batch for the goroutine that drains), and the head of its loop after
  a batch.\<close>

definition drainStart :: "'r coalescer \<Rightarrow> 'r coalescer \<times> 'r Event list option" where
  "drainStart c =
     (if cDraining c \<or> cQueue c = [] then (c, None)
      else (c\<lparr>cDraining := True, cQueue := []\<rparr>, Some (cQueue c)))"

definition drainNext :: "'r coalescer \<Rightarrow> 'r coalescer \<times> 'r Event list option" where
  "drainNext c = (if cQueue c \<noteq> [] then (c\<lparr>cQueue := []\<rparr>, Some (cQueue c)) else (c\<lparr>cDraining := False\<rparr>, None))"

section \<open>Goroutines\<close>

text \<open>A goroutine outside the critical sections: idle, started by the timer and about to flush, delivering a batch (with the audit it records when the
  drain is over, if any), or about to record an audit.\<close>

datatype ('r, 'a) phase = Idle | Firing | Draining "'r Event list" "'a option" | Recording 'a

record ('r, 'a) sys =
  co :: "'r coalescer"
  phases :: "nat \<Rightarrow> ('r, 'a) phase"
  received :: "('r Event + 'a) list"    \<comment> \<open>what the inner sink was given\<close>
  emitted :: "'r Event list"            \<comment> \<open>the events in the order of their critical sections\<close>

definition start :: "int \<Rightarrow> ('r, 'a) sys" where
  "start window = \<lparr>co = Coalesce window, phases = (\<lambda>_. Idle), received = [], emitted = []\<rparr>"

text \<open>After a critical section that left the mutex to \<open>drainAndUnlock\<close>: \<open>g\<close> drains or goes on; \<open>k\<close> is the audit
  it has to record afterwards.\<close>

definition proceed :: "nat \<Rightarrow> 'r coalescer \<Rightarrow> 'a option \<Rightarrow> ('r, 'a) sys \<Rightarrow> ('r, 'a) sys" where
  "proceed g c k s =
     (case drainStart c of
        (c', Some b) \<Rightarrow> s\<lparr>co := c', phases := (phases s)(g := Draining b k)\<rparr>
      | (c', None) \<Rightarrow> s\<lparr>co := c', phases := (case k of None \<Rightarrow> phases s | Some a \<Rightarrow> (phases s)(g := Recording a))\<rparr>)"

inductive step :: "('r, 'a) sys \<Rightarrow> ('r, 'a) sys \<Rightarrow> bool" where
  emit: "phases s g = Idle \<or> cDraining (co s) \<and> (\<exists>b k. phases s g = Draining b k) \<Longrightarrow>
    step s (proceed g (Emit now e (co s)) None (s\<lparr>emitted := emitted s @ [e]\<rparr>))"
| fire: "phases s g = Idle \<Longrightarrow> cTimer (co s) \<Longrightarrow>
    step s (s\<lparr>co := (co s)\<lparr>cTimer := False\<rparr>, phases := (phases s)(g := Firing)\<rparr>)"
| flush: "phases s g = Firing \<Longrightarrow>
    step s (proceed g (enqueueFlushLocked now (co s)) None (s\<lparr>phases := (phases s)(g := Idle)\<rparr>))"
| audit: "phases s g = Idle \<Longrightarrow> step s (proceed g (enqueueFlushLocked now (co s)) (Some a) s)"
| deliver: "phases s g = Draining (e # b) k \<Longrightarrow>
    step s (s\<lparr>received := received s @ [Inl e], phases := (phases s)(g := Draining b k)\<rparr>)"
| next_batch: "phases s g = Draining [] k \<Longrightarrow> drainNext (co s) = (c, Some b) \<Longrightarrow>
    step s (s\<lparr>co := c, phases := (phases s)(g := Draining b k)\<rparr>)"
| drained: "phases s g = Draining [] k \<Longrightarrow> drainNext (co s) = (c, None) \<Longrightarrow>
    step s (s\<lparr>co := c, phases := (phases s)(g := (case k of None \<Rightarrow> Idle | Some a \<Rightarrow> Recording a))\<rparr>)"
| recorded: "phases s g = Recording a \<Longrightarrow>
    step s (s\<lparr>received := received s @ [Inr a], phases := (phases s)(g := Idle)\<rparr>)"

inductive_cases stepE: "step s t"

abbreviation steps :: "('r, 'a) sys \<Rightarrow> ('r, 'a) sys \<Rightarrow> bool" where
  "steps \<equiv> step\<^sup>*\<^sup>*"

definition reachable :: "int \<Rightarrow> ('r, 'a) sys \<Rightarrow> bool" where
  "reachable window s \<longleftrightarrow> steps (start window) s"

section \<open>One drainer\<close>

definition isDraining :: "('r, 'a) phase \<Rightarrow> bool" where
  "isDraining p \<longleftrightarrow> (\<exists>b k. p = Draining b k)"

definition one_drainer :: "('r, 'a) sys \<Rightarrow> bool" where
  "one_drainer s \<longleftrightarrow> (\<forall>g h. isDraining (phases s g) \<longrightarrow> isDraining (phases s h) \<longrightarrow> g = h) \<and>
     (\<forall>g. isDraining (phases s g) \<longrightarrow> cDraining (co s)) \<and>
     (cDraining (co s) \<longrightarrow> (\<exists>g. isDraining (phases s g))) \<and> (cQueue (co s) \<noteq> [] \<longrightarrow> cDraining (co s))"

lemma flush_keeps [simp]: "cDraining (enqueueFlushLocked now c) = cDraining c" "cWindow (enqueueFlushLocked now c) = cWindow c"
  by (simp_all add: enqueueFlushLocked_def)

lemma Emit_keeps [simp]: "cDraining (Emit now e c) = cDraining c" "cWindow (Emit now e c) = cWindow c"
  by (simp_all add: Emit_def Let_def)

lemma isDraining_simps [simp]: "isDraining (Draining b k)" "\<not> isDraining Idle" "\<not> isDraining Firing" "\<not> isDraining (Recording a)"
  by (simp_all add: isDraining_def)

lemma the_drainer:
  assumes "one_drainer s" "phases s g = Draining b k"
  shows "cDraining (co s)" "isDraining (phases s h) \<Longrightarrow> h = g"
proof -
  have "isDraining (phases s g)" using assms(2) by simp
  then show "cDraining (co s)" "isDraining (phases s h) \<Longrightarrow> h = g" using assms(1) unfolding one_drainer_def by blast+
qed

text \<open>Changing the phase of a goroutine that keeps its role, or that is not the drainer.\<close>

lemma one_drainer_update:
  assumes "one_drainer s" "isDraining p \<longleftrightarrow> isDraining (phases s g)" "cDraining (co t) = cDraining (co s)"
    "phases t = (phases s)(g := p)" "cQueue (co t) \<noteq> [] \<longrightarrow> cDraining (co s)"
  shows "one_drainer t"
proof -
  have "isDraining (phases t h) = isDraining (phases s h)" for h using assms by simp
  then show ?thesis using assms(1,3,5) by (simp add: one_drainer_def)
qed

lemma proceed_drainer:
  assumes "one_drainer s" "cDraining c = cDraining (co s)"
    and "phases s g = Idle \<or> k = None \<and> cDraining (co s)"
  shows "one_drainer (proceed g c k s)"
proof (cases "cDraining c")
  case True
  show ?thesis
  proof (cases k)
    case None
    then show ?thesis using True assms by (simp add: one_drainer_def proceed_def drainStart_def)
  next
    case (Some a)
    show ?thesis
      by (rule one_drainer_update [where s = s and g = g and p = "Recording a"])
        (use Some True assms in \<open>auto simp: proceed_def drainStart_def\<close>)
  qed
next
  case False
  then have "\<not> isDraining (phases s h)" for h using assms by (auto simp: one_drainer_def)
  then show ?thesis using False assms
    by (auto simp: one_drainer_def proceed_def drainStart_def split: option.splits if_splits)
qed

lemma one_drainer_step: "step s t \<Longrightarrow> one_drainer s \<Longrightarrow> one_drainer t"
proof (induction rule: step.induct)
  case (emit s g now e)
  have "one_drainer (s\<lparr>emitted := emitted s @ [e]\<rparr>)" using emit by (simp add: one_drainer_def)
  then show ?case using emit by (intro proceed_drainer) auto
next
  case (fire s g)
  show ?case
    by (rule one_drainer_update [where s = s and g = g and p = Firing]) (use fire in \<open>simp_all add: one_drainer_def\<close>)
next
  case (flush s g now)
  have "one_drainer (s\<lparr>phases := (phases s)(g := Idle)\<rparr>)"
    by (rule one_drainer_update [where s = s and g = g and p = Idle]) (use flush in \<open>simp_all add: one_drainer_def\<close>)
  then show ?case by (rule proceed_drainer) auto
next
  case (audit s g now a)
  then show ?case by (intro proceed_drainer) auto
next
  case (deliver s g e b k)
  show ?case
    by (rule one_drainer_update [where s = s and g = g and p = "Draining b k"])
      (use deliver(1,2) the_drainer(1) [OF deliver(2,1)] in simp_all)
next
  case (next_batch s g k c b)
  have "cDraining c = cDraining (co s)" "cQueue c = []" using next_batch(2) by (auto simp: drainNext_def split: if_splits)
  note c = this the_drainer(1) [OF next_batch(3,1)]
  show ?case
    by (rule one_drainer_update [where s = s and g = g and p = "Draining b k"]) (use next_batch(1,3) c in simp_all)
next
  case (drained s g k c)
  have c: "c = (co s)\<lparr>cDraining := False\<rparr>" "cQueue (co s) = []"
    using drained(2) by (auto simp: drainNext_def split: if_splits)
  have "isDraining (phases s h) \<Longrightarrow> h = g" for h by (rule the_drainer(2) [OF drained(3,1)])
  then have "\<not> isDraining (((phases s)(g := (case k of None \<Rightarrow> Idle | Some a \<Rightarrow> Recording a))) h)" for h
    by (cases k) auto
  then show ?case using c unfolding one_drainer_def by simp
next
  case (recorded s g a)
  have "cQueue (co s) \<noteq> [] \<longrightarrow> cDraining (co s)" using recorded(2) by (simp add: one_drainer_def)
  then show ?case by - (rule one_drainer_update [where s = s and g = g and p = Idle], use recorded in simp_all)
qed

lemma reachable_induct [consumes 1, case_names start step]:
  assumes "reachable window s" "P (start window)" "\<And>s t. reachable window s \<Longrightarrow> P s \<Longrightarrow> step s t \<Longrightarrow> P t"
  shows "P s"
  using assms(1) unfolding reachable_def
  by (induction rule: rtranclp_induct) (use assms(2,3) in \<open>auto simp: reachable_def\<close>)

lemma one_drainer: "reachable window s \<Longrightarrow> one_drainer s"
proof (induction rule: reachable_induct)
  case start
  show ?case by (simp add: start_def Coalesce_def one_drainer_def)
qed (rule one_drainer_step)

section \<open>Order and content\<close>

text \<open>A stream of events as tokens: a delta is the bytes of its text, each with the kind; any other event is itself.\<close>

definition tokens :: "'r Event \<Rightarrow> (Kind \<times> char + 'r Event) list" where
  "tokens e = (if isStreamDelta e then map (\<lambda>c. Inl (evKind e, c)) (evText e) else [Inr e])"

definition stream :: "'r Event list \<Rightarrow> (Kind \<times> char + 'r Event) list" where
  "stream es = concat (map tokens es)"

lemma stream_simps [simp]: "stream [] = []" "stream (e # es) = tokens e @ stream es" "stream (xs @ ys) = stream xs @ stream ys"
  by (simp_all add: stream_def)

definition buffered :: "'r coalescer \<Rightarrow> (Kind \<times> char + 'r Event) list" where
  "buffered c = (if cPending c then map (\<lambda>b. Inl (cKind c, b)) (cBuf c) else [])"

definition buffer_ok :: "'r coalescer \<Rightarrow> bool" where
  "buffer_ok c \<longleftrightarrow> (if cPending c then (cKind c = KText \<or> cKind c = KReasoning) \<and> cBuf c \<noteq> [] else cBuf c = [])"

definition held :: "'r coalescer \<Rightarrow> (Kind \<times> char + 'r Event) list" where
  "held c = stream (cQueue c) @ buffered c"

lemma flush_held:
  "buffer_ok c \<Longrightarrow> held (enqueueFlushLocked now c) = held c \<and> buffer_ok (enqueueFlushLocked now c) \<and>
     \<not> cPending (enqueueFlushLocked now c)"
  by (auto simp: enqueueFlushLocked_def held_def buffered_def buffer_ok_def tokens_def deltaEvent_def isStreamDelta_def)

lemma flush_queue: "buffer_ok c \<Longrightarrow> stream (cQueue (enqueueFlushLocked now c)) = held c"
  using flush_held [of c now] by (auto simp: held_def buffered_def)

lemma Emit_held:
  assumes ok: "buffer_ok c"
  shows "held (Emit now e c) = held c @ tokens e \<and> buffer_ok (Emit now e c)"
proof (cases "isStreamDelta e")
  case False
  then show ?thesis
    using flush_held [OF ok, of now] flush_queue [OF ok, of now]
    by (auto simp: Emit_def Let_def held_def buffered_def buffer_ok_def tokens_def)
next
  case True
  define c1 where "c1 = (if cPending c \<and> cKind c \<noteq> evKind e then enqueueFlushLocked now c else c)"
  have c1: "held c1 = held c" "buffer_ok c1" "cPending c1 \<Longrightarrow> cKind c1 = evKind e"
    using flush_held [OF ok, of now] ok by (auto simp: c1_def)
  show ?thesis
  proof (cases "\<not> cPending c1 \<and> windowPassed now c1")
    case w: True
    have "Emit now e c = c1\<lparr>cLastForward := Some now, cQueue := cQueue c1 @ [e]\<rparr>"
      using True w by (simp add: Emit_def c1_def Let_def)
    then show ?thesis using c1 w by (auto simp: held_def buffered_def buffer_ok_def)
  next
    case w: False
    define c3 where "c3 = (let c2 = (if \<not> cPending c1 then c1\<lparr>cPending := True, cKind := evKind e, cTimer := True\<rparr> else c1)
      in c2\<lparr>cBuf := cBuf c2 @ evText e\<rparr>)"
    have e: "Emit now e c = (if length (cBuf c3) \<ge> coalesceMaxBytes then enqueueFlushLocked now c3 else c3)"
      using True w by (auto simp: Emit_def c1_def [symmetric] c3_def Let_def)
    have "held c3 = held c @ tokens e" "buffer_ok c3"
      using c1 True by (auto simp: c3_def held_def buffered_def buffer_ok_def tokens_def isStreamDelta_def)
    then show ?thesis using flush_held [of c3 now] e by simp
  qed
qed

text \<open>What the inner sink has got, and what the draining goroutine holds.\<close>

definition got :: "('r, 'a) sys \<Rightarrow> (Kind \<times> char + 'r Event) list" where
  "got s = stream (map projl (filter isl (received s)))"

definition carries :: "('r, 'a) sys \<Rightarrow> (Kind \<times> char + 'r Event) list \<Rightarrow> bool" where
  "carries s X \<longleftrightarrow> (\<forall>g b k. phases s g = Draining b k \<longrightarrow> stream b = X) \<and> (\<not> cDraining (co s) \<longrightarrow> X = [])"

definition in_order :: "('r, 'a) sys \<Rightarrow> bool" where
  "in_order s \<longleftrightarrow> buffer_ok (co s) \<and> (\<exists>X. carries s X \<and> got s @ X @ held (co s) = stream (emitted s))"

lemma drainStart_held:
  "drainStart c = (c', Some b) \<Longrightarrow> held c = stream b @ held c' \<and> buffer_ok c' = buffer_ok c"
  "drainStart c = (c', None) \<Longrightarrow> c' = c"
  by (auto simp: drainStart_def held_def buffered_def buffer_ok_def split: if_splits)

lemma in_order_proceed:
  assumes s: "in_order s" "one_drainer s" and c: "held c = held (co s) @ ts" "buffer_ok c" "cDraining c = cDraining (co s)"
    and e: "stream (emitted s') = stream (emitted s) @ ts" "received s' = received s" "phases s' = phases s"
    and k: "phases s g = Idle \<or> k = None \<and> cDraining (co s)"
  shows "in_order (proceed g c k s')"
proof -
  obtain X where X: "carries s X" "got s @ X @ held (co s) = stream (emitted s)" using s(1) by (auto simp: in_order_def)
  obtain c' o' where d: "drainStart c = (c', o')" by fastforce
  have em: "got s @ X @ held c = stream (emitted s')" unfolding e(1) X(2) [symmetric] c(1) by simp
  show ?thesis
  proof (cases o')
    case None
    have "c' = c" using d None drainStart_held(2) by blast
    moreover have "carries (proceed g c k s') X"
      using X(1) c(3) e(3) k unfolding carries_def proceed_def d None \<open>c' = c\<close> by (cases k) auto
    ultimately show ?thesis using c(2) em unfolding in_order_def by (intro conjI exI [of _ X]) (auto simp: proceed_def d None got_def e(2))
  next
    case (Some b)
    have h: "held c = stream b @ held c'" "buffer_ok c'" "cDraining c'" "\<not> cDraining c"
      using d Some drainStart_held(1) [of c c' b] c(2) by (auto simp: drainStart_def split: if_splits)
    then have "X = []" and nd: "\<And>h b j. phases s h \<noteq> Draining b j"
      using X(1) s(2) c(3) by (auto simp: carries_def one_drainer_def isDraining_def)
    have "carries (proceed g c k s') (stream b)"
      using nd e(3) h unfolding carries_def proceed_def d Some by (auto split: if_splits)
    moreover have "got s @ stream b @ held c' = stream (emitted s')" using em h(1) \<open>X = []\<close> by simp
    ultimately show ?thesis using h(2) unfolding in_order_def
      by (intro conjI exI [of _ "stream b"]) (simp_all add: proceed_def d Some got_def e(2))
  qed
qed

lemma in_order_phase:
  assumes "in_order s" "\<not> isDraining p" "held c = held (co s)" "buffer_ok c = buffer_ok (co s)" "cDraining c = cDraining (co s)"
  shows "in_order (s\<lparr>co := c, phases := (phases s)(g := p)\<rparr>)"
proof -
  obtain X where X: "carries s X" "got s @ X @ held (co s) = stream (emitted s)" "buffer_ok (co s)"
    using assms(1) by (auto simp: in_order_def)
  have "carries (s\<lparr>co := c, phases := (phases s)(g := p)\<rparr>) X"
    using X(1) assms(2,5) by (auto simp: carries_def isDraining_def)
  then show ?thesis using X(2,3) assms(3,4) unfolding in_order_def by (intro conjI exI [of _ X]) (simp_all add: got_def)
qed

lemma in_order_step: "step s t \<Longrightarrow> one_drainer s \<Longrightarrow> in_order s \<Longrightarrow> in_order t"
proof (induction rule: step.induct)
  case (emit s g now e)
  have "buffer_ok (co s)" using emit by (simp add: in_order_def)
  note * = Emit_held [OF this, of now e]
  show ?case
    by (rule in_order_proceed [where s = s and ts = "tokens e"]) (use * emit in auto)
next
  case (fire s g)
  show ?case by (rule in_order_phase) (use fire in \<open>simp_all add: held_def buffered_def buffer_ok_def\<close>)
next
  case (flush s g now)
  have "buffer_ok (co s)" using flush by (simp add: in_order_def)
  note * = flush_held [OF this, of now]
  let ?s = "s\<lparr>phases := (phases s)(g := Idle)\<rparr>"
  have 1: "one_drainer ?s"
    by (rule one_drainer_update [where s = s and g = g and p = Idle]) (use flush in \<open>simp_all add: one_drainer_def\<close>)
  have 2: "in_order ?s" using in_order_phase [OF flush(3), of Idle "co s" g] by simp
  show ?case by (rule in_order_proceed [where s = ?s and ts = "[]"]) (use * 1 2 in auto)
next
  case (audit s g now a)
  have "buffer_ok (co s)" using audit by (simp add: in_order_def)
  note * = flush_held [OF this, of now]
  show ?case by (rule in_order_proceed [where s = s and ts = "[]"]) (use * audit in auto)
next
  case (deliver s g e b k)
  let ?t = "s\<lparr>received := received s @ [Inl e], phases := (phases s)(g := Draining b k)\<rparr>"
  obtain X where X: "carries s X" "got s @ X @ held (co s) = stream (emitted s)" "buffer_ok (co s)"
    using deliver by (auto simp: in_order_def)
  have "stream (e # b) = X" using X(1) deliver(1) unfolding carries_def by blast
  then have x: "X = tokens e @ stream b" by simp
  have d: "cDraining (co s)" and u: "\<And>h. isDraining (phases s h) \<Longrightarrow> h = g"
    using the_drainer [OF deliver(2,1)] by auto
  have "carries ?t (stream b)" using d u by (auto simp: carries_def isDraining_def)
  moreover have "got ?t @ stream b @ held (co ?t) = stream (emitted ?t)" using X(2) by (simp add: got_def x)
  ultimately show ?case using X(3) unfolding in_order_def by (intro conjI exI [of _ "stream b"]) simp_all
next
  case (next_batch s g k c b)
  let ?t = "s\<lparr>co := c, phases := (phases s)(g := Draining b k)\<rparr>"
  obtain X where X: "carries s X" "got s @ X @ held (co s) = stream (emitted s)" "buffer_ok (co s)"
    using next_batch by (auto simp: in_order_def)
  have "stream [] = X" using X(1) next_batch(1) unfolding carries_def by blast
  then have x: "X = []" by simp
  have c: "held (co s) = stream b @ held c" "buffer_ok c = buffer_ok (co s)" "cDraining c = cDraining (co s)"
    using next_batch(2) by (auto simp: drainNext_def held_def buffered_def buffer_ok_def split: if_splits)
  have d: "cDraining (co s)" and u: "\<And>h. isDraining (phases s h) \<Longrightarrow> h = g"
    using the_drainer [OF next_batch(3,1)] by auto
  have "carries ?t (stream b)" using c(3) d u by (auto simp: carries_def isDraining_def)
  moreover have "got ?t @ stream b @ held (co ?t) = stream (emitted ?t)" using X(2) c(1) by (simp add: got_def x)
  ultimately show ?case using X(3) c(2) unfolding in_order_def by (intro conjI exI [of _ "stream b"]) simp_all
next
  case (drained s g k c)
  let ?t = "s\<lparr>co := c, phases := (phases s)(g := (case k of None \<Rightarrow> Idle | Some a \<Rightarrow> Recording a))\<rparr>"
  obtain X where X: "carries s X" "got s @ X @ held (co s) = stream (emitted s)" "buffer_ok (co s)"
    using drained by (auto simp: in_order_def)
  have "stream [] = X" using X(1) drained(1) unfolding carries_def by blast
  then have x: "X = []" by simp
  have c: "held (co s) = held c" "buffer_ok c = buffer_ok (co s)"
    using drained(2) by (auto simp: drainNext_def held_def buffered_def buffer_ok_def split: if_splits)
  have u: "\<And>h. isDraining (phases s h) \<Longrightarrow> h = g" using the_drainer [OF drained(3,1)] by auto
  have "phases ?t h \<noteq> Draining b' k'" for h b' k' using u [of h] by (cases k) (auto simp: isDraining_def)
  then have "carries ?t []" by (simp add: carries_def)
  moreover have "got ?t @ [] @ held (co ?t) = stream (emitted ?t)" using X(2) c(1) by (simp add: got_def x)
  ultimately show ?case using X(3) c(2) unfolding in_order_def by (intro conjI exI [of _ "[]"]) simp_all
next
  case (recorded s g a)
  then obtain X where X: "carries s X" "got s @ X @ held (co s) = stream (emitted s)" "buffer_ok (co s)"
    by (auto simp: in_order_def)
  have "carries (s\<lparr>received := received s @ [Inr a], phases := (phases s)(g := Idle)\<rparr>) X"
    using X(1) by (auto simp: carries_def)
  then show ?case using X(2,3) unfolding in_order_def by (intro conjI exI [of _ X]) (simp_all add: got_def)
qed

lemma in_order: "reachable window s \<Longrightarrow> in_order s"
proof (induction rule: reachable_induct)
  case start
  show ?case by (auto simp: start_def Coalesce_def in_order_def buffer_ok_def held_def buffered_def got_def carries_def)
next
  case (step s t)
  then show ?case using in_order_step one_drainer by blast
qed


lemma got_prefix:
  assumes "reachable window s"
  shows "\<exists>rest. got s @ rest = stream (emitted s)"
    "\<not> cDraining (co s) \<Longrightarrow> \<not> cPending (co s) \<Longrightarrow> got s = stream (emitted s)"
proof -
  obtain X where X: "carries s X" "got s @ X @ held (co s) = stream (emitted s)"
    using in_order [OF assms] by (auto simp: in_order_def)
  then show "\<exists>rest. got s @ rest = stream (emitted s)" by blast
  assume "\<not> cDraining (co s)" "\<not> cPending (co s)"
  moreover from this have "X = []" "cQueue (co s) = []"
    using X(1) one_drainer [OF assms] by (auto simp: carries_def one_drainer_def)
  ultimately show "got s = stream (emitted s)" using X(2) by (simp add: held_def buffered_def)
qed

text \<open>C23. 
  The coalescer loses, invents and reorders nothing, under every interleaving of goroutines and every clock:
  at most one goroutine forwards at a time, what the inner sink has received is always a prefix of what was
  emitted (deltas read as their bytes, other events as themselves), and when nobody forwards and nothing is
  buffered it is all of it.
\<close>

theorem coalesce_preserves_stream:
  assumes "reachable window s"
  shows "(\<forall>g h. isDraining (phases s g) \<longrightarrow> isDraining (phases s h) \<longrightarrow> g = h) \<and>
    (\<exists>rest. got s @ rest = stream (emitted s)) \<and>
    (\<not> cDraining (co s) \<and> \<not> cPending (co s) \<longrightarrow> got s = stream (emitted s))"
  using got_prefix [OF assms] one_drainer [OF assms] by (simp add: one_drainer_def)

section \<open>Everything is delivered\<close>

text \<open>The timer stands behind a buffered delta: it is armed, or its goroutine is on its way.\<close>

definition armed :: "('r, 'a) sys \<Rightarrow> bool" where
  "armed s \<longleftrightarrow> (cPending (co s) \<longrightarrow> cTimer (co s) \<or> (\<exists>g. phases s g = Firing))"

lemma flush_pending [simp]: "\<not> cPending (enqueueFlushLocked now c)"
  by (simp add: enqueueFlushLocked_def)

lemma Emit_armed: "cPending (Emit now e c) \<Longrightarrow> cTimer (Emit now e c) \<or> cPending c \<and> cTimer (Emit now e c) = cTimer c"
  by (auto simp: Emit_def Let_def split: if_splits)

lemma proceed_co: "cPending (co (proceed g c k s)) = cPending c" "cTimer (co (proceed g c k s)) = cTimer c"
  by (simp_all add: proceed_def drainStart_def split: option.splits)

lemma proceed_other: "h \<noteq> g \<Longrightarrow> phases (proceed g c k s) h = phases s h"
  by (simp add: proceed_def split: prod.split option.split)

lemma firing_stays: "phases s h = Firing \<Longrightarrow> phases s g \<noteq> Firing \<Longrightarrow> \<exists>h. ((phases s)(g := p)) h = Firing"
  by (rule exI [of _ h]) auto

lemma armed_step: "step s t \<Longrightarrow> armed s \<Longrightarrow> armed t"
proof (induction rule: step.induct)
  case (emit s g now e)
  have "phases s h = Firing \<Longrightarrow> h \<noteq> g" for h using emit(1) by auto
  then have f: "phases s h = Firing \<Longrightarrow>
      phases (proceed g (Emit now e (co s)) None (s\<lparr>emitted := emitted s @ [e]\<rparr>)) h = Firing" for h
    by (simp add: proceed_other)
  show ?case using emit(2) Emit_armed [of now e "co s"] unfolding armed_def by (auto simp: proceed_co dest: f)
next
  case (next_batch s g k c b)
  then have "cPending c = cPending (co s)" "cTimer c = cTimer (co s)" by (auto simp: drainNext_def split: if_splits)
  moreover have "phases s g \<noteq> Firing" using next_batch(1) by simp
  ultimately show ?case using next_batch(3) by (simp add: armed_def del: fun_upd_apply) (blast intro: firing_stays)
next
  case (drained s g k c)
  then have "cPending c = cPending (co s)" "cTimer c = cTimer (co s)" by (auto simp: drainNext_def split: if_splits)
  moreover have "phases s g \<noteq> Firing" using drained(1) by simp
  ultimately show ?case using drained(3) by (simp add: armed_def del: fun_upd_apply) (blast intro: firing_stays)
next
  case (deliver s g e b k)
  have "phases s g \<noteq> Firing" using deliver(1) by simp
  then show ?case using deliver(2) by (simp add: armed_def del: fun_upd_apply) (blast intro: firing_stays)
next
  case (recorded s g a)
  have "phases s g \<noteq> Firing" using recorded(1) by simp
  then show ?case using recorded(2) by (simp add: armed_def del: fun_upd_apply) (blast intro: firing_stays)
qed (auto simp: armed_def proceed_co)

lemma armed: "reachable window s \<Longrightarrow> armed s"
proof (induction rule: reachable_induct)
  case start
  show ?case by (simp add: start_def Coalesce_def armed_def)
qed (rule armed_step)

text \<open>The steps the system takes on its own, when nobody calls it: the timer fires if it is armed, and the goroutines
  at work go on. There is no emit and no audit among them.\<close>

inductive own_step :: "('r, 'a) sys \<Rightarrow> ('r, 'a) sys \<Rightarrow> bool" where
  fire: "phases s g = Idle \<Longrightarrow> cTimer (co s) \<Longrightarrow>
    own_step s (s\<lparr>co := (co s)\<lparr>cTimer := False\<rparr>, phases := (phases s)(g := Firing)\<rparr>)"
| flush: "phases s g = Firing \<Longrightarrow>
    own_step s (proceed g (enqueueFlushLocked now (co s)) None (s\<lparr>phases := (phases s)(g := Idle)\<rparr>))"
| deliver: "phases s g = Draining (e # b) k \<Longrightarrow>
    own_step s (s\<lparr>received := received s @ [Inl e], phases := (phases s)(g := Draining b k)\<rparr>)"
| next_batch: "phases s g = Draining [] k \<Longrightarrow> drainNext (co s) = (c, Some b) \<Longrightarrow>
    own_step s (s\<lparr>co := c, phases := (phases s)(g := Draining b k)\<rparr>)"
| drained: "phases s g = Draining [] k \<Longrightarrow> drainNext (co s) = (c, None) \<Longrightarrow>
    own_step s (s\<lparr>co := c, phases := (phases s)(g := (case k of None \<Rightarrow> Idle | Some a \<Rightarrow> Recording a))\<rparr>)"
| recorded: "phases s g = Recording a \<Longrightarrow>
    own_step s (s\<lparr>received := received s @ [Inr a], phases := (phases s)(g := Idle)\<rparr>)"

lemma own_step_step: "own_step s t \<Longrightarrow> step s t"
  by (induction rule: own_step.induct) (auto intro: step.intros)

lemma own_step_emitted: "own_step s t \<Longrightarrow> emitted t = emitted s"
  by (induction rule: own_step.induct) (simp_all add: proceed_def split: prod.splits option.splits)

abbreviation own_steps :: "('r, 'a) sys \<Rightarrow> ('r, 'a) sys \<Rightarrow> bool" where
  "own_steps \<equiv> own_step\<^sup>*\<^sup>*"

lemma reachable_own: "own_steps s t \<Longrightarrow> reachable window s \<Longrightarrow> reachable window t \<and> emitted t = emitted s"
proof (induction rule: rtranclp_induct)
  case (step t u)
  then show ?case unfolding reachable_def
    by (metis own_step_emitted own_step_step rtranclp.rtrancl_into_rtrancl)
qed simp

lemma step_others: "step s t \<Longrightarrow> \<exists>g. \<forall>h. h \<noteq> g \<longrightarrow> phases t h = phases s h"
proof (induction rule: step.induct)
  case (emit s g now e)
  show ?case by (rule exI [of _ g]) (simp add: proceed_other)
next
  case (fire s g)
  show ?case by (rule exI [of _ g]) simp
next
  case (flush s g now)
  show ?case by (rule exI [of _ g]) (simp add: proceed_other)
next
  case (audit s g now a)
  show ?case by (rule exI [of _ g]) (simp add: proceed_other)
qed auto

lemma step_idle:
  assumes "step s t" "finite {g. phases s g \<noteq> Idle}"
  shows "finite {g. phases t g \<noteq> Idle}"
proof -
  obtain g where "\<forall>h. h \<noteq> g \<longrightarrow> phases t h = phases s h" using step_others [OF assms(1)] by blast
  then have "{h. phases t h \<noteq> Idle} \<subseteq> insert g {h. phases s h \<noteq> Idle}" by auto
  then show ?thesis using assms(2) finite_subset by blast
qed

lemma finite_busy: "reachable window s \<Longrightarrow> finite {g. phases s g \<noteq> Idle}"
  by (induction rule: reachable_induct) (auto simp: start_def intro: step_idle)

lemma some_idle: "reachable window s \<Longrightarrow> \<exists>g. phases s g = Idle"
  using ex_new_if_finite [OF infinite_UNIV_nat finite_busy] by blast

text \<open>Where no step of its own is left, everything has arrived.\<close>

lemma stuck_delivered:
  assumes r: "reachable window s" and stuck: "\<And>t. \<not> own_step s t"
  shows "got s = stream (emitted s)"
proof -
  have nd: "phases s g \<noteq> Draining b k" for g b k
  proof
    assume d: "phases s g = Draining b k"
    show False
    proof (cases b)
      case Nil
      then show False using d stuck own_step.next_batch [of s g k] own_step.drained [of s g k]
        by (cases "drainNext (co s)"; cases "snd (drainNext (co s))") auto
    next
      case (Cons e b')
      then show False using d stuck own_step.deliver by blast
    qed
  qed
  have nf: "phases s g \<noteq> Firing" for g using stuck own_step.flush by blast
  have "\<not> cTimer (co s)" using stuck own_step.fire some_idle [OF r] by blast
  then have "\<not> cPending (co s)" using armed [OF r] nf by (simp add: armed_def)
  moreover have "\<not> cDraining (co s)" using one_drainer [OF r] nd by (auto simp: one_drainer_def isDraining_def)
  ultimately show ?thesis using got_prefix(2) [OF r] by blast
qed

text \<open>The work that is left: what a batch still has to hand over, the queue, and the steps to the end of each phase.\<close>

fun phase_work :: "('r, 'a) phase \<Rightarrow> nat" where
  "phase_work Idle = 0"
| "phase_work Firing = 6"
| "phase_work (Draining b k) = 2 * length b + 2"
| "phase_work (Recording a) = 1"

definition work :: "('r, 'a) sys \<Rightarrow> nat" where
  "work s = (\<Sum>g | phases s g \<noteq> Idle. phase_work (phases s g)) + 3 * length (cQueue (co s)) +
     (if cTimer (co s) then 7 else 0)"

lemma work_update:
  assumes "finite {g. P g \<noteq> Idle}"
  shows "(\<Sum>h | (P(g := p)) h \<noteq> Idle. phase_work ((P(g := p)) h)) + phase_work (P g) =
    (\<Sum>h | P h \<noteq> Idle. phase_work (P h)) + phase_work p"
proof -
  let ?S = "insert g {h. P h \<noteq> Idle}"
  have e: "(\<Sum>h | Q h \<noteq> Idle. phase_work (Q h)) = (\<Sum>h \<in> ?S. phase_work (Q h))" if "{h. Q h \<noteq> Idle} \<subseteq> ?S" for Q
    by (rule sum.mono_neutral_left) (use assms that in auto)
  have 1: "{h. (P(g := p)) h \<noteq> Idle} \<subseteq> ?S" "{h. P h \<noteq> Idle} \<subseteq> ?S" by auto
  have "(\<Sum>h \<in> ?S - {g}. phase_work ((P(g := p)) h)) = (\<Sum>h \<in> ?S - {g}. phase_work (P h))" by (rule sum.cong) auto
  moreover have r: "(\<Sum>h \<in> ?S. phase_work (Q h)) = phase_work (Q g) + (\<Sum>h \<in> ?S - {g}. phase_work (Q h))" for Q
    by (rule sum.remove) (use assms in auto)
  ultimately show ?thesis unfolding e [OF 1(1)] e [OF 1(2)] r [of P] r [of "P(g := p)"] by simp
qed

lemma work_eq:
  assumes "finite {g. phases s g \<noteq> Idle}" "phases t = (phases s)(g := p)"
  shows "work t + phase_work (phases s g) + 3 * length (cQueue (co s)) + (if cTimer (co s) then 7 else 0) =
    work s + phase_work p + 3 * length (cQueue (co t)) + (if cTimer (co t) then 7 else 0)"
  using work_update [OF assms(1), of g p] by (simp add: work_def assms(2))

lemma own_step_work: "own_step s t \<Longrightarrow> finite {g. phases s g \<noteq> Idle} \<Longrightarrow> work t < work s"
proof (induction rule: own_step.induct)
  case (fire s g)
  show ?case using work_eq [OF fire(3), of "s\<lparr>co := (co s)\<lparr>cTimer := False\<rparr>, phases := (phases s)(g := Firing)\<rparr>" g Firing] fire(1,2)
    by simp
next
  case (flush s g now)
  let ?c = "enqueueFlushLocked now (co s)"
  let ?s = "s\<lparr>phases := (phases s)(g := Idle)\<rparr>"
  let ?t = "proceed g ?c None ?s"
  have q: "length (cQueue ?c) \<le> length (cQueue (co s)) + 1" "cTimer ?c \<Longrightarrow> cTimer (co s)"
    by (auto simp: enqueueFlushLocked_def split: if_splits)
  show ?case
  proof (cases "cDraining ?c \<or> cQueue ?c = []")
    case True
    then have t: "?t = ?s\<lparr>co := ?c\<rparr>" by (simp add: proceed_def drainStart_def)
    show ?thesis using work_eq [OF flush(2), of ?t g Idle] q flush(1) unfolding t by (auto split: if_splits)
  next
    case False
    then have t: "phases ?t = (phases s)(g := Draining (cQueue ?c) None)" "cQueue (co ?t) = []" "cTimer (co ?t) = cTimer ?c"
      by (simp_all add: proceed_def drainStart_def)
    show ?thesis using work_eq [OF flush(2) t(1)] t(2,3) q flush(1) by (auto split: if_splits)
  qed
next
  case (deliver s g e b k)
  show ?case
    using work_eq [OF deliver(2), of "s\<lparr>received := received s @ [Inl e], phases := (phases s)(g := Draining b k)\<rparr>" g "Draining b k"]
      deliver(1) by simp
next
  case (next_batch s g k c b)
  then have c: "b = cQueue (co s)" "b \<noteq> []" "cQueue c = []" "cTimer c = cTimer (co s)" by (auto simp: drainNext_def split: if_splits)
  then have l: "0 < length (cQueue (co s))" by simp
  have "work (s\<lparr>co := c, phases := (phases s)(g := Draining b k)\<rparr>) + length (cQueue (co s)) = work s"
    using work_eq [OF next_batch(3), of "s\<lparr>co := c, phases := (phases s)(g := Draining b k)\<rparr>" g "Draining b k"] next_batch(1) c
    by simp
  with l show ?case by linarith
next
  case (drained s g k c)
  then have c: "cQueue c = []" "cQueue (co s) = []" "cTimer c = cTimer (co s)" by (auto simp: drainNext_def split: if_splits)
  define p :: "('a, 'b) phase" where "p = (case k of None \<Rightarrow> Idle | Some a \<Rightarrow> Recording a)"
  have "phase_work p \<le> 1" by (cases k) (simp_all add: p_def)
  then show ?case
    using work_eq [OF drained(3), of "s\<lparr>co := c, phases := (phases s)(g := p)\<rparr>" g p] drained(1) c
    unfolding p_def [symmetric] by simp
next
  case (recorded s g a)
  show ?case
    using work_eq [OF recorded(2), of "s\<lparr>received := received s @ [Inr a], phases := (phases s)(g := Idle)\<rparr>" g Idle] recorded(1)
    by simp
qed

lemma own_steps_bounded:
  "(own_step ^^ n) s t \<Longrightarrow> reachable window s \<Longrightarrow> work t + n \<le> work s \<and> reachable window t"
proof (induction n arbitrary: t)
  case (Suc n)
  then obtain u where u: "(own_step ^^ n) s u" "own_step u t" by auto
  with Suc have "work u + n \<le> work s" "reachable window u" by auto
  moreover have "work t < work u" by (rule own_step_work [OF u(2) finite_busy [OF \<open>reachable window u\<close>]])
  moreover have "reachable window t" using reachable_own [OF r_into_rtranclp [where r = own_step, OF u(2)]] \<open>reachable window u\<close> by blast
  ultimately show ?case by simp
qed simp

text \<open>C24. 
  Nothing stays behind. From every reachable state, once nobody calls the coalescer any more, it does a bounded
  number of steps on its own, in whatever order its goroutines run: the armed timer fires, batches are handed
  over. When no such step is left, the inner sink has received all that was emitted.
\<close>

theorem everything_delivered:
  assumes "reachable window s"
  shows "((own_step ^^ n) s t \<longrightarrow> n \<le> work s) \<and>
    (own_steps s t \<and> (\<forall>u. \<not> own_step t u) \<longrightarrow> emitted t = emitted s \<and> got t = stream (emitted s))"
proof (intro conjI impI)
  assume "(own_step ^^ n) s t"
  from own_steps_bounded [OF this assms] show "n \<le> work s" by simp
next
  assume t: "own_steps s t \<and> (\<forall>u. \<not> own_step t u)"
  then have r: "reachable window t" "emitted t = emitted s" using reachable_own assms by blast+
  then show "emitted t = emitted s" "got t = stream (emitted s)" using stuck_delivered [OF r(1)] t by auto
qed

section \<open>Audits\<close>


definition two_deltas :: "bytes \<Rightarrow> bytes \<Rightarrow> 'r Event list" where
  "two_deltas a b = [deltaEvent KText a, deltaEvent KText b]"

text \<open>
  An audit can overtake the delta it is meant to follow. While one goroutine delivers, another may emit a delta,
  record an audit (which flushes the delta into the queue of the first) and have the audit recorded before
  the delta, and before the event being delivered, has reached the inner sink.
\<close>

theorem audit_overtakes_delta:
  "\<exists>s :: (unit, nat) sys. reachable 16 s \<and> emitted s = two_deltas ''a'' ''b'' \<and> received s = [Inr 0]"
proof -
  let ?a = "deltaEvent KText ''a'' :: unit Event" and ?b = "deltaEvent KText ''b'' :: unit Event"
  let ?s0 = "start 16 :: (unit, nat) sys"
  let ?s1 = "proceed 1 (Emit 100 ?a (co ?s0)) None (?s0\<lparr>emitted := emitted ?s0 @ [?a]\<rparr>)"
  let ?s2 = "proceed 2 (Emit 101 ?b (co ?s1)) None (?s1\<lparr>emitted := emitted ?s1 @ [?b]\<rparr>)"
  let ?s3 = "proceed 2 (enqueueFlushLocked 102 (co ?s2)) (Some 0) ?s2"
  let ?s4 = "?s3\<lparr>received := received ?s3 @ [Inr 0], phases := (phases ?s3)(2 := Idle)\<rparr>"
  note defs = proceed_def drainStart_def Emit_def enqueueFlushLocked_def windowPassed_def isStreamDelta_def deltaEvent_def
    start_def Coalesce_def coalesceMaxBytes_def Let_def
  have "step ?s0 ?s1" by (rule step.emit) (simp add: start_def)
  moreover have "step ?s1 ?s2" by (rule step.emit) (simp add: defs)
  moreover have "step ?s2 ?s3" by (rule step.audit) (simp add: defs)
  moreover have "step ?s3 ?s4" by (rule step.recorded) (simp add: defs)
  ultimately have "reachable 16 ?s4" unfolding reachable_def by (meson rtranclp.rtrancl_into_rtrancl rtranclp.rtrancl_refl)
  moreover have "emitted ?s4 = two_deltas ''a'' ''b''" by (simp add: defs two_deltas_def)
  moreover have "received ?s4 = [Inr 0]" by (simp add: defs)
  ultimately show ?thesis by blast
qed

section \<open>The properties on a sample run\<close>

definition sample_run :: "(unit, nat) sys" where
  "sample_run = proceed 1 (Emit 100 (deltaEvent KText ''a'') (Coalesce 16)) None ((start 16)\<lparr>emitted := [deltaEvent KText ''a'']\<rparr>)"

lemma sample_run_reachable: "reachable 16 sample_run"
proof -
  let ?s = "start 16 :: (unit, nat) sys"
  have "step ?s (proceed 1 (Emit 100 (deltaEvent KText ''a'') (co ?s)) None (?s\<lparr>emitted := emitted ?s @ [deltaEvent KText ''a'']\<rparr>))"
    by (rule step.emit) (simp add: start_def)
  then have "step ?s sample_run" by (simp add: sample_run_def start_def)
  then show ?thesis unfolding reachable_def by blast
qed

theorem coalesce_preserves_stream_witness: "\<exists>rest. got sample_run @ rest = stream (emitted sample_run)"
  using coalesce_preserves_stream [OF sample_run_reachable] by blast

text \<open>A second delta waits for the timer; six steps of the system on its own hand everything over.\<close>

definition waiting_run :: "(unit, nat) sys" where
  "waiting_run = (let b = deltaEvent KText ''b''; s = sample_run in
     proceed 2 (Emit 101 b (co s)) None (s\<lparr>emitted := emitted s @ [b]\<rparr>))"

definition run_state :: "bytes \<Rightarrow> bool \<times> bool \<times> bool \<Rightarrow> (nat \<Rightarrow> (unit, nat) phase) \<Rightarrow> (unit Event + nat) list \<Rightarrow> int \<Rightarrow> (unit, nat) sys" where
  "run_state buf f ph rs t = \<lparr>co = \<lparr>cWindow = 16, cKind = KText, cBuf = buf, cPending = fst f, cTimer = fst (snd f),
     cLastForward = Some t, cQueue = [], cDraining = snd (snd f)\<rparr>, phases = ph, received = rs,
     emitted = two_deltas ''a'' ''b''\<rparr>"

lemmas run_defs = proceed_def drainStart_def drainNext_def Emit_def enqueueFlushLocked_def windowPassed_def
  isStreamDelta_def deltaEvent_def start_def Coalesce_def coalesceMaxBytes_def Let_def sample_run_def waiting_run_def
  run_state_def two_deltas_def

lemma waiting_run_eq:
  "waiting_run = run_state ''b'' (True, True, True) ((\<lambda>_. Idle)(1 := Draining [deltaEvent KText ''a''] None)) [] 100"
  by (simp add: run_defs)

lemma waiting_run_reachable: "reachable 16 waiting_run"
proof -
  have "phases sample_run 2 = Idle" by (simp add: run_defs)
  then have "step sample_run waiting_run" unfolding waiting_run_def Let_def by (intro step.emit) simp
  then show ?thesis using sample_run_reachable unfolding reachable_def by (rule rtranclp.rtrancl_into_rtrancl [rotated])
qed

lemma six_steps:
  "r a b \<Longrightarrow> r b c \<Longrightarrow> r c d \<Longrightarrow> r d e \<Longrightarrow> r e f \<Longrightarrow> r f g \<Longrightarrow> (r ^^ 6) a g"
  by (simp add: eval_nat_numeral) blast

theorem everything_delivered_witness:
  "\<exists>t. (own_step ^^ 6) waiting_run t \<and> 6 \<le> work waiting_run \<and> got t = stream (two_deltas ''a'' ''b'')"
proof -
  let ?a = "deltaEvent KText ''a'' :: unit Event" and ?b = "deltaEvent KText ''b'' :: unit Event"
  let ?i = "\<lambda>_ :: nat. Idle :: (unit, nat) phase"
  let ?s0 = "run_state ''b'' (True, True, True) (?i(1 := Draining [?a] None)) [] 100"
  let ?s1 = "run_state ''b'' (True, True, True) (?i(1 := Draining [] None)) [Inl ?a] 100"
  let ?s2 = "run_state ''b'' (True, True, False) ?i [Inl ?a] 100"
  let ?s3 = "run_state ''b'' (True, False, False) (?i(3 := Firing)) [Inl ?a] 100"
  let ?s4 = "run_state [] (False, False, True) (?i(3 := Draining [?b] None)) [Inl ?a] 120"
  let ?s5 = "run_state [] (False, False, True) (?i(3 := Draining [] None)) [Inl ?a, Inl ?b] 120"
  let ?s6 = "run_state [] (False, False, False) ?i [Inl ?a, Inl ?b] 120"
  have 1: "own_step ?s0 ?s1" using own_step.deliver [of ?s0 1 ?a "[]" None] by (simp add: run_state_def)
  have 2: "own_step ?s1 ?s2"
    using own_step.drained [of ?s1 1 None "co ?s2"] by (simp add: run_state_def drainNext_def fun_upd_idem)
  have 3: "own_step ?s2 ?s3" using own_step.fire [of ?s2 3] by (simp add: run_state_def)
  have 4: "own_step ?s3 ?s4"
    using own_step.flush [of ?s3 3 120] by (simp add: run_state_def proceed_def drainStart_def enqueueFlushLocked_def)
  have 5: "own_step ?s4 ?s5" using own_step.deliver [of ?s4 3 ?b "[]" None] by (simp add: run_state_def)
  have 6: "own_step ?s5 ?s6"
    using own_step.drained [of ?s5 3 None "co ?s6"] by (simp add: run_state_def drainNext_def fun_upd_idem)
  have run: "(own_step ^^ 6) ?s0 ?s6" by (rule six_steps [where r = own_step, OF 1 2 3 4 5 6])
  have "\<not> own_step ?s6 u" for u by (auto simp: run_state_def elim!: own_step.cases)
  moreover have "own_steps ?s0 ?s6" using run by (rule relpowp_imp_rtranclp)
  ultimately have "got ?s6 = stream (emitted ?s0)" "6 \<le> work ?s0"
    using everything_delivered [OF waiting_run_reachable, unfolded waiting_run_eq, of 6 ?s6] run by metis+
  then show ?thesis unfolding waiting_run_eq using run by (auto simp: run_state_def intro!: exI [of _ ?s6])
qed

end
