(* ===== verification/ToolPairing.thy ===== *)
theory ToolPairing
  imports GoBase "HOL-Library.Sublist"
begin

text \<open>
  The repair of a conversation before it is sent or loaded, \<open>internal/provider/provider.go\<close>: every tool call of an
  assistant message is answered by a tool message, in call order and at once, orphan results are dropped
  (or kept, for a stored session), call names are filled in and truncated argument documents are closed.
  The fields of a message that no rule reads are one value, \<open>None\<close> when they are all zero.
\<close>

section \<open>\<open>json.Valid\<close>\<close>

definition jws :: "char \<Rightarrow> bool" where
  "jws c \<longleftrightarrow> c = CHR '' '' \<or> c = TAB \<or> c = CR \<or> c = LF"

definition skip_ws :: "bytes \<Rightarrow> bytes" where
  "skip_ws s = dropWhile jws s"

definition jhex :: "char \<Rightarrow> bool" where
  "jhex c \<longleftrightarrow> c \<in> set ''0123456789abcdefABCDEF''"

definition jdigit :: "char \<Rightarrow> bool" where
  "jdigit c \<longleftrightarrow> c \<in> set ''0123456789''"

text \<open>The rest of a string after its opening quote.\<close>

function jstr :: "bytes \<Rightarrow> bytes option" where
  "jstr [] = None"
| "jstr (c # s) =
     (if c = DQ then Some s
      else if byte c < 32 then None
      else if c \<noteq> BSL then jstr s
      else (case s of
              [] \<Rightarrow> None
            | e # r \<Rightarrow>
                if e \<in> set [DQ, BSL, CHR ''/'', CHR ''b'', CHR ''f'', CHR ''n'', CHR ''r'', CHR ''t''] then jstr r
                else if e = CHR ''u'' \<and> length r \<ge> 4 \<and> list_all jhex (take 4 r) then jstr (drop 4 r)
                else None))"
  by pat_completeness auto
termination by (relation "measure length") auto

text \<open>A number: sign, integer part, fraction, exponent.\<close>

definition digits1 :: "bytes \<Rightarrow> bytes option" where
  "digits1 s = (if s \<noteq> [] \<and> jdigit (hd s) then Some (dropWhile jdigit s) else None)"

definition jint :: "bytes \<Rightarrow> bytes option" where
  "jint s = (case s of c # r \<Rightarrow> if c = CHR ''0'' then Some r else digits1 s | [] \<Rightarrow> None)"

definition jfrac :: "bytes \<Rightarrow> bytes option" where
  "jfrac s = (case s of c # r \<Rightarrow> if c = CHR ''.'' then digits1 r else Some s | [] \<Rightarrow> Some s)"

definition jexp :: "bytes \<Rightarrow> bytes option" where
  "jexp s =
     (case s of
        c # r \<Rightarrow>
          if c = CHR ''e'' \<or> c = CHR ''E'' then digits1 (if r \<noteq> [] \<and> (hd r = CHR ''+'' \<or> hd r = CHR ''-'') then tl r else r)
          else Some s
      | [] \<Rightarrow> Some s)"

definition jnum :: "bytes \<Rightarrow> bytes option" where
  "jnum s =
     (case jint (if s \<noteq> [] \<and> hd s = CHR ''-'' then tl s else s) of
        None \<Rightarrow> None | Some r \<Rightarrow> (case jfrac r of None \<Rightarrow> None | Some r' \<Rightarrow> jexp r'))"

definition jlit :: "bytes \<Rightarrow> bytes \<Rightarrow> bytes option" where
  "jlit lit s = (if HasPrefix s lit then Some (drop (length lit) s) else None)"

definition head_is :: "char \<Rightarrow> bytes \<Rightarrow> bool" where
  "head_is c s \<longleftrightarrow> s \<noteq> [] \<and> hd s = c"

text \<open>A value, the elements of an array and the members of an object; the first argument is fuel, the second the
  nesting depth (the scanner of \<open>encoding/json\<close> allows 10000).\<close>

fun jval :: "nat \<Rightarrow> nat \<Rightarrow> bytes \<Rightarrow> bytes option"
  and jelems :: "nat \<Rightarrow> nat \<Rightarrow> bytes \<Rightarrow> bytes option"
  and jmembers :: "nat \<Rightarrow> nat \<Rightarrow> bytes \<Rightarrow> bytes option"
where
  "jval 0 d s = None"
| "jval (Suc f) d s =
     (case skip_ws s of
        [] \<Rightarrow> None
      | c # r \<Rightarrow>
          if c = CHR ''{'' then
            (if d \<ge> 10 * 1000 then None else if head_is CHR ''}'' (skip_ws r) then Some (tl (skip_ws r)) else jmembers f (d + 1) r)
          else if c = CHR ''['' then
            (if d \<ge> 10 * 1000 then None else if head_is CHR '']'' (skip_ws r) then Some (tl (skip_ws r)) else jelems f (d + 1) r)
          else if c = DQ then jstr r
          else if c = CHR ''t'' then jlit ''rue'' r
          else if c = CHR ''f'' then jlit ''alse'' r
          else if c = CHR ''n'' then jlit ''ull'' r
          else jnum (c # r))"
| "jelems 0 d s = None"
| "jelems (Suc f) d s =
     (case jval f d s of
        None \<Rightarrow> None
      | Some r0 \<Rightarrow>
          let r = skip_ws r0 in
          if head_is CHR '','' r then jelems f d (tl r) else if head_is CHR '']'' r then Some (tl r) else None)"
| "jmembers 0 d s = None"
| "jmembers (Suc f) d s =
     (let q = skip_ws s in
      if \<not> head_is DQ q then None
      else (case jstr (tl q) of
              None \<Rightarrow> None
            | Some r1 \<Rightarrow>
                if \<not> head_is CHR '':'' (skip_ws r1) then None
                else (case jval f d (tl (skip_ws r1)) of
                        None \<Rightarrow> None
                      | Some r2 \<Rightarrow>
                          let r = skip_ws r2 in
                          if head_is CHR '','' r then jmembers f d (tl r)
                          else if head_is CHR ''}'' r then Some (tl r) else None)))"

text \<open>Every call consumes a byte or follows one that did, so twice the length is enough fuel.\<close>

definition json_Valid :: "bytes \<Rightarrow> bool" where
  "json_Valid s = (case jval (2 * length s + 2) 0 s of None \<Rightarrow> False | Some r \<Rightarrow> skip_ws r = [])"

section \<open>Messages\<close>

datatype Role = RoleSystem | RoleUser | RoleAssistant | RoleTool

record 'o ToolCall =
  tcID :: bytes
  tcName :: bytes
  tcArguments :: bytes
  tcOther :: "'o option"

record DecisionReceipt =
  drID :: bytes
  drKind :: bytes
  drTool :: bytes
  drSubject :: bytes
  drOutcome :: bytes

record 'o Message =
  mRole :: Role
  mBody :: bytes
  mRawContent :: bytes
  mProviderContent :: bytes
  mToolCalls :: "'o ToolCall list"
  mToolCallID :: bytes
  mName :: bytes
  mLocalOnly :: bool
  mDecisionReceipt :: "DecisionReceipt option"
  mDecisionReceipts :: "DecisionReceipt list"
  mToolExecution :: "'o option"
  mOther :: "'o option"

definition interruptedToolResult :: bytes where
  "interruptedToolResult = ''[no result: the previous turn was interrupted before this tool call completed]''"

definition placeholder :: "'o ToolCall \<Rightarrow> 'o Message" where
  "placeholder tc =
     \<lparr>mRole = RoleTool, mBody = interruptedToolResult, mRawContent = [], mProviderContent = [], mToolCalls = [],
      mToolCallID = tcID tc, mName = tcName tc, mLocalOnly = False, mDecisionReceipt = None, mDecisionReceipts = [],
      mToolExecution = None, mOther = None\<rparr>"

section \<open>What is sent\<close>

definition localFields :: "'o Message \<Rightarrow> bool" where
  "localFields m \<longleftrightarrow> mLocalOnly m \<or> mRawContent m \<noteq> [] \<or> mProviderContent m \<noteq> [] \<or> mDecisionReceipt m \<noteq> None \<or>
     length (mDecisionReceipts m) > 0 \<or> mToolExecution m \<noteq> None"

definition providerView :: "'o Message \<Rightarrow> 'o Message" where
  "providerView m =
     (let m1 = (if mProviderContent m \<noteq> [] then m\<lparr>mBody := mProviderContent m, mProviderContent := []\<rparr> else m)
      in m1\<lparr>mRawContent := [], mDecisionReceipt := None, mDecisionReceipts := [], mToolExecution := None\<rparr>)"

definition ModelMessages :: "'o Message list \<Rightarrow> 'o Message list" where
  "ModelMessages msgs =
     (if \<not> list_ex localFields msgs then msgs else map providerView (filter (\<lambda>m. \<not> mLocalOnly m) msgs))"

section \<open>Pairing\<close>

fun idLoop :: "bytes list \<Rightarrow> 'o ToolCall list \<Rightarrow> bool" where
  "idLoop seen [] = True"
| "idLoop seen (tc # tcs) =
     (if tcID tc = [] then False else if tcID tc \<in> set seen then False else idLoop (tcID tc # seen) tcs)"

definition idDistinct :: "'o ToolCall list \<Rightarrow> bool" where
  "idDistinct calls = idLoop [] calls"

text \<open>\<open>byID\<close>: the last result with an id wins.\<close>

definition byID :: "'o Message list \<Rightarrow> bytes \<Rightarrow> 'o Message option" where
  "byID avail i = find (\<lambda>r. mToolCallID r = i) (rev avail)"

fun pairByPosition :: "'o ToolCall list \<Rightarrow> 'o Message list \<Rightarrow> 'o Message list" where
  "pairByPosition [] avail = []"
| "pairByPosition (tc # tcs) [] = placeholder tc # pairByPosition tcs []"
| "pairByPosition (tc # tcs) (r # rs) = r\<lparr>mToolCallID := tcID tc, mName := tcName tc\<rparr> # pairByPosition tcs rs"

definition pairToolResults :: "'o ToolCall list \<Rightarrow> 'o Message list \<Rightarrow> 'o Message list" where
  "pairToolResults calls avail =
     (if idDistinct calls then
        map (\<lambda>tc. case byID avail (tcID tc) of Some r \<Rightarrow> r\<lparr>mName := tcName tc\<rparr> | None \<Rightarrow> placeholder tc) calls
      else pairByPosition calls avail)"

definition sessionToolResults :: "'o ToolCall list \<Rightarrow> 'o Message list \<Rightarrow> 'o Message list" where
  "sessionToolResults calls avail =
     (if idDistinct calls then
        avail @ map placeholder (filter (\<lambda>tc. tcID tc \<notin> set (map mToolCallID avail)) calls)
      else avail @ map placeholder (drop (length avail) calls))"

definition nameByID :: "'o Message list \<Rightarrow> bytes \<Rightarrow> bytes option" where
  "nameByID results i = map_option mName (find (\<lambda>r. mName r \<noteq> [] \<and> mToolCallID r = i) (rev results))"

fun nameByPosition :: "'o ToolCall list \<Rightarrow> 'o Message list \<Rightarrow> 'o ToolCall list" where
  "nameByPosition tcs [] = tcs"
| "nameByPosition [] rs = []"
| "nameByPosition (tc # tcs) (r # rs) = (if tcName tc = [] then tc\<lparr>tcName := mName r\<rparr> else tc) # nameByPosition tcs rs"

definition backfillToolCallNames :: "'o ToolCall list \<Rightarrow> 'o Message list \<Rightarrow> 'o ToolCall list" where
  "backfillToolCallNames calls results =
     (if \<not> list_ex (\<lambda>c. tcName c = []) calls then calls
      else if idDistinct calls then
        map (\<lambda>tc. if tcName tc = [] then (case nameByID results (tcID tc) of Some n \<Rightarrow> tc\<lparr>tcName := n\<rparr> | None \<Rightarrow> tc) else tc) calls
      else nameByPosition calls results)"

section \<open>Truncated arguments\<close>

fun closeLoop :: "bytes \<Rightarrow> bytes \<Rightarrow> bool \<Rightarrow> bool \<Rightarrow> bytes \<times> bool \<times> bool" where
  "closeLoop [] stack inStr esc = (stack, inStr, esc)"
| "closeLoop (c # s) stack inStr esc =
     (if inStr then
        (if esc then closeLoop s stack True False
         else if c = BSL then closeLoop s stack True True
         else if c = DQ then closeLoop s stack False False
         else closeLoop s stack True False)
      else if c = DQ then closeLoop s stack True esc
      else if c = CHR ''{'' then closeLoop s (CHR ''}'' # stack) False esc
      else if c = CHR ''['' then closeLoop s (CHR '']'' # stack) False esc
      else if c = CHR ''}'' \<or> c = CHR '']'' then closeLoop s (if stack \<noteq> [] then tl stack else stack) False esc
      else closeLoop s stack False esc)"

definition closeTruncatedJSON :: "bytes \<Rightarrow> bytes" where
  "closeTruncatedJSON s =
     (let (stack, inStr, esc) = closeLoop s [] False False;
          out1 = (if esc then butlast s else s);
          out2 = (if inStr then out1 @ [DQ] else out1);
          trimmed = rev (dropWhile jws (rev out2));
          out3 = (if HasSuffix trimmed '','' then butlast trimmed
                  else if HasSuffix trimmed '':'' then trimmed @ ''null'' else out2);
          out4 = out3 @ stack
      in if json_Valid out4 then out4 else ''{}'')"

definition badArgs :: "'o ToolCall \<Rightarrow> bool" where
  "badArgs tc \<longleftrightarrow> tcArguments tc \<noteq> [] \<and> \<not> json_Valid (tcArguments tc)"

definition needsToolCallArgRepair :: "'o ToolCall list \<Rightarrow> bool" where
  "needsToolCallArgRepair calls = list_ex badArgs calls"

definition repairToolCallArgs :: "'o Message \<Rightarrow> 'o Message" where
  "repairToolCallArgs m =
     (if \<not> list_ex badArgs (mToolCalls m) then m
      else m\<lparr>mToolCalls := map (\<lambda>tc. if badArgs tc then tc\<lparr>tcArguments := closeTruncatedJSON (tcArguments tc)\<rparr> else tc)
        (mToolCalls m)\<rparr>)"

section \<open>The normalization\<close>

definition calling :: "'o Message \<Rightarrow> bool" where
  "calling m \<longleftrightarrow> mRole m = RoleAssistant \<and> length (mToolCalls m) > 0"

definition isResult :: "'o Message \<Rightarrow> bool" where
  "isResult m \<longleftrightarrow> mRole m = RoleTool \<and> \<not> mLocalOnly m"

text \<open>\<open>toolTurnWellFormed\<close>.\<close>

definition toolTurnWellFormed :: "'o ToolCall list \<Rightarrow> 'o Message list \<Rightarrow> bool" where
  "toolTurnWellFormed calls results \<longleftrightarrow>
     length calls = length results \<and> list_all (\<lambda>tc. tcName tc \<noteq> []) calls \<and>
     list_all (\<lambda>(tc, r). mToolCallID r = tcID tc \<and> mName r = tcName tc) (zip calls results)"

function fastPath :: "bool \<Rightarrow> 'o Message list \<Rightarrow> bool" where
  "fastPath drp [] = True"
| "fastPath drp (m # ms) =
     (if mLocalOnly m then (if drp then False else fastPath drp ms)
      else if calling m then
        (let run = takeWhile isResult ms in
         if \<not> toolTurnWellFormed (mToolCalls m) run \<or> needsToolCallArgRepair (mToolCalls m) then False
         else fastPath drp (dropWhile isResult ms))
      else if mRole m = RoleTool \<and> drp then False
      else fastPath drp ms)"
  by pat_completeness auto
termination by (relation "measure (\<lambda>(_, ms). length ms)") (auto simp: le_imp_less_Suc length_dropWhile_le)

function slowPath :: "bool \<Rightarrow> 'o Message list \<Rightarrow> 'o Message list" where
  "slowPath drp [] = []"
| "slowPath drp (m # ms) =
     (if mLocalOnly m then (if drp then slowPath drp ms else m # slowPath drp ms)
      else if calling m then
        (let run = takeWhile isResult ms; calls = backfillToolCallNames (mToolCalls m) run
         in repairToolCallArgs (m\<lparr>mToolCalls := calls\<rparr>) #
            (if drp then pairToolResults calls run else sessionToolResults calls run) @ slowPath drp (dropWhile isResult ms))
      else if mRole m = RoleTool then (if drp then slowPath drp ms else m # slowPath drp ms)
      else m # slowPath drp ms)"
  by pat_completeness auto
termination by (relation "measure (\<lambda>(_, ms). length ms)") (auto simp: le_imp_less_Suc length_dropWhile_le)

definition normalizeMessages :: "bool \<Rightarrow> 'o Message list \<Rightarrow> 'o Message list" where
  "normalizeMessages drp msgs = (if fastPath drp msgs then msgs else slowPath drp msgs)"

definition NormalizeMessages :: "'o Message list \<Rightarrow> 'o Message list" where
  "NormalizeMessages msgs = normalizeMessages True msgs"

definition SanitizeToolPairing :: "'o Message list \<Rightarrow> 'o Message list" where
  "SanitizeToolPairing msgs = NormalizeMessages msgs"

text \<open>The migration of receipts stored as messages of their own. The first loop only decides whether there is one.\<close>

fun receiptLoop :: "bool \<Rightarrow> 'o Message list \<Rightarrow> bool" where
  "receiptLoop target [] = False"
| "receiptLoop target (m # ms) =
     (if mRole m = RoleUser \<and> \<not> mLocalOnly m then receiptLoop False ms
      else if mRole m = RoleAssistant \<and> \<not> mLocalOnly m then receiptLoop True ms
      else if target \<and> mLocalOnly m \<and> mDecisionReceipt m \<noteq> None then True
      else receiptLoop target ms)"

fun attachLoop :: "nat option \<Rightarrow> 'o Message list \<Rightarrow> 'o Message list \<Rightarrow> 'o Message list" where
  "attachLoop target out [] = out"
| "attachLoop target out (m # ms) =
     (if mRole m = RoleUser \<and> \<not> mLocalOnly m then attachLoop None (out @ [m]) ms
      else if mRole m = RoleAssistant \<and> \<not> mLocalOnly m then attachLoop (Some (length out)) (out @ [m]) ms
      else case (target, mLocalOnly m, mDecisionReceipt m) of
        (Some t, True, Some r) \<Rightarrow>
          attachLoop target (out[t := (out ! t)\<lparr>mDecisionReceipts := mDecisionReceipts (out ! t) @ [r]\<rparr>]) ms
      | _ \<Rightarrow> attachLoop target (out @ [m]) ms)"

definition attachStandaloneDecisionReceipts :: "'o Message list \<Rightarrow> 'o Message list" where
  "attachStandaloneDecisionReceipts msgs = (if \<not> receiptLoop False msgs then msgs else attachLoop None [] msgs)"

definition NormalizeSessionMessages :: "'o Message list \<Rightarrow> 'o Message list" where
  "NormalizeSessionMessages msgs = normalizeMessages False (attachStandaloneDecisionReceipts msgs)"

lemma json_Valid_samples:
  "json_Valid ''{}''" "\<not> json_Valid ''{''" "json_Valid '' [1, -2.5e3 , true]''"
  by code_simp+

section \<open>Pairing: lemmas\<close>

lemma idLoop_iff: "idLoop seen tcs \<longleftrightarrow> distinct (map tcID tcs) \<and> (\<forall>tc \<in> set tcs. tcID tc \<noteq> [] \<and> tcID tc \<notin> set seen)"
  by (induction tcs arbitrary: seen) (auto simp: rev_image_eqI)

lemma idDistinct_iff: "idDistinct tcs \<longleftrightarrow> distinct (map tcID tcs) \<and> [] \<notin> set (map tcID tcs)"
  by (force simp: idDistinct_def idLoop_iff)

lemma idDistinct_inj: "idDistinct tcs \<Longrightarrow> i < length tcs \<Longrightarrow> j < length tcs \<Longrightarrow> tcID (tcs ! i) = tcID (tcs ! j) \<Longrightarrow> i = j"
  unfolding idDistinct_iff by (metis length_map nth_eq_iff_index_eq nth_map)

lemma find_SomeD: "find P xs = Some x \<Longrightarrow> P x \<and> x \<in> set xs"
  by (induction xs) (auto split: if_splits)

text \<open>Results that answer calls: same ids and names, in order.\<close>

definition answers :: "'o ToolCall list \<Rightarrow> 'o Message list \<Rightarrow> bool" where
  "answers calls rs \<longleftrightarrow> map mToolCallID rs = map tcID calls \<and> map mName rs = map tcName calls"

lemma answers_Nil [simp]: "answers [] rs \<longleftrightarrow> rs = []" "answers calls [] \<longleftrightarrow> calls = []"
  by (auto simp: answers_def)

lemma answers_Cons [simp]:
  "answers (tc # tcs) (r # rs) \<longleftrightarrow> mToolCallID r = tcID tc \<and> mName r = tcName tc \<and> answers tcs rs"
  by (auto simp: answers_def)

lemma answers_length: "answers calls rs \<Longrightarrow> length rs = length calls"
  unfolding answers_def by (metis length_map)

lemma answers_nth:
  assumes "answers calls rs" "k < length calls"
  shows "mToolCallID (rs ! k) = tcID (calls ! k)" "mName (rs ! k) = tcName (calls ! k)"
  using assms answers_length [OF assms(1)] by (auto simp: answers_def list_eq_iff_nth_eq)

text \<open>With distinct ids, the only result with the id of a call is its own.\<close>

lemma find_unique:
  assumes "k < length rs" "P (rs ! k)" "\<And>j. j < length rs \<Longrightarrow> P (rs ! j) \<Longrightarrow> j = k"
  shows "find P (rev rs) = Some (rs ! k)"
proof -
  have "rs ! k \<in> set (rev rs)" using assms(1) by simp
  then have "find P (rev rs) \<noteq> None" using assms(2) by (metis find_None_iff)
  then obtain r where r: "find P (rev rs) = Some r" by blast
  then have "P r" "r \<in> set rs" by (auto dest: find_SomeD)
  then obtain j where "j < length rs" "rs ! j = r" by (auto simp: in_set_conv_nth)
  then have "j = k" using assms(3) \<open>P r\<close> by blast
  then show ?thesis using r \<open>rs ! j = r\<close> by simp
qed

lemma byID_own:
  assumes "answers calls rs" "idDistinct calls" "k < length calls"
  shows "byID rs (tcID (calls ! k)) = Some (rs ! k)"
  unfolding byID_def
proof (rule find_unique)
  note len = answers_length [OF assms(1)]
  show "k < length rs" using assms(3) len by simp
  show "mToolCallID (rs ! k) = tcID (calls ! k)" by (rule answers_nth [OF assms(1,3)])
  fix j assume j: "j < length rs" "mToolCallID (rs ! j) = tcID (calls ! k)"
  then show "j = k" using answers_nth(1) [OF assms(1), of j] len assms(2,3) by (intro idDistinct_inj) auto
qed

lemma nameByID_own:
  assumes "answers calls rs" "idDistinct calls" "k < length calls" "tcName (calls ! k) = []"
  shows "nameByID rs (tcID (calls ! k)) = None"
proof -
  note len = answers_length [OF assms(1)]
  have "\<not> (mName (rs ! j) \<noteq> [] \<and> mToolCallID (rs ! j) = tcID (calls ! k))" if "j < length rs" for j
  proof
    assume a: "mName (rs ! j) \<noteq> [] \<and> mToolCallID (rs ! j) = tcID (calls ! k)"
    then have "j = k" using answers_nth(1) [OF assms(1), of j] len assms(2,3) that by (intro idDistinct_inj) auto
    then show False using a assms answers_nth(2) [OF assms(1,3)] by simp
  qed
  then have "find (\<lambda>r. mName r \<noteq> [] \<and> mToolCallID r = tcID (calls ! k)) (rev rs) = None"
    by (auto simp: find_None_iff in_set_conv_nth)
  then show ?thesis by (simp add: nameByID_def)
qed

lemma nameByPosition_same: "answers calls rs \<Longrightarrow> nameByPosition calls rs = calls"
  by (induction calls rs rule: nameByPosition.induct) auto

lemma backfill_same: "answers calls rs \<Longrightarrow> backfillToolCallNames calls rs = calls"
proof -
  assume a: "answers calls rs"
  have "map (\<lambda>tc. if tcName tc = [] then (case nameByID rs (tcID tc) of Some n \<Rightarrow> tc\<lparr>tcName := n\<rparr> | None \<Rightarrow> tc) else tc) calls = calls"
    if "idDistinct calls"
    by (rule map_idI) (auto simp: in_set_conv_nth nameByID_own [OF a that])
  then show ?thesis using nameByPosition_same [OF a] by (simp add: backfillToolCallNames_def)
qed

lemma pairByPosition_same: "answers calls rs \<Longrightarrow> pairByPosition calls rs = rs"
  by (induction calls rs rule: pairByPosition.induct) auto

lemma name_id: "mName r = n \<Longrightarrow> r\<lparr>mName := n\<rparr> = r"
  by (cases r) simp

lemma pair_same: "answers calls rs \<Longrightarrow> pairToolResults calls rs = rs"
proof -
  assume a: "answers calls rs"
  have "map (\<lambda>tc. case byID rs (tcID tc) of Some r \<Rightarrow> r\<lparr>mName := tcName tc\<rparr> | None \<Rightarrow> placeholder tc) calls = rs" if "idDistinct calls"
    by (rule nth_equalityI) (simp_all add: answers_length [OF a] byID_own [OF a that] name_id answers_nth(2) [OF a])
  then show ?thesis using pairByPosition_same [OF a] by (simp add: pairToolResults_def)
qed

lemma session_same: "answers calls rs \<Longrightarrow> sessionToolResults calls rs = rs"
proof -
  assume a: "answers calls rs"
  then have "set (map mToolCallID rs) = tcID ` set calls" by (metis answers_def set_map)
  then show ?thesis using answers_length [OF a] by (simp add: sessionToolResults_def filter_empty_conv)
qed

lemma pairByPosition_answers: "answers calls (pairByPosition calls rs)"
  by (induction calls rs rule: pairByPosition.induct) (simp_all add: placeholder_def)

lemma byID_SomeD: "byID rs i = Some r \<Longrightarrow> r \<in> set rs \<and> mToolCallID r = i"
  unfolding byID_def by (auto dest: find_SomeD)

lemma pair_answers: "answers calls (pairToolResults calls rs)"
proof (cases "idDistinct calls")
  case True
  then show ?thesis by (auto simp: pairToolResults_def answers_def placeholder_def dest: byID_SomeD split: option.split)
qed (simp add: pairToolResults_def pairByPosition_answers)

lemma isResult_placeholder [simp]: "isResult (placeholder tc)"
  by (simp add: isResult_def placeholder_def)

lemma isResult_update [simp]: "isResult (r\<lparr>mToolCallID := i\<rparr>) = isResult r" "isResult (r\<lparr>mName := n\<rparr>) = isResult r"
  by (simp_all add: isResult_def)

lemma pairByPosition_results: "list_all isResult rs \<Longrightarrow> list_all isResult (pairByPosition calls rs)"
  by (induction calls rs rule: pairByPosition.induct) auto

lemma pair_results:
  assumes "list_all isResult rs"
  shows "list_all isResult (pairToolResults calls rs)"
proof (cases "idDistinct calls")
  case True
  then show ?thesis using assms by (auto simp: pairToolResults_def list_all_iff dest!: byID_SomeD split: option.split)
qed (simp add: pairToolResults_def pairByPosition_results assms)

lemma backfill_length: "length (backfillToolCallNames calls rs) = length calls"
proof -
  have "length (nameByPosition calls rs) = length calls" by (induction calls rs rule: nameByPosition.induct) auto
  then show ?thesis by (simp add: backfillToolCallNames_def)
qed

lemma closeTruncatedJSON_Valid: "json_Valid (closeTruncatedJSON s)"
proof -
  have "json_Valid ''{}''" by code_simp
  then show ?thesis by (auto simp: closeTruncatedJSON_def Let_def split: prod.split)
qed

lemma repair_calls:
  "mToolCalls (repairToolCallArgs m) = map (\<lambda>tc. if badArgs tc then tc\<lparr>tcArguments := closeTruncatedJSON (tcArguments tc)\<rparr> else tc) (mToolCalls m)"
proof (cases "list_ex badArgs (mToolCalls m)")
  case False
  then have "\<forall>tc \<in> set (mToolCalls m). \<not> badArgs tc" by (auto simp: list_ex_iff)
  then show ?thesis using False by (simp add: repairToolCallArgs_def map_idI)
qed (simp add: repairToolCallArgs_def)

lemma repair_fields [simp]:
  "mRole (repairToolCallArgs m) = mRole m" "mLocalOnly (repairToolCallArgs m) = mLocalOnly m"
  by (simp_all add: repairToolCallArgs_def)

lemma repair_good: "\<not> list_ex badArgs (mToolCalls (repairToolCallArgs m))"
  by (auto simp: repair_calls list_ex_iff badArgs_def closeTruncatedJSON_Valid split: if_splits)

lemma answers_repair: "answers (mToolCalls (repairToolCallArgs m)) rs \<longleftrightarrow> answers (mToolCalls m) rs"
proof -
  have "map tcID (mToolCalls (repairToolCallArgs m)) = map tcID (mToolCalls m)"
    "map tcName (mToolCalls (repairToolCallArgs m)) = map tcName (mToolCalls m)"
    by (simp_all add: repair_calls)
  then show ?thesis by (simp add: answers_def)
qed

section \<open>The wire contract\<close>

text \<open>
  What the providers demand: no local record, every call with valid (or no) arguments, directly followed by one
  result for each call, in call order and with its id and name, and no other tool message.
\<close>

function wire_ok :: "'o Message list \<Rightarrow> bool" where
  "wire_ok [] \<longleftrightarrow> True"
| "wire_ok (m # ms) \<longleftrightarrow>
     \<not> mLocalOnly m \<and>
     (if calling m then
        \<not> list_ex badArgs (mToolCalls m) \<and>
        list_all isResult (take (length (mToolCalls m)) ms) \<and> answers (mToolCalls m) (take (length (mToolCalls m)) ms) \<and>
        wire_ok (drop (length (mToolCalls m)) ms)
      else mRole m \<noteq> RoleTool \<and> wire_ok ms)"
  by pat_completeness auto
termination by (relation "measure length") auto

lemma takeWhile_results: "list_all isResult (takeWhile isResult ms)"
  by (auto simp: list_all_iff dest: set_takeWhileD)

lemma slow_wire_ok: "wire_ok (slowPath True msgs)"
proof (induction "True" msgs rule: slowPath.induct)
  case (2 m ms)
  show ?case
  proof (cases "\<not> mLocalOnly m \<and> calling m")
    case True
    define run where "run = takeWhile isResult ms"
    define calls where "calls = backfillToolCallNames (mToolCalls m) run"
    define m' where "m' = repairToolCallArgs (m\<lparr>mToolCalls := calls\<rparr>)"
    define rest where "rest = slowPath True (dropWhile isResult ms)"
    have slow: "slowPath True (m # ms) = m' # pairToolResults calls run @ rest"
      using True by (simp add: Let_def run_def calls_def m'_def rest_def)
    have len: "length (mToolCalls m') = length calls" by (simp add: m'_def repair_calls)
    have "calling m'" using True len by (simp add: calling_def m'_def calls_def backfill_length)
    moreover have "\<not> mLocalOnly m'" using True by (simp add: m'_def)
    moreover have "answers (mToolCalls m') (pairToolResults calls run)"
      by (simp add: m'_def answers_repair pair_answers)
    moreover have "list_all isResult (pairToolResults calls run)" by (simp add: run_def pair_results takeWhile_results)
    moreover have "length (pairToolResults calls run) = length calls" by (rule answers_length [OF pair_answers])
    moreover have "wire_ok rest" using 2 True by (simp add: rest_def)
    ultimately show ?thesis using repair_good [of "m\<lparr>mToolCalls := calls\<rparr>"] unfolding slow by (simp add: len m'_def [symmetric])
  next
    case False
    then show ?thesis using 2 by auto
  qed
qed simp

lemma wire_ok_head: "wire_ok ms \<Longrightarrow> takeWhile isResult ms = []"
  by (cases ms) (auto simp: isResult_def calling_def split: if_splits)

lemma repair_id: "\<not> list_ex badArgs (mToolCalls m) \<Longrightarrow> repairToolCallArgs m = m"
  by (simp add: repairToolCallArgs_def)

lemma slow_id: "wire_ok msgs \<Longrightarrow> slowPath True msgs = msgs"
proof (induction msgs rule: wire_ok.induct)
  case (2 m ms)
  show ?case
  proof (cases "calling m")
    case True
    define n where "n = length (mToolCalls m)"
    have w: "list_all isResult (take n ms)" "answers (mToolCalls m) (take n ms)" "wire_ok (drop n ms)"
        "\<not> list_ex badArgs (mToolCalls m)" "\<not> mLocalOnly m"
      using 2(3) True by (simp_all add: n_def)
    have "takeWhile isResult (take n ms @ drop n ms) = take n ms @ takeWhile isResult (drop n ms)"
      using w(1) by (intro takeWhile_append2) (auto simp: list_all_iff)
    then have run: "takeWhile isResult ms = take n ms" using wire_ok_head [OF w(3)] by simp
    have rest: "dropWhile isResult ms = drop n ms"
      using run by (metis append_eq_conv_conj append_take_drop_id takeWhile_dropWhile_id)
    have "slowPath True (drop n ms) = drop n ms" using 2(1) True w(3) by (simp add: n_def)
    then show ?thesis
      using True w by (simp add: Let_def run rest backfill_same pair_same repair_id)
  next
    case False
    then show ?thesis using 2 by simp
  qed
qed simp

lemma wellFormed_answers: "toolTurnWellFormed calls rs \<Longrightarrow> answers calls rs"
proof (induction calls arbitrary: rs)
  case (Cons tc calls)
  then show ?case by (cases rs) (auto simp: toolTurnWellFormed_def)
qed (simp add: toolTurnWellFormed_def)

lemma fast_slow: "fastPath drp msgs \<Longrightarrow> slowPath drp msgs = msgs"
proof (induction drp msgs rule: fastPath.induct)
  case (2 drp m ms)
  show ?case
  proof (cases "\<not> mLocalOnly m \<and> calling m")
    case True
    then have a: "answers (mToolCalls m) (takeWhile isResult ms)" and b: "\<not> list_ex badArgs (mToolCalls m)"
      and f: "fastPath drp (dropWhile isResult ms)"
      using 2(4) by (auto simp: Let_def needsToolCallArgRepair_def intro: wellFormed_answers split: if_splits)
    have "slowPath drp (dropWhile isResult ms) = dropWhile isResult ms"
      using True f 2(2) [of "takeWhile isResult ms"] 2(4) by (auto simp: Let_def split: if_splits)
    then show ?thesis using True b by (simp add: Let_def backfill_same [OF a] pair_same [OF a] session_same [OF a] repair_id)
  next
    case False
    then show ?thesis using 2 by (auto split: if_splits)
  qed
qed simp

lemma normalize_slow: "normalizeMessages drp msgs = slowPath drp msgs"
  by (simp add: normalizeMessages_def fast_slow)

text \<open>C25. 
  Whatever history is normalized for the wire, the result satisfies the tool-call contract of the providers.
\<close>

theorem NormalizeMessages_contract: "wire_ok (NormalizeMessages msgs)"
  by (simp add: NormalizeMessages_def normalize_slow slow_wire_ok)

text \<open>C26. 
  The fast path changes nothing but the cost: in both modes the normalization equals its slow path. And the
  histories that the normalization for the wire leaves as they are are exactly those that satisfy the contract of
  the providers, so normalizing twice is normalizing once.
\<close>

theorem fast_path_equivalent:
  "normalizeMessages drp msgs = slowPath drp msgs \<and>
   (NormalizeMessages msgs = msgs \<longleftrightarrow> wire_ok msgs) \<and>
   NormalizeMessages (NormalizeMessages msgs) = NormalizeMessages msgs"
proof (intro conjI iffI)
  assume "NormalizeMessages msgs = msgs"
  then show "wire_ok msgs" using slow_wire_ok [of msgs] by (simp add: NormalizeMessages_def normalize_slow)
qed (simp_all add: NormalizeMessages_def normalize_slow slow_id slow_wire_ok)

section \<open>Sessions lose nothing\<close>

definition bare :: "'o Message \<Rightarrow> 'o Message" where
  "bare m = m\<lparr>mToolCalls := []\<rparr>"

definition invented :: "'o Message \<Rightarrow> bool" where
  "invented m \<longleftrightarrow> mBody m = interruptedToolResult"

lemma session_form: "\<exists>ps. sessionToolResults calls run = run @ ps \<and> (\<forall>p \<in> set ps. invented p)"
  by (auto simp: sessionToolResults_def invented_def placeholder_def)

lemma bare_repair: "bare (repairToolCallArgs (m\<lparr>mToolCalls := calls\<rparr>)) = bare m"
  by (simp add: bare_def repairToolCallArgs_def)

lemma slow_session:
  "subseq (map bare msgs) (map bare (slowPath False msgs)) \<and>
   filter (\<lambda>m. \<not> invented m) (map bare (slowPath False msgs)) = filter (\<lambda>m. \<not> invented m) (map bare msgs)"
proof (induction "False" msgs rule: slowPath.induct)
  case (2 m ms)
  show ?case
  proof (cases "\<not> mLocalOnly m \<and> calling m")
    case True
    define run where "run = takeWhile isResult ms"
    define calls where "calls = backfillToolCallNames (mToolCalls m) run"
    obtain ps where ps: "sessionToolResults calls run = run @ ps" "\<forall>p \<in> set ps. invented p" using session_form by blast
    have slow: "slowPath False (m # ms) =
        repairToolCallArgs (m\<lparr>mToolCalls := calls\<rparr>) # run @ ps @ slowPath False (dropWhile isResult ms)"
      using True ps by (simp add: Let_def run_def calls_def)
    have ms: "ms = run @ dropWhile isResult ms" by (simp add: run_def)
    have IH: "subseq (map bare (dropWhile isResult ms)) (map bare (slowPath False (dropWhile isResult ms)))"
      "filter (\<lambda>m. \<not> invented m) (map bare (slowPath False (dropWhile isResult ms))) =
       filter (\<lambda>m. \<not> invented m) (map bare (dropWhile isResult ms))"
      using 2 True by (simp_all add: run_def calls_def)
    have "filter (\<lambda>m. \<not> invented m) (map bare ps) = []" using ps(2) by (auto simp: filter_empty_conv invented_def bare_def)
    then have "filter (\<lambda>m. \<not> invented m) (map bare (slowPath False (m # ms))) =
        filter (\<lambda>m. \<not> invented m) (map bare (m # run @ dropWhile isResult ms))"
      unfolding slow by (simp add: bare_repair IH(2))
    moreover have "subseq (map bare (m # run @ dropWhile isResult ms)) (map bare (slowPath False (m # ms)))"
      unfolding slow using IH(1) by (simp add: bare_repair subseq_append_le_same_iff list_emb_append2 subseq_append')
    ultimately show ?thesis using ms by metis
  next
    case False
    then show ?thesis using 2 by auto
  qed
qed simp

text \<open>
  Loading a session loses nothing: but for the tool calls of assistant messages, whose names and arguments are
  repaired, all stored messages are still there, unchanged and in their order, and the only ones added are
  placeholders for results that never landed.
\<close>

theorem session_keeps_messages:
  "subseq (map bare msgs) (map bare (normalizeMessages False msgs)) \<and>
   filter (\<lambda>m. \<not> invented m) (map bare (normalizeMessages False msgs)) = filter (\<lambda>m. \<not> invented m) (map bare msgs)"
  unfolding normalize_slow by (rule slow_session)

text \<open>
  No placeholder for a result that is there. When the calls of a turn carry distinct ids and a result of the
  turn answers one of them, what is sent for that call is a stored result with its id, not the placeholder.
\<close>

theorem recorded_result_is_sent:
  assumes "idDistinct calls" and "tc \<in> set calls" and "r \<in> set avail" and "mToolCallID r = tcID tc"
  shows "\<exists>r' \<in> set avail. mToolCallID r' = tcID tc \<and> r'\<lparr>mName := tcName tc\<rparr> \<in> set (pairToolResults calls avail)"
proof -
  have "byID avail (tcID tc) \<noteq> None" using assms(3,4) unfolding byID_def by (auto simp: find_None_iff)
  then obtain r' where r: "byID avail (tcID tc) = Some r'" by blast
  have "r'\<lparr>mName := tcName tc\<rparr> \<in> set (pairToolResults calls avail)"
    using assms(1,2) r by (force simp: pairToolResults_def image_iff)
  then show ?thesis using byID_SomeD [OF r] by blast
qed

definition sample_call :: "unit ToolCall" where
  "sample_call = \<lparr>tcID = ''c1'', tcName = ''bash'', tcArguments = ''{}'', tcOther = None\<rparr>"

theorem recorded_result_is_sent_witness:
  "\<exists>r' \<in> set [placeholder sample_call]. r'\<lparr>mName := ''bash''\<rparr> \<in> set (pairToolResults [sample_call] [placeholder sample_call])"
proof -
  have 1: "idDistinct [sample_call]" by code_simp
  have 2: "sample_call \<in> set [sample_call]" "placeholder sample_call \<in> set [placeholder sample_call]"
    "mToolCallID (placeholder sample_call) = tcID sample_call" by (simp_all add: placeholder_def)
  have 3: "tcName sample_call = ''bash''" by (simp add: sample_call_def)
  from recorded_result_is_sent [OF 1 2] show ?thesis unfolding 3 by blast
qed

end
