(* ===== verification/ToolOutput.thy ===== *)
theory ToolOutput
  imports GoBase
begin

text \<open>
  The body of a tool result (\<open>agent/agent.go\<close>, \<open>truncateToolOutput\<close>, \<open>attachHookNotices\<close> and the functions they
  use). The counts are Go ints; a slice whose bounds are nudged outward stays inside the string.
\<close>

section \<open>Cutting at rune boundaries\<close>

definition RuneStart :: "char \<Rightarrow> bool" where
  "RuneStart c \<longleftrightarrow> \<not> (128 \<le> byte c \<and> byte c < 192)"

function snapLo :: "bytes \<Rightarrow> nat \<Rightarrow> nat" where
  "snapLo s lo = (if 0 < lo \<and> \<not> RuneStart (s ! lo) then snapLo s (lo - 1) else lo)"
  by auto
termination by (relation "measure snd") auto

function snapHi :: "bytes \<Rightarrow> nat \<Rightarrow> nat" where
  "snapHi s hi = (if hi < length s \<and> \<not> RuneStart (s ! hi) then snapHi s (hi + 1) else hi)"
  by auto
termination by (relation "measure (\<lambda>(s, hi). length s - hi)") auto

declare snapLo.simps [simp del] snapHi.simps [simp del]

definition snapToRuneBoundary :: "bytes \<Rightarrow> nat \<Rightarrow> nat \<Rightarrow> bytes" where
  "snapToRuneBoundary s lo hi = (let l = snapLo s lo; h = snapHi s hi in take (h - l) (drop l s))"

definition maxToolOutputBytes :: nat where "maxToolOutputBytes = 32 * 1024"

definition maxHookNoticeBytes :: nat where "maxHookNoticeBytes = 8 * 1024"

definition ELLIPSIS :: bytes where "ELLIPSIS = [CHR 0xE2, CHR 0x80, CHR 0xA6]"

definition EM_DASH :: bytes where "EM_DASH = [CHR 0xE2, CHR 0x80, CHR 0x94]"

definition truncateToolOutput :: "bytes \<Rightarrow> bytes \<times> bytes" where
  "truncateToolOutput s =
     (if length s \<le> maxToolOutputBytes then (s, [])
      else
        let keep = maxToolOutputBytes div 2;
            head = snapToRuneBoundary s 0 keep;
            tail = snapToRuneBoundary s (length s - keep) (length s);
            omitted = int (length s) - int (length head) - int (length tail);
            notice = ''tool output truncated: '' @ show_int omitted @ '' of '' @ show_nat (length s) @ '' bytes elided''
        in (head @ [LF, LF] @ ELLIPSIS @ ''[truncated '' @ show_int omitted @ '' of '' @ show_nat (length s) @ '' bytes '' @
              EM_DASH @ '' rerun with narrower args to see the middle]'' @ ELLIPSIS @ [LF, LF] @ tail,
            notice))"

definition firstLine :: "bytes \<Rightarrow> bytes" where
  "firstLine s = (case IndexByte s LF of None \<Rightarrow> s | Some i \<Rightarrow> take i s)"

definition TrimRightLF :: "bytes \<Rightarrow> bytes" where
  "TrimRightLF s = rev (dropWhile (\<lambda>c. c = LF) (rev s))"

definition attachHookNotices :: "bytes \<Rightarrow> bytes list \<Rightarrow> bytes \<times> bytes" where
  "attachHookNotices body notices =
     (if notices = [] then (body, [])
      else
        let joined = Join notices [LF];
            joined' = (if length joined > maxHookNoticeBytes
                       then take maxHookNoticeBytes joined @ [LF] @ ELLIPSIS @ ''[hook notices truncated]'' else joined)
        in truncateToolOutput (TrimRightLF body @ [LF, LF] @ joined'))"

section \<open>Where the cuts fall\<close>

lemma snapLo_le: "snapLo s lo \<le> lo"
proof (induction s lo rule: snapLo.induct)
  case (1 s lo)
  then show ?case by (subst snapLo.simps) (auto simp: le_diff_conv intro: le_trans)
qed

lemma snapHi_ge: "hi \<le> snapHi s hi"
proof (induction s hi rule: snapHi.induct)
  case (1 s hi)
  then show ?case by (subst snapHi.simps) auto
qed

lemma snapHi_le: "hi \<le> length s \<Longrightarrow> snapHi s hi \<le> length s"
proof (induction s hi rule: snapHi.induct)
  case (1 s hi)
  then show ?case by (subst snapHi.simps) auto
qed

lemma snapLo_start: "snapLo s lo = 0 \<or> RuneStart (s ! snapLo s lo)"
proof (induction s lo rule: snapLo.induct)
  case (1 s lo)
  show ?case
  proof (cases "0 < lo \<and> \<not> RuneStart (s ! lo)")
    case True
    with 1 show ?thesis by (simp add: snapLo.simps [of s lo])
  next
    case False
    then show ?thesis by (subst (1 2) snapLo.simps) auto
  qed
qed

lemma snapHi_start: "hi \<le> length s \<Longrightarrow> snapHi s hi = length s \<or> RuneStart (s ! snapHi s hi)"
proof (induction s hi rule: snapHi.induct)
  case (1 s hi)
  then show ?case by (cases "hi < length s \<and> \<not> RuneStart (s ! hi)") (auto simp: snapHi.simps [of s hi])
qed

text \<open>In well-formed UTF-8 at most three bytes in a row continue a rune.\<close>

definition rune_runs :: "bytes \<Rightarrow> bool" where
  "rune_runs s \<longleftrightarrow> (\<forall>i < length s - 3. RuneStart (s ! i) \<or> RuneStart (s ! (i + 1)) \<or> RuneStart (s ! (i + 2)) \<or> RuneStart (s ! (i + 3)))"

lemma snapLo_stops: "j \<le> lo \<Longrightarrow> RuneStart (s ! j) \<Longrightarrow> j \<le> snapLo s lo"
proof (induction s lo rule: snapLo.induct)
  case (1 s lo)
  show ?case
  proof (cases "0 < lo \<and> \<not> RuneStart (s ! lo)")
    case True
    then have "j \<le> lo - 1" using 1(2,3) by (cases "j = lo") auto
    then show ?thesis using 1(1) [OF True _ 1(3)] True by (simp add: snapLo.simps [of s lo])
  next
    case False
    then show ?thesis using 1(2) by (subst snapLo.simps) auto
  qed
qed

lemma snapHi_stops: "hi \<le> j \<Longrightarrow> j < length s \<Longrightarrow> RuneStart (s ! j) \<Longrightarrow> snapHi s hi \<le> j"
proof (induction s hi rule: snapHi.induct)
  case (1 s hi)
  show ?case
  proof (cases "hi < length s \<and> \<not> RuneStart (s ! hi)")
    case True
    then have "hi + 1 \<le> j" using 1(2,4) by (cases "j = hi") auto
    then show ?thesis using 1(1) [OF True _ 1(3,4)] True by (simp add: snapHi.simps [of s hi])
  next
    case False
    then show ?thesis using 1(2) by (subst snapHi.simps) auto
  qed
qed

lemma rune_runsD:
  assumes "rune_runs s" "i + 3 < length s"
  obtains j where "i \<le> j" "j \<le> i + 3" "RuneStart (s ! j)"
proof -
  have "i < length s - 3" using assms(2) by simp
  then have "RuneStart (s ! i) \<or> RuneStart (s ! (i + 1)) \<or> RuneStart (s ! (i + 2)) \<or> RuneStart (s ! (i + 3))"
    using assms(1) unfolding rune_runs_def by blast
  then show thesis using that [of i] that [of "i + 1"] that [of "i + 2"] that [of "i + 3"] by auto
qed

lemma snapHi_near:
  assumes "rune_runs s" "hi + 3 < length s"
  shows "snapHi s hi \<le> hi + 3"
proof -
  obtain j where "hi \<le> j" "j \<le> hi + 3" "RuneStart (s ! j)"
    using rune_runsD [OF assms] .
  then show ?thesis using snapHi_stops [of hi j s] assms(2) by simp
qed

lemma snapLo_near:
  assumes "rune_runs s" "lo < length s"
  shows "lo \<le> snapLo s lo + 3"
proof (cases "lo < 3")
  case False
  then obtain j where "lo - 3 \<le> j" "j \<le> lo - 3 + 3" "RuneStart (s ! j)"
    using rune_runsD [OF assms(1), of "lo - 3"] assms(2) by (metis add.commute le_add_diff_inverse not_less)
  then show ?thesis using snapLo_stops [of j lo s] False by simp
qed simp

section \<open>What the model reads\<close>

lemma head_is_prefix: "hi \<le> length s \<Longrightarrow> snapToRuneBoundary s 0 hi = take (snapHi s hi) s"
  using snapLo_le [of s 0] by (simp add: snapToRuneBoundary_def Let_def)

lemma tail_is_suffix: "snapToRuneBoundary s lo (length s) = drop (snapLo s lo) s"
  by (simp add: snapToRuneBoundary_def Let_def snapHi.simps [of s "length s"])

lemma keep_bytes: "maxToolOutputBytes div 2 = 16384" "maxToolOutputBytes = 32768"
  by (simp_all add: maxToolOutputBytes_def)

text \<open>The text between the two parts, with the number it announces.\<close>

definition elidedMark :: "bytes \<Rightarrow> nat \<Rightarrow> bytes" where
  "elidedMark omitted n = [LF, LF] @ ELLIPSIS @ ''[truncated '' @ omitted @ '' of '' @ show_nat n @ '' bytes '' @
     EM_DASH @ '' rerun with narrower args to see the middle]'' @ ELLIPSIS @ [LF, LF]"

definition elidedNotice :: "bytes \<Rightarrow> nat \<Rightarrow> bytes" where
  "elidedNotice omitted n = ''tool output truncated: '' @ omitted @ '' of '' @ show_nat n @ '' bytes elided''"

text \<open>The two cuts decide everything: what is read before, what after, and the number announced.\<close>

lemma truncate_cuts:
  assumes "maxToolOutputBytes < length s" and "h = snapHi s 16384" and "l = snapLo s (length s - 16384)"
  shows "truncateToolOutput s =
    (take h s @ elidedMark (show_int (int l - int h)) (length s) @ drop l s, elidedNotice (show_int (int l - int h)) (length s))"
proof -
  have k: "16384 \<le> length s" using assms(1) by (simp add: keep_bytes)
  have head: "snapToRuneBoundary s 0 16384 = take h s" by (simp only: head_is_prefix [OF k] assms(2))
  have tail: "snapToRuneBoundary s (length s - 16384) (length s) = drop l s" by (simp only: tail_is_suffix assms(3))
  have "h \<le> length s" using snapHi_le [OF k] assms(2) by simp
  moreover have "l \<le> length s" using snapLo_le [of s "length s - 16384"] assms(3) by simp
  ultimately have omitted: "int (length s) - int (length (take h s)) - int (length (drop l s)) = int l - int h" by simp
  have "\<not> length s \<le> maxToolOutputBytes" using assms(1) by simp
  then show ?thesis
    unfolding truncateToolOutput_def Let_def keep_bytes(1) head tail omitted elidedMark_def elidedNotice_def by simp
qed

lemma truncate_prefix:
  assumes "HasPrefix s p" "length p \<le> 16384"
  shows "HasPrefix (fst (truncateToolOutput s)) p"
proof (cases "maxToolOutputBytes < length s")
  case True
  have "length p \<le> snapHi s 16384" using snapHi_ge [of 16384 s] assms(2) by linarith
  then have "HasPrefix (take (snapHi s 16384) s) p" using assms(1) by (auto simp: HasPrefix_iff)
  then show ?thesis using truncate_cuts [OF True refl refl] by (auto simp: HasPrefix_iff)
next
  case False
  then show ?thesis using assms(1) by (simp add: truncateToolOutput_def)
qed

text \<open>C37. Tool output: of a well-formed output more than five bytes over the limit the model reads exactly a head and a
  tail of 16 KiB each, at most three bytes more, cut where runes start, and between them the mark that
  announces how many bytes of how many were left out; the user gets the notice with the same numbers. The
  announced number is the length of the part that is missing between head and tail.\<close>

theorem truncation_keeps_ends:
  assumes "rune_runs s" "maxToolOutputBytes + 6 \<le> length s"
  shows "\<exists>head mid tail. s = head @ mid @ tail \<and>
    truncateToolOutput s =
      (head @ elidedMark (show_nat (length mid)) (length s) @ tail, elidedNotice (show_nat (length mid)) (length s)) \<and>
    length head \<in> {16384..16387} \<and> length tail \<in> {16384..16387} \<and>
    RuneStart (s ! length head) \<and> RuneStart (hd tail)"
proof -
  let ?h = "snapHi s 16384" and ?l = "snapLo s (length s - 16384)"
  have len: "32774 \<le> length s" using assms(2) keep_bytes by simp
  have h: "16384 \<le> ?h" "?h \<le> 16387"
    using snapHi_ge [of 16384 s] snapHi_near [OF assms(1), of 16384] len by simp_all
  have l: "?l \<le> length s - 16384" "length s - 16384 \<le> ?l + 3"
    using snapLo_le [of s "length s - 16384"] snapLo_near [OF assms(1), of "length s - 16384"] len by simp_all
  have hl: "?h \<le> ?l" using h l len by simp
  let ?mid = "take (?l - ?h) (drop ?h s)"
  have split: "s = take ?h s @ ?mid @ drop ?l s"
    using hl by (metis append_take_drop_id drop_drop le_add_diff_inverse2)
  have mid: "length ?mid = ?l - ?h" using hl l len by simp
  have num: "show_int (int ?l - int ?h) = show_nat (length ?mid)" using hl by (simp add: mid show_int_def nat_diff_distrib del: length_take length_drop)
  have "truncateToolOutput s =
      (take ?h s @ elidedMark (show_nat (length ?mid)) (length s) @ drop ?l s, elidedNotice (show_nat (length ?mid)) (length s))"
    using truncate_cuts [OF _ refl refl, of s] len unfolding num by (simp add: keep_bytes)
  moreover have "RuneStart (s ! ?h)"
    using snapHi_start [of 16384 s] h len by auto
  moreover have "RuneStart (hd (drop ?l s))"
  proof -
    have "0 < ?l" using l(2) len by linarith
    then show ?thesis using snapLo_start [of s "length s - 16384"] l len by (simp add: hd_drop_conv_nth)
  qed
  moreover have "length (take ?h s) \<in> {16384..16387}" "length (drop ?l s) \<in> {16384..16387}" "length (take ?h s) = ?h"
    using h l len by (simp, simp, linarith, simp)
  ultimately show ?thesis using split by (metis (no_types))
qed

definition long_output :: "nat \<Rightarrow> bytes" where
  "long_output n = replicate n (CHR ''a'')"

lemma byte_a [simp]: "RuneStart (CHR ''a'')"
  by (simp add: RuneStart_def byte_def)

lemma long_output_runs [simp]: "rune_runs (long_output n)"
  by (simp add: rune_runs_def long_output_def)

lemma truncation_keeps_ends_witness:
  "\<exists>head mid tail. long_output 40000 = head @ mid @ tail \<and>
    truncateToolOutput (long_output 40000) =
      (head @ elidedMark (show_nat (length mid)) 40000 @ tail, elidedNotice (show_nat (length mid)) 40000) \<and>
    length head \<in> {16384..16387} \<and> length tail \<in> {16384..16387} \<and>
    RuneStart (long_output 40000 ! length head) \<and> RuneStart (hd tail)"
proof -
  have n: "length (long_output 40000) = 40000" by (simp add: long_output_def)
  have "maxToolOutputBytes + 6 \<le> length (long_output 40000)" by (simp add: n keep_bytes)
  from truncation_keeps_ends [OF long_output_runs this] show ?thesis unfolding n .
qed

section \<open>The two parts can overlap\<close>

definition emoji :: bytes where "emoji = [CHR 0xF0, CHR 0x9F, CHR 0x98, CHR 0x80]"

definition overlap_output :: bytes where
  "overlap_output = long_output 16383 @ emoji @ long_output 16382"

lemma overlap_nth:
  "length overlap_output = 32769" "overlap_output ! 16383 = CHR 0xF0" "overlap_output ! 16384 = CHR 0x9F"
  "overlap_output ! 16385 = CHR 0x98" "overlap_output ! 16386 = CHR 0x80" "overlap_output ! 16387 = CHR ''a''"
  by (simp_all add: overlap_output_def long_output_def emoji_def nth_append)

lemma emoji_starts:
  "RuneStart (CHR 0xF0)" "\<not> RuneStart (CHR 0x9F)" "\<not> RuneStart (CHR 0x98)" "\<not> RuneStart (CHR 0x80)"
  by (simp_all add: RuneStart_def byte_def)

lemma overlap_cuts: "snapHi overlap_output 16384 = 16387" "snapLo overlap_output 16385 = 16383"
  by (simp_all add: snapHi.simps [of overlap_output 16384] snapHi.simps [of overlap_output 16385]
      snapHi.simps [of overlap_output 16386] snapHi.simps [of overlap_output 16387]
      snapLo.simps [of overlap_output 16385] snapLo.simps [of overlap_output 16384]
      snapLo.simps [of overlap_output 16383] overlap_nth emoji_starts)

lemma cuts_cross:
  assumes "maxToolOutputBytes < length s"
  shows "snapLo s (length s - 16384) < snapHi s 16384 \<longleftrightarrow>
    (\<forall>j. 16384 \<le> j \<and> j \<le> length s - 16384 \<longrightarrow> \<not> RuneStart (s ! j))"
proof
  have len: "32768 < length s" using assms by (simp add: keep_bytes)
  show "\<forall>j. 16384 \<le> j \<and> j \<le> length s - 16384 \<longrightarrow> \<not> RuneStart (s ! j)" if "snapLo s (length s - 16384) < snapHi s 16384"
  proof (intro allI impI notI)
    fix j assume j: "16384 \<le> j \<and> j \<le> length s - 16384" "RuneStart (s ! j)"
    have "j < length s" using j len by linarith
    then have "snapHi s 16384 \<le> j" using snapHi_stops [of 16384 j s] j by simp
    moreover have "j \<le> snapLo s (length s - 16384)" using snapLo_stops [of j "length s - 16384" s] j by simp
    ultimately show False using that by simp
  qed
  show "snapLo s (length s - 16384) < snapHi s 16384" if n: "\<forall>j. 16384 \<le> j \<and> j \<le> length s - 16384 \<longrightarrow> \<not> RuneStart (s ! j)"
  proof -
    have "16384 \<le> snapHi s 16384" by (rule snapHi_ge)
    moreover have "snapHi s 16384 = length s \<or> RuneStart (s ! snapHi s 16384)" using snapHi_start [of 16384 s] len by simp
    ultimately have "length s - 16384 < snapHi s 16384" using n len by (metis diff_less not_le zero_less_numeral less_trans)
    then show ?thesis using snapLo_le [of s "length s - 16384"] by linarith
  qed
qed

text \<open>C39. When the two parts of a truncated output overlap. The number of omitted bytes announced is the distance
  of the two cuts after both were moved outward, and it is negative exactly when no rune starts from the
  first cut to the second: then the bytes between are sent twice.\<close>

theorem truncation_overlaps:
  assumes "maxToolOutputBytes < length s" and "h = snapHi s 16384" and "l = snapLo s (length s - 16384)"
  shows "truncateToolOutput s =
      (take h s @ elidedMark (show_int (int l - int h)) (length s) @ drop l s, elidedNotice (show_int (int l - int h)) (length s)) \<and>
    (int l - int h < 0 \<longleftrightarrow> (\<forall>j. 16384 \<le> j \<and> j \<le> length s - 16384 \<longrightarrow> \<not> RuneStart (s ! j)))"
  using truncate_cuts [OF assms] cuts_cross [OF assms(1)] unfolding assms(2,3) by simp

text \<open>One byte over the limit, with a rune across both cuts: the rune is sent twice and minus four bytes are announced.\<close>

theorem truncation_overlaps_witness:
  "truncateToolOutput overlap_output =
     (long_output 16383 @ emoji @ elidedMark ''-4'' 32769 @ emoji @ long_output 16382, elidedNotice ''-4'' 32769)"
proof -
  have k: "maxToolOutputBytes < length overlap_output" by (simp add: keep_bytes overlap_nth)
  have c: "16387 = snapHi overlap_output 16384" "16383 = snapLo overlap_output (length overlap_output - 16384)"
    by (simp_all add: overlap_nth overlap_cuts)
  have e: "length emoji = 4" by (simp add: emoji_def)
  have "take 16387 overlap_output = long_output 16383 @ emoji" "drop 16383 overlap_output = emoji @ long_output 16382"
    by (simp_all add: overlap_output_def long_output_def e)
  moreover have "show_int (int 16383 - int 16387) = ''-4''"
    by (simp add: show_int_def show_nat.simps [of 4] char_of_def bit_0)
  ultimately show ?thesis using conjunct1 [OF truncation_overlaps [OF k c]] by (simp add: overlap_nth)
qed

end
