(* ===== verification/TodoTools.thy ===== *)
theory TodoTools
  imports EvLedger ToolPairing ToolOutput
begin

text \<open>
  The two tools of the serial task list and the canonical state behind them: \<open>todo_write\<close>
  (\<open>internal/tool/builtin/todo.go\<close>), \<open>complete_step\<close> (\<open>completestep.go\<close>) and the agent's copy of the list with its
  reconstruction from a transcript (\<open>internal/agent/agent.go\<close>, \<open>execute_one.go\<close>). Every error message is a
  constructor with the values that decide it; the hints appended to some messages are left out.
\<close>

section \<open>The context of a tool call\<close>

record VerifyCheck =
  vcCommand :: bytes
  vcSourcePath :: bytes
  vcLine :: int

record 'o toolCtx =
  cxLedger :: "Ledger option"
  cxTodoState :: "TodoItem list"          \<comment> \<open>\<open>[]\<close> when the context has none\<close>
  cxSession :: "'o Message list option"
  cxDelivery :: bool
  cxPlanReplacement :: bool
  cxChecks :: "VerifyCheck list"

datatype toolError =
    InvalidArgs
  | ContentRequired nat
  | InvalidLevel nat int
  | InvalidTodoStatus nat bytes
  | NotSerial todoError
  | CurrentRemoved nat bytes
  | CurrentBackToPending nat bytes
  | CompletedMoved nat bytes
  | HistoryChanged
  | CompletedUnsigned nat bytes
  | InitiallyCompleted nat bytes
  | NewlyCompleted int bytes
  | NewlyCompletedMany nat
  | StepRequired
  | NegativeStepIndex
  | ResultRequired
  | EvidenceRequired
  | InvalidKind nat bytes
  | SummaryRequired nat
  | AllCompleted nat bytes
  | NoMatchingTodo bytes
  | SubStepsUnfinished int bytes nat bytes
  | PendingTodo int bytes "(nat \<times> bytes) option"
  | OddStatus int bytes bytes
  | CommandRequired nat
  | CommandFailed nat bytes
  | CommandUnproven nat bytes
  | NotDeliveryVerification nat bytes
  | ReviewMissing nat
  | PathsRequired nat
  | DiffUnproven nat
  | FilesUnproven nat
  | CheckMissing bytes bytes
  | StillCurrent toolError int bytes

section \<open>\<open>todo_write\<close>\<close>

fun countItems :: "nat \<Rightarrow> TodoItem list \<Rightarrow> nat \<times> nat \<times> nat \<Rightarrow> toolError + nat \<times> nat \<times> nat" where
  "countItems i [] acc = Inr acc"
| "countItems i (t # ts) (d, a, p) =
     (if tContent t = [] then Inl (ContentRequired (i + 1))
      else if tLevel t < 0 \<or> tLevel t > 1 then Inl (InvalidLevel (i + 1) (tLevel t))
      else if tStatus t = COMPLETED then countItems (i + 1) ts (d + 1, a, p)
      else if tStatus t = IN_PROGRESS then countItems (i + 1) ts (d, a + 1, p)
      else if tStatus t = PENDING \<or> tStatus t = [] then countItems (i + 1) ts (d, a, p + 1)
      else Inl (InvalidTodoStatus (i + 1) (tStatus t)))"

definition todoBaseline :: "'o toolCtx \<Rightarrow> TodoItem list" where
  "todoBaseline cx =
     (case cxLedger cx of
        Some l \<Rightarrow> (case LatestTodos l of Some prev \<Rightarrow> if length prev > 0 then prev else cxTodoState cx | None \<Rightarrow> cxTodoState cx)
      | None \<Rightarrow> cxTodoState cx)"

fun continuityLoop :: "evlib \<Rightarrow> TodoItem list \<Rightarrow> nat \<Rightarrow> TodoItem list \<Rightarrow> toolError option" where
  "continuityLoop ev todos i [] = None"
| "continuityLoop ev todos i (t # prev) =
     (if TrimSpace (tStatus t) \<noteq> IN_PROGRESS then continuityLoop ev todos (i + 1) prev
      else (case MatchTodoIdentity (eLower ev) t todos of (m, found) \<Rightarrow>
        if \<not> found then Some (CurrentRemoved (i + 1) (tContent t))
        else if mStatus m = PENDING \<or> mStatus m = [] then Some (CurrentBackToPending (i + 1) (tContent t))
        else continuityLoop ev todos (i + 1) prev))"

definition verifyTodoCurrentContinuity :: "evlib \<Rightarrow> 'o toolCtx \<Rightarrow> TodoItem list \<Rightarrow> toolError option" where
  "verifyTodoCurrentContinuity ev cx todos =
     (let prev = todoBaseline cx in if prev = [] then None else continuityLoop ev todos 0 prev)"

fun positionsLoop :: "evlib \<Rightarrow> TodoItem list \<Rightarrow> nat \<Rightarrow> TodoItem list \<Rightarrow> toolError option" where
  "positionsLoop ev prev i [] = None"
| "positionsLoop ev prev i (t # ts) =
     (if tStatus t \<noteq> COMPLETED then positionsLoop ev prev (i + 1) ts
      else (case MatchTodoIdentity (eLower ev) t prev of (m, found) \<Rightarrow>
        if \<not> found \<or> mIndex m \<noteq> int i + 1 then Some (CompletedMoved (i + 1) (tContent t))
        else positionsLoop ev prev (i + 1) ts))"

definition verifyCompletedTodoPositions :: "evlib \<Rightarrow> 'o toolCtx \<Rightarrow> TodoItem list \<Rightarrow> toolError option" where
  "verifyCompletedTodoPositions ev cx todos =
     (let prev = todoBaseline cx in
      if prev = [] then None
      else (case positionsLoop ev prev 0 todos of
              Some e \<Rightarrow> Some e
            | None \<Rightarrow>
                if length (IncompleteTodos prev) > 0 \<and> \<not> PreservesCompletedTodoPositions (eLower ev) prev todos
                then Some HistoryChanged else None))"

fun unsignedLoop :: "evlib \<Rightarrow> TodoItem list \<Rightarrow> nat \<Rightarrow> TodoItem list \<Rightarrow> toolError option" where
  "unsignedLoop ev prev i [] = None"
| "unsignedLoop ev prev i (t # ts) =
     (if tStatus t \<noteq> COMPLETED then unsignedLoop ev prev (i + 1) ts
      else (case MatchTodoIdentity (eLower ev) t prev of (m, found) \<Rightarrow>
        if \<not> found \<or> mStatus m \<noteq> COMPLETED then Some (CompletedUnsigned (i + 1) (tContent t))
        else unsignedLoop ev prev (i + 1) ts))"

fun initialLoop :: "nat \<Rightarrow> TodoItem list \<Rightarrow> toolError option" where
  "initialLoop i [] = None"
| "initialLoop i (t # ts) =
     (if tStatus t = COMPLETED then Some (InitiallyCompleted (i + 1) (tContent t)) else initialLoop (i + 1) ts)"

definition verifyTodoCompletionTransitions :: "evlib \<Rightarrow> 'o toolCtx \<Rightarrow> TodoItem list \<Rightarrow> toolError option" where
  "verifyTodoCompletionTransitions ev cx todos =
     (case cxLedger cx of
        None \<Rightarrow> None
      | Some l \<Rightarrow>
          (case UnverifiedCompletedTodos ev todos l of (missing, hasBaseline) \<Rightarrow>
             if \<not> hasBaseline then
               (if length (cxTodoState cx) > 0 then unsignedLoop ev (cxTodoState cx) 0 todos else initialLoop 0 todos)
             else if missing = [] then None
             else if length missing = 1 then Some (NewlyCompleted (mIndex (hd missing)) (mContent (hd missing)))
             else Some (NewlyCompletedMany (length missing))))"

text \<open>\<open>Execute\<close>: the counts of the confirmation.\<close>

definition decodeTodoArgs :: "evlib \<Rightarrow> bytes \<Rightarrow> TodoItem list option" where
  "decodeTodoArgs ev args =
     (case eParse ev args of
        None \<Rightarrow> None
      | Some j \<Rightarrow> decodeStruct (\<lambda>fs. structField (\<lambda>_ j. decodeSlice (decodeStruct decodeTodoItem) j) ''todos'' fs []) j)"

definition todoWriteChecked :: "evlib \<Rightarrow> 'o toolCtx \<Rightarrow> TodoItem list \<Rightarrow> toolError + nat \<times> nat \<times> nat" where
  "todoWriteChecked ev cx todos =
     (case countItems 0 todos (0, 0, 0) of
        Inl e \<Rightarrow> Inl e
      | Inr counts \<Rightarrow>
      (case ValidateSerialTodos todos of
        Some e \<Rightarrow> Inl (NotSerial e)
      | None \<Rightarrow>
      (case (if cxPlanReplacement cx then None else verifyTodoCurrentContinuity ev cx todos) of
        Some e \<Rightarrow> Inl e
      | None \<Rightarrow>
      (case verifyCompletedTodoPositions ev cx todos of
        Some e \<Rightarrow> Inl e
      | None \<Rightarrow>
      (case verifyTodoCompletionTransitions ev cx todos of
        Some e \<Rightarrow> Inl e
      | None \<Rightarrow> Inr counts)))))"

definition todoWriteExecute :: "evlib \<Rightarrow> 'o toolCtx \<Rightarrow> bytes \<Rightarrow> toolError + nat \<times> nat \<times> nat" where
  "todoWriteExecute ev cx args =
     (case decodeTodoArgs ev args of None \<Rightarrow> Inl InvalidArgs | Some todos \<Rightarrow> todoWriteChecked ev cx todos)"

section \<open>The transcript as proof\<close>

definition resultFailed :: "bytes \<Rightarrow> bool" where
  "resultFailed content \<longleftrightarrow> HasPrefix content ''error:'' \<or> HasPrefix content ''blocked:''"

definition failedCallIDs :: "'o Message list \<Rightarrow> bytes set" where
  "failedCallIDs msgs = set (map mToolCallID
     (filter (\<lambda>m. \<not> (mRole m \<noteq> RoleTool \<or> mToolCallID m = []) \<and> resultFailed (mBody m)) msgs))"

text \<open>The calls of a transcript that no result marks as failed, in order.\<close>

definition unfailedCalls :: "'o Message list \<Rightarrow> 'o ToolCall list" where
  "unfailedCalls msgs = filter (\<lambda>tc. tcID tc \<notin> failedCallIDs msgs) (concat (map mToolCalls msgs))"

definition firstWord :: "bytes \<Rightarrow> bytes" where
  "firstWord s0 = takeWhile (\<lambda>c. c \<noteq> CHR '' '' \<and> c \<noteq> TAB \<and> c \<noteq> LF) (TrimSpace s0)"

definition extractCommandFromCall :: "evlib \<Rightarrow> bytes \<Rightarrow> bytes \<Rightarrow> bytes" where
  "extractCommandFromCall ev name args =
     (let field = (\<lambda>key. case eParse ev args of None \<Rightarrow> None
                         | Some j \<Rightarrow> decodeStruct (\<lambda>fs. structField intoString key fs []) j) in
      if name = ''bash'' then (case field ''command'' of None \<Rightarrow> [] | Some c \<Rightarrow> TrimSpace c)
      else (case field ''path'' of None \<Rightarrow> name | Some p \<Rightarrow> if p = [] then name else name @ '' '' @ p))"

text \<open>The ellipsis character in UTF-8.\<close>

definition ellipsis :: bytes where "ellipsis = [CHR 0xE2, CHR 0x80, CHR 0xA6]"

definition callProves :: "evlib \<Rightarrow> bytes \<Rightarrow> 'o ToolCall \<Rightarrow> bool" where
  "callProves ev lookup tc =
     (let cmd = extractCommandFromCall ev (tcName tc) (tcArguments tc); toolName = firstWord lookup in
      cmd \<noteq> [] \<and> (CommandMatches (eShell ev) lookup cmd \<or> (toolName \<noteq> [] \<and> toolName \<noteq> ''bash'' \<and> tcName tc = toolName)))"

definition verifyCommandFromSession :: "evlib \<Rightarrow> 'o toolCtx \<Rightarrow> bytes \<Rightarrow> bool" where
  "verifyCommandFromSession ev cx command =
     (case cxSession cx of
        None \<Rightarrow> False
      | Some msgs \<Rightarrow>
          let lookup = TrimSuffix (TrimSuffix (TrimSpace command) ''...'') ellipsis in
          if lookup = [] then False else list_ex (callProves ev lookup) (unfailedCalls msgs))"

text \<open>\<open>PathsProvenInSession\<close>.\<close>

definition PathsProvenInSession :: "evlib \<Rightarrow> 'o Message list \<Rightarrow> bytes list \<Rightarrow> bool \<Rightarrow> bool" where
  "PathsProvenInSession ev msgs ps wantWrite =
     (let wanted = pathSet (normalizePaths ps);
          rs = map (\<lambda>tc. ReceiptFromToolCall ev (tcName tc) (tcArguments tc) True False) (unfailedCalls msgs);
          usable = filter (\<lambda>r. if wantWrite then rcWrite r else rcRead r \<or> rcWrite r) rs in
      if wanted = [] then False
      else list_all (\<lambda>p. list_ex (\<lambda>r. p \<in> set (normalizePaths (rcPaths r))) usable) wanted)"

definition verifyPathsFromSession :: "evlib \<Rightarrow> 'o toolCtx \<Rightarrow> bytes list \<Rightarrow> bool \<Rightarrow> bool" where
  "verifyPathsFromSession ev cx ps wantWrite =
     (case cxSession cx of None \<Rightarrow> False | Some msgs \<Rightarrow> PathsProvenInSession ev msgs ps wantWrite)"

section \<open>\<open>complete_step\<close>\<close>

record stepArgs =
  saStep :: bytes
  saStepIndex :: int
  saResult :: bytes
  saEvidence :: "proofItem list"

definition decodeStepArgs :: "evlib \<Rightarrow> bytes \<Rightarrow> stepArgs option" where
  "decodeStepArgs ev args =
     (case eParse ev args of
        None \<Rightarrow> None
      | Some j \<Rightarrow> decodeStruct (\<lambda>fs.
          case (structField intoString ''step'' fs [], structField intoInt ''step_index'' fs 0,
                structField intoString ''result'' fs [],
                structField (\<lambda>_ j. decodeSlice (decodeStruct decodeProofItem) j) ''evidence'' fs [],
                structField intoString ''notes'' fs []) of
            (Some s, Some n, Some r, Some e, Some _) \<Rightarrow> Some \<lparr>saStep = s, saStepIndex = n, saResult = r, saEvidence = e\<rparr>
          | _ \<Rightarrow> None) j)"

definition stepIdentity :: "bytes \<Rightarrow> int \<Rightarrow> bytes" where
  "stepIdentity step stepIndex = (if stepIndex > 0 then show_int stepIndex else TrimSpace step)"

definition validEvidenceKinds :: "bytes list" where
  "validEvidenceKinds = [''verification'', ''review'', ''diff'', ''files'', ''manual'']"

fun evidenceLoop :: "nat \<Rightarrow> proofItem list \<Rightarrow> toolError option" where
  "evidenceLoop i [] = None"
| "evidenceLoop i (e # es) =
     (if piKind e \<notin> set validEvidenceKinds then Some (InvalidKind (i + 1) (piKind e))
      else if TrimSpace (piSummary e) = [] then Some (SummaryRequired (i + 1))
      else evidenceLoop (i + 1) es)"

text \<open>The item named in the refusal of a pending step: the last current one up to the first that is a sub-step.\<close>

fun currentHint :: "nat \<Rightarrow> TodoItem list \<Rightarrow> (nat \<times> bytes) option \<Rightarrow> (nat \<times> bytes) option" where
  "currentHint i [] h = h"
| "currentHint i (t # ts) h =
     (if TrimSpace (tStatus t) \<noteq> IN_PROGRESS then currentHint (i + 1) ts h
      else if tLevel t = 1 then Some (i + 1, tContent t)
      else currentHint (i + 1) ts (Some (i + 1, tContent t)))"

definition stepTodos :: "'o toolCtx \<Rightarrow> TodoItem list" where
  "stepTodos cx = todoBaseline cx"

text \<open>\<open>Inr None\<close>: there is no list to match.\<close>

definition verifyTodoStep :: "evlib \<Rightarrow> 'o toolCtx \<Rightarrow> bytes \<Rightarrow> toolError + TodoStepMatch option" where
  "verifyTodoStep ev cx step =
     (let todos = stepTodos cx in
      if todos = [] then Inr None
      else case MatchStep (eLower ev) step todos of (m, found) \<Rightarrow>
      if \<not> found then
        (if list_all (\<lambda>t. TrimSpace (tStatus t) = COMPLETED) todos
         then Inl (AllCompleted (length todos) (tContent (last todos))) else Inl (NoMatchingTodo step))
      else if mStatus m = IN_PROGRESS then
        (case FirstUnfinishedSubStep todos (mIndex m - 1) of
           Some (Some sub) \<Rightarrow> Inl (SubStepsUnfinished (mIndex m) (mContent m) (sub + 1) (tContent (todos ! sub)))
         | _ \<Rightarrow> Inr (Some m))
      else if mStatus m = COMPLETED then Inr (Some m)
      else if mStatus m = [] \<or> mStatus m = PENDING then Inl (PendingTodo (mIndex m) (mContent m) (currentHint 0 todos None))
      else Inl (OddStatus (mIndex m) (mContent m) (mStatus m)))"

text \<open>One evidence item: an error, or whether the host verified it (\<open>manual\<close> items are not).\<close>

definition verifyItem :: "evlib \<Rightarrow> 'o toolCtx \<Rightarrow> Ledger \<Rightarrow> nat \<Rightarrow> proofItem \<Rightarrow> toolError + bool" where
  "verifyItem ev cx l i e =
     (if piKind e = ''verification'' then
        (let command = TrimSpace (piCommand e) in
         if command = [] then Inl (CommandRequired i)
         else if \<not> HasSuccessfulCommand ev command l \<and> \<not> verifyCommandFromSession ev cx command then
           (if HasFailedCommand ev command l then Inl (CommandFailed i command) else Inl (CommandUnproven i command))
         else if cxDelivery cx \<and> LatestSuccessfulMutationIndex l \<noteq> None \<and> \<not> IsDeliveryVerificationCommand (eShell ev) command
         then Inl (NotDeliveryVerification i command)
         else Inr True)
      else if piKind e = ''review'' then (if \<not> HasCompletedReview ev l then Inl (ReviewMissing i) else Inr True)
      else if piKind e = ''diff'' then
        (if piPaths e = [] then Inl (PathsRequired i)
         else if \<not> HasSuccessfulWrite (piPaths e) l \<and> \<not> verifyPathsFromSession ev cx (piPaths e) True then Inl (DiffUnproven i)
         else Inr True)
      else if piKind e = ''files'' then
        (if piPaths e = [] then Inl (PathsRequired i)
         else if \<not> HasSuccessfulReadOrWrite (piPaths e) l \<and> \<not> HasSuccessfulBashMentioningPaths (piPaths e) l \<and>
                 \<not> verifyPathsFromSession ev cx (piPaths e) False then Inl (FilesUnproven i)
         else Inr True)
      else Inr False)"

fun verifyItems :: "evlib \<Rightarrow> 'o toolCtx \<Rightarrow> Ledger \<Rightarrow> nat \<Rightarrow> proofItem list \<Rightarrow> nat \<times> nat \<Rightarrow> toolError + nat \<times> nat" where
  "verifyItems ev cx l i [] acc = Inr acc"
| "verifyItems ev cx l i (e # es) (hv, mu) =
     (case verifyItem ev cx l (i + 1) e of
        Inl err \<Rightarrow> Inl err
      | Inr True \<Rightarrow> verifyItems ev cx l (i + 1) es (hv + 1, mu)
      | Inr False \<Rightarrow> verifyItems ev cx l (i + 1) es (hv, if piKind e = ''manual'' then mu + 1 else mu))"

definition verifyStepEvidence :: "evlib \<Rightarrow> 'o toolCtx \<Rightarrow> proofItem list \<Rightarrow> toolError + nat \<times> nat" where
  "verifyStepEvidence ev cx items =
     (case cxLedger cx of None \<Rightarrow> Inr (0, 0) | Some l \<Rightarrow> verifyItems ev cx l 0 items (0, 0))"

definition latestWriteBackedEvidenceIndex :: "Ledger \<Rightarrow> proofItem list \<Rightarrow> nat option" where
  "latestWriteBackedEvidenceIndex l items =
     foldl (\<lambda>latest item.
         if piKind item \<in> {''diff'', ''files''} then
           (case (LatestSuccessfulWriteIndex (piPaths item) l, latest) of
              (Some i, None) \<Rightarrow> Some i
            | (Some i, Some m) \<Rightarrow> if i > m then Some i else latest
            | (None, _) \<Rightarrow> latest)
         else latest) None items"

definition checkSource :: "VerifyCheck \<Rightarrow> bytes" where
  "checkSource k =
     (let source = (if TrimSpace (vcSourcePath k) = [] then ''project memory'' else TrimSpace (vcSourcePath k)) in
      if vcLine k > 0 then source @ '':'' @ show_int (vcLine k) else source)"

fun checksLoop :: "evlib \<Rightarrow> Ledger \<Rightarrow> nat \<Rightarrow> VerifyCheck list \<Rightarrow> toolError option" where
  "checksLoop ev l after [] = None"
| "checksLoop ev l after (k # ks) =
     (let command = TrimSpace (vcCommand k) in
      if command = [] then checksLoop ev l after ks
      else if \<not> HasSuccessfulCommandAfter ev command (int after) l then Some (CheckMissing command (checkSource k))
      else checksLoop ev l after ks)"

definition verifyProjectChecks :: "evlib \<Rightarrow> 'o toolCtx \<Rightarrow> proofItem list \<Rightarrow> toolError + nat" where
  "verifyProjectChecks ev cx items =
     (if cxChecks cx = [] then Inr 0
      else (case cxLedger cx of
              None \<Rightarrow> Inr 0
            | Some l \<Rightarrow>
                (case latestWriteBackedEvidenceIndex l items of
                   None \<Rightarrow> Inr 0
                 | Some after \<Rightarrow>
                     (case checksLoop ev l after (cxChecks cx) of Some e \<Rightarrow> Inl e | None \<Rightarrow> Inr (length (cxChecks cx))))))"

record stepReport =
  srStep :: bytes
  srEvidence :: nat
  srHostVerified :: nat
  srManual :: nat
  srTodo :: "TodoStepMatch option"
  srProjectChecks :: nat

definition completeStepChecked :: "evlib \<Rightarrow> 'o toolCtx \<Rightarrow> stepArgs \<Rightarrow> toolError + stepReport" where
  "completeStepChecked ev cx p =
     (let step = stepIdentity (saStep p) (saStepIndex p) in
      if step = [] then Inl StepRequired
      else if saStepIndex p < 0 then Inl NegativeStepIndex
      else if TrimSpace (saResult p) = [] then Inl ResultRequired
      else if saEvidence p = [] then Inl EvidenceRequired
      else case evidenceLoop 0 (saEvidence p) of
        Some e \<Rightarrow> Inl e
      | None \<Rightarrow>
      (case verifyTodoStep ev cx step of
        Inl e \<Rightarrow> Inl e
      | Inr todo \<Rightarrow>
      (case verifyStepEvidence ev cx (saEvidence p) of
        Inl e \<Rightarrow>
          (case todo of
             Some m \<Rightarrow> if mStatus m = IN_PROGRESS then Inl (StillCurrent e (mIndex m) (mContent m)) else Inl e
           | None \<Rightarrow> Inl e)
      | Inr (hv, mu) \<Rightarrow>
      (case verifyProjectChecks ev cx (saEvidence p) of
        Inl e \<Rightarrow> Inl e
      | Inr n \<Rightarrow> Inr \<lparr>srStep = step, srEvidence = length (saEvidence p), srHostVerified = hv, srManual = mu, srTodo = todo,
                    srProjectChecks = n\<rparr>))))"

definition completeStepExecute :: "evlib \<Rightarrow> 'o toolCtx \<Rightarrow> bytes \<Rightarrow> toolError + stepReport" where
  "completeStepExecute ev cx args =
     (case decodeStepArgs ev args of None \<Rightarrow> Inl InvalidArgs | Some p \<Rightarrow> completeStepChecked ev cx p)"

section \<open>The canonical list of the agent\<close>

definition setTodoState :: "TodoItem list \<Rightarrow> TodoItem list" where
  "setTodoState todos = NormalizeSerialTodos todos"

definition SeedTodoState :: "TodoItem list \<Rightarrow> TodoItem list \<Rightarrow> TodoItem list" where
  "SeedTodoState todos state = (if length todos = 0 then state else setTodoState todos)"

definition advanceTodos :: "evlib \<Rightarrow> bytes \<Rightarrow> TodoItem list \<Rightarrow> bool \<times> TodoItem list" where
  "advanceTodos ev step state =
     (case MatchStep (eLower ev) step state of (m, ok) \<Rightarrow>
        if \<not> ok then (False, state) else AdvanceSerialTodo state (mIndex m - 1))"

definition todoJson :: "TodoItem \<Rightarrow> json" where
  "todoJson t = JObj ([(''content'', JStr (tContent t)), (''status'', JStr (tStatus t))] @
     (if tActiveForm t = [] then [] else [(''activeForm'', JStr (tActiveForm t))]) @
     (if tLevel t = 0 then [] else [(''level'', JInt (tLevel t))]))"

definition recordTodoState :: "evlib \<Rightarrow> TodoItem list \<Rightarrow> Ledger \<Rightarrow> Ledger" where
  "recordTodoState ev todos l =
     Record ev (ReceiptFromToolCall ev ''todo_write'' (eMarshal ev (JObj [(''todos'', JArr (map todoJson todos))])) True True) l"

definition advanceCanonicalTodo :: "evlib \<Rightarrow> bytes \<Rightarrow> TodoItem list \<times> Ledger \<Rightarrow> TodoItem list \<times> Ledger" where
  "advanceCanonicalTodo ev step s =
     (let (state, l) = s in
      if length state = 0 then s
      else (case advanceTodos ev step state of
              (False, _) \<Rightarrow> s
            | (True, state') \<Rightarrow> (state', recordTodoState ev state' l)))"

definition ReplaceTodoState :: "evlib \<Rightarrow> TodoItem list \<Rightarrow> TodoItem list \<times> Ledger \<Rightarrow> TodoItem list \<times> Ledger" where
  "ReplaceTodoState ev todos s =
     (let state = setTodoState todos in (state, recordTodoState ev state (snd s)))"

definition incompleteCanonicalTodos :: "TodoItem list \<Rightarrow> TodoStepMatch list option" where
  "incompleteCanonicalTodos state = (if state = [] then None else Some (IncompleteTodos state))"

definition hasIncompleteCanonicalCriteria :: "TodoItem list \<Rightarrow> bool" where
  "hasIncompleteCanonicalCriteria state \<longleftrightarrow> length state > 0 \<and> length (IncompleteTodos state) > 0"

definition canonicalTodoStatus :: "bytes \<Rightarrow> bytes" where
  "canonicalTodoStatus s0 = (let s = TrimSpace s0 in if s = [] then PENDING else s)"

definition hasActiveCanonicalTodo :: "TodoItem list \<Rightarrow> bool" where
  "hasActiveCanonicalTodo state = list_ex (\<lambda>t. canonicalTodoStatus (tStatus t) = IN_PROGRESS) state"

definition canonicalTodoProgress :: "TodoItem list \<Rightarrow> nat \<times> bool" where
  "canonicalTodoProgress state =
     (length (filter (\<lambda>t. canonicalTodoStatus (tStatus t) = COMPLETED) state),
      list_ex (\<lambda>t. canonicalTodoStatus (tStatus t) \<noteq> COMPLETED) state)"

text \<open>What \<open>finishToolExecution\<close> does to the list and the ledger after a call of one of the two tools.\<close>

definition noteTodoCall :: "evlib \<Rightarrow> bytes \<Rightarrow> bytes \<Rightarrow> bool \<Rightarrow> int \<Rightarrow> TodoItem list \<times> Ledger \<Rightarrow> TodoItem list \<times> Ledger" where
  "noteTodoCall ev name args success outputBytes s =
     (let (state, l) = s; rec = ReceiptFromToolCall ev name args success True in
      if name = ''complete_step'' then
        (let l1 = Record ev rec l in
         if success then advanceCanonicalTodo ev (rcStep rec) (state, l1) else (state, l1))
      else
        (let l1 = Record ev (rec\<lparr>rcOutput := outputBytes\<rparr>) l in
         (if success \<and> name = ''todo_write'' then setTodoState (rcTodos rec) else state, l1)))"

section \<open>Reconstruction from a transcript\<close>

definition toolResultFailed :: "bytes \<Rightarrow> bool" where
  "toolResultFailed content0 =
     (let content = TrimSpace content0 in
      HasPrefix content ''error:'' \<or> HasPrefix content ''blocked:'' \<or> HasPrefix content ''Error:'' \<or> HasPrefix content ''[error'')"

definition successfulToolCallIDs :: "'o Message list \<Rightarrow> bytes set" where
  "successfulToolCallIDs msgs = set (map mToolCallID
     (filter (\<lambda>m. \<not> (mRole m \<noteq> RoleTool \<or> mToolCallID m = []) \<and> \<not> toolResultFailed (mBody m)) msgs))"

definition callReceipt :: "evlib \<Rightarrow> 'o ToolCall \<Rightarrow> Receipt" where
  "callReceipt ev tc = ReceiptFromToolCall ev (tcName tc) (tcArguments tc) True True"

text \<open>The base: the list of the last successful \<open>todo_write\<close> and the index of its message.\<close>

fun baseCalls :: "evlib \<Rightarrow> bytes set \<Rightarrow> nat \<Rightarrow> 'o ToolCall list \<Rightarrow> (TodoItem list \<times> nat) option \<Rightarrow> (TodoItem list \<times> nat) option" where
  "baseCalls ev okIDs i [] b = b"
| "baseCalls ev okIDs i (tc # tcs) b =
     (if tcName tc \<noteq> ''todo_write'' \<or> tcID tc \<notin> okIDs then baseCalls ev okIDs i tcs b
      else baseCalls ev okIDs i tcs (Some (NormalizeSerialTodos (rcTodos (callReceipt ev tc)), i)))"

fun baseLoop :: "evlib \<Rightarrow> bytes set \<Rightarrow> nat \<Rightarrow> 'o Message list \<Rightarrow> (TodoItem list \<times> nat) option \<Rightarrow> (TodoItem list \<times> nat) option" where
  "baseLoop ev okIDs i [] b = b"
| "baseLoop ev okIDs i (m # ms) b = baseLoop ev okIDs (i + 1) ms (baseCalls ev okIDs i (mToolCalls m) b)"

definition replayCall :: "evlib \<Rightarrow> bytes set \<Rightarrow> TodoItem list \<Rightarrow> 'o ToolCall \<Rightarrow> TodoItem list" where
  "replayCall ev okIDs todos tc =
     (if tcName tc \<noteq> ''complete_step'' \<or> tcID tc \<notin> okIDs then todos
      else snd (advanceTodos ev (rcStep (callReceipt ev tc)) todos))"

definition rebuildTodoState :: "evlib \<Rightarrow> 'o Message list \<Rightarrow> TodoItem list" where
  "rebuildTodoState ev msgs =
     (let okIDs = successfulToolCallIDs msgs in
      case baseLoop ev okIDs 0 msgs None of
        None \<Rightarrow> setTodoState []
      | Some (todos, base) \<Rightarrow>
          setTodoState (foldl (replayCall ev okIDs) todos (concat (map mToolCalls (drop base msgs)))))"

section \<open>Normal lists\<close>

text \<open>Every status is written out, and what an accepted call may contain.\<close>

definition canonical :: "TodoItem list \<Rightarrow> bool" where
  "canonical ts \<longleftrightarrow> (\<forall>t \<in> set ts. tStatus t \<in> {COMPLETED, IN_PROGRESS, PENDING})"

definition accepted_list :: "TodoItem list \<Rightarrow> bool" where
  "accepted_list ts \<longleftrightarrow> ValidateSerialTodos ts = None \<and> two_levels ts \<and>
     (\<forall>t \<in> set ts. tStatus t \<in> {COMPLETED, IN_PROGRESS, PENDING, []})"

lemma st_statuses [simp]: "todoStatus COMPLETED = COMPLETED" "todoStatus IN_PROGRESS = IN_PROGRESS" "todoStatus PENDING = PENDING"
  "todoStatus [] = PENDING"
  by code_simp+

definition item_ok :: "TodoItem \<Rightarrow> bool" where
  "item_ok t \<longleftrightarrow> tContent t \<noteq> [] \<and> (tLevel t = 0 \<or> tLevel t = 1) \<and> tStatus t \<in> {COMPLETED, IN_PROGRESS, PENDING, []}"

lemma countItems_Inr: "countItems i ts acc = Inr c \<Longrightarrow> list_all item_ok ts"
proof (induction i ts acc rule: countItems.induct)
  case (2 i t ts d a p)
  have "tLevel t = 0 \<or> tLevel t = 1" using 2(4) by (simp split: if_splits) linarith+
  then show ?case using 2 by (auto simp: item_ok_def split: if_splits)
qed simp

lemma todoWriteChecked_accepts:
  assumes "todoWriteChecked ev cx ts = Inr c"
  shows "accepted_list ts" "countItems 0 ts (0, 0, 0) = Inr c" "verifyCompletedTodoPositions ev cx ts = None"
    "verifyTodoCompletionTransitions ev cx ts = None" "\<not> cxPlanReplacement cx \<Longrightarrow> verifyTodoCurrentContinuity ev cx ts = None"
proof -
  show c: "countItems 0 ts (0, 0, 0) = Inr c"
    using assms by (auto simp: todoWriteChecked_def split: sum.splits option.splits if_splits)
  have "ValidateSerialTodos ts = None"
    using assms by (auto simp: todoWriteChecked_def split: sum.splits option.splits)
  then show "accepted_list ts" using countItems_Inr [OF c]
    by (auto simp: accepted_list_def two_levels_def list_all_iff item_ok_def)
  show "verifyCompletedTodoPositions ev cx ts = None" "verifyTodoCompletionTransitions ev cx ts = None"
    "\<not> cxPlanReplacement cx \<Longrightarrow> verifyTodoCurrentContinuity ev cx ts = None"
    using assms by (auto simp: todoWriteChecked_def split: sum.splits option.splits if_splits)
qed

lemma groups_map:
  assumes "\<And>t. tLevel (f t) = tLevel t"
  shows "groups (map f ts) = map (map f) (groups ts)"
proof -
  have "isSub (f t) = isSub t" for t by (simp add: isSub_def assms)
  then have "isSub \<circ> f = isSub" by (simp add: fun_eq_iff)
  then show ?thesis by (induction ts rule: groups.induct) (simp_all add: assms takeWhile_map dropWhile_map)
qed

lemma same_items_groups: "same_items a b \<Longrightarrow> map length (groups a) = map length (groups b)"
proof -
  assume "same_items a b"
  then have "groups (map (setStatus []) a) = groups (map (setStatus []) b)" by (simp add: same_items_def)
  moreover have "groups (map (setStatus []) x) = map (map (setStatus [])) (groups x)" for x
    by (rule groups_map) (simp add: setStatus_def)
  ultimately have "map (map (setStatus [])) (groups a) = map (map (setStatus [])) (groups b)" by simp
  from arg_cong [OF this, of "map length"] show ?thesis by (simp add: comp_def)
qed

lemma rotated_eq:
  assumes "map length gs = map length hs" "\<forall>g \<in> set gs. g \<noteq> []"
    and "concat (map (\<lambda>g. map f (tl g @ [hd g])) gs) = concat (map (\<lambda>g. map f (tl g @ [hd g])) hs)"
  shows "map f (concat gs) = map f (concat hs)"
  using assms
proof (induction gs arbitrary: hs)
  case (Cons g gs)
  then obtain h hs' where hs: "hs = h # hs'" "length h = length g" by (cases hs) auto
  have ne: "g \<noteq> []" "h \<noteq> []" using Cons.prems hs by auto
  then have "map f (tl g @ [hd g]) = map f (tl h @ [hd h]) \<and>
      concat (map (\<lambda>g. map f (tl g @ [hd g])) gs) = concat (map (\<lambda>g. map f (tl g @ [hd g])) hs')"
    using Cons.prems(3) hs by (auto simp: append_eq_append_conv)
  moreover from this have "map f g = map f h" using ne by (cases g; cases h) auto
  ultimately show ?case using Cons.IH [of hs'] Cons.prems hs by simp
qed simp

lemma same_statuses:
  assumes "same_items a b" "map st (signoff a) = map st (signoff b)"
  shows "map st a = map st b"
proof -
  have "map st (concat (groups a)) = map st (concat (groups b))"
    using same_items_groups [OF assms(1)] groups_is_group [of _ a] assms(2)
    by (intro rotated_eq) (auto simp: signoff_def map_concat is_group_def comp_def)
  then show ?thesis by simp
qed

lemma canonical_same:
  assumes "same_items a b" "map st a = map st b" "canonical a" "canonical b"
  shows "a = b"
  using assms
proof (induction a arbitrary: b)
  case (Cons x a)
  then obtain y b' where b: "b = y # b'" by (cases b) auto
  have "tStatus x = tStatus y" using Cons.prems b by (auto simp: canonical_def st_def)
  moreover have "setStatus [] x = setStatus [] y" using Cons.prems b by simp
  ultimately have "x = y" by (cases x; cases y) (simp add: setStatus_def)
  then show ?case using Cons.IH [of b'] Cons.prems b by (simp add: canonical_def)
qed (auto simp: same_items_def)

lemma canonical_nsubs:
  "\<forall>t \<in> set xs. st t = COMPLETED \<longrightarrow> tStatus t = COMPLETED \<Longrightarrow> canonical (fst (nsubs xs u))"
  by (induction xs u rule: nsubs.induct) (auto simp: canonical_def setStatus_def case_prod_unfold Let_def)

lemma canonical_Normalize:
  assumes "\<forall>t \<in> set ts. st t = COMPLETED \<longrightarrow> tStatus t = COMPLETED"
  shows "canonical (NormalizeSerialTodos ts)"
proof -
  have "\<forall>g \<in> set gs. is_group g \<Longrightarrow> \<forall>t \<in> set (concat gs). st t = COMPLETED \<longrightarrow> tStatus t = COMPLETED \<Longrightarrow>
      canonical (concat (ngroups gs))" for gs
  proof (induction gs)
    case (Cons g gs)
    have "canonical (ngroup g)" using Cons.prems canonical_nsubs [of "tl g" False]
      by (cases g) (auto simp: is_group_def ngroup_def canonical_def setStatus_def case_prod_unfold Let_def)
    then show ?case using Cons by (auto simp: canonical_def setStatus_def list_all_iff)
  qed (simp add: canonical_def)
  from this [of "groups ts"] show ?thesis
    using groups_is_group assms by (simp add: NormalizeSerialTodos_groups)
qed

text \<open>A valid list with its statuses written out is not changed by the repair.\<close>

lemma Normalize_id:
  assumes "ValidateSerialTodos ts = None" "canonical ts"
  shows "NormalizeSerialTodos ts = ts"
proof (rule canonical_same)
  show s: "same_items (NormalizeSerialTodos ts) ts" by (rule NormalizeSerialTodos_items)
  obtain k where "k \<le> length ts" "map st (signoff ts) = progress k (length ts)"
    using assms(1) by (auto simp: valid_progress)
  moreover from this have "leading (map st (signoff ts)) = k"
    by (auto simp: leading_def progress_def takeWhile_append split: if_splits)
  ultimately have "map st (signoff (NormalizeSerialTodos ts)) = map st (signoff ts)"
    using NormalizeSerialTodos_signoff [of ts] repaired_progress [of "map st (signoff ts)"] by simp
  then show "map st (NormalizeSerialTodos ts) = map st ts" by (rule same_statuses [OF s])
  show "canonical (NormalizeSerialTodos ts)"
    by (rule canonical_Normalize) (use assms(2) in \<open>auto simp: canonical_def st_def\<close>)
qed (rule assms(2))

lemma canonical_setAt: "canonical ts \<Longrightarrow> s \<in> {COMPLETED, IN_PROGRESS, PENDING} \<Longrightarrow> canonical (setAt ts i s)"
  using set_update_subset_insert [of ts i "setStatus s (ts ! i)"] by (auto simp: canonical_def setAt_def setStatus_def)

lemma canonical_promoteNext: "canonical ts \<Longrightarrow> canonical (promoteNext ts)"
  by (auto simp: promoteNext_def canonical_setAt split: option.split)

lemma canonical_Advance: "canonical ts \<Longrightarrow> canonical (snd (AdvanceSerialTodo ts i))"
  by (auto simp: AdvanceSerialTodo_def Let_def canonical_setAt canonical_promoteNext split: option.split)

text \<open>What the canonical list always is: valid, of two levels, with its statuses written out.\<close>

definition good_list :: "TodoItem list \<Rightarrow> bool" where
  "good_list ts \<longleftrightarrow> ValidateSerialTodos ts = None \<and> two_levels ts \<and> canonical ts"

lemma good_Nil [simp]: "good_list []"
proof -
  have "ValidateSerialTodos [] = None" by code_simp
  then show ?thesis by (simp add: good_list_def two_levels_def canonical_def)
qed

lemma good_Normalize:
  assumes "accepted_list ts"
  shows "good_list (NormalizeSerialTodos ts)"
proof -
  note s = NormalizeSerialTodos_items [of ts]
  have v: "ts = [] \<or> tLevel (hd ts) \<noteq> 1" using assms by (auto simp: accepted_list_def valid_progress)
  have "NormalizeSerialTodos ts = [] \<longleftrightarrow> ts = []" using same_items_length [OF s] by auto
  moreover have "NormalizeSerialTodos ts \<noteq> [] \<Longrightarrow> tLevel (hd (NormalizeSerialTodos ts)) = tLevel (hd ts)"
    by (rule hd_level [OF same_items_levels [OF s]])
  moreover have "leading (map st (signoff ts)) \<le> length ts"
    unfolding leading_def using length_takeWhile_le [of _ "map st (signoff ts)"] by (metis length_map length_signoff)
  moreover have "map st (signoff (NormalizeSerialTodos ts)) = progress (leading (map st (signoff ts))) (length ts)"
    using NormalizeSerialTodos_signoff [of ts] repaired_progress [of "map st (signoff ts)"] by simp
  ultimately have "ValidateSerialTodos (NormalizeSerialTodos ts) = None"
    using v same_items_length [OF s] by (auto simp: valid_progress)
  moreover have "two_levels (NormalizeSerialTodos ts)" using two_levels_same [OF s] assms by (simp add: accepted_list_def)
  moreover have "canonical (NormalizeSerialTodos ts)"
    by (rule canonical_Normalize) (use assms in \<open>auto simp: accepted_list_def st_def\<close>)
  ultimately show ?thesis by (simp add: good_list_def)
qed

lemma good_Advance:
  assumes "good_list ts"
  shows "good_list (snd (AdvanceSerialTodo ts i))"
proof (cases "0 \<le> i \<and> i < int (length ts) \<and> st (ts ! nat i) = IN_PROGRESS")
  case True
  obtain k where k: "map st (signoff ts) = progress k (length ts)"
    using assms by (auto simp: good_list_def valid_progress)
  have g: "ValidateSerialTodos ts = None" "two_levels ts" using assms by (simp_all add: good_list_def)
  have i: "nat i < length ts" "st (ts ! nat i) = IN_PROGRESS" "int (nat i) = i" using True by (auto simp: nat_less_iff)
  obtain ts' where "AdvanceSerialTodo ts i = (True, ts')" "same_items ts' ts" "ValidateSerialTodos ts' = None"
    using AdvanceSerialTodo_step [OF g k i(1,2)] unfolding i(3) by blast
  then show ?thesis
    using assms canonical_Advance [of ts i] two_levels_same by (auto simp: good_list_def)
next
  case False
  then show ?thesis using assms by (simp add: AdvanceSerialTodo_refused)
qed

lemma good_advanceTodos: "good_list ts \<Longrightarrow> good_list (snd (advanceTodos ev step ts))"
  by (simp add: advanceTodos_def good_Advance split: prod.split)

lemma good_set: "good_list ts \<Longrightarrow> setTodoState ts = ts"
  by (simp add: setTodoState_def good_list_def Normalize_id)

section \<open>Replay\<close>

text \<open>
  How a tool call of a turn can end (\<open>executeBatch\<close> and \<open>finishToolExecution\<close>): refused before it ran, with the
  text of the refusal; cancelled with its batch before it ran; run with an error, that has a text, beside the result of the tool
  and its schema; run without one, with the result and the notices of the hooks. The last case is that of a session that died before
  the call had a result: the repair of the stored session writes one (\<open>interrupted_session_repaired\<close>).
\<close>

datatype callEnd = Refused bytes | Cancelled | Failed bytes bytes bytes | Succeeded bytes "bytes list" | Interrupted

definition succeeded :: "callEnd \<Rightarrow> bool" where
  "succeeded e \<longleftrightarrow> (case e of Succeeded r ns \<Rightarrow> True | _ \<Rightarrow> False)"

definition resultText :: "'o ToolCall \<Rightarrow> callEnd \<Rightarrow> bytes" where
  "resultText tc e =
     (case e of
        Refused msg \<Rightarrow> msg
      | Cancelled \<Rightarrow> ''cancelled: context cancelled before execution''
      | Failed err r schema \<Rightarrow>
          fst (truncateToolOutput (''error: '' @ err @ [LF] @
            (if json_Valid (tcArguments tc) then r
             else TrimRightLF r @ [LF] @ ''The arguments were not valid JSON. Re-emit them exactly per this schema:'' @ [LF] @ schema)))
      | Succeeded r notices \<Rightarrow>
          (let body = fst (truncateToolOutput r) in if notices = [] then body else fst (attachHookNotices body notices))
      | Interrupted \<Rightarrow> interruptedToolResult)"

text \<open>The message that records the result, its images and the details of a shell command left out.\<close>

definition resultMessage :: "'o ToolCall \<Rightarrow> callEnd \<Rightarrow> 'o Message" where
  "resultMessage tc e = (placeholder tc)\<lparr>mBody := resultText tc e\<rparr>"

text \<open>A session: its messages but for the results, each with the ends of its calls. The calls run in the order of the
  transcript (the two tools never join a parallel batch).\<close>

type_synonym 'o round = "'o Message \<times> callEnd list"

definition transcript :: "'o round list \<Rightarrow> 'o Message list" where
  "transcript rs = concat (map (\<lambda>(m, es). m # map2 resultMessage (mToolCalls m) es) rs)"

definition roundCalls :: "'o round list \<Rightarrow> ('o ToolCall \<times> callEnd) list" where
  "roundCalls rs = concat (map (\<lambda>(m, es). zip (mToolCalls m) es) rs)"

text \<open>The live state: a call that ran is noted with \<open>err == nil\<close>, one that did not run changes nothing. (The
  failed receipt of a second sign-off in one batch is left out: the list does not depend on the ledger.)\<close>

definition liveCall :: "evlib \<Rightarrow> TodoItem list \<times> Ledger \<Rightarrow> 'o ToolCall \<times> callEnd \<Rightarrow> TodoItem list \<times> Ledger" where
  "liveCall ev s c =
     (case c of (tc, e) \<Rightarrow>
        (case e of
           Failed err r schema \<Rightarrow> noteTodoCall ev (tcName tc) (tcArguments tc) False (int (length (TrimSpace r))) s
         | Succeeded r notices \<Rightarrow> noteTodoCall ev (tcName tc) (tcArguments tc) True (int (length (TrimSpace r))) s
         | _ \<Rightarrow> s))"

definition listAfter :: "evlib \<Rightarrow> bytes set \<Rightarrow> TodoItem list \<Rightarrow> 'o ToolCall \<Rightarrow> TodoItem list" where
  "listAfter ev okIDs todos tc =
     (if tcID tc \<notin> okIDs then todos
      else if tcName tc = ''todo_write'' then setTodoState (rcTodos (callReceipt ev tc))
      else if tcName tc = ''complete_step'' then snd (advanceTodos ev (rcStep (callReceipt ev tc)) todos)
      else todos)"

lemma advanceTodos_Nil: "snd (advanceTodos ev step []) = []"
  by (simp add: advanceTodos_def AdvanceSerialTodo_refused split: prod.split)

lemma advanceTodos_False: "advanceTodos ev step ts = (False, ts') \<Longrightarrow> ts' = ts"
  by (auto simp: advanceTodos_def AdvanceSerialTodo_def Let_def split: prod.splits if_splits option.splits)

lemma noteTodoCall_list:
  "fst (noteTodoCall ev name args success n (state, l)) =
     (if \<not> success then state
      else if name = ''todo_write'' then setTodoState (rcTodos (ReceiptFromToolCall ev name args True True))
      else if name = ''complete_step'' then snd (advanceTodos ev (rcStep (ReceiptFromToolCall ev name args True True)) state)
      else state)"
proof (cases "name = ''complete_step'' \<and> success \<and> state \<noteq> []")
  case True
  then show ?thesis using advanceTodos_False [of ev _ state]
    by (auto simp: noteTodoCall_def advanceCanonicalTodo_def Let_def split: prod.split bool.split)
next
  case False
  then show ?thesis by (auto simp: noteTodoCall_def advanceCanonicalTodo_def Let_def advanceTodos_Nil)
qed

lemma liveCall_list:
  assumes "tcName tc \<in> {''todo_write'', ''complete_step''} \<Longrightarrow> tcID tc \<in> okIDs \<longleftrightarrow> succeeded e"
  shows "fst (liveCall ev s (tc, e)) = listAfter ev okIDs (fst s) tc"
  using assms
  by (cases s; cases e) (auto simp: liveCall_def noteTodoCall_list listAfter_def callReceipt_def succeeded_def)

lemma live_list:
  assumes "\<forall>(tc, e) \<in> set cs. tcName tc \<in> {''todo_write'', ''complete_step''} \<longrightarrow> (tcID tc \<in> okIDs \<longleftrightarrow> succeeded e)"
  shows "fst (foldl (liveCall ev) s cs) = foldl (listAfter ev okIDs) (fst s) (map fst cs)"
  using assms
proof (induction cs arbitrary: s)
  case (Cons c cs)
  obtain tc e where c: "c = (tc, e)" by (cases c)
  have "fst (liveCall ev s (tc, e)) = listAfter ev okIDs (fst s) tc" using Cons.prems c by (intro liveCall_list) auto
  then show ?case using Cons c by simp
qed simp

text \<open>A call that set the list, a call that advanced it.\<close>

definition sets :: "bytes set \<Rightarrow> 'o ToolCall \<Rightarrow> bool" where
  "sets okIDs tc \<longleftrightarrow> tcName tc = ''todo_write'' \<and> tcID tc \<in> okIDs"

definition advances :: "bytes set \<Rightarrow> 'o ToolCall \<Rightarrow> bool" where
  "advances okIDs tc \<longleftrightarrow> tcName tc = ''complete_step'' \<and> tcID tc \<in> okIDs"

lemma baseCalls_none: "\<forall>tc \<in> set tcs. \<not> sets okIDs tc \<Longrightarrow> baseCalls ev okIDs i tcs b = b"
  by (induction tcs arbitrary: b) (auto simp: sets_def)

lemma baseLoop_none: "\<forall>m \<in> set ms. \<forall>tc \<in> set (mToolCalls m). \<not> sets okIDs tc \<Longrightarrow> baseLoop ev okIDs i ms b = b"
  by (induction ms arbitrary: i b) (simp_all add: baseCalls_none)

lemma baseCalls_append: "baseCalls ev okIDs i (xs @ ys) b = baseCalls ev okIDs i ys (baseCalls ev okIDs i xs b)"
  by (induction xs arbitrary: b) auto

lemma baseLoop_append: "baseLoop ev okIDs i (xs @ ys) b = baseLoop ev okIDs (i + length xs) ys (baseLoop ev okIDs i xs b)"
  by (induction xs arbitrary: i b) auto

lemma replay_same: "\<not> sets okIDs tc \<Longrightarrow> replayCall ev okIDs ts tc = listAfter ev okIDs ts tc"
  by (auto simp: replayCall_def listAfter_def sets_def)

lemma replay_idle: "\<not> advances okIDs tc \<Longrightarrow> replayCall ev okIDs ts tc = ts"
  by (auto simp: replayCall_def advances_def)

lemma foldl_replay_idle: "\<forall>tc \<in> set tcs. \<not> advances okIDs tc \<Longrightarrow> foldl (replayCall ev okIDs) ts tcs = ts"
  by (induction tcs) (simp_all add: replay_idle)

lemma foldl_replay_same:
  "\<forall>tc \<in> set tcs. \<not> sets okIDs tc \<Longrightarrow> foldl (replayCall ev okIDs) ts tcs = foldl (listAfter ev okIDs) ts tcs"
  by (induction tcs arbitrary: ts) (simp_all add: replay_same)

lemma good_listAfter: "good_list ts \<Longrightarrow> \<not> sets okIDs tc \<Longrightarrow> good_list (listAfter ev okIDs ts tc)"
  by (auto simp: listAfter_def sets_def good_advanceTodos)

lemma good_foldl: "\<forall>tc \<in> set tcs. \<not> sets okIDs tc \<Longrightarrow> good_list ts \<Longrightarrow> good_list (foldl (listAfter ev okIDs) ts tcs)"
  by (induction tcs arbitrary: ts) (simp_all add: good_listAfter)

text \<open>The base of the rebuild is the last call that set the list, and the later calls change it as they did live.\<close>

lemma rebuild_from_base:
  assumes "msgs = pre @ m # post" and "mToolCalls m = cs1 @ tw # cs2" and "okIDs = successfulToolCallIDs msgs"
    and "sets okIDs tw"
    and "\<forall>tc \<in> set cs1. \<not> advances okIDs tc"
    and "\<forall>tc \<in> set (cs2 @ concat (map mToolCalls post)). \<not> sets okIDs tc"
  shows "rebuildTodoState ev msgs =
    setTodoState (foldl (listAfter ev okIDs) (NormalizeSerialTodos (rcTodos (callReceipt ev tw))) (cs2 @ concat (map mToolCalls post)))"
proof -
  let ?base = "NormalizeSerialTodos (rcTodos (callReceipt ev tw))"
  let ?later = "cs2 @ concat (map mToolCalls post)"
  have "baseLoop ev okIDs 0 msgs None = Some (?base, length pre)"
    using assms(4,6)
    by (auto simp: assms(1,2) baseLoop_append baseCalls_append baseCalls_none sets_def intro!: baseLoop_none)
  then have "rebuildTodoState ev msgs =
      setTodoState (foldl (replayCall ev okIDs) ?base (concat (map mToolCalls (drop (length pre) msgs))))"
    by (simp add: rebuildTodoState_def Let_def assms(3))
  also have "concat (map mToolCalls (drop (length pre) msgs)) = cs1 @ tw # ?later" by (simp add: assms(1,2))
  also have "foldl (replayCall ev okIDs) ?base (cs1 @ tw # ?later) = foldl (listAfter ev okIDs) ?base ?later"
  proof -
    have "\<not> advances okIDs tw" using assms(4) by (simp add: sets_def advances_def)
    then show ?thesis using foldl_replay_idle [OF assms(5)] foldl_replay_same [OF assms(6)] by (simp add: replay_idle)
  qed
  finally show ?thesis .
qed

section \<open>Recorded sessions\<close>

text \<open>The failures the tools report are recognised in the transcript.\<close>

lemma trim_left_id: "lead_space s = 0 \<Longrightarrow> trim_left s = s"
  by (simp add: trim_left.simps [of s])

lemma trim_right_keeps:
  assumes "last p \<notin> \<Union> (set ` set space_seqs)" "p \<noteq> []" "HasPrefix s p"
  shows "HasPrefix (trim_right s) p"
  using assms(3)
proof (induction s rule: trim_right.induct)
  case (1 s)
  show ?case
  proof (cases "trail_space s = 0")
    case False
    then obtain q where q: "q \<in> set space_seqs" "HasSuffix s q" "trail_space s = length q"
      by (auto simp: trail_space_def dest!: find_in_list split: option.splits)
    then obtain r where r: "s = r @ q" by (auto simp: HasSuffix_iff)
    obtain z where z: "s = p @ z" using 1(2) by (auto simp: HasPrefix_iff)
    have "length p \<le> length r"
    proof (rule ccontr)
      assume l: "\<not> length p \<le> length r"
      have "r @ q = p @ z" using r z by simp
      then obtain w where w: "r @ w = p \<and> q = w @ z \<or> r = p @ w \<and> w @ q = z" unfolding append_eq_append_conv2 by blast
      then have "p = r @ w" "q = w @ z" "w \<noteq> []" using l by auto
      then have "last p \<in> set q" by simp
      then show False using assms(1) q(1) by auto
    qed
    have "r @ q = p @ z" using r z by simp
    then obtain w where "r @ w = p \<and> q = w @ z \<or> r = p @ w \<and> w @ q = z" unfolding append_eq_append_conv2 by blast
    then have "HasPrefix r p" using \<open>length p \<le> length r\<close> by (auto simp: HasPrefix_iff)
    moreover have "take (length s - trail_space s) s = r" using r q(3) by simp
    moreover from this have "trim_right s = trim_right r" using False by (subst trim_right.simps) simp
    ultimately show ?thesis using 1(1) [OF False] by simp
  qed (use 1(2) in \<open>simp add: trim_right.simps [of s]\<close>)
qed


lemma error_prefix: "HasPrefix s ''error:'' \<Longrightarrow> toolResultFailed s"
proof -
  assume s: "HasPrefix s ''error:''"
  then obtain r where r: "s = ''error:'' @ r" by (auto simp: HasPrefix_iff)
  have "find (\<lambda>q. HasPrefix s q) space_seqs = None" unfolding r by (simp add: space_seqs_def HasPrefix_def)
  then have "trim_left s = s" by (intro trim_left_id) (simp add: lead_space_def)
  moreover have "last ''error:'' \<notin> \<Union> (set ` set space_seqs)" by (simp add: space_seqs_def)
  ultimately have "HasPrefix (TrimSpace s) ''error:''" using trim_right_keeps [of "''error:''" s] s by (simp add: TrimSpace_def)
  then show ?thesis by (simp add: toolResultFailed_def)
qed

lemma failed_text: "toolResultFailed (resultText tc (Failed err r schema))"
  unfolding resultText_def callEnd.case by (rule error_prefix, rule truncate_prefix) (simp_all add: HasPrefix_def)

lemma unexecuted_text: "\<not> toolResultFailed (resultText tc Cancelled)" "\<not> toolResultFailed (resultText tc Interrupted)"
  by (simp_all add: resultText_def) code_simp+

text \<open>
  The shape of a recorded session: a result for each call, the calls with ids of their own. And what the two tools and the
  refusals report is what the rebuild takes it for.
\<close>

definition recorded :: "'o round list \<Rightarrow> bool" where
  "recorded rs \<longleftrightarrow> (\<forall>(m, es) \<in> set rs. mRole m \<noteq> RoleTool \<and> length es = length (mToolCalls m)) \<and>
     idDistinct (map fst (roundCalls rs))"

definition readable :: "'o ToolCall \<times> callEnd \<Rightarrow> bool" where
  "readable c \<longleftrightarrow> (case c of (tc, e) \<Rightarrow>
     (case e of
        Refused msg \<Rightarrow> toolResultFailed msg
      | Succeeded r notices \<Rightarrow> \<not> toolResultFailed (resultText tc e)
      | Failed err r schema \<Rightarrow> True
      | _ \<Rightarrow> False))"

lemma resultMessage_fields [simp]:
  "mRole (resultMessage tc e) = RoleTool" "mToolCallID (resultMessage tc e) = tcID tc"
  "mBody (resultMessage tc e) = resultText tc e" "mToolCalls (resultMessage tc e) = []"
  by (simp_all add: resultMessage_def placeholder_def)

lemma transcript_simps [simp]:
  "transcript [] = []" "transcript ((m, es) # rs) = m # map2 resultMessage (mToolCalls m) es @ transcript rs"
  "transcript (rs @ rs') = transcript rs @ transcript rs'"
  by (simp_all add: transcript_def)

lemma roundCalls_simps [simp]:
  "roundCalls [] = []" "roundCalls ((m, es) # rs) = zip (mToolCalls m) es @ roundCalls rs"
  "roundCalls (rs @ rs') = roundCalls rs @ roundCalls rs'"
  by (simp_all add: roundCalls_def)

lemma results_have_no_calls: "concat (map mToolCalls (map2 resultMessage tcs es)) = []"
  by (induction tcs es rule: list_induct2') simp_all

lemma transcript_calls:
  "\<forall>(m, es) \<in> set rs. length es = length (mToolCalls m) \<Longrightarrow>
     concat (map mToolCalls (transcript rs)) = map fst (roundCalls rs)"
  by (induction rs) (auto simp: results_have_no_calls simp del: map_map)

lemma transcript_results:
  "\<forall>(m, es) \<in> set rs. mRole m \<noteq> RoleTool \<Longrightarrow>
     r \<in> set (transcript rs) \<and> mRole r = RoleTool \<longleftrightarrow> (\<exists>(tc, e) \<in> set (roundCalls rs). r = resultMessage tc e)"
  by (induction rs) (auto split: prod.splits)

lemma idDistinct_eq: "idDistinct tcs \<Longrightarrow> x \<in> set tcs \<Longrightarrow> y \<in> set tcs \<Longrightarrow> tcID x = tcID y \<Longrightarrow> x = y"
  unfolding idDistinct_iff by (metis distinct_map inj_on_def)

lemma calls_once:
  assumes "recorded rs" "(tc, e) \<in> set (roundCalls rs)" "(tc', e') \<in> set (roundCalls rs)" "tcID tc' = tcID tc"
  shows "tc' = tc \<and> e' = e"
proof -
  have d: "distinct (map tcID (map fst (roundCalls rs)))" using assms(1) by (simp add: recorded_def idDistinct_iff)
  then have "inj_on (tcID \<circ> fst) (set (roundCalls rs))" by (simp add: distinct_map comp_def)
  then have "(tc', e') = (tc, e)" by (rule inj_onD) (use assms in simp_all)
  then show ?thesis by simp
qed

lemma recorded_ids:
  assumes "recorded rs" "(tc, e) \<in> set (roundCalls rs)"
  shows "tcID tc \<in> successfulToolCallIDs (transcript rs) \<longleftrightarrow> \<not> toolResultFailed (resultText tc e)"
proof -
  have ne: "tcID tc \<noteq> []" using assms by (force simp: recorded_def idDistinct_iff)
  have r: "\<forall>(m, es) \<in> set rs. mRole m \<noteq> RoleTool" using assms(1) by (auto simp: recorded_def)
  have "tcID tc \<in> successfulToolCallIDs (transcript rs) \<longleftrightarrow>
      (\<exists>m. (m \<in> set (transcript rs) \<and> mRole m = RoleTool) \<and> mToolCallID m = tcID tc \<and> \<not> toolResultFailed (mBody m))"
    using ne unfolding successfulToolCallIDs_def set_map set_filter by (auto simp: image_iff)
  also have "\<dots> \<longleftrightarrow> (\<exists>(tc', e') \<in> set (roundCalls rs). tcID tc' = tcID tc \<and> \<not> toolResultFailed (resultText tc' e'))"
    unfolding transcript_results [OF r] by force
  also have "\<dots> \<longleftrightarrow> \<not> toolResultFailed (resultText tc e)"
    using assms calls_once [OF assms] by blast
  finally show ?thesis .
qed

lemma readable_text: "readable (tc, e) \<Longrightarrow> \<not> toolResultFailed (resultText tc e) \<longleftrightarrow> succeeded e"
  by (cases e) (simp_all add: readable_def succeeded_def failed_text, simp add: resultText_def)


definition step_args :: "(bytes \<times> json) list" where
  "step_args =
    [(''{step 1}'', JObj [(''step'', JStr ''1''), (''result'', JStr ''ok'')]),
     (''{list}'', JObj [(''todos'', JArr [JObj [(''content'', JStr ''parse''), (''status'', JStr ''in_progress'')],
                                        JObj [(''content'', JStr ''print''), (''status'', JStr ''pending'')]])])]"

definition step_ev :: evlib where
  "step_ev = \<lparr>eParse = map_of step_args, eMarshal = (\<lambda>_. []), eShell = words_shell, eLower = (\<lambda>r. r), eSha = (\<lambda>s. s)\<rparr>"

definition step_call :: "bytes \<Rightarrow> bytes \<Rightarrow> bytes \<Rightarrow> unit ToolCall" where
  "step_call i name args = \<lparr>tcID = i, tcName = name, tcArguments = args, tcOther = None\<rparr>"

definition calls_msg :: "unit ToolCall list \<Rightarrow> unit Message" where
  "calls_msg calls = (placeholder (step_call [] [] []))\<lparr>mRole := RoleAssistant, mBody := [], mToolCalls := calls\<rparr>"

definition call_step :: "unit ToolCall" where
  "call_step = step_call ''a'' ''complete_step'' ''{step 1}''"

definition call_list :: "unit ToolCall" where
  "call_list = step_call ''b'' ''todo_write'' ''{list}''"

definition done_end :: callEnd where
  "done_end = Succeeded ''done'' []"

definition swapped_rounds :: "unit round list" where
  "swapped_rounds = [(calls_msg [call_step, call_list], [done_end, done_end])]"

definition new_list :: "bytes \<Rightarrow> bytes \<Rightarrow> TodoItem list" where
  "new_list a b = [\<lparr>tContent = ''parse'', tStatus = a, tActiveForm = [], tLevel = 0\<rparr>,
     \<lparr>tContent = ''print'', tStatus = b, tActiveForm = [], tLevel = 0\<rparr>]"

lemma match_number_one: "ts \<noteq> [] \<Longrightarrow> MatchStep lr ''1'' ts = (match_at ts 0, True)"
proof -
  have n: "normalizeStepText lr ''1'' = ''1''" by (subst normalizeStepText_ascii) code_simp+
  have p: "parseStepIndex ''1'' = Some 1" by code_simp
  assume "ts \<noteq> []"
  then show ?thesis by (cases ts) (simp_all add: MatchStep_def matchTodoStep_def n p match_at_def Let_def)
qed

lemma call_facts:
  "rcTodos (callReceipt step_ev call_list) = new_list IN_PROGRESS PENDING"
  "rcStep (callReceipt step_ev call_step) = ''1''"
  "NormalizeSerialTodos (new_list IN_PROGRESS PENDING) = new_list IN_PROGRESS PENDING"
  "snd (AdvanceSerialTodo (new_list IN_PROGRESS PENDING) 0) = new_list COMPLETED IN_PROGRESS"
  "NormalizeSerialTodos (new_list COMPLETED IN_PROGRESS) = new_list COMPLETED IN_PROGRESS"
  "tcName call_step = ''complete_step''" "tcID call_step = ''a''" "tcName call_list = ''todo_write''" "tcID call_list = ''b''"
  by code_simp+

lemma calls_msg_facts [simp]: "mToolCalls (calls_msg cs) = cs" "mRole (calls_msg cs) = RoleAssistant"
  by (simp_all add: calls_msg_def placeholder_def)

lemma done_facts: "succeeded done_end" "readable (tc, done_end)" "resultText tc done_end = ''done''"
proof -
  show t: "resultText tc done_end = ''done''" for tc :: "'a ToolCall"
    by (simp add: resultText_def done_end_def truncateToolOutput_def maxToolOutputBytes_def Let_def)
  have "\<not> toolResultFailed ''done''" by code_simp
  then show "readable (tc, done_end)" using t [of tc] by (simp add: readable_def done_end_def)
qed (simp add: succeeded_def done_end_def)

lemma advance_new_list:
  "snd (advanceTodos step_ev ''1'' (new_list IN_PROGRESS PENDING)) = new_list COMPLETED IN_PROGRESS"
proof -
  have "new_list IN_PROGRESS PENDING \<noteq> []" by (simp add: new_list_def)
  then show ?thesis by (simp add: call_facts advanceTodos_def match_number_one match_at_def Let_def)
qed

text \<open>The list a session has after its rounds, from an empty one.\<close>

definition live_list_of :: "evlib \<Rightarrow> 'o round list \<Rightarrow> TodoItem list" where
  "live_list_of ev rs = fst (foldl (liveCall ev) ([], NewLedger) (roundCalls rs))"

lemma live_done:
  assumes "\<forall>(tc, e) \<in> set (roundCalls rs). e = done_end \<and> tcID tc \<in> {''a'', ''b''}"
  shows "live_list_of ev rs = foldl (listAfter ev {''a'', ''b''}) [] (map fst (roundCalls rs))"
proof -
  have "fst (foldl (liveCall ev) ([], NewLedger) (roundCalls rs)) = foldl (listAfter ev {''a'', ''b''}) (fst ([], NewLedger)) (map fst (roundCalls rs))"
    by (rule live_list) (use assms done_facts(1) in force)
  then show ?thesis by (simp add: live_list_of_def)
qed

text \<open>
  A sign-off before the list it signs. The rebuild applies every sign-off of the message with the last
  \<open>todo_write\<close>, also those before it. When one message signs off a step of the old list and then sets a new
  list, a reload advances the new list, which the session itself never did.
\<close>

theorem rebuild_advances_new_list:
  "map tStatus (live_list_of step_ev swapped_rounds) = [IN_PROGRESS, PENDING] \<and>
   map tStatus (rebuildTodoState step_ev (transcript swapped_rounds)) = [COMPLETED, IN_PROGRESS]"
proof
  have "live_list_of step_ev swapped_rounds = new_list IN_PROGRESS PENDING"
    by (subst live_done) (simp_all add: swapped_rounds_def call_facts listAfter_def setTodoState_def advanceTodos_Nil)
  then show "map tStatus (live_list_of step_ev swapped_rounds) = [IN_PROGRESS, PENDING]" by (simp add: new_list_def)
  let ?msgs = "transcript swapped_rounds"
  have m: "?msgs = [calls_msg [call_step, call_list], resultMessage call_step done_end, resultMessage call_list done_end]"
    by (simp add: swapped_rounds_def)
  have "\<not> toolResultFailed ''done''" by code_simp
  then have ids: "successfulToolCallIDs ?msgs = {''a'', ''b''}" unfolding m by (auto simp: successfulToolCallIDs_def done_facts call_facts)
  have "baseLoop step_ev {''a'', ''b''} 0 ?msgs None = Some (new_list IN_PROGRESS PENDING, 0)"
    by (simp add: m call_facts)
  then have "rebuildTodoState step_ev ?msgs = new_list COMPLETED IN_PROGRESS"
    by (simp add: rebuildTodoState_def ids [unfolded m] m call_facts replayCall_def advance_new_list setTodoState_def Let_def)
  then show "map tStatus (rebuildTodoState step_ev ?msgs) = [COMPLETED, IN_PROGRESS]" by (simp add: new_list_def)
qed

section \<open>A call that never ran\<close>

text \<open>
  When a session ends before the calls of its last message have results, the repair of the stored session
  answers each of them with the placeholder, so the transcript is that of a session whose last calls were interrupted.
\<close>

lemma slow_interrupted:
  assumes "fastPath False xs" and "calling m" and "\<not> mLocalOnly m" and "idDistinct (mToolCalls m)" and "\<not> list_ex badArgs (mToolCalls m)"
  shows "slowPath False (xs @ [m]) = xs @ m # map placeholder (mToolCalls m)"
  using assms(1)
proof (induction "False" xs rule: fastPath.induct)
  case 1
  have "backfillToolCallNames (mToolCalls m) [] = mToolCalls m"
    using assms(4) by (auto simp: backfillToolCallNames_def nameByID_def intro!: map_idI)
  then show ?case using assms by (simp add: Let_def repairToolCallArgs_def sessionToolResults_def)
next
  case (2 x xs)
  have r: "\<not> isResult m" using assms(2) by (simp add: calling_def isResult_def)
  then have w: "takeWhile isResult (xs @ [m]) = takeWhile isResult xs" "dropWhile isResult (xs @ [m]) = dropWhile isResult xs @ [m]"
    using r by (induction xs) simp_all
  show ?case
  proof (cases "\<not> mLocalOnly x \<and> calling x")
    case True
    then have f: "fastPath False (dropWhile isResult xs)" "toolTurnWellFormed (mToolCalls x) (takeWhile isResult xs)" "\<not> list_ex badArgs (mToolCalls x)"
      using 2(4) by (auto simp: Let_def needsToolCallArgRepair_def split: if_splits)
    have a: "answers (mToolCalls x) (takeWhile isResult xs)" by (rule wellFormed_answers [OF f(2)])
    have "slowPath False (dropWhile isResult xs @ [m]) = dropWhile isResult xs @ m # map placeholder (mToolCalls m)"
      using 2(2) [OF _ _ refl _ f(1)] True f(2,3) by (simp add: needsToolCallArgRepair_def)
    then show ?thesis using True by (simp add: Let_def w backfill_same [OF a] session_same [OF a] repair_id [OF f(3)])
  next
    case False
    then show ?thesis using 2 by (auto split: if_splits)
  qed
qed

lemma interrupted_session_repaired:
  fixes m :: "'o Message" and rs :: "'o round list"
  assumes "fastPath False (transcript rs)" and "calling m" and "\<not> mLocalOnly m" and "idDistinct (mToolCalls m)"
    and "\<not> list_ex badArgs (mToolCalls m)" and "\<not> receiptLoop False (transcript rs @ [m])"
  shows "NormalizeSessionMessages (transcript rs @ [m]) = transcript (rs @ [(m, map (\<lambda>_. Interrupted) (mToolCalls m))])"
proof -
  have "resultMessage tc Interrupted = placeholder tc" for tc :: "'o ToolCall"
    by (simp add: resultMessage_def resultText_def placeholder_def)
  then have "map2 resultMessage tcs (map (\<lambda>_. Interrupted) tcs) = map placeholder tcs" for tcs :: "'o ToolCall list"
    by (induction tcs) simp_all
  then show ?thesis
    by (simp add: NormalizeSessionMessages_def attachStandaloneDecisionReceipts_def assms(6) normalize_slow slow_interrupted [OF assms(1-5)])
qed

text \<open>C27. 
  A call that never ran counts as done. Let the last call of a session be a \<open>todo_write\<close> that was cancelled
  with its batch, or interrupted and answered by the repair of the stored session, in a message without
  \<open>complete_step\<close>. Whatever happened before, the list rebuilt from the transcript is the list of that call,
  while the list the session had is the one before it.
\<close>

theorem unexecuted_todo_write_applies:
  assumes "recorded rs" and "rs = pre @ [(m, es @ [e])]" and "mToolCalls m = cs @ [tw]" and "e = Cancelled \<or> e = Interrupted"
    and "tcName tw = ''todo_write''" and "\<forall>tc \<in> set cs. tcName tc \<noteq> ''complete_step''"
  shows "rebuildTodoState ev (transcript rs) = setTodoState (NormalizeSerialTodos (rcTodos (callReceipt ev tw))) \<and>
    live_list_of ev rs = live_list_of ev (pre @ [(m\<lparr>mToolCalls := cs\<rparr>, es)])"
proof
  have len: "length es = length cs" using assms(1-3) by (auto simp: recorded_def)
  then have calls: "roundCalls rs = roundCalls pre @ zip cs es @ [(tw, e)]" by (simp add: assms(2,3))
  have "tcID tw \<in> successfulToolCallIDs (transcript rs)"
    using recorded_ids [OF assms(1), of tw e] assms(4) unexecuted_text [of tw] by (auto simp: calls)
  then have tw: "sets (successfulToolCallIDs (transcript rs)) tw" using assms(5) by (simp add: sets_def)
  have msgs: "transcript rs = transcript pre @ m # map2 resultMessage (mToolCalls m) (es @ [e])" by (simp add: assms(2))
  have 1: "\<forall>tc \<in> set cs. \<not> advances (successfulToolCallIDs (transcript rs)) tc" using assms(6) by (simp add: advances_def)
  have c: "mToolCalls m = cs @ tw # []" by (simp add: assms(3))
  from rebuild_from_base [OF msgs c refl tw 1]
  show "rebuildTodoState ev (transcript rs) = setTodoState (NormalizeSerialTodos (rcTodos (callReceipt ev tw)))"
    unfolding results_have_no_calls by simp
  show "live_list_of ev rs = live_list_of ev (pre @ [(m\<lparr>mToolCalls := cs\<rparr>, es)])"
    using assms(4) by (auto simp: live_list_of_def calls len liveCall_def)
qed

section \<open>What an accepted call means\<close>

lemma positionsLoop_None:
  "positionsLoop ev prev i ts = None \<Longrightarrow> k < length ts \<Longrightarrow> tStatus (ts ! k) = COMPLETED \<Longrightarrow>
     snd (MatchTodoIdentity (eLower ev) (ts ! k) prev) \<and> mIndex (fst (MatchTodoIdentity (eLower ev) (ts ! k) prev)) = int (i + k) + 1"
proof (induction ts arbitrary: i k)
  case (Cons t ts)
  show ?case
  proof (cases k)
    case 0
    then show ?thesis using Cons.prems by (auto split: prod.splits if_splits)
  next
    case (Suc j)
    then have "positionsLoop ev prev (i + 1) ts = None" using Cons.prems(1) by (auto split: prod.splits if_splits)
    from Cons.IH [OF this, of j] Suc Cons.prems(2,3) show ?thesis by simp
  qed
qed simp

lemma initialLoop_None: "initialLoop i ts = None \<longleftrightarrow> (\<forall>t \<in> set ts. tStatus t \<noteq> COMPLETED)"
  by (induction ts arbitrary: i) auto

text \<open>
  What an accepted \<open>todo_write\<close> may claim. Its list is valid and of two levels. When the turn has a
  previous list, every completed item stands at the position of an item of that list with the same
  identity, and if nothing was signed off in the turn that item was completed before. The first list of a
  session contains no completed item at all.
\<close>

theorem accepted_list_claims_nothing_new:
  assumes "todoWriteChecked ev cx todos = Inr counts" and "cxLedger cx = Some l"
  shows "accepted_list todos \<and>
    (todoBaseline cx \<noteq> [] \<longrightarrow> (\<forall>k < length todos. tStatus (todos ! k) = COMPLETED \<longrightarrow>
       snd (MatchTodoIdentity (eLower ev) (todos ! k) (todoBaseline cx)) \<and>
       mIndex (fst (MatchTodoIdentity (eLower ev) (todos ! k) (todoBaseline cx))) = int k + 1)) \<and>
    (latestTodoWrite l = None \<and> cxTodoState cx = [] \<longrightarrow> (\<forall>t \<in> set todos. tStatus t \<noteq> COMPLETED)) \<and>
    (latestTodoWrite l \<noteq> None \<longrightarrow> fst (UnverifiedCompletedTodos ev todos l) = [])"
proof (intro conjI impI)
  note a = todoWriteChecked_accepts [OF assms(1)]
  show "accepted_list todos" by (rule a(1))
  show "\<forall>k < length todos. tStatus (todos ! k) = COMPLETED \<longrightarrow>
       snd (MatchTodoIdentity (eLower ev) (todos ! k) (todoBaseline cx)) \<and>
       mIndex (fst (MatchTodoIdentity (eLower ev) (todos ! k) (todoBaseline cx))) = int k + 1" if "todoBaseline cx \<noteq> []"
  proof -
    have "positionsLoop ev (todoBaseline cx) 0 todos = None"
      using a(3) that by (auto simp: verifyCompletedTodoPositions_def Let_def split: option.splits)
    then show ?thesis using positionsLoop_None [of ev "todoBaseline cx" 0 todos] by simp
  qed
  show "\<forall>t \<in> set todos. tStatus t \<noteq> COMPLETED" if "latestTodoWrite l = None \<and> cxTodoState cx = []"
    using a(4) that assms(2) initialLoop_None [of 0 todos]
    by (simp add: verifyTodoCompletionTransitions_def UnverifiedCompletedTodos_def)
  show "fst (UnverifiedCompletedTodos ev todos l) = []" if "latestTodoWrite l \<noteq> None"
    using a(4) that assms(2)
    by (auto simp: verifyTodoCompletionTransitions_def UnverifiedCompletedTodos_def Let_def split: if_splits)
qed

text \<open>C19. 
  What an accepted \<open>complete_step\<close> signs. With a list in force, the step it names is an item of the list that
  is the current one, with all its sub-steps completed, or already completed; and on the current item
  \<open>AdvanceSerialTodo\<close> succeeds, so that the confirmation that the host advanced the list is true.
\<close>

theorem accepted_step_advances:
  assumes "completeStepChecked ev cx p = Inr report" and "todoBaseline cx \<noteq> []"
  shows "\<exists>i m. srTodo report = Some m \<and> i < length (todoBaseline cx) \<and> m = match_at (todoBaseline cx) i \<and>
    (mStatus m = COMPLETED \<or> mStatus m = IN_PROGRESS \<and> fst (AdvanceSerialTodo (todoBaseline cx) (int i)))"
proof -
  let ?ts = "todoBaseline cx" and ?step = "stepIdentity (saStep p) (saStepIndex p)"
  obtain t where t: "verifyTodoStep ev cx ?step = Inr t" "srTodo report = t"
    using assms(1) by (auto simp: completeStepChecked_def Let_def split: if_splits option.splits sum.splits prod.splits)
  obtain m where m: "MatchStep (eLower ev) ?step ?ts = (m, True)" "t = Some m" "mStatus m = IN_PROGRESS \<or> mStatus m = COMPLETED"
    "mStatus m = IN_PROGRESS \<Longrightarrow> \<not> (\<exists>sub. FirstUnfinishedSubStep ?ts (mIndex m - 1) = Some (Some sub))"
    using t(1) assms(2) by (auto simp: verifyTodoStep_def stepTodos_def Let_def split: prod.splits if_splits option.splits)
  then have "mFound (matchTodoStep (eLower ev) ?step ?ts)" "m = matchTodoStep (eLower ev) ?step ?ts"
    by (auto simp: MatchStep_def Let_def)
  then obtain i where i: "i < length ?ts" "m = match_at ?ts i"
    using matchTodoStep_sound [of "eLower ev" ?step ?ts] by auto
  have "fst (AdvanceSerialTodo ?ts (int i))" if s: "mStatus m = IN_PROGRESS"
  proof -
    have "st (?ts ! i) = IN_PROGRESS" using s i by (simp add: match_at_def Let_def st_def)
    moreover have "\<not> (\<exists>sub. FirstUnfinishedSubStep ?ts (int i) = Some (Some sub))" using m(4) [OF s] i by (simp add: match_at_def Let_def)
    ultimately show ?thesis using i(1)
      by (auto simp: AdvanceSerialTodo_def Let_def split: option.split)
  qed
  then show ?thesis using t(2) m(2,3) i by blast
qed

section \<open>The properties on a sample session\<close>

definition plain_rounds :: "unit round list" where
  "plain_rounds = [(calls_msg [call_list], [done_end]), (calls_msg [call_step], [done_end])]"

definition cancelled_rounds :: "unit round list" where
  "cancelled_rounds = plain_rounds @ [(calls_msg [call_list\<lparr>tcID := ''c''\<rparr>], [] @ [Cancelled])]"

lemma rounds_recorded: "recorded plain_rounds" "recorded cancelled_rounds"
  by (simp_all add: recorded_def plain_rounds_def cancelled_rounds_def idDistinct_iff call_facts)

lemma live_plain: "live_list_of step_ev plain_rounds = new_list COMPLETED IN_PROGRESS"
  by (subst live_done) (simp_all add: plain_rounds_def call_facts listAfter_def setTodoState_def advance_new_list)

lemma new_list_accepted: "accepted_list (new_list IN_PROGRESS PENDING)"
proof -
  have "map st (signoff (new_list IN_PROGRESS PENDING)) = progress 0 (length (new_list IN_PROGRESS PENDING))" by code_simp
  moreover have "tLevel (hd (new_list IN_PROGRESS PENDING)) \<noteq> 1" by (simp add: new_list_def)
  ultimately have "ValidateSerialTodos (new_list IN_PROGRESS PENDING) = None" unfolding valid_progress by blast
  then show ?thesis by (auto simp: accepted_list_def two_levels_def new_list_def)
qed


theorem unexecuted_todo_write_applies_witness:
  "rebuildTodoState step_ev (transcript cancelled_rounds) = new_list IN_PROGRESS PENDING \<and>
   live_list_of step_ev cancelled_rounds = new_list COMPLETED IN_PROGRESS"
proof -
  let ?tw = "call_list\<lparr>tcID := ''c''\<rparr>"
  have 3: "mToolCalls (calls_msg [?tw]) = [] @ [?tw]" by simp
  have 4: "Cancelled = Cancelled \<or> Cancelled = Interrupted" by simp
  have 5: "tcName ?tw = ''todo_write''" by (simp add: call_facts)
  have 6: "\<forall>tc \<in> set []. tcName tc \<noteq> ''complete_step''" by simp
  have r: "rcTodos (callReceipt step_ev ?tw) = new_list IN_PROGRESS PENDING" using call_facts(1) by (simp add: callReceipt_def)
  have l: "live_list_of step_ev (plain_rounds @ [((calls_msg [?tw])\<lparr>mToolCalls := []\<rparr>, [])]) = live_list_of step_ev plain_rounds"
    by (simp add: live_list_of_def)
  from unexecuted_todo_write_applies [OF rounds_recorded(2) cancelled_rounds_def 3 4 5 6, of step_ev]
  show ?thesis by (simp add: r l live_plain call_facts setTodoState_def)
qed

definition step_ctx :: "Ledger \<Rightarrow> TodoItem list \<Rightarrow> unit toolCtx" where
  "step_ctx l state = \<lparr>cxLedger = Some l, cxTodoState = state, cxSession = None, cxDelivery = False, cxPlanReplacement = False, cxChecks = []\<rparr>"

lemma new_list_checked: "todoWriteChecked step_ev (step_ctx NewLedger []) (new_list IN_PROGRESS PENDING) = Inr (0, 1, 1)"
proof -
  have 1: "countItems 0 (new_list IN_PROGRESS PENDING) (0, 0, 0) = Inr (0, 1, 1)" by (simp add: new_list_def)
  have 2: "ValidateSerialTodos (new_list IN_PROGRESS PENDING) = None" using new_list_accepted by (simp add: accepted_list_def)
  have 3: "latestTodoWrite NewLedger = None" by code_simp
  have 4: "LatestTodos NewLedger = None" by (simp add: LatestTodos_def 3)
  have 5: "todoBaseline (step_ctx NewLedger []) = []" by (simp add: todoBaseline_def step_ctx_def 4)
  have 6: "initialLoop 0 (new_list IN_PROGRESS PENDING) = None" by (simp add: new_list_def)
  have 7: "UnverifiedCompletedTodos step_ev (new_list IN_PROGRESS PENDING) NewLedger = ([], False)"
    by (simp add: UnverifiedCompletedTodos_def 3 Let_def)
  have 8: "cxLedger (step_ctx NewLedger []) = Some NewLedger" "cxTodoState (step_ctx NewLedger []) = []" by (simp_all add: step_ctx_def)
  show ?thesis
    by (simp add: todoWriteChecked_def 1 2 verifyTodoCurrentContinuity_def verifyCompletedTodoPositions_def 5
        verifyTodoCompletionTransitions_def 6 7 8)
qed

theorem accepted_list_claims_nothing_new_witness: "list_all (\<lambda>t. tStatus t \<noteq> COMPLETED) (new_list IN_PROGRESS PENDING)"
proof -
  have 1: "cxLedger (step_ctx NewLedger []) = Some NewLedger" by (simp add: step_ctx_def)
  have 2: "latestTodoWrite NewLedger = None" by code_simp
  have 3: "cxTodoState (step_ctx NewLedger []) = []" by (simp add: step_ctx_def)
  from accepted_list_claims_nothing_new [OF new_list_checked 1] 2 3 show ?thesis unfolding list_all_iff by blast
qed

definition sign_one :: stepArgs where
  "sign_one = \<lparr>saStep = ''1'', saStepIndex = 0, saResult = ''ok'',
     saEvidence = [\<lparr>piKind = ''manual'', piSummary = ''read it'', piCommand = [], piPaths = []\<rparr>]\<rparr>"

theorem accepted_step_advances_witness:
  "\<exists>i. i < length (new_list IN_PROGRESS PENDING) \<and>
     completeStepChecked step_ev (step_ctx NewLedger (new_list IN_PROGRESS PENDING)) sign_one =
       Inr \<lparr>srStep = ''1'', srEvidence = 1, srHostVerified = 0, srManual = 1,
             srTodo = Some (match_at (new_list IN_PROGRESS PENDING) i), srProjectChecks = 0\<rparr>"
proof -
  let ?cx = "step_ctx NewLedger (new_list IN_PROGRESS PENDING)" and ?ts = "new_list IN_PROGRESS PENDING"
  have 3: "latestTodoWrite NewLedger = None" by code_simp
  have 4: "LatestTodos NewLedger = None" by (simp add: LatestTodos_def 3)
  have 5: "todoBaseline ?cx = ?ts" by (simp add: todoBaseline_def step_ctx_def 4)
  have ne: "?ts \<noteq> []" by (simp add: new_list_def)
  have t: "TrimSpace ''1'' = ''1''" "TrimSpace ''ok'' = ''ok''" "TrimSpace ''read it'' = ''read it''" by code_simp+
  have m: "mStatus (match_at ?ts 0) = IN_PROGRESS" "mIndex (match_at ?ts 0) = 1" by (simp_all add: match_at_def new_list_def)
  have f: "FirstUnfinishedSubStep ?ts 0 = None" by (simp add: FirstUnfinishedSubStep_def new_list_def)
  have v: "verifyTodoStep step_ev ?cx ''1'' = Inr (Some (match_at ?ts 0))"
    using ne by (simp add: verifyTodoStep_def stepTodos_def 5 match_number_one m f Let_def)
  have s: "stepIdentity (saStep sign_one) (saStepIndex sign_one) = ''1''" "\<not> saStepIndex sign_one < 0"
    "TrimSpace (saResult sign_one) \<noteq> []" "saEvidence sign_one \<noteq> []" "evidenceLoop 0 (saEvidence sign_one) = None"
    "length (saEvidence sign_one) = 1"
    by (simp_all add: sign_one_def stepIdentity_def t validEvidenceKinds_def)
  have e: "verifyStepEvidence step_ev ?cx (saEvidence sign_one) = Inr (0, 1)"
    by (simp add: verifyStepEvidence_def step_ctx_def sign_one_def verifyItem_def)
  have c: "verifyProjectChecks step_ev ?cx (saEvidence sign_one) = Inr 0" by (simp add: verifyProjectChecks_def step_ctx_def)
  have r: "completeStepChecked step_ev ?cx sign_one = Inr \<lparr>srStep = ''1'', srEvidence = 1, srHostVerified = 0, srManual = 1,
      srTodo = Some (match_at ?ts 0), srProjectChecks = 0\<rparr>"
    unfolding completeStepChecked_def Let_def by (simp add: s v e c)
  have "todoBaseline ?cx \<noteq> []" using ne 5 by simp
  from accepted_step_advances [OF r this] obtain i m where "Some (match_at ?ts 0) = Some m" "i < length ?ts" "m = match_at ?ts i"
    by (auto simp: 5)
  then show ?thesis using r by auto
qed

end
