(* ===== verification/PlanTodos.thy ===== *)
theory PlanTodos
  imports TodoTools
begin

text \<open>
  The starter task list of an approved plan, \<open>internal/control/plan_todos.go\<close>: the markdown list items of the plan,
  at most twenty, on two levels, repaired into a list the serial state machine accepts.
\<close>

section \<open>List items\<close>

definition isBlank :: "char \<Rightarrow> bool" where
  "isBlank c \<longleftrightarrow> c = CHR '' '' \<or> c = TAB"

definition indentOf :: "bytes \<Rightarrow> nat" where
  "indentOf line = sum_list (map (\<lambda>c. if c = TAB then 4 else 1) (takeWhile isBlank line))"

definition isDecimal :: "char \<Rightarrow> bool" where
  "isDecimal c \<longleftrightarrow> 48 \<le> byte c \<and> byte c \<le> 57"

text \<open>\<open>strings.ReplaceAll(s, "**", "")\<close>.\<close>

fun dropStars :: "bytes \<Rightarrow> bytes" where
  "dropStars [] = []"
| "dropStars [a] = [a]"
| "dropStars (a # b # s) = (if a = CHR ''*'' \<and> b = CHR ''*'' then dropStars s else a # dropStars (b # s))"

text \<open>The marker of an item: a bullet, or digits with a dot or a parenthesis.\<close>

definition itemBody :: "bytes \<Rightarrow> bytes option" where
  "itemBody s =
     (if HasPrefix s ''- '' \<or> HasPrefix s ''* '' \<or> HasPrefix s ''+ '' then Some (drop 2 s)
      else let i = length (takeWhile isDecimal s) in
        if i = 0 \<or> i + 1 \<ge> length s \<or> (s ! i \<noteq> CHR ''.'' \<and> s ! i \<noteq> CHR '')'') \<or> s ! (i + 1) \<noteq> CHR '' '' then None
        else Some (drop (i + 2) s))"

definition cleanItem :: "bytes \<Rightarrow> bytes" where
  "cleanItem s0 =
     (let s1 = TrimPrefix (TrimPrefix (TrimSpace s0) ''[ ] '') ''[x] '' in
      TrimSpace (dropStars (filter (\<lambda>c. c \<noteq> BQ) s1)))"

definition listItem :: "bytes \<Rightarrow> (bytes \<times> int) option" where
  "listItem line =
     (let trimmed = dropWhile isBlank line in
      if trimmed = [] then None
      else let h = dropWhile (\<lambda>c. c = CHR ''#'') trimmed;
               heading = (h \<noteq> trimmed \<and> HasPrefix h '' '');
               s = (if heading then TrimSpace h else trimmed) in
        (case itemBody s of
           None \<Rightarrow> None
         | Some b \<Rightarrow>
             let c = cleanItem b in
             if c = [] then None
             else if heading then Some (c, 0)
             else if indentOf line \<ge> 2 then Some (c, 1) else Some (c, 0)))"

section \<open>The list\<close>

definition seedItem :: "bytes \<Rightarrow> int \<Rightarrow> TodoItem" where
  "seedItem content level = \<lparr>tContent = content, tStatus = PENDING, tActiveForm = [], tLevel = level\<rparr>"

text \<open>The loop over the lines, which stops after the twentieth item.\<close>

fun planLoop :: "bytes list \<Rightarrow> TodoItem list \<Rightarrow> TodoItem list" where
  "planLoop [] todos = todos"
| "planLoop (raw # rest) todos =
     (case listItem raw of
        None \<Rightarrow> planLoop rest todos
      | Some (item, level) \<Rightarrow>
          let todos' = todos @ [seedItem item level] in if length todos' \<ge> 20 then todos' else planLoop rest todos')"

definition promoteFirst :: "TodoItem list \<Rightarrow> TodoItem list" where
  "promoteFirst todos =
     (case todos of [] \<Rightarrow> [] | t # ts \<Rightarrow> (if tLevel t = 1 then t\<lparr>tLevel := 0\<rparr> else t) # ts)"

definition parsePlanTodos :: "bytes \<Rightarrow> TodoItem list" where
  "parsePlanTodos plan =
     (let todos = planLoop (split_byte LF plan) [] in
      if todos = [] then []
      else let seeded = promoteFirst todos; normal = NormalizeSerialTodos seeded in
        map (\<lambda>(t, n). t\<lparr>tStatus := tStatus n, tLevel := tLevel n\<rparr>) (zip seeded normal))"

text \<open>\<open>PlanTodosJSON\<close>, as the items it marshals; \<open>None\<close> is the empty string.\<close>

definition PlanTodosJSON :: "bytes \<Rightarrow> TodoItem list option" where
  "PlanTodosJSON plan =
     (let items = parsePlanTodos plan in
      if items = [] then None else if ValidateSerialTodos items \<noteq> None then None else Some items)"

text \<open>\<open>seedPlanTodos\<close> and \<open>completePlanTodos\<close> on the list of the agent.\<close>

definition seedAgentTodoState :: "TodoItem list \<Rightarrow> TodoItem list \<Rightarrow> TodoItem list" where
  "seedAgentTodoState items state = (if length items = 0 then state else SeedTodoState items state)"

definition seedPlanTodos :: "bytes \<Rightarrow> TodoItem list \<Rightarrow> TodoItem list" where
  "seedPlanTodos plan state = (case PlanTodosJSON plan of None \<Rightarrow> state | Some items \<Rightarrow> seedAgentTodoState items state)"

definition completedPlanTodosJSON :: "TodoItem list \<Rightarrow> TodoItem list option" where
  "completedPlanTodosJSON items = (if items = [] then None else Some (map (\<lambda>t. t\<lparr>tStatus := COMPLETED\<rparr>) items))"

definition completePlanTodos :: "evlib \<Rightarrow> TodoItem list \<Rightarrow> TodoItem list \<times> Ledger \<Rightarrow> TodoItem list \<times> Ledger" where
  "completePlanTodos ev items s =
     (case completedPlanTodosJSON items of
        None \<Rightarrow> s | Some finished \<Rightarrow> if length finished = 0 then s else ReplaceTodoState ev finished s)"

definition latestTodoArgsSince :: "'o Message list \<Rightarrow> int \<Rightarrow> bytes option" where
  "latestTodoArgsSince msgs start0 =
     map_option tcArguments
       (find (\<lambda>tc. tcName tc = ''todo_write'') (rev (concat (map mToolCalls (drop (nat start0) msgs)))))"

definition hasTodoUpdateSince :: "'o Message list \<Rightarrow> int \<Rightarrow> bool" where
  "hasTodoUpdateSince msgs start0 =
     (let from = (if start0 < 0 \<or> start0 > int (length msgs) then int (length msgs) else start0)
      in latestTodoArgsSince msgs from \<noteq> None)"

section \<open>Properties\<close>

lemma planLoop_items:
  assumes "length todos < 20" "\<forall>t \<in> set todos. item_ok t \<and> tStatus t = PENDING"
  shows "length (planLoop ls todos) \<le> 20 \<and> (\<forall>t \<in> set (planLoop ls todos). item_ok t \<and> tStatus t = PENDING)"
  using assms
proof (induction ls todos rule: planLoop.induct)
  case (2 raw rest todos)
  show ?case
  proof (cases "listItem raw")
    case (Some il)
    obtain c l where il: "il = (c, l)" by fastforce
    have "c \<noteq> []" "l = 0 \<or> l = 1" using Some by (auto simp: il listItem_def Let_def split: if_splits option.splits)
    then have ok: "\<forall>t \<in> set (todos @ [seedItem c l]). item_ok t \<and> tStatus t = PENDING"
      using 2(4) by (auto simp: item_ok_def seedItem_def)
    show ?thesis
    proof (cases "length (todos @ [seedItem c l]) \<ge> 20")
      case True
      then show ?thesis using ok 2(3) by (auto simp: Some il)
    next
      case False
      then show ?thesis using 2(2) [OF Some [unfolded il] refl refl False] ok False by (simp add: Some il Let_def)
    qed
  next
    case None
    then show ?thesis using 2 by simp
  qed
qed auto

lemma zip_statuses:
  assumes "same_items ns ts"
  shows "map (\<lambda>(t, n). t\<lparr>tStatus := tStatus n, tLevel := tLevel n\<rparr>) (zip ts ns) = ns"
  using assms
proof (induction ts arbitrary: ns)
  case (Cons t ts)
  then obtain n ns' where n: "ns = n # ns'" by (cases ns) (auto simp: same_items_def)
  then have "setStatus [] n = setStatus [] t" "same_items ns' ts" using Cons.prems by simp_all
  then show ?case using n Cons.IH by (cases t; cases n) (simp add: setStatus_def)
qed (auto simp: same_items_def)

lemma parsePlanTodos_Normalize:
  "parsePlanTodos plan = NormalizeSerialTodos (promoteFirst (planLoop (split_byte LF plan) []))"
proof -
  have "NormalizeSerialTodos [] = []" by code_simp
  then show ?thesis
    using zip_statuses [OF NormalizeSerialTodos_items] by (simp add: parsePlanTodos_def Let_def promoteFirst_def)
qed

lemma promoteFirst_ok:
  assumes "\<forall>t \<in> set ts. item_ok t \<and> tStatus t = PENDING"
  shows "(\<forall>t \<in> set (promoteFirst ts). item_ok t \<and> tStatus t = PENDING) \<and> length (promoteFirst ts) = length ts \<and>
    (promoteFirst ts = [] \<or> tLevel (hd (promoteFirst ts)) \<noteq> 1)"
  using assms by (cases ts) (auto simp: promoteFirst_def item_ok_def)

lemma pending_good:
  assumes "\<forall>t \<in> set ts. item_ok t \<and> tStatus t = PENDING" "ts = [] \<or> tLevel (hd ts) \<noteq> 1"
  shows "good_list (NormalizeSerialTodos ts)"
proof -
  note s = NormalizeSerialTodos_items [of ts]
  have "leading (map st (signoff ts)) \<le> length ts"
    unfolding leading_def using length_takeWhile_le [of _ "map st (signoff ts)"] by (metis length_map length_signoff)
  moreover have "map st (signoff (NormalizeSerialTodos ts)) = progress (leading (map st (signoff ts))) (length ts)"
    using NormalizeSerialTodos_signoff [of ts] repaired_progress [of "map st (signoff ts)"] by simp
  moreover have "NormalizeSerialTodos ts = [] \<longleftrightarrow> ts = []" using same_items_length [OF s] by auto
  moreover have "NormalizeSerialTodos ts \<noteq> [] \<Longrightarrow> tLevel (hd (NormalizeSerialTodos ts)) = tLevel (hd ts)"
    by (rule hd_level [OF same_items_levels [OF s]])
  ultimately have "ValidateSerialTodos (NormalizeSerialTodos ts) = None"
    using assms(2) same_items_length [OF s] by (auto simp: valid_progress)
  moreover have "two_levels (NormalizeSerialTodos ts)"
    by (rule two_levels_same [OF s]) (use assms(1) in \<open>auto simp: two_levels_def item_ok_def\<close>)
  moreover have "canonical (NormalizeSerialTodos ts)"
    by (rule canonical_Normalize) (use assms(1) in \<open>auto simp: st_def\<close>)
  ultimately show ?thesis by (simp add: good_list_def)
qed

lemma parse_good: "good_list (parsePlanTodos plan)" "length (parsePlanTodos plan) \<le> 20"
proof -
  let ?ts = "planLoop (split_byte LF plan) []"
  have p: "length ?ts \<le> 20" "\<forall>t \<in> set ?ts. item_ok t \<and> tStatus t = PENDING" using planLoop_items [of "[]"] by auto
  note q = promoteFirst_ok [OF p(2)]
  show "good_list (parsePlanTodos plan)" unfolding parsePlanTodos_Normalize using pending_good q by blast
  show "length (parsePlanTodos plan) \<le> 20"
    unfolding parsePlanTodos_Normalize using same_items_length [OF NormalizeSerialTodos_items] q p(1) by simp
qed

text \<open>
  Every plan gives a legal starter list. Whatever the text of the plan, the list parsed from it has at most
  twenty items and is accepted by the serial state machine on two levels, so that the validation before the
  seed never throws a list away; and the agent takes it over exactly as the panel shows it.
\<close>

theorem plan_seed_is_legal:
  "good_list (parsePlanTodos plan) \<and> length (parsePlanTodos plan) \<le> 20 \<and>
   PlanTodosJSON plan = (if parsePlanTodos plan = [] then None else Some (parsePlanTodos plan)) \<and>
   seedPlanTodos plan state = (if parsePlanTodos plan = [] then state else parsePlanTodos plan)"
proof -
  have "ValidateSerialTodos (parsePlanTodos plan) = None" using parse_good(1) [of plan] by (simp add: good_list_def)
  then show ?thesis
    using parse_good [of plan]
    by (simp add: PlanTodosJSON_def seedPlanTodos_def seedAgentTodoState_def SeedTodoState_def good_set)
qed

lemma plan_sample:
  "map (\<lambda>t. (tContent t, tLevel t)) (parsePlanTodos (''# Plan'' @ [LF] @ ''1. Parse'' @ [LF] @ ''   - lexer'' @ [LF] @ ''2) Print'')) =
     [(''Parse'', 0), (''lexer'', 1), (''Print'', 0)]"
  by code_simp

end
