(* ===== verification/WriteClaims.thy ===== *)
theory WriteClaims
  imports GoPath
begin

text \<open>
  Claims of sub-agents on workspace paths (\<open>agent/write_claims.go\<close>): how declared paths become a claim, when
  two claims conflict and which files a claim allows to write. The file system is the parameter \<open>fs\<close>
  (\<open>filepath.Abs\<close>, \<open>filepath.EvalSymlinks\<close>, \<open>os.Lstat\<close>); \<open>fsFold\<close> tells whether the operating system folds
  the case of file names. Paths are those of a Unix system.
\<close>

section \<open>Relative paths\<close>

text \<open>\<open>filepath.Join\<close>.\<close>

definition path_Join :: "bytes list \<Rightarrow> bytes" where
  "path_Join es = (let ne = filter (\<lambda>e. e \<noteq> []) es in if ne = [] then [] else path_Clean (Join ne ''/''))"

definition path_IsAbs :: "bytes \<Rightarrow> bool" where
  "path_IsAbs p = HasPrefix p ''/''"

text \<open>The elements of a cleaned path below the root or the current directory.\<close>

definition path_elems :: "bytes \<Rightarrow> bytes list" where
  "path_elems c =
     (let body = (if path_IsAbs c then drop 1 c else c) in if body = [] \<or> c = ''.'' then [] else split_byte CHR ''/'' body)"

fun strip_common :: "bytes list \<Rightarrow> bytes list \<Rightarrow> bytes list \<times> bytes list" where
  "strip_common (b # bs) (t # ts) = (if b = t then strip_common bs ts else (b # bs, t # ts))"
| "strip_common bs ts = (bs, ts)"

text \<open>\<open>filepath.Rel\<close>; \<^const>\<open>None\<close> when the target cannot be made relative to the base.\<close>

definition path_Rel :: "bytes \<Rightarrow> bytes \<Rightarrow> bytes option" where
  "path_Rel basepath targpath =
     (let base = path_Clean basepath; targ = path_Clean targpath in
      if base = targ then Some ''.''
      else if path_IsAbs base \<noteq> path_IsAbs targ then None
      else (case strip_common (path_elems base) (path_elems targ) of (bs, ts) \<Rightarrow>
        if bs \<noteq> [] \<and> hd bs = ''..'' then None
        else Some (Join (replicate (length bs) ''..'' @ ts) ''/'')))"

section \<open>Containment of paths\<close>

record fsys =
  fsAbs :: "bytes \<Rightarrow> bytes option"
  fsEval :: "bytes \<Rightarrow> bytes option"
  fsSymlink :: "bytes \<Rightarrow> bool"      \<comment> \<open>\<open>Lstat\<close> succeeds and reports a symbolic link\<close>
  fsFold :: bool

definition foldPathKey :: "fsys \<Rightarrow> bytes \<Rightarrow> bytes" where
  "foldPathKey fs p = (if fsFold fs then ToLower p else p)"

definition pathWithinFold :: "fsys \<Rightarrow> bytes \<Rightarrow> bytes \<Rightarrow> bool" where
  "pathWithinFold fs root path' =
     (if root = [] \<or> path' = [] then False
      else (case path_Rel (foldPathKey fs root) (foldPathKey fs path') of
              None \<Rightarrow> False
            | Some rel \<Rightarrow> rel = ''.'' \<or> (rel \<noteq> ''..'' \<and> \<not> HasPrefix rel ''../'')))"

text \<open>Containment is a prefix relation on the elements.\<close>

definition within :: "bool \<times> bytes list \<Rightarrow> bool \<times> bytes list \<Rightarrow> bool" where
  "within a b \<longleftrightarrow> fst a = fst b \<and> (\<exists>r. snd b = snd a @ r \<and> (r = [] \<or> hd r \<noteq> ''..''))"

definition pkey :: "fsys \<Rightarrow> bytes \<Rightarrow> bool \<times> bytes list" where
  "pkey fs p = (let c = path_Clean (foldPathKey fs p) in (path_IsAbs c, path_elems c))"

lemma strip_common_spec:
  "strip_common bs ts = (b, t) \<Longrightarrow> \<exists>c. bs = c @ b \<and> ts = c @ t \<and> (b = [] \<or> t = [] \<or> hd b \<noteq> hd t)"
proof (induction bs ts rule: strip_common.induct)
  case (1 b' bs t' ts)
  show ?case
  proof (cases "b' = t'")
    case True
    with 1 obtain c where "bs = c @ b" "ts = c @ t" "b = [] \<or> t = [] \<or> hd b \<noteq> hd t" by auto
    with True show ?thesis by (intro exI [of _ "b' # c"]) simp
  qed (use 1 in auto)
qed auto

lemma strip_common_prefix: "strip_common bs (bs @ r) = ([], r)"
  by (induction bs) (cases r, auto)

lemma path_elems_no_slash: "e \<in> set (path_elems c) \<Longrightarrow> CHR ''/'' \<notin> set e"
  by (auto simp: path_elems_def Let_def split: if_splits dest: split_byte_no_sep)

lemma dotdot_Join:
  assumes "CHR ''/'' \<notin> set e"
  shows "(Join (e # es) ''/'' = ''..'' \<or> HasPrefix (Join (e # es) ''/'') ''../'') \<longleftrightarrow> e = ''..''"
proof
  assume "e = ''..''"
  then show "Join (e # es) ''/'' = ''..'' \<or> HasPrefix (Join (e # es) ''/'') ''../''"
    by (cases es) (auto simp: HasPrefix_iff)
next
  assume a: "Join (e # es) ''/'' = ''..'' \<or> HasPrefix (Join (e # es) ''/'') ''../''"
  show "e = ''..''"
  proof (cases es)
    case Nil
    with a assms show ?thesis by (auto simp: HasPrefix_iff)
  next
    case (Cons x xs)
    obtain t where "Join (e # es) ''/'' = e @ ''/'' @ t" using Cons by simp
    with a have "e @ ''/'' @ t = ''..'' \<or> (\<exists>r. e @ ''/'' @ t = ''../'' @ r)" by (auto simp: HasPrefix_iff)
    then show ?thesis
    proof
      assume "e @ ''/'' @ t = ''..''"
      then have "CHR ''/'' \<in> set ''..''" by (metis in_set_conv_decomp append_Cons append_Nil)
      then show ?thesis by simp
    next
      assume "\<exists>r. e @ ''/'' @ t = ''../'' @ r"
      then obtain r where "e @ CHR ''/'' # t = ''..'' @ CHR ''/'' # r" by auto
      with assms show ?thesis by (auto simp: append_eq_Cons_conv Cons_eq_append_conv)
    qed
  qed
qed

lemma pathWithinFold_iff:
  "pathWithinFold fs root p \<longleftrightarrow> root \<noteq> [] \<and> p \<noteq> [] \<and> within (pkey fs root) (pkey fs p)"
proof (cases "root = [] \<or> p = []")
  case False
  define b where "b = path_Clean (foldPathKey fs root)"
  define t where "t = path_Clean (foldPathKey fs p)"
  have keys: "pkey fs root = (path_IsAbs b, path_elems b)" "pkey fs p = (path_IsAbs t, path_elems t)"
    by (simp_all add: pkey_def b_def t_def Let_def)
  show ?thesis
  proof (cases "b = t \<or> path_IsAbs b \<noteq> path_IsAbs t")
    case True
    with False show ?thesis
      by (auto simp: pathWithinFold_def path_Rel_def Let_def keys within_def simp flip: b_def t_def)
  next
    case ne: False
    obtain bs ts where st: "strip_common (path_elems b) (path_elems t) = (bs, ts)" by fastforce
    from strip_common_spec [OF st] obtain c where
      c: "path_elems b = c @ bs" "path_elems t = c @ ts" "bs = [] \<or> ts = [] \<or> hd bs \<noteq> hd ts" by auto
    show ?thesis
    proof (cases bs)
      case Nil
      have "(Join ts ''/'' = ''.'' \<or> Join ts ''/'' \<noteq> ''..'' \<and> \<not> HasPrefix (Join ts ''/'') ''../'') \<longleftrightarrow> ts = [] \<or> hd ts \<noteq> ''..''"
      proof (cases ts)
        case (Cons e es)
        have "e \<in> set (path_elems t)" using c(2) Cons by simp
        from dotdot_Join [OF path_elems_no_slash [OF this], of es] Cons show ?thesis by (auto simp: HasPrefix_def)
      qed (simp add: HasPrefix_def)
      with False ne st Nil c show ?thesis
        by (simp add: pathWithinFold_def path_Rel_def Let_def keys within_def flip: b_def t_def)
    next
      case (Cons b0 bs')
      have "Join (replicate (length bs) ''..'' @ ts) ''/'' = ''..'' \<or> HasPrefix (Join (replicate (length bs) ''..'' @ ts) ''/'') ''../''"
        using dotdot_Join [of "''..''" "replicate (length bs') ''..'' @ ts"] by (simp add: Cons)
      moreover have "Join (replicate (length bs) ''..'' @ ts) ''/'' \<noteq> ''.''"
      proof
        assume a: "Join (replicate (length bs) ''..'' @ ts) ''/'' = ''.''"
        with calculation show False by (auto simp: HasPrefix_iff)
      qed
      moreover have "\<not> within (pkey fs root) (pkey fs p)" using c Cons by (cases ts) (auto simp: within_def keys)
      ultimately show ?thesis using False ne st Cons
        by (auto simp: pathWithinFold_def path_Rel_def Let_def simp flip: b_def t_def)
    qed
  qed
qed (auto simp: pathWithinFold_def)

lemma within_refl: "within a a" by (simp add: within_def)

lemma within_chain:
  assumes "within a p" and "within b p"
  shows "within a b \<or> within b a"
proof -
  from assms obtain r s where r: "fst a = fst p" "snd p = snd a @ r" "r = [] \<or> hd r \<noteq> ''..''"
    and s: "fst b = fst p" "snd p = snd b @ s" "s = [] \<or> hd s \<noteq> ''..''" unfolding within_def by blast
  from r(2) s(2) have "snd a @ r = snd b @ s" by simp
  then obtain u where "snd a = snd b @ u \<and> u @ r = s \<or> snd a @ u = snd b \<and> r = u @ s"
    by (auto simp: append_eq_append_conv2)
  then show ?thesis
  proof
    assume u: "snd a = snd b @ u \<and> u @ r = s"
    then have "u = [] \<or> hd u \<noteq> ''..''" using s(3) by (cases u) auto
    with u r s show ?thesis by (auto simp: within_def)
  next
    assume u: "snd a @ u = snd b \<and> r = u @ s"
    then have "u = [] \<or> hd u \<noteq> ''..''" using r(3) by (cases u) auto
    with u r s show ?thesis by (auto simp: within_def)
  qed
qed

lemma within_trans:
  assumes "within a b" and "within b c"
  shows "within a c"
proof -
  from assms obtain r s where "fst a = fst c" "snd c = snd a @ r @ s" "r = [] \<or> hd r \<noteq> ''..''" "s = [] \<or> hd s \<noteq> ''..''"
    unfolding within_def by (metis append_assoc)
  then show ?thesis by (cases r) (auto simp: within_def)
qed

lemma pathWithinFold_chain:
  "pathWithinFold fs a p \<Longrightarrow> pathWithinFold fs b p \<Longrightarrow> pathWithinFold fs a b \<or> pathWithinFold fs b a"
  unfolding pathWithinFold_iff using within_chain by blast

lemma pathWithinFold_trans: "pathWithinFold fs a b \<Longrightarrow> pathWithinFold fs b c \<Longrightarrow> pathWithinFold fs a c"
  unfolding pathWithinFold_iff using within_trans by blast

lemma pathWithinFold_refl: "p \<noteq> [] \<Longrightarrow> pathWithinFold fs p p"
  unfolding pathWithinFold_iff using within_refl by blast

section \<open>Real paths\<close>

definition weight :: "bytes list \<Rightarrow> nat" where
  "weight es = sum_list (map (\<lambda>e. length e + 1) es)"

lemma weight_simps [simp]: "weight [] = 0" "weight (e # es) = length e + 1 + weight es" "weight (rev es) = weight es"
  by (simp_all add: weight_def rev_map [symmetric])

lemma weight_split: "weight (split_byte c s) = length s + 1"
  by (induction c s rule: split_byte.induct) (auto split: list.splits if_splits)

lemma weight_clean: "weight (clean_elems r es acc) + length (filter (\<lambda>e. e = []) es) \<le> weight es + weight acc"
  by (induction r es acc rule: clean_elems.induct) (auto split: list.splits)

lemma length_Join_slash: "es \<noteq> [] \<Longrightarrow> length (Join es ''/'') + 1 = weight es"
  by (induction es "''/''" rule: Join.induct) auto

lemma split_last_slash: "split_byte c (s @ [c]) = split_byte c s @ [[]]"
  by (induction c s rule: split_byte.induct) (auto split: list.splits)

lemma length_path_Clean: "q \<noteq> [] \<Longrightarrow> length (path_Clean q) \<le> length q"
  and length_path_Clean_slash: "q = s @ ''/'' \<Longrightarrow> s \<noteq> [] \<Longrightarrow> length (path_Clean q) < length q"
proof -
  let ?r = "hd q = CHR ''/''"
  let ?sp = "split_byte CHR ''/'' q"
  let ?es = "clean_elems ?r ?sp []"
  let ?n = "length (filter (\<lambda>e. e = []) ?sp)"
  have w: "weight ?es + ?n \<le> length q + 1" using weight_clean [of ?r ?sp "[]"] by (simp add: weight_split)
  have one: "?r \<Longrightarrow> q \<noteq> [] \<Longrightarrow> ?n \<ge> 1" by (cases q) auto
  have len: "q \<noteq> [] \<Longrightarrow> length (path_Clean q) =
      (if ?r then (if ?es = [] then 1 else weight ?es) else if ?es = [] then 1 else weight ?es - 1)"
    using length_Join_slash [of ?es] by (auto simp: path_Clean_def Let_def)
  show "length (path_Clean q) \<le> length q" if "q \<noteq> []"
  proof -
    have "1 \<le> length q" using that by (cases q) auto
    with w one [OF _ that] show ?thesis by (auto simp: len [OF that])
  qed
  show "length (path_Clean q) < length q" if q: "q = s @ ''/''" and s: "s \<noteq> []"
  proof -
    have sp: "?sp = split_byte CHR ''/'' s @ [[]]" by (simp add: q split_last_slash)
    have qne: "q \<noteq> []" and lq: "length q = length s + 1" by (simp_all add: q)
    have n1: "?n \<ge> 1" unfolding sp by simp
    have n2: "?n \<ge> 2" if r: ?r
    proof -
      from r s q obtain t where "s = CHR ''/'' # t" by (cases s) auto
      then show ?thesis unfolding sp by simp
    qed
    have "length s \<ge> 1" using s by (cases s) auto
    then show ?thesis unfolding len [OF qne] using w n1 n2 unfolding lq by (cases ?r) auto
  qed
qed

lemma path_Dir_smaller:
  assumes "path_Dir p \<noteq> p" and "p \<noteq> []"
  shows "path_Dir p = ''.'' \<or> length (path_Dir p) < length p"
proof (cases "LastIndexByte p CHR ''/''")
  case None
  then show ?thesis by (simp add: path_Dir_def path_Clean_def)
next
  case (Some i)
  define q where "q = take (i + 1) p"
  have d: "path_Dir p = path_Clean q" using Some by (simp add: path_Dir_def q_def)
  obtain j where j: "IndexByte (rev p) CHR ''/'' = Some j" "i = length p - 1 - j"
    using Some by (auto simp: LastIndexByte_def)
  from IndexByte_Some [OF j(1)] have i: "i < length p" "p ! i = CHR ''/''" using j(2) by (auto simp: rev_nth)
  then have q: "q = take i p @ ''/''" by (simp add: q_def take_Suc_conv_app_nth)
  show ?thesis
  proof (cases "take i p = []")
    case True
    then have q': "q = ''/''" using q by simp
    have "path_Clean ''/'' = ''/''" by code_simp
    then have "path_Dir p = ''/''" by (simp add: d q')
    with assms i True show ?thesis by (cases p) auto
  next
    case False
    from length_path_Clean_slash [OF q False] show ?thesis using d i by (simp add: q_def)
  qed
qed

text \<open>\<open>realPathForClaim\<close>: the deepest ancestor that resolves, with the remaining elements appended.\<close>

function realLoop :: "fsys \<Rightarrow> bytes \<Rightarrow> bytes \<Rightarrow> bytes \<Rightarrow> bytes option" where
  "realLoop fs full tail cur =
     (case fsEval fs cur of
        Some real \<Rightarrow> Some (path_Join [real, tail])
      | None \<Rightarrow>
          if path_Dir cur = cur then Some full
          else if fsSymlink fs cur then None
          else realLoop fs full (path_Join [path_Base cur, tail]) (path_Dir cur))"
  by auto

lemma path_Dir_dot: "path_Dir ''.'' = ''.''" by code_simp

termination realLoop
proof (relation "measure (\<lambda>(fs, full, tail, cur). if cur = ''.'' then 0 else if cur = [] then 1 else length cur + 1)")
  fix fs full tail' cur
  assume a: "path_Dir cur \<noteq> cur"
  have "path_Dir [] = ''.''" by code_simp
  with a path_Dir_smaller [OF a] path_Dir_dot
  show "((fs, full, path_Join [path_Base cur, tail'], path_Dir cur), fs, full, tail', cur)
    \<in> measure (\<lambda>(fs, full, tail, cur). if cur = ''.'' then 0 else if cur = [] then 1 else length cur + 1)"
    by (cases "cur = []") auto
qed simp

declare realLoop.simps [simp del]

definition realPathForClaim :: "fsys \<Rightarrow> bytes \<Rightarrow> bytes option" where
  "realPathForClaim fs p =
     (case fsAbs fs p of None \<Rightarrow> None | Some a \<Rightarrow> let full = path_Clean a in realLoop fs full [] full)"

section \<open>Claims\<close>

record WritePathSet =
  wpPaths :: "bytes list"
  wpWhole :: bool
  wpRoot :: bytes

abbreviation (input) no_claim :: WritePathSet where
  "no_claim \<equiv> \<lparr>wpPaths = [], wpWhole = False, wpRoot = []\<rparr>"

definition EmptyClaim :: "WritePathSet \<Rightarrow> bool" where
  "EmptyClaim s \<longleftrightarrow> \<not> wpWhole s \<and> wpPaths s = []"

definition DefaultMaxSubagentConcurrency :: int where "DefaultMaxSubagentConcurrency = 6"
definition DefaultMaxParallelWriters :: int where "DefaultMaxParallelWriters = 3"
definition MaxSubagentConcurrencyLimit :: int where "MaxSubagentConcurrencyLimit = 32"

definition NormalizeConcurrencyLimits :: "int \<Rightarrow> int \<Rightarrow> int \<times> int" where
  "NormalizeConcurrencyLimits total0 writers0 =
     (let t1 = (if total0 \<le> 0 then DefaultMaxSubagentConcurrency else total0);
          w1 = (if writers0 \<le> 0 then DefaultMaxParallelWriters else writers0);
          t2 = (if t1 > MaxSubagentConcurrencyLimit then MaxSubagentConcurrencyLimit else t1);
          w2 = (if w1 > MaxSubagentConcurrencyLimit then MaxSubagentConcurrencyLimit else w1)
      in (t2, if w2 > t2 then t2 else w2))"

datatype claimError =
    RootRequired
  | RootUnresolved
  | PathRequired nat
  | GlobNotAllowed nat bytes
  | PathUnresolved nat
  | OutsideWorkspace nat bytes
  | ClaimConflict nat nat

definition normalizeExistingRoot :: "fsys \<Rightarrow> bytes \<Rightarrow> claimError + bytes" where
  "normalizeExistingRoot fs root0 =
     (let root = TrimSpace root0 in
      if root = [] then Inl RootRequired
      else case fsAbs fs root of
        None \<Rightarrow> Inl RootUnresolved
      | Some a \<Rightarrow> let full = path_Clean a in
          (case fsEval fs full of None \<Rightarrow> Inr full | Some real \<Rightarrow> Inr real))"

definition resolveWriteClaimPath :: "fsys \<Rightarrow> bytes \<Rightarrow> bytes \<Rightarrow> bytes option" where
  "resolveWriteClaimPath fs workspaceRoot raw =
     realPathForClaim fs (if path_IsAbs raw then raw else path_Join [workspaceRoot, raw])"

definition ContainsGlob :: "bytes \<Rightarrow> bool" where
  "ContainsGlob s \<longleftrightarrow> list_ex (\<lambda>c. c \<in> set ''*?['') s"

fun claimLoop :: "fsys \<Rightarrow> bytes \<Rightarrow> nat \<Rightarrow> bytes list \<Rightarrow> bytes list \<Rightarrow> bytes list \<Rightarrow> claimError + bytes list" where
  "claimLoop fs root i [] seen acc = Inr acc"
| "claimLoop fs root i (e # es) seen acc =
     (let entry = TrimSpace e in
      if entry = [] then Inl (PathRequired i)
      else if ContainsGlob entry then Inl (GlobNotAllowed i entry)
      else case resolveWriteClaimPath fs root entry of
        None \<Rightarrow> Inl (PathUnresolved i)
      | Some p \<Rightarrow>
          if \<not> pathWithinFold fs root p then Inl (OutsideWorkspace i entry)
          else let key = foldPathKey fs p in
            if key \<in> set seen then claimLoop fs root (i + 1) es seen acc
            else claimLoop fs root (i + 1) es (key # seen) (acc @ [p]))"

definition NormalizeWritePaths :: "fsys \<Rightarrow> bytes \<Rightarrow> bytes list \<Rightarrow> claimError + WritePathSet" where
  "NormalizeWritePaths fs workspaceRoot raw =
     (case normalizeExistingRoot fs workspaceRoot of
        Inl e \<Rightarrow> Inl e
      | Inr root \<Rightarrow>
          if raw = [] then Inr no_claim
          else (case claimLoop fs root 0 raw [] [] of
                  Inl e \<Rightarrow> Inl e
                | Inr ps \<Rightarrow> Inr \<lparr>wpPaths = ps, wpWhole = False, wpRoot = root\<rparr>))"

definition WholeWorkspaceWriteClaim :: "fsys \<Rightarrow> bytes \<Rightarrow> claimError + WritePathSet" where
  "WholeWorkspaceWriteClaim fs workspaceRoot =
     (case normalizeExistingRoot fs workspaceRoot of
        Inl e \<Rightarrow> Inl e
      | Inr root \<Rightarrow> Inr \<lparr>wpPaths = [], wpWhole = True, wpRoot = root\<rparr>)"

definition Overlaps :: "fsys \<Rightarrow> WritePathSet \<Rightarrow> WritePathSet \<Rightarrow> bool" where
  "Overlaps fs s other =
     (if EmptyClaim s \<or> EmptyClaim other then False
      else if wpWhole s \<or> wpWhole other then
        (if wpRoot s = [] \<or> wpRoot other = [] then True
         else pathWithinFold fs (wpRoot s) (wpRoot other) \<or> pathWithinFold fs (wpRoot other) (wpRoot s))
      else list_ex (\<lambda>a. list_ex (\<lambda>b. pathWithinFold fs a b \<or> pathWithinFold fs b a) (wpPaths other)) (wpPaths s))"

fun conflictFrom :: "fsys \<Rightarrow> nat \<Rightarrow> WritePathSet \<Rightarrow> nat \<Rightarrow> WritePathSet list \<Rightarrow> claimError option" where
  "conflictFrom fs i c j [] = None"
| "conflictFrom fs i c j (d # ds) =
     (if \<not> EmptyClaim d \<and> Overlaps fs c d then Some (ClaimConflict (i + 1) (j + 1)) else conflictFrom fs i c (j + 1) ds)"

fun conflictLoop :: "fsys \<Rightarrow> nat \<Rightarrow> WritePathSet list \<Rightarrow> claimError option" where
  "conflictLoop fs i [] = None"
| "conflictLoop fs i (c # cs) =
     (if EmptyClaim c then conflictLoop fs (i + 1) cs
      else case conflictFrom fs i c (i + 1) cs of Some e \<Rightarrow> Some e | None \<Rightarrow> conflictLoop fs (i + 1) cs)"

definition ValidateNonOverlappingWriteClaims :: "fsys \<Rightarrow> WritePathSet list \<Rightarrow> claimError option" where
  "ValidateNonOverlappingWriteClaims fs claims = conflictLoop fs 0 claims"

definition AllowsPath :: "fsys \<Rightarrow> WritePathSet \<Rightarrow> bytes \<Rightarrow> bool" where
  "AllowsPath fs s target =
     (if EmptyClaim s then False
      else case realPathForClaim fs target of
        None \<Rightarrow> False
      | Some full \<Rightarrow>
          if wpWhole s then (if wpRoot s = [] then True else pathWithinFold fs (wpRoot s) full)
          else list_ex (\<lambda>root. pathWithinFold fs root full) (wpPaths s))"

definition Roots :: "WritePathSet \<Rightarrow> bytes list" where
  "Roots s = (if wpWhole s then (if wpRoot s = [] then [] else [wpRoot s]) else wpPaths s)"

section \<open>What a claim promises\<close>

text \<open>The claims the two constructors return: every path lies in the workspace.\<close>

definition claim_ok :: "fsys \<Rightarrow> WritePathSet \<Rightarrow> bool" where
  "claim_ok fs s \<longleftrightarrow> (\<forall>p \<in> set (wpPaths s). pathWithinFold fs (wpRoot s) p)"

lemma claimLoop_inside:
  assumes "claimLoop fs root i es seen acc = Inr ps" and "\<forall>p \<in> set acc. pathWithinFold fs root p"
    and "p \<in> set ps"
  shows "pathWithinFold fs root p"
  using assms
proof (induction es arbitrary: i seen acc)
  case (Cons e es)
  from Cons.prems show ?case
    by (auto simp: Let_def split: if_splits option.splits) (erule Cons.IH; auto)+
qed simp

lemma claimLoop_no_glob:
  "claimLoop fs root i es seen acc = Inr ps \<Longrightarrow> e \<in> set es \<Longrightarrow> TrimSpace e \<noteq> [] \<and> \<not> ContainsGlob (TrimSpace e)"
  by (induction es arbitrary: i seen acc) (auto simp: Let_def split: if_splits option.splits)

lemma NormalizeWritePaths_ok: "NormalizeWritePaths fs ws raw = Inr s \<Longrightarrow> claim_ok fs s"
  by (auto simp: NormalizeWritePaths_def claim_ok_def split: sum.splits if_splits dest: claimLoop_inside)

lemma WholeWorkspaceWriteClaim_ok: "WholeWorkspaceWriteClaim fs ws = Inr s \<Longrightarrow> claim_ok fs s"
  by (auto simp: WholeWorkspaceWriteClaim_def claim_ok_def split: sum.splits)

lemma Overlaps_sym: "Overlaps fs a b = Overlaps fs b a"
  by (auto simp: Overlaps_def list_ex_iff)

lemma Overlaps_Empty [simp]: "EmptyClaim a \<Longrightarrow> \<not> Overlaps fs a b" "EmptyClaim b \<Longrightarrow> \<not> Overlaps fs a b"
  by (simp_all add: Overlaps_def)

lemma conflictFrom_None: "conflictFrom fs i c j ds = None \<longleftrightarrow> (\<forall>d \<in> set ds. \<not> Overlaps fs c d)"
  by (induction fs i c j ds rule: conflictFrom.induct) auto

lemma conflictLoop_None: "conflictLoop fs i cs = None \<longleftrightarrow> sorted_wrt (\<lambda>a b. \<not> Overlaps fs a b) cs"
proof (induction cs arbitrary: i)
  case (Cons c cs)
  show ?case
    by (cases "conflictFrom fs i c (i + 1) cs") (use Cons conflictFrom_None [of fs i c "i + 1" cs] in auto)
qed simp

lemma allowed_below_root:
  assumes "claim_ok fs s" and "AllowsPath fs s t" and "wpRoot s \<noteq> []"
  shows "\<exists>p. realPathForClaim fs t = Some p \<and> pathWithinFold fs (wpRoot s) p"
  using assms by (auto simp: AllowsPath_def claim_ok_def list_ex_iff split: if_splits option.splits dest: pathWithinFold_trans)

lemma disjoint_claims:
  assumes a: "claim_ok fs a" "AllowsPath fs a t" and b: "claim_ok fs b" "AllowsPath fs b t"
  shows "Overlaps fs a b"
proof -
  obtain p where p: "realPathForClaim fs t = Some p" using a(2) by (auto simp: AllowsPath_def split: if_splits option.splits)
  have e: "\<not> EmptyClaim a" "\<not> EmptyClaim b" using a(2) b(2) by (auto simp: AllowsPath_def)
  show ?thesis
  proof (cases "wpWhole a \<or> wpWhole b")
    case True
    show ?thesis
    proof (cases "wpRoot a = [] \<or> wpRoot b = []")
      case False
      from False allowed_below_root [OF a] allowed_below_root [OF b]
      have "pathWithinFold fs (wpRoot a) p" "pathWithinFold fs (wpRoot b) p" by (auto simp: p)
      from pathWithinFold_chain [OF this] show ?thesis using True e by (simp add: Overlaps_def)
    qed (use True e in \<open>simp add: Overlaps_def\<close>)
  next
    case False
    then obtain q r where "q \<in> set (wpPaths a)" "pathWithinFold fs q p" "r \<in> set (wpPaths b)" "pathWithinFold fs r p"
      using a(2) b(2) e p by (auto simp: AllowsPath_def list_ex_iff)
    with pathWithinFold_chain [of fs q p r] show ?thesis using False e by (auto simp: Overlaps_def list_ex_iff)
  qed
qed

text \<open>The claims the program makes.\<close>

definition declared :: "fsys \<Rightarrow> WritePathSet \<Rightarrow> bool" where
  "declared fs c \<longleftrightarrow> (\<exists>ws raw. NormalizeWritePaths fs ws raw = Inr c \<or> WholeWorkspaceWriteClaim fs ws = Inr c)"

lemma declared_ok: "declared fs c \<Longrightarrow> claim_ok fs c"
  by (auto simp: declared_def NormalizeWritePaths_ok WholeWorkspaceWriteClaim_ok)

text \<open>
  Disjoint claims never meet. When the claims of a batch, as built by the two constructors, pass the
  check, no file is allowed by two of them, whatever symbolic links and spellings of its path are used.
\<close>

theorem disjoint_claims_share_no_file:
  assumes "ValidateNonOverlappingWriteClaims fs cs = None" and "\<forall>c \<in> set cs. declared fs c"
    and "i < j" and "j < length cs"
  shows "\<not> (AllowsPath fs (cs ! i) t \<and> AllowsPath fs (cs ! j) t)"
proof
  assume t: "AllowsPath fs (cs ! i) t \<and> AllowsPath fs (cs ! j) t"
  have "claim_ok fs (cs ! i)" "claim_ok fs (cs ! j)" using assms declared_ok by auto
  with t have "Overlaps fs (cs ! i) (cs ! j)" by (blast intro: disjoint_claims)
  moreover have "\<not> Overlaps fs (cs ! i) (cs ! j)"
    using assms by (auto simp: ValidateNonOverlappingWriteClaims_def conflictLoop_None sorted_wrt_iff_nth_less)
  ultimately show False by contradiction
qed

definition unix :: fsys where
  "unix = \<lparr>fsAbs = Some, fsEval = Some, fsSymlink = (\<lambda>_. False), fsFold = False\<rparr>"

definition claim_on :: "bytes \<Rightarrow> WritePathSet" where
  "claim_on p = \<lparr>wpPaths = [p], wpWhole = False, wpRoot = ''/w''\<rparr>"

lemma claim_on_declared: "declared unix (claim_on ''/w/a'')" "declared unix (claim_on ''/w/b'')"
proof -
  have "NormalizeWritePaths unix ''/w'' [''a''] = Inr (claim_on ''/w/a'')"
    "NormalizeWritePaths unix ''/w'' [''x/../b''] = Inr (claim_on ''/w/b'')" by code_simp+
  then show "declared unix (claim_on ''/w/a'')" "declared unix (claim_on ''/w/b'')" by (auto simp: declared_def)
qed

theorem disjoint_claims_share_no_file_witness:
  "AllowsPath unix (claim_on ''/w/a'') ''/w/a/f'' \<and> \<not> AllowsPath unix (claim_on ''/w/b'') ''/w/a/f''"
proof -
  have 1: "ValidateNonOverlappingWriteClaims unix [claim_on ''/w/a'', claim_on ''/w/b''] = None" by code_simp
  have 2: "\<forall>c \<in> set [claim_on ''/w/a'', claim_on ''/w/b'']. declared unix c" by (simp add: claim_on_declared)
  have "AllowsPath unix (claim_on ''/w/a'') ''/w/a/f''" by code_simp
  with disjoint_claims_share_no_file [OF 1 2, of 0 1 "''/w/a/f''"] show ?thesis by simp
qed

end
