(* ===== verification/Scheduler.thy ===== *)
theory Scheduler
  imports WriteClaims "HOL-Library.Multiset"
begin

text \<open>
  The pool of sub-agent slots (\<open>agent/scheduler.go\<close>): a mutex, counters, the claims of running writers and
  of the parent's own writes, and a queue of waiters. Each critical section is one definition on the
  state; goroutines are numbered and interleave as the step relation \<open>pool_step\<close>. Channels become a flag of
  the waiting goroutine, set when the code closes the channel; a cancelled context may be chosen at any
  time, also when the slot is already granted.
\<close>

section \<open>The critical sections\<close>

record AcquireRequest =
  rqWriter :: bool
  rqPaths :: WritePathSet
  rqNested :: bool

record SubagentScheduler =
  ssMaxTotal :: int
  ssMaxWriters :: int
  ssTotal :: int
  ssWriters :: int
  ssClaims :: "WritePathSet list"
  ssParents :: "WritePathSet list"
  ssWaiters :: "(nat \<times> AcquireRequest) list"

definition NewSubagentScheduler :: "int \<Rightarrow> int \<Rightarrow> SubagentScheduler" where
  "NewSubagentScheduler maxTotal maxWriters =
     (case NormalizeConcurrencyLimits maxTotal maxWriters of (t, w) \<Rightarrow>
        \<lparr>ssMaxTotal = t, ssMaxWriters = w, ssTotal = 0, ssWriters = 0, ssClaims = [], ssParents = [], ssWaiters = []\<rparr>)"

datatype refusal = TotalLimit int int | WriterLimit int int | RunningConflict | ParentConflict

definition canStartLocked :: "fsys \<Rightarrow> AcquireRequest \<Rightarrow> SubagentScheduler \<Rightarrow> refusal option" where
  "canStartLocked fs req s =
     (if ssTotal s \<ge> ssMaxTotal s then Some (TotalLimit (ssTotal s) (ssMaxTotal s))
      else if \<not> rqWriter req then None
      else if ssWriters s \<ge> ssMaxWriters s then Some (WriterLimit (ssWriters s) (ssMaxWriters s))
      else if list_ex (\<lambda>active. Overlaps fs active (rqPaths req)) (ssClaims s) then Some RunningConflict
      else if list_ex (\<lambda>active. Overlaps fs active (rqPaths req)) (ssParents s) then Some ParentConflict
      else None)"

definition activateLocked :: "AcquireRequest \<Rightarrow> SubagentScheduler \<Rightarrow> SubagentScheduler" where
  "activateLocked req s =
     (let s1 = s\<lparr>ssTotal := ssTotal s + 1\<rparr> in
      if rqWriter req then
        (let s2 = s1\<lparr>ssWriters := ssWriters s1 + 1\<rparr> in
         if \<not> EmptyClaim (rqPaths req) then s2\<lparr>ssClaims := ssClaims s2 @ [rqPaths req]\<rparr> else s2)
      else s1)"

text \<open>\<open>writeClaimEqual\<close> compares every field, so it is the equality of the records.\<close>

fun removeClaim :: "WritePathSet list \<Rightarrow> WritePathSet \<Rightarrow> WritePathSet list" where
  "removeClaim [] target = []"
| "removeClaim (c # cs) target = (if c = target then cs else c # removeClaim cs target)"

definition deactivateLocked :: "AcquireRequest \<Rightarrow> SubagentScheduler \<Rightarrow> SubagentScheduler" where
  "deactivateLocked req s =
     (let s1 = (if ssTotal s > 0 then s\<lparr>ssTotal := ssTotal s - 1\<rparr> else s) in
      if rqWriter req then
        (let s2 = (if ssWriters s1 > 0 then s1\<lparr>ssWriters := ssWriters s1 - 1\<rparr> else s1) in
         if \<not> EmptyClaim (rqPaths req) then s2\<lparr>ssClaims := removeClaim (ssClaims s2) (rqPaths req)\<rparr> else s2)
      else s1)"

text \<open>\<open>pumpWaitersLocked\<close>: the waiters that can start are activated, and their channels closed.\<close>

fun pumpLoop :: "fsys \<Rightarrow> (nat \<times> AcquireRequest) list \<Rightarrow> SubagentScheduler \<Rightarrow>
    SubagentScheduler \<times> nat list \<times> (nat \<times> AcquireRequest) list" where
  "pumpLoop fs [] s = (s, [], [])"
| "pumpLoop fs ((g, r) # ws) s =
     (if canStartLocked fs r s = None then
        (case pumpLoop fs ws (activateLocked r s) of (s', woken, remaining) \<Rightarrow> (s', g # woken, remaining))
      else (case pumpLoop fs ws s of (s', woken, remaining) \<Rightarrow> (s', woken, (g, r) # remaining)))"

definition pumpWaitersLocked :: "fsys \<Rightarrow> SubagentScheduler \<Rightarrow> SubagentScheduler \<times> nat list" where
  "pumpWaitersLocked fs s =
     (case pumpLoop fs (ssWaiters s) s of (s', woken, remaining) \<Rightarrow> (s'\<lparr>ssWaiters := remaining\<rparr>, woken))"

definition removeWaiterLocked :: "nat \<Rightarrow> SubagentScheduler \<Rightarrow> SubagentScheduler" where
  "removeWaiterLocked g s = s\<lparr>ssWaiters := filter (\<lambda>w. fst w \<noteq> g) (ssWaiters s)\<rparr>"

definition conflictLocked :: "fsys \<Rightarrow> WritePathSet \<Rightarrow> SubagentScheduler \<Rightarrow> refusal option" where
  "conflictLocked fs paths s =
     (if EmptyClaim paths then None
      else if list_ex (\<lambda>active. Overlaps fs active paths) (ssClaims s) then Some RunningConflict
      else if list_ex (\<lambda>active. Overlaps fs active paths) (ssParents s) then Some ParentConflict
      else None)"

definition TryClaimWritePaths :: "fsys \<Rightarrow> WritePathSet \<Rightarrow> SubagentScheduler \<Rightarrow> refusal option" where
  "TryClaimWritePaths fs paths s = (if EmptyClaim paths then None else conflictLocked fs paths s)"

definition ActiveWriterClaims :: "SubagentScheduler \<Rightarrow> WritePathSet list" where
  "ActiveWriterClaims s = ssClaims s @ ssParents s"

section \<open>Goroutines\<close>

text \<open>
  Where a goroutine stands: outside, in the queue (and whether its channel is closed), leaving because its
  context is done, holding a slot, or holding the parent's reservation.
\<close>

datatype proc =
    Outside
  | Queued AcquireRequest bool
  | Leaving AcquireRequest bool
  | Running AcquireRequest
  | ParentWriting WritePathSet

record pool =
  sched :: SubagentScheduler
  procs :: "nat \<Rightarrow> proc"

fun close_ready :: "proc \<Rightarrow> proc" where
  "close_ready (Queued r b) = Queued r True"
| "close_ready p = p"

definition wake_all :: "nat list \<Rightarrow> (nat \<Rightarrow> proc) \<Rightarrow> nat \<Rightarrow> proc" where
  "wake_all woken P = (\<lambda>g. if g \<in> set woken then close_ready (P g) else P g)"

definition pumped :: "fsys \<Rightarrow> SubagentScheduler \<Rightarrow> (nat \<Rightarrow> proc) \<Rightarrow> pool" where
  "pumped fs s P = (case pumpWaitersLocked fs s of (s', woken) \<Rightarrow> \<lparr>sched = s', procs = wake_all woken P\<rparr>)"

definition Acquire :: "fsys \<Rightarrow> nat \<Rightarrow> AcquireRequest \<Rightarrow> pool \<Rightarrow> pool" where
  "Acquire fs g req p =
     (if canStartLocked fs req (sched p) = None
      then p\<lparr>sched := activateLocked req (sched p), procs := (procs p)(g := Running req)\<rparr>
      else if rqNested req then p
      else p\<lparr>sched := (sched p)\<lparr>ssWaiters := ssWaiters (sched p) @ [(g, req)]\<rparr>,
             procs := (procs p)(g := Queued req False)\<rparr>)"

definition release :: "fsys \<Rightarrow> nat \<Rightarrow> AcquireRequest \<Rightarrow> pool \<Rightarrow> pool" where
  "release fs g req p = pumped fs (deactivateLocked req (sched p)) ((procs p)(g := Outside))"

definition ReserveParentWrite :: "fsys \<Rightarrow> nat \<Rightarrow> WritePathSet \<Rightarrow> pool \<Rightarrow> pool" where
  "ReserveParentWrite fs g paths p =
     (if EmptyClaim paths \<or> conflictLocked fs paths (sched p) \<noteq> None then p
      else p\<lparr>sched := (sched p)\<lparr>ssParents := ssParents (sched p) @ [paths]\<rparr>,
             procs := (procs p)(g := ParentWriting paths)\<rparr>)"

definition releaseParent :: "fsys \<Rightarrow> nat \<Rightarrow> WritePathSet \<Rightarrow> pool \<Rightarrow> pool" where
  "releaseParent fs g paths p =
     pumped fs ((sched p)\<lparr>ssParents := removeClaim (ssParents (sched p)) paths\<rparr>) ((procs p)(g := Outside))"

inductive pool_step :: "fsys \<Rightarrow> pool \<Rightarrow> pool \<Rightarrow> bool" for fs where
  acquire: "procs p g = Outside \<Longrightarrow> pool_step fs p (Acquire fs g req p)"
| granted: "procs p g = Queued req True \<Longrightarrow> pool_step fs p (p\<lparr>procs := (procs p)(g := Running req)\<rparr>)"
| cancel: "procs p g = Queued req b \<Longrightarrow>
    pool_step fs p (p\<lparr>sched := removeWaiterLocked g (sched p), procs := (procs p)(g := Leaving req b)\<rparr>)"
| leave: "procs p g = Leaving req b \<Longrightarrow>
    pool_step fs p (if b then release fs g req p else p\<lparr>procs := (procs p)(g := Outside)\<rparr>)"
| release: "procs p g = Running req \<Longrightarrow> pool_step fs p (release fs g req p)"
| reserve: "procs p g = Outside \<Longrightarrow> pool_step fs p (ReserveParentWrite fs g paths p)"
| parent: "procs p g = ParentWriting paths \<Longrightarrow> pool_step fs p (releaseParent fs g paths p)"

definition NewPool :: "int \<Rightarrow> int \<Rightarrow> pool" where
  "NewPool t w = \<lparr>sched = NewSubagentScheduler t w, procs = (\<lambda>_. Outside)\<rparr>"

definition pool_reachable :: "fsys \<Rightarrow> int \<Rightarrow> int \<Rightarrow> pool \<Rightarrow> bool" where
  "pool_reachable fs t w p \<longleftrightarrow> (pool_step fs)\<^sup>*\<^sup>* (NewPool t w) p"

section \<open>The invariant\<close>

text \<open>The request a goroutine holds a slot for, and the claims it holds.\<close>

fun slot :: "proc \<Rightarrow> AcquireRequest option" where
  "slot (Running r) = Some r"
| "slot (Queued r b) = (if b then Some r else None)"
| "slot (Leaving r b) = (if b then Some r else None)"
| "slot _ = None"

definition writes :: "proc \<Rightarrow> bool" where
  "writes p \<longleftrightarrow> (\<exists>r. slot p = Some r \<and> rqWriter r)"

definition claim :: "proc \<Rightarrow> WritePathSet option" where
  "claim p = (case slot p of None \<Rightarrow> None | Some r \<Rightarrow> if rqWriter r \<and> \<not> EmptyClaim (rqPaths r) then Some (rqPaths r) else None)"

fun parent_claim :: "proc \<Rightarrow> WritePathSet option" where
  "parent_claim (ParentWriting c) = Some c"
| "parent_claim _ = None"

text \<open>The multiset of the values of a partial function with finite domain.\<close>

definition held_values :: "(nat \<Rightarrow> 'a option) \<Rightarrow> 'a multiset" where
  "held_values f = image_mset (the \<circ> f) (mset_set (dom f))"

lemma held_insert:
  assumes "finite (dom f)" and "f g = None"
  shows "held_values (f(g := Some x)) = add_mset x (held_values f)"
proof -
  have "g \<notin> dom f" using assms by auto
  moreover have "image_mset (the \<circ> f(g \<mapsto> x)) (mset_set (dom f)) = image_mset (the \<circ> f) (mset_set (dom f))"
    by (rule image_mset_cong) (use assms \<open>g \<notin> dom f\<close> in auto)
  ultimately show ?thesis using assms by (simp add: held_values_def)
qed

lemma held_remove:
  assumes "finite (dom f)" and "f g = Some x"
  shows "held_values f = add_mset x (held_values (f(g := None)))"
proof -
  have "f = (f(g := None))(g \<mapsto> x)" using assms(2) by auto
  moreover have "finite (dom (f(g := None)))" using assms(1) by simp
  ultimately show ?thesis using held_insert [of "f(g := None)" g x] by simp
qed

lemma held_mem: "finite (dom f) \<Longrightarrow> x \<in># held_values f \<longleftrightarrow> (\<exists>g. f g = Some x)"
  by (auto simp: held_values_def) (metis domI image_iff option.sel)

definition hold :: "proc \<Rightarrow> WritePathSet option" where
  "hold p = (case claim p of Some c \<Rightarrow> Some c | None \<Rightarrow> parent_claim p)"

definition occupied :: "(nat \<Rightarrow> proc) \<Rightarrow> nat set" where
  "occupied P = {g. P g \<noteq> Outside}"

text \<open>The counters and claims are those of the goroutines, within the limits, and no two claims conflict.\<close>

definition accounted :: "(nat \<Rightarrow> proc) \<Rightarrow> SubagentScheduler \<Rightarrow> bool" where
  "accounted P s \<longleftrightarrow>
     finite (occupied P) \<and>
     ssTotal s = int (size (held_values (slot \<circ> P))) \<and>
     ssWriters s = int (size (filter_mset rqWriter (held_values (slot \<circ> P)))) \<and>
     mset (ssClaims s) = held_values (claim \<circ> P) \<and>
     mset (ssParents s) = held_values (parent_claim \<circ> P)"

definition exclusive :: "fsys \<Rightarrow> (nat \<Rightarrow> proc) \<Rightarrow> bool" where
  "exclusive fs P \<longleftrightarrow>
     (\<forall>g h c d. g \<noteq> h \<longrightarrow> hold (P g) = Some c \<longrightarrow> hold (P h) = Some d \<longrightarrow> \<not> Overlaps fs c d)"

definition limited :: "SubagentScheduler \<Rightarrow> bool" where
  "limited s \<longleftrightarrow> ssTotal s \<le> ssMaxTotal s \<and> ssWriters s \<le> ssMaxWriters s"

definition core :: "fsys \<Rightarrow> (nat \<Rightarrow> proc) \<Rightarrow> SubagentScheduler \<Rightarrow> bool" where
  "core fs P s \<longleftrightarrow> accounted P s \<and> exclusive fs P \<and> limited s"

lemma dom_finite:
  assumes "finite (occupied P)" and "f Outside = None"
  shows "finite (dom (f \<circ> P))"
  by (rule finite_subset [OF _ assms(1)]) (use assms(2) in \<open>auto simp: occupied_def\<close>)

lemma slot_finite:
  assumes "finite (occupied P)"
  shows "finite (dom (slot \<circ> P))" "finite (dom (claim \<circ> P))" "finite (dom (parent_claim \<circ> P))"
  by (rule dom_finite [OF assms]; simp add: claim_def)+

lemma upd_comp: "f \<circ> P(g := p) = (f \<circ> P)(g := f p)"
  by (rule ext) simp

lemma upd_same: "f g = x \<Longrightarrow> f(g := x) = f"
  by auto

lemma finite_upd: "finite (occupied P) \<Longrightarrow> finite (occupied (P(g := p)))"
  by (rule finite_subset [of _ "insert g (occupied P)"]) (auto simp: occupied_def)

text \<open>A goroutine that changes its place without a slot or a claim changes nothing.\<close>

lemma core_move:
  assumes "core fs P s" and "slot p = slot (P g)" and "parent_claim p = parent_claim (P g)"
  shows "core fs (P(g := p)) s"
proof -
  have c: "claim p = claim (P g)" using assms(2) by (simp add: claim_def)
  then have h: "hold p = hold (P g)" using assms(3) by (simp add: hold_def split: option.split)
  have "accounted (P(g := p)) s"
    using assms c by (auto simp: core_def accounted_def finite_upd upd_comp upd_same)
  moreover have "exclusive fs (P(g := p))" using assms(1) h by (auto simp: core_def exclusive_def)
  ultimately show ?thesis using assms(1) by (simp add: core_def)
qed

lemma claims_mem:
  assumes "accounted P s"
  shows "c \<in> set (ssClaims s) \<longleftrightarrow> (\<exists>g. claim (P g) = Some c)"
    and "c \<in> set (ssParents s) \<longleftrightarrow> (\<exists>g. parent_claim (P g) = Some c)"
proof -
  have f: "finite (occupied P)" using assms by (simp add: accounted_def)
  have "c \<in># mset (ssClaims s) \<longleftrightarrow> (\<exists>g. (claim \<circ> P) g = Some c)"
    using assms held_mem [OF slot_finite(2) [OF f]] by (simp add: accounted_def)
  then show "c \<in> set (ssClaims s) \<longleftrightarrow> (\<exists>g. claim (P g) = Some c)" by simp
  have "c \<in># mset (ssParents s) \<longleftrightarrow> (\<exists>g. (parent_claim \<circ> P) g = Some c)"
    using assms held_mem [OF slot_finite(3) [OF f]] by (simp add: accounted_def)
  then show "c \<in> set (ssParents s) \<longleftrightarrow> (\<exists>g. parent_claim (P g) = Some c)" by simp
qed

lemma hold_mem:
  assumes "accounted P s"
  shows "(\<exists>g. hold (P g) = Some c) \<longleftrightarrow> c \<in> set (ssClaims s) \<union> set (ssParents s)"
proof -
  have "hold p = Some c \<longleftrightarrow> claim p = Some c \<or> parent_claim p = Some c" for p
    by (cases p) (auto simp: hold_def claim_def split: option.splits)
  then show ?thesis using claims_mem [OF assms] by auto
qed

lemma exclusive_add:
  assumes ex: "exclusive fs P" and free: "hold p = None \<or> (\<forall>h c d. hold p = Some d \<longrightarrow> hold (P h) = Some c \<longrightarrow> \<not> Overlaps fs c d)"
  shows "exclusive fs (P(g := p))"
  unfolding exclusive_def
proof (intro allI impI)
  fix i j c d
  assume a: "i \<noteq> j" "hold ((P(g := p)) i) = Some c" "hold ((P(g := p)) j) = Some d"
  consider "i = g" | "j = g" | "i \<noteq> g" "j \<noteq> g" by blast
  then show "\<not> Overlaps fs c d"
  proof cases
    case 1
    with a free show ?thesis by (auto simp: Overlaps_sym [of fs c d])
  next
    case 2
    with a free show ?thesis by auto
  next
    case 3
    with a ex show ?thesis by (auto simp: exclusive_def)
  qed
qed

lemma canStart_None:
  "canStartLocked fs r s = None \<longleftrightarrow> ssTotal s < ssMaxTotal s \<and>
     (rqWriter r \<longrightarrow> ssWriters s < ssMaxWriters s \<and> (\<forall>c \<in> set (ssClaims s) \<union> set (ssParents s). \<not> Overlaps fs c (rqPaths r)))"
  by (auto simp: canStartLocked_def list_ex_iff not_le)

lemma core_activate:
  assumes c: "core fs P s" and free: "slot (P g) = None" "parent_claim (P g) = None"
    and p: "slot p = Some r" "parent_claim p = None" and ok: "canStartLocked fs r s = None"
  shows "core fs (P(g := p)) (activateLocked r s)"
proof -
  from c have acc: "accounted P s" and ex: "exclusive fs P" and lim: "limited s" by (simp_all add: core_def)
  have f: "finite (occupied P)" using acc by (simp add: accounted_def)
  have cg: "claim (P g) = None" using free by (simp add: claim_def)
  have cp: "claim p = (if rqWriter r \<and> \<not> EmptyClaim (rqPaths r) then Some (rqPaths r) else None)" using p by (simp add: claim_def)
  have sl: "held_values (slot \<circ> P(g := p)) = add_mset r (held_values (slot \<circ> P))"
    unfolding upd_comp p(1) by (rule held_insert [OF slot_finite(1) [OF f]]) (simp add: free)
  have pc: "held_values (parent_claim \<circ> P(g := p)) = held_values (parent_claim \<circ> P)"
    unfolding upd_comp using free p by (simp add: upd_same)
  have cl: "held_values (claim \<circ> P(g := p)) = held_values (claim \<circ> P) +
      (if rqWriter r \<and> \<not> EmptyClaim (rqPaths r) then {#rqPaths r#} else {#})"
    unfolding upd_comp cp using held_insert [OF slot_finite(2) [OF f], of g "rqPaths r"] cg by (auto simp: upd_same)
  have "accounted (P(g := p)) (activateLocked r s)"
    using acc by (auto simp: accounted_def activateLocked_def Let_def sl pc cl finite_upd)
  moreover have "exclusive fs (P(g := p))"
  proof (rule exclusive_add [OF ex])
    have "hold p = claim p" using p by (simp add: hold_def split: option.split)
    then show "hold p = None \<or> (\<forall>h c d. hold p = Some d \<longrightarrow> hold (P h) = Some c \<longrightarrow> \<not> Overlaps fs c d)"
      using ok hold_mem [OF acc] by (auto simp: cp canStart_None split: if_splits)
  qed
  moreover have "limited (activateLocked r s)"
    using lim ok by (auto simp: limited_def activateLocked_def Let_def canStart_None)
  ultimately show ?thesis by (simp add: core_def)
qed

lemma removeClaim_mset: "mset (removeClaim cs c) = mset cs - {#c#}"
  by (induction cs c rule: removeClaim.induct) auto

lemma exclusive_drop:
  assumes "exclusive fs P" and "hold p = None"
  shows "exclusive fs (P(g := p))"
  by (rule exclusive_add) (use assms in auto)

lemma core_deactivate:
  assumes c: "core fs P s" and held: "slot (P g) = Some r"
  shows "core fs (P(g := Outside)) (deactivateLocked r s)"
proof -
  from c have acc: "accounted P s" and ex: "exclusive fs P" and lim: "limited s" by (simp_all add: core_def)
  have f: "finite (occupied P)" using acc by (simp add: accounted_def)
  have pg: "parent_claim (P g) = None" using held by (cases "P g") auto
  have cg: "claim (P g) = (if rqWriter r \<and> \<not> EmptyClaim (rqPaths r) then Some (rqPaths r) else None)"
    using held by (simp add: claim_def)
  have sl: "held_values (slot \<circ> P) = add_mset r (held_values (slot \<circ> P(g := Outside)))"
    unfolding upd_comp using held_remove [OF slot_finite(1) [OF f], of g r] held by simp
  have pc: "held_values (parent_claim \<circ> P(g := Outside)) = held_values (parent_claim \<circ> P)"
    unfolding upd_comp using pg by (simp add: upd_same)
  have c0: "claim Outside = None" by (simp add: claim_def)
  have cl: "held_values (claim \<circ> P) = held_values (claim \<circ> P(g := Outside)) +
      (if rqWriter r \<and> \<not> EmptyClaim (rqPaths r) then {#rqPaths r#} else {#})"
    unfolding upd_comp c0 using held_remove [OF slot_finite(2) [OF f], of g "rqPaths r"] cg by (auto simp: upd_same)
  have "accounted (P(g := Outside)) (deactivateLocked r s)"
    using acc by (auto simp: accounted_def deactivateLocked_def Let_def sl pc cl finite_upd removeClaim_mset)
  moreover have "exclusive fs (P(g := Outside))" by (rule exclusive_drop [OF ex]) (simp add: hold_def c0)
  moreover have "limited (deactivateLocked r s)"
    using lim by (auto simp: limited_def deactivateLocked_def Let_def)
  ultimately show ?thesis by (simp add: core_def)
qed

lemma core_reserve:
  assumes c: "core fs P s" and free: "P g = Outside" and ok: "conflictLocked fs paths s = None" "\<not> EmptyClaim paths"
  shows "core fs (P(g := ParentWriting paths)) (s\<lparr>ssParents := ssParents s @ [paths]\<rparr>)"
proof -
  let ?P = "P(g := ParentWriting paths)"
  from c have acc: "accounted P s" and ex: "exclusive fs P" and lim: "limited s" by (simp_all add: core_def)
  have f: "finite (occupied P)" using acc by (simp add: accounted_def)
  have "held_values (parent_claim \<circ> ?P) = add_mset paths (held_values (parent_claim \<circ> P))"
    unfolding upd_comp by (simp add: held_insert [OF slot_finite(3) [OF f]] free)
  moreover have "held_values (slot \<circ> ?P) = held_values (slot \<circ> P)" "held_values (claim \<circ> ?P) = held_values (claim \<circ> P)"
    unfolding upd_comp using free by (simp_all add: upd_same claim_def)
  ultimately have "accounted ?P (s\<lparr>ssParents := ssParents s @ [paths]\<rparr>)"
    using acc by (simp add: accounted_def finite_upd)
  moreover have "exclusive fs ?P"
  proof (rule exclusive_add [OF ex], intro disjI2 allI impI)
    fix h c d assume "hold (ParentWriting paths) = Some d" "hold (P h) = Some c"
    then show "\<not> Overlaps fs c d"
      using ok hold_mem [OF acc] by (auto simp: hold_def claim_def conflictLocked_def list_ex_iff split: if_splits)
  qed
  ultimately show ?thesis using lim by (simp add: core_def limited_def)
qed

lemma core_unreserve:
  assumes c: "core fs P s" and held: "P g = ParentWriting paths"
  shows "core fs (P(g := Outside)) (s\<lparr>ssParents := removeClaim (ssParents s) paths\<rparr>)"
proof -
  let ?P = "P(g := Outside)"
  from c have acc: "accounted P s" and ex: "exclusive fs P" and lim: "limited s" by (simp_all add: core_def)
  have f: "finite (occupied P)" using acc by (simp add: accounted_def)
  have "held_values (parent_claim \<circ> P) = add_mset paths (held_values (parent_claim \<circ> ?P))"
    unfolding upd_comp using held_remove [OF slot_finite(3) [OF f], of g paths] held by simp
  moreover have "held_values (slot \<circ> ?P) = held_values (slot \<circ> P)" "held_values (claim \<circ> ?P) = held_values (claim \<circ> P)"
    unfolding upd_comp using held by (simp_all add: upd_same claim_def)
  ultimately have "accounted ?P (s\<lparr>ssParents := removeClaim (ssParents s) paths\<rparr>)"
    using acc by (simp add: accounted_def finite_upd removeClaim_mset)
  moreover have "exclusive fs ?P" by (rule exclusive_drop [OF ex]) (simp add: hold_def claim_def)
  ultimately show ?thesis using lim by (simp add: core_def limited_def)
qed

text \<open>The queue holds the waiting goroutines, each once, and none of them could start now.\<close>

definition queue_ok :: "(nat \<Rightarrow> proc) \<Rightarrow> SubagentScheduler \<Rightarrow> bool" where
  "queue_ok P s \<longleftrightarrow> distinct (map fst (ssWaiters s)) \<and> (\<forall>g r. (g, r) \<in> set (ssWaiters s) \<longleftrightarrow> P g = Queued r False)"

definition none_startable :: "fsys \<Rightarrow> SubagentScheduler \<Rightarrow> bool" where
  "none_startable fs s \<longleftrightarrow> (\<forall>w \<in> set (ssWaiters s). canStartLocked fs (snd w) s \<noteq> None)"

definition pool_inv :: "fsys \<Rightarrow> pool \<Rightarrow> bool" where
  "pool_inv fs p \<longleftrightarrow> core fs (procs p) (sched p) \<and> queue_ok (procs p) (sched p) \<and> none_startable fs (sched p)"

lemma canStart_waiters [simp]: "canStartLocked fs r (s\<lparr>ssWaiters := ws\<rparr>) = canStartLocked fs r s"
  by (simp add: canStartLocked_def)

lemma core_waiters [simp]: "core fs P (s\<lparr>ssWaiters := ws\<rparr>) = core fs P s"
  by (simp add: core_def accounted_def limited_def)

lemma activate_waiters [simp]: "ssWaiters (activateLocked r s) = ssWaiters s"
  by (simp add: activateLocked_def Let_def)

lemma deactivate_waiters [simp]: "ssWaiters (deactivateLocked r s) = ssWaiters s"
  by (simp add: deactivateLocked_def Let_def)

lemma canStart_activate: "canStartLocked fs r (activateLocked r' s) = None \<Longrightarrow> canStartLocked fs r s = None"
  unfolding canStart_None by (auto simp: activateLocked_def Let_def split: if_splits)

lemma canStart_reserve: "canStartLocked fs r (s\<lparr>ssParents := ssParents s @ cs\<rparr>) = None \<Longrightarrow> canStartLocked fs r s = None"
  unfolding canStart_None by auto

lemma pumpLoop_shape:
  "pumpLoop fs ws s = (s', woken, rem) \<Longrightarrow> ssWaiters s' = ssWaiters s \<and> set woken \<subseteq> fst ` set ws \<and>
   (canStartLocked fs r s' = None \<longrightarrow> canStartLocked fs r s = None)"
  by (induction fs ws s arbitrary: s' woken rem rule: pumpLoop.induct)
     (auto split: if_splits prod.splits dest: canStart_activate)

lemma pumpLoop_remaining:
  assumes "pumpLoop fs ws s = (s', woken, rem)" and "distinct (map fst ws)"
  shows "rem = filter (\<lambda>w. fst w \<notin> set woken) ws \<and> (\<forall>w \<in> set rem. canStartLocked fs (snd w) s' \<noteq> None)"
  using assms
proof (induction ws arbitrary: s s' woken rem)
  case (Cons w ws)
  obtain g r where w: "w = (g, r)" by (cases w)
  have d: "distinct (map fst ws)" "g \<notin> fst ` set ws" using Cons.prems(2) w by auto
  show ?case
  proof (cases "canStartLocked fs r s = None")
    case True
    obtain wk where r: "pumpLoop fs ws (activateLocked r s) = (s', wk, rem)" "woken = g # wk"
      using Cons.prems(1) True by (auto simp: w split: prod.splits)
    from Cons.IH [OF r(1) d(1)] have "rem = filter (\<lambda>w. fst w \<notin> set wk) ws" "\<forall>w \<in> set rem. canStartLocked fs (snd w) s' \<noteq> None"
      by blast+
    moreover have "filter (\<lambda>w. fst w \<notin> set wk) ws = filter (\<lambda>w. fst w \<notin> set woken) ws"
      by (rule filter_cong) (use d(2) r(2) in force)+
    ultimately show ?thesis by (simp add: w r(2))
  next
    case False
    obtain rm where r: "pumpLoop fs ws s = (s', woken, rm)" "rem = (g, r) # rm"
      using Cons.prems(1) False by (auto simp: w split: prod.splits)
    have "g \<notin> set woken" using pumpLoop_shape [OF r(1)] d(2) by auto
    moreover have "canStartLocked fs r s' \<noteq> None" using pumpLoop_shape [OF r(1), of r] False by auto
    ultimately show ?thesis using Cons.IH [OF r(1) d(1)] by (simp add: w r(2))
  qed
qed simp

lemma close_ready_idem [simp]: "close_ready (close_ready p) = close_ready p"
  by (cases p) auto

lemma wake_all_Cons: "wake_all (g # woken) P = wake_all woken (P(g := close_ready (P g)))"
  by (rule ext) (simp add: wake_all_def)

lemma pumpLoop_core:
  assumes "core fs P s" and "pumpLoop fs ws s = (s', woken, rem)" and "distinct (map fst ws)"
    and "\<forall>(g, r) \<in> set ws. P g = Queued r False"
  shows "core fs (wake_all woken P) s'"
  using assms
proof (induction ws arbitrary: P s s' woken rem)
  case (Cons w ws)
  obtain g r where w: "w = (g, r)" by (cases w)
  have pg: "P g = Queued r False" and rest: "\<forall>(h, q) \<in> set ws. P h = Queued q False" and d: "distinct (map fst ws)" "g \<notin> fst ` set ws"
    using Cons.prems w by auto
  show ?case
  proof (cases "canStartLocked fs r s = None")
    case True
    obtain wk where r: "pumpLoop fs ws (activateLocked r s) = (s', wk, rem)" "woken = g # wk"
      using Cons.prems(2) True by (auto simp: w split: prod.splits)
    have "core fs (P(g := Queued r True)) (activateLocked r s)"
      by (rule core_activate [OF Cons.prems(1)]) (simp_all add: pg True)
    moreover have "\<forall>(h, q) \<in> set ws. (P(g := Queued r True)) h = Queued q False" using rest d(2) by force
    ultimately have "core fs (wake_all wk (P(g := Queued r True))) s'" by (rule Cons.IH [OF _ r(1) d(1)])
    then show ?thesis by (simp add: r(2) wake_all_Cons pg)
  next
    case False
    obtain rm where r: "pumpLoop fs ws s = (s', woken, rm)" using Cons.prems(2) False by (auto simp: w split: prod.splits)
    show ?thesis by (rule Cons.IH [OF Cons.prems(1) r d(1) rest])
  qed
qed (auto simp: wake_all_def)

lemma pumped_inv:
  assumes "core fs P s" and q: "queue_ok P s"
  shows "pool_inv fs (pumped fs s P)"
proof -
  obtain s' woken rem where p: "pumpLoop fs (ssWaiters s) s = (s', woken, rem)" by (metis prod_cases3)
  have d: "distinct (map fst (ssWaiters s))" and w: "\<And>g r. (g, r) \<in> set (ssWaiters s) \<longleftrightarrow> P g = Queued r False"
    using q by (auto simp: queue_ok_def)
  from pumpLoop_remaining [OF p d] have rem: "rem = filter (\<lambda>w. fst w \<notin> set woken) (ssWaiters s)"
    "\<forall>w \<in> set rem. canStartLocked fs (snd w) s' \<noteq> None" by blast+
  have "core fs (wake_all woken P) s'" by (rule pumpLoop_core [OF assms(1) p d]) (use w in auto)
  moreover have "queue_ok (wake_all woken P) (s'\<lparr>ssWaiters := rem\<rparr>)"
  proof -
    have "P g = Queued r False \<and> g \<notin> set woken \<longleftrightarrow> wake_all woken P g = Queued r False" for g r
      by (cases "P g") (auto simp: wake_all_def)
    then show ?thesis using d w by (auto simp: queue_ok_def rem(1) distinct_map_filter)
  qed
  ultimately show ?thesis using rem(2)
    by (simp add: pool_inv_def pumped_def pumpWaitersLocked_def p none_startable_def)
qed

section \<open>Every step keeps the invariant\<close>

lemma queue_ok_move:
  assumes "queue_ok P s" and "\<And>r. P g \<noteq> Queued r False" and "\<And>r. p \<noteq> Queued r False" and "ssWaiters s' = ssWaiters s"
  shows "queue_ok (P(g := p)) s'"
  using assms by (auto simp: queue_ok_def)

lemma queue_ok_leave:
  assumes "queue_ok P s" and "\<And>r. p \<noteq> Queued r False"
  shows "queue_ok (P(g := p)) (removeWaiterLocked g s)"
  using assms by (auto simp: queue_ok_def removeWaiterLocked_def distinct_map_filter)

lemma none_startable_mono:
  "none_startable fs s \<Longrightarrow> ssWaiters s' = ssWaiters s \<Longrightarrow>
   (\<And>r. canStartLocked fs r s' = None \<Longrightarrow> canStartLocked fs r s = None) \<Longrightarrow> none_startable fs s'"
  unfolding none_startable_def by metis

lemma removeWaiter_core: "core fs P (removeWaiterLocked g s) = core fs P s"
  by (simp add: removeWaiterLocked_def)

lemma Acquire_inv:
  assumes i: "pool_inv fs p" and g: "procs p g = Outside"
  shows "pool_inv fs (Acquire fs g r p)"
proof -
  have c: "core fs (procs p) (sched p)" and q: "queue_ok (procs p) (sched p)" and n: "none_startable fs (sched p)"
    using i by (simp_all add: pool_inv_def)
  show ?thesis
  proof (cases "canStartLocked fs r (sched p) = None")
    case True
    have "core fs ((procs p)(g := Running r)) (activateLocked r (sched p))"
      by (rule core_activate [OF c]) (simp_all add: g True)
    moreover have "queue_ok ((procs p)(g := Running r)) (activateLocked r (sched p))"
      by (rule queue_ok_move [OF q]) (simp_all add: g)
    moreover have "none_startable fs (activateLocked r (sched p))"
      by (rule none_startable_mono [OF n]) (auto dest: canStart_activate)
    ultimately show ?thesis by (simp add: pool_inv_def Acquire_def True)
  next
    case False
    have "core fs ((procs p)(g := Queued r False)) (sched p)" by (rule core_move [OF c]) (simp_all add: g)
    moreover have "queue_ok ((procs p)(g := Queued r False)) ((sched p)\<lparr>ssWaiters := ssWaiters (sched p) @ [(g, r)]\<rparr>)"
      using q g by (force simp: queue_ok_def)
    moreover have "none_startable fs ((sched p)\<lparr>ssWaiters := ssWaiters (sched p) @ [(g, r)]\<rparr>)"
      using n False by (auto simp: none_startable_def)
    ultimately show ?thesis using i False by (auto simp: pool_inv_def Acquire_def)
  qed
qed

lemma release_inv:
  assumes i: "pool_inv fs p" and g: "slot (procs p g) = Some r" and b: "\<And>q. procs p g \<noteq> Queued q False"
  shows "pool_inv fs (release fs g r p)"
  unfolding release_def
proof (rule pumped_inv)
  show "core fs ((procs p)(g := Outside)) (deactivateLocked r (sched p))"
    using i g by (simp add: pool_inv_def core_deactivate)
  show "queue_ok ((procs p)(g := Outside)) (deactivateLocked r (sched p))"
    by (rule queue_ok_move [of _ "sched p"]) (use i b in \<open>simp_all add: pool_inv_def\<close>)
qed

lemma ReserveParentWrite_inv:
  assumes i: "pool_inv fs p" and g: "procs p g = Outside"
  shows "pool_inv fs (ReserveParentWrite fs g paths p)"
proof (cases "EmptyClaim paths \<or> conflictLocked fs paths (sched p) \<noteq> None")
  case False
  let ?s = "(sched p)\<lparr>ssParents := ssParents (sched p) @ [paths]\<rparr>"
  have "core fs ((procs p)(g := ParentWriting paths)) ?s"
    using i g False by (simp add: pool_inv_def core_reserve)
  moreover have "queue_ok ((procs p)(g := ParentWriting paths)) ?s"
    by (rule queue_ok_move [of _ "sched p"]) (use i g in \<open>simp_all add: pool_inv_def\<close>)
  moreover have "none_startable fs ?s"
    by (rule none_startable_mono [of _ "sched p"]) (use i in \<open>auto simp: pool_inv_def dest: canStart_reserve\<close>)
  ultimately show ?thesis using False by (simp add: pool_inv_def ReserveParentWrite_def)
qed (use i in \<open>simp add: ReserveParentWrite_def\<close>)

lemma releaseParent_inv:
  assumes i: "pool_inv fs p" and g: "procs p g = ParentWriting paths"
  shows "pool_inv fs (releaseParent fs g paths p)"
  unfolding releaseParent_def
proof (rule pumped_inv)
  show "core fs ((procs p)(g := Outside)) ((sched p)\<lparr>ssParents := removeClaim (ssParents (sched p)) paths\<rparr>)"
    using i g by (simp add: pool_inv_def core_unreserve)
  show "queue_ok ((procs p)(g := Outside)) ((sched p)\<lparr>ssParents := removeClaim (ssParents (sched p)) paths\<rparr>)"
    by (rule queue_ok_move [of _ "sched p"]) (use i g in \<open>simp_all add: pool_inv_def\<close>)
qed

lemma move_inv:
  assumes i: "pool_inv fs p" and "slot q = slot (procs p g)" and "parent_claim q = parent_claim (procs p g)"
    and "\<And>r. procs p g \<noteq> Queued r False" and "\<And>r. q \<noteq> Queued r False"
  shows "pool_inv fs (p\<lparr>procs := (procs p)(g := q)\<rparr>)"
  using i assms(2-5) by (auto simp: pool_inv_def intro!: core_move queue_ok_move)

lemma cancel_inv:
  assumes i: "pool_inv fs p" and g: "procs p g = Queued r b"
  shows "pool_inv fs (p\<lparr>sched := removeWaiterLocked g (sched p), procs := (procs p)(g := Leaving r b)\<rparr>)"
  using i g by (auto simp: pool_inv_def removeWaiter_core none_startable_def removeWaiterLocked_def intro!: core_move
      queue_ok_leave [unfolded removeWaiterLocked_def])

lemma step_inv: "pool_step fs p p' \<Longrightarrow> pool_inv fs p \<Longrightarrow> pool_inv fs p'"
  by (induction rule: pool_step.induct)
     (auto intro: Acquire_inv release_inv ReserveParentWrite_inv releaseParent_inv move_inv cancel_inv)

lemma pump_max: "pumpLoop fs ws s = (s', x) \<Longrightarrow> ssMaxTotal s' = ssMaxTotal s \<and> ssMaxWriters s' = ssMaxWriters s"
  by (induction fs ws s arbitrary: s' x rule: pumpLoop.induct)
     (fastforce simp: activateLocked_def Let_def split: if_splits prod.splits)+

definition limits :: "pool \<Rightarrow> int \<times> int" where
  "limits p = (ssMaxTotal (sched p), ssMaxWriters (sched p))"

lemma pumped_limits [simp]:
  "ssMaxTotal (sched (pumped fs s P)) = ssMaxTotal s" "ssMaxWriters (sched (pumped fs s P)) = ssMaxWriters s"
  by (auto simp: pumped_def pumpWaitersLocked_def split: prod.splits dest: pump_max)

lemma deactivate_limits [simp]:
  "ssMaxTotal (deactivateLocked r s) = ssMaxTotal s" "ssMaxWriters (deactivateLocked r s) = ssMaxWriters s"
  by (simp_all add: deactivateLocked_def Let_def)

lemma step_limits: "pool_step fs p p' \<Longrightarrow> limits p' = limits p"
  by (induction rule: pool_step.induct)
     (auto simp: Acquire_def release_def ReserveParentWrite_def releaseParent_def limits_def
        activateLocked_def removeWaiterLocked_def Let_def)

lemma NormalizeConcurrencyLimits_bounds:
  "case NormalizeConcurrencyLimits t w of (a, b) \<Rightarrow> 1 \<le> b \<and> b \<le> a \<and> a \<le> 32"
  by (auto simp: NormalizeConcurrencyLimits_def DefaultMaxSubagentConcurrency_def DefaultMaxParallelWriters_def
      MaxSubagentConcurrencyLimit_def Let_def)

lemma NewPool_inv: "pool_inv fs (NewPool t w)"
proof -
  have "held_values (slot \<circ> (\<lambda>_. Outside)) = {#}" "held_values (claim \<circ> (\<lambda>_. Outside)) = {#}"
    "held_values (parent_claim \<circ> (\<lambda>_. Outside)) = {#}"
    by (simp_all add: held_values_def comp_def dom_def claim_def)
  then show ?thesis using NormalizeConcurrencyLimits_bounds [of t w]
    by (auto simp: pool_inv_def core_def accounted_def exclusive_def limited_def queue_ok_def none_startable_def NewPool_def
        NewSubagentScheduler_def occupied_def hold_def claim_def split: prod.splits)
qed

lemma reachable_inv:
  assumes "pool_reachable fs t w p"
  shows "pool_inv fs p \<and> limits p = NormalizeConcurrencyLimits t w"
  using assms unfolding pool_reachable_def
proof (induction rule: rtranclp_induct)
  case base
  have "limits (NewPool t w) = NormalizeConcurrencyLimits t w"
    by (simp add: NewPool_def NewSubagentScheduler_def limits_def split: prod.splits)
  then show ?case by (simp add: NewPool_inv)
qed (auto dest: step_inv step_limits)

section \<open>What the pool promises\<close>

definition holders :: "pool \<Rightarrow> nat set" where
  "holders p = {g. slot (procs p g) \<noteq> None}"

definition writers :: "pool \<Rightarrow> nat set" where
  "writers p = {g. writes (procs p g)}"

lemma holders_count:
  assumes "accounted (procs p) (sched p)"
  shows "ssTotal (sched p) = int (card (holders p))" "ssWriters (sched p) = int (card (writers p))"
proof -
  have f: "finite (occupied (procs p))" using assms by (simp add: accounted_def)
  have "dom (slot \<circ> procs p) = holders p" by (auto simp: holders_def)
  then show "ssTotal (sched p) = int (card (holders p))" using assms by (simp add: accounted_def held_values_def)
  have "filter_mset rqWriter (held_values (slot \<circ> procs p)) =
      image_mset (the \<circ> (slot \<circ> procs p)) (filter_mset (rqWriter \<circ> (the \<circ> (slot \<circ> procs p))) (mset_set (dom (slot \<circ> procs p))))"
    by (simp add: held_values_def filter_mset_image_mset comp_def)
  also have "filter_mset (rqWriter \<circ> (the \<circ> (slot \<circ> procs p))) (mset_set (dom (slot \<circ> procs p))) = mset_set (writers p)"
    by (simp add: filter_mset_mset_set slot_finite(1) [OF f]) (rule arg_cong [of _ _ mset_set], auto simp: writers_def writes_def)
  finally have "size (filter_mset rqWriter (held_values (slot \<circ> procs p))) = card (writers p)" by (simp only: size_image_mset size_mset_set)
  then show "ssWriters (sched p) = int (card (writers p))" using assms by (simp add: accounted_def del: o_apply)
qed

text \<open>C10. 
  The pool is safe under every interleaving, cancellations included: at most the configured numbers of slots
  and of writers are held, between 1 and 32, and no two claims held at the same time overlap, whether they
  are held by sub-agents or by the parent.
\<close>

theorem scheduler_safe:
  assumes "pool_reachable fs t w p"
  shows "case NormalizeConcurrencyLimits t w of (tot, wr) \<Rightarrow>
    1 \<le> wr \<and> wr \<le> tot \<and> tot \<le> 32 \<and> int (card (holders p)) \<le> tot \<and> int (card (writers p)) \<le> wr \<and>
    (\<forall>g h c d. g \<noteq> h \<longrightarrow> hold (procs p g) = Some c \<longrightarrow> hold (procs p h) = Some d \<longrightarrow> \<not> Overlaps fs c d)"
proof -
  obtain a b where ab: "NormalizeConcurrencyLimits t w = (a, b)" by fastforce
  from reachable_inv [OF assms] have i: "core fs (procs p) (sched p)" "limits p = (a, b)" by (simp_all add: pool_inv_def ab)
  then have acc: "accounted (procs p) (sched p)" by (simp add: core_def)
  show ?thesis using i holders_count [OF acc] NormalizeConcurrencyLimits_bounds [of t w]
    by (auto simp: ab core_def exclusive_def limited_def limits_def)
qed

lemma waiting_blocked:
  assumes "pool_inv fs p" and "procs p g = Queued r False"
  shows "canStartLocked fs r (sched p) \<noteq> None"
proof -
  have "(g, r) \<in> set (ssWaiters (sched p))" using assms by (simp add: pool_inv_def queue_ok_def)
  then show ?thesis using assms(1) unfolding pool_inv_def none_startable_def by (metis snd_conv)
qed

lemma waiting_has_reason:
  assumes "pool_reachable fs t w p" and "procs p g = Queued r False"
  shows "case NormalizeConcurrencyLimits t w of (tot, wr) \<Rightarrow>
    int (card (holders p)) = tot \<or>
    rqWriter r \<and> (int (card (writers p)) = wr \<or> (\<exists>h c. hold (procs p h) = Some c \<and> Overlaps fs c (rqPaths r)))"
proof -
  obtain a b where ab: "NormalizeConcurrencyLimits t w = (a, b)" by fastforce
  from reachable_inv [OF assms(1)] have i: "pool_inv fs p" "limits p = (a, b)" by (simp_all add: ab)
  then have c: "accounted (procs p) (sched p)" "limited (sched p)" by (simp_all add: pool_inv_def core_def)
  have "canStartLocked fs r (sched p) \<noteq> None" by (rule waiting_blocked [OF i(1) assms(2)])
  then have "ssMaxTotal (sched p) \<le> ssTotal (sched p) \<or>
      rqWriter r \<and> (ssMaxWriters (sched p) \<le> ssWriters (sched p) \<or>
        (\<exists>d \<in> set (ssClaims (sched p)) \<union> set (ssParents (sched p)). Overlaps fs d (rqPaths r)))"
    unfolding canStart_None by auto
  then show ?thesis using c(2) i(2) holders_count [OF c(1)]
    by (simp add: ab limited_def limits_def flip: hold_mem [OF c(1)]) (meson hold_mem [OF c(1)] order_antisym)
qed

lemma pumped_procs: "procs (pumped fs s P) x = P x \<or> procs (pumped fs s P) x = close_ready (P x)"
  by (auto simp: pumped_def wake_all_def split: prod.splits)

lemma close_ready_Outside [simp]: "close_ready p = Outside \<longleftrightarrow> p = Outside"
  by (cases p) auto

lemma pumped_Outside [simp]: "procs (pumped fs s P) x = Outside \<longleftrightarrow> P x = Outside"
  using pumped_procs [of fs s P x] by (metis close_ready_Outside)

lemma pumped_Queued: "P x = Queued r b \<Longrightarrow> \<exists>b'. procs (pumped fs s P) x = Queued r b'"
  using pumped_procs [of fs s P x] by auto

text \<open>One goroutine leaves; the others stay or are woken.\<close>

definition leaves :: "nat \<Rightarrow> pool \<Rightarrow> pool \<Rightarrow> bool" where
  "leaves h p p' \<longleftrightarrow> occupied (procs p') = occupied (procs p) - {h} \<and>
     (\<forall>g r b. g \<noteq> h \<longrightarrow> procs p g = Queued r b \<longrightarrow> (\<exists>b'. procs p' g = Queued r b'))"

lemma leaves_pumped: "leaves h p (pumped fs s ((procs p)(h := Outside)))"
proof -
  have "\<exists>b'. procs (pumped fs s ((procs p)(h := Outside))) g = Queued r b'" if "g \<noteq> h" "procs p g = Queued r b" for g r b
    by (rule pumped_Queued [of _ _ _ b]) (simp add: that)
  then show ?thesis by (auto simp: leaves_def occupied_def)
qed

lemma leaves_release: "leaves h p (release fs h r p)"
  unfolding release_def by (rule leaves_pumped)

lemma leaves_parent: "leaves h p (releaseParent fs h c p)"
  unfolding releaseParent_def by (rule leaves_pumped)

lemma leaves_move: "leaves h p (p\<lparr>procs := (procs p)(h := Outside)\<rparr>)"
  by (auto simp: leaves_def occupied_def)

text \<open>The steps with which the goroutines other than \<open>g\<close> finish what they have begun: a goroutine that was granted
  its slot runs, one that runs, writes for the parent or has given up returns. None of them starts anything, and
  none of them gives up waiting.\<close>

inductive finish_step :: "fsys \<Rightarrow> nat \<Rightarrow> pool \<Rightarrow> pool \<Rightarrow> bool" for fs g where
  granted: "procs p h = Queued req True \<Longrightarrow> h \<noteq> g \<Longrightarrow> finish_step fs g p (p\<lparr>procs := (procs p)(h := Running req)\<rparr>)"
| leave: "procs p h = Leaving req b \<Longrightarrow> h \<noteq> g \<Longrightarrow>
    finish_step fs g p (if b then release fs h req p else p\<lparr>procs := (procs p)(h := Outside)\<rparr>)"
| release: "procs p h = Running req \<Longrightarrow> h \<noteq> g \<Longrightarrow> finish_step fs g p (release fs h req p)"
| parent: "procs p h = ParentWriting paths \<Longrightarrow> h \<noteq> g \<Longrightarrow> finish_step fs g p (releaseParent fs h paths p)"

lemma finish_step_pool: "finish_step fs g p p' \<Longrightarrow> pool_step fs p p'"
proof (induction rule: finish_step.induct)
  case (leave p h req b)
  show ?case by (rule pool_step.leave [OF leave(1)])
qed (auto intro: pool_step.granted pool_step.release pool_step.parent)

lemma finish_steps_pool: "(finish_step fs g)\<^sup>*\<^sup>* p p' \<Longrightarrow> (pool_step fs)\<^sup>*\<^sup>* p p'"
  by (rule mono_rtranclp [rule_format]) (auto intro: finish_step_pool)

definition waits :: "proc \<Rightarrow> bool" where
  "waits p \<longleftrightarrow> (\<exists>r. p = Queued r False)"

lemma can_leave:
  assumes "procs p h \<noteq> Outside" "\<not> waits (procs p h)" "h \<noteq> g"
  shows "\<exists>p'. (finish_step fs g)\<^sup>*\<^sup>* p p' \<and> leaves h p p'"
proof (cases "procs p h")
  case (Queued r b)
  let ?q = "p\<lparr>procs := (procs p)(h := Running r)\<rparr>"
  have "b" using assms(2) Queued by (simp add: waits_def)
  then have "finish_step fs g p ?q" using finish_step.granted [of p h r g fs] Queued assms(3) by simp
  moreover have "finish_step fs g ?q (release fs h r ?q)" by (rule finish_step.release) (use assms(3) in simp_all)
  moreover have "leaves h p (release fs h r ?q)"
    using leaves_release [of h ?q fs r] assms(3) by (auto simp: leaves_def occupied_def)
  ultimately show ?thesis by (meson converse_rtranclp_into_rtranclp r_into_rtranclp)
next
  case (Leaving r b)
  from finish_step.leave [OF this assms(3), of fs] show ?thesis using leaves_release leaves_move by (cases b) auto
next
  case (Running r)
  from finish_step.release [OF this assms(3)] show ?thesis using leaves_release by blast
next
  case (ParentWriting c)
  from finish_step.parent [OF this assms(3)] show ?thesis using leaves_parent by blast
qed (use assms in simp)

lemma pool_reachable_steps: "pool_reachable fs t w p \<Longrightarrow> (pool_step fs)\<^sup>*\<^sup>* p p' \<Longrightarrow> pool_reachable fs t w p'"
  unfolding pool_reachable_def by (rule rtranclp_trans)

text \<open>Where nobody holds anything, nobody waits: the pump has closed the channel.\<close>

lemma alone_starts:
  assumes "pool_reachable fs t w p" and "procs p g = Queued r b" and "\<And>h. h \<noteq> g \<Longrightarrow> procs p h = Outside \<or> waits (procs p h)"
  shows b
proof (rule ccontr)
  assume "\<not> b"
  with assms(2) have g: "procs p g = Queued r False" by simp
  have "procs p h = Outside \<or> waits (procs p h)" for h using assms(3) [of h] g by (cases "h = g") (auto simp: waits_def)
  then have none: "slot (procs p h) = None \<and> hold (procs p h) = None" for h
    by (rule disjE [of "procs p h = Outside" "waits (procs p h)"]) (auto simp: waits_def hold_def claim_def)
  have "holders p = {}" "writers p = {}" using none by (auto simp: holders_def writers_def writes_def)
  with waiting_has_reason [OF assms(1) g] NormalizeConcurrencyLimits_bounds [of t w] none show False by auto
qed

text \<open>C12. 
  No wake-up is lost. A goroutine whose channel is still open waits for a reason that holds now: all slots are
  taken, or it is a writer and all writer slots are taken, or a claim that is held overlaps its own.
\<close>

theorem waits_for_a_reason:
  assumes "pool_reachable fs t w p" and "procs p g = Queued r False"
  shows "case NormalizeConcurrencyLimits t w of (tot, wr) \<Rightarrow>
    int (card (holders p)) = tot \<or>
    rqWriter r \<and> (int (card (writers p)) = wr \<or> (\<exists>h c. hold (procs p h) = Some c \<and> Overlaps fs c (rqPaths r)))"
  by (rule waiting_has_reason [OF assms])

text \<open>C13. 
  No deadlock, and no lost wake-up on the way. From every reachable state, a goroutine that waits gets its slot
  when the others only finish: those that were granted a slot run, those that run or write for the parent
  return. Nobody has to give up, nobody starts anything new, and the waiting goroutine takes no step itself.
\<close>

theorem every_waiter_is_served:
  assumes "pool_reachable fs t w p" and "procs p g = Queued r b"
  shows "\<exists>p'. (finish_step fs g)\<^sup>*\<^sup>* p p' \<and> procs p' g = Queued r True"
  using assms
proof (induction "card (occupied (procs p) - {g})" arbitrary: p b rule: less_induct)
  case less
  show ?case
  proof (cases "\<exists>h. h \<noteq> g \<and> procs p h \<noteq> Outside \<and> \<not> waits (procs p h)")
    case False
    then have "b" using alone_starts [OF less(2,3)] by blast
    then show ?thesis using less(3) by auto
  next
    case True
    then obtain h where h: "h \<noteq> g" "procs p h \<noteq> Outside" "\<not> waits (procs p h)" by blast
    from can_leave [OF h(2,3,1)] obtain q where q: "(finish_step fs g)\<^sup>*\<^sup>* p q" "leaves h p q" by blast
    from q(2) h less(3) obtain b' where b': "procs q g = Queued r b'" unfolding leaves_def by metis
    have f: "finite (occupied (procs p))" using reachable_inv [OF less(2)] by (simp add: pool_inv_def core_def accounted_def)
    have "occupied (procs q) - {g} = occupied (procs p) - {g} - {h}" using q(2) by (auto simp: leaves_def)
    moreover have "h \<in> occupied (procs p) - {g}" using h by (simp add: occupied_def)
    ultimately have "card (occupied (procs q) - {g}) < card (occupied (procs p) - {g})"
      using f by (metis Diff_iff card_Diff1_less finite_Diff)
    from less(1) [OF this pool_reachable_steps [OF less(2) finish_steps_pool [OF q(1)]] b'] obtain p' where
      "(finish_step fs g)\<^sup>*\<^sup>* q p'" "procs p' g = Queued r True" by blast
    then show ?thesis using rtranclp_trans [OF q(1)] by blast
  qed
qed

text \<open>C11. 
  Two goroutines at work never share a file: whatever claims two of them hold at one time, the sub-agents and
  the parent alike, no file is allowed by both.
\<close>

theorem concurrent_writers_share_no_file:
  assumes "pool_reachable fs t w p" and "g \<noteq> h"
    and "hold (procs p g) = Some c" and "hold (procs p h) = Some d" and "declared fs c" and "declared fs d"
  shows "\<not> (AllowsPath fs c f \<and> AllowsPath fs d f)"
proof -
  have "\<not> Overlaps fs c d"
    using reachable_inv [OF assms(1)] assms(2-4) by (auto simp: pool_inv_def core_def exclusive_def)
  then show ?thesis using disjoint_claims [of fs c f d] assms(5,6) declared_ok by blast
qed

section \<open>A waiter that is overtaken\<close>

definition whole_req :: AcquireRequest where
  "whole_req = \<lparr>rqWriter = True, rqPaths = \<lparr>wpPaths = [], wpWhole = True, wpRoot = ''/w''\<rparr>, rqNested = False\<rparr>"

definition part_req :: "bytes \<Rightarrow> AcquireRequest" where
  "part_req p = \<lparr>rqWriter = True, rqPaths = claim_on p, rqNested = False\<rparr>"

abbreviation (input) req_a :: AcquireRequest where "req_a \<equiv> part_req ''/w/a''"
abbreviation (input) req_b :: AcquireRequest where "req_b \<equiv> part_req ''/w/b''"

text \<open>The whole workspace waits; the goroutines of the list hold their claims.\<close>

definition overtaken :: "(nat \<times> AcquireRequest) list \<Rightarrow> pool" where
  "overtaken hs =
     \<lparr>sched = \<lparr>ssMaxTotal = 6, ssMaxWriters = 3, ssTotal = int (length hs), ssWriters = int (length hs),
                ssClaims = map (rqPaths \<circ> snd) hs, ssParents = [], ssWaiters = [(0, whole_req)]\<rparr>,
      procs = (\<lambda>g. if g = 0 then Queued whole_req False
                   else case map_of hs g of Some r \<Rightarrow> Running r | None \<Rightarrow> Outside)\<rparr>"

lemma overlaps_eval:
  "\<not> Overlaps unix (rqPaths req_a) (rqPaths req_b)" "\<not> Overlaps unix (rqPaths req_b) (rqPaths req_a)"
  "Overlaps unix (rqPaths req_a) (rqPaths whole_req)" "Overlaps unix (rqPaths req_b) (rqPaths whole_req)"
  by code_simp+

lemma req_simps: "rqWriter whole_req" "rqWriter (part_req p)" "\<not> rqNested whole_req" "\<not> rqNested (part_req p)"
  "\<not> EmptyClaim (rqPaths (part_req p))" "\<not> EmptyClaim (rqPaths whole_req)" "part_req p = part_req q \<longleftrightarrow> p = q"
  "rqPaths (part_req p) = rqPaths (part_req q) \<longleftrightarrow> p = q"
  by (auto simp: whole_req_def part_req_def claim_on_def EmptyClaim_def)

lemmas overtake_simps = overtaken_def canStartLocked_def activateLocked_def deactivateLocked_def Let_def
  Acquire_def release_def pumped_def pumpWaitersLocked_def wake_all_def req_simps overlaps_eval

lemma overtaken_acquire:
  "Acquire unix 2 req_b (overtaken [(1, req_a)]) = overtaken [(1, req_a), (2, req_b)]"
  "Acquire unix 1 req_a (overtaken [(2, req_b)]) = overtaken [(2, req_b), (1, req_a)]"
  by (auto simp: overtake_simps intro!: ext)

lemma overtaken_release:
  "release unix 1 req_a (overtaken [(1, req_a), (2, req_b)]) = overtaken [(2, req_b)]"
  "release unix 2 req_b (overtaken [(2, req_b), (1, req_a)]) = overtaken [(1, req_a)]"
  by (auto simp: overtake_simps intro!: ext)

lemma overtaken_reachable: "pool_reachable unix 6 3 (overtaken [(1, req_a)])"
proof -
  let ?p1 = "Acquire unix 1 req_a (NewPool 6 3)"
  let ?p2 = "Acquire unix 0 whole_req ?p1"
  have n: "NewPool 6 3 = \<lparr>sched = \<lparr>ssMaxTotal = 6, ssMaxWriters = 3, ssTotal = 0, ssWriters = 0,
      ssClaims = [], ssParents = [], ssWaiters = []\<rparr>, procs = (\<lambda>_. Outside)\<rparr>"
    by (simp add: NewPool_def NewSubagentScheduler_def NormalizeConcurrencyLimits_def MaxSubagentConcurrencyLimit_def)
  have "pool_step unix (NewPool 6 3) ?p1" by (rule pool_step.acquire) (simp add: n)
  moreover have "pool_step unix ?p1 ?p2" by (rule pool_step.acquire) (simp add: n overtake_simps)
  moreover have "?p2 = overtaken [(1, req_a)]" by (auto simp: n overtake_simps intro!: ext)
  ultimately show ?thesis unfolding pool_reachable_def by (metis rtranclp.rtrancl_into_rtrancl rtranclp.rtrancl_refl)
qed

text \<open>
  A waiter can be overtaken for ever. The queue is served whenever something is released, but a new request
  starts at once when it can, and a release starts every waiter that can start: while one goroutine waits
  for the whole workspace, two others may take turns on two directories, so that the system comes back to
  the same state with a writer running in every state of the round.
\<close>

theorem whole_workspace_writer_starves:
  "\<exists>p q r s. pool_reachable unix 6 3 p \<and> pool_step unix p q \<and> pool_step unix q r \<and> pool_step unix r s \<and> pool_step unix s p \<and>
     list_all (\<lambda>x. procs x 0 = Queued whole_req False) [p, q, r, s] \<and> procs p 2 = Outside \<and> procs q 2 = Running req_b \<and>
     procs r 1 = Outside \<and> procs s 1 = Running req_a"
proof -
  let ?p = "overtaken [(1, req_a)]" and ?q = "overtaken [(1, req_a), (2, req_b)]"
  let ?r = "overtaken [(2, req_b)]" and ?s = "overtaken [(2, req_b), (1, req_a)]"
  have "pool_step unix ?p ?q"
    using pool_step.acquire [where fs = unix and p = "?p" and g = 2 and req = req_b] unfolding overtaken_acquire
    by (simp add: overtaken_def)
  moreover have "pool_step unix ?q ?r"
    using pool_step.release [where fs = unix and p = "?q" and g = 1 and req = req_a] unfolding overtaken_release
    by (simp add: overtaken_def)
  moreover have "pool_step unix ?r ?s"
    using pool_step.acquire [where fs = unix and p = "?r" and g = 1 and req = req_a] unfolding overtaken_acquire
    by (simp add: overtaken_def)
  moreover have "pool_step unix ?s ?p"
    using pool_step.release [where fs = unix and p = "?s" and g = 2 and req = req_b] unfolding overtaken_release
    by (simp add: overtaken_def)
  moreover have "list_all (\<lambda>x. procs x 0 = Queued whole_req False) [?p, ?q, ?r, ?s]" by (simp add: overtaken_def)
  ultimately show ?thesis using overtaken_reachable
    by (intro exI [of _ ?p] exI [of _ ?q] exI [of _ ?r] exI [of _ ?s]) (simp add: overtaken_def)
qed

section \<open>Witnesses\<close>

theorem scheduler_safe_witness: "int (card (writers (overtaken [(1, req_a)]))) \<le> 3"
  using scheduler_safe [OF overtaken_reachable]
  by (simp add: NormalizeConcurrencyLimits_def MaxSubagentConcurrencyLimit_def)

theorem waits_for_a_reason_witness:
  "case NormalizeConcurrencyLimits 6 3 of (tot, wr) \<Rightarrow>
    int (card (holders (overtaken [(1, req_a)]))) = tot \<or>
    rqWriter whole_req \<and> (int (card (writers (overtaken [(1, req_a)]))) = wr \<or>
      (\<exists>h c. hold (procs (overtaken [(1, req_a)]) h) = Some c \<and> Overlaps unix c (rqPaths whole_req)))"
  by (rule waits_for_a_reason [OF overtaken_reachable, of 0]) (simp add: overtaken_def)

theorem every_waiter_is_served_witness:
  "\<exists>p'. (finish_step unix 0)\<^sup>*\<^sup>* (overtaken [(1, req_a)]) p' \<and> procs p' 0 = Queued whole_req True"
  by (rule every_waiter_is_served [OF overtaken_reachable, of 0 _ False]) (simp add: overtaken_def)

theorem concurrent_writers_share_no_file_witness:
  "\<not> (AllowsPath unix (claim_on ''/w/a'') ''/w/a/f'' \<and> AllowsPath unix (claim_on ''/w/b'') ''/w/a/f'')"
proof (rule concurrent_writers_share_no_file)
  have "pool_step unix (overtaken [(1, req_a)]) (overtaken [(1, req_a), (2, req_b)])"
    using pool_step.acquire [where fs = unix and p = "overtaken [(1, req_a)]" and g = 2 and req = req_b]
    unfolding overtaken_acquire by (simp add: overtaken_def)
  then show "pool_reachable unix 6 3 (overtaken [(1, req_a), (2, req_b)])"
    using pool_reachable_steps [OF overtaken_reachable] by blast
  show "hold (procs (overtaken [(1, req_a), (2, req_b)]) 1) = Some (claim_on ''/w/a'')"
    "hold (procs (overtaken [(1, req_a), (2, req_b)]) 2) = Some (claim_on ''/w/b'')"
    by (simp_all add: overtaken_def hold_def claim_def part_req_def EmptyClaim_def claim_on_def)
qed (simp_all add: claim_on_declared)

end
