(* ===== verification/CapLedger.thy ===== *)
theory CapLedger
  imports GoJson
begin

text \<open>
  The ledger of routed capabilities of a turn (\<open>capability/ledger.go\<close>) and the name a tool call has in it
  (\<open>agent/capability_gate.go\<close>). The ledger is a map with the order of insertion beside it; the time of an
  invocation is left out.
\<close>

section \<open>Entries\<close>

datatype AutoUse = AutoUseOff | AutoUseSuggest | AutoUsePrefer | AutoUseRequire | AutoUseUnset

fun rank :: "AutoUse \<Rightarrow> nat" where
  "rank AutoUseRequire = 3"
| "rank AutoUsePrefer = 2"
| "rank AutoUseSuggest = 1"
| "rank _ = 0"

definition normalizeAutoUse :: "bytes \<Rightarrow> AutoUse" where
  "normalizeAutoUse raw =
     (let s = ToLower (TrimSpace raw) in
      if s = ''off'' then AutoUseOff else if s = ''suggest'' then AutoUseSuggest
      else if s = ''prefer'' then AutoUsePrefer else if s = ''require'' then AutoUseRequire else AutoUseUnset)"

datatype Outcome =
    OutcomePending | OutcomeInvoked | OutcomeSucceeded | OutcomeFailed | OutcomeUnavailable | OutcomeDeclined

record LedgerEntry =
  leID :: bytes
  lePolicy :: AutoUse
  leReason :: bytes
  leOutcome :: Outcome
  leFailure :: bytes
  leDeclined :: bytes
  leReminded :: bool

text \<open>A candidate of a route: the identifier of its entry, the policy and the reason.\<close>

record RouteCandidate =
  rtID :: bytes
  rtPolicy :: AutoUse
  rtReason :: bytes

record CapLedger =
  clEntries :: "bytes \<Rightarrow> LedgerEntry option"
  clOrder :: "bytes list"

definition NewCapLedger :: CapLedger where
  "NewCapLedger = \<lparr>clEntries = (\<lambda>_. None), clOrder = []\<rparr>"

definition ResetCaps :: "CapLedger \<Rightarrow> CapLedger" where
  "ResetCaps l = NewCapLedger"

definition newEntry :: "bytes \<Rightarrow> AutoUse \<Rightarrow> bytes \<Rightarrow> LedgerEntry" where
  "newEntry i p r = \<lparr>leID = i, lePolicy = p, leReason = r, leOutcome = OutcomePending, leFailure = [], leDeclined = [],
     leReminded = False\<rparr>"

definition addEntry :: "LedgerEntry \<Rightarrow> CapLedger \<Rightarrow> CapLedger" where
  "addEntry e l = l\<lparr>clEntries := (clEntries l)(leID e \<mapsto> e), clOrder := clOrder l @ [leID e]\<rparr>"

definition setEntry :: "LedgerEntry \<Rightarrow> CapLedger \<Rightarrow> CapLedger" where
  "setEntry e l = l\<lparr>clEntries := (clEntries l)(leID e \<mapsto> e)\<rparr>"

definition seedOne :: "RouteCandidate \<Rightarrow> CapLedger \<Rightarrow> CapLedger" where
  "seedOne c l =
     (if rtID c = [] then l
      else case clEntries l (rtID c) of
        Some e \<Rightarrow> if rank (rtPolicy c) > rank (lePolicy e)
                 then setEntry (e\<lparr>lePolicy := rtPolicy c, leReason := rtReason c\<rparr>) l else l
      | None \<Rightarrow> addEntry (newEntry (rtID c) (rtPolicy c) (rtReason c)) l)"

definition SeedCandidates :: "RouteCandidate list \<Rightarrow> CapLedger \<Rightarrow> CapLedger" where
  "SeedCandidates cs l = fold seedOne cs l"

text \<open>How an outcome changes: a success, an unavailability or a decline only gives way to a success or an
  unavailability.\<close>

definition nextOutcome :: "Outcome \<Rightarrow> Outcome \<Rightarrow> Outcome" where
  "nextOutcome old new =
     (if old \<in> {OutcomeSucceeded, OutcomeUnavailable, OutcomeDeclined}
      then (if new = OutcomeSucceeded \<or> new = OutcomeUnavailable then new else old) else new)"

definition setOutcome :: "bytes \<Rightarrow> Outcome \<Rightarrow> bytes \<Rightarrow> bytes \<Rightarrow> CapLedger \<Rightarrow> CapLedger" where
  "setOutcome id0 outcome failReason declineReason l0 =
     (let i = TrimSpace id0 in
      if i = [] then l0
      else let l = (if clEntries l0 i = None then addEntry (newEntry i AutoUseSuggest []) l0 else l0) in
        case clEntries l i of
          None \<Rightarrow> l
        | Some e \<Rightarrow>
            let e1 = e\<lparr>leOutcome := nextOutcome (leOutcome e) outcome\<rparr>;
                e2 = (if failReason \<noteq> [] then e1\<lparr>leFailure := failReason\<rparr> else e1);
                e3 = (if declineReason \<noteq> [] then e2\<lparr>leDeclined := declineReason\<rparr> else e2)
            in setEntry e3 l)"

definition MarkInvoked :: "bytes \<Rightarrow> CapLedger \<Rightarrow> CapLedger" where
  "MarkInvoked i = setOutcome i OutcomeInvoked [] []"

definition MarkSucceeded :: "bytes \<Rightarrow> CapLedger \<Rightarrow> CapLedger" where
  "MarkSucceeded i = setOutcome i OutcomeSucceeded [] []"

definition MarkFailed :: "bytes \<Rightarrow> bytes \<Rightarrow> CapLedger \<Rightarrow> CapLedger" where
  "MarkFailed i reason = setOutcome i OutcomeFailed reason []"

definition MarkUnavailable :: "bytes \<Rightarrow> bytes \<Rightarrow> CapLedger \<Rightarrow> CapLedger" where
  "MarkUnavailable i reason = setOutcome i OutcomeUnavailable reason []"

text \<open>\<open>MarkDeclined\<close>: \<^const>\<open>None\<close> is the error of an empty reason.\<close>

definition MarkDeclined :: "bytes \<Rightarrow> bytes \<Rightarrow> CapLedger \<Rightarrow> CapLedger option" where
  "MarkDeclined i reason l =
     (if TrimSpace reason = [] then None else Some (setOutcome i OutcomeDeclined [] (TrimSpace reason) l))"

definition MarkReminded :: "bytes \<Rightarrow> CapLedger \<Rightarrow> CapLedger" where
  "MarkReminded i l = (case clEntries l i of None \<Rightarrow> l | Some e \<Rightarrow> l\<lparr>clEntries := (clEntries l)(i \<mapsto> e\<lparr>leReminded := True\<rparr>)\<rparr>)"

definition SnapshotCaps :: "CapLedger \<Rightarrow> LedgerEntry list" where
  "SnapshotCaps l = List.map_filter (clEntries l) (clOrder l)"

definition GetCap :: "bytes \<Rightarrow> CapLedger \<Rightarrow> LedgerEntry option" where
  "GetCap i l = clEntries l (TrimSpace i)"

section \<open>The final gate\<close>

text \<open>The reason of a gap names the capabilities it is about.\<close>

datatype capGap =
    RequireMissing "bytes list"
  | RequireUnavailable "(bytes \<times> bytes) list"
  | PreferUnused "bytes list"
  | PreferStillUnused "bytes list"

record gateParts =
  gpRequire :: "bytes list"
  gpUnavailable :: "(bytes \<times> bytes) list"
  gpRemind :: "bytes list"
  gpPrefer :: "bytes list"

definition gateEntry :: "LedgerEntry \<Rightarrow> bytes \<Rightarrow> gateParts \<Rightarrow> gateParts" where
  "gateEntry e i g =
     (case lePolicy e of
        AutoUseRequire \<Rightarrow>
          (case leOutcome e of
             OutcomeSucceeded \<Rightarrow> g
           | OutcomeUnavailable \<Rightarrow> g\<lparr>gpUnavailable := gpUnavailable g @ [(i, leFailure e)]\<rparr>
           | _ \<Rightarrow> g\<lparr>gpRequire := gpRequire g @ [i]\<rparr>)
      | AutoUsePrefer \<Rightarrow>
          (if leOutcome e \<in> {OutcomeSucceeded, OutcomeDeclined, OutcomeUnavailable} then g
           else if \<not> leReminded e then g\<lparr>gpRemind := gpRemind g @ [i]\<rparr> else g\<lparr>gpPrefer := gpPrefer g @ [i]\<rparr>)
      | _ \<Rightarrow> g)"

definition gateScan :: "CapLedger \<Rightarrow> gateParts" where
  "gateScan l =
     fold (\<lambda>i g. case clEntries l i of None \<Rightarrow> g | Some e \<Rightarrow> gateEntry e i g) (clOrder l)
       \<lparr>gpRequire = [], gpUnavailable = [], gpRemind = [], gpPrefer = []\<rparr>"

definition CheckFinalGate :: "CapLedger \<Rightarrow> capGap option" where
  "CheckFinalGate l =
     (let g = gateScan l in
      if gpRequire g \<noteq> [] then Some (RequireMissing (gpRequire g))
      else if gpUnavailable g \<noteq> [] then Some (RequireUnavailable (gpUnavailable g))
      else if gpRemind g \<noteq> [] then Some (PreferUnused (gpRemind g))
      else if gpPrefer g \<noteq> [] then Some (PreferStillUnused (gpPrefer g))
      else None)"

section \<open>The name of a call\<close>

text \<open>One string field of the arguments, decoding errors ignored: the last string among the matching entries.\<close>

fun lenientString :: "bytes \<Rightarrow> fields \<Rightarrow> bytes \<Rightarrow> bytes" where
  "lenientString key [] v = v"
| "lenientString key ((k, j) # fs) v =
     lenientString key fs (if EqualFold k key then (case intoString v j of Some s \<Rightarrow> s | None \<Rightarrow> v) else v)"

definition argString :: "(bytes \<Rightarrow> json option) \<Rightarrow> bytes \<Rightarrow> bytes \<Rightarrow> bytes" where
  "argString parse key args = (case parse args of Some (JObj fs) \<Rightarrow> lenientString key fs [] | _ \<Rightarrow> [])"

definition splitMCP :: "bytes \<Rightarrow> (bytes \<times> bytes) option" where
  "splitMCP name =
     (if \<not> HasPrefix name ''mcp__'' then None
      else case CutAt ''__'' (drop 5 name) of
        None \<Rightarrow> None
      | Some (server, raw) \<Rightarrow> if server = [] \<or> raw = [] then None else Some (server, raw))"

definition wrapperTools :: "bytes list" where
  "wrapperTools = [''explore'', ''research'', ''review'', ''security_review'']"

definition capabilityIDFromToolCall :: "(bytes \<Rightarrow> json option) \<Rightarrow> bytes \<Rightarrow> bytes \<Rightarrow> bytes" where
  "capabilityIDFromToolCall parse toolName args =
     (if toolName \<in> set ([''run_skill'', ''read_skill'', ''read_only_skill''] @ wrapperTools) then
        (let name0 = TrimSpace (argString parse ''name'' args);
             name1 = (if name0 = [] \<and> toolName \<in> set wrapperTools then toolName else name0);
             name2 = (if name1 = ''security_review'' then ''security-review'' else name1)
         in if name2 = [] then [] else ''skill:'' @ name2)
      else if toolName = ''use_capability'' then TrimSpace (argString parse ''capability_id'' args)
      else case splitMCP toolName of None \<Rightarrow> [] | Some (server, raw) \<Rightarrow> ''mcp-tool:'' @ server @ ''/'' @ raw)"

definition noteCapabilityInvocation :: "(bytes \<Rightarrow> json option) \<Rightarrow> bytes \<Rightarrow> bytes \<Rightarrow> bytes option \<Rightarrow> CapLedger \<Rightarrow> CapLedger" where
  "noteCapabilityInvocation parse toolName args callErr l =
     (let i = capabilityIDFromToolCall parse toolName args in
      if i = [] then l else case callErr of Some e \<Rightarrow> MarkFailed i e l | None \<Rightarrow> MarkSucceeded i l)"

section \<open>Well-formedness and exactness\<close>

definition caps_wf :: "CapLedger \<Rightarrow> bool" where
  "caps_wf l \<longleftrightarrow> distinct (clOrder l) \<and> dom (clEntries l) = set (clOrder l) \<and>
     (\<forall>i e. clEntries l i = Some e \<longrightarrow> leID e = i)"

lemma NewCapLedger_wf [simp]: "caps_wf NewCapLedger"
  by (simp add: caps_wf_def NewCapLedger_def)

lemma addEntry_wf: "caps_wf l \<Longrightarrow> clEntries l (leID e) = None \<Longrightarrow> caps_wf (addEntry e l)"
  by (auto simp: caps_wf_def addEntry_def)

lemma setEntry_wf: "caps_wf l \<Longrightarrow> clEntries l (leID e) \<noteq> None \<Longrightarrow> caps_wf (setEntry e l)"
  by (auto simp: caps_wf_def setEntry_def)

lemma caps_wfD: "caps_wf l \<Longrightarrow> clEntries l i = Some e \<Longrightarrow> leID e = i"
  by (simp add: caps_wf_def)

lemma newEntry_id [simp]: "leID (newEntry i p r) = i"
  by (simp add: newEntry_def)

lemma seedOne_wf: "caps_wf l \<Longrightarrow> caps_wf (seedOne c l)"
  by (auto simp: seedOne_def split: option.splits intro!: addEntry_wf setEntry_wf dest: caps_wfD)

lemma SeedCandidates_wf: "caps_wf l \<Longrightarrow> caps_wf (SeedCandidates cs l)"
  unfolding SeedCandidates_def by (induction cs arbitrary: l) (simp_all add: seedOne_wf)

lemma setOutcome_wf: "caps_wf l \<Longrightarrow> caps_wf (setOutcome i out f d l)"
proof -
  assume w: "caps_wf l"
  have "caps_wf (if clEntries l i = None then addEntry (newEntry i AutoUseSuggest []) l else l)" for i
    using w by (auto intro: addEntry_wf)
  from this [of "TrimSpace i"] caps_wfD [OF this [of "TrimSpace i"]] w show ?thesis
    unfolding setOutcome_def Let_def by (auto split: option.splits intro!: setEntry_wf)
qed

lemma MarkReminded_wf: "caps_wf l \<Longrightarrow> caps_wf (MarkReminded i l)"
  by (auto simp: caps_wf_def MarkReminded_def split: option.splits)

lemma setOutcome_get:
  "TrimSpace i \<noteq> [] \<Longrightarrow> clEntries (setOutcome i out f d l) (TrimSpace i) =
     Some (let e = (case clEntries l (TrimSpace i) of Some e \<Rightarrow> e | None \<Rightarrow> newEntry (TrimSpace i) AutoUseSuggest []);
               e1 = e\<lparr>leOutcome := nextOutcome (leOutcome e) out\<rparr>;
               e2 = (if f \<noteq> [] then e1\<lparr>leFailure := f\<rparr> else e1)
           in if d \<noteq> [] then e2\<lparr>leDeclined := d\<rparr> else e2)" if "caps_wf l"
  using caps_wfD [OF that] by (auto simp: setOutcome_def Let_def addEntry_def setEntry_def split: option.splits)

text \<open>What an entry asks of the turn.\<close>

definition met :: "LedgerEntry \<Rightarrow> bool" where
  "met e \<longleftrightarrow>
     (lePolicy e = AutoUseRequire \<longrightarrow> leOutcome e = OutcomeSucceeded) \<and>
     (lePolicy e = AutoUsePrefer \<longrightarrow> leOutcome e \<in> {OutcomeSucceeded, OutcomeDeclined, OutcomeUnavailable})"

definition clean_gate :: "gateParts \<Rightarrow> bool" where
  "clean_gate g \<longleftrightarrow> gpRequire g = [] \<and> gpUnavailable g = [] \<and> gpRemind g = [] \<and> gpPrefer g = []"

lemma gateEntry_clean: "clean_gate (gateEntry e i g) \<longleftrightarrow> clean_gate g \<and> met e"
  by (cases "lePolicy e"; cases "leOutcome e") (auto simp: gateEntry_def clean_gate_def met_def)

lemma gateScan_clean:
  "clean_gate (fold (\<lambda>i g. case clEntries l i of None \<Rightarrow> g | Some e \<Rightarrow> gateEntry e i g) is g) \<longleftrightarrow>
   clean_gate g \<and> (\<forall>i \<in> set is. \<forall>e. clEntries l i = Some e \<longrightarrow> met e)"
  by (induction "is" arbitrary: g) (auto simp: gateEntry_clean split: option.splits)

lemma CheckFinalGate_None:
  assumes "caps_wf l"
  shows "CheckFinalGate l = None \<longleftrightarrow> (\<forall>i e. clEntries l i = Some e \<longrightarrow> met e)"
proof -
  have "CheckFinalGate l = None \<longleftrightarrow> clean_gate (gateScan l)"
    by (auto simp: CheckFinalGate_def clean_gate_def Let_def)
  also have "\<dots> \<longleftrightarrow> (\<forall>i \<in> set (clOrder l). \<forall>e. clEntries l i = Some e \<longrightarrow> met e)"
    unfolding gateScan_def gateScan_clean by (simp add: clean_gate_def)
  also have "\<dots> \<longleftrightarrow> (\<forall>i e. clEntries l i = Some e \<longrightarrow> met e)" using assms unfolding caps_wf_def by (metis domI)
  finally show ?thesis .
qed

section \<open>Histories\<close>

datatype capEvent =
    Seeded "RouteCandidate list"
  | Invoked bytes
  | Succeeded bytes
  | Failed bytes bytes
  | Unavailable bytes bytes
  | Declined bytes bytes
  | Reminded bytes

fun capStep :: "capEvent \<Rightarrow> CapLedger \<Rightarrow> CapLedger" where
  "capStep (Seeded cs) l = SeedCandidates cs l"
| "capStep (Invoked i) l = MarkInvoked i l"
| "capStep (Succeeded i) l = MarkSucceeded i l"
| "capStep (Failed i r) l = MarkFailed i r l"
| "capStep (Unavailable i r) l = MarkUnavailable i r l"
| "capStep (Declined i r) l = (case MarkDeclined i r l of None \<Rightarrow> l | Some l' \<Rightarrow> l')"
| "capStep (Reminded i) l = MarkReminded i l"

definition capRun :: "capEvent list \<Rightarrow> CapLedger \<Rightarrow> CapLedger" where
  "capRun hs l = fold capStep hs l"

lemma capStep_wf: "caps_wf l \<Longrightarrow> caps_wf (capStep h l)"
  by (cases h) (auto simp: SeedCandidates_wf setOutcome_wf MarkReminded_wf MarkInvoked_def MarkSucceeded_def MarkFailed_def
      MarkUnavailable_def MarkDeclined_def split: option.splits)

lemma capRun_wf: "caps_wf l \<Longrightarrow> caps_wf (capRun hs l)"
  unfolding capRun_def by (induction hs arbitrary: l) (simp_all add: capStep_wf)

text \<open>The policy of an entry only becomes stronger, and a success only gives way to an unavailability.\<close>

definition kept :: "bytes \<Rightarrow> CapLedger \<Rightarrow> CapLedger \<Rightarrow> bool" where
  "kept i l l' \<longleftrightarrow> (\<forall>e. clEntries l i = Some e \<longrightarrow>
     (\<exists>e'. clEntries l' i = Some e' \<and> rank (lePolicy e) \<le> rank (lePolicy e') \<and>
       (leOutcome e = OutcomeSucceeded \<longrightarrow> leOutcome e' = OutcomeSucceeded)))"

lemma kept_refl: "kept i l l" by (simp add: kept_def)

lemma kept_trans: "kept i a b \<Longrightarrow> kept i b c \<Longrightarrow> kept i a c"
  unfolding kept_def by (metis order_trans)

lemma kept_seedOne: "caps_wf l \<Longrightarrow> kept i l (seedOne c l)"
  by (auto simp: kept_def seedOne_def addEntry_def setEntry_def split: option.splits dest: caps_wfD)

lemma kept_seed: "caps_wf l \<Longrightarrow> kept i l (SeedCandidates cs l)"
  unfolding SeedCandidates_def
proof (induction cs arbitrary: l)
  case (Cons c cs)
  have "kept i (seedOne c l) (fold seedOne cs (seedOne c l))" by (rule Cons.IH [OF seedOne_wf [OF Cons.prems]])
  from kept_trans [OF kept_seedOne [OF Cons.prems] this] show ?case by simp
qed (simp add: kept_refl)

lemma kept_setOutcome:
  assumes "caps_wf l" and "out = OutcomeUnavailable \<longrightarrow> TrimSpace j \<noteq> i"
  shows "kept i l (setOutcome j out f d l)"
  using assms(2) caps_wfD [OF assms(1)]
  by (auto simp: kept_def setOutcome_def Let_def addEntry_def setEntry_def nextOutcome_def split: option.splits)

lemma kept_step:
  assumes "caps_wf l" and "\<And>j r. h = Unavailable j r \<Longrightarrow> TrimSpace j \<noteq> i"
  shows "kept i l (capStep h l)"
proof (cases h)
  case (Reminded j)
  then show ?thesis by (auto simp: kept_def MarkReminded_def split: option.splits)
qed (use assms in \<open>simp_all add: kept_seed kept_setOutcome MarkInvoked_def MarkSucceeded_def MarkFailed_def MarkUnavailable_def
      MarkDeclined_def kept_refl split: option.splits\<close>)

text \<open>C14. 
  A required capability that was used stays used. Once an entry under the policy \<open>require\<close> has succeeded, no later
  candidate, failure, invocation, decline or reminder of the turn reopens the gate for it; only a report that
  the capability is unavailable does. And the gate is open exactly when every entry's demand is met.
\<close>

theorem success_keeps_gate_open:
  assumes "clEntries (capRun before NewCapLedger) i = Some e" and "leOutcome e = OutcomeSucceeded"
    and "\<forall>j r. Unavailable j r \<in> set later \<longrightarrow> TrimSpace j \<noteq> i"
  shows "let l = capRun later (capRun before NewCapLedger) in
    (\<exists>e'. clEntries l i = Some e' \<and> met e' \<and> rank (lePolicy e) \<le> rank (lePolicy e')) \<and>
    (CheckFinalGate l = None \<longleftrightarrow> (\<forall>j e'. clEntries l j = Some e' \<longrightarrow> met e'))"
proof -
  have w: "caps_wf (capRun before NewCapLedger)" by (simp add: capRun_wf)
  have "kept i l (capRun later l)" if "caps_wf l" for l
    using that assms(3) unfolding capRun_def
  proof (induction later arbitrary: l)
    case (Cons h hs)
    have k: "kept i l (capStep h l)" by (rule kept_step [OF Cons.prems(1)]) (use Cons.prems(2) in auto)
    have "kept i (capStep h l) (fold capStep hs (capStep h l))"
      by (rule Cons.IH) (use Cons.prems capStep_wf in auto)
    from kept_trans [OF k this] show ?case by simp
  qed (simp add: kept_refl)
  from this [OF w] assms(1,2) obtain e' where
    "clEntries (capRun later (capRun before NewCapLedger)) i = Some e'" "rank (lePolicy e) \<le> rank (lePolicy e')" "leOutcome e' = OutcomeSucceeded"
    unfolding kept_def by blast
  then show ?thesis using CheckFinalGate_None [OF capRun_wf [OF w]] by (auto simp: Let_def met_def)
qed

definition route_required :: "bytes \<Rightarrow> RouteCandidate" where
  "route_required i = \<lparr>rtID = i, rtPolicy = AutoUseRequire, rtReason = []\<rparr>"

theorem success_keeps_gate_open_witness:
  "CheckFinalGate (capRun [Failed ''skill:x'' ''e''] (capRun [Seeded [route_required ''skill:x''], Succeeded ''skill:x''] NewCapLedger)) = None"
proof -
  let ?l = "capRun [Seeded [route_required ''skill:x''], Succeeded ''skill:x''] NewCapLedger"
  have 1: "clEntries ?l ''skill:x'' = Some \<lparr>leID = ''skill:x'', lePolicy = AutoUseRequire, leReason = [],
      leOutcome = OutcomeSucceeded, leFailure = [], leDeclined = [], leReminded = False\<rparr>" by code_simp
  have 2: "clOrder (capRun [Failed ''skill:x'' ''e''] ?l) = [''skill:x'']" by code_simp
  have "caps_wf (capRun [Failed ''skill:x'' ''e''] ?l)" by (intro capRun_wf) simp
  then have 3: "j = ''skill:x''" if "clEntries (capRun [Failed ''skill:x'' ''e''] ?l) j = Some e'" for j e'
    using that 2 unfolding caps_wf_def by auto
  have "let l = capRun [Failed ''skill:x'' ''e''] ?l in
    (\<exists>e'. clEntries l ''skill:x'' = Some e' \<and> met e' \<and> 3 \<le> rank (lePolicy e')) \<and>
    (CheckFinalGate l = None \<longleftrightarrow> (\<forall>j e'. clEntries l j = Some e' \<longrightarrow> met e'))"
    using success_keeps_gate_open [OF 1, of "[Failed ''skill:x'' ''e'']"] by simp
  then show ?thesis using 3 unfolding Let_def by (metis option.inject)
qed

end
