(* ===== verification/Readiness.thy ===== *)
theory Readiness
  imports CapLedger EvOutcome TodoTools
begin

text \<open>
  The gate before a final answer (\<open>agent/agent.go\<close>, \<open>finalReadinessCheckFor\<close> and the delivery checkpoint;
  \<open>agent/capability_gate.go\<close>; the loop-guard pass of \<open>agent/progress_guard.go\<close>). It reads the ledger of the turn,
  the task list, the routed capabilities and the checkpoint of the goal. The fields of the agent it reads and
  writes are the record \<open>agent\<close>; the reason for a refusal is the list of its gaps, empty when the code has the
  empty string. The audit counters, which nothing reads, are left out.
\<close>

section \<open>State\<close>

record DeliveryCheckpoint =
  dcScopeID :: bytes
  dcCriteriaEstablished :: bool
  dcWorkObserved :: bool
  dcMutationObserved :: bool
  dcPendingMutation :: bool

definition newCheckpoint :: "bytes \<Rightarrow> DeliveryCheckpoint" where
  "newCheckpoint scope = \<lparr>dcScopeID = scope, dcCriteriaEstablished = False, dcWorkObserved = False,
     dcMutationObserved = False, dcPendingMutation = False\<rparr>"

record agent =
  agEvidence :: "Ledger option"
  agEvidenceOff :: bool
  agPlanMode :: bool
  agDelivery :: bool
  agCheckpoint :: DeliveryCheckpoint
  agScopeActive :: bool
  agScopeID :: bytes
  agTaskExpected :: bool
  agPersistentExpected :: bool
  agMutationExpected :: bool
  agCriteria :: bool
  agChecks :: "VerifyCheck list"
  agTodos :: "TodoItem list"
  agGuardArmed :: bool
  agGuardMark :: int
  agCaps :: "CapLedger option"
  agPreferReminded :: bool
  agRequireMissSeen :: bool
  agPreferMissSeen :: bool
  agDepth :: int
  agTools :: "bytes list option"
  agWarnings :: "bytes list"
  agRecoveryPending :: bool
  agPreserveOnce :: bool

section \<open>Loop guard, capabilities, structured review\<close>

definition armLoopGuardPass :: "int \<Rightarrow> agent \<Rightarrow> agent" where
  "armLoopGuardPass mark a = a\<lparr>agGuardArmed := True, agGuardMark := mark\<rparr>"

definition loopGuardAllowsFinal :: "agent \<Rightarrow> bool" where
  "loopGuardAllowsFinal a =
     (if \<not> agGuardArmed a then False
      else case agEvidence a of None \<Rightarrow> True | Some l \<Rightarrow> \<not> HasWriteOrCommandSince (agGuardMark a) l)"

definition SeedCapabilityRoute :: "RouteCandidate list \<Rightarrow> agent \<Rightarrow> agent" where
  "SeedCapabilityRoute cs a =
     (let l = (case agCaps a of None \<Rightarrow> NewCapLedger | Some l \<Rightarrow> l) in
      a\<lparr>agCaps := Some (SeedCandidates cs (ResetCaps l)), agPreferReminded := False,
        agRequireMissSeen := False, agPreferMissSeen := False\<rparr>)"

definition capabilityGateFailure :: "agent \<Rightarrow> capGap option \<times> agent" where
  "capabilityGateFailure a =
     (case agCaps a of
        None \<Rightarrow> (None, a)
      | Some caps \<Rightarrow>
          if \<not> agDelivery a then (None, a)
          else (case CheckFinalGate caps of
              None \<Rightarrow> (None, a\<lparr>agRequireMissSeen := False, agPreferMissSeen := False\<rparr>)
            | Some gap \<Rightarrow>
                (case gap of
                   PreferUnused ids \<Rightarrow>
                     if \<not> agPreferReminded a
                     then (Some gap, a\<lparr>agCaps := Some (fold MarkReminded ids caps), agPreferReminded := True, agPreferMissSeen := True\<rparr>)
                     else (Some gap, a\<lparr>agPreferMissSeen := True\<rparr>)
                 | RequireUnavailable us \<Rightarrow>
                     (case agEvidence a of
                        None \<Rightarrow> (None, a)
                      | Some l \<Rightarrow> if LatestSuccessfulMutationIndex l = None then (None, a) else (Some gap, a))
                 | RequireMissing ids \<Rightarrow> (Some gap, a\<lparr>agRequireMissSeen := True\<rparr>)
                 | PreferStillUnused ids \<Rightarrow> (Some gap, a\<lparr>agPreferMissSeen := True\<rparr>))))"

definition toolPresent :: "bytes list option \<Rightarrow> bytes \<Rightarrow> bool" where
  "toolPresent tools name = (case tools of None \<Rightarrow> False | Some ts \<Rightarrow> name \<in> set ts)"

definition productionPaths :: "bytes list \<Rightarrow> bytes list" where
  "productionPaths paths =
     (let kept = filter (\<lambda>p. \<not> (p = [] \<or> HasSuffix (ToLower p) ''_test.go'' \<or> Contains (ToLower p) ''/docs/'')) paths
      in if kept = [] then paths else kept)"

datatype reviewGap =
    BlockingReview
  | MediumNeedsReview "bytes list"
  | HighNeedsTools
  | HighNeedsReview "bytes list"
  | BlockingSecurity
  | HighNeedsSecurity "bytes list"

definition warnFrom :: "ReviewReport option \<Rightarrow> agent \<Rightarrow> agent" where
  "warnFrom rep a = (case rep of None \<Rightarrow> a | Some r \<Rightarrow> a\<lparr>agWarnings := agWarnings a @ WarningSummaries r\<rparr>)"

definition deliveryReviewGateFailure :: "evlib \<Rightarrow> agent \<Rightarrow> reviewGap option \<times> agent" where
  "deliveryReviewGateFailure ev a =
     (case agEvidence a of
        None \<Rightarrow> (None, a)
      | Some l \<Rightarrow>
          if \<not> agDelivery a \<or> agDepth a > 0 then (None, a)
          else (case LatestSuccessfulMutationIndex l of
              None \<Rightarrow> (None, a)
            | Some m \<Rightarrow>
                let mutation = int m;
                    paths = productionPaths (PathsSince mutation l);
                    hasReview = toolPresent (agTools a) ''review'' \<or> toolPresent (agTools a) ''run_skill'';
                    hasSecurity = toolPresent (agTools a) ''security_review'' \<or> toolPresent (agTools a) ''run_skill''
                in (case MutationRiskAfter mutation l of
                    RiskLow \<Rightarrow> (None, a)
                  | RiskMedium \<Rightarrow>
                      if \<not> hasReview then (None, a)
                      else (case HasStructuredReviewAfter ev ''review'' mutation paths l of (ok, blocking, report) \<Rightarrow>
                        if blocking then (Some BlockingReview, a)
                        else if \<not> ok \<and> \<not> (HasSuccessfulDeliverySignoffAfter ev mutation l \<and> HasHostReviewCoverageAfter ev mutation paths l)
                        then (Some (MediumNeedsReview paths), a)
                        else (None, warnFrom report a))
                  | RiskHigh \<Rightarrow>
                      if \<not> hasReview \<and> \<not> hasSecurity then (Some HighNeedsTools, a)
                      else (case HasStructuredReviewAfter ev ''review'' mutation paths l of (okR, blockR, repR) \<Rightarrow>
                        if blockR then (Some BlockingReview, a)
                        else if \<not> okR then (Some (HighNeedsReview paths), a)
                        else (case HasStructuredReviewAfter ev ''security'' mutation paths l of (okS, blockS, repS) \<Rightarrow>
                          if blockS then (Some BlockingSecurity, a)
                          else if \<not> okS then (Some (HighNeedsSecurity paths), a)
                          else (None, warnFrom repS (warnFrom repR a)))))))"

section \<open>The check\<close>

datatype gap =
    IncompleteGap "TodoStepMatch list"
  | WorkGap
  | MemoryGap
  | StateChangeGap
  | CapabilityGap capGap
  | CriteriaGap
  | SignoffGap
  | VerificationGap
  | InspectionGap
  | StructuredReviewGap reviewGap
  | ProjectCheckGap bytes bytes

record finalReadinessCheck =
  frApplies :: bool
  frReason :: "gap list"
  frProjectChecks :: nat
  frIncompleteTodos :: nat
  frCriteria :: nat
  frVerification :: nat
  frReview :: nat
  frSignoff :: nat
  frAction :: nat
  frMutation :: nat
  frCapabilities :: nat

definition noCheck :: finalReadinessCheck where
  "noCheck = \<lparr>frApplies = False, frReason = [], frProjectChecks = 0, frIncompleteTodos = 0, frCriteria = 0,
     frVerification = 0, frReview = 0, frSignoff = 0, frAction = 0, frMutation = 0, frCapabilities = 0\<rparr>"

text \<open>The identifiers of what is missing, and the signature of a state of the evidence.\<close>

definition missingIDs :: "finalReadinessCheck \<Rightarrow> bytes list" where
  "missingIDs c = map fst (filter (\<lambda>(i, n). n > 0)
     [(''project_check'', frProjectChecks c), (''todo'', frIncompleteTodos c), (''criteria'', frCriteria c),
      (''verification'', frVerification c), (''review'', frReview c), (''signoff'', frSignoff c),
      (''action'', frAction c), (''mutation'', frMutation c), (''capability'', frCapabilities c)])"

definition progressSignature :: "finalReadinessCheck \<Rightarrow> nat list \<times> gap list" where
  "progressSignature c =
     ([frProjectChecks c, frIncompleteTodos c, frCriteria c, frVerification c, frReview c, frSignoff c, frAction c,
       frMutation c, frCapabilities c, if frApplies c then 1 else 0], frReason c)"

text \<open>One demand: the check with its counter, and the list of gaps.\<close>

type_synonym demands = "finalReadinessCheck \<times> gap list"

definition need :: "bool \<Rightarrow> (finalReadinessCheck \<Rightarrow> finalReadinessCheck) \<Rightarrow> gap \<Rightarrow> demands \<Rightarrow> demands" where
  "need missing count g d = (if missing then (count (fst d), snd d @ [g]) else d)"

definition todoDemand :: "agent \<Rightarrow> Ledger \<Rightarrow> demands \<Rightarrow> demands" where
  "todoDemand a l d =
     (let todos = (case IncompleteLatestTodos l of
                     Some items \<Rightarrow> Some items
                   | None \<Rightarrow> if HasAnySuccessfulReceipt l then incompleteCanonicalTodos (agTodos a) else None)
      in case todos of
           None \<Rightarrow> d
         | Some items \<Rightarrow>
             need (length items > 0 \<and> HasSuccessfulTodoProgressReceipt l)
               (\<lambda>c. c\<lparr>frApplies := True, frIncompleteTodos := length items\<rparr>) (IncompleteGap items) d)"

definition checkpointApplies :: "agent \<Rightarrow> bool" where
  "checkpointApplies a \<longleftrightarrow> agScopeActive a \<and> dcScopeID (agCheckpoint a) = agScopeID a"

text \<open>The index of the change that has to be proven (\<open>-1\<close> for one before this ledger), and whether there was a
  change to deliver.\<close>

definition baseline :: "agent \<Rightarrow> Ledger \<Rightarrow> int option \<times> bool" where
  "baseline a l =
     (let writer = map_option int (LatestSuccessfulWriterIndex l) in
      if \<not> agDelivery a then (writer, False)
      else case LatestSuccessfulMutationIndex l of
        Some m \<Rightarrow> (Some (int m), True)
      | None \<Rightarrow>
          if checkpointApplies a \<and> dcPendingMutation (agCheckpoint a) then (Some (-1), True)
          else (writer, checkpointApplies a \<and> dcMutationObserved (agCheckpoint a)))"

definition expectationDemands :: "agent \<Rightarrow> Ledger \<Rightarrow> bool \<Rightarrow> demands \<Rightarrow> demands" where
  "expectationDemands a l deliveryMutation d =
     (let work = HasSuccessfulWorkReceipt l \<or> (checkpointApplies a \<and> dcWorkObserved (agCheckpoint a));
          d1 = need (agTaskExpected a \<and> \<not> agPersistentExpected a \<and> \<not> work)
                 (\<lambda>c. c\<lparr>frAction := frAction c + 1\<rparr>) WorkGap d;
          d2 = need (agPersistentExpected a \<and> \<not> HasSuccessfulToolReceipt ''remember'' l)
                 (\<lambda>c. c\<lparr>frMutation := frMutation c + 1\<rparr>) MemoryGap d1
      in need (agMutationExpected a \<and> \<not> deliveryMutation) (\<lambda>c. c\<lparr>frMutation := frMutation c + 1\<rparr>) StateChangeGap d2)"

definition capabilityDemand :: "capGap option \<Rightarrow> demands \<Rightarrow> demands" where
  "capabilityDemand g d =
     (case g of None \<Rightarrow> d
      | Some x \<Rightarrow> need True (\<lambda>c. c\<lparr>frApplies := True, frCapabilities := frCapabilities c + 1\<rparr>) (CapabilityGap x) d)"

definition memoryOnly :: "agent \<Rightarrow> Ledger \<Rightarrow> bool" where
  "memoryOnly a l \<longleftrightarrow> agPersistentExpected a \<and> \<not> agMutationExpected a \<and> \<not> HasSuccessfulMutationOtherThan [''remember''] l"

text \<open>The demands of a delivery on the change at \<open>writer\<close>.\<close>

definition deliveryDemands :: "evlib \<Rightarrow> agent \<Rightarrow> Ledger \<Rightarrow> int \<Rightarrow> bool \<Rightarrow> reviewGap option \<Rightarrow> demands \<Rightarrow> demands" where
  "deliveryDemands ev a l writer deliveryMutation review d =
     (let d1 = need (\<not> (agCriteria a \<or> (checkpointApplies a \<and> dcCriteriaEstablished (agCheckpoint a))))
                 (\<lambda>c. c\<lparr>frCriteria := frCriteria c + 1\<rparr>) CriteriaGap d;
          d2 = need (\<not> HasSuccessfulCompleteStepAfter writer l) (\<lambda>c. c\<lparr>frSignoff := frSignoff c + 1\<rparr>) SignoffGap d1;
          d3 = need (\<not> HasSuccessfulDeliverySignoffAfter ev writer l)
                 (\<lambda>c. c\<lparr>frVerification := frVerification c + 1\<rparr>) VerificationGap d2;
          d4 = need (deliveryMutation \<and> \<not> HasSuccessfulReviewAfter ev writer l)
                 (\<lambda>c. c\<lparr>frReview := frReview c + 1\<rparr>) InspectionGap d3
      in case review of None \<Rightarrow> d4
         | Some r \<Rightarrow> need True (\<lambda>c. c\<lparr>frReview := frReview c + 1\<rparr>) (StructuredReviewGap r) d4)"

definition projectDemand :: "evlib \<Rightarrow> Ledger \<Rightarrow> int \<Rightarrow> VerifyCheck \<Rightarrow> demands \<Rightarrow> demands" where
  "projectDemand ev l writer k d =
     (let command = TrimSpace (vcCommand k) in
      if command = [] then d
      else need (\<not> HasSuccessfulCommandAfter ev command writer l) (\<lambda>c. c\<lparr>frProjectChecks := frProjectChecks c + 1\<rparr>)
             (ProjectCheckGap command (checkSource k)) d)"

definition closeCheck :: "agent \<Rightarrow> demands \<Rightarrow> finalReadinessCheck" where
  "closeCheck a d =
     (if snd d = [] \<or> loopGuardAllowsFinal a then fst d else (fst d)\<lparr>frReason := snd d\<rparr>)"

definition finalReadinessCheckFor :: "evlib \<Rightarrow> agent \<Rightarrow> finalReadinessCheck \<times> agent" where
  "finalReadinessCheckFor ev a =
     (case agEvidence a of
        None \<Rightarrow> (noCheck, a)
      | Some l \<Rightarrow>
        if agEvidenceOff a \<or> agPlanMode a then (noCheck, a)
        else
        let d0 = todoDemand a l (noCheck, []);
            (writer0, deliveryMutation) = baseline a l;
            (cap, a1) = (if agDelivery a then capabilityGateFailure a else (None, a));
            verificationOnly = (agDelivery a \<and> writer0 = None \<and> HasSuccessfulVerificationCommand ev l);
            writer = (if verificationOnly then Some (-1) else writer0);
            d1 = (if agDelivery a then capabilityDemand cap (expectationDemands a l deliveryMutation d0) else d0)
        in if agDelivery a \<and> memoryOnly a l then
             (let out = (fst d1)\<lparr>frApplies := True\<rparr> in (if snd d1 = [] then out else out\<lparr>frReason := snd d1\<rparr>, a1))
           else (case writer of
               None \<Rightarrow> (closeCheck a d1, a1)
             | Some w \<Rightarrow>
                 if \<not> agDelivery a \<and> agChecks a = [] \<and> \<not> HasSuccessfulTodoWrite l \<and> snd d1 = [] then (noCheck, a1)
                 else
                 let d2 = ((fst d1)\<lparr>frApplies := True\<rparr>, snd d1);
                     (review, a2) = (if agDelivery a then deliveryReviewGateFailure ev a1 else (None, a1));
                     d3 = (if agDelivery a then deliveryDemands ev a1 l w deliveryMutation review d2 else d2);
                     d4 = (if verificationOnly then d3 else fold (projectDemand ev l w) (agChecks a) d3)
                 in (closeCheck a2 d4, a2)))"

section \<open>The delivery checkpoint\<close>

definition RestoreDeliveryCheckpoint :: "DeliveryCheckpoint \<Rightarrow> agent \<Rightarrow> agent" where
  "RestoreDeliveryCheckpoint cp a =
     (let scope = TrimSpace (dcScopeID cp) in
      if scope = [] then a else a\<lparr>agCheckpoint := cp\<lparr>dcScopeID := scope\<rparr>, agScopeID := scope\<rparr>)"

definition PrepareDeliveryRecovery :: "agent \<Rightarrow> bool \<times> agent" where
  "PrepareDeliveryRecovery a =
     (if \<not> agDelivery a \<or> \<not> agRecoveryPending a then (False, a)
      else (True, a\<lparr>agPreserveOnce := True, agRecoveryPending := False\<rparr>))"

definition deliveryMutationCheckpointReady :: "evlib \<Rightarrow> agent \<Rightarrow> bool \<times> agent" where
  "deliveryMutationCheckpointReady ev a =
     (case agEvidence a of
        None \<Rightarrow> (False, a)
      | Some l \<Rightarrow>
          if \<not> agCriteria a then (False, a)
          else let mutation = (case LatestSuccessfulMutationIndex l of None \<Rightarrow> -1 | Some m \<Rightarrow> int m) in
            if HasSuccessfulCompleteStepAfter mutation l \<and> HasSuccessfulDeliverySignoffAfter ev mutation l \<and>
               HasSuccessfulReviewAfter ev mutation l
            then (case deliveryReviewGateFailure ev a of (g, a') \<Rightarrow> (g = None, a'))
            else (False, a))"

text \<open>\<open>ok\<close>: the run returned no error.\<close>

definition updateDeliveryCheckpoint :: "evlib \<Rightarrow> bool \<Rightarrow> agent \<Rightarrow> agent" where
  "updateDeliveryCheckpoint ev ok a =
     (case agEvidence a of
        None \<Rightarrow> a
      | Some l \<Rightarrow>
          if \<not> agScopeActive a \<or> agScopeID a = [] then a
          else
          let cp0 = (if dcScopeID (agCheckpoint a) \<noteq> agScopeID a then newCheckpoint (agScopeID a) else agCheckpoint a);
              cp1 = cp0\<lparr>dcCriteriaEstablished := dcCriteriaEstablished cp0 \<or> agCriteria a \<or> HasSuccessfulTodoWrite l,
                        dcWorkObserved := dcWorkObserved cp0 \<or> HasSuccessfulWorkReceipt l\<rparr>;
              memoryReady = (agPersistentExpected a \<and> \<not> agMutationExpected a \<and> HasSuccessfulToolReceipt ''remember'' l \<and>
                             \<not> HasSuccessfulMutationOtherThan [''remember''] l);
              cp2 = (if LatestSuccessfulMutationIndex l \<noteq> None \<and> \<not> memoryReady
                     then cp1\<lparr>dcMutationObserved := True, dcPendingMutation := True\<rparr> else cp1);
              cp3 = (if memoryReady then cp2\<lparr>dcMutationObserved := True\<rparr> else cp2)
          in if ok \<and> dcPendingMutation cp3
             then (case deliveryMutationCheckpointReady ev a of (ready, a') \<Rightarrow>
                     a'\<lparr>agCheckpoint := (if ready then cp3\<lparr>dcPendingMutation := False\<rparr> else cp3)\<rparr>)
             else a\<lparr>agCheckpoint := cp3\<rparr>)"

section \<open>The start of a run: \<open>beginRunTurn\<close>\<close>

text \<open>
  The part of \<open>agent/run_loop.go\<close> (\<open>beginRunTurn\<close>) that sets the fields the gate reads. Arguments: the
  identifier of the delivery scope, if the context carries one; the finished background jobs whose evidence is
  not committed, each with its session, job and receipts; and what the classifier made of the task text (needs
  evidence, needs a change, needs durable memory).
\<close>

definition releaseJob :: "evlib \<Rightarrow> bytes \<times> bytes \<times> Receipt list \<Rightarrow> Ledger \<Rightarrow> Ledger" where
  "releaseJob ev j l =
     (case j of (session, job, summary) \<Rightarrow>
        (case NoteBackgroundLease session job l of (fresh, l1) \<Rightarrow> if fresh then MergeChild ev summary l1 else l))"

definition beginRunTurn ::
  "evlib \<Rightarrow> bytes option \<Rightarrow> (bytes \<times> bytes \<times> Receipt list) list \<Rightarrow> bool \<times> bool \<times> bool \<Rightarrow> agent \<Rightarrow> agent" where
  "beginRunTurn ev scope pending intent a =
     (let preserve = agPreserveOnce a;
          ledger = map_option (\<lambda>l. if preserve \<or> scope = Some (agScopeID a) then ResetBackgroundLeases l else Reset l)
                     (agEvidence a);
          scopeID = (case scope of Some s \<Rightarrow> s | None \<Rightarrow> if preserve then agScopeID a else []);
          cp = (case scope of None \<Rightarrow> agCheckpoint a
                | Some s \<Rightarrow> if dcScopeID (agCheckpoint a) \<noteq> s then newCheckpoint s else agCheckpoint a);
          ledger2 = (if agPlanMode a then ledger else map_option (fold (releaseJob ev) pending) ledger)
      in a\<lparr>agGuardArmed := False, agGuardMark := 0, agPreserveOnce := False,
           agRecoveryPending := preserve \<and> agRecoveryPending a,
           agScopeID := scopeID, agScopeActive := (scope \<noteq> None), agCheckpoint := cp, agEvidence := ledger2,
           agCriteria := (hasIncompleteCanonicalCriteria (agTodos a) \<or>
             (case ledger2 of Some l \<Rightarrow> HasSuccessfulTodoWrite l | None \<Rightarrow> False) \<or>
             (scope \<noteq> None \<and> dcCriteriaEstablished cp)),
           agTaskExpected := fst intent, agMutationExpected := fst (snd intent), agPersistentExpected := snd (snd intent)\<rparr>)"

section \<open>When the gate opens\<close>

lemma need_gaps [simp]: "snd (need c f g d) = [] \<longleftrightarrow> \<not> c \<and> snd d = []"
  by (simp add: need_def)

lemma need_reason:
  assumes "\<And>x. frReason (f x) = frReason x"
  shows "frReason (fst (need c f g d)) = frReason (fst d)"
  using assms by (simp add: need_def)

lemma projectDemand_gaps:
  "snd (projectDemand ev l w k d) = [] \<longleftrightarrow>
   (TrimSpace (vcCommand k) = [] \<or> HasSuccessfulCommandAfter ev (TrimSpace (vcCommand k)) w l) \<and> snd d = []"
  by (auto simp: projectDemand_def Let_def)

lemma projectDemands_gaps:
  "snd (fold (projectDemand ev l w) ks d) = [] \<longleftrightarrow>
   (\<forall>k \<in> set ks. TrimSpace (vcCommand k) = [] \<or> HasSuccessfulCommandAfter ev (TrimSpace (vcCommand k)) w l) \<and> snd d = []"
  by (induction ks arbitrary: d) (auto simp: projectDemand_gaps)

text \<open>What the gate reads is not changed by the gates it calls.\<close>

definition same_turn :: "agent \<Rightarrow> agent \<Rightarrow> bool" where
  "same_turn a b \<longleftrightarrow>
     (agEvidence b, agDelivery b, agCheckpoint b, agScopeActive b, agScopeID b, agCriteria b, agChecks b, agTodos b) =
     (agEvidence a, agDelivery a, agCheckpoint a, agScopeActive a, agScopeID a, agCriteria a, agChecks a, agTodos a) \<and>
     (agGuardArmed b, agGuardMark b, agDepth b, agTools b, agPersistentExpected b, agMutationExpected b, agTaskExpected b) =
     (agGuardArmed a, agGuardMark a, agDepth a, agTools a, agPersistentExpected a, agMutationExpected a, agTaskExpected a)"

lemma same_turn_refl [simp]: "same_turn a a" by (simp add: same_turn_def)

lemma same_turn_trans: "same_turn a b \<Longrightarrow> same_turn b c \<Longrightarrow> same_turn a c" by (simp add: same_turn_def)

lemma capabilityGate_same: "same_turn a (snd (capabilityGateFailure a))"
  by (auto simp: same_turn_def capabilityGateFailure_def split: option.splits capGap.splits)

lemma warnFrom_same: "same_turn a (warnFrom r a)"
  by (auto simp: same_turn_def warnFrom_def split: option.splits)

lemma reviewGate_same: "same_turn a (snd (deliveryReviewGateFailure ev a))"
  by (auto simp: deliveryReviewGateFailure_def Let_def warnFrom_same same_turn_trans [OF warnFrom_same warnFrom_same]
      split: option.splits RiskLevel.splits prod.splits)

lemma same_turn_guard: "same_turn a b \<Longrightarrow> loopGuardAllowsFinal b = loopGuardAllowsFinal a"
  by (simp add: same_turn_def loopGuardAllowsFinal_def split: option.split)

lemma same_turn_review: "same_turn a b \<Longrightarrow> fst (deliveryReviewGateFailure ev b) = fst (deliveryReviewGateFailure ev a)"
  by (auto simp: same_turn_def deliveryReviewGateFailure_def Let_def warnFrom_def
      split: option.splits RiskLevel.splits prod.splits)

lemma same_turn_demands: "same_turn a b \<Longrightarrow> deliveryDemands ev b l w m r d = deliveryDemands ev a l w m r d"
  by (simp add: same_turn_def deliveryDemands_def checkpointApplies_def)

lemma closeCheck_open: "frReason (closeCheck a d) = [] \<Longrightarrow> \<not> loopGuardAllowsFinal a \<Longrightarrow> snd d = []"
  by (auto simp: closeCheck_def split: if_splits)

lemma deliveryDemands_gaps:
  "snd (deliveryDemands ev a l w deliveryMutation r d) = [] \<longleftrightarrow>
     (agCriteria a \<or> (checkpointApplies a \<and> dcCriteriaEstablished (agCheckpoint a))) \<and>
     HasSuccessfulCompleteStepAfter w l \<and> HasSuccessfulDeliverySignoffAfter ev w l \<and>
     (deliveryMutation \<longrightarrow> HasSuccessfulReviewAfter ev w l) \<and> r = None \<and> snd d = []"
  by (auto simp: deliveryDemands_def Let_def split: option.splits)

lemma capabilityDemand_gaps: "snd (capabilityDemand g d) = [] \<longleftrightarrow> g = None \<and> snd d = []"
  by (auto simp: capabilityDemand_def split: option.splits)

lemma expectationDemands_gaps:
  "snd (expectationDemands a l m d) = [] \<longleftrightarrow>
     (agTaskExpected a \<and> \<not> agPersistentExpected a \<longrightarrow>
        HasSuccessfulWorkReceipt l \<or> (checkpointApplies a \<and> dcWorkObserved (agCheckpoint a))) \<and>
     (agPersistentExpected a \<longrightarrow> HasSuccessfulToolReceipt ''remember'' l) \<and>
     (agMutationExpected a \<longrightarrow> m) \<and> snd d = []"
  by (auto simp: expectationDemands_def Let_def)

text \<open>A delivery that is about to answer, with evidence and outside plan mode.\<close>

definition delivering :: "agent \<Rightarrow> Ledger \<Rightarrow> bool" where
  "delivering a l \<longleftrightarrow> agEvidence a = Some l \<and> agDelivery a \<and> \<not> agEvidenceOff a \<and> \<not> agPlanMode a \<and> \<not> memoryOnly a l"

lemma ready_proven:
  assumes d: "delivering a l" and b: "baseline a l = (Some w, True)" and ok: "frReason (fst (finalReadinessCheckFor ev a)) = []"
    and g: "\<not> loopGuardAllowsFinal a"
  shows "(agCriteria a \<or> (checkpointApplies a \<and> dcCriteriaEstablished (agCheckpoint a))) \<and>
     HasSuccessfulCompleteStepAfter w l \<and> HasSuccessfulDeliverySignoffAfter ev w l \<and> HasSuccessfulReviewAfter ev w l \<and>
     fst (deliveryReviewGateFailure ev a) = None \<and> fst (capabilityGateFailure a) = None \<and>
     (\<forall>k \<in> set (agChecks a). TrimSpace (vcCommand k) = [] \<or> HasSuccessfulCommandAfter ev (TrimSpace (vcCommand k)) w l) \<and>
     snd (todoDemand a l (noCheck, [])) = []"
proof -
  obtain cap a1 where c: "capabilityGateFailure a = (cap, a1)" by fastforce
  obtain rev a2 where r: "deliveryReviewGateFailure ev a1 = (rev, a2)" by fastforce
  have s1: "same_turn a a1" using capabilityGate_same [of a] c by simp
  have s2: "same_turn a a2" using reviewGate_same [of a1 ev] r same_turn_trans [OF s1] by simp
  have rv: "fst (deliveryReviewGateFailure ev a) = rev" using same_turn_review [OF s1, of ev] r by simp
  have g2: "\<not> loopGuardAllowsFinal a2" using g same_turn_guard [OF s2] by simp
  let ?d1 = "capabilityDemand cap (expectationDemands a l True (todoDemand a l (noCheck, [])))"
  let ?d4 = "fold (projectDemand ev l w) (agChecks a)
    (deliveryDemands ev a l w True rev ((fst ?d1)\<lparr>frApplies := True\<rparr>, snd ?d1))"
  have "fst (finalReadinessCheckFor ev a) = closeCheck a2 ?d4"
    using d b c r by (simp add: finalReadinessCheckFor_def delivering_def Let_def same_turn_demands [OF s1])
  then have "frReason (closeCheck a2 ?d4) = []" using ok by simp
  from closeCheck_open [OF this g2] show ?thesis
    by (auto simp: projectDemands_gaps deliveryDemands_gaps capabilityDemand_gaps expectationDemands_gaps rv c)
qed

section \<open>A delivered change is proven\<close>

lemma armed_pass_expires:
  assumes "LatestSuccessfulMutationIndex l = Some m" and "agEvidence a = Some l" and "agGuardArmed a \<longrightarrow> agGuardMark a \<le> int m"
  shows "\<not> loopGuardAllowsFinal a"
proof -
  have m: "m < length (receipts l)" "rcSuccess (receipts l ! m)" "rcMutation (receipts l ! m)"
    using latestIndex_less [of _ l m] assms(1) unfolding LatestSuccessfulMutationIndex_def by auto
  have "HasWriteOrCommandSince (agGuardMark a) l" if "agGuardMark a \<le> int m"
  proof -
    have "receipts l ! m \<in> set (drop (nat (agGuardMark a)) (receipts l))"
      using m(1) that by (auto simp: in_set_conv_nth intro!: exI [of _ "m - nat (agGuardMark a)"])
    then show ?thesis unfolding HasWriteOrCommandSince_def anySince_def list_ex_iff using m by blast
  qed
  then show ?thesis using assms by (auto simp: loopGuardAllowsFinal_def)
qed

text \<open>The receipts a delivery sign-off rests on, for a change that is in the ledger.\<close>

definition signedOffRun :: "evlib \<Rightarrow> Ledger \<Rightarrow> nat \<Rightarrow> nat \<Rightarrow> nat \<Rightarrow> bytes \<Rightarrow> bool" where
  "signedOffRun ev l m j i c \<longleftrightarrow>
     m < j \<and> j < i \<and> i < length (receipts l) \<and>
     rcSuccess (receipts l ! i) \<and> rcTool (receipts l ! i) = ''complete_step'' \<and>
     c \<in> set (completeStepVerificationCommands ev (rcArgs (receipts l ! i))) \<and> bashCommandIsVerification (eShell ev) c \<and>
     provesCommand ev c (receipts l ! j) \<and> receiptsReviewChanges ev (receipts l) (Suc m) i (int m)"

lemma signoff_run:
  assumes "HasSuccessfulDeliverySignoffAfter ev (int m) l"
  shows "\<exists>j i c. signedOffRun ev l m j i c"
proof -
  have n: "nat (int m + 1) = Suc m" by simp
  obtain i where i: "Suc m \<le> i" "i < length (receipts l)" "rcSuccess (receipts l ! i)" "rcTool (receipts l ! i) = ''complete_step''"
      "receiptsReviewChanges ev (receipts l) (Suc m) i (int m)"
    and "list_ex (\<lambda>command. bashCommandIsVerification (eShell ev) command \<and>
        list_ex (\<lambda>j. provesCommand ev command (receipts l ! j)) [Suc m ..< i])
      (completeStepVerificationCommands ev (rcArgs (receipts l ! i)))"
    using assms unfolding HasSuccessfulDeliverySignoffAfter_def Let_def n list_ex_iff [of _ "[_ ..< length _]"] by auto
  then obtain c where c: "c \<in> set (completeStepVerificationCommands ev (rcArgs (receipts l ! i)))"
      "bashCommandIsVerification (eShell ev) c" "list_ex (\<lambda>j. provesCommand ev c (receipts l ! j)) [Suc m ..< i]"
    unfolding list_ex_iff [of _ "completeStepVerificationCommands _ _"] by blast
  obtain j where j: "Suc m \<le> j" "j < i" "provesCommand ev c (receipts l ! j)" using c(3) by (auto simp: list_ex_iff)
  have "signedOffRun ev l m j i c" unfolding signedOffRun_def using i c(1,2) j by simp
  then show ?thesis by blast
qed

lemma high_risk_reviewed:
  assumes "fst (deliveryReviewGateFailure ev a) = None" and "agEvidence a = Some l" and "agDelivery a"
    and "LatestSuccessfulMutationIndex l = Some m" and "MutationRiskAfter (int m) l = RiskHigh" and "agDepth a \<le> 0"
    and "kind \<in> {''review'', ''security''}"
  shows "HasSuccessfulStructuredReviewAfter ev kind (int m) (productionPaths (PathsSince (int m) l)) l"
  using assms
  by (auto simp: deliveryReviewGateFailure_def Let_def HasSuccessfulStructuredReviewAfter_def
      split: if_splits prod.splits)

text \<open>C5. 
  What a delivered change has behind it. If a delivery run may answer although its ledger holds a successful
  change, and no pass of the loop guard was armed after that change, then criteria were established; after the
  last change there is a successful run, and after it a sign-off that cites a verification this run matches,
  with an inspection of the change before the sign-off; every project check ran again after the change; and a
  high-risk change of the top-level agent has a covering review and a covering security review without a
  blocking finding.
\<close>

theorem delivery_answer_is_proven:
  assumes "delivering a l" and "LatestSuccessfulMutationIndex l = Some m"
    and "agGuardArmed a \<longrightarrow> agGuardMark a \<le> int m" and "frReason (fst (finalReadinessCheckFor ev a)) = []"
  shows "(agCriteria a \<or> (checkpointApplies a \<and> dcCriteriaEstablished (agCheckpoint a))) \<and>
    (\<exists>j i c. signedOffRun ev l m j i c) \<and>
    list_all (\<lambda>k. TrimSpace (vcCommand k) = [] \<or> HasSuccessfulCommandAfter ev (TrimSpace (vcCommand k)) (int m) l) (agChecks a) \<and>
    (MutationRiskAfter (int m) l = RiskHigh \<and> agDepth a \<le> 0 \<longrightarrow>
       list_all (\<lambda>kind. HasSuccessfulStructuredReviewAfter ev kind (int m) (productionPaths (PathsSince (int m) l)) l)
         [''review'', ''security''])"
proof -
  have e: "agEvidence a = Some l" "agDelivery a" using assms(1) by (simp_all add: delivering_def)
  have b: "baseline a l = (Some (int m), True)" using assms(2) e by (simp add: baseline_def)
  note p = ready_proven [OF assms(1) b assms(4) armed_pass_expires [OF assms(2) e(1) assms(3)]]
  then show ?thesis
    using signoff_run [of ev m l] high_risk_reviewed [OF _ e assms(2), of ev] by (simp add: list_all_iff)
qed

section \<open>A change that was not proven survives a restart\<close>

lemma checkpoint_ready_run:
  assumes "fst (deliveryMutationCheckpointReady ev a)" and "agEvidence a = Some l" and "LatestSuccessfulMutationIndex l = Some m"
  shows "\<exists>j i c. signedOffRun ev l m j i c"
  using assms by (intro signoff_run) (auto simp: deliveryMutationCheckpointReady_def Let_def split: if_splits)

lemma reviewGate_checkpoint: "agCheckpoint (snd (deliveryReviewGateFailure ev a)) = agCheckpoint a"
  using reviewGate_same [of a ev] by (simp add: same_turn_def)

lemma checkpoint_pending:
  assumes "agEvidence a = Some l" and "LatestSuccessfulMutationIndex l = Some m" and "agScopeActive a" and "agScopeID a = s"
    and "s \<noteq> []" and "agPersistentExpected a \<longrightarrow> agMutationExpected a"
  shows "dcScopeID (agCheckpoint (updateDeliveryCheckpoint ev ok a)) = s \<and>
    (dcPendingMutation (agCheckpoint (updateDeliveryCheckpoint ev ok a)) \<or> fst (deliveryMutationCheckpointReady ev a))"
  using assms by (auto simp: updateDeliveryCheckpoint_def Let_def newCheckpoint_def split: prod.split)


section \<open>A sample goal\<close>

text \<open>A run that edits \<open>auth.go\<close>, and a run that only reads it, tests and signs off.\<close>

definition goal_ev :: evlib where
  "goal_ev = demo_ev\<lparr>eParse := map_of ((''{auth}'', JObj [(''path'', JStr ''auth.go'')]) # demo_docs)\<rparr>"

definition goal_ledger :: "(bytes \<times> bytes \<times> bool) list \<Rightarrow> Ledger" where
  "goal_ledger calls =
     fold (\<lambda>(tool, args, ro). Record goal_ev (ReceiptFromToolCall goal_ev tool args True ro)) calls NewLedger"

definition goal_checks :: "(bytes \<times> bytes \<times> bool) list" where
  "goal_checks = [(''read_file'', ''{auth}'', True), (''bash'', ''{run}'', False), (''complete_step'', ''{signoff}'', False)]"

definition goal_agent :: "Ledger \<Rightarrow> agent" where
  "goal_agent l =
     \<lparr>agEvidence = Some l, agEvidenceOff = False, agPlanMode = False, agDelivery = True, agCheckpoint = newCheckpoint ''goal'',
      agScopeActive = True, agScopeID = ''goal'', agTaskExpected = True, agPersistentExpected = False, agMutationExpected = True,
      agCriteria = True, agChecks = [], agTodos = [], agGuardArmed = False, agGuardMark = 0, agCaps = None,
      agPreferReminded = False, agRequireMissSeen = False, agPreferMissSeen = False, agDepth = 0,
      agTools = Some [''review'', ''security_review''], agWarnings = [], agRecoveryPending = False, agPreserveOnce = False\<rparr>"

definition edited :: agent where
  "edited = goal_agent (goal_ledger [(''edit_file'', ''{auth}'', False)])"

text \<open>The next run of the goal, in an agent that restored the checkpoint, after the calls \<open>goal_checks\<close>.\<close>

definition resumed :: agent where
  "resumed = (beginRunTurn goal_ev (Some ''goal'') [] (True, True, False)
      (RestoreDeliveryCheckpoint (agCheckpoint (updateDeliveryCheckpoint goal_ev False edited)) (goal_agent NewLedger)))
    \<lparr>agEvidence := Some (goal_ledger goal_checks)\<rparr>"

text \<open>
  The structured reviews of a high-risk change are lost by a restart. With the edit of \<open>auth.go\<close> and the later
  calls in one ledger the gate refuses the answer for want of a structured review; when the agent restarts
  after the edit, the same calls open the gate, although nothing was reviewed, because the structured review is
  asked for only when the change itself is in the ledger.
\<close>

theorem restart_skips_structured_review:
  "MutationRiskAfter 0 (goal_ledger ((''edit_file'', ''{auth}'', False) # goal_checks)) = RiskHigh \<and>
   frReason (fst (finalReadinessCheckFor goal_ev (goal_agent (goal_ledger ((''edit_file'', ''{auth}'', False) # goal_checks))))) =
     [StructuredReviewGap (HighNeedsReview [''auth.go''])] \<and>
   frReason (fst (finalReadinessCheckFor goal_ev resumed)) = [] \<and> dcPendingMutation (agCheckpoint resumed)"
proof (intro conjI)
  show "MutationRiskAfter 0 (goal_ledger ((''edit_file'', ''{auth}'', False) # goal_checks)) = RiskHigh" by code_simp
  show "frReason (fst (finalReadinessCheckFor goal_ev (goal_agent (goal_ledger ((''edit_file'', ''{auth}'', False) # goal_checks))))) =
     [StructuredReviewGap (HighNeedsReview [''auth.go''])]" by code_simp
  show "frReason (fst (finalReadinessCheckFor goal_ev resumed)) = []" by code_simp
  show "dcPendingMutation (agCheckpoint resumed)" by code_simp
qed

section \<open>The properties on the sample goal\<close>

theorem delivery_answer_is_proven_witness:
  "\<exists>j i c. signedOffRun demo_ev demo_run 0 j i c"
proof -
  have "delivering (goal_agent demo_run) demo_run" by code_simp
  moreover have "LatestSuccessfulMutationIndex demo_run = Some 0" by code_simp
  moreover have "frReason (fst (finalReadinessCheckFor demo_ev ((goal_agent demo_run)\<lparr>agTools := None\<rparr>))) = []" by code_simp
  ultimately show ?thesis
    using delivery_answer_is_proven [of "(goal_agent demo_run)\<lparr>agTools := None\<rparr>" demo_run 0 demo_ev]
    by (simp add: goal_agent_def delivering_def memoryOnly_def)
qed


end
