(* ===== verification/GoalMachine.thy ===== *)
theory GoalMachine
  imports Readiness
begin

text \<open>
  The machine of a goal (\<open>control/goal.go\<close>) and its loop (\<open>control/turn_orchestrator.go\<close>), with the tool
  \<open>update_goal\<close> (\<open>tool/builtin/updategoal.go\<close>) that reports a disposition. Every method is one critical section
  of the mutex. The classifiers of the goal text and the random scope identifiers are arguments; the JSON text
  of the sidecar is the record it encodes. Turn and token counters are unbounded; the epoch is a 64-bit word.
\<close>

section \<open>State\<close>

definition GoalStatusRunning :: bytes where "GoalStatusRunning = ''running''"
definition GoalStatusComplete :: bytes where "GoalStatusComplete = ''complete''"
definition GoalStatusBlocked :: bytes where "GoalStatusBlocked = ''blocked''"
definition GoalStatusStopped :: bytes where "GoalStatusStopped = ''stopped''"

definition stopCauseBudgetTurns :: bytes where "stopCauseBudgetTurns = ''budget_turns''"
definition stopCauseBudgetTokens :: bytes where "stopCauseBudgetTokens = ''budget_tokens''"
definition stopCauseNoProgress :: bytes where "stopCauseNoProgress = ''no_progress''"
definition stopCauseEvaluator :: bytes where "stopCauseEvaluator = ''evaluator_unavailable''"
definition stopCauseManual :: bytes where "stopCauseManual = ''manual''"

definition defaultNoProgressLimit :: int where "defaultNoProgressLimit = 4"

datatype GoalResearchMode = GoalResearchAuto | GoalResearchOn | GoalResearchOff

text \<open>The classifiers: \<open>isAutoResearchGoal\<close> and \<open>taskintent.GoalNeedsWriteBudget\<close>.\<close>

record goalClassifier =
  gcResearch :: "bytes \<Rightarrow> bool"
  gcWrite :: "bytes \<Rightarrow> bool"

definition shouldUseAutoResearch :: "goalClassifier \<Rightarrow> bytes \<Rightarrow> GoalResearchMode \<Rightarrow> bool" where
  "shouldUseAutoResearch cl goal mode =
     (case mode of GoalResearchOn \<Rightarrow> True | GoalResearchOff \<Rightarrow> False | GoalResearchAuto \<Rightarrow> gcResearch cl goal)"

definition budgetQuota :: "bytes \<Rightarrow> int" where
  "budgetQuota class' = (if class' = ''research'' then 40 else if class' = ''write'' then 20 else 10)"

definition budgetClassFor :: "goalClassifier \<Rightarrow> bytes \<Rightarrow> GoalResearchMode \<Rightarrow> bytes" where
  "budgetClassFor cl goal mode =
     (if shouldUseAutoResearch cl goal mode then ''research'' else if gcWrite cl goal then ''write'' else ''simple'')"

record goalMachine =
  gmGoal :: bytes
  gmStatus :: bytes
  gmMode :: GoalResearchMode
  gmTask :: bytes
  gmScope :: bytes
  gmCheckpoint :: DeliveryCheckpoint
  gmBlock :: bytes
  gmStrict :: bool
  gmEpoch :: "64 word"
  gmClass :: bytes
  gmTurns :: int
  gmTurnsLimit :: int
  gmTokens :: int
  gmTokensLimit :: int
  gmStall :: int
  gmStallLimit :: int
  gmContinueReason :: bytes
  gmEvalReason :: bytes
  gmStopCause :: bytes
  gmExtensions :: int
  gmPath :: bytes

definition newGoalMachine :: "bytes \<Rightarrow> goalMachine" where
  "newGoalMachine path' =
     \<lparr>gmGoal = [], gmStatus = [], gmMode = GoalResearchAuto, gmTask = [], gmScope = [], gmCheckpoint = newCheckpoint [],
      gmBlock = [], gmStrict = False, gmEpoch = 0, gmClass = [], gmTurns = 0, gmTurnsLimit = 0, gmTokens = 0,
      gmTokensLimit = 0, gmStall = 0, gmStallLimit = 0, gmContinueReason = [], gmEvalReason = [], gmStopCause = [],
      gmExtensions = 0, gmPath = path'\<rparr>"

text \<open>The sidecar.\<close>

record goalState =
  gsGoal :: bytes
  gsStatus :: bytes
  gsMode :: GoalResearchMode
  gsTask :: bytes
  gsScope :: bytes
  gsCheckpoint :: DeliveryCheckpoint
  gsTurnsOld :: int
  gsBlock :: bytes
  gsStrict :: bool
  gsTodos :: "TodoItem list"
  gsClass :: bytes
  gsTurnsUsed :: int
  gsTurnsLimit :: int
  gsTokens :: int
  gsTokensLimit :: int
  gsStall :: int
  gsStallLimit :: int
  gsContinueReason :: bytes
  gsEvalReason :: bytes
  gsStopCause :: bytes
  gsExtensions :: int

type_synonym saved = "(bytes \<times> goalState) option"

definition buildStateLocked :: "TodoItem list \<Rightarrow> goalMachine \<Rightarrow> saved" where
  "buildStateLocked todos g =
     (if gmPath g = [] then None
      else Some (gmPath g,
        \<lparr>gsGoal = gmGoal g, gsStatus = gmStatus g, gsMode = gmMode g, gsTask = gmTask g, gsScope = gmScope g,
         gsCheckpoint = gmCheckpoint g, gsTurnsOld = gmTurns g, gsBlock = gmBlock g, gsStrict = gmStrict g,
         gsTodos = todos, gsClass = gmClass g, gsTurnsUsed = gmTurns g, gsTurnsLimit = gmTurnsLimit g,
         gsTokens = gmTokens g, gsTokensLimit = gmTokensLimit g, gsStall = gmStall g, gsStallLimit = gmStallLimit g,
         gsContinueReason = gmContinueReason g, gsEvalReason = gmEvalReason g, gsStopCause = gmStopCause g,
         gsExtensions = gmExtensions g\<rparr>))"

text \<open>The goal is set and its status is running: the test of most methods.\<close>

definition active :: "goalMachine \<Rightarrow> bool" where
  "active g \<longleftrightarrow> TrimSpace (gmGoal g) \<noteq> [] \<and> gmStatus g = GoalStatusRunning"

definition bumpEpoch :: "goalMachine \<Rightarrow> goalMachine" where
  "bumpEpoch g = g\<lparr>gmEpoch := gmEpoch g + 1\<rparr>"

section \<open>Operations\<close>

definition setStatePath :: "bytes \<Rightarrow> goalMachine \<Rightarrow> goalMachine" where
  "setStatePath p g = g\<lparr>gmPath := p\<rparr>"

record goalMachineSnapshot =
  snGoal :: bytes
  snStatus :: bytes
  snMode :: GoalResearchMode
  snTask :: bytes
  snScope :: bytes
  snCheckpoint :: DeliveryCheckpoint
  snBlock :: bytes
  snStrict :: bool

definition captureGoal :: "goalMachine \<Rightarrow> goalMachineSnapshot" where
  "captureGoal g = \<lparr>snGoal = gmGoal g, snStatus = gmStatus g, snMode = gmMode g, snTask = gmTask g, snScope = gmScope g,
     snCheckpoint = gmCheckpoint g, snBlock = gmBlock g, snStrict = gmStrict g\<rparr>"

definition restoreGoal :: "goalMachineSnapshot \<Rightarrow> goalMachine \<Rightarrow> goalMachine" where
  "restoreGoal s g =
     bumpEpoch (g\<lparr>gmGoal := snGoal s, gmStatus := snStatus s, gmMode := snMode s, gmTask := snTask s, gmScope := snScope s,
       gmCheckpoint := snCheckpoint s, gmBlock := snBlock s, gmStrict := snStrict s\<rparr>)"

definition currentAutoResearchTaskID :: "goalMachine \<Rightarrow> bytes" where
  "currentAutoResearchTaskID g = (if active g then gmTask g else [])"

definition continuationToken :: "goalMachine \<Rightarrow> 64 word" where
  "continuationToken g = gmEpoch g"

text \<open>\<open>fresh\<close> is the identifier \<open>newGoalScopeID\<close> returns.\<close>

definition deliveryScope :: "bytes \<Rightarrow> goalMachine \<Rightarrow> (bytes \<times> bytes) option \<times> goalMachine" where
  "deliveryScope fresh g =
     (if \<not> active g then (None, g)
      else let g1 = (if gmScope g = [] then g\<lparr>gmScope := fresh\<rparr> else g) in (Some (gmScope g1, gmGoal g1), g1))"

definition statusForDisplay :: "goalMachine \<Rightarrow> bytes" where
  "statusForDisplay g = (if gmStatus g = [] then GoalStatusStopped else gmStatus g)"

definition budgetExhausted :: "goalMachine \<Rightarrow> bool" where
  "budgetExhausted g \<longleftrightarrow> gmTurnsLimit g > 0 \<and> gmTurns g \<ge> gmTurnsLimit g"

definition setGoal ::
  "goalClassifier \<Rightarrow> bytes \<Rightarrow> bytes \<Rightarrow> GoalResearchMode \<Rightarrow> bytes \<Rightarrow> TodoItem list \<Rightarrow> goalMachine \<Rightarrow> saved \<times> goalMachine" where
  "setGoal cl fresh goal0 mode task todos g =
     (let goal = TrimSpace goal0 in
      if goal \<noteq> [] \<and> gmGoal g = goal \<and> gmStatus g = GoalStatusRunning \<and> gmMode g = mode \<and> gmTask g = task then (None, g)
      else
        let g1 = (bumpEpoch g)\<lparr>gmTurns := 0, gmTokens := 0, gmStall := 0, gmBlock := [], gmContinueReason := [],
                   gmEvalReason := [], gmStopCause := [], gmExtensions := 0\<rparr>;
            g2 = (if goal = [] then
                    g1\<lparr>gmGoal := [], gmStatus := GoalStatusStopped, gmMode := GoalResearchAuto, gmTask := [], gmScope := [],
                       gmCheckpoint := newCheckpoint []\<rparr>
                  else
                    let c = budgetClassFor cl goal mode in
                    g1\<lparr>gmGoal := goal, gmStatus := GoalStatusRunning, gmMode := mode, gmTask := task, gmScope := fresh,
                       gmCheckpoint := newCheckpoint fresh, gmClass := c, gmTurnsLimit := budgetQuota c,
                       gmTokensLimit := 0, gmStallLimit := defaultNoProgressLimit\<rparr>)
        in (buildStateLocked todos g2, g2))"

definition setStrict :: "bool \<Rightarrow> TodoItem list \<Rightarrow> goalMachine \<Rightarrow> saved \<times> goalMachine" where
  "setStrict b todos g = (let g1 = g\<lparr>gmStrict := b\<rparr> in (buildStateLocked todos g1, g1))"

definition stopGoal :: "bytes \<Rightarrow> TodoItem list \<Rightarrow> goalMachine \<Rightarrow> saved \<times> goalMachine" where
  "stopGoal status todos g =
     (let g1 = bumpEpoch g;
          g2 = (if active g1 then g1\<lparr>gmStatus := status\<rparr> else g1);
          g3 = g2\<lparr>gmStopCause := [], gmStall := 0\<rparr>
      in (buildStateLocked todos g3, g3))"

definition pauseFor :: "bytes \<Rightarrow> bytes \<Rightarrow> TodoItem list \<Rightarrow> goalMachine \<Rightarrow> saved \<times> goalMachine" where
  "pauseFor cause reason todos g =
     (let g1 = bumpEpoch g;
          g2 = (if active g1 then g1\<lparr>gmStatus := GoalStatusBlocked\<rparr> else g1);
          g3 = g2\<lparr>gmStopCause := cause, gmBlock := (if reason \<noteq> [] then reason else gmBlock g2)\<rparr>
      in (buildStateLocked todos g3, g3))"

text \<open>The results \<open>resumed\<close> and \<open>extended\<close> follow the saved state.\<close>

definition resumeGoal :: "goalClassifier \<Rightarrow> bytes \<Rightarrow> TodoItem list \<Rightarrow> goalMachine \<Rightarrow> (saved \<times> bool \<times> bool) \<times> goalMachine" where
  "resumeGoal cl fresh todos g =
     (if TrimSpace (gmGoal g) = [] \<or> gmStatus g = GoalStatusComplete then ((None, False, False), g)
      else
        let extend = (gmStopCause g = stopCauseBudgetTurns \<or> gmStopCause g = stopCauseBudgetTokens \<or>
                      gmStopCause g = stopCauseNoProgress \<or> budgetExhausted g);
            g1 = (bumpEpoch g)\<lparr>gmStatus := GoalStatusRunning, gmBlock := [], gmStopCause := [], gmStall := 0,
                   gmTokensLimit := 0, gmScope := (if gmScope g = [] then fresh else gmScope g)\<rparr>;
            c = (if gmClass g1 = [] then budgetClassFor cl (gmGoal g1) (gmMode g1) else gmClass g1);
            g2 = (if extend then g1\<lparr>gmClass := c, gmTurnsLimit := gmTurnsLimit g1 + budgetQuota c,
                    gmExtensions := gmExtensions g1 + 1\<rparr> else g1)
        in ((buildStateLocked todos g2, True, extend), g2))"

definition setDeliveryCheckpoint :: "DeliveryCheckpoint \<Rightarrow> TodoItem list \<Rightarrow> goalMachine \<Rightarrow> saved \<times> goalMachine" where
  "setDeliveryCheckpoint cp todos g =
     (if gmScope g = [] \<or> dcScopeID cp \<noteq> gmScope g then (None, g)
      else let g1 = g\<lparr>gmCheckpoint := cp\<rparr> in (buildStateLocked todos g1, g1))"

definition foldUsage :: "bytes \<Rightarrow> 64 word \<Rightarrow> int \<Rightarrow> goalMachine \<Rightarrow> bool \<times> goalMachine" where
  "foldUsage scope epoch tokens g =
     (if tokens \<le> 0 \<or> gmScope g \<noteq> scope \<or> gmEpoch g \<noteq> epoch then (False, g)
      else (True, g\<lparr>gmTokens := gmTokens g + tokens\<rparr>))"

text \<open>The reload of a sidecar: the fields, the budget with its defaults, and the pause of the removed token limit.\<close>

definition loadFields :: "bytes \<Rightarrow> goalState \<Rightarrow> goalMachine \<Rightarrow> goalMachine" where
  "loadFields fresh s g =
     (let goal = TrimSpace (gsGoal s);
          scope = (if goal \<noteq> [] \<and> TrimSpace (gsScope s) = [] then fresh else TrimSpace (gsScope s));
          cp = (if scope = [] then newCheckpoint []
                else if dcScopeID (gsCheckpoint s) = [] then (gsCheckpoint s)\<lparr>dcScopeID := scope\<rparr>
                else if dcScopeID (gsCheckpoint s) \<noteq> scope then newCheckpoint scope
                else gsCheckpoint s)
      in g\<lparr>gmGoal := goal, gmStatus := (if gsStatus s = [] then GoalStatusStopped else gsStatus s), gmMode := gsMode s,
           gmTask := TrimSpace (gsTask s), gmScope := scope, gmCheckpoint := cp, gmBlock := gsBlock s,
           gmStrict := gsStrict s, gmStopCause := gsStopCause s, gmExtensions := gsExtensions s,
           gmContinueReason := gsContinueReason s, gmEvalReason := gsEvalReason s,
           gmTurns := (if gsTurnsUsed s = 0 \<and> gsTurnsOld s > 0 then gsTurnsOld s else gsTurnsUsed s),
           gmTokens := gsTokens s, gmTokensLimit := 0\<rparr>)"

definition loadBudget :: "goalClassifier \<Rightarrow> goalState \<Rightarrow> goalMachine \<Rightarrow> goalMachine" where
  "loadBudget cl s g =
     (if gmGoal g = [] then g
      else let c = (if gsClass s = [] then budgetClassFor cl (gmGoal g) (gmMode g) else gsClass s) in
        g\<lparr>gmClass := c, gmTurnsLimit := (if gsTurnsLimit s > 0 then gsTurnsLimit s else budgetQuota c),
          gmStallLimit := (if gsStallLimit s > 0 then gsStallLimit s else defaultNoProgressLimit),
          gmStall := gsStall s\<rparr>)"

definition tokenPause :: "goalMachine \<Rightarrow> bool" where
  "tokenPause g \<longleftrightarrow> gmGoal g \<noteq> [] \<and> gmStatus g = GoalStatusBlocked \<and> gmStopCause g = stopCauseBudgetTokens"

definition clearTokenPause :: "goalMachine \<Rightarrow> goalMachine" where
  "clearTokenPause g = (if tokenPause g then g\<lparr>gmStatus := GoalStatusRunning, gmStopCause := [], gmBlock := []\<rparr> else g)"

text \<open>\<open>disk\<close> is what reading and parsing a file gives. The result is the state to write back after a migration.\<close>

definition restoreFromState ::
  "goalClassifier \<Rightarrow> bytes \<Rightarrow> (bytes \<Rightarrow> bytes) \<Rightarrow> (bytes \<Rightarrow> goalState option) \<Rightarrow> bytes \<Rightarrow> goalMachine \<Rightarrow> saved \<times> goalMachine" where
  "restoreFromState cl fresh statePath disk sessionPath g =
     (if TrimSpace sessionPath = [] then (None, g)
      else
        let g0 = (if gmPath g = [] then setStatePath (statePath sessionPath) g else g) in
        case disk (statePath sessionPath) of
          None \<Rightarrow> (None, g0)
        | Some s \<Rightarrow>
            let g1 = loadBudget cl s (loadFields fresh s g0);
                g2 = bumpEpoch (clearTokenPause g1)
            in (if gmGoal g1 \<noteq> [] \<and> (tokenPause g1 \<or> gsTokensLimit s \<noteq> 0) then buildStateLocked (gsTodos s) g2 else None, g2))"

definition terminalTodosFromState :: "(bytes \<Rightarrow> bytes) \<Rightarrow> (bytes \<Rightarrow> goalState option) \<Rightarrow> bytes \<Rightarrow> TodoItem list option" where
  "terminalTodosFromState statePath disk sessionPath =
     (if TrimSpace sessionPath = [] then None
      else case disk (statePath sessionPath) of
        None \<Rightarrow> None
      | Some s \<Rightarrow>
          if gsStatus s \<notin> {GoalStatusComplete, GoalStatusBlocked, GoalStatusStopped} \<or> gsTodos s = [] then None
          else Some (gsTodos s))"

section \<open>Reasons and reminders\<close>

definition NL :: bytes where "NL = [CHR 0x0A]"

definition clipGoalReason :: "bytes \<Rightarrow> bytes" where
  "clipGoalReason reason =
     (let r = TrimSpace reason in
      if RuneCount r > 400 then concat (map EncodeRune (take 400 (Runes r))) @ ''...'' else r)"

text \<open>\<open>strings.Trim\<close> with a set of characters, each as its UTF-8 bytes; every round removes a byte at least.\<close>

definition blockCutset :: "bytes list" where
  "blockCutset =
     map (\<lambda>c. [c]) ('' :,.;!?-_[]()'' @ [CHR 0x09, CHR 0x0D, CHR 0x0A]) @
     [[CHR 0xEF, CHR 0xBC, CHR 0x9A], [CHR 0xEF, CHR 0xBC, CHR 0x8C], [CHR 0xE3, CHR 0x80, CHR 0x82],
      [CHR 0xEF, CHR 0xBC, CHR 0x9B], [CHR 0xEF, CHR 0xBC, CHR 0x81], [CHR 0xEF, CHR 0xBC, CHR 0x9F],
      [CHR 0xE2, CHR 0x80, CHR 0x94], [CHR 0xEF, CHR 0xBC, CHR 0x88], [CHR 0xEF, CHR 0xBC, CHR 0x89]]"

primrec cutLeft :: "nat \<Rightarrow> bytes \<Rightarrow> bytes" where
  "cutLeft 0 s = s"
| "cutLeft (Suc n) s = (case find (HasPrefix s) blockCutset of None \<Rightarrow> s | Some q \<Rightarrow> cutLeft n (drop (length q) s))"

primrec cutRight :: "nat \<Rightarrow> bytes \<Rightarrow> bytes" where
  "cutRight 0 s = s"
| "cutRight (Suc n) s =
     (case find (HasSuffix s) blockCutset of None \<Rightarrow> s | Some q \<Rightarrow> cutRight n (take (length s - length q) s))"

definition cleanGoalBlockReason :: "bytes \<Rightarrow> bytes" where
  "cleanGoalBlockReason reason =
     (let s = TrimSpace reason; l = cutLeft (length s) s in cutRight (length l) l)"

definition formatIncompleteTodos :: "TodoItem list \<Rightarrow> bytes \<Rightarrow> bytes" where
  "formatIncompleteTodos todos readiness =
     (let incomplete = (if todos = [] then [] else IncompleteTodos todos);
          listed = (if incomplete = [] then []
                    else [''the following tasks are still incomplete:'' @
                          concat (map (\<lambda>t. NL @ ''  - '' @ mContent t @ '' ('' @ mStatus t @ '')'') incomplete)]);
          parts = listed @ (if readiness = [] then [] else [readiness])
      in if parts = [] then []
         else ''Goal signaled complete but issues remain:'' @ NL @ concat (map (\<lambda>p. ''- '' @ p @ NL) parts) @
              ''Fix or use todo_write/complete_step to mark done, then report complete again via update_goal.'')"

section \<open>One step of the machine\<close>

datatype EvalOutcome = OutcomeComplete | OutcomeContinue | OutcomeBlocked | OutcomeUncertain

record goalTurnReport =
  rpStatus :: bytes
  rpReason :: bytes
  rpNext :: bytes

record goalAdvanceInput =
  aiReport :: "goalTurnReport option"
  aiMissing :: "bytes list"
  aiReason :: bytes
  aiEval :: "(EvalOutcome \<times> bytes) option"
  aiEvalFailed :: bytes
  aiTodos :: "TodoItem list"
  aiBefore :: bytes
  aiAfter :: bytes
  aiEpoch :: "64 word option"

record goalAdvanceResult =
  arNotice :: bytes
  arIntercept :: bytes
  arInterceptNotice :: bytes
  arCont :: bool
  arEpoch :: "64 word"
  arSaved :: saved

definition noAdvance :: goalAdvanceResult where
  "noAdvance = \<lparr>arNotice = [], arIntercept = [], arInterceptNotice = [], arCont = False, arEpoch = 0, arSaved = None\<rparr>"

definition goalCompleteNotice :: bytes where "goalCompleteNotice = ''goal complete''"

definition notReadyNotice :: bytes where
  "notReadyNotice = ''Goal is not ready to complete yet; continuing the remaining work.''"

definition reportIs :: "bytes \<Rightarrow> goalAdvanceInput \<Rightarrow> bool" where
  "reportIs status inp = (case aiReport inp of None \<Rightarrow> False | Some r \<Rightarrow> rpStatus r = status)"

definition evalIs :: "EvalOutcome \<Rightarrow> goalAdvanceInput \<Rightarrow> bool" where
  "evalIs out' inp = (case aiEval inp of None \<Rightarrow> False | Some (v, _) \<Rightarrow> v = out')"

definition reportReason :: "goalAdvanceInput \<Rightarrow> bytes" where
  "reportReason inp = (case aiReport inp of None \<Rightarrow> [] | Some r \<Rightarrow> rpReason r)"

definition evalReason :: "goalAdvanceInput \<Rightarrow> bytes" where
  "evalReason inp = (case aiEval inp of None \<Rightarrow> [] | Some (_, r) \<Rightarrow> r)"

definition completeOK :: "goalAdvanceInput \<Rightarrow> bool" where
  "completeOK inp \<longleftrightarrow>
     (reportIs GoalStatusComplete inp \<or> evalIs OutcomeComplete inp) \<and> formatIncompleteTodos (aiTodos inp) (aiReason inp) = []"

text \<open>The counters a turn moves.\<close>

definition progressed :: "goalAdvanceInput \<Rightarrow> bool" where
  "progressed inp \<longleftrightarrow>
     aiAfter inp \<noteq> aiBefore inp \<or> aiBefore inp = [] \<or>
     (case aiReport inp of None \<Rightarrow> False | Some r \<Rightarrow> rpStatus r \<noteq> GoalStatusRunning)"

definition countTurn :: "goalAdvanceInput \<Rightarrow> goalMachine \<Rightarrow> goalMachine" where
  "countTurn inp g =
     (bumpEpoch g)\<lparr>gmTurns := gmTurns g + 1, gmStall := (if progressed inp then 0 else gmStall g + 1)\<rparr>"

definition blockedBy :: "bytes \<Rightarrow> bytes" where
  "blockedBy reason = (let r = cleanGoalBlockReason reason in if r = [] then ''blocked'' else r)"

definition evaluatorPause :: "goalAdvanceInput \<Rightarrow> bytes" where
  "evaluatorPause inp =
     (if aiEvalFailed inp \<noteq> [] then ''the completion evaluator failed: '' @ aiEvalFailed inp
      else ''the completion evaluator is unavailable or could not judge the turn'')"

definition budgetPause :: "goalMachine \<Rightarrow> bytes" where
  "budgetPause g = ''turn budget exhausted ('' @ show_int (gmTurns g) @ ''/'' @ show_int (gmTurnsLimit g) @ '' turns used)''"

definition stallPause :: "goalMachine \<Rightarrow> bytes" where
  "stallPause g = ''no host-verifiable progress in the last '' @ show_int (gmStall g) @ '' turns''"

text \<open>The default case: \<open>(intercept, notice of the intercept, machine)\<close>.\<close>

definition continueStep :: "goalAdvanceInput \<Rightarrow> goalMachine \<Rightarrow> bytes \<times> bytes \<times> goalMachine" where
  "continueStep inp g =
     (let reminder = formatIncompleteTodos (aiTodos inp) (aiReason inp);
          missing = clipGoalReason (''readiness missing: '' @ aiReason inp)
      in if reportIs GoalStatusComplete inp then (reminder, notReadyNotice, g\<lparr>gmContinueReason := missing\<rparr>)
         else if reportIs GoalStatusRunning inp then
           ((case aiReport inp of None \<Rightarrow> [] | Some r \<Rightarrow> rpNext r), [], g\<lparr>gmContinueReason := clipGoalReason (reportReason inp)\<rparr>)
         else if aiMissing inp \<noteq> [] then (reminder, notReadyNotice, g\<lparr>gmContinueReason := missing\<rparr>)
         else if evalIs OutcomeComplete inp then
           (reminder, notReadyNotice, g\<lparr>gmEvalReason := clipGoalReason (evalReason inp), gmContinueReason := missing\<rparr>)
         else if evalIs OutcomeContinue inp then ([], [], g\<lparr>gmEvalReason := clipGoalReason (evalReason inp)\<rparr>)
         else ([], [], g))"

text \<open>The decision: \<open>(notice, intercept, notice of the intercept, machine)\<close>.\<close>

definition decide :: "goalAdvanceInput \<Rightarrow> goalMachine \<Rightarrow> bytes \<times> bytes \<times> bytes \<times> goalMachine" where
  "decide inp g =
     (if reportIs GoalStatusBlocked inp then
        (''goal blocked: '' @ blockedBy (reportReason inp), [], [],
         g\<lparr>gmStatus := GoalStatusBlocked, gmBlock := blockedBy (reportReason inp), gmStopCause := [],
           gmContinueReason := clipGoalReason (reportReason inp)\<rparr>)
      else if evalIs OutcomeBlocked inp then
        (''goal blocked: '' @ blockedBy (evalReason inp), [], [],
         g\<lparr>gmStatus := GoalStatusBlocked, gmBlock := blockedBy (evalReason inp), gmStopCause := [],
           gmEvalReason := clipGoalReason (evalReason inp)\<rparr>)
      else if completeOK inp then
        (goalCompleteNotice, [], [],
         g\<lparr>gmGoal := [], gmStatus := GoalStatusComplete, gmBlock := [], gmStopCause := [], gmContinueReason := [],
           gmEvalReason := []\<rparr>)
      else if aiEvalFailed inp \<noteq> [] \<or> evalIs OutcomeUncertain inp then
        (''goal paused: '' @ evaluatorPause inp, [], [],
         g\<lparr>gmStatus := GoalStatusBlocked, gmStopCause := stopCauseEvaluator, gmBlock := clipGoalReason (evaluatorPause inp),
           gmEvalReason := clipGoalReason (evaluatorPause inp)\<rparr>)
      else if budgetExhausted g then
        (''goal paused: '' @ budgetPause g, [], [],
         g\<lparr>gmStatus := GoalStatusBlocked, gmStopCause := stopCauseBudgetTurns, gmBlock := clipGoalReason (budgetPause g)\<rparr>)
      else if gmStallLimit g > 0 \<and> gmStall g \<ge> gmStallLimit g then
        (''goal paused: '' @ stallPause g, [], [],
         g\<lparr>gmStatus := GoalStatusBlocked, gmStopCause := stopCauseNoProgress, gmBlock := clipGoalReason (stallPause g)\<rparr>)
      else (case continueStep inp g of (intercept, note', g') \<Rightarrow> ([], intercept, note', g')))"

definition advance :: "goalAdvanceInput \<Rightarrow> goalMachine \<Rightarrow> goalAdvanceResult \<times> goalMachine" where
  "advance inp g =
     (if (case aiEpoch inp of None \<Rightarrow> False | Some e \<Rightarrow> e \<noteq> gmEpoch g) then (noAdvance, g)
      else if \<not> active g then (noAdvance, g)
      else case decide inp (countTurn inp g) of (notice, intercept, inote, g') \<Rightarrow>
        (\<lparr>arNotice = notice, arIntercept = intercept, arInterceptNotice = inote, arCont = (notice = []),
          arEpoch = gmEpoch g', arSaved = (if notice = [] then None else buildStateLocked (aiTodos inp) g')\<rparr>, g'))"

definition acceptContinuation :: "goalAdvanceResult \<Rightarrow> goalMachine \<Rightarrow> bytes option" where
  "acceptContinuation res g =
     (if \<not> arCont res \<or> arEpoch res \<noteq> gmEpoch g \<or> \<not> active g then None else Some (arIntercept res))"

text \<open>The snapshot of a continuation: goal, mode, task, scope.\<close>

definition admitContinuation ::
  "bytes \<Rightarrow> goalAdvanceResult \<Rightarrow> goalMachine \<Rightarrow> (bytes \<times> GoalResearchMode \<times> bytes \<times> bytes) option \<times> goalMachine" where
  "admitContinuation fresh res g =
     (if \<not> arCont res \<or> arEpoch res \<noteq> gmEpoch g \<or> \<not> active g then (None, g)
      else let g1 = (if gmScope g = [] then g\<lparr>gmScope := fresh\<rparr> else g)
           in (Some (gmGoal g1, gmMode g1, gmTask g1, gmScope g1), g1))"

section \<open>The report of a turn\<close>

definition turnActive :: "bytes \<Rightarrow> 64 word \<Rightarrow> goalMachine \<Rightarrow> bool" where
  "turnActive scope epoch g \<longleftrightarrow> active g \<and> gmScope g = scope \<and> gmEpoch g = epoch"

record goalTurnRecorder =
  trScope :: bytes
  trEpoch :: "64 word"
  trRecorded :: bool
  trTerminal :: bool
  trReport :: goalTurnReport
  trTokens :: int
  trBefore :: bytes

definition newTurnRecorder :: "bytes \<Rightarrow> 64 word \<Rightarrow> goalTurnRecorder" where
  "newTurnRecorder scope epoch =
     \<lparr>trScope = scope, trEpoch = epoch, trRecorded = False, trTerminal = False,
      trReport = \<lparr>rpStatus = [], rpReason = [], rpNext = []\<rparr>, trTokens = 0, trBefore = []\<rparr>"

text \<open>The result text of a call; the first three are errors.\<close>

datatype recordResult = GoalChanged | AlreadyFinal bytes bytes | ConflictingReport bytes bytes | IdenticalReport bytes | ReportRecorded bytes

definition RecordGoalReport :: "goalMachine \<Rightarrow> goalTurnReport \<Rightarrow> goalTurnRecorder \<Rightarrow> recordResult \<times> goalTurnRecorder" where
  "RecordGoalReport g report r =
     (let recorded = (ReportRecorded (rpStatus report),
            r\<lparr>trRecorded := True, trReport := report, trTerminal := (trTerminal r \<or> rpStatus report \<noteq> GoalStatusRunning)\<rparr>)
      in if \<not> turnActive (trScope r) (trEpoch r) g then (GoalChanged, r)
         else if trTerminal r then (AlreadyFinal (rpStatus (trReport r)) (rpStatus report), r)
         else if \<not> trRecorded r then recorded
         else if trReport r = report then (IdenticalReport (rpStatus report), r)
         else if rpStatus (trReport r) = GoalStatusRunning \<and> rpStatus report \<in> {GoalStatusComplete, GoalStatusBlocked}
              then recorded
         else (ConflictingReport (rpStatus (trReport r)) (rpStatus report), r))"

definition addUsage :: "int \<Rightarrow> goalTurnRecorder \<Rightarrow> goalMachine \<Rightarrow> goalTurnRecorder \<times> goalMachine" where
  "addUsage tokens r g =
     (if tokens \<le> 0 then (r, g)
      else case foldUsage (trScope r) (trEpoch r) tokens g of (ok, g1) \<Rightarrow>
        (if ok then r\<lparr>trTokens := trTokens r + tokens\<rparr> else r, g1))"

definition validReport :: "64 word \<Rightarrow> goalMachine \<Rightarrow> goalTurnRecorder \<Rightarrow> goalTurnReport option" where
  "validReport expected g r =
     (if \<not> trRecorded r \<or> trEpoch r \<noteq> expected \<or> \<not> turnActive (trScope r) (trEpoch r) g then None else Some (trReport r))"

text \<open>The tool \<open>update_goal\<close>; \<open>args\<close> is its parsed argument, \<^const>\<open>None\<close> a syntax error.\<close>

datatype updateResult = BadGoalArgs | BadGoalStatus bytes | GoalReasonRequired bytes | NoGoalTurn | GoalReported recordResult

definition decodeGoalReport :: "fields \<Rightarrow> goalTurnReport option" where
  "decodeGoalReport fs =
     (case (structField intoString ''status'' fs [], structField intoString ''reason'' fs [],
            structField intoString ''next_action'' fs []) of
        (Some s, Some r, Some n) \<Rightarrow> Some \<lparr>rpStatus = s, rpReason = r, rpNext = n\<rparr>
      | _ \<Rightarrow> None)"

definition cleanReport :: "(nat \<Rightarrow> nat) \<Rightarrow> goalTurnReport \<Rightarrow> goalTurnReport" where
  "cleanReport lr p =
     \<lparr>rpStatus = ToLowerRunes lr (TrimSpace (rpStatus p)), rpReason = TrimSpace (rpReason p), rpNext = TrimSpace (rpNext p)\<rparr>"

definition updateGoal :: "(nat \<Rightarrow> nat) \<Rightarrow> goalMachine \<Rightarrow> json option \<Rightarrow> goalTurnRecorder option \<Rightarrow> updateResult \<times> goalTurnRecorder option" where
  "updateGoal lr g args rec =
     (case Option.bind args (decodeStruct decodeGoalReport) of
        None \<Rightarrow> (BadGoalArgs, rec)
      | Some p0 \<Rightarrow>
          let p = cleanReport lr p0; status = rpStatus p in
          if status \<notin> {''continue'', ''complete'', ''blocked''} then (BadGoalStatus status, rec)
          else if (status = ''continue'' \<or> status = ''blocked'') \<and> rpReason p = [] then (GoalReasonRequired status, rec)
          else (case rec of
              None \<Rightarrow> (NoGoalTurn, None)
            | Some r \<Rightarrow> (case RecordGoalReport g p r of (res, r') \<Rightarrow> (GoalReported res, Some r'))))"

section \<open>The loop\<close>

text \<open>
  What other goroutines do to the machine while the loop is between two of its steps, each operation one
  critical section.
\<close>

datatype goalOp =
    OpSet bytes bytes GoalResearchMode bytes "TodoItem list"
  | OpStrict bool "TodoItem list"
  | OpStop bytes "TodoItem list"
  | OpPause bytes bytes "TodoItem list"
  | OpResume bytes "TodoItem list"
  | OpCheckpoint DeliveryCheckpoint "TodoItem list"
  | OpScope bytes
  | OpRollback goalMachineSnapshot
  | OpReload bytes bytes "goalState option"

fun applyOp :: "goalClassifier \<Rightarrow> goalOp \<Rightarrow> goalMachine \<Rightarrow> goalMachine" where
  "applyOp cl (OpSet fresh goal mode task todos) g = snd (setGoal cl fresh goal mode task todos g)"
| "applyOp cl (OpStrict b todos) g = snd (setStrict b todos g)"
| "applyOp cl (OpStop status todos) g = snd (stopGoal status todos g)"
| "applyOp cl (OpPause cause reason todos) g = snd (pauseFor cause reason todos g)"
| "applyOp cl (OpResume fresh todos) g = snd (resumeGoal cl fresh todos g)"
| "applyOp cl (OpCheckpoint cp todos) g = snd (setDeliveryCheckpoint cp todos g)"
| "applyOp cl (OpScope fresh) g = snd (deliveryScope fresh g)"
| "applyOp cl (OpRollback s) g = restoreGoal s g"
| "applyOp cl (OpReload fresh p disk) g = snd (restoreFromState cl fresh (\<lambda>q. q) (\<lambda>_. disk) p g)"

text \<open>What happens during a turn: operations of others, calls of \<open>update_goal\<close>, usage events.\<close>

datatype turnEvent = Elsewhere goalOp | UpdateGoal "json option" | Usage int

fun turnStep :: "goalClassifier \<Rightarrow> (nat \<Rightarrow> nat) \<Rightarrow> turnEvent \<Rightarrow> goalTurnRecorder \<times> goalMachine \<Rightarrow> goalTurnRecorder \<times> goalMachine" where
  "turnStep cl lr (Elsewhere op) (r, g) = (r, applyOp cl op g)"
| "turnStep cl lr (UpdateGoal args) (r, g) = (case snd (updateGoal lr g args (Some r)) of Some r' \<Rightarrow> (r', g) | None \<Rightarrow> (r, g))"
| "turnStep cl lr (Usage n) (r, g) = addUsage n r g"

datatype turnError = TurnOk | TurnNotReady "bytes list" bytes | TurnFailed | TurnCancelled

datatype evaluation = NoEvaluator | EvaluatorError bytes | Verdict EvalOutcome bytes

text \<open>
  The world of one turn: the operations between its admission and its recorder, what happens during it, how it
  ends, what the executor, the research task and the evaluator say after it, and the operations before its
  continuation is accepted and before it is admitted. \<open>tuSkipped\<close>: a hook ended the turn before it had a
  recorder. The evaluator's usage falls into \<open>tuLate\<close>.
\<close>

record turnWorld =
  tuFresh :: bytes
  tuBefore :: "goalOp list"
  tuSkipped :: bool
  tuEvents :: "turnEvent list"
  tuError :: turnError
  tuReadiness :: "bytes list \<times> bytes"
  tuResearch :: bytes
  tuEval :: evaluation
  tuLate :: "turnEvent list"
  tuTodos :: "TodoItem list"
  tuSigBefore :: bytes
  tuSigAfter :: bytes
  tuCancelled :: bool
  tuAccept :: "goalOp list"
  tuAdmit :: "goalOp list"

definition readinessAfter :: "turnWorld \<Rightarrow> bytes list \<times> bytes" where
  "readinessAfter t =
     (case (case tuError t of TurnNotReady m r \<Rightarrow> (m, r) | _ \<Rightarrow> tuReadiness t) of (missing, reason) \<Rightarrow>
        if tuResearch t = [] then (missing, reason)
        else (missing @ [''autoresearch''], if reason \<noteq> [] then reason @ NL @ tuResearch t else tuResearch t))"

definition advanceGoalAfterTurn ::
  "goalClassifier \<Rightarrow> (nat \<Rightarrow> nat) \<Rightarrow> turnWorld \<Rightarrow> 64 word \<Rightarrow> goalTurnRecorder option \<Rightarrow> goalMachine \<Rightarrow> goalAdvanceResult \<times> goalMachine" where
  "advanceGoalAfterTurn cl lr t expected rec g =
     (case rec of
        None \<Rightarrow> (noAdvance, g)
      | Some r \<Rightarrow>
          if trEpoch r \<noteq> expected \<or> \<not> turnActive (trScope r) (trEpoch r) g \<or> tuError t \<in> {TurnFailed, TurnCancelled}
          then (noAdvance, g)
          else (case readinessAfter t of (missing, reason) \<Rightarrow>
            let report = validReport expected g r;
                asked = (report = None \<and> missing = [] \<and> \<not> budgetExhausted g);
                eval' = (if asked then (case tuEval t of Verdict v why \<Rightarrow> Some (v, why) | _ \<Rightarrow> None) else None);
                failed = (if asked then (case tuEval t of NoEvaluator \<Rightarrow> ''goal evaluator unavailable''
                                         | EvaluatorError e \<Rightarrow> e | Verdict _ _ \<Rightarrow> []) else []);
                (r1, g1) = fold (turnStep cl lr) (tuLate t) (r, g)
            in advance \<lparr>aiReport = report, aiMissing = missing, aiReason = reason, aiEval = eval', aiEvalFailed = failed,
                 aiTodos = tuTodos t, aiBefore = trBefore r1, aiAfter = tuSigAfter t, aiEpoch = Some expected\<rparr> g1))"

text \<open>One turn from its admission: its recorder is bound to the epoch of that moment.\<close>

definition runTurn ::
  "goalClassifier \<Rightarrow> (nat \<Rightarrow> nat) \<Rightarrow> turnWorld \<Rightarrow> bytes option \<Rightarrow> goalMachine \<Rightarrow> goalTurnRecorder option \<times> goalMachine" where
  "runTurn cl lr t scope g =
     (let g1 = fold (applyOp cl) (tuBefore t) g in
      if tuSkipped t then (None, g1)
      else
        let (bound, g2) = (case scope of Some s \<Rightarrow> (Some s, g1)
                           | None \<Rightarrow> (case deliveryScope (tuFresh t) g1 of (sc, g2) \<Rightarrow> (map_option fst sc, g2)))
        in case bound of
             None \<Rightarrow> (None, fold (\<lambda>e g. case e of Elsewhere op \<Rightarrow> applyOp cl op g | _ \<Rightarrow> g) (tuEvents t) g2)
           | Some s \<Rightarrow>
               (case fold (turnStep cl lr) (tuEvents t) ((newTurnRecorder s (continuationToken g2))\<lparr>trBefore := tuSigBefore t\<rparr>, g2)
                of (r, g3) \<Rightarrow> (Some r, g3)))"

datatype loopEnd = LoopReturned | LoopCancelled | LoopFailed

text \<open>\<open>continueGoal\<close>: \<open>env i\<close> is the world of the \<open>i\<close>th turn, and the turn \<open>i\<close> has run.\<close>

partial_function (option) continueGoal ::
  "goalClassifier \<Rightarrow> (nat \<Rightarrow> nat) \<Rightarrow> (nat \<Rightarrow> turnWorld) \<Rightarrow> nat \<Rightarrow> 64 word \<Rightarrow> goalTurnRecorder option \<Rightarrow> goalMachine \<Rightarrow>
   (loopEnd \<times> nat \<times> goalMachine) option" where
  "continueGoal cl lr env i expected rec g =
     (case advanceGoalAfterTurn cl lr (env i) expected rec g of (res, g1) \<Rightarrow>
        if \<not> arCont res then Some (LoopReturned, i, g1)
        else if tuCancelled (env i) then Some (LoopCancelled, i, snd (stopGoal GoalStatusStopped (tuTodos (env i)) g1))
        else let g2 = fold (applyOp cl) (tuAccept (env i)) g1 in
        if acceptContinuation res g2 = None then Some (LoopReturned, i, g2)
        else let g3 = fold (applyOp cl) (tuAdmit (env i)) g2 in
        (case admitContinuation (tuFresh (env i)) res g3 of
           (None, g4) \<Rightarrow> Some (LoopReturned, i, g4)
         | (Some snap, g4) \<Rightarrow>
             (case runTurn cl lr (env (i + 1)) (Some (snd (snd (snd snap)))) g4 of (rec', g5) \<Rightarrow>
                if tuError (env (i + 1)) = TurnCancelled
                then Some (LoopCancelled, i + 1, snd (stopGoal GoalStatusStopped (tuTodos (env (i + 1))) g5))
                else if tuError (env (i + 1)) = TurnFailed then Some (LoopFailed, i + 1, g5)
                else continueGoal cl lr env (i + 1) (arEpoch res) rec' g5)))"

text \<open>\<open>runGoalLoopWithRawDisplay\<close>: the turn of a user message, and then the loop.\<close>

definition runGoalLoop ::
  "goalClassifier \<Rightarrow> (nat \<Rightarrow> nat) \<Rightarrow> (nat \<Rightarrow> turnWorld) \<Rightarrow> goalMachine \<Rightarrow> (loopEnd \<times> nat \<times> goalMachine) option" where
  "runGoalLoop cl lr env g =
     (case runTurn cl lr (env 0) None g of (rec, g1) \<Rightarrow>
        if tuError (env 0) = TurnCancelled then Some (LoopCancelled, 0, snd (stopGoal GoalStatusStopped (tuTodos (env 0)) g1))
        else if tuError (env 0) = TurnFailed then Some (LoopFailed, 0, g1)
        else if (case tuError (env 0) of TurnNotReady _ _ \<Rightarrow> \<not> active g1 | _ \<Rightarrow> False) then Some (LoopFailed, 0, g1)
        else continueGoal cl lr env 0 (continuationToken g) rec g1)"

section \<open>What the operations do to a run in progress\<close>

definition lifecycle :: "goalMachine \<Rightarrow> int \<times> int \<times> bytes \<times> bytes" where
  "lifecycle g = (gmTurns g, gmTurnsLimit g, gmGoal g, gmStatus g)"

text \<open>After \<open>n\<close> lifecycle operations: the epoch has moved by \<open>n\<close>, and nothing of the run has changed if there
  was none.\<close>

definition moved :: "nat \<Rightarrow> goalMachine \<Rightarrow> goalMachine \<Rightarrow> bool" where
  "moved n g g' \<longleftrightarrow> gmEpoch g' = gmEpoch g + of_nat n \<and> (n = 0 \<longrightarrow> lifecycle g' = lifecycle g)"

lemma moved_refl: "moved 0 g g" by (simp add: moved_def)

lemma moved_trans: "moved m g h \<Longrightarrow> moved n h k \<Longrightarrow> moved (m + n) g k" by (simp add: moved_def)

lemma moved_same:
  assumes "moved n g g'" and "n < 2 ^ 64" and "gmEpoch g' = gmEpoch g"
  shows "lifecycle g' = lifecycle g"
proof -
  have "(of_nat n :: 64 word) = 0" using assms(1,3) by (simp add: moved_def)
  then have "2 ^ 64 dvd n" by (simp add: word_of_nat_eq_0_iff)
  then have "n = 0" using assms(2) nat_dvd_not_less by blast
  then show ?thesis using assms(1) by (simp add: moved_def)
qed

lemma moved_bump: "gmEpoch g' = gmEpoch g + 1 \<Longrightarrow> \<exists>n \<le> Suc 0. moved n g g'"
  by (intro exI [of _ 1]) (simp add: moved_def)

lemma moved_still: "gmEpoch g' = gmEpoch g \<Longrightarrow> lifecycle g' = lifecycle g \<Longrightarrow> \<exists>n \<le> Suc 0. moved n g g'"
  by (intro exI [of _ 0]) (simp add: moved_def)

lemma load_epoch [simp]:
  "gmEpoch (loadFields fresh s g) = gmEpoch g" "gmEpoch (loadBudget cl s g) = gmEpoch g" "gmEpoch (clearTokenPause g) = gmEpoch g"
  by (simp_all add: loadFields_def loadBudget_def clearTokenPause_def Let_def)

lemma restoreFromState_moved: "\<exists>n \<le> Suc 0. moved n g (snd (restoreFromState cl fresh sp disk p g))"
proof (cases "TrimSpace p = [] \<or> disk (sp p) = None")
  case True
  then show ?thesis
    by (intro moved_still) (auto simp: restoreFromState_def setStatePath_def lifecycle_def Let_def split: option.split)
next
  case False
  then obtain s where "disk (sp p) = Some s" "TrimSpace p \<noteq> []" by auto
  then show ?thesis
    by (intro moved_bump) (simp add: restoreFromState_def setStatePath_def bumpEpoch_def Let_def)
qed

lemma applyOp_moved: "\<exists>n \<le> Suc 0. moved n g (applyOp cl op g)"
proof (cases op)
  case (OpSet fresh goal mode task todos)
  then show ?thesis by (auto simp: setGoal_def bumpEpoch_def Let_def intro: moved_bump moved_still)
next
  case (OpStrict b todos)
  then show ?thesis by (auto simp: setStrict_def lifecycle_def Let_def intro!: moved_still)
next
  case (OpStop status todos)
  then show ?thesis by (auto simp: stopGoal_def bumpEpoch_def Let_def intro!: moved_bump)
next
  case (OpPause cause reason todos)
  then show ?thesis by (auto simp: pauseFor_def bumpEpoch_def Let_def intro!: moved_bump)
next
  case (OpResume fresh todos)
  then show ?thesis by (auto simp: resumeGoal_def bumpEpoch_def Let_def intro: moved_bump moved_still)
next
  case (OpCheckpoint cp todos)
  then show ?thesis by (auto simp: setDeliveryCheckpoint_def lifecycle_def Let_def intro!: moved_still)
next
  case (OpScope fresh)
  then show ?thesis by (auto simp: deliveryScope_def lifecycle_def Let_def intro!: moved_still)
next
  case (OpRollback s)
  then show ?thesis by (auto simp: restoreGoal_def bumpEpoch_def intro!: moved_bump)
next
  case (OpReload fresh p disk)
  then show ?thesis using restoreFromState_moved by simp
qed

lemma applyOps_moved: "\<exists>n \<le> length ops. moved n g (fold (applyOp cl) ops g)"
proof (induction ops arbitrary: g)
  case Nil
  then show ?case by (simp add: moved_refl)
next
  case (Cons op ops)
  obtain m where m: "m \<le> Suc 0" "moved m g (applyOp cl op g)" using applyOp_moved by blast
  obtain n where n: "n \<le> length ops" "moved n (applyOp cl op g) (fold (applyOp cl) ops (applyOp cl op g))" using Cons.IH by blast
  show ?case using m(1) n(1) moved_trans [OF m(2) n(2)] by (intro exI [of _ "m + n"]) simp
qed

lemma record_epoch: "trEpoch (snd (RecordGoalReport g rp r)) = trEpoch r"
  by (simp add: RecordGoalReport_def Let_def)

lemma updateGoal_recorder:
  "\<exists>r'. snd (updateGoal lr g args (Some r)) = Some r' \<and> (r' = r \<or> (\<exists>rp. r' = snd (RecordGoalReport g rp r)))"
proof (cases "Option.bind args (decodeStruct decodeGoalReport)")
  case None
  then show ?thesis by (simp add: updateGoal_def)
next
  case (Some p)
  let ?rp = "cleanReport lr p"
  obtain res r' where e: "RecordGoalReport g ?rp r = (res, r')" by fastforce
  have "snd (updateGoal lr g args (Some r)) = Some r \<or> snd (updateGoal lr g args (Some r)) = Some r'"
    by (simp add: updateGoal_def Some Let_def e)
  moreover have "r' = snd (RecordGoalReport g ?rp r)" by (simp add: e)
  ultimately show ?thesis by blast
qed

lemma turnStep_moved: "\<exists>n \<le> Suc 0. moved n (snd s) (snd (turnStep cl lr e s)) \<and> trEpoch (fst (turnStep cl lr e s)) = trEpoch (fst s)"
proof -
  obtain r g where s: "s = (r, g)" by fastforce
  show ?thesis
  proof (cases e)
    case (Elsewhere op)
    then show ?thesis using applyOp_moved [of g cl op] s by auto
  next
    case (UpdateGoal args)
    have "trEpoch (fst (turnStep cl lr e s)) = trEpoch r"
      using updateGoal_recorder [of lr g args r] by (auto simp: s UpdateGoal record_epoch)
    moreover have "snd (turnStep cl lr e s) = g" by (auto simp: s UpdateGoal split: option.split)
    ultimately show ?thesis using s moved_refl by auto
  next
    case (Usage n)
    then show ?thesis
      by (auto simp: s addUsage_def foldUsage_def moved_def lifecycle_def intro!: exI [of _ 0])
  qed
qed

lemma turnSteps_moved:
  "\<exists>n \<le> length es. moved n (snd s) (snd (fold (turnStep cl lr) es s)) \<and>
     trEpoch (fst (fold (turnStep cl lr) es s)) = trEpoch (fst s)"
proof (induction es arbitrary: s)
  case Nil
  then show ?case by (simp add: moved_refl)
next
  case (Cons e es)
  obtain m where m: "m \<le> Suc 0" "moved m (snd s) (snd (turnStep cl lr e s))" "trEpoch (fst (turnStep cl lr e s)) = trEpoch (fst s)"
    using turnStep_moved by blast
  obtain n where n: "n \<le> length es" "moved n (snd (turnStep cl lr e s)) (snd (fold (turnStep cl lr) es (turnStep cl lr e s)))"
    "trEpoch (fst (fold (turnStep cl lr) es (turnStep cl lr e s))) = trEpoch (fst (turnStep cl lr e s))" using Cons.IH by blast
  show ?case using m(1,3) n(1,3) moved_trans [OF m(2) n(2)] by (intro exI [of _ "m + n"]) simp
qed

section \<open>The loop ends\<close>

lemma continueStep_same:
  assumes "continueStep inp g = (i, n, g')"
  shows "lifecycle g' = lifecycle g" and "gmEpoch g' = gmEpoch g"
  using assms by (auto simp: continueStep_def lifecycle_def Let_def split: if_splits)

lemma decide_continue:
  assumes "decide inp g = ([], i, n, g')"
  shows "\<not> budgetExhausted g" and "continueStep inp g = (i, n, g')"
  using assms by (auto simp: decide_def goalCompleteNotice_def split: if_splits prod.splits)

lemma active_lifecycle: "lifecycle g = lifecycle h \<Longrightarrow> active g = active h"
  by (simp add: active_def lifecycle_def)

lemma lifecycle_count: "lifecycle (countTurn inp g) = (gmTurns g + 1, gmTurnsLimit g, gmGoal g, gmStatus g)"
  by (simp add: countTurn_def bumpEpoch_def lifecycle_def)

lemma advance_cont:
  assumes "advance inp g = (res, g')" and "arCont res"
  shows "active g" and "aiEpoch inp = Some e \<Longrightarrow> gmEpoch g = e" and "lifecycle g' = (gmTurns g + 1, gmTurnsLimit g, gmGoal g, gmStatus g)"
    and "gmTurnsLimit g > 0 \<Longrightarrow> gmTurns g + 1 < gmTurnsLimit g" and "arEpoch res = gmEpoch g'" and "gmEpoch g' = gmEpoch g + 1"
proof -
  obtain notice i n h where d: "decide inp (countTurn inp g) = (notice, i, n, h)" by (metis prod.exhaust)
  have a: "active g" and ep: "\<not> (case aiEpoch inp of None \<Rightarrow> False | Some e \<Rightarrow> e \<noteq> gmEpoch g)"
    and r: "notice = []" "h = g'" "arEpoch res = gmEpoch g'"
    using assms d by (auto simp: advance_def noAdvance_def split: if_splits)
  show "active g" "arEpoch res = gmEpoch g'" using a r by simp_all
  show "aiEpoch inp = Some e \<Longrightarrow> gmEpoch g = e" using ep by simp
  note c = decide_continue [OF d [unfolded r(1)]]
  note k = continueStep_same [OF c(2)]
  show "lifecycle g' = (gmTurns g + 1, gmTurnsLimit g, gmGoal g, gmStatus g)" using k(1) r(2) lifecycle_count by simp
  show "gmEpoch g' = gmEpoch g + 1" using k(2) r(2) by (simp add: countTurn_def bumpEpoch_def)
  show "gmTurnsLimit g > 0 \<Longrightarrow> gmTurns g + 1 < gmTurnsLimit g"
    using c(1) by (simp add: budgetExhausted_def countTurn_def bumpEpoch_def)
qed

text \<open>A turn whose world holds fewer lifecycle operations than the epoch has values.\<close>

definition busy :: "turnWorld \<Rightarrow> nat" where
  "busy t = length (tuBefore t) + length (tuEvents t) + length (tuLate t) + length (tuAccept t) + length (tuAdmit t)"

lemma advanceAfter_cont:
  assumes "advanceGoalAfterTurn cl lr t expected rec g = (res, g')" and "arCont res" and "length (tuLate t) < 2 ^ 64"
  shows "gmEpoch g = expected" and "lifecycle g' = (gmTurns g + 1, gmTurnsLimit g, gmGoal g, gmStatus g)"
    and "gmTurnsLimit g > 0 \<Longrightarrow> gmTurns g + 1 < gmTurnsLimit g" and "arEpoch res = gmEpoch g'"
proof -
  obtain r where r: "rec = Some r" "trEpoch r = expected" "turnActive (trScope r) (trEpoch r) g"
    using assms(1,2) by (auto simp: advanceGoalAfterTurn_def noAdvance_def split: option.splits if_splits)
  obtain r1 g1 where f: "fold (turnStep cl lr) (tuLate t) (r, g) = (r1, g1)" by fastforce
  obtain inp where a: "advance inp g1 = (res, g')" and e: "aiEpoch inp = Some expected"
    using assms(1,2) r f
    by (auto simp: advanceGoalAfterTurn_def noAdvance_def Let_def split: prod.splits if_splits)
  show eg: "gmEpoch g = expected" using r by (simp add: turnActive_def)
  note c = advance_cont [OF a assms(2)]
  obtain n where n: "n \<le> length (tuLate t)" "moved n g g1" using turnSteps_moved [of "tuLate t" "(r, g)" cl lr] f by auto
  have "lifecycle g1 = lifecycle g" using moved_same [OF n(2)] n(1) assms(3) c(2) [OF e] eg by simp
  then show "lifecycle g' = (gmTurns g + 1, gmTurnsLimit g, gmGoal g, gmStatus g)"
    "gmTurnsLimit g > 0 \<Longrightarrow> gmTurns g + 1 < gmTurnsLimit g" "arEpoch res = gmEpoch g'"
    using c by (auto simp: lifecycle_def)
qed

lemma deliveryScope_moved: "moved 0 g (snd (deliveryScope fresh g))"
  by (simp add: deliveryScope_def moved_def lifecycle_def Let_def)

lemma elsewhere_moved:
  "\<exists>n \<le> length es. moved n g (fold (\<lambda>e g. case e of Elsewhere op \<Rightarrow> applyOp cl op g | _ \<Rightarrow> g) es g)"
proof (induction es arbitrary: g)
  case Nil
  then show ?case by (simp add: moved_refl)
next
  case (Cons e es)
  let ?f = "\<lambda>e g. case e of Elsewhere op \<Rightarrow> applyOp cl op g | _ \<Rightarrow> g"
  have "\<exists>m \<le> Suc 0. moved m g (?f e g)" using applyOp_moved by (cases e) (auto intro: exI [of _ 0] simp: moved_refl)
  then obtain m where m: "m \<le> Suc 0" "moved m g (?f e g)" by blast
  obtain n where n: "n \<le> length es" "moved n (?f e g) (fold ?f es (?f e g))" using Cons.IH by blast
  show ?case using m(1) n(1) moved_trans [OF m(2) n(2)] by (intro exI [of _ "m + n"]) simp
qed

lemma runTurn_moved:
  "\<exists>n \<le> length (tuBefore t) + length (tuEvents t). moved n g (snd (runTurn cl lr t scope g))"
proof -
  let ?g1 = "fold (applyOp cl) (tuBefore t) g"
  let ?g2 = "case scope of Some s \<Rightarrow> ?g1 | None \<Rightarrow> snd (deliveryScope (tuFresh t) ?g1)"
  obtain m where m: "m \<le> length (tuBefore t)" "moved m g ?g1" using applyOps_moved by blast
  have z: "moved 0 ?g1 ?g2" by (cases scope) (simp_all add: moved_refl deliveryScope_moved)
  have "snd (runTurn cl lr t scope g) = ?g1 \<or>
    (\<exists>r. snd (runTurn cl lr t scope g) = snd (fold (turnStep cl lr) (tuEvents t) (r, ?g2))) \<or>
    snd (runTurn cl lr t scope g) = fold (\<lambda>e g. case e of Elsewhere op \<Rightarrow> applyOp cl op g | _ \<Rightarrow> g) (tuEvents t) ?g2"
    by (cases scope) (auto simp: runTurn_def Let_def split: prod.split option.split, (metis snd_conv)+)
  then have "\<exists>n \<le> length (tuEvents t). moved n ?g1 (snd (runTurn cl lr t scope g)) \<or> moved n ?g2 (snd (runTurn cl lr t scope g))"
    using turnSteps_moved [of "tuEvents t" "(_, ?g2)" cl lr] elsewhere_moved [of "tuEvents t" ?g2 cl] moved_refl by fastforce
  then obtain n where n: "n \<le> length (tuEvents t)" "moved n ?g1 (snd (runTurn cl lr t scope g))"
    using moved_trans [OF z] by auto
  show ?thesis using m(1) n(1) moved_trans [OF m(2) n(2)] by (intro exI [of _ "m + n"]) simp
qed

lemma admit_same: "gmEpoch (snd (admitContinuation fresh res g)) = gmEpoch g" "lifecycle (snd (admitContinuation fresh res g)) = lifecycle g"
  by (simp_all add: admitContinuation_def lifecycle_def Let_def)

text \<open>Turns a run may still take after the next decision.\<close>

definition turnsLeft :: "goalMachine \<Rightarrow> nat" where
  "turnsLeft g = nat (gmTurnsLimit g - gmTurns g - 1)"

lemma continueGoal_returns:
  assumes "\<forall>t. busy (env t) < 2 ^ 62" and "gmEpoch g = expected \<Longrightarrow> gmTurnsLimit g > 0 \<and> turnsLeft g \<le> k"
  shows "\<exists>e j h. continueGoal cl lr env i expected rec g = Some (e, j, h) \<and> j \<le> i + k"
  using assms(2)
proof (induction k arbitrary: i expected rec g)
  case (0 i expected rec g)
  obtain res g1 where a: "advanceGoalAfterTurn cl lr (env i) expected rec g = (res, g1)" by fastforce
  have "length (tuLate (env i)) < 2 ^ 64" using assms(1) [rule_format, of i] by (simp add: busy_def)
  then have "\<not> arCont res"
    using advanceAfter_cont [OF a] 0 by (force simp: turnsLeft_def)
  then show ?case by (subst continueGoal.simps) (simp add: a)
next
  case (Suc k i expected rec g)
  obtain res g1 where a: "advanceGoalAfterTurn cl lr (env i) expected rec g = (res, g1)" by fastforce
  have late: "length (tuLate (env i)) < 2 ^ 64" using assms(1) [rule_format, of i] by (simp add: busy_def)
  let ?g2 = "fold (applyOp cl) (tuAccept (env i)) g1"
  let ?g3 = "fold (applyOp cl) (tuAdmit (env i)) ?g2"
  obtain snap g4 where d: "admitContinuation (tuFresh (env i)) res ?g3 = (snap, g4)" by fastforce
  obtain rec' g5 where t: "runTurn cl lr (env (i + 1)) (Some (snd (snd (snd (the snap))))) g4 = (rec', g5)" by fastforce
  have next': "\<exists>e j h. continueGoal cl lr env (i + 1) (arEpoch res) rec' g5 = Some (e, j, h) \<and> j \<le> i + 1 + k" if cont: "arCont res"
  proof (rule Suc.IH)
    assume e5: "gmEpoch g5 = arEpoch res"
    note c = advanceAfter_cont [OF a cont late]
    obtain n1 where n1: "n1 \<le> length (tuAccept (env i))" "moved n1 g1 ?g2" using applyOps_moved by blast
    obtain n2 where n2: "n2 \<le> length (tuAdmit (env i))" "moved n2 ?g2 ?g3" using applyOps_moved by blast
    have m4: "moved 0 ?g3 g4" using admit_same [of "tuFresh (env i)" res ?g3] d by (simp add: moved_def)
    obtain n5 where n5: "n5 \<le> length (tuBefore (env (i + 1))) + length (tuEvents (env (i + 1)))" "moved n5 g4 g5"
      using runTurn_moved [of "env (i + 1)" g4 cl lr "Some (snd (snd (snd (the snap))))"] t by auto
    have "moved (n1 + n2 + 0 + n5) g1 g5"
      using moved_trans [OF moved_trans [OF moved_trans [OF n1(2) n2(2)] m4] n5(2)] .
    moreover have "n1 + n2 + 0 + n5 < 2 ^ 64"
      using n1(1) n2(1) n5(1) assms(1) [rule_format, of i] assms(1) [rule_format, of "i + 1"] by (simp add: busy_def)
    ultimately have "lifecycle g5 = lifecycle g1" using moved_same e5 c(4) by simp
    then have "gmTurns g5 = gmTurns g + 1" "gmTurnsLimit g5 = gmTurnsLimit g" using c(2) by (simp_all add: lifecycle_def)
    moreover have "gmTurnsLimit g > 0" "turnsLeft g \<le> Suc k" "gmTurns g + 1 < gmTurnsLimit g"
      using Suc.prems c(1,3) by simp_all
    ultimately show "gmTurnsLimit g5 > 0 \<and> turnsLeft g5 \<le> k" by (simp add: turnsLeft_def)
  qed
  show ?case
  proof (cases "arCont res \<and> \<not> tuCancelled (env i) \<and> acceptContinuation res ?g2 \<noteq> None \<and> snap \<noteq> None \<and>
      tuError (env (i + 1)) \<notin> {TurnCancelled, TurnFailed}")
    case True
    then obtain sn where "snap = Some sn" by blast
    then have "continueGoal cl lr env i expected rec g = continueGoal cl lr env (i + 1) (arEpoch res) rec' g5"
      using True d t by (subst continueGoal.simps) (auto simp: a Let_def)
    then show ?thesis using next' True by auto
  next
    case False
    then show ?thesis using d t
      by (subst continueGoal.simps) (auto simp: a Let_def split: option.split)
  qed
qed

text \<open>C7. 
  The loop of a goal returns, whatever the model, the evaluator and the user do meanwhile: the loop a user
  message starts ends after at most as many further turns as its turn budget has left. Operations of others
  (a new goal, a pause, a resume that extends the budget, a reload) end the loop instead of extending it,
  because each of them moves the epoch; they are fewer than the epoch has values.
\<close>

theorem goal_loop_returns:
  assumes "\<forall>t. busy (env t) < 2 ^ 62" and "gmTurnsLimit g > 0"
  shows "\<exists>e j h. runGoalLoop cl lr env g = Some (e, j, h) \<and> int j \<le> max 0 (gmTurnsLimit g - gmTurns g - 1)"
proof -
  obtain rec g1 where t: "runTurn cl lr (env 0) None g = (rec, g1)" by fastforce
  obtain n where n: "n \<le> length (tuBefore (env 0)) + length (tuEvents (env 0))" "moved n g g1"
    using runTurn_moved [of "env 0" g cl lr None] t by auto
  have "n < 2 ^ 64" using n(1) assms(1) [rule_format, of 0] by (simp add: busy_def)
  then have "gmTurnsLimit g1 > 0 \<and> turnsLeft g1 \<le> turnsLeft g" if "gmEpoch g1 = continuationToken g"
    using moved_same [OF n(2)] that assms(2) by (simp add: lifecycle_def turnsLeft_def continuationToken_def)
  then have "\<exists>e j h. continueGoal cl lr env 0 (continuationToken g) rec g1 = Some (e, j, h) \<and> j \<le> 0 + turnsLeft g"
    by (rule continueGoal_returns [OF assms(1)])
  then obtain e j h where c: "continueGoal cl lr env 0 (continuationToken g) rec g1 = Some (e, j, h)" "j \<le> turnsLeft g"
    by auto
  have "int j \<le> max 0 (gmTurnsLimit g - gmTurns g - 1)" using c(2) by (simp add: turnsLeft_def)
  then show ?thesis using c(1) by (auto simp: runGoalLoop_def t)
qed

section \<open>Completion\<close>

lemma formatIncompleteTodos_none:
  "formatIncompleteTodos todos reason = [] \<longleftrightarrow> (todos = [] \<or> IncompleteTodos todos = []) \<and> reason = []"
  by (auto simp: formatIncompleteTodos_def Let_def NL_def)

lemma decide_complete:
  assumes "decide inp g = (notice, i, n, g')" and "gmStatus g' = GoalStatusComplete" and "gmStatus g = GoalStatusRunning"
  shows "completeOK inp \<and> \<not> reportIs GoalStatusBlocked inp \<and> \<not> evalIs OutcomeBlocked inp"
proof (rule ccontr)
  assume c: "\<not> ?thesis"
  then have "gmStatus g' = GoalStatusBlocked \<or> continueStep inp g = (i, n, g')"
    using assms(1) by (auto simp: decide_def split: if_splits prod.splits)
  then show False
    using assms(2,3) continueStep_same(1) [of inp g i n g']
    by (auto simp: lifecycle_def GoalStatusComplete_def GoalStatusBlocked_def GoalStatusRunning_def)
qed

text \<open>C8. 
  A completed goal is proven. The machine completes a running goal only on a claim, of the model or of the
  evaluator, that nobody contradicts, with no task of the list open and no reason left by the gate. So when the
  reason is that of the gate of a delivery agent with a change in its ledger (and no loop-guard pass armed after
  it), the last change has a run, a later sign-off that cites a verification this run matches, and an
  inspection in between.
\<close>

theorem completed_goal_is_proven:
  assumes "advance inp g = (res, g')" and "gmStatus g' = GoalStatusComplete" and "gmStatus g \<noteq> GoalStatusComplete"
    and "aiReason inp = [] \<longrightarrow> frReason (fst (finalReadinessCheckFor ev a)) = []"
    and "delivering a l" and "LatestSuccessfulMutationIndex l = Some m" and "agGuardArmed a \<longrightarrow> agGuardMark a \<le> int m"
  shows "(reportIs GoalStatusComplete inp \<or> evalIs OutcomeComplete inp) \<and>
    \<not> reportIs GoalStatusBlocked inp \<and> \<not> evalIs OutcomeBlocked inp \<and>
    (aiTodos inp = [] \<or> IncompleteTodos (aiTodos inp) = []) \<and> (\<exists>j i c. signedOffRun ev l m j i c)"
proof -
  obtain notice i n h where d: "decide inp (countTurn inp g) = (notice, i, n, h)" by (metis prod.exhaust)
  have "active g" "h = g'" using assms(1-3) d by (auto simp: advance_def split: if_splits)
  then have "gmStatus (countTurn inp g) = GoalStatusRunning" by (simp add: active_def countTurn_def bumpEpoch_def)
  from decide_complete [OF d _ this] \<open>h = g'\<close> assms(2)
  have c: "completeOK inp" "\<not> reportIs GoalStatusBlocked inp" "\<not> evalIs OutcomeBlocked inp" by auto
  then have r: "aiReason inp = []" "aiTodos inp = [] \<or> IncompleteTodos (aiTodos inp) = []"
    by (auto simp: completeOK_def formatIncompleteTodos_none)
  have e: "agEvidence a = Some l" "agDelivery a" using assms(5) by (simp_all add: delivering_def)
  have b: "baseline a l = (Some (int m), True)" using assms(6) e by (simp add: baseline_def)
  have "frReason (fst (finalReadinessCheckFor ev a)) = []" using assms(4) r by simp
  from ready_proven [OF assms(5) b this armed_pass_expires [OF assms(6) e(1) assms(7)]]
  have "\<exists>j i c. signedOffRun ev l m j i c" using signoff_run by blast
  then show ?thesis using c r by (auto simp: completeOK_def)
qed

section \<open>The report \<open>continue\<close>\<close>

lemma decide_intercept:
  assumes "decide inp g = ([], i, n, g')" and "\<not> reportIs GoalStatusRunning inp"
  shows "i = [] \<or> i = formatIncompleteTodos (aiTodos inp) (aiReason inp)" and "gmStall g' = gmStall g"
  using decide_continue(2) [OF assms(1)] assms(2) by (auto simp: continueStep_def Let_def split: if_splits)

lemma RecordGoalReport_terminal: "trTerminal r \<Longrightarrow> snd (RecordGoalReport g rp r) = r"
  by (simp add: RecordGoalReport_def Let_def)

lemma continue_recorded:
  assumes "updateGoal lr g args (Some r) = (GoalReported (ReportRecorded ''continue''), Some r')"
  shows "trTerminal r'" and "rpStatus (trReport r') = ''continue''"
proof -
  obtain p where p: "Option.bind args (decodeStruct decodeGoalReport) = Some p"
    using assms by (auto simp: updateGoal_def split: option.splits)
  obtain res q where e: "RecordGoalReport g (cleanReport lr p) r = (res, q)" by fastforce
  have "res = ReportRecorded ''continue''" "q = r'"
    using assms by (auto simp: updateGoal_def p e Let_def split: if_splits)
  with e show "trTerminal r'" "rpStatus (trReport r') = ''continue''"
    by (auto simp: RecordGoalReport_def Let_def GoalStatusRunning_def GoalStatusComplete_def GoalStatusBlocked_def split: if_splits)
qed

text \<open>C36. 
  The report \<open>continue\<close> is not understood. The tool passes the word \<open>continue\<close> on, the recorder and the machine
  expect \<open>running\<close>. So once \<open>update_goal\<close> has accepted \<open>continue\<close>, no further call of the turn is recorded (not
  even \<open>complete\<close>), the turn counts as progress whatever the evidence says, and the next action of the report
  does not become the prompt of the next turn.
\<close>

theorem continue_report_misread:
  assumes "updateGoal lr g args (Some r) = (GoalReported (ReportRecorded ''continue''), Some r')"
    and "aiReport inp = Some (trReport r')" and "advance inp h = (res, h')" and "arCont res"
  shows "snd (updateGoal lr g' args' (Some r')) = Some r' \<and> gmStall h' = 0 \<and>
    (arIntercept res = [] \<or> arIntercept res = formatIncompleteTodos (aiTodos inp) (aiReason inp))"
proof -
  note c = continue_recorded [OF assms(1)]
  have "snd (updateGoal lr g' args' (Some r')) = Some r'"
    using updateGoal_recorder [of lr g' args' r'] RecordGoalReport_terminal [OF c(1)] by auto
  moreover obtain notice i n k where d: "decide inp (countTurn inp h) = (notice, i, n, k)" by (metis prod.exhaust)
  have v: "notice = []" "arIntercept res = i" "h' = k"
    using assms(3,4) d by (auto simp: advance_def noAdvance_def split: if_splits)
  have "progressed inp" "\<not> reportIs GoalStatusRunning inp"
    using assms(2) c(2) by (simp_all add: progressed_def reportIs_def GoalStatusRunning_def)
  then have "gmStall (countTurn inp h) = 0" "\<not> reportIs GoalStatusRunning inp" by (simp_all add: countTurn_def)
  with decide_intercept [OF d [unfolded v(1)]] v have "gmStall h' = 0"
    "arIntercept res = [] \<or> arIntercept res = formatIncompleteTodos (aiTodos inp) (aiReason inp)" by auto
  ultimately show ?thesis by blast
qed

section \<open>A failed update\<close>

text \<open>
  \<open>SetGoalDurable\<close> of \<open>control/controller.go\<close>: the identifier and the obstacle of the research task, and whether
  the sidecar can be written, are arguments. The first result is the absence of an error.
\<close>

definition SetGoalDurable ::
  "goalClassifier \<Rightarrow> bytes \<Rightarrow> bytes \<Rightarrow> bytes \<Rightarrow> bytes \<Rightarrow> bool \<Rightarrow> TodoItem list \<Rightarrow> goalMachine \<Rightarrow> bool \<times> goalMachine" where
  "SetGoalDurable cl fresh goal task blockReason writeOk todos g =
     (let snapshot = captureGoal g;
          (saved1, g1) = setGoal cl fresh goal GoalResearchAuto task todos g;
          (saved2, g2) = (if blockReason \<noteq> [] then stopGoal GoalStatusBlocked todos g1 else (saved1, g1))
      in if saved2 \<noteq> None \<and> \<not> writeOk then (False, restoreGoal snapshot g2) else (True, g2))"

text \<open>
  A failed update is not undone. When the sidecar of a new goal cannot be written, goal, status and scope of the
  old goal come back, but its turns and its stop cause are gone and its limit is that of the goal that was
  refused: the budget of the old goal starts again, and a pause looks like a block.
\<close>

theorem failed_update_resets_budget:
  assumes "SetGoalDurable cl fresh goal task [] False todos g = (False, g')" and "TrimSpace goal \<noteq> []"
  shows "captureGoal g' = captureGoal g \<and> gmTurns g' = 0 \<and> gmStall g' = 0 \<and> gmTokens g' = 0 \<and> gmStopCause g' = [] \<and>
    gmTurnsLimit g' = budgetQuota (budgetClassFor cl (TrimSpace goal) GoalResearchAuto)"
proof -
  obtain sv g1 where s: "setGoal cl fresh goal GoalResearchAuto task todos g = (sv, g1)" by fastforce
  have g': "g' = restoreGoal (captureGoal g) g1" "sv \<noteq> None"
    using assms(1) by (auto simp: SetGoalDurable_def s Let_def split: if_splits)
  have c: "captureGoal (restoreGoal x y) = x" for x y by (simp add: captureGoal_def restoreGoal_def bumpEpoch_def)
  have r: "gmTurns (restoreGoal x y) = gmTurns y" "gmStall (restoreGoal x y) = gmStall y" "gmTokens (restoreGoal x y) = gmTokens y"
    "gmStopCause (restoreGoal x y) = gmStopCause y" "gmTurnsLimit (restoreGoal x y) = gmTurnsLimit y" for x y
    by (simp_all add: restoreGoal_def bumpEpoch_def)
  have "gmTurns g1 = 0 \<and> gmStall g1 = 0 \<and> gmTokens g1 = 0 \<and> gmStopCause g1 = [] \<and>
      gmTurnsLimit g1 = budgetQuota (budgetClassFor cl (TrimSpace goal) GoalResearchAuto)"
    using s g'(2) assms(2) by (auto simp: setGoal_def Let_def split: if_splits)
  then show ?thesis by (simp add: g'(1) c r)
qed

section \<open>A sample goal\<close>

definition demo_classifier :: goalClassifier where
  "demo_classifier = \<lparr>gcResearch = (\<lambda>_. False), gcWrite = (\<lambda>_. True)\<rparr>"

definition demo_goal :: goalMachine where
  "demo_goal = applyOp demo_classifier (OpSet ''scope'' ''fix the build'' GoalResearchAuto [] []) (newGoalMachine ''/s.goal'')"

definition quiet_world :: turnWorld where
  "quiet_world = \<lparr>tuFresh = ''f'', tuBefore = [], tuSkipped = False, tuEvents = [], tuError = TurnOk, tuReadiness = ([], []),
     tuResearch = [], tuEval = Verdict OutcomeContinue ''more'', tuLate = [], tuTodos = [], tuSigBefore = ''w=0'',
     tuSigAfter = ''w=0'', tuCancelled = False, tuAccept = [], tuAdmit = []\<rparr>"

definition demo_input :: "goalTurnReport option \<Rightarrow> goalAdvanceInput" where
  "demo_input rep = \<lparr>aiReport = rep, aiMissing = [], aiReason = [], aiEval = None, aiEvalFailed = [], aiTodos = [],
     aiBefore = ''w=0'', aiAfter = ''w=0'', aiEpoch = None\<rparr>"

definition demo_args :: "bytes \<Rightarrow> json option" where
  "demo_args status = Some (JObj [(''status'', JStr status), (''reason'', JStr ''more''), (''next_action'', JStr ''run tests'')])"

lemma demo_goal_fields:
  "gmGoal demo_goal = ''fix the build''" "gmStatus demo_goal = GoalStatusRunning" "gmTurns demo_goal = 0"
  "gmTurnsLimit demo_goal = 20" "gmPath demo_goal = ''/s.goal''" "gmScope demo_goal = ''scope''" "gmEpoch demo_goal = 1"
  by code_simp+

theorem goal_loop_returns_witness:
  "\<exists>e j h. runGoalLoop demo_classifier (\<lambda>r. r) (\<lambda>_. quiet_world) demo_goal = Some (e, j, h) \<and> j \<le> 19"
proof -
  have b: "\<forall>t. busy ((\<lambda>_. quiet_world) t) < 2 ^ 62" by (simp add: busy_def quiet_world_def)
  show ?thesis
    using goal_loop_returns [OF b, of demo_goal demo_classifier "\<lambda>r. r"] by (simp add: demo_goal_fields)
qed

theorem completed_goal_is_proven_witness:
  "gmStatus (snd (advance (demo_input (Some \<lparr>rpStatus = ''complete'', rpReason = [], rpNext = []\<rparr>)) demo_goal)) = GoalStatusComplete \<and>
   (\<exists>j i c. signedOffRun demo_ev demo_run 0 j i c)"
proof -
  let ?inp = "demo_input (Some \<lparr>rpStatus = ''complete'', rpReason = [], rpNext = []\<rparr>)" and ?a = "(goal_agent demo_run)\<lparr>agTools := None\<rparr>"
  obtain res g' where a: "advance ?inp demo_goal = (res, g')" by fastforce
  have 1: "gmStatus (snd (advance ?inp demo_goal)) = GoalStatusComplete" by code_simp
  have 2: "gmStatus demo_goal \<noteq> GoalStatusComplete" by code_simp
  have 3: "frReason (fst (finalReadinessCheckFor demo_ev ?a)) = []" by code_simp
  have 4: "delivering ?a demo_run" by code_simp
  have 5: "LatestSuccessfulMutationIndex demo_run = Some 0" by code_simp
  have 6: "\<not> agGuardArmed ?a" by code_simp
  from completed_goal_is_proven [OF a _ 2 _ 4 5, of demo_ev] a 1 3 6 show ?thesis by simp
qed

theorem continue_report_misread_witness:
  "\<exists>r'. snd (updateGoal (\<lambda>r. r) demo_goal (demo_args ''continue'') (Some (newTurnRecorder ''scope'' 1))) = Some r' \<and>
     snd (updateGoal (\<lambda>r. r) demo_goal (demo_args ''complete'') (Some r')) = Some r' \<and>
     gmStall (snd (advance (demo_input (Some (trReport r'))) demo_goal)) = 0 \<and>
     arIntercept (fst (advance (demo_input (Some (trReport r'))) demo_goal)) = []"
proof -
  let ?u = "updateGoal (\<lambda>r. r) demo_goal (demo_args ''continue'') (Some (newTurnRecorder ''scope'' 1))"
  let ?r = "(newTurnRecorder ''scope'' 1)\<lparr>trRecorded := True, trTerminal := True,
    trReport := \<lparr>rpStatus = ''continue'', rpReason = ''more'', rpNext = ''run tests''\<rparr>\<rparr>"
  let ?inp = "demo_input (Some (trReport ?r))"
  have u: "?u = (GoalReported (ReportRecorded ''continue''), Some ?r)" by code_simp
  obtain res h where a: "advance ?inp demo_goal = (res, h)" by fastforce
  have i: "aiReport ?inp = Some (trReport ?r)" by (simp add: demo_input_def)
  have "arCont (fst (advance ?inp demo_goal))" by code_simp
  then have c: "arCont res" using a by simp
  have f: "formatIncompleteTodos (aiTodos ?inp) (aiReason ?inp) = []" by code_simp
  from continue_report_misread [OF u i a c, of demo_goal "demo_args ''complete''"] f a u show ?thesis by auto
qed

theorem failed_update_resets_budget_witness:
  "let g = demo_goal\<lparr>gmTurns := 20, gmStatus := GoalStatusBlocked, gmStopCause := stopCauseBudgetTurns\<rparr>;
       g' = snd (SetGoalDurable demo_classifier ''t'' ''another goal'' [] [] False [] g)
   in gmGoal g' = gmGoal g \<and> gmTurns g' = 0 \<and> gmStopCause g' = []"
proof -
  let ?g = "demo_goal\<lparr>gmTurns := 20, gmStatus := GoalStatusBlocked, gmStopCause := stopCauseBudgetTurns\<rparr>"
  obtain ok g' where s: "SetGoalDurable demo_classifier ''t'' ''another goal'' [] [] False [] ?g = (ok, g')" by fastforce
  have "fst (SetGoalDurable demo_classifier ''t'' ''another goal'' [] [] False [] ?g) = False" by code_simp
  then have f: "ok = False" using s by simp
  have "TrimSpace ''another goal'' \<noteq> []" by code_simp
  from failed_update_resets_budget [OF s [unfolded f] this] show ?thesis by (simp add: s captureGoal_def)
qed

end
