(* ===== verification/TreeCode.thy ===== *)
theory TreeCode
  imports GoJson
begin

text \<open>
  A text for every JSON tree, with its reader: a prefix code, in which a string is its bytes with a mark before each.
  It stands for \<open>json.Marshal\<close> and the parser of \<open>json.Unmarshal\<close> where a theorem about documents is applied to a sample;
  that it reads back every tree is \<open>readTree_putTree\<close>. The first argument of the readers is fuel.
\<close>

definition putStr :: "bytes \<Rightarrow> bytes" where
  "putStr s = concat (map (\<lambda>c. [CHR ''+'', c]) s) @ ''.''"

fun getStr :: "bytes \<Rightarrow> (bytes \<times> bytes) option" where
  "getStr [] = None"
| "getStr [c] = (if c = CHR ''.'' then Some ([], []) else None)"
| "getStr (c # x # s) =
     (if c = CHR ''.'' then Some ([], x # s) else (case getStr s of None \<Rightarrow> None | Some (xs, r) \<Rightarrow> Some (x # xs, r)))"

fun putTree :: "json \<Rightarrow> bytes" where
  "putTree JNull = ''n''"
| "putTree (JBool b) = (if b then ''t'' else ''f'')"
| "putTree (JInt i) = (if i < 0 then ''-'' else ''i'') @ putStr (replicate (nat \<bar>i\<bar>) (CHR ''1''))"
| "putTree (JNum s) = ''#'' @ putStr s"
| "putTree (JStr s) = ''s'' @ putStr s"
| "putTree (JArr js) = ''['' @ concat (map (\<lambda>j. '','' @ putTree j) js) @ '']''"
| "putTree (JObj fs) = ''{'' @ concat (map (\<lambda>(k, j). '','' @ putStr k @ putTree j) fs) @ ''}''"

fun getTree :: "nat \<Rightarrow> bytes \<Rightarrow> (json \<times> bytes) option"
  and getElems :: "nat \<Rightarrow> bytes \<Rightarrow> (json list \<times> bytes) option"
  and getMembers :: "nat \<Rightarrow> bytes \<Rightarrow> (fields \<times> bytes) option"
where
  "getTree 0 s = None"
| "getTree (Suc f) s =
     (case s of [] \<Rightarrow> None
      | c # r \<Rightarrow>
          if c = CHR ''n'' then Some (JNull, r)
          else if c = CHR ''t'' then Some (JBool True, r)
          else if c = CHR ''f'' then Some (JBool False, r)
          else if c = CHR ''['' then map_option (\<lambda>(js, r'). (JArr js, r')) (getElems f r)
          else if c = CHR ''{'' then map_option (\<lambda>(fs, r'). (JObj fs, r')) (getMembers f r)
          else (case getStr r of None \<Rightarrow> None
                | Some (x, r') \<Rightarrow> Some (if c = CHR ''-'' then JInt (- int (length x)) else if c = CHR ''i'' then JInt (int (length x))
                    else if c = CHR ''#'' then JNum x else JStr x, r')))"
| "getElems 0 s = None"
| "getElems (Suc f) s =
     (case s of [] \<Rightarrow> None
      | c # r \<Rightarrow> if c = CHR '']'' then Some ([], r)
          else (case getTree f r of None \<Rightarrow> None | Some (j, r1) \<Rightarrow> map_option (\<lambda>(js, r'). (j # js, r')) (getElems f r1)))"
| "getMembers 0 s = None"
| "getMembers (Suc f) s =
     (case s of [] \<Rightarrow> None
      | c # r \<Rightarrow> if c = CHR ''}'' then Some ([], r)
          else (case getStr r of None \<Rightarrow> None
                | Some (k, r0) \<Rightarrow> (case getTree f r0 of None \<Rightarrow> None
                    | Some (j, r1) \<Rightarrow> map_option (\<lambda>(fs, r'). ((k, j) # fs, r')) (getMembers f r1))))"

lemma getStr_putStr [simp]: "getStr (putStr s @ r) = Some (s, r)"
proof (induction s)
  case Nil
  then show ?case by (cases r) (simp_all add: putStr_def)
qed (simp add: putStr_def)

lemma getElems_put:
  "\<forall>j \<in> set js. \<forall>f r. length (putTree j) < f \<longrightarrow> getTree f (putTree j @ r) = Some (j, r) \<Longrightarrow>
     length (concat (map (\<lambda>j. '','' @ putTree j) js)) < f \<Longrightarrow>
     getElems f (concat (map (\<lambda>j. '','' @ putTree j) js) @ '']'' @ r) = Some (js, r)"
proof (induction js arbitrary: f)
  case Nil
  then show ?case by (cases f) simp_all
next
  case (Cons j js)
  obtain g where f: "f = Suc g" using Cons.prems(2) by (cases f) simp_all
  have "getTree g (putTree j @ concat (map (\<lambda>j. '','' @ putTree j) js) @ '']'' @ r) = Some (j, concat (map (\<lambda>j. '','' @ putTree j) js) @ '']'' @ r)"
    using Cons.prems f by simp
  moreover have "getElems g (concat (map (\<lambda>j. '','' @ putTree j) js) @ '']'' @ r) = Some (js, r)"
    using Cons.prems f by (intro Cons.IH) simp_all
  ultimately show ?case by (simp add: f)
qed

lemma getMembers_put:
  "\<forall>(k, j) \<in> set fs. \<forall>f r. length (putTree j) < f \<longrightarrow> getTree f (putTree j @ r) = Some (j, r) \<Longrightarrow>
     length (concat (map (\<lambda>(k, j). '','' @ putStr k @ putTree j) fs)) < f \<Longrightarrow>
     getMembers f (concat (map (\<lambda>(k, j). '','' @ putStr k @ putTree j) fs) @ ''}'' @ r) = Some (fs, r)"
proof (induction fs arbitrary: f)
  case Nil
  then show ?case by (cases f) simp_all
next
  case (Cons a fs)
  obtain k j where a: "a = (k, j)" by (cases a)
  let ?rest = "concat (map (\<lambda>(k, j). '','' @ putStr k @ putTree j) fs) @ ''}'' @ r"
  obtain g where f: "f = Suc g" using Cons.prems(2) by (cases f) simp_all
  have "getTree g (putTree j @ ?rest) = Some (j, ?rest)" using Cons.prems f a by simp
  moreover have "getMembers g ?rest = Some (fs, r)" using Cons.prems f a by (intro Cons.IH) simp_all
  ultimately show ?case by (simp add: f a)
qed

lemma getTree_put: "length (putTree j) < f \<Longrightarrow> getTree f (putTree j @ r) = Some (j, r)"
proof (induction j arbitrary: f r)
  case (JArr js)
  obtain g where f: "f = Suc g" using JArr.prems by (cases f) simp_all
  have "getElems g (concat (map (\<lambda>j. '','' @ putTree j) js) @ '']'' @ r) = Some (js, r)"
    using JArr f by (intro getElems_put) simp_all
  then show ?case by (simp add: f)
next
  case (JObj fs)
  obtain g where f: "f = Suc g" using JObj.prems by (cases f) simp_all
  have "getMembers g (concat (map (\<lambda>(k, j). '','' @ putStr k @ putTree j) fs) @ ''}'' @ r) = Some (fs, r)"
    using JObj f by (intro getMembers_put) force+
  then show ?case by (simp add: f)
next
  case JNull
  then show ?case by (cases f) simp_all
next
  case (JBool b)
  then show ?case by (cases f) (simp_all split: if_splits)
next
  case (JInt i)
  then show ?case by (cases f) simp_all
next
  case (JNum s)
  then show ?case by (cases f) simp_all
next
  case (JStr s)
  then show ?case by (cases f) simp_all
qed

definition readTree :: "bytes \<Rightarrow> json option" where
  "readTree s = map_option fst (getTree (length s + 1) s)"

lemma readTree_putTree: "readTree (putTree j) = Some j"
  using getTree_put [of j "length (putTree j) + 1" "[]"] by (simp add: readTree_def)

end
