(* ===== verification/GoalReload.thy ===== *)
theory GoalReload
  imports GoalMachine TreeCode "HOL-Library.Monad_Syntax"
begin

text \<open>
  A goal survives a restart (\<open>control/goal.go\<close>): the states a session can reach, reloads and failed updates included, the JSON
  document of the sidecar with the field tags and the omitted zero values of \<open>goalState\<close>, \<open>DeliveryCheckpoint\<close> and
  \<open>TodoItem\<close>, what \<open>encoding/json\<close> reads back into them, and the round trip. Only the text of a document and the
  content of the files are parameters.
\<close>

section \<open>A goal survives its sidecar\<close>

text \<open>The fields of a goal that its sidecar carries are such that a reload changes none.\<close>

definition goal_ok :: "goalMachine \<Rightarrow> bool" where
  "goal_ok g \<longleftrightarrow>
     TrimSpace (gmTask g) = gmTask g \<and> gmTokensLimit g = 0 \<and> gmStopCause g \<noteq> stopCauseBudgetTokens \<and>
     (gmGoal g \<noteq> [] \<longrightarrow>
        TrimSpace (gmGoal g) = gmGoal g \<and> gmStatus g \<noteq> [] \<and> gmScope g \<noteq> [] \<and> TrimSpace (gmScope g) = gmScope g \<and>
        dcScopeID (gmCheckpoint g) = gmScope g \<and> gmClass g \<noteq> [] \<and> gmTurnsLimit g > 0 \<and> gmStallLimit g > 0)"

lemma lead_space_trim_left: "lead_space (trim_left s) = 0"
proof (induction s rule: trim_left.induct)
  case (1 s)
  then show ?case by (cases "lead_space s = 0") (simp_all add: trim_left.simps [of s])
qed

lemma trail_space_trim_right: "trail_space (trim_right s) = 0"
proof (induction s rule: trim_right.induct)
  case (1 s)
  then show ?case by (cases "trail_space s = 0") (simp_all add: trim_right.simps [of s])
qed

lemma lead_space_zero: "lead_space s = 0 \<longleftrightarrow> (\<forall>q \<in> set space_seqs. \<not> HasPrefix s q)"
proof
  assume z: "lead_space s = 0"
  show "\<forall>q \<in> set space_seqs. \<not> HasPrefix s q"
  proof (cases "find (HasPrefix s) space_seqs")
    case None
    then show ?thesis by (simp add: find_None_iff)
  next
    case (Some q)
    then have "q = []" using z by (simp add: lead_space_def)
    then show ?thesis using find_in_list [OF Some] space_seqs_nonempty by blast
  qed
next
  assume "\<forall>q \<in> set space_seqs. \<not> HasPrefix s q"
  then have "find (HasPrefix s) space_seqs = None" by (simp add: find_None_iff)
  then show "lead_space s = 0" by (simp add: lead_space_def)
qed

lemma TrimSpace_idem [simp]: "TrimSpace (TrimSpace s) = TrimSpace s"
proof -
  let ?t = "trim_right (trim_left s)"
  obtain q where q: "trim_left s = ?t @ q" using trim_right_prefix by blast
  have "HasPrefix (trim_left s) r" if "HasPrefix ?t r" for r
  proof -
    have "length r \<le> length ?t" using HasPrefix_length that by blast
    then have "take (length r) (?t @ q) = take (length r) ?t" by simp
    then show ?thesis using that q by (simp add: HasPrefix_def)
  qed
  then have "lead_space ?t = 0" using lead_space_trim_left [of s] by (auto simp: lead_space_zero)
  then have "trim_left ?t = ?t" by (simp add: trim_left.simps [of ?t])
  moreover have "trim_right ?t = ?t" using trail_space_trim_right by (simp add: trim_right.simps [of ?t])
  ultimately show ?thesis by (simp add: TrimSpace_def)
qed

lemma budgetClassFor_nonempty [simp]: "budgetClassFor cl goal mode \<noteq> []" by (simp add: budgetClassFor_def)

lemma budgetQuota_pos [simp]: "budgetQuota c > 0" by (simp add: budgetQuota_def)

text \<open>
  The operations of a session, with trimmed identifiers. A sidecar that is reloaded may hold anything, but for
  one thing: the cause of the removed token limit only stands in a blocked goal.
\<close>

fun sound_op :: "goalOp \<Rightarrow> bool" where
  "sound_op (OpSet fresh goal mode task todos) \<longleftrightarrow> fresh \<noteq> [] \<and> TrimSpace fresh = fresh \<and> TrimSpace task = task"
| "sound_op (OpStop status todos) \<longleftrightarrow> status \<noteq> []"
| "sound_op (OpPause cause reason todos) \<longleftrightarrow> cause \<noteq> stopCauseBudgetTokens"
| "sound_op (OpRollback s) \<longleftrightarrow> False"
| "sound_op (OpReload fresh p disk) \<longleftrightarrow> fresh \<noteq> [] \<and> TrimSpace fresh = fresh \<and>
     (case disk of None \<Rightarrow> True
      | Some s \<Rightarrow> gsStopCause s = stopCauseBudgetTokens \<longrightarrow> gsStatus s = GoalStatusBlocked \<and> TrimSpace (gsGoal s) \<noteq> [])"
| "sound_op _ \<longleftrightarrow> True"

lemma stopCauses_differ [simp]:
  "stopCauseBudgetTurns \<noteq> stopCauseBudgetTokens" "stopCauseNoProgress \<noteq> stopCauseBudgetTokens"
  "stopCauseEvaluator \<noteq> stopCauseBudgetTokens" "stopCauseManual \<noteq> stopCauseBudgetTokens" "[] \<noteq> stopCauseBudgetTokens"
  by (simp_all add: stopCauseBudgetTurns_def stopCauseBudgetTokens_def stopCauseNoProgress_def stopCauseEvaluator_def
      stopCauseManual_def)

lemma GoalStatus_nonempty [simp]:
  "GoalStatusRunning \<noteq> []" "GoalStatusBlocked \<noteq> []" "GoalStatusComplete \<noteq> []" "GoalStatusStopped \<noteq> []"
  by (simp_all add: GoalStatusRunning_def GoalStatusBlocked_def GoalStatusComplete_def GoalStatusStopped_def)

lemma setGoal_ok:
  assumes "goal_ok g" and "fresh \<noteq> []" "TrimSpace fresh = fresh" "TrimSpace task = task"
  shows "goal_ok (snd (setGoal cl fresh goal mode task todos g))"
  using assms by (auto simp: setGoal_def goal_ok_def bumpEpoch_def newCheckpoint_def defaultNoProgressLimit_def Let_def)

lemma resumeGoal_ok:
  assumes "goal_ok g"
  shows "goal_ok (snd (resumeGoal cl fresh todos g))"
proof (cases "TrimSpace (gmGoal g) = [] \<or> gmStatus g = GoalStatusComplete")
  case True
  then show ?thesis using assms by (simp add: resumeGoal_def)
next
  case False
  then have n: "gmGoal g \<noteq> []" by auto
  then have "gmClass g \<noteq> []" "gmScope g \<noteq> []" using assms by (simp_all add: goal_ok_def)
  moreover have "0 < gmTurnsLimit g" using assms n by (simp add: goal_ok_def)
  then have "0 < gmTurnsLimit g + budgetQuota c" for c using budgetQuota_pos [of c] by linarith
  ultimately show ?thesis using assms False by (simp add: resumeGoal_def goal_ok_def bumpEpoch_def Let_def)
qed

lemma reload_ok:
  assumes "goal_ok g" and "sound_op (OpReload fresh p disk)"
  shows "goal_ok (snd (restoreFromState cl fresh sp (\<lambda>_. disk) p g))"
proof (cases "TrimSpace p = [] \<or> disk = None")
  case True
  then show ?thesis using assms(1) by (auto simp: restoreFromState_def setStatePath_def goal_ok_def split: option.split)
next
  case False
  then obtain s where s: "disk = Some s" "TrimSpace p \<noteq> []" by auto
  define g0 where "g0 = (if gmPath g = [] then setStatePath (sp p) g else g)"
  define g1 where "g1 = loadBudget cl s (loadFields fresh s g0)"
  have r: "snd (restoreFromState cl fresh sp (\<lambda>_. disk) p g) = bumpEpoch (clearTokenPause g1)"
    using s by (simp add: restoreFromState_def g0_def g1_def Let_def)
  have goal: "gmGoal g1 = TrimSpace (gsGoal s)" "TrimSpace (gmTask g1) = gmTask g1" "gmTokensLimit g1 = 0" "gmStatus g1 \<noteq> []"
    "gmStopCause g1 = gsStopCause s" "gmStatus g1 = (if gsStatus s = [] then GoalStatusStopped else gsStatus s)"
    by (simp_all add: g1_def loadBudget_def loadFields_def Let_def)
  have scope: "gmScope g1 \<noteq> [] \<and> TrimSpace (gmScope g1) = gmScope g1 \<and> dcScopeID (gmCheckpoint g1) = gmScope g1" if "gmGoal g1 \<noteq> []"
    using that assms(2) by (auto simp: g1_def loadBudget_def loadFields_def newCheckpoint_def Let_def)
  have budget: "gmClass g1 \<noteq> [] \<and> gmTurnsLimit g1 > 0 \<and> gmStallLimit g1 > 0" if "gmGoal g1 \<noteq> []"
    using that by (auto simp: g1_def loadBudget_def loadFields_def defaultNoProgressLimit_def Let_def)
  have token: "tokenPause g1" if "gmStopCause g1 = stopCauseBudgetTokens"
    using that assms(2) s(1) by (auto simp: tokenPause_def goal)
  show ?thesis
    unfolding r using goal scope budget token
    by (cases "tokenPause g1") (auto simp: clearTokenPause_def bumpEpoch_def goal_ok_def)
qed

lemma applyOp_ok:
  assumes "goal_ok g" and "sound_op op"
  shows "goal_ok (applyOp cl op g)"
proof (cases op)
  case (OpSet fresh goal mode task todos)
  then show ?thesis using assms setGoal_ok by simp
next
  case (OpResume fresh todos)
  then show ?thesis using assms resumeGoal_ok by simp
next
  case (OpScope fresh)
  then show ?thesis using assms by (auto simp: deliveryScope_def active_def goal_ok_def Let_def)
next
  case (OpReload fresh p disk)
  then show ?thesis using assms reload_ok by (simp only: applyOp.simps)
qed (use assms in \<open>auto simp: setStrict_def stopGoal_def pauseFor_def setDeliveryCheckpoint_def active_def goal_ok_def
  bumpEpoch_def Let_def\<close>)

text \<open>A machine that ever had a goal keeps a budget.\<close>

definition has_budget :: "goalMachine \<Rightarrow> bool" where
  "has_budget g \<longleftrightarrow> gmClass g \<noteq> [] \<and> gmTurnsLimit g > 0 \<and> gmStallLimit g > 0"

lemma goal_budget: "goal_ok g \<Longrightarrow> gmGoal g \<noteq> [] \<Longrightarrow> has_budget g"
  by (simp add: goal_ok_def has_budget_def)

lemma has_budget_simps [simp]:
  "has_budget (bumpEpoch g) = has_budget g" "has_budget (clearTokenPause g) = has_budget g" "has_budget (setStatePath p g) = has_budget g"
  "has_budget (loadFields fresh s g) = has_budget g" "has_budget (restoreGoal sn g) = has_budget g"
  by (simp_all add: has_budget_def bumpEpoch_def clearTokenPause_def setStatePath_def loadFields_def restoreGoal_def Let_def)

lemma applyOp_budget:
  assumes "has_budget g"
  shows "has_budget (applyOp cl op g)"
proof (cases op)
  case (OpResume fresh todos)
  have "0 < gmTurnsLimit g + budgetQuota c" for c using assms budgetQuota_pos [of c] unfolding has_budget_def by linarith
  then show ?thesis using assms OpResume by (auto simp: resumeGoal_def bumpEpoch_def has_budget_def Let_def)
next
  case (OpReload fresh p disk)
  have "has_budget (loadBudget cl s h)" if "has_budget h" for s h
    using that by (auto simp: loadBudget_def has_budget_def defaultNoProgressLimit_def Let_def)
  then show ?thesis using assms OpReload by (auto simp: restoreFromState_def Let_def split: option.split)
next
  case (OpSet fresh goal mode task todos)
  then show ?thesis using assms by (auto simp: setGoal_def bumpEpoch_def has_budget_def defaultNoProgressLimit_def Let_def)
qed (use assms in \<open>auto simp: setStrict_def stopGoal_def pauseFor_def setDeliveryCheckpoint_def deliveryScope_def has_budget_def
  bumpEpoch_def restoreGoal_def Let_def\<close>)

definition kept_fields :: "goalMachine \<Rightarrow> goalMachine \<Rightarrow> bool" where
  "kept_fields g h \<longleftrightarrow>
     (gmTask h, gmTokensLimit h, gmScope h, gmCheckpoint h, gmClass h, gmTurnsLimit h, gmStallLimit h) =
     (gmTask g, gmTokensLimit g, gmScope g, gmCheckpoint g, gmClass g, gmTurnsLimit g, gmStallLimit g) \<and>
     (gmGoal h = gmGoal g \<or> gmGoal h = [])"

lemma kept_fields_ok:
  "goal_ok g \<Longrightarrow> kept_fields g h \<Longrightarrow> gmStatus h \<noteq> [] \<Longrightarrow> gmStopCause h \<noteq> stopCauseBudgetTokens \<Longrightarrow> goal_ok h"
  by (auto simp: goal_ok_def kept_fields_def)

lemma continueStep_kept:
  assumes "continueStep inp g = (i, n, h)"
  shows "kept_fields g h \<and> gmStatus h = gmStatus g \<and> gmStopCause h = gmStopCause g"
  using assms by (auto simp: continueStep_def kept_fields_def Let_def split: if_splits)

lemma decide_kept:
  assumes "decide inp g = (notice, i, n, h)" and "gmStatus g \<noteq> []" and "gmStopCause g \<noteq> stopCauseBudgetTokens"
  shows "kept_fields g h \<and> gmStatus h \<noteq> [] \<and> gmStopCause h \<noteq> stopCauseBudgetTokens"
proof (cases "continueStep inp g = (i, n, h)")
  case True
  then show ?thesis using continueStep_kept [OF True] assms by simp
next
  case False
  then show ?thesis using assms by (auto simp: decide_def kept_fields_def split: if_splits prod.splits)
qed

lemma advance_keeps:
  obtains "snd (advance inp g) = g" | h where "snd (advance inp g) = h" "kept_fields g h" "gmStatus h \<noteq> []" "gmStopCause h \<noteq> stopCauseBudgetTokens"
  | "gmStopCause g = stopCauseBudgetTokens"
proof (cases "(case aiEpoch inp of None \<Rightarrow> False | Some e \<Rightarrow> e \<noteq> gmEpoch g) \<or> \<not> active g")
  case True
  then show ?thesis using that(1) by (auto simp: advance_def)
next
  case False
  obtain notice i n h where d: "decide inp (countTurn inp g) = (notice, i, n, h)" by (metis prod.exhaust)
  have c: "kept_fields g (countTurn inp g)" "gmStatus (countTurn inp g) \<noteq> []" "gmStopCause (countTurn inp g) = gmStopCause g"
    using False by (auto simp: countTurn_def bumpEpoch_def active_def kept_fields_def)
  show ?thesis
  proof (cases "gmStopCause g = stopCauseBudgetTokens")
    case True
    then show ?thesis by (rule that(3))
  next
    case no: False
    then have k: "kept_fields (countTurn inp g) h" "gmStatus h \<noteq> []" "gmStopCause h \<noteq> stopCauseBudgetTokens"
      using decide_kept [OF d c(2)] c(3) by auto
    have "kept_fields g h" using c(1) k(1) by (auto simp: kept_fields_def)
    moreover have "snd (advance inp g) = h" using False by (simp add: advance_def d)
    ultimately show ?thesis using that(2) k(2,3) by blast
  qed
qed

lemma advance_ok: "goal_ok g \<Longrightarrow> goal_ok (snd (advance inp g))"
proof -
  assume ok: "goal_ok g"
  show ?thesis
  proof (rule advance_keeps [of inp g])
    fix h assume "snd (advance inp g) = h" "kept_fields g h" "gmStatus h \<noteq> []" "gmStopCause h \<noteq> stopCauseBudgetTokens"
    then show ?thesis using kept_fields_ok [OF ok] by simp
  qed (use ok in \<open>simp_all add: goal_ok_def\<close>)
qed

lemma advance_budget: "goal_ok g \<Longrightarrow> has_budget g \<Longrightarrow> has_budget (snd (advance inp g))"
  by (rule advance_keeps [of inp g]) (auto simp: goal_ok_def has_budget_def kept_fields_def)

text \<open>
  The states of a session with their past, the latest first: the operations of the controller, the turns, usage, and the
  return to any earlier state that was captured (a failed \<open>SetGoalDurable\<close>, whatever happened since the capture).
\<close>

inductive goal_run :: "goalClassifier \<Rightarrow> bytes \<Rightarrow> goalMachine list \<Rightarrow> goalMachine \<Rightarrow> bool" for cl p where
  start: "goal_run cl p [] (newGoalMachine p)"
| operation: "goal_run cl p hs g \<Longrightarrow> sound_op op \<Longrightarrow> goal_run cl p (g # hs) (applyOp cl op g)"
| rollback: "goal_run cl p hs g \<Longrightarrow> h \<in> set (g # hs) \<Longrightarrow> goal_run cl p (g # hs) (applyOp cl (OpRollback (captureGoal h)) g)"
| turn: "goal_run cl p hs g \<Longrightarrow> goal_run cl p (g # hs) (snd (advance inp g))"
| usage: "goal_run cl p hs g \<Longrightarrow> goal_run cl p (g # hs) (snd (foldUsage scope epoch tokens g))"

definition session_ok :: "goalMachine list \<Rightarrow> goalMachine \<Rightarrow> bool" where
  "session_ok hs g \<longleftrightarrow> (\<forall>h \<in> set (g # hs). goal_ok h \<and> (gmGoal h \<noteq> [] \<longrightarrow> has_budget g))"

lemma session_step: "session_ok hs g \<Longrightarrow> goal_ok g' \<Longrightarrow> (has_budget g \<Longrightarrow> has_budget g') \<Longrightarrow> session_ok (g # hs) g'"
  by (auto simp: session_ok_def goal_budget)

lemma rollback_ok:
  assumes "session_ok hs g" "h \<in> set (g # hs)"
  shows "goal_ok (restoreGoal (captureGoal h) g)"
proof -
  have "goal_ok g" "goal_ok h" "gmGoal h \<noteq> [] \<Longrightarrow> has_budget g" using assms by (auto simp: session_ok_def)
  then show ?thesis by (auto simp: goal_ok_def restoreGoal_def captureGoal_def bumpEpoch_def has_budget_def)
qed

lemma goal_run_session: "goal_run cl p hs g \<Longrightarrow> session_ok hs g"
proof (induction rule: goal_run.induct)
  case start
  then show ?case by (simp add: session_ok_def goal_ok_def newGoalMachine_def)
next
  case (operation hs g op)
  then have "goal_ok g" by (simp add: session_ok_def)
  then show ?case using operation applyOp_ok applyOp_budget by (intro session_step) blast+
next
  case (rollback hs g h)
  then show ?case using rollback_ok by (intro session_step) (auto intro: applyOp_budget)
next
  case (turn hs g inp)
  then have "goal_ok g" by (simp add: session_ok_def)
  then show ?case using turn advance_ok advance_budget by (intro session_step) blast+
next
  case (usage hs g scope epoch tokens)
  then have "goal_ok g" by (simp add: session_ok_def)
  then show ?case using usage by (intro session_step) (auto simp: foldUsage_def goal_ok_def has_budget_def)
qed

lemma goal_run_ok: "goal_run cl p hs g \<Longrightarrow> goal_ok g"
  using goal_run_session by (auto simp: session_ok_def)

text \<open>Reading back the state that was saved.\<close>

lemma restore_saved:
  assumes "goal_run cl p hs g" and "gmGoal g \<noteq> []" and "buildStateLocked todos g = Some (p', s)"
    and "TrimSpace session \<noteq> []" and "disk (statePath session) = Some s" and "gmPath g0 = gmPath g"
  shows "restoreFromState cl' fresh statePath disk session g0 = (None, g\<lparr>gmEpoch := gmEpoch g0 + 1\<rparr>)"
proof -
  have ok: "goal_ok g" by (rule goal_run_ok [OF assms(1)])
  have np: "gmPath g0 \<noteq> []" and s: "s = snd (the (buildStateLocked todos g))"
    using assms(3,6) by (auto simp: buildStateLocked_def split: if_splits)
  have f: "loadFields fresh s g0 = g0\<lparr>gmGoal := gmGoal g, gmStatus := gmStatus g, gmMode := gmMode g, gmTask := gmTask g,
      gmScope := gmScope g, gmCheckpoint := gmCheckpoint g, gmBlock := gmBlock g, gmStrict := gmStrict g,
      gmStopCause := gmStopCause g, gmExtensions := gmExtensions g, gmContinueReason := gmContinueReason g,
      gmEvalReason := gmEvalReason g, gmTurns := gmTurns g, gmTokens := gmTokens g, gmTokensLimit := 0\<rparr>" (is "_ = ?f")
    using ok assms(2) np assms(6) by (simp add: s buildStateLocked_def loadFields_def goal_ok_def Let_def)
  have b: "loadBudget cl' s ?f = ?f\<lparr>gmClass := gmClass g, gmTurnsLimit := gmTurnsLimit g,
      gmStallLimit := gmStallLimit g, gmStall := gmStall g\<rparr>" (is "_ = ?b")
    using ok assms(2) np assms(6) by (simp add: s buildStateLocked_def loadBudget_def goal_ok_def Let_def)
  have t: "\<not> tokenPause ?b" "gsTokensLimit s = 0"
    using ok np assms(6) by (simp_all add: tokenPause_def goal_ok_def s buildStateLocked_def)
  then have "restoreFromState cl' fresh statePath disk session g0 = (None, bumpEpoch ?b)"
    using assms(4,5) np by (simp add: restoreFromState_def f b clearTokenPause_def)
  moreover have "bumpEpoch ?b = g\<lparr>gmEpoch := gmEpoch g0 + 1\<rparr>"
    using ok assms(6) by (cases g; cases g0) (simp add: bumpEpoch_def goal_ok_def)
  ultimately show ?thesis by simp
qed

section \<open>The document of the sidecar\<close>

text \<open>The fields of a struct: key, whether \<open>omitempty\<close> leaves the value out, value.\<close>

type_synonym entries = "(bytes \<times> bool \<times> json) list"

definition present :: "entries \<Rightarrow> fields" where
  "present es = concat (map (\<lambda>(k, omit, j). if omit then [] else [(k, j)]) es)"

definition strEntry :: "bytes \<Rightarrow> bytes \<Rightarrow> bytes \<times> bool \<times> json" where
  "strEntry k s = (k, s = [], JStr s)"

definition intEntry :: "bytes \<Rightarrow> int \<Rightarrow> bytes \<times> bool \<times> json" where
  "intEntry k n = (k, n = 0, JInt n)"

definition boolEntry :: "bytes \<Rightarrow> bool \<Rightarrow> bytes \<times> bool \<times> json" where
  "boolEntry k b = (k, \<not> b, JBool b)"

definition checkpointEntries :: "DeliveryCheckpoint \<Rightarrow> entries" where
  "checkpointEntries c =
     [strEntry ''scopeID'' (dcScopeID c), boolEntry ''criteriaEstablished'' (dcCriteriaEstablished c),
      boolEntry ''workObserved'' (dcWorkObserved c), boolEntry ''mutationObserved'' (dcMutationObserved c),
      boolEntry ''pendingMutation'' (dcPendingMutation c)]"

definition todoEntries :: "TodoItem \<Rightarrow> entries" where
  "todoEntries t =
     [(''content'', False, JStr (tContent t)), (''status'', False, JStr (tStatus t)), strEntry ''activeForm'' (tActiveForm t),
      intEntry ''level'' (tLevel t)]"

definition modeNumber :: "GoalResearchMode \<Rightarrow> int" where
  "modeNumber m = (case m of GoalResearchAuto \<Rightarrow> 0 | GoalResearchOn \<Rightarrow> 1 | GoalResearchOff \<Rightarrow> 2)"

text \<open>\<open>omitempty\<close> never leaves out a struct; \<open>Blocks\<close> is never set.\<close>

definition goalEntries :: "goalState \<Rightarrow> entries" where
  "goalEntries s =
     [strEntry ''goal'' (gsGoal s), strEntry ''status'' (gsStatus s), intEntry ''researchMode'' (modeNumber (gsMode s)),
      strEntry ''autoResearchTaskID'' (gsTask s), strEntry ''scopeID'' (gsScope s),
      (''deliveryCheckpoint'', False, JObj (present (checkpointEntries (gsCheckpoint s)))),
      intEntry ''turns'' (gsTurnsOld s), intEntry ''blocks'' 0, strEntry ''block'' (gsBlock s), boolEntry ''strict'' (gsStrict s),
      (''todos'', gsTodos s = [], JArr (map (\<lambda>t. JObj (present (todoEntries t))) (gsTodos s))),
      strEntry ''budgetClass'' (gsClass s), intEntry ''turnsUsed'' (gsTurnsUsed s), intEntry ''turnsLimit'' (gsTurnsLimit s),
      intEntry ''tokensUsed'' (gsTokens s), intEntry ''tokensLimit'' (gsTokensLimit s), intEntry ''noProgressTurns'' (gsStall s),
      intEntry ''noProgressLimit'' (gsStallLimit s), strEntry ''lastContinuationReason'' (gsContinueReason s),
      strEntry ''lastEvaluatorReason'' (gsEvalReason s), strEntry ''stopCause'' (gsStopCause s),
      intEntry ''budgetExtensions'' (gsExtensions s)]"

definition goalStateJson :: "goalState \<Rightarrow> json" where
  "goalStateJson s = JObj (present (goalEntries s))"

section \<open>Reading it\<close>

definition intoCheckpoint :: "DeliveryCheckpoint \<Rightarrow> json \<Rightarrow> DeliveryCheckpoint option" where
  "intoCheckpoint v j =
     (case j of
        JNull \<Rightarrow> Some v
      | JObj fs \<Rightarrow>
          do { i \<leftarrow> structField intoString ''scopeID'' fs (dcScopeID v);
               c \<leftarrow> structField intoBool ''criteriaEstablished'' fs (dcCriteriaEstablished v);
               w \<leftarrow> structField intoBool ''workObserved'' fs (dcWorkObserved v);
               m \<leftarrow> structField intoBool ''mutationObserved'' fs (dcMutationObserved v);
               p \<leftarrow> structField intoBool ''pendingMutation'' fs (dcPendingMutation v);
               Some \<lparr>dcScopeID = i, dcCriteriaEstablished = c, dcWorkObserved = w, dcMutationObserved = m, dcPendingMutation = p\<rparr> }
      | _ \<Rightarrow> None)"

definition intoTodo :: "json \<Rightarrow> TodoItem option" where
  "intoTodo = decodeStruct (\<lambda>fs.
     do { c \<leftarrow> structField intoString ''content'' fs [];
          s \<leftarrow> structField intoString ''status'' fs [];
          a \<leftarrow> structField intoString ''activeForm'' fs [];
          l \<leftarrow> structField intoInt ''level'' fs 0;
          Some \<lparr>tContent = c, tStatus = s, tActiveForm = a, tLevel = l\<rparr> })"

text \<open>A mode other than the three constants does not occur in a sidecar the program wrote; it is an error here.\<close>

definition intoMode :: "GoalResearchMode \<Rightarrow> json \<Rightarrow> GoalResearchMode option" where
  "intoMode v j =
     (case intoInt (modeNumber v) j of None \<Rightarrow> None
      | Some n \<Rightarrow> if n = 0 then Some GoalResearchAuto else if n = 1 then Some GoalResearchOn
          else if n = 2 then Some GoalResearchOff else None)"

definition goalStateOf :: "json \<Rightarrow> goalState option" where
  "goalStateOf = decodeStruct (\<lambda>fs.
     do { goal \<leftarrow> structField intoString ''goal'' fs [];
          status \<leftarrow> structField intoString ''status'' fs [];
          mode \<leftarrow> structField intoMode ''researchMode'' fs GoalResearchAuto;
          task \<leftarrow> structField intoString ''autoResearchTaskID'' fs [];
          scope \<leftarrow> structField intoString ''scopeID'' fs [];
          cp \<leftarrow> structField intoCheckpoint ''deliveryCheckpoint'' fs (newCheckpoint []);
          turns \<leftarrow> structField intoInt ''turns'' fs 0;
          blocks \<leftarrow> structField intoInt ''blocks'' fs 0;
          block \<leftarrow> structField intoString ''block'' fs [];
          strict \<leftarrow> structField intoBool ''strict'' fs False;
          todos \<leftarrow> structField (\<lambda>_. decodeSlice intoTodo) ''todos'' fs [];
          class' \<leftarrow> structField intoString ''budgetClass'' fs [];
          used \<leftarrow> structField intoInt ''turnsUsed'' fs 0;
          limit \<leftarrow> structField intoInt ''turnsLimit'' fs 0;
          tokens \<leftarrow> structField intoInt ''tokensUsed'' fs 0;
          tlimit \<leftarrow> structField intoInt ''tokensLimit'' fs 0;
          stall \<leftarrow> structField intoInt ''noProgressTurns'' fs 0;
          slimit \<leftarrow> structField intoInt ''noProgressLimit'' fs 0;
          creason \<leftarrow> structField intoString ''lastContinuationReason'' fs [];
          ereason \<leftarrow> structField intoString ''lastEvaluatorReason'' fs [];
          cause \<leftarrow> structField intoString ''stopCause'' fs [];
          ext \<leftarrow> structField intoInt ''budgetExtensions'' fs 0;
          Some \<lparr>gsGoal = goal, gsStatus = status, gsMode = mode, gsTask = task, gsScope = scope, gsCheckpoint = cp,
            gsTurnsOld = turns, gsBlock = block, gsStrict = strict, gsTodos = todos, gsClass = class', gsTurnsUsed = used,
            gsTurnsLimit = limit, gsTokens = tokens, gsTokensLimit = tlimit, gsStall = stall, gsStallLimit = slimit,
            gsContinueReason = creason, gsEvalReason = ereason, gsStopCause = cause, gsExtensions = ext\<rparr> })"

definition readSidecar :: "(bytes \<Rightarrow> json option) \<Rightarrow> (bytes \<Rightarrow> bytes option) \<Rightarrow> bytes \<Rightarrow> goalState option" where
  "readSidecar jParse files p =
     (case files p of None \<Rightarrow> None
      | Some raw \<Rightarrow> (case jParse raw of None \<Rightarrow> None | Some j \<Rightarrow> goalStateOf j))"

section \<open>The document round trip\<close>

lemma structField_present:
  assumes "\<forall>k \<in> fst ` set es. EqualFold k key \<longleftrightarrow> k = key" "distinct (map fst es)" "(key, omit, j) \<in> set es"
  shows "structField dec key (present es) v = (if omit then Some v else dec v j)"
  using assms
proof (induction es)
  case (Cons e es)
  obtain k o' j' where e: "e = (k, o', j')" by (cases e)
  show ?case
  proof (cases "k = key")
    case True
    then have "(key, omit, j) = e" using Cons.prems(2,3) e by force
    moreover have "structField dec key (present es') v = Some v" if "set es' \<subseteq> set es" for es' v
      using that
    proof (induction es')
      case Nil
      then show ?case by (simp add: present_def)
    next
      case (Cons x xs)
      obtain kx ox jx where x: "x = (kx, ox, jx)" by (cases x)
      have "kx \<noteq> key" using Cons.prems(1) \<open>distinct (map fst (e # es))\<close> e True x by force
      moreover have "kx \<in> fst ` set (e # es)" using Cons.prems(1) x by force
      ultimately have "\<not> EqualFold kx key" using \<open>\<forall>k \<in> fst ` set (e # es). EqualFold k key \<longleftrightarrow> k = key\<close> by blast
      then show ?case using Cons.IH Cons.prems(1) by (simp add: present_def x)
    qed
    then have "structField dec key (present es) v = Some v" for v by blast
    moreover have "EqualFold k key" using Cons.prems(1) e True by simp
    ultimately show ?thesis using e by (simp add: present_def split: option.split)
  next
    case False
    then have "\<not> EqualFold k key" using Cons.prems(1) e by simp
    moreover have "(key, omit, j) \<in> set es" using Cons.prems(3) e False by auto
    ultimately show ?thesis using Cons e by (simp add: present_def)
  qed
qed simp

lemma key_fold: "list_all (\<lambda>k. list_all (\<lambda>k'. EqualFold k k' = (k = k')) ks) ks \<and> distinct ks \<Longrightarrow> map fst es = ks \<Longrightarrow>
    (key, omit, j) \<in> set es \<Longrightarrow> structField dec key (present es) v = (if omit then Some v else dec v j)"
  by (rule structField_present) (force simp: list_all_iff)+

definition todoKeys :: "bytes list" where "todoKeys = [''content'', ''status'', ''activeForm'', ''level'']"

definition checkpointKeys :: "bytes list" where
  "checkpointKeys = [''scopeID'', ''criteriaEstablished'', ''workObserved'', ''mutationObserved'', ''pendingMutation'']"

definition goalKeys :: "bytes list" where
  "goalKeys = [''goal'', ''status'', ''researchMode'', ''autoResearchTaskID'', ''scopeID'', ''deliveryCheckpoint'', ''turns'', ''blocks'',
     ''block'', ''strict'', ''todos'', ''budgetClass'', ''turnsUsed'', ''turnsLimit'', ''tokensUsed'', ''tokensLimit'', ''noProgressTurns'',
     ''noProgressLimit'', ''lastContinuationReason'', ''lastEvaluatorReason'', ''stopCause'', ''budgetExtensions'']"

lemma keys_apart: "distinct (map ToLower ks) \<Longrightarrow> list_all (\<lambda>k. list_all (\<lambda>k'. EqualFold k k' = (k = k')) ks) ks \<and> distinct ks"
  by (auto simp: EqualFold_def list_all_iff distinct_map dest: inj_onD)

lemma lower_keys:
  "map ToLower todoKeys = [''content'', ''status'', ''activeform'', ''level'']"
  "map ToLower checkpointKeys = [''scopeid'', ''criteriaestablished'', ''workobserved'', ''mutationobserved'', ''pendingmutation'']"
  "map ToLower goalKeys = [''goal'', ''status'', ''researchmode'', ''autoresearchtaskid'', ''scopeid'', ''deliverycheckpoint'', ''turns'', ''blocks'',
     ''block'', ''strict'', ''todos'', ''budgetclass'', ''turnsused'', ''turnslimit'', ''tokensused'', ''tokenslimit'', ''noprogressturns'',
     ''noprogresslimit'', ''lastcontinuationreason'', ''lastevaluatorreason'', ''stopcause'', ''budgetextensions'']"
  by code_simp+

lemma keys_fold:
  "list_all (\<lambda>k. list_all (\<lambda>k'. EqualFold k k' = (k = k')) todoKeys) todoKeys \<and> distinct todoKeys"
  "list_all (\<lambda>k. list_all (\<lambda>k'. EqualFold k k' = (k = k')) checkpointKeys) checkpointKeys \<and> distinct checkpointKeys"
  "list_all (\<lambda>k. list_all (\<lambda>k'. EqualFold k k' = (k = k')) goalKeys) goalKeys \<and> distinct goalKeys"
  by (rule keys_apart, simp add: lower_keys)+

lemma entries_keys:
  "map fst (todoEntries t) = todoKeys" "map fst (checkpointEntries c) = checkpointKeys" "map fst (goalEntries s) = goalKeys"
  by (simp_all add: todoEntries_def todoKeys_def checkpointEntries_def checkpointKeys_def goalEntries_def goalKeys_def
      strEntry_def intEntry_def boolEntry_def)

lemmas read_todo = key_fold [OF keys_fold(1) entries_keys(1)]
lemmas read_checkpoint = key_fold [OF keys_fold(2) entries_keys(2)]
lemmas read_goal = key_fold [OF keys_fold(3) entries_keys(3)]

text \<open>The values come back, the omitted ones as the zero values they are.\<close>

lemma intoTodo_json: "in_int64 (tLevel t) \<Longrightarrow> intoTodo (JObj (present (todoEntries t))) = Some t"
proof -
  assume i: "in_int64 (tLevel t)"
  have "structField intoString ''content'' (present (todoEntries t)) [] = Some (tContent t)"
    by (subst read_todo [where omit = False and j = "JStr (tContent t)"]) (simp_all add: todoEntries_def intoString_def)
  moreover have "structField intoString ''status'' (present (todoEntries t)) [] = Some (tStatus t)"
    by (subst read_todo [where omit = False and j = "JStr (tStatus t)"]) (simp_all add: todoEntries_def intoString_def)
  moreover have "structField intoString ''activeForm'' (present (todoEntries t)) [] = Some (tActiveForm t)"
    by (subst read_todo [where omit = "tActiveForm t = []" and j = "JStr (tActiveForm t)"]) (simp_all add: todoEntries_def strEntry_def intoString_def)
  moreover have "structField intoInt ''level'' (present (todoEntries t)) 0 = Some (tLevel t)"
    by (subst read_todo [where omit = "tLevel t = 0" and j = "JInt (tLevel t)"]) (simp_all add: todoEntries_def intEntry_def intoInt_def i)
  ultimately show ?thesis by (simp add: intoTodo_def decodeStruct_def)
qed

lemma intoCheckpoint_json: "intoCheckpoint (newCheckpoint []) (JObj (present (checkpointEntries c))) = Some c"
proof -
  have "structField intoString ''scopeID'' (present (checkpointEntries c)) [] = Some (dcScopeID c)"
    by (subst read_checkpoint [where omit = "dcScopeID c = []" and j = "JStr (dcScopeID c)"])
      (simp_all add: checkpointEntries_def strEntry_def intoString_def)
  moreover have "structField intoBool ''criteriaEstablished'' (present (checkpointEntries c)) False = Some (dcCriteriaEstablished c)"
    by (subst read_checkpoint [where omit = "\<not> dcCriteriaEstablished c" and j = "JBool (dcCriteriaEstablished c)"])
      (simp_all add: checkpointEntries_def boolEntry_def intoBool_def)
  moreover have "structField intoBool ''workObserved'' (present (checkpointEntries c)) False = Some (dcWorkObserved c)"
    by (subst read_checkpoint [where omit = "\<not> dcWorkObserved c" and j = "JBool (dcWorkObserved c)"])
      (simp_all add: checkpointEntries_def boolEntry_def intoBool_def)
  moreover have "structField intoBool ''mutationObserved'' (present (checkpointEntries c)) False = Some (dcMutationObserved c)"
    by (subst read_checkpoint [where omit = "\<not> dcMutationObserved c" and j = "JBool (dcMutationObserved c)"])
      (simp_all add: checkpointEntries_def boolEntry_def intoBool_def)
  moreover have "structField intoBool ''pendingMutation'' (present (checkpointEntries c)) False = Some (dcPendingMutation c)"
    by (subst read_checkpoint [where omit = "\<not> dcPendingMutation c" and j = "JBool (dcPendingMutation c)"])
      (simp_all add: checkpointEntries_def boolEntry_def intoBool_def)
  ultimately show ?thesis by (simp add: intoCheckpoint_def newCheckpoint_def)
qed

lemma goal_str:
  "strEntry k x \<in> set (goalEntries s) \<Longrightarrow> structField intoString k (present (goalEntries s)) [] = Some x"
  unfolding strEntry_def by (drule read_goal [where dec = intoString and v = "[]"]) (simp add: intoString_def split: if_splits)

lemma goal_int:
  "intEntry k n \<in> set (goalEntries s) \<Longrightarrow> in_int64 n \<Longrightarrow> structField intoInt k (present (goalEntries s)) 0 = Some n"
  unfolding intEntry_def by (drule read_goal [where dec = intoInt and v = 0]) (simp add: intoInt_def split: if_splits)

lemma intoMode_number: "intoMode v (JInt (modeNumber m)) = Some m"
  by (cases m) (simp_all add: intoMode_def intoInt_def modeNumber_def in_int64_def)

lemma goal_mode: "structField intoMode ''researchMode'' (present (goalEntries s)) GoalResearchAuto = Some (gsMode s)"
proof (subst read_goal [where omit = "modeNumber (gsMode s) = 0" and j = "JInt (modeNumber (gsMode s))"])
  show "(''researchMode'', modeNumber (gsMode s) = 0, JInt (modeNumber (gsMode s))) \<in> set (goalEntries s)"
    by (simp add: goalEntries_def intEntry_def)
  show "(if modeNumber (gsMode s) = 0 then Some GoalResearchAuto else intoMode GoalResearchAuto (JInt (modeNumber (gsMode s)))) = Some (gsMode s)"
    by (cases "gsMode s") (simp_all add: modeNumber_def intoMode_def intoInt_def in_int64_def)
qed

lemma goal_checkpoint:
  "structField intoCheckpoint ''deliveryCheckpoint'' (present (goalEntries s)) (newCheckpoint []) = Some (gsCheckpoint s)"
  by (subst read_goal [where omit = False and j = "JObj (present (checkpointEntries (gsCheckpoint s)))"])
    (simp_all add: goalEntries_def intoCheckpoint_json)

lemma goal_strict: "structField intoBool ''strict'' (present (goalEntries s)) False = Some (gsStrict s)"
  by (subst read_goal [where omit = "\<not> gsStrict s" and j = "JBool (gsStrict s)"])
    (simp_all add: goalEntries_def boolEntry_def intoBool_def)

lemma decode_todos:
  "\<forall>t \<in> set ts. in_int64 (tLevel t) \<Longrightarrow> decodeElems intoTodo (map (\<lambda>t. JObj (present (todoEntries t))) ts) = Some ts"
  by (induction ts) (simp_all add: intoTodo_json)

lemma goal_todos:
  "\<forall>t \<in> set (gsTodos s). in_int64 (tLevel t) \<Longrightarrow>
     structField (\<lambda>_. decodeSlice intoTodo) ''todos'' (present (goalEntries s)) [] = Some (gsTodos s)"
  by (subst read_goal [where omit = "gsTodos s = []" and j = "JArr (map (\<lambda>t. JObj (present (todoEntries t))) (gsTodos s))"])
    (simp_all add: goalEntries_def decodeSlice_def decode_todos)

text \<open>The numbers of a sidecar are Go ints.\<close>

definition goal_ints :: "goalState \<Rightarrow> bool" where
  "goal_ints s \<longleftrightarrow> list_all in_int64 [gsTurnsOld s, gsTurnsUsed s, gsTurnsLimit s, gsTokens s, gsTokensLimit s, gsStall s,
     gsStallLimit s, gsExtensions s] \<and> (\<forall>t \<in> set (gsTodos s). in_int64 (tLevel t))"

lemma zero_int64 [simp]: "in_int64 0" by (simp add: in_int64_def)

lemma goalStateOf_json:
  assumes "goal_ints s"
  shows "goalStateOf (goalStateJson s) = Some s"
proof -
  note str = goal_str [of _ _ s] and int = goal_int [of _ _ s] and e = goalEntries_def [of s]
  have strs: "structField intoString ''goal'' (present (goalEntries s)) [] = Some (gsGoal s)"
    "structField intoString ''status'' (present (goalEntries s)) [] = Some (gsStatus s)"
    "structField intoString ''autoResearchTaskID'' (present (goalEntries s)) [] = Some (gsTask s)"
    "structField intoString ''scopeID'' (present (goalEntries s)) [] = Some (gsScope s)"
    "structField intoString ''block'' (present (goalEntries s)) [] = Some (gsBlock s)"
    "structField intoString ''budgetClass'' (present (goalEntries s)) [] = Some (gsClass s)"
    "structField intoString ''lastContinuationReason'' (present (goalEntries s)) [] = Some (gsContinueReason s)"
    "structField intoString ''lastEvaluatorReason'' (present (goalEntries s)) [] = Some (gsEvalReason s)"
    "structField intoString ''stopCause'' (present (goalEntries s)) [] = Some (gsStopCause s)"
    by (rule str, simp add: e)+
  have ints: "structField intoInt ''turns'' (present (goalEntries s)) 0 = Some (gsTurnsOld s)"
    "structField intoInt ''blocks'' (present (goalEntries s)) 0 = Some 0"
    "structField intoInt ''turnsUsed'' (present (goalEntries s)) 0 = Some (gsTurnsUsed s)"
    "structField intoInt ''turnsLimit'' (present (goalEntries s)) 0 = Some (gsTurnsLimit s)"
    "structField intoInt ''tokensUsed'' (present (goalEntries s)) 0 = Some (gsTokens s)"
    "structField intoInt ''tokensLimit'' (present (goalEntries s)) 0 = Some (gsTokensLimit s)"
    "structField intoInt ''noProgressTurns'' (present (goalEntries s)) 0 = Some (gsStall s)"
    "structField intoInt ''noProgressLimit'' (present (goalEntries s)) 0 = Some (gsStallLimit s)"
    "structField intoInt ''budgetExtensions'' (present (goalEntries s)) 0 = Some (gsExtensions s)"
    by (rule int, simp add: e, use assms in \<open>simp add: goal_ints_def\<close>)+
  have todos: "\<forall>t \<in> set (gsTodos s). in_int64 (tLevel t)" using assms by (simp add: goal_ints_def)
  show ?thesis
    unfolding goalStateOf_def goalStateJson_def decodeStruct_def json.case
    by (simp add: strs ints goal_mode goal_checkpoint goal_strict goal_todos [OF todos])
qed

section \<open>The restart\<close>

text \<open>C9. 
  A goal survives a restart. In every state a session can reach, also after reloads and failed updates that were rolled
  back, saving a goal as a JSON sidecar and reading the file back into another machine with the same path gives
  the same machine: goal, status, budget, pause, scope and checkpoint. Only the epoch is that of the other
  machine, moved on. The one assumption on \<open>encoding/json\<close> is that the text of this document is read back as this
  document, which holds when its strings are valid UTF-8; the numbers are Go ints.
\<close>

theorem goal_survives_reload:
  assumes "goal_run cl p hs g" and "gmGoal g \<noteq> []" and "buildStateLocked todos g = Some (p', s)" and "goal_ints s"
    and "TrimSpace session \<noteq> []" and "gmPath g0 = gmPath g"
    and "files (statePath session) = Some (jMarshal (goalStateJson s))"
    and "jParse (jMarshal (goalStateJson s)) = Some (goalStateJson s)"
  shows "restoreFromState cl' fresh statePath (readSidecar jParse files) session g0 = (None, g\<lparr>gmEpoch := gmEpoch g0 + 1\<rparr>)"
proof -
  have "readSidecar jParse files (statePath session) = Some s"
    by (simp add: readSidecar_def assms(7,8) goalStateOf_json [OF assms(4)])
  then show ?thesis by (rule restore_saved [OF assms(1,2,3,5) _ assms(6)])
qed

section \<open>A sample session\<close>

text \<open>A goal is set, another one is refused because its sidecar cannot be written, and the first one comes back.\<close>

definition goal_set :: goalMachine where
  "goal_set = applyOp demo_classifier (OpSet ''scope'' ''fix the build'' GoalResearchAuto [] []) (newGoalMachine ''/s.goal'')"

definition goal_refused :: goalMachine where
  "goal_refused = applyOp demo_classifier (OpSet ''other'' ''ship it'' GoalResearchAuto [] []) goal_set"

definition goal_back :: goalMachine where
  "goal_back = applyOp demo_classifier (OpRollback (captureGoal goal_set)) goal_refused"

lemma goal_back_run: "goal_run demo_classifier ''/s.goal'' [goal_refused, goal_set, newGoalMachine ''/s.goal''] goal_back"
proof -
  have t: "TrimSpace ''scope'' = ''scope''" "TrimSpace ''other'' = ''other''" by code_simp+
  have 1: "goal_run demo_classifier ''/s.goal'' [newGoalMachine ''/s.goal''] goal_set"
    unfolding goal_set_def by (intro goal_run.operation goal_run.start) (simp add: t)
  have 2: "goal_run demo_classifier ''/s.goal'' [goal_set, newGoalMachine ''/s.goal''] goal_refused"
    unfolding goal_refused_def by (rule goal_run.operation [OF 1]) (simp add: t)
  show ?thesis unfolding goal_back_def by (rule goal_run.rollback [OF 2]) simp
qed

theorem goal_survives_reload_witness:
  "snd (restoreFromState demo_classifier ''x'' (\<lambda>p. p)
       (readSidecar readTree (\<lambda>_. map_option (\<lambda>(p, s). putTree (goalStateJson s)) (buildStateLocked [] goal_back)))
       ''/s.goal'' (newGoalMachine ''/s.goal'')) = goal_back\<lparr>gmEpoch := 1\<rparr> \<and>
   gmGoal goal_back = ''fix the build'' \<and> gmTurnsLimit goal_back = 20"
proof
  show f: "gmGoal goal_back = ''fix the build'' \<and> gmTurnsLimit goal_back = 20" by code_simp
  have p: "gmPath goal_back = ''/s.goal''" by code_simp
  obtain s where s: "buildStateLocked [] goal_back = Some (''/s.goal'', s)" by (simp add: buildStateLocked_def p)
  have "goal_ints (snd (the (buildStateLocked [] goal_back)))" by code_simp
  then have i: "goal_ints s" by (simp add: s)
  have n: "gmGoal goal_back \<noteq> []" using f by simp
  have t: "TrimSpace ''/s.goal'' \<noteq> []" by code_simp
  have q: "gmPath (newGoalMachine ''/s.goal'') = gmPath goal_back" by (simp add: p newGoalMachine_def)
  have d: "(\<lambda>_. map_option (\<lambda>(p, s). putTree (goalStateJson s)) (buildStateLocked [] goal_back)) ''/s.goal'' = Some (putTree (goalStateJson s))"
    by (simp add: s)
  have e: "gmEpoch (newGoalMachine ''/s.goal'') = 0" by (simp add: newGoalMachine_def)
  from goal_survives_reload [where jParse = readTree and jMarshal = putTree and statePath = "\<lambda>p. p" and cl' = demo_classifier and fresh = "''x''",
      OF goal_back_run n s i t q d readTree_putTree]
  show "snd (restoreFromState demo_classifier ''x'' (\<lambda>p. p)
       (readSidecar readTree (\<lambda>_. map_option (\<lambda>(p, s). putTree (goalStateJson s)) (buildStateLocked [] goal_back)))
       ''/s.goal'' (newGoalMachine ''/s.goal'')) = goal_back\<lparr>gmEpoch := 1\<rparr>"
    by (simp add: e)
qed

end
