(* ===== verification/ToolRegistry.thy ===== *)
theory ToolRegistry
  imports TodoMatch "HOL-Library.AList" "HOL-Library.Multiset" "HOL-Library.List_Lexorder" "HOL-Library.Char_ord"
begin

text \<open>
  The registry of tools (\<open>tool/tool.go\<close>): the tools of a run by name, in the order of their first registration,
  with the name spaces of MCP servers switched off for the session, and the lookup of a call by its name or by a
  portable reference to an MCP tool. A Go map is an association list in the order of its iteration, which the
  program does not control; the lookups do not depend on it. The optional interfaces a tool may implement are
  the \<open>option\<close> fields of the record \<open>Tool\<close>.
\<close>

section \<open>Tools\<close>

record Tool =
  tlName :: bytes
  tlDescription :: bytes
  tlSchema :: bytes
  tlReadOnly :: bool
  tlMCP :: "(bytes \<times> bytes) option"
  tlVisible :: "bytes option"
  tlPackage :: "bytes option"
  tlPlanSafe :: "bool option"
  tlAuthorized :: "bool option"
  tlDestructive :: "bool option"
  tlHostMutation :: "bool option"
  tlBlockReason :: "bytes option"
  tlLifecycle :: bool
  tlResolver :: bool
  tlPreviewer :: bool

definition plainTool :: "bytes \<Rightarrow> bool \<Rightarrow> Tool" where
  "plainTool name ro =
     \<lparr>tlName = name, tlDescription = [], tlSchema = [], tlReadOnly = ro, tlMCP = None, tlVisible = None, tlPackage = None,
      tlPlanSafe = None, tlAuthorized = None, tlDestructive = None, tlHostMutation = None, tlBlockReason = None,
      tlLifecycle = False, tlResolver = False, tlPreviewer = False\<rparr>"

record MCPBinding =
  mbPackage :: bytes
  mbServer :: bytes
  mbRawName :: bytes
  mbVisibleName :: bytes
  mbCallableName :: bytes
  mbCapabilityID :: bytes

definition mcpBinding :: "Tool \<Rightarrow> MCPBinding option" where
  "mcpBinding t =
     (case tlMCP t of
        None \<Rightarrow> None
      | Some (server0, raw0) \<Rightarrow>
          let server = TrimSpace server0; raw = TrimSpace raw0 in
          if server = [] \<or> raw = [] then None
          else
            let visible = (case tlVisible t of None \<Rightarrow> raw | Some v \<Rightarrow> if TrimSpace v \<noteq> [] then TrimSpace v else raw);
                pkg = (case tlPackage t of None \<Rightarrow> [] | Some p \<Rightarrow> TrimSpace p)
            in Some \<lparr>mbPackage = pkg, mbServer = server, mbRawName = raw, mbVisibleName = visible,
                     mbCallableName = tlName t, mbCapabilityID = ''mcp-tool:'' @ server @ ''/'' @ raw\<rparr>)"

definition portableRune :: "nat \<Rightarrow> bytes" where
  "portableRune r =
     (if 97 \<le> r \<and> r \<le> 122 \<or> 65 \<le> r \<and> r \<le> 90 \<or> 48 \<le> r \<and> r \<le> 57 \<or> r = 95 \<or> r = 45 then EncodeRune r else ''_'')"

definition portableMCPPart :: "bytes \<Rightarrow> bytes" where
  "portableMCPPart s = concat (map portableRune (Runes s))"

definition mcpBindingAliases :: "MCPBinding \<Rightarrow> bytes list" where
  "mcpBindingAliases b =
     [mbRawName b, mbVisibleName b, mbServer b @ ''/'' @ mbRawName b, mbServer b @ ''/'' @ mbVisibleName b,
      mbCapabilityID b, ''mcp-tool:'' @ mbServer b @ ''/'' @ mbVisibleName b,
      ''mcp__'' @ portableMCPPart (mbServer b) @ ''__'' @ portableMCPPart (mbRawName b),
      ''mcp__'' @ portableMCPPart (mbServer b) @ ''__'' @ portableMCPPart (mbVisibleName b)] @
     (if mbPackage b = [] then []
      else let prefix = ''mcp__plugin_'' @ portableMCPPart (mbPackage b) @ ''_'' @ portableMCPPart (mbServer b) @ ''__''
           in [prefix @ portableMCPPart (mbRawName b), prefix @ portableMCPPart (mbVisibleName b)])"

definition SplitMCPName :: "bytes \<Rightarrow> (bytes \<times> bytes) option" where
  "SplitMCPName name =
     (if \<not> HasPrefix name ''mcp__'' then None
      else case CutAt ''__'' (drop (length ''mcp__'') name) of
        None \<Rightarrow> None
      | Some (server, raw) \<Rightarrow> if server = [] \<or> raw = [] then None else Some (server, raw))"

section \<open>The registry\<close>

record Registry =
  rgTools :: "(bytes \<times> Tool) list"
  rgOrder :: "bytes list"
  rgCanon :: "bytes \<rightharpoonup> bytes"
  rgSuspended :: "bytes list"

definition NewRegistry :: Registry where
  "NewRegistry = \<lparr>rgTools = [], rgOrder = [], rgCanon = Map.empty, rgSuspended = []\<rparr>"

text \<open>\<open>canonical\<close> stands for \<open>provider.CanonicalizeSchema\<close>.\<close>

definition AddTool :: "(bytes \<Rightarrow> bytes) \<Rightarrow> Tool \<Rightarrow> Registry \<Rightarrow> Registry" where
  "AddTool canonical t r =
     (let name = tlName t in
      if list_ex (\<lambda>prefix. HasPrefix name prefix) (rgSuspended r) then r
      else r\<lparr>rgOrder := (if map_of (rgTools r) name = None then rgOrder r @ [name] else rgOrder r),
             rgTools := AList.update name t (rgTools r),
             rgCanon := (rgCanon r)(name \<mapsto> canonical (tlSchema t))\<rparr>)"

definition RemovePrefix :: "bytes \<Rightarrow> Registry \<Rightarrow> nat \<times> Registry" where
  "RemovePrefix prefix r =
     (let gone = filter (\<lambda>name. HasPrefix name prefix) (rgOrder r) in
      (length gone,
       r\<lparr>rgTools := filter (\<lambda>(name, _). name \<notin> set gone) (rgTools r),
         rgCanon := (\<lambda>name. if name \<in> set gone then None else rgCanon r name),
         rgOrder := filter (\<lambda>name. \<not> HasPrefix name prefix) (rgOrder r)\<rparr>))"

definition SuspendPrefix :: "bytes \<Rightarrow> Registry \<Rightarrow> nat \<times> Registry" where
  "SuspendPrefix prefix r = RemovePrefix prefix (r\<lparr>rgSuspended := List.insert prefix (rgSuspended r)\<rparr>)"

definition ResumePrefix :: "bytes \<Rightarrow> Registry \<Rightarrow> Registry" where
  "ResumePrefix prefix r = r\<lparr>rgSuspended := filter (\<lambda>p. p \<noteq> prefix) (rgSuspended r)\<rparr>"

definition GetTool :: "bytes \<Rightarrow> Registry \<Rightarrow> Tool option" where
  "GetTool name r = map_of (rgTools r) name"

definition MCPBindings :: "Registry \<Rightarrow> MCPBinding list" where
  "MCPBindings r = sort_key mbCallableName (List.map_filter (\<lambda>(_, t). mcpBinding t) (rgTools r))"

definition answersTo :: "bytes \<Rightarrow> bytes \<times> Tool \<Rightarrow> bool" where
  "answersTo name e = (case mcpBinding (snd e) of None \<Rightarrow> False | Some b \<Rightarrow> name \<in> set (mcpBindingAliases b))"

definition ResolveCall :: "Registry \<Rightarrow> bytes \<Rightarrow> Tool option \<times> bytes \<times> bytes list" where
  "ResolveCall r name =
     (case map_of (rgTools r) name of
        Some t \<Rightarrow> (Some t, name, [])
      | None \<Rightarrow>
          (case filter (answersTo name) (rgTools r) of
             [] \<Rightarrow> (None, [], [])
           | [(canonicalName, t)] \<Rightarrow> (Some t, canonicalName, [])
           | matches \<Rightarrow> (None, [], sort (map fst matches))))"

definition Names :: "Registry \<Rightarrow> bytes list" where "Names r = rgOrder r"

definition Schemas :: "Registry \<Rightarrow> (bytes \<times> bytes \<times> bytes) list" where
  "Schemas r =
     concat (map (\<lambda>name. case map_of (rgTools r) name of
                            None \<Rightarrow> []
                          | Some t \<Rightarrow> [(tlName t, tlDescription t, case rgCanon r name of Some s \<Rightarrow> s | None \<Rightarrow> [])])
                 (sort (rgOrder r)))"

section \<open>Well-formed registries\<close>

definition registry_wf :: "Registry \<Rightarrow> bool" where
  "registry_wf r \<longleftrightarrow>
     distinct (rgOrder r) \<and> distinct (map fst (rgTools r)) \<and> set (map fst (rgTools r)) = set (rgOrder r) \<and>
     dom (rgCanon r) = set (rgOrder r) \<and> (\<forall>(name, t) \<in> set (rgTools r). tlName t = name) \<and>
     (\<forall>name \<in> set (rgOrder r). \<forall>p \<in> set (rgSuspended r). \<not> HasPrefix name p)"

datatype regOp = RegAdd Tool | RegRemove bytes | RegSuspend bytes | RegResume bytes

fun regStep :: "(bytes \<Rightarrow> bytes) \<Rightarrow> regOp \<Rightarrow> Registry \<Rightarrow> Registry" where
  "regStep canonical (RegAdd t) r = AddTool canonical t r"
| "regStep canonical (RegRemove p) r = snd (RemovePrefix p r)"
| "regStep canonical (RegSuspend p) r = snd (SuspendPrefix p r)"
| "regStep canonical (RegResume p) r = ResumePrefix p r"

definition regRun :: "(bytes \<Rightarrow> bytes) \<Rightarrow> regOp list \<Rightarrow> Registry \<Rightarrow> Registry" where
  "regRun canonical ops r = fold (regStep canonical) ops r"

lemma NewRegistry_wf [simp]: "registry_wf NewRegistry"
  by (simp add: registry_wf_def NewRegistry_def)

lemma set_update_cases: "(k, v) \<in> set (AList.update n t xs) \<Longrightarrow> (k = n \<and> v = t) \<or> (k, v) \<in> set xs"
  by (induction xs) (auto split: if_splits)

lemma AddTool_wf:
  assumes wf: "registry_wf r"
  shows "registry_wf (AddTool canonical t r)"
proof (cases "list_ex (\<lambda>prefix. HasPrefix (tlName t) prefix) (rgSuspended r)")
  case True
  then show ?thesis using wf by (simp add: AddTool_def)
next
  case False
  have keys: "fst ` set (AList.update (tlName t) t (rgTools r)) = insert (tlName t) (fst ` set (rgTools r))"
    using dom_update [of "tlName t" t "rgTools r"] by simp
  have names: "\<forall>(name, t') \<in> set (AList.update (tlName t) t (rgTools r)). tlName t' = name"
    using wf by (auto simp: registry_wf_def dest!: set_update_cases)
  show ?thesis
    using wf False keys names
    by (auto simp: registry_wf_def AddTool_def Let_def list_ex_iff distinct_update map_of_eq_None_iff)
qed

lemma keys_filter: "fst ` set (filter (\<lambda>(n, _). P n) xs) = {n \<in> fst ` set xs. P n}"
  by force

lemma RemovePrefix_wf:
  assumes "registry_wf r"
  shows "registry_wf (snd (RemovePrefix p r))"
proof -
  let ?gone = "set (filter (\<lambda>name. HasPrefix name p) (rgOrder r))"
  have o: "set (rgOrder r) = fst ` set (rgTools r)" "dom (rgCanon r) = set (rgOrder r)"
    using assms by (simp_all add: registry_wf_def)
  have "fst ` set (filter (\<lambda>(n, _). n \<notin> ?gone) (rgTools r)) = {n \<in> set (rgOrder r). \<not> HasPrefix n p}"
    unfolding keys_filter o(1) [symmetric] by auto
  moreover have "dom (\<lambda>n. if n \<in> ?gone then None else rgCanon r n) = {n \<in> set (rgOrder r). \<not> HasPrefix n p}"
    using o(2) by (auto simp: dom_def split: if_splits)
  ultimately show ?thesis
    using assms by (simp add: registry_wf_def RemovePrefix_def Let_def distinct_map_filter)
qed

lemma SuspendPrefix_wf:
  assumes "registry_wf r"
  shows "registry_wf (snd (SuspendPrefix p r))"
proof -
  have "registry_wf (snd (RemovePrefix p r))"
    using assms by (rule RemovePrefix_wf)
  then show ?thesis
    by (simp add: registry_wf_def SuspendPrefix_def RemovePrefix_def Let_def cong: if_cong)
qed

lemma ResumePrefix_wf: "registry_wf r \<Longrightarrow> registry_wf (ResumePrefix p r)"
  by (auto simp: registry_wf_def ResumePrefix_def)

lemma regStep_wf: "registry_wf r \<Longrightarrow> registry_wf (regStep canonical op r)"
  by (cases op) (simp_all add: AddTool_wf RemovePrefix_wf SuspendPrefix_wf ResumePrefix_wf)

lemma regRun_wf: "registry_wf r \<Longrightarrow> registry_wf (regRun canonical ops r)"
  by (induction ops arbitrary: r) (simp_all add: regRun_def regStep_wf)

lemma regRun_append: "regRun canonical (xs @ ys) r = regRun canonical ys (regRun canonical xs r)"
  by (simp add: regRun_def)

lemma regRun_Cons: "regRun canonical (op # ops) r = regRun canonical ops (regStep canonical op r)"
  by (simp add: regRun_def)

lemma suspended_stays:
  "p \<in> set (rgSuspended r) \<Longrightarrow> op \<noteq> RegResume p \<Longrightarrow> p \<in> set (rgSuspended (regStep canonical op r))"
  by (cases op) (auto simp: AddTool_def RemovePrefix_def SuspendPrefix_def ResumePrefix_def Let_def)

lemma suspended_run:
  "p \<in> set (rgSuspended r) \<Longrightarrow> RegResume p \<notin> set ops \<Longrightarrow> p \<in> set (rgSuspended (regRun canonical ops r))"
proof (induction ops arbitrary: r)
  case Nil
  then show ?case by (simp add: regRun_def)
next
  case (Cons op ops)
  then have "p \<in> set (rgSuspended (regStep canonical op r))"
    by (intro suspended_stays) auto
  then show ?case using Cons by (simp add: regRun_Cons)
qed

section \<open>Lookup\<close>

text \<open>A tool is returned under its own name, and an alias only finds the one tool that answers to it.\<close>

lemma ResolveCall_sound:
  assumes "ResolveCall r name = (Some t, c, cands)"
  shows "(c, t) \<in> set (rgTools r) \<and> cands = [] \<and>
    (c = name \<or> map_of (rgTools r) name = None \<and> filter (answersTo name) (rgTools r) = [(c, t)])"
proof (cases "map_of (rgTools r) name")
  case (Some u)
  then show ?thesis using assms by (auto simp: ResolveCall_def dest: map_of_SomeD)
next
  case None
  then have f: "filter (answersTo name) (rgTools r) = [(c, t)]" and "cands = []"
    using assms by (auto simp: ResolveCall_def split: list.splits prod.splits)
  have "(c, t) \<in> set (filter (answersTo name) (rgTools r))"
    by (simp only: f) simp
  then have "(c, t) \<in> set (rgTools r)" by (simp only: set_filter) blast
  then show ?thesis using None f \<open>cands = []\<close> by simp
qed

lemma resolved_registered:
  assumes "registry_wf r" "ResolveCall r name = (Some t, c, cands)"
  shows "c \<in> set (rgOrder r) \<and> tlName t = c"
proof -
  have m: "(c, t) \<in> set (rgTools r)"
    using ResolveCall_sound [OF assms(2)] by blast
  then have "c \<in> set (map fst (rgTools r))" by force
  with m show ?thesis using assms(1) unfolding registry_wf_def by blast
qed

lemma ResolveCall_exact_name:
  "registry_wf r \<Longrightarrow> (name, t) \<in> set (rgTools r) \<Longrightarrow> ResolveCall r name = (Some t, name, [])"
  by (simp add: ResolveCall_def registry_wf_def)

lemma ResolveCall_candidates:
  assumes "ResolveCall r name = (None, c, cands)"
  shows "map_of (rgTools r) name = None \<and> length (filter (answersTo name) (rgTools r)) \<noteq> 1 \<and>
    cands = sort (map fst (filter (answersTo name) (rgTools r)))"
proof (cases "map_of (rgTools r) name")
  case (Some u)
  then show ?thesis using assms by (simp add: ResolveCall_def)
next
  case None
  show ?thesis
  proof (cases "filter (answersTo name) (rgTools r)")
    case Nil
    then show ?thesis using assms None by (simp add: ResolveCall_def)
  next
    case (Cons e fs)
    then show ?thesis using assms None by (cases fs) (auto simp: ResolveCall_def split: prod.splits)
  qed
qed

lemma sort_perm: "mset xs = mset ys \<Longrightarrow> sort xs = sort (ys :: bytes list)"
  by (simp add: properties_for_sort)

lemma ResolveCall_any_order:
  assumes "mset (rgTools r) = mset (rgTools r')" "distinct (map fst (rgTools r))"
  shows "ResolveCall r name = ResolveCall r' name"
proof -
  let ?f = "filter (answersTo name) (rgTools r)" and ?g = "filter (answersTo name) (rgTools r')"
  have ms: "mset ?f = mset ?g"
    using assms(1) by (simp add: mset_filter)
  have len: "length ?f = length ?g"
    using ms by (rule mset_eq_length)
  have d': "distinct (map fst (rgTools r'))"
    using assms by (metis mset_map mset_eq_imp_distinct_iff)
  have "set (rgTools r) = set (rgTools r')"
    using assms(1) by (rule mset_eq_setD)
  then have "map_of (rgTools r) = map_of (rgTools r')"
    using assms(2) d' by (simp only: map_of_inject_set)
  then have m: "map_of (rgTools r) name = map_of (rgTools r') name" by (rule arg_cong)
  have s: "sort (map fst ?f) = sort (map fst ?g)"
    by (rule sort_perm) (simp only: mset_map ms)
  show ?thesis
  proof (cases "map_of (rgTools r') name")
    case (Some t)
    then show ?thesis using m by (simp add: ResolveCall_def)
  next
    case None
    show ?thesis
    proof (cases ?f)
      case Nil
      then have "?g = []" using len by simp
      then show ?thesis using m None Nil by (simp add: ResolveCall_def)
    next
      case (Cons e fs)
      show ?thesis
      proof (cases fs)
        case Nil
        then have "mset ?g = {#e#}" using ms Cons by simp
        then have "?g = [e]" by (simp only: mset_single_iff)
        then show ?thesis using m None Cons Nil by (cases e) (simp add: ResolveCall_def)
      next
        case (Cons e' fs')
        obtain h h' hs where "?g = h # h' # hs"
          using len \<open>?f = e # fs\<close> Cons by (cases ?g; cases "tl ?g") auto
        then show ?thesis
          using m None s \<open>?f = e # fs\<close> Cons by (cases e; cases h) (simp add: ResolveCall_def)
      qed
    qed
  qed
qed

section \<open>Properties\<close>

text \<open>Registry: the lookup of a call does not depend on the iteration order of the Go map. A tool is found by
  its own name, which always wins, or by an alias that only this tool answers to; otherwise nothing runs and the
  candidates are the tools that answer, in order of their names.\<close>

theorem ResolveCall_exact:
  assumes "registry_wf r" "mset (rgTools r') = mset (rgTools r)"
  shows "ResolveCall r' name =
    (case GetTool name r of
       Some t \<Rightarrow> (Some t, name, [])
     | None \<Rightarrow>
         let answering = filter (answersTo name) (rgTools r) in
         if length answering = 1 then (Some (snd (hd answering)), fst (hd answering), [])
         else (None, [], sort (map fst answering)))"
proof -
  have "ResolveCall r' name = ResolveCall r name"
    using assms by (intro ResolveCall_any_order [symmetric]) (simp_all add: registry_wf_def)
  also have "\<dots> = (case GetTool name r of
       Some t \<Rightarrow> (Some t, name, [])
     | None \<Rightarrow>
         let answering = filter (answersTo name) (rgTools r) in
         if length answering = 1 then (Some (snd (hd answering)), fst (hd answering), [])
         else (None, [], sort (map fst answering)))"
    by (auto simp: ResolveCall_def GetTool_def Let_def split: option.splits list.splits)
  finally show ?thesis .
qed

definition demo_mcp :: "bytes \<Rightarrow> bytes \<Rightarrow> bytes \<Rightarrow> Tool" where
  "demo_mcp name server raw = (plainTool name True)\<lparr>tlMCP := Some (server, raw)\<rparr>"

definition demo_registry :: Registry where
  "demo_registry = regRun id
     [RegAdd (plainTool ''read_file'' True), RegAdd (demo_mcp ''mcp__gh__search'' ''gh'' ''search''),
      RegAdd (demo_mcp ''mcp__web__search'' ''web'' ''search'')] NewRegistry"

lemma demo_registry_wf [simp]: "registry_wf demo_registry"
  unfolding demo_registry_def by (rule regRun_wf) simp

lemma ResolveCall_exact_witness:
  "ResolveCall (demo_registry\<lparr>rgTools := rev (rgTools demo_registry)\<rparr>) ''gh/search'' =
     (Some (demo_mcp ''mcp__gh__search'' ''gh'' ''search''), ''mcp__gh__search'', []) \<and>
   ResolveCall (demo_registry\<lparr>rgTools := rev (rgTools demo_registry)\<rparr>) ''search'' =
     (None, [], [''mcp__gh__search'', ''mcp__web__search''])"
proof -
  let ?r = "demo_registry\<lparr>rgTools := rev (rgTools demo_registry)\<rparr>"
  have e: "ResolveCall ?r name =
    (case GetTool name demo_registry of
       Some t \<Rightarrow> (Some t, name, [])
     | None \<Rightarrow>
         let answering = filter (answersTo name) (rgTools demo_registry) in
         if length answering = 1 then (Some (snd (hd answering)), fst (hd answering), [])
         else (None, [], sort (map fst answering)))" for name
    by (rule ResolveCall_exact) simp_all
  show ?thesis unfolding e by code_simp
qed

text \<open>C38. Registry: once the tools of a server are switched off, no later registration, removal or switching off of
  other name spaces brings them back. Until that name space is resumed, no name and no alias resolves to one of
  its tools, and none is shown to the provider.\<close>

theorem suspended_server_unreachable:
  assumes "registry_wf r" "RegResume p \<notin> set later"
    and "r' = regRun canonical (RegSuspend p # later) r"
  shows "(fst (ResolveCall r' name) \<noteq> None \<longrightarrow> \<not> HasPrefix (fst (snd (ResolveCall r' name))) p) \<and>
    list_all (\<lambda>(n, _). \<not> HasPrefix n p) (Schemas r')"
proof -
  have wf: "registry_wf r'"
    using assms(1) unfolding assms(3) by (rule regRun_wf)
  have "p \<in> set (rgSuspended (regStep canonical (RegSuspend p) r))"
    by (simp add: SuspendPrefix_def RemovePrefix_def Let_def)
  then have s: "p \<in> set (rgSuspended r')"
    unfolding assms(3) regRun_Cons using assms(2) by (rule suspended_run)
  then have free: "\<forall>n \<in> set (rgOrder r'). \<not> HasPrefix n p"
    using wf by (simp add: registry_wf_def)
  have res: "fst (ResolveCall r' name) \<noteq> None \<longrightarrow> \<not> HasPrefix (fst (snd (ResolveCall r' name))) p"
    using resolved_registered [OF wf] free by (cases "ResolveCall r' name") auto
  have "list_all (\<lambda>(n, _). n \<in> set (rgOrder r')) (Schemas r')"
    using wf by (auto simp: list_all_iff Schemas_def registry_wf_def dest!: map_of_SomeD split: option.splits)
  then have "list_all (\<lambda>(n, _). \<not> HasPrefix n p) (Schemas r')"
    using free by (auto simp: list_all_iff)
  with res show ?thesis ..
qed

definition muted_registry :: Registry where
  "muted_registry = regRun id
     (RegSuspend ''mcp__gh__'' # [RegAdd (demo_mcp ''mcp__gh__search'' ''gh'' ''search''), RegRemove ''mcp__x__'']) demo_registry"

lemma suspended_server_unreachable_witness:
  "list_all (\<lambda>(n, _). \<not> HasPrefix n ''mcp__gh__'') (Schemas muted_registry) \<and>
   map fst (Schemas muted_registry) = [''mcp__web__search'', ''read_file''] \<and>
   ResolveCall muted_registry ''gh/search'' = (None, [], []) \<and>
   ResolveCall muted_registry ''search'' = (Some (demo_mcp ''mcp__web__search'' ''web'' ''search''), ''mcp__web__search'', [])"
proof -
  have "list_all (\<lambda>(n, _). \<not> HasPrefix n ''mcp__gh__'') (Schemas muted_registry)"
    using suspended_server_unreachable [of demo_registry "''mcp__gh__''"
        "[RegAdd (demo_mcp ''mcp__gh__search'' ''gh'' ''search''), RegRemove ''mcp__x__'']" muted_registry id]
    by (simp add: muted_registry_def)
  moreover have "map fst (Schemas muted_registry) = [''mcp__web__search'', ''read_file'']"
    and "ResolveCall muted_registry ''gh/search'' = (None, [], [])"
    and "ResolveCall muted_registry ''search'' = (Some (demo_mcp ''mcp__web__search'' ''web'' ''search''), ''mcp__web__search'', [])"
    by code_simp+
  ultimately show ?thesis by blast
qed

end
