(* ===== verification/IndexManifest.thy ===== *)
theory IndexManifest
  imports IndexStore TreeCode
begin

text \<open>
  The manifest of the local store as a JSON document (\<open>indexManifest\<close> of \<open>internal/codesearch/store.go\<close> and \<open>Chunk\<close>
  of \<open>chunk.go\<close> with their field tags), what \<open>encoding/json\<close> reads back into the two structs, and the round trip
  of \<open>Save\<close> and \<open>OpenLocalStore\<close>. Only the text of a document is a parameter.
\<close>

section \<open>The document\<close>

definition chunkJson :: "Chunk \<Rightarrow> json" where
  "chunkJson c = JObj [(''path'', JStr (cPath c)), (''start_line'', JInt (cStartLine c)), (''end_line'', JInt (cEndLine c)),
     (''content'', JStr (cContent c)), (''hash'', JStr (cHash c))]"

text \<open>\<open>json.Marshal\<close> sorts the keys of a map; those of a saved manifest are sorted.\<close>

definition manifestJson :: "indexManifest \<Rightarrow> json" where
  "manifestJson man = JObj
     [(''dims'', JInt (int (imDims man))), (''model'', JStr (imModel man)),
      (''files'', JObj (map (\<lambda>(p, cs). (p, JArr (map chunkJson cs))) (imFiles man))),
      (''hashes'', JObj (map (\<lambda>(p, h). (p, JStr h)) (imHashes man))),
      (''order'', JArr (map JStr (imOrder man)))]"

definition intoChunk :: "json \<Rightarrow> Chunk option" where
  "intoChunk = decodeStruct (\<lambda>fs.
     case (structField intoString ''path'' fs [], structField intoInt ''start_line'' fs 0, structField intoInt ''end_line'' fs 0,
           structField intoString ''content'' fs [], structField intoString ''hash'' fs []) of
       (Some p, Some a, Some b, Some c, Some h) \<Rightarrow> Some \<lparr>cPath = p, cStartLine = a, cEndLine = b, cContent = c, cHash = h\<rparr>
     | _ \<Rightarrow> None)"

text \<open>Decoding into a map: the entries one after the other, each into a zero value; \<open>null\<close> gives the nil map.\<close>

fun mapEntries :: "(json \<Rightarrow> 'a option) \<Rightarrow> fields \<Rightarrow> (bytes \<times> 'a) list \<Rightarrow> (bytes \<times> 'a) list option" where
  "mapEntries dec [] m = Some m"
| "mapEntries dec ((k, j) # fs) m = (case dec j of None \<Rightarrow> None | Some v \<Rightarrow> mapEntries dec fs (AList.update k v m))"

definition intoMap :: "(json \<Rightarrow> 'a option) \<Rightarrow> (bytes \<times> 'a) list \<Rightarrow> json \<Rightarrow> (bytes \<times> 'a) list option" where
  "intoMap dec m j = (case j of JObj fs \<Rightarrow> mapEntries dec fs m | JNull \<Rightarrow> Some [] | _ \<Rightarrow> None)"

text \<open>A negative dimension never equals that of the store; it is an error here, with the same outcome.\<close>

definition manifestOf :: "json \<Rightarrow> indexManifest option" where
  "manifestOf = decodeStruct (\<lambda>fs.
     case (structField intoInt ''dims'' fs 0, structField intoString ''model'' fs [],
           structField (intoMap (decodeSlice intoChunk)) ''files'' fs [], structField (intoMap (intoString [])) ''hashes'' fs [],
           structField (\<lambda>_. decodeSlice (intoString [])) ''order'' fs []) of
       (Some d, Some m, Some fl, Some hs, Some ps) \<Rightarrow>
         if d < 0 then None else Some \<lparr>imDims = nat d, imModel = m, imFiles = fl, imHashes = hs, imOrder = ps\<rparr>
     | _ \<Rightarrow> None)"

definition readManifest :: "(bytes \<Rightarrow> json option) \<Rightarrow> bytes \<Rightarrow> indexManifest option" where
  "readManifest jParse data = (case jParse data of None \<Rightarrow> None | Some j \<Rightarrow> manifestOf j)"

definition manifestText :: "(json \<Rightarrow> bytes) \<Rightarrow> indexManifest \<Rightarrow> bytes" where
  "manifestText jMarshal man = jMarshal (manifestJson man)"

section \<open>Reading back\<close>

lemma chunk_keys:
  "\<forall>k \<in> set [''path'', ''start_line'', ''end_line'', ''content'', ''hash'']. \<forall>k' \<in> set [''path'', ''start_line'', ''end_line'', ''content'', ''hash''].
     EqualFold k k' \<longleftrightarrow> k = k'"
  by code_simp

lemma manifest_keys:
  "\<forall>k \<in> set [''dims'', ''model'', ''files'', ''hashes'', ''order'']. \<forall>k' \<in> set [''dims'', ''model'', ''files'', ''hashes'', ''order''].
     EqualFold k k' \<longleftrightarrow> k = k'"
  by code_simp

definition chunk_ints :: "Chunk \<Rightarrow> bool" where
  "chunk_ints c \<longleftrightarrow> in_int64 (cStartLine c) \<and> in_int64 (cEndLine c)"

lemma intoChunk_json: "chunk_ints c \<Longrightarrow> intoChunk (chunkJson c) = Some c"
  using chunk_keys by (simp add: intoChunk_def chunkJson_def decodeStruct_def intoString_def intoInt_def chunk_ints_def)

lemma decodeElems_map: "\<forall>x \<in> set xs. dec (f x) = Some x \<Longrightarrow> decodeElems dec (map f xs) = Some xs"
  by (induction xs) simp_all

lemma mapEntries_map:
  "\<forall>(k, v) \<in> set al. dec (f v) = Some v \<Longrightarrow> distinct (map fst al) \<Longrightarrow> fst ` set al \<inter> fst ` set m = {} \<Longrightarrow>
     mapEntries dec (map (\<lambda>(k, v). (k, f v)) al) m = Some (m @ al)"
proof (induction al arbitrary: m)
  case (Cons a al)
  obtain k v where a: "a = (k, v)" by (cases a)
  have "k \<notin> fst ` set m" using Cons.prems(3) a by auto
  then have u: "AList.update k v m = m @ [(k, v)]" by (rule update_fresh)
  have "mapEntries dec (map (\<lambda>(k, v). (k, f v)) al) (m @ [(k, v)]) = Some ((m @ [(k, v)]) @ al)"
    using Cons.prems a by (intro Cons.IH) auto
  then show ?case using Cons.prems(1) a u by simp
qed simp

definition manifest_ok :: "indexManifest \<Rightarrow> bool" where
  "manifest_ok man \<longleftrightarrow> in_int64 (int (imDims man)) \<and> distinct (map fst (imFiles man)) \<and> distinct (map fst (imHashes man)) \<and>
     (\<forall>(p, cs) \<in> set (imFiles man). \<forall>c \<in> set cs. chunk_ints c)"

lemma manifestOf_json:
  assumes "manifest_ok man"
  shows "manifestOf (manifestJson man) = Some man"
proof -
  have "decodeSlice intoChunk (JArr (map chunkJson cs)) = Some cs" if "\<forall>c \<in> set cs. chunk_ints c" for cs
    using that by (simp add: decodeSlice_def decodeElems_map intoChunk_json)
  then have "mapEntries (decodeSlice intoChunk) (map (\<lambda>(p, cs). (p, JArr (map chunkJson cs))) (imFiles man)) [] = Some ([] @ imFiles man)"
    using assms by (intro mapEntries_map [where f = "\<lambda>cs. JArr (map chunkJson cs)"]) (auto simp: manifest_ok_def)
  moreover have "mapEntries (intoString []) (map (\<lambda>(p, h). (p, JStr h)) (imHashes man)) [] = Some ([] @ imHashes man)"
    using assms by (intro mapEntries_map [where f = JStr]) (auto simp: manifest_ok_def intoString_def)
  moreover have "decodeElems (intoString []) (map JStr (imOrder man)) = Some (imOrder man)"
    by (intro decodeElems_map) (simp add: intoString_def)
  ultimately show ?thesis
    using manifest_keys assms
    by (simp add: manifestOf_def manifestJson_def decodeStruct_def intoInt_def intoString_def intoMap_def decodeSlice_def manifest_ok_def)
qed

text \<open>The Go ints of a store.\<close>

definition store_ints :: "LocalStore \<Rightarrow> bool" where
  "store_ints s \<longleftrightarrow> in_int64 (int (lsDims s)) \<and> (\<forall>fv \<in> snd ` set (lsFiles s). \<forall>c \<in> set (fvChunks fv). chunk_ints c)"

lemma saved_manifest_ok:
  assumes "local_inv s" "store_ints s"
  shows "manifest_ok (saveManifest s)"
proof -
  have d: "distinct (localPaths s)" using assms(1) by (simp add: localPaths_def local_inv_def)
  have "chunk_ints c" if "c \<in> set (case map_of (lsFiles s) p of None \<Rightarrow> [] | Some fv \<Rightarrow> fvChunks fv)" for p c
  proof (cases "map_of (lsFiles s) p")
    case (Some fv)
    then have "fv \<in> snd ` set (lsFiles s)" using map_of_SomeD [OF Some] by force
    then show ?thesis using assms(2) that Some by (auto simp: store_ints_def)
  qed (use that in simp)
  then show ?thesis using d assms(2)
    by (simp add: manifest_ok_def saveManifest_def comp_def store_ints_def)
qed

text \<open>C34. 
  Saving and opening with the same model and dimensions gives the same store: the same entries in the same order, and the
  same matches for every query. The manifest goes through its JSON document and back into the struct, the vectors through
  the blob. The one assumption on \<open>encoding/json\<close> is that the text of this document is read back as this document, which
  holds when its strings are valid UTF-8 (other bytes come back as U+FFFD). The numbers are Go ints.
\<close>

theorem save_open_roundtrip:
  assumes "local_inv s" and "store_ints s"
    and "jParse (jMarshal (manifestJson (saveManifest s))) = Some (manifestJson (saveManifest s))"
  shows "let t = OpenLocalStore (readManifest jParse) (lsModel s) (lsDims s) (Save (manifestText jMarshal) s d)
    in local_inv t \<and> local_entry t = local_entry s \<and> localPaths t = localPaths s \<and>
       localSearch cosine query limit t = localSearch cosine query limit s"
proof -
  have "readManifest jParse (manifestText jMarshal (saveManifest s)) = Some (saveManifest s)"
    using manifestOf_json [OF saved_manifest_ok [OF assms(1,2)]] by (simp add: readManifest_def manifestText_def assms(3))
  then show ?thesis by (rule save_open_same [OF assms(1)])
qed

section \<open>A sample index\<close>

theorem save_open_roundtrip_witness:
  "localPaths (OpenLocalStore (readManifest readTree) ''m'' 2 (Save (manifestText putTree) demo_index \<lparr>dkVectors = None, dkIndex = None\<rparr>)) = [''a'', ''b'']"
proof -
  have i: "local_inv demo_index" by code_simp
  have n: "store_ints demo_index" by code_simp
  have e: "lsModel demo_index = ''m''" "lsDims demo_index = 2" "localPaths demo_index = [''a'', ''b'']" by code_simp+
  show ?thesis
    using save_open_roundtrip [where jParse = readTree and jMarshal = putTree, OF i n readTree_putTree, where d = "\<lparr>dkVectors = None, dkIndex = None\<rparr>"]
    unfolding e Let_def by blast
qed

end
