(* ===== verification/Spec2Isabelle.thy ===== *)
theory Spec2Isabelle
  imports Structural Permission RecWaiters RecIdentity Voyage TaskContract EventCoalesce PlanTodos Scheduler GoalReload
    ToolRegistry IndexManifest
begin

text \<open>
  A verification library for the core logic of the repository, a coding agent written in Go. All
  paths below are relative to \<open>src/internal\<close>.

  \<^bold>\<open>What the program does.\<close> A language model proposes tool calls; the host decides
  whether a call may run (packages \<open>permission\<close>, \<open>shellparse\<close>, \<open>shellsafe\<close>), watches the outcome of
  what ran and stops runaway repair attempts (\<open>recovery\<close>), keeps a task list and a ledger of what was
  proven in a turn (\<open>evidence\<close>, \<open>taskcontract\<close>), sends the conversation to a provider and its events to
  the frontends (\<open>provider\<close>, \<open>event\<close>), and gives the model a semantic search over the workspace and its
  history (\<open>codesearch\<close>). The library has one group of theories per package.

  \<^bold>\<open>Shared conventions.\<close> \<open>GoBase\<close> is the prelude: Go strings and byte slices are byte
  lists, \<open>int\<close> stays an unbounded \<^typ>\<open>int\<close> where only line and byte positions of a file are
  computed and is a word where the width matters; slices that the code indexes out of range make the
  definition return \<open>None\<close> (the panic); it holds the parts of \<open>strings\<close>, \<open>unicode\<close> and \<open>sort\<close> the
  packages call, with the lemmas the components share. A method with a pointer receiver is a function
  from the record of its struct to the updated record. A mutex makes each critical section one
  definition, and interleavings are sequences or step relations over these sections. Everything outside
  \<open>src\<close> (parsers, JSON, SHA-256, HTTP, the file system, git, the embedding model) is an argument.

  \<^bold>\<open>Permission\<close> (\<open>ShellAst\<close>, \<open>ShellParse\<close>, \<open>ShellSafe\<close>, \<open>Glob\<close>, \<open>BashApproval\<close>, \<open>Permission\<close>).
  \<open>ShellAst\<close> is the syntax tree of the third-party parser as a datatype, \<open>ShellParse\<close> is
  \<open>shellparse/bash.go\<close> (which commands can be read statically, when an earlier failure can be
  masked), \<open>ShellSafe\<close> is \<open>shellsafe\<close> (the tables of read-only commands), \<open>Glob\<close> the wildcard
  matcher, whose two-pointer loop is proved equal to the recursive definition of matching,
  \<open>BashApproval\<close> the classes of commands that need a human, and \<open>Permission\<close> the policy and the gate
  of \<open>permission.go\<close>. The properties: a deny rule always refuses, a list of subjects gets the
  strictest decision of its members, a command with a nested execution, in a compound command too, only runs
  unasked under an exact rule, rules round-trip through their text, and what the read-only tables let through.

  \<^bold>\<open>Recovery guard\<close> (\<open>RecTypes\<close>, \<open>RecRules\<close>, \<open>RecState\<close>, \<open>RecDecision\<close>, \<open>RecGate\<close>, \<open>RecGuard\<close>,
  \<open>RecInvariant\<close>, \<open>RecGuarantees\<close>, \<open>RecWaiters\<close>, \<open>RecIdentity\<close>). \<open>RecTypes\<close> is the data of
  \<open>recovery/types.go\<close> and \<open>budget.go\<close>, \<open>RecRules\<close> the classifiers of \<open>rules.go\<close>, \<open>RecState\<close> the
  per-task state of \<open>state.go\<close>, \<open>RecDecision\<close> the pure routing of \<open>decision.go\<close>, \<open>RecGate\<close> and
  \<open>RecGuard\<close> the operations of \<open>gate.go\<close> and \<open>gate_restore.go\<close>, one definition per critical section.
  \<open>RecInvariant\<close> is the step relation of these sections and the invariant of the reachable states;
  \<open>RecGuarantees\<close> states what whole operations promise (six failures stop an episode, three stop one
  operation), \<open>RecWaiters\<close> the life of a parked question and what stands behind the replacement of a plan (the
  reviewer, or a human who resolved the card), \<open>RecIdentity\<close> what a fingerprint identifies.
  Counters are \<open>uint8\<close> and \<open>uint64\<close> words, with the saturation the code writes out.

  \<^bold>\<open>Code index\<close> (\<open>Chunker\<close>, \<open>Boundaries\<close>, \<open>PyBounds\<close>, \<open>BraceBounds\<close>, \<open>Structural\<close>,
  \<open>IndexStore\<close>, \<open>IndexManifest\<close>, \<open>IndexSync\<close>, \<open>IndexSearch\<close>, \<open>Voyage\<close>). The first five cut a file into blocks
  (\<open>codesearch/chunk.go\<close>, \<open>boundaries*.go\<close>, \<open>chunk_structural.go\<close>); in the two scanners an index that Go would
  check at run time is total, so only the slices of the packer show a panic. \<open>IndexStore\<close> is the vector store,
  whose contract is the locale \<open>vector_store\<close>, interpreted on the local store; \<open>IndexManifest\<close> is the JSON document
  of its manifest and the round trip of saving and opening; \<open>IndexSync\<close> brings the
  store in line with the workspace and \<open>IndexSearch\<close> answers queries and indexes commits, both written
  against the locale; \<open>Voyage\<close> is the client of the embedding service with its ring of keys, whose
  retry loop is a \<open>partial_function\<close> proved to return.

  \<^bold>\<open>Task list\<close> (\<open>TodoList\<close>, \<open>TodoMatch\<close>, \<open>TodoTools\<close>, \<open>PlanTodos\<close>). \<open>TodoList\<close> is the serial
  two-level list of \<open>evidence/evidence.go\<close>; its validator is proved equal to one sentence about the order
  of signing off, and signing off refines adding one to a counter. \<open>TodoMatch\<close> finds the task a citation
  means. \<open>TodoTools\<close> is the tools \<open>todo_write\<close> and \<open>complete_step\<close> (\<open>tool/builtin\<close>) and the canonical list
  of \<open>agent/agent.go\<close>, live and rebuilt from a transcript, where a session is its messages with the outcome of every
  call (ran, failed, refused, cancelled, interrupted) and the text that outcome leaves in the transcript; \<open>PlanTodos\<close> is \<open>control/plan_todos.go\<close>, which
  turns the text of a plan into a list.

  \<^bold>\<open>Evidence\<close> (\<open>GoPath\<close>, \<open>GoJson\<close>, \<open>TreeCode\<close>, \<open>EvCommand\<close>, \<open>EvLedger\<close>, \<open>EvOutcome\<close>, \<open>TaskContract\<close>).
  \<open>GoJson\<close> is what \<open>encoding/json\<close> decodes into Go values, over the tree of a document; \<open>TreeCode\<close> is a text for
  such trees with a proved reader, used where a theorem about documents is applied to a sample.
  \<open>EvCommand\<close> classifies command lines (verification, mutation, masked exit status) and matches a cited
  command with one that ran; \<open>EvLedger\<close> is the ledger of a turn: what counts as a sign-off, a review, a
  verification, and for how long; \<open>EvOutcome\<close> scores rounds (\<open>progress.go\<close>, \<open>outcome.go\<close>) and the risk of
  a change (\<open>risk.go\<close>); \<open>TaskContract\<close> is \<open>taskcontract.go\<close>, whose arbiters all read one record. The
  epoch of a contract is a 64-bit word.

  \<^bold>\<open>Final gate\<close> (\<open>CapLedger\<close>, \<open>Readiness\<close>). \<open>CapLedger\<close> is the ledger of routed capabilities
  (\<open>capability/ledger.go\<close>) and what a tool call notes in it; \<open>Readiness\<close> is the gate before a final answer
  (\<open>agent/agent.go\<close>, \<open>capability_gate.go\<close>): it composes the evidence ledger, the task list, the capabilities
  and the delivery checkpoint of a goal. A delivery that may answer has a run, a sign-off and the reviews of
  its last change behind it, and a change that was not proven survives a restart of the agent.

  \<^bold>\<open>Goals\<close> (\<open>GoalMachine\<close>, \<open>GoalReload\<close>). \<open>control/goal.go\<close>, the loop of \<open>control/turn_orchestrator.go\<close> and the tool
  \<open>update_goal\<close>: the machine decides after every turn whether a goal is complete, blocked, paused or goes on.
  The loop is a \<open>partial_function\<close> over an arbitrary environment and is proved to return within the turn
  budget, and a goal only completes when the final gate is open. \<open>GoalReload\<close> has the states of a session with
  reloads and failed updates that are rolled back, the JSON document of the sidecar, and the theorem that a goal
  survives its reload. The epoch is a 64-bit word; the environment does fewer than \<open>2 ^ 62\<close> operations in a turn.

  \<^bold>\<open>Sub-agent pool\<close> (\<open>WriteClaims\<close>, \<open>Scheduler\<close>). \<open>WriteClaims\<close> is \<open>agent/write_claims.go\<close>: the paths a
  sub-agent may write, where two claims that do not overlap share no file; \<open>Scheduler\<close> is
  \<open>agent/scheduler.go\<close> as a step relation over goroutines, with the limits and the exclusion of claims as an
  invariant, no lost wake-up, and no deadlock: a waiting goroutine gets its slot by steps of the others alone,
  each of which only finishes what it does.

  \<^bold>\<open>Tool calls\<close> (\<open>ToolRegistry\<close>, \<open>ToolOutput\<close>). \<open>ToolRegistry\<close> is the registry of \<open>tool/tool.go\<close>: its lookup
  does not depend on the iteration order of Go maps, and the tools of a server that is switched off cannot be
  reached under any name. \<open>ToolOutput\<close> is the truncation of a tool result in \<open>agent/agent.go\<close>: the exact
  form of the result, which keeps both ends cut where runes start and announces the bytes left out, and the outputs
  for which the two parts overlap.

  \<^bold>\<open>Transcript and events\<close> (\<open>ToolPairing\<close>, \<open>EventCoalesce\<close>). \<open>ToolPairing\<close> is the normalisation of a
  transcript in \<open>provider/provider.go\<close>: what is sent satisfies the tool-call contract, what is stored loses
  nothing. \<open>EventCoalesce\<close> is \<open>event/coalesce.go\<close> as a step relation over goroutines, with the invariant that
  the inner sink gets a prefix of the emitted stream and the theorem that all of it arrives, in a bounded number of
  steps of the armed timer and the goroutines at work.

  \<^bold>\<open>Not modelled.\<close> The frontends (\<open>desktop\<close>, \<open>cli\<close>, \<open>serve\<close>, \<open>bot\<close>) are rendering and bindings; the
  clients of model services, boot, self-update, sandboxes and the stores on disk are I/O around third-party
  libraries; the conversation loop of \<open>agent\<close> and the rest of the \<open>controller\<close> are glue over the components above.
  Context cancellation, telemetry and the wording of error messages are left out.
\<close>

end
